(* ===== verification/Go_Base.thy ===== *)
theory Go_Base
  imports Complex_Main "HOL-Library.Word" "HOL-Library.Signed_Division"
begin

text \<open>
  The prelude of the development: what every component uses of Go itself.

  \<^item> Errors are values of \<open>go_err\<close>: package-level sentinels (compared by identity in
    \<open>errors.Is\<close>), fresh \<open>errors.New\<close>/\<open>fmt.Errorf\<close> values, wrapped errors,
    \<open>errors.Join\<close>, and a \<open>Panic\<close> for an operation that would panic. The Chinese message texts of the sources are rendered in English;
    no definition reads them except where the source does (\<open>err_text\<close>).
  \<^item> A fallible function returns \<open>'a res\<close>, with \<open>Inl\<close> the error.
  \<^item> A \<open>time.Time\<close> is the number of nanoseconds since Go's zero time (so \<open>IsZero\<close> is
    comparison with 0), a \<open>time.Duration\<close> an \<open>int\<close> of nanoseconds.
  \<^item> \<open>wrap64\<close> writes out the wrap-around of Go's \<open>int64\<close> where it can matter.
\<close>

named_theorems go_simps "unfolding rules for the small helpers shared by the components"

subsection \<open>Errors and results\<close>

datatype go_err =
    Sentinel string
  | NewErr string
  | Panic string
  | WrapErr string go_err
  | JoinErr "go_err list"

type_synonym 'a res = "go_err + 'a"

text \<open>\<open>err.Error()\<close>: a wrapped error prints its prefix before the cause, a join one line each.\<close>

fun err_text :: "go_err \<Rightarrow> string" where
  "err_text (Sentinel m) = m"
| "err_text (NewErr m) = m"
| "err_text (Panic m) = m"
| "err_text (WrapErr m e) = m @ '': '' @ err_text e"
| "err_text (JoinErr []) = []"
| "err_text (JoinErr [e]) = err_text e"
| "err_text (JoinErr (e # es)) = err_text e @ [CHR 0x0A] @ err_text (JoinErr es)"

text \<open>\<open>errors.Is(err, target)\<close> for a sentinel target: walk the tree of causes.\<close>

fun errors_is :: "go_err \<Rightarrow> string \<Rightarrow> bool" where
  "errors_is (Sentinel m) t = (m = t)"
| "errors_is (NewErr m) t = False"
| "errors_is (Panic m) t = False"
| "errors_is (WrapErr m e) t = errors_is e t"
| "errors_is (JoinErr es) t = (\<exists>e \<in> set es. errors_is e t)"

fun res_bind :: "'a res \<Rightarrow> ('a \<Rightarrow> 'b res) \<Rightarrow> 'b res" where
  "res_bind (Inl e) f = Inl e"
| "res_bind (Inr x) f = f x"

lemma res_bind_Inr: "res_bind r f = Inr y \<longleftrightarrow> (\<exists>x. r = Inr x \<and> f x = Inr y)"
  by (cases r) auto

lemma res_bind_Inl: "res_bind r f = Inl e \<longleftrightarrow> r = Inl e \<or> (\<exists>x. r = Inr x \<and> f x = Inl e)"
  by (cases r) auto

definition is_ok :: "'a res \<Rightarrow> bool" where
  "is_ok r = (case r of Inl _ \<Rightarrow> False | Inr _ \<Rightarrow> True)"

lemma is_ok_simps [simp]: "is_ok (Inr x)" "\<not> is_ok (Inl e)"
  by (simp_all add: is_ok_def)

subsection \<open>Time\<close>

type_synonym gotime = int
type_synonym duration = int

definition is_zero_time :: "gotime \<Rightarrow> bool" where
  [go_simps]: "is_zero_time t = (t = 0)"

definition zero_time :: gotime where
  [go_simps]: "zero_time = 0"

text \<open>\<open>UnixNano\<close>: nanoseconds since 1970, which is 62135596800 seconds after the zero time.\<close>

definition unix_epoch :: gotime where
  "unix_epoch = 62135596800 * 1000000000"

definition unix_nano :: "gotime \<Rightarrow> int" where
  "unix_nano t = t - unix_epoch"

definition of_unix_nano :: "int \<Rightarrow> gotime" where
  "of_unix_nano n = n + unix_epoch"

lemma unix_nano_inverse [simp]:
  "unix_nano (of_unix_nano n) = n" "of_unix_nano (unix_nano t) = t"
  by (simp_all add: unix_nano_def of_unix_nano_def)

definition second :: duration where [go_simps]: "second = 1000000000"
definition millisecond :: duration where [go_simps]: "millisecond = 1000000"
definition minute :: duration where [go_simps]: "minute = 60000000000"

subsection \<open>Go maps\<close>

text \<open>
  A Go map is \<open>None\<close> when it is nil: it can be read and deleted from, and assigning to it panics.
\<close>

type_synonym ('k, 'v) gomap = "('k \<rightharpoonup> 'v) option"

definition gm_get :: "('k, 'v) gomap \<Rightarrow> 'k \<Rightarrow> 'v option" where
  "gm_get m k = (case m of None \<Rightarrow> None | Some f \<Rightarrow> f k)"

definition gm_del :: "('k, 'v) gomap \<Rightarrow> 'k \<Rightarrow> ('k, 'v) gomap" where
  "gm_del m k = map_option (\<lambda>f. f(k := None)) m"

definition gm_put :: "('k, 'v) gomap \<Rightarrow> 'k \<Rightarrow> 'v \<Rightarrow> ('k, 'v) gomap res" where
  "gm_put m k v = (case m of None \<Rightarrow> Inl (Panic ''assignment to entry in nil map'')
                   | Some f \<Rightarrow> Inr (Some (f(k \<mapsto> v))))"

lemma gm_get_Some [simp]: "gm_get (Some f) = f"
  by (simp add: gm_get_def fun_eq_iff)

lemma gm_simps [simp]:
  "gm_get None k = None"
  "gm_del None k = None" "gm_del (Some f) k = Some (f(k := None))"
  "gm_put None k v = Inl (Panic ''assignment to entry in nil map'')"
  "gm_put (Some f) k v = Inr (Some (f(k \<mapsto> v)))"
  by (simp_all add: gm_get_def gm_del_def gm_put_def)

subsection \<open>64-bit integers\<close>

text \<open>The value of an \<open>int64\<close> expression whose exact result is \<open>x\<close>.\<close>

definition wrap64 :: "int \<Rightarrow> int" where
  "wrap64 x = (x + 2 ^ 63) mod 2 ^ 64 - 2 ^ 63"

definition in_int64 :: "int \<Rightarrow> bool" where
  "in_int64 x = (- (2 ^ 63) \<le> x \<and> x < 2 ^ 63)"

definition max_int64 :: int where "max_int64 = 2 ^ 63 - 1"

text \<open>\<open>a.Sub(b)\<close> saturates at the ends of \<open>int64\<close>.\<close>

definition time_sub :: "gotime \<Rightarrow> gotime \<Rightarrow> duration" where
  "time_sub a b = max (- (2 ^ 63)) (min max_int64 (a - b))"

subsection \<open>Floats\<close>

text \<open>A \<open>float64\<close>: a finite value is the real number it denotes.\<close>

datatype float64 = Fin real | PosInf | NegInf | NaN

definition float_val :: "float64 \<Rightarrow> real" where
  "float_val x = (case x of Fin r \<Rightarrow> r | _ \<Rightarrow> 0)"

lemma wrap64_id [simp]: "in_int64 x \<Longrightarrow> wrap64 x = x"
  by (simp add: wrap64_def in_int64_def)

lemma wrap64_in: "in_int64 (wrap64 x)"
proof -
  have "0 \<le> (x + 2 ^ 63) mod 2 ^ 64" "(x + 2 ^ 63) mod 2 ^ 64 < 2 ^ 64"
    by simp_all
  then show ?thesis
    by (simp add: wrap64_def in_int64_def)
qed

lemma wrap64_word: "wrap64 x = sint (word_of_int x :: 64 word)"
proof -
  have "signed_take_bit 63 x = wrap64 x"
    by (simp add: signed_take_bit_eq_take_bit_shift take_bit_eq_mod wrap64_def)
  then show ?thesis
    by (simp add: signed_of_int [symmetric] sint_sbintrunc')
qed

end
