(* ===== verification/Go_Strings.thy ===== *)
theory Go_Strings
  imports Go_Base
begin

text \<open>
  The string functions of Go's standard library that the components call, over byte strings
  (\<open>string\<close>, one \<open>char\<close> per byte): prefix and suffix tests, \<open>strings.Index\<close>,
  \<open>strings.Split\<close>, \<open>strings.Join\<close>, the trim functions, \<open>strconv\<close> for decimal
  64-bit integers, and ASCII case mapping. Each function comes with the lemmas the components use.
\<close>

subsection \<open>Prefixes, suffixes and search\<close>

definition has_prefix :: "'a list \<Rightarrow> 'a list \<Rightarrow> bool" where
  "has_prefix s p = (take (length p) s = p)"

definition has_suffix :: "'a list \<Rightarrow> 'a list \<Rightarrow> bool" where
  "has_suffix s p = (length p \<le> length s \<and> drop (length s - length p) s = p)"

definition trim_prefix :: "'a list \<Rightarrow> 'a list \<Rightarrow> 'a list" where
  "trim_prefix s p = (if has_prefix s p then drop (length p) s else s)"

definition trim_suffix :: "'a list \<Rightarrow> 'a list \<Rightarrow> 'a list" where
  "trim_suffix s p = (if has_suffix s p then take (length s - length p) s else s)"

text \<open>\<open>strings.Index(s, p)\<close>: \<open>None\<close> stands for -1.\<close>

fun str_index :: "'a list \<Rightarrow> 'a list \<Rightarrow> nat option" where
  "str_index [] p = (if p = [] then Some 0 else None)"
| "str_index (c # cs) p =
     (if has_prefix (c # cs) p then Some 0 else map_option Suc (str_index cs p))"

definition str_contains :: "'a list \<Rightarrow> 'a list \<Rightarrow> bool" where
  "str_contains s p = (str_index s p \<noteq> None)"

text \<open>\<open>strings.IndexByte(s, c)\<close>.\<close>

fun index_byte :: "'a list \<Rightarrow> 'a \<Rightarrow> nat option" where
  "index_byte [] c = None"
| "index_byte (x # xs) c = (if x = c then Some 0 else map_option Suc (index_byte xs c))"

text \<open>\<open>strings.LastIndex(s, c)\<close> for a one-byte separator.\<close>

fun last_index_byte :: "'a list \<Rightarrow> 'a \<Rightarrow> nat option" where
  "last_index_byte [] c = None"
| "last_index_byte (x # xs) c =
     (case last_index_byte xs c of
        Some i \<Rightarrow> Some (Suc i)
      | None \<Rightarrow> if x = c then Some 0 else None)"

lemma has_prefix_iff: "has_prefix s p \<longleftrightarrow> (\<exists>t. s = p @ t)"
  unfolding has_prefix_def by (metis append_eq_conv_conj append_take_drop_id)

lemma has_prefix_simps [simp]:
  "has_prefix s []" "has_prefix (p @ t) p" "has_prefix (x # xs) (y # ys) = (x = y \<and> has_prefix xs ys)"
  "has_prefix [] (y # ys) = False"
  by (auto simp: has_prefix_def)

lemma has_suffix_iff: "has_suffix s p \<longleftrightarrow> (\<exists>t. s = t @ p)"
  unfolding has_suffix_def
  by (metis append_eq_conv_conj append_take_drop_id diff_add_inverse2 le_add2 length_append)

lemma has_suffix_append [simp]: "has_suffix (t @ p) p"
  by (auto simp: has_suffix_iff)

lemma trim_prefix_append [simp]: "trim_prefix (p @ t) p = t"
  by (simp add: trim_prefix_def)

lemma trim_suffix_append [simp]: "trim_suffix (t @ p) p = t"
  by (simp add: trim_suffix_def)

lemma trim_suffix_snoc [simp]: "trim_suffix (t @ [c]) [d] = (if c = d then t else t @ [c])"
  by (auto simp: trim_suffix_def has_suffix_iff)

lemma str_index_Some:
  "str_index s p = Some i \<Longrightarrow>
     i + length p \<le> length s \<and> has_prefix (drop i s) p \<and> s = take i s @ p @ drop (i + length p) s"
proof (induction s arbitrary: i)
  case Nil
  then show ?case by (simp split: if_splits)
next
  case (Cons c cs)
  show ?case
  proof (cases "has_prefix (c # cs) p")
    case True
    with Cons.prems have "i = 0" by simp
    moreover from True obtain t where t: "c # cs = p @ t"
      by (auto simp: has_prefix_iff)
    moreover have "length p \<le> length (c # cs)"
      unfolding t by simp
    ultimately show ?thesis by simp
  next
    case False
    with Cons.prems obtain j where "i = Suc j" "str_index cs p = Some j" by auto
    with Cons.IH [of j] show ?thesis by simp
  qed
qed

lemma str_index_None: "str_index s p = None \<longleftrightarrow> (\<nexists>a b. s = a @ p @ b)"
proof (induction s)
  case Nil
  show ?case by auto
next
  case (Cons c cs)
  show ?case
  proof
    assume "str_index (c # cs) p = None"
    then have np: "\<not> has_prefix (c # cs) p" and "str_index cs p = None"
      by (auto split: if_splits)
    with Cons.IH have no: "\<nexists>a b. cs = a @ p @ b" by blast
    show "\<nexists>a b. c # cs = a @ p @ b"
    proof clarify
      fix a b assume eq: "c # cs = a @ p @ b"
      show False
      proof (cases a)
        case Nil
        with eq np show ?thesis by (simp add: has_prefix_iff)
      next
        case (Cons x xs)
        with eq have "cs = xs @ p @ b" by simp
        with no show ?thesis by blast
      qed
    qed
  next
    assume no: "\<nexists>a b. c # cs = a @ p @ b"
    have "\<not> has_prefix (c # cs) p"
    proof
      assume "has_prefix (c # cs) p"
      then obtain t where "c # cs = [] @ p @ t" by (auto simp: has_prefix_iff)
      with no show False by blast
    qed
    moreover have "\<nexists>a b. cs = a @ p @ b"
      using no by (metis append_Cons)
    ultimately show "str_index (c # cs) p = None"
      using Cons.IH by simp
  qed
qed

lemma str_contains_iff: "str_contains s p \<longleftrightarrow> (\<exists>a b. s = a @ p @ b)"
  by (simp add: str_contains_def str_index_None)

lemma str_index_first:
  "str_index s p = Some i \<Longrightarrow> j < i \<Longrightarrow> \<not> has_prefix (drop j s) p"
proof (induction s arbitrary: i j)
  case Nil
  then show ?case by (simp split: if_splits)
next
  case (Cons c cs)
  from Cons.prems have np: "\<not> has_prefix (c # cs) p"
    by (auto split: if_splits)
  with Cons.prems obtain k where "i = Suc k" "str_index cs p = Some k" by auto
  with Cons np show ?case by (cases j) auto
qed

lemma index_byte_Some:
  "index_byte s c = Some i \<Longrightarrow> i < length s \<and> s ! i = c \<and> c \<notin> set (take i s)"
proof (induction s arbitrary: i)
  case Nil
  then show ?case by simp
next
  case (Cons x xs)
  then show ?case by (auto split: if_splits)
qed

lemma index_byte_None: "index_byte s c = None \<longleftrightarrow> c \<notin> set s"
  by (induction s) auto

lemma index_byte_append_notin:
  "c \<notin> set a \<Longrightarrow> index_byte (a @ c # b) c = Some (length a)"
  by (induction a) auto

lemma last_index_byte_Some:
  "last_index_byte s c = Some i \<Longrightarrow> i < length s \<and> s ! i = c \<and> c \<notin> set (drop (Suc i) s)"
proof (induction s arbitrary: i)
  case Nil
  then show ?case by simp
next
  case (Cons x xs)
  have none: "last_index_byte xs c = None \<Longrightarrow> c \<notin> set xs"
    by (induction xs) (auto split: option.splits)
  from Cons none show ?case by (auto split: option.splits if_splits)
qed

lemma last_index_byte_None: "last_index_byte s c = None \<longleftrightarrow> c \<notin> set s"
  by (induction s) (auto split: option.splits)

subsection \<open>Split and join\<close>

text \<open>\<open>strings.Split(s, sep)\<close> for a one-byte separator.\<close>

fun split_byte :: "'a list \<Rightarrow> 'a \<Rightarrow> 'a list list" where
  "split_byte [] c = [[]]"
| "split_byte (x # xs) c =
     (if x = c then [] # split_byte xs c
      else (case split_byte xs c of [] \<Rightarrow> [[x]] | y # ys \<Rightarrow> (x # y) # ys))"

text \<open>\<open>strings.Join(parts, sep)\<close>.\<close>

fun str_join :: "'a list list \<Rightarrow> 'a list \<Rightarrow> 'a list" where
  "str_join [] sep = []"
| "str_join [x] sep = x"
| "str_join (x # y # ys) sep = x @ sep @ str_join (y # ys) sep"

lemma split_byte_nonempty [simp]: "split_byte s c \<noteq> []"
  by (cases s) (auto split: list.splits)

lemma split_byte_notin [simp]: "c \<notin> set s \<Longrightarrow> split_byte s c = [s]"
  by (induction s) auto

lemma split_byte_append:
  "c \<notin> set a \<Longrightarrow> split_byte (a @ c # b) c = a # split_byte b c"
  by (induction a) auto

lemma split_byte_join:
  "xs \<noteq> [] \<Longrightarrow> \<forall>x \<in> set xs. c \<notin> set x \<Longrightarrow> split_byte (str_join xs [c]) c = xs"
  by (induction xs "[c]" rule: str_join.induct) (simp_all add: split_byte_append)

lemma join_split_byte: "str_join (split_byte s c) [c] = s"
proof (induction s)
  case Nil
  show ?case by simp
next
  case (Cons x xs)
  obtain y ys where yys: "split_byte xs c = y # ys"
    by (cases "split_byte xs c") auto
  with Cons.IH show ?case by (cases ys) auto
qed

lemma split_byte_set: "p \<in> set (split_byte s c) \<Longrightarrow> set p \<subseteq> set s"
proof (induction s arbitrary: p)
  case (Cons x xs)
  then show ?case by (cases "split_byte xs c") (fastforce split: if_splits)+
qed simp

lemma split_byte_pieces: "p \<in> set (split_byte s c) \<Longrightarrow> c \<notin> set p"
proof (induction s arbitrary: p)
  case Nil
  then show ?case by simp
next
  case (Cons x xs)
  obtain y ys where "split_byte xs c = y # ys"
    by (cases "split_byte xs c") auto
  with Cons show ?case by (auto split: if_splits)
qed

subsection \<open>Trimming\<close>

text \<open>\<open>strings.Trim(s, cutset)\<close>, with the cutset as a list of bytes.\<close>

definition trim_left_in :: "'a list \<Rightarrow> 'a list \<Rightarrow> 'a list" where
  "trim_left_in ks s = dropWhile (\<lambda>c. c \<in> set ks) s"

definition trim_in :: "'a list \<Rightarrow> 'a list \<Rightarrow> 'a list" where
  "trim_in ks s = rev (trim_left_in ks (rev (trim_left_in ks s)))"

text \<open>The ASCII part of \<open>unicode.IsSpace\<close>.\<close>

definition ascii_space :: string where
  "ascii_space = [CHR 0x09, CHR 0x0A, CHR 0x0B, CHR 0x0C, CHR 0x0D, CHR '' '']"

definition trim_space :: "string \<Rightarrow> string" where
  "trim_space s = trim_in ascii_space s"

lemma trim_left_in_hd: "trim_left_in ks s = x # xs \<Longrightarrow> x \<notin> set ks"
  unfolding trim_left_in_def by (metis dropWhile_eq_Cons_conv)

lemma trim_in_split: "\<exists>a b. s = a @ trim_in ks s @ b"
proof -
  obtain a where a: "s = a @ trim_left_in ks s"
    unfolding trim_left_in_def by (metis takeWhile_dropWhile_id)
  obtain b where b: "rev (trim_left_in ks s) = b @ trim_left_in ks (rev (trim_left_in ks s))"
    unfolding trim_left_in_def by (metis takeWhile_dropWhile_id)
  then have "trim_left_in ks s = trim_in ks s @ rev b"
    unfolding trim_in_def by (metis rev_append rev_rev_ident)
  with a show ?thesis by metis
qed

lemma set_trim_in: "set (trim_in ks s) \<subseteq> set s"
  using trim_in_split [of s ks] by (metis Un_iff set_append subsetI)

lemma length_trim_in: "length (trim_in ks s) \<le> length s"
  using trim_in_split [of s ks] by (metis length_append le_add1 le_add2 le_trans)

lemma trim_in_last: "trim_in ks s \<noteq> [] \<Longrightarrow> last (trim_in ks s) \<notin> set ks"
  unfolding trim_in_def
  by (metis last_rev list.exhaust_sel rev_is_Nil_conv trim_left_in_hd)

lemma trim_in_hd: "trim_in ks s \<noteq> [] \<Longrightarrow> hd (trim_in ks s) \<notin> set ks"
proof -
  assume ne: "trim_in ks s \<noteq> []"
  obtain b where b: "rev (trim_left_in ks s) = b @ trim_left_in ks (rev (trim_left_in ks s))"
    unfolding trim_left_in_def by (metis takeWhile_dropWhile_id)
  then have eq: "trim_left_in ks s = trim_in ks s @ rev b"
    unfolding trim_in_def by (metis rev_append rev_rev_ident)
  with ne have "hd (trim_left_in ks s) = hd (trim_in ks s)" by simp
  moreover have "trim_left_in ks s \<noteq> []" using eq ne by auto
  ultimately show ?thesis by (metis list.exhaust_sel trim_left_in_hd)
qed

lemma trim_left_in_id: "s = [] \<or> hd s \<notin> set ks \<Longrightarrow> trim_left_in ks s = s"
  by (cases s) (auto simp: trim_left_in_def)

lemma trim_in_id: "s = [] \<or> hd s \<notin> set ks \<and> last s \<notin> set ks \<Longrightarrow> trim_in ks s = s"
proof (cases "s = []")
  case True
  then show ?thesis by (simp add: trim_in_def trim_left_in_id)
next
  case False
  assume "s = [] \<or> hd s \<notin> set ks \<and> last s \<notin> set ks"
  with False have "hd s \<notin> set ks" "hd (rev s) \<notin> set ks"
    by (simp_all add: hd_rev)
  then show ?thesis by (simp add: trim_in_def trim_left_in_id)
qed

subsection \<open>ASCII case mapping\<close>

definition ascii_lower :: "char \<Rightarrow> char" where
  "ascii_lower c = (let n = (of_char c :: nat) in
     if 65 \<le> n \<and> n \<le> 90 then char_of (n + 32) else c)"

definition ascii_upper :: "char \<Rightarrow> char" where
  "ascii_upper c = (let n = (of_char c :: nat) in
     if 97 \<le> n \<and> n \<le> 122 then char_of (n - 32) else c)"

definition to_lower :: "string \<Rightarrow> string" where "to_lower s = map ascii_lower s"
definition to_upper :: "string \<Rightarrow> string" where "to_upper s = map ascii_upper s"

text \<open>\<open>strings.EqualFold\<close> on ASCII strings.\<close>

definition equal_fold :: "string \<Rightarrow> string \<Rightarrow> bool" where
  "equal_fold s t = (to_lower s = to_lower t)"

subsection \<open>Decimal integers\<close>

definition digit_char :: "nat \<Rightarrow> char" where
  "digit_char d = char_of (48 + d)"

fun show_nat :: "nat \<Rightarrow> string" where
  "show_nat n = (if n < 10 then [digit_char n] else show_nat (n div 10) @ [digit_char (n mod 10)])"

declare show_nat.simps [simp del]

text \<open>\<open>strconv.FormatInt(x, 10)\<close>, \<open>strconv.Itoa\<close> and the verb \<open>%d\<close>.\<close>

definition show_int :: "int \<Rightarrow> string" where
  "show_int x = (if x < 0 then CHR ''-'' # show_nat (nat (- x)) else show_nat (nat x))"

definition is_digit :: "char \<Rightarrow> bool" where
  "is_digit c = (48 \<le> (of_char c :: nat) \<and> (of_char c :: nat) \<le> 57)"

definition digits_value :: "string \<Rightarrow> nat" where
  "digits_value s = foldl (\<lambda>n c. 10 * n + (of_char c - 48)) 0 s"

definition parse_digits :: "string \<Rightarrow> nat option" where
  "parse_digits s = (if s \<noteq> [] \<and> list_all is_digit s then Some (digits_value s) else None)"

text \<open>
  \<open>strconv.ParseInt(s, 10, 64)\<close> and \<open>strconv.Atoi\<close>: an optional sign, digits only, in range;
  \<open>None\<close> is the error (syntax or range).
\<close>

definition parse_int64 :: "string \<Rightarrow> int option" where
  "parse_int64 s =
     (let (neg, t) = (case s of
          [] \<Rightarrow> (False, s)
        | c # cs \<Rightarrow> if c = CHR ''-'' then (True, cs) else if c = CHR ''+'' then (False, cs) else (False, s))
      in case parse_digits t of
           None \<Rightarrow> None
         | Some n \<Rightarrow>
             (let v = (if neg then - int n else int n)
              in if in_int64 v then Some v else None))"

lemma digit_char_simps [simp]:
  "digit_char 0 = CHR ''0''" "digit_char (Suc 0) = CHR ''1''" "digit_char 1 = CHR ''1''"
  "digit_char 2 = CHR ''2''" "digit_char 3 = CHR ''3''" "digit_char 4 = CHR ''4''"
  "digit_char 5 = CHR ''5''" "digit_char 6 = CHR ''6''" "digit_char 7 = CHR ''7''"
  "digit_char 8 = CHR ''8''" "digit_char 9 = CHR ''9''"
  by code_simp+

lemma of_char_digit [simp]: "d < 10 \<Longrightarrow> (of_char (digit_char d) :: nat) = 48 + d"
  by (simp add: digit_char_def)

lemma is_digit_digit_char [simp]: "d < 10 \<Longrightarrow> is_digit (digit_char d)"
  by (simp add: is_digit_def)

lemma show_nat_digits: "list_all is_digit (show_nat n) \<and> show_nat n \<noteq> [] \<and> digits_value (show_nat n) = n"
proof (induction n rule: show_nat.induct)
  case (1 n)
  show ?case
  proof (cases "n < 10")
    case True
    then show ?thesis by (subst show_nat.simps) (simp add: digits_value_def show_nat.simps)
  next
    case False
    with 1 show ?thesis
      by (simp add: show_nat.simps [of n] digits_value_def)
  qed
qed

lemma parse_digits_show_nat [simp]: "parse_digits (show_nat n) = Some n"
  using show_nat_digits [of n] by (simp add: parse_digits_def)

lemma show_nat_first: "show_nat n = c # cs \<Longrightarrow> c \<noteq> CHR ''-'' \<and> c \<noteq> CHR ''+''"
  using show_nat_digits [of n] by (auto simp: is_digit_def)

lemma parse_show_int: "in_int64 x \<Longrightarrow> parse_int64 (show_int x) = Some x"
proof (cases "x < 0")
  case True
  assume "in_int64 x"
  with True show ?thesis
    by (simp add: parse_int64_def show_int_def Let_def)
next
  case False
  assume "in_int64 x"
  moreover obtain c cs where c: "show_nat (nat x) = c # cs"
    using show_nat_digits [of "nat x"] by (cases "show_nat (nat x)") auto
  moreover have "c \<noteq> CHR ''-''" "c \<noteq> CHR ''+''"
    using show_nat_first [OF c] by auto
  moreover have "parse_digits (c # cs) = Some (nat x)"
    using c [symmetric] by simp
  ultimately show ?thesis
    using False by (simp add: parse_int64_def show_int_def Let_def)
qed

lemma parse_int64_range: "parse_int64 s = Some x \<Longrightarrow> in_int64 x"
  by (auto simp: parse_int64_def Let_def split: option.splits if_splits prod.splits)

lemma show_int_inj: "in_int64 x \<Longrightarrow> in_int64 y \<Longrightarrow> show_int x = show_int y \<Longrightarrow> x = y"
  by (metis option.inject parse_show_int)

lemma show_int_chars: "c \<in> set (show_int x) \<Longrightarrow> is_digit c \<or> c = CHR ''-''"
  using show_nat_digits [of "nat x"] show_nat_digits [of "nat (- x)"]
  by (auto simp: show_int_def list_all_iff split: if_splits)

end
