(* ===== verification/Go_Json.thy ===== *)
theory Go_Json
  imports Go_Strings
begin

text \<open>
  The part of Go's encoding/json the components use: the compact encoder (with the default HTML-safe
  escapes) and a parser of the JSON grammar, over bytes, and the round trip between them.
  Not modelled: the replacement of invalid UTF-8 (the theorems are about ASCII text) and the nesting limit.
\<close>

subsection \<open>Values\<close>

datatype json =
    JNull
  | JBool bool
  | JNum string
  | JStr string
  | JArr "json list"
  | JObj "(string \<times> json) list"

definition JInt :: "int \<Rightarrow> json" where
  "JInt x = JNum (show_int x)"

definition quote_char :: char where "quote_char = CHR 0x22"
definition backslash :: char where "backslash = CHR 0x5C"

definition hex_digit :: "nat \<Rightarrow> char" where
  "hex_digit n = (if n < 10 then char_of (48 + n) else char_of (87 + n))"

definition hex_value :: "char \<Rightarrow> nat option" where
  "hex_value c = (let n = (of_char c :: nat) in
     if 48 \<le> n \<and> n \<le> 57 then Some (n - 48)
     else if 97 \<le> n \<and> n \<le> 102 then Some (n - 87)
     else if 65 \<le> n \<and> n \<le> 70 then Some (n - 55)
     else None)"

definition hex_encode :: "string \<Rightarrow> string" where
  "hex_encode s = concat (map (\<lambda>c. let n = (of_char c :: nat) in [hex_digit (n div 16), hex_digit (n mod 16)]) s)"

subsection \<open>Encoding\<close>

text \<open>One byte inside a JSON string literal.\<close>

definition escape_char :: "char \<Rightarrow> string" where
  "escape_char c = (let n = (of_char c :: nat) in
     if c = quote_char \<or> c = backslash then [backslash, c]
     else if n = 8 then [backslash, CHR ''b'']
     else if n = 12 then [backslash, CHR ''f'']
     else if n = 10 then [backslash, CHR ''n'']
     else if n = 13 then [backslash, CHR ''r'']
     else if n = 9 then [backslash, CHR ''t'']
     else if n < 32 \<or> c = CHR ''<'' \<or> c = CHR ''>'' \<or> c = CHR 0x26
       then [backslash, CHR ''u'', CHR ''0'', CHR ''0'', hex_digit (n div 16), hex_digit (n mod 16)]
     else [c])"

definition json_string :: "string \<Rightarrow> string" where
  "json_string s = quote_char # concat (map escape_char s) @ [quote_char]"

fun json_print :: "json \<Rightarrow> string"
  and elems_print :: "json list \<Rightarrow> string"
  and members_print :: "(string \<times> json) list \<Rightarrow> string" where
  "json_print JNull = ''null''"
| "json_print (JBool b) = (if b then ''true'' else ''false'')"
| "json_print (JNum l) = l"
| "json_print (JStr s) = json_string s"
| "json_print (JArr vs) = CHR ''['' # elems_print vs"
| "json_print (JObj ms) = CHR ''{'' # members_print ms"
| "elems_print [] = '']''"
| "elems_print [v] = json_print v @ '']''"
| "elems_print (v # vs) = json_print v @ '','' @ elems_print vs"
| "members_print [] = ''}''"
| "members_print [(k, v)] = json_string k @ '':'' @ json_print v @ ''}''"
| "members_print ((k, v) # ms) = json_string k @ '':'' @ json_print v @ '','' @ members_print ms"

subsection \<open>Parsing\<close>

definition json_space :: "char \<Rightarrow> bool" where
  "json_space c = (c = CHR '' '' \<or> c = CHR 0x09 \<or> c = CHR 0x0A \<or> c = CHR 0x0D)"

definition skip_ws :: "string \<Rightarrow> string" where
  "skip_ws s = dropWhile json_space s"

definition hex4 :: "char \<Rightarrow> char \<Rightarrow> char \<Rightarrow> char \<Rightarrow> nat option" where
  "hex4 a b c d = (case (hex_value a, hex_value b, hex_value c, hex_value d) of
     (Some w, Some x, Some y, Some z) \<Rightarrow> Some (((w * 16 + x) * 16 + y) * 16 + z)
   | _ \<Rightarrow> None)"

definition utf8_encode :: "nat \<Rightarrow> string" where
  "utf8_encode n =
     (if n < 0x80 then [char_of n]
      else if n < 0x800 then [char_of (0xC0 + n div 64), char_of (0x80 + n mod 64)]
      else if n < 0x10000 then
        [char_of (0xE0 + n div 4096), char_of (0x80 + n div 64 mod 64), char_of (0x80 + n mod 64)]
      else [char_of (0xF0 + n div 262144), char_of (0x80 + n div 4096 mod 64),
            char_of (0x80 + n div 64 mod 64), char_of (0x80 + n mod 64)])"

definition rune_error :: string where "rune_error = utf8_encode 0xFFFD"

text \<open>The rest of a \<open>\\u\<close> escape with code \<open>n\<close>: the bytes and what is left. A surrogate needs its pair.\<close>

definition unicode_escape :: "nat \<Rightarrow> string \<Rightarrow> string \<times> string" where
  "unicode_escape n r =
     (if 0xD800 \<le> n \<and> n < 0xDC00 then
        (case r of
           b # u # a1 # a2 # a3 # a4 # r' \<Rightarrow>
             if b = backslash \<and> u = CHR ''u'' then
               (case hex4 a1 a2 a3 a4 of
                  Some m \<Rightarrow> if 0xDC00 \<le> m \<and> m < 0xE000
                    then (utf8_encode ((n - 0xD800) * 0x400 + (m - 0xDC00) + 0x10000), r') else (rune_error, r)
                | None \<Rightarrow> (rune_error, r))
             else (rune_error, r)
         | _ \<Rightarrow> (rune_error, r))
      else if 0xDC00 \<le> n \<and> n < 0xE000 then (rune_error, r)
      else (utf8_encode n, r))"

definition simple_escape :: "char \<Rightarrow> char option" where
  "simple_escape c =
     (if c = quote_char \<or> c = backslash \<or> c = CHR ''/'' then Some c
      else if c = CHR ''b'' then Some (CHR 0x08)
      else if c = CHR ''f'' then Some (CHR 0x0C)
      else if c = CHR ''n'' then Some (CHR 0x0A)
      else if c = CHR ''r'' then Some (CHR 0x0D)
      else if c = CHR ''t'' then Some (CHR 0x09)
      else None)"

lemma unicode_escape_length: "length (snd (unicode_escape n r)) \<le> length r"
  by (auto simp: unicode_escape_def split: list.splits option.splits)

text \<open>The body of a string literal after the opening quote: the bytes and what follows the closing quote.\<close>

function json_str_body :: "string \<Rightarrow> (string \<times> string) option" where
  "json_str_body s =
     (case s of [] \<Rightarrow> None
      | c # cs \<Rightarrow>
          if c = quote_char then Some ([], cs)
          else if (of_char c :: nat) < 32 then None
          else if c \<noteq> backslash then map_option (apfst (\<lambda>t. c # t)) (json_str_body cs)
          else (case cs of
              [] \<Rightarrow> None
            | e # r \<Rightarrow>
                (case simple_escape e of
                   Some x \<Rightarrow> map_option (apfst (\<lambda>t. x # t)) (json_str_body r)
                 | None \<Rightarrow>
                     if e \<noteq> CHR ''u'' then None
                     else (case r of
                         a1 # a2 # a3 # a4 # r' \<Rightarrow>
                           (case hex4 a1 a2 a3 a4 of
                              None \<Rightarrow> None
                            | Some n \<Rightarrow> map_option (apfst (\<lambda>t. fst (unicode_escape n r') @ t))
                                (json_str_body (snd (unicode_escape n r'))))
                       | _ \<Rightarrow> None))))"
  by pat_completeness auto
termination
  by (relation "measure length")
     (auto simp: less_Suc_eq_le intro!: order_trans [OF unicode_escape_length] le_SucI)

declare json_str_body.simps [simp del]

text \<open>A number literal: sign, integer part without leading zero, fraction, exponent.\<close>

definition scan_number :: "string \<Rightarrow> (string \<times> string) option" where
  "scan_number s =
     (let (sign, s1) = (case s of c # cs \<Rightarrow> if c = CHR ''-'' then ([c], cs) else ([], s) | [] \<Rightarrow> ([], s));
          ip = takeWhile is_digit s1; s2 = dropWhile is_digit s1
      in if ip = [] \<or> hd ip = CHR ''0'' \<and> 1 < length ip then None
         else
           case (case s2 of
               c # cs \<Rightarrow> if c = CHR ''.'' then
                   (if takeWhile is_digit cs = [] then None
                    else Some (c # takeWhile is_digit cs, dropWhile is_digit cs))
                 else Some ([], s2)
             | [] \<Rightarrow> Some ([], s2)) of
             None \<Rightarrow> None
           | Some (fr, s3) \<Rightarrow>
               (case s3 of
                  c # cs \<Rightarrow>
                    if c = CHR ''e'' \<or> c = CHR ''E'' then
                      (let (es, s4) = (case cs of x # xs \<Rightarrow> if x = CHR ''+'' \<or> x = CHR ''-'' then ([x], xs) else ([], cs)
                                        | [] \<Rightarrow> ([], cs))
                       in if takeWhile is_digit s4 = [] then None
                          else Some (sign @ ip @ fr @ c # es @ takeWhile is_digit s4, dropWhile is_digit s4))
                    else Some (sign @ ip @ fr, s3)
                | [] \<Rightarrow> Some (sign @ ip @ fr, s3)))"

fun parse_value :: "nat \<Rightarrow> string \<Rightarrow> (json \<times> string) option"
  and parse_elems :: "nat \<Rightarrow> string \<Rightarrow> (json list \<times> string) option"
  and parse_members :: "nat \<Rightarrow> string \<Rightarrow> ((string \<times> json) list \<times> string) option" where
  "parse_value 0 s = None"
| "parse_value (Suc n) s =
     (case skip_ws s of
        [] \<Rightarrow> None
      | c # cs \<Rightarrow>
          if c = quote_char then map_option (apfst JStr) (json_str_body cs)
          else if c = CHR ''['' then
            (if skip_ws cs \<noteq> [] \<and> hd (skip_ws cs) = CHR '']'' then Some (JArr [], tl (skip_ws cs))
             else map_option (apfst JArr) (parse_elems n cs))
          else if c = CHR ''{'' then
            (if skip_ws cs \<noteq> [] \<and> hd (skip_ws cs) = CHR ''}'' then Some (JObj [], tl (skip_ws cs))
             else map_option (apfst JObj) (parse_members n cs))
          else if has_prefix (c # cs) ''null'' then Some (JNull, drop 4 (c # cs))
          else if has_prefix (c # cs) ''true'' then Some (JBool True, drop 4 (c # cs))
          else if has_prefix (c # cs) ''false'' then Some (JBool False, drop 5 (c # cs))
          else map_option (apfst JNum) (scan_number (c # cs)))"
| "parse_elems 0 s = None"
| "parse_elems (Suc n) s =
     (case parse_value n s of
        None \<Rightarrow> None
      | Some (v, r) \<Rightarrow>
          (case skip_ws r of
             [] \<Rightarrow> None
           | c # r' \<Rightarrow>
               if c = CHR '','' then map_option (apfst (\<lambda>vs. v # vs)) (parse_elems n r')
               else if c = CHR '']'' then Some ([v], r')
               else None))"
| "parse_members 0 s = None"
| "parse_members (Suc n) s =
     (case skip_ws s of
        [] \<Rightarrow> None
      | q # cs \<Rightarrow>
          if q \<noteq> quote_char then None
          else (case json_str_body cs of
              None \<Rightarrow> None
            | Some (k, r) \<Rightarrow>
                (case skip_ws r of
                   [] \<Rightarrow> None
                 | c # r' \<Rightarrow>
                     if c \<noteq> CHR '':'' then None
                     else (case parse_value n r' of
                         None \<Rightarrow> None
                       | Some (v, r2) \<Rightarrow>
                           (case skip_ws r2 of
                              [] \<Rightarrow> None
                            | d # r3 \<Rightarrow>
                                if d = CHR '','' then map_option (apfst (\<lambda>ms. (k, v) # ms)) (parse_members n r3)
                                else if d = CHR ''}'' then Some ([(k, v)], r3)
                                else None)))))"

text \<open>Every level of nesting and every element costs at most one unit of fuel per input byte.\<close>

definition json_parse :: "string \<Rightarrow> json option" where
  "json_parse s =
     (case parse_value (Suc (length s)) s of
        Some (v, r) \<Rightarrow> if skip_ws r = [] then Some v else None
      | None \<Rightarrow> None)"

subsection \<open>Round trip\<close>

definition ascii :: "string \<Rightarrow> bool" where
  "ascii s = list_all (\<lambda>c. (of_char c :: nat) < 128) s"

lemma hex_digit_simps [simp]:
  "hex_digit 0 = CHR ''0''" "hex_digit (Suc 0) = CHR ''1''" "hex_digit 1 = CHR ''1''" "hex_digit 2 = CHR ''2''"
  "hex_digit 3 = CHR ''3''" "hex_digit 4 = CHR ''4''" "hex_digit 5 = CHR ''5''" "hex_digit 6 = CHR ''6''"
  "hex_digit 7 = CHR ''7''" "hex_digit 8 = CHR ''8''" "hex_digit 9 = CHR ''9''" "hex_digit 10 = CHR ''a''"
  "hex_digit 11 = CHR ''b''" "hex_digit 12 = CHR ''c''" "hex_digit 13 = CHR ''d''" "hex_digit 14 = CHR ''e''"
  "hex_digit 15 = CHR ''f''"
  by code_simp+

lemma hex_digit_value [simp]: "n < 16 \<Longrightarrow> hex_value (hex_digit n) = Some n"
  by (simp add: hex_value_def hex_digit_def Let_def)

lemma hex_value_zero [simp]: "hex_value (CHR ''0'') = Some 0"
  by (simp add: hex_value_def)

lemma char_of_of [simp]: "char_of (of_char c :: nat) = c"
  by simp

lemma quote_backslash [simp]: "quote_char \<noteq> backslash" "backslash \<noteq> quote_char"
  "(of_char quote_char :: nat) = 34" "(of_char backslash :: nat) = 92"
  by (simp_all add: quote_char_def backslash_def)

lemma char_of_controls [simp]:
  "char_of (8::nat) = CHR 0x08" "char_of (9::nat) = CHR 0x09" "char_of (10::nat) = CHR 0x0A"
  "char_of (12::nat) = CHR 0x0C" "char_of (13::nat) = CHR 0x0D"
  by code_simp+

lemma append_singleton [simp]: "(@) [x] = (#) x"
  by (simp add: fun_eq_iff)

lemma quote_neq [simp]:
  "CHR ''n'' \<noteq> quote_char" "CHR ''t'' \<noteq> quote_char" "CHR ''f'' \<noteq> quote_char" "CHR ''['' \<noteq> quote_char"
  "CHR ''{'' \<noteq> quote_char" "quote_char \<noteq> CHR '']''" "quote_char \<noteq> CHR ''}''"
  by (simp_all add: quote_char_def)

lemma str_body_plain:
  "c \<noteq> quote_char \<Longrightarrow> c \<noteq> backslash \<Longrightarrow> 32 \<le> (of_char c :: nat) \<Longrightarrow>
     json_str_body (c # t) = map_option (apfst (\<lambda>s. c # s)) (json_str_body t)"
  by (subst json_str_body.simps) simp

lemma str_body_quote [simp]: "json_str_body (quote_char # t) = Some ([], t)"
  by (subst json_str_body.simps) simp

lemma str_body_escape:
  "simple_escape e = Some x \<Longrightarrow>
     json_str_body (backslash # e # t) = map_option (apfst (\<lambda>s. x # s)) (json_str_body t)"
  by (subst json_str_body.simps) simp

lemma str_body_unicode:
  "n < 128 \<Longrightarrow>
     json_str_body (backslash # CHR ''u'' # CHR ''0'' # CHR ''0'' # hex_digit (n div 16) # hex_digit (n mod 16) # t) =
       map_option (apfst (\<lambda>s. char_of n # s)) (json_str_body t)"
  by (subst json_str_body.simps)
     (simp add: simple_escape_def quote_char_def backslash_def hex4_def unicode_escape_def utf8_encode_def)

lemma str_body_escape_char:
  assumes "(of_char c :: nat) < 128"
  shows "json_str_body (escape_char c @ t) = map_option (apfst (\<lambda>s. c # s)) (json_str_body t)"
proof -
  define n where "n = (of_char c :: nat)"
  have c: "c = char_of n" by (simp add: n_def)
  have n: "n < 128" using assms by (simp add: n_def)
  consider "c = quote_char \<or> c = backslash" | "n = 8" | "n = 12" | "n = 10" | "n = 13" | "n = 9"
    | "c \<noteq> quote_char" "c \<noteq> backslash" "n \<noteq> 8" "n \<noteq> 12" "n \<noteq> 10" "n \<noteq> 13" "n \<noteq> 9"
      "n < 32 \<or> c = CHR ''<'' \<or> c = CHR ''>'' \<or> c = CHR 0x26"
    | "c \<noteq> quote_char" "c \<noteq> backslash" "\<not> n < 32" "c \<noteq> CHR ''<''" "c \<noteq> CHR ''>''" "c \<noteq> CHR 0x26"
    by blast
  then show ?thesis
  proof cases
    case 1
    then show ?thesis
      by (auto simp: escape_char_def str_body_escape simple_escape_def)
  next
    case 7
    then have "escape_char c = [backslash, CHR ''u'', CHR ''0'', CHR ''0'', hex_digit (n div 16), hex_digit (n mod 16)]"
      by (simp add: escape_char_def n_def [symmetric] Let_def)
    then show ?thesis using str_body_unicode [OF n, of t] c by simp
  next
    case 8
    then have "escape_char c = [c]"
      by (auto simp: escape_char_def n_def [symmetric] Let_def)
    with 8 show ?thesis by (simp add: str_body_plain n_def)
  qed (simp_all add: c escape_char_def quote_char_def backslash_def,
       simp_all add: str_body_escape [unfolded backslash_def] simple_escape_def quote_char_def backslash_def)
qed

lemma str_body_print:
  "ascii s \<Longrightarrow> json_str_body (concat (map escape_char s) @ quote_char # t) = Some (s, t)"
  by (induction s) (simp_all add: ascii_def str_body_escape_char)

lemma takeWhile_digits:
  "list_all is_digit ds \<Longrightarrow> rest = [] \<or> \<not> is_digit (hd rest) \<Longrightarrow>
     takeWhile is_digit (ds @ rest) = ds \<and> dropWhile is_digit (ds @ rest) = rest"
  by (induction ds) (cases rest; auto)+

lemma show_nat_lead: "1 < length (show_nat n) \<Longrightarrow> hd (show_nat n) \<noteq> CHR ''0''"
proof (induction n rule: show_nat.induct)
  case (1 n)
  show ?case
  proof (cases "n < 10")
    case True
    with "1.prems" show ?thesis by (simp add: show_nat.simps [of n])
  next
    case False
    then have eq: "show_nat n = show_nat (n div 10) @ [digit_char (n mod 10)]"
      by (simp add: show_nat.simps [of n])
    have ne: "show_nat (n div 10) \<noteq> []" using show_nat_digits by blast
    show ?thesis
    proof (cases "1 < length (show_nat (n div 10))")
      case True
      with "1.IH" False eq ne show ?thesis by simp
    next
      case short: False
      then have "n div 10 < 10"
        using show_nat_digits [of "n div 10 div 10"] by (cases "n div 10 < 10") (auto simp: show_nat.simps [of "n div 10"])
      moreover from this False have "n div 10 \<noteq> 0" by simp
      moreover have "digit_char m \<noteq> CHR ''0''" if "m < 10" "m \<noteq> 0" for m
      proof
        assume "digit_char m = CHR ''0''"
        then have "(of_char (digit_char m) :: nat) = of_char (CHR ''0'')" by simp
        with that show False by simp
      qed
      ultimately show ?thesis
        using eq by (simp add: show_nat.simps [of "n div 10"])
    qed
  qed
qed

text \<open>What may follow a value inside an encoded document.\<close>

definition stops :: "string \<Rightarrow> bool" where
  "stops rest = (rest = [] \<or> hd rest = CHR '','' \<or> hd rest = CHR '']'' \<or> hd rest = CHR ''}'')"

lemma stops_simps [simp]: "stops []" "stops (CHR '','' # r)" "stops (CHR '']'' # r)" "stops (CHR ''}'' # r)"
  by (simp_all add: stops_def)

lemma stops_digit: "stops rest \<Longrightarrow> rest = [] \<or> \<not> is_digit (hd rest)"
  by (auto simp: stops_def is_digit_def)

lemma scan_number_show:
  assumes "stops rest"
  shows "scan_number (show_int x @ rest) = Some (show_int x, rest)"
proof -
  define ds where "ds = show_nat (nat \<bar>x\<bar>)"
  have ds: "list_all is_digit ds" "ds \<noteq> []" "\<not> (hd ds = CHR ''0'' \<and> 1 < length ds)"
    using show_nat_digits [of "nat \<bar>x\<bar>"] show_nat_lead [of "nat \<bar>x\<bar>"] by (auto simp: ds_def)
  note tw = takeWhile_digits [OF ds(1) stops_digit [OF assms]]
  have rest: "case rest of [] \<Rightarrow> True | c # cs \<Rightarrow> c \<noteq> CHR ''.'' \<and> c \<noteq> CHR ''e'' \<and> c \<noteq> CHR ''E''"
    using assms by (auto simp: stops_def split: list.splits)
  show ?thesis
  proof (cases "x < 0")
    case True
    then have "show_int x = CHR ''-'' # ds" by (simp add: show_int_def ds_def)
    with tw ds rest show ?thesis
      by (auto simp: scan_number_def split: list.splits)
  next
    case False
    then have eq: "show_int x = ds" by (simp add: show_int_def ds_def)
    obtain d ds' where d: "ds = d # ds'" "d \<noteq> CHR ''-''"
    proof (cases ds)
      case (Cons d ds')
      with ds that show ?thesis by (cases "d = CHR ''-''") (simp_all add: is_digit_def)
    qed (use ds in simp)
    with tw ds rest show ?thesis
      unfolding eq by (auto simp: scan_number_def split: list.splits)
  qed
qed

text \<open>Documents whose strings are ASCII and whose numbers are integers.\<close>

fun json_ok :: "json \<Rightarrow> bool" where
  "json_ok JNull = True"
| "json_ok (JBool b) = True"
| "json_ok (JNum l) = (\<exists>x. l = show_int x)"
| "json_ok (JStr s) = ascii s"
| "json_ok (JArr vs) = (\<forall>v \<in> set vs. json_ok v)"
| "json_ok (JObj ms) = (\<forall>(k, v) \<in> set ms. ascii k \<and> json_ok v)"

lemma skip_ws_not [simp]: "\<not> json_space c \<Longrightarrow> skip_ws (c # cs) = c # cs"
  by (simp add: skip_ws_def)

lemma not_space [simp]:
  "\<not> json_space quote_char" "\<not> json_space (CHR ''['')" "\<not> json_space (CHR '']'')" "\<not> json_space (CHR ''{'')"
  "\<not> json_space (CHR ''}'')" "\<not> json_space (CHR '','')" "\<not> json_space (CHR '':'')"
  "\<not> json_space (CHR ''n'')" "\<not> json_space (CHR ''t'')" "\<not> json_space (CHR ''f'')"
  by (simp_all add: json_space_def quote_char_def)

lemma show_int_first:
  obtains c cs where "show_int x = c # cs" "is_digit c \<or> c = CHR ''-''"
proof (cases "show_int x")
  case Nil
  then show ?thesis
    using show_nat_digits by (auto simp: show_int_def split: if_splits)
next
  case (Cons c cs)
  with show_int_chars [of c x] that show ?thesis by auto
qed

lemma digit_not: "is_digit c \<or> c = CHR ''-'' \<Longrightarrow>
    \<not> json_space c \<and> c \<noteq> quote_char \<and> c \<noteq> CHR ''['' \<and> c \<noteq> CHR ''{'' \<and> c \<noteq> CHR '']'' \<and> c \<noteq> CHR ''}'' \<and>
    c \<noteq> CHR ''n'' \<and> c \<noteq> CHR ''t'' \<and> c \<noteq> CHR ''f''"
  by (auto simp: is_digit_def json_space_def quote_char_def)

text \<open>The first byte of an encoded value is neither white space nor a closing bracket.\<close>

lemma json_print_first:
  "json_ok j \<Longrightarrow> \<exists>c cs. json_print j = c # cs \<and> \<not> json_space c \<and> c \<noteq> CHR '']'' \<and> c \<noteq> CHR ''}''"
proof (cases j)
  case (JNum l)
  assume "json_ok j"
  with JNum obtain x where "l = show_int x" by auto
  with JNum show ?thesis
    by (cases rule: show_int_first [of x]) (use digit_not in auto)
qed (auto simp: json_string_def quote_char_def json_space_def)

lemma json_string_append: "json_string k @ t = quote_char # concat (map escape_char k) @ quote_char # t"
  by (simp add: json_string_def)

lemma parse_value_head:
  "\<not> json_space c \<Longrightarrow> c \<noteq> quote_char \<Longrightarrow> c \<noteq> CHR ''['' \<Longrightarrow> c \<noteq> CHR ''{'' \<Longrightarrow> c \<noteq> CHR ''n'' \<Longrightarrow> c \<noteq> CHR ''t'' \<Longrightarrow>
     c \<noteq> CHR ''f'' \<Longrightarrow> parse_value (Suc n) (c # cs) = map_option (apfst JNum) (scan_number (c # cs))"
  by simp

lemma parse_number:
  assumes "0 < n" and "stops rest"
  shows "parse_value n (show_int x @ rest) = Some (JNum (show_int x), rest)"
proof -
  obtain m where n: "n = Suc m" using assms(1) by (cases n) auto
  obtain c cs where c: "show_int x = c # cs" and d: "is_digit c \<or> c = CHR ''-''"
    by (rule show_int_first)
  have "parse_value n (show_int x @ rest) = map_option (apfst JNum) (scan_number (show_int x @ rest))"
    unfolding n c append_Cons using digit_not [OF d] by (intro parse_value_head) auto
  then show ?thesis by (simp add: scan_number_show [OF assms(2)])
qed

lemma not_closing:
  assumes "json_ok v"
  shows "skip_ws (json_print v @ t) = json_print v @ t"
    and "\<not> (json_print v @ t \<noteq> [] \<and> hd (json_print v @ t) = CHR '']'')"
proof -
  from json_print_first [OF assms] obtain c cs where "json_print v = c # cs" "\<not> json_space c" "c \<noteq> CHR '']''"
    by blast
  then show "skip_ws (json_print v @ t) = json_print v @ t"
    and "\<not> (json_print v @ t \<noteq> [] \<and> hd (json_print v @ t) = CHR '']'')"
    by auto
qed

lemma elems_print_head: "vs \<noteq> [] \<Longrightarrow> \<exists>t. elems_print vs = json_print (hd vs) @ t"
  by (cases vs rule: elems_print.cases) auto

lemma members_print_head: "ms \<noteq> [] \<Longrightarrow> \<exists>t. members_print ms = quote_char # t"
  by (cases ms rule: members_print.cases) (auto simp: json_string_def)

lemma json_round_trip_gen:
  "json_ok j \<Longrightarrow> length (json_print j) \<le> n \<Longrightarrow> stops rest \<Longrightarrow>
     parse_value n (json_print j @ rest) = Some (j, rest)"
  "\<forall>v \<in> set vs. json_ok v \<Longrightarrow> vs \<noteq> [] \<Longrightarrow> length (elems_print vs) \<le> n \<Longrightarrow>
     parse_elems n (elems_print vs @ rest) = Some (vs, rest)"
  "\<forall>(k, v) \<in> set ms. ascii k \<and> json_ok v \<Longrightarrow> ms \<noteq> [] \<Longrightarrow> length (members_print ms) \<le> n \<Longrightarrow>
     parse_members n (members_print ms @ rest) = Some (ms, rest)"
proof (induction j and vs and ms arbitrary: n rest and n rest and n rest
    rule: json_print_elems_print_members_print.induct)
  case 1
  then obtain m where "n = Suc m" by (cases n) auto
  then show ?case by (simp add: quote_char_def)
next
  case (2 b)
  then obtain m where "n = Suc m" by (cases n) (auto split: if_splits)
  then show ?case by (simp add: quote_char_def)
next
  case (3 l)
  then obtain x where "l = show_int x" by auto
  moreover have "0 < n" using 3 calculation by (cases rule: show_int_first [of x]) auto
  ultimately show ?case using parse_number 3 by simp
next
  case (4 s)
  then obtain m where n: "n = Suc m" by (cases n) (auto simp: json_string_def)
  from 4 show ?case
    unfolding json_print.simps json_string_append n by (simp add: str_body_print)
next
  case (5 vs)
  then obtain m where n: "n = Suc m" by (cases n) auto
  show ?case
  proof (cases "vs = []")
    case True
    then show ?thesis by (simp add: n quote_char_def)
  next
    case False
    from 5 n False have IH: "parse_elems m (elems_print vs @ rest) = Some (vs, rest)" by simp
    from elems_print_head [OF False] obtain t where t: "elems_print vs = json_print (hd vs) @ t" by blast
    have "json_ok (hd vs)" using 5 False by simp
    from not_closing [OF this, of "t @ rest"] IH show ?thesis
      by (auto simp: n t quote_char_def)
  qed
next
  case (6 ms)
  then obtain m where n: "n = Suc m" by (cases n) auto
  show ?case
  proof (cases "ms = []")
    case True
    then show ?thesis by (simp add: n quote_char_def)
  next
    case False
    from 6 n False have IH: "parse_members m (members_print ms @ rest) = Some (ms, rest)" by simp
    from members_print_head [OF False] obtain t where t: "members_print ms = quote_char # t" by blast
    from IH show ?thesis by (simp add: n t)
  qed
next
  case 7
  then show ?case by simp
next
  case (8 v)
  then obtain m where n: "n = Suc m" by (cases n) auto
  from 8 have "parse_value m (json_print v @ CHR '']'' # rest) = Some (v, CHR '']'' # rest)" by (simp add: n)
  then show ?case by (simp add: n)
next
  case (9 v v' vs)
  then obtain m where n: "n = Suc m" by (cases n) auto
  from 9 have "parse_value m (json_print v @ CHR '','' # elems_print (v' # vs) @ rest) =
      Some (v, CHR '','' # elems_print (v' # vs) @ rest)" by (simp add: n)
  moreover from 9 have "parse_elems m (elems_print (v' # vs) @ rest) = Some (v' # vs, rest)" by (simp add: n)
  ultimately show ?case by (simp add: n)
next
  case 10
  then show ?case by simp
next
  case (11 k v)
  then obtain m where n: "n = Suc m" by (cases n) auto
  from 11 have "parse_value m (json_print v @ CHR ''}'' # rest) = Some (v, CHR ''}'' # rest)" by (simp add: n)
  with 11 show ?case by (simp add: n json_string_append str_body_print)
next
  case (12 k v p ms)
  then obtain m where n: "n = Suc m" by (cases n) auto
  from 12 have "parse_value m (json_print v @ CHR '','' # members_print (p # ms) @ rest) =
      Some (v, CHR '','' # members_print (p # ms) @ rest)" by (simp add: n)
  moreover from 12 have "parse_members m (members_print (p # ms) @ rest) = Some (p # ms, rest)" by (simp add: n)
  ultimately show ?case using 12 by (simp add: n json_string_append str_body_print)
qed

theorem json_round_trip: "json_ok j \<Longrightarrow> json_parse (json_print j) = Some j"
  using json_round_trip_gen(1) [of j "Suc (length (json_print j))" "[]"]
  by (simp add: json_parse_def skip_ws_def)

end
