(* ===== verification/Go_Base64.thy ===== *)
theory Go_Base64
  imports Go_Strings
begin

text \<open>
  \<open>base64.RawURLEncoding\<close> and, at the end, \<open>base64.StdEncoding\<close> of Go's library. The raw
  encoding has no padding; line breaks are skipped when decoding and unused trailing bits ignored, as the decoder does outside its strict mode. A byte is a \<open>char\<close>.
\<close>

definition b64_alphabet :: string where
  "b64_alphabet = ''ABCDEFGHIJKLMNOPQRSTUVWXYZabcdefghijklmnopqrstuvwxyz0123456789-_''"

definition b64_char :: "nat \<Rightarrow> char" where
  "b64_char n = b64_alphabet ! n"

definition b64_digit :: "char \<Rightarrow> nat option" where
  "b64_digit c = index_byte b64_alphabet c"

fun b64_digits :: "nat list \<Rightarrow> nat list" where
  "b64_digits [] = []"
| "b64_digits [a] = [a div 4, (a mod 4) * 16]"
| "b64_digits [a, b] = [a div 4, (a mod 4) * 16 + b div 16, (b mod 16) * 4]"
| "b64_digits (a # b # c # rest) =
     (a div 4) # ((a mod 4) * 16 + b div 16) # ((b mod 16) * 4 + c div 64) # (c mod 64) # b64_digits rest"

fun b64_bytes :: "nat list \<Rightarrow> nat list option" where
  "b64_bytes [] = Some []"
| "b64_bytes [x] = None"
| "b64_bytes [x, y] = Some [x * 4 + y div 16]"
| "b64_bytes [x, y, z] = Some [x * 4 + y div 16, (y mod 16) * 16 + z div 4]"
| "b64_bytes (x # y # z # w # rest) =
     map_option (\<lambda>bs. (x * 4 + y div 16) # ((y mod 16) * 16 + z div 4) # ((z mod 4) * 64 + w) # bs) (b64_bytes rest)"

definition b64_encode :: "string \<Rightarrow> string" where
  "b64_encode s = map b64_char (b64_digits (map of_char s))"

definition b64_decode :: "string \<Rightarrow> string option" where
  "b64_decode s =
     (let ds = map b64_digit (filter (\<lambda>c. c \<noteq> CHR 0x0A \<and> c \<noteq> CHR 0x0D) s) in
      if None \<in> set ds then None else map_option (map char_of) (b64_bytes (map the ds)))"

lemma index_byte_nth: "distinct xs \<Longrightarrow> n < length xs \<Longrightarrow> index_byte xs (xs ! n) = Some n"
  by (induction xs arbitrary: n) (auto simp: nth_Cons split: nat.splits)

lemma b64_alphabet_facts: "distinct b64_alphabet" "length b64_alphabet = 64"
  "list_all (\<lambda>c. c \<notin> set [CHR 0x0A, CHR 0x0D, CHR '':'', CHR '']'', CHR ''.'']) b64_alphabet"
  by (simp_all add: b64_alphabet_def)

lemma b64_digit_char: "n < 64 \<Longrightarrow> b64_digit (b64_char n) = Some n"
  by (simp add: b64_digit_def b64_char_def index_byte_nth b64_alphabet_facts)

lemma pack_digits:
  fixes x y k :: nat
  shows "y < k \<Longrightarrow> (x * k + y) div k = x" and "y < k \<Longrightarrow> (x * k + y) mod k = y"
  by simp_all

lemma byte_parts:
  fixes a :: nat
  assumes "a < 256"
  shows "a div 4 < 64" and "a div 16 < 16" and "a div 64 < 4"
  using assms by auto

lemma b64_digits_range: "list_all (\<lambda>a. a < 256) as \<Longrightarrow> list_all (\<lambda>d. d < 64) (b64_digits as)"
proof (induction as rule: b64_digits.induct)
  case (3 a b)
  then show ?case using byte_parts [of a] byte_parts [of b] by simp
next
  case (4 a b c rest)
  then have "a mod 4 * 16 + b div 16 < 64" "b mod 16 * 4 + c div 64 < 64"
    using byte_parts [of b] byte_parts [of c] by simp_all
  then show ?case using 4 byte_parts [of a] by simp
qed auto

lemma b64_bytes_digits: "list_all (\<lambda>a. a < 256) as \<Longrightarrow> b64_bytes (b64_digits as) = Some as"
proof (induction as rule: b64_digits.induct)
  case (3 a b)
  then show ?case using byte_parts [of b] by (simp add: pack_digits)
next
  case (4 a b c rest)
  then show ?case using byte_parts [of b] byte_parts [of c] by (simp add: pack_digits)
qed auto

lemma b64_round_trip: "b64_decode (b64_encode s) = Some s"
proof -
  have "list_all (\<lambda>a. a < 256) (map (of_char :: char \<Rightarrow> nat) s)" by (simp add: list_all_iff)
  note range = b64_digits_range [OF this] and bytes = b64_bytes_digits [OF this]
  let ?ds = "b64_digits (map of_char s)"
  have chars: "filter (\<lambda>c. c \<noteq> CHR 0x0A \<and> c \<noteq> CHR 0x0D) (map b64_char ?ds) = map b64_char ?ds"
    using range b64_alphabet_facts
    by (auto simp: list_all_iff b64_char_def all_set_conv_all_nth intro!: filter_True)
  have digits: "map b64_digit (map b64_char ?ds) = map Some ?ds"
    using range by (auto simp: list_all_iff b64_digit_char)
  show ?thesis
    unfolding b64_decode_def b64_encode_def Let_def chars digits
    by (auto simp: bytes comp_def)
qed

lemma b64_encode_chars: "c \<in> set (b64_encode s) \<Longrightarrow> c \<in> set b64_alphabet"
proof -
  assume c: "c \<in> set (b64_encode s)"
  have "list_all (\<lambda>a. a < 256) (map (of_char :: char \<Rightarrow> nat) s)" by (simp add: list_all_iff)
  from b64_digits_range [OF this] c show ?thesis
    by (auto simp: b64_encode_def b64_char_def list_all_iff b64_alphabet_facts)
qed

lemma b64_encode_nil: "b64_encode s = [] \<longleftrightarrow> s = []"
  by (cases "map (of_char :: char \<Rightarrow> nat) s" rule: b64_digits.cases) (auto simp: b64_encode_def)


subsection \<open>The standard encoding\<close>

text \<open>\<open>base64.StdEncoding\<close>: its own last two digits, and padding to a multiple of four.\<close>

definition std_digit :: "char \<Rightarrow> char" where
  "std_digit c = (if c = CHR ''-'' then CHR ''+'' else if c = CHR ''_'' then CHR ''/'' else c)"

definition url_digit :: "char \<Rightarrow> char" where
  "url_digit c = (if c = CHR ''+'' then CHR ''-'' else if c = CHR ''/'' then CHR ''_'' else c)"

definition b64_padding :: "string \<Rightarrow> string" where
  "b64_padding body = (case length body mod 4 of 0 \<Rightarrow> [] | n \<Rightarrow> replicate (4 - n) (CHR ''=''))"

definition b64std_encode :: "string \<Rightarrow> string" where
  "b64std_encode s = (let body = map std_digit (b64_encode s) in body @ b64_padding body)"

text \<open>The digits before the padding, which must fill the last quantum; a character that only the other alphabet has is an error.\<close>

definition b64std_decode :: "string \<Rightarrow> string option" where
  "b64std_decode s =
     (let t = filter (\<lambda>c. c \<noteq> CHR 0x0A \<and> c \<noteq> CHR 0x0D) s;
        body = takeWhile (\<lambda>c. c \<noteq> CHR ''='') t; padding = dropWhile (\<lambda>c. c \<noteq> CHR ''='') t
      in if length body mod 4 = 1 \<or> padding \<noteq> b64_padding body then None
        else if CHR ''-'' \<in> set body \<or> CHR ''_'' \<in> set body then None
        else b64_decode (map url_digit body))"

lemma alphabet_std: "c \<in> set b64_alphabet \<Longrightarrow> url_digit (std_digit c) = c \<and>
    std_digit c \<notin> set [CHR 0x0A, CHR 0x0D, CHR ''='', CHR ''-'', CHR ''_'', CHR '':'']"
  by (auto simp: b64_alphabet_def url_digit_def std_digit_def)

lemma b64_digits_length: "length (b64_digits xs) mod 4 \<noteq> 1"
  by (induction xs rule: b64_digits.induct) auto

lemma b64std_body:
  "url_digit ` set [] = {}" "map url_digit (map std_digit (b64_encode s)) = b64_encode s"
  "\<forall>c \<in> set (map std_digit (b64_encode s)). c \<notin> set [CHR 0x0A, CHR 0x0D, CHR ''='', CHR ''-'', CHR ''_'', CHR '':'']"
  using b64_encode_chars alphabet_std by (auto simp: map_idI)

lemma b64_padding_chars: "c \<in> set (b64_padding body) \<Longrightarrow> c = CHR ''=''"
  by (auto simp: b64_padding_def split: nat.splits)

lemma b64std_chars: "c \<in> set (b64std_encode s) \<Longrightarrow> c \<notin> set [CHR 0x0A, CHR 0x0D, CHR '':'']"
  using b64std_body(3) [of s] by (auto simp: b64std_encode_def Let_def dest: b64_padding_chars)

lemma b64std_encode_nil: "b64std_encode s = [] \<longleftrightarrow> s = []"
  using b64_encode_nil [of s] b64_encode_nil [of "[]"] by (auto simp: b64std_encode_def Let_def b64_padding_def)

lemma b64std_round_trip: "b64std_decode (b64std_encode s) = Some s"
proof -
  let ?body = "map std_digit (b64_encode s)"
  let ?padding = "b64_padding ?body"
  have pads: "\<forall>c \<in> set ?padding. c = CHR ''=''" by (simp add: b64_padding_chars)
  have "\<forall>c \<in> set ?body. c \<noteq> CHR 0x0A \<and> c \<noteq> CHR 0x0D" using b64std_body(3) [of s] by simp
  moreover have "\<forall>c \<in> set ?padding. c \<noteq> CHR 0x0A \<and> c \<noteq> CHR 0x0D"
  proof
    fix c
    assume "c \<in> set ?padding"
    with pads have "c = CHR ''=''" by blast
    then show "c \<noteq> CHR 0x0A \<and> c \<noteq> CHR 0x0D" by simp
  qed
  ultimately have filter: "filter (\<lambda>c. c \<noteq> CHR 0x0A \<and> c \<noteq> CHR 0x0D) (?body @ ?padding) = ?body @ ?padding"
    by (intro filter_True) (simp add: ball_Un)
  have no_eq: "\<forall>c \<in> set ?body. c \<noteq> CHR ''=''" using b64std_body(3) [of s] by auto
  have body: "takeWhile (\<lambda>c. c \<noteq> CHR ''='') (?body @ ?padding) = ?body"
  proof -
    have "takeWhile (\<lambda>c. c \<noteq> CHR ''='') ?padding = []" using pads by (cases ?padding) auto
    with no_eq show ?thesis by (subst takeWhile_append2) auto
  qed
  have rest: "dropWhile (\<lambda>c. c \<noteq> CHR ''='') (?body @ ?padding) = ?padding"
    using body takeWhile_dropWhile_id [of "\<lambda>c. c \<noteq> CHR ''=''" "?body @ ?padding"] by (metis same_append_eq)
  have "length ?body mod 4 \<noteq> 1" using b64_digits_length by (simp add: b64_encode_def)
  moreover have "CHR ''-'' \<notin> set ?body" "CHR ''_'' \<notin> set ?body" using b64std_body(3) [of s] by auto
  ultimately show ?thesis
    unfolding b64std_decode_def b64std_encode_def Let_def filter body rest b64std_body(2) b64_round_trip by simp
qed

subsection \<open>The standard encoding without padding\<close>

definition b64rawstd_encode :: "string \<Rightarrow> string" where
  "b64rawstd_encode s = map std_digit (b64_encode s)"

definition b64rawstd_decode :: "string \<Rightarrow> string option" where
  "b64rawstd_decode s = (if CHR ''-'' \<in> set s \<or> CHR ''_'' \<in> set s then None else b64_decode (map url_digit s))"

lemma b64rawstd_round_trip: "b64rawstd_decode (b64rawstd_encode s) = Some s"
proof -
  have "CHR ''-'' \<notin> set (map std_digit (b64_encode s))" "CHR ''_'' \<notin> set (map std_digit (b64_encode s))" using b64std_body(3) [of s] by auto
  then show ?thesis unfolding b64rawstd_decode_def b64rawstd_encode_def b64std_body(2) by (simp add: b64_round_trip)
qed

lemma b64rawstd_encode_nil: "b64rawstd_encode s = [] \<longleftrightarrow> s = []"
  by (simp add: b64rawstd_encode_def b64_encode_nil)

end
