(* ===== verification/Cache_Interface.thy ===== *)
theory Cache_Interface
  imports Go_Strings
begin

text \<open>
  The interface \<open>cache.Cache\<close> (cache/cache.go) the other components program against, as a
  record of operations over an abstract store, and the contract a provider promises, as the
  locale \<open>kv_cache\<close>. A call happens at one instant \<open>now\<close>. The contract speaks of what is
  visible: \<open>live s t k\<close> is the value a string key would have at time \<open>t\<close> if no operation
  came in between, \<open>hfield s t k f\<close> the field of a hash. Instants of calls lie after Go's zero time.

  Also here: the helpers of cache/revision.go, and the error test \<open>isTokenCacheMiss\<close>.
\<close>

record 's cache_ops =
  c_get :: "gotime \<Rightarrow> string \<Rightarrow> 's \<Rightarrow> string res \<times> 's"
  c_incr :: "gotime \<Rightarrow> string \<Rightarrow> 's \<Rightarrow> int res \<times> 's"
  c_getdel :: "gotime \<Rightarrow> string \<Rightarrow> 's \<Rightarrow> string res \<times> 's"
  c_set :: "gotime \<Rightarrow> string \<Rightarrow> string \<Rightarrow> duration \<Rightarrow> 's \<Rightarrow> unit res \<times> 's"
  c_del :: "gotime \<Rightarrow> string \<Rightarrow> 's \<Rightarrow> unit res \<times> 's"
  c_expire :: "gotime \<Rightarrow> string \<Rightarrow> duration \<Rightarrow> 's \<Rightarrow> unit res \<times> 's"
  c_exists :: "gotime \<Rightarrow> string \<Rightarrow> 's \<Rightarrow> bool \<times> 's"
  c_hgetall :: "gotime \<Rightarrow> string \<Rightarrow> 's \<Rightarrow> (string, string) gomap res \<times> 's"
  c_hget :: "gotime \<Rightarrow> string \<Rightarrow> string \<Rightarrow> 's \<Rightarrow> string res \<times> 's"
  c_hset :: "gotime \<Rightarrow> string \<Rightarrow> string \<Rightarrow> string \<Rightarrow> 's \<Rightarrow> unit res \<times> 's"
  c_hdel :: "gotime \<Rightarrow> string \<Rightarrow> string \<Rightarrow> 's \<Rightarrow> unit res \<times> 's"
  c_hexists :: "gotime \<Rightarrow> string \<Rightarrow> string \<Rightarrow> 's \<Rightarrow> unit res \<times> 's"

definition err_not_found :: go_err where
  "err_not_found = Sentinel ''cache: key not found''"

definition redis_nil :: string where
  "redis_nil = ''redis: nil''"

text \<open>\<open>isTokenCacheMiss\<close>: a missing key, for Redis and for the memory cache.\<close>

definition is_token_cache_miss :: "go_err \<Rightarrow> bool" where
  "is_token_cache_miss e =
     (errors_is e redis_nil \<or> str_contains (err_text e) ''not found'' \<or>
      str_contains (err_text e) ''key expired'')"

text \<open>How long a value written at \<open>now\<close> with the given time to live is visible.\<close>

definition within_ttl :: "gotime \<Rightarrow> duration \<Rightarrow> gotime \<Rightarrow> bool" where
  "within_ttl now ttl t = (ttl \<le> 0 \<or> t \<le> now + ttl)"

locale kv_cache =
  fixes ops :: "'s cache_ops"
    and live :: "'s \<Rightarrow> gotime \<Rightarrow> string \<Rightarrow> string option"
    and hfield :: "'s \<Rightarrow> gotime \<Rightarrow> string \<Rightarrow> string \<Rightarrow> string option"
    and inv :: "'s \<Rightarrow> bool"
  assumes expiry_final: "live s t k = None \<Longrightarrow> t \<le> t' \<Longrightarrow> live s t' k = None"
    and get_result: "inv s \<Longrightarrow> (case live s now k of
          Some v \<Rightarrow> fst (c_get ops now k s) = Inr v
        | None \<Rightarrow> \<exists>e. fst (c_get ops now k s) = Inl e \<and> is_token_cache_miss e)"
    and get_state: "inv s \<Longrightarrow> s' = snd (c_get ops now k s) \<Longrightarrow>
          inv s' \<and> (\<forall>t \<ge> now. live s' t = live s t \<and> hfield s' t = hfield s t)"
    and getdel_result: "inv s \<Longrightarrow> (case live s now k of
          Some v \<Rightarrow> fst (c_getdel ops now k s) = Inr v
        | None \<Rightarrow> \<exists>e. fst (c_getdel ops now k s) = Inl e)"
    and getdel_state: "inv s \<Longrightarrow> s' = snd (c_getdel ops now k s) \<Longrightarrow>
          inv s' \<and> (\<forall>t \<ge> now. live s' t = (live s t)(k := None) \<and> hfield s' t = hfield s t)"
    and set_result: "inv s \<Longrightarrow> fst (c_set ops now k v ttl s) = Inr ()"
    and set_state: "inv s \<Longrightarrow> 0 \<le> now \<Longrightarrow> s' = snd (c_set ops now k v ttl s) \<Longrightarrow>
          inv s' \<and> (\<forall>t \<ge> now. hfield s' t = hfield s t \<and>
            live s' t = (live s t)(k := if within_ttl now ttl t then Some v else None))"
    and del_result: "inv s \<Longrightarrow> fst (c_del ops now k s) = Inr ()"
    and del_state: "inv s \<Longrightarrow> s' = snd (c_del ops now k s) \<Longrightarrow>
          inv s' \<and> (\<forall>t \<ge> now. live s' t = (live s t)(k := None) \<and> hfield s' t = hfield s t)"
    and expire_result: "inv s \<Longrightarrow> live s now k \<noteq> None \<Longrightarrow> fst (c_expire ops now k d s) = Inr ()"
    and expire_state: "inv s \<Longrightarrow> 0 \<le> now \<Longrightarrow> s' = snd (c_expire ops now k d s) \<Longrightarrow>
          inv s' \<and> (\<forall>t \<ge> now. hfield s' t = hfield s t \<and>
            (\<forall>k'. k' \<noteq> k \<longrightarrow> live s' t k' = live s t k') \<and>
            (\<forall>v. live s now k = Some v \<longrightarrow>
               live s' t k = (if within_ttl now d t then Some v else None)))"
    and exists_result: "inv s \<Longrightarrow> fst (c_exists ops now k s) = (live s now k \<noteq> None)"
    and exists_state: "inv s \<Longrightarrow> s' = snd (c_exists ops now k s) \<Longrightarrow>
          inv s' \<and> (\<forall>t \<ge> now. live s' t = live s t \<and> hfield s' t = hfield s t)"
    and hgetall_result: "inv s \<Longrightarrow> (case fst (c_hgetall ops now k s) of
          Inr m \<Rightarrow> gm_get m = hfield s now k
        | Inl e \<Rightarrow> is_token_cache_miss e \<and> hfield s now k = Map.empty)"
    and hgetall_state: "inv s \<Longrightarrow> s' = snd (c_hgetall ops now k s) \<Longrightarrow>
          inv s' \<and> (\<forall>t \<ge> now. live s' t = live s t \<and> hfield s' t = hfield s t)"
    and hget_result: "inv s \<Longrightarrow> (case hfield s now k f of
          Some v \<Rightarrow> fst (c_hget ops now k f s) = Inr v
        | None \<Rightarrow> \<exists>e. fst (c_hget ops now k f s) = Inl e \<and> is_token_cache_miss e)"
    and hget_state: "inv s \<Longrightarrow> s' = snd (c_hget ops now k f s) \<Longrightarrow>
          inv s' \<and> (\<forall>t \<ge> now. live s' t = live s t \<and> hfield s' t = hfield s t)"
    and hset_result: "inv s \<Longrightarrow> fst (c_hset ops now k f v s) = Inr ()"
    and hset_state: "inv s \<Longrightarrow> s' = snd (c_hset ops now k f v s) \<Longrightarrow>
          inv s' \<and> (\<forall>t \<ge> now. live s' t = live s t \<and>
            hfield s' t = (hfield s t)(k := (hfield s t k)(f \<mapsto> v)))"
    and hdel_result: "inv s \<Longrightarrow> fst (c_hdel ops now k f s) = Inr () \<or>
          (\<exists>e. fst (c_hdel ops now k f s) = Inl e \<and> is_token_cache_miss e \<and> hfield s now k = Map.empty)"
    and hdel_state: "inv s \<Longrightarrow> s' = snd (c_hdel ops now k f s) \<Longrightarrow>
          inv s' \<and> (\<forall>t \<ge> now. live s' t = live s t \<and>
            hfield s' t = (hfield s t)(k := (hfield s t k)(f := None)))"
begin

lemma get_cases:
  assumes "inv s"
  obtains (hit) v where "live s now k = Some v" "fst (c_get ops now k s) = Inr v"
  | (miss) e where "live s now k = None" "fst (c_get ops now k s) = Inl e" "is_token_cache_miss e"
  using get_result [OF assms, of now k] by (auto split: option.splits)

lemma getdel_cases:
  assumes "inv s"
  obtains (hit) v where "live s now k = Some v" "fst (c_getdel ops now k s) = Inr v"
  | (miss) e where "live s now k = None" "fst (c_getdel ops now k s) = Inl e"
  using getdel_result [OF assms, of now k] by (auto split: option.splits)

text \<open>A value handed out by \<open>GetDel\<close> is never handed out again.\<close>

lemma getdel_once:
  assumes "inv s" and "now \<le> now'"
  shows "\<not> is_ok (fst (c_getdel ops now' k (snd (c_getdel ops now k s))))"
proof -
  let ?s = "snd (c_getdel ops now k s)"
  have "inv ?s" and "live ?s now' k = None"
    using getdel_state [OF assms(1) refl] assms(2) by auto
  then show ?thesis
    using getdel_result [of ?s now' k] by auto
qed

lemma get_after_set:
  assumes "inv s" and "0 \<le> now" and "now \<le> now'" and "within_ttl now ttl now'"
  shows "fst (c_get ops now' k (snd (c_set ops now k v ttl s))) = Inr v"
proof -
  let ?s = "snd (c_set ops now k v ttl s)"
  have "inv ?s" and "live ?s now' k = Some v"
    using set_state [OF assms(1,2) refl] assms(3,4) by auto
  then show ?thesis
    using get_result [of ?s now' k] by simp
qed

lemma getdel_after_set:
  assumes "inv s" and "0 \<le> now" and "now \<le> now'" and "within_ttl now ttl now'"
  shows "fst (c_getdel ops now' k (snd (c_set ops now k v ttl s))) = Inr v"
proof -
  let ?s = "snd (c_set ops now k v ttl s)"
  have "inv ?s" and "live ?s now' k = Some v"
    using set_state [OF assms(1,2) refl] assms(3,4) by auto
  then show ?thesis
    using getdel_result [of ?s now' k] by simp
qed

lemma get_after_del:
  assumes "inv s" and "now \<le> now'"
  shows "\<exists>e. fst (c_get ops now' k (snd (c_del ops now k s))) = Inl e \<and> is_token_cache_miss e"
proof -
  let ?s = "snd (c_del ops now k s)"
  have "inv ?s" and "live ?s now' k = None"
    using del_state [OF assms(1) refl] assms(2) by auto
  then show ?thesis
    using get_result [of ?s now' k] by simp
qed

end

text \<open>
  A cache in which \<open>Del\<close> is final until somebody writes the key again: \<open>gone s k\<close> holds after \<open>Del\<close> and \<open>GetDel\<close>,
  and neither \<open>Expire\<close> nor any operation on hashes or on other keys brings the key back.
\<close>

locale revocable_cache = kv_cache ops live hfield inv
  for ops :: "'s cache_ops" and live hfield inv +
  fixes gone :: "'s \<Rightarrow> string \<Rightarrow> bool"
  assumes gone_live: "gone s k \<Longrightarrow> live s t k = None"
    and del_gone: "inv s \<Longrightarrow> gone (snd (c_del ops now k s)) k"
    and del_keeps_gone: "inv s \<Longrightarrow> gone s k \<Longrightarrow> gone (snd (c_del ops now k' s)) k"
    and expire_gone: "inv s \<Longrightarrow> gone s k \<Longrightarrow> gone (snd (c_expire ops now k' d s)) k"
    and set_gone: "inv s \<Longrightarrow> gone s k \<Longrightarrow> k' \<noteq> k \<Longrightarrow> gone (snd (c_set ops now k' v d s)) k"
    and read_gone: "inv s \<Longrightarrow> gone s k \<Longrightarrow> gone (snd (c_get ops now k' s)) k"
      "inv s \<Longrightarrow> gone s k \<Longrightarrow> gone (snd (c_exists ops now k' s)) k"
    and hash_gone: "inv s \<Longrightarrow> gone s k \<Longrightarrow> gone (snd (c_hgetall ops now k' s)) k"
      "inv s \<Longrightarrow> gone s k \<Longrightarrow> gone (snd (c_hget ops now k' f s)) k"
      "inv s \<Longrightarrow> gone s k \<Longrightarrow> gone (snd (c_hset ops now k' f v s)) k"
      "inv s \<Longrightarrow> gone s k \<Longrightarrow> gone (snd (c_hdel ops now k' f s)) k"
    and getdel_gone: "inv s \<Longrightarrow> gone (snd (c_getdel ops now k s)) k"
    and getdel_keeps_gone: "inv s \<Longrightarrow> gone s k \<Longrightarrow> gone (snd (c_getdel ops now k' s)) k"
begin

text \<open>A key deleted while somebody is about to extend its expiry stays deleted.\<close>

lemma del_then_expire:
  assumes "inv s" and "0 \<le> now'" and "now \<le> now'"
  shows "live (snd (c_expire ops now' k d (snd (c_del ops now k s)))) t k = None"
proof -
  have "inv (snd (c_del ops now k s))"
    using del_state [OF assms(1) refl] by simp
  then show ?thesis
    by (rule gone_live [OF expire_gone [OF _ del_gone [OF assms(1)]]])
qed

end

subsection \<open>Shared revisions (cache/revision.go)\<close>

text \<open>A nil store is \<open>None\<close>.\<close>

definition read_revision :: "'s cache_ops option \<Rightarrow> gotime \<Rightarrow> string \<Rightarrow> 's \<Rightarrow> (string \<times> bool) \<times> 's" where
  "read_revision store now key s =
     (case store of None \<Rightarrow> (([], False), s)
      | Some ops \<Rightarrow>
          (case c_get ops now key s of
             (Inr revision, s') \<Rightarrow>
               (if parse_int64 revision = None then (([], False), s') else ((revision, True), s'))
           | (Inl e, s') \<Rightarrow>
               (let message = to_lower (err_text e) in
                if errors_is e redis_nil \<or> str_contains message ''not found''
                   \<or> str_contains message ''key expired''
                then ((''0'', True), s') else (([], False), s'))))"

definition increment_revision :: "'s cache_ops option \<Rightarrow> gotime \<Rightarrow> string \<Rightarrow> 's \<Rightarrow> unit res \<times> 's" where
  "increment_revision store now key s =
     (case store of None \<Rightarrow> (Inr (), s)
      | Some ops \<Rightarrow>
          (case c_incr ops now key s of
             (Inl e, s') \<Rightarrow> (Inl e, s')
           | (Inr _, s') \<Rightarrow> (Inr (), s')))"

end
