(* ===== verification/Memory_Cache.thy ===== *)
theory Memory_Cache
  imports Cache_Interface Complex_Main
begin

text \<open>
  The in-memory cache of cache/memory/memory.go: its items, its state, one definition per method
  of \<open>*Memory\<close> (the rate limiter part is in theory \<open>Rate_Limit\<close>), and the proof that it
  provides the contract \<open>kv_cache\<close>.

  Every method runs under the mutex of the map it touches, so it is one step. A method that
  reads the clock several times takes the readings as separate arguments, in the order of the
  reads. A range over a map takes the order in which Go happens to visit the keys.
\<close>

subsection \<open>State\<close>

record str_item =
  si_value :: string
  si_expired :: gotime
  si_created :: gotime
  si_updated :: gotime

record map_item =
  mi_value :: "(string, string) gomap"
  mi_expired :: gotime
  mi_created :: gotime
  mi_updated :: gotime

text \<open>The state of one rate limiter (cache/memory/rate_limit.go); a \<open>float64\<close> is its real value.\<close>

record rate_state =
  window_id :: int
  current_count :: int
  prev_count :: int
  events :: "int list"
  tokens :: real
  water :: real
  updated_at :: gotime
  expires_at :: gotime

record memory =
  str_items :: "(string, str_item) gomap"
  map_items :: "(string, map_item) gomap"
  rate_items :: "(string, rate_state) gomap"
  cleanup_at :: gotime

definition new_memory :: memory where
  "new_memory = \<lparr>str_items = Some Map.empty, map_items = Some Map.empty,
     rate_items = Some Map.empty, cleanup_at = zero_time\<rparr>"

definition mem_connect :: "memory \<Rightarrow> unit res" where
  "mem_connect s =
     (if str_items s = None \<or> map_items s = None \<or> rate_items s = None
      then Inl (NewErr ''memory connect fail'') else Inr ())"

text \<open>\<open>!item.Expired.IsZero() && now.After(item.Expired)\<close>.\<close>

definition is_expired :: "gotime \<Rightarrow> gotime \<Rightarrow> bool" where
  "is_expired now expired = (\<not> is_zero_time expired \<and> expired < now)"

definition expiration :: "gotime \<Rightarrow> duration \<Rightarrow> gotime" where
  "expiration now expire = (if expire \<le> 0 then zero_time else now + expire)"

definition ttl :: "gotime \<Rightarrow> gotime \<Rightarrow> duration" where
  "ttl now expired = (if is_zero_time expired then -1 else expired - now)"

definition err_key_expired :: go_err where "err_key_expired = NewErr ''key expired''"
definition err_field_not_found :: go_err where "err_field_not_found = NewErr ''field not found''"

subsection \<open>Listing, connecting\<close>

datatype entry =
    StringEntry string string duration gotime gotime gotime
  | HashEntry string "(string, string) gomap" duration gotime gotime gotime

fun entry_key :: "entry \<Rightarrow> string" where
  "entry_key (StringEntry k v d e c u) = k"
| "entry_key (HashEntry k v d e c u) = k"

text \<open>The two loops of \<open>List\<close>; \<open>clk k\<close> is the clock reading of \<open>ttl\<close> at key \<open>k\<close>.\<close>

fun list_strs :: "gotime \<Rightarrow> (string \<Rightarrow> gotime) \<Rightarrow> string list \<Rightarrow> (string, str_item) gomap
    \<Rightarrow> entry list \<times> (string, str_item) gomap" where
  "list_strs now clk [] m = ([], m)"
| "list_strs now clk (key # keys) m =
     (case gm_get m key of
        None \<Rightarrow> list_strs now clk keys m
      | Some item \<Rightarrow>
          if is_expired now (si_expired item) then list_strs now clk keys (gm_del m key)
          else (let (es, m') = list_strs now clk keys m in
            (StringEntry key (si_value item) (ttl (clk key) (si_expired item)) (si_expired item)
               (si_created item) (si_updated item) # es, m')))"

fun list_maps :: "gotime \<Rightarrow> (string \<Rightarrow> gotime) \<Rightarrow> string list \<Rightarrow> (string, map_item) gomap
    \<Rightarrow> entry list \<times> (string, map_item) gomap" where
  "list_maps now clk [] m = ([], m)"
| "list_maps now clk (key # keys) m =
     (case gm_get m key of
        None \<Rightarrow> list_maps now clk keys m
      | Some item \<Rightarrow>
          if is_expired now (mi_expired item) then list_maps now clk keys (gm_del m key)
          else (let (es, m') = list_maps now clk keys m in
            (HashEntry key (Some (gm_get (mi_value item))) (ttl (clk key) (mi_expired item))
               (mi_expired item) (mi_created item) (mi_updated item) # es, m')))"

definition mem_list :: "gotime \<Rightarrow> (string \<Rightarrow> gotime) \<Rightarrow> string list \<Rightarrow> string list \<Rightarrow> memory
    \<Rightarrow> entry list \<times> memory" where
  "mem_list now clk skeys mkeys s =
     (let (es, sm) = list_strs now clk skeys (str_items s);
          (hs, mm) = list_maps now clk mkeys (map_items s)
      in (es @ hs, s\<lparr>str_items := sm, map_items := mm\<rparr>))"

definition mem_disconnect :: "memory \<Rightarrow> unit res \<times> memory" where
  "mem_disconnect s = (Inr (), s\<lparr>str_items := None, map_items := None, rate_items := None\<rparr>)"

subsection \<open>String keys\<close>

definition mem_get :: "gotime \<Rightarrow> string \<Rightarrow> memory \<Rightarrow> string res \<times> memory" where
  "mem_get now key s =
     (case gm_get (str_items s) key of
        None \<Rightarrow> (Inl err_not_found, s)
      | Some item \<Rightarrow>
          if is_expired now (si_expired item)
          then (Inl err_key_expired, s\<lparr>str_items := gm_del (str_items s) key\<rparr>)
          else (Inr (si_value item), s))"

text \<open>\<open>Incr\<close> reads the clock for the expiry test (\<open>now1\<close>) and for the update (\<open>now2\<close>).\<close>

definition mem_incr :: "gotime \<Rightarrow> gotime \<Rightarrow> string \<Rightarrow> memory \<Rightarrow> int res \<times> memory" where
  "mem_incr now1 now2 key s =
     (let item = gm_get (str_items s) key;
          dead = (case item of None \<Rightarrow> False | Some it \<Rightarrow> is_expired now1 (si_expired it));
          s1 = (if dead then s\<lparr>str_items := gm_del (str_items s) key\<rparr> else s);
          cur = (if dead then None else item)
      in case (case cur of None \<Rightarrow> Some 0 | Some it \<Rightarrow> parse_int64 (si_value it)) of
           None \<Rightarrow> (Inl (NewErr ''strconv.ParseInt''), s1)
         | Some v \<Rightarrow>
             (let value = wrap64 (v + 1);
                  base = (case cur of
                      None \<Rightarrow> \<lparr>si_value = [], si_expired = zero_time, si_created = now2, si_updated = zero_time\<rparr>
                    | Some it \<Rightarrow> it);
                  it = base\<lparr>si_value := show_int value, si_updated := now2, si_expired := zero_time\<rparr>
              in case gm_put (str_items s1) key it of
                   Inl e \<Rightarrow> (Inl e, s1)
                 | Inr m \<Rightarrow> (Inr value, s1\<lparr>str_items := m\<rparr>)))"

definition mem_getdel :: "gotime \<Rightarrow> string \<Rightarrow> memory \<Rightarrow> string res \<times> memory" where
  "mem_getdel now key s =
     (case gm_get (str_items s) key of
        None \<Rightarrow> (Inl err_not_found, s)
      | Some item \<Rightarrow>
          (let s' = s\<lparr>str_items := gm_del (str_items s) key\<rparr> in
           if is_expired now (si_expired item) then (Inl err_key_expired, s')
           else (Inr (si_value item), s')))"

text \<open>\<open>Set\<close> reads the clock (\<open>now1\<close>), then again inside \<open>expiration\<close> (\<open>now2\<close>).\<close>

definition mem_set :: "gotime \<Rightarrow> gotime \<Rightarrow> string \<Rightarrow> string \<Rightarrow> duration \<Rightarrow> memory \<Rightarrow> unit res \<times> memory" where
  "mem_set now1 now2 key value expire s =
     (let item = \<lparr>si_value = value, si_expired = expiration now2 expire, si_created = now1, si_updated = now1\<rparr>;
          item' = (case gm_get (str_items s) key of
              None \<Rightarrow> item
            | Some previous \<Rightarrow>
                if is_zero_time (si_expired previous) \<or> now1 < si_expired previous
                then item\<lparr>si_created := si_created previous\<rparr> else item)
      in case gm_put (str_items s) key item' of
           Inl e \<Rightarrow> (Inl e, s)
         | Inr m \<Rightarrow> (Inr (), s\<lparr>str_items := m\<rparr>))"

definition mem_del :: "string \<Rightarrow> memory \<Rightarrow> unit res \<times> memory" where
  "mem_del key s = (Inr (), s\<lparr>str_items := gm_del (str_items s) key\<rparr>)"

definition mem_expire :: "gotime \<Rightarrow> gotime \<Rightarrow> string \<Rightarrow> duration \<Rightarrow> memory \<Rightarrow> unit res \<times> memory" where
  "mem_expire now1 now2 key dur s =
     (case gm_get (str_items s) key of
        None \<Rightarrow> (Inl err_not_found, s)
      | Some item \<Rightarrow>
          (case gm_put (str_items s) key (item\<lparr>si_expired := expiration now1 dur, si_updated := now2\<rparr>) of
             Inl e \<Rightarrow> (Inl e, s)
           | Inr m \<Rightarrow> (Inr (), s\<lparr>str_items := m\<rparr>)))"

definition mem_exists :: "gotime \<Rightarrow> string \<Rightarrow> memory \<Rightarrow> bool \<times> memory" where
  "mem_exists now key s =
     (case gm_get (str_items s) key of
        None \<Rightarrow> (False, s)
      | Some item \<Rightarrow>
          if is_expired now (si_expired item)
          then (False, s\<lparr>str_items := gm_del (str_items s) key\<rparr>)
          else (True, s))"

subsection \<open>Hash keys\<close>

definition mem_hgetall :: "gotime \<Rightarrow> string \<Rightarrow> memory \<Rightarrow> (string, string) gomap res \<times> memory" where
  "mem_hgetall now key s =
     (case gm_get (map_items s) key of
        None \<Rightarrow> (Inl err_not_found, s)
      | Some item \<Rightarrow>
          if is_expired now (mi_expired item)
          then (Inl err_key_expired, s\<lparr>map_items := gm_del (map_items s) key\<rparr>)
          else (Inr (mi_value item), s))"

definition mem_hget :: "gotime \<Rightarrow> string \<Rightarrow> string \<Rightarrow> memory \<Rightarrow> string res \<times> memory" where
  "mem_hget now key field s =
     (case gm_get (map_items s) key of
        None \<Rightarrow> (Inl err_not_found, s)
      | Some item \<Rightarrow>
          if is_expired now (mi_expired item)
          then (Inl err_key_expired, s\<lparr>map_items := gm_del (map_items s) key\<rparr>)
          else (case gm_get (mi_value item) field of
                  None \<Rightarrow> (Inl err_field_not_found, s)
                | Some v \<Rightarrow> (Inr v, s)))"

text \<open>\<open>HSet\<close>: readings for the expiry test, the creation time and the update time.\<close>

definition mem_hset :: "gotime \<Rightarrow> gotime \<Rightarrow> gotime \<Rightarrow> string \<Rightarrow> string \<Rightarrow> string \<Rightarrow> memory
    \<Rightarrow> unit res \<times> memory" where
  "mem_hset now1 now2 now3 key field value s =
     (let item = gm_get (map_items s) key;
          dead = (case item of None \<Rightarrow> False | Some it \<Rightarrow> is_expired now1 (mi_expired it));
          s1 = (if dead then s\<lparr>map_items := gm_del (map_items s) key\<rparr> else s);
          base = (case (if dead then None else item) of
              None \<Rightarrow> \<lparr>mi_value = Some Map.empty, mi_expired = zero_time, mi_created = now2, mi_updated = zero_time\<rparr>
            | Some it \<Rightarrow> it)
      in case gm_put (mi_value base) field value of
           Inl e \<Rightarrow> (Inl e, s1)
         | Inr fs \<Rightarrow>
             (case gm_put (map_items s1) key (base\<lparr>mi_value := fs, mi_updated := now3\<rparr>) of
                Inl e \<Rightarrow> (Inl e, s1)
              | Inr m \<Rightarrow> (Inr (), s1\<lparr>map_items := m\<rparr>)))"

definition mem_hdel :: "gotime \<Rightarrow> gotime \<Rightarrow> string \<Rightarrow> string \<Rightarrow> memory \<Rightarrow> unit res \<times> memory" where
  "mem_hdel now1 now2 key field s =
     (case gm_get (map_items s) key of
        None \<Rightarrow> (Inl err_not_found, s)
      | Some item \<Rightarrow>
          if is_expired now1 (mi_expired item) then (Inl err_key_expired, s)
          else (case gm_put (map_items s) key
                       (item\<lparr>mi_value := gm_del (mi_value item) field, mi_updated := now2\<rparr>) of
                  Inl e \<Rightarrow> (Inl e, s)
                | Inr m \<Rightarrow> (Inr (), s\<lparr>map_items := m\<rparr>)))"

definition mem_hexists :: "gotime \<Rightarrow> string \<Rightarrow> string \<Rightarrow> memory \<Rightarrow> unit res \<times> memory" where
  "mem_hexists now key field s =
     (case gm_get (map_items s) key of
        None \<Rightarrow> (Inl err_not_found, s)
      | Some item \<Rightarrow>
          if is_expired now (mi_expired item) then (Inl err_key_expired, s)
          else if gm_get (mi_value item) field = None then (Inl err_field_not_found, s)
          else (Inr (), s))"

text \<open>The methods as an implementation of \<open>cache.Cache\<close>, each call at one instant.\<close>

definition memory_ops :: "memory cache_ops" where
  "memory_ops = \<lparr>
     c_get = mem_get,
     c_incr = (\<lambda>now. mem_incr now now),
     c_getdel = mem_getdel,
     c_set = (\<lambda>now. mem_set now now),
     c_del = (\<lambda>now. mem_del),
     c_expire = (\<lambda>now. mem_expire now now),
     c_exists = mem_exists,
     c_hgetall = mem_hgetall,
     c_hget = mem_hget,
     c_hset = (\<lambda>now. mem_hset now now now),
     c_hdel = (\<lambda>now. mem_hdel now now),
     c_hexists = mem_hexists\<rparr>"

lemma memory_ops_simps [simp]:
  "c_get memory_ops = mem_get" "c_incr memory_ops now = mem_incr now now"
  "c_getdel memory_ops = mem_getdel" "c_set memory_ops now = mem_set now now"
  "c_del memory_ops now = mem_del" "c_expire memory_ops now = mem_expire now now"
  "c_exists memory_ops = mem_exists" "c_hgetall memory_ops = mem_hgetall"
  "c_hget memory_ops = mem_hget" "c_hset memory_ops now = mem_hset now now now"
  "c_hdel memory_ops now = mem_hdel now now" "c_hexists memory_ops = mem_hexists"
  by (simp_all add: memory_ops_def)

subsection \<open>The contract\<close>

text \<open>
  What is visible in a memory cache. The invariant: the cache is connected, no hash item has a nil
  field map, and no hash item carries an expiry (only \<open>Expire\<close> sets one, on string keys).
\<close>

definition mem_live :: "memory \<Rightarrow> gotime \<Rightarrow> string \<Rightarrow> string option" where
  "mem_live s t k = (case gm_get (str_items s) k of None \<Rightarrow> None
     | Some item \<Rightarrow> if is_expired t (si_expired item) then None else Some (si_value item))"

definition mem_hfield :: "memory \<Rightarrow> gotime \<Rightarrow> string \<Rightarrow> string \<Rightarrow> string option" where
  "mem_hfield s t k = (case gm_get (map_items s) k of None \<Rightarrow> Map.empty
     | Some item \<Rightarrow> gm_get (mi_value item))"

definition hash_ok :: "map_item \<Rightarrow> bool" where
  "hash_ok item = (mi_value item \<noteq> None \<and> mi_expired item = 0)"

definition mem_inv :: "memory \<Rightarrow> bool" where
  "mem_inv s = (str_items s \<noteq> None \<and> map_items s \<noteq> None \<and>
     (\<forall>k item. gm_get (map_items s) k = Some item \<longrightarrow> hash_ok item))"

lemma mem_invE:
  assumes "mem_inv s"
  obtains sm mm where "str_items s = Some sm" "map_items s = Some mm"
    "\<And>k item. mm k = Some item \<Longrightarrow> hash_ok item"
  using assms by (auto simp: mem_inv_def)

lemma new_memory_inv [simp]: "mem_inv new_memory"
  by (simp add: new_memory_def mem_inv_def)

lemma not_expired_zero [simp]: "\<not> is_expired now 0"
  by (simp add: is_expired_def go_simps)

lemma hash_okD [simp]: "hash_ok item \<Longrightarrow> mi_expired item = 0"
  by (simp add: hash_ok_def)

lemma is_expired_mono: "is_expired t e \<Longrightarrow> t \<le> t' \<Longrightarrow> is_expired t' e"
  by (auto simp: is_expired_def)

lemma is_expired_expiration:
  "0 \<le> now \<Longrightarrow> now \<le> t \<Longrightarrow> is_expired t (expiration now d) = (\<not> within_ttl now d t)"
  by (auto simp: is_expired_def expiration_def within_ttl_def go_simps)

lemma miss_errors [simp]:
  "is_token_cache_miss err_not_found" "is_token_cache_miss err_key_expired"
  "is_token_cache_miss err_field_not_found"
  by (simp_all add: is_token_cache_miss_def err_not_found_def err_key_expired_def
      err_field_not_found_def redis_nil_def str_contains_def)

lemmas mem_view = mem_live_def mem_hfield_def mem_inv_def

lemma mem_get_law:
  assumes "mem_inv s"
  shows "case mem_live s now k of
           Some v \<Rightarrow> fst (mem_get now k s) = Inr v
         | None \<Rightarrow> \<exists>e. fst (mem_get now k s) = Inl e \<and> is_token_cache_miss e"
    and "mem_inv (snd (mem_get now k s)) \<and>
      (\<forall>t \<ge> now. mem_live (snd (mem_get now k s)) t = mem_live s t \<and>
        mem_hfield (snd (mem_get now k s)) t = mem_hfield s t)"
  using assms
  by (auto simp: mem_get_def mem_live_def split: option.splits)
     (auto simp: mem_view gm_del_def gm_get_def fun_eq_iff is_expired_mono split: option.splits)

lemma mem_getdel_law:
  assumes "mem_inv s"
  shows "case mem_live s now k of
           Some v \<Rightarrow> fst (mem_getdel now k s) = Inr v
         | None \<Rightarrow> \<exists>e. fst (mem_getdel now k s) = Inl e"
    and "mem_inv (snd (mem_getdel now k s)) \<and>
      (\<forall>t \<ge> now. mem_live (snd (mem_getdel now k s)) t = (mem_live s t)(k := None) \<and>
        mem_hfield (snd (mem_getdel now k s)) t = mem_hfield s t)"
  using assms
  by (auto simp: mem_getdel_def mem_live_def Let_def split: option.splits)
     (auto simp: mem_view gm_del_def gm_get_def fun_eq_iff split: option.splits)

lemma mem_set_law:
  assumes "mem_inv s" and "0 \<le> now"
  shows "fst (mem_set now now k v d s) = Inr ()"
    and "mem_inv (snd (mem_set now now k v d s)) \<and>
      (\<forall>t \<ge> now. mem_hfield (snd (mem_set now now k v d s)) t = mem_hfield s t \<and>
        mem_live (snd (mem_set now now k v d s)) t =
          (mem_live s t)(k := if within_ttl now d t then Some v else None))"
proof -
  from assms(1) obtain sm mm where s: "str_items s = Some sm" "map_items s = Some mm"
    by (rule mem_invE)
  obtain it where it: "mem_set now now k v d s = (Inr (), s\<lparr>str_items := Some (sm(k \<mapsto> it))\<rparr>)"
    and "si_value it = v" "si_expired it = expiration now d"
    unfolding mem_set_def Let_def s by (auto split: option.splits)
  with assms s show "fst (mem_set now now k v d s) = Inr ()"
    and "mem_inv (snd (mem_set now now k v d s)) \<and>
      (\<forall>t \<ge> now. mem_hfield (snd (mem_set now now k v d s)) t = mem_hfield s t \<and>
        mem_live (snd (mem_set now now k v d s)) t =
          (mem_live s t)(k := if within_ttl now d t then Some v else None))"
    by (auto simp: mem_view fun_eq_iff is_expired_expiration)
qed

lemma mem_del_law:
  assumes "mem_inv s"
  shows "fst (mem_del k s) = Inr ()"
    and "mem_inv (snd (mem_del k s)) \<and>
      (\<forall>t \<ge> (now::gotime). mem_live (snd (mem_del k s)) t = (mem_live s t)(k := None) \<and>
        mem_hfield (snd (mem_del k s)) t = mem_hfield s t)"
  using assms by (auto simp: mem_del_def mem_view fun_eq_iff gm_del_def gm_get_def split: option.splits)

lemma mem_expire_law:
  assumes "mem_inv s" and "0 \<le> now"
  shows "mem_live s now k \<noteq> None \<Longrightarrow> fst (mem_expire now now k d s) = Inr ()"
    and "mem_inv (snd (mem_expire now now k d s)) \<and>
      (\<forall>t \<ge> now. mem_hfield (snd (mem_expire now now k d s)) t = mem_hfield s t \<and>
        (\<forall>k'. k' \<noteq> k \<longrightarrow> mem_live (snd (mem_expire now now k d s)) t k' = mem_live s t k') \<and>
        (\<forall>v. mem_live s now k = Some v \<longrightarrow>
          mem_live (snd (mem_expire now now k d s)) t k = (if within_ttl now d t then Some v else None)))"
proof -
  from assms(1) obtain sm mm where s: "str_items s = Some sm" "map_items s = Some mm"
    by (rule mem_invE)
  show "mem_live s now k \<noteq> None \<Longrightarrow> fst (mem_expire now now k d s) = Inr ()"
    by (auto simp: mem_expire_def mem_live_def s split: option.splits)
  show "mem_inv (snd (mem_expire now now k d s)) \<and>
      (\<forall>t \<ge> now. mem_hfield (snd (mem_expire now now k d s)) t = mem_hfield s t \<and>
        (\<forall>k'. k' \<noteq> k \<longrightarrow> mem_live (snd (mem_expire now now k d s)) t k' = mem_live s t k') \<and>
        (\<forall>v. mem_live s now k = Some v \<longrightarrow>
          mem_live (snd (mem_expire now now k d s)) t k = (if within_ttl now d t then Some v else None)))"
    using assms
    by (auto simp: mem_expire_def mem_view s is_expired_expiration split: option.splits if_splits)
qed

lemma mem_exists_law:
  assumes "mem_inv s"
  shows "fst (mem_exists now k s) = (mem_live s now k \<noteq> None)"
    and "mem_inv (snd (mem_exists now k s)) \<and>
      (\<forall>t \<ge> now. mem_live (snd (mem_exists now k s)) t = mem_live s t \<and>
        mem_hfield (snd (mem_exists now k s)) t = mem_hfield s t)"
  using assms
  by (auto simp: mem_exists_def mem_live_def split: option.splits)
     (auto simp: mem_view gm_del_def gm_get_def fun_eq_iff is_expired_mono split: option.splits)

lemma mem_hgetall_law:
  assumes "mem_inv s"
  shows "case fst (mem_hgetall now k s) of
           Inr m \<Rightarrow> gm_get m = mem_hfield s now k
         | Inl e \<Rightarrow> is_token_cache_miss e \<and> mem_hfield s now k = Map.empty"
    and "snd (mem_hgetall now k s) = s"
  using assms by (auto simp: mem_hgetall_def mem_hfield_def mem_inv_def split: option.splits)

lemma mem_hget_law:
  assumes "mem_inv s"
  shows "case mem_hfield s now k f of
           Some v \<Rightarrow> fst (mem_hget now k f s) = Inr v
         | None \<Rightarrow> \<exists>e. fst (mem_hget now k f s) = Inl e \<and> is_token_cache_miss e"
    and "snd (mem_hget now k f s) = s"
  using assms by (auto simp: mem_hget_def mem_hfield_def mem_inv_def split: option.splits)

lemma mem_hset_law:
  assumes "mem_inv s"
  shows "fst (mem_hset now now now k f v s) = Inr ()"
    and "mem_inv (snd (mem_hset now now now k f v s)) \<and>
      (\<forall>t \<ge> now. mem_live (snd (mem_hset now now now k f v s)) t = mem_live s t \<and>
        mem_hfield (snd (mem_hset now now now k f v s)) t =
          (mem_hfield s t)(k := (mem_hfield s t k)(f \<mapsto> v)))"
proof -
  from assms obtain sm mm where s: "str_items s = Some sm" "map_items s = Some mm"
    and ok: "\<And>k item. mm k = Some item \<Longrightarrow> hash_ok item"
    by (rule mem_invE) blast
  obtain it where it: "mem_hset now now now k f v s = (Inr (), s\<lparr>map_items := Some (mm(k \<mapsto> it))\<rparr>)"
    and "mi_expired it = 0"
    and "mi_value it = Some ((mem_hfield s now k)(f \<mapsto> v))"
  proof (cases "mm k")
    case None
    show ?thesis
      by (rule that [of "\<lparr>mi_value = Some [f \<mapsto> v], mi_expired = 0, mi_created = now, mi_updated = now\<rparr>"])
         (simp_all add: mem_hset_def mem_hfield_def None s go_simps)
  next
    case (Some it)
    with ok [OF Some] obtain fs where "mi_value it = Some fs" "mi_expired it = 0"
      by (auto simp: hash_ok_def)
    with Some show ?thesis
      by (intro that [of "it\<lparr>mi_value := Some (fs(f \<mapsto> v)), mi_updated := now\<rparr>"])
         (simp_all add: mem_hset_def mem_hfield_def s)
  qed
  with assms s show "fst (mem_hset now now now k f v s) = Inr ()"
    and "mem_inv (snd (mem_hset now now now k f v s)) \<and>
      (\<forall>t \<ge> now. mem_live (snd (mem_hset now now now k f v s)) t = mem_live s t \<and>
        mem_hfield (snd (mem_hset now now now k f v s)) t =
          (mem_hfield s t)(k := (mem_hfield s t k)(f \<mapsto> v)))"
    by (auto simp: mem_view hash_ok_def intro!: ext)
qed

lemma mem_hdel_law:
  assumes "mem_inv s"
  shows "fst (mem_hdel now now k f s) = Inr () \<or>
      (\<exists>e. fst (mem_hdel now now k f s) = Inl e \<and> is_token_cache_miss e \<and> mem_hfield s now k = Map.empty)"
    and "mem_inv (snd (mem_hdel now now k f s)) \<and>
      (\<forall>t \<ge> now. mem_live (snd (mem_hdel now now k f s)) t = mem_live s t \<and>
        mem_hfield (snd (mem_hdel now now k f s)) t =
          (mem_hfield s t)(k := (mem_hfield s t k)(f := None)))"
proof -
  from assms obtain sm mm where s: "str_items s = Some sm" "map_items s = Some mm"
    and ok: "\<And>k item. mm k = Some item \<Longrightarrow> hash_ok item"
    by (rule mem_invE) blast
  have z: "\<And>item. mm k = Some item \<Longrightarrow> mi_expired item = 0 \<and> (\<exists>fs. mi_value item = Some fs)"
    using ok by (auto simp: hash_ok_def)
  show "fst (mem_hdel now now k f s) = Inr () \<or>
      (\<exists>e. fst (mem_hdel now now k f s) = Inl e \<and> is_token_cache_miss e \<and> mem_hfield s now k = Map.empty)"
    using z by (cases "mm k") (auto simp: mem_hdel_def mem_hfield_def s)
  show "mem_inv (snd (mem_hdel now now k f s)) \<and>
      (\<forall>t \<ge> now. mem_live (snd (mem_hdel now now k f s)) t = mem_live s t \<and>
        mem_hfield (snd (mem_hdel now now k f s)) t =
          (mem_hfield s t)(k := (mem_hfield s t k)(f := None)))"
  proof (cases "mm k")
    case None
    with ok show ?thesis
      by (auto simp: mem_hdel_def mem_view s fun_eq_iff)
  next
    case (Some item)
    with z [OF Some] obtain fs where "mi_expired item = 0" "mi_value item = Some fs" by auto
    with ok Some show ?thesis
      by (auto simp: mem_hdel_def mem_view s hash_ok_def intro!: ext)
  qed
qed

interpretation mc: kv_cache memory_ops mem_live mem_hfield mem_inv
proof (unfold_locales, goal_cases)
  case 1 then show ?case by (auto simp: mem_live_def is_expired_mono split: option.splits if_splits)
next
  case 2 then show ?case unfolding memory_ops_simps by (simp only: mem_get_law(1))
next
  case 3 then show ?case unfolding memory_ops_simps by (auto simp only: mem_get_law(2))
next
  case 4 then show ?case unfolding memory_ops_simps by (simp only: mem_getdel_law(1))
next
  case 5 then show ?case unfolding memory_ops_simps by (auto simp only: mem_getdel_law(2))
next
  case 6 then show ?case by (simp add: mem_set_def Let_def mem_inv_def gm_put_def split: option.splits)
next
  case 7 then show ?case unfolding memory_ops_simps by (auto simp only: mem_set_law(2))
next
  case 8 then show ?case unfolding memory_ops_simps by (simp only: mem_del_law(1))
next
  case 9 then show ?case unfolding memory_ops_simps by (auto simp only: mem_del_law(2))
next
  case 10 then show ?case by (auto simp: mem_expire_def mem_live_def mem_inv_def split: option.splits)
next
  case 11 then show ?case using mem_expire_law(2) unfolding memory_ops_simps by blast
next
  case 12 then show ?case unfolding memory_ops_simps by (simp only: mem_exists_law(1))
next
  case 13 then show ?case unfolding memory_ops_simps by (auto simp only: mem_exists_law(2))
next
  case 14 then show ?case unfolding memory_ops_simps by (simp only: mem_hgetall_law(1))
next
  case 15 then show ?case by (simp add: mem_hgetall_law(2))
next
  case 16 then show ?case unfolding memory_ops_simps by (simp only: mem_hget_law(1))
next
  case 17 then show ?case by (simp add: mem_hget_law(2))
next
  case 18 then show ?case unfolding memory_ops_simps by (simp only: mem_hset_law(1))
next
  case 19 then show ?case unfolding memory_ops_simps by (auto simp only: mem_hset_law(2))
next
  case 20 then show ?case unfolding memory_ops_simps by (simp only: mem_hdel_law(1))
next
  case 21 then show ?case unfolding memory_ops_simps by (auto simp only: mem_hdel_law(2))
qed

text \<open>A key without an item is gone, in the sense of \<open>revocable_cache\<close>.\<close>

definition mem_gone :: "memory \<Rightarrow> string \<Rightarrow> bool" where
  "mem_gone s k = (gm_get (str_items s) k = None)"

interpretation rc: revocable_cache memory_ops mem_live mem_hfield mem_inv mem_gone
proof (unfold_locales, goal_cases)
  case 1 then show ?case by (simp add: mem_gone_def mem_live_def)
next
  case 2 then show ?case by (auto simp: mem_gone_def mem_del_def mem_inv_def)
next
  case 3 then show ?case by (auto simp: mem_gone_def mem_del_def mem_inv_def)
next
  case 4 then show ?case by (auto simp: mem_gone_def mem_expire_def mem_inv_def split: option.splits)
next
  case 5 then show ?case by (auto simp: mem_gone_def mem_set_def mem_inv_def Let_def split: option.splits)
next
  case 6 then show ?case by (auto simp: mem_gone_def mem_get_def mem_inv_def split: option.splits)
next
  case 7 then show ?case by (auto simp: mem_gone_def mem_exists_def mem_inv_def split: option.splits)
next
  case 8 then show ?case by (auto simp: mem_gone_def mem_hgetall_def split: option.splits)
next
  case 9 then show ?case by (auto simp: mem_gone_def mem_hget_def split: option.splits)
next
  case 10 then show ?case by (auto simp: mem_gone_def mem_hset_def Let_def gm_put_def split: option.splits)
next
  case 11 then show ?case by (auto simp: mem_gone_def mem_hdel_def gm_put_def split: option.splits)
next
  case 12 then show ?case by (auto simp: mem_gone_def mem_getdel_def mem_inv_def Let_def split: option.splits)
next
  case 13 then show ?case by (auto simp: mem_gone_def mem_getdel_def mem_inv_def Let_def split: option.splits)
qed

subsection \<open>The string part against a timed map\<close>

text \<open>
  The abstract cache: a key has a value and a deadline (0 for none), and a key past its deadline
  is simply not there. Nothing is collected lazily. A run is a sequence of calls with their
  instants.
\<close>

type_synonym timed_map = "string \<rightharpoonup> string \<times> gotime"

datatype cache_call = CGet string | CIncr string | CGetDel string | CSet string string duration
  | CDel string | CExpire string duration | CExists string

datatype reply = RStr string | RInt int | RBool bool | RUnit | RFail

definition purge :: "gotime \<Rightarrow> timed_map \<Rightarrow> timed_map" where
  "purge now a k = (case a k of None \<Rightarrow> None | Some (v, e) \<Rightarrow> if is_expired now e then None else Some (v, e))"

fun spec_call :: "gotime \<Rightarrow> cache_call \<Rightarrow> timed_map \<Rightarrow> reply \<times> timed_map" where
  "spec_call now (CGet k) a = (case a k of None \<Rightarrow> (RFail, a) | Some (v, e) \<Rightarrow> (RStr v, a))"
| "spec_call now (CIncr k) a =
     (case (case a k of None \<Rightarrow> Some 0 | Some (v, e) \<Rightarrow> parse_int64 v) of
        None \<Rightarrow> (RFail, a)
      | Some n \<Rightarrow> (RInt (wrap64 (n + 1)), a(k \<mapsto> (show_int (wrap64 (n + 1)), 0))))"
| "spec_call now (CGetDel k) a = (case a k of None \<Rightarrow> (RFail, a) | Some (v, e) \<Rightarrow> (RStr v, a(k := None)))"
| "spec_call now (CSet k v d) a = (RUnit, a(k \<mapsto> (v, expiration now d)))"
| "spec_call now (CDel k) a = (RUnit, a(k := None))"
| "spec_call now (CExpire k d) a =
     (case a k of None \<Rightarrow> (RFail, a) | Some (v, e) \<Rightarrow> (RUnit, a(k \<mapsto> (v, expiration now d))))"
| "spec_call now (CExists k) a = (RBool (a k \<noteq> None), a)"

definition reply_of :: "('a \<Rightarrow> reply) \<Rightarrow> 'a res \<Rightarrow> reply" where
  "reply_of f r = (case r of Inl _ \<Rightarrow> RFail | Inr x \<Rightarrow> f x)"

fun mem_call :: "gotime \<Rightarrow> cache_call \<Rightarrow> memory \<Rightarrow> reply \<times> memory" where
  "mem_call now (CGet k) s = apfst (reply_of RStr) (mem_get now k s)"
| "mem_call now (CIncr k) s = apfst (reply_of RInt) (mem_incr now now k s)"
| "mem_call now (CGetDel k) s = apfst (reply_of RStr) (mem_getdel now k s)"
| "mem_call now (CSet k v d) s = apfst (reply_of (\<lambda>_. RUnit)) (mem_set now now k v d s)"
| "mem_call now (CDel k) s = apfst (reply_of (\<lambda>_. RUnit)) (mem_del k s)"
| "mem_call now (CExpire k d) s = apfst (reply_of (\<lambda>_. RUnit)) (mem_expire now now k d s)"
| "mem_call now (CExists k) s = apfst RBool (mem_exists now k s)"

definition timed_view :: "memory \<Rightarrow> timed_map" where
  "timed_view s k = map_option (\<lambda>it. (si_value it, si_expired it)) (gm_get (str_items s) k)"

fun mem_run :: "(gotime \<times> cache_call) list \<Rightarrow> memory \<Rightarrow> reply list \<times> memory" where
  "mem_run [] s = ([], s)"
| "mem_run ((now, c) # cs) s =
     (let (r, s1) = mem_call now c s; (rs, s2) = mem_run cs s1 in (r # rs, s2))"

fun spec_run :: "(gotime \<times> cache_call) list \<Rightarrow> timed_map \<Rightarrow> reply list \<times> timed_map" where
  "spec_run [] a = ([], a)"
| "spec_run ((now, c) # cs) a =
     (let (r, a1) = spec_call now c (purge now a); (rs, a2) = spec_run cs a1 in (r # rs, a2))"

text \<open>\<open>Expire\<close> does not test whether the key has expired, so it is only used on keys that are there.\<close>

fun expires_live :: "(gotime \<times> cache_call) list \<Rightarrow> timed_map \<Rightarrow> bool" where
  "expires_live [] a = True"
| "expires_live ((now, c) # cs) a =
     ((case c of CExpire k d \<Rightarrow> purge now a k \<noteq> None | _ \<Rightarrow> True) \<and>
      expires_live cs (snd (spec_call now c (purge now a))))"

lemma purge_le: "t \<le> t' \<Longrightarrow> purge t' (purge t a) = purge t' a"
  by (auto simp: purge_def fun_eq_iff is_expired_mono split: option.splits prod.splits)

lemma call_simulation:
  assumes "mem_inv s" and "purge now a = purge now (timed_view s)"
    and "case c of CExpire k d \<Rightarrow> purge now a k \<noteq> None | _ \<Rightarrow> True"
  shows "fst (mem_call now c s) = fst (spec_call now c (purge now a))"
    and "purge now (timed_view (snd (mem_call now c s))) =
         purge now (snd (spec_call now c (purge now a)))"
    and "mem_inv (snd (mem_call now c s))"
proof -
  from assms(1) obtain sm where s: "str_items s = Some sm"
    by (rule mem_invE)
  note * = purge_def timed_view_def reply_of_def s
  show "fst (mem_call now c s) = fst (spec_call now c (purge now a))"
    using assms(3)
    by (cases c; unfold assms(2))
       (auto simp: * mem_get_def mem_incr_def mem_getdel_def mem_set_def mem_del_def mem_expire_def
          mem_exists_def Let_def split: option.splits if_splits)
  show "purge now (timed_view (snd (mem_call now c s))) =
         purge now (snd (spec_call now c (purge now a)))"
    using assms(3)
    by (cases c; unfold assms(2); intro ext)
       (auto simp: * mem_get_def mem_incr_def mem_getdel_def mem_set_def mem_del_def mem_expire_def
          mem_exists_def Let_def go_simps split: option.splits if_splits)
  show "mem_inv (snd (mem_call now c s))"
    using assms(1)
    by (cases c)
       (auto simp: mem_inv_def s mem_get_def mem_incr_def mem_getdel_def mem_set_def mem_del_def mem_expire_def
          mem_exists_def Let_def split: option.splits if_splits)
qed

lemma run_simulation:
  assumes "mem_inv s" and "\<And>t. now0 \<le> t \<Longrightarrow> purge t a = purge t (timed_view s)"
    and "sorted (map fst cs)" and "\<forall>c \<in> set cs. now0 \<le> fst c" and "expires_live cs a"
  shows "fst (mem_run cs s) = fst (spec_run cs a) \<and> mem_inv (snd (mem_run cs s))"
  using assms
proof (induction cs arbitrary: s a now0)
  case Nil
  then show ?case by simp
next
  case (Cons p cs)
  obtain now c where p: "p = (now, c)" by (cases p)
  from Cons.prems p have "now0 \<le> now" by simp
  with Cons.prems(2) have eq: "purge now a = purge now (timed_view s)" by simp
  from Cons.prems(5) p have "case c of CExpire k d \<Rightarrow> purge now a k \<noteq> None | _ \<Rightarrow> True" by simp
  note sim = call_simulation [OF Cons.prems(1) eq this]
  have "purge t (snd (spec_call now c (purge now a))) = purge t (timed_view (snd (mem_call now c s)))"
    if "now \<le> t" for t
    using sim(2) purge_le [OF that] by metis
  note IH = Cons.IH [OF sim(3) this]
  show ?case
    using IH sim(1) Cons.prems(3,5) p by (simp add: Let_def split_def)
qed



text \<open>The successful \<open>GetDel\<close> calls on a key in a run.\<close>

definition getdel_wins :: "string \<Rightarrow> (gotime \<times> cache_call) list \<Rightarrow> reply list \<Rightarrow> nat" where
  "getdel_wins k cs rs = length (filter (\<lambda>(c, r). snd c = CGetDel k \<and> r \<noteq> RFail) (zip cs rs))"

definition writes_key :: "string \<Rightarrow> cache_call \<Rightarrow> bool" where
  "writes_key k c = (case c of CSet k' v d \<Rightarrow> k' = k | CIncr k' \<Rightarrow> k' = k | _ \<Rightarrow> False)"

lemma call_keeps_absent:
  assumes "mem_inv s" and "\<not> writes_key k c" and "gm_get (str_items s) k = None"
  shows "gm_get (str_items (snd (mem_call now c s))) k = None"
  using assms
  by (cases c)
     (auto simp: mem_inv_def writes_key_def mem_get_def mem_incr_def mem_getdel_def mem_set_def mem_del_def
        mem_expire_def mem_exists_def Let_def gm_put_def split: option.splits if_splits)

lemma getdel_wins_step:
  assumes "mem_inv s"
  shows "getdel_wins k ((now, c) # cs) (fst (mem_run ((now, c) # cs) s)) =
    (if c = CGetDel k \<and> fst (mem_call now c s) \<noteq> RFail then 1 else 0) +
    getdel_wins k cs (fst (mem_run cs (snd (mem_call now c s))))"
  by (auto simp: getdel_wins_def Let_def split_def simp del: mem_call.simps)

lemma call_inv: "mem_inv s \<Longrightarrow> mem_inv (snd (mem_call now c s))"
  by (cases c)
     (auto simp: mem_inv_def mem_get_def mem_incr_def mem_getdel_def mem_set_def mem_del_def
        mem_expire_def mem_exists_def Let_def gm_put_def gm_del_def split: option.splits if_splits)

lemma getdel_wins_absent:
  assumes "mem_inv s" and "\<forall>c \<in> set cs. \<not> writes_key k (snd c)" and "gm_get (str_items s) k = None"
  shows "getdel_wins k cs (fst (mem_run cs s)) = 0"
  using assms
proof (induction cs arbitrary: s)
  case Nil
  then show ?case by (simp add: getdel_wins_def)
next
  case (Cons p cs)
  obtain now c where p: "p = (now, c)" by (cases p)
  have "c = CGetDel k \<Longrightarrow> fst (mem_call now c s) = RFail"
    using Cons.prems(3) by (simp add: mem_getdel_def reply_of_def)
  then show ?case
    using Cons.IH [OF call_inv [OF Cons.prems(1)] _ call_keeps_absent [OF Cons.prems(1)]] Cons.prems
    unfolding p getdel_wins_step [OF Cons.prems(1)] by auto
qed

text \<open>A key without an item stays so while nobody writes it.\<close>

lemma run_keeps_gone:
  assumes "mem_inv s" and "mem_gone s k" and "\<forall>c \<in> set cs. \<not> writes_key k (snd c)"
  shows "mem_inv (snd (mem_run cs s)) \<and> mem_gone (snd (mem_run cs s)) k"
  using assms
proof (induction cs arbitrary: s)
  case (Cons p cs)
  obtain now c where p: "p = (now, c)" by (cases p)
  have "mem_inv (snd (mem_call now c s))" "mem_gone (snd (mem_call now c s)) k"
    using Cons.prems call_inv call_keeps_absent by (auto simp: mem_gone_def p simp del: mem_call.simps)
  then have "mem_inv (snd (mem_run cs (snd (mem_call now c s)))) \<and> mem_gone (snd (mem_run cs (snd (mem_call now c s)))) k"
    using Cons.prems(3) by (intro Cons.IH) auto
  then show ?case by (simp add: p split_def Let_def del: mem_call.simps)
qed simp

text \<open>C2: \<open>GetDel\<close> hands a value out at most once: of any sequence of \<open>GetDel\<close> calls on a key, by any
  callers, at any instants and interleaved with other calls that do not write the key (reads, deletes,
  expiry changes, writes of other keys), at most one succeeds.\<close>

theorem getdel_at_most_once:
  assumes "mem_inv s" and "\<forall>c \<in> set cs. \<not> writes_key k (snd c)"
  shows "getdel_wins k cs (fst (mem_run cs s)) \<le> 1"
  using assms
proof (induction cs arbitrary: s)
  case Nil
  then show ?case by (simp add: getdel_wins_def)
next
  case (Cons p cs)
  obtain now c where p: "p = (now, c)" by (cases p)
  note inv = call_inv [OF Cons.prems(1), of now c]
  show ?case
  proof (cases "c = CGetDel k")
    case True
    then have "gm_get (str_items (snd (mem_call now c s))) k = None"
      using Cons.prems(1) by (auto simp: mem_inv_def mem_getdel_def Let_def split: option.splits)
    then have "getdel_wins k cs (fst (mem_run cs (snd (mem_call now c s)))) = 0"
      using getdel_wins_absent [OF inv] Cons.prems(2) by simp
    then show ?thesis
      unfolding p getdel_wins_step [OF Cons.prems(1)] by simp
  next
    case False
    then show ?thesis
      using Cons.IH [OF inv] Cons.prems(2)
      unfolding p getdel_wins_step [OF Cons.prems(1)] by simp
  qed
qed

theorem getdel_at_most_once_witness:
  "getdel_wins ''k'' [(11, CGetDel ''k''), (12, CSet ''j'' ''w'' 0), (12, CGetDel ''k'')]
     (fst (mem_run [(11, CGetDel ''k''), (12, CSet ''j'' ''w'' 0), (12, CGetDel ''k'')]
        (snd (mem_call 10 (CSet ''k'' ''v'' 5) new_memory)))) \<le> 1"
  by (rule getdel_at_most_once) (simp_all only: call_inv new_memory_inv, simp add: writes_key_def)

definition str_entry :: "(string \<Rightarrow> gotime) \<Rightarrow> string \<Rightarrow> str_item \<Rightarrow> entry" where
  "str_entry clk k it = StringEntry k (si_value it) (ttl (clk k) (si_expired it)) (si_expired it)
     (si_created it) (si_updated it)"

lemma str_entry_key [simp]: "entry_key (str_entry clk k it) = k"
  by (simp add: str_entry_def)

lemma list_strs_entries:
  assumes "distinct ks"
  shows "set (fst (list_strs now clk ks (Some m))) =
      {str_entry clk k it | k it. k \<in> set ks \<and> m k = Some it \<and> \<not> is_expired now (si_expired it)}"
    and "distinct (map entry_key (fst (list_strs now clk ks (Some m))))"
    and "snd (list_strs now clk ks (Some m)) =
      Some (\<lambda>k. if k \<in> set ks \<and> (\<exists>it. m k = Some it \<and> is_expired now (si_expired it)) then None else m k)"
proof -
  have "set (fst (list_strs now clk ks (Some m))) =
      {str_entry clk k it | k it. k \<in> set ks \<and> m k = Some it \<and> \<not> is_expired now (si_expired it)} \<and>
    distinct (map entry_key (fst (list_strs now clk ks (Some m)))) \<and>
    snd (list_strs now clk ks (Some m)) =
      Some (\<lambda>k. if k \<in> set ks \<and> (\<exists>it. m k = Some it \<and> is_expired now (si_expired it)) then None else m k)"
    using assms
  proof (induction ks arbitrary: m)
    case Nil
    then show ?case by simp
  next
    case (Cons key keys)
    then have key: "key \<notin> set keys" and dist: "distinct keys" by auto
    show ?case
    proof (cases "m key")
      case None
      with Cons.IH [OF dist, of m] show ?thesis by (auto intro!: ext)
    next
      case (Some item)
      show ?thesis
      proof (cases "is_expired now (si_expired item)")
        case True
        define m0 where "m0 = m(key := None)"
        then have m0: "m0 key = None" "\<And>k. k \<noteq> key \<Longrightarrow> m0 k = m k" by auto
        have step: "list_strs now clk (key # keys) (Some m) = list_strs now clk keys (Some m0)"
          using Some True by (simp add: m0_def)
        have 1: "(k \<in> set keys \<and> m0 k = Some it \<and> \<not> is_expired now (si_expired it)) =
            (k \<in> set (key # keys) \<and> m k = Some it \<and> \<not> is_expired now (si_expired it))" for k it
          using Some True key m0 by (cases "k = key") auto
        have 2: "(if k \<in> set keys \<and> (\<exists>it. m0 k = Some it \<and> is_expired now (si_expired it)) then None else m0 k) =
            (if k \<in> set (key # keys) \<and> (\<exists>it. m k = Some it \<and> is_expired now (si_expired it)) then None else m k)" for k
          using Some True key m0 by (cases "k = key") auto
        show ?thesis
          using Cons.IH [OF dist, of m0] unfolding step 1 2 .
      next
        case False
        with Some key Cons.IH [OF dist, of m] show ?thesis
          by (auto simp: Let_def split_def str_entry_def intro!: ext split: if_splits)
      qed
    qed
  qed
  then show "set (fst (list_strs now clk ks (Some m))) =
      {str_entry clk k it | k it. k \<in> set ks \<and> m k = Some it \<and> \<not> is_expired now (si_expired it)}"
    and "distinct (map entry_key (fst (list_strs now clk ks (Some m))))"
    and "snd (list_strs now clk ks (Some m)) =
      Some (\<lambda>k. if k \<in> set ks \<and> (\<exists>it. m k = Some it \<and> is_expired now (si_expired it)) then None else m k)"
    by blast+
qed

lemma list_maps_entries:
  assumes "e \<in> set (fst (list_maps now clk ks m))"
  shows "\<exists>k v d x c u. e = HashEntry k v d x c u"
  using assms
  by (induction ks arbitrary: m) (auto simp: Let_def split_def split: option.splits if_splits)

text \<open>\<open>List\<close>, whatever the order in which it visits the map, returns a string entry for every key that
  is visible at its instant, with the value \<open>Get\<close> would return, and for no other key; the strings
  it collects on the way change nothing that is visible later.\<close>

theorem list_is_live_keys:
  assumes "mem_inv s" and "distinct skeys"
    and "\<forall>k. gm_get (str_items s) k \<noteq> None \<longrightarrow> k \<in> set skeys" and "now \<le> t"
  shows "((\<exists>d e c u. StringEntry k v d e c u \<in> set (fst (mem_list now clk skeys mkeys s)))
           \<longleftrightarrow> mem_live s now k = Some v) \<and>
         mem_live (snd (mem_list now clk skeys mkeys s)) t = mem_live s t"
proof -
  from assms(1) obtain sm mm where s: "str_items s = Some sm" "map_items s = Some mm"
    by (rule mem_invE)
  note se = list_strs_entries [OF assms(2), of now clk sm]
  have "StringEntry k v d e c u \<notin> set (fst (list_maps now clk mkeys (Some mm)))" for d e c u
    using list_maps_entries by blast
  with se(1) assms(3) s have "(\<exists>d e c u. StringEntry k v d e c u \<in> set (fst (mem_list now clk skeys mkeys s)))
      \<longleftrightarrow> (\<exists>it. sm k = Some it \<and> \<not> is_expired now (si_expired it) \<and> si_value it = v)"
    by (auto simp: mem_list_def split_def Let_def str_entry_def)
  moreover have "mem_live (snd (mem_list now clk skeys mkeys s)) t = mem_live s t"
    using se(3) s is_expired_mono [OF _ assms(4)]
    by (auto simp: mem_list_def split_def Let_def mem_live_def split: option.splits intro!: ext)
  ultimately show ?thesis
    by (auto simp: mem_live_def s split: option.splits)
qed

theorem list_is_live_keys_witness:
  "((\<exists>d e c u. StringEntry ''k'' ''v'' d e c u \<in> set (fst (mem_list 12 (\<lambda>_. 12) [''k''] []
        (snd (mem_set 10 10 ''k'' ''v'' 5 new_memory)))))
      \<longleftrightarrow> mem_live (snd (mem_set 10 10 ''k'' ''v'' 5 new_memory)) 12 ''k'' = Some ''v'') \<and>
    mem_live (snd (mem_list 12 (\<lambda>_. 12) [''k''] []
        (snd (mem_set 10 10 ''k'' ''v'' 5 new_memory)))) 13 =
      mem_live (snd (mem_set 10 10 ''k'' ''v'' 5 new_memory)) 13"
  by (rule list_is_live_keys)
     (simp_all add: mem_inv_def mem_set_def new_memory_def Let_def)

subsection \<open>A revived key\<close>

text \<open>\<open>Expire\<close> has no expiry check: called on a key whose item has expired but has not been
  collected, it makes the old value visible again, while \<open>Get\<close>, called first, would have lost it.\<close>

theorem expire_revives_expired_key:
  "fst (mem_run [(10, CSet ''k'' ''v'' 5), (20, CExpire ''k'' 5), (21, CGet ''k'')] new_memory) =
     [RUnit, RUnit, RStr ''v''] \<and>
   fst (mem_run [(10, CSet ''k'' ''v'' 5), (19, CGet ''k''), (20, CExpire ''k'' 5), (21, CGet ''k'')] new_memory) =
     [RUnit, RFail, RFail, RFail]"
  by (simp add: new_memory_def mem_set_def mem_expire_def mem_get_def Let_def expiration_def
      is_expired_def go_simps reply_of_def)

end
