(* ===== verification/Rate_Limit.thy ===== *)
theory Rate_Limit
  imports Memory_Cache
begin

text \<open>
  The rate limiters of cache/store/rate_limit.go and cache/memory/rate_limit.go: validation, the five
  algorithms of \<open>applyRateLimit\<close>, and the atomic \<open>TakeRateLimits\<close> over several keys.

  A finite \<open>float64\<close> is the real number it denotes, and \<open>rnd\<close> is the rounding of a float operation's exact
  result: IEEE arithmetic is \<open>rnd\<close> applied after every operation (no fused multiply-add). Theorems about float state assume what
  rounding guarantees (monotone, exact on the integers that occur), or exact arithmetic where they say so.
  Conversions to \<open>time.Duration\<close> stay in range for validated requests.
\<close>

subsection \<open>Requests (cache/store/rate_limit.go)\<close>

datatype rate_algorithm = TokenBucket | FixedWindow | SlidingWindowCounter | SlidingWindowLog
  | LeakyBucket | OtherAlgorithm string

record rate_request =
  rl_key :: string
  rl_algorithm :: rate_algorithm
  rl_tokens_per_second :: float64
  rl_burst :: int
  rl_limit :: int
  rl_window :: duration
  rl_leak_rate :: float64
  rl_capacity :: int

record token_bucket_request =
  tb_key :: string
  tb_tokens_per_second :: float64
  tb_burst :: int

definition as_rate_limit_request :: "token_bucket_request \<Rightarrow> rate_request" where
  "as_rate_limit_request r =
     \<lparr>rl_key = tb_key r, rl_algorithm = TokenBucket, rl_tokens_per_second = tb_tokens_per_second r,
      rl_burst = tb_burst r, rl_limit = 0, rl_window = 0, rl_leak_rate = Fin 0, rl_capacity = 0\<rparr>"

definition max_sliding_window_log_limit :: int where "max_sliding_window_log_limit = 10000"
definition max_rate_limit_rate :: real where "max_rate_limit_rate = 1000000"
definition max_rate_limit_capacity :: int where "max_rate_limit_capacity = 1000000"
definition max_rate_limit_window :: duration where "max_rate_limit_window = 24 * 60 * minute"

definition valid_rate :: "float64 \<Rightarrow> bool" where
  "valid_rate rate = (case rate of Fin r \<Rightarrow> 1 / 1000 \<le> r \<and> r \<le> max_rate_limit_rate | _ \<Rightarrow> False)"

definition valid_window :: "duration \<Rightarrow> bool" where
  "valid_window window = (millisecond \<le> window \<and> window \<le> max_rate_limit_window)"

definition rl_validate :: "rate_request \<Rightarrow> unit res" where
  "rl_validate r =
     (if rl_key r = [] then Inl (NewErr ''rate limit key is required'')
      else case rl_algorithm r of
        TokenBucket \<Rightarrow>
          if \<not> valid_rate (rl_tokens_per_second r) \<or> rl_burst r < 1 \<or> max_rate_limit_capacity < rl_burst r
          then Inl (NewErr ''invalid token bucket parameters'') else Inr ()
      | FixedWindow \<Rightarrow>
          if rl_limit r < 1 \<or> max_rate_limit_capacity < rl_limit r \<or> \<not> valid_window (rl_window r)
          then Inl (NewErr ''invalid window counter parameters'') else Inr ()
      | SlidingWindowCounter \<Rightarrow>
          if rl_limit r < 1 \<or> max_rate_limit_capacity < rl_limit r \<or> \<not> valid_window (rl_window r)
          then Inl (NewErr ''invalid window counter parameters'') else Inr ()
      | SlidingWindowLog \<Rightarrow>
          if rl_limit r < 1 \<or> max_sliding_window_log_limit < rl_limit r \<or> \<not> valid_window (rl_window r)
          then Inl (NewErr ''invalid sliding window log parameters'') else Inr ()
      | LeakyBucket \<Rightarrow>
          if \<not> valid_rate (rl_leak_rate r) \<or> rl_capacity r < 1 \<or> max_rate_limit_capacity < rl_capacity r
          then Inl (NewErr ''invalid leaky bucket parameters'') else Inr ()
      | OtherAlgorithm a \<Rightarrow> Inl (NewErr (''unsupported rate limit algorithm '' @ a)))"

subsection \<open>The algorithms (cache/memory/rate_limit.go)\<close>

definition zero_rate_state :: rate_state where
  "zero_rate_state = \<lparr>window_id = 0, current_count = 0, prev_count = 0, events = [], tokens = 0, water = 0,
     updated_at = zero_time, expires_at = zero_time\<rparr>"

text \<open>\<open>Duration.Seconds\<close>: whole seconds and the rest are converted apart.\<close>

definition seconds :: "(real \<Rightarrow> real) \<Rightarrow> duration \<Rightarrow> real" where
  "seconds rnd d = rnd (rnd (of_int (d sdiv second)) + rnd (rnd (of_int (d smod second)) / 1000000000))"

definition minimum_retry :: "duration \<Rightarrow> duration" where
  "minimum_retry retry = (if retry < millisecond then millisecond else retry)"

definition fixed_window_retry :: "gotime \<Rightarrow> duration \<Rightarrow> duration" where
  "fixed_window_retry now window = minimum_retry (window - unix_nano now smod window)"

definition apply_token_bucket :: "(real \<Rightarrow> real) \<Rightarrow> gotime \<Rightarrow> rate_request \<Rightarrow> rate_state
    \<Rightarrow> bool \<times> duration \<times> rate_state" where
  "apply_token_bucket rnd now r st =
     (let rate = float_val (rl_tokens_per_second r);
          burst = rnd (of_int (rl_burst r));
          toks = (if is_zero_time (updated_at st) then burst
             else min burst (rnd (tokens st + rnd (seconds rnd (time_sub now (updated_at st)) * rate))));
          st = st\<lparr>tokens := toks\<rparr>
      in if toks < 1
         then (False, minimum_retry (\<lceil>rnd (rnd (rnd (1 - toks) / rate) * 1000)\<rceil> * millisecond), st)
         else (True, 0, st\<lparr>tokens := rnd (toks - 1), updated_at := now\<rparr>))"

definition apply_fixed_window :: "gotime \<Rightarrow> rate_request \<Rightarrow> rate_state \<Rightarrow> bool \<times> duration \<times> rate_state" where
  "apply_fixed_window now r st =
     (let wid = unix_nano now sdiv rl_window r;
          st = (if window_id st \<noteq> wid then zero_rate_state\<lparr>window_id := wid\<rparr> else st)
      in if rl_limit r < current_count st + 1 then (False, fixed_window_retry now (rl_window r), st)
         else (True, 0, st\<lparr>current_count := current_count st + 1\<rparr>))"

definition apply_sliding_counter :: "(real \<Rightarrow> real) \<Rightarrow> gotime \<Rightarrow> rate_request \<Rightarrow> rate_state
    \<Rightarrow> bool \<times> duration \<times> rate_state" where
  "apply_sliding_counter rnd now r st =
     (let wid = unix_nano now sdiv rl_window r;
          previous = (if window_id st \<noteq> wid
             then (if window_id st = wid - 1 then current_count st else 0) else prev_count st);
          current = (if window_id st \<noteq> wid then 0 else current_count st);
          elapsed = unix_nano now smod rl_window r;
          weighted = rnd (rnd (of_int current) +
             rnd (rnd (rnd (of_int previous) * rnd (of_int (rl_window r - elapsed))) / rnd (of_int (rl_window r))))
      in if rnd (of_int (rl_limit r)) < rnd (weighted + 1)
         then (let retry = fixed_window_retry now (rl_window r);
                   retry = (if 0 < current \<and> rl_limit r < current + 1
                      then retry + \<lceil>rnd (rnd (rnd (of_int (current + 1 - rl_limit r)) * rnd (of_int (rl_window r)))
                             / rnd (of_int current))\<rceil>
                      else retry)
               in (False, minimum_retry retry, st))
         else (True, 0, st\<lparr>window_id := wid, current_count := current + 1, prev_count := previous\<rparr>))"

definition apply_sliding_log :: "gotime \<Rightarrow> rate_request \<Rightarrow> rate_state \<Rightarrow> bool \<times> duration \<times> rate_state" where
  "apply_sliding_log now r st =
     (let cutoff = unix_nano (now - rl_window r);
          st = st\<lparr>events := dropWhile (\<lambda>e. e \<le> cutoff) (events st)\<rparr>
      in if rl_limit r \<le> int (length (events st))
         then (False, minimum_retry (hd (events st) + rl_window r - unix_nano now), st)
         else (True, 0, st\<lparr>events := events st @ [unix_nano now]\<rparr>))"

definition apply_leaky_bucket :: "(real \<Rightarrow> real) \<Rightarrow> gotime \<Rightarrow> rate_request \<Rightarrow> rate_state
    \<Rightarrow> bool \<times> duration \<times> rate_state" where
  "apply_leaky_bucket rnd now r st =
     (let rate = float_val (rl_leak_rate r);
          capacity = rnd (of_int (rl_capacity r));
          level = (if is_zero_time (updated_at st) then water st
             else max 0 (rnd (water st - rnd (seconds rnd (time_sub now (updated_at st)) * rate))));
          st = st\<lparr>water := level\<rparr>
      in if capacity < rnd (level + 1)
         then (False, minimum_retry (\<lceil>rnd (rnd (rnd (rnd (level + 1) - capacity) / rate) * 1000)\<rceil> * millisecond), st)
         else (True, 0, st\<lparr>water := rnd (level + 1), updated_at := now\<rparr>))"

definition apply_rate_limit :: "(real \<Rightarrow> real) \<Rightarrow> gotime \<Rightarrow> rate_request \<Rightarrow> rate_state
    \<Rightarrow> bool \<times> duration \<times> rate_state" where
  "apply_rate_limit rnd now r st =
     (case rl_algorithm r of
        TokenBucket \<Rightarrow> apply_token_bucket rnd now r st
      | FixedWindow \<Rightarrow> apply_fixed_window now r st
      | SlidingWindowCounter \<Rightarrow> apply_sliding_counter rnd now r st
      | SlidingWindowLog \<Rightarrow> apply_sliding_log now r st
      | LeakyBucket \<Rightarrow> apply_leaky_bucket rnd now r st
      | OtherAlgorithm a \<Rightarrow> (False, 0, st))"

definition rate_state_ttl :: "(real \<Rightarrow> real) \<Rightarrow> rate_request \<Rightarrow> duration" where
  "rate_state_ttl rnd r =
     (case rl_algorithm r of
        TokenBucket \<Rightarrow> \<lfloor>rnd (of_int \<lceil>rnd (rnd (rnd (of_int (rl_burst r)) / float_val (rl_tokens_per_second r)) * 1000)\<rceil>
            + 1000)\<rfloor> * millisecond
      | FixedWindow \<Rightarrow> rl_window r * 2
      | SlidingWindowCounter \<Rightarrow> rl_window r * 2
      | SlidingWindowLog \<Rightarrow> rl_window r
      | LeakyBucket \<Rightarrow> \<lfloor>rnd (of_int \<lceil>rnd (rnd (rnd (of_int (rl_capacity r)) / float_val (rl_leak_rate r)) * 1000)\<rceil>
            + 1000)\<rfloor> * millisecond
      | OtherAlgorithm a \<Rightarrow> minute)"

subsection \<open>Taking several limits at once\<close>

text \<open>The state the loop of \<open>TakeRateLimits\<close> starts a request from.\<close>

definition start_state :: "gotime \<Rightarrow> (string \<rightharpoonup> rate_state) \<Rightarrow> string \<Rightarrow> rate_state" where
  "start_state now items key =
     (let st = (case items key of None \<Rightarrow> zero_rate_state | Some st \<Rightarrow> st) in
      if \<not> is_zero_time (expires_at st) \<and> expires_at st \<le> now then zero_rate_state else st)"

fun take_loop :: "(real \<Rightarrow> real) \<Rightarrow> gotime \<Rightarrow> (string \<rightharpoonup> rate_state) \<Rightarrow> rate_request list \<Rightarrow> string list
    \<Rightarrow> (string \<rightharpoonup> rate_state) \<Rightarrow> duration \<Rightarrow> bool \<Rightarrow> (bool \<times> duration \<times> (string \<rightharpoonup> rate_state)) res" where
  "take_loop rnd now items [] seen updates retry_after denied = Inr (denied, retry_after, updates)"
| "take_loop rnd now items (r # rs) seen updates retry_after denied =
     (case rl_validate r of
        Inl e \<Rightarrow> Inl e
      | Inr _ \<Rightarrow>
          if rl_key r \<in> set seen then Inl (NewErr (''duplicate rate limit key '' @ rl_key r))
          else (let (allowed, retry, next) = apply_rate_limit rnd now r (start_state now items (rl_key r)) in
            if \<not> allowed
            then take_loop rnd now items rs (rl_key r # seen) updates
                   (if retry_after < retry then retry else retry_after) True
            else take_loop rnd now items rs (rl_key r # seen)
                   (updates(rl_key r \<mapsto> next\<lparr>expires_at := now + rate_state_ttl rnd r\<rparr>)) retry_after denied))"

definition clean_rate_items :: "gotime \<Rightarrow> (string \<rightharpoonup> rate_state) \<Rightarrow> (string \<rightharpoonup> rate_state)" where
  "clean_rate_items now items k =
     (case items k of None \<Rightarrow> None | Some st \<Rightarrow> if expires_at st \<le> now then None else Some st)"

definition take_rate_limits :: "(real \<Rightarrow> real) \<Rightarrow> gotime \<Rightarrow> rate_request list \<Rightarrow> memory
    \<Rightarrow> (bool \<times> duration) res \<times> memory" where
  "take_rate_limits rnd now reqs s =
     (if reqs = [] then (Inr (True, 0), s)
      else
        let items0 = (case rate_items s of None \<Rightarrow> Map.empty | Some m \<Rightarrow> m);
            (items, cleanup) = (if cleanup_at s < now
               then (clean_rate_items now items0, now + minute) else (items0, cleanup_at s));
            s1 = s\<lparr>rate_items := Some items, cleanup_at := cleanup\<rparr>
        in case take_loop rnd now items reqs [] Map.empty 0 False of
             Inl e \<Rightarrow> (Inl e, s1)
           | Inr (denied, retry_after, updates) \<Rightarrow>
               if denied then (Inr (False, retry_after), s1)
               else (Inr (True, 0), s1\<lparr>rate_items := Some (items ++ updates)\<rparr>))"

definition take_token_buckets :: "(real \<Rightarrow> real) \<Rightarrow> gotime \<Rightarrow> token_bucket_request list \<Rightarrow> memory
    \<Rightarrow> (bool \<times> duration) res \<times> memory" where
  "take_token_buckets rnd now reqs s = take_rate_limits rnd now (map as_rate_limit_request reqs) s"

subsection \<open>Atomicity\<close>

text \<open>What IEEE double rounding guarantees.\<close>

definition rounds :: "(real \<Rightarrow> real) \<Rightarrow> bool" where
  "rounds rnd = ((\<forall>x y. x \<le> y \<longrightarrow> rnd x \<le> rnd y) \<and> (\<forall>n. \<bar>n\<bar> \<le> 2 ^ 53 \<longrightarrow> rnd (of_int n) = of_int n))"

lemma rounds_mono: "rounds rnd \<Longrightarrow> x \<le> y \<Longrightarrow> rnd x \<le> rnd y"
  by (simp add: rounds_def)

lemma rounds_int: "rounds rnd \<Longrightarrow> \<bar>n\<bar> \<le> 2 ^ 53 \<Longrightarrow> rnd (of_int n) = of_int n"
  by (simp add: rounds_def)

lemma rounds_id [simp]: "rounds (\<lambda>x. x)"
  by (simp add: rounds_def)

lemma rounds_nonneg: "rounds rnd \<Longrightarrow> 0 \<le> x \<Longrightarrow> 0 \<le> rnd x"
  using rounds_mono [of rnd 0 x] rounds_int [of rnd 0] by simp

text \<open>The stored states; the state a request for a key would start from at \<open>now\<close>; a stored state
  always carries its expiry.\<close>

definition rate_map :: "memory \<Rightarrow> (string \<rightharpoonup> rate_state)" where
  "rate_map s = (case rate_items s of None \<Rightarrow> Map.empty | Some m \<Rightarrow> m)"

definition rate_at :: "memory \<Rightarrow> gotime \<Rightarrow> string \<Rightarrow> rate_state" where
  "rate_at s now k = start_state now (rate_map s) k"

definition key_expires :: "string \<Rightarrow> memory \<Rightarrow> bool" where
  "key_expires k s = (\<forall>st. rate_map s k = Some st \<longrightarrow> expires_at st \<noteq> 0)"

definition next_state :: "(real \<Rightarrow> real) \<Rightarrow> gotime \<Rightarrow> rate_request \<Rightarrow> rate_state \<Rightarrow> rate_state" where
  "next_state rnd now r st =
     (snd (snd (apply_rate_limit rnd now r st)))\<lparr>expires_at := now + rate_state_ttl rnd r\<rparr>"

lemma start_state_expired [simp]: "expires_at zero_rate_state = 0"
  by (simp add: zero_rate_state_def go_simps)

lemma clean_start_state:
  assumes "key_expires k s" and "now \<le> t"
  shows "start_state t (clean_rate_items now (rate_map s)) k = start_state t (rate_map s) k"
  using assms by (auto simp: start_state_def clean_rate_items_def key_expires_def go_simps split: option.splits)

lemma take_loop_admits:
  assumes "take_loop rnd now items reqs seen updates ra denied = Inr (False, ra', upd')"
  shows "\<not> denied \<and> distinct (map rl_key reqs) \<and> set seen \<inter> rl_key ` set reqs = {} \<and>
    (\<forall>r \<in> set reqs. rl_validate r = Inr () \<and> fst (apply_rate_limit rnd now r (start_state now items (rl_key r)))) \<and>
    upd' = updates ++ map_of (map (\<lambda>r. (rl_key r, next_state rnd now r (start_state now items (rl_key r)))) reqs)"
  using assms
proof (induction reqs arbitrary: seen updates ra denied)
  case Nil
  then show ?case by simp
next
  case (Cons r rs)
  obtain al re nx where a: "apply_rate_limit rnd now r (start_state now items (rl_key r)) = (al, re, nx)"
    by (metis prod_cases3)
  from Cons.prems a have al: "rl_validate r = Inr ()" "rl_key r \<notin> set seen"
    by (auto split: sum.splits if_splits)
  have "al"
  proof (rule ccontr)
    assume "\<not> al"
    with Cons.prems a al have "take_loop rnd now items rs (rl_key r # seen) updates
        (if ra < re then re else ra) True = Inr (False, ra', upd')" by simp
    from Cons.IH [OF this] show False by simp
  qed
  with Cons.prems a al have "take_loop rnd now items rs (rl_key r # seen)
      (updates(rl_key r \<mapsto> nx\<lparr>expires_at := now + rate_state_ttl rnd r\<rparr>)) ra denied = Inr (False, ra', upd')"
    by simp
  note IH = Cons.IH [OF this]
  have nx: "next_state rnd now r (start_state now items (rl_key r)) = nx\<lparr>expires_at := now + rate_state_ttl rnd r\<rparr>"
    by (simp add: next_state_def a)
  define mm where "mm = map_of (map (\<lambda>r. (rl_key r, next_state rnd now r (start_state now items (rl_key r)))) rs)"
  have "rl_key r \<notin> dom mm"
    using IH by (auto simp: mm_def dom_map_of_conv_image_fst image_image)
  then have "updates(rl_key r \<mapsto> y) ++ mm = updates ++ mm(rl_key r \<mapsto> y)" for y
    by (auto simp: map_add_def fun_eq_iff dom_def split: option.splits)
  with IH nx have "upd' = updates ++ mm(rl_key r \<mapsto> next_state rnd now r (start_state now items (rl_key r)))"
    unfolding mm_def by metis
  moreover have "map_of (map (\<lambda>r. (rl_key r, next_state rnd now r (start_state now items (rl_key r)))) (r # rs)) =
      mm(rl_key r \<mapsto> next_state rnd now r (start_state now items (rl_key r)))"
    by (simp add: mm_def)
  moreover have "distinct (map rl_key (r # rs))" "set seen \<inter> rl_key ` set (r # rs) = {}" "\<not> denied"
    using IH al by auto
  moreover have "\<forall>r' \<in> set (r # rs). rl_validate r' = Inr () \<and>
      fst (apply_rate_limit rnd now r' (start_state now items (rl_key r')))"
    using IH al \<open>al\<close> a by simp
  ultimately show ?case by metis
qed

text \<open>The two outcomes of a call, for one key.\<close>

lemma take_denied:
  assumes "\<forall>d. fst (take_rate_limits rnd now reqs s) \<noteq> Inr (True, d)" and "key_expires k s" and "now \<le> t"
  shows "rate_at (snd (take_rate_limits rnd now reqs s)) t k = rate_at s t k"
    and "key_expires k (snd (take_rate_limits rnd now reqs s))"
  using assms clean_start_state [OF assms(2,3)]
  by (auto simp: take_rate_limits_def rate_at_def rate_map_def key_expires_def clean_rate_items_def Let_def
      split: if_splits sum.splits prod.splits option.splits)

lemma map_of_requests:
  assumes "distinct (map rl_key reqs)" and "r \<in> set reqs"
  shows "map_of (map (\<lambda>r. (rl_key r, f r)) reqs) (rl_key r) = Some (f r)"
  using assms by (intro map_of_is_SomeI) (auto simp: comp_def)

lemma map_of_requests_None:
  "k \<notin> rl_key ` set reqs \<Longrightarrow> map_of (map (\<lambda>r. (rl_key r, f r)) reqs) k = None"
  by (auto simp: map_of_eq_None_iff)

lemma take_admitted:
  assumes "fst (take_rate_limits rnd now reqs s) = Inr (True, d)" and "key_expires k s" and "reqs \<noteq> []"
  shows "d = 0 \<and> distinct (map rl_key reqs) \<and>
    (\<forall>r \<in> set reqs. rl_validate r = Inr () \<and>
      (rl_key r = k \<longrightarrow> fst (apply_rate_limit rnd now r (rate_at s now k)) \<and>
        rate_map (snd (take_rate_limits rnd now reqs s)) k = Some (next_state rnd now r (rate_at s now k)))) \<and>
    (k \<notin> rl_key ` set reqs \<longrightarrow> (\<forall>t \<ge> now. rate_at (snd (take_rate_limits rnd now reqs s)) t k = rate_at s t k) \<and>
      key_expires k (snd (take_rate_limits rnd now reqs s)))"
proof -
  define items where "items = (if cleanup_at s < now then clean_rate_items now (rate_map s) else rate_map s)"
  define cl where "cl = (if cleanup_at s < now then now + minute else cleanup_at s)"
  have start: "start_state t items k = rate_at s t k" if "now \<le> t" for t
    using clean_start_state [OF assms(2) that] by (simp add: items_def rate_at_def)
  have ke: "items k = Some st \<Longrightarrow> expires_at st \<noteq> 0" for st
    using assms(2) by (auto simp: items_def key_expires_def clean_rate_items_def split: option.splits if_splits)
  have unf: "take_rate_limits rnd now reqs s =
      (case take_loop rnd now items reqs [] Map.empty 0 False of
         Inl e \<Rightarrow> (Inl e, s\<lparr>rate_items := Some items, cleanup_at := cl\<rparr>)
       | Inr (denied, retry_after, updates) \<Rightarrow>
           if denied then (Inr (False, retry_after), s\<lparr>rate_items := Some items, cleanup_at := cl\<rparr>)
           else (Inr (True, 0), s\<lparr>rate_items := Some (items ++ updates), cleanup_at := cl\<rparr>))"
    using assms(3) by (simp add: take_rate_limits_def items_def cl_def rate_map_def Let_def split: sum.splits prod.splits)
  from assms(1) obtain ra updates where loop: "take_loop rnd now items reqs [] Map.empty 0 False = Inr (False, ra, updates)"
    and d: "d = 0"
    unfolding unf by (auto split: sum.splits prod.splits if_splits)
  then have res: "rate_map (snd (take_rate_limits rnd now reqs s)) = items ++ updates"
    unfolding unf by (simp add: rate_map_def)
  note adm = take_loop_admits [OF loop]
  define f where "f = (\<lambda>r. next_state rnd now r (start_state now items (rl_key r)))"
  have upd: "updates = map_of (map (\<lambda>r. (rl_key r, f r)) reqs)" and dist: "distinct (map rl_key reqs)"
    using adm by (simp_all add: f_def)
  have "fst (apply_rate_limit rnd now r (rate_at s now k)) \<and>
      rate_map (snd (take_rate_limits rnd now reqs s)) k = Some (next_state rnd now r (rate_at s now k))"
    if "r \<in> set reqs" "rl_key r = k" for r
    using adm that start map_of_requests [OF dist that(1), of f] unfolding res upd by (auto simp: f_def)
  moreover have "(\<forall>t \<ge> now. rate_at (snd (take_rate_limits rnd now reqs s)) t k = rate_at s t k) \<and>
      key_expires k (snd (take_rate_limits rnd now reqs s))" if "k \<notin> rl_key ` set reqs"
  proof -
    have same: "(items ++ updates) k = items k"
      unfolding upd by (simp add: map_add_def map_of_requests_None [OF that])
    then have "start_state t (items ++ updates) k = start_state t items k" for t
      by (simp add: start_state_def)
    with start same ke show ?thesis
      by (simp add: rate_at_def res key_expires_def)
  qed
  ultimately show ?thesis
    using d dist adm by blast
qed

text \<open>C3: \<open>TakeRateLimits\<close> is atomic over its keys. When it admits, no key was named twice, every request was
  admitted by its algorithm from the key's state at that instant, and exactly the named keys move to
  their next states; when it denies or fails, no key's state changes.\<close>

theorem take_rate_limits_atomic:
  assumes "reqs \<noteq> []" and "key_expires k s" and "now \<le> t"
  shows "let (res, s') = take_rate_limits rnd now reqs s in
    if res = Inr (True, 0)
    then distinct (map rl_key reqs) \<and>
      (case find (\<lambda>r. rl_key r = k) reqs of
         Some r \<Rightarrow> fst (apply_rate_limit rnd now r (rate_at s now k)) \<and>
           rate_map s' k = Some (next_state rnd now r (rate_at s now k))
       | None \<Rightarrow> rate_at s' t k = rate_at s t k)
    else (\<forall>d. res \<noteq> Inr (True, d)) \<and> rate_at s' t k = rate_at s t k"
proof (cases "\<exists>d. fst (take_rate_limits rnd now reqs s) = Inr (True, d)")
  case True
  then obtain d where "fst (take_rate_limits rnd now reqs s) = Inr (True, d)" by blast
  from take_admitted [OF this assms(2,1)] this assms(3) show ?thesis
    by (auto simp: split_def Let_def find_Some_iff find_None_iff image_iff split: option.splits)
next
  case False
  with take_denied [of rnd now reqs s k t] assms(2,3) show ?thesis
    by (auto simp: split_def Let_def)
qed

definition burst_request :: "string \<Rightarrow> rate_request" where
  "burst_request k = \<lparr>rl_key = k, rl_algorithm = FixedWindow, rl_tokens_per_second = Fin 0, rl_burst = 0,
     rl_limit = 1, rl_window = second, rl_leak_rate = Fin 0, rl_capacity = 0\<rparr>"

theorem take_rate_limits_atomic_witness:
  "let (res, s') = take_rate_limits (\<lambda>x. x) 7 [burst_request ''a''] new_memory in
    if res = Inr (True, 0)
    then distinct (map rl_key [burst_request ''a'']) \<and>
      (case find (\<lambda>r. rl_key r = ''a'') [burst_request ''a''] of
         Some r \<Rightarrow> fst (apply_rate_limit (\<lambda>x. x) 7 r (rate_at new_memory 7 ''a'')) \<and>
           rate_map s' ''a'' = Some (next_state (\<lambda>x. x) 7 r (rate_at new_memory 7 ''a''))
       | None \<Rightarrow> rate_at s' 8 ''a'' = rate_at new_memory 8 ''a'')
    else (\<forall>d. res \<noteq> Inr (True, d)) \<and> rate_at s' 8 ''a'' = rate_at new_memory 8 ''a''"
  by (rule take_rate_limits_atomic) (simp_all add: key_expires_def rate_map_def new_memory_def)

subsection \<open>Runs\<close>

text \<open>The instants at which a sequence of calls admitted a request for a key.\<close>

fun admitted_at :: "(real \<Rightarrow> real) \<Rightarrow> string \<Rightarrow> (gotime \<times> rate_request list) list \<Rightarrow> memory \<Rightarrow> gotime list" where
  "admitted_at rnd k [] s = []"
| "admitted_at rnd k ((now, reqs) # calls) s =
     (let (res, s') = take_rate_limits rnd now reqs s in
      (if res = Inr (True, 0) \<and> k \<in> set (map rl_key reqs) then [now] else []) @ admitted_at rnd k calls s')"

text \<open>The clock does not run backwards, and every request for the key has the parameters \<open>r\<close>.\<close>

definition steady_calls :: "gotime \<Rightarrow> rate_request \<Rightarrow> (gotime \<times> rate_request list) list \<Rightarrow> bool" where
  "steady_calls start r calls = (sorted (map fst calls) \<and> (\<forall>c \<in> set calls. start \<le> fst c \<and>
     (\<forall>r' \<in> set (snd c). rl_key r' = rl_key r \<longrightarrow> r' = r)))"

lemma run_invariant:
  assumes I: "I start H s" and calls: "steady_calls start r calls"
    and expires: "\<And>T H s. I T H s \<Longrightarrow> key_expires (rl_key r) s"
    and keep: "\<And>T H s now s'. I T H s \<Longrightarrow> T \<le> now \<Longrightarrow> key_expires (rl_key r) s' \<Longrightarrow>
        \<forall>t \<ge> now. rate_at s' t (rl_key r) = rate_at s t (rl_key r) \<Longrightarrow> I now H s'"
    and admit: "\<And>T H s now s'. I T H s \<Longrightarrow> T \<le> now \<Longrightarrow> rl_validate r = Inr () \<Longrightarrow>
        fst (apply_rate_limit rnd now r (rate_at s now (rl_key r))) \<Longrightarrow>
        rate_map s' (rl_key r) = Some (next_state rnd now r (rate_at s now (rl_key r))) \<Longrightarrow> I now (H @ [now]) s'"
  shows "\<exists>T s'. I T (H @ admitted_at rnd (rl_key r) calls s) s'"
  using I calls
proof (induction calls arbitrary: start H s)
  case Nil
  then show ?case by auto
next
  case (Cons c calls)
  obtain now reqs where c: "c = (now, reqs)" by (cases c)
  let ?k = "rl_key r"
  let ?s = "snd (take_rate_limits rnd now reqs s)"
  from Cons.prems(2) have now: "start \<le> now" and steady: "steady_calls now r calls"
    and reqs: "\<And>r'. r' \<in> set reqs \<Longrightarrow> rl_key r' = ?k \<Longrightarrow> r' = r"
    by (auto simp: steady_calls_def c)
  note ke = expires [OF Cons.prems(1)]
  show ?case
  proof (cases "fst (take_rate_limits rnd now reqs s) = Inr (True, 0) \<and> ?k \<in> set (map rl_key reqs)")
    case True
    then obtain "reqs \<noteq> []" and r: "r \<in> set reqs" using reqs by fastforce
    with take_admitted [OF conjunct1 [OF True] ke] have "I now (H @ [now]) ?s"
      by (intro admit [OF Cons.prems(1) now]) auto
    from Cons.IH [OF this steady] True show ?thesis
      by (auto simp: c split_def Let_def)
  next
    case False
    have "key_expires ?k ?s \<and> (\<forall>t \<ge> now. rate_at ?s t ?k = rate_at s t ?k)"
    proof (cases "\<exists>d. fst (take_rate_limits rnd now reqs s) = Inr (True, d)")
      case True
      then obtain d where d: "fst (take_rate_limits rnd now reqs s) = Inr (True, d)" by blast
      show ?thesis
      proof (cases "reqs = []")
        case True
        with ke show ?thesis by (simp add: take_rate_limits_def)
      next
        case False
        with take_admitted [OF d ke] d \<open>\<not> (_ \<and> _)\<close> show ?thesis by auto
      qed
    next
      case False
      with take_denied [of rnd now reqs s ?k] ke show ?thesis by auto
    qed
    then have "I now H ?s" using keep [OF Cons.prems(1) now] by blast
    from Cons.IH [OF this steady] False show ?thesis
      by (auto simp: c split_def Let_def)
  qed
qed

subsection \<open>Fixed window\<close>

lemma sdiv_pos: "0 < w \<Longrightarrow> x sdiv w = (if 0 \<le> x then x div w else - ((- x) div w))" for x w :: int
  by (auto simp: signed_divide_int_def sgn_if)

lemma sdiv_mono: "0 < w \<Longrightarrow> x \<le> y \<Longrightarrow> x sdiv w \<le> y sdiv w" for x y w :: int
proof -
  assume w: "0 < w" and xy: "x \<le> y"
  have "0 \<le> (- x) div w" if "x < 0" using w that by (simp add: pos_imp_zdiv_nonneg_iff)
  moreover have "0 \<le> y div w" if "0 \<le> y" using w that by (simp add: pos_imp_zdiv_nonneg_iff)
  moreover have "(- y) div w \<le> (- x) div w" using w xy by (intro zdiv_mono1) simp_all
  moreover have "x div w \<le> y div w" using w xy by (intro zdiv_mono1) simp_all
  ultimately show "x sdiv w \<le> y sdiv w"
    using w xy by (auto simp: sdiv_pos)
qed

lemma div_same_less: "0 < w \<Longrightarrow> x div w = y div w \<Longrightarrow> y < x + w" for x y w :: int
proof -
  assume w: "0 < w" and eq: "x div w = y div w"
  have "w * (x div w) \<le> x" "y < w * (y div w) + w"
    using w pos_mod_sign [OF w, of x] pos_mod_bound [OF w, of y] mult_div_mod_eq [of w x] mult_div_mod_eq [of w y]
    by linarith+
  with eq show ?thesis by simp
qed

lemma sdiv_same_less: "0 < w \<Longrightarrow> x sdiv w = y sdiv w \<Longrightarrow> y < x + 2 * w" for x y w :: int
proof -
  assume w: "0 < w" and eq: "x sdiv w = y sdiv w"
  have pos: "0 \<le> (- x) div w" if "x < 0" for x using w that by (simp add: pos_imp_zdiv_nonneg_iff)
  have pos': "0 \<le> x div w" if "0 \<le> x" for x using w that by (simp add: pos_imp_zdiv_nonneg_iff)
  consider "0 \<le> x" "0 \<le> y" | "x < 0" "y < 0" | "x < 0" "0 \<le> y" | "0 \<le> x" "y < 0" by linarith
  then show "y < x + 2 * w"
  proof cases
    case 1
    with eq w have "x div w = y div w" by (simp add: sdiv_pos)
    from div_same_less [OF w this] w show ?thesis by simp
  next
    case 2
    with w show ?thesis using eq div_same_less [OF w, of "- y" "- x"] by (simp add: sdiv_pos)
  next
    case 3
    with eq w pos [of x] pos' [of y] have "(- x) div w = 0" "y div w = 0" by (simp_all add: sdiv_pos)
    then have "- x < 0 + w" "y < 0 + w"
      using div_same_less [OF w, of 0 "- x"] div_same_less [OF w, of 0 y] by simp_all
    then show ?thesis by simp
  next
    case 4
    with w show ?thesis by simp
  qed
qed

definition window_of :: "rate_request \<Rightarrow> gotime \<Rightarrow> int" where
  "window_of r t = unix_nano t sdiv rl_window r"

lemma window_of_mono: "0 < rl_window r \<Longrightarrow> t \<le> t' \<Longrightarrow> window_of r t \<le> window_of r t'"
  by (auto simp: window_of_def unix_nano_def intro: sdiv_mono)

lemma window_of_same: "0 < rl_window r \<Longrightarrow> window_of r t = window_of r t' \<Longrightarrow> t' < t + 2 * rl_window r"
  using sdiv_same_less [of "rl_window r" "unix_nano t" "unix_nano t'"] by (simp add: window_of_def unix_nano_def)

text \<open>How many of the instants in \<open>H\<close> lie in window \<open>w\<close>; the count a state stands for at \<open>t\<close>.\<close>

definition in_window :: "rate_request \<Rightarrow> gotime list \<Rightarrow> int \<Rightarrow> nat" where
  "in_window r H w = length (filter (\<lambda>t. window_of r t = w) H)"

definition window_count :: "rate_request \<Rightarrow> rate_state \<Rightarrow> gotime \<Rightarrow> int" where
  "window_count r st t = (if window_id st = window_of r t then current_count st else 0)"

definition fixed_inv :: "rate_request \<Rightarrow> gotime \<Rightarrow> gotime list \<Rightarrow> memory \<Rightarrow> bool" where
  "fixed_inv r T H s = (key_expires (rl_key r) s \<and> (\<forall>h \<in> set H. h \<le> T) \<and>
     (\<forall>t \<ge> T. int (in_window r H (window_of r t)) \<le> window_count r (rate_at s t (rl_key r)) t) \<and>
     (\<forall>w. int (in_window r H w) \<le> rl_limit r))"

lemma zero_count [simp]: "window_count r zero_rate_state t = 0"
  by (simp add: window_count_def zero_rate_state_def)

lemma fixed_inv_admit:
  assumes inv: "fixed_inv r T H s" and now: "T \<le> now" "0 \<le> now" and alg: "rl_algorithm r = FixedWindow"
    and W: "0 < rl_window r"
    and adm: "fst (apply_rate_limit rnd now r (rate_at s now (rl_key r)))"
    and new: "rate_map s' (rl_key r) = Some (next_state rnd now r (rate_at s now (rl_key r)))"
  shows "fixed_inv r now (H @ [now]) s'"
proof -
  let ?st = "rate_at s now (rl_key r)"
  let ?n = "next_state rnd now r ?st"
  have count: "window_count r ?st now + 1 \<le> rl_limit r"
    using adm alg by (auto simp: apply_rate_limit_def apply_fixed_window_def window_count_def window_of_def
        Let_def zero_rate_state_def split: if_splits)
  have n: "window_id ?n = window_of r now" "current_count ?n = window_count r ?st now + 1"
    "expires_at ?n = now + rl_window r * 2"
    using adm alg by (auto simp: next_state_def apply_rate_limit_def apply_fixed_window_def rate_state_ttl_def
        window_count_def window_of_def Let_def zero_rate_state_def split: if_splits)
  have H: "\<forall>h \<in> set H. h \<le> now" and old: "int (in_window r H (window_of r now)) \<le> window_count r ?st now"
    and lim: "\<forall>w. int (in_window r H w) \<le> rl_limit r"
    using inv now by (auto simp: fixed_inv_def)
  have at: "rate_at s' t (rl_key r) = (if expires_at ?n \<le> t then zero_rate_state else ?n)" for t
    using n(3) now W by (simp add: rate_at_def start_state_def new go_simps)
  have "int (in_window r (H @ [now]) (window_of r t)) \<le> window_count r (rate_at s' t (rl_key r)) t" if t: "now \<le> t" for t
  proof (cases "window_of r t = window_of r now")
    case True
    then have "\<not> expires_at ?n \<le> t"
      using window_of_same [OF W, of now t] n(3) by simp
    then show ?thesis
      using True old n at by (simp add: in_window_def window_count_def)
  next
    case False
    have "window_of r h \<noteq> window_of r t" if "h \<in> set H" for h
      using window_of_mono [OF W, of h now] window_of_mono [OF W t] H that False by force
    then have "filter (\<lambda>h. window_of r h = window_of r t) H = []"
      by (simp add: filter_empty_conv)
    then have "in_window r (H @ [now]) (window_of r t) = 0"
      using False by (simp add: in_window_def)
    moreover have "0 \<le> window_count r (rate_at s' t (rl_key r)) t"
      using at n False by (simp add: window_count_def zero_rate_state_def)
    ultimately show ?thesis by simp
  qed
  moreover have "int (in_window r (H @ [now]) w) \<le> rl_limit r" for w
    using lim old count by (auto simp: in_window_def)
  ultimately show ?thesis
    using H new n(3) now W by (auto simp: fixed_inv_def key_expires_def)
qed



subsection \<open>Sliding window log\<close>

definition log_since :: "rate_request \<Rightarrow> gotime \<Rightarrow> rate_state \<Rightarrow> int list" where
  "log_since r t st = filter (\<lambda>e. unix_nano t - rl_window r < e) (events st)"

definition log_inv :: "rate_request \<Rightarrow> gotime \<Rightarrow> gotime list \<Rightarrow> memory \<Rightarrow> bool" where
  "log_inv r T H s = (key_expires (rl_key r) s \<and> (\<forall>h \<in> set H. h \<le> T) \<and>
     (\<forall>t \<ge> T. sorted (events (rate_at s t (rl_key r))) \<and>
        log_since r t (rate_at s t (rl_key r)) = map unix_nano (filter (\<lambda>h. t - rl_window r < h) H)) \<and>
     (\<forall>t. int (length (filter (\<lambda>h. t - rl_window r < h \<and> h \<le> t) H)) \<le> rl_limit r))"

lemma dropWhile_sorted: "sorted xs \<Longrightarrow> dropWhile (\<lambda>e. e \<le> c) xs = filter (\<lambda>e. c < e) xs" for c :: "'a::linorder"
proof (induction xs)
  case (Cons x xs)
  then show ?case by (cases "x \<le> c") (auto simp: filter_id_conv intro!: filter_True [symmetric])
qed simp

lemma log_inv_admit:
  assumes inv: "log_inv r T H s" and now: "T \<le> now" "0 \<le> now" and alg: "rl_algorithm r = SlidingWindowLog"
    and W: "0 < rl_window r"
    and adm: "fst (apply_rate_limit rnd now r (rate_at s now (rl_key r)))"
    and new: "rate_map s' (rl_key r) = Some (next_state rnd now r (rate_at s now (rl_key r)))"
  shows "log_inv r now (H @ [now]) s'"
proof -
  let ?st = "rate_at s now (rl_key r)" and ?W = "rl_window r"
  let ?n = "next_state rnd now r ?st"
  define old where "old = map unix_nano (filter (\<lambda>h. now - ?W < h) H)"
  have sorted: "sorted (events ?st)" and old: "log_since r now ?st = old"
    using inv now by (auto simp: log_inv_def old_def)
  have H: "\<forall>h \<in> set H. h \<le> now" and lim: "\<forall>t. int (length (filter (\<lambda>h. t - ?W < h \<and> h \<le> t) H)) \<le> rl_limit r"
    using inv now by (auto simp: log_inv_def)
  have "dropWhile (\<lambda>e. e \<le> unix_nano (now - ?W)) (events ?st) = old"
    using old dropWhile_sorted [OF sorted] by (simp add: log_since_def unix_nano_def diff_right_commute)
  then have n: "events ?n = old @ [unix_nano now]" "expires_at ?n = now + ?W"
    and len: "int (length old) + 1 \<le> rl_limit r"
    using adm alg by (auto simp: next_state_def apply_rate_limit_def apply_sliding_log_def rate_state_ttl_def
        Let_def split: if_splits)
  have at: "rate_at s' t (rl_key r) = (if now + ?W \<le> t then zero_rate_state else ?n)" for t
    using n(2) now W by (simp add: rate_at_def start_state_def new go_simps)
  have "sorted old"
    unfolding old [symmetric] log_since_def using sorted by (rule sorted_wrt_filter)
  then have s1: "sorted (events (rate_at s' t (rl_key r)))" for t
    using H by (auto simp: at n sorted_append zero_rate_state_def old_def unix_nano_def)
  have "log_since r t (rate_at s' t (rl_key r)) = map unix_nano (filter (\<lambda>h. t - ?W < h) (H @ [now]))"
    if t: "now \<le> t" for t
  proof (cases "now + ?W \<le> t")
    case True
    then show ?thesis
      using H by (auto simp: at log_since_def zero_rate_state_def filter_empty_conv)
  next
    case False
    have "filter (\<lambda>e. unix_nano t - ?W < e) old = map unix_nano (filter (\<lambda>h. t - ?W < h) H)"
      unfolding old_def using t
      by (induction H) (auto simp: unix_nano_def)
    with False show ?thesis
      by (simp add: at log_since_def n unix_nano_def)
  qed
  moreover have "int (length (filter (\<lambda>h. t - ?W < h \<and> h \<le> t) (H @ [now]))) \<le> rl_limit r" for t
  proof (cases "now \<le> t")
    case True
    have "length (filter (\<lambda>h. t - ?W < h \<and> h \<le> t) H) \<le> length (filter (\<lambda>h. now - ?W < h) H)"
      using True by (induction H) auto
    with len show ?thesis by (simp add: old_def)
  next
    case False
    with lim show ?thesis by simp
  qed
  ultimately show ?thesis
    using s1 H new n(2) now W by (auto simp: log_inv_def key_expires_def)
qed

text \<open>The sliding-window log is exact: in any run, every interval of length \<open>Window\<close>, wherever it starts,
  holds at most \<open>Limit\<close> admitted requests of the key.\<close>

theorem sliding_log_limit:
  assumes "rl_algorithm r = SlidingWindowLog" and "rl_validate r = Inr ()" and "0 \<le> start" and "steady_calls start r calls"
  shows "int (length (filter (\<lambda>h. t - rl_window r < h \<and> h \<le> t)
           (admitted_at rnd (rl_key r) calls new_memory))) \<le> rl_limit r"
proof -
  have W: "0 < rl_window r" and L: "1 \<le> rl_limit r"
    using assms(1,2) by (auto simp: rl_validate_def valid_window_def go_simps split: if_splits)
  have "\<exists>T s'. 0 \<le> T \<and> log_inv r T ([] @ admitted_at rnd (rl_key r) calls new_memory) s'"
  proof (rule run_invariant [where I = "\<lambda>T H s. 0 \<le> T \<and> log_inv r T H s" and start = start and H = "[]"])
    show "0 \<le> start \<and> log_inv r start [] new_memory"
      using assms(3) L by (auto simp: log_inv_def key_expires_def rate_map_def new_memory_def log_since_def
          rate_at_def start_state_def zero_rate_state_def)
  next
    fix T H s now s'
    assume "0 \<le> T \<and> log_inv r T H s" "T \<le> now" "key_expires (rl_key r) s'"
      "\<forall>t \<ge> now. rate_at s' t (rl_key r) = rate_at s t (rl_key r)"
    then show "0 \<le> now \<and> log_inv r now H s'"
      by (fastforce simp: log_inv_def)
  next
    fix T H s now s'
    assume "0 \<le> T \<and> log_inv r T H s" "T \<le> now"
      "fst (apply_rate_limit rnd now r (rate_at s now (rl_key r)))"
      "rate_map s' (rl_key r) = Some (next_state rnd now r (rate_at s now (rl_key r)))"
    then show "0 \<le> now \<and> log_inv r now (H @ [now]) s'"
      using log_inv_admit [OF _ _ _ assms(1) W, of T H s now rnd s'] by simp
  qed (use assms(4) in \<open>auto simp: log_inv_def\<close>)
  then show ?thesis by (auto simp: log_inv_def)
qed

definition log_request :: "string \<Rightarrow> rate_request" where
  "log_request k = (burst_request k)\<lparr>rl_algorithm := SlidingWindowLog\<rparr>"

theorem sliding_log_limit_witness:
  "int (length (filter (\<lambda>h. 9 - rl_window (log_request ''a'') < h \<and> h \<le> 9)
      (admitted_at (\<lambda>x. x) (rl_key (log_request ''a'')) [(7, [log_request ''a'']), (8, [log_request ''a''])] new_memory)))
    \<le> rl_limit (log_request ''a'')"
  by (rule sliding_log_limit [where start = 5])
     (simp_all add: log_request_def burst_request_def rl_validate_def valid_window_def max_rate_limit_window_def
        max_sliding_window_log_limit_def steady_calls_def go_simps)

subsection \<open>Token bucket\<close>

lemma seconds_exact: "seconds (\<lambda>x. x) d = of_int d / 1000000000"
proof -
  have "d = d sdiv second * second + d smod second"
    using sdiv_mult_smod_eq [of d second] by simp
  then have "(of_int d :: real) = of_int (d sdiv second) * 1000000000 + of_int (d smod second)"
    unfolding go_simps by (metis of_int_add of_int_mult of_int_numeral)
  then show ?thesis
    by (simp add: seconds_def)
qed

definition rate_of :: "rate_request \<Rightarrow> real" where
  "rate_of r = float_val (rl_tokens_per_second r)"

text \<open>What the bucket holds at \<open>t\<close>, in exact arithmetic.\<close>

definition avail :: "rate_request \<Rightarrow> rate_state \<Rightarrow> gotime \<Rightarrow> real" where
  "avail r st t = (if updated_at st = 0 then of_int (rl_burst r)
     else min (of_int (rl_burst r)) (tokens st + of_int (time_sub t (updated_at st)) / 1000000000 * rate_of r))"

definition earned :: "rate_request \<Rightarrow> gotime \<Rightarrow> gotime \<Rightarrow> real" where
  "earned r start t = of_int (rl_burst r) + rate_of r * of_int (t - start) / 1000000000"

definition bucket_inv :: "rate_request \<Rightarrow> gotime \<Rightarrow> gotime \<Rightarrow> gotime list \<Rightarrow> memory \<Rightarrow> bool" where
  "bucket_inv r start T H s = (key_expires (rl_key r) s \<and> start \<le> T \<and>
     (\<forall>t \<ge> T. length H + avail r (rate_at s t (rl_key r)) t \<le> earned r start t) \<and>
     (\<forall>i < length H. real (i + 1) \<le> earned r start (H ! i)))"

lemma bucket_inv_admit:
  assumes inv: "bucket_inv r start T H s" and now: "T \<le> now" "0 < start" and alg: "rl_algorithm r = TokenBucket"
    and rate: "0 < rate_of r" and B: "1 \<le> rl_burst r"
    and adm: "fst (apply_rate_limit (\<lambda>x. x) now r (rate_at s now (rl_key r)))"
    and new: "rate_map s' (rl_key r) = Some (next_state (\<lambda>x. x) now r (rate_at s now (rl_key r)))"
  shows "bucket_inv r start now (H @ [now]) s'"
proof -
  let ?st = "rate_at s now (rl_key r)"
  let ?n = "next_state (\<lambda>x. x) now r ?st"
  define a where "a = avail r ?st now"
  have st: "start \<le> now" using inv now by (simp add: bucket_inv_def)
  have le: "length H + a \<le> earned r start now"
    using inv now by (simp add: bucket_inv_def a_def)
  have n: "1 \<le> a" "tokens ?n = a - 1" "updated_at ?n = now" "expires_at ?n = now + rate_state_ttl (\<lambda>x. x) r"
    using adm alg by (auto simp: next_state_def apply_rate_limit_def apply_token_bucket_def a_def avail_def
        Let_def seconds_exact rate_of_def go_simps split: if_splits)
  define ms where "ms = \<lceil>of_int (rl_burst r) / rate_of r * 1000\<rceil>"
  have ms: "of_int (rl_burst r) / rate_of r * 1000 \<le> of_int ms" unfolding ms_def by (rule le_of_int_ceiling)
  have "0 \<le> of_int (rl_burst r) / rate_of r * 1000" using rate B by simp
  with ms have ms0: "0 \<le> ms" by linarith
  have ttl: "rate_state_ttl (\<lambda>x. x) r = (ms + 1000) * 1000000"
    using alg by (simp add: rate_state_ttl_def ms_def rate_of_def go_simps)
  have at: "rate_at s' t (rl_key r) = (if expires_at ?n \<le> t then zero_rate_state else ?n)" for t
    using n(4) now st ms0 by (simp add: rate_at_def start_state_def new go_simps ttl)
  have "length (H @ [now]) + avail r (rate_at s' t (rl_key r)) t \<le> earned r start t" if t: "now \<le> t" for t
  proof -
    have more: "earned r start t = earned r start now + rate_of r * of_int (t - now) / 1000000000"
      by (simp add: earned_def algebra_simps diff_divide_distrib add_divide_distrib)
    have "avail r (rate_at s' t (rl_key r)) t \<le> a - 1 + rate_of r * of_int (t - now) / 1000000000"
    proof (cases "expires_at ?n \<le> t")
      case True
      then have "(of_int ms :: real) * 1000000 \<le> of_int (t - now)"
        unfolding n ttl by (simp add: algebra_simps)
      moreover have "q * 1000000000 \<le> x" if "q * 1000 \<le> m" "m * 1000000 \<le> x" for q m x :: real
        using that by linarith
      ultimately have "of_int (rl_burst r) / rate_of r * 1000000000 \<le> of_int (t - now)"
        using ms by blast
      then have "of_int (rl_burst r) \<le> rate_of r * of_int (t - now) / 1000000000"
        using rate by (simp add: field_simps)
      with True n(1) show ?thesis
        by (simp add: at avail_def zero_rate_state_def go_simps)
    next
      case False
      have "time_sub t now \<le> t - now" using t by (simp add: time_sub_def max_int64_def)
      then have "(of_int (time_sub t now) :: real) \<le> of_int (t - now)"
        by (simp only: of_int_le_iff)
      then have "rate_of r * of_int (time_sub t now) \<le> rate_of r * of_int (t - now)"
        using rate by (simp only: mult_left_mono less_imp_le)
      then have "of_int (time_sub t now) / 1000000000 * rate_of r \<le> rate_of r * of_int (t - now) / 1000000000"
        by (simp add: mult.commute)
      with False st now show ?thesis
        by (simp add: at avail_def n min_def)
    qed
    with le more show ?thesis by simp
  qed
  moreover have "real (i + 1) \<le> earned r start ((H @ [now]) ! i)" if "i < length (H @ [now])" for i
    using that inv le n(1) by (auto simp: bucket_inv_def nth_append less_Suc_eq)
  ultimately show ?thesis
    using st new n(4) now ms0 by (simp add: bucket_inv_def key_expires_def ttl)
qed

text \<open>The token bucket honours its contract, in exact arithmetic: the (i+1)-th request it admits comes no
  earlier than \<open>Burst\<close> plus the tokens generated since the start allow, whatever the instants of the calls,
  including when an idle state has expired and is recreated full.\<close>

theorem token_bucket_rate:
  assumes "rl_algorithm r = TokenBucket" and "rl_validate r = Inr ()" and "0 < start" and "steady_calls start r calls"
    and "i < length (admitted_at (\<lambda>x. x) (rl_key r) calls new_memory)"
  shows "real (i + 1) \<le> earned r start (admitted_at (\<lambda>x. x) (rl_key r) calls new_memory ! i)"
proof -
  have rate: "0 < rate_of r" and B: "1 \<le> rl_burst r"
    using assms(1,2)
    by (auto simp: rl_validate_def valid_rate_def rate_of_def float_val_def split: if_splits float64.splits)
  have "\<exists>T s'. bucket_inv r start T ([] @ admitted_at (\<lambda>x. x) (rl_key r) calls new_memory) s'"
  proof (rule run_invariant [where I = "bucket_inv r start" and start = start and H = "[]"])
    show "bucket_inv r start start [] new_memory"
      using rate by (auto simp: bucket_inv_def key_expires_def rate_map_def new_memory_def avail_def earned_def
          rate_at_def start_state_def zero_rate_state_def go_simps)
  next
    fix T H s now s'
    assume "bucket_inv r start T H s" "T \<le> now" "key_expires (rl_key r) s'"
      "\<forall>t \<ge> now. rate_at s' t (rl_key r) = rate_at s t (rl_key r)"
    then show "bucket_inv r start now H s'"
      by (fastforce simp: bucket_inv_def)
  next
    fix T H s now s'
    assume "bucket_inv r start T H s" "T \<le> now"
      "fst (apply_rate_limit (\<lambda>x. x) now r (rate_at s now (rl_key r)))"
      "rate_map s' (rl_key r) = Some (next_state (\<lambda>x. x) now r (rate_at s now (rl_key r)))"
    then show "bucket_inv r start now (H @ [now]) s'"
      using bucket_inv_admit [OF _ _ assms(3,1) rate B] by blast
  qed (use assms(4) in \<open>auto simp: bucket_inv_def\<close>)
  with assms(5) show ?thesis by (auto simp: bucket_inv_def)
qed

definition bucket_request :: "string \<Rightarrow> rate_request" where
  "bucket_request k = (burst_request k)\<lparr>rl_algorithm := TokenBucket, rl_tokens_per_second := Fin 1, rl_burst := 1\<rparr>"

theorem token_bucket_rate_witness:
  "real (0 + 1) \<le> earned (bucket_request ''a'') 7
     (admitted_at (\<lambda>x. x) (rl_key (bucket_request ''a'')) [(7, [bucket_request ''a''])] new_memory ! 0)"
  by (rule token_bucket_rate)
     (simp_all add: bucket_request_def burst_request_def rl_validate_def valid_rate_def max_rate_limit_rate_def
        max_rate_limit_capacity_def steady_calls_def take_rate_limits_def new_memory_def apply_rate_limit_def
        apply_token_bucket_def start_state_def clean_rate_items_def zero_rate_state_def go_simps Let_def)

subsection \<open>Bounds of the stored states\<close>

definition counts_ok :: "rate_state \<Rightarrow> bool" where
  "counts_ok st = (0 \<le> current_count st \<and> current_count st \<le> max_rate_limit_capacity \<and>
     0 \<le> prev_count st \<and> prev_count st \<le> max_rate_limit_capacity)"

text \<open>What a state admitted by each algorithm satisfies.\<close>

definition within_bounds :: "rate_request \<Rightarrow> rate_state \<Rightarrow> bool" where
  "within_bounds r st =
     (case rl_algorithm r of
        TokenBucket \<Rightarrow> 0 \<le> tokens st \<and> tokens st \<le> of_int (rl_burst r - 1)
      | FixedWindow \<Rightarrow> 1 \<le> current_count st \<and> current_count st \<le> rl_limit r
      | SlidingWindowCounter \<Rightarrow> 1 \<le> current_count st \<and> current_count st \<le> rl_limit r
      | SlidingWindowLog \<Rightarrow> int (length (events st)) \<le> rl_limit r
      | LeakyBucket \<Rightarrow> 0 \<le> water st \<and> water st \<le> of_int (rl_capacity r)
      | OtherAlgorithm a \<Rightarrow> False)"

lemma sliding_counter_bounds:
  assumes "rounds rnd" and "rl_validate r = Inr ()" and "rl_algorithm r = SlidingWindowCounter" and "counts_ok st"
    and "apply_sliding_counter rnd now r st = (True, d, nx)"
  shows "counts_ok nx \<and> within_bounds r nx"
proof -
  let ?wid = "unix_nano now sdiv rl_window r"
  define cur where "cur = (if window_id st \<noteq> ?wid then 0 else current_count st)"
  define prev where "prev = (if window_id st \<noteq> ?wid
             then (if window_id st = ?wid - 1 then current_count st else 0) else prev_count st)"
  define el where "el = unix_nano now smod rl_window r"
  define part where "part = rnd (rnd (rnd (of_int prev) * rnd (of_int (rl_window r - el))) / rnd (of_int (rl_window r)))"
  have W: "0 < rl_window r" and L: "1 \<le> rl_limit r" "rl_limit r \<le> 1000000"
    using assms(2,3) by (auto simp: rl_validate_def valid_window_def max_rate_limit_capacity_def go_simps split: if_splits)
  have cur: "0 \<le> cur" "cur \<le> 1000000" and prev: "0 \<le> prev" "prev \<le> 1000000"
    using assms(4) by (auto simp: cur_def prev_def counts_ok_def max_rate_limit_capacity_def)
  have "\<not> rnd (of_int (rl_limit r)) < rnd (rnd (rnd (of_int cur) + part) + 1)"
    and nx: "nx = st\<lparr>window_id := ?wid, current_count := cur + 1, prev_count := prev\<rparr>"
    using assms(5)
    unfolding apply_sliding_counter_def Let_def cur_def [symmetric] prev_def [symmetric] el_def [symmetric] part_def [symmetric]
    by (simp_all split: if_splits)
  then have le: "rnd (rnd (rnd (of_int cur) + part) + 1) \<le> of_int (rl_limit r)"
    using rounds_int [OF assms(1), of "rl_limit r"] L by simp
  have "el < rl_window r"
    unfolding el_def using W smod_int_range [of "rl_window r" "unix_nano now"] by auto
  then have "0 \<le> part"
    unfolding part_def using prev W by (intro rounds_nonneg [OF assms(1)] divide_nonneg_nonneg mult_nonneg_nonneg) simp_all
  then have "rnd (of_int cur) \<le> rnd (of_int cur) + part" by simp
  then have "rnd (rnd (of_int cur)) \<le> rnd (rnd (of_int cur) + part)"
    by (rule rounds_mono [OF assms(1)])
  then have "of_int (cur + 1) \<le> rnd (rnd (of_int cur) + part) + 1"
    using cur by (simp add: rounds_int [OF assms(1)])
  from rounds_mono [OF assms(1) this] le have "cur + 1 \<le> rl_limit r"
    using rounds_int [OF assms(1), of "cur + 1"] cur by simp
  then show ?thesis
    using cur prev L assms(3) by (simp add: nx counts_ok_def within_bounds_def max_rate_limit_capacity_def)
qed

lemma minimum_retry_ge: "millisecond \<le> minimum_retry d"
  by (simp add: minimum_retry_def)

text \<open>A denial names a retry of at least a millisecond, an admission none.\<close>

definition retry_shape :: "bool \<times> duration \<times> rate_state \<Rightarrow> bool" where
  "retry_shape x = (if fst x then fst (snd x) = 0 else millisecond \<le> fst (snd x))"

lemma retry_shape_if:
  "retry_shape (if b then (False, minimum_retry d, x) else (True, 0, y))"
  "retry_shape (if b then (False, fixed_window_retry now w, x) else (True, 0, y))"
  by (simp_all add: retry_shape_def minimum_retry_ge fixed_window_retry_def)

lemma retry_shapes:
  "retry_shape (apply_token_bucket rnd now r st)"
  "retry_shape (apply_fixed_window now r st)"
  "retry_shape (apply_sliding_counter rnd now r st)"
  "retry_shape (apply_sliding_log now r st)"
  "retry_shape (apply_leaky_bucket rnd now r st)"
  unfolding apply_token_bucket_def apply_fixed_window_def apply_sliding_counter_def apply_sliding_log_def
    apply_leaky_bucket_def Let_def
  by (rule retry_shape_if)+

lemma apply_retry_shape:
  "rl_validate r = Inr () \<Longrightarrow> retry_shape (apply_rate_limit rnd now r st)"
  by (auto simp: apply_rate_limit_def retry_shapes rl_validate_def split: rate_algorithm.splits if_splits)

text \<open>Bounds and shape of every outcome of a validated request, float rounding included: an admitted state
  keeps its tokens within [0, Burst-1], its water within [0, Capacity] and its counters within 1 and
  Limit, even if the clock went back, and a denial names a retry of at least a millisecond.\<close>

theorem rate_limit_bounds:
  assumes "rounds rnd" and "rl_validate r = Inr ()" and "counts_ok st" and "0 \<le> water st"
  shows "case apply_rate_limit rnd now r st of
      (True, d, nx) \<Rightarrow> d = 0 \<and> counts_ok nx \<and> within_bounds r nx
    | (False, d, nx) \<Rightarrow> millisecond \<le> d"
proof (cases "fst (apply_rate_limit rnd now r st)")
  case False
  with apply_retry_shape [OF assms(2), of rnd now st] show ?thesis
    by (auto simp: retry_shape_def split: prod.splits bool.splits)
next
  case True
  then obtain d nx where a: "apply_rate_limit rnd now r st = (True, d, nx)"
    by (metis (full_types) fst_conv prod_cases3)
  have "counts_ok nx \<and> within_bounds r nx"
  proof (cases "rl_algorithm r")
    case TokenBucket
    then have B: "1 \<le> rl_burst r" "rl_burst r \<le> 1000000"
      using assms(2) by (auto simp: rl_validate_def max_rate_limit_capacity_def split: if_splits)
    define x where "x = (if is_zero_time (updated_at st) then rnd (of_int (rl_burst r))
        else min (rnd (of_int (rl_burst r))) (rnd (tokens st +
          rnd (seconds rnd (time_sub now (updated_at st)) * float_val (rl_tokens_per_second r)))))"
    have "\<not> x < 1" "tokens nx = rnd (x - 1)" "counts_ok nx"
      using assms(3) a TokenBucket
      unfolding apply_rate_limit_def apply_token_bucket_def Let_def x_def [symmetric]
      by (auto simp: counts_ok_def split: if_splits)
    moreover have "x \<le> of_int (rl_burst r)"
      using rounds_int [OF assms(1), of "rl_burst r"] B by (simp add: x_def)
    ultimately have "1 \<le> x" "x \<le> of_int (rl_burst r)" "tokens nx = rnd (x - 1)" "counts_ok nx"
      by simp_all
    then show ?thesis
      using rounds_mono [OF assms(1), of "x - 1" "of_int (rl_burst r - 1)"] rounds_nonneg [OF assms(1), of "x - 1"]
        rounds_int [OF assms(1), of "rl_burst r - 1"] B TokenBucket
      by (simp add: within_bounds_def)
  next
    case FixedWindow
    with a assms(2,3) show ?thesis
      by (auto simp: apply_rate_limit_def apply_fixed_window_def Let_def counts_ok_def within_bounds_def
          rl_validate_def zero_rate_state_def split: if_splits)
  next
    case SlidingWindowCounter
    with a sliding_counter_bounds [OF assms(1,2) _ assms(3)] show ?thesis
      by (simp add: apply_rate_limit_def)
  next
    case SlidingWindowLog
    with a assms(3) show ?thesis
      by (auto simp: apply_rate_limit_def apply_sliding_log_def Let_def counts_ok_def within_bounds_def split: if_splits)
  next
    case LeakyBucket
    then have C: "1 \<le> rl_capacity r" "rl_capacity r \<le> 1000000"
      using assms(2) by (auto simp: rl_validate_def max_rate_limit_capacity_def split: if_splits)
    define x where "x = (if is_zero_time (updated_at st) then water st
        else max 0 (rnd (water st - rnd (seconds rnd (time_sub now (updated_at st)) * float_val (rl_leak_rate r)))))"
    have "\<not> rnd (of_int (rl_capacity r)) < rnd (x + 1)" "water nx = rnd (x + 1)" "counts_ok nx"
      using assms(3) a LeakyBucket
      unfolding apply_rate_limit_def apply_leaky_bucket_def Let_def x_def [symmetric]
      by (auto simp: counts_ok_def split: if_splits)
    moreover have "0 \<le> x"
      using assms(4) by (simp add: x_def)
    ultimately have "0 \<le> x" "water nx = rnd (x + 1)" "rnd (x + 1) \<le> of_int (rl_capacity r)" "counts_ok nx"
      using rounds_int [OF assms(1), of "rl_capacity r"] C by simp_all
    then show ?thesis
      using rounds_nonneg [OF assms(1), of "x + 1"] LeakyBucket by (simp add: within_bounds_def)
  next
    case (OtherAlgorithm x)
    with assms(2) show ?thesis by (simp add: rl_validate_def split: if_splits)
  qed
  moreover have "d = 0"
    using apply_retry_shape [OF assms(2), of rnd now st] by (simp add: retry_shape_def a)
  ultimately show ?thesis by (simp add: a)
qed

theorem rate_limit_bounds_witness:
  "case apply_rate_limit (\<lambda>x. x) 7 (bucket_request ''a'') zero_rate_state of
      (True, d, nx) \<Rightarrow> d = 0 \<and> counts_ok nx \<and> within_bounds (bucket_request ''a'') nx
    | (False, d, nx) \<Rightarrow> millisecond \<le> d"
  by (rule rate_limit_bounds)
     (simp_all add: bucket_request_def burst_request_def rl_validate_def valid_rate_def max_rate_limit_rate_def
        max_rate_limit_capacity_def counts_ok_def zero_rate_state_def)

end
