(* ===== verification/Auth_Claims.thy ===== *)
theory Auth_Claims
  imports Go_Json
begin

text \<open>
  Authentication claims: the typed accessors of auth/authn/engine/claims.go over a map of dynamically
  typed values, and the user token payload of auth/data/user_token_payload.go that is written into
  the claims and read back, directly or after a JWT has turned every number into a \<open>float64\<close>.

  Parameters: \<open>rnd\<close> rounds an exact result to a \<open>float64\<close>; \<open>ov\<close> is what the platform makes of a float
  outside the range of the integer type it is converted to; \<open>ndate\<close> is \<open>jwt.NewNumericDate\<close>.
\<close>

subsection \<open>Values\<close>

datatype int_kind = KInt | KInt8 | KInt16 | KInt32 | KInt64 | KUint | KUint8 | KUint16 | KUint32 | KUint64

record tenant_project_scope =
  tps_tenant :: int
  tps_projects :: "int list option"

datatype claim_value =
    CNil
  | CBool bool
  | CString string
  | CStrings "string list"
  | CList "claim_value list"
  | CMap "(string \<times> claim_value) list"
  | CInt int_kind int
  | CFloat32 float64
  | CFloat64 float64
  | CJsonNumber string
  | CScopes "tenant_project_scope list"

type_synonym auth_claims = "string \<rightharpoonup> claim_value"

definition err_invalid_type :: go_err where
  "err_invalid_type = Sentinel ''invalid type''"

subsection \<open>Numbers\<close>

definition kind_signed :: "int_kind \<Rightarrow> bool" where
  "kind_signed k = (k \<in> {KInt, KInt8, KInt16, KInt32, KInt64})"

definition kind_bits :: "int_kind \<Rightarrow> nat" where
  "kind_bits k = (case k of KInt8 \<Rightarrow> 8 | KUint8 \<Rightarrow> 8 | KInt16 \<Rightarrow> 16 | KUint16 \<Rightarrow> 16
     | KInt32 \<Rightarrow> 32 | KUint32 \<Rightarrow> 32 | _ \<Rightarrow> 64)"

definition in_kind :: "int_kind \<Rightarrow> int \<Rightarrow> bool" where
  "in_kind k x = (if kind_signed k then - (2 ^ (kind_bits k - 1)) \<le> x \<and> x < 2 ^ (kind_bits k - 1)
     else 0 \<le> x \<and> x < 2 ^ kind_bits k)"

text \<open>The conversion between integer types keeps the low bits.\<close>

definition convert_int :: "int_kind \<Rightarrow> int \<Rightarrow> int" where
  "convert_int k x =
     (if kind_signed k
      then (x + 2 ^ (kind_bits k - 1)) mod 2 ^ kind_bits k - 2 ^ (kind_bits k - 1)
      else x mod 2 ^ kind_bits k)"

text \<open>The conversion from a float drops the fraction; out of range it is up to the platform.\<close>

definition trunc_real :: "real \<Rightarrow> int" where
  "trunc_real x = (if 0 \<le> x then \<lfloor>x\<rfloor> else \<lceil>x\<rceil>)"

definition convert_float :: "(int_kind \<Rightarrow> float64 \<Rightarrow> int) \<Rightarrow> int_kind \<Rightarrow> float64 \<Rightarrow> int" where
  "convert_float ov k f = (case f of
     Fin x \<Rightarrow> if in_kind k (trunc_real x) then trunc_real x else ov k f
   | _ \<Rightarrow> ov k f)"

text \<open>\<open>json.Number.Float64\<close> of a literal of the JSON grammar: the nearest float, or a range error.\<close>

definition max_float :: real where "max_float = (2 - 1 / 2 ^ 52) * 2 ^ 1023"

definition literal_value :: "string \<Rightarrow> real" where
  "literal_value l =
     (let (neg, s) = (case l of c # cs \<Rightarrow> if c = CHR ''-'' then (True, cs) else (False, l) | [] \<Rightarrow> (False, l));
          ip = takeWhile is_digit s; s2 = dropWhile is_digit s;
          (fr, s3) = (case s2 of c # cs \<Rightarrow> if c = CHR ''.''
              then (takeWhile is_digit cs, dropWhile is_digit cs) else ([], s2) | [] \<Rightarrow> ([], s2));
          ex = (case s3 of [] \<Rightarrow> 0 | c # cs \<Rightarrow>
              (case cs of [] \<Rightarrow> 0 | d # ds \<Rightarrow>
                 if d = CHR ''-'' then - int (digits_value ds)
                 else if d = CHR ''+'' then int (digits_value ds) else int (digits_value cs)));
          m = real (digits_value (ip @ fr)) * (if 0 \<le> ex then 10 ^ nat ex else 1 / 10 ^ nat (- ex)) / 10 ^ length fr
      in if neg then - m else m)"

definition number_float64 :: "(real \<Rightarrow> real) \<Rightarrow> string \<Rightarrow> float64 res" where
  "number_float64 rnd l =
     (if map_option snd (scan_number l) \<noteq> Some [] then Inl (NewErr ''strconv.ParseFloat: invalid syntax'')
      else if max_float < \<bar>rnd (literal_value l)\<bar> then Inl (NewErr ''strconv.ParseFloat: value out of range'')
      else Inr (Fin (rnd (literal_value l))))"

text \<open>\<open>parseNumber\<close> at an integer and at a float type. A json number goes through its float.\<close>

definition parse_number_int :: "(real \<Rightarrow> real) \<Rightarrow> (int_kind \<Rightarrow> float64 \<Rightarrow> int) \<Rightarrow> int_kind \<Rightarrow> claim_value \<Rightarrow> int res" where
  "parse_number_int rnd ov k v = (case v of
     CNil \<Rightarrow> Inr 0
   | CFloat32 f \<Rightarrow> Inr (convert_float ov k f)
   | CFloat64 f \<Rightarrow> Inr (convert_float ov k f)
   | CInt k' x \<Rightarrow> Inr (convert_int k x)
   | CJsonNumber l \<Rightarrow>
       (case number_float64 rnd l of Inl e \<Rightarrow> Inl e | Inr f \<Rightarrow> Inr (convert_float ov k f))
   | _ \<Rightarrow> Inl err_invalid_type)"

definition float_round :: "(real \<Rightarrow> real) \<Rightarrow> float64 \<Rightarrow> float64" where
  "float_round rnd f = (case f of Fin x \<Rightarrow> Fin (rnd x) | _ \<Rightarrow> f)"

definition parse_number_float :: "(real \<Rightarrow> real) \<Rightarrow> (real \<Rightarrow> real) \<Rightarrow> claim_value \<Rightarrow> float64 res" where
  "parse_number_float rnd target v = (case v of
     CNil \<Rightarrow> Inr (Fin 0)
   | CFloat32 f \<Rightarrow> Inr (float_round target f)
   | CFloat64 f \<Rightarrow> Inr (float_round target f)
   | CInt k x \<Rightarrow> Inr (Fin (target (of_int x)))
   | CJsonNumber l \<Rightarrow>
       (case number_float64 rnd l of Inl e \<Rightarrow> Inl e | Inr f \<Rightarrow> Inr (float_round target f))
   | _ \<Rightarrow> Inl err_invalid_type)"

subsection \<open>Accessors\<close>

definition get_int_kind :: "(real \<Rightarrow> real) \<Rightarrow> (int_kind \<Rightarrow> float64 \<Rightarrow> int) \<Rightarrow> int_kind \<Rightarrow> auth_claims \<Rightarrow> string \<Rightarrow> int res" where
  "get_int_kind rnd ov k c key = (case c key of None \<Rightarrow> Inr 0 | Some raw \<Rightarrow> parse_number_int rnd ov k raw)"

definition get_float :: "(real \<Rightarrow> real) \<Rightarrow> (real \<Rightarrow> real) \<Rightarrow> auth_claims \<Rightarrow> string \<Rightarrow> float64 res" where
  "get_float rnd target c key = (case c key of None \<Rightarrow> Inr (Fin 0) | Some raw \<Rightarrow> parse_number_float rnd target raw)"

definition parse_string :: "auth_claims \<Rightarrow> string \<Rightarrow> string res" where
  "parse_string c key = (case c key of None \<Rightarrow> Inr []
     | Some (CString s) \<Rightarrow> Inr s | Some _ \<Rightarrow> Inl err_invalid_type)"

fun strings_of :: "claim_value list \<Rightarrow> string list res" where
  "strings_of [] = Inr []"
| "strings_of (CString s # vs) = (case strings_of vs of Inl e \<Rightarrow> Inl e | Inr ss \<Rightarrow> Inr (s # ss))"
| "strings_of (v # vs) = Inl err_invalid_type"

text \<open>An absent key, and a value of any other type, gives the empty list and no error.\<close>

definition parse_strings :: "auth_claims \<Rightarrow> string \<Rightarrow> string list res" where
  "parse_strings c key = (case c key of
     Some (CString s) \<Rightarrow> Inr [s]
   | Some (CStrings ss) \<Rightarrow> Inr ss
   | Some (CList vs) \<Rightarrow> strings_of vs
   | _ \<Rightarrow> Inr [])"

definition parse_claims_string :: "auth_claims \<Rightarrow> string \<Rightarrow> string list res" where
  "parse_claims_string c key = (case c key of
     Some (CString s) \<Rightarrow> Inr [s]
   | Some (CStrings ss) \<Rightarrow> Inr ss
   | Some (CList vs) \<Rightarrow> strings_of vs
   | _ \<Rightarrow> Inr [])"

definition numeric_date_from_seconds :: "(real \<Rightarrow> real) \<Rightarrow> (int_kind \<Rightarrow> float64 \<Rightarrow> int) \<Rightarrow> (gotime \<Rightarrow> gotime)
    \<Rightarrow> float64 \<Rightarrow> gotime" where
  "numeric_date_from_seconds rnd ov ndate f =
     (let x = float_val f; whole = of_int (trunc_real x); frac = x - whole in
      ndate (of_unix_nano (convert_float ov KInt64 (case f of Fin _ \<Rightarrow> Fin whole | _ \<Rightarrow> f) * 1000000000
        + convert_float ov KInt64 (Fin (rnd (frac * 1000000000))))))"

definition parse_numeric_date :: "(real \<Rightarrow> real) \<Rightarrow> (int_kind \<Rightarrow> float64 \<Rightarrow> int) \<Rightarrow> (gotime \<Rightarrow> gotime)
    \<Rightarrow> auth_claims \<Rightarrow> string \<Rightarrow> gotime option res" where
  "parse_numeric_date rnd ov ndate c key = (case c key of
     None \<Rightarrow> Inr None
   | Some (CFloat64 f) \<Rightarrow> if f = Fin 0 then Inr None else Inr (Some (numeric_date_from_seconds rnd ov ndate f))
   | Some (CJsonNumber l) \<Rightarrow>
       Inr (Some (numeric_date_from_seconds rnd ov ndate (case number_float64 rnd l of Inr f \<Rightarrow> f
         | Inl e \<Rightarrow> if map_option snd (scan_number l) = Some [] then (if 0 \<le> literal_value l then PosInf else NegInf) else Fin 0)))
   | Some _ \<Rightarrow> Inl err_invalid_type)"

definition get_subject :: "auth_claims \<Rightarrow> string res" where
  "get_subject c = parse_string c ''sub''"

definition get_string :: "auth_claims \<Rightarrow> string \<Rightarrow> string res" where
  "get_string c key = parse_string c key"

definition get_expiration_time where
  "get_expiration_time rnd ov ndate c = parse_numeric_date rnd ov ndate c ''exp''"

definition get_not_before where
  "get_not_before rnd ov ndate c = parse_numeric_date rnd ov ndate c ''nbf''"

definition get_issued_at where
  "get_issued_at rnd ov ndate c = parse_numeric_date rnd ov ndate c ''iat''"

definition get_jwt_id :: "auth_claims \<Rightarrow> string res" where "get_jwt_id c = parse_string c ''jti''"
definition get_issuer :: "auth_claims \<Rightarrow> string res" where "get_issuer c = parse_string c ''iss''"
definition get_audience :: "auth_claims \<Rightarrow> string list res" where "get_audience c = parse_claims_string c ''aud''"
definition get_scopes :: "auth_claims \<Rightarrow> string list res" where "get_scopes c = parse_claims_string c ''scope''"

subsection \<open>The user token payload (auth/data/user_token_payload.go)\<close>

record user_payload =
  up_tenant_id :: int
  up_tenant_code :: string
  up_user_id :: int
  up_user_code :: string
  up_user_name :: string
  up_role_id :: int
  up_role_code :: string
  up_role_name :: string
  up_dept_id :: int
  up_dept_name :: string
  up_data_scope :: int
  up_tenant_projects :: "tenant_project_scope list option"

definition empty_payload :: user_payload where
  "empty_payload = \<lparr>up_tenant_id = 0, up_tenant_code = [], up_user_id = 0, up_user_code = [], up_user_name = [],
     up_role_id = 0, up_role_code = [], up_role_name = [], up_dept_id = 0, up_dept_name = [],
     up_data_scope = 0, up_tenant_projects = None\<rparr>"

definition make_auth_claims :: "user_payload \<Rightarrow> auth_claims" where
  "make_auth_claims t =
     (let claims = [''sub'' \<mapsto> CString (up_user_name t),
                    ''tid'' \<mapsto> CInt KInt64 (up_tenant_id t),
                    ''tcode'' \<mapsto> CString (up_tenant_code t),
                    ''uid'' \<mapsto> CInt KInt64 (up_user_id t),
                    ''ucode'' \<mapsto> CString (up_user_code t),
                    ''rid'' \<mapsto> CInt KInt64 (up_role_id t),
                    ''rcode'' \<mapsto> CString (up_role_code t),
                    ''rname'' \<mapsto> CString (up_role_name t),
                    ''did'' \<mapsto> CInt KInt64 (up_dept_id t),
                    ''dname'' \<mapsto> CString (up_dept_name t),
                    ''ds'' \<mapsto> CInt KInt32 (up_data_scope t)]
      in case up_tenant_projects t of None \<Rightarrow> claims | Some ps \<Rightarrow> claims(''tprojects'' \<mapsto> CScopes ps))"

text \<open>\<open>json.Marshal\<close> of a claim. An integral float below \<open>10 ^ 21\<close> prints as an integer; \<open>fmt\<close> prints the others.\<close>

definition scope_json :: "tenant_project_scope \<Rightarrow> json" where
  "scope_json sc = JObj [(''tenant_id'', JInt (tps_tenant sc)),
     (''project_id'', case tps_projects sc of None \<Rightarrow> JNull | Some ps \<Rightarrow> JArr (map JInt ps))]"

definition marshal_float :: "(real \<Rightarrow> string) \<Rightarrow> float64 \<Rightarrow> json option" where
  "marshal_float fmt f = (case f of
     Fin x \<Rightarrow> Some (if of_int (trunc_real x) = x \<and> \<bar>x\<bar> < 10 ^ 21 then JInt (trunc_real x) else JNum (fmt x))
   | _ \<Rightarrow> None)"

fun all_some :: "'a option list \<Rightarrow> 'a list option" where
  "all_some [] = Some []"
| "all_some (x # xs) = (case (x, all_some xs) of (Some y, Some ys) \<Rightarrow> Some (y # ys) | _ \<Rightarrow> None)"

fun marshal_claim :: "(real \<Rightarrow> string) \<Rightarrow> claim_value \<Rightarrow> json option" where
  "marshal_claim fmt CNil = Some JNull"
| "marshal_claim fmt (CBool b) = Some (JBool b)"
| "marshal_claim fmt (CString s) = Some (JStr s)"
| "marshal_claim fmt (CStrings ss) = Some (JArr (map JStr ss))"
| "marshal_claim fmt (CList vs) = map_option JArr (all_some (map (marshal_claim fmt) vs))"
| "marshal_claim fmt (CMap ms) =
     map_option JObj (all_some (map (\<lambda>(k, v). map_option (Pair k) (marshal_claim fmt v)) ms))"
| "marshal_claim fmt (CInt k x) = Some (JInt x)"
| "marshal_claim fmt (CFloat32 f) = marshal_float fmt f"
| "marshal_claim fmt (CFloat64 f) = marshal_float fmt f"
| "marshal_claim fmt (CJsonNumber l) = (if map_option snd (scan_number l) = Some [] then Some (JNum l) else None)"
| "marshal_claim fmt (CScopes ps) = Some (JArr (map scope_json ps))"

text \<open>
  \<open>json.Unmarshal\<close> into \<open>[]TenantProjectScope\<close>: null leaves a field alone, member names match up to case,
  unknown members are skipped, a later member wins, an integer must be an integer literal in range.
\<close>

definition err_unmarshal :: go_err where "err_unmarshal = NewErr ''json: cannot unmarshal''"

definition json_int64 :: "int \<Rightarrow> json \<Rightarrow> int res" where
  "json_int64 old j = (case j of
     JNull \<Rightarrow> Inr old
   | JNum l \<Rightarrow> (case parse_int64 l of None \<Rightarrow> Inl err_unmarshal | Some x \<Rightarrow> Inr x)
   | _ \<Rightarrow> Inl err_unmarshal)"

definition json_str_field :: "string \<Rightarrow> json \<Rightarrow> string res" where
  "json_str_field old j = (case j of JNull \<Rightarrow> Inr old | JStr s \<Rightarrow> Inr s | _ \<Rightarrow> Inl err_unmarshal)"

fun json_ints :: "json list \<Rightarrow> int list res" where
  "json_ints [] = Inr []"
| "json_ints (j # js) = (case json_int64 0 j of Inl e \<Rightarrow> Inl e
     | Inr x \<Rightarrow> (case json_ints js of Inl e \<Rightarrow> Inl e | Inr xs \<Rightarrow> Inr (x # xs)))"

fun scope_members :: "(string \<times> json) list \<Rightarrow> tenant_project_scope \<Rightarrow> tenant_project_scope res" where
  "scope_members [] sc = Inr sc"
| "scope_members ((k, j) # ms) sc =
     (if equal_fold k ''tenant_id'' then
        (case json_int64 (tps_tenant sc) j of Inl e \<Rightarrow> Inl e | Inr x \<Rightarrow> scope_members ms (sc\<lparr>tps_tenant := x\<rparr>))
      else if equal_fold k ''project_id'' then
        (case j of
           JNull \<Rightarrow> scope_members ms (sc\<lparr>tps_projects := None\<rparr>)
         | JArr js \<Rightarrow> (case json_ints js of Inl e \<Rightarrow> Inl e | Inr xs \<Rightarrow> scope_members ms (sc\<lparr>tps_projects := Some xs\<rparr>))
         | _ \<Rightarrow> Inl err_unmarshal)
      else scope_members ms sc)"

fun scope_elems :: "json list \<Rightarrow> tenant_project_scope list res" where
  "scope_elems [] = Inr []"
| "scope_elems (j # js) =
     (case (case j of
         JNull \<Rightarrow> Inr \<lparr>tps_tenant = 0, tps_projects = None\<rparr>
       | JObj ms \<Rightarrow> scope_members ms \<lparr>tps_tenant = 0, tps_projects = None\<rparr>
       | _ \<Rightarrow> Inl err_unmarshal) of
        Inl e \<Rightarrow> Inl e
      | Inr sc \<Rightarrow> (case scope_elems js of Inl e \<Rightarrow> Inl e | Inr scs \<Rightarrow> Inr (sc # scs)))"

definition unmarshal_scopes :: "json \<Rightarrow> tenant_project_scope list option res" where
  "unmarshal_scopes j = (case j of
     JNull \<Rightarrow> Inr None
   | JArr js \<Rightarrow> (case scope_elems js of Inl e \<Rightarrow> Inl e | Inr scs \<Rightarrow> Inr (Some scs))
   | _ \<Rightarrow> Inl err_unmarshal)"

fun validate_projects :: "nat \<Rightarrow> int list \<Rightarrow> int list \<Rightarrow> unit res" where
  "validate_projects n [] seen = Inr ()"
| "validate_projects n (p # ps) seen =
     (if p < 0 then Inl err_invalid_type
      else if p \<in> set seen then Inl err_invalid_type
      else if p = 0 \<and> n \<noteq> 1 then Inl err_invalid_type
      else validate_projects n ps (p # seen))"

fun validate_tenant_projects :: "tenant_project_scope list \<Rightarrow> unit res" where
  "validate_tenant_projects [] = Inr ()"
| "validate_tenant_projects (sc # scs) =
     (case tps_projects sc of
        None \<Rightarrow> Inl err_invalid_type
      | Some ps \<Rightarrow>
          if tps_tenant sc \<le> 0 then Inl err_invalid_type
          else (case validate_projects (length ps) ps [] of
              Inl e \<Rightarrow> Inl e
            | Inr _ \<Rightarrow> validate_tenant_projects scs))"

definition extract_auth_claims :: "(real \<Rightarrow> real) \<Rightarrow> (int_kind \<Rightarrow> float64 \<Rightarrow> int) \<Rightarrow> (real \<Rightarrow> string)
    \<Rightarrow> auth_claims \<Rightarrow> user_payload res" where
  "extract_auth_claims rnd ov fmt c =
     res_bind (get_subject c) (\<lambda>user_name.
     res_bind (get_int_kind rnd ov KInt64 c ''tid'') (\<lambda>tenant_id.
     res_bind (get_string c ''tcode'') (\<lambda>tenant_code.
     res_bind (get_int_kind rnd ov KInt64 c ''uid'') (\<lambda>user_id.
     res_bind (get_string c ''ucode'') (\<lambda>user_code.
     res_bind (get_int_kind rnd ov KInt64 c ''rid'') (\<lambda>role_id.
     res_bind (get_string c ''rname'') (\<lambda>role_name.
     res_bind (get_string c ''rcode'') (\<lambda>role_code.
     res_bind (get_int_kind rnd ov KInt64 c ''did'') (\<lambda>dept_id.
     res_bind (get_string c ''dname'') (\<lambda>dept_name.
     res_bind (get_int_kind rnd ov KInt32 c ''ds'') (\<lambda>data_scope.
     res_bind
       (case c ''tprojects'' of
          None \<Rightarrow> Inr None
        | Some value \<Rightarrow>
            (case marshal_claim fmt value of
               None \<Rightarrow> Inl (NewErr ''json: unsupported value'')
             | Some j \<Rightarrow>
                 res_bind (unmarshal_scopes j) (\<lambda>ps.
                 res_bind (validate_tenant_projects (case ps of None \<Rightarrow> [] | Some scs \<Rightarrow> scs)) (\<lambda>_. Inr ps))))
       (\<lambda>projects.
     Inr \<lparr>up_tenant_id = tenant_id, up_tenant_code = tenant_code, up_user_id = user_id, up_user_code = user_code,
         up_user_name = user_name, up_role_id = role_id, up_role_code = role_code, up_role_name = role_name,
         up_dept_id = dept_id, up_dept_name = dept_name, up_data_scope = data_scope,
         up_tenant_projects = projects\<rparr>))))))))))))"

subsection \<open>Project scopes\<close>

text \<open>A well-formed scope: a positive tenant, a present list of distinct non-negative projects in which 0,
  which stands for all of them, is alone.\<close>

definition scope_ok :: "tenant_project_scope \<Rightarrow> bool" where
  "scope_ok sc = (0 < tps_tenant sc \<and> (case tps_projects sc of
     None \<Rightarrow> False
   | Some ps \<Rightarrow> distinct ps \<and> (\<forall>p \<in> set ps. 0 \<le> p) \<and> (0 \<in> set ps \<longrightarrow> ps = [0])))"

lemma validate_projects_ok:
  "(validate_projects n ps seen = Inr ()) \<longleftrightarrow>
     distinct ps \<and> set ps \<inter> set seen = {} \<and> (\<forall>p \<in> set ps. 0 \<le> p) \<and> (0 \<in> set ps \<longrightarrow> n = 1)"
  by (induction n ps seen rule: validate_projects.induct) auto

lemma validate_projects_err: "validate_projects n ps seen = Inl e \<Longrightarrow> e = err_invalid_type"
  by (induction n ps seen rule: validate_projects.induct) (auto split: if_splits)

text \<open>A project scope claim is accepted exactly when every entry is well formed: positive tenant, a list of distinct
  non-negative projects, and the marker 0 for all projects only alone; anything else is the type error.\<close>

lemma validate_tenant_projects_iff:
  "validate_tenant_projects scs = (if \<forall>sc \<in> set scs. scope_ok sc then Inr () else Inl err_invalid_type)"
proof (induction scs)
  case (Cons sc scs)
  show ?case
  proof (cases "tps_projects sc")
    case None
    then show ?thesis by (simp add: scope_ok_def)
  next
    case (Some ps)
    have one: "(0 \<in> set ps \<longrightarrow> length ps = 1) \<longleftrightarrow> (0 \<in> set ps \<longrightarrow> ps = [0])"
      by (auto simp: length_Suc_conv)
    show ?thesis
    proof (cases "validate_projects (length ps) ps []")
      case (Inl e)
      then have "\<not> (distinct ps \<and> (\<forall>p \<in> set ps. 0 \<le> p) \<and> (0 \<in> set ps \<longrightarrow> ps = [0]))"
        using validate_projects_ok [of "length ps" ps "[]"] one by auto
      with Inl validate_projects_err [OF Inl] Some show ?thesis by (auto simp: scope_ok_def)
    next
      case (Inr u)
      then have "distinct ps \<and> (\<forall>p \<in> set ps. 0 \<le> p) \<and> (0 \<in> set ps \<longrightarrow> ps = [0])"
        using validate_projects_ok [of "length ps" ps "[]"] one by auto
      with Inr Some Cons.IH show ?thesis by (auto simp: scope_ok_def)
    qed
  qed
qed simp

subsection \<open>Round trips\<close>

lemma convert_int_id [simp]: "in_kind k x \<Longrightarrow> convert_int k x = x"
  by (cases k) (simp_all add: convert_int_def in_kind_def kind_signed_def kind_bits_def)

lemma json_int64_JInt [simp]: "in_int64 x \<Longrightarrow> json_int64 old (JInt x) = Inr x"
  by (simp add: json_int64_def JInt_def parse_show_int)

lemma json_ints_print: "\<forall>x \<in> set xs. in_int64 x \<Longrightarrow> json_ints (map JInt xs) = Inr xs"
  by (induction xs) simp_all

lemma equal_fold_ids [simp]:
  "equal_fold ''tenant_id'' ''tenant_id''" "equal_fold ''project_id'' ''project_id''"
  "\<not> equal_fold ''project_id'' ''tenant_id''"
  by (simp_all add: equal_fold_def to_lower_def ascii_lower_def)

definition scope_in_range :: "tenant_project_scope \<Rightarrow> bool" where
  "scope_in_range sc = (in_int64 (tps_tenant sc) \<and> (case tps_projects sc of None \<Rightarrow> True | Some ps \<Rightarrow> \<forall>p \<in> set ps. in_int64 p))"

lemma scope_members_json:
  assumes "scope_in_range sc"
  shows "case scope_json sc of JObj ms \<Rightarrow> scope_members ms \<lparr>tps_tenant = 0, tps_projects = None\<rparr> = Inr sc | _ \<Rightarrow> False"
  using assms
  by (cases "tps_projects sc")
     (auto simp: scope_json_def scope_in_range_def json_ints_print)

lemma scope_elems_json:
  "\<forall>sc \<in> set scs. scope_in_range sc \<Longrightarrow> scope_elems (map scope_json scs) = Inr scs"
proof (induction scs)
  case (Cons sc scs)
  then show ?case
    using scope_members_json [of sc] by (auto simp: scope_json_def split: json.splits)
qed simp

definition payload_ok :: "user_payload \<Rightarrow> bool" where
  "payload_ok t = (in_int64 (up_tenant_id t) \<and> in_int64 (up_user_id t) \<and> in_int64 (up_role_id t) \<and>
     in_int64 (up_dept_id t) \<and> in_kind KInt32 (up_data_scope t) \<and>
     (\<forall>scs. up_tenant_projects t = Some scs \<longrightarrow> (\<forall>sc \<in> set scs. scope_in_range sc \<and> scope_ok sc)))"

text \<open>The claims built from a payload give the payload back.\<close>

theorem extract_make_claims:
  assumes "payload_ok t"
  shows "extract_auth_claims rnd ov fmt (make_auth_claims t) = Inr t"
proof -
  have scopes: "scope_elems (map scope_json scs) = Inr scs \<and> validate_tenant_projects scs = Inr ()"
    if "up_tenant_projects t = Some scs" for scs
    using assms that scope_elems_json [of scs] by (auto simp: payload_ok_def validate_tenant_projects_iff)
  have k64: "in_kind KInt64 x" if "in_int64 x" for x
    using that by (simp add: in_kind_def kind_signed_def kind_bits_def in_int64_def)
  show ?thesis
    using assms scopes
    by (cases "up_tenant_projects t")
       (simp_all add: extract_auth_claims_def make_auth_claims_def payload_ok_def get_subject_def get_string_def
          parse_string_def get_int_kind_def parse_number_int_def k64 unmarshal_scopes_def Let_def)
qed

definition sample_payload :: user_payload where
  "sample_payload = empty_payload\<lparr>up_user_id := 7, up_user_name := ''ann'', up_tenant_id := 3,
     up_tenant_projects := Some [\<lparr>tps_tenant = 3, tps_projects = Some [4, 5]\<rparr>, \<lparr>tps_tenant = 8, tps_projects = Some [0]\<rparr>]\<rparr>"

lemma sample_payload_ok: "payload_ok sample_payload"
  by (simp add: sample_payload_def empty_payload_def payload_ok_def in_int64_def in_kind_def kind_signed_def
      kind_bits_def scope_in_range_def scope_ok_def)

theorem extract_make_claims_witness:
  "extract_auth_claims (\<lambda>x. x) (\<lambda>k f. 0) (\<lambda>x. []) (make_auth_claims sample_payload) = Inr sample_payload"
  by (rule extract_make_claims) (rule sample_payload_ok)

lemma make_claims_lookup [simp]:
  "make_auth_claims t ''sub'' = Some (CString (up_user_name t))"
  "make_auth_claims t ''tid'' = Some (CInt KInt64 (up_tenant_id t))"
  "make_auth_claims t ''tcode'' = Some (CString (up_tenant_code t))"
  "make_auth_claims t ''uid'' = Some (CInt KInt64 (up_user_id t))"
  "make_auth_claims t ''ucode'' = Some (CString (up_user_code t))"
  "make_auth_claims t ''rid'' = Some (CInt KInt64 (up_role_id t))"
  "make_auth_claims t ''rcode'' = Some (CString (up_role_code t))"
  "make_auth_claims t ''rname'' = Some (CString (up_role_name t))"
  "make_auth_claims t ''did'' = Some (CInt KInt64 (up_dept_id t))"
  "make_auth_claims t ''dname'' = Some (CString (up_dept_name t))"
  "make_auth_claims t ''ds'' = Some (CInt KInt32 (up_data_scope t))"
  "make_auth_claims t ''tprojects'' = map_option CScopes (up_tenant_projects t)"
  by (cases "up_tenant_projects t"; simp add: make_auth_claims_def Let_def)+

text \<open>What a JWT leaves of the claims: encoded as JSON and decoded into a \<open>map[string]any\<close>, where every number is
  a \<open>float64\<close>, every array a list and every object a map.\<close>

fun any_of_json :: "(real \<Rightarrow> real) \<Rightarrow> json \<Rightarrow> claim_value" where
  "any_of_json rnd JNull = CNil"
| "any_of_json rnd (JBool b) = CBool b"
| "any_of_json rnd (JNum l) = CFloat64 (Fin (rnd (literal_value l)))"
| "any_of_json rnd (JStr s) = CString s"
| "any_of_json rnd (JArr js) = CList (map (any_of_json rnd) js)"
| "any_of_json rnd (JObj ms) = CMap (map (\<lambda>(k, j). (k, any_of_json rnd j)) ms)"

definition jwt_decoded :: "(real \<Rightarrow> real) \<Rightarrow> (real \<Rightarrow> string) \<Rightarrow> auth_claims \<Rightarrow> auth_claims" where
  "jwt_decoded rnd fmt c key =
     (case c key of None \<Rightarrow> None | Some v \<Rightarrow> map_option (any_of_json rnd) (marshal_claim fmt v))"

lemma takeWhile_show_nat [simp]: "takeWhile is_digit (show_nat n) = show_nat n" "dropWhile is_digit (show_nat n) = []"
  using takeWhile_digits [of "show_nat n" "[]"] show_nat_digits [of n] by simp_all

lemma digits_value_show_nat [simp]: "digits_value (show_nat n) = n"
  using show_nat_digits [of n] by simp

lemma literal_value_show_int [simp]: "literal_value (show_int x) = of_int x"
proof (cases "x < 0")
  case True
  then show ?thesis by (simp add: literal_value_def show_int_def)
next
  case False
  then have eq: "show_int x = show_nat (nat x)" by (simp add: show_int_def)
  obtain c cs where c: "show_nat (nat x) = c # cs" "c \<noteq> CHR ''-''"
    using show_nat_digits [of "nat x"] show_nat_first by (cases "show_nat (nat x)") blast+
  have "literal_value (show_nat (nat x)) = real (digits_value (takeWhile is_digit (show_nat (nat x))))"
    using c takeWhile_show_nat(2) [of "nat x"]
    unfolding literal_value_def c(1) by (simp add: Let_def)
  with False show ?thesis unfolding eq by simp
qed

lemma trunc_real_int [simp]: "trunc_real (of_int x) = x"
  by (simp add: trunc_real_def)

definition float_exact :: "int \<Rightarrow> bool" where
  "float_exact x = (\<bar>x\<bar> \<le> 2 ^ 53)"

lemma float_exact_small: "float_exact x \<Longrightarrow> in_int64 x \<and> \<bar>real_of_int x\<bar> < 10 ^ 21"
proof -
  assume "float_exact x"
  then have x: "\<bar>x\<bar> \<le> 9007199254740992" by (simp add: float_exact_def)
  then have "\<bar>real_of_int x\<bar> \<le> 9007199254740992" by linarith
  with x show ?thesis by (auto simp: in_int64_def)
qed

text \<open>Rounding to a \<open>float64\<close> keeps the integers up to \<open>2 ^ 53\<close>.\<close>

definition exact_ints :: "(real \<Rightarrow> real) \<Rightarrow> bool" where
  "exact_ints rnd = (\<forall>x. float_exact x \<longrightarrow> rnd (of_int x) = of_int x)"

lemma any_of_JInt: "exact_ints rnd \<Longrightarrow> float_exact x \<Longrightarrow> any_of_json rnd (JInt x) = CFloat64 (Fin (of_int x))"
  by (simp add: JInt_def exact_ints_def)

lemma marshal_exact: "float_exact x \<Longrightarrow> marshal_claim fmt (CFloat64 (Fin (of_int x))) = Some (JInt x)"
  using float_exact_small [of x] by (simp add: marshal_float_def)

lemma all_some_map: "\<forall>x \<in> set xs. f x = Some (g x) \<Longrightarrow> all_some (map f xs) = Some (map g xs)"
  by (induction xs) auto

definition scope_exact :: "tenant_project_scope \<Rightarrow> bool" where
  "scope_exact sc = (float_exact (tps_tenant sc) \<and> (\<forall>ps. tps_projects sc = Some ps \<longrightarrow> (\<forall>p \<in> set ps. float_exact p)))"

lemma marshal_scope:
  assumes "exact_ints rnd" and "scope_exact sc" and "scope_ok sc"
  shows "marshal_claim fmt (any_of_json rnd (scope_json sc)) = Some (scope_json sc)"
proof -
  from assms(3) obtain ps where ps: "tps_projects sc = Some ps"
    by (auto simp: scope_ok_def split: option.splits)
  with assms(2) have ex: "float_exact (tps_tenant sc)" "\<forall>p \<in> set ps. float_exact p"
    by (auto simp: scope_exact_def)
  have "all_some (map (\<lambda>p. marshal_claim fmt (any_of_json rnd (JInt p))) ps) = Some (map JInt ps)"
    using ex(2) assms(1)
    by (intro all_some_map) (simp add: any_of_JInt marshal_exact del: marshal_claim.simps)
  moreover have "marshal_claim fmt (any_of_json rnd (JInt (tps_tenant sc))) = Some (JInt (tps_tenant sc))"
    using ex(1) assms(1) by (simp add: any_of_JInt marshal_exact del: marshal_claim.simps)
  ultimately show ?thesis
    by (simp add: scope_json_def ps comp_def del: marshal_claim.simps(8-9))
qed

lemma marshal_scopes:
  assumes "exact_ints rnd" and "\<forall>sc \<in> set scs. scope_exact sc \<and> scope_ok sc"
  shows "marshal_claim fmt (any_of_json rnd (JArr (map scope_json scs))) = Some (JArr (map scope_json scs))"
proof -
  have "all_some (map (\<lambda>sc. marshal_claim fmt (any_of_json rnd (scope_json sc))) scs) = Some (map scope_json scs)"
    using assms by (intro all_some_map) (auto intro: marshal_scope)
  then show ?thesis by (simp add: comp_def)
qed

text \<open>Payloads whose numbers a \<open>float64\<close> holds.\<close>

definition payload_exact :: "user_payload \<Rightarrow> bool" where
  "payload_exact t = (float_exact (up_tenant_id t) \<and> float_exact (up_user_id t) \<and> float_exact (up_role_id t) \<and>
     float_exact (up_dept_id t) \<and> (\<forall>scs. up_tenant_projects t = Some scs \<longrightarrow> (\<forall>sc \<in> set scs. scope_exact sc)))"

text \<open>A payload whose identifiers are at most \<open>2 ^ 53\<close> survives the JWT: the claims decoded from the token, with
  floats in place of integers and generic maps in place of scopes, give the same payload back.\<close>

theorem extract_after_jwt:
  assumes "payload_ok t" and "payload_exact t" and "exact_ints rnd"
  shows "extract_auth_claims rnd ov fmt (jwt_decoded rnd fmt (make_auth_claims t)) = Inr t"
proof -
  let ?c = "jwt_decoded rnd fmt (make_auth_claims t)"
  have i64: "get_int_kind rnd ov KInt64 ?c key = Inr x"
    if "make_auth_claims t key = Some (CInt KInt64 x)" "float_exact x" for key x
    using that assms(3) float_exact_small [of x]
    by (simp add: jwt_decoded_def get_int_kind_def any_of_JInt parse_number_int_def convert_float_def
        in_kind_def kind_signed_def kind_bits_def in_int64_def)
  have ds: "float_exact (up_data_scope t)"
    using assms(1) by (auto simp: payload_ok_def in_kind_def kind_signed_def kind_bits_def float_exact_def)
  have "get_int_kind rnd ov KInt32 ?c ''ds'' = Inr (up_data_scope t)"
    using assms(1,3) ds
    by (simp add: jwt_decoded_def get_int_kind_def any_of_JInt parse_number_int_def
        convert_float_def payload_ok_def)
  moreover have "get_int_kind rnd ov KInt64 ?c ''tid'' = Inr (up_tenant_id t)"
    "get_int_kind rnd ov KInt64 ?c ''uid'' = Inr (up_user_id t)"
    "get_int_kind rnd ov KInt64 ?c ''rid'' = Inr (up_role_id t)"
    "get_int_kind rnd ov KInt64 ?c ''did'' = Inr (up_dept_id t)"
    using assms(2)
    by (auto intro!: i64 simp: payload_exact_def)
  moreover have "get_subject ?c = Inr (up_user_name t)" "get_string ?c ''tcode'' = Inr (up_tenant_code t)"
    "get_string ?c ''ucode'' = Inr (up_user_code t)" "get_string ?c ''rname'' = Inr (up_role_name t)"
    "get_string ?c ''rcode'' = Inr (up_role_code t)" "get_string ?c ''dname'' = Inr (up_dept_name t)"
    by (simp_all add: get_subject_def get_string_def parse_string_def jwt_decoded_def)
  moreover have "(case ?c ''tprojects'' of None \<Rightarrow> Inr None
      | Some value \<Rightarrow> (case marshal_claim fmt value of
          None \<Rightarrow> Inl (NewErr ''json: unsupported value'')
        | Some j \<Rightarrow> res_bind (unmarshal_scopes j) (\<lambda>ps.
            res_bind (validate_tenant_projects (case ps of None \<Rightarrow> [] | Some scs \<Rightarrow> scs)) (\<lambda>_. Inr ps)))) =
      Inr (up_tenant_projects t)"
  proof (cases "up_tenant_projects t")
    case None
    then show ?thesis by (simp add: jwt_decoded_def)
  next
    case (Some scs)
    then have "?c ''tprojects'' = Some (any_of_json rnd (JArr (map scope_json scs)))"
      by (simp add: jwt_decoded_def)
    moreover have "marshal_claim fmt (any_of_json rnd (JArr (map scope_json scs))) = Some (JArr (map scope_json scs))"
      using assms Some by (intro marshal_scopes) (auto simp: payload_ok_def payload_exact_def)
    moreover have "scope_elems (map scope_json scs) = Inr scs" "validate_tenant_projects scs = Inr ()"
      using assms(1) Some scope_elems_json [of scs] by (auto simp: payload_ok_def validate_tenant_projects_iff)
    ultimately show ?thesis
      by (simp add: Some unmarshal_scopes_def del: any_of_json.simps marshal_claim.simps)
  qed
  ultimately show ?thesis
    by (simp add: extract_auth_claims_def)
qed

theorem extract_after_jwt_witness:
  "extract_auth_claims (\<lambda>x. x) (\<lambda>k f. 0) (\<lambda>x. []) (jwt_decoded (\<lambda>x. x) (\<lambda>x. []) (make_auth_claims sample_payload)) =
     Inr sample_payload"
  by (rule extract_after_jwt [OF sample_payload_ok])
     (auto simp: sample_payload_def empty_payload_def payload_exact_def float_exact_def scope_exact_def exact_ints_def)

text \<open>Beyond \<open>2 ^ 53\<close> the token changes the identity: the payload of user \<open>2 ^ 53 + 1\<close> comes back from its own JWT,
  without an error, as user \<open>2 ^ 53\<close>.\<close>

theorem jwt_confuses_large_ids:
  assumes "exact_ints rnd" and "rnd (2 ^ 53 + 1) = 2 ^ 53"
  shows "extract_auth_claims rnd ov fmt (jwt_decoded rnd fmt (make_auth_claims (empty_payload\<lparr>up_user_id := 2 ^ 53 + 1\<rparr>))) =
    Inr (empty_payload\<lparr>up_user_id := 2 ^ 53\<rparr>)"
proof -
  let ?t = "empty_payload\<lparr>up_user_id := 2 ^ 53 + 1\<rparr>"
  let ?c = "jwt_decoded rnd fmt (make_auth_claims ?t)"
  have zero: "rnd 0 = 0"
    using assms(1) by (auto simp: exact_ints_def float_exact_def dest: spec [of _ 0])
  have val: "any_of_json rnd (JInt (2 ^ 53 + 1)) = CFloat64 (Fin (of_int (2 ^ 53)))"
    using assms(2) by (simp add: JInt_def)
  have big: "convert_float ov KInt64 (Fin (of_int (2 ^ 53))) = 2 ^ 53"
    by (simp only: convert_float_def float64.case trunc_real_int)
       (simp add: in_kind_def kind_signed_def kind_bits_def)
  have "get_int_kind rnd ov KInt64 ?c ''uid'' = Inr (2 ^ 53)"
    using big val by (simp add: get_int_kind_def jwt_decoded_def parse_number_int_def)
  moreover have small: "get_int_kind rnd ov k ?c key = Inr 0"
    if "key \<in> {''tid'', ''rid'', ''did'', ''ds''}" for k key
    using that zero
    by (auto simp: get_int_kind_def jwt_decoded_def parse_number_int_def empty_payload_def JInt_def
        convert_float_def trunc_real_def in_kind_def)
  ultimately show ?thesis
    by (simp add: extract_auth_claims_def get_subject_def get_string_def parse_string_def jwt_decoded_def)
       (simp add: empty_payload_def)
qed

theorem jwt_confuses_large_ids_witness:
  "extract_auth_claims (\<lambda>x. if x = 2 ^ 53 + 1 then 2 ^ 53 else x) (\<lambda>k f. 0) (\<lambda>x. [])
     (jwt_decoded (\<lambda>x. if x = 2 ^ 53 + 1 then 2 ^ 53 else x) (\<lambda>x. [])
       (make_auth_claims (empty_payload\<lparr>up_user_id := 2 ^ 53 + 1\<rparr>))) =
    Inr (empty_payload\<lparr>up_user_id := 2 ^ 53\<rparr>)"
  by (rule jwt_confuses_large_ids) (auto simp: exact_ints_def float_exact_def)

end
