(* ===== verification/User_Token.thy ===== *)
theory User_Token
  imports Memory_Cache Auth_Claims
begin

text \<open>
  The token manager of auth/data/user_token.go: access and refresh tokens of a user, one pair per
  login session, kept in a cache. The cache is the first argument of every operation (\<open>cache_ops\<close>);
  the signer \<open>CreateIdentity\<close> is part of the configuration; a fresh uuid is an argument.
  An operation reads the clock and calls the cache at one instant \<open>now\<close>. A range over a
  map visits the keys in the order given by \<open>order\<close>. The tokens that \<open>GenerateTokenForSession\<close>
  returns next to an error are dropped.
\<close>

subsection \<open>Sessions and their encoding\<close>

record token_session =
  ts_session_id :: string
  ts_access :: string
  ts_refresh :: string
  ts_access_expires :: int
  ts_refresh_expires :: int
  ts_prev_access :: string
  ts_prev_expires :: int

definition empty_session :: token_session where
  "empty_session = \<lparr>ts_session_id = [], ts_access = [], ts_refresh = [], ts_access_expires = 0,
     ts_refresh_expires = 0, ts_prev_access = [], ts_prev_expires = 0\<rparr>"

definition session_json :: "token_session \<Rightarrow> json" where
  "session_json s = JObj
     ([(''session_id'', JStr (ts_session_id s)), (''access_token'', JStr (ts_access s)),
       (''refresh_token'', JStr (ts_refresh s)), (''access_expires_at'', JInt (ts_access_expires s)),
       (''refresh_expires_at'', JInt (ts_refresh_expires s))] @
      (if ts_prev_access s = [] then [] else [(''previous_access_token'', JStr (ts_prev_access s))]) @
      (if ts_prev_expires s = 0 then [] else [(''previous_access_expires_at'', JInt (ts_prev_expires s))]))"

definition session_marshal :: "token_session \<Rightarrow> string" where
  "session_marshal s = json_print (session_json s)"

fun session_members :: "(string \<times> json) list \<Rightarrow> token_session \<Rightarrow> token_session res" where
  "session_members [] s = Inr s"
| "session_members ((k, j) # ms) s =
     res_bind
       (if equal_fold k ''session_id'' then
          res_bind (json_str_field (ts_session_id s) j) (\<lambda>x. Inr (s\<lparr>ts_session_id := x\<rparr>))
        else if equal_fold k ''access_token'' then
          res_bind (json_str_field (ts_access s) j) (\<lambda>x. Inr (s\<lparr>ts_access := x\<rparr>))
        else if equal_fold k ''refresh_token'' then
          res_bind (json_str_field (ts_refresh s) j) (\<lambda>x. Inr (s\<lparr>ts_refresh := x\<rparr>))
        else if equal_fold k ''access_expires_at'' then
          res_bind (json_int64 (ts_access_expires s) j) (\<lambda>x. Inr (s\<lparr>ts_access_expires := x\<rparr>))
        else if equal_fold k ''refresh_expires_at'' then
          res_bind (json_int64 (ts_refresh_expires s) j) (\<lambda>x. Inr (s\<lparr>ts_refresh_expires := x\<rparr>))
        else if equal_fold k ''previous_access_token'' then
          res_bind (json_str_field (ts_prev_access s) j) (\<lambda>x. Inr (s\<lparr>ts_prev_access := x\<rparr>))
        else if equal_fold k ''previous_access_expires_at'' then
          res_bind (json_int64 (ts_prev_expires s) j) (\<lambda>x. Inr (s\<lparr>ts_prev_expires := x\<rparr>))
        else Inr s)
       (session_members ms)"

definition session_unmarshal :: "string \<Rightarrow> token_session res" where
  "session_unmarshal raw = (case json_parse raw of
     Some JNull \<Rightarrow> Inr empty_session
   | Some (JObj ms) \<Rightarrow> session_members ms empty_session
   | _ \<Rightarrow> Inl err_unmarshal)"

subsection \<open>Configuration and keys\<close>

record ut_config =
  ut_access_prefix :: string
  ut_refresh_prefix :: string
  ut_access_expires :: duration
  ut_refresh_expires :: duration
  ut_create_identity :: "auth_claims \<Rightarrow> string \<times> go_err option"

definition access_token_grace_period :: duration where
  "access_token_grace_period = minute"

definition make_access_key :: "ut_config \<Rightarrow> int \<Rightarrow> string" where
  "make_access_key r uid = ut_access_prefix r @ show_int uid"

definition make_refresh_key :: "ut_config \<Rightarrow> int \<Rightarrow> string" where
  "make_refresh_key r uid = ut_refresh_prefix r @ show_int uid"

definition make_session_index_key :: "ut_config \<Rightarrow> int \<Rightarrow> string" where
  "make_session_index_key r uid = ut_access_prefix r @ '':session-index:'' @ show_int uid"

definition make_session_key :: "ut_config \<Rightarrow> int \<Rightarrow> string \<Rightarrow> string" where
  "make_session_key r uid sid = ut_access_prefix r @ '':session:'' @ show_int uid @ '':'' @ sid"

subsection \<open>Reading and writing the cache\<close>

definition get_token_session :: "'s cache_ops \<Rightarrow> ut_config \<Rightarrow> gotime \<Rightarrow> int \<Rightarrow> string \<Rightarrow> 's
    \<Rightarrow> token_session res \<times> 's" where
  "get_token_session ops r now uid sid s =
     (let (ex, s1) = c_exists ops now (make_session_key r uid sid) s in
      if \<not> ex then (Inl (NewErr ''token session not found''), s1)
      else (case c_hget ops now (make_session_index_key r uid) sid s1 of
          (Inl e, s2) \<Rightarrow> (Inl e, s2)
        | (Inr raw, s2) \<Rightarrow> (session_unmarshal raw, s2)))"

fun sessions_loop :: "'s cache_ops \<Rightarrow> ut_config \<Rightarrow> gotime \<Rightarrow> int \<Rightarrow> (string, string) gomap \<Rightarrow> string list
    \<Rightarrow> token_session list \<Rightarrow> 's \<Rightarrow> token_session list res \<times> 's" where
  "sessions_loop ops r now uid entries [] acc s = (Inr acc, s)"
| "sessions_loop ops r now uid entries (sid # sids) acc s =
     (case gm_get entries sid of
        None \<Rightarrow> sessions_loop ops r now uid entries sids acc s
      | Some raw \<Rightarrow>
          (let (ex, s1) = c_exists ops now (make_session_key r uid sid) s in
           if \<not> ex then
             (case c_hdel ops now (make_session_index_key r uid) sid s1 of
                (Inl e, s2) \<Rightarrow> (Inl e, s2)
              | (Inr _, s2) \<Rightarrow> sessions_loop ops r now uid entries sids acc s2)
           else (case session_unmarshal raw of
               Inl e \<Rightarrow> (Inl e, s1)
             | Inr session \<Rightarrow> sessions_loop ops r now uid entries sids (acc @ [session]) s1)))"

definition get_token_sessions :: "'s cache_ops \<Rightarrow> ut_config \<Rightarrow> gotime \<Rightarrow> int \<Rightarrow> string list \<Rightarrow> 's
    \<Rightarrow> token_session list res \<times> 's" where
  "get_token_sessions ops r now uid order s =
     (case c_hgetall ops now (make_session_index_key r uid) s of
        (Inl e, s1) \<Rightarrow> if is_token_cache_miss e then (Inr [], s1) else (Inl e, s1)
      | (Inr entries, s1) \<Rightarrow> sessions_loop ops r now uid entries order [] s1)"

definition save_token_session :: "'s cache_ops \<Rightarrow> ut_config \<Rightarrow> gotime \<Rightarrow> int \<Rightarrow> token_session \<Rightarrow> 's \<Rightarrow> unit res \<times> 's" where
  "save_token_session ops r now uid session s =
     c_hset ops now (make_session_index_key r uid) (ts_session_id session) (session_marshal session) s"

definition set_access_token :: "'s cache_ops \<Rightarrow> ut_config \<Rightarrow> gotime \<Rightarrow> int \<Rightarrow> string \<Rightarrow> duration \<Rightarrow> 's \<Rightarrow> unit res \<times> 's" where
  "set_access_token ops r now uid token expires s = c_set ops now (make_access_key r uid) token expires s"

definition set_refresh_token :: "'s cache_ops \<Rightarrow> ut_config \<Rightarrow> gotime \<Rightarrow> int \<Rightarrow> string \<Rightarrow> duration \<Rightarrow> 's \<Rightarrow> unit res \<times> 's" where
  "set_refresh_token ops r now uid token expires s = c_set ops now (make_refresh_key r uid) token expires s"

definition get_access_token :: "'s cache_ops \<Rightarrow> ut_config \<Rightarrow> gotime \<Rightarrow> int \<Rightarrow> 's \<Rightarrow> string \<times> 's" where
  "get_access_token ops r now uid s =
     (case c_get ops now (make_access_key r uid) s of (Inl e, s1) \<Rightarrow> ([], s1) | (Inr t, s1) \<Rightarrow> (t, s1))"

definition get_refresh_token :: "'s cache_ops \<Rightarrow> ut_config \<Rightarrow> gotime \<Rightarrow> int \<Rightarrow> 's \<Rightarrow> string \<times> 's" where
  "get_refresh_token ops r now uid s =
     (case c_get ops now (make_refresh_key r uid) s of (Inl e, s1) \<Rightarrow> ([], s1) | (Inr t, s1) \<Rightarrow> (t, s1))"

definition delete_access_token :: "'s cache_ops \<Rightarrow> ut_config \<Rightarrow> gotime \<Rightarrow> int \<Rightarrow> 's \<Rightarrow> unit res \<times> 's" where
  "delete_access_token ops r now uid s = c_del ops now (make_access_key r uid) s"

definition delete_refresh_token :: "'s cache_ops \<Rightarrow> ut_config \<Rightarrow> gotime \<Rightarrow> int \<Rightarrow> 's \<Rightarrow> unit res \<times> 's" where
  "delete_refresh_token ops r now uid s = c_del ops now (make_refresh_key r uid) s"

subsection \<open>Creating tokens\<close>

text \<open>\<open>time.Unix()\<close>: whole seconds, rounded down.\<close>

definition unix_seconds :: "gotime \<Rightarrow> int" where
  "unix_seconds t = unix_nano t div second"

definition create_access_jwt :: "ut_config \<Rightarrow> gotime \<Rightarrow> string \<Rightarrow> user_payload \<Rightarrow> string" where
  "create_access_jwt r now uuid payload =
     fst (ut_create_identity r ((make_auth_claims payload)
       (''jti'' \<mapsto> CString uuid,
        ''iat'' \<mapsto> CInt KInt64 (unix_seconds now),
        ''exp'' \<mapsto> CInt KInt64 (unix_seconds (now + ut_access_expires r)))))"

definition generate_token_for_session :: "'s cache_ops \<Rightarrow> ut_config \<Rightarrow> gotime \<Rightarrow> string \<Rightarrow> string \<Rightarrow> user_payload
    \<Rightarrow> string \<Rightarrow> 's \<Rightarrow> (string \<times> string) res \<times> 's" where
  "generate_token_for_session ops r now uuid refresh_uuid payload sid s =
     (let access = create_access_jwt r now uuid payload in
      if access = [] then (Inl (NewErr ''create access token failed''), s)
      else
        let refresh = refresh_uuid; uid = up_user_id payload in
        if sid = [] then
          (case set_access_token ops r now uid access (ut_access_expires r) s of
             (Inl e, s1) \<Rightarrow> (Inl e, s1)
           | (Inr _, s1) \<Rightarrow>
               (case set_refresh_token ops r now uid refresh (ut_refresh_expires r) s1 of
                  (Inl e, s2) \<Rightarrow> (Inl e, s2)
                | (Inr _, s2) \<Rightarrow> (Inr (access, refresh), s2)))
        else
          (let session = empty_session\<lparr>ts_session_id := sid, ts_access := access, ts_refresh := refresh,
                 ts_access_expires := unix_nano (now + ut_access_expires r),
                 ts_refresh_expires := unix_nano (now + ut_refresh_expires r)\<rparr>
           in case c_set ops now (make_session_key r uid sid) ''1'' (max (ut_access_expires r) (ut_refresh_expires r)) s of
                (Inl e, s1) \<Rightarrow> (Inl e, s1)
              | (Inr _, s1) \<Rightarrow>
                  (case save_token_session ops r now uid session s1 of
                     (Inl e, s2) \<Rightarrow> (Inl e, s2)
                   | (Inr _, s2) \<Rightarrow> (Inr (access, refresh), s2))))"

definition generate_token where
  "generate_token ops r now uuid refresh_uuid payload s = generate_token_for_session ops r now uuid refresh_uuid payload [] s"

text \<open>
  The two halves of refreshing the access token of a session: reading the session, and writing the
  rotated one back and extending the marker. Other callers may run between them.
\<close>

definition rotate_access :: "ut_config \<Rightarrow> gotime \<Rightarrow> string \<Rightarrow> token_session \<Rightarrow> token_session" where
  "rotate_access r now access session =
     (let session = (if ts_access session \<noteq> [] \<and> ts_access session \<noteq> access
            then session\<lparr>ts_prev_access := ts_access session,
              ts_prev_expires := min (ts_access_expires session) (unix_nano (now + access_token_grace_period))\<rparr>
            else session)
      in session\<lparr>ts_access := access, ts_access_expires := unix_nano (now + ut_access_expires r)\<rparr>)"

text \<open>\<open>time.Until(time.Unix(0, n))\<close>.\<close>

definition until_unix :: "gotime \<Rightarrow> int \<Rightarrow> duration" where
  "until_unix now n = of_unix_nano n - now"

definition commit_session :: "'s cache_ops \<Rightarrow> ut_config \<Rightarrow> gotime \<Rightarrow> int \<Rightarrow> string \<Rightarrow> string \<Rightarrow> token_session \<Rightarrow> 's
    \<Rightarrow> (string \<times> go_err option) \<times> 's" where
  "commit_session ops r now uid sid token session s =
     (case save_token_session ops r now uid session s of
        (Inl e, s1) \<Rightarrow> (([], Some e), s1)
      | (Inr _, s1) \<Rightarrow>
          (case c_expire ops now (make_session_key r uid sid)
                  (until_unix now (max (ts_access_expires session) (ts_refresh_expires session))) s1 of
             (Inl e, s2) \<Rightarrow> ((token, Some e), s2) | (Inr _, s2) \<Rightarrow> ((token, None), s2)))"

text \<open>The token is returned together with the error of the last step.\<close>

definition generate_access_token_for_session :: "'s cache_ops \<Rightarrow> ut_config \<Rightarrow> gotime \<Rightarrow> string \<Rightarrow> user_payload
    \<Rightarrow> string \<Rightarrow> 's \<Rightarrow> (string \<times> go_err option) \<times> 's" where
  "generate_access_token_for_session ops r now uuid payload sid s =
     (let uid = up_user_id payload;
          (session, s1) = (if sid = [] then (Inr empty_session, s) else get_token_session ops r now uid sid s)
      in case session of
           Inl e \<Rightarrow> (([], Some e), s1)
         | Inr session \<Rightarrow>
             (let access = create_access_jwt r now uuid payload in
              if access = [] then (([], Some (NewErr ''create access token failed'')), s1)
              else if sid = [] then
                (case set_access_token ops r now uid access (ut_access_expires r) s1 of
                   (Inl e, s2) \<Rightarrow> ((access, Some e), s2) | (Inr _, s2) \<Rightarrow> ((access, None), s2))
              else
                commit_session ops r now uid sid access (rotate_access r now access session) s1))"

definition generate_access_token where
  "generate_access_token ops r now uuid payload s = generate_access_token_for_session ops r now uuid payload [] s"

definition generate_refresh_token_for_session :: "'s cache_ops \<Rightarrow> ut_config \<Rightarrow> gotime \<Rightarrow> string \<Rightarrow> user_payload
    \<Rightarrow> string \<Rightarrow> 's \<Rightarrow> (string \<times> go_err option) \<times> 's" where
  "generate_refresh_token_for_session ops r now refresh_uuid payload sid s =
     (let uid = up_user_id payload;
          (session, s1) = (if sid = [] then (Inr empty_session, s) else get_token_session ops r now uid sid s)
      in case session of
           Inl e \<Rightarrow> (([], Some e), s1)
         | Inr session \<Rightarrow>
             (if refresh_uuid = [] then (([], Some (NewErr ''create refresh token failed'')), s1)
              else if sid = [] then
                (case set_refresh_token ops r now uid refresh_uuid (ut_refresh_expires r) s1 of
                   (Inl e, s2) \<Rightarrow> ((refresh_uuid, Some e), s2) | (Inr _, s2) \<Rightarrow> ((refresh_uuid, None), s2))
              else
                commit_session ops r now uid sid refresh_uuid (session\<lparr>ts_refresh := refresh_uuid,
                  ts_refresh_expires := unix_nano (now + ut_refresh_expires r)\<rparr>) s1))"

definition generate_refresh_token where
  "generate_refresh_token ops r now refresh_uuid payload s = generate_refresh_token_for_session ops r now refresh_uuid payload [] s"

subsection \<open>Removing tokens\<close>

text \<open>
  \<open>RemoveToken\<close> removes every session, and \<open>RemoveTokenForSession\<close> of an empty id calls \<open>RemoveToken\<close>: the
  recursion is cut by fuel, and one unit is enough when no stored session has an empty id.
\<close>

definition remove_one_session :: "'s cache_ops \<Rightarrow> ut_config \<Rightarrow> gotime \<Rightarrow> int \<Rightarrow> string \<Rightarrow> 's \<Rightarrow> unit res \<times> 's" where
  "remove_one_session ops r now uid sid s =
     (case c_del ops now (make_session_key r uid sid) s of
        (Inl e, s1) \<Rightarrow> (Inl e, s1)
      | (Inr _, s1) \<Rightarrow>
          (case c_hdel ops now (make_session_index_key r uid) sid s1 of
             (Inl e, s2) \<Rightarrow> if is_token_cache_miss e then (Inr (), s2) else (Inl e, s2)
           | (Inr _, s2) \<Rightarrow> (Inr (), s2)))"

definition join_two :: "unit res \<Rightarrow> unit res \<Rightarrow> unit res" where
  "join_two a b = (case (a, b) of
     (Inr _, Inr _) \<Rightarrow> Inr () | (Inl e, Inr _) \<Rightarrow> Inl (JoinErr [e])
   | (Inr _, Inl e) \<Rightarrow> Inl (JoinErr [e]) | (Inl e, Inl e') \<Rightarrow> Inl (JoinErr [e, e']))"

fun remove_token :: "nat \<Rightarrow> 's cache_ops \<Rightarrow> ut_config \<Rightarrow> gotime \<Rightarrow> int \<Rightarrow> string list \<Rightarrow> 's \<Rightarrow> unit res \<times> 's"
  and remove_sessions :: "nat \<Rightarrow> 's cache_ops \<Rightarrow> ut_config \<Rightarrow> gotime \<Rightarrow> int \<Rightarrow> string list \<Rightarrow> token_session list \<Rightarrow> 's
    \<Rightarrow> unit res \<times> 's" where
  "remove_token 0 ops r now uid order s = (Inl (Panic ''stack overflow''), s)"
| "remove_token (Suc n) ops r now uid order s =
     (case get_token_sessions ops r now uid order s of
        (Inl e, s1) \<Rightarrow> (Inl e, s1)
      | (Inr sessions, s1) \<Rightarrow>
          (case remove_sessions n ops r now uid order sessions s1 of
             (Inl e, s2) \<Rightarrow> (Inl e, s2)
           | (Inr _, s2) \<Rightarrow>
               (let (ra, s3) = delete_access_token ops r now uid s2;
                    (rr, s4) = delete_refresh_token ops r now uid s3
                in (join_two ra rr, s4))))"
| "remove_sessions n ops r now uid order [] s = (Inr (), s)"
| "remove_sessions n ops r now uid order (session # sessions) s =
     (case (if ts_session_id session = [] then remove_token n ops r now uid order s
            else remove_one_session ops r now uid (ts_session_id session) s) of
        (Inl e, s1) \<Rightarrow> (Inl e, s1)
      | (Inr _, s1) \<Rightarrow> remove_sessions n ops r now uid order sessions s1)"

definition remove_token_for_session :: "nat \<Rightarrow> 's cache_ops \<Rightarrow> ut_config \<Rightarrow> gotime \<Rightarrow> int \<Rightarrow> string list \<Rightarrow> string \<Rightarrow> 's
    \<Rightarrow> unit res \<times> 's" where
  "remove_token_for_session n ops r now uid order sid s =
     (if sid = [] then remove_token n ops r now uid order s else remove_one_session ops r now uid sid s)"

subsection \<open>Validity\<close>

definition is_exist_access_token :: "'s cache_ops \<Rightarrow> ut_config \<Rightarrow> gotime \<Rightarrow> int \<Rightarrow> string list \<Rightarrow> 's \<Rightarrow> bool \<times> 's" where
  "is_exist_access_token ops r now uid order s =
     (let (ex, s1) = c_exists ops now (make_access_key r uid) s in
      if ex then (True, s1)
      else (case get_token_sessions ops r now uid order s1 of
          (Inl e, s2) \<Rightarrow> (False, s2)
        | (Inr sessions, s2) \<Rightarrow> (list_ex (\<lambda>x. unix_nano now < ts_access_expires x) sessions, s2)))"

definition is_exist_refresh_token :: "'s cache_ops \<Rightarrow> ut_config \<Rightarrow> gotime \<Rightarrow> int \<Rightarrow> string list \<Rightarrow> 's \<Rightarrow> bool \<times> 's" where
  "is_exist_refresh_token ops r now uid order s =
     (let (ex, s1) = c_exists ops now (make_refresh_key r uid) s in
      if ex then (True, s1)
      else (case get_token_sessions ops r now uid order s1 of
          (Inl e, s2) \<Rightarrow> (False, s2)
        | (Inr sessions, s2) \<Rightarrow> (list_ex (\<lambda>x. unix_nano now < ts_refresh_expires x) sessions, s2)))"

text \<open>The test of one session in the loop of \<open>IsAccessTokenValid\<close>.\<close>

definition session_accepts :: "gotime \<Rightarrow> string \<Rightarrow> token_session \<Rightarrow> bool" where
  "session_accepts now token x =
     (ts_access x = token \<and> unix_nano now < ts_access_expires x \<or>
      ts_prev_access x = token \<and> unix_nano now < ts_prev_expires x)"

definition is_access_token_valid :: "'s cache_ops \<Rightarrow> ut_config \<Rightarrow> gotime \<Rightarrow> int \<Rightarrow> string \<Rightarrow> string list \<Rightarrow> 's \<Rightarrow> bool \<times> 's" where
  "is_access_token_valid ops r now uid token order s =
     (if token = [] then (False, s)
      else
        let (current, s1) = get_access_token ops r now uid s in
        if current = token then is_exist_access_token ops r now uid order s1
        else (case get_token_sessions ops r now uid order s1 of
            (Inl e, s2) \<Rightarrow> (False, s2)
          | (Inr sessions, s2) \<Rightarrow> (list_ex (session_accepts now token) sessions, s2)))"

definition is_refresh_token_valid :: "'s cache_ops \<Rightarrow> ut_config \<Rightarrow> gotime \<Rightarrow> int \<Rightarrow> string \<Rightarrow> string list \<Rightarrow> 's \<Rightarrow> bool \<times> 's" where
  "is_refresh_token_valid ops r now uid token order s =
     (if token = [] then (False, s)
      else
        let (current, s1) = get_refresh_token ops r now uid s in
        if current = token then is_exist_refresh_token ops r now uid order s1
        else (case get_token_sessions ops r now uid order s1 of
            (Inl e, s2) \<Rightarrow> (False, s2)
          | (Inr sessions, s2) \<Rightarrow>
              (list_ex (\<lambda>x. ts_refresh x = token \<and> unix_nano now < ts_refresh_expires x) sessions, s2)))"

subsection \<open>Encoding round trip\<close>

definition session_ok :: "token_session \<Rightarrow> bool" where
  "session_ok s = (ascii (ts_session_id s) \<and> ascii (ts_access s) \<and> ascii (ts_refresh s) \<and> ascii (ts_prev_access s) \<and>
     in_int64 (ts_access_expires s) \<and> in_int64 (ts_refresh_expires s) \<and> in_int64 (ts_prev_expires s))"

lemma session_fold_names [simp]:
  "equal_fold ''session_id'' ''session_id''"
  "\<not> equal_fold ''access_token'' ''session_id''" "equal_fold ''access_token'' ''access_token''"
  "\<not> equal_fold ''refresh_token'' ''session_id''" "\<not> equal_fold ''refresh_token'' ''access_token''"
  "equal_fold ''refresh_token'' ''refresh_token''"
  "\<not> equal_fold ''access_expires_at'' ''session_id''" "\<not> equal_fold ''access_expires_at'' ''access_token''"
  "\<not> equal_fold ''access_expires_at'' ''refresh_token''" "equal_fold ''access_expires_at'' ''access_expires_at''"
  "\<not> equal_fold ''refresh_expires_at'' ''session_id''" "\<not> equal_fold ''refresh_expires_at'' ''access_token''"
  "\<not> equal_fold ''refresh_expires_at'' ''refresh_token''" "\<not> equal_fold ''refresh_expires_at'' ''access_expires_at''"
  "equal_fold ''refresh_expires_at'' ''refresh_expires_at''"
  "\<not> equal_fold ''previous_access_token'' ''session_id''" "\<not> equal_fold ''previous_access_token'' ''access_token''"
  "\<not> equal_fold ''previous_access_token'' ''refresh_token''" "\<not> equal_fold ''previous_access_token'' ''access_expires_at''"
  "\<not> equal_fold ''previous_access_token'' ''refresh_expires_at''" "equal_fold ''previous_access_token'' ''previous_access_token''"
  "\<not> equal_fold ''previous_access_expires_at'' ''session_id''" "\<not> equal_fold ''previous_access_expires_at'' ''access_token''"
  "\<not> equal_fold ''previous_access_expires_at'' ''refresh_token''" "\<not> equal_fold ''previous_access_expires_at'' ''access_expires_at''"
  "\<not> equal_fold ''previous_access_expires_at'' ''refresh_expires_at''"
  "\<not> equal_fold ''previous_access_expires_at'' ''previous_access_token''"
  "equal_fold ''previous_access_expires_at'' ''previous_access_expires_at''"
  by (simp_all add: equal_fold_def to_lower_def ascii_lower_def)

lemma session_round_trip:
  assumes "session_ok s"
  shows "session_unmarshal (session_marshal s) = Inr s"
proof -
  have "json_ok (session_json s)"
    using assms by (auto simp: session_json_def session_ok_def ascii_def JInt_def)
  then have "session_unmarshal (session_marshal s) =
      (case session_json s of JObj ms \<Rightarrow> session_members ms empty_session | _ \<Rightarrow> Inl err_unmarshal)"
    unfolding session_unmarshal_def session_marshal_def
    by (simp only: json_round_trip) (simp add: session_json_def)
  also have "\<dots> = Inr s"
    using assms
    by (simp add: session_json_def session_ok_def json_str_field_def empty_session_def)
  finally show ?thesis .
qed

subsection \<open>Keys\<close>

lemma show_nat_inj: "show_nat m = show_nat n \<Longrightarrow> m = n"
  by (metis digits_value_show_nat)

lemma show_int_inj_all: "show_int x = show_int y \<Longrightarrow> x = y"
proof -
  assume eq: "show_int x = show_int y"
  have "c \<noteq> CHR ''-''" if "c \<in> set (show_nat n)" for c n
    using show_nat_digits [of n] that by (auto simp: list_all_iff is_digit_def)
  then have no: "show_nat n \<noteq> CHR ''-'' # cs" for n cs
    by (metis list.set_intros(1))
  show "x = y"
    using eq no no [symmetric] show_nat_inj [of "nat x" "nat y"] show_nat_inj [of "nat (- x)" "nat (- y)"]
    by (auto simp: show_int_def split: if_splits)
qed

lemma colon_notin_int [simp]: "CHR '':'' \<notin> set (show_int x)"
  using show_int_chars [of "CHR '':''" x] by (auto simp: is_digit_def)

lemma show_int_Nil [simp]: "show_int x \<noteq> []"
  using show_nat_digits by (auto simp: show_int_def)

lemma session_key_inj:
  assumes "make_session_key r uid sid = make_session_key r uid' sid'"
  shows "uid = uid' \<and> sid = sid'"
proof -
  have eq: "show_int uid @ CHR '':'' # sid = show_int uid' @ CHR '':'' # sid'"
    using assms by (simp add: make_session_key_def)
  have "split_byte (show_int u @ CHR '':'' # x) (CHR '':'') = show_int u # split_byte x (CHR '':'')" for u x
    by (rule split_byte_append) simp
  with eq have "show_int uid = show_int uid'" by (metis list.inject)
  with eq show ?thesis using show_int_inj_all by auto
qed

lemma access_key_neq: "make_access_key r uid \<noteq> make_session_key r uid' sid"
proof
  assume "make_access_key r uid = make_session_key r uid' sid"
  then have "show_int uid = '':session:'' @ show_int uid' @ '':'' @ sid"
    by (simp add: make_access_key_def make_session_key_def)
  then have "CHR '':'' \<in> set (show_int uid)" by simp
  then show False by simp
qed

text \<open>The refresh prefix must not make a refresh key look like a session key.\<close>

definition refresh_apart :: "ut_config \<Rightarrow> bool" where
  "refresh_apart r = (\<forall>uid uid' sid. make_refresh_key r uid \<noteq> make_session_key r uid' sid)"

subsection \<open>The session list\<close>

text \<open>
  Over the contract of the cache: the sessions \<open>getTokenSessions\<close> returns are those of the index whose
  marker is visible. \<open>active\<close> says so of one decoded session.
\<close>

definition active :: "('s \<Rightarrow> gotime \<Rightarrow> string \<Rightarrow> string option) \<Rightarrow> ('s \<Rightarrow> gotime \<Rightarrow> string \<Rightarrow> string \<Rightarrow> string option)
    \<Rightarrow> ut_config \<Rightarrow> gotime \<Rightarrow> int \<Rightarrow> 's \<Rightarrow> string \<Rightarrow> token_session res \<Rightarrow> bool" where
  "active live hfield r now uid s sid x =
     (live s now (make_session_key r uid sid) \<noteq> None \<and>
      (\<exists>raw. hfield s now (make_session_index_key r uid) sid = Some raw \<and> session_unmarshal raw = x))"

text \<open>The loop visits every session of the index once.\<close>

definition visits :: "('s \<Rightarrow> gotime \<Rightarrow> string \<Rightarrow> string \<Rightarrow> string option) \<Rightarrow> ut_config \<Rightarrow> gotime \<Rightarrow> int \<Rightarrow> 's \<Rightarrow> string list \<Rightarrow> bool" where
  "visits hfield r now uid s order =
     (distinct order \<and> (\<forall>sid. hfield s now (make_session_index_key r uid) sid \<noteq> None \<longrightarrow> sid \<in> set order))"

context kv_cache
begin

lemma exists_step:
  assumes "inv s"
  obtains s1 where "c_exists ops now k s = (live s now k \<noteq> None, s1)" "inv s1"
    "\<And>t. now \<le> t \<Longrightarrow> live s1 t = live s t" "\<And>t. now \<le> t \<Longrightarrow> hfield s1 t = hfield s t"
  using exists_result [OF assms, of now k] exists_state [OF assms refl, of now k]
  by (cases "c_exists ops now k s") auto

lemma hdel_step:
  assumes "inv s" and "hfield s now k f \<noteq> None"
  obtains s1 where "c_hdel ops now k f s = (Inr (), s1)" "inv s1"
    "\<And>t. now \<le> t \<Longrightarrow> live s1 t = live s t"
    "\<And>t. now \<le> t \<Longrightarrow> hfield s1 t = (hfield s t)(k := (hfield s t k)(f := None))"
proof -
  have "fst (c_hdel ops now k f s) = Inr ()"
    using hdel_result [OF assms(1), of now k f] assms(2) by auto
  then show thesis
    using hdel_state [OF assms(1) refl, of now k f] by (intro that [of "snd (c_hdel ops now k f s)"]) (auto simp: prod_eq_iff)
qed

lemma sessions_loop_spec:
  assumes "inv s" and "distinct sids"
    and "\<And>sid. sid \<in> set sids \<Longrightarrow> hfield s now (make_session_index_key r uid) sid = gm_get entries sid"
  shows "let (res, s') = sessions_loop ops r now uid entries sids acc s in
    inv s' \<and> (\<forall>t \<ge> now. live s' t = live s t) \<and>
    (case res of
       Inr ss \<Rightarrow> \<forall>x. x \<in> set ss \<longleftrightarrow> x \<in> set acc \<or> (\<exists>sid \<in> set sids. active live hfield r now uid s sid (Inr x))
     | Inl e \<Rightarrow> \<exists>sid \<in> set sids. active live hfield r now uid s sid (Inl e))"
  using assms
proof (induction sids arbitrary: acc s)
  case Nil
  then show ?case by simp
next
  case (Cons sid sids)
  let ?ik = "make_session_index_key r uid"
  have here: "hfield s now ?ik sid = gm_get entries sid" using Cons.prems(3) by simp
  show ?case
  proof (cases "gm_get entries sid")
    case None
    with here have "\<not> active live hfield r now uid s sid x" for x by (simp add: active_def)
    with Cons.IH [of s acc] Cons.prems None show ?thesis
      by (auto simp: split_def Let_def split: sum.splits)
  next
    case (Some raw)
    obtain s1 where ex: "c_exists ops now (make_session_key r uid sid) s = (live s now (make_session_key r uid sid) \<noteq> None, s1)"
      and s1: "inv s1" "\<And>t. now \<le> t \<Longrightarrow> live s1 t = live s t" "\<And>t. now \<le> t \<Longrightarrow> hfield s1 t = hfield s t"
      using exists_step [OF Cons.prems(1)] by blast
    have same: "active live hfield r now uid s1 sid' x = active live hfield r now uid s sid' x" for sid' x
      using s1(2,3) [of now] by (simp add: active_def)
    show ?thesis
    proof (cases "live s now (make_session_key r uid sid) = None")
      case True
      then have no: "\<not> active live hfield r now uid s sid x" for x by (simp add: active_def)
      have "hfield s1 now ?ik sid \<noteq> None" using here Some s1(3) [of now] by simp
      from hdel_step [OF s1(1) this] obtain s2 where hd: "c_hdel ops now ?ik sid s1 = (Inr (), s2)"
        and s2: "inv s2" "\<And>t. now \<le> t \<Longrightarrow> live s2 t = live s1 t"
          "\<And>t. now \<le> t \<Longrightarrow> hfield s2 t = (hfield s1 t)(?ik := (hfield s1 t ?ik)(sid := None))"
        by blast
      have other: "active live hfield r now uid s2 sid' x = active live hfield r now uid s sid' x" if "sid' \<noteq> sid" for sid' x
        using s1(2,3) [of now] s2(2,3) [of now] that by (simp add: active_def)
      have "hfield s2 now ?ik sid' = gm_get entries sid'" if "sid' \<in> set sids" for sid'
        using that Cons.prems(2,3) s1(3) [of now] s2(3) [of now] by auto
      from Cons.IH [OF s2(1) _ this, of acc] Cons.prems(2)
      have "let (res, s') = sessions_loop ops r now uid entries sids acc s2 in
          inv s' \<and> (\<forall>t \<ge> now. live s' t = live s t) \<and>
          (case res of
             Inr ss \<Rightarrow> \<forall>x. x \<in> set ss \<longleftrightarrow> x \<in> set acc \<or> (\<exists>sid \<in> set sids. active live hfield r now uid s2 sid (Inr x))
           | Inl e \<Rightarrow> \<exists>sid \<in> set sids. active live hfield r now uid s2 sid (Inl e))"
        using s1(2) s2(2) by simp
      moreover have "(\<exists>sid' \<in> set sids. active live hfield r now uid s2 sid' x) =
          (\<exists>sid' \<in> set (sid # sids). active live hfield r now uid s sid' x)" for x
        using other no Cons.prems(2) by (metis distinct.simps(2) set_ConsD list.set_intros(2))
      ultimately show ?thesis
        using Some ex hd True by (simp add: split_def Let_def split: sum.splits)
    next
      case False
      then have act: "active live hfield r now uid s sid (session_unmarshal raw)"
        and only: "active live hfield r now uid s sid x \<Longrightarrow> x = session_unmarshal raw" for x
        using here Some by (auto simp: active_def)
      show ?thesis
      proof (cases "session_unmarshal raw")
        case (Inl e)
        with act False Some ex s1 show ?thesis by simp
      next
        case (Inr x)
        have "hfield s1 now ?ik sid' = gm_get entries sid'" if "sid' \<in> set sids" for sid'
          using that Cons.prems(3) s1(3) [of now] by simp
        from Cons.IH [OF s1(1) _ this, of "acc @ [x]"] Cons.prems(2)
        have "let (res, s') = sessions_loop ops r now uid entries sids (acc @ [x]) s1 in
            inv s' \<and> (\<forall>t \<ge> now. live s' t = live s t) \<and>
            (case res of
               Inr ss \<Rightarrow> \<forall>y. y \<in> set ss \<longleftrightarrow> y \<in> set acc \<or> y = x \<or> (\<exists>sid \<in> set sids. active live hfield r now uid s sid (Inr y))
             | Inl e \<Rightarrow> \<exists>sid \<in> set sids. active live hfield r now uid s sid (Inl e))"
          using s1(2) same by (simp add: split_def Let_def disj_ac split: sum.splits)
        moreover have "(y = x \<or> (\<exists>sid' \<in> set sids. active live hfield r now uid s sid' (Inr y))) =
            (\<exists>sid' \<in> set (sid # sids). active live hfield r now uid s sid' (Inr y))" for y
          using act only [of "Inr y"] Inr by auto
        moreover have "sessions_loop ops r now uid entries (sid # sids) acc s =
            sessions_loop ops r now uid entries sids (acc @ [x]) s1"
          using Some ex False Inr by simp
        ultimately show ?thesis
          by (auto simp: split_def Let_def split: sum.splits)
      qed
    qed
  qed
qed

lemma get_token_sessions_spec:
  assumes "inv s" and "visits hfield r now uid s order"
  shows "let (res, s') = get_token_sessions ops r now uid order s in
    inv s' \<and> (\<forall>t \<ge> now. live s' t = live s t) \<and>
    (case res of
       Inr ss \<Rightarrow> \<forall>x. x \<in> set ss \<longleftrightarrow> (\<exists>sid. active live hfield r now uid s sid (Inr x))
     | Inl e \<Rightarrow> \<exists>sid. active live hfield r now uid s sid (Inl e))"
proof -
  let ?ik = "make_session_index_key r uid"
  obtain res s1 where h: "c_hgetall ops now ?ik s = (res, s1)" by force
  have s1: "inv s1" "\<And>t. now \<le> t \<Longrightarrow> live s1 t = live s t" "\<And>t. now \<le> t \<Longrightarrow> hfield s1 t = hfield s t"
    using hgetall_state [OF assms(1) refl, of now ?ik] h by auto
  have same: "active live hfield r now uid s1 sid x = active live hfield r now uid s sid x" for sid x
    using s1(2,3) [of now] by (simp add: active_def)
  show ?thesis
  proof (cases res)
    case (Inl e)
    then have miss: "is_token_cache_miss e" and "hfield s now ?ik = Map.empty"
      using hgetall_result [OF assms(1), of now ?ik] h by auto
    then have "\<not> active live hfield r now uid s sid x" for sid x by (simp add: active_def)
    with miss Inl h s1 show ?thesis by (simp add: get_token_sessions_def)
  next
    case (Inr entries)
    then have ent: "gm_get entries = hfield s now ?ik"
      using hgetall_result [OF assms(1), of now ?ik] h by auto
    have "sid \<in> set order" if "active live hfield r now uid s sid x" for sid x
      using that assms(2) by (auto simp: active_def visits_def)
    moreover have "get_token_sessions ops r now uid order s = sessions_loop ops r now uid entries order [] s1"
      using h Inr by (simp add: get_token_sessions_def)
    moreover have "let (res, s') = sessions_loop ops r now uid entries order [] s1 in
        inv s' \<and> (\<forall>t \<ge> now. live s' t = live s1 t) \<and>
        (case res of
           Inr ss \<Rightarrow> \<forall>x. x \<in> set ss \<longleftrightarrow> x \<in> set [] \<or> (\<exists>sid \<in> set order. active live hfield r now uid s1 sid (Inr x))
         | Inl e \<Rightarrow> \<exists>sid \<in> set order. active live hfield r now uid s1 sid (Inl e))"
      using assms(2) ent s1(3) [of now] by (intro sessions_loop_spec [OF s1(1)]) (auto simp: visits_def)
    ultimately show ?thesis
      using s1(2) same by (auto simp: split_def Let_def split: sum.splits)
  qed
qed

text \<open>When every visible session decodes, the list is exactly the active sessions.\<close>

lemma get_token_sessions_ok:
  assumes "inv s" and "visits hfield r now uid s order"
    and "\<And>sid e. \<not> active live hfield r now uid s sid (Inl e)"
  obtains ss s' where "get_token_sessions ops r now uid order s = (Inr ss, s')" "inv s'"
    "\<And>t. now \<le> t \<Longrightarrow> live s' t = live s t"
    "\<And>x. x \<in> set ss \<longleftrightarrow> (\<exists>sid. active live hfield r now uid s sid (Inr x))"
proof -
  obtain res s' where g: "get_token_sessions ops r now uid order s = (res, s')" by force
  have "case res of Inr ss \<Rightarrow> \<forall>x. x \<in> set ss \<longleftrightarrow> (\<exists>sid. active live hfield r now uid s sid (Inr x))
     | Inl e \<Rightarrow> \<exists>sid. active live hfield r now uid s sid (Inl e)"
    and st: "inv s'" "\<forall>t \<ge> now. live s' t = live s t"
    using get_token_sessions_spec [OF assms(1,2)] g by auto
  with assms(3) show thesis
    using g st that by (cases res) auto
qed

lemma get_step:
  assumes "inv s"
  obtains s1 where "c_get ops now k s = (fst (c_get ops now k s), s1)" "inv s1"
    "\<And>t. now \<le> t \<Longrightarrow> live s1 t = live s t" "\<And>t. now \<le> t \<Longrightarrow> hfield s1 t = hfield s t"
  using get_state [OF assms refl, of now k] by (cases "c_get ops now k s") auto

lemma access_token_valid_iff_gen:
  assumes "inv s" and "visits hfield r now uid s order" and "token \<noteq> []"
    and "\<And>sid e. \<not> active live hfield r now uid s sid (Inl e)"
  shows "fst (is_access_token_valid ops r now uid token order s) =
    (live s now (make_access_key r uid) = Some token \<or>
     (\<exists>sid x. active live hfield r now uid s sid (Inr x) \<and> session_accepts now token x))"
proof -
  let ?k = "make_access_key r uid"
  obtain s1 where g: "c_get ops now ?k s = (fst (c_get ops now ?k s), s1)" "inv s1"
    "\<And>t. now \<le> t \<Longrightarrow> live s1 t = live s t" "\<And>t. now \<le> t \<Longrightarrow> hfield s1 t = hfield s t"
    using get_step [OF assms(1)] by blast
  have same: "active live hfield r now uid s1 sid x = active live hfield r now uid s sid x" for sid x
    using g(3,4) [of now] by (simp add: active_def)
  have v: "visits hfield r now uid s1 order"
    using assms(2) g(4) [of now] by (simp add: visits_def)
  have "get_access_token ops r now uid s = (case live s now ?k of Some v \<Rightarrow> v | None \<Rightarrow> [], s1)"
  proof (cases rule: get_cases [OF assms(1), of now ?k, case_names hit miss])
    case (hit v)
    with g(1) show ?thesis by (simp add: get_access_token_def)
  next
    case (miss e)
    with g(1) show ?thesis by (simp add: get_access_token_def)
  qed
  then have cur: "fst (get_access_token ops r now uid s) = token \<longleftrightarrow> live s now ?k = Some token"
    and st: "snd (get_access_token ops r now uid s) = s1"
    using assms(3) by (auto split: option.splits)
  show ?thesis
  proof (cases "live s now ?k = Some token")
    case True
    obtain s2 where "c_exists ops now ?k s1 = (live s1 now ?k \<noteq> None, s2)"
      using exists_step [OF g(2)] by blast
    with True cur st g(3) [of now] assms(3) show ?thesis
      by (simp add: is_access_token_valid_def is_exist_access_token_def split_def Let_def)
  next
    case False
    obtain ss s' where "get_token_sessions ops r now uid order s1 = (Inr ss, s')"
      "\<And>x. x \<in> set ss \<longleftrightarrow> (\<exists>sid. active live hfield r now uid s1 sid (Inr x))"
      using get_token_sessions_ok [OF g(2) v] assms(4) same by metis
    with False cur st assms(3) same show ?thesis
      by (simp add: is_access_token_valid_def split_def Let_def list_ex_iff) blast
  qed
qed

end

text \<open>The calls of a token manager, including a refresh commit whose first half ran earlier.\<close>

datatype ut_op =
    OpGenerate gotime string string user_payload string
  | OpAccess gotime string user_payload string
  | OpRefresh gotime string user_payload string
  | OpCommit gotime int string string token_session
  | OpRemove nat gotime int "string list" string
  | OpCheckAccess gotime int string "string list"
  | OpCheckRefresh gotime int string "string list"

fun ut_step :: "'s cache_ops \<Rightarrow> ut_config \<Rightarrow> ut_op \<Rightarrow> 's \<Rightarrow> 's" where
  "ut_step ops r (OpGenerate now uuid ruuid payload sid) s =
     snd (generate_token_for_session ops r now uuid ruuid payload sid s)"
| "ut_step ops r (OpAccess now uuid payload sid) s = snd (generate_access_token_for_session ops r now uuid payload sid s)"
| "ut_step ops r (OpRefresh now ruuid payload sid) s = snd (generate_refresh_token_for_session ops r now ruuid payload sid s)"
| "ut_step ops r (OpCommit now uid sid token session) s = snd (commit_session ops r now uid sid token session s)"
| "ut_step ops r (OpRemove n now uid order sid) s = snd (remove_token_for_session n ops r now uid order sid s)"
| "ut_step ops r (OpCheckAccess now uid token order) s = snd (is_access_token_valid ops r now uid token order s)"
| "ut_step ops r (OpCheckRefresh now uid token order) s = snd (is_refresh_token_valid ops r now uid token order s)"

fun op_time :: "ut_op \<Rightarrow> gotime" where
  "op_time (OpGenerate now _ _ _ _) = now"
| "op_time (OpAccess now _ _ _) = now"
| "op_time (OpRefresh now _ _ _) = now"
| "op_time (OpCommit now _ _ _ _) = now"
| "op_time (OpRemove _ now _ _ _) = now"
| "op_time (OpCheckAccess now _ _ _) = now"
| "op_time (OpCheckRefresh now _ _ _) = now"

text \<open>A new login of the same session id.\<close>

definition logs_in :: "int \<Rightarrow> string \<Rightarrow> ut_op \<Rightarrow> bool" where
  "logs_in uid sid op = (case op of OpGenerate now uuid ruuid payload sid' \<Rightarrow> up_user_id payload = uid \<and> sid' = sid | _ \<Rightarrow> False)"

context revocable_cache
begin

definition out :: "string \<Rightarrow> 's \<Rightarrow> bool" where
  "out k s = (inv s \<and> gone s k)"

lemma out_get: "c_get ops now k' s = (x, s') \<Longrightarrow> out k s \<Longrightarrow> out k s'"
  using get_state [OF _ refl, of s now k'] read_gone(1) [of s k now k'] by (simp add: out_def)

lemma out_exists: "c_exists ops now k' s = (x, s') \<Longrightarrow> out k s \<Longrightarrow> out k s'"
  using exists_state [OF _ refl, of s now k'] read_gone(2) [of s k now k'] by (simp add: out_def)

lemma out_hgetall: "c_hgetall ops now k' s = (x, s') \<Longrightarrow> out k s \<Longrightarrow> out k s'"
  using hgetall_state [OF _ refl, of s now k'] hash_gone(1) [of s k now k'] by (simp add: out_def)

lemma out_hget: "c_hget ops now k' f s = (x, s') \<Longrightarrow> out k s \<Longrightarrow> out k s'"
  using hget_state [OF _ refl, of s now k' f] hash_gone(2) [of s k now k' f] by (simp add: out_def)

lemma out_hset: "c_hset ops now k' f v s = (x, s') \<Longrightarrow> out k s \<Longrightarrow> out k s'"
  using hset_state [OF _ refl, of s now k' f v] hash_gone(3) [of s k now k' f v] by (simp add: out_def)

lemma out_hdel: "c_hdel ops now k' f s = (x, s') \<Longrightarrow> out k s \<Longrightarrow> out k s'"
  using hdel_state [OF _ refl, of s now k' f] hash_gone(4) [of s k now k' f] by (simp add: out_def)

lemma out_del: "c_del ops now k' s = (x, s') \<Longrightarrow> out k s \<Longrightarrow> out k s'"
  using del_state [OF _ refl, of s now k'] del_keeps_gone [of s k now k'] by (simp add: out_def)

lemma out_expire: "c_expire ops now k' d s = (x, s') \<Longrightarrow> out k s \<Longrightarrow> 0 \<le> now \<Longrightarrow> out k s'"
  using expire_state [OF _ _ refl, of s now k' d] expire_gone [of s k now k' d] by (simp add: out_def)

lemma out_set: "c_set ops now k' v d s = (x, s') \<Longrightarrow> out k s \<Longrightarrow> 0 \<le> now \<Longrightarrow> k' \<noteq> k \<Longrightarrow> out k s'"
  using set_state [OF _ _ refl, of s now k' v d] set_gone [of s k k' now v d] by (simp add: out_def)

lemmas out_prims = out_get out_exists out_hgetall out_hget out_hset out_hdel out_del out_expire out_set

lemma out_sessions_loop: "out k s \<Longrightarrow> out k (snd (sessions_loop ops r now uid entries sids acc s))"
proof (induction sids arbitrary: acc s)
  case (Cons sid sids)
  show ?case
  proof (cases "gm_get entries sid")
    case None
    with Cons show ?thesis by simp
  next
    case (Some raw)
    obtain ex s1 where e: "c_exists ops now (make_session_key r uid sid) s = (ex, s1)" by force
    from out_exists [OF this Cons.prems] have s1: "out k s1" .
    obtain res s2 where h: "c_hdel ops now (make_session_index_key r uid) sid s1 = (res, s2)" by force
    from out_hdel [OF this s1] have "out k s2" .
    with Cons.IH s1 Some e h show ?thesis
      by (auto split: sum.splits)
  qed
qed simp

lemma out_get_sessions:
  "get_token_sessions ops r now uid order s = (x, s') \<Longrightarrow> out k s \<Longrightarrow> out k s'"
  using out_sessions_loop [of k]
  by (auto simp: get_token_sessions_def dest: out_hgetall split: prod.splits sum.splits if_splits) (metis out_hgetall snd_conv)

lemma out_remove_one: "remove_one_session ops r now uid sid s = (x, s') \<Longrightarrow> out k s \<Longrightarrow> out k s'"
  by (auto simp: remove_one_session_def dest: out_prims split: prod.splits sum.splits if_splits)

lemma out_remove_sessions:
  assumes "\<And>s x s'. remove_token n ops r now uid order s = (x, s') \<Longrightarrow> out k s \<Longrightarrow> out k s'"
  shows "remove_sessions n ops r now uid order sessions s = (x, s') \<Longrightarrow> out k s \<Longrightarrow> out k s'"
  by (induction sessions arbitrary: s)
     (auto dest: assms out_remove_one split: prod.splits sum.splits if_splits)

lemma out_remove_token:
  "remove_token n ops r now uid order s = (x, s') \<Longrightarrow> out k s \<Longrightarrow> out k s'"
proof (induction n arbitrary: s x s')
  case (Suc n)
  have rs: "out k s2" if "remove_sessions n ops r now uid order ss s1 = (y, s2)" "out k s1" for ss s1 y s2
    using that by (rule out_remove_sessions [rotated]) (rule Suc.IH)
  from Suc.prems show ?case
    by (auto simp: delete_access_token_def delete_refresh_token_def
        dest: rs out_get_sessions out_del split: prod.splits sum.splits)
qed simp

lemma out_get_session:
  "get_token_session ops r now uid sid s = (x, s') \<Longrightarrow> out k s \<Longrightarrow> out k s'"
  by (auto simp: get_token_session_def dest: out_exists out_hget split: prod.splits sum.splits if_splits)

lemma out_commit:
  "commit_session ops r now uid sid token session s = (x, s') \<Longrightarrow> out k s \<Longrightarrow> 0 \<le> now \<Longrightarrow> out k s'"
  by (auto simp: commit_session_def save_token_session_def dest: out_hset out_expire split: prod.splits sum.splits)

lemma out_set_tokens:
  assumes "refresh_apart r"
  shows "set_access_token ops r now uid token d s = (x, s') \<Longrightarrow> out (make_session_key r u sid) s \<Longrightarrow> 0 \<le> now \<Longrightarrow>
      out (make_session_key r u sid) s'"
    and "set_refresh_token ops r now uid token d s = (x, s') \<Longrightarrow> out (make_session_key r u sid) s \<Longrightarrow> 0 \<le> now \<Longrightarrow>
      out (make_session_key r u sid) s'"
  using assms access_key_neq
  by (auto simp: set_access_token_def set_refresh_token_def refresh_apart_def dest: out_set)

lemma out_generate:
  assumes "refresh_apart r" and "\<not> (up_user_id payload = u \<and> sid' = sid)" and "0 \<le> now"
  shows "generate_token_for_session ops r now uuid ruuid payload sid' s = (x, s') \<Longrightarrow>
    out (make_session_key r u sid) s \<Longrightarrow> out (make_session_key r u sid) s'"
proof -
  have "make_session_key r (up_user_id payload) sid' \<noteq> make_session_key r u sid"
    using session_key_inj assms(2) by blast
  then show "generate_token_for_session ops r now uuid ruuid payload sid' s = (x, s') \<Longrightarrow>
    out (make_session_key r u sid) s \<Longrightarrow> out (make_session_key r u sid) s'"
    using assms(3)
    by (auto simp: generate_token_for_session_def save_token_session_def Let_def
        dest: out_set_tokens [OF assms(1)] out_set out_hset split: prod.splits sum.splits if_splits)
qed

lemma out_refreshes:
  assumes "refresh_apart r" and "0 \<le> now"
  shows "generate_access_token_for_session ops r now uuid payload sid' s = (x, s') \<Longrightarrow>
      out (make_session_key r u sid) s \<Longrightarrow> out (make_session_key r u sid) s'"
    and "generate_refresh_token_for_session ops r now ruuid payload sid' s = (x, s') \<Longrightarrow>
      out (make_session_key r u sid) s \<Longrightarrow> out (make_session_key r u sid) s'"
  using assms(2)
  by (auto simp: generate_access_token_for_session_def generate_refresh_token_for_session_def Let_def
      dest: out_set_tokens [OF assms(1)] out_get_session out_commit split: prod.splits sum.splits if_splits)

lemma out_checks:
  "is_access_token_valid ops r now uid token order s = (b, s') \<Longrightarrow> out k s \<Longrightarrow> out k s'"
  "is_refresh_token_valid ops r now uid token order s = (b, s') \<Longrightarrow> out k s \<Longrightarrow> out k s'"
  by (auto simp: is_access_token_valid_def is_refresh_token_valid_def is_exist_access_token_def
      is_exist_refresh_token_def get_access_token_def get_refresh_token_def Let_def
      dest: out_get out_exists out_get_sessions split: prod.splits sum.splits if_splits)

lemma out_run:
  assumes "refresh_apart r" and "\<forall>op \<in> set calls. 0 \<le> op_time op \<and> \<not> logs_in uid sid op"
    and "out (make_session_key r uid sid) s"
  shows "out (make_session_key r uid sid) (fold (ut_step ops r) calls s)"
  using assms(2,3)
proof (induction calls arbitrary: s)
  case (Cons op calls)
  let ?k = "make_session_key r uid sid"
  have "out ?k (ut_step ops r op s)"
  proof (cases op)
    case (OpGenerate now uuid ruuid payload sid')
    with Cons.prems show ?thesis
      using out_generate [OF assms(1), of payload uid sid' sid now uuid ruuid s] by (auto simp: logs_in_def prod_eq_iff)
  next
    case (OpAccess now uuid payload sid')
    with Cons.prems show ?thesis
      using out_refreshes(1) [OF assms(1), of now uuid payload sid' s] by (auto simp: prod_eq_iff)
  next
    case (OpRefresh now uuid payload sid')
    with Cons.prems show ?thesis
      using out_refreshes(2) [OF assms(1), of now uuid payload sid' s] by (auto simp: prod_eq_iff)
  next
    case (OpCommit now uid' sid' token session)
    with Cons.prems show ?thesis
      using out_commit [of r now uid' sid' token session s _ _ ?k] by (auto simp: prod_eq_iff)
  next
    case (OpRemove n now uid' order sid')
    with Cons.prems show ?thesis
      using out_remove_token [of n r now uid' order s _ _ ?k] out_remove_one [of r now uid' sid' s _ _ ?k]
      by (auto simp: remove_token_for_session_def prod_eq_iff)
  next
    case (OpCheckAccess now uid' token order)
    with Cons.prems show ?thesis
      using out_checks(1) [of r now uid' token order s _ _ ?k] by (auto simp: prod_eq_iff)
  next
    case (OpCheckRefresh now uid' token order)
    with Cons.prems show ?thesis
      using out_checks(2) [of r now uid' token order s _ _ ?k] by (auto simp: prod_eq_iff)
  qed
  with Cons show ?case by simp
qed simp

lemma revocation_final_gen:
  assumes "inv s" and "sid \<noteq> []" and "refresh_apart r"
    and "\<forall>op \<in> set calls. 0 \<le> op_time op \<and> \<not> logs_in uid sid op"
  shows "is_ok (fst (get_token_session ops r t uid sid
      (fold (ut_step ops r) calls (snd (remove_token_for_session n ops r now uid order sid s))))) = False"
proof -
  let ?k = "make_session_key r uid sid"
  obtain x s1 where d: "c_del ops now ?k s = (x, s1)" by force
  then have "out ?k s1"
    using del_state [OF assms(1) refl, of now ?k] del_gone [OF assms(1), of now ?k] by (simp add: out_def)
  then have "out ?k (snd (remove_token_for_session n ops r now uid order sid s))"
    using assms(2) d
    by (auto simp: remove_token_for_session_def remove_one_session_def dest: out_hdel split: prod.splits sum.splits)
  note o = out_run [OF assms(3,4) this]
  define s2 where "s2 = fold (ut_step ops r) calls (snd (remove_token_for_session n ops r now uid order sid s))"
  have i: "inv s2" and l: "live s2 t ?k = None"
    using o gone_live by (auto simp: out_def s2_def)
  obtain s3 where "c_exists ops t ?k s2 = (live s2 t ?k \<noteq> None, s3)"
    using exists_step [OF i] by blast
  with l show ?thesis
    unfolding s2_def [symmetric] by (simp add: get_token_session_def)
qed

end

subsection \<open>Issued tokens\<close>

definition issued_session :: "ut_config \<Rightarrow> gotime \<Rightarrow> string \<Rightarrow> string \<Rightarrow> string \<Rightarrow> token_session" where
  "issued_session r now sid access refresh = empty_session\<lparr>ts_session_id := sid, ts_access := access, ts_refresh := refresh,
     ts_access_expires := unix_nano (now + ut_access_expires r),
     ts_refresh_expires := unix_nano (now + ut_refresh_expires r)\<rparr>"

context kv_cache
begin

lemma issued_session_active:
  assumes "inv s" and "0 \<le> now" and "sid \<noteq> []"
    and gen: "generate_token_for_session ops r now uuid ruuid payload sid s = (Inr (access, refresh), s')"
    and "now \<le> t" and "t \<le> now + max (ut_access_expires r) (ut_refresh_expires r)"
    and ok: "session_ok (issued_session r now sid access refresh)"
  shows "inv s' \<and> access \<noteq> [] \<and>
    active live hfield r t (up_user_id payload) s' sid (Inr (issued_session r now sid access refresh)) \<and>
    (\<forall>sid' x. sid' \<noteq> sid \<longrightarrow> active live hfield r t (up_user_id payload) s' sid' x =
       active live hfield r t (up_user_id payload) s sid' x)"
proof -
  let ?uid = "up_user_id payload" and ?d = "max (ut_access_expires r) (ut_refresh_expires r)"
  let ?k = "make_session_key r ?uid sid" and ?ik = "make_session_index_key r ?uid"
  let ?x = "issued_session r now sid access refresh"
  from gen assms(3) obtain s1 where a: "access \<noteq> []" "c_set ops now ?k ''1'' ?d s = (Inr (), s1)"
    "save_token_session ops r now ?uid ?x s1 = (Inr (), s')"
    by (auto simp: generate_token_for_session_def issued_session_def Let_def split: if_splits prod.splits sum.splits)
  have s1: "inv s1" "hfield s1 t = hfield s t" "live s1 t = (live s t)(?k := Some ''1'')"
    using set_state [OF assms(1,2) refl, of ?k "''1''" ?d] a(2) assms(5,6) by (auto simp: within_ttl_def)
  have s': "inv s'" "live s' t = live s1 t" "hfield s' t = (hfield s1 t)(?ik := (hfield s1 t ?ik)(sid \<mapsto> session_marshal ?x))"
    using hset_state [OF s1(1) refl, of now ?ik sid "session_marshal ?x"] a(3) assms(5)
    by (auto simp: save_token_session_def issued_session_def)
  have "make_session_key r ?uid sid' \<noteq> ?k" if "sid' \<noteq> sid" for sid'
    using session_key_inj that by blast
  then show ?thesis
    using a(1) s1 s' session_round_trip [OF ok] by (simp add: active_def)
qed

lemma issued_valid_gen:
  assumes "inv s" and "0 \<le> now" and "sid \<noteq> []"
    and gen: "generate_token_for_session ops r now uuid ruuid payload sid s = (Inr (access, refresh), s')"
    and "now \<le> t" and "t < now + ut_access_expires r"
    and ok: "session_ok (issued_session r now sid access refresh)"
    and others: "\<forall>sid' e. \<not> active live hfield r t (up_user_id payload) s sid' (Inl e)"
    and order: "visits hfield r t (up_user_id payload) s' order"
  shows "fst (is_access_token_valid ops r t (up_user_id payload) access order s')"
proof -
  let ?uid = "up_user_id payload" and ?x = "issued_session r now sid access refresh"
  have "t \<le> now + max (ut_access_expires r) (ut_refresh_expires r)" using assms(6) by simp
  note act = issued_session_active [OF assms(1-5) this ok]
  then have new: "active live hfield r t ?uid s' sid (Inr ?x)" and acc: "access \<noteq> []" and inv: "inv s'"
    by blast+
  have "\<not> active live hfield r t ?uid s' sid' (Inl e)" for sid' e
  proof (cases "sid' = sid")
    case True
    with new show ?thesis by (auto simp: active_def)
  next
    case False
    with act others show ?thesis by blast
  qed
  note valid = access_token_valid_iff_gen [OF inv order acc this]
  have "session_accepts t access ?x"
    using assms(6) by (simp add: session_accepts_def issued_session_def unix_nano_def)
  with new show ?thesis unfolding valid by blast
qed

end

subsection \<open>Properties over the memory cache\<close>

text \<open>\<open>IsAccessTokenValid\<close> is exact: a token is accepted if and only if it is the user's current session-less token, or
  the unexpired access token, or the unexpired previous token, of a session that is in the index and whose
  marker has not been revoked or expired.\<close>

theorem access_token_valid_iff:
  assumes "mem_inv s" and "visits mem_hfield r now uid s order" and "token \<noteq> []"
    and "\<forall>sid e. \<not> active mem_live mem_hfield r now uid s sid (Inl e)"
  shows "fst (is_access_token_valid memory_ops r now uid token order s) \<longleftrightarrow>
    mem_live s now (make_access_key r uid) = Some token \<or>
    (\<exists>sid x. active mem_live mem_hfield r now uid s sid (Inr x) \<and> session_accepts now token x)"
  using mc.access_token_valid_iff_gen [OF assms(1-3)] assms(4) by blast

text \<open>A freshly issued access token is valid at every instant until it expires, whatever the cache held before.\<close>

theorem issued_token_valid:
  assumes "mem_inv s" and "0 \<le> now" and "sid \<noteq> []"
    and "generate_token_for_session memory_ops r now uuid ruuid payload sid s = (Inr (access, refresh), s')"
    and "now \<le> t" and "t < now + ut_access_expires r"
    and "session_ok (issued_session r now sid access refresh)"
    and "\<forall>sid' e. \<not> active mem_live mem_hfield r t (up_user_id payload) s sid' (Inl e)"
    and "visits mem_hfield r t (up_user_id payload) s' order"
  shows "fst (is_access_token_valid memory_ops r t (up_user_id payload) access order s')"
  using assms by (rule mc.issued_valid_gen)

definition sample_config :: ut_config where
  "sample_config = \<lparr>ut_access_prefix = ''a'', ut_refresh_prefix = ''r'', ut_access_expires = 100, ut_refresh_expires = 200,
     ut_create_identity = (\<lambda>c. (''jwt'', None))\<rparr>"

lemma sample_apart: "refresh_apart sample_config"
  by (simp add: refresh_apart_def sample_config_def make_refresh_key_def make_session_key_def)

definition sample_login :: "(string \<times> string) res \<times> memory" where
  "sample_login = generate_token_for_session memory_ops sample_config unix_epoch ''u'' ''ref'' empty_payload ''s1'' new_memory"

lemma sample_login_ok: "fst sample_login = Inr (''jwt'', ''ref'')"
  by (simp add: sample_login_def generate_token_for_session_def create_access_jwt_def sample_config_def
      save_token_session_def mem_set_def mem_hset_def new_memory_def empty_session_def Let_def go_simps)

lemma sample_visits: "visits mem_hfield sample_config t (up_user_id empty_payload) (snd sample_login) [''s1'']"
  by (simp add: sample_login_def generate_token_for_session_def create_access_jwt_def sample_config_def empty_payload_def
      save_token_session_def mem_set_def mem_hset_def new_memory_def empty_session_def visits_def mem_hfield_def Let_def go_simps)

lemma sample_none: "\<not> active mem_live mem_hfield r t uid new_memory sid x"
  by (simp add: active_def new_memory_def mem_live_def)

theorem issued_token_valid_witness:
  "fst (is_access_token_valid memory_ops sample_config (unix_epoch + 50) (up_user_id empty_payload) ''jwt'' [''s1''] (snd sample_login))"
proof (rule issued_token_valid [OF new_memory_inv])
  show "generate_token_for_session memory_ops sample_config unix_epoch ''u'' ''ref'' empty_payload ''s1'' new_memory =
      (Inr (''jwt'', ''ref''), snd sample_login)"
    using sample_login_ok by (simp add: sample_login_def prod_eq_iff)
  show "visits mem_hfield sample_config (unix_epoch + 50) (up_user_id empty_payload) (snd sample_login) [''s1'']"
    by (rule sample_visits)
qed (simp_all add: sample_none sample_config_def session_ok_def issued_session_def empty_session_def
       ascii_def unix_nano_def in_int64_def, simp add: unix_epoch_def)



text \<open>Rotation with grace: after a refresh the old access token is accepted exactly until the earlier of its own
  expiry and one minute later, the new one until its expiry, and no other token of the session survives.\<close>

theorem rotation_grace:
  assumes "ts_access x \<noteq> []" and "ts_access x \<noteq> new"
  shows "session_accepts t token (rotate_access r now new x) =
    (if token = new then t < now + ut_access_expires r
     else if token = ts_access x then unix_nano t < ts_access_expires x \<and> t < now + minute
     else False)"
  using assms
  by (auto simp: session_accepts_def rotate_access_def access_token_grace_period_def unix_nano_def Let_def)

theorem rotation_grace_witness:
  "session_accepts (unix_epoch + 3) ''old'' (rotate_access sample_config unix_epoch ''new''
      (empty_session\<lparr>ts_access := ''old'', ts_access_expires := 5\<rparr>)) =
    (if ''old'' = ''new'' then unix_epoch + 3 < unix_epoch + ut_access_expires sample_config
     else if ''old'' = ts_access (empty_session\<lparr>ts_access := ''old'', ts_access_expires := 5\<rparr>)
     then unix_nano (unix_epoch + 3) < ts_access_expires (empty_session\<lparr>ts_access := ''old'', ts_access_expires := 5\<rparr>) \<and>
       unix_epoch + 3 < unix_epoch + minute
     else False)"
  by (rule rotation_grace) simp_all

theorem access_token_valid_iff_witness:
  "fst (is_access_token_valid memory_ops sample_config 50 0 ''jwt'' [] new_memory) \<longleftrightarrow>
    mem_live new_memory 50 (make_access_key sample_config 0) = Some ''jwt'' \<or>
    (\<exists>sid x. active mem_live mem_hfield sample_config 50 0 new_memory sid (Inr x) \<and> session_accepts 50 ''jwt'' x)"
  by (rule access_token_valid_iff)
     (simp_all add: sample_none visits_def, simp add: mem_hfield_def new_memory_def)

end
