(* ===== verification/Hmac_Auth.thy ===== *)
theory Hmac_Auth
  imports Auth_Claims
begin

text \<open>
  The request-bound HMAC authenticator of auth/authn/engine/hmac/hmac.go: the token format, the canonical
  request, creation and verification, and the in-process nonce store that stops replays.

  Parameters: \<open>mac\<close> is HMAC-SHA256 (secret, message), \<open>sha\<close> SHA-256, both as byte strings; the encodings of a
  request (\<open>proto.Marshal\<close>, \<open>json.Marshal\<close>, reading a body) and the results of net/url are
  data of the modelled request; the bearer token found in the context is an argument.
\<close>

subsection \<open>Errors\<close>

definition err_missing_secret :: go_err where "err_missing_secret = Sentinel ''hmac: secret is required''"
definition err_missing_subject :: go_err where "err_missing_subject = Sentinel ''hmac: subject is required''"
definition err_missing_transport :: go_err where "err_missing_transport = Sentinel ''hmac: kratos transport is required''"
definition err_invalid_transport :: go_err where "err_invalid_transport = Sentinel ''hmac: invalid kratos transport''"
definition err_token_replayed :: go_err where "err_token_replayed = Sentinel ''hmac: token has already been used''"
definition err_missing_bearer :: go_err where "err_missing_bearer = Sentinel ''missing bearer token''"
definition err_invalid_token :: go_err where "err_invalid_token = Sentinel ''invalid bearer token''"
definition err_token_expired :: go_err where "err_token_expired = Sentinel ''token expired''"
definition err_unauthenticated :: go_err where "err_unauthenticated = Sentinel ''unauthenticated''"

subsection \<open>The nonce store\<close>

type_synonym replay_store = "string \<rightharpoonup> gotime"

definition replay_clean :: "gotime \<Rightarrow> replay_store \<Rightarrow> replay_store" where
  "replay_clean now m k = (case m k of None \<Rightarrow> None | Some e \<Rightarrow> if e < now then None else Some e)"

definition memory_consume :: "go_err option \<Rightarrow> gotime \<Rightarrow> string \<Rightarrow> gotime \<Rightarrow> replay_store \<Rightarrow> bool res \<times> replay_store" where
  "memory_consume ctx_err now key expires m =
     (case ctx_err of Some e \<Rightarrow> (Inl e, m)
      | None \<Rightarrow>
          (let m' = replay_clean now m in
           if (case m' key of None \<Rightarrow> False | Some e \<Rightarrow> \<not> e < now) then (Inr False, m')
           else (Inr True, m'(key \<mapsto> expires))))"

subsection \<open>Requests\<close>

record http_url =
  u_escaped_path :: string
  u_query_encoded :: string

record http_request =
  hr_method :: string
  hr_url :: "http_url option"
  hr_body :: "string res option"

datatype transporter = HttpTransport "http_request option" | HttpOther | GrpcTransport string | OtherTransport

datatype request = HttpReq "http_request option" | ProtoMsg "string res" | JsonReq "string res"

definition http_request_target :: "http_request option \<Rightarrow> (string \<times> string \<times> string) res" where
  "http_request_target request =
     (case request of None \<Rightarrow> Inl err_invalid_transport
      | Some h \<Rightarrow> (case hr_url h of None \<Rightarrow> Inl err_invalid_transport
          | Some u \<Rightarrow> Inr (hr_method h, if u_escaped_path u = [] then ''/'' else u_escaped_path u, u_query_encoded u)))"

text \<open>The transport of the context: the server's, or the client's.\<close>

definition request_target :: "transporter option \<Rightarrow> transporter option \<Rightarrow> (string \<times> string \<times> string) res" where
  "request_target server client =
     (case (case server of Some t \<Rightarrow> Some t | None \<Rightarrow> client) of
        None \<Rightarrow> Inl err_missing_transport
      | Some (HttpTransport h) \<Rightarrow> http_request_target h
      | Some HttpOther \<Rightarrow> Inl err_invalid_transport
      | Some (GrpcTransport operation) \<Rightarrow> if operation = [] then Inl err_invalid_transport else Inr (''POST'', operation, [])
      | Some OtherTransport \<Rightarrow> Inl err_invalid_transport)"

definition request_digest :: "(string \<Rightarrow> string) \<Rightarrow> request \<Rightarrow> string res" where
  "request_digest sha request =
     (case (case request of
         HttpReq h \<Rightarrow> (case h of None \<Rightarrow> Inr []
           | Some h \<Rightarrow> (case hr_body h of None \<Rightarrow> Inr []
               | Some (Inl e) \<Rightarrow> Inl (WrapErr ''hmac: read request body'' e)
               | Some (Inr b) \<Rightarrow> Inr b))
       | ProtoMsg enc \<Rightarrow> (case enc of Inl e \<Rightarrow> Inl (WrapErr ''hmac: encode request'' e) | Inr b \<Rightarrow> Inr b)
       | JsonReq enc \<Rightarrow> (case enc of Inl e \<Rightarrow> Inl (WrapErr ''hmac: encode request'' e) | Inr b \<Rightarrow> Inr b)) of
        Inl e \<Rightarrow> Inl e
      | Inr data \<Rightarrow> Inr (hex_encode (sha data)))"

definition canonical_request :: "(string \<Rightarrow> string) \<Rightarrow> transporter option \<Rightarrow> transporter option \<Rightarrow> request \<Rightarrow> string res" where
  "canonical_request sha server client request =
     (case (case request_target server client of
         Inl e \<Rightarrow>
           if \<not> errors_is e ''hmac: kratos transport is required'' then Inl e
           else (case request of HttpReq h \<Rightarrow> http_request_target h | _ \<Rightarrow> Inl e)
       | Inr t \<Rightarrow> Inr t) of
        Inl e \<Rightarrow> Inl e
      | Inr (meth, path, query) \<Rightarrow>
          (case request_digest sha request of
             Inl e \<Rightarrow> Inl e
           | Inr digest \<Rightarrow> Inr (str_join [meth, path, query, digest] [CHR 0x0A])))"

subsection \<open>Tokens\<close>

definition parse_token :: "string \<Rightarrow> (string \<times> string \<times> string \<times> string) res" where
  "parse_token token =
     (case split_byte token (CHR ''.'') of
        [a, b, c, d] \<Rightarrow>
          if a = [] \<or> b = [] \<or> c = [] \<or> d = [] then Inl err_invalid_token else Inr (a, b, c, d)
      | _ \<Rightarrow> Inl err_invalid_token)"

definition sign :: "(string \<Rightarrow> string \<Rightarrow> string) \<Rightarrow> string \<Rightarrow> string \<Rightarrow> string \<Rightarrow> string \<Rightarrow> string \<Rightarrow> string" where
  "sign mac secret key_id timestamp nonce canonical =
     hex_encode (mac secret (key_id @ ''.'' @ timestamp @ ''.'' @ nonce @ [CHR 0x0A] @ canonical))"

definition subtle_equal :: "string \<Rightarrow> string \<Rightarrow> bool" where
  "subtle_equal actual expected = (actual = expected)"

record hmac_options =
  ho_secrets :: "string \<rightharpoonup> string"
  ho_resolver :: "(string \<Rightarrow> string option) option"
  ho_max_skew :: duration

definition hmac_secret :: "hmac_options \<Rightarrow> string \<Rightarrow> string option" where
  "hmac_secret opts key_id = (case ho_resolver opts of Some f \<Rightarrow> f key_id | None \<Rightarrow> ho_secrets opts key_id)"

text \<open>\<open>time.Unix(ts, 0)\<close>.\<close>

definition token_time :: "int \<Rightarrow> gotime" where
  "token_time ts = of_unix_nano (ts * 1000000000)"

definition hmac_create :: "(string \<Rightarrow> string \<Rightarrow> string) \<Rightarrow> (string \<Rightarrow> string) \<Rightarrow> hmac_options \<Rightarrow> gotime \<Rightarrow> auth_claims
    \<Rightarrow> transporter option \<Rightarrow> transporter option \<Rightarrow> request \<Rightarrow> string res \<Rightarrow> string res" where
  "hmac_create mac sha opts now claims server client request nonce_result =
     (case get_subject claims of
        Inl e \<Rightarrow> Inl e
      | Inr key_id \<Rightarrow>
          if key_id = [] then Inl err_missing_subject
          else (case hmac_secret opts key_id of
              None \<Rightarrow> Inl err_missing_secret
            | Some secret \<Rightarrow>
                (case canonical_request sha server client request of
                   Inl e \<Rightarrow> Inl e
                 | Inr canonical \<Rightarrow>
                     (case nonce_result of
                        Inl e \<Rightarrow> Inl (WrapErr ''hmac: create nonce'' e)
                      | Inr nonce \<Rightarrow>
                          if nonce = [] \<or> CHR ''.'' \<in> set nonce then Inl err_invalid_token
                          else (let timestamp = show_int (unix_nano now div second) in
                            Inr (key_id @ ''.'' @ timestamp @ ''.'' @ nonce @ ''.'' @
                              sign mac secret key_id timestamp nonce canonical))))))"

text \<open>\<open>Authenticate\<close> up to the signature check, and then the nonce.\<close>

definition hmac_verify :: "(string \<Rightarrow> string \<Rightarrow> string) \<Rightarrow> (string \<Rightarrow> string) \<Rightarrow> hmac_options \<Rightarrow> gotime \<Rightarrow> string
    \<Rightarrow> transporter option \<Rightarrow> transporter option \<Rightarrow> request \<Rightarrow> (string \<times> string \<times> gotime) res" where
  "hmac_verify mac sha opts now token server client request =
     (case parse_token token of
        Inl e \<Rightarrow> Inl err_invalid_token
      | Inr (key_id, timestamp, nonce, signature) \<Rightarrow>
          (case parse_int64 timestamp of
             None \<Rightarrow> Inl err_invalid_token
           | Some ts \<Rightarrow>
               (let skew = time_sub now (token_time ts) in
                if skew < - ho_max_skew opts \<or> ho_max_skew opts < skew then Inl err_token_expired
                else (case hmac_secret opts key_id of
                    None \<Rightarrow> Inl err_unauthenticated
                  | Some secret \<Rightarrow>
                      (case canonical_request sha server client request of
                         Inl e \<Rightarrow> Inl e
                       | Inr canonical \<Rightarrow>
                           if \<not> subtle_equal signature (sign mac secret key_id timestamp nonce canonical)
                           then Inl err_unauthenticated
                           else Inr (key_id, nonce, token_time ts))))))"

definition hmac_authenticate :: "(string \<Rightarrow> string \<Rightarrow> string) \<Rightarrow> (string \<Rightarrow> string) \<Rightarrow> hmac_options
    \<Rightarrow> (string \<Rightarrow> gotime \<Rightarrow> 's \<Rightarrow> bool res \<times> 's) \<Rightarrow> gotime \<Rightarrow> string option
    \<Rightarrow> transporter option \<Rightarrow> transporter option \<Rightarrow> request \<Rightarrow> 's \<Rightarrow> auth_claims res \<times> 's" where
  "hmac_authenticate mac sha opts consume now bearer server client request s =
     (case bearer of
        None \<Rightarrow> (Inl err_missing_bearer, s)
      | Some token \<Rightarrow>
          (case hmac_verify mac sha opts now token server client request of
             Inl e \<Rightarrow> (Inl e, s)
           | Inr (key_id, nonce, t) \<Rightarrow>
               (case consume (key_id @ [CHR 0x00] @ nonce) (t + ho_max_skew opts) s of
                  (Inl e, s') \<Rightarrow> (Inl (WrapErr ''hmac: consume nonce'' e), s')
                | (Inr consumed, s') \<Rightarrow>
                    if \<not> consumed then (Inl err_token_replayed, s')
                    else (Inr [''sub'' \<mapsto> CString key_id], s'))))"

subsection \<open>Verification\<close>

lemma subtle_equal_iff [simp]: "subtle_equal a b = (a = b)"
  by (simp add: subtle_equal_def)

lemma hex_encode_chars: "c \<in> set (hex_encode s) \<Longrightarrow> hex_value c \<noteq> None"
  by (auto simp: hex_encode_def Let_def less_mult_imp_div_less)

lemma hex_encode_no_dot [simp]: "CHR ''.'' \<notin> set (hex_encode s)"
  using hex_encode_chars [of "CHR ''.''" s] by (auto simp: hex_value_def)

lemma show_int_no_dot [simp]: "CHR ''.'' \<notin> set (show_int x)"
  using show_int_chars [of "CHR ''.''" x] by (auto simp: is_digit_def)

lemma show_int_nonempty [simp]: "show_int x \<noteq> []"
  using show_nat_digits by (auto simp: show_int_def)

lemma parse_token_print:
  assumes "CHR ''.'' \<notin> set a" "CHR ''.'' \<notin> set b" "CHR ''.'' \<notin> set c" "CHR ''.'' \<notin> set d"
    and "a \<noteq> []" "b \<noteq> []" "c \<noteq> []" "d \<noteq> []"
  shows "parse_token (a @ ''.'' @ b @ ''.'' @ c @ ''.'' @ d) = Inr (a, b, c, d)"
  using assms by (simp add: parse_token_def split_byte_append)

lemma split_byte_length: "length (split_byte s c) = Suc (length (filter (\<lambda>x. x = c) s))"
  by (induction s) (auto split: list.splits)

lemma parse_token_dots: "parse_token t = Inr p \<Longrightarrow> length (filter (\<lambda>x. x = CHR ''.'') t) = 3"
  using split_byte_length [of t "CHR ''.''"] by (auto simp: parse_token_def split: list.splits if_splits)

lemma hmac_verify_iff:
  "hmac_verify mac sha opts now token server client request = Inr (key_id, nonce, t) \<longleftrightarrow>
    (\<exists>timestamp signature ts secret canonical.
       parse_token token = Inr (key_id, timestamp, nonce, signature) \<and> parse_int64 timestamp = Some ts \<and>
       - ho_max_skew opts \<le> time_sub now (token_time ts) \<and> time_sub now (token_time ts) \<le> ho_max_skew opts \<and>
       hmac_secret opts key_id = Some secret \<and>
       canonical_request sha server client request = Inr canonical \<and>
       signature = sign mac secret key_id timestamp nonce canonical \<and> t = token_time ts)"
proof (cases "parse_token token")
  case (Inl e)
  then show ?thesis by (simp add: hmac_verify_def)
next
  case (Inr p)
  obtain k ts' n sg where p: "p = (k, ts', n, sg)" by (metis prod_cases4)
  show ?thesis
  proof (cases "parse_int64 ts'")
    case None
    with Inr p show ?thesis by (simp add: hmac_verify_def)
  next
    case (Some ts)
    with Inr p show ?thesis
      by (auto simp: hmac_verify_def Let_def split: sum.splits option.splits)
  qed
qed


text \<open>A token created for a request authenticates that request, as its key, at any instant within the allowed skew of
  the second it was created in, if its nonce has not been used.\<close>

theorem hmac_create_authenticate:
  assumes "hmac_create mac sha opts created claims server client request (Inr nonce) = Inr token"
    and "claims ''sub'' = Some (CString key_id)" and "CHR ''.'' \<notin> set key_id"
    and "\<And>secret msg. mac secret msg \<noteq> []"
    and "in_int64 (unix_nano created div second)"
    and "\<bar>time_sub now (token_time (unix_nano created div second))\<bar> \<le> ho_max_skew opts"
    and "canonical_request sha server' client' request' = canonical_request sha server client request"
    and "fst (consume (key_id @ [CHR 0x00] @ nonce) (token_time (unix_nano created div second) + ho_max_skew opts) s) = Inr True"
  shows "fst (hmac_authenticate mac sha opts consume now (Some token) server' client' request' s) =
    Inr [''sub'' \<mapsto> CString key_id]"
proof -
  let ?ts = "unix_nano created div second"
  from assms(1,2) obtain secret canonical where c: "key_id \<noteq> []" "hmac_secret opts key_id = Some secret"
    "canonical_request sha server client request = Inr canonical" "nonce \<noteq> []" "CHR ''.'' \<notin> set nonce"
    "token = key_id @ ''.'' @ show_int ?ts @ ''.'' @ nonce @ ''.'' @ sign mac secret key_id (show_int ?ts) nonce canonical"
    by (auto simp: hmac_create_def get_subject_def parse_string_def Let_def split: sum.splits option.splits if_splits)
  have "sign mac secret key_id (show_int ?ts) nonce canonical \<noteq> []"
    using assms(4) by (auto simp: sign_def hex_encode_def neq_Nil_conv Let_def)
  with c assms(3) have "parse_token token =
      Inr (key_id, show_int ?ts, nonce, sign mac secret key_id (show_int ?ts) nonce canonical)"
    unfolding c(6) by (intro parse_token_print) (simp_all add: sign_def)
  moreover have canon: "canonical_request sha server' client' request' = Inr canonical"
    using c(3) assms(7) by simp
  moreover have "parse_int64 (show_int ?ts) = Some ?ts"
    using assms(5) by (rule parse_show_int)
  moreover have "- ho_max_skew opts \<le> time_sub now (token_time ?ts)" "time_sub now (token_time ?ts) \<le> ho_max_skew opts"
    using assms(6) by (simp_all add: abs_le_iff)
  ultimately have "hmac_verify mac sha opts now token server' client' request' = Inr (key_id, nonce, token_time ?ts)"
    unfolding hmac_verify_iff using c(2) canon by blast
  with assms(8) show ?thesis
    by (cases "consume (key_id @ [CHR 0x00] @ nonce) (token_time ?ts + ho_max_skew opts) s")
       (simp add: hmac_authenticate_def)
qed

text \<open>A key that contains a dot can never sign in: \<open>CreateIdentityWithContext\<close> creates a token for it without an error, and
  every authenticator rejects that token as malformed.\<close>

theorem dotted_key_never_authenticates:
  assumes "hmac_create mac sha opts created claims server client request (Inr nonce) = Inr token"
    and "claims ''sub'' = Some (CString key_id)" and "CHR ''.'' \<in> set key_id"
  shows "hmac_authenticate mac sha opts' consume now (Some token) server' client' request' s = (Inl err_invalid_token, s)"
proof -
  let ?dots = "\<lambda>t. length (filter (\<lambda>x. x = CHR ''.'') t)"
  from assms(1,2) obtain secret canonical where
    "token = key_id @ ''.'' @ show_int (unix_nano created div second) @ ''.'' @ nonce @ ''.'' @
       sign mac secret key_id (show_int (unix_nano created div second)) nonce canonical"
    by (auto simp: hmac_create_def get_subject_def parse_string_def Let_def split: sum.splits option.splits if_splits)
  then have "?dots token \<ge> 3 + ?dots key_id" by simp
  moreover have "?dots key_id \<noteq> 0" using assms(3) by (simp add: filter_empty_conv)
  ultimately have "parse_token token = Inl err_invalid_token"
    using parse_token_dots [of token] by (auto simp: parse_token_def split: list.splits if_splits)
  then show ?thesis by (simp add: hmac_authenticate_def hmac_verify_def)
qed

subsection \<open>Replays\<close>

text \<open>A sequence of authentications against one in-process store, each at one instant.\<close>

record hmac_attempt =
  ha_time :: gotime
  ha_token :: string
  ha_server :: "transporter option"
  ha_client :: "transporter option"
  ha_request :: request

definition hmac_attempt_step where
  "hmac_attempt_step mac sha opts a m =
     hmac_authenticate mac sha opts (memory_consume None (ha_time a)) (ha_time a) (Some (ha_token a))
       (ha_server a) (ha_client a) (ha_request a) m"

fun hmac_accepted where
  "hmac_accepted mac sha opts token [] m = (0::nat)"
| "hmac_accepted mac sha opts token (a # as) m =
     (let (res, m') = hmac_attempt_step mac sha opts a m in
      (if ha_token a = token \<and> is_ok res then 1 else 0) + hmac_accepted mac sha opts token as m')"

definition nonce_key :: "string \<Rightarrow> string" where
  "nonce_key token = (case parse_token token of Inr (k, t, n, sg) \<Rightarrow> k @ [CHR 0x00] @ n | Inl _ \<Rightarrow> [])"

definition token_deadline :: "hmac_options \<Rightarrow> string \<Rightarrow> gotime" where
  "token_deadline opts token = (case parse_token token of
     Inr (k, t, n, sg) \<Rightarrow> (case parse_int64 t of Some ts \<Rightarrow> token_time ts + ho_max_skew opts | None \<Rightarrow> 0) | Inl _ \<Rightarrow> 0)"

text \<open>The token cannot be accepted from \<open>T\<close> on: its nonce is taken, or its time is over.\<close>

definition spent :: "hmac_options \<Rightarrow> string \<Rightarrow> gotime \<Rightarrow> replay_store \<Rightarrow> bool" where
  "spent opts token T m = (token_deadline opts token < T \<or>
     (\<exists>e. m (nonce_key token) = Some e \<and> token_deadline opts token \<le> e))"

lemma verified_nonce:
  assumes "hmac_verify mac sha opts now token server client request = Inr (key_id, nonce, t)"
    and "ho_max_skew opts < max_int64"
  shows "key_id @ [CHR 0x00] @ nonce = nonce_key token \<and> t + ho_max_skew opts = token_deadline opts token \<and>
    now \<le> token_deadline opts token"
  using assms unfolding hmac_verify_iff
  by (auto simp: nonce_key_def token_deadline_def time_sub_def)

lemma attempt_step_cases:
  assumes "ho_max_skew opts < max_int64"
  obtains (rejected) e where "hmac_attempt_step mac sha opts a m = (Inl e, m)"
  | (consumed) "snd (hmac_attempt_step mac sha opts a m) =
        snd (memory_consume None (ha_time a) (nonce_key (ha_token a)) (token_deadline opts (ha_token a)) m)"
      "is_ok (fst (hmac_attempt_step mac sha opts a m)) =
        (fst (memory_consume None (ha_time a) (nonce_key (ha_token a)) (token_deadline opts (ha_token a)) m) = Inr True)"
      "ha_time a \<le> token_deadline opts (ha_token a)"
proof (cases "hmac_verify mac sha opts (ha_time a) (ha_token a) (ha_server a) (ha_client a) (ha_request a)")
  case (Inl e)
  then show thesis
    by (intro rejected [of e]) (simp add: hmac_attempt_step_def hmac_authenticate_def)
next
  case (Inr p)
  obtain k n t where p: "p = (k, n, t)" by (metis prod_cases3)
  note v = verified_nonce [OF Inr [unfolded p] assms]
  have "hmac_attempt_step mac sha opts a m =
      (case memory_consume None (ha_time a) (nonce_key (ha_token a)) (token_deadline opts (ha_token a)) m of
         (Inl e, s') \<Rightarrow> (Inl (WrapErr ''hmac: consume nonce'' e), s')
       | (Inr consumed, s') \<Rightarrow>
           if \<not> consumed then (Inl err_token_replayed, s') else (Inr [''sub'' \<mapsto> CString k], s'))"
    using Inr p v by (simp add: hmac_attempt_step_def hmac_authenticate_def)
  with v show thesis
    by (intro consumed) (auto split: sum.splits prod.splits)
qed

lemma consume_facts:
  "fst (memory_consume None now k e m) = Inr (\<not> (\<exists>e'. m k = Some e' \<and> now \<le> e'))"
  "snd (memory_consume None now k e m) k' =
     (if k' = k \<and> \<not> (\<exists>e'. m k = Some e' \<and> now \<le> e') then Some e
      else case m k' of None \<Rightarrow> None | Some e' \<Rightarrow> if e' < now then None else Some e')"
  by (auto simp: memory_consume_def replay_clean_def Let_def split: option.splits)

lemma spent_step:
  assumes "ho_max_skew opts < max_int64" and "spent opts token T m" and "T \<le> ha_time a"
  shows "spent opts token (ha_time a) (snd (hmac_attempt_step mac sha opts a m))"
    and "ha_token a = token \<Longrightarrow> \<not> is_ok (fst (hmac_attempt_step mac sha opts a m))"
proof -
  have sp: "spent opts token (ha_time a) m" using assms(2,3) by (auto simp: spent_def)
  show "spent opts token (ha_time a) (snd (hmac_attempt_step mac sha opts a m))"
  proof (cases rule: attempt_step_cases [OF assms(1), of mac sha a m, case_names rejected consumed])
    case (rejected e)
    with sp show ?thesis by simp
  next
    case consumed
    show ?thesis
    proof (cases "token_deadline opts token < ha_time a")
      case True
      then show ?thesis by (simp add: spent_def)
    next
      case False
      with sp obtain e where "m (nonce_key token) = Some e" "token_deadline opts token \<le> e"
        by (auto simp: spent_def)
      with False show ?thesis
        unfolding spent_def consumed(1) consume_facts(2) by auto
    qed
  qed
  show "\<not> is_ok (fst (hmac_attempt_step mac sha opts a m))" if "ha_token a = token"
  proof (cases rule: attempt_step_cases [OF assms(1), of mac sha a m, case_names rejected consumed])
    case (rejected e)
    then show ?thesis by simp
  next
    case consumed
    with sp that show ?thesis
      by (auto simp: spent_def consume_facts(1))
  qed
qed

lemma spent_never:
  assumes "ho_max_skew opts < max_int64" and "spent opts token T m"
    and "sorted (map ha_time as)" and "\<forall>a \<in> set as. T \<le> ha_time a"
  shows "hmac_accepted mac sha opts token as m = 0"
  using assms(2-)
proof (induction as arbitrary: T m)
  case (Cons a as)
  then have "T \<le> ha_time a" by simp
  note st = spent_step [OF assms(1) Cons.prems(1) this, of mac sha]
  from Cons.IH [OF st(1)] Cons.prems st(2) show ?case
    by (auto simp: split_def Let_def)
qed simp


definition sample_hmac :: hmac_options where
  "sample_hmac = \<lparr>ho_secrets = [''k'' \<mapsto> ''s''], ho_resolver = None, ho_max_skew = minute\<rparr>"

definition sample_request :: request where "sample_request = JsonReq (Inr ''{}'')"

definition sample_attempt :: "gotime \<Rightarrow> string \<Rightarrow> hmac_attempt" where
  "sample_attempt t token = \<lparr>ha_time = t, ha_token = token, ha_server = Some (GrpcTransport ''/op''), ha_client = None,
     ha_request = sample_request\<rparr>"


theorem hmac_create_authenticate_witness:
  "fst (hmac_authenticate (\<lambda>s m. ''x'') (\<lambda>s. ''y'') sample_hmac (memory_consume None unix_epoch) unix_epoch
      (Some ''k.0.n.78'') (Some (GrpcTransport ''/op'')) None sample_request Map.empty) = Inr [''sub'' \<mapsto> CString ''k'']"
proof (rule hmac_create_authenticate [where claims = "[''sub'' \<mapsto> CString ''k'']" and created = unix_epoch and nonce = "''n''"
      and server = "Some (GrpcTransport ''/op'')" and client = None and request = sample_request])
  show "hmac_create (\<lambda>s m. ''x'') (\<lambda>s. ''y'') sample_hmac unix_epoch [''sub'' \<mapsto> CString ''k''] (Some (GrpcTransport ''/op''))
      None sample_request (Inr ''n'') = Inr ''k.0.n.78''"
    by (simp add: hmac_create_def get_subject_def parse_string_def sample_hmac_def hmac_secret_def canonical_request_def
        request_target_def sample_request_def request_digest_def sign_def hex_encode_def unix_nano_def
        show_int_def show_nat.simps Let_def)
qed (simp_all add: sample_hmac_def unix_nano_def in_int64_def token_time_def of_unix_nano_def time_sub_def max_int64_def
       consume_facts go_simps)

theorem dotted_key_never_authenticates_witness:
  "hmac_authenticate (\<lambda>s m. ''x'') (\<lambda>s. ''y'') sample_hmac (memory_consume None unix_epoch) unix_epoch
      (Some ''a.b.0.n.78'') None None sample_request Map.empty = (Inl err_invalid_token, Map.empty)"
proof (rule dotted_key_never_authenticates [where claims = "[''sub'' \<mapsto> CString ''a.b'']" and created = unix_epoch and nonce = "''n''"
      and server = "Some (GrpcTransport ''/op'')" and client = None and request = sample_request
      and opts = "sample_hmac\<lparr>ho_secrets := [''a.b'' \<mapsto> ''s'']\<rparr>"])
  show "hmac_create (\<lambda>s m. ''x'') (\<lambda>s. ''y'') (sample_hmac\<lparr>ho_secrets := [''a.b'' \<mapsto> ''s'']\<rparr>) unix_epoch
      [''sub'' \<mapsto> CString ''a.b''] (Some (GrpcTransport ''/op'')) None sample_request (Inr ''n'') = Inr ''a.b.0.n.78''"
    by (simp add: hmac_create_def get_subject_def parse_string_def sample_hmac_def hmac_secret_def canonical_request_def
        request_target_def sample_request_def request_digest_def sign_def hex_encode_def unix_nano_def
        show_int_def show_nat.simps Let_def)
  show "CHR ''.'' \<in> set ''a.b''" by code_simp
qed simp_all

text \<open>The nonce store relies on its callers reaching it in the order of their clock readings: an authentication that read
  the clock just before the deadline and gets the lock after one that read it just after accepts a
  used nonce again.\<close>

theorem stale_clock_replays:
  "let (r1, m1) = memory_consume None 10 ''k'' 20 Map.empty;
       (r2, m2) = memory_consume None 21 ''other'' 30 m1;
       (r3, m3) = memory_consume None 20 ''k'' 20 m2
   in r1 = Inr True \<and> r3 = Inr True"
  by (simp add: memory_consume_def replay_clean_def)

end
