(* ===== verification/Session_Store.thy ===== *)
theory Session_Store
  imports Auth_Claims
begin

text \<open>
  The session authenticator of auth/authn/engine/session/session.go and its in-memory store, each store method
  one step under the mutex. Claims are deep-copied in and out of the store (\<open>cloneClaims\<close>): on values
  the copy is the value itself, which is what \<open>clone_value_id\<close> says of the recursion. A random
  session id, or the error of the random source, is an argument.
\<close>

definition err_missing_session_id :: go_err where "err_missing_session_id = Sentinel ''session: session id is required''"
definition err_session_not_found :: go_err where "err_session_not_found = Sentinel ''session: session not found''"

subsection \<open>Copying claims\<close>

fun clone_value :: "claim_value \<Rightarrow> claim_value" where
  "clone_value (CList vs) = CList (map clone_value vs)"
| "clone_value (CMap ms) = CMap (map (\<lambda>(k, v). (k, clone_value v)) ms)"
| "clone_value (CStrings ss) = CStrings (map (\<lambda>s. s) ss)"
| "clone_value v = v"

definition clone_claims :: "(string, claim_value) gomap \<Rightarrow> (string, claim_value) gomap" where
  "clone_claims c = (case c of None \<Rightarrow> None | Some m \<Rightarrow> Some (\<lambda>k. map_option clone_value (m k)))"

lemma clone_value_id [simp]: "clone_value v = v"
  by (induction v rule: clone_value.induct) (auto intro: map_idI)

lemma map_clone_id [simp]: "map_option clone_value x = x"
  by (cases x) simp_all

lemma clone_claims_id [simp]: "clone_claims c = c"
  by (cases c) (simp_all add: clone_claims_def)

subsection \<open>The store\<close>

record memory_session =
  ms_claims :: "(string, claim_value) gomap"
  ms_expires_at :: gotime

type_synonym session_map = "string \<rightharpoonup> memory_session"

definition session_get :: "gotime \<Rightarrow> string \<Rightarrow> session_map \<Rightarrow> (string, claim_value) gomap option \<times> session_map" where
  "session_get now sid m =
     (case m sid of
        None \<Rightarrow> (None, m)
      | Some session \<Rightarrow>
          if ms_expires_at session \<le> now then (None, m(sid := None))
          else (Some (clone_claims (ms_claims session)), m))"

definition session_set :: "gotime \<Rightarrow> string res \<Rightarrow> string \<Rightarrow> (string, claim_value) gomap \<Rightarrow> duration \<Rightarrow> session_map
    \<Rightarrow> string res \<times> session_map" where
  "session_set now fresh sid claims ttl m =
     (case (if sid = [] then fresh else Inr sid) of
        Inl e \<Rightarrow> (Inl e, m)
      | Inr sid' \<Rightarrow> (Inr sid', m(sid' \<mapsto> \<lparr>ms_claims = clone_claims claims, ms_expires_at = now + ttl\<rparr>)))"

definition session_delete :: "string \<Rightarrow> session_map \<Rightarrow> session_map" where
  "session_delete sid m = m(sid := None)"

subsection \<open>The authenticator\<close>

text \<open>\<open>authenticate\<close> over any store: \<open>get\<close> is its \<open>Get\<close>.\<close>

definition session_authenticate :: "(string \<Rightarrow> 's \<Rightarrow> (string, claim_value) gomap option res \<times> 's) \<Rightarrow> string \<Rightarrow> 's
    \<Rightarrow> (string, claim_value) gomap res \<times> 's" where
  "session_authenticate get sid s =
     (if sid = [] then (Inl err_missing_session_id, s)
      else (case get sid s of
          (Inl e, s') \<Rightarrow> (Inl e, s')
        | (Inr None, s') \<Rightarrow> (Inl err_session_not_found, s')
        | (Inr (Some claims), s') \<Rightarrow> (Inr claims, s')))"

definition memory_get :: "gotime \<Rightarrow> string \<Rightarrow> session_map \<Rightarrow> (string, claim_value) gomap option res \<times> session_map" where
  "memory_get now sid m = apfst Inr (session_get now sid m)"

text \<open>The id a request carries: from the context, else from the transport header or the gRPC metadata.\<close>

definition session_id_from_transport :: "bool \<Rightarrow> (string \<Rightarrow> string) option \<Rightarrow> (string \<Rightarrow> string list) option \<Rightarrow> string \<Rightarrow> string" where
  "session_id_from_transport kratos_metadata server incoming header =
     (case (if kratos_metadata then server else None) of
        Some h \<Rightarrow> h header
      | None \<Rightarrow> (case incoming of None \<Rightarrow> []
          | Some md \<Rightarrow> (case md header of [] \<Rightarrow> [] | v # vs \<Rightarrow> v)))"

definition session_authenticate_request where
  "session_authenticate_request get ctx_sid kratos_metadata server incoming header s =
     (let sid = (if ctx_sid = [] then session_id_from_transport kratos_metadata server incoming header else ctx_sid) in
      if sid = [] then (Inl err_missing_session_id, s) else session_authenticate get sid s)"

definition session_create_identity :: "gotime \<Rightarrow> string res \<Rightarrow> (string, claim_value) gomap \<Rightarrow> duration \<Rightarrow> session_map
    \<Rightarrow> string res \<times> session_map" where
  "session_create_identity now fresh claims ttl m = session_set now fresh [] claims ttl m"

subsection \<open>Sessions against a timed map\<close>

text \<open>The specification collects nothing: a session is there from its last write until its deadline or deletion.\<close>

datatype session_op = SSet string "(string, claim_value) gomap" duration | SAuth string | SDelete string

datatype session_reply = ROk | RId string | RClaims "(string, claim_value) gomap" | RErr go_err

definition reply_res :: "('a \<Rightarrow> session_reply) \<Rightarrow> 'a res \<Rightarrow> session_reply" where
  "reply_res f r = (case r of Inl e \<Rightarrow> RErr e | Inr x \<Rightarrow> f x)"

fun session_step :: "gotime \<Rightarrow> session_op \<Rightarrow> session_map \<Rightarrow> session_reply \<times> session_map" where
  "session_step now (SSet sid c ttl) m = apfst (reply_res RId) (session_set now (Inl err_missing_session_id) sid c ttl m)"
| "session_step now (SAuth sid) m = apfst (reply_res RClaims) (session_authenticate (memory_get now) sid m)"
| "session_step now (SDelete sid) m = (ROk, session_delete sid m)"

fun session_spec :: "gotime \<Rightarrow> session_op \<Rightarrow> session_map \<Rightarrow> session_reply \<times> session_map" where
  "session_spec now (SSet sid c ttl) m =
     (if sid = [] then (RErr err_missing_session_id, m)
      else (RId sid, m(sid \<mapsto> \<lparr>ms_claims = c, ms_expires_at = now + ttl\<rparr>)))"
| "session_spec now (SAuth sid) m =
     ((if sid = [] then RErr err_missing_session_id
       else case m sid of
         Some x \<Rightarrow> if now < ms_expires_at x then RClaims (ms_claims x) else RErr err_session_not_found
       | None \<Rightarrow> RErr err_session_not_found), m)"
| "session_spec now (SDelete sid) m = (ROk, m(sid := None))"

fun session_run where
  "session_run step [] m = []"
| "session_run step ((now, opn) # ops) m = (let (r, m') = step now opn m in r # session_run step ops m')"

text \<open>The two maps agree on what is not expired at \<open>T\<close>.\<close>

definition same_until :: "gotime \<Rightarrow> session_map \<Rightarrow> session_map \<Rightarrow> bool" where
  "same_until T m m' = (\<forall>sid. m sid = m' sid \<or>
     (m sid = None \<and> (\<exists>x. m' sid = Some x \<and> ms_expires_at x \<le> T)))"

lemma session_step_spec:
  assumes "same_until T m m'" and "T \<le> now"
  shows "fst (session_step now opn m) = fst (session_spec now opn m')"
    and "same_until now (snd (session_step now opn m)) (snd (session_spec now opn m'))"
proof -
  have s: "same_until now m m'" using assms by (fastforce simp: same_until_def)
  have eq: "m sid = m' sid \<or> (m sid = None \<and> (\<exists>x. m' sid = Some x \<and> ms_expires_at x \<le> now))" for sid
    using s by (simp add: same_until_def)
  show "fst (session_step now opn m) = fst (session_spec now opn m')"
  proof (cases opn)
    case (SAuth sid)
    then show ?thesis
      using eq [of sid]
      by (auto simp: session_authenticate_def memory_get_def session_get_def reply_res_def split: option.splits)
  qed (auto simp: session_set_def reply_res_def)
  show "same_until now (snd (session_step now opn m)) (snd (session_spec now opn m'))"
  proof (cases opn)
    case (SSet sid c ttl)
    with s show ?thesis by (auto simp: session_set_def same_until_def)
  next
    case (SAuth sid)
    have "m sid = Some x \<Longrightarrow> m' sid = Some x" for x using eq [of sid] by auto
    with s SAuth show ?thesis
      by (auto simp: session_authenticate_def memory_get_def session_get_def same_until_def split: option.splits)
  next
    case (SDelete sid)
    with s show ?thesis by (auto simp: session_delete_def same_until_def)
  qed
qed

lemma session_run_spec:
  assumes "same_until T m m'" and "sorted (map fst ops)" and "\<forall>x \<in> set ops. T \<le> fst x"
  shows "session_run session_step ops m = session_run session_spec ops m'"
  using assms
proof (induction ops arbitrary: T m m')
  case (Cons p ops)
  obtain now opn where p: "p = (now, opn)" by (cases p)
  with Cons.prems have "T \<le> now" by simp
  note st = session_step_spec [OF Cons.prems(1) this, of opn]
  have "session_run session_step ops (snd (session_step now opn m)) = session_run session_spec ops (snd (session_spec now opn m'))"
    using Cons.prems p by (intro Cons.IH [OF st(2)]) auto
  with st(1) show ?case by (simp add: p split_def Let_def)
qed simp

text \<open>In any sequence of session writes, authentications and deletions at non-decreasing instants, a session id
  authenticates exactly from its last write until its deadline or its deletion, with the claims of that
  write; the lazy collection of expired sessions is not observable.\<close>

theorem session_store_refines_timed_map:
  assumes "sorted (map fst ops)"
  shows "session_run session_step ops m = session_run session_spec ops m"
proof (cases ops)
  case (Cons p ps)
  with assms have "\<forall>x \<in> set ops. fst p \<le> fst x" by auto
  with assms show ?thesis
    by (intro session_run_spec [of "fst p"]) (auto simp: same_until_def)
qed simp

theorem session_store_refines_timed_map_witness:
  "session_run session_step [(1, SSet ''s'' (Some [''sub'' \<mapsto> CString ''u'']) 5), (5, SAuth ''s''), (6, SAuth ''s''), (7, SAuth ''s'')] Map.empty =
    [RId ''s'', RClaims (Some [''sub'' \<mapsto> CString ''u'']), RErr err_session_not_found, RErr err_session_not_found]"
  using session_store_refines_timed_map [of "[(1, SSet ''s'' (Some [''sub'' \<mapsto> CString ''u'']) 5), (5, SAuth ''s''), (6, SAuth ''s''), (7, SAuth ''s'')]" Map.empty]
  by simp

end
