(* ===== verification/Auth_Pipeline.thy ===== *)
theory Auth_Pipeline
  imports User_Token
begin

text \<open>
  The request pipeline: the authentication middleware (auth/authn/middleware/authn.go), the bridge between
  authentication and authorization (auth/auth.go), the authorization middleware (auth/authz/middleware/authz.go) and
  their composition with the white lists (auth/jwt.go).

  A handler takes the request context and the state of the token cache; a middleware turns a handler into a handler.
  The authenticator, the authorizer and the regular expressions are arguments, collected in \<open>auth_env\<close> with the
  token manager, the instant of the request and the visiting order of its session map.
\<close>

subsection \<open>Contexts and handlers\<close>

record transport =
  tr_operation :: string
  tr_authorization :: string

text \<open>The claims of auth/authz/engine/claims.go; \<open>None\<close> is a nil pointer.\<close>

record authz_claims =
  az_subjects :: "string list option"
  az_tenant :: "string option"
  az_tenants :: "string list option"
  az_subject :: "string option"
  az_action :: "string option"
  az_resource :: "string option"
  az_project :: "string option"

text \<open>What the middlewares read and write of a request context. \<open>cx_authn\<close> is the stored pointer, which may be nil.\<close>

record auth_ctx =
  cx_transport :: "transport option"
  cx_authn :: "auth_claims option option"
  cx_authz :: "authz_claims option"

type_synonym ('s, 'b) handler = "auth_ctx \<Rightarrow> 's \<Rightarrow> 'b res \<times> 's"

record 's auth_env =
  au_authenticate :: "auth_ctx \<Rightarrow> auth_claims option res"
  au_authorize :: "string \<Rightarrow> string \<Rightarrow> string \<Rightarrow> string \<Rightarrow> string \<Rightarrow> bool res"
  au_regex :: "string \<Rightarrow> string \<Rightarrow> string option"
  au_ops :: "'s cache_ops"
  au_config :: ut_config
  au_now :: gotime
  au_order :: "string list"
  au_round :: "real \<Rightarrow> real"
  au_overflow :: "int_kind \<Rightarrow> float64 \<Rightarrow> int"

definition err_wrong_context :: go_err where "err_wrong_context = Sentinel ''wrong context for middleware''"
definition err_extract_user_info :: go_err where "err_extract_user_info = Sentinel ''extract user info failed''"
definition err_extract_subject :: go_err where "err_extract_subject = Sentinel ''extract subject failed''"
definition err_extract_tenant :: go_err where "err_extract_tenant = Sentinel ''extract tenant failed''"
definition err_access_token_not_exist :: go_err where "err_access_token_not_exist = Sentinel ''access token do not exists''"
definition err_access_token_expired :: go_err where "err_access_token_expired = Sentinel ''access token expired''"
definition err_authn_unauthorized :: go_err where "err_authn_unauthorized = Sentinel ''unauthorized access (authn)''"
definition err_authz_unauthorized :: go_err where "err_authz_unauthorized = Sentinel ''unauthorized access''"
definition err_missing_claims :: go_err where "err_missing_claims = Sentinel ''missing authz claims''"
definition err_missing_subject :: go_err where "err_missing_subject = Sentinel ''missing authz subject''"
definition err_invalid_claims :: go_err where "err_invalid_claims = Sentinel ''invalid authz claims''"

definition map_authn_error :: "go_err \<Rightarrow> go_err" where
  "map_authn_error e =
     (if errors_is e ''missing bearer token'' then err_access_token_not_exist
      else if errors_is e ''token expired'' then err_access_token_expired
      else err_authn_unauthorized)"

subsection \<open>Authentication\<close>

definition authn_server :: "'s auth_env \<Rightarrow> (go_err \<Rightarrow> go_err) option \<Rightarrow> ('s, 'b) handler \<Rightarrow> ('s, 'b) handler" where
  "authn_server env mapper handler ctx s =
     (case au_authenticate env ctx of
        Inl e \<Rightarrow> (Inl (case mapper of Some f \<Rightarrow> f e | None \<Rightarrow> err_authn_unauthorized), s)
      | Inr claims \<Rightarrow> handler (ctx\<lparr>cx_authn := Some claims\<rparr>) s)"

text \<open>\<open>strings.Fields\<close> on ASCII white space.\<close>

fun str_fields :: "string \<Rightarrow> string list" where
  "str_fields [] = []"
| "str_fields (c # cs) =
     (if c \<in> set ascii_space then str_fields cs
      else case cs of
        [] \<Rightarrow> [[c]]
      | d # _ \<Rightarrow> if d \<in> set ascii_space then [c] # str_fields cs
          else (case str_fields cs of f # fs \<Rightarrow> (c # f) # fs | [] \<Rightarrow> [[c]]))"

definition bearer_of :: "auth_ctx \<Rightarrow> string" where
  "bearer_of ctx =
     (case cx_transport ctx of
        None \<Rightarrow> []
      | Some tr \<Rightarrow> (case str_fields (tr_authorization tr) of
            [scheme, token] \<Rightarrow> if equal_fold scheme ''Bearer'' then token else []
          | _ \<Rightarrow> []))"

definition verify_access_token :: "'s auth_env \<Rightarrow> auth_ctx \<Rightarrow> auth_claims option \<Rightarrow> 's \<Rightarrow> go_err option \<times> 's" where
  "verify_access_token env ctx claims s =
     (case claims of
        None \<Rightarrow> (Some (Panic ''invalid memory address or nil pointer dereference''), s)
      | Some c \<Rightarrow>
          (case get_int_kind (au_round env) (au_overflow env) KInt64 c ''uid'' of
             Inl _ \<Rightarrow> (Some err_extract_user_info, s)
           | Inr uid \<Rightarrow>
               if uid = 0 then (None, s)
               else let (valid, s') = is_access_token_valid (au_ops env) (au_config env) (au_now env) uid (bearer_of ctx) (au_order env) s
                 in (if valid then None else Some err_access_token_expired, s')))"

text \<open>\<open>auth.Server\<close>: from the verified identity to the claims the authorizer decides on.\<close>

definition any_action :: string where "any_action = ''ANY''"

definition auth_server :: "'s auth_env \<Rightarrow> ('s, 'b) handler \<Rightarrow> ('s, 'b) handler" where
  "auth_server env handler ctx s =
     (case cx_transport ctx of
        None \<Rightarrow> (Inl err_wrong_context, s)
      | Some tr \<Rightarrow>
          (case cx_authn ctx of
             None \<Rightarrow> (Inl err_wrong_context, s)
           | Some claims \<Rightarrow>
               (case verify_access_token env ctx claims s of
                  (Some e, s') \<Rightarrow> (Inl e, s')
                | (None, s') \<Rightarrow>
                    (let c = the claims in
                     case get_string c ''tcode'' of
                       Inl _ \<Rightarrow> (Inl err_extract_tenant, s')
                     | Inr tenant \<Rightarrow>
                         if tenant = [] then (Inl err_extract_tenant, s')
                         else (case get_string c ''rcode'' of
                             Inl _ \<Rightarrow> (Inl err_extract_subject, s')
                           | Inr role \<Rightarrow>
                               if role = [] then (Inl err_extract_subject, s')
                               else handler (ctx\<lparr>cx_authz := Some \<lparr>az_subjects = None, az_tenant = Some tenant, az_tenants = None,
                                   az_subject = Some role, az_action = Some any_action, az_resource = Some (tr_operation tr),
                                   az_project = None\<rparr>\<rparr>) s')))))"

definition optional_server :: "'s auth_env \<Rightarrow> ('s, 'b) handler \<Rightarrow> ('s, 'b) handler" where
  "optional_server env handler ctx s =
     (case au_authenticate env ctx of
        Inl _ \<Rightarrow> handler ctx s
      | Inr None \<Rightarrow> handler ctx s
      | Inr (Some c) \<Rightarrow>
          (case verify_access_token env ctx (Some c) s of
             (Some _, s') \<Rightarrow> handler ctx s'
           | (None, s') \<Rightarrow> handler (ctx\<lparr>cx_authn := Some (Some c)\<rparr>) s'))"

subsection \<open>Authorization\<close>

definition make_auth_tenants :: "authz_claims \<Rightarrow> string list" where
  "make_auth_tenants claims =
     (case az_tenant claims of
        Some (c # cs) \<Rightarrow> [c # cs]
      | _ \<Rightarrow> (case az_tenants claims of Some ts \<Rightarrow> filter (\<lambda>t. t \<noteq> []) ts | None \<Rightarrow> []))"

fun is_authorized :: "'s auth_env \<Rightarrow> string list \<Rightarrow> string \<Rightarrow> string \<Rightarrow> string \<Rightarrow> string \<Rightarrow> bool res" where
  "is_authorized env [] subject action resource project = Inr False"
| "is_authorized env (tenant # tenants) subject action resource project =
     (case au_authorize env tenant subject action resource project of
        Inl e \<Rightarrow> Inl e
      | Inr True \<Rightarrow> Inr True
      | Inr False \<Rightarrow> is_authorized env tenants subject action resource project)"

fun any_subject :: "'s auth_env \<Rightarrow> string list \<Rightarrow> string list \<Rightarrow> string \<Rightarrow> string \<Rightarrow> string \<Rightarrow> bool res" where
  "any_subject env tenants [] action resource project = Inr False"
| "any_subject env tenants (subject # subjects) action resource project =
     (case is_authorized env tenants subject action resource project of
        Inl e \<Rightarrow> Inl e
      | Inr True \<Rightarrow> Inr True
      | Inr False \<Rightarrow> any_subject env tenants subjects action resource project)"

definition authz_server :: "'s auth_env \<Rightarrow> ('s, 'b) handler \<Rightarrow> ('s, 'b) handler" where
  "authz_server env handler ctx s =
     (case cx_authz ctx of
        None \<Rightarrow> (Inl err_missing_claims, s)
      | Some claims \<Rightarrow>
          (case (az_action claims, az_resource claims) of
             (Some action, Some resource) \<Rightarrow>
               (let tenants = make_auth_tenants claims; project = (case az_project claims of None \<Rightarrow> [] | Some p \<Rightarrow> p) in
                if tenants = [] then (Inl err_invalid_claims, s)
                else case az_subject claims of
                  Some subject \<Rightarrow>
                    (case is_authorized env tenants subject action resource project of
                       Inl e \<Rightarrow> (Inl e, s)
                     | Inr allowed \<Rightarrow> if allowed then handler ctx s else (Inl err_authz_unauthorized, s))
                | None \<Rightarrow>
                    (case az_subjects claims of
                       Some (subject # subjects) \<Rightarrow>
                         (case any_subject env tenants (subject # subjects) action resource project of
                            Inl e \<Rightarrow> (Inl e, s)
                          | Inr allowed \<Rightarrow> if allowed then handler ctx s else (Inl err_authz_unauthorized, s))
                     | _ \<Rightarrow> (Inl err_missing_subject, s)))
           | _ \<Rightarrow> (Inl err_invalid_claims, s)))"

subsection \<open>White lists\<close>

record white_list =
  wl_prefix :: "string list"
  wl_regex :: "string list"
  wl_path :: "string list"
  wl_match :: "string list"

text \<open>\<open>au_regex env re text\<close> is what \<open>FindString\<close> returns, \<open>None\<close> if the expression does not compile.\<close>

definition match_white_list :: "'s auth_env \<Rightarrow> white_list option \<Rightarrow> string \<Rightarrow> bool" where
  "match_white_list env wl operation =
     (case wl of
        None \<Rightarrow> False
      | Some w \<Rightarrow>
          list_ex (\<lambda>p. has_prefix operation p) (wl_prefix w) \<or>
          list_ex (\<lambda>re. au_regex env re operation = Some operation) (wl_regex w) \<or>
          operation \<in> set (wl_path w) \<or> operation \<in> set (wl_match w))"

definition full_auth :: "'s auth_env \<Rightarrow> ('s, 'b) handler \<Rightarrow> ('s, 'b) handler" where
  "full_auth env handler = authn_server env (Some map_authn_error) (auth_server env (authz_server env handler))"

definition new_auth_middleware ::
  "'s auth_env \<Rightarrow> white_list option \<Rightarrow> white_list option \<Rightarrow> ('s, 'b) handler \<Rightarrow> ('s, 'b) handler" where
  "new_auth_middleware env optional white handler ctx s =
     (case cx_transport ctx of
        None \<Rightarrow> full_auth env handler ctx s
      | Some tr \<Rightarrow>
          if match_white_list env optional (tr_operation tr) then optional_server env handler ctx s
          else if match_white_list env white (tr_operation tr) then handler ctx s
          else full_auth env handler ctx s)"

subsection \<open>What reaches the handler\<close>

text \<open>The handler that returns its context.\<close>

definition pass_ctx :: "('s, auth_ctx) handler" where
  "pass_ctx ctx s = (Inr ctx, s)"

definition then_run :: "auth_ctx res \<times> 's \<Rightarrow> ('s, 'b) handler \<Rightarrow> 'b res \<times> 's" where
  "then_run r handler = (case r of (Inl e, s) \<Rightarrow> (Inl e, s) | (Inr ctx, s) \<Rightarrow> handler ctx s)"

lemma then_run_simps [simp]:
  "then_run (Inl e, s) handler = (Inl e, s)" "then_run (Inr ctx, s) handler = handler ctx s"
  "then_run (pass_ctx ctx s) handler = handler ctx s" "pass_ctx ctx s = (Inr ctx, s)"
  by (simp_all add: then_run_def pass_ctx_def)

lemma authz_server_run: "authz_server env handler ctx s = then_run (authz_server env pass_ctx ctx s) handler"
  by (auto simp: authz_server_def Let_def split: option.splits list.splits sum.splits)

lemma auth_server_run: "auth_server env handler ctx s = then_run (auth_server env pass_ctx ctx s) handler"
  by (auto simp: auth_server_def Let_def split: option.splits sum.splits prod.splits)

lemma then_run_assoc: "then_run (then_run r f) handler = then_run r (\<lambda>ctx s. then_run (f ctx s) handler)"
  by (auto simp: then_run_def split: prod.splits sum.splits)

lemma full_auth_split:
  assumes "au_authenticate env ctx = Inr claims"
  shows "full_auth env handler ctx s = then_run (auth_server env pass_ctx (ctx\<lparr>cx_authn := Some claims\<rparr>) s) (authz_server env handler)"
  using assms auth_server_run [of env "authz_server env handler" "ctx\<lparr>cx_authn := Some claims\<rparr>" s]
  by (simp add: full_auth_def authn_server_def)

lemma full_auth_run: "full_auth env handler ctx s = then_run (full_auth env pass_ctx ctx s) handler"
proof (cases "au_authenticate env ctx")
  case (Inl e)
  then show ?thesis by (simp add: full_auth_def authn_server_def)
next
  case (Inr claims)
  have "(\<lambda>ctx s. then_run (authz_server env pass_ctx ctx s) handler) = authz_server env handler"
    by (intro ext) (rule authz_server_run [symmetric])
  then show ?thesis
    unfolding full_auth_split [OF Inr] then_run_assoc by simp
qed

text \<open>Admission of the claims of a request in one place.\<close>

definition token_accepted :: "'s auth_env \<Rightarrow> auth_ctx \<Rightarrow> auth_claims \<Rightarrow> 's \<Rightarrow> bool" where
  "token_accepted env ctx c s =
     (\<exists>uid. get_int_kind (au_round env) (au_overflow env) KInt64 c ''uid'' = Inr uid \<and>
       (uid = 0 \<or> fst (is_access_token_valid (au_ops env) (au_config env) (au_now env) uid (bearer_of ctx) (au_order env) s)))"

lemma verify_ok: "fst (verify_access_token env ctx claims s) = None \<longleftrightarrow> (\<exists>c. claims = Some c \<and> token_accepted env ctx c s)"
  by (auto simp: verify_access_token_def token_accepted_def split_def Let_def split: option.splits sum.splits)

lemma auth_server_ok:
  "fst (auth_server env pass_ctx ctx s) = Inr ctx' \<longleftrightarrow>
    (\<exists>tr c tenant role. cx_transport ctx = Some tr \<and> cx_authn ctx = Some (Some c) \<and> token_accepted env ctx c s \<and>
      get_string c ''tcode'' = Inr tenant \<and> tenant \<noteq> [] \<and> get_string c ''rcode'' = Inr role \<and> role \<noteq> [] \<and>
      ctx' = ctx\<lparr>cx_authz := Some \<lparr>az_subjects = None, az_tenant = Some tenant, az_tenants = None,
        az_subject = Some role, az_action = Some any_action, az_resource = Some (tr_operation tr), az_project = None\<rparr>\<rparr>)"
proof (cases "cx_transport ctx")
  case None
  then show ?thesis by (simp add: auth_server_def)
next
  case (Some tr)
  note tr = this
  show ?thesis
  proof (cases "cx_authn ctx")
    case None
    with tr show ?thesis by (simp add: auth_server_def)
  next
    case (Some claims)
    obtain r s' where v: "verify_access_token env ctx claims s = (r, s')" by (cases "verify_access_token env ctx claims s")
    then have r: "r = None \<longleftrightarrow> (\<exists>c. claims = Some c \<and> token_accepted env ctx c s)" using verify_ok [of env ctx claims s] by simp
    show ?thesis
    proof (cases r)
      case None
      with r obtain c where c: "claims = Some c" "token_accepted env ctx c s" by blast
      with tr Some v None show ?thesis
        by (auto simp: auth_server_def Let_def split: sum.splits)
    next
      case (Some e)
      with tr \<open>cx_authn ctx = Some claims\<close> v r show ?thesis by (auto simp: auth_server_def)
    qed
  qed
qed

lemma authz_server_ok:
  assumes "cx_authz ctx = Some \<lparr>az_subjects = None, az_tenant = Some tenant, az_tenants = None,
        az_subject = Some role, az_action = Some any_action, az_resource = Some resource, az_project = None\<rparr>" and "tenant \<noteq> []"
  shows "fst (authz_server env pass_ctx ctx s) = Inr ctx' \<longleftrightarrow>
    au_authorize env tenant role any_action resource [] = Inr True \<and> ctx' = ctx"
proof -
  obtain c cs where "tenant = c # cs" using assms(2) by (cases tenant) auto
  with assms show ?thesis
    by (auto simp: authz_server_def make_auth_tenants_def Let_def split: sum.splits bool.splits)
qed

lemma full_auth_iff:
  "full_auth env handler ctx s = then_run (full_auth env pass_ctx ctx s) handler \<and>
   (fst (full_auth env pass_ctx ctx s) = Inr ctx' \<longleftrightarrow>
    (\<exists>tr c tenant role. cx_transport ctx = Some tr \<and> au_authenticate env ctx = Inr (Some c) \<and> token_accepted env ctx c s \<and>
      get_string c ''tcode'' = Inr tenant \<and> tenant \<noteq> [] \<and> get_string c ''rcode'' = Inr role \<and> role \<noteq> [] \<and>
      au_authorize env tenant role any_action (tr_operation tr) [] = Inr True \<and>
      ctx' = ctx\<lparr>cx_authn := Some (Some c), cx_authz := Some \<lparr>az_subjects = None, az_tenant = Some tenant, az_tenants = None,
        az_subject = Some role, az_action = Some any_action, az_resource = Some (tr_operation tr), az_project = None\<rparr>\<rparr>))"
proof (cases "au_authenticate env ctx")
  case (Inl e)
  then show ?thesis by (simp add: full_auth_run [symmetric]) (simp add: full_auth_def authn_server_def)
next
  case (Inr claims)
  let ?ctx = "ctx\<lparr>cx_authn := Some claims\<rparr>"
  have same: "token_accepted env ?ctx c s = token_accepted env ctx c s" for c
    by (simp add: token_accepted_def bearer_of_def)
  obtain r s' where a: "auth_server env pass_ctx ?ctx s = (r, s')" by (cases "auth_server env pass_ctx ?ctx s")
  have ok: "r = Inr c1 \<longleftrightarrow> (\<exists>tr c tenant role. cx_transport ctx = Some tr \<and> claims = Some c \<and> token_accepted env ctx c s \<and>
      get_string c ''tcode'' = Inr tenant \<and> tenant \<noteq> [] \<and> get_string c ''rcode'' = Inr role \<and> role \<noteq> [] \<and>
      c1 = ?ctx\<lparr>cx_authz := Some \<lparr>az_subjects = None, az_tenant = Some tenant, az_tenants = None,
        az_subject = Some role, az_action = Some any_action, az_resource = Some (tr_operation tr), az_project = None\<rparr>\<rparr>)" for c1
    using auth_server_ok [of env ?ctx s c1] a by (simp add: same)
  show ?thesis
  proof (cases r)
    case (Inl e)
    with ok a Inr show ?thesis
      by (auto simp: full_auth_split simp flip: full_auth_run)
  next
    case r: (Inr c1)
    with ok [of c1] obtain tr c tenant role where c: "cx_transport ctx = Some tr" "claims = Some c" "token_accepted env ctx c s"
      "get_string c ''tcode'' = Inr tenant" "tenant \<noteq> []" "get_string c ''rcode'' = Inr role" "role \<noteq> []"
      "c1 = ?ctx\<lparr>cx_authz := Some \<lparr>az_subjects = None, az_tenant = Some tenant, az_tenants = None,
        az_subject = Some role, az_action = Some any_action, az_resource = Some (tr_operation tr), az_project = None\<rparr>\<rparr>" by blast
    have "fst (full_auth env pass_ctx ctx s) = Inr ctx' \<longleftrightarrow>
        au_authorize env tenant role any_action (tr_operation tr) [] = Inr True \<and> ctx' = c1"
      using authz_server_ok [of c1 tenant role "tr_operation tr" env s' ctx'] c(5,8) a r full_auth_split [OF Inr, of pass_ctx s]
      by simp
    with c Inr show ?thesis by (auto simp flip: full_auth_run)
  qed
qed


text \<open>C12: Whatever the white lists, a handler behind the middleware finds an identity in its context only if the request's token authenticated as that identity and
  its session was accepted; and an operation on neither list is never reached without one.\<close>

theorem identity_is_verified:
  assumes "cx_authn ctx = None" and "fst (new_auth_middleware env optional white pass_ctx ctx s) = Inr ctx'"
  shows "(\<forall>claims. cx_authn ctx' = Some claims \<longrightarrow>
      (\<exists>c. claims = Some c \<and> au_authenticate env ctx = Inr (Some c) \<and> token_accepted env ctx c s)) \<and>
    (cx_authn ctx' = None \<longrightarrow> (\<exists>tr. cx_transport ctx = Some tr \<and>
      (match_white_list env optional (tr_operation tr) \<or> match_white_list env white (tr_operation tr))))"
proof -
  have full: "(\<exists>c. cx_authn ctx' = Some (Some c) \<and> au_authenticate env ctx = Inr (Some c) \<and> token_accepted env ctx c s)"
    if "fst (full_auth env pass_ctx ctx s) = Inr ctx'"
    using that full_auth_iff [of env pass_ctx ctx s ctx'] by auto
  show ?thesis
  proof (cases "cx_transport ctx")
    case None
    with assms(2) full show ?thesis by (auto simp: new_auth_middleware_def)
  next
    case (Some tr)
    consider "match_white_list env optional (tr_operation tr)" | "\<not> match_white_list env optional (tr_operation tr)"
      "match_white_list env white (tr_operation tr)" | "\<not> match_white_list env optional (tr_operation tr)"
      "\<not> match_white_list env white (tr_operation tr)" by blast
    then show ?thesis
    proof cases
      case 1
      then have run: "fst (optional_server env pass_ctx ctx s) = Inr ctx'"
        using assms(2) Some by (simp add: new_auth_middleware_def)
      show ?thesis
      proof (cases "\<exists>c. au_authenticate env ctx = Inr (Some c) \<and> token_accepted env ctx c s")
        case True
        then obtain c where c: "au_authenticate env ctx = Inr (Some c)" "token_accepted env ctx c s" by blast
        then have "fst (verify_access_token env ctx (Some c) s) = None" by (simp add: verify_ok)
        then obtain s' where "verify_access_token env ctx (Some c) s = (None, s')" by (metis prod.collapse)
        with run c have "ctx' = ctx\<lparr>cx_authn := Some (Some c)\<rparr>" by (simp add: optional_server_def)
        with c show ?thesis by simp
      next
        case False
        then have "\<exists>e. fst (verify_access_token env ctx (Some c) s) = Some e" if "au_authenticate env ctx = Inr (Some c)" for c
          using that verify_ok [of env ctx "Some c" s] by (cases "fst (verify_access_token env ctx (Some c) s)") auto
        with run have "ctx' = ctx"
          by (auto simp: optional_server_def split: sum.splits option.splits prod.splits)
        with assms(1) 1 Some show ?thesis by simp
      qed
    next
      case 2
      with assms Some show ?thesis by (auto simp: new_auth_middleware_def)
    next
      case 3
      with assms(2) Some full show ?thesis by (auto simp: new_auth_middleware_def)
    qed
  qed
qed

definition sample_auth_env :: "memory auth_env" where
  "sample_auth_env = \<lparr>au_authenticate = (\<lambda>ctx. if bearer_of ctx = ''jwt''
       then Inr (Some [''tcode'' \<mapsto> CString ''t'', ''rcode'' \<mapsto> CString ''r'']) else Inl (Sentinel ''missing bearer token'')),
     au_authorize = (\<lambda>tenant subject action resource project. Inr (subject = ''r'')), au_regex = (\<lambda>re text. None),
     au_ops = memory_ops, au_config = sample_config, au_now = 0, au_order = [], au_round = id, au_overflow = (\<lambda>k x. 0)\<rparr>"

theorem identity_is_verified_witness:
  "let ctx = \<lparr>cx_transport = Some \<lparr>tr_operation = ''/api/get'', tr_authorization = ''bearer jwt''\<rparr>, cx_authn = None, cx_authz = None\<rparr> in
   \<exists>ctx' c. fst (new_auth_middleware sample_auth_env None None pass_ctx ctx new_memory) = Inr ctx' \<and>
     cx_authn ctx' = Some (Some c) \<and> au_authenticate sample_auth_env ctx = Inr (Some c) \<and> token_accepted sample_auth_env ctx c new_memory"
proof -
  let ?ctx = "\<lparr>cx_transport = Some \<lparr>tr_operation = ''/api/get'', tr_authorization = ''bearer jwt''\<rparr>, cx_authn = None, cx_authz = None\<rparr>"
  have bearer: "bearer_of ?ctx = ''jwt''"
    by code_simp
  have "\<exists>ctx' c. fst (full_auth sample_auth_env pass_ctx ?ctx new_memory) = Inr ctx' \<and> cx_authn ctx' = Some (Some c)"
    using bearer by (simp add: full_auth_def authn_server_def auth_server_def authz_server_def verify_access_token_def sample_auth_env_def
        bearer_of_def get_int_kind_def get_string_def parse_string_def make_auth_tenants_def)
  then obtain ctx' c where run: "fst (new_auth_middleware sample_auth_env None None pass_ctx ?ctx new_memory) = Inr ctx'"
    "cx_authn ctx' = Some (Some c)" by (auto simp: new_auth_middleware_def match_white_list_def)
  have "cx_authn ?ctx = None" by simp
  from identity_is_verified [OF this run(1)] run show ?thesis unfolding Let_def by blast
qed

end
