(* ===== verification/Retry.thy ===== *)
theory Retry
  imports Go_Base
begin

text \<open>
  The retrier of retry/retry.go: the loop of \<open>Do\<close>, the backoff strategies and the jitters.

  What \<open>Do\<close> observes of the world is an environment, one record per attempt: the state of the contexts at
  each test, the result of the operation, and how the wait for the timer ended. \<open>pow\<close> is \<open>math.Pow\<close>
  at a natural exponent, \<open>rnd\<close> the rounding of float operations.
\<close>

subsection \<open>Backoff and jitter\<close>

record exponential_backoff =
  eb_initial :: duration
  eb_factor :: real
  eb_max :: duration

text \<open>A float that overflows to infinity is a real beyond the range of \<open>int64\<close> here; both take the same branches.\<close>

definition exponential_delay :: "(real \<Rightarrow> real) \<Rightarrow> (real \<Rightarrow> nat \<Rightarrow> real) \<Rightarrow> exponential_backoff \<Rightarrow> int \<Rightarrow> duration" where
  "exponential_delay rnd pow b attempt =
     (if eb_initial b \<le> 0 then 0
      else let attempt = (if attempt < 0 then 0 else attempt);
               factor = (if eb_factor b \<le> 0 then 2 else eb_factor b);
               delay = rnd (rnd (of_int (eb_initial b)) * pow factor (nat attempt))
           in if 0 < eb_max b \<and> rnd (of_int (eb_max b)) \<le> delay then eb_max b
              else if 2 ^ 63 \<le> delay then max_int64
              else \<lfloor>delay\<rfloor>)"

definition fixed_delay :: "duration \<Rightarrow> int \<Rightarrow> duration" where
  "fixed_delay f attempt = f"

record linear_backoff =
  lb_initial :: duration
  lb_step :: duration
  lb_max :: duration

definition linear_delay :: "linear_backoff \<Rightarrow> int \<Rightarrow> duration" where
  "linear_delay l attempt =
     (let attempt = (if attempt < 0 then 0 else attempt);
          delay = wrap64 (lb_initial l + wrap64 (lb_step l * attempt))
      in if 0 < lb_max l \<and> lb_max l < delay then lb_max l else delay)"

definition no_jitter :: "duration \<Rightarrow> real \<Rightarrow> duration" where
  "no_jitter delay random = delay"

definition full_jitter :: "(real \<Rightarrow> real) \<Rightarrow> duration \<Rightarrow> real \<Rightarrow> duration" where
  "full_jitter rnd delay random =
     (let x = rnd (rnd (of_int delay) * random) in if 0 \<le> x then \<lfloor>x\<rfloor> else \<lceil>x\<rceil>)"

definition equal_jitter :: "(real \<Rightarrow> real) \<Rightarrow> duration \<Rightarrow> real \<Rightarrow> duration" where
  "equal_jitter rnd delay random =
     (let half = delay sdiv 2; x = rnd (rnd (of_int half) * random)
      in half + (if 0 \<le> x then \<lfloor>x\<rfloor> else \<lceil>x\<rceil>))"

subsection \<open>The loop\<close>

definition err_max_attempts :: go_err where "err_max_attempts = Sentinel ''retry: max attempts exceeded''"
definition err_timeout :: go_err where "err_timeout = Sentinel ''retry: total timeout exceeded''"

text \<open>\<open>errors.Join\<close> drops nil errors.\<close>

definition join_last :: "go_err \<Rightarrow> go_err option \<Rightarrow> go_err" where
  "join_last e prev = (case prev of None \<Rightarrow> JoinErr [e] | Some l \<Rightarrow> JoinErr [e, l])"

text \<open>The contexts at a test: both live, only the total timeout passed, or the caller's context done.\<close>

datatype ctx_state = CtxLive | CtxTimedOut | CtxDone go_err

record attempt_env =
  ae_before :: ctx_state
  ae_result :: "go_err option"
  ae_after :: ctx_state
  ae_random :: real
  ae_wait :: ctx_state

record retrier =
  rt_max_attempts :: nat
  rt_backoff :: "int \<Rightarrow> duration"
  rt_jitter :: "duration \<Rightarrow> real \<Rightarrow> duration"
  rt_classifier :: "go_err \<Rightarrow> bool"

record retry_outcome =
  ro_error :: "go_err option"
  ro_calls :: nat
  ro_waits :: "duration list"

text \<open>
  One round of the loop, for attempt number \<open>n\<close> with \<open>left\<close> more attempts allowed after it: it ends \<open>Do\<close> (\<open>Inl\<close>) or goes on
  with the error of the call and the waits so far (\<open>Inr\<close>).
\<close>

definition retry_round ::
  "retrier \<Rightarrow> attempt_env \<Rightarrow> nat \<Rightarrow> nat \<Rightarrow> go_err option \<Rightarrow> duration list \<Rightarrow> retry_outcome + (go_err option \<times> duration list)" where
  "retry_round r e n left prev waits =
     (case ae_before e of
        CtxDone err \<Rightarrow> Inl \<lparr>ro_error = Some err, ro_calls = n, ro_waits = waits\<rparr>
      | CtxTimedOut \<Rightarrow> Inl \<lparr>ro_error = Some (join_last err_timeout prev), ro_calls = n, ro_waits = waits\<rparr>
      | CtxLive \<Rightarrow>
          (case ae_after e of
             CtxDone err \<Rightarrow> Inl \<lparr>ro_error = Some err, ro_calls = Suc n, ro_waits = waits\<rparr>
           | CtxTimedOut \<Rightarrow> Inl \<lparr>ro_error = Some (join_last err_timeout (ae_result e)), ro_calls = Suc n, ro_waits = waits\<rparr>
           | CtxLive \<Rightarrow>
               (case ae_result e of
                  None \<Rightarrow> Inl \<lparr>ro_error = None, ro_calls = Suc n, ro_waits = waits\<rparr>
                | Some err \<Rightarrow>
                    if \<not> rt_classifier r err then Inl \<lparr>ro_error = Some err, ro_calls = Suc n, ro_waits = waits\<rparr>
                    else if left = 0 then
                      Inl \<lparr>ro_error = Some (join_last err_max_attempts (ae_result e)), ro_calls = Suc n, ro_waits = waits\<rparr>
                    else
                      (let delay = rt_jitter r (rt_backoff r (int n)) (ae_random e) in
                       if delay \<le> 0 then Inr (ae_result e, waits)
                       else (case ae_wait e of
                           CtxDone err \<Rightarrow> Inl \<lparr>ro_error = Some err, ro_calls = Suc n, ro_waits = waits @ [delay]\<rparr>
                         | CtxTimedOut \<Rightarrow>
                             Inl \<lparr>ro_error = Some (join_last err_timeout (ae_result e)), ro_calls = Suc n, ro_waits = waits @ [delay]\<rparr>
                         | CtxLive \<Rightarrow> Inr (ae_result e, waits @ [delay]))))))"

fun retry_loop :: "retrier \<Rightarrow> (nat \<Rightarrow> attempt_env) \<Rightarrow> nat \<Rightarrow> nat \<Rightarrow> go_err option \<Rightarrow> duration list \<Rightarrow> retry_outcome" where
  "retry_loop r env 0 n prev waits =
     \<lparr>ro_error = Some (join_last err_max_attempts prev), ro_calls = n, ro_waits = waits\<rparr>"
| "retry_loop r env (Suc left) n prev waits =
     (case retry_round r (env n) n left prev waits of
        Inl outcome \<Rightarrow> outcome
      | Inr (prev', waits') \<Rightarrow> retry_loop r env left (Suc n) prev' waits')"

definition retry_do :: "retrier \<Rightarrow> (nat \<Rightarrow> attempt_env) \<Rightarrow> retry_outcome" where
  "retry_do r env = retry_loop r env (rt_max_attempts r) 0 None []"

subsection \<open>Outcomes\<close>

text \<open>An attempt after which \<open>Do\<close> goes on: contexts live throughout, a retryable error.\<close>

definition goes_on :: "retrier \<Rightarrow> attempt_env \<Rightarrow> bool" where
  "goes_on r e = (ae_before e = CtxLive \<and> ae_after e = CtxLive \<and> ae_wait e = CtxLive \<and>
     (\<exists>err. ae_result e = Some err \<and> rt_classifier r err))"

definition retryable_error :: "retrier \<Rightarrow> attempt_env \<Rightarrow> bool" where
  "retryable_error r e = (\<exists>err. ae_result e = Some err \<and> rt_classifier r err)"

lemma retry_round_Inl:
  "retry_round r e n left prev waits = Inl out \<Longrightarrow>
     ro_calls out \<le> Suc n \<and> (\<forall>d \<in> set (ro_waits out). 0 < d \<or> d \<in> set waits) \<and>
     (ro_error out = None \<longrightarrow> ro_calls out = Suc n \<and> ae_result e = None)"
  unfolding retry_round_def Let_def
  by (simp split: ctx_state.splits option.splits if_splits; clarsimp; fastforce)

lemma retry_round_Inr:
  "retry_round r e n left prev waits = Inr (prev', waits') \<Longrightarrow>
     prev' = ae_result e \<and> retryable_error r e \<and> (\<forall>d \<in> set waits'. 0 < d \<or> d \<in> set waits)"
  unfolding retry_round_def Let_def retryable_error_def
  by (simp split: ctx_state.splits option.splits if_splits; clarsimp; fastforce)

lemma retry_round_goes_on:
  "goes_on r e \<Longrightarrow> left \<noteq> 0 \<Longrightarrow> \<exists>waits'. retry_round r e n left prev waits = Inr (ae_result e, waits')"
  by (auto simp: retry_round_def goes_on_def Let_def)

lemma retry_loop_bounds:
  "ro_calls (retry_loop r env left n prev waits) \<le> n + left \<and>
   (\<forall>d \<in> set (ro_waits (retry_loop r env left n prev waits)). 0 < d \<or> d \<in> set waits)"
proof (induction left arbitrary: n prev waits)
  case 0
  show ?case by simp
next
  case (Suc left)
  show ?case
  proof (cases "retry_round r (env n) n left prev waits")
    case (Inl out)
    with retry_round_Inl [OF Inl] show ?thesis by simp
  next
    case (Inr next_round)
    obtain p w where pw: "next_round = (p, w)" by (cases next_round)
    with Inr have round: "retry_round r (env n) n left prev waits = Inr (p, w)" by simp
    show ?thesis
      using Suc.IH [of "Suc n" p w] retry_round_Inr [OF round] round by auto
  qed
qed

lemma retry_loop_nil:
  "ro_error (retry_loop r env left n prev waits) = None \<Longrightarrow>
    \<exists>k. ro_calls (retry_loop r env left n prev waits) = Suc (n + k) \<and> ae_result (env (n + k)) = None \<and>
     (\<forall>i < k. retryable_error r (env (n + i)))"
proof (induction left arbitrary: n prev waits)
  case 0
  then show ?case by simp
next
  case (Suc left)
  show ?case
  proof (cases "retry_round r (env n) n left prev waits")
    case (Inl out)
    with Suc.prems retry_round_Inl [OF Inl] show ?thesis by (intro exI [of _ 0]) simp
  next
    case (Inr next_round)
    obtain p w where pw: "next_round = (p, w)" by (cases next_round)
    with Inr have round: "retry_round r (env n) n left prev waits = Inr (p, w)" by simp
    with Suc.prems obtain k where k: "ro_calls (retry_loop r env left (Suc n) p w) = Suc (Suc n + k)"
      "ae_result (env (Suc n + k)) = None" "\<forall>i < k. retryable_error r (env (Suc n + i))"
      using Suc.IH [of "Suc n" p w] by auto
    have "retryable_error r (env (n + i))" if "i < Suc k" for i
      using that k(3) retry_round_Inr [OF round] by (cases i) auto
    with k(1,2) round show ?thesis by (intro exI [of _ "Suc k"]) simp
  qed
qed

text \<open>\<open>Do\<close> calls the operation at most \<open>maxAttempts\<close> times and only waits positive delays, and it returns nil only when its last call
  succeeded, after retryable errors alone.\<close>

theorem retry_attempts_bounded:
  "ro_calls (retry_do r env) \<le> rt_max_attempts r \<and> list_all (\<lambda>d. 0 < d) (ro_waits (retry_do r env)) \<and>
   (ro_error (retry_do r env) = None \<longrightarrow>
     (\<exists>k. ro_calls (retry_do r env) = Suc k \<and> ae_result (env k) = None \<and>
       (\<forall>i < k. retryable_error r (env i))))"
  using retry_loop_bounds [of r env "rt_max_attempts r" 0 None "[]"] retry_loop_nil [of r env "rt_max_attempts r" 0 None "[]"]
  by (simp add: retry_do_def list_all_iff)

lemma retry_loop_prefix:
  "\<forall>i < k. goes_on r (env i) \<Longrightarrow> k < left \<Longrightarrow>
   \<exists>prev' waits'. retry_loop r env left 0 prev waits = retry_loop r env (left - k) k prev' waits'"
proof (induction k)
  case 0
  show ?case by auto
next
  case (Suc k)
  then obtain p w where pw: "retry_loop r env left 0 prev waits = retry_loop r env (left - k) k p w" by auto
  from Suc.prems(2) obtain m where m: "left - k = Suc m" "m = left - Suc k" "m \<noteq> 0"
    by (metis Suc_diff_Suc Suc_lessD diff_is_0_eq not_le)
  have "goes_on r (env k)" using Suc.prems(1) by simp
  from retry_round_goes_on [OF this m(3)] obtain w' where
    "retry_round r (env k) k m p w = Inr (ae_result (env k), w')" by blast
  with pw m(1) have "retry_loop r env left 0 prev waits = retry_loop r env m (Suc k) (ae_result (env k)) w'"
    by simp
  with m(2) show ?case by blast
qed

text \<open>With live contexts and retryable errors, \<open>Do\<close> does not give up early: it returns nil at the first success within
  \<open>maxAttempts\<close> calls, a non-retryable error as it is, and otherwise, after exactly \<open>maxAttempts\<close> calls, the
  exhaustion joined with the last error.\<close>

theorem retry_until:
  assumes "\<forall>i < k. goes_on r (env i)" and "k < rt_max_attempts r"
    and "ae_before (env k) = CtxLive" and "ae_after (env k) = CtxLive"
    and "retryable_error r (env k) \<longrightarrow> Suc k = rt_max_attempts r"
  shows "ro_calls (retry_do r env) = Suc k \<and>
    ro_error (retry_do r env) =
      (case ae_result (env k) of
         None \<Rightarrow> None
       | Some err \<Rightarrow> if rt_classifier r err then Some (JoinErr [err_max_attempts, err]) else Some err)"
proof -
  obtain p w where w: "retry_do r env = retry_loop r env (rt_max_attempts r - k) k p w"
    using retry_loop_prefix [OF assms(1,2)] unfolding retry_do_def by blast
  obtain m where m: "rt_max_attempts r - k = Suc m" using assms(2) by (metis Suc_diff_Suc)
  have "retryable_error r (env k) \<Longrightarrow> m = 0" using assms(5) m by auto
  with w m assms(3,4) show ?thesis
    by (cases "ae_result (env k)") (auto simp: retry_round_def retryable_error_def join_last_def)
qed

definition sample_env :: "nat \<Rightarrow> attempt_env" where
  "sample_env i = \<lparr>ae_before = CtxLive, ae_result = (if i < 2 then Some (NewErr ''busy'') else None), ae_after = CtxLive,
     ae_random = 0, ae_wait = CtxLive\<rparr>"

definition sample_retrier :: retrier where
  "sample_retrier = \<lparr>rt_max_attempts = 3, rt_backoff = fixed_delay 10, rt_jitter = no_jitter, rt_classifier = (\<lambda>_. True)\<rparr>"

theorem retry_until_witness:
  "ro_calls (retry_do sample_retrier sample_env) = Suc 2 \<and>
    ro_error (retry_do sample_retrier sample_env) =
      (case ae_result (sample_env 2) of
         None \<Rightarrow> None
       | Some err \<Rightarrow> if rt_classifier sample_retrier err then Some (JoinErr [err_max_attempts, err]) else Some err)"
  by (rule retry_until) (simp_all add: sample_env_def sample_retrier_def goes_on_def retryable_error_def)

theorem retry_attempts_bounded_witness:
  "ro_error (retry_do sample_retrier sample_env) = None \<and> ro_waits (retry_do sample_retrier sample_env) = [10, 10] \<and>
   ro_calls (retry_do sample_retrier sample_env) \<le> 3 \<and> (\<exists>k. ro_calls (retry_do sample_retrier sample_env) = Suc k \<and> ae_result (sample_env k) = None)"
proof -
  have "retry_do sample_retrier sample_env = \<lparr>ro_error = None, ro_calls = 3, ro_waits = [10, 10]\<rparr>"
    by (simp add: retry_do_def sample_retrier_def sample_env_def retry_round_def fixed_delay_def no_jitter_def
        eval_nat_numeral)
  then show ?thesis
    using retry_attempts_bounded [of sample_retrier sample_env] by (auto simp: sample_retrier_def)
qed

subsection \<open>Delays\<close>

lemma exponential_delay_cases:
  assumes "0 < eb_initial b" and "0 \<le> attempt"
    and "delay = rnd (rnd (of_int (eb_initial b)) * pow (if eb_factor b \<le> 0 then 2 else eb_factor b) (nat attempt))"
  shows "exponential_delay rnd pow b attempt =
    (if 0 < eb_max b \<and> rnd (of_int (eb_max b)) \<le> delay then eb_max b
     else if 2 ^ 63 \<le> delay then max_int64 else \<lfloor>delay\<rfloor>)"
  using assms by (simp add: exponential_delay_def Let_def)

text \<open>What is used of IEEE rounding and of \<open>math.Pow\<close>: rounding is monotone, idempotent and keeps 0; powers of a positive factor are not negative, and
  those of a factor at least 1 do not shrink.\<close>

definition rounding :: "(real \<Rightarrow> real) \<Rightarrow> bool" where
  "rounding rnd = (mono rnd \<and> (\<forall>x. rnd (rnd x) = rnd x) \<and> rnd 0 = 0)"

definition power_law :: "(real \<Rightarrow> nat \<Rightarrow> real) \<Rightarrow> bool" where
  "power_law pow = ((\<forall>x n. 0 < x \<longrightarrow> 0 \<le> pow x n) \<and> (\<forall>x n. 1 \<le> x \<longrightarrow> pow x n \<le> pow x (Suc n)))"

lemma rounding_nonneg: "rounding rnd \<Longrightarrow> 0 \<le> x \<Longrightarrow> 0 \<le> rnd x"
  unfolding rounding_def by (metis monoD)

text \<open>A rounded value below the rounding of \<open>m\<close> is below \<open>m\<close> itself.\<close>

lemma rounded_below:
  assumes "rounding rnd" and "rnd x < rnd m"
  shows "rnd x < m"
proof (rule ccontr)
  assume "\<not> rnd x < m"
  then have "m \<le> rnd x" by simp
  then have "rnd m \<le> rnd (rnd x)" using assms(1) unfolding rounding_def by (metis monoD)
  with assms show False by (simp add: rounding_def)
qed

text \<open>The exponential delay is never negative, is at most the maximum when one is set and within \<open>int64\<close> otherwise, and, for a
  factor of at least 1, does not shrink from one attempt to the next, whatever the rounding of the float operations.\<close>

theorem exponential_delay_bounds:
  assumes "rounding rnd" and "power_law pow" and "0 \<le> attempt" and "eb_factor b \<le> 0 \<or> 1 \<le> eb_factor b" and "eb_max b \<le> max_int64"
  shows "0 \<le> exponential_delay rnd pow b attempt \<and>
    exponential_delay rnd pow b attempt \<le> (if 0 < eb_max b then eb_max b else max_int64) \<and>
    exponential_delay rnd pow b attempt \<le> exponential_delay rnd pow b (attempt + 1)"
proof (cases "0 < eb_initial b")
  case False
  then show ?thesis by (simp add: exponential_delay_def max_int64_def)
next
  case True
  let ?f = "if eb_factor b \<le> 0 then 2 else eb_factor b"
  let ?d = "\<lambda>n. rnd (rnd (of_int (eb_initial b)) * pow ?f n)"
  have n: "nat (attempt + 1) = Suc (nat attempt)" using assms(3) by simp
  have f: "1 \<le> ?f" using assms(4) by auto
  have init: "0 \<le> rnd (of_int (eb_initial b))" using rounding_nonneg [OF assms(1)] True by simp
  have nonneg: "0 \<le> ?d k" for k
    using rounding_nonneg [OF assms(1)] init f assms(2) by (simp add: power_law_def)
  have "pow ?f (nat attempt) \<le> pow ?f (Suc (nat attempt))"
    using f assms(2) by (simp add: power_law_def)
  then have grows: "?d (nat attempt) \<le> ?d (Suc (nat attempt))"
    using assms(1) init by (intro monoD [of rnd] mult_left_mono) (simp_all add: rounding_def)
  have below: "\<lfloor>?d k\<rfloor> \<le> eb_max b" if "?d k < rnd (of_int (eb_max b))" for k
    using rounded_below [OF assms(1) that] by linarith
  have small: "?d k < 2 ^ 63" if "?d k < rnd (of_int (eb_max b))" for k
    using rounded_below [OF assms(1) that] assms(5) by (simp add: max_int64_def)
  have top: "\<lfloor>?d k\<rfloor> \<le> max_int64" if "?d k < 2 ^ 63" for k
    using that by (simp add: max_int64_def floor_le_iff)
  have e: "0 \<le> attempt + 1" using assms(3) by simp
  note eqs = exponential_delay_cases [OF True assms(3) refl, of rnd pow]
    exponential_delay_cases [OF True e refl, of rnd pow, unfolded n]
  have bounds: "0 \<le> exponential_delay rnd pow b attempt \<and>
      exponential_delay rnd pow b attempt \<le> (if 0 < eb_max b then eb_max b else max_int64)"
    unfolding eqs(1) using nonneg [of "nat attempt"] below [of "nat attempt"] small [of "nat attempt"] top [of "nat attempt"] assms(5)
    by (auto simp: max_int64_def not_le)
  have "exponential_delay rnd pow b attempt \<le> exponential_delay rnd pow b (attempt + 1)"
    unfolding eqs using grows floor_mono [OF grows] below [of "nat attempt"] small [of "nat attempt"] top [of "nat attempt"] assms(5)
    by (auto simp: max_int64_def not_le)
  with bounds show ?thesis by simp
qed

theorem exponential_delay_bounds_witness:
  "let b = \<lparr>eb_initial = 200, eb_factor = 2, eb_max = 1000\<rparr>; d = exponential_delay id (^) b in
   d 2 = 800 \<and> d 3 = 1000 \<and> 0 \<le> d 2 \<and> d 2 \<le> 1000 \<and> d 2 \<le> d 3"
proof -
  have "rounding id" by (simp add: rounding_def mono_def)
  moreover have "power_law ((^) :: real \<Rightarrow> nat \<Rightarrow> real)"
    by (auto simp: power_law_def mult_le_cancel_right1)
  ultimately show ?thesis
    using exponential_delay_bounds [of id "(^)" 2 "\<lparr>eb_initial = 200, eb_factor = 2, eb_max = 1000\<rparr>"]
    by (simp add: Let_def exponential_delay_def max_int64_def)
qed

end
