(* ===== verification/Health_Check.thy ===== *)
theory Health_Check
  imports Go_Strings "HOL-Library.List_Lexorder" "HOL-Library.Char_ord"
begin

text \<open>
  The health aggregator (health/health.go) and its HTTP handlers (health/handler.go).

  The registered checkers are an association list with distinct names, in the order in which Go visits the map. A
  run of \<open>Check\<close> sees a sequence of events: the result of a checker arriving on the channel, or the end of the
  check context; \<open>None\<close> means that \<open>Check\<close> is still waiting after them. Detail values other than texts are of any type. The timeout
  message quotes a name without escapes.
\<close>

datatype health_status = StatusUnknown | StatusUp | StatusDown

definition status_string :: "health_status \<Rightarrow> string" where
  "status_string s = (case s of StatusUp \<Rightarrow> ''up'' | StatusDown \<Rightarrow> ''down'' | StatusUnknown \<Rightarrow> ''unknown'')"

datatype 'a detail = DText string | DMap "string \<rightharpoonup> 'a detail" | DOther 'a

record 'a check_result =
  cr_status :: health_status
  cr_message :: string
  cr_details :: "(string, 'a detail) gomap"

text \<open>\<open>PingFunc.Check\<close>: the outer \<open>None\<close> is the nil function, the inner one a nil error.\<close>

definition ping_check :: "go_err option option \<Rightarrow> 'a check_result" where
  "ping_check f =
     (case f of
        None \<Rightarrow> \<lparr>cr_status = StatusUnknown, cr_message = ''checker is nil'', cr_details = None\<rparr>
      | Some (Some err) \<Rightarrow> \<lparr>cr_status = StatusDown, cr_message = err_text err, cr_details = None\<rparr>
      | Some None \<Rightarrow> \<lparr>cr_status = StatusUp, cr_message = [], cr_details = None\<rparr>)"

record 'c health =
  h_checkers :: "(string \<times> 'c) list"
  h_timeout :: duration

definition new_health :: "duration list \<Rightarrow> 'c health" where
  "new_health timeouts = foldl (\<lambda>h t. if 0 < t then h\<lparr>h_timeout := t\<rparr> else h) \<lparr>h_checkers = [], h_timeout = 5 * second\<rparr> timeouts"

fun put_checker :: "string \<Rightarrow> 'c \<Rightarrow> (string \<times> 'c) list \<Rightarrow> (string \<times> 'c) list" where
  "put_checker k v [] = [(k, v)]"
| "put_checker k v ((k', v') # es) = (if k = k' then (k, v) # es else (k', v') # put_checker k v es)"

definition health_register :: "string \<Rightarrow> 'c option \<Rightarrow> 'c health \<Rightarrow> 'c health res" where
  "health_register name checker h =
     (if name = [] then Inl (Panic ''health: checker name cannot be empty'')
      else case checker of
        None \<Rightarrow> Inl (Panic ''health: checker cannot be nil'')
      | Some c \<Rightarrow> Inr (h\<lparr>h_checkers := put_checker name c (h_checkers h)\<rparr>))"

definition health_deregister :: "string \<Rightarrow> 'c health \<Rightarrow> 'c health" where
  "health_deregister name h = h\<lparr>h_checkers := filter (\<lambda>(k, _). k \<noteq> name) (h_checkers h)\<rparr>"

definition health_names :: "'c health \<Rightarrow> string list" where
  "health_names h = sort (map fst (h_checkers h))"

definition result_details :: "'a check_result \<Rightarrow> string \<rightharpoonup> 'a detail" where
  "result_details r =
     (let d = Map.empty(''status'' \<mapsto> DText (status_string (cr_status r)));
          d = (if cr_message r \<noteq> [] then d(''message'' \<mapsto> DText (cr_message r)) else d)
      in d ++ gm_get (cr_details r))"

datatype 'a check_event = Arrived string "'a check_result" | ContextDone go_err

definition timeout_details :: "string \<Rightarrow> go_err \<Rightarrow> string \<rightharpoonup> 'a detail" where
  "timeout_details name err =
     [''status'' \<mapsto> DText (status_string StatusDown), ''message'' \<mapsto> DText (''checker '' @ [CHR 0x22] @ name @ [CHR 0x22] @ '': '' @ err_text err)]"

text \<open>The select loop: \<open>pending\<close> as the list of names still awaited.\<close>

fun check_loop ::
  "string list \<Rightarrow> string list \<Rightarrow> health_status \<Rightarrow> (string \<rightharpoonup> 'a detail) \<Rightarrow> 'a check_event list \<Rightarrow> 'a check_result option" where
  "check_loop names [] overall details events =
     Some \<lparr>cr_status = overall, cr_message = [], cr_details = Some details\<rparr>"
| "check_loop names (p # ps) overall details [] = None"
| "check_loop names (p # ps) overall details (ContextDone err # events) =
     Some \<lparr>cr_status = StatusDown, cr_message = [],
       cr_details = Some (foldl (\<lambda>d name. if name \<in> set (p # ps) then d(name \<mapsto> DMap (timeout_details name err)) else d) details names)\<rparr>"
| "check_loop names (p # ps) overall details (Arrived name r # events) =
     (if name \<notin> set (p # ps) then check_loop names (p # ps) overall details events
      else check_loop names (remove1 name (p # ps))
        (if cr_status r = StatusDown then StatusDown
         else if cr_status r = StatusUnknown \<and> overall = StatusUp then StatusUnknown else overall)
        (details(name \<mapsto> DMap (result_details r))) events)"

definition health_check :: "'c health \<Rightarrow> 'a check_event list \<Rightarrow> 'a check_result option" where
  "health_check h events =
     (if h_checkers h = [] then
        Some \<lparr>cr_status = StatusUp, cr_message = ''no checkers registered'', cr_details = None\<rparr>
      else check_loop (health_names h) (health_names h) StatusUp Map.empty events)"

subsection \<open>Handlers\<close>

text \<open>The response: its status code and the fields of the JSON body that are not omitted.\<close>

record 'a health_response =
  hr_code :: nat
  hr_status :: string
  hr_message :: "string option"
  hr_checks :: "(string \<rightharpoonup> 'a detail) option"

definition serve_health :: "'a check_result \<Rightarrow> 'a health_response" where
  "serve_health r =
     \<lparr>hr_code = (if cr_status r = StatusDown then 503 else 200), hr_status = status_string (cr_status r),
      hr_message = (if cr_message r \<noteq> [] then Some (cr_message r) else None),
      hr_checks = (if gm_get (cr_details r) \<noteq> Map.empty then Some (gm_get (cr_details r)) else None)\<rparr>"

definition serve_liveness :: "'a health_response" where
  "serve_liveness = \<lparr>hr_code = 200, hr_status = ''up'', hr_message = None, hr_checks = None\<rparr>"

subsection \<open>Aggregation\<close>

text \<open>The worst of a list of statuses: down before unknown before up.\<close>

definition worst :: "health_status set \<Rightarrow> health_status" where
  "worst ss = (if StatusDown \<in> ss then StatusDown else if StatusUnknown \<in> ss then StatusUnknown else StatusUp)"

definition arrivals :: "(string \<Rightarrow> 'a check_result) \<Rightarrow> string list \<Rightarrow> 'a check_event list" where
  "arrivals r ns = map (\<lambda>n. Arrived n (r n)) ns"

lemma check_loop_arrivals:
  assumes "distinct ns" and "distinct pending" and "set ns \<subseteq> set pending" and "ns \<noteq> [] \<Longrightarrow> pending \<noteq> []"
  shows "\<exists>left. set left = set pending - set ns \<and> distinct left \<and>
    check_loop names pending overall details (arrivals r ns @ rest) =
      check_loop names left (worst (insert overall ((\<lambda>n. cr_status (r n)) ` set ns)))
        (details ++ (\<lambda>n. if n \<in> set ns then Some (DMap (result_details (r n))) else None)) rest"
  using assms
proof (induction ns arbitrary: pending overall details)
  case Nil
  then show ?case by (intro exI [of _ pending]) (auto simp: arrivals_def worst_def map_add_def intro: health_status.exhaust [of overall])
next
  case (Cons n ns)
  then obtain p ps where p: "pending = p # ps" by (cases pending) auto
  let ?left = "remove1 n pending"
  let ?overall = "if cr_status (r n) = StatusDown then StatusDown
         else if cr_status (r n) = StatusUnknown \<and> overall = StatusUp then StatusUnknown else overall"
  let ?details = "details(n \<mapsto> DMap (result_details (r n)))"
  have step: "check_loop names pending overall details (arrivals r (n # ns) @ rest) =
      check_loop names ?left ?overall ?details (arrivals r ns @ rest)"
    using Cons.prems(3) p by (simp add: arrivals_def)
  have left: "set ?left = set pending - {n}" "distinct ?left" using Cons.prems(2) by simp_all
  have sub: "set ns \<subseteq> set ?left" using Cons.prems(1,3) left(1) by auto
  then have "ns \<noteq> [] \<Longrightarrow> ?left \<noteq> []" by (metis list.set(1) set_empty subset_empty)
  have dn: "distinct ns" using Cons.prems(1) by simp
  from Cons.IH [OF dn left(2) sub \<open>ns \<noteq> [] \<Longrightarrow> ?left \<noteq> []\<close>, of ?overall ?details]
  obtain l where l: "set l = set ?left - set ns" "distinct l"
    "check_loop names ?left ?overall ?details (arrivals r ns @ rest) =
      check_loop names l (worst (insert ?overall ((\<lambda>n. cr_status (r n)) ` set ns)))
        (?details ++ (\<lambda>n. if n \<in> set ns then Some (DMap (result_details (r n))) else None)) rest"
    by blast
  have w: "worst (insert ?overall ((\<lambda>n. cr_status (r n)) ` set ns)) = worst (insert overall ((\<lambda>n. cr_status (r n)) ` set (n # ns)))"
    by (cases "cr_status (r n)"; cases overall) (auto simp: worst_def)
  have d: "?details ++ (\<lambda>m. if m \<in> set ns then Some (DMap (result_details (r m))) else None) =
      details ++ (\<lambda>m. if m \<in> set (n # ns) then Some (DMap (result_details (r m))) else None)"
    using Cons.prems(1) by (auto simp: map_add_def fun_eq_iff)
  show ?case
    using l left(1) unfolding step l(3) w d by (intro exI [of _ l]) auto
qed

lemma fold_timeouts:
  "foldl (\<lambda>d name. if name \<in> P then d(name \<mapsto> f name) else d) details names =
     details ++ (\<lambda>n. if n \<in> set names \<and> n \<in> P then Some (f n) else None)"
  by (induction names arbitrary: details) (auto simp: map_add_def fun_eq_iff)

text \<open>What \<open>Check\<close> reports when the results of \<open>ns\<close> arrived and, if some are missing, the context ended with \<open>err\<close>.\<close>

definition expected_result :: "string set \<Rightarrow> (string \<Rightarrow> 'a check_result) \<Rightarrow> string list \<Rightarrow> go_err \<Rightarrow> 'a check_result" where
  "expected_result names r ns err =
     \<lparr>cr_status = (if set ns = names then worst ((\<lambda>n. cr_status (r n)) ` set ns) else StatusDown), cr_message = [],
      cr_details = Some (\<lambda>n. if n \<in> set ns then Some (DMap (result_details (r n)))
        else if n \<in> names then Some (DMap (timeout_details n err)) else None)\<rparr>"

text \<open>C9: Whatever the order in which the checkers answer, \<open>Check\<close> reports the worst of their statuses and the details of each; if the context
  ends first it reports down at once, with an entry for every checker that has not answered. It never waits longer.\<close>

theorem health_check_outcome:
  assumes "distinct (map fst (h_checkers h))" and "h_checkers h \<noteq> []" and "distinct ns" and "set ns \<subseteq> fst ` set (h_checkers h)"
  shows "health_check h (arrivals r ns @ [ContextDone err]) = Some (expected_result (fst ` set (h_checkers h)) r ns err) \<and>
    (set ns = fst ` set (h_checkers h) \<longrightarrow> health_check h (arrivals r ns) = Some (expected_result (set ns) r ns err))"
proof -
  let ?names = "health_names h"
  have names: "set ?names = fst ` set (h_checkers h)" "distinct ?names" "?names \<noteq> []"
    using assms(1) by (simp_all add: health_names_def)
      (metis assms(2) length_0_conv length_map length_sort)
  have w: "worst (insert StatusUp S) = worst S" for S by (simp add: worst_def)
  have run: "\<exists>left. set left = set ?names - set ns \<and> health_check h (arrivals r ns @ rest) =
      check_loop ?names left (worst ((\<lambda>n. cr_status (r n)) ` set ns))
        (\<lambda>n. if n \<in> set ns then Some (DMap (result_details (r n))) else None) rest" for rest
    using check_loop_arrivals [OF assms(3) names(2), of ?names StatusUp Map.empty r rest] assms(2,4) names
    by (auto simp: health_check_def w)
  obtain left where left: "set left = set ?names - set ns" "health_check h (arrivals r ns @ [ContextDone err]) =
      check_loop ?names left (worst ((\<lambda>n. cr_status (r n)) ` set ns))
        (\<lambda>n. if n \<in> set ns then Some (DMap (result_details (r n))) else None) [ContextDone err]"
    using run by blast
  have "health_check h (arrivals r ns @ [ContextDone err]) = Some (expected_result (fst ` set (h_checkers h)) r ns err)"
  proof (cases left)
    case Nil
    with left(1) names(1) assms(4) have "set ns = fst ` set (h_checkers h)" by auto
    with Nil left(2) show ?thesis by (auto simp: expected_result_def fun_eq_iff)
  next
    case (Cons p ps)
    with left(1) names(1) have "set ns \<noteq> fst ` set (h_checkers h)" by auto
    moreover have "set (p # ps) = set ?names - set ns" using left(1) Cons by simp
    ultimately show ?thesis
      using left(2) Cons names(1) unfolding expected_result_def
      by (simp only: check_loop.simps fold_timeouts) (auto simp: map_add_def fun_eq_iff)
  qed
  moreover have "health_check h (arrivals r ns) = Some (expected_result (set ns) r ns err)" if "set ns = fst ` set (h_checkers h)"
  proof -
    obtain left' where "set left' = set ?names - set ns" "health_check h (arrivals r ns @ []) =
      check_loop ?names left' (worst ((\<lambda>n. cr_status (r n)) ` set ns))
        (\<lambda>n. if n \<in> set ns then Some (DMap (result_details (r n))) else None) []"
      using run by blast
    with that names(1) show ?thesis by (simp add: expected_result_def fun_eq_iff)
  qed
  ultimately show ?thesis by blast
qed

definition sample_health :: "nat health" where
  "sample_health = \<lparr>h_checkers = [(''redis'', 0), (''db'', 1)], h_timeout = 5\<rparr>"

theorem health_check_outcome_witness:
  "map_option (hr_code \<circ> serve_health) (health_check sample_health
      (arrivals (\<lambda>n. ping_check (Some None) :: nat check_result) [''db''] @ [ContextDone (NewErr ''deadline'')])) = Some 503 \<and>
   map_option (hr_code \<circ> serve_health) (health_check sample_health
      (arrivals (\<lambda>n. ping_check (Some None) :: nat check_result) [''db'', ''redis''])) = Some 200"
proof -
  let ?r = "\<lambda>n. ping_check (Some None) :: nat check_result" and ?err = "NewErr ''deadline''"
  have names: "fst ` set (h_checkers sample_health) = {''redis'', ''db''}" by (simp add: sample_health_def)
  have d: "distinct (map fst (h_checkers sample_health))" "h_checkers sample_health \<noteq> []" by (simp_all add: sample_health_def)
  have "health_check sample_health (arrivals ?r [''db''] @ [ContextDone ?err]) = Some (expected_result {''redis'', ''db''} ?r [''db''] ?err)"
    using health_check_outcome [OF d, of "[''db'']" ?r ?err] by (simp add: names)
  moreover have "health_check sample_health (arrivals ?r [''db'', ''redis'']) =
      Some (expected_result (set [''db'', ''redis'']) ?r [''db'', ''redis''] ?err)"
    using health_check_outcome [OF d, of "[''db'', ''redis'']" ?r ?err] by (simp add: names insert_commute)
  moreover have "set [''db''] \<noteq> {''redis'', ''db''}" by auto
  ultimately show ?thesis
    by (simp add: expected_result_def serve_health_def ping_check_def worst_def)
qed

end
