(* ===== verification/Config_Secret.thy ===== *)
theory Config_Secret
  imports Go_Base64
begin

text \<open>
  Encrypted configuration values (config/secret.go): the markers \<open>ENC[payload]\<close> and \<open>ENC(plaintext)\<close>, the cipher and the walks over
  decoded configuration trees.

  AES-256-GCM of the utility package is the record \<open>gcm\<close>; the source of nonces is a function from the number of the draw to its
  result. A tree that Go changes in place is returned changed, next to the error that ended the walk, if any: the
  entries visited before the error keep their new values. A map is listed in the order in which Go visits it.
\<close>

subsection \<open>Cipher\<close>

record gcm =
  gcm_nonce_size :: nat
  gcm_seal :: "string \<Rightarrow> string \<Rightarrow> string \<Rightarrow> string \<Rightarrow> string res"
  gcm_open :: "string \<Rightarrow> string \<Rightarrow> string \<Rightarrow> string \<Rightarrow> string res"

text \<open>\<open>gcm_seal plaintext key nonce aad\<close> and \<open>gcm_open ciphertext key nonce aad\<close>, in the argument order of the package.\<close>

definition secret_key_id :: string where "secret_key_id = ''kratos-kit:config''"
definition secret_cipher_prefix :: string where "secret_cipher_prefix = ''ENC[''"
definition secret_marker_prefix :: string where "secret_marker_prefix = ''ENC(''"

definition err_invalid_secret_cipher :: go_err where
  "err_invalid_secret_cipher = Sentinel ''config: invalid secret cipher''"
definition err_invalid_secret_value :: go_err where
  "err_invalid_secret_value = Sentinel ''config: invalid secret value''"

text \<open>A \<open>*SecretCipher\<close>: \<open>None\<close> is the nil pointer.\<close>

type_synonym secret_cipher = "string option"

definition new_secret_cipher :: "string \<Rightarrow> secret_cipher res" where
  "new_secret_cipher key = (if length key \<noteq> 32 then Inl err_invalid_secret_cipher else Inr (Some key))"

definition parse_secret_value :: "string \<Rightarrow> string res" where
  "parse_secret_value value =
     (if \<not> has_prefix value secret_cipher_prefix \<or> \<not> has_suffix value '']'' then Inl err_invalid_secret_value
      else let content = trim_suffix (trim_prefix value secret_cipher_prefix) '']'' in
        if content = [] \<or> CHR '':'' \<in> set content \<or> CHR '']'' \<in> set content then Inl err_invalid_secret_value
        else Inr content)"

definition is_encrypted :: "string \<Rightarrow> bool" where
  "is_encrypted value = (has_prefix value secret_cipher_prefix \<and> is_ok (parse_secret_value value))"

text \<open>The nonces: the result of each read of \<open>rand.Reader\<close>, and how many have been read.\<close>

type_synonym nonces = "nat \<Rightarrow> string res"

definition encrypt :: "gcm \<Rightarrow> secret_cipher \<Rightarrow> nonces \<Rightarrow> string \<Rightarrow> nat \<Rightarrow> string res \<times> nat" where
  "encrypt g c rand plaintext n =
     (if plaintext = [] \<or> is_encrypted plaintext then (Inr plaintext, n)
      else case c of
        None \<Rightarrow> (Inl err_invalid_secret_cipher, n)
      | Some key \<Rightarrow>
          (case rand n of
             Inl e \<Rightarrow> (Inl (WrapErr ''config: generate secret nonce'' e), Suc n)
           | Inr nonce \<Rightarrow>
               (case gcm_seal g plaintext key nonce secret_key_id of
                  Inl e \<Rightarrow> (Inl (WrapErr ''config: encrypt secret value'' e), Suc n)
                | Inr ciphertext \<Rightarrow>
                    (Inr (secret_cipher_prefix @ b64_encode (nonce @ ciphertext) @ '']''), Suc n))))"

definition decrypt_ciphertext :: "gcm \<Rightarrow> string \<Rightarrow> string \<Rightarrow> string res" where
  "decrypt_ciphertext g key value =
     res_bind (parse_secret_value value) (\<lambda>payload.
       case b64_decode payload of
         None \<Rightarrow> Inl (WrapErr ''config: decode secret value'' (NewErr ''illegal base64 data''))
       | Some encoded \<Rightarrow>
           if length encoded < gcm_nonce_size g then Inl err_invalid_secret_value
           else (case gcm_open g (drop (gcm_nonce_size g) encoded) key (take (gcm_nonce_size g) encoded) secret_key_id of
                   Inl e \<Rightarrow> Inl (WrapErr ''config: decrypt secret value'' e)
                 | Inr plaintext \<Rightarrow> Inr plaintext))"

text \<open>
  The loop of \<open>decryptSecretValue\<close>: what is left of the value at the cursor is the argument, the text after the cursor. Every round
  consumes at least the prefix it found.
\<close>

function decrypt_secret_value :: "gcm \<Rightarrow> string \<Rightarrow> string \<Rightarrow> string res" where
  "decrypt_secret_value g key value =
     (case str_index value secret_cipher_prefix of
        None \<Rightarrow> Inr value
      | Some start \<Rightarrow>
          (case index_byte (drop start value) (CHR '']'') of
             None \<Rightarrow> Inl err_invalid_secret_value
           | Some len \<Rightarrow>
               res_bind (decrypt_ciphertext g key (take (Suc len) (drop start value))) (\<lambda>plaintext.
                 res_bind (decrypt_secret_value g key (drop (Suc len) (drop start value))) (\<lambda>rest.
                   Inr (take start value @ plaintext @ rest)))))"
  by pat_completeness auto
termination
proof (relation "measure (\<lambda>(g, key, value). length value)", simp)
  fix g :: gcm and key v plaintext :: string and start len :: nat
  assume "str_index v secret_cipher_prefix = Some start"
  then have "length v \<noteq> 0" using str_index_Some by (fastforce simp: secret_cipher_prefix_def)
  then show "((g, key, drop (Suc len) (drop start v)), g, key, v) \<in> measure (\<lambda>(g, key, value). length value)"
    by simp
qed

declare decrypt_secret_value.simps [simp del]

definition decrypt :: "gcm \<Rightarrow> secret_cipher \<Rightarrow> string \<Rightarrow> string res" where
  "decrypt g c value =
     (if value = [] \<or> \<not> str_contains value secret_cipher_prefix then Inr value
      else case c of
        None \<Rightarrow> Inl err_invalid_secret_cipher
      | Some key \<Rightarrow> decrypt_secret_value g key value)"

text \<open>The loop of \<open>encryptMarkedValue\<close>, likewise.\<close>

function encrypt_marks :: "gcm \<Rightarrow> secret_cipher \<Rightarrow> nonces \<Rightarrow> string \<Rightarrow> nat \<Rightarrow> string res \<times> nat" where
  "encrypt_marks g c rand value n =
     (case str_index value secret_marker_prefix of
        None \<Rightarrow> (Inr value, n)
      | Some start \<Rightarrow>
          (let inner = drop (start + length secret_marker_prefix) value in
           case index_byte inner (CHR '')'') of
             None \<Rightarrow> (Inl err_invalid_secret_value, n)
           | Some len \<Rightarrow>
               (case encrypt g c rand (take len inner) n of
                  (Inl e, n') \<Rightarrow> (Inl e, n')
                | (Inr encrypted, n') \<Rightarrow>
                    (case encrypt_marks g c rand (drop (Suc len) inner) n' of
                       (Inl e, n'') \<Rightarrow> (Inl e, n'')
                     | (Inr rest, n'') \<Rightarrow> (Inr (take start value @ encrypted @ rest), n'')))))"
  by pat_completeness auto
termination
proof (relation "measure (\<lambda>(g, c, rand, value, n). length value)", simp)
  fix g :: gcm and c :: secret_cipher and rand :: nonces and v inner enc :: string and n n' start len :: nat
    and r :: "string res \<times> nat" and a :: "string res"
  assume "str_index v secret_marker_prefix = Some start" and i: "inner = drop (start + length secret_marker_prefix) v"
  then have "length v \<noteq> 0" using str_index_Some by (fastforce simp: secret_marker_prefix_def)
  with i show "((g, c, rand, drop (Suc len) inner, n'), g, c, rand, v, n) \<in> measure (\<lambda>(g, c, rand, value, n). length value)"
    by simp
qed

declare encrypt_marks.simps [simp del]

text \<open>The result, whether a marker was found, and the nonces read.\<close>

definition encrypt_marked_value :: "gcm \<Rightarrow> secret_cipher \<Rightarrow> nonces \<Rightarrow> string \<Rightarrow> nat \<Rightarrow> (string \<times> bool) res \<times> nat" where
  "encrypt_marked_value g c rand value n =
     (if \<not> str_contains value secret_marker_prefix then (Inr (value, False), n)
      else case encrypt_marks g c rand value n of
        (Inl e, n') \<Rightarrow> (Inl e, n')
      | (Inr v, n') \<Rightarrow> (Inr (v, True), n'))"

subsection \<open>Configuration trees\<close>

text \<open>What a codec decodes to: strings, byte values, \<open>map[string]any\<close>, \<open>map[any]any\<close> with its keys as \<open>%v\<close> prints them, lists,
  and every other scalar. Error prefixes name the key as it is.\<close>

datatype cfg =
    CStr string
  | CBytes string
  | CScalar string
  | CMap "(string \<times> cfg) list"
  | CAnyMap "(string \<times> cfg) list"
  | CArr "cfg list"

fun decrypt_config_value :: "gcm \<Rightarrow> secret_cipher \<Rightarrow> cfg \<Rightarrow> go_err option \<times> cfg"
  and decrypt_child :: "gcm \<Rightarrow> secret_cipher \<Rightarrow> cfg \<Rightarrow> go_err option \<times> cfg"
  and decrypt_entries :: "gcm \<Rightarrow> secret_cipher \<Rightarrow> (string \<times> cfg) list \<Rightarrow> go_err option \<times> (string \<times> cfg) list"
  and decrypt_items :: "gcm \<Rightarrow> secret_cipher \<Rightarrow> nat \<Rightarrow> cfg list \<Rightarrow> go_err option \<times> cfg list" where
  "decrypt_config_value g c (CMap es) = map_prod id CMap (decrypt_entries g c es)"
| "decrypt_config_value g c (CAnyMap es) = map_prod id CAnyMap (decrypt_entries g c es)"
| "decrypt_config_value g c (CArr xs) = map_prod id CArr (decrypt_items g c 0 xs)"
| "decrypt_config_value g c (CStr t) = (None, CStr t)"
| "decrypt_config_value g c (CBytes t) = (None, CBytes t)"
| "decrypt_config_value g c (CScalar t) = (None, CScalar t)"
| "decrypt_child g c (CStr t) =
     (case decrypt g c t of Inl e \<Rightarrow> (Some e, CStr t) | Inr plaintext \<Rightarrow> (None, CStr plaintext))"
| "decrypt_child g c (CMap es) = map_prod id CMap (decrypt_entries g c es)"
| "decrypt_child g c (CAnyMap es) = map_prod id CAnyMap (decrypt_entries g c es)"
| "decrypt_child g c (CArr xs) = map_prod id CArr (decrypt_items g c 0 xs)"
| "decrypt_child g c (CBytes t) = (None, CBytes t)"
| "decrypt_child g c (CScalar t) = (None, CScalar t)"
| "decrypt_entries g c [] = (None, [])"
| "decrypt_entries g c ((k, child) # es) =
     (case decrypt_child g c child of
        (Some e, child') \<Rightarrow> (Some (WrapErr (''field '' @ k) e), (k, child') # es)
      | (None, child') \<Rightarrow> map_prod id ((#) (k, child')) (decrypt_entries g c es))"
| "decrypt_items g c i [] = (None, [])"
| "decrypt_items g c i (child # xs) =
     (case decrypt_child g c child of
        (Some e, child') \<Rightarrow> (Some (WrapErr (''item '' @ show_nat i) e), child' # xs)
      | (None, child') \<Rightarrow> map_prod id ((#) child') (decrypt_items g c (Suc i) xs))"

text \<open>The encrypting walk also counts the nonces read.\<close>

fun encrypt_value :: "gcm \<Rightarrow> secret_cipher \<Rightarrow> nonces \<Rightarrow> cfg \<Rightarrow> nat \<Rightarrow> go_err option \<times> cfg \<times> nat"
  and encrypt_child :: "gcm \<Rightarrow> secret_cipher \<Rightarrow> nonces \<Rightarrow> cfg \<Rightarrow> nat \<Rightarrow> go_err option \<times> cfg \<times> nat"
  and encrypt_entries :: "gcm \<Rightarrow> secret_cipher \<Rightarrow> nonces \<Rightarrow> (string \<times> cfg) list \<Rightarrow> nat \<Rightarrow> go_err option \<times> (string \<times> cfg) list \<times> nat"
  and encrypt_items :: "gcm \<Rightarrow> secret_cipher \<Rightarrow> nonces \<Rightarrow> nat \<Rightarrow> cfg list \<Rightarrow> nat \<Rightarrow> go_err option \<times> cfg list \<times> nat" where
  "encrypt_value g c rand (CMap es) n = map_prod id (map_prod CMap id) (encrypt_entries g c rand es n)"
| "encrypt_value g c rand (CAnyMap es) n = map_prod id (map_prod CAnyMap id) (encrypt_entries g c rand es n)"
| "encrypt_value g c rand (CArr xs) n = map_prod id (map_prod CArr id) (encrypt_items g c rand 0 xs n)"
| "encrypt_value g c rand (CStr t) n = (None, CStr t, n)"
| "encrypt_value g c rand (CBytes t) n = (None, CBytes t, n)"
| "encrypt_value g c rand (CScalar t) n = (None, CScalar t, n)"
| "encrypt_child g c rand (CStr t) n =
     (case encrypt_marked_value g c rand t n of
        (Inl e, n') \<Rightarrow> (Some e, CStr t, n')
      | (Inr (encrypted, marked), n') \<Rightarrow> (None, CStr (if marked then encrypted else t), n'))"
| "encrypt_child g c rand (CMap es) n = map_prod id (map_prod CMap id) (encrypt_entries g c rand es n)"
| "encrypt_child g c rand (CAnyMap es) n = map_prod id (map_prod CAnyMap id) (encrypt_entries g c rand es n)"
| "encrypt_child g c rand (CArr xs) n = map_prod id (map_prod CArr id) (encrypt_items g c rand 0 xs n)"
| "encrypt_child g c rand (CBytes t) n = (None, CBytes t, n)"
| "encrypt_child g c rand (CScalar t) n = (None, CScalar t, n)"
| "encrypt_entries g c rand [] n = (None, [], n)"
| "encrypt_entries g c rand ((k, child) # es) n =
     (case encrypt_child g c rand child n of
        (Some e, child', n') \<Rightarrow> (Some (WrapErr (''config: encrypt field '' @ k) e), (k, child') # es, n')
      | (None, child', n') \<Rightarrow> map_prod id (map_prod ((#) (k, child')) id) (encrypt_entries g c rand es n'))"
| "encrypt_items g c rand i [] n = (None, [], n)"
| "encrypt_items g c rand i (child # xs) n =
     (case encrypt_child g c rand child n of
        (Some e, child', n') \<Rightarrow> (Some (WrapErr (''config: encrypt item '' @ show_nat i) e), child' # xs, n')
      | (None, child', n') \<Rightarrow> map_prod id (map_prod ((#) child') id) (encrypt_items g c rand (Suc i) xs n'))"

subsection \<open>Decoder\<close>

text \<open>A codec of the framework: it decodes into a given map, and encodes.\<close>

record codec =
  cd_unmarshal :: "string \<Rightarrow> (string \<times> cfg) list \<Rightarrow> go_err option \<times> (string \<times> cfg) list"
  cd_marshal :: "(string \<times> cfg) list \<Rightarrow> string res"

record key_value =
  kv_key :: string
  kv_value :: string
  kv_format :: string

fun put_entry :: "string \<Rightarrow> cfg \<Rightarrow> (string \<times> cfg) list \<Rightarrow> (string \<times> cfg) list" where
  "put_entry k v [] = [(k, v)]"
| "put_entry k v ((k', v') # es) = (if k = k' then (k, v) # es else (k', v') # put_entry k v es)"

fun put_path :: "string list \<Rightarrow> cfg \<Rightarrow> (string \<times> cfg) list \<Rightarrow> (string \<times> cfg) list" where
  "put_path [] v es = es"
| "put_path [k] v es = put_entry k v es"
| "put_path (k # k' # ks) v es = put_entry k (CMap (put_path (k' # ks) v [])) es"

definition decode_plain_key_value ::
  "gcm \<Rightarrow> secret_cipher \<Rightarrow> key_value \<Rightarrow> (string \<times> cfg) list \<Rightarrow> go_err option \<times> (string \<times> cfg) list" where
  "decode_plain_key_value g c src target =
     (let keys = split_byte (kv_key src) (CHR ''.'') in
      if str_contains (kv_value src) secret_cipher_prefix then
        (case decrypt g c (kv_value src) of
           Inl e \<Rightarrow> (Some (WrapErr (''config: decrypt '' @ kv_key src) e), target)
         | Inr plaintext \<Rightarrow> (None, put_path keys (CStr plaintext) target))
      else (None, put_path keys (CBytes (kv_value src)) target))"

definition decoder ::
  "gcm \<Rightarrow> secret_cipher \<Rightarrow> (string \<Rightarrow> codec option) \<Rightarrow> key_value option \<Rightarrow> (string \<times> cfg) list \<Rightarrow>
     go_err option \<times> (string \<times> cfg) list" where
  "decoder g c codecs source target =
     (case source of
        None \<Rightarrow> (Some err_invalid_secret_value, target)
      | Some src \<Rightarrow>
          if kv_format src = [] then decode_plain_key_value g c src target
          else (case codecs (to_lower (kv_format src)) of
              None \<Rightarrow> (Some (NewErr (''config: unsupported key format '' @ kv_format src)), target)
            | Some cd \<Rightarrow>
                (case cd_unmarshal cd (kv_value src) target of
                   (Some e, target') \<Rightarrow> (Some (WrapErr (''config: decode '' @ kv_key src) e), target')
                 | (None, target') \<Rightarrow>
                     (case decrypt_entries g c target' of
                        (Some e, target'') \<Rightarrow> (Some (WrapErr (''config: decrypt '' @ kv_key src) e), target'')
                      | (None, target'') \<Rightarrow> (None, target'')))))"

definition encrypt_marked_config ::
  "gcm \<Rightarrow> secret_cipher \<Rightarrow> nonces \<Rightarrow> (string \<Rightarrow> codec option) \<Rightarrow> string \<Rightarrow> string \<Rightarrow> nat \<Rightarrow> string res \<times> nat" where
  "encrypt_marked_config g c rand codecs data format n =
     (case codecs (to_lower (trim_prefix format ''.'')) of
        None \<Rightarrow> (Inl (NewErr (''config: unsupported key format '' @ format)), n)
      | Some cd \<Rightarrow>
          (case cd_unmarshal cd data [] of
             (Some e, _) \<Rightarrow> (Inl (WrapErr ''config: decode config'' e), n)
           | (None, values) \<Rightarrow>
               (case encrypt_entries g c rand values n of
                  (Some e, _, n') \<Rightarrow> (Inl e, n')
                | (None, values', n') \<Rightarrow>
                    (case cd_marshal cd values' of
                       Inl e \<Rightarrow> (Inl (WrapErr ''config: encode config'' e), n')
                     | Inr encoded \<Rightarrow> (Inr encoded, n')))))"

subsection \<open>Markers in a text\<close>

lemma not_contains_Cons: "\<not> str_contains (c # t) p \<Longrightarrow> \<not> has_prefix (c # t) p \<and> \<not> str_contains t p"
  by (auto simp: str_contains_def split: if_splits)

text \<open>The two markers have no border: where the text before a marker has none, the marker itself is the first.\<close>

lemma first_marker:
  assumes "x \<notin> {CHR ''E'', CHR ''N'', CHR ''C''}"
  shows "\<not> str_contains t [CHR ''E'', CHR ''N'', CHR ''C'', x] \<Longrightarrow>
    str_index (t @ [CHR ''E'', CHR ''N'', CHR ''C'', x] @ r) [CHR ''E'', CHR ''N'', CHR ''C'', x] = Some (length t)"
proof (induction t)
  case Nil
  show ?case by simp
next
  case (Cons c t)
  let ?p = "[CHR ''E'', CHR ''N'', CHR ''C'', x]"
  from not_contains_Cons [OF Cons.prems] have np: "\<not> has_prefix (c # t) ?p" and nc: "\<not> str_contains t ?p" by auto
  have "\<not> has_prefix (c # t @ ?p @ r) ?p"
  proof (cases "\<exists>a b d u. t = a # b # d # u")
    case True
    with np show ?thesis by auto
  next
    case False
    then consider "t = []" | a where "t = [a]" | a b where "t = [a, b]"
      by (metis neq_Nil_conv)
    then show ?thesis using assms by cases auto
  qed
  with Cons.IH [OF nc] show ?case by simp
qed

lemma marker_index:
  "\<not> str_contains t secret_marker_prefix \<Longrightarrow> str_index (t @ secret_marker_prefix @ r) secret_marker_prefix = Some (length t)"
  "\<not> str_contains t secret_cipher_prefix \<Longrightarrow> str_index (t @ secret_cipher_prefix @ r) secret_cipher_prefix = Some (length t)"
  unfolding secret_marker_prefix_def secret_cipher_prefix_def by (rule first_marker, simp, assumption)+

text \<open>
  \<open>marked value u\<close>: \<open>value\<close> holds no ciphertext, each of its markers \<open>ENC(p)\<close> is closed and not empty, and \<open>u\<close> is \<open>value\<close> with every
  marker replaced by its plaintext.
\<close>

inductive marked :: "string \<Rightarrow> string \<Rightarrow> bool" where
  marked_plain: "\<not> str_contains t secret_marker_prefix \<Longrightarrow> \<not> str_contains t secret_cipher_prefix \<Longrightarrow> marked t t"
| marked_mark: "\<not> str_contains t secret_marker_prefix \<Longrightarrow> \<not> str_contains t secret_cipher_prefix \<Longrightarrow> p \<noteq> [] \<Longrightarrow>
    CHR '')'' \<notin> set p \<Longrightarrow> \<not> has_prefix p secret_cipher_prefix \<Longrightarrow> marked rest u \<Longrightarrow>
    marked (t @ secret_marker_prefix @ p @ '')'' @ rest) (t @ p @ u)"

text \<open>What is used of the cipher: opening what was sealed with the same key, nonce and data gives the plaintext back.\<close>

definition gcm_law :: "gcm \<Rightarrow> bool" where
  "gcm_law g = (0 < gcm_nonce_size g \<and>
     (\<forall>p key nonce aad. length key = 32 \<and> length nonce = gcm_nonce_size g \<longrightarrow>
        (\<exists>ct. gcm_seal g p key nonce aad = Inr ct \<and> gcm_open g ct key nonce aad = Inr p)))"

definition nonces_ok :: "gcm \<Rightarrow> nonces \<Rightarrow> bool" where
  "nonces_ok g rand = (\<forall>n. \<exists>nonce. rand n = Inr nonce \<and> length nonce = gcm_nonce_size g)"

lemma payload_chars: "CHR '']'' \<notin> set (b64_encode s)" "CHR '':'' \<notin> set (b64_encode s)"
  using b64_encode_chars [of _ s] b64_alphabet_facts(3) by (auto simp: list_all_iff)

lemma parse_encoded:
  "s \<noteq> [] \<Longrightarrow> parse_secret_value (secret_cipher_prefix @ b64_encode s @ '']'') = Inr (b64_encode s)"
  by (simp add: parse_secret_value_def payload_chars b64_encode_nil Let_def has_suffix_iff)

lemma encrypt_decrypt:
  assumes "gcm_law g" and "nonces_ok g rand" and "length key = 32" and "p \<noteq> []" and "\<not> has_prefix p secret_cipher_prefix"
  obtains s where "encrypt g (Some key) rand p n = (Inr (secret_cipher_prefix @ b64_encode s @ '']''), Suc n)"
    and "decrypt_ciphertext g key (secret_cipher_prefix @ b64_encode s @ '']'') = Inr p"
proof -
  obtain nonce where nonce: "rand n = Inr nonce" "length nonce = gcm_nonce_size g"
    using assms(2) by (auto simp: nonces_ok_def)
  with assms(1,3) obtain ct where ct: "gcm_seal g p key nonce secret_key_id = Inr ct" "gcm_open g ct key nonce secret_key_id = Inr p"
    unfolding gcm_law_def by metis
  have "nonce @ ct \<noteq> []" using nonce(2) assms(1) by (auto simp: gcm_law_def)
  note parse = parse_encoded [OF this]
  have "encrypt g (Some key) rand p n = (Inr (secret_cipher_prefix @ b64_encode (nonce @ ct) @ '']''), Suc n)"
    using assms(4,5) nonce ct by (simp add: encrypt_def is_encrypted_def)
  moreover have "decrypt_ciphertext g key (secret_cipher_prefix @ b64_encode (nonce @ ct) @ '']'') = Inr p"
    unfolding decrypt_ciphertext_def parse using nonce ct by (simp add: b64_round_trip)
  ultimately show thesis by (rule that)
qed

lemma encrypt_marks_mark:
  assumes "\<not> str_contains t secret_marker_prefix" and "CHR '')'' \<notin> set p"
    and "encrypt g c rand p n = (Inr encrypted, n')"
    and "encrypt_marks g c rand rest n' = (Inr r, n'')"
  shows "encrypt_marks g c rand (t @ secret_marker_prefix @ p @ '')'' @ rest) n = (Inr (t @ encrypted @ r), n'')"
proof -
  have "index_byte (p @ '')'' @ rest) (CHR '')'') = Some (length p)"
    using index_byte_append_notin [OF assms(2)] by simp
  with assms(3,4) show ?thesis
    by (subst encrypt_marks.simps) (simp add: marker_index(1) [OF assms(1), of "p @ '')'' @ rest", simplified] Let_def)
qed

lemma decrypt_secret_value_cipher:
  assumes "\<not> str_contains t secret_cipher_prefix"
    and "decrypt_ciphertext g key (secret_cipher_prefix @ b64_encode s @ '']'') = Inr p"
    and "decrypt_secret_value g key rest = Inr u"
  shows "decrypt_secret_value g key (t @ secret_cipher_prefix @ b64_encode s @ '']'' @ rest) = Inr (t @ p @ u)"
proof -
  let ?c = "secret_cipher_prefix @ b64_encode s"
  have "CHR '']'' \<notin> set ?c" by (simp add: payload_chars secret_cipher_prefix_def)
  then have "index_byte (?c @ '']'' @ rest) (CHR '']'') = Some (length ?c)"
    using index_byte_append_notin by fastforce
  with assms(2,3) show ?thesis
    by (subst decrypt_secret_value.simps)
      (simp add: marker_index(2) [OF assms(1), of "b64_encode s @ '']'' @ rest", simplified])
qed

lemma marked_round_trip:
  assumes "gcm_law g" and "nonces_ok g rand" and "length key = 32"
  shows "marked v u \<Longrightarrow> \<exists>enc n'. encrypt_marks g (Some key) rand v n = (Inr enc, n') \<and> decrypt_secret_value g key enc = Inr u"
proof (induction arbitrary: n rule: marked.induct)
  case (marked_plain t)
  then show ?case
    by (simp add: encrypt_marks.simps [of _ _ _ t] decrypt_secret_value.simps [of _ _ t] str_contains_def)
next
  case (marked_mark t p rest u)
  obtain s where s: "encrypt g (Some key) rand p n = (Inr (secret_cipher_prefix @ b64_encode s @ '']''), Suc n)"
    "decrypt_ciphertext g key (secret_cipher_prefix @ b64_encode s @ '']'') = Inr p"
    using encrypt_decrypt [OF assms marked_mark.hyps(3,5)] .
  from marked_mark.IH [of "Suc n"] obtain enc n' where
    ih: "encrypt_marks g (Some key) rand rest (Suc n) = (Inr enc, n')" "decrypt_secret_value g key enc = Inr u" by blast
  show ?case
    using encrypt_marks_mark [OF marked_mark.hyps(1,4) s(1) ih(1)]
      decrypt_secret_value_cipher [OF marked_mark.hyps(2) s(2) ih(2)] by simp
qed

lemma marked_text:
  assumes "gcm_law g" and "nonces_ok g rand" and "length key = 32" and "marked v u"
  obtains enc m n' where "encrypt_marked_value g (Some key) rand v n = (Inr (enc, m), n')" and "decrypt g (Some key) enc = Inr u"
    and "m = False \<Longrightarrow> enc = v"
proof -
  have decrypt: "decrypt g (Some key) x = decrypt_secret_value g key x" for x
    by (auto simp: decrypt_def str_contains_def decrypt_secret_value.simps [of _ _ x] secret_cipher_prefix_def)
  obtain enc n' where "encrypt_marks g (Some key) rand v n = (Inr enc, n')" "decrypt_secret_value g key enc = Inr u"
    using marked_round_trip [OF assms] by blast
  with that [of enc True n'] that [of v False n] show thesis
    by (cases "str_contains v secret_marker_prefix")
      (auto simp: encrypt_marked_value_def decrypt str_contains_def encrypt_marks.simps [of _ _ _ v])
qed

subsection \<open>Markers in a tree\<close>

text \<open>A tree and the one with every marker of its string leaves replaced.\<close>

inductive marked_child :: "cfg \<Rightarrow> cfg \<Rightarrow> bool"
  and marked_entries :: "(string \<times> cfg) list \<Rightarrow> (string \<times> cfg) list \<Rightarrow> bool"
  and marked_items :: "cfg list \<Rightarrow> cfg list \<Rightarrow> bool" where
  "marked v u \<Longrightarrow> marked_child (CStr v) (CStr u)"
| "marked_child (CBytes t) (CBytes t)"
| "marked_child (CScalar t) (CScalar t)"
| "marked_entries es fs \<Longrightarrow> marked_child (CMap es) (CMap fs)"
| "marked_entries es fs \<Longrightarrow> marked_child (CAnyMap es) (CAnyMap fs)"
| "marked_items xs ys \<Longrightarrow> marked_child (CArr xs) (CArr ys)"
| "marked_entries [] []"
| "marked_child x y \<Longrightarrow> marked_entries es fs \<Longrightarrow> marked_entries ((k, x) # es) ((k, y) # fs)"
| "marked_items [] []"
| "marked_child x y \<Longrightarrow> marked_items xs ys \<Longrightarrow> marked_items (x # xs) (y # ys)"

lemma marked_tree:
  assumes "gcm_law g" and "nonces_ok g rand" and "length key = 32"
  shows "marked_child x y \<Longrightarrow>
      \<forall>n. \<exists>x' n'. encrypt_child g (Some key) rand x n = (None, x', n') \<and> decrypt_child g (Some key) x' = (None, y)"
    and "marked_entries es fs \<Longrightarrow>
      \<forall>n. \<exists>es' n'. encrypt_entries g (Some key) rand es n = (None, es', n') \<and> decrypt_entries g (Some key) es' = (None, fs)"
    and "marked_items xs ys \<Longrightarrow>
      \<forall>n i. \<exists>xs' n'. encrypt_items g (Some key) rand i xs n = (None, xs', n') \<and>
        (\<forall>j. decrypt_items g (Some key) j xs' = (None, ys))"
proof (induction rule: marked_child_marked_entries_marked_items.inducts)
  case (1 v u)
  show ?case
  proof
    fix n
    obtain enc m n' where "encrypt_marked_value g (Some key) rand v n = (Inr (enc, m), n')" "decrypt g (Some key) enc = Inr u"
      "m = False \<Longrightarrow> enc = v" using marked_text [OF assms 1] by metis
    then show "\<exists>x' n'. encrypt_child g (Some key) rand (CStr v) n = (None, x', n') \<and>
        decrypt_child g (Some key) x' = (None, CStr u)" by auto
  qed
next
  case (4 es fs)
  show ?case
  proof
    fix n
    from 4 obtain es' n' where "encrypt_entries g (Some key) rand es n = (None, es', n')" "decrypt_entries g (Some key) es' = (None, fs)"
      by metis
    then show "\<exists>x' n'. encrypt_child g (Some key) rand (CMap es) n = (None, x', n') \<and> decrypt_child g (Some key) x' = (None, CMap fs)"
      by simp
  qed
next
  case (5 es fs)
  show ?case
  proof
    fix n
    from 5 obtain es' n' where "encrypt_entries g (Some key) rand es n = (None, es', n')" "decrypt_entries g (Some key) es' = (None, fs)"
      by metis
    then show "\<exists>x' n'. encrypt_child g (Some key) rand (CAnyMap es) n = (None, x', n') \<and> decrypt_child g (Some key) x' = (None, CAnyMap fs)"
      by simp
  qed
next
  case (6 xs ys)
  show ?case
  proof
    fix n
    from 6 obtain xs' n' where "encrypt_items g (Some key) rand 0 xs n = (None, xs', n')" "decrypt_items g (Some key) 0 xs' = (None, ys)"
      by metis
    then show "\<exists>x' n'. encrypt_child g (Some key) rand (CArr xs) n = (None, x', n') \<and> decrypt_child g (Some key) x' = (None, CArr ys)"
      by simp
  qed
next
  case (8 x y es fs k)
  show ?case
  proof
    fix n
    from 8 obtain x' m where x: "encrypt_child g (Some key) rand x n = (None, x', m)" "decrypt_child g (Some key) x' = (None, y)"
      by metis
    from 8 obtain es' m' where "encrypt_entries g (Some key) rand es m = (None, es', m')" "decrypt_entries g (Some key) es' = (None, fs)"
      by metis
    with x show "\<exists>es' n'. encrypt_entries g (Some key) rand ((k, x) # es) n = (None, es', n') \<and>
        decrypt_entries g (Some key) es' = (None, (k, y) # fs)" by simp
  qed
next
  case (10 x y xs ys)
  show ?case
  proof (intro allI)
    fix n i
    from 10 obtain x' m where x: "encrypt_child g (Some key) rand x n = (None, x', m)" "decrypt_child g (Some key) x' = (None, y)"
      by metis
    from 10 obtain xs' m' where "encrypt_items g (Some key) rand (Suc i) xs m = (None, xs', m')"
      "\<forall>j. decrypt_items g (Some key) j xs' = (None, ys)" by metis
    with x show "\<exists>xs' n'. encrypt_items g (Some key) rand i (x # xs) n = (None, xs', n') \<and>
        (\<forall>j. decrypt_items g (Some key) j xs' = (None, y # ys))" by simp
  qed
qed simp_all

text \<open>C8: Whoever encrypts the markers of a configuration and loads the result through the decoder gets the configuration back with every
  \<open>ENC(p)\<close> replaced by \<open>p\<close>, in nested maps and lists alike, when the codec reads back what it wrote.\<close>

theorem secret_config_round_trip:
  assumes "gcm_law g" and "nonces_ok g rand" and "length key = 32"
    and "codecs (to_lower format) = Some cd" and "format \<noteq> []" and "\<not> has_prefix format ''.''"
    and "cd_unmarshal cd data [] = (None, es)" and "marked_entries es fs"
    and "encrypt_entries g (Some key) rand es n = (r, es', n')"
    and "cd_marshal cd es' = Inr written" and "cd_unmarshal cd written [] = (None, es')"
  shows "encrypt_marked_config g (Some key) rand codecs data format n = (Inr written, n') \<and>
    decoder g (Some key) codecs (Some \<lparr>kv_key = k, kv_value = written, kv_format = format\<rparr>) [] = (None, fs)"
proof -
  have "r = None" "decrypt_entries g (Some key) es' = (None, fs)"
    using marked_tree(2) [OF assms(1-3,8)] assms(9) by (metis Pair_inject)+
  moreover have "trim_prefix format ''.'' = format" using assms(6) by (simp add: trim_prefix_def)
  ultimately show ?thesis
    using assms(4,5,7,9-11) by (simp add: encrypt_marked_config_def decoder_def)
qed

text \<open>A cipher that only prepends the key, and a codec for one entry whose text is the file.\<close>

definition plain_gcm :: gcm where
  "plain_gcm = \<lparr>gcm_nonce_size = 1, gcm_seal = (\<lambda>p key nonce aad. Inr (key @ p)),
     gcm_open = (\<lambda>ct key nonce aad. Inr (drop (length key) ct))\<rparr>"

definition line_codec :: codec where
  "line_codec = \<lparr>cd_unmarshal = (\<lambda>line target. (None, put_entry ''password'' (CStr line) target)),
     cd_marshal = (\<lambda>vs. case vs of [(k, CStr line)] \<Rightarrow> Inr line | _ \<Rightarrow> Inl (NewErr ''marshal''))\<rparr>"

theorem secret_config_round_trip_witness:
  "let codecs = (\<lambda>f. if f = ''line'' then Some line_codec else None);
       key = Some (replicate 32 (CHR ''k''));
       out = fst (encrypt_marked_config plain_gcm key (\<lambda>_. Inr ''n'') codecs ''a ENC(pw) b'' ''line'' 0)
   in (\<exists>written. out = Inr written \<and> written \<noteq> ''a ENC(pw) b'' \<and>
     decoder plain_gcm key codecs (Some \<lparr>kv_key = [], kv_value = written, kv_format = ''line''\<rparr>) [] =
       (None, [(''password'', CStr ''a pw b'')]))"
proof -
  let ?codecs = "\<lambda>f. if f = ''line'' then Some line_codec else None"
  let ?key = "replicate 32 (CHR ''k'')"
  have law: "gcm_law plain_gcm" "nonces_ok plain_gcm (\<lambda>_. Inr ''n'')" "length ?key = 32"
    by (simp_all add: gcm_law_def nonces_ok_def plain_gcm_def)
  have "marked (''a '' @ secret_marker_prefix @ ''pw'' @ '')'' @ '' b'') (''a '' @ ''pw'' @ '' b'')"
    by (intro marked.intros) (simp_all add: secret_marker_prefix_def secret_cipher_prefix_def str_contains_def)
  then have m: "marked ''a ENC(pw) b'' ''a pw b''" by (simp add: secret_marker_prefix_def)
  then have ms: "marked_entries [(''password'', CStr ''a ENC(pw) b'')] [(''password'', CStr ''a pw b'')]"
    by (intro marked_child_marked_entries_marked_items.intros)
  obtain enc b n' where e: "encrypt_marked_value plain_gcm (Some ?key) (\<lambda>_. Inr ''n'') ''a ENC(pw) b'' 0 = (Inr (enc, b), n')"
    "decrypt plain_gcm (Some ?key) enc = Inr ''a pw b''"
    using marked_text [OF law m] by metis
  have "decrypt plain_gcm (Some ?key) ''a ENC(pw) b'' = Inr ''a ENC(pw) b''"
    by (simp add: decrypt_def str_contains_def secret_cipher_prefix_def)
  with e(2) have ne: "enc \<noteq> ''a ENC(pw) b''" by auto
  then have b: "b" using e(1)
    by (auto simp: encrypt_marked_value_def split: if_splits sum.splits prod.splits)
  have "encrypt_marked_config plain_gcm (Some ?key) (\<lambda>_. Inr ''n'') ?codecs ''a ENC(pw) b'' ''line'' 0 = (Inr enc, n') \<and>
    decoder plain_gcm (Some ?key) ?codecs (Some \<lparr>kv_key = [], kv_value = enc, kv_format = ''line''\<rparr>) [] =
      (None, [(''password'', CStr ''a pw b'')])"
    by (rule secret_config_round_trip [OF law _ _ _ _ ms, where cd = line_codec and r = None and es' = "[(''password'', CStr enc)]"])
      (use e(1) b in \<open>simp_all add: line_codec_def to_lower_def ascii_lower_def\<close>)
  with ne show ?thesis by (auto simp: Let_def)
qed

end
