(* ===== verification/Locker_Memory.thy ===== *)
theory Locker_Memory
  imports Go_Base
begin

text \<open>
  The in-process locker locker/memory/memory.go: one try-lock per key, kept in a reference-counted entry that the last user
  removes from the map.

  An attempt is one call of \<open>Acquire\<close> together with the lease it may return. Its program counter says which of its atomic
  sections comes next; the sections of different attempts interleave freely (\<open>locker_step\<close>). Entries are addressed,
  because \<open>Acquire\<close> and \<open>Release\<close> keep a pointer to the entry they found in the map. The channel of capacity one is
  \<open>kl_sem\<close>: whether it is full.
\<close>

record key_lock =
  kl_sem :: bool
  kl_refs :: int

datatype attempt =
    Idle
  | Entered string nat
  | Refused string nat
  | Holding string nat
  | Releasing string nat
  | Ended

record locker =
  lk_locks :: "string \<rightharpoonup> nat"
  lk_entries :: "nat \<Rightarrow> key_lock"
  lk_next :: nat
  lk_attempts :: "nat \<Rightarrow> attempt"

definition new_locker :: locker where
  "new_locker = \<lparr>lk_locks = Map.empty, lk_entries = (\<lambda>_. \<lparr>kl_sem = False, kl_refs = 0\<rparr>), lk_next = 0, lk_attempts = (\<lambda>_. Idle)\<rparr>"

text \<open>The tests of \<open>Acquire\<close> before it touches the map; the locker may be nil, the context done.\<close>

definition acquire_check :: "bool \<Rightarrow> string \<Rightarrow> go_err option \<Rightarrow> go_err option" where
  "acquire_check nil_locker key ctx_err =
     (if nil_locker then Some (NewErr ''locker not initialised'')
      else if key = [] then Some (NewErr ''empty lock key'')
      else ctx_err)"

definition set_attempt :: "nat \<Rightarrow> attempt \<Rightarrow> locker \<Rightarrow> locker" where
  "set_attempt t a s = s\<lparr>lk_attempts := (lk_attempts s)(t := a)\<rparr>"

text \<open>Under the mutex: find or create the entry and take a reference.\<close>

definition acquire_enter :: "nat \<Rightarrow> string \<Rightarrow> locker \<Rightarrow> locker" where
  "acquire_enter t key s =
     (let (i, s) = (case lk_locks s key of
          Some i \<Rightarrow> (i, s)
        | None \<Rightarrow> (lk_next s, s\<lparr>lk_next := Suc (lk_next s), lk_locks := (lk_locks s)(key \<mapsto> lk_next s),
            lk_entries := (lk_entries s)(lk_next s := \<lparr>kl_sem = False, kl_refs = 0\<rparr>)\<rparr>));
          e = lk_entries s i
      in set_attempt t (Entered key i) (s\<lparr>lk_entries := (lk_entries s)(i := e\<lparr>kl_refs := kl_refs e + 1\<rparr>)\<rparr>))"

text \<open>The select: fill the channel or fail.\<close>

definition acquire_try :: "nat \<Rightarrow> string \<Rightarrow> nat \<Rightarrow> locker \<Rightarrow> locker" where
  "acquire_try t key i s =
     (let e = lk_entries s i in
      if kl_sem e then set_attempt t (Refused key i) s
      else set_attempt t (Holding key i) (s\<lparr>lk_entries := (lk_entries s)(i := e\<lparr>kl_sem := True\<rparr>)\<rparr>))"

text \<open>Under the mutex: give the reference back, removing the entry with the last one. Both the failed \<open>Acquire\<close> and \<open>Release\<close> end so.\<close>

definition drop_ref :: "nat \<Rightarrow> string \<Rightarrow> nat \<Rightarrow> locker \<Rightarrow> locker" where
  "drop_ref t key i s =
     (let e = lk_entries s i; refs = kl_refs e - 1;
          s = s\<lparr>lk_entries := (lk_entries s)(i := e\<lparr>kl_refs := refs\<rparr>)\<rparr>;
          s = (if refs = 0 \<and> lk_locks s key = Some i then s\<lparr>lk_locks := (lk_locks s)(key := None)\<rparr> else s)
      in set_attempt t Ended s)"

text \<open>\<open>Release\<close> first drains the channel; it would block on an empty one.\<close>

definition release_drain :: "nat \<Rightarrow> string \<Rightarrow> nat \<Rightarrow> locker \<Rightarrow> locker" where
  "release_drain t key i s =
     set_attempt t (Releasing key i) (s\<lparr>lk_entries := (lk_entries s)(i := (lk_entries s i)\<lparr>kl_sem := False\<rparr>)\<rparr>)"

inductive locker_step :: "locker \<Rightarrow> locker \<Rightarrow> bool" where
  enter: "lk_attempts s t = Idle \<Longrightarrow> acquire_check False key None = None \<Longrightarrow> locker_step s (acquire_enter t key s)"
| attempt_try: "lk_attempts s t = Entered key i \<Longrightarrow> locker_step s (acquire_try t key i s)"
| abandon: "lk_attempts s t = Refused key i \<Longrightarrow> locker_step s (drop_ref t key i s)"
| drain: "lk_attempts s t = Holding key i \<Longrightarrow> kl_sem (lk_entries s i) \<Longrightarrow> locker_step s (release_drain t key i s)"
| finish: "lk_attempts s t = Releasing key i \<Longrightarrow> locker_step s (drop_ref t key i s)"

inductive locker_reachable :: "locker \<Rightarrow> bool" where
  start: "locker_reachable new_locker"
| step: "locker_reachable s \<Longrightarrow> locker_step s s' \<Longrightarrow> locker_reachable s'"

inductive_cases locker_stepE: "locker_step s s'"

subsection \<open>Invariant\<close>

text \<open>The key and entry of an attempt that has a reference.\<close>

fun attempt_at :: "attempt \<Rightarrow> (string \<times> nat) option" where
  "attempt_at (Entered k i) = Some (k, i)"
| "attempt_at (Refused k i) = Some (k, i)"
| "attempt_at (Holding k i) = Some (k, i)"
| "attempt_at (Releasing k i) = Some (k, i)"
| "attempt_at Idle = None"
| "attempt_at Ended = None"

definition users :: "locker \<Rightarrow> nat \<Rightarrow> nat set" where
  "users s i = {t. \<exists>k. attempt_at (lk_attempts s t) = Some (k, i)}"

definition holders :: "locker \<Rightarrow> nat \<Rightarrow> nat set" where
  "holders s i = {t. \<exists>k. lk_attempts s t = Holding k i}"

definition refs_ok :: "locker \<Rightarrow> bool" where
  "refs_ok s = (\<forall>i. finite (users s i) \<and> kl_refs (lk_entries s i) = int (card (users s i)))"

definition sem_ok :: "locker \<Rightarrow> bool" where
  "sem_ok s = (\<forall>i. if kl_sem (lk_entries s i) then \<exists>t. holders s i = {t} else holders s i = {})"

definition map_ok :: "locker \<Rightarrow> bool" where
  "map_ok s =
     ((\<forall>t k i. attempt_at (lk_attempts s t) = Some (k, i) \<longrightarrow> lk_locks s k = Some i) \<and>
      (\<forall>k i. lk_locks s k = Some i \<longrightarrow> users s i \<noteq> {} \<and> i < lk_next s) \<and>
      (\<forall>k k' i. lk_locks s k = Some i \<longrightarrow> lk_locks s k' = Some i \<longrightarrow> k = k'))"

definition locker_inv :: "locker \<Rightarrow> bool" where
  "locker_inv s = (refs_ok s \<and> sem_ok s \<and> map_ok s)"

text \<open>How a change of one attempt changes the users and holders of an entry.\<close>

lemma users_set_attempt:
  "users (set_attempt t a s) i =
     (if \<exists>k. attempt_at a = Some (k, i) then insert t (users s i) else users s i - {t})"
  by (auto simp: users_def set_attempt_def)

lemma holders_set_attempt:
  "holders (set_attempt t a s) i = (if \<exists>k. a = Holding k i then insert t (holders s i) else holders s i - {t})"
  by (auto simp: holders_def set_attempt_def)

lemma users_fields [simp]:
  "users (s\<lparr>lk_entries := e\<rparr>) = users s" "users (s\<lparr>lk_locks := l\<rparr>) = users s" "users (s\<lparr>lk_next := n\<rparr>) = users s"
  "holders (s\<lparr>lk_entries := e\<rparr>) = holders s" "holders (s\<lparr>lk_locks := l\<rparr>) = holders s" "holders (s\<lparr>lk_next := n\<rparr>) = holders s"
  by (auto simp: users_def holders_def)

lemma set_attempt_fields [simp]:
  "lk_locks (set_attempt t a s) = lk_locks s" "lk_entries (set_attempt t a s) = lk_entries s" "lk_next (set_attempt t a s) = lk_next s"
  "lk_attempts (set_attempt t a s) = (lk_attempts s)(t := a)"
  by (simp_all add: set_attempt_def)

lemma inv_facts:
  assumes "locker_inv s"
  shows "finite (users s i)" and "kl_refs (lk_entries s i) = int (card (users s i))"
    and "kl_sem (lk_entries s i) \<Longrightarrow> \<exists>t. holders s i = {t}" and "\<not> kl_sem (lk_entries s i) \<Longrightarrow> holders s i = {}"
    and "attempt_at (lk_attempts s t) = Some (k, i) \<Longrightarrow> lk_locks s k = Some i"
    and "lk_locks s k = Some i \<Longrightarrow> users s i \<noteq> {} \<and> i < lk_next s"
    and "lk_locks s k = Some i \<Longrightarrow> lk_locks s k' = Some i \<Longrightarrow> k = k'"
  using assms by (auto simp: locker_inv_def refs_ok_def sem_ok_def map_ok_def split: if_splits)

lemma in_users: "t \<in> users s i \<longleftrightarrow> (\<exists>k. attempt_at (lk_attempts s t) = Some (k, i))"
  by (simp add: users_def)

lemma holding_user: "t \<in> holders s i \<Longrightarrow> t \<in> users s i"
  by (auto simp: users_def holders_def)

text \<open>An entry the counter has not reached is unused.\<close>

lemma fresh_entry: "locker_inv s \<Longrightarrow> lk_next s \<le> i \<Longrightarrow> users s i = {}"
  using inv_facts(5,6) by (fastforce simp: in_users)

text \<open>Changing the program counter of an attempt within its entry.\<close>

lemma inv_same_place:
  assumes inv: "locker_inv s" and at: "attempt_at (lk_attempts s t) = Some (k, i)" "attempt_at a = Some (k, i)"
    and e: "kl_refs e = kl_refs (lk_entries s i)"
    and sem: "if kl_sem e then \<exists>u. holders (set_attempt t a s) i = {u} else holders (set_attempt t a s) i = {}"
  shows "locker_inv (set_attempt t a (s\<lparr>lk_entries := (lk_entries s)(i := e)\<rparr>))"
proof -
  let ?s = "set_attempt t a (s\<lparr>lk_entries := (lk_entries s)(i := e)\<rparr>)"
  have users: "users ?s j = users s j" for j
    using at by (auto simp: users_set_attempt in_users)
  have hold: "holders ?s j = holders (set_attempt t a s) j" for j by (simp add: holders_set_attempt)
  have other: "holders (set_attempt t a s) j = holders s j" if "j \<noteq> i" for j
    using that at by (cases "lk_attempts s t"; cases a) (auto simp: holders_set_attempt holders_def)
  have "refs_ok ?s" unfolding refs_ok_def users using inv_facts(1,2) [OF inv] e by auto
  moreover have "sem_ok ?s"
    unfolding sem_ok_def hold
  proof
    fix j
    show "if kl_sem (lk_entries ?s j) then \<exists>u. holders (set_attempt t a s) j = {u} else holders (set_attempt t a s) j = {}"
      using sem other [of j] inv_facts(3,4) [OF inv, of j] by (cases "j = i") auto
  qed
  moreover have "map_ok ?s"
    unfolding map_ok_def users using inv_facts(5-7) [OF inv] at by auto
  ultimately show ?thesis by (simp add: locker_inv_def)
qed

lemma inv_enter:
  assumes inv: "locker_inv s" and idle: "lk_attempts s t = Idle"
  shows "locker_inv (acquire_enter t k s)"
proof -
  have t: "t \<notin> users s i" "t \<notin> holders s i" for i using idle by (simp_all add: in_users holders_def)
  show ?thesis
  proof (cases "lk_locks s k")
    case (Some i)
    let ?s = "acquire_enter t k s"
    have s: "?s = set_attempt t (Entered k i) (s\<lparr>lk_entries := (lk_entries s)(i := (lk_entries s i)\<lparr>kl_refs := kl_refs (lk_entries s i) + 1\<rparr>)\<rparr>)"
      by (simp add: acquire_enter_def Some Let_def)
    have users: "users ?s j = (if j = i then insert t (users s i) else users s j)" for j
      using t by (auto simp: s users_set_attempt)
    have hold: "holders ?s j = holders s j" for j using t by (auto simp: s holders_set_attempt)
    have "refs_ok ?s" unfolding refs_ok_def users using inv_facts(1,2) [OF inv] t by (auto simp: s)
    moreover have "sem_ok ?s" unfolding sem_ok_def hold using inv_facts(3,4) [OF inv] by (auto simp: s)
    moreover have "map_ok ?s" unfolding map_ok_def users using inv_facts(5-7) [OF inv] Some by (auto simp: s)
    ultimately show ?thesis by (simp add: locker_inv_def)
  next
    case None
    let ?s = "acquire_enter t k s" and ?i = "lk_next s"
    have s: "?s = set_attempt t (Entered k ?i) (s\<lparr>lk_next := Suc ?i, lk_locks := (lk_locks s)(k \<mapsto> ?i),
        lk_entries := (lk_entries s)(?i := \<lparr>kl_sem = False, kl_refs = 1\<rparr>)\<rparr>)"
      by (simp add: acquire_enter_def None Let_def)
    have fresh: "users s ?i = {}" using fresh_entry [OF inv] by simp
    then have fresh': "holders s ?i = {}" using holding_user by blast
    have users: "users ?s j = (if j = ?i then {t} else users s j)" for j
      using t fresh by (auto simp: s users_set_attempt)
    have hold: "holders ?s j = holders s j" for j using t by (auto simp: s holders_set_attempt)
    have "refs_ok ?s" unfolding refs_ok_def users using inv_facts(1,2) [OF inv] by (auto simp: s)
    moreover have "sem_ok ?s" unfolding sem_ok_def hold using inv_facts(3,4) [OF inv] fresh' by (auto simp: s)
    moreover have "map_ok ?s"
    proof -
      have fields: "lk_locks ?s = (lk_locks s)(k \<mapsto> ?i)" "lk_attempts ?s = (lk_attempts s)(t := Entered k ?i)" "lk_next ?s = Suc ?i"
        by (simp_all add: s)
      have lt: "j < ?i" if "lk_locks s k' = Some j" for k' j using inv_facts(6) [OF inv that] by simp
      have "lk_locks ?s k' = Some j" if "attempt_at (lk_attempts ?s u) = Some (k', j)" for u k' j
        using that inv_facts(5) [OF inv, of u k' j] None unfolding fields by (auto split: if_splits)
      moreover have "users ?s j \<noteq> {} \<and> j < lk_next ?s" if "lk_locks ?s k' = Some j" for k' j
        using that inv_facts(6) [OF inv, of k' j] unfolding fields users by (auto split: if_splits)
      moreover have "k1 = k2" if "lk_locks ?s k1 = Some j" "lk_locks ?s k2 = Some j" for k1 k2 j
        using that inv_facts(7) [OF inv, of k1 j k2] lt [of k1 j] lt [of k2 j] unfolding fields by (auto split: if_splits)
      ultimately show ?thesis unfolding map_ok_def by blast
    qed
    ultimately show ?thesis by (simp add: locker_inv_def)
  qed
qed

lemma inv_drop:
  assumes inv: "locker_inv s" and at: "attempt_at (lk_attempts s t) = Some (k, i)" and not_held: "t \<notin> holders s i"
  shows "locker_inv (drop_ref t k i s)"
proof -
  let ?s = "drop_ref t k i s"
  have t: "t \<in> users s i" using at by (auto simp: in_users)
  have lock: "lk_locks s k = Some i" using inv_facts(5) [OF inv at] .
  have users: "users ?s j = (if j = i then users s i - {t} else users s j)" for j
    using at by (auto simp: drop_ref_def Let_def users_set_attempt in_users)
  have hold: "holders ?s j = holders s j" for j
    using at not_held by (cases "lk_attempts s t") (auto simp: drop_ref_def Let_def holders_set_attempt holders_def)
  have card: "int (card (users s i - {t})) = kl_refs (lk_entries s i) - 1"
    using inv_facts(1,2) [OF inv, of i] t by (simp add: card_Diff_singleton) (metis One_nat_def card_gt_0_iff empty_iff of_nat_diff Suc_leI of_nat_1)
  then have last: "kl_refs (lk_entries s i) - 1 = 0 \<longleftrightarrow> users s i - {t} = {}"
    using inv_facts(1) [OF inv, of i] by (metis card_eq_0_iff finite_Diff of_nat_eq_0_iff)
  have entries: "lk_entries ?s = (lk_entries s)(i := (lk_entries s i)\<lparr>kl_refs := kl_refs (lk_entries s i) - 1\<rparr>)"
    by (simp add: drop_ref_def Let_def)
  have locks: "lk_locks ?s = (if users s i - {t} = {} then (lk_locks s)(k := None) else lk_locks s)"
    using lock last by (simp add: drop_ref_def Let_def)
  have attempts: "lk_attempts ?s = (lk_attempts s)(t := Ended)" by (simp add: drop_ref_def Let_def)
  have next_id: "lk_next ?s = lk_next s" by (simp add: drop_ref_def Let_def)
  have "refs_ok ?s" unfolding refs_ok_def users entries using inv_facts(1,2) [OF inv] card by simp
  moreover have "sem_ok ?s" unfolding sem_ok_def hold entries using inv_facts(3,4) [OF inv] by auto
  moreover have "map_ok ?s"
  proof -
    have "lk_locks ?s k' = Some j" if "attempt_at (lk_attempts ?s u) = Some (k', j)" for u k' j
    proof -
      from that have u: "u \<noteq> t" "attempt_at (lk_attempts s u) = Some (k', j)" by (auto simp: attempts split: if_splits)
      with inv_facts(5) [OF inv u(2)] have l: "lk_locks s k' = Some j" "u \<in> users s j" by (auto simp: in_users)
      with u(1) lock show ?thesis unfolding locks by auto
    qed
    moreover have "users ?s j \<noteq> {} \<and> j < lk_next ?s" if "lk_locks ?s k' = Some j" for k' j
      using that inv_facts(6) [OF inv, of k' j] inv_facts(7) [OF inv lock, of k'] unfolding locks users next_id
      by (auto split: if_splits)
    moreover have "k1 = k2" if "lk_locks ?s k1 = Some j" "lk_locks ?s k2 = Some j" for k1 k2 j
      using that inv_facts(7) [OF inv, of k1 j k2] unfolding locks by (auto split: if_splits)
    ultimately show ?thesis unfolding map_ok_def by blast
  qed
  ultimately show ?thesis by (simp add: locker_inv_def)
qed

lemma inv_try:
  assumes inv: "locker_inv s" and at: "lk_attempts s t = Entered k i"
  shows "locker_inv (acquire_try t k i s)"
proof (cases "kl_sem (lk_entries s i)")
  case True
  then obtain u where "holders s i = {u}" using inv_facts(3) [OF inv] by blast
  moreover have "t \<notin> holders s i" using at by (simp add: holders_def)
  ultimately have "holders (set_attempt t (Refused k i) s) i = {u}" by (auto simp: holders_set_attempt)
  with True inv_same_place [OF inv, of t k i "Refused k i" "lk_entries s i"] at show ?thesis
    by (simp add: acquire_try_def)
next
  case False
  then have "holders (set_attempt t (Holding k i) s) i = {t}"
    using inv_facts(4) [OF inv] by (auto simp: holders_set_attempt)
  with False inv_same_place [OF inv, of t k i "Holding k i" "(lk_entries s i)\<lparr>kl_sem := True\<rparr>"] at show ?thesis
    by (simp add: acquire_try_def Let_def)
qed

lemma inv_drain:
  assumes inv: "locker_inv s" and at: "lk_attempts s t = Holding k i"
  shows "locker_inv (release_drain t k i s)"
proof -
  have "t \<in> holders s i" using at by (simp add: holders_def)
  then have "holders s i = {t}" using inv_facts(3,4) [OF inv, of i] by (cases "kl_sem (lk_entries s i)") auto
  then have "holders (set_attempt t (Releasing k i) s) i = {}" by (auto simp: holders_set_attempt)
  with inv_same_place [OF inv, of t k i "Releasing k i" "(lk_entries s i)\<lparr>kl_sem := False\<rparr>"] at show ?thesis
    by (simp add: release_drain_def)
qed

lemma locker_step_inv: "locker_step s s' \<Longrightarrow> locker_inv s \<Longrightarrow> locker_inv s'"
  by (erule locker_stepE) (auto intro: inv_enter inv_try inv_drop inv_drain simp: holders_def)

lemma locker_reachable_inv: "locker_reachable s \<Longrightarrow> locker_inv s"
proof (induction rule: locker_reachable.induct)
  case start
  show ?case by (auto simp: locker_inv_def refs_ok_def sem_ok_def map_ok_def new_locker_def users_def holders_def)
qed (rule locker_step_inv)

text \<open>C10: In every interleaving of any number of \<open>Acquire\<close> and \<open>Release\<close> calls, two leases of one key are never held at once; a held lock's channel is
  full, so its \<open>Release\<close> does not block; an attempt that finds the key unheld gets it; and the map holds exactly the keys in
  use, so nothing leaks.\<close>

theorem locker_mutual_exclusion:
  assumes "locker_reachable s"
  shows "(lk_attempts s t = Holding k i \<longrightarrow> lk_attempts s u = Holding k j \<longrightarrow> t = u) \<and>
    (lk_attempts s t = Holding k i \<longrightarrow> kl_sem (lk_entries s i)) \<and>
    (lk_attempts s t = Entered k i \<longrightarrow>
      (lk_attempts (acquire_try t k i s) t = Holding k i) = (\<forall>v j. lk_attempts s v \<noteq> Holding k j)) \<and>
    (k \<in> dom (lk_locks s)) = (\<exists>v j. attempt_at (lk_attempts s v) = Some (k, j))"
proof -
  note inv = locker_reachable_inv [OF assms]
  have place: "attempt_at (lk_attempts s v) = Some (k, j) \<Longrightarrow> lk_locks s k = Some j" for v j
    using inv_facts(5) [OF inv] .
  have sem: "kl_sem (lk_entries s j) \<longleftrightarrow> holders s j \<noteq> {}" for j
    using inv_facts(3,4) [OF inv, of j] by (cases "kl_sem (lk_entries s j)") auto
  have "t = u" if "lk_attempts s t = Holding k i" "lk_attempts s u = Holding k j"
  proof -
    from that have "i = j" using place [of t i] place [of u j] by simp
    with that have "t \<in> holders s i" "u \<in> holders s i" by (auto simp: holders_def)
    moreover have "kl_sem (lk_entries s i)" using \<open>t \<in> holders s i\<close> sem by blast
    ultimately show ?thesis using inv_facts(3) [OF inv] by fastforce
  qed
  moreover have "kl_sem (lk_entries s i)" if "lk_attempts s t = Holding k i"
    using that sem [of i] by (auto simp: holders_def)
  moreover have "(lk_attempts (acquire_try t k i s) t = Holding k i) = (\<forall>v j. lk_attempts s v \<noteq> Holding k j)"
    if "lk_attempts s t = Entered k i"
  proof -
    have i: "lk_locks s k = Some i" using place [of t i] that by simp
    have "(lk_attempts (acquire_try t k i s) t = Holding k i) = (holders s i = {})"
      using sem [of i] by (simp add: acquire_try_def Let_def)
    moreover have "(holders s i = {}) = (\<forall>v j. lk_attempts s v \<noteq> Holding k j)"
    proof
      assume empty: "holders s i = {}"
      show "\<forall>v j. lk_attempts s v \<noteq> Holding k j"
      proof (intro allI notI)
        fix v j assume v: "lk_attempts s v = Holding k j"
        with place [of v j] i have "j = i" by simp
        with v empty show False by (auto simp: holders_def)
      qed
    next
      assume none: "\<forall>v j. lk_attempts s v \<noteq> Holding k j"
      have "k' = k" if "lk_attempts s v = Holding k' i" for v k'
        using inv_facts(5) [OF inv, of v k' i] inv_facts(7) [OF inv _ i] that by simp
      with none show "holders s i = {}" by (auto simp: holders_def)
    qed
    ultimately show ?thesis by simp
  qed
  moreover have "(k \<in> dom (lk_locks s)) = (\<exists>v j. attempt_at (lk_attempts s v) = Some (k, j))"
  proof
    assume "k \<in> dom (lk_locks s)"
    then obtain j where j: "lk_locks s k = Some j" by auto
    with inv_facts(6) [OF inv j] obtain v k' where v: "attempt_at (lk_attempts s v) = Some (k', j)" by (auto simp: users_def)
    with inv_facts(5) [OF inv v] inv_facts(7) [OF inv j] have "k' = k" by auto
    with v show "\<exists>v j. attempt_at (lk_attempts s v) = Some (k, j)" by blast
  qed (use place in blast)
  ultimately show ?thesis by blast
qed

theorem locker_mutual_exclusion_witness:
  "let s = acquire_enter 2 ''job'' (acquire_try 1 ''job'' 0 (acquire_enter 1 ''job'' new_locker)) in
   lk_attempts s 1 = Holding ''job'' 0 \<and> lk_attempts s 2 = Entered ''job'' 0 \<and>
   lk_attempts (acquire_try 2 ''job'' 0 s) 2 \<noteq> Holding ''job'' 0 \<and> kl_sem (lk_entries s 0)"
proof -
  let ?a = "acquire_enter 1 ''job'' new_locker"
  let ?b = "acquire_try 1 ''job'' 0 ?a"
  let ?s = "acquire_enter 2 ''job'' ?b"
  note eval = acquire_enter_def acquire_try_def new_locker_def set_attempt_def Let_def
  have "locker_reachable ?a"
    by (rule step [OF start], rule enter) (simp_all add: new_locker_def acquire_check_def)
  then have "locker_reachable ?b"
    by (rule step, intro attempt_try) (simp add: eval)
  then have "locker_reachable ?s"
    by (rule step, intro enter) (simp_all add: eval acquire_check_def)
  note facts = locker_mutual_exclusion [OF this]
  have at: "lk_attempts ?s 1 = Holding ''job'' 0" "lk_attempts ?s 2 = Entered ''job'' 0"
    by (simp_all add: eval)
  with facts [of 1 "''job''" 0] facts [of 2 "''job''" 0] show ?thesis
    unfolding Let_def by metis
qed

end
