(* ===== verification/Go_Imports.thy ===== *)
theory Go_Imports
  imports Go_Strings
begin

text \<open>
  The import normalizer cmd/normalize-go-imports/main.go: which imports are renamed (\<open>collectImports\<close>, the grouping in
  \<open>NormalizeSource\<close>, \<open>ensureUniqueNames\<close>) and how the edits are applied to the source.

  What the Go parser reports of a file is an argument: the import specs with their offsets, the selectors whose operand
  is an identifier, and the set of locally declared names. A set of names (\<open>map[string]bool\<close>) is a list used as a set.
\<close>

subsection \<open>Names\<close>

definition go_keywords :: "string list" where
  "go_keywords = [''break'', ''case'', ''chan'', ''const'', ''continue'', ''default'', ''defer'', ''else'', ''fallthrough'',
     ''for'', ''func'', ''go'', ''goto'', ''if'', ''import'', ''interface'', ''map'', ''package'', ''range'', ''return'',
     ''select'', ''struct'', ''switch'', ''type'', ''var'']"

definition go_predeclared_names :: "string list" where
  "go_predeclared_names = [''any'', ''append'', ''bool'', ''byte'', ''cap'', ''clear'',
     ''close'', ''complex'', ''complex64'', ''complex128'', ''comparable'',
     ''copy'', ''delete'', ''error'', ''false'', ''float32'', ''float64'',
     ''imag'', ''int'', ''int8'', ''int16'', ''int32'', ''int64'',
     ''iota'', ''len'', ''make'', ''max'', ''min'', ''new'',
     ''nil'', ''panic'', ''print'', ''println'', ''real'', ''recover'',
     ''rune'', ''string'', ''true'', ''uint'', ''uint8'', ''uint16'',
     ''uint32'', ''uint64'', ''uintptr'']"

definition is_go_language_name :: "string \<Rightarrow> bool" where
  "is_go_language_name name = (name \<in> set go_keywords \<or> name \<in> set go_predeclared_names)"

definition preferred_import_name :: "string \<Rightarrow> string" where
  "preferred_import_name actual =
     (if has_prefix actual ''_'' \<and> is_go_language_name (trim_prefix actual ''_'') then actual
      else if is_go_language_name actual then ''_'' @ actual
      else actual)"

text \<open>\<open>token.IsIdentifier\<close> on ASCII: a letter or underscore, then letters, digits and underscores, and not a keyword.\<close>

definition ident_start :: "char \<Rightarrow> bool" where
  "ident_start c = (let n = (of_char c :: nat) in 65 \<le> n \<and> n \<le> 90 \<or> 97 \<le> n \<and> n \<le> 122 \<or> n = 95)"

definition is_identifier :: "string \<Rightarrow> bool" where
  "is_identifier name = (case name of [] \<Rightarrow> False
     | c # cs \<Rightarrow> ident_start c \<and> list_all (\<lambda>d. ident_start d \<or> is_digit d) cs \<and> name \<notin> set go_keywords)"

definition can_use :: "string \<Rightarrow> string list \<Rightarrow> string list \<Rightarrow> bool" where
  "can_use actual implicit locals =
     (let name = preferred_import_name actual in
      is_identifier name \<and> name \<noteq> ''_'' \<and> name \<notin> set locals \<and> name \<notin> set implicit)"

text \<open>\<open>filepath.Base\<close> of an import path.\<close>

definition path_base :: "string \<Rightarrow> string" where
  "path_base path =
     (if path = [] then ''.''
      else let p = rev (dropWhile (\<lambda>c. c = CHR ''/'') (rev path)) in
        if p = [] then ''/''
        else case last_index_byte p (CHR ''/'') of None \<Rightarrow> p | Some i \<Rightarrow> drop (Suc i) p)"

subsection \<open>Imports of a file\<close>

text \<open>An import spec: its name if it has one, the unquoted path (\<open>None\<close> if it does not unquote), and the offsets of both.\<close>

record import_spec =
  is_name :: "string option"
  is_path :: "string option"
  is_name_start :: int
  is_name_end :: int
  is_path_start :: int

record import_info =
  ii_spec :: import_spec
  ii_path :: string
  ii_actual :: string
  ii_old :: string
  ii_new :: string

definition new_import :: "import_spec \<Rightarrow> string \<Rightarrow> string \<Rightarrow> string \<Rightarrow> import_info" where
  "new_import spec path actual old = \<lparr>ii_spec = spec, ii_path = path, ii_actual = actual, ii_old = old, ii_new = []\<rparr>"

fun collect_imports :: "(string \<rightharpoonup> string) \<Rightarrow> import_spec list \<Rightarrow> (import_info list \<times> string list) res" where
  "collect_imports packages [] = Inr ([], [])"
| "collect_imports packages (spec # specs) =
     (case is_path spec of
        None \<Rightarrow> Inl (Sentinel ''invalid syntax'')
      | Some path \<Rightarrow>
          res_bind (collect_imports packages specs) (\<lambda>(imports, implicit).
            let actual = (case packages path of None \<Rightarrow> [] | Some a \<Rightarrow> a) in
            if actual = [] then Inr (imports, implicit)
            else case is_name spec of
              None \<Rightarrow>
                (let default = path_base path in
                 if is_go_language_name default \<or> preferred_import_name actual \<noteq> actual then
                   Inr (new_import spec path actual (if is_go_language_name default then default else actual) # imports, implicit)
                 else Inr (imports, actual # implicit))
            | Some name \<Rightarrow>
                if name = ''.'' \<or> name = ''_'' then Inr (imports, implicit)
                else Inr (new_import spec path actual name # imports, implicit)))"

subsection \<open>Choosing the new names\<close>

definition group_indexes :: "import_info list \<Rightarrow> string \<Rightarrow> nat list" where
  "group_indexes imports actual = filter (\<lambda>i. ii_actual (imports ! i) = actual) [0..<length imports]"

definition chosen_index :: "import_info list \<Rightarrow> string \<Rightarrow> nat list \<Rightarrow> nat" where
  "chosen_index imports actual indexes =
     (case filter (\<lambda>i. ii_old (imports ! i) = preferred_import_name actual \<or> ii_old (imports ! i) = actual) indexes of
        i # _ \<Rightarrow> i
      | [] \<Rightarrow> hd indexes)"

text \<open>One round of the loop over the groups; \<open>current\<close> are the names in use before any renaming.\<close>

definition plan_group :: "string list \<Rightarrow> string list \<Rightarrow> string list \<Rightarrow> string \<Rightarrow> import_info list \<Rightarrow> import_info list" where
  "plan_group implicit locals current actual imports =
     (if \<not> can_use actual implicit locals then imports
      else let indexes = group_indexes imports actual; target = preferred_import_name actual;
               i = (if length indexes = 1 then hd indexes else chosen_index imports actual indexes) in
        if ii_old (imports ! i) \<in> set locals \<or> (target \<in> set current \<and> ii_old (imports ! i) \<noteq> target) then imports
        else imports[i := (imports ! i)\<lparr>ii_new := target\<rparr>])"

definition keep_old_name :: "import_info \<Rightarrow> import_info" where
  "keep_old_name info = (if ii_new info = [] then info\<lparr>ii_new := ii_old info\<rparr> else info)"

text \<open>The first free name among \<open>base_2\<close>, \<open>base_3\<close>, \dots\<close>

definition suffixed :: "string \<Rightarrow> nat \<Rightarrow> string" where
  "suffixed base n = base @ ''_'' @ show_nat n"

lemma suffixed_inj: "suffixed base m = suffixed base n \<Longrightarrow> m = n"
  unfolding suffixed_def by (metis append_same_eq option.inject parse_digits_show_nat same_append_eq)

function free_suffix :: "string list \<Rightarrow> string \<Rightarrow> nat \<Rightarrow> string" where
  "free_suffix used base n = (if suffixed base n \<in> set used then free_suffix used base (Suc n) else suffixed base n)"
  by pat_completeness auto
termination
proof (relation "measure (\<lambda>(used, base, n). card {s \<in> set used. \<exists>m \<ge> n. s = suffixed base m})", simp)
  fix used :: "string list" and base :: string and n :: nat
  assume u: "suffixed base n \<in> set used"
  have "suffixed base n \<notin> {s \<in> set used. \<exists>m \<ge> Suc n. s = suffixed base m}"
    using suffixed_inj [of base n] by fastforce
  moreover have "suffixed base n \<in> {s \<in> set used. \<exists>m \<ge> n. s = suffixed base m}" using u by auto
  moreover have "{s \<in> set used. \<exists>m \<ge> Suc n. s = suffixed base m} \<subseteq> {s \<in> set used. \<exists>m \<ge> n. s = suffixed base m}"
    by (auto dest: Suc_leD)
  ultimately have "{s \<in> set used. \<exists>m \<ge> Suc n. s = suffixed base m} \<subset> {s \<in> set used. \<exists>m \<ge> n. s = suffixed base m}"
    by blast
  then show "((used, base, Suc n), used, base, n) \<in> measure (\<lambda>(used, base, n). card {s \<in> set used. \<exists>m \<ge> n. s = suffixed base m})"
    by (simp add: psubset_card_mono)
qed

declare free_suffix.simps [simp del]

definition fallback_name :: "string list \<Rightarrow> import_info \<Rightarrow> string" where
  "fallback_name used info =
     (let fallback = ii_old info;
          fallback = (if fallback = ii_actual info \<and> is_go_language_name fallback then preferred_import_name fallback else fallback);
          fallback = (if fallback = [] \<or> fallback \<in> set used then preferred_import_name (ii_actual info) else fallback)
      in if fallback \<in> set used then free_suffix used (preferred_import_name (ii_actual info)) 2 else fallback)"

fun ensure_unique_names :: "string list \<Rightarrow> import_info list \<Rightarrow> import_info list" where
  "ensure_unique_names used [] = []"
| "ensure_unique_names used (info # imports) =
     (if ii_new info \<notin> set used then info # ensure_unique_names (ii_new info # used) imports
      else let fallback = fallback_name used info in
        info\<lparr>ii_new := fallback\<rparr> # ensure_unique_names (fallback # used) imports)"

text \<open>The names of all imports; \<open>groups\<close> lists the package names in the order in which Go visits the map of groups.\<close>

definition plan_names :: "string list \<Rightarrow> string list \<Rightarrow> string list \<Rightarrow> import_info list \<Rightarrow> import_info list" where
  "plan_names groups implicit locals imports =
     (let current = implicit @ map ii_old imports;
          planned = foldl (\<lambda>is actual. plan_group implicit locals current actual is) imports groups
      in ensure_unique_names [] (map keep_old_name planned))"

subsection \<open>Edits\<close>

record edit =
  ed_start :: int
  ed_end :: int
  ed_text :: string

record change =
  ch_file :: string
  ch_path :: string
  ch_from :: string
  ch_to :: string

text \<open>A selector \<open>x.f\<close> of the file whose operand is the identifier \<open>x\<close>: name and offsets of \<open>x\<close>.\<close>

type_synonym selector = "string \<times> int \<times> int"

definition import_edit :: "import_info \<Rightarrow> edit" where
  "import_edit info =
     (if is_name (ii_spec info) = None then
        \<lparr>ed_start = is_path_start (ii_spec info), ed_end = is_path_start (ii_spec info), ed_text = ii_new info @ '' ''\<rparr>
      else if ii_new info = ii_actual info \<and> \<not> is_go_language_name (path_base (ii_path info)) then
        \<lparr>ed_start = is_name_start (ii_spec info), ed_end = is_path_start (ii_spec info), ed_text = []\<rparr>
      else \<lparr>ed_start = is_name_start (ii_spec info), ed_end = is_name_end (ii_spec info), ed_text = ii_new info\<rparr>)"

definition selector_edits :: "selector list \<Rightarrow> import_info \<Rightarrow> edit list" where
  "selector_edits selectors info =
     map (\<lambda>(x, start, stop). \<lparr>ed_start = start, ed_end = stop, ed_text = ii_new info\<rparr>)
       (filter (\<lambda>(x, _, _). x = ii_old info) selectors)"

definition import_edits :: "selector list \<Rightarrow> import_info list \<Rightarrow> edit list" where
  "import_edits selectors imports =
     concat (map (\<lambda>info. import_edit info # selector_edits selectors info) (filter (\<lambda>info. ii_new info \<noteq> ii_old info) imports))"

definition import_changes :: "string \<Rightarrow> import_info list \<Rightarrow> change list" where
  "import_changes filename imports =
     map (\<lambda>info. \<lparr>ch_file = filename, ch_path = ii_path info, ch_from = ii_old info, ch_to = ii_new info\<rparr>)
       (filter (\<lambda>info. ii_new info \<noteq> ii_old info) imports)"

text \<open>\<open>sort.SliceStable\<close> with the order of \<open>applyEdits\<close>: later edits first, at one offset the one with the later end first.\<close>

definition edit_before :: "edit \<Rightarrow> edit \<Rightarrow> bool" where
  "edit_before a b = (if ed_start a = ed_start b then ed_end b < ed_end a else ed_start b < ed_start a)"

fun insert_edit :: "edit \<Rightarrow> edit list \<Rightarrow> edit list" where
  "insert_edit a [] = [a]"
| "insert_edit a (b # es) = (if edit_before b a then b # insert_edit a es else a # b # es)"

definition sort_edits :: "edit list \<Rightarrow> edit list" where
  "sort_edits es = foldr insert_edit es []"

fun edit_loop :: "string \<Rightarrow> int \<Rightarrow> edit list \<Rightarrow> string res" where
  "edit_loop updated prev [] = Inr updated"
| "edit_loop updated prev (e # es) =
     (if ed_start e < 0 \<or> ed_end e < ed_start e \<or> int (length updated) < ed_end e \<or> prev < ed_end e then
        Inl (NewErr (''overlapping or invalid edit ['' @ show_int (ed_start e) @ '','' @ show_int (ed_end e) @ '')''))
      else edit_loop (take (nat (ed_start e)) updated @ ed_text e @ drop (nat (ed_end e)) updated) (ed_start e) es)"

definition apply_edits :: "string \<Rightarrow> edit list \<Rightarrow> string res" where
  "apply_edits source es = edit_loop source (int (length source) + 1) (sort_edits es)"

text \<open>\<open>NormalizeSource\<close> after parsing.\<close>

definition normalize_source ::
  "string \<Rightarrow> string \<Rightarrow> (string \<rightharpoonup> string) \<Rightarrow> string list \<Rightarrow> string list \<Rightarrow> import_spec list \<Rightarrow> selector list \<Rightarrow>
     (string \<times> change list) res" where
  "normalize_source filename source packages groups locals specs selectors =
     (case collect_imports packages specs of
        Inl e \<Rightarrow> Inl (WrapErr (''collect imports '' @ filename) e)
      | Inr (imports, implicit) \<Rightarrow>
          if imports = [] then Inr (source, [])
          else let imports = plan_names groups implicit locals imports; es = import_edits selectors imports in
            if es = [] then Inr (source, [])
            else (case apply_edits source es of
                Inl e \<Rightarrow> Inl (WrapErr (''rewrite '' @ filename) e)
              | Inr updated \<Rightarrow> Inr (updated, import_changes filename imports)))"

subsection \<open>Edits as one substitution\<close>

text \<open>Edits in source order, one after the other within \<open>[lo, hi]\<close>, and the source with all of them replaced at once.\<close>

fun edit_chain :: "int \<Rightarrow> int \<Rightarrow> edit list \<Rightarrow> bool" where
  "edit_chain lo hi [] = (lo \<le> hi)"
| "edit_chain lo hi (e # es) = (lo \<le> ed_start e \<and> ed_start e \<le> ed_end e \<and> edit_chain (ed_end e) hi es)"

fun splice_edits :: "string \<Rightarrow> int \<Rightarrow> edit list \<Rightarrow> string" where
  "splice_edits source from [] = drop (nat from) source"
| "splice_edits source from (e # es) =
     drop (nat from) (take (nat (ed_start e)) source) @ ed_text e @ splice_edits source (ed_end e) es"

lemma edit_chain_snoc:
  "edit_chain lo hi (es @ [e]) \<longleftrightarrow> edit_chain lo (ed_start e) es \<and> ed_start e \<le> ed_end e \<and> ed_end e \<le> hi"
  by (induction es arbitrary: lo) auto

lemma edit_chain_le: "edit_chain lo hi es \<Longrightarrow> lo \<le> hi"
  by (induction es arbitrary: lo) force+

lemma splice_snoc:
  assumes "edit_chain from (ed_start e) es" and "0 \<le> from" and "ed_start e \<le> ed_end e" and "ed_end e \<le> int n"
  shows "splice_edits (take n source) from (es @ [e]) =
    splice_edits (take (nat (ed_start e)) source) from es @ ed_text e @ drop (nat (ed_end e)) (take n source)"
  using assms
proof (induction es arbitrary: "from")
  case Nil
  then have "nat (ed_start e) \<le> n" by linarith
  then show ?case by (simp add: min_absorb1)
next
  case (Cons d es)
  have "ed_end d \<le> ed_start e" "ed_start d \<le> ed_end d" using Cons.prems(1) edit_chain_le by auto
  then have "nat (ed_start d) \<le> n" "nat (ed_start d) \<le> nat (ed_start e)" using Cons.prems(3,4) by linarith+
  moreover have "0 \<le> ed_end d" using Cons.prems(1,2) by simp
  ultimately show ?case using Cons.IH [of "ed_end d"] Cons.prems by (simp add: min_absorb1)
qed

lemma edit_loop_splice:
  "p \<le> length source \<Longrightarrow>
   edit_loop (take p source @ tail) (int p) es = Inr r \<longleftrightarrow>
     edit_chain 0 (int p) (rev es) \<and> r = splice_edits (take p source) 0 (rev es) @ tail"
proof (induction es arbitrary: p tail)
  case Nil
  then show ?case by auto
next
  case (Cons e es)
  show ?case
  proof (cases "0 \<le> ed_start e \<and> ed_start e \<le> ed_end e \<and> ed_end e \<le> int p")
    case False
    then have "\<not> edit_chain 0 (int p) (rev (e # es))"
      by (auto simp: edit_chain_snoc dest: edit_chain_le)
    with False Cons.prems show ?thesis by (auto simp: min_absorb2)
  next
    case True
    let ?s = "nat (ed_start e)" and ?tail = "ed_text e @ drop (nat (ed_end e)) (take p source) @ tail"
    from True Cons.prems have le: "?s \<le> p" "?s \<le> length source" "nat (ed_end e) \<le> p" by linarith+
    have "edit_loop (take p source @ tail) (int p) (e # es) = edit_loop (take ?s source @ ?tail) (int ?s) es"
      using True Cons.prems le by (simp add: min_absorb1 min_absorb2)
    also have "\<dots> = Inr r \<longleftrightarrow> edit_chain 0 (int ?s) (rev es) \<and> r = splice_edits (take ?s source) 0 (rev es) @ ?tail"
      by (rule Cons.IH [OF le(2)])
    finally show ?thesis
      using True splice_snoc [of 0 e "rev es" p source] by (auto simp: edit_chain_snoc)
  qed
qed

text \<open>\<open>applyEdits\<close> succeeds exactly when the edits, in source order, lie in the file and do not overlap, and then gives the source with all
  of them replaced at once: the offsets of one edit are not disturbed by another.\<close>

theorem apply_edits_iff:
  "apply_edits source es = Inr r \<longleftrightarrow>
     edit_chain 0 (int (length source)) (rev (sort_edits es)) \<and> r = splice_edits source 0 (rev (sort_edits es))"
proof -
  have "edit_loop source (int (length source) + 1) ds = edit_loop source (int (length source)) ds" for ds
    by (cases ds) auto
  then show ?thesis
    using edit_loop_splice [of "length source" source "[]" "sort_edits es" r] by (simp add: apply_edits_def)
qed

subsection \<open>Names\<close>

lemma free_suffix_free: "free_suffix used base n \<notin> set used"
proof (induction used base n rule: free_suffix.induct)
  case (1 used base n)
  then show ?case by (subst free_suffix.simps) auto
qed

lemma fallback_free: "fallback_name used info \<notin> set used"
  by (simp add: fallback_name_def Let_def free_suffix_free)

lemma ensure_unique:
  "distinct (map ii_new (ensure_unique_names used infos)) \<and> set (map ii_new (ensure_unique_names used infos)) \<inter> set used = {}"
proof (induction infos arbitrary: used)
  case Nil
  show ?case by simp
next
  case (Cons info infos)
  show ?case
    using Cons.IH [of "ii_new info # used"] Cons.IH [of "fallback_name used info # used"] fallback_free [of used info]
    by (auto simp: Let_def)
qed

lemma ensure_unique_id:
  "distinct (map ii_new infos) \<Longrightarrow> set (map ii_new infos) \<inter> set used = {} \<Longrightarrow> ensure_unique_names used infos = infos"
  by (induction infos arbitrary: used) auto

text \<open>Whatever the imports, the names chosen for one file are pairwise distinct.\<close>

theorem import_names_distinct:
  "distinct (map ii_new (plan_names groups implicit locals imports))"
  using ensure_unique by (simp add: plan_names_def Let_def)

text \<open>The new name of import \<open>i\<close> when no two packages want the same name.\<close>

definition renames :: "string list \<Rightarrow> string list \<Rightarrow> import_info list \<Rightarrow> nat \<Rightarrow> bool" where
  "renames implicit locals imports i =
     (let actual = ii_actual (imports ! i); target = preferred_import_name actual; old = ii_old (imports ! i) in
      can_use actual implicit locals \<and> i = chosen_index imports actual (group_indexes imports actual) \<and>
      old \<notin> set locals \<and> (target \<in> set (implicit @ map ii_old imports) \<longrightarrow> old = target))"

definition same_imports :: "import_info list \<Rightarrow> import_info list \<Rightarrow> bool" where
  "same_imports xs ys = (map (\<lambda>x. x\<lparr>ii_new := []\<rparr>) xs = map (\<lambda>x. x\<lparr>ii_new := []\<rparr>) ys)"

lemma same_imports_nth:
  assumes "same_imports xs ys"
  shows "length xs = length ys" and "map ii_old xs = map ii_old ys" and "map ii_actual xs = map ii_actual ys"
proof -
  show "length xs = length ys" using assms unfolding same_imports_def by (metis length_map)
  have "map ii_old (map (\<lambda>x. x\<lparr>ii_new := []\<rparr>) zs) = map ii_old zs" "map ii_actual (map (\<lambda>x. x\<lparr>ii_new := []\<rparr>) zs) = map ii_actual zs" for zs
    by (simp_all add: comp_def)
  with assms show "map ii_old xs = map ii_old ys" "map ii_actual xs = map ii_actual ys"
    unfolding same_imports_def by metis+
qed

lemma same_imports_fields:
  assumes "same_imports xs ys" and "i < length xs"
  shows "ii_old (xs ! i) = ii_old (ys ! i)" and "ii_actual (xs ! i) = ii_actual (ys ! i)"
  using same_imports_nth [OF assms(1)] assms(2) by (metis nth_map)+

lemma same_imports_groups:
  assumes "same_imports xs ys"
  shows "group_indexes xs a = group_indexes ys a" and "chosen_index xs a (group_indexes xs a) = chosen_index ys a (group_indexes ys a)"
proof -
  show g: "group_indexes xs a = group_indexes ys a"
    unfolding group_indexes_def using same_imports_nth(1) [OF assms] same_imports_fields [OF assms]
    by (auto intro: filter_cong)
  have "filter (\<lambda>i. ii_old (xs ! i) = preferred_import_name a \<or> ii_old (xs ! i) = a) (group_indexes ys a) =
      filter (\<lambda>i. ii_old (ys ! i) = preferred_import_name a \<or> ii_old (ys ! i) = a) (group_indexes ys a)"
    using same_imports_nth(1) [OF assms] same_imports_fields [OF assms]
    by (intro filter_cong) (auto simp: group_indexes_def)
  then show "chosen_index xs a (group_indexes xs a) = chosen_index ys a (group_indexes ys a)"
    unfolding chosen_index_def g by simp
qed

lemma chosen_in_group: "group_indexes xs a \<noteq> [] \<Longrightarrow> chosen_index xs a (group_indexes xs a) \<in> set (group_indexes xs a)"
  unfolding chosen_index_def
  by (auto split: list.splits dest: filter_eq_ConsD)

lemma single_chosen: "length is = 1 \<Longrightarrow> hd is = chosen_index xs a is"
  by (cases "is") (auto simp: chosen_index_def)

lemma plan_group_effect:
  assumes "same_imports is imports" and "actual \<in> ii_actual ` set imports"
    and "c = chosen_index imports actual (group_indexes imports actual)"
  shows "c < length imports" and "ii_actual (imports ! c) = actual"
    and "plan_group implicit locals (implicit @ map ii_old imports) actual is =
      (if renames implicit locals imports c then is[c := (is ! c)\<lparr>ii_new := preferred_import_name actual\<rparr>] else is)"
proof -
  from assms(2) obtain j where "j < length imports" "ii_actual (imports ! j) = actual" by (auto simp: in_set_conv_nth)
  then have "group_indexes imports actual \<noteq> []" by (auto simp: group_indexes_def filter_empty_conv)
  then have c: "c \<in> set (group_indexes imports actual)" using assms(3) chosen_in_group by simp
  then show len: "c < length imports" and act: "ii_actual (imports ! c) = actual" by (auto simp: group_indexes_def)
  have len': "c < length is" using same_imports_nth(1) [OF assms(1)] len by simp
  note same = same_imports_groups [OF assms(1)]
  have i: "(if length (group_indexes is actual) = 1 then hd (group_indexes is actual) else chosen_index is actual (group_indexes is actual)) = c"
    using single_chosen [of "group_indexes is actual" "is" actual] same(2) assms(3) by auto
  show "plan_group implicit locals (implicit @ map ii_old imports) actual is =
      (if renames implicit locals imports c then is[c := (is ! c)\<lparr>ii_new := preferred_import_name actual\<rparr>] else is)"
    using same_imports_fields [OF assms(1) len'] act assms(3)
    unfolding plan_group_def Let_def i renames_def by auto
qed

lemma same_imports_update: "same_imports is infos \<Longrightarrow> same_imports (is[c := (is ! c)\<lparr>ii_new := x\<rparr>]) infos"
proof (cases "c < length is")
  case True
  assume "same_imports is infos"
  moreover have "map (\<lambda>x. x\<lparr>ii_new := []\<rparr>) (is[c := (is ! c)\<lparr>ii_new := x\<rparr>]) = map (\<lambda>x. x\<lparr>ii_new := []\<rparr>) is"
    using True by (simp add: map_update list_update_same_conv)
  ultimately show ?thesis by (simp add: same_imports_def)
qed (simp add: not_less list_update_beyond)

lemma plan_groups_effect:
  assumes "\<forall>info \<in> set imports. ii_new info = []"
  shows "distinct gs \<Longrightarrow> set gs \<subseteq> ii_actual ` set imports \<Longrightarrow>
    planned = foldl (\<lambda>is actual. plan_group implicit locals (implicit @ map ii_old imports) actual is) imports gs \<Longrightarrow>
    same_imports planned imports \<and> (\<forall>i < length imports. ii_new (planned ! i) =
      (if ii_actual (imports ! i) \<in> set gs \<and> renames implicit locals imports i
       then preferred_import_name (ii_actual (imports ! i)) else []))"
proof (induction gs arbitrary: planned rule: rev_induct)
  case Nil
  then show ?case using assms by (simp add: same_imports_def)
next
  case (snoc g gs)
  define before where "before = foldl (\<lambda>is actual. plan_group implicit locals (implicit @ map ii_old imports) actual is) imports gs"
  from snoc have ih: "same_imports before imports" "\<And>i. i < length imports \<Longrightarrow> ii_new (before ! i) =
      (if ii_actual (imports ! i) \<in> set gs \<and> renames implicit locals imports i
       then preferred_import_name (ii_actual (imports ! i)) else [])"
    by (auto simp: before_def)
  define c where "c = chosen_index imports g (group_indexes imports g)"
  have g: "g \<in> ii_actual ` set imports" "g \<notin> set gs" using snoc.prems by auto
  note eff = plan_group_effect [OF ih(1) g(1) c_def]
  have planned: "planned = (if renames implicit locals imports c then before[c := (before ! c)\<lparr>ii_new := preferred_import_name g\<rparr>] else before)"
    using snoc.prems(3) eff(3) by (simp add: before_def)
  have len: "length before = length imports" using same_imports_nth(1) [OF ih(1)] .
  have only: "renames implicit locals imports i \<Longrightarrow> ii_actual (imports ! i) = g \<Longrightarrow> i = c" for i
    by (simp add: renames_def c_def Let_def)
  have "ii_new (planned ! i) =
      (if ii_actual (imports ! i) \<in> set (gs @ [g]) \<and> renames implicit locals imports i
       then preferred_import_name (ii_actual (imports ! i)) else [])" if "i < length imports" for i
    using that ih(2) [OF that] eff(1,2) only [of i] g(2) len unfolding planned by (cases "i = c") auto
  moreover have "same_imports planned imports"
    unfolding planned using ih(1) same_imports_update by auto
  ultimately show ?case by blast
qed

text \<open>When the file's import names differ and no two of its packages want the same name, every import keeps its name or gets the preferred
  name of its package, and a new name is not declared in the file, not an implicit import and not any other import's name;
  the outcome does not depend on the order in which the groups are visited.\<close>

theorem import_names_safe:
  assumes "distinct (map ii_old imports)" and "\<forall>info \<in> set imports. ii_new info = [] \<and> ii_old info \<noteq> []"
    and "inj_on preferred_import_name (ii_actual ` set imports)"
    and "distinct groups" and "set groups = ii_actual ` set imports" and "i < length imports"
  shows "map ii_new (plan_names groups implicit locals imports) ! i =
      (if renames implicit locals imports i then preferred_import_name (ii_actual (imports ! i)) else ii_old (imports ! i)) \<and>
    (map ii_new (plan_names groups implicit locals imports) ! i \<noteq> ii_old (imports ! i) \<longrightarrow>
      map ii_new (plan_names groups implicit locals imports) ! i \<notin> set locals \<union> set implicit \<union> set (map ii_old imports) \<and>
      ii_old (imports ! i) \<notin> set locals)"
proof -
  define planned where "planned = foldl (\<lambda>is actual. plan_group implicit locals (implicit @ map ii_old imports) actual is) imports groups"
  let ?new = "\<lambda>i. if renames implicit locals imports i then preferred_import_name (ii_actual (imports ! i)) else ii_old (imports ! i)"
  have "\<forall>info \<in> set imports. ii_new info = []" using assms(2) by blast
  from plan_groups_effect [OF this assms(4) _ planned_def] assms(5)
  have same: "same_imports planned imports"
    and new: "\<And>j. j < length imports \<Longrightarrow> ii_new (planned ! j) = (if renames implicit locals imports j
       then preferred_import_name (ii_actual (imports ! j)) else [])" by auto
  have len: "length planned = length imports" using same_imports_nth(1) [OF same] .
  have nonempty: "renames implicit locals imports j \<Longrightarrow> preferred_import_name (ii_actual (imports ! j)) \<noteq> []" for j
    by (auto simp: renames_def Let_def can_use_def is_identifier_def)
  have names: "map ii_new (map keep_old_name planned) = map ?new [0..<length imports]"
    using new len nonempty same_imports_fields(1) [OF same] by (intro nth_equalityI) (auto simp: keep_old_name_def)
  have old: "ii_old (imports ! j) \<in> set (map ii_old imports)" if "j < length imports" for j using that by simp
  have old_eq: "j = k" if "ii_old (imports ! j) = ii_old (imports ! k)" "j < length imports" "k < length imports" for j k
    using that assms(1) by (metis distinct_conv_nth length_map nth_map)
  have fresh: "preferred_import_name (ii_actual (imports ! j)) = ii_old (imports ! k) \<Longrightarrow> j = k"
    if "renames implicit locals imports j" "j < length imports" "k < length imports" for j k
    using that old [OF that(3)] old_eq [OF _ that(2,3)] by (auto simp: renames_def Let_def)
  have same_group: "j = k" if "renames implicit locals imports j" "renames implicit locals imports k" "j < length imports" "k < length imports"
    "preferred_import_name (ii_actual (imports ! j)) = preferred_import_name (ii_actual (imports ! k))" for j k
  proof -
    have "ii_actual (imports ! j) = ii_actual (imports ! k)"
      using that assms(3) by (meson image_eqI inj_onD nth_mem)
    with that(1,2) show ?thesis by (simp add: renames_def Let_def)
  qed
  have "j = k" if "?new j = ?new k" "j < length imports" "k < length imports" for j k
    using that old_eq fresh [of j k] fresh [of k j] same_group by (auto split: if_splits)
  then have "distinct (map ?new [0..<length imports])"
    by (simp add: distinct_map inj_on_def)
  with names have "ensure_unique_names [] (map keep_old_name planned) = map keep_old_name planned"
    by (intro ensure_unique_id) simp_all
  then have "map ii_new (plan_names groups implicit locals imports) = map ?new [0..<length imports]"
    using names by (simp add: plan_names_def Let_def planned_def)
  then have result: "map ii_new (plan_names groups implicit locals imports) ! i = ?new i" using assms(6) by simp
  have "preferred_import_name (ii_actual (imports ! i)) \<notin> set locals \<union> set implicit \<union> set (map ii_old imports) \<and>
      ii_old (imports ! i) \<notin> set locals"
    if "renames implicit locals imports i" "preferred_import_name (ii_actual (imports ! i)) \<noteq> ii_old (imports ! i)"
    using that by (auto simp: renames_def Let_def can_use_def)
  with result show ?thesis by simp
qed

definition sample_spec :: import_spec where
  "sample_spec = \<lparr>is_name = None, is_path = None, is_name_start = 0, is_name_end = 0, is_path_start = 0\<rparr>"

definition sample_imports :: "import_info list" where
  "sample_imports = [new_import sample_spec ''a/log'' ''log'' ''stdlog'', new_import sample_spec ''b/error'' ''error'' ''errs'']"

theorem import_names_safe_witness:
  "map ii_new (plan_names [''error'', ''log''] [''fmt''] [''run''] sample_imports) = [''log'', ''_error''] \<and>
   ''log'' \<notin> {''run'', ''fmt'', ''stdlog'', ''errs''} \<and> ''stdlog'' \<noteq> ''run''"
proof -
  have len: "length (map ii_new (plan_names [''error'', ''log''] [''fmt''] [''run''] sample_imports)) = 2"
    and two: "plan_names [''error'', ''log''] [''fmt''] [''run''] sample_imports ! 1 = (sample_imports ! 1)\<lparr>ii_new := ''_error''\<rparr>"
    by code_simp+
  have ok: "distinct (map ii_old sample_imports)" "\<forall>info \<in> set sample_imports. ii_new info = [] \<and> ii_old info \<noteq> []"
    "inj_on preferred_import_name (ii_actual ` set sample_imports)" "distinct [''error'', ''log'']"
    "set [''error'', ''log''] = ii_actual ` set sample_imports" "0 < length sample_imports"
    by (auto simp: sample_imports_def new_import_def) code_simp+
  have "renames [''fmt''] [''run''] sample_imports 0" by code_simp
  with import_names_safe [OF ok, of "[''fmt'']" "[''run'']"]
  have "map ii_new (plan_names [''error'', ''log''] [''fmt''] [''run''] sample_imports) ! 0 = ''log'' \<and>
    ''log'' \<notin> {''run'', ''fmt'', ''stdlog'', ''errs''} \<and> ''stdlog'' \<noteq> ''run''" by code_simp
  with len two show ?thesis
    by (intro conjI nth_equalityI) (auto simp: less_2_cases_iff sample_imports_def new_import_def)
qed

end
