(* ===== verification/Migration_Registry.thy ===== *)
theory Migration_Registry
  imports Go_Strings
begin

text \<open>
  The registry of database migration modules (database/gorm/migration/registry.go and module.go) and the versions of migration
  directories (assets.go): registration with its checks, the search for dependency cycles, and the parsing and ordering of versions.

  The map of modules is an association list in registration order; \<open>rg_order\<close> is the registry's own order, which
  lacks a module whose registration failed halfway. A file system is a function from paths to the tree found there; the registry only
  compares it with nil.
\<close>

subsection \<open>Module names\<close>

definition is_lower :: "char \<Rightarrow> bool" where
  "is_lower c = (97 \<le> (of_char c :: nat) \<and> (of_char c :: nat) \<le> 122)"

text \<open>The pattern \<open>^[a-z][a-z0-9-]{0,63}$\<close>.\<close>

definition module_name_valid :: "string \<Rightarrow> bool" where
  "module_name_valid name = (case name of [] \<Rightarrow> False
     | c # cs \<Rightarrow> is_lower c \<and> length cs \<le> 63 \<and> list_all (\<lambda>d. is_lower d \<or> is_digit d \<or> d = CHR ''-'') cs)"

definition validate_name :: "string \<Rightarrow> go_err option" where
  "validate_name name = (if module_name_valid name then None else Some (NewErr (''invalid module name: '' @ name)))"

subsection \<open>Registry\<close>

text \<open>
  A file system is a tree whose directories list their entries in the order of \<open>fs.ReadDir\<close>; reading a
  directory or a file may fail.
\<close>

datatype fs_node =
    FsFile "go_err + string"
  | FsDir "go_err + (string \<times> fs_node) list"

text \<open>The file system of a migration gives the node at a path; \<open>None\<close> is a nil file system.\<close>

record migration =
  mg_fs :: "(string \<Rightarrow> fs_node) option"
  mg_path :: string
  mg_dependencies :: "string list"

text \<open>A contributor: its name and its migrations; \<open>None\<close> stands for a nil contributor.\<close>

type_synonym contributor = "(string \<times> migration list) option"

record registry =
  rg_migrations :: "(string \<times> migration list) list"
  rg_order :: "string list"

definition empty_registry :: registry where
  "empty_registry = \<lparr>rg_migrations = [], rg_order = []\<rparr>"

definition module_migrations :: "registry \<Rightarrow> string \<Rightarrow> migration list" where
  "module_migrations r name = (case map_of (rg_migrations r) name of None \<Rightarrow> [] | Some ms \<Rightarrow> ms)"

definition registered :: "registry \<Rightarrow> string \<Rightarrow> bool" where
  "registered r name = (name \<in> set (map fst (rg_migrations r)))"

text \<open>\<open>migrationDependencies\<close>: the dependencies in order of first mention.\<close>

fun dependencies_from :: "string list \<Rightarrow> string list \<Rightarrow> string list" where
  "dependencies_from visited [] = []"
| "dependencies_from visited (d # ds) =
     (if d \<in> set visited then dependencies_from visited ds else d # dependencies_from (d # visited) ds)"

definition migration_dependencies :: "migration list \<Rightarrow> string list" where
  "migration_dependencies ms = dependencies_from [] (concat (map mg_dependencies ms))"

definition module_dependencies :: "registry \<Rightarrow> string \<Rightarrow> string list" where
  "module_dependencies r name = migration_dependencies (module_migrations r name)"

text \<open>\<open>r.migrations[name] = ms\<close>.\<close>

fun put_migrations :: "string \<Rightarrow> migration list \<Rightarrow> (string \<times> migration list) list \<Rightarrow> (string \<times> migration list) list" where
  "put_migrations k v [] = [(k, v)]"
| "put_migrations k v ((k', v') # es) = (if k = k' then (k, v) # es else (k', v') # put_migrations k v es)"

fun check_dependencies :: "string \<Rightarrow> string list \<Rightarrow> go_err option" where
  "check_dependencies name [] = None"
| "check_dependencies name (d # ds) =
     (case validate_name d of Some e \<Rightarrow> Some (WrapErr (''invalid dependency of module '' @ name) e) | None \<Rightarrow> check_dependencies name ds)"

text \<open>The inner loop of \<open>Register\<close>: each migration is checked and appended; an error leaves the earlier ones in the map.\<close>

fun register_migrations :: "string \<Rightarrow> migration list \<Rightarrow> registry \<Rightarrow> go_err option \<times> registry" where
  "register_migrations name [] r = (None, r)"
| "register_migrations name (m # ms) r =
     (if mg_fs m = None then (Some (NewErr (''module without a file system: '' @ name)), r)
      else if mg_path m = [] then (Some (NewErr (''module without a resource path: '' @ name)), r)
      else case check_dependencies name (mg_dependencies m) of
        Some e \<Rightarrow> (Some e, r)
      | None \<Rightarrow> register_migrations name ms
          (r\<lparr>rg_migrations := put_migrations name (module_migrations r name @ [m]) (rg_migrations r)\<rparr>))"

fun register_all :: "contributor list \<Rightarrow> registry \<Rightarrow> go_err option \<times> registry" where
  "register_all [] r = (None, r)"
| "register_all (None # cs) r = register_all cs r"
| "register_all (Some (name, ms) # cs) r =
     (case validate_name name of
        Some e \<Rightarrow> (Some e, r)
      | None \<Rightarrow>
          if registered r name then (Some (NewErr (''module registered twice: '' @ name)), r)
          else if ms = [] then
            register_all cs (r\<lparr>rg_migrations := put_migrations name [] (rg_migrations r), rg_order := rg_order r @ [name]\<rparr>)
          else (case register_migrations name ms r of
              (Some e, r') \<Rightarrow> (Some e, r')
            | (None, r') \<Rightarrow> register_all cs (r'\<lparr>rg_order := rg_order r' @ [name]\<rparr>)))"

subsection \<open>Dependency search\<close>

definition err_cycle :: "string \<Rightarrow> go_err" where
  "err_cycle name = NewErr (''cyclic module dependencies: '' @ name)"

definition open_modules :: "registry \<Rightarrow> string list \<Rightarrow> nat" where
  "open_modules r visiting = card (set (map fst (rg_migrations r)) - set visiting)"

lemma open_modules_less: "registered r name \<Longrightarrow> name \<notin> set visiting \<Longrightarrow> open_modules r (name # visiting) < open_modules r visiting"
  unfolding open_modules_def registered_def by (intro psubset_card_mono) auto

lemma open_modules_le: "open_modules r (name # visiting) \<le> open_modules r visiting"
  unfolding open_modules_def by (intro card_mono) auto

lemma unregistered_dependencies: "\<not> registered r name \<Longrightarrow> module_dependencies r name = []"
proof -
  assume "\<not> registered r name"
  then have "map_of (rg_migrations r) name = None" unfolding registered_def by (simp add: map_of_eq_None_iff)
  then show ?thesis by (simp add: module_dependencies_def module_migrations_def migration_dependencies_def)
qed

text \<open>
  The recursive \<open>visit\<close>. On return the flags \<open>visiting\<close> are as they were before, so they are the path of the calls still open;
  the modules done are returned. A module outside the map has no dependencies, so each call but the innermost takes one more registered
  module into the path, and the search ends.
\<close>

function visit_module :: "registry \<Rightarrow> string list \<Rightarrow> string list \<Rightarrow> string \<Rightarrow> string list res"
  and visit_dependencies :: "registry \<Rightarrow> string list \<Rightarrow> string list \<Rightarrow> string list \<Rightarrow> string list res" where
  "visit_module r visiting visited name =
     (if name \<in> set visiting then Inl (err_cycle name)
      else if name \<in> set visited then Inr visited
      else case visit_dependencies r (name # visiting) visited (module_dependencies r name) of
        Inl e \<Rightarrow> Inl e
      | Inr visited' \<Rightarrow> Inr (name # visited'))"
| "visit_dependencies r visiting visited [] = Inr visited"
| "visit_dependencies r visiting visited (d # ds) =
     (case visit_module r visiting visited d of
        Inl e \<Rightarrow> Inl e
      | Inr visited' \<Rightarrow> visit_dependencies r visiting visited' ds)"
  by pat_completeness auto
termination
proof (relation "measures
    [case_sum (\<lambda>(r, visiting, visited, name). open_modules r visiting) (\<lambda>(r, visiting, visited, ds). open_modules r visiting),
     case_sum (\<lambda>(r, visiting, visited, name). 1) (\<lambda>(r, visiting, visited, ds). 2 * length ds)]", goal_cases)
  case (2 r visiting visited name)
  then show ?case
    using open_modules_less [of r name visiting] open_modules_le [of r name visiting] unregistered_dependencies [of r name]
    by (cases "registered r name") (auto simp: le_less)
qed simp_all

declare visit_module.simps [simp del]

fun visit_all :: "registry \<Rightarrow> string list \<Rightarrow> string list \<Rightarrow> string list res" where
  "visit_all r visited [] = Inr visited"
| "visit_all r visited (name # names) =
     (case visit_module r [] visited name of Inl e \<Rightarrow> Inl e | Inr visited' \<Rightarrow> visit_all r visited' names)"

fun find_unregistered :: "registry \<Rightarrow> string list \<Rightarrow> go_err option" where
  "find_unregistered r [] = None"
| "find_unregistered r (name # names) =
     (case filter (\<lambda>d. \<not> registered r d) (module_dependencies r name) of
        d # _ \<Rightarrow> Some (NewErr (''module '' @ name @ '' depends on unregistered module '' @ d))
      | [] \<Rightarrow> find_unregistered r names)"

definition validate_dependencies :: "registry \<Rightarrow> go_err option" where
  "validate_dependencies r =
     (case find_unregistered r (rg_order r) of
        Some e \<Rightarrow> Some e
      | None \<Rightarrow> (case visit_all r [] (rg_order r) of Inl e \<Rightarrow> Some e | Inr _ \<Rightarrow> None))"

definition registry_register :: "contributor list \<Rightarrow> registry \<Rightarrow> go_err option \<times> registry" where
  "registry_register cs r =
     (case register_all cs r of
        (Some e, r') \<Rightarrow> (Some e, r')
      | (None, r') \<Rightarrow> (validate_dependencies r', r'))"

definition new_registry :: "contributor list \<Rightarrow> registry res" where
  "new_registry cs =
     (case registry_register cs empty_registry of
        (Some e, _) \<Rightarrow> Inl e
      | (None, r) \<Rightarrow> Inr r)"

subsection \<open>Versions\<close>

datatype migration_version = MigrationVersion nat nat nat nat

text \<open>\<open>less\<close>: major, minor, patch, then timestamp. It makes the versions a linear order.\<close>

fun version_less :: "migration_version \<Rightarrow> migration_version \<Rightarrow> bool" where
  "version_less (MigrationVersion a b c d) (MigrationVersion a' b' c' d') =
     (if a \<noteq> a' then a < a' else if b \<noteq> b' then b < b' else if c \<noteq> c' then c < c' else d < d')"

instantiation migration_version :: linorder
begin

definition less_migration_version :: "migration_version \<Rightarrow> migration_version \<Rightarrow> bool" where
  "less_migration_version = version_less"

definition less_eq_migration_version :: "migration_version \<Rightarrow> migration_version \<Rightarrow> bool" where
  "less_eq_migration_version v w = (v = w \<or> version_less v w)"

instance
proof
  fix u v w :: migration_version
  show "(v < w) = (v \<le> w \<and> \<not> w \<le> v)"
    by (cases v; cases w) (auto simp: less_migration_version_def less_eq_migration_version_def split: if_splits)
  show "v \<le> v" by (simp add: less_eq_migration_version_def)
  show "u \<le> v \<Longrightarrow> v \<le> w \<Longrightarrow> u \<le> w"
    by (cases u; cases v; cases w) (auto simp: less_eq_migration_version_def split: if_splits)
  show "v \<le> w \<Longrightarrow> w \<le> v \<Longrightarrow> v = w"
    by (cases v; cases w) (auto simp: less_eq_migration_version_def split: if_splits)
  show "v \<le> w \<or> w \<le> v"
    by (cases v; cases w) (auto simp: less_eq_migration_version_def split: if_splits)
qed

end

text \<open>\<open>strconv.ParseUint(s, 10, 64)\<close>: digits only, in range.\<close>

definition parse_uint64 :: "string \<Rightarrow> nat option" where
  "parse_uint64 s = (case parse_digits s of None \<Rightarrow> None | Some n \<Rightarrow> if int n < 2 ^ 64 then Some n else None)"

text \<open>The pattern \<open>^v([0-9]+)\.([0-9]+)\.([0-9]+)(?:[-.]([0-9]{14}))?$\<close> gives the four groups, the last one empty if absent.\<close>

definition match_version :: "string \<Rightarrow> (string \<times> string \<times> string \<times> string) option" where
  "match_version s =
     (case s of
        [] \<Rightarrow> None
      | v # rest \<Rightarrow>
          if v \<noteq> CHR ''v'' then None
          else
            let a = takeWhile is_digit rest; r1 = dropWhile is_digit rest in
            case r1 of [] \<Rightarrow> None
            | d1 # s1 \<Rightarrow>
                (let b = takeWhile is_digit s1; r2 = dropWhile is_digit s1 in
                 case r2 of [] \<Rightarrow> None
                 | d2 # s2 \<Rightarrow>
                     (let c = takeWhile is_digit s2; r3 = dropWhile is_digit s2 in
                      if d1 \<noteq> CHR ''.'' \<or> d2 \<noteq> CHR ''.'' \<or> a = [] \<or> b = [] \<or> c = [] then None
                      else case r3 of [] \<Rightarrow> Some (a, b, c, [])
                        | d3 # t \<Rightarrow> if (d3 = CHR ''-'' \<or> d3 = CHR ''.'') \<and> length t = 14 \<and> list_all is_digit t
                            then Some (a, b, c, t) else None)))"

definition err_version :: "string \<Rightarrow> go_err" where
  "err_version name = NewErr (''invalid migration directory name: '' @ name)"

definition parse_migration_version :: "string \<Rightarrow> migration_version res" where
  "parse_migration_version name =
     (case parse_uint64 name of
        Some (Suc n) \<Rightarrow> Inr (MigrationVersion 0 0 (Suc n) 0)
      | _ \<Rightarrow>
          (case match_version name of
             None \<Rightarrow> Inl (err_version name)
           | Some (a, b, c, t) \<Rightarrow>
               (case (parse_uint64 a, parse_uint64 b, parse_uint64 c) of
                  (Some major, Some minor, Some patch) \<Rightarrow>
                    (if t = [] then Inr (MigrationVersion major minor patch 0)
                     else case parse_uint64 t of
                       None \<Rightarrow> Inl (err_version name)
                     | Some stamp \<Rightarrow> Inr (MigrationVersion major minor patch stamp))
                | _ \<Rightarrow> Inl (err_version name))))"

subsection \<open>The search finds exactly the cycles\<close>

definition depends :: "registry \<Rightarrow> (string \<times> string) set" where
  "depends r = {(n, d). d \<in> set (module_dependencies r n)}"

text \<open>The path of open calls, innermost first: each module is a dependency of the next.\<close>

fun dep_path :: "registry \<Rightarrow> string list \<Rightarrow> bool" where
  "dep_path r (x # y # xs) = ((y, x) \<in> depends r \<and> dep_path r (y # xs))"
| "dep_path r xs = True"

lemma dep_path_reach: "dep_path r (x # xs) \<Longrightarrow> y \<in> set xs \<Longrightarrow> (y, x) \<in> (depends r)\<^sup>+"
proof (induction xs arbitrary: x)
  case Nil
  then show ?case by simp
next
  case (Cons z zs)
  then have "(z, x) \<in> depends r" by simp
  with Cons show ?case by (cases "y = z") (auto intro: trancl.intros(2))
qed

lemma visit_error_cycle:
  "visit_module r path visited name = Inl e \<Longrightarrow> dep_path r (name # path) \<Longrightarrow> \<exists>n. (n, n) \<in> (depends r)\<^sup>+"
  "visit_dependencies r path visited ds = Inl e \<Longrightarrow> path \<noteq> [] \<Longrightarrow> dep_path r path \<Longrightarrow> set ds \<subseteq> set (module_dependencies r (hd path)) \<Longrightarrow>
     \<exists>n. (n, n) \<in> (depends r)\<^sup>+"
proof (induction r path visited name and r path visited ds rule: visit_module_visit_dependencies.induct)
  case (1 r visiting visited name)
  show ?case
  proof (cases "name \<in> set visiting")
    case True
    with dep_path_reach [OF 1(3)] show ?thesis by blast
  next
    case False
    from 1(2) have nv: "name \<notin> set visited" using False by (auto simp: visit_module.simps [of r visiting])
    with 1(2) False have "visit_dependencies r (name # visiting) visited (module_dependencies r name) = Inl e"
      by (auto simp: visit_module.simps [of r visiting] split: sum.splits)
    from 1(1) [OF False nv this] 1(3) show ?thesis by simp
  qed
next
  case (3 r visiting visited d ds)
  obtain p ps where p: "visiting = p # ps" using 3(4) by (cases visiting) auto
  have d: "dep_path r (d # visiting)" using 3(5,6) p by (simp add: depends_def)
  show ?case
  proof (cases "visit_module r visiting visited d")
    case (Inl e')
    with 3(3) have "visit_module r visiting visited d = Inl e" by simp
    from 3(1) [OF this d] show ?thesis .
  next
    case (Inr v)
    with 3 show ?thesis by auto
  qed
qed simp_all

text \<open>The modules done: each comes after (in the list, before) all of its dependencies.\<close>

fun topo :: "registry \<Rightarrow> string list \<Rightarrow> bool" where
  "topo r [] = True"
| "topo r (n # ns) = (n \<notin> set ns \<and> set (module_dependencies r n) \<subseteq> set ns \<and> topo r ns)"

lemma visit_ok_topo:
  "visit_module r path visited name = Inr v \<Longrightarrow> topo r visited \<Longrightarrow> set visited \<inter> set path = {} \<Longrightarrow>
     topo r v \<and> set visited \<subseteq> set v \<and> name \<in> set v \<and> set v \<inter> set path = {}"
  "visit_dependencies r path visited ds = Inr v \<Longrightarrow> topo r visited \<Longrightarrow> set visited \<inter> set path = {} \<Longrightarrow>
     topo r v \<and> set visited \<subseteq> set v \<and> set ds \<subseteq> set v \<and> set v \<inter> set path = {}"
proof (induction r path visited name and r path visited ds arbitrary: v and v rule: visit_module_visit_dependencies.induct)
  case (1 r visiting visited name)
  show ?case
  proof (cases "name \<in> set visited")
    case True
    with 1(2-4) show ?thesis by (auto simp: visit_module.simps [of r visiting] split: if_splits)
  next
    case False
    with 1(2) obtain v' where n: "name \<notin> set visiting" and v': "visit_dependencies r (name # visiting) visited (module_dependencies r name) = Inr v'"
      and v: "v = name # v'" by (auto simp: visit_module.simps [of r visiting] split: if_splits sum.splits)
    have "set visited \<inter> set (name # visiting) = {}" using 1(4) False by auto
    from 1(1) [OF n False v' 1(3) this] show ?thesis using n v by auto
  qed
next
  case (3 r visiting visited d ds)
  then obtain v' where v': "visit_module r visiting visited d = Inr v'" "visit_dependencies r visiting v' ds = Inr v"
    by (auto split: sum.splits)
  from 3(1) [OF v'(1) 3(4,5)] have a: "topo r v' \<and> set visited \<subseteq> set v' \<and> d \<in> set v' \<and> set v' \<inter> set visiting = {}" .
  with 3(2) [OF v'] show ?case by auto
qed simp

lemma topo_closed: "topo r v \<Longrightarrow> n \<in> set v \<Longrightarrow> (n, m) \<in> (depends r)\<^sup>+ \<Longrightarrow> m \<in> set v"
proof -
  assume "topo r v"
  then have step: "n \<in> set v \<Longrightarrow> (n, m) \<in> depends r \<Longrightarrow> m \<in> set v" for n m
    by (induction v) (auto simp: depends_def)
  assume "n \<in> set v" and "(n, m) \<in> (depends r)\<^sup>+"
  from this(2,1) show "m \<in> set v"
    by (induction rule: trancl_induct) (auto intro: step)
qed

lemma topo_acyclic: "topo r v \<Longrightarrow> n \<in> set v \<Longrightarrow> (n, n) \<notin> (depends r)\<^sup>+"
proof (induction v)
  case Nil
  then show ?case by simp
next
  case (Cons x v)
  show ?case
  proof (cases "n \<in> set v")
    case True
    with Cons show ?thesis by simp
  next
    case False
    with Cons.prems have n: "n = x" by simp
    show ?thesis
    proof
      assume "(n, n) \<in> (depends r)\<^sup>+"
      then obtain m where m: "(n, m) \<in> depends r" "(m, n) \<in> (depends r)\<^sup>*" by (meson tranclD)
      with Cons.prems n have mv: "m \<in> set v" by (auto simp: depends_def)
      from m(2) have "n \<in> set v"
      proof (cases rule: rtranclE)
        case base
        with mv show ?thesis by simp
      next
        case (step k)
        then have "(m, n) \<in> (depends r)\<^sup>+" by (metis m(2) rtranclD rtrancl_into_trancl1)
        with topo_closed [of r v m n] Cons.prems(1) mv show ?thesis by simp
      qed
      with False show False by simp
    qed
  qed
qed

lemma visit_all_error: "visit_all r visited names = Inl e \<Longrightarrow> \<exists>n. (n, n) \<in> (depends r)\<^sup>+"
proof (induction names arbitrary: visited)
  case (Cons name names)
  then show ?case
    using visit_error_cycle(1) [of r "[]" visited name] by (cases "visit_module r [] visited name") auto
qed simp

lemma visit_all_ok:
  "visit_all r visited names = Inr v \<Longrightarrow> topo r visited \<Longrightarrow> topo r v \<and> set visited \<subseteq> set v \<and> set names \<subseteq> set v"
proof (induction names arbitrary: visited)
  case (Cons name names)
  then obtain v' where v': "visit_module r [] visited name = Inr v'" "visit_all r v' names = Inr v" by (auto split: sum.splits)
  from visit_ok_topo(1) [OF v'(1) Cons.prems(2)] Cons.IH [OF v'(2)] show ?case by auto
qed simp

lemma find_unregistered_None:
  "find_unregistered r names = None \<longleftrightarrow> (\<forall>n \<in> set names. \<forall>d \<in> set (module_dependencies r n). registered r d)"
  by (induction names) (auto split: list.splits simp: filter_empty_conv dest: filter_eq_ConsD)

lemma validate_dependencies_iff:
  assumes "set (rg_order r) = set (map fst (rg_migrations r))"
  shows "validate_dependencies r = None \<longleftrightarrow> (\<forall>(n, d) \<in> depends r. registered r d) \<and> acyclic (depends r)"
proof -
  have source: "n \<in> set (rg_order r)" if "(n, d) \<in> depends r" for n d
    using that unregistered_dependencies [of r n] assms by (auto simp: depends_def registered_def)
  have "find_unregistered r (rg_order r) = None \<longleftrightarrow> (\<forall>(n, d) \<in> depends r. registered r d)"
    unfolding find_unregistered_None using source by (auto simp: depends_def)
  moreover have "(\<exists>v. visit_all r [] (rg_order r) = Inr v) \<longleftrightarrow> acyclic (depends r)"
  proof
    assume "\<exists>v. visit_all r [] (rg_order r) = Inr v"
    then obtain v where v: "topo r v" "set (rg_order r) \<subseteq> set v" using visit_all_ok by fastforce
    show "acyclic (depends r)"
    proof (rule acyclicI, rule allI)
      fix n
      show "(n, n) \<notin> (depends r)\<^sup>+"
      proof
        assume c: "(n, n) \<in> (depends r)\<^sup>+"
        then obtain m where "(n, m) \<in> depends r" by (meson tranclD)
        with source v(2) have "n \<in> set v" by blast
        with topo_acyclic [OF v(1)] c show False by blast
      qed
    qed
  next
    assume "acyclic (depends r)"
    then show "\<exists>v. visit_all r [] (rg_order r) = Inr v"
      using visit_all_error [of r "[]" "rg_order r"] by (cases "visit_all r [] (rg_order r)") (auto simp: acyclic_def)
  qed
  ultimately show ?thesis
    by (auto simp: validate_dependencies_def split: option.splits sum.splits)
qed

subsection \<open>Registration\<close>

definition migration_ok :: "migration \<Rightarrow> bool" where
  "migration_ok m = (mg_fs m \<noteq> None \<and> mg_path m \<noteq> [] \<and> (\<forall>d \<in> set (mg_dependencies m). module_name_valid d))"

text \<open>The contributors that are not nil.\<close>

fun specs_of :: "contributor list \<Rightarrow> (string \<times> migration list) list" where
  "specs_of [] = []"
| "specs_of (None # cs) = specs_of cs"
| "specs_of (Some c # cs) = c # specs_of cs"

definition specs_ok :: "(string \<times> migration list) list \<Rightarrow> bool" where
  "specs_ok specs = (\<forall>(n, ms) \<in> set specs. module_name_valid n \<and> (\<forall>m \<in> set ms. migration_ok m))"

lemma check_dependencies_None: "check_dependencies name ds = None \<longleftrightarrow> (\<forall>d \<in> set ds. module_name_valid d)"
  by (induction ds) (auto simp: validate_name_def)

lemma put_migrations_absent: "k \<notin> set (map fst es) \<Longrightarrow> put_migrations k v es = es @ [(k, v)]"
  by (induction k v es rule: put_migrations.induct) auto

lemma put_migrations_last: "k \<notin> set (map fst es) \<Longrightarrow> put_migrations k v (es @ [(k, w)]) = es @ [(k, v)]"
  by (induction k v es rule: put_migrations.induct) auto

lemma map_of_last: "k \<notin> set (map fst es) \<Longrightarrow> map_of (es @ [(k, w)]) k = Some w"
  by (induction es) auto

lemma map_of_absent: "k \<notin> set (map fst es) \<Longrightarrow> map_of es k = None"
  by (simp add: map_of_eq_None_iff)

definition with_module :: "string \<Rightarrow> migration list \<Rightarrow> (string \<times> migration list) list \<Rightarrow> (string \<times> migration list) list" where
  "with_module name ms es = (if ms = [] then es else es @ [(name, ms)])"

lemma register_migrations_iff:
  "name \<notin> set (map fst es) \<Longrightarrow> rg_migrations r = with_module name known es \<Longrightarrow>
   (if \<forall>m \<in> set ms. migration_ok m
    then register_migrations name ms r = (None, r\<lparr>rg_migrations := with_module name (known @ ms) es\<rparr>)
    else \<exists>e r'. register_migrations name ms r = (Some e, r'))"
proof (induction ms arbitrary: r known)
  case Nil
  then show ?case by simp
next
  case (Cons m ms)
  have known: "module_migrations r name = known"
    using Cons.prems
    by (cases "known = []") (simp_all add: module_migrations_def with_module_def map_of_last map_of_absent del: map_of_append)
  have put: "put_migrations name (known @ [m]) (rg_migrations r) = with_module name (known @ [m]) es"
    using Cons.prems by (simp add: with_module_def put_migrations_absent put_migrations_last)
  show ?case
  proof (cases "migration_ok m")
    case True
    then have "register_migrations name (m # ms) r =
        register_migrations name ms (r\<lparr>rg_migrations := with_module name (known @ [m]) es\<rparr>)"
      using check_dependencies_None [of name "mg_dependencies m"] by (auto simp: migration_ok_def known put)
    with Cons.IH [OF Cons.prems(1), of "r\<lparr>rg_migrations := with_module name (known @ [m]) es\<rparr>" "known @ [m]"] True
    show ?thesis by simp
  next
    case False
    then show ?thesis
      using check_dependencies_None [of name "mg_dependencies m"] by (auto simp: migration_ok_def split: option.splits)
  qed
qed

lemma register_all_iff:
  "(if specs_ok (specs_of cs) \<and> distinct (map fst (rg_migrations r) @ map fst (specs_of cs))
    then register_all cs r = (None, r\<lparr>rg_migrations := rg_migrations r @ specs_of cs, rg_order := rg_order r @ map fst (specs_of cs)\<rparr>)
    else distinct (map fst (rg_migrations r)) \<longrightarrow> (\<exists>e r'. register_all cs r = (Some e, r')))"
proof (induction cs r rule: register_all.induct)
  case (1 r)
  show ?case by (simp add: specs_ok_def)
next
  case (2 cs r)
  then show ?case by simp
next
  case (3 name ms cs r)
  show ?case
  proof (cases "module_name_valid name \<and> \<not> registered r name \<and> (\<forall>m \<in> set ms. migration_ok m)")
    case False
    then have "\<exists>e r'. register_all (Some (name, ms) # cs) r = (Some e, r')"
      using register_migrations_iff [of name "rg_migrations r" r "[]" ms]
      by (auto simp: validate_name_def registered_def with_module_def split: if_splits)
    with False show ?thesis by (auto simp: specs_ok_def registered_def)
  next
    case True
    let ?r = "r\<lparr>rg_migrations := rg_migrations r @ [(name, ms)], rg_order := rg_order r @ [name]\<rparr>"
    have fresh: "name \<notin> set (map fst (rg_migrations r))" using True by (simp add: registered_def)
    have step: "register_all (Some (name, ms) # cs) r = register_all cs ?r"
    proof (cases "ms = []")
      case True
      with \<open>_ \<and> _ \<and> _\<close> show ?thesis by (simp add: validate_name_def put_migrations_absent [OF fresh])
    next
      case False
      with True register_migrations_iff [OF fresh, of r "[]" ms] show ?thesis
        by (simp add: validate_name_def with_module_def)
    qed
    have ih: "if specs_ok (specs_of cs) \<and> distinct (map fst (rg_migrations ?r) @ map fst (specs_of cs))
      then register_all cs ?r = (None, ?r\<lparr>rg_migrations := rg_migrations ?r @ specs_of cs, rg_order := rg_order ?r @ map fst (specs_of cs)\<rparr>)
      else distinct (map fst (rg_migrations ?r)) \<longrightarrow> (\<exists>e r'. register_all cs ?r = (Some e, r'))"
    proof (cases "ms = []")
      case True
      have put: "put_migrations name [] (rg_migrations r) = rg_migrations r @ [(name, ms)]"
        using True put_migrations_absent [OF fresh] by simp
      have "validate_name name = None" "\<not> registered r name"
        using \<open>_ \<and> _ \<and> _\<close> by (simp_all add: validate_name_def)
      from 3(1) [OF this True] show ?thesis unfolding put .
    next
      case False
      from True register_migrations_iff [OF fresh, of r "[]" ms] False
      have reg: "register_migrations name ms r = (None, r\<lparr>rg_migrations := rg_migrations r @ [(name, ms)]\<rparr>)"
        by (simp add: with_module_def)
      have "validate_name name = None" "\<not> registered r name" using True by (simp_all add: validate_name_def)
      moreover have "r\<lparr>rg_migrations := rg_migrations r @ [(name, ms)], rg_order := rg_order (r\<lparr>rg_migrations := rg_migrations r @ [(name, ms)]\<rparr>) @ [name]\<rparr> = ?r"
        by simp
      ultimately show ?thesis using 3(2) [OF _ _ False reg [symmetric] refl] by metis
    qed
    show ?thesis
      unfolding step using ih True fresh by (auto simp: specs_ok_def split: if_splits)
  qed
qed

definition spec_edges :: "(string \<times> migration list) list \<Rightarrow> (string \<times> string) set" where
  "spec_edges specs = {(n, d). \<exists>ms. (n, ms) \<in> set specs \<and> (\<exists>m \<in> set ms. d \<in> set (mg_dependencies m))}"

lemma set_dependencies_from: "set (dependencies_from visited ds) = set ds - set visited"
  by (induction visited ds rule: dependencies_from.induct) auto

lemma depends_specs:
  assumes "distinct (map fst (rg_migrations r))"
  shows "depends r = spec_edges (rg_migrations r)"
proof -
  have "module_migrations r n = ms" if "(n, ms) \<in> set (rg_migrations r)" for n ms
    using that assms by (simp add: module_migrations_def)
  moreover have "\<exists>ms. (n, ms) \<in> set (rg_migrations r)" if "module_migrations r n \<noteq> []" for n
    using that by (auto simp: module_migrations_def split: option.splits dest: map_of_SomeD)
  moreover have "(n, d) \<in> depends r \<longleftrightarrow> (\<exists>m \<in> set (module_migrations r n). d \<in> set (mg_dependencies m))" for n d
    by (auto simp: depends_def module_dependencies_def migration_dependencies_def set_dependencies_from)
  ultimately have "(n, d) \<in> depends r \<longleftrightarrow> (n, d) \<in> spec_edges (rg_migrations r)" for n d
    unfolding spec_edges_def by (cases "module_migrations r n = []") fastforce+
  then show ?thesis by auto
qed

text \<open>The modules of a created registry depend on modules of the registry, without cycles.\<close>

lemma new_registry_graph:
  assumes "new_registry cs = Inr r"
  shows "acyclic (depends r)" "\<forall>(n, d) \<in> depends r. registered r d"
proof -
  obtain e r' where all: "register_all cs empty_registry = (e, r')" by (cases "register_all cs empty_registry")
  with assms have "e = None" "validate_dependencies r' = None" "r = r'"
    by (simp_all add: new_registry_def registry_register_def split: option.splits)
  with all have r': "register_all cs empty_registry = (None, r')" "validate_dependencies r' = None" "r = r'" by simp_all
  have distinct: "distinct (map fst (rg_migrations empty_registry))" by (simp add: empty_registry_def)
  have no_error: "\<nexists>e r''. register_all cs empty_registry = (Some e, r'')" using r'(1) by simp
  have "register_all cs empty_registry =
      (None, empty_registry\<lparr>rg_migrations := rg_migrations empty_registry @ specs_of cs, rg_order := rg_order empty_registry @ map fst (specs_of cs)\<rparr>)"
    using register_all_iff [of cs empty_registry] distinct no_error by (simp split: if_split_asm)
  then have "r = \<lparr>rg_migrations = specs_of cs, rg_order = map fst (specs_of cs)\<rparr>"
    using r'(1,3) by (simp add: empty_registry_def)
  then have "set (rg_order r) = set (map fst (rg_migrations r))" by simp
  from validate_dependencies_iff [OF this] r'(2,3) show "acyclic (depends r)" "\<forall>(n, d) \<in> depends r. registered r d" by auto
qed

text \<open>A registry is created exactly when the module names and the declared dependencies are well-formed, no name comes twice, every migration
  has a file system and a path, every dependency is itself a module, and the dependencies have no cycle; the modules are
  then kept in the given order.\<close>

theorem new_registry_iff:
  "new_registry cs = Inr r \<longleftrightarrow>
    specs_ok (specs_of cs) \<and> distinct (map fst (specs_of cs)) \<and>
    snd ` spec_edges (specs_of cs) \<subseteq> fst ` set (specs_of cs) \<and> acyclic (spec_edges (specs_of cs)) \<and>
    r = \<lparr>rg_migrations = specs_of cs, rg_order = map fst (specs_of cs)\<rparr>"
proof (cases "specs_ok (specs_of cs) \<and> distinct (map fst (specs_of cs))")
  case False
  with register_all_iff [of cs empty_registry] show ?thesis
    by (auto simp: new_registry_def registry_register_def empty_registry_def)
next
  case True
  let ?r = "\<lparr>rg_migrations = specs_of cs, rg_order = map fst (specs_of cs)\<rparr>"
  have all: "register_all cs empty_registry = (None, ?r)"
    using register_all_iff [of cs empty_registry] True by (simp add: empty_registry_def)
  have dep: "depends ?r = spec_edges (specs_of cs)" using depends_specs [of ?r] True by simp
  have "(\<forall>(n, d) \<in> spec_edges (specs_of cs). registered ?r d) \<longleftrightarrow> snd ` spec_edges (specs_of cs) \<subseteq> fst ` set (specs_of cs)"
    by (force simp: registered_def)
  then have "validate_dependencies ?r = None \<longleftrightarrow>
      snd ` spec_edges (specs_of cs) \<subseteq> fst ` set (specs_of cs) \<and> acyclic (spec_edges (specs_of cs))"
    using validate_dependencies_iff [of ?r] unfolding dep by simp
  with True show ?thesis
    by (auto simp: new_registry_def registry_register_def all split: option.splits)
qed

text \<open>A failed \<open>Register\<close> on an existing registry keeps what it had added, here a module that depends on itself.\<close>

lemma failed_register_keeps_module:
  "fst (registry_register [Some (''a'', [\<lparr>mg_fs = Some (\<lambda>_. FsDir (Inr [])), mg_path = ''p'', mg_dependencies = [''a'']\<rparr>])] empty_registry) \<noteq> None \<and>
   registered (snd (registry_register [Some (''a'', [\<lparr>mg_fs = Some (\<lambda>_. FsDir (Inr [])), mg_path = ''p'', mg_dependencies = [''a'']\<rparr>])] empty_registry)) ''a''"
  by code_simp

end
