(* ===== verification/Migration_Assets.thy ===== *)
theory Migration_Assets
  imports Migration_Registry Go_Json "HOL-Library.List_Lexorder" "HOL-Library.Char_ord" "HOL-Library.Product_Lexorder"
begin

text \<open>
  The migration resources of database/gorm/migration/assets.go and files.go: a tree
  \<open>version/database type/[data source/]file\<close> read into a list of assets sorted by version.

  Paths are clean, so joining them puts a slash between. The hexadecimal
  SHA-256 of a file is the argument \<open>sha\<close>. Warnings that are only logged leave no trace.
\<close>

subsection \<open>Files\<close>

type_synonym fs_entry = "string \<times> fs_node"

fun is_dir :: "fs_node \<Rightarrow> bool" where
  "is_dir (FsDir _) = True"
| "is_dir (FsFile _) = False"

fun read_dir :: "fs_node \<Rightarrow> fs_entry list res" where
  "read_dir (FsDir r) = r"
| "read_dir (FsFile _) = Inl (NewErr ''not a directory'')"

fun read_file :: "fs_node \<Rightarrow> string res" where
  "read_file (FsFile r) = r"
| "read_file (FsDir _) = Inl (NewErr ''is a directory'')"

definition path_join :: "string \<Rightarrow> string \<Rightarrow> string" where
  "path_join a b = a @ ''/'' @ b"

record file_reference =
  fr_path :: string
  fr_sha256 :: string

definition new_file_reference :: "(string \<Rightarrow> string) \<Rightarrow> string \<Rightarrow> string \<Rightarrow> file_reference" where
  "new_file_reference sha name content = \<lparr>fr_path = name, fr_sha256 = sha content\<rparr>"

definition reference_json :: "file_reference \<Rightarrow> json" where
  "reference_json r = JObj [(''path'', JStr (fr_path r)), (''sha256'', JStr (fr_sha256 r))]"

definition references_json :: "file_reference list \<Rightarrow> string" where
  "references_json rs = json_print (JArr (map reference_json rs))"

text \<open>The files named by their paths, each with its node; the first that cannot be read ends the loop.\<close>

fun read_references :: "(string \<Rightarrow> string) \<Rightarrow> fs_entry list \<Rightarrow> file_reference list res" where
  "read_references sha [] = Inr []"
| "read_references sha ((name, node) # files) =
     (case read_file node of
        Inl e \<Rightarrow> Inl (WrapErr (''read migration file '' @ name) e)
      | Inr content \<Rightarrow> res_bind (read_references sha files) (\<lambda>rs. Inr (new_file_reference sha name content # rs)))"

definition encode_file_references :: "(string \<Rightarrow> string) \<Rightarrow> fs_entry list \<Rightarrow> string res" where
  "encode_file_references sha files = res_bind (read_references sha files) (\<lambda>rs. Inr (references_json rs))"

subsection \<open>Assets\<close>

definition database_type_mysql :: string where "database_type_mysql = ''mysql''"
definition database_type_postgres :: string where "database_type_postgres = ''postgres''"
definition database_type_doris :: string where "database_type_doris = ''doris''"
definition database_type_tidb :: string where "database_type_tidb = ''tidb''"
definition default_target :: string where "default_target = ''default''"

definition migration_database_type :: "string \<Rightarrow> string" where
  "migration_database_type driver = (if driver = database_type_tidb then database_type_mysql else driver)"

definition supported_type :: "string \<Rightarrow> bool" where
  "supported_type t = (t = database_type_mysql \<or> t = database_type_postgres \<or> t = database_type_doris)"

record migration_script =
  ms_name :: string
  ms_sql :: string

record migration_asset =
  ma_version :: migration_version
  ma_version_name :: string
  ma_database_type :: string
  ma_data_source :: string
  ma_up_scripts :: "migration_script list"
  ma_down_scripts :: "migration_script list"
  ma_description :: string

record migration_target_files =
  mt_database_type :: string
  mt_data_source :: string
  mt_path :: string
  mt_entries :: "fs_entry list"

text \<open>\<open>findMigrationFiles\<close>: the entries of a data source split by suffix, each part sorted by name.\<close>

fun split_migration_files ::
  "string \<Rightarrow> fs_entry list \<Rightarrow> fs_entry list \<times> fs_entry list \<times> fs_entry list \<Rightarrow> (fs_entry list \<times> fs_entry list \<times> fs_entry list) res" where
  "split_migration_files version_path [] acc = Inr acc"
| "split_migration_files version_path ((name, node) # entries) (ups, downs, descriptions) =
     (if is_dir node then Inl (NewErr (''unexpected directory below '' @ version_path))
      else if has_suffix name ''.up.sql'' then split_migration_files version_path entries (ups @ [(name, node)], downs, descriptions)
      else if has_suffix name ''.down.sql'' then split_migration_files version_path entries (ups, downs @ [(name, node)], descriptions)
      else if has_suffix name ''.md'' then split_migration_files version_path entries (ups, downs, descriptions @ [(name, node)])
      else Inl (NewErr (''invalid migration file name below '' @ version_path @ '': '' @ name)))"

definition find_migration_files ::
  "string \<Rightarrow> fs_entry list \<Rightarrow> (fs_entry list \<times> fs_entry list \<times> fs_entry list) res" where
  "find_migration_files version_path entries =
     res_bind (split_migration_files version_path entries ([], [], [])) (\<lambda>(ups, downs, descriptions).
       Inr (sort_key fst ups, sort_key fst downs, sort_key fst descriptions))"

fun read_migration_scripts :: "string \<Rightarrow> fs_entry list \<Rightarrow> migration_script list res" where
  "read_migration_scripts version_path [] = Inr []"
| "read_migration_scripts version_path ((name, node) # files) =
     (case read_file node of
        Inl e \<Rightarrow> Inl (WrapErr (''read migration script '' @ path_join version_path name) e)
      | Inr content \<Rightarrow>
          res_bind (read_migration_scripts version_path files) (\<lambda>scripts.
            Inr (\<lparr>ms_name = path_join version_path name, ms_sql = content\<rparr> # scripts)))"

text \<open>The loop of \<open>findDatabaseMigrationTargets\<close>: the files directly below, and one target per subdirectory.\<close>

fun split_database_entries ::
  "string \<Rightarrow> string \<Rightarrow> fs_entry list \<Rightarrow> (fs_entry list \<times> migration_target_files list) res" where
  "split_database_entries database_type database_path [] = Inr ([], [])"
| "split_database_entries database_type database_path ((name, node) # entries) =
     (if \<not> is_dir node then
        res_bind (split_database_entries database_type database_path entries) (\<lambda>(direct, targets). Inr ((name, node) # direct, targets))
      else if name = default_target then Inl (NewErr (''default directory below '' @ database_path))
      else case read_dir node of
        Inl e \<Rightarrow> Inl (WrapErr (''read migration data source '' @ path_join database_path name) e)
      | Inr es \<Rightarrow>
          res_bind (split_database_entries database_type database_path entries) (\<lambda>(direct, targets).
            Inr (direct, \<lparr>mt_database_type = database_type, mt_data_source = name, mt_path = path_join database_path name,
              mt_entries = es\<rparr> # targets)))"

definition find_database_targets :: "string \<Rightarrow> string \<Rightarrow> fs_entry list \<Rightarrow> migration_target_files list res" where
  "find_database_targets database_type database_path entries =
     res_bind (split_database_entries database_type database_path entries) (\<lambda>(direct, targets).
       Inr (sort_key mt_data_source
         (if direct \<noteq> [] \<or> targets = [] then
            targets @ [\<lparr>mt_database_type = database_type, mt_data_source = default_target, mt_path = database_path, mt_entries = direct\<rparr>]
          else targets)))"

text \<open>The loop of \<open>findMigrationTargets\<close>; a shared description keeps its path and node.\<close>

fun collect_targets :: "string \<Rightarrow> fs_entry list \<Rightarrow> (migration_target_files list \<times> fs_entry list) res" where
  "collect_targets version_path [] = Inr ([], [])"
| "collect_targets version_path ((name, node) # entries) =
     (if \<not> is_dir node then
        if has_suffix name ''.md'' then
          res_bind (collect_targets version_path entries) (\<lambda>(targets, shared). Inr (targets, (path_join version_path name, node) # shared))
        else Inl (NewErr (''unexpected file '' @ name @ '' below '' @ version_path))
      else if \<not> supported_type name then collect_targets version_path entries
      else case read_dir node of
        Inl e \<Rightarrow> Inl (WrapErr (''read migration database type '' @ path_join version_path name) e)
      | Inr es \<Rightarrow>
          res_bind (find_database_targets name (path_join version_path name) es) (\<lambda>found.
            res_bind (collect_targets version_path entries) (\<lambda>(targets, shared). Inr (found @ targets, shared))))"

definition find_migration_targets :: "string \<Rightarrow> fs_entry list \<Rightarrow> (migration_target_files list \<times> fs_entry list) res" where
  "find_migration_targets version_path entries =
     (if entries = [] then Inl (NewErr (''no database type below '' @ version_path))
      else res_bind (collect_targets version_path entries) (\<lambda>(targets, shared).
        Inr (sort_key (\<lambda>t. (mt_database_type t, mt_data_source t)) targets, shared)))"

text \<open>The assets of one version directory.\<close>

definition target_asset ::
  "(string \<Rightarrow> string) \<Rightarrow> migration_version \<Rightarrow> string \<Rightarrow> fs_entry list \<Rightarrow> migration_target_files \<Rightarrow> migration_asset res" where
  "target_asset sha version name shared t =
     res_bind (find_migration_files (mt_path t) (mt_entries t)) (\<lambda>(ups, downs, descriptions).
     res_bind (encode_file_references sha (shared @ map (\<lambda>(n, node). (path_join (mt_path t) n, node)) descriptions)) (\<lambda>description.
     res_bind (read_migration_scripts (mt_path t) ups) (\<lambda>up_scripts.
     res_bind (read_migration_scripts (mt_path t) downs) (\<lambda>down_scripts.
       Inr \<lparr>ma_version = version, ma_version_name = name, ma_database_type = mt_database_type t, ma_data_source = mt_data_source t,
         ma_up_scripts = up_scripts, ma_down_scripts = down_scripts, ma_description = description\<rparr>))))"

fun target_assets ::
  "(string \<Rightarrow> string) \<Rightarrow> migration_version \<Rightarrow> string \<Rightarrow> fs_entry list \<Rightarrow> migration_target_files list \<Rightarrow> migration_asset list res" where
  "target_assets sha version name shared [] = Inr []"
| "target_assets sha version name shared (t # ts) =
     res_bind (target_asset sha version name shared t) (\<lambda>a.
       res_bind (target_assets sha version name shared ts) (\<lambda>as. Inr (a # as)))"

text \<open>The loop over the version directories; \<open>versions\<close> are the versions met so far, each with the name of its directory.\<close>

fun version_assets ::
  "(string \<Rightarrow> string) \<Rightarrow> string \<Rightarrow> fs_entry list \<Rightarrow> (migration_version \<times> string) list \<Rightarrow> migration_asset list res" where
  "version_assets sha directory [] versions = Inr []"
| "version_assets sha directory ((name, node) # entries) versions =
     (if \<not> is_dir node then Inl (NewErr (''resource outside a version directory: '' @ name))
      else case parse_migration_version name of
        Inl e \<Rightarrow> Inl (WrapErr (''invalid version of directory '' @ name) e)
      | Inr version \<Rightarrow>
          (case map_of versions version of
             Some other \<Rightarrow> Inl (NewErr (''duplicate version '' @ name @ '': '' @ other))
           | None \<Rightarrow>
               (case read_dir node of
                  Inl e \<Rightarrow> Inl (WrapErr (''read version directory '' @ path_join directory name) e)
                | Inr es \<Rightarrow>
                    res_bind (find_migration_targets (path_join directory name) es) (\<lambda>(targets, shared).
                    res_bind (target_assets sha version name shared targets) (\<lambda>assets.
                    res_bind (version_assets sha directory entries ((version, name) # versions)) (\<lambda>rest.
                      Inr (assets @ rest)))))))"

definition asset_key :: "migration_asset \<Rightarrow> migration_version \<times> string \<times> string" where
  "asset_key a = (ma_version a, ma_database_type a, ma_data_source a)"

text \<open>\<open>tree\<close> is the directory named by the path of the migration resource.\<close>

definition load_migration_assets :: "(string \<Rightarrow> string) \<Rightarrow> fs_node \<Rightarrow> string \<Rightarrow> migration_asset list res" where
  "load_migration_assets sha tree directory =
     (case read_dir tree of
        Inl e \<Rightarrow> Inl (WrapErr ''read migration resources'' e)
      | Inr entries \<Rightarrow>
          res_bind (version_assets sha directory entries []) (\<lambda>assets.
            if assets = [] then Inl (NewErr (''no version directory below '' @ directory))
            else Inr (sort_key asset_key assets)))"

subsection \<open>Versions ascend\<close>

lemma target_assets_version:
  "target_assets sha version name shared ts = Inr as \<Longrightarrow> a \<in> set as \<Longrightarrow> ma_version a = version \<and> ma_version_name a = name"
  by (induction ts arbitrary: as) (auto simp: res_bind_Inr target_asset_def split_def)

lemma version_assets_parse:
  "version_assets sha directory entries versions = Inr as \<Longrightarrow> a \<in> set as \<Longrightarrow>
     parse_migration_version (ma_version_name a) = Inr (ma_version a) \<and> ma_version a \<notin> fst ` set versions"
proof (induction sha directory entries versions arbitrary: as rule: version_assets.induct)
  case (2 sha directory name node entries versions)
  from 2(2) obtain version es targets shared assets rest where
    v: "is_dir node" "parse_migration_version name = Inr version" "map_of versions version = None" "read_dir node = Inr es"
    and t: "find_migration_targets (path_join directory name) es = Inr (targets, shared)"
    "target_assets sha version name shared targets = Inr assets"
    "version_assets sha directory entries ((version, name) # versions) = Inr rest" "as = assets @ rest"
    by (auto simp: res_bind_Inr split: if_splits sum.splits option.splits)
  have "version \<notin> fst ` set versions" using v(3) by (simp add: map_of_eq_None_iff)
  with 2(1) [OF _ v(2,3,4) t(3)] v(1,2) target_assets_version [OF t(2)] 2(3) t(4)
  show ?case by auto
qed simp

text \<open>What a resource yields: sorted by version, and no two directories give the same version.\<close>

lemma load_assets_sorted:
  assumes "load_migration_assets sha tree directory = Inr as"
  shows "sorted (map asset_key as) \<and> as \<noteq> [] \<and> (\<forall>a \<in> set as. parse_migration_version (ma_version_name a) = Inr (ma_version a))"
proof -
  from assms obtain entries assets where a: "version_assets sha directory entries [] = Inr assets" "assets \<noteq> []"
    "as = sort_key asset_key assets"
    by (auto simp: load_migration_assets_def res_bind_Inr split: sum.splits if_splits)
  have "as \<noteq> []" using a(2,3) by (metis set_empty set_sort)
  with version_assets_parse [OF a(1)] show ?thesis by (simp add: a(3))
qed

end
