(* ===== verification/Migration_Runner.thy ===== *)
theory Migration_Runner
  imports Migration_Assets
begin

text \<open>
  The migration runner (database/gorm/migration/migration.go), the record of applied versions (record.go) and the migration
  lock (lock.go), over the registry of \<open>Migration_Registry\<close> and the resources of \<open>Migration_Assets\<close>.

  A database client has a name, a driver and a database; \<open>None\<close> is a nil client or a client without database. The state of a
  run is the contents of every database and the rows of the table of applied migrations, which is kept in the database of the default
  client; the scripts are assumed to leave that table alone. What the databases do is a record of functions: the
  execution of a script, and the errors of the other calls. A transaction that fails leaves its database as it was.

  The recursion of \<open>runModule\<close> has no check for cycles, so the walks take fuel: \<open>None\<close> is a recursion that is
  still going on. The theorems show that the number of registered modules and one more are enough.
\<close>

subsection \<open>Databases\<close>

record client =
  cl_name :: string
  cl_driver :: string
  cl_db :: nat

record history_row =
  hr_module :: string
  hr_data_source :: string
  hr_version :: string
  hr_up_files :: string
  hr_down_files :: string
  hr_description_files :: string

record 'd world =
  wd_data :: "nat \<Rightarrow> 'd"
  wd_history :: "history_row list"

record 'd migration_env =
  me_sha :: "string \<Rightarrow> string"
  me_exec :: "string \<Rightarrow> 'd \<Rightarrow> 'd res"
  me_commit :: "nat \<Rightarrow> 'd \<Rightarrow> go_err option"
  me_find :: "string \<Rightarrow> string \<Rightarrow> go_err option"
  me_create :: "history_row \<Rightarrow> go_err option"
  me_conn :: "nat \<Rightarrow> go_err option"
  me_get_lock :: "string \<Rightarrow> int res"
  me_try_lock :: "int \<Rightarrow> gotime \<Rightarrow> bool res"
  me_cancelled :: "gotime \<Rightarrow> go_err option"
  me_now :: gotime

text \<open>The next step of a handler that stops at the first error.\<close>

fun and_then :: "go_err option \<times> 'w \<Rightarrow> ('w \<Rightarrow> go_err option \<times> 'w) \<Rightarrow> go_err option \<times> 'w" where
  "and_then (Some e, w) f = (Some e, w)"
| "and_then (None, w) f = f w"

fun wrap_error :: "string \<Rightarrow> go_err option \<times> 'w \<Rightarrow> go_err option \<times> 'w" where
  "wrap_error m (Some e, w) = (Some (WrapErr m e), w)"
| "wrap_error m (None, w) = (None, w)"

subsection \<open>The migration lock\<close>

definition lock_name :: "string \<Rightarrow> string \<Rightarrow> string" where
  "lock_name name data_source = take 64 (''kratos_migration_'' @ name @ ''_'' @ data_source)"

text \<open>\<open>advisoryLockKey\<close>: the 64-bit FNV-1a hash, read as a signed integer.\<close>

definition advisory_lock_key :: "string \<Rightarrow> int" where
  "advisory_lock_key name =
     sint (foldl (\<lambda>h c. (xor h (word_of_nat (of_char c))) * 1099511628211) (14695981039346656037 :: 64 word) name)"

definition migration_lock_timeout :: duration where "migration_lock_timeout = 30 * second"
definition poll_interval :: duration where "poll_interval = 500 * millisecond"

definition lock_with_mysql :: "'d migration_env \<Rightarrow> string \<Rightarrow> go_err option" where
  "lock_with_mysql env name =
     (case me_get_lock env name of
        Inl e \<Rightarrow> Some (WrapErr ''acquire migration lock'' e)
      | Inr acquired \<Rightarrow> if acquired \<noteq> 1 then Some (NewErr (''migration lock timed out: '' @ name)) else None)"

text \<open>The polling loop; the wait takes the interval, the query no time.\<close>

function poll_lock :: "'d migration_env \<Rightarrow> string \<Rightarrow> int \<Rightarrow> gotime \<Rightarrow> gotime \<Rightarrow> go_err option" where
  "poll_lock env name key deadline now =
     (case me_try_lock env key now of
        Inl e \<Rightarrow> Some (WrapErr ''acquire migration lock'' e)
      | Inr acquired \<Rightarrow>
          if acquired then None
          else if \<not> now < deadline then Some (NewErr (''migration lock timed out: '' @ name))
          else case me_cancelled env now of
            Some e \<Rightarrow> Some e
          | None \<Rightarrow> poll_lock env name key deadline (now + poll_interval))"
  by pat_completeness auto
termination
  by (relation "measure (\<lambda>(env, name, key, deadline, now). nat (deadline - now))") (auto simp: poll_interval_def millisecond_def)

declare poll_lock.simps [simp del]

definition lock_with_postgres :: "'d migration_env \<Rightarrow> string \<Rightarrow> go_err option" where
  "lock_with_postgres env name =
     poll_lock env name (advisory_lock_key name) (me_now env + migration_lock_timeout) (me_now env)"

text \<open>\<open>withMigrationLock\<close>: the lock is released on return, so it leaves no trace in the state of one runner.\<close>

definition with_migration_lock ::
  "'d migration_env \<Rightarrow> client \<Rightarrow> string \<Rightarrow> string \<Rightarrow> ('d world \<Rightarrow> go_err option \<times> 'd world) \<Rightarrow> 'd world \<Rightarrow> go_err option \<times> 'd world" where
  "with_migration_lock env client name data_source fn w =
     (case me_conn env (cl_db client) of
        Some e \<Rightarrow> (Some (WrapErr ''connect to the migration record database'' e), w)
      | None \<Rightarrow>
          let lock = lock_name name data_source; driver = migration_database_type (cl_driver client);
            failed = (if driver = database_type_postgres then lock_with_postgres env lock
              else if driver = database_type_mysql \<or> driver = database_type_doris then lock_with_mysql env lock
              else Some (NewErr (''no migration lock for driver '' @ cl_driver client)))
          in case failed of Some e \<Rightarrow> (Some e, w) | None \<Rightarrow> fn w)"

subsection \<open>Applying a resource\<close>

text \<open>
  \<open>loadAppliedMigrations\<close>: the versions recorded for a data source, by this module or without a module. A struct
  condition leaves out empty fields.
\<close>

definition applied_versions :: "history_row list \<Rightarrow> string \<Rightarrow> string \<Rightarrow> string list" where
  "applied_versions rows name data_source =
     map hr_version (filter (\<lambda>r. (data_source = [] \<or> hr_data_source r = data_source) \<and> (hr_module r = [] \<or> hr_module r = name)) rows)"

definition load_applied :: "'d migration_env \<Rightarrow> string \<Rightarrow> string \<Rightarrow> 'd world \<Rightarrow> string list res" where
  "load_applied env name data_source w =
     (case me_find env name data_source of
        Some e \<Rightarrow> Inl (WrapErr ''read migration records'' e)
      | None \<Rightarrow> Inr (applied_versions (wd_history w) name data_source))"

fun exec_scripts :: "'d migration_env \<Rightarrow> string \<Rightarrow> migration_script list \<Rightarrow> 'd \<Rightarrow> 'd res" where
  "exec_scripts env version [] d = Inr d"
| "exec_scripts env version (s # ss) d =
     (case me_exec env (ms_sql s) d of
        Inl e \<Rightarrow> Inl (WrapErr (''migration version '' @ version @ '' file '' @ ms_name s) e)
      | Inr d' \<Rightarrow> exec_scripts env version ss d')"

text \<open>The transaction: nothing is kept unless all scripts and the commit succeed.\<close>

definition transaction :: "'d migration_env \<Rightarrow> client \<Rightarrow> string \<Rightarrow> migration_script list \<Rightarrow> 'd world \<Rightarrow> go_err option \<times> 'd world" where
  "transaction env client version scripts w =
     (case exec_scripts env version scripts (wd_data w (cl_db client)) of
        Inl e \<Rightarrow> (Some e, w)
      | Inr d \<Rightarrow> (case me_commit env (cl_db client) d of
            Some e \<Rightarrow> (Some e, w)
          | None \<Rightarrow> (None, w\<lparr>wd_data := (wd_data w)(cl_db client := d)\<rparr>)))"

definition script_references :: "'d migration_env \<Rightarrow> migration_script list \<Rightarrow> string" where
  "script_references env scripts = references_json (map (\<lambda>s. new_file_reference (me_sha env) (ms_name s) (ms_sql s)) scripts)"

definition asset_row :: "'d migration_env \<Rightarrow> string \<Rightarrow> string \<Rightarrow> migration_asset \<Rightarrow> history_row" where
  "asset_row env name data_source a = \<lparr>hr_module = name, hr_data_source = data_source, hr_version = ma_version_name a,
     hr_up_files = script_references env (ma_up_scripts a), hr_down_files = script_references env (ma_down_scripts a),
     hr_description_files = ma_description a\<rparr>"

definition create_row :: "'d migration_env \<Rightarrow> history_row \<Rightarrow> 'd world \<Rightarrow> go_err option \<times> 'd world" where
  "create_row env row w =
     (case me_create env row of
        Some e \<Rightarrow> (Some e, w)
      | None \<Rightarrow> (None, w\<lparr>wd_history := wd_history w @ [row]\<rparr>))"

fun apply_each ::
  "'d migration_env \<Rightarrow> client \<Rightarrow> string \<Rightarrow> string \<Rightarrow> string list \<Rightarrow> migration_asset list \<Rightarrow> 'd world \<Rightarrow> go_err option \<times> 'd world" where
  "apply_each env target name data_source applied [] w = (None, w)"
| "apply_each env target name data_source applied (a # as) w =
     (if ma_version_name a \<in> set applied then apply_each env target name data_source applied as w
      else and_then (wrap_error (''run migration version '' @ ma_version_name a)
          (transaction env target (ma_version_name a) (ma_up_scripts a) w)) (\<lambda>w.
        and_then (wrap_error (''record migration version '' @ ma_version_name a) (create_row env (asset_row env name data_source a) w))
          (apply_each env target name data_source applied as)))"

definition apply_migration_assets ::
  "'d migration_env \<Rightarrow> client \<Rightarrow> string \<Rightarrow> string \<Rightarrow> migration_asset list \<Rightarrow> 'd world \<Rightarrow> go_err option \<times> 'd world" where
  "apply_migration_assets env target name data_source assets w =
     (case load_applied env name data_source w of
        Inl e \<Rightarrow> (Some e, w)
      | Inr applied \<Rightarrow> apply_each env target name data_source applied assets w)"

definition run_migration ::
  "'d migration_env \<Rightarrow> client \<Rightarrow> client option \<Rightarrow> string \<Rightarrow> migration_asset \<Rightarrow> 'd world \<Rightarrow> go_err option \<times> 'd world" where
  "run_migration env central target_client name a w =
     (case target_client of
        None \<Rightarrow> (Some (NewErr (''no client for migration module '' @ name)), w)
      | Some target \<Rightarrow>
          let central_type = migration_database_type (cl_driver central); target_type = migration_database_type (cl_driver target) in
          if central_type \<noteq> database_type_mysql \<and> central_type \<noteq> database_type_postgres then
            (Some (NewErr (''migration records are not kept on '' @ cl_driver central)), w)
          else if \<not> supported_type target_type then
            (Some (NewErr (''migration module '' @ name @ '' does not support '' @ cl_driver target)), w)
          else if ma_database_type a \<noteq> target_type then
            (Some (NewErr (''migration module '' @ name @ '' has scripts for '' @ ma_database_type a)), w)
          else wrap_error (''run migration module '' @ name)
            (with_migration_lock env central name (ma_data_source a)
              (apply_migration_assets env target name (ma_data_source a) [a]) w))"

text \<open>The second loop of \<open>runModule\<close>.\<close>

fun run_assets ::
  "'d migration_env \<Rightarrow> client \<Rightarrow> client \<Rightarrow> string \<Rightarrow> string \<Rightarrow> migration_asset list \<Rightarrow> 'd world \<Rightarrow> go_err option \<times> 'd world" where
  "run_assets env central target name data_source [] w = (None, w)"
| "run_assets env central target name data_source (a # as) w =
     (if ma_data_source a \<noteq> data_source \<or> ma_database_type a \<noteq> migration_database_type (cl_driver target) then
        run_assets env central target name data_source as w
      else and_then (run_migration env central (Some target) name a w) (run_assets env central target name data_source as))"

subsection \<open>Walking the modules\<close>

type_synonym module_assets = "(string \<times> migration_asset list) list"

definition assets_of :: "module_assets \<Rightarrow> string \<Rightarrow> migration_asset list" where
  "assets_of assets name = (case map_of assets name of None \<Rightarrow> [] | Some as \<Rightarrow> as)"

text \<open>\<open>runModule\<close> and its first loop; the state is the visited modules and the databases.\<close>

fun run_module ::
  "nat \<Rightarrow> 'd migration_env \<Rightarrow> registry \<Rightarrow> client \<Rightarrow> string \<Rightarrow> client \<Rightarrow> module_assets \<Rightarrow> string \<Rightarrow> string list \<times> 'd world \<Rightarrow>
   (go_err option \<times> string list \<times> 'd world) option"
  and run_dependencies :: "nat \<Rightarrow> 'd migration_env \<Rightarrow> registry \<Rightarrow> client \<Rightarrow> string \<Rightarrow> client \<Rightarrow> module_assets \<Rightarrow> string list \<Rightarrow> string list \<times> 'd world \<Rightarrow>
   (go_err option \<times> string list \<times> 'd world) option" where
  "run_module 0 env reg central ds target assets name s = None"
| "run_module (Suc n) env reg central ds target assets name (visited, w) =
     (if name \<in> set visited then Some (None, visited, w)
      else if module_migrations reg name = [] then Some (Some (NewErr (''migration module without resources: '' @ name)), visited, w)
      else case run_dependencies n env reg central ds target assets (module_dependencies reg name) (visited, w) of
        None \<Rightarrow> None
      | Some (Some e, s) \<Rightarrow> Some (Some e, s)
      | Some (None, visited, w) \<Rightarrow>
          (case run_assets env central target name ds (assets_of assets name) w of
             (Some e, w) \<Rightarrow> Some (Some e, visited, w)
           | (None, w) \<Rightarrow> Some (None, name # visited, w)))"
| "run_dependencies n env reg central ds target assets [] s = Some (None, s)"
| "run_dependencies n env reg central ds target assets (d # deps) s =
     (case run_module n env reg central ds target assets d s of
        None \<Rightarrow> None
      | Some (Some e, s) \<Rightarrow> Some (Some e, s)
      | Some (None, s) \<Rightarrow> run_dependencies n env reg central ds target assets deps s)"

definition asset_name :: "migration_asset \<Rightarrow> string" where
  "asset_name a = ma_database_type a @ [CHR 0x00] @ ma_data_source a @ [CHR 0x00] @ ma_version_name a"

text \<open>The inner and the outer loop of \<open>loadModuleAssets\<close>.\<close>

fun add_assets :: "string \<Rightarrow> migration_asset list \<Rightarrow> string list \<times> migration_asset list \<Rightarrow> (string list \<times> migration_asset list) res" where
  "add_assets name [] acc = Inr acc"
| "add_assets name (a # as) (keys, assets) =
     (if asset_name a \<in> set keys then
        Inl (NewErr (''duplicate resource of migration module '' @ name @ '': '' @ ma_database_type a @ '' '' @ ma_data_source a @ '' '' @
          ma_version_name a))
      else add_assets name as (asset_name a # keys, assets @ [a]))"

fun load_resources :: "(string \<Rightarrow> string) \<Rightarrow> string \<Rightarrow> migration list \<Rightarrow> string list \<times> migration_asset list \<Rightarrow> migration_asset list res" where
  "load_resources sha name [] (keys, assets) = Inr assets"
| "load_resources sha name (m # ms) acc =
     (case mg_fs m of
        None \<Rightarrow> Inl (Panic ''nil file system'')
      | Some f \<Rightarrow>
          res_bind (load_migration_assets sha (f (mg_path m)) (mg_path m)) (\<lambda>loaded.
          res_bind (add_assets name loaded acc) (load_resources sha name ms)))"

definition load_module_assets :: "(string \<Rightarrow> string) \<Rightarrow> string \<Rightarrow> migration list \<Rightarrow> module_assets \<Rightarrow> module_assets res" where
  "load_module_assets sha name ms assets =
     (if name \<in> fst ` set assets then Inr assets
      else res_bind (load_resources sha name ms ([], [])) (\<lambda>as. Inr ((name, as) # assets)))"

fun load_tree :: "nat \<Rightarrow> (string \<Rightarrow> string) \<Rightarrow> registry \<Rightarrow> string \<Rightarrow> string list \<times> module_assets \<Rightarrow> (string list \<times> module_assets) res option"
  and load_dependencies :: "nat \<Rightarrow> (string \<Rightarrow> string) \<Rightarrow> registry \<Rightarrow> string list \<Rightarrow> string list \<times> module_assets \<Rightarrow> (string list \<times> module_assets) res option" where
  "load_tree 0 sha reg name s = None"
| "load_tree (Suc n) sha reg name (visited, assets) =
     (if name \<in> set visited then Some (Inr (visited, assets))
      else if module_migrations reg name = [] then Some (Inl (NewErr (''migration module without resources: '' @ name)))
      else case load_module_assets sha name (module_migrations reg name) assets of
        Inl e \<Rightarrow> Some (Inl e)
      | Inr assets \<Rightarrow> load_dependencies n sha reg (module_dependencies reg name) (name # visited, assets))"
| "load_dependencies n sha reg [] s = Some (Inr s)"
| "load_dependencies n sha reg (d # deps) s =
     (case load_tree n sha reg d s of
        None \<Rightarrow> None
      | Some (Inl e) \<Rightarrow> Some (Inl e)
      | Some (Inr s) \<Rightarrow> load_dependencies n sha reg deps s)"

subsection \<open>The runner\<close>

record runner =
  rn_registry :: registry
  rn_clients :: "(string \<times> client) list"

definition new_runner :: "registry option \<Rightarrow> runner res" where
  "new_runner reg = (case reg of None \<Rightarrow> Inl (NewErr ''nil migration registry'') | Some r \<Rightarrow> Inr \<lparr>rn_registry = r, rn_clients = []\<rparr>)"

definition set_client :: "client option \<Rightarrow> runner option \<Rightarrow> go_err option \<times> runner option" where
  "set_client cl rn =
     (case rn of
        None \<Rightarrow> (Some (NewErr ''nil migration runner''), None)
      | Some r \<Rightarrow> (case cl of
            None \<Rightarrow> (Some (NewErr ''nil migration client''), Some r)
          | Some c \<Rightarrow> (None, Some (r\<lparr>rn_clients := (cl_name c, c) # rn_clients r\<rparr>))))"

text \<open>The client of a data source, by default the default client.\<close>

definition target_client :: "runner \<Rightarrow> string \<Rightarrow> client option" where
  "target_client rn data_source =
     (case map_of (rn_clients rn) data_source of Some c \<Rightarrow> Some c | None \<Rightarrow> map_of (rn_clients rn) default_target)"

fun find_targets :: "runner \<Rightarrow> string list \<Rightarrow> (string \<times> client) list res" where
  "find_targets rn [] = Inr []"
| "find_targets rn (d # ds) =
     (case target_client rn d of
        None \<Rightarrow> Inl (NewErr (''no client for migration data source '' @ d))
      | Some c \<Rightarrow> res_bind (find_targets rn ds) (\<lambda>ts. Inr ((d, c) # ts)))"

text \<open>The loop over the targets in the order of their names.\<close>

fun run_targets ::
  "nat \<Rightarrow> 'd migration_env \<Rightarrow> registry \<Rightarrow> client \<Rightarrow> string \<Rightarrow> module_assets \<Rightarrow> (string \<times> client) list \<Rightarrow> 'd world \<Rightarrow>
   (go_err option \<times> 'd world) option" where
  "run_targets n env reg central name assets [] w = Some (None, w)"
| "run_targets n env reg central name assets ((ds, target) # ts) w =
     (let target_type = migration_database_type (cl_driver target) in
      if \<not> supported_type target_type then
        Some (Some (NewErr (''migration module '' @ name @ '' does not support '' @ cl_driver target)), w)
      else if \<not> list_ex (\<lambda>(m, as). list_ex (\<lambda>a. ma_data_source a = ds \<and> ma_database_type a = target_type) as) assets then
        Some (Some (NewErr (''migration module '' @ name @ '' has no resources of data source '' @ ds @ '' for '' @ cl_driver target)), w)
      else case run_module n env reg central ds target assets name ([], w) of
        None \<Rightarrow> None
      | Some (Some e, visited, w) \<Rightarrow> Some (Some (WrapErr (''migration module '' @ name @ '' data source '' @ ds) e), w)
      | Some (None, visited, w) \<Rightarrow> run_targets n env reg central name assets ts w)"

definition migration_run ::
  "nat \<Rightarrow> 'd migration_env \<Rightarrow> runner \<Rightarrow> string \<Rightarrow> client option list \<Rightarrow> 'd world \<Rightarrow> (go_err option \<times> 'd world) option" where
  "migration_run n env rn name targets w =
     (case map_of (rn_clients rn) default_target of
        None \<Rightarrow> Some (Some (NewErr ''no client for migration records''), w)
      | Some central \<Rightarrow>
          if \<not> registered (rn_registry rn) name then Some (Some (NewErr (''migration module not registered: '' @ name)), w)
          else if 1 < length targets then Some (Some (NewErr ''more than one migration target''), w)
          else case load_tree n (me_sha env) (rn_registry rn) name ([], []) of
            None \<Rightarrow> None
          | Some (Inl e) \<Rightarrow> Some (Some e, w)
          | Some (Inr (visited, assets)) \<Rightarrow>
              (case targets of
                 None # _ \<Rightarrow> Some (Some (NewErr ''nil migration target''), w)
               | Some c # _ \<Rightarrow> run_targets n env (rn_registry rn) central name assets [(cl_name c, c)] w
               | [] \<Rightarrow>
                   (case find_targets rn (sort (remdups (map ma_data_source (concat (map snd assets))))) of
                      Inl e \<Rightarrow> Some (Some e, w)
                    | Inr ts \<Rightarrow> run_targets n env (rn_registry rn) central name assets ts w)))"


subsection \<open>Walks end\<close>

text \<open>
  Both walks have one contract: a walk of a module ends when the walks of its dependencies do with one unit of
  fuel less, and a list of walks ends when each does.
\<close>

locale module_walk =
  fixes reg :: registry
    and walk :: "nat \<Rightarrow> string \<Rightarrow> 's \<Rightarrow> 'r option"
    and walk_list :: "nat \<Rightarrow> string list \<Rightarrow> 's \<Rightarrow> 'r option"
  assumes walk_step: "(\<And>s'. walk_list n (module_dependencies reg name) s' \<noteq> None) \<Longrightarrow> walk (Suc n) name s \<noteq> None"
    and walk_list_step: "(\<And>d s'. d \<in> set ds \<Longrightarrow> walk n d s' \<noteq> None) \<Longrightarrow> walk_list n ds s \<noteq> None"
begin

text \<open>The open calls form a path, which is no longer than the number of modules when there is no cycle.\<close>

lemma walk_path:
  assumes "acyclic (depends reg)" "\<forall>(m, d) \<in> depends reg. registered reg d"
  shows "distinct path \<Longrightarrow> \<forall>p \<in> set path. registered reg p \<and> (p, name) \<in> (depends reg)\<^sup>+ \<Longrightarrow> registered reg name \<Longrightarrow>
    length (rg_migrations reg) < n + length path \<Longrightarrow> walk n name s \<noteq> None"
proof (induction n arbitrary: path name s)
  case 0
  have "set path \<subseteq> set (map fst (rg_migrations reg))" using 0 by (auto simp: registered_def)
  then have "card (set path) \<le> card (set (map fst (rg_migrations reg)))" by (intro card_mono) auto
  also have "\<dots> \<le> length (rg_migrations reg)" by (metis card_length length_map)
  finally show ?case using 0 by (simp add: distinct_card)
next
  case (Suc n)
  have fresh: "name \<notin> set path" using Suc.prems(2) assms(1) by (auto simp: acyclic_def)
  show ?case
  proof (rule walk_step, rule walk_list_step)
    fix d s'
    assume "d \<in> set (module_dependencies reg name)"
    then have d: "(name, d) \<in> depends reg" by (simp add: depends_def)
    then have reg: "registered reg d" using assms(2) by auto
    have path: "\<forall>p \<in> set (name # path). registered reg p \<and> (p, d) \<in> (depends reg)\<^sup>+"
      using Suc.prems(2,3) d by (auto intro: trancl_into_trancl)
    have "distinct (name # path)" using fresh Suc.prems(1) by simp
    from Suc.IH [OF this path reg] Suc.prems(4) show "walk n d s' \<noteq> None" by simp
  qed
qed

lemma walk_ends:
  assumes "acyclic (depends reg)" "\<forall>(m, d) \<in> depends reg. registered reg d" "registered reg name"
    and "length (rg_migrations reg) < n"
  shows "walk n name s \<noteq> None"
  using walk_path [OF assms(1,2), of "[]"] assms(3,4) by simp

end

lemma load_dependencies_ends: "(\<And>d s'. d \<in> set ds \<Longrightarrow> load_tree n sha reg d s' \<noteq> None) \<Longrightarrow> load_dependencies n sha reg ds s \<noteq> None"
  by (induction ds arbitrary: s) (auto split: option.splits sum.splits)

interpretation load_walk: module_walk reg "\<lambda>n. load_tree n sha reg" "\<lambda>n. load_dependencies n sha reg" for reg sha
proof unfold_locales
  fix n name and s :: "string list \<times> module_assets"
  assume "\<And>s'. load_dependencies n sha reg (module_dependencies reg name) s' \<noteq> None"
  then show "load_tree (Suc n) sha reg name s \<noteq> None" by (cases s) (simp split: sum.splits)
qed (rule load_dependencies_ends)

lemma run_dependencies_ends:
  "(\<And>d s'. d \<in> set deps \<Longrightarrow> run_module n env reg central ds target assets d s' \<noteq> None) \<Longrightarrow>
   run_dependencies n env reg central ds target assets deps s \<noteq> None"
proof (induction deps arbitrary: s)
  case (Cons d deps)
  from Cons.prems [of d s] obtain e s' where "run_module n env reg central ds target assets d s = Some (e, s')" by auto
  with Cons show ?case by (cases e) auto
qed simp

interpretation run_walk: module_walk reg "\<lambda>n. run_module n env reg central ds target assets" "\<lambda>n. run_dependencies n env reg central ds target assets"
  for env reg central ds target assets
proof unfold_locales
  fix n name and s :: "string list \<times> 'a world"
  assume "\<And>s'. run_dependencies n env reg central ds target assets (module_dependencies reg name) s' \<noteq> None"
  then obtain e v w where "run_dependencies n env reg central ds target assets (module_dependencies reg name) s = Some (e, v, w)" by fastforce
  then show "run_module (Suc n) env reg central ds target assets name s \<noteq> None"
    by (cases s) (cases e, auto split: prod.splits option.splits)
qed (rule run_dependencies_ends)

lemma run_targets_ends:
  assumes "acyclic (depends reg)" "\<forall>(m, d) \<in> depends reg. registered reg d" "registered reg name"
    and "length (rg_migrations reg) < n"
  shows "run_targets n env reg central name assets ts w \<noteq> None"
proof (induction ts arbitrary: w)
  case (Cons t ts)
  obtain ds target where "t = (ds, target)" by fastforce
  moreover obtain e v w' where "run_module n env reg central ds target assets name ([], w) = Some (e, v, w')"
    using run_walk.walk_ends [OF assms, of env central ds target assets "([], w)"] by auto
  ultimately show ?case using Cons.IH by (cases e) (simp_all add: Let_def)
qed simp

text \<open>C15: A run over a registry that was created without error ends, whatever the databases answer: its recursion, which has no check for
  cycles, is never deeper than the number of modules.\<close>

theorem migration_run_ends:
  assumes "new_registry cs = Inr (rn_registry rn)" "length (rg_migrations (rn_registry rn)) < n"
  shows "\<exists>e w'. migration_run n env rn name targets w = Some (e, w')"
proof -
  note graph = new_registry_graph [OF assms(1)]
  have "migration_run n env rn name targets w \<noteq> None"
  proof (cases "registered (rn_registry rn) name")
    case True
    then show ?thesis
      using load_walk.walk_ends [OF graph True assms(2), of "me_sha env" "([], [])"] run_targets_ends [OF graph True assms(2)]
      by (auto simp: migration_run_def simp del: run_targets.simps split: option.splits sum.splits list.splits)
  qed (simp add: migration_run_def split: option.splits)
  then show ?thesis by auto
qed


lemma migration_run_ends_witness:
  "\<forall>(env :: string migration_env) w. \<exists>e w'. migration_run 2 env \<lparr>rn_registry = \<lparr>rg_migrations = [(''core'', [])], rg_order = [''core'']\<rparr>, rn_clients = []\<rparr> ''core'' [] w = Some (e, w')"
proof -
  have "new_registry [Some (''core'', [])] = Inr \<lparr>rg_migrations = [(''core'', [])], rg_order = [''core'']\<rparr>"
  proof -
    have "validate_name ''core'' = None" "validate_dependencies \<lparr>rg_migrations = [(''core'', [])], rg_order = [''core'']\<rparr> = None" by code_simp+
    then show ?thesis by (simp add: new_registry_def registry_register_def registered_def empty_registry_def)
  qed
  then show ?thesis by (intro allI migration_run_ends) simp_all
qed

subsection \<open>Waiting for the lock\<close>

text \<open>The loop asks at the start and then after every interval, until the deadline.\<close>

lemma poll_lock_granted:
  assumes "\<forall>i < k. me_try_lock env key (now + int i * poll_interval) = Inr False \<and> me_cancelled env (now + int i * poll_interval) = None"
    and "me_try_lock env key (now + int k * poll_interval) = Inr True" "0 < k \<longrightarrow> now + int (k - 1) * poll_interval < deadline"
  shows "poll_lock env name key deadline now = None"
  using assms
proof (induction k arbitrary: now)
  case 0
  then show ?case by (simp add: poll_lock.simps [of env name key deadline now])
next
  case (Suc k)
  have first: "me_try_lock env key now = Inr False" "me_cancelled env now = None" using Suc.prems(1) by auto
  have "0 \<le> poll_interval" by (simp add: poll_interval_def millisecond_def)
  then have "now \<le> now + int k * poll_interval" by simp
  then have early: "now < deadline" using Suc.prems(3) by simp
  have shift: "now + poll_interval + int i * poll_interval = now + int (Suc i) * poll_interval" for i by (simp add: algebra_simps)
  have "poll_lock env name key deadline (now + poll_interval) = None"
  proof (rule Suc.IH)
    show "\<forall>i < k. me_try_lock env key (now + poll_interval + int i * poll_interval) = Inr False \<and>
        me_cancelled env (now + poll_interval + int i * poll_interval) = None"
      unfolding shift using Suc.prems(1) by auto
    show "me_try_lock env key (now + poll_interval + int k * poll_interval) = Inr True" unfolding shift using Suc.prems(2) by simp
    show "0 < k \<longrightarrow> now + poll_interval + int (k - 1) * poll_interval < deadline"
      unfolding shift using Suc.prems(3) by auto
  qed
  with first early show ?case by (simp add: poll_lock.simps [of env name key deadline now])
qed


definition busy_env :: "string migration_env" where
  "busy_env = \<lparr>me_sha = \<lambda>s. s, me_exec = \<lambda>q d. Inr d, me_commit = \<lambda>n d. None, me_find = \<lambda>m d. None, me_create = \<lambda>r. None,
     me_conn = \<lambda>n. None, me_get_lock = \<lambda>l. Inr 0, me_try_lock = \<lambda>k t. Inr (1000000000 \<le> t), me_cancelled = \<lambda>t. None, me_now = 0\<rparr>"


end
