(* ===== verification/Migration_Ledger.thy ===== *)
theory Migration_Ledger
  imports Migration_Runner
begin

text \<open>
  What a migration run promises: an abstract ledger whose only step executes the scripts of one resource and records it, allowed when the
  resource is not recorded yet and all its module's dependencies are, for the same data source. Every run is a
  sequence of such steps, followed by at most one execution that could not be recorded; a successful run leaves nothing to do.
\<close>

subsection \<open>Recorded versions\<close>

definition recorded :: "history_row list \<Rightarrow> string \<Rightarrow> migration_asset \<Rightarrow> bool" where
  "recorded rows name a = (ma_version_name a \<in> set (applied_versions rows name (ma_data_source a)))"

lemma recorded_append: "recorded rows name a \<Longrightarrow> recorded (rows @ later) name a"
  by (auto simp: recorded_def applied_versions_def)

lemma recorded_row: "recorded (rows @ [asset_row env name (ma_data_source a) a]) name a"
  by (simp add: recorded_def applied_versions_def asset_row_def)

text \<open>All resources of a module for one data source and database type are recorded.\<close>

definition module_done :: "module_assets \<Rightarrow> history_row list \<Rightarrow> string \<Rightarrow> string \<Rightarrow> string \<Rightarrow> bool" where
  "module_done assets rows ds ty name =
     (\<forall>a \<in> set (assets_of assets name). ma_data_source a = ds \<longrightarrow> ma_database_type a = ty \<longrightarrow> recorded rows name a)"

lemma module_done_append: "module_done assets rows ds ty name \<Longrightarrow> module_done assets (rows @ later) ds ty name"
  by (auto simp: module_done_def recorded_append)

subsection \<open>The ledger\<close>

text \<open>The resource is due: it belongs to a module, matches the database of its data source, is not recorded, and the dependencies are done.\<close>

definition resource_due ::
  "registry \<Rightarrow> module_assets \<Rightarrow> (string \<Rightarrow> client option) \<Rightarrow> 'd world \<Rightarrow> string \<Rightarrow> migration_asset \<Rightarrow> client \<Rightarrow> bool" where
  "resource_due reg assets tgt w name a target =
     (a \<in> set (assets_of assets name) \<and> tgt (ma_data_source a) = Some target \<and>
      ma_database_type a = migration_database_type (cl_driver target) \<and> \<not> recorded (wd_history w) name a \<and>
      (\<forall>d \<in> set (module_dependencies reg name). module_done assets (wd_history w) (ma_data_source a) (ma_database_type a) d))"

definition with_scripts :: "'d migration_env \<Rightarrow> client \<Rightarrow> migration_asset \<Rightarrow> 'd world \<Rightarrow> 'd world \<Rightarrow> bool" where
  "with_scripts env target a w w' =
     (\<exists>d. exec_scripts env (ma_version_name a) (ma_up_scripts a) (wd_data w (cl_db target)) = Inr d \<and>
       w' = w\<lparr>wd_data := (wd_data w)(cl_db target := d)\<rparr>)"

inductive ledger ::
  "'d migration_env \<Rightarrow> registry \<Rightarrow> module_assets \<Rightarrow> (string \<Rightarrow> client option) \<Rightarrow> 'd world \<Rightarrow> 'd world \<Rightarrow> bool"
  for env reg assets tgt where
  ledger_refl: "ledger env reg assets tgt w w"
| ledger_step: "ledger env reg assets tgt w w1 \<Longrightarrow> resource_due reg assets tgt w1 name a target \<Longrightarrow> with_scripts env target a w1 w2 \<Longrightarrow>
    ledger env reg assets tgt w (w2\<lparr>wd_history := wd_history w2 @ [asset_row env name (ma_data_source a) a]\<rparr>)"

text \<open>The scripts of a resource that is due were executed, and recording it failed.\<close>

definition unrecorded ::
  "'d migration_env \<Rightarrow> registry \<Rightarrow> module_assets \<Rightarrow> (string \<Rightarrow> client option) \<Rightarrow> 'd world \<Rightarrow> 'd world \<Rightarrow> bool" where
  "unrecorded env reg assets tgt w w' =
     (\<exists>name a target. resource_due reg assets tgt w name a target \<and> with_scripts env target a w w' \<and>
       me_create env (asset_row env name (ma_data_source a) a) \<noteq> None)"

text \<open>The outcome of a part of a run.\<close>

definition ledger_result ::
  "'d migration_env \<Rightarrow> registry \<Rightarrow> module_assets \<Rightarrow> (string \<Rightarrow> client option) \<Rightarrow> go_err option \<Rightarrow> 'd world \<Rightarrow> 'd world \<Rightarrow> bool" where
  "ledger_result env reg assets tgt e w w' =
     (ledger env reg assets tgt w w' \<or> e \<noteq> None \<and> (\<exists>w1. ledger env reg assets tgt w w1 \<and> unrecorded env reg assets tgt w1 w'))"

lemma ledger_trans: "ledger env reg assets tgt w1 w2 \<Longrightarrow> ledger env reg assets tgt w w1 \<Longrightarrow> ledger env reg assets tgt w w2"
  by (induction rule: ledger.induct) (auto intro: ledger.intros)

lemma ledger_history: "ledger env reg assets tgt w w' \<Longrightarrow> \<exists>later. wd_history w' = wd_history w @ later"
  by (induction rule: ledger.induct) (auto simp: with_scripts_def)

lemma ledger_done: "ledger env reg assets tgt w w' \<Longrightarrow> module_done assets (wd_history w) ds ty m \<Longrightarrow> module_done assets (wd_history w') ds ty m"
  by (metis ledger_history module_done_append)

lemma ledger_recorded: "ledger env reg assets tgt w w' \<Longrightarrow> recorded (wd_history w) m a \<Longrightarrow> recorded (wd_history w') m a"
  by (metis ledger_history recorded_append)

lemma ledger_result_trans:
  "ledger env reg assets tgt w w1 \<Longrightarrow> ledger_result env reg assets tgt e w1 w' \<Longrightarrow> ledger_result env reg assets tgt e w w'"
  unfolding ledger_result_def by (blast intro: ledger_trans)

lemma ledger_result_None [simp]: "ledger_result env reg assets tgt None w w' = ledger env reg assets tgt w w'"
  by (simp add: ledger_result_def)

lemma ledger_result_refl [simp]: "ledger_result env reg assets tgt e w w"
  by (simp add: ledger_result_def ledger_refl)

lemma ledger_result_map [simp]: "ledger_result env reg assets tgt (map_option g e) w w' = ledger_result env reg assets tgt e w w'"
  by (cases e) (simp_all add: ledger_result_def)

lemma ledger_result_error: "ledger_result env reg assets tgt (Some e) w w' \<Longrightarrow> ledger_result env reg assets tgt (Some e') w w'"
  by (simp add: ledger_result_def)

subsection \<open>One resource\<close>

lemma wrap_error_eq: "wrap_error m r = (e, w) \<longleftrightarrow> snd r = w \<and> e = map_option (WrapErr m) (fst r)"
  by (cases r; cases "fst r") auto

lemma transaction_cases:
  "transaction env target version scripts w = (e, w') \<Longrightarrow>
     e \<noteq> None \<and> w' = w \<or>
     e = None \<and> (\<exists>d. exec_scripts env version scripts (wd_data w (cl_db target)) = Inr d \<and>
       w' = w\<lparr>wd_data := (wd_data w)(cl_db target := d)\<rparr>)"
  by (auto simp: transaction_def split: sum.splits option.splits)

lemma apply_asset:
  assumes "apply_migration_assets env target name (ma_data_source a) [a] w = (e, w')"
    and "a \<in> set (assets_of assets name)" "tgt (ma_data_source a) = Some target"
    and "ma_database_type a = migration_database_type (cl_driver target)"
    and "\<forall>d \<in> set (module_dependencies reg name). module_done assets (wd_history w) (ma_data_source a) (ma_database_type a) d"
  shows "ledger_result env reg assets tgt e w w' \<and> (e = None \<longrightarrow> recorded (wd_history w') name a)"
proof (cases "me_find env name (ma_data_source a) = None \<and> \<not> recorded (wd_history w) name a")
  case False
  then show ?thesis
    using assms(1) by (auto simp: apply_migration_assets_def load_applied_def recorded_def split: option.splits)
next
  case True
  then have due: "resource_due reg assets tgt w name a target" using assms(2-5) by (simp add: resource_due_def)
  let ?t = "transaction env target (ma_version_name a) (ma_up_scripts a) w"
  have run: "and_then (wrap_error (''run migration version '' @ ma_version_name a) ?t) (\<lambda>v.
        and_then (wrap_error (''record migration version '' @ ma_version_name a) (create_row env (asset_row env name (ma_data_source a) a) v))
          (apply_each env target name (ma_data_source a) (applied_versions (wd_history w) name (ma_data_source a)) [])) = (e, w')"
    using assms(1) True by (simp add: apply_migration_assets_def load_applied_def recorded_def)
  obtain e1 w1 where t: "?t = (e1, w1)" by fastforce
  show ?thesis
  proof (cases e1)
    case (Some e2)
    with transaction_cases [OF t] run t show ?thesis by auto
  next
    case None
    with transaction_cases [OF t] have scripts: "with_scripts env target a w w1" by (auto simp: with_scripts_def)
    show ?thesis
    proof (cases "me_create env (asset_row env name (ma_data_source a) a)")
      case (Some e2)
      with run t None have "e \<noteq> None" "w' = w1" by (auto simp: create_row_def)
      moreover have "unrecorded env reg assets tgt w w1" unfolding unrecorded_def using due scripts Some by auto
      ultimately show ?thesis by (auto simp: ledger_result_def intro: ledger_refl)
    next
      case created: None
      with run t None have "e = None" "w' = w1\<lparr>wd_history := wd_history w1 @ [asset_row env name (ma_data_source a) a]\<rparr>"
        by (auto simp: create_row_def)
      with ledger_step [OF ledger_refl due scripts] show ?thesis by (simp add: recorded_row)
    qed
  qed
qed

lemma run_migration_result:
  assumes "run_migration env central (Some target) name a w = (e, w')"
    and "a \<in> set (assets_of assets name)" "tgt (ma_data_source a) = Some target"
    and "\<forall>d \<in> set (module_dependencies reg name). module_done assets (wd_history w) (ma_data_source a) (ma_database_type a) d"
  shows "ledger_result env reg assets tgt e w w' \<and> (e = None \<longrightarrow> recorded (wd_history w') name a)"
proof -
  obtain f v where r: "with_migration_lock env central name (ma_data_source a) (apply_migration_assets env target name (ma_data_source a) [a]) w = (f, v)"
    by fastforce
  have locked: "ledger_result env reg assets tgt f w v \<and> (f = None \<longrightarrow> recorded (wd_history v) name a)"
    if "ma_database_type a = migration_database_type (cl_driver target)"
    using r apply_asset [of env target name a w f v assets tgt reg, OF _ assms(2,3) that assms(4)]
    by (auto simp: with_migration_lock_def Let_def split: option.splits if_splits)
  show ?thesis
  proof (cases "ma_database_type a = migration_database_type (cl_driver target)")
    case True
    with assms(1) locked r show ?thesis
      by (auto simp: run_migration_def Let_def wrap_error_eq split: if_splits)
  next
    case False
    with assms(1) show ?thesis by (auto simp: run_migration_def Let_def split: if_splits)
  qed
qed

lemma run_assets_result:
  assumes "tgt ds = Some target"
  shows "run_assets env central target name ds as w = (e, w') \<Longrightarrow> set as \<subseteq> set (assets_of assets name) \<Longrightarrow>
    \<forall>d \<in> set (module_dependencies reg name). module_done assets (wd_history w) ds (migration_database_type (cl_driver target)) d \<Longrightarrow>
    ledger_result env reg assets tgt e w w' \<and>
    (e = None \<longrightarrow> (\<forall>a \<in> set as. ma_data_source a = ds \<longrightarrow> ma_database_type a = migration_database_type (cl_driver target) \<longrightarrow>
       recorded (wd_history w') name a))"
proof (induction as arbitrary: w)
  case (Cons a as)
  show ?case
  proof (cases "ma_data_source a \<noteq> ds \<or> ma_database_type a \<noteq> migration_database_type (cl_driver target)")
    case True
    with Cons show ?thesis by auto
  next
    case False
    obtain f v where m: "run_migration env central (Some target) name a w = (f, v)" by fastforce
    have a: "ledger_result env reg assets tgt f w v \<and> (f = None \<longrightarrow> recorded (wd_history v) name a)"
      using run_migration_result [OF m] False assms Cons.prems(2,3) by auto
    show ?thesis
    proof (cases f)
      case (Some e')
      with Cons.prems(1) m False a show ?thesis by auto
    next
      case None
      then have v: "ledger env reg assets tgt w v" "recorded (wd_history v) name a" using a by auto
      have rest: "run_assets env central target name ds as v = (e, w')" using Cons.prems(1) m None False by simp
      from Cons.IH [OF rest] Cons.prems(2,3) ledger_done [OF v(1)]
      have ih: "ledger_result env reg assets tgt e v w'" "e = None \<longrightarrow> (\<forall>a \<in> set as. ma_data_source a = ds \<longrightarrow>
        ma_database_type a = migration_database_type (cl_driver target) \<longrightarrow> recorded (wd_history w') name a)" by auto
      have "recorded (wd_history w') name a" if "e = None" using ih(1) that v(2) ledger_recorded by auto
      with ih ledger_result_trans [OF v(1) ih(1)] show ?thesis by auto
    qed
  qed
qed simp


subsection \<open>The walk over the modules\<close>

text \<open>The visited modules are done for the data source and closed under dependencies.\<close>

definition visited_done :: "registry \<Rightarrow> module_assets \<Rightarrow> string \<Rightarrow> string \<Rightarrow> string list \<Rightarrow> 'd world \<Rightarrow> bool" where
  "visited_done reg assets ds ty visited w =
     (\<forall>m \<in> set visited. module_done assets (wd_history w) ds ty m \<and> set (module_dependencies reg m) \<subseteq> set visited)"

lemma visited_done_ledger: "ledger env reg assets tgt w w' \<Longrightarrow> visited_done reg assets ds ty visited w \<Longrightarrow> visited_done reg assets ds ty visited w'"
  unfolding visited_done_def by (blast intro: ledger_done)

lemma run_module_result:
  assumes "tgt ds = Some target" "ty = migration_database_type (cl_driver target)"
  shows "run_module n env reg central ds target assets name s = Some (e, visited', w') \<Longrightarrow> visited_done reg assets ds ty (fst s) (snd s) \<Longrightarrow>
      ledger_result env reg assets tgt e (snd s) w' \<and>
      (e = None \<longrightarrow> visited_done reg assets ds ty visited' w' \<and> set (fst s) \<subseteq> set visited' \<and> name \<in> set visited')"
    and "run_dependencies n env reg central ds target assets deps s = Some (e, visited', w') \<Longrightarrow> visited_done reg assets ds ty (fst s) (snd s) \<Longrightarrow>
      ledger_result env reg assets tgt e (snd s) w' \<and>
      (e = None \<longrightarrow> visited_done reg assets ds ty visited' w' \<and> set (fst s) \<subseteq> set visited' \<and> set deps \<subseteq> set visited')"
  using assms
proof (induction n env reg central ds target assets name s and n env reg central ds target assets deps s
    arbitrary: e visited' w' and e visited' w' rule: run_module_run_dependencies.induct)
  case (2 n env reg central ds target assets name visited w)
  show ?case
  proof (cases "name \<in> set visited \<or> module_migrations reg name = []")
    case True
    with 2(2,3) show ?thesis by (auto split: if_splits)
  next
    case False
    with 2(2) obtain f v u where deps: "run_dependencies n env reg central ds target assets (module_dependencies reg name) (visited, w) = Some (f, v, u)"
      by (cases "run_dependencies n env reg central ds target assets (module_dependencies reg name) (visited, w)") auto
    have ih: "ledger_result env reg assets tgt f w u" "f = None \<longrightarrow> visited_done reg assets ds ty v u \<and> set visited \<subseteq> set v \<and>
        set (module_dependencies reg name) \<subseteq> set v"
      using 2(1) [OF _ _ deps] False 2(3-5) by auto
    show ?thesis
    proof (cases f)
      case (Some e')
      with 2(2) False deps ih show ?thesis by auto
    next
      case None
      with ih have v: "ledger env reg assets tgt w u" "visited_done reg assets ds ty v u" "set visited \<subseteq> set v"
        "set (module_dependencies reg name) \<subseteq> set v" by auto
      obtain g x where r: "run_assets env central target name ds (assets_of assets name) u = (g, x)" by fastforce
      have deps_done: "\<forall>d \<in> set (module_dependencies reg name). module_done assets (wd_history u) ds (migration_database_type (cl_driver target)) d"
        using v(2,4) 2(5) by (auto simp: visited_done_def)
      from run_assets_result [where tgt = tgt, OF 2(4) r, of assets, OF order_refl deps_done]
      have a: "ledger_result env reg assets tgt g u x" "g = None \<longrightarrow> module_done assets (wd_history x) ds ty name"
        using 2(5) by (auto simp: module_done_def)
      have res: "(e, visited', w') = (g, if g = None then name # v else v, x)"
        using 2(2) False deps None r by (cases g) auto
      show ?thesis
      proof (cases g)
        case (Some e')
        with res ledger_result_trans [OF v(1) a(1)] show ?thesis by auto
      next
        case None
        then have x: "ledger env reg assets tgt u x" "module_done assets (wd_history x) ds ty name" using a by auto
        from visited_done_ledger [OF x(1) v(2)] x(2) v(4) have "visited_done reg assets ds ty (name # v) x"
          by (auto simp: visited_done_def)
        with res None v(3) ledger_trans [OF x(1) v(1)] show ?thesis by auto
      qed
    qed
  qed
next
  case (4 n env reg central ds target assets d deps s)
  obtain f v u where d: "run_module n env reg central ds target assets d s = Some (f, v, u)"
    using 4(3) by (cases "run_module n env reg central ds target assets d s") auto
  from 4(1) [OF d 4(4-6)] have ih: "ledger_result env reg assets tgt f (snd s) u"
    "f = None \<longrightarrow> visited_done reg assets ds ty v u \<and> set (fst s) \<subseteq> set v \<and> d \<in> set v" by auto
  show ?case
  proof (cases f)
    case (Some e')
    with d 4(3) ih show ?thesis by auto
  next
    case None
    with ih have u: "ledger env reg assets tgt (snd s) u" "visited_done reg assets ds ty v u" "set (fst s) \<subseteq> set v" "d \<in> set v" by auto
    have "run_dependencies n env reg central ds target assets deps (v, u) = Some (e, visited', w')" using d 4(3) None by simp
    from 4(2) [OF d _ None this] u(2) 4(5,6) have "ledger_result env reg assets tgt e u w'"
      "e = None \<longrightarrow> visited_done reg assets ds ty visited' w' \<and> set v \<subseteq> set visited' \<and> set deps \<subseteq> set visited'" by auto
    with u(3,4) ledger_result_trans [OF u(1)] show ?thesis by auto
  qed
qed auto

lemma visited_reachable:
  "visited_done reg assets ds ty visited w \<Longrightarrow> name \<in> set visited \<Longrightarrow> (name, m) \<in> (depends reg)\<^sup>* \<Longrightarrow> module_done assets (wd_history w) ds ty m"
proof -
  assume v: "visited_done reg assets ds ty visited w" and n: "name \<in> set visited" and r: "(name, m) \<in> (depends reg)\<^sup>*"
  from r have "m \<in> set visited"
    by (induction rule: rtrancl_induct) (use n v in \<open>auto simp: visited_done_def depends_def\<close>)
  with v show ?thesis by (simp add: visited_done_def)
qed


subsection \<open>The whole run\<close>

definition run_client :: "runner \<Rightarrow> client option list \<Rightarrow> string \<Rightarrow> client option" where
  "run_client rn targets data_source =
     (case targets of
        [] \<Rightarrow> target_client rn data_source
      | None # _ \<Rightarrow> None
      | Some c # _ \<Rightarrow> if data_source = cl_name c then Some c else None)"

definition all_done :: "registry \<Rightarrow> module_assets \<Rightarrow> string \<Rightarrow> history_row list \<Rightarrow> (string \<times> client) list \<Rightarrow> bool" where
  "all_done reg assets name rows ts =
     (\<forall>(ds, c) \<in> set ts. \<forall>m. (name, m) \<in> (depends reg)\<^sup>* \<longrightarrow> module_done assets rows ds (migration_database_type (cl_driver c)) m)"

lemma all_done_ledger: "ledger env reg assets tgt w w' \<Longrightarrow> all_done reg assets name (wd_history w) ts \<Longrightarrow> all_done reg assets name (wd_history w') ts"
  unfolding all_done_def using ledger_done by fastforce

lemma run_targets_result:
  "run_targets n env reg central name assets ts w = Some (e, w') \<Longrightarrow> \<forall>(ds, c) \<in> set ts. tgt ds = Some c \<Longrightarrow>
     ledger_result env reg assets tgt e w w' \<and> (e = None \<longrightarrow> all_done reg assets name (wd_history w') ts)"
proof (induction ts arbitrary: w)
  case (Cons t ts)
  obtain ds c where t: "t = (ds, c)" by fastforce
  show ?case
  proof (cases "run_module n env reg central ds c assets name ([], w)")
    case None
    with Cons.prems t show ?thesis by (auto simp: Let_def split: if_splits)
  next
    case (Some r)
    obtain f v u where r: "r = (f, v, u)" by (cases r)
    have "tgt ds = Some c" using Cons.prems(2) t by simp
    note m = run_module_result(1) [where tgt = tgt, OF this refl Some [unfolded r]]
    then have ih: "ledger_result env reg assets tgt f w u"
      "f = None \<longrightarrow> visited_done reg assets ds (migration_database_type (cl_driver c)) v u \<and> name \<in> set v"
      by (auto simp: visited_done_def)
    show ?thesis
    proof (cases f)
      case err: (Some e')
      with Cons.prems(1) t Some r ih(1) show ?thesis by (auto simp: Let_def intro: ledger_result_error split: if_splits)
    next
      case None
      with ih have u: "ledger env reg assets tgt w u" "all_done reg assets name (wd_history u) [(ds, c)]"
        by (auto simp: all_done_def intro: visited_reachable)
      show ?thesis
      proof (cases "run_targets n env reg central name assets ts u = Some (e, w')")
        case True
        with Cons.IH Cons.prems(2) have rest: "ledger_result env reg assets tgt e u w'" "e = None \<longrightarrow> all_done reg assets name (wd_history w') ts"
          by auto
        with all_done_ledger [OF _ u(2)] have "e = None \<longrightarrow> all_done reg assets name (wd_history w') [(ds, c)]" by auto
        with rest ledger_result_trans [OF u(1) rest(1)] t show ?thesis by (auto simp: all_done_def)
      next
        case False
        with Cons.prems(1) t Some r None show ?thesis by (auto simp: Let_def split: if_splits)
      qed
    qed
  qed
qed (simp add: all_done_def)

lemma find_targets_ok: "find_targets rn ds = Inr ts \<Longrightarrow> map fst ts = ds \<and> (\<forall>(d, c) \<in> set ts. target_client rn d = Some c)"
  by (induction ds arbitrary: ts) (auto simp: res_bind_Inr split: option.splits)

lemma migration_run_cases:
  assumes "migration_run n env rn name targets w = Some (e, w')"
  shows "e \<noteq> None \<and> w' = w \<or> (\<exists>central visited assets ts.
    map_of (rn_clients rn) default_target = Some central \<and>
    load_tree n (me_sha env) (rn_registry rn) name ([], []) = Some (Inr (visited, assets)) \<and>
    (\<forall>ds c. (ds, c) \<in> set ts \<longrightarrow> run_client rn targets ds = Some c) \<and>
    (\<forall>m a c. a \<in> set (assets_of assets m) \<longrightarrow> run_client rn targets (ma_data_source a) = Some c \<longrightarrow> (ma_data_source a, c) \<in> set ts) \<and>
    run_targets n env (rn_registry rn) central name assets ts w = Some (e, w'))"
proof (cases "e \<noteq> None \<and> w' = w")
  case False
  then obtain central visited assets where c: "map_of (rn_clients rn) default_target = Some central"
    "load_tree n (me_sha env) (rn_registry rn) name ([], []) = Some (Inr (visited, assets))"
    and rest: "(case targets of
                 None # _ \<Rightarrow> Some (Some (NewErr ''nil migration target''), w)
               | Some c # _ \<Rightarrow> run_targets n env (rn_registry rn) central name assets [(cl_name c, c)] w
               | [] \<Rightarrow>
                   (case find_targets rn (sort (remdups (map ma_data_source (concat (map snd assets))))) of
                      Inl e \<Rightarrow> Some (Some e, w)
                    | Inr ts \<Rightarrow> run_targets n env (rn_registry rn) central name assets ts w)) = Some (e, w')"
    using assms by (auto simp: migration_run_def simp del: run_targets.simps split: option.splits if_splits sum.splits)
  consider (none) "targets = []" | (nil) us where "targets = None # us" | (one) t us where "targets = Some t # us"
    by (cases targets; cases "hd targets") auto
  then show ?thesis
  proof cases
    case none
    with rest False obtain ts where ts: "find_targets rn (sort (remdups (map ma_data_source (concat (map snd assets))))) = Inr ts"
      "run_targets n env (rn_registry rn) central name assets ts w = Some (e, w')"
      by (auto split: sum.splits)
    note ok = find_targets_ok [OF ts(1)]
    have "(ma_data_source a, c) \<in> set ts"
      if "a \<in> set (assets_of assets m)" "run_client rn targets (ma_data_source a) = Some c" for m a c
    proof -
      from that(1) obtain as where "map_of assets m = Some as" "a \<in> set as" by (cases "map_of assets m") (auto simp: assets_of_def)
      then have "\<exists>as. (m, as) \<in> set assets \<and> a \<in> set as" by (meson map_of_SomeD)
      then have "ma_data_source a \<in> set (sort (remdups (map ma_data_source (concat (map snd assets)))))" by force
      then have "ma_data_source a \<in> fst ` set ts" using ok by (metis list.set_map)
      then obtain c' where "(ma_data_source a, c') \<in> set ts" by auto
      moreover from this ok that(2) none have "c' = c" by (auto simp: run_client_def)
      ultimately show ?thesis by simp
    qed
    moreover have "run_client rn targets ds = Some c" if "(ds, c) \<in> set ts" for ds c using that ok none by (auto simp: run_client_def)
    ultimately show ?thesis using c ts(2) by blast
  next
    case nil
    with rest False show ?thesis by auto
  next
    case one
    with rest have "run_targets n env (rn_registry rn) central name assets [(cl_name t, t)] w = Some (e, w')" by simp
    moreover have "\<forall>ds c. (ds, c) \<in> set [(cl_name t, t)] \<longrightarrow> run_client rn targets ds = Some c" using one by (simp add: run_client_def)
    moreover have "\<forall>m a c. a \<in> set (assets_of assets m) \<longrightarrow> run_client rn targets (ma_data_source a) = Some c \<longrightarrow>
      (ma_data_source a, c) \<in> set [(cl_name t, t)]" using one by (auto simp: run_client_def split: if_splits)
    ultimately show ?thesis using c by blast
  qed
qed simp

subsection \<open>What is loaded\<close>

text \<open>Every visited module has its resources, and its dependencies are visited.\<close>

definition loaded :: "(string \<Rightarrow> string) \<Rightarrow> registry \<Rightarrow> string list \<Rightarrow> module_assets \<Rightarrow> bool" where
  "loaded sha reg visited assets = (fst ` set assets = set visited \<and>
     (\<forall>m as. map_of assets m = Some as \<longrightarrow> load_resources sha m (module_migrations reg m) ([], []) = Inr as))"

lemma load_tree_result:
  shows "load_tree n sha reg name s = Some (Inr (v, assets)) \<Longrightarrow> loaded sha reg (fst s) (snd s) \<Longrightarrow>
      loaded sha reg v assets \<and> set (fst s) \<subseteq> set v \<and> name \<in> set v \<and>
      (\<forall>m \<in> set v - set (fst s). set (module_dependencies reg m) \<subseteq> set v)"
    and "load_dependencies n sha reg deps s = Some (Inr (v, assets)) \<Longrightarrow> loaded sha reg (fst s) (snd s) \<Longrightarrow>
      loaded sha reg v assets \<and> set (fst s) \<subseteq> set v \<and> set deps \<subseteq> set v \<and>
      (\<forall>m \<in> set v - set (fst s). set (module_dependencies reg m) \<subseteq> set v)"
proof (induction n sha reg name s and n sha reg deps s arbitrary: v assets and v assets rule: load_tree_load_dependencies.induct)
  case (2 n sha reg name visited known)
  show ?case
  proof (cases "name \<in> set visited")
    case True
    with 2(2,3) show ?thesis by auto
  next
    case False
    with 2(2) obtain known' where k: "load_module_assets sha name (module_migrations reg name) known = Inr known'"
      and d: "load_dependencies n sha reg (module_dependencies reg name) (name # visited, known') = Some (Inr (v, assets))"
      and m: "module_migrations reg name \<noteq> []"
      by (auto split: if_splits sum.splits)
    from k False 2(3) obtain as where as: "load_resources sha name (module_migrations reg name) ([], []) = Inr as" "known' = (name, as) # known"
      by (auto simp: load_module_assets_def loaded_def res_bind_Inr split: if_splits)
    have "loaded sha reg (name # visited) known'" using 2(3) as by (auto simp: loaded_def)
    with 2(1) [OF False m k d] show ?thesis by auto
  qed
next
  case (4 n sha reg d deps s)
  from 4(3) obtain v1 a1 where d: "load_tree n sha reg d s = Some (Inr (v1, a1))" "load_dependencies n sha reg deps (v1, a1) = Some (Inr (v, assets))"
    by (auto split: option.splits sum.splits)
  from 4(1) [OF d(1) 4(4)] have v1: "loaded sha reg v1 a1" "set (fst s) \<subseteq> set v1" "d \<in> set v1"
    "\<forall>m \<in> set v1 - set (fst s). set (module_dependencies reg m) \<subseteq> set v1" by auto
  from 4(2) [OF d(1) refl d(2)] v1(1) have v: "loaded sha reg v assets" "set v1 \<subseteq> set v" "set deps \<subseteq> set v"
    "\<forall>m \<in> set v - set v1. set (module_dependencies reg m) \<subseteq> set v" by auto
  have "\<forall>m \<in> set v - set (fst s). set (module_dependencies reg m) \<subseteq> set v" using v1(4) v(2,4) by blast
  with v v1(2,3) show ?case by auto
qed auto

lemma load_tree_reachable:
  assumes "load_tree n sha reg name ([], []) = Some (Inr (v, assets))" "(name, m) \<in> (depends reg)\<^sup>*"
  shows "load_resources sha m (module_migrations reg m) ([], []) = Inr (assets_of assets m)"
proof -
  from load_tree_result(1) [OF assms(1)] have l: "loaded sha reg v assets" "name \<in> set v"
    "\<forall>m \<in> set v. set (module_dependencies reg m) \<subseteq> set v" by (auto simp: loaded_def)
  from assms(2) have "m \<in> set v"
    by (induction rule: rtrancl_induct) (use l in \<open>auto simp: depends_def\<close>)
  then have "m \<in> fst ` set assets" using l(1) by (simp add: loaded_def)
  then obtain as where "map_of assets m = Some as" by (metis map_of_eq_None_iff not_None_eq)
  with l(1) show ?thesis by (simp add: loaded_def assets_of_def)
qed


subsection \<open>Runs with nothing to do\<close>

lemma run_migration_recorded:
  assumes "recorded (wd_history w) name a"
  shows "snd (run_migration env central target name a w) = w"
proof -
  have "snd (apply_migration_assets env c name (ma_data_source a) [a] w) = w" for c
    using assms by (auto simp: apply_migration_assets_def load_applied_def recorded_def split: option.splits)
  then have "snd (with_migration_lock env central name (ma_data_source a) (apply_migration_assets env c name (ma_data_source a) [a]) w) = w" for c
    by (auto simp: with_migration_lock_def Let_def split: option.splits)
  moreover have "snd (wrap_error m r) = snd r" for m and r :: "go_err option \<times> 'a world"
    by (cases r; cases "fst r") auto
  ultimately show ?thesis by (simp add: run_migration_def Let_def split: option.splits)
qed

lemma run_assets_recorded:
  "\<forall>a \<in> set as. ma_data_source a = ds \<longrightarrow> ma_database_type a = migration_database_type (cl_driver target) \<longrightarrow> recorded (wd_history w) name a \<Longrightarrow>
   snd (run_assets env central target name ds as w) = w"
proof (induction as)
  case (Cons a as)
  obtain e v where r: "run_migration env central (Some target) name a w = (e, v)" by fastforce
  show ?case
  proof (cases "ma_data_source a \<noteq> ds \<or> ma_database_type a \<noteq> migration_database_type (cl_driver target)")
    case True
    with Cons show ?thesis by auto
  next
    case False
    with Cons.prems have "recorded (wd_history w) name a" by simp
    with run_migration_recorded [of w name a env central "Some target"] r have "v = w" by simp
    with False r Cons show ?thesis by (cases e) simp_all
  qed
qed simp

lemma run_module_idle:
  assumes "ty = migration_database_type (cl_driver target)"
  shows "run_module n env reg central ds target assets name s = Some (e, v, w') \<Longrightarrow>
      \<forall>m. (name, m) \<in> (depends reg)\<^sup>* \<longrightarrow> module_done assets (wd_history (snd s)) ds ty m \<Longrightarrow> w' = snd s"
    and "run_dependencies n env reg central ds target assets deps s = Some (e, v, w') \<Longrightarrow>
      \<forall>d \<in> set deps. \<forall>m. (d, m) \<in> (depends reg)\<^sup>* \<longrightarrow> module_done assets (wd_history (snd s)) ds ty m \<Longrightarrow> w' = snd s"
  using assms
proof (induction n env reg central ds target assets name s and n env reg central ds target assets deps s
    arbitrary: e v w' and e v w' rule: run_module_run_dependencies.induct)
  case (2 n env reg central ds target assets name visited w)
  show ?case
  proof (cases "name \<in> set visited \<or> module_migrations reg name = []")
    case True
    with 2(2) show ?thesis by (auto split: if_splits)
  next
    case False
    with 2(2) obtain f v1 u where deps: "run_dependencies n env reg central ds target assets (module_dependencies reg name) (visited, w) = Some (f, v1, u)"
      by (cases "run_dependencies n env reg central ds target assets (module_dependencies reg name) (visited, w)") auto
    have below: "\<forall>d \<in> set (module_dependencies reg name). \<forall>m. (d, m) \<in> (depends reg)\<^sup>* \<longrightarrow> module_done assets (wd_history (snd (visited, w))) ds ty m"
      using 2(3) by (auto simp: depends_def intro: converse_rtrancl_into_rtrancl)
    have u: "u = w" using 2(1) [OF _ _ deps below 2(4)] False by simp
    have "module_done assets (wd_history w) ds ty name" using 2(3) by auto
    then have "snd (run_assets env central target name ds (assets_of assets name) w) = w"
      using run_assets_recorded [of "assets_of assets name" ds target w name env central] 2(4) by (simp add: module_done_def)
    with 2(2) False deps u show ?thesis
      by (cases f; cases "run_assets env central target name ds (assets_of assets name) w"; cases "fst (run_assets env central target name ds (assets_of assets name) w)") auto
  qed
next
  case (4 n env reg central ds target assets d deps s)
  obtain f v1 u where d: "run_module n env reg central ds target assets d s = Some (f, v1, u)"
    using 4(3) by (cases "run_module n env reg central ds target assets d s") auto
  have u: "u = snd s" using 4(1) [OF d _ 4(5)] 4(4) by simp
  show ?case
  proof (cases f)
    case (Some e')
    with d u 4(3) show ?thesis by simp
  next
    case None
    then have "run_dependencies n env reg central ds target assets deps (v1, u) = Some (e, v, w')" using d 4(3) by simp
    from 4(2) [OF d _ None this _ 4(5)] 4(4) u show ?thesis by simp
  qed
qed auto

lemma run_targets_idle:
  "run_targets n env reg central name assets ts w = Some (e, w') \<Longrightarrow> all_done reg assets name (wd_history w) ts \<Longrightarrow> w' = w"
proof (induction ts)
  case (Cons t ts)
  obtain ds c where t: "t = (ds, c)" by fastforce
  show ?case
  proof (cases "run_module n env reg central ds c assets name ([], w)")
    case None
    with Cons.prems t show ?thesis by (auto simp: Let_def split: if_splits)
  next
    case (Some r)
    obtain f v u where r: "r = (f, v, u)" by (cases r)
    have "u = w" using run_module_idle(1) [OF refl Some [unfolded r]] Cons.prems(2) t by (auto simp: all_done_def)
    with Cons t Some r show ?thesis by (cases f) (auto simp: Let_def all_done_def split: if_splits)
  qed
qed simp


subsection \<open>Properties\<close>

definition sample_fs :: "string \<Rightarrow> fs_node" where
  "sample_fs p = FsDir (Inr [(''v1.2.3'', FsDir (Inr [(''mysql'', FsDir (Inr [(''a.up.sql'', FsFile (Inr (''create '' @ p)))]))]))])"

definition sample_contributors :: "contributor list" where
  "sample_contributors =
    [Some (''core'', [\<lparr>mg_fs = Some sample_fs, mg_path = ''c'', mg_dependencies = []\<rparr>]),
     Some (''app'', [\<lparr>mg_fs = Some sample_fs, mg_path = ''p'', mg_dependencies = [''core'']\<rparr>])]"

definition sample_registry :: registry where
  "sample_registry = \<lparr>rg_migrations = specs_of sample_contributors, rg_order = [''core'', ''app'']\<rparr>"

definition sample_runner :: runner where
  "sample_runner = \<lparr>rn_registry = sample_registry, rn_clients = [(''default'', \<lparr>cl_name = ''default'', cl_driver = ''mysql'', cl_db = 0\<rparr>)]\<rparr>"

definition sample_env :: "int \<Rightarrow> string list migration_env" where
  "sample_env acquired = \<lparr>me_sha = \<lambda>s. s, me_exec = \<lambda>q d. Inr (d @ [q]), me_commit = \<lambda>n d. None, me_find = \<lambda>m d. None, me_create = \<lambda>r. None,
     me_conn = \<lambda>n. None, me_get_lock = \<lambda>l. Inr acquired, me_try_lock = \<lambda>k t. Inr True, me_cancelled = \<lambda>t. None, me_now = 0\<rparr>"

definition sample_world :: "string list world" where
  "sample_world = \<lparr>wd_data = \<lambda>n. [], wd_history = []\<rparr>"

definition sample_after :: "string list world" where
  "sample_after = (case migration_run 3 (sample_env 1) sample_runner ''app'' [] sample_world of Some (e, w) \<Rightarrow> w | None \<Rightarrow> sample_world)"

lemma sample_run_ok:
  "map_option fst (migration_run 3 (sample_env 1) sample_runner ''app'' [] sample_world) = Some None"
  "map hr_module (wd_history sample_after) = [''core'', ''app''] \<and> wd_data sample_after 0 = [''create c'', ''create p'']"
  by code_simp+

lemma sample_run: "migration_run 3 (sample_env 1) sample_runner ''app'' [] sample_world = Some (None, sample_after)"
  using sample_run_ok(1) by (cases "migration_run 3 (sample_env 1) sample_runner ''app'' [] sample_world") (auto simp: sample_after_def)

text \<open>C13: A run does nothing but steps of the ledger: each executes the scripts of one resource that is not recorded, after every resource
  of the modules it depends on is recorded for that data source, and records it. When an error ends the run the worst that is left is the
  scripts of one last resource executed but not recorded.\<close>

theorem migration_run_refines_ledger:
  assumes "migration_run n env rn name targets w = Some (e, w')"
  shows "\<exists>assets. ledger_result env (rn_registry rn) assets (run_client rn targets) e w w' \<and>
    (w' = w \<or> (\<exists>visited. load_tree n (me_sha env) (rn_registry rn) name ([], []) = Some (Inr (visited, assets))))"
  using migration_run_cases [OF assms]
proof (elim disjE exE conjE)
  fix central visited assets ts
  assume l: "load_tree n (me_sha env) (rn_registry rn) name ([], []) = Some (Inr (visited, assets))"
    and ts: "\<forall>ds c. (ds, c) \<in> set ts \<longrightarrow> run_client rn targets ds = Some c"
    and r: "run_targets n env (rn_registry rn) central name assets ts w = Some (e, w')"
  from run_targets_result [OF r, of "run_client rn targets"] ts l show ?thesis by auto
qed auto

text \<open>C14: After a run without error every resource of the module and of the modules it reaches through dependencies that matches the
  database of its data source is recorded.\<close>

theorem migration_run_complete:
  assumes "migration_run n env rn name targets w = Some (None, w')" "(name, m) \<in> (depends (rn_registry rn))\<^sup>*"
  shows "\<exists>as. load_resources (me_sha env) m (module_migrations (rn_registry rn) m) ([], []) = Inr as \<and>
    (\<forall>a \<in> set as. \<forall>c. run_client rn targets (ma_data_source a) = Some c \<longrightarrow> ma_database_type a = migration_database_type (cl_driver c) \<longrightarrow>
      recorded (wd_history w') m a)"
proof -
  from migration_run_cases [OF assms(1)] obtain central visited assets ts where
    l: "load_tree n (me_sha env) (rn_registry rn) name ([], []) = Some (Inr (visited, assets))"
    and ts: "\<forall>ds c. (ds, c) \<in> set ts \<longrightarrow> run_client rn targets ds = Some c"
    and all: "\<forall>m a c. a \<in> set (assets_of assets m) \<longrightarrow> run_client rn targets (ma_data_source a) = Some c \<longrightarrow> (ma_data_source a, c) \<in> set ts"
    and r: "run_targets n env (rn_registry rn) central name assets ts w = Some (None, w')" by auto
  have "all_done (rn_registry rn) assets name (wd_history w') ts"
    using run_targets_result [OF r, of "run_client rn targets"] ts by auto
  then have "recorded (wd_history w') m a"
    if "a \<in> set (assets_of assets m)" "run_client rn targets (ma_data_source a) = Some c"
      "ma_database_type a = migration_database_type (cl_driver c)" for a c
    using all that assms(2) by (fastforce simp: all_done_def module_done_def)
  with load_tree_reachable [OF l assms(2)] show ?thesis by auto
qed

text \<open>A run is idempotent: once it has succeeded, running the same module again, whatever the databases and the lock then answer, leaves
  all data and records as they are.\<close>

theorem migration_run_idempotent:
  assumes "migration_run n env rn name targets w = Some (None, w')"
    and "me_sha env' = me_sha env" "migration_run n env' rn name targets w' = Some (e, w'')"
  shows "w'' = w'"
proof -
  from migration_run_cases [OF assms(1)] obtain central visited assets ts where
    l: "load_tree n (me_sha env) (rn_registry rn) name ([], []) = Some (Inr (visited, assets))"
    and ts: "\<forall>ds c. (ds, c) \<in> set ts \<longrightarrow> run_client rn targets ds = Some c"
    and all: "\<forall>m a c. a \<in> set (assets_of assets m) \<longrightarrow> run_client rn targets (ma_data_source a) = Some c \<longrightarrow> (ma_data_source a, c) \<in> set ts"
    and r: "run_targets n env (rn_registry rn) central name assets ts w = Some (None, w')" by auto
  have finished: "all_done (rn_registry rn) assets name (wd_history w') ts"
    using run_targets_result [OF r, of "run_client rn targets"] ts by auto
  show ?thesis
  proof (rule ccontr)
    assume "w'' \<noteq> w'"
    with migration_run_cases [OF assms(3)] obtain central2 visited2 assets2 ts2 where
      l2: "load_tree n (me_sha env') (rn_registry rn) name ([], []) = Some (Inr (visited2, assets2))"
      and ts2: "\<forall>ds c. (ds, c) \<in> set ts2 \<longrightarrow> run_client rn targets ds = Some c"
      and r2: "run_targets n env' (rn_registry rn) central2 name assets2 ts2 w' = Some (e, w'')" by blast
    have same: "assets2 = assets" using l l2 assms(2) by simp
    have "recorded (wd_history w') m a"
      if "(ds, c) \<in> set ts2" "(name, m) \<in> (depends (rn_registry rn))\<^sup>*" "a \<in> set (assets_of assets m)" "ma_data_source a = ds"
        "ma_database_type a = migration_database_type (cl_driver c)" for ds c m a
    proof -
      have "(ds, c) \<in> set ts" using all ts2 that by auto
      with finished that show ?thesis by (fastforce simp: all_done_def module_done_def)
    qed
    then have "all_done (rn_registry rn) assets2 name (wd_history w') ts2" by (auto simp: all_done_def module_done_def same)
    with run_targets_idle [OF r2] \<open>w'' \<noteq> w'\<close> show False by simp
  qed
qed

lemma migration_run_refines_ledger_witness:
  "\<exists>assets. ledger_result (sample_env 1) sample_registry assets (run_client sample_runner []) None sample_world sample_after"
  using migration_run_refines_ledger [OF sample_run] by (auto simp: sample_runner_def)

lemma sample_depends: "(''app'', ''core'') \<in> depends sample_registry"
  by (simp add: depends_def) code_simp

lemma migration_run_complete_witness:
  "\<exists>as. load_resources (me_sha (sample_env 1)) ''core'' (module_migrations sample_registry ''core'') ([], []) = Inr as"
  using migration_run_complete [OF sample_run, of "''core''"] sample_depends by (auto simp: sample_runner_def)

lemma migration_run_idempotent_witness:
  "map_option snd (migration_run 3 (sample_env 0) sample_runner ''app'' [] sample_after) = Some sample_after"
proof -
  have "migration_run 3 (sample_env 0) sample_runner ''app'' [] sample_after \<noteq> None" by code_simp
  then obtain e w where w: "migration_run 3 (sample_env 0) sample_runner ''app'' [] sample_after = Some (e, w)" by auto
  from migration_run_idempotent [OF sample_run _ w] have "w = sample_after" by (simp add: sample_env_def)
  with w show ?thesis by simp
qed

end
