(* ===== verification/Sse_Wire.thy ===== *)
theory Sse_Wire
  imports Go_Base64
begin

text \<open>
  Server-sent events on the wire (transport/sse): the events of event.go, the writer of serveStreamHTTP in http.go, and the client's reader
  (event.go, utils.go) and parser (client.go).

  A byte is a \<open>char\<close>. The scanner is given the whole stream, as far as its buffer reaches, so a delimiter that arrives in pieces is
  seen in one piece.
\<close>

subsection \<open>Events\<close>

record sse_event =
  ev_timestamp :: gotime
  ev_id :: string
  ev_data :: string
  ev_event :: string
  ev_retry :: string
  ev_comment :: string

definition empty_event :: sse_event where
  "empty_event = \<lparr>ev_timestamp = 0, ev_id = [], ev_data = [], ev_event = [], ev_retry = [], ev_comment = []\<rparr>"

definition has_content :: "sse_event \<Rightarrow> bool" where
  "has_content e = (ev_id e \<noteq> [] \<or> ev_data e \<noteq> [] \<or> ev_event e \<noteq> [] \<or> ev_retry e \<noteq> [] \<or> ev_comment e \<noteq> [])"

text \<open>The options of \<open>PublishDataWithMeta\<close>: an empty value leaves the field alone.\<close>

definition with_event_id :: "string \<Rightarrow> sse_event \<Rightarrow> sse_event" where
  "with_event_id v e = (if v \<noteq> [] then e\<lparr>ev_id := v\<rparr> else e)"

definition with_event_name :: "string \<Rightarrow> sse_event \<Rightarrow> sse_event" where
  "with_event_name v e = (if v \<noteq> [] then e\<lparr>ev_event := v\<rparr> else e)"

definition with_event_retry :: "string \<Rightarrow> sse_event \<Rightarrow> sse_event" where
  "with_event_retry v e = (if v \<noteq> [] then e\<lparr>ev_retry := v\<rparr> else e)"

definition with_event_comment :: "string \<Rightarrow> sse_event \<Rightarrow> sse_event" where
  "with_event_comment v e = (if v \<noteq> [] then e\<lparr>ev_comment := v\<rparr> else e)"

definition encode_base64 :: "sse_event \<Rightarrow> sse_event" where
  "encode_base64 e = (if 0 < length (ev_data e) then e\<lparr>ev_data := b64std_encode (ev_data e)\<rparr> else e)"

subsection \<open>Writing\<close>

definition lf :: char where "lf = CHR 0x0A"
definition cr :: char where "cr = CHR 0x0D"

definition write_data :: "string \<Rightarrow> string \<Rightarrow> string" where
  "write_data field v = field @ '': '' @ v @ [lf]"

definition write_event :: "bool \<Rightarrow> sse_event \<Rightarrow> string" where
  "write_event split_data e =
     (if 0 < length (ev_id e) then write_data ''id'' (ev_id e) else []) @
     (if 0 < length (ev_data e) then
        (if split_data then concat (map (write_data ''data'') (split_byte (ev_data e) lf))
         else if has_prefix (ev_data e) '':'' then ev_data e @ [lf]
         else write_data ''data'' (ev_data e))
      else []) @
     (if 0 < length (ev_event e) then write_data ''event'' (ev_event e) else []) @
     (if 0 < length (ev_retry e) then write_data ''retry'' (ev_retry e) else []) @
     (if 0 < length (ev_comment e) then write_data [] (ev_comment e) else []) @ [lf]"

text \<open>The loop over the connection: each event with the time it is taken; an event without content ends the response.\<close>

fun serve_events :: "bool \<Rightarrow> duration \<Rightarrow> (gotime \<times> sse_event) list \<Rightarrow> string" where
  "serve_events split_data ttl [] = []"
| "serve_events split_data ttl ((now, e) # es) =
     (if \<not> has_content e then []
      else if ttl \<noteq> 0 \<and> now > ev_timestamp e + ttl then serve_events split_data ttl es
      else write_event split_data e @ serve_events split_data ttl es)"

subsection \<open>Reading\<close>

definition min_pos :: "int \<Rightarrow> int \<Rightarrow> int" where
  "min_pos a b = (if a < 0 then b else if b < 0 then a else if a > b then b else a)"

definition bytes_index :: "string \<Rightarrow> string \<Rightarrow> int" where
  "bytes_index s p = (case str_index s p of None \<Rightarrow> - 1 | Some n \<Rightarrow> int n)"

definition contains_double_newline :: "string \<Rightarrow> int \<times> int" where
  "contains_double_newline data =
     (let cr_cr = bytes_index data [cr, cr]; lf_lf = bytes_index data [lf, lf]; cr_lf_lf = bytes_index data [cr, lf, lf];
        lf_cr_lf = bytes_index data [lf, cr, lf]; cr_lf_cr_lf = bytes_index data [cr, lf, cr, lf];
        pos = min_pos cr_cr (min_pos lf_lf (min_pos cr_lf_lf (min_pos lf_cr_lf cr_lf_cr_lf)))
      in (pos, if pos = cr_lf_cr_lf then 4 else if pos = cr_lf_lf \<or> pos = lf_cr_lf then 3 else 2))"

definition err_too_long :: go_err where "err_too_long = Sentinel ''bufio.Scanner: token too long''"

lemma double_newline_advances: "0 < snd (contains_double_newline data)"
  by (simp add: contains_double_newline_def Let_def)

text \<open>The tokens of the scanner and the error that ends it; \<open>None\<close> is the end of the stream.\<close>

function read_tokens :: "nat \<Rightarrow> string \<Rightarrow> string list \<times> go_err option" where
  "read_tokens limit data =
     (if data = [] then ([], None)
      else let (i, n) = contains_double_newline (take limit data) in
        if 0 \<le> i then
          (case read_tokens limit (drop (nat (i + n)) data) of (ts, e) \<Rightarrow> (take (nat i) data # ts, e))
        else if length data < limit then ([data], None)
        else ([], Some err_too_long))"
  by pat_completeness auto
termination
proof (relation "measure (\<lambda>(limit, data). length data)", goal_cases)
  case (2 limit data i_n i n)
  then have "0 < n" using double_newline_advances [of "take limit data"] by (metis snd_conv)
  with 2 show ?case by auto
qed simp

declare read_tokens.simps [simp del]

text \<open>\<open>bytes.FieldsFunc\<close>: the maximal runs of bytes that are not separators.\<close>

fun fields_from :: "(char \<Rightarrow> bool) \<Rightarrow> string \<Rightarrow> string \<Rightarrow> string list" where
  "fields_from p [] field = (if field = [] then [] else [field])"
| "fields_from p (c # cs) field =
     (if p c then (if field = [] then [] else [field]) @ fields_from p cs [] else fields_from p cs (field @ [c]))"

definition trim_header :: "nat \<Rightarrow> string \<Rightarrow> string" where
  "trim_header limit data =
     (if length data < limit then data
      else let d = drop limit data; d = (if 0 < length d \<and> hd d = CHR '' '' then tl d else d)
        in if 0 < length d \<and> last d = lf then butlast d else d)"

definition process_line :: "string \<Rightarrow> sse_event \<Rightarrow> sse_event" where
  "process_line line e =
     (if has_prefix line ''id:'' then e\<lparr>ev_id := trim_header 3 line\<rparr>
      else if has_prefix line ''data:'' then e\<lparr>ev_data := ev_data e @ trim_header 5 line @ [lf]\<rparr>
      else if line = ''data'' then e\<lparr>ev_data := ev_data e @ [lf]\<rparr>
      else if has_prefix line ''event:'' then e\<lparr>ev_event := trim_header 6 line\<rparr>
      else if has_prefix line ''retry:'' then e\<lparr>ev_retry := trim_header 6 line\<rparr>
      else e)"

definition process_event :: "bool \<Rightarrow> string \<Rightarrow> sse_event res" where
  "process_event base64 msg =
     (if length msg < 1 then Inl (NewErr ''event message was empty'')
      else let e = fold process_line (fields_from (\<lambda>c. c = lf \<or> c = cr) msg []) empty_event;
        e = e\<lparr>ev_data := trim_suffix (ev_data e) [lf]\<rparr>
      in if base64 then
        (case b64std_decode (ev_data e) of
           None \<Rightarrow> Inl (NewErr ''failed to decode event message'')
         | Some d \<Rightarrow> Inr (e\<lparr>ev_data := d\<rparr>))
      else Inr e)"

text \<open>\<open>readLoop\<close>: the last event identifier and the events handed on. A message that cannot be parsed is skipped.\<close>

fun read_loop :: "bool \<Rightarrow> string \<Rightarrow> string list \<Rightarrow> string \<times> sse_event list" where
  "read_loop base64 last_id [] = (last_id, [])"
| "read_loop base64 last_id (t # ts) =
     (case process_event base64 t of
        Inl _ \<Rightarrow> read_loop base64 last_id ts
      | Inr msg \<Rightarrow>
          let new_id = (if 0 < length (ev_id msg) then ev_id msg else last_id);
            msg = (if 0 < length (ev_id msg) then msg else msg\<lparr>ev_id := last_id\<rparr>)
          in case read_loop base64 new_id ts of
            (final, out) \<Rightarrow> (final, if has_content msg then msg # out else out))"

definition client_read :: "bool \<Rightarrow> nat \<Rightarrow> string \<Rightarrow> string \<Rightarrow> string \<times> sse_event list" where
  "client_read base64 limit last_id stream = read_loop base64 last_id (fst (read_tokens limit stream))"


subsection \<open>Lines of an event\<close>

definition plain :: "string \<Rightarrow> bool" where
  "plain v = (lf \<notin> set v \<and> cr \<notin> set v)"

text \<open>What may be sent: fields without line breaks, and data that is encoded, split or a single line that is not a comment.\<close>

definition wire_ok :: "bool \<Rightarrow> bool \<Rightarrow> sse_event \<Rightarrow> bool" where
  "wire_ok base64 split_data e =
     (plain (ev_id e) \<and> plain (ev_event e) \<and> plain (ev_retry e) \<and> plain (ev_comment e) \<and>
      (base64 \<or> cr \<notin> set (ev_data e) \<and> (split_data \<or> lf \<notin> set (ev_data e) \<and> \<not> has_prefix (ev_data e) '':'')))"

definition data_lines :: "bool \<Rightarrow> string \<Rightarrow> string list" where
  "data_lines split_data v = (if v = [] then [] else map (\<lambda>p. ''data: '' @ p) (if split_data then split_byte v lf else [v]))"

definition event_lines :: "bool \<Rightarrow> sse_event \<Rightarrow> string list" where
  "event_lines split_data e =
     (if ev_id e = [] then [] else [''id: '' @ ev_id e]) @ data_lines split_data (ev_data e) @
     (if ev_event e = [] then [] else [''event: '' @ ev_event e]) @
     (if ev_retry e = [] then [] else [''retry: '' @ ev_retry e]) @
     (if ev_comment e = [] then [] else ['': '' @ ev_comment e])"

lemma concat_lines: "ls \<noteq> [] \<Longrightarrow> concat (map (\<lambda>l. l @ [c]) ls) = str_join ls [c] @ [c]"
  by (induction ls "[c]" rule: str_join.induct) auto

lemma lf_cr [simp]: "lf \<noteq> cr" "cr \<noteq> lf"
  by (simp_all add: lf_def cr_def)

lemma write_event_lines:
  assumes "wire_ok False split_data e" "has_content e"
  shows "write_event split_data e = str_join (event_lines split_data e) [lf] @ [lf, lf]"
proof -
  have data: "(if 0 < length v then
        (if split_data then concat (map (write_data ''data'') (split_byte v lf))
         else if has_prefix v '':'' then v @ [lf] else write_data ''data'' v) else []) =
      concat (map (\<lambda>l. l @ [lf]) (data_lines split_data v))" if "split_data \<or> \<not> has_prefix v '':''" for v
  proof -
    have "write_data ''data'' = (\<lambda>p. ''data: '' @ p @ [lf])" by (simp add: fun_eq_iff write_data_def)
    with that show ?thesis by (auto simp: data_lines_def comp_def)
  qed
  have "write_event split_data e = concat (map (\<lambda>l. l @ [lf]) (event_lines split_data e)) @ [lf]"
    unfolding write_event_def event_lines_def using assms(1) by (subst data) (auto simp: wire_ok_def write_data_def)
  moreover have "event_lines split_data e \<noteq> []" using assms(2) by (auto simp: event_lines_def data_lines_def has_content_def)
  ultimately show ?thesis by (simp add: concat_lines)
qed

lemma plain_simps [simp]: "plain []" "plain (c # cs) = (c \<noteq> lf \<and> c \<noteq> cr \<and> plain cs)"
  by (auto simp: plain_def)

lemma plain_header [simp]:
  "plain (''id: '' @ v) = plain v" "plain (''data: '' @ v) = plain v" "plain (''event: '' @ v) = plain v" "plain (''retry: '' @ v) = plain v"
  "plain ('': '' @ v) = plain v"
  by (simp_all add: lf_def cr_def)

lemma data_lines_plain:
  assumes "cr \<notin> set v" "split_data \<or> lf \<notin> set v" "l \<in> set (data_lines split_data v)"
  shows "plain l \<and> l \<noteq> []"
proof -
  from assms(3) obtain p where l: "l = ''data: '' @ p" "p \<in> set (if split_data then split_byte v lf else [v])"
    by (auto simp: data_lines_def split: if_splits)
  have "plain p"
  proof (cases split_data)
    case True
    with l(2) have p: "p \<in> set (split_byte v lf)" by simp
    from split_byte_set [OF p] split_byte_pieces [OF p] assms(1) show ?thesis by (auto simp: plain_def)
  next
    case False
    with assms l(2) show ?thesis by (simp add: plain_def)
  qed
  with l(1) show ?thesis by (simp only: plain_header) simp
qed

lemma event_lines_plain:
  assumes "wire_ok False split_data e" "l \<in> set (event_lines split_data e)"
  shows "plain l \<and> l \<noteq> []"
proof -
  consider (data) "l \<in> set (data_lines split_data (ev_data e))" | (id) "l = ''id: '' @ ev_id e" | (event) "l = ''event: '' @ ev_event e"
    | (retry) "l = ''retry: '' @ ev_retry e" | (comment) "l = '': '' @ ev_comment e"
    using assms(2) by (auto simp: event_lines_def split: if_splits)
  then show ?thesis
  proof cases
    case data
    with assms(1) show ?thesis by (intro data_lines_plain [OF _ _ data]) (auto simp: wire_ok_def)
  next
    case id
    with assms(1) show ?thesis by (simp only: plain_header wire_ok_def) simp
  next
    case event
    with assms(1) show ?thesis by (simp only: plain_header wire_ok_def) simp
  next
    case retry
    with assms(1) show ?thesis by (simp only: plain_header wire_ok_def) simp
  next
    case comment
    with assms(1) show ?thesis by (simp only: plain_header wire_ok_def) simp
  qed
qed

subsection \<open>The reader finds the lines\<close>

lemma bytes_index_cr: "cr \<notin> set s \<Longrightarrow> cr \<in> set p \<Longrightarrow> bytes_index s p = - 1"
proof (cases "str_index s p")
  case (Some n)
  assume "cr \<notin> set s" "cr \<in> set p"
  moreover from Some obtain a b where "s = a @ p @ b" using str_index_None [of s p] by auto
  ultimately show ?thesis by simp
qed (simp add: bytes_index_def)

lemma double_newline_lf:
  assumes "cr \<notin> set s" "0 \<le> bytes_index s [lf, lf]"
  shows "contains_double_newline s = (bytes_index s [lf, lf], 2)"
  using assms by (simp add: contains_double_newline_def Let_def bytes_index_cr min_pos_def)

lemma index_after_line: "lf \<notin> set l \<Longrightarrow> str_index (l @ s) [lf, lf] = map_option (\<lambda>n. length l + n) (str_index s [lf, lf])"
  by (cases "str_index s [lf, lf]"; induction l) auto

lemma index_join:
  "ls \<noteq> [] \<Longrightarrow> \<forall>l \<in> set ls. plain l \<and> l \<noteq> [] \<Longrightarrow> str_index (str_join ls [lf] @ [lf, lf] @ rest) [lf, lf] = Some (length (str_join ls [lf]))"
proof (induction ls "[lf]" rule: str_join.induct)
  case (2 x)
  then show ?case by (simp add: index_after_line plain_def)
next
  case (3 x y ys)
  from 3(3) obtain c cs where y: "y = c # cs" "c \<noteq> lf" by (cases y) auto
  have "\<exists>t. str_join (y # ys) [lf] @ [lf, lf] @ rest = c # t" using y(1) by (cases ys) auto
  then obtain t where t: "str_join (y # ys) [lf] @ [lf, lf] @ rest = c # t" by blast
  have "str_index (c # t) [lf, lf] = Some (length (str_join (y # ys) [lf]))" using 3 t by simp
  then have "str_index (lf # c # t) [lf, lf] = Some (Suc (length (str_join (y # ys) [lf])))" using y(2) by simp
  moreover have "str_join (x # y # ys) [lf] @ [lf, lf] @ rest = x @ lf # c # t" using t by simp
  moreover have "lf \<notin> set x" using 3(3) by (simp add: plain_def)
  ultimately show ?case by (simp add: index_after_line)
qed simp

lemma read_token:
  assumes "ls \<noteq> []" "\<forall>l \<in> set ls. plain l \<and> l \<noteq> []" "length (str_join ls [lf]) + 2 \<le> limit" "cr \<notin> set rest"
  shows "fst (read_tokens limit (str_join ls [lf] @ [lf, lf] @ rest)) = str_join ls [lf] # fst (read_tokens limit rest)"
proof -
  let ?j = "str_join ls [lf]"
  have j: "cr \<notin> set ?j" using assms(1,2) by (induction ls "[lf]" rule: str_join.induct) (auto simp: plain_def)
  have head: "take limit (?j @ [lf, lf] @ rest) = ?j @ [lf, lf] @ take (limit - length ?j - 2) rest"
    using assms(3) by (simp add: take_Cons')
  have "cr \<notin> set (take (limit - length ?j - 2) rest)" using assms(4) by (meson in_set_takeD)
  then have "contains_double_newline (take limit (?j @ [lf, lf] @ rest)) = (int (length ?j), 2)"
    unfolding head using j index_join [OF assms(1,2)] by (subst double_newline_lf) (simp_all add: bytes_index_def)
  then show ?thesis
    by (subst read_tokens.simps) (simp add: nat_add_distrib split: prod.splits)
qed

lemma fields_run: "\<forall>c \<in> set l. \<not> p c \<Longrightarrow> fields_from p (l @ s) field = fields_from p s (field @ l)"
  by (induction l arbitrary: field) auto

lemma fields_join:
  "ls \<noteq> [] \<Longrightarrow> \<forall>l \<in> set ls. plain l \<and> l \<noteq> [] \<Longrightarrow> fields_from (\<lambda>c. c = lf \<or> c = cr) (str_join ls [lf]) [] = ls"
proof (induction ls "[lf]" rule: str_join.induct)
  case (2 x)
  then show ?case using fields_run [of x "\<lambda>c. c = lf \<or> c = cr" "[]" "[]"] by (auto simp: plain_def)
next
  case (3 x y ys)
  then show ?case
    using fields_run [of x "\<lambda>c. c = lf \<or> c = cr" "lf # str_join (y # ys) [lf]" "[]"] by (auto simp: plain_def)
qed simp


subsection \<open>The parser gives the event back\<close>

lemma trim_header_space: "length h = n \<Longrightarrow> plain v \<Longrightarrow> trim_header n (h @ CHR '' '' # v) = v"
  by (cases v rule: rev_cases) (auto simp: trim_header_def Let_def plain_def)

lemma process_line_fields:
  assumes "plain v"
  shows "process_line (''id: '' @ v) e = e\<lparr>ev_id := v\<rparr>" "process_line (''data: '' @ v) e = e\<lparr>ev_data := ev_data e @ v @ [lf]\<rparr>"
    "process_line (''event: '' @ v) e = e\<lparr>ev_event := v\<rparr>" "process_line (''retry: '' @ v) e = e\<lparr>ev_retry := v\<rparr>"
    "process_line ('': '' @ v) e = e"
  using trim_header_space [OF _ assms, of "''id:''" 3] trim_header_space [OF _ assms, of "''data:''" 5]
    trim_header_space [OF _ assms, of "''event:''" 6] trim_header_space [OF _ assms, of "''retry:''" 6]
  by (simp_all add: process_line_def)

lemma fold_data_lines:
  "\<forall>p \<in> set ps. plain p \<Longrightarrow> fold process_line (map (\<lambda>p. ''data: '' @ p) ps) e = e\<lparr>ev_data := ev_data e @ concat (map (\<lambda>p. p @ [lf]) ps)\<rparr>"
proof (induction ps arbitrary: e)
  case (Cons p ps)
  have "process_line (''data: '' @ p) e = e\<lparr>ev_data := ev_data e @ p @ [lf]\<rparr>" using process_line_fields(2) Cons.prems by simp
  moreover have "fold process_line (map (\<lambda>p. ''data: '' @ p) ps) (e\<lparr>ev_data := ev_data e @ p @ [lf]\<rparr>) =
      e\<lparr>ev_data := (ev_data e @ p @ [lf]) @ concat (map (\<lambda>p. p @ [lf]) ps)\<rparr>"
    using Cons.IH [of "e\<lparr>ev_data := ev_data e @ p @ [lf]\<rparr>"] Cons.prems by simp
  ultimately show ?case by (simp only: list.map fold_Cons o_apply concat.simps append_assoc)
qed simp

lemma fold_event_data:
  assumes "cr \<notin> set v" "split_data \<or> lf \<notin> set v"
  shows "fold process_line (data_lines split_data v) e = e\<lparr>ev_data := ev_data e @ (if v = [] then [] else v @ [lf])\<rparr>"
proof -
  let ?ps = "if split_data then split_byte v lf else [v]"
  have "\<forall>p \<in> set ?ps. plain p"
  proof
    fix p
    assume p: "p \<in> set ?ps"
    show "plain p"
    proof (cases split_data)
      case True
      with p have "p \<in> set (split_byte v lf)" by simp
      from split_byte_set [OF this] split_byte_pieces [OF this] assms(1) show ?thesis by (auto simp: plain_def)
    qed (use assms p in \<open>simp add: plain_def\<close>)
  qed
  moreover have "concat (map (\<lambda>p. p @ [lf]) ?ps) = v @ [lf]"
    using concat_lines [of "split_byte v lf" lf] by (simp add: join_split_byte)
  ultimately show ?thesis using fold_data_lines [of ?ps e] by (simp add: data_lines_def)
qed

lemma process_written:
  assumes "wire_ok False split_data e"
  shows "fold process_line (event_lines split_data e) empty_event =
    e\<lparr>ev_timestamp := 0, ev_comment := [], ev_data := if ev_data e = [] then [] else ev_data e @ [lf]\<rparr>"
proof -
  have plains: "plain (ev_id e)" "plain (ev_event e)" "plain (ev_retry e)" "plain (ev_comment e)"
    and data: "cr \<notin> set (ev_data e)" "split_data \<or> lf \<notin> set (ev_data e)"
    using assms by (auto simp: wire_ok_def)
  have opt: "fold process_line (if v = [] then [] else [h @ v]) x = (if v = [] then x else process_line (h @ v) x)" for h v x by simp
  show ?thesis
    unfolding event_lines_def fold_append o_apply opt
    by (cases "ev_id e = []"; cases "ev_event e = []"; cases "ev_retry e = []"; cases "ev_comment e = []")
      (simp_all only: fold_event_data [OF data] process_line_fields [OF plains(1)] process_line_fields [OF plains(2)]
        process_line_fields [OF plains(3)] process_line_fields [OF plains(4)] if_True if_False, simp_all add: empty_event_def)
qed

text \<open>What the client gets from an event: no comment, the decoded data, and the last identifier when it has none of its own.\<close>

definition sent :: "bool \<Rightarrow> sse_event \<Rightarrow> sse_event" where
  "sent base64 e = (if base64 then encode_base64 e else e)"

fun delivered :: "string \<Rightarrow> sse_event list \<Rightarrow> string \<times> sse_event list" where
  "delivered last_id [] = (last_id, [])"
| "delivered last_id (e # es) =
     (let current = (if ev_id e = [] then last_id else ev_id e); msg = e\<lparr>ev_timestamp := 0, ev_comment := [], ev_id := current\<rparr>
      in case delivered current es of (final, out) \<Rightarrow> (final, if has_content msg then msg # out else out))"

lemma sent_simps [simp]: "ev_id (sent b e) = ev_id e" "ev_event (sent b e) = ev_event e" "ev_retry (sent b e) = ev_retry e"
  "ev_comment (sent b e) = ev_comment e" "has_content (sent b e) = has_content e"
  by (auto simp: sent_def encode_base64_def has_content_def b64std_encode_nil)

lemma sent_wire_ok:
  assumes "wire_ok base64 split_data e"
  shows "wire_ok False split_data (sent base64 e)"
proof (cases base64)
  case True
  have "\<not> has_prefix (b64std_encode v) '':''" "lf \<notin> set (b64std_encode v)" "cr \<notin> set (b64std_encode v)" for v
    using b64std_chars [of "CHR '':''" v] b64std_chars [of lf v] b64std_chars [of cr v] by (auto simp: lf_def cr_def has_prefix_iff)
  with True assms show ?thesis by (auto simp: wire_ok_def sent_def encode_base64_def has_prefix_iff)
qed (use assms in \<open>simp add: sent_def\<close>)

lemma process_sent:
  assumes "wire_ok base64 split_data e" "has_content e"
  shows "process_event base64 (str_join (event_lines split_data (sent base64 e)) [lf]) = Inr (e\<lparr>ev_timestamp := 0, ev_comment := []\<rparr>)"
proof -
  let ?s = "sent base64 e" and ?ls = "event_lines split_data (sent base64 e)"
  note ok = sent_wire_ok [OF assms(1)]
  have content: "has_content ?s" using assms(2) by simp
  have ne: "?ls \<noteq> []" using content by (auto simp: event_lines_def data_lines_def has_content_def)
  have lines: "\<forall>l \<in> set ?ls. plain l \<and> l \<noteq> []" using event_lines_plain [OF ok] by blast
  obtain l ls where "?ls = l # ls" using ne by (cases ?ls) auto
  with lines have "str_join ?ls [lf] \<noteq> []" by (cases ls) auto
  then have len: "\<not> length (str_join ?ls [lf]) < 1" by simp
  have trim: "trim_suffix (if ev_data ?s = [] then [] else ev_data ?s @ [lf]) [lf] = ev_data ?s"
    by (simp add: trim_suffix_def has_suffix_def)
  have decode: "b64std_decode (b64std_encode v) = Some v" for v by (rule b64std_round_trip)
  have empty: "b64std_decode [] = Some []" using decode [of "[]"] b64std_encode_nil [of "[]"] by simp
  show ?thesis
    unfolding process_event_def Let_def fields_join [OF ne lines] process_written [OF ok] using len
    by (cases base64; cases "ev_data e = []") (simp_all add: trim decode empty sent_def encode_base64_def trim_suffix_def has_suffix_def b64std_encode_nil)
qed

lemma client_read_cons:
  assumes "wire_ok base64 split_data e" "has_content e" "length (write_event split_data (sent base64 e)) \<le> limit" "cr \<notin> set rest"
  shows "client_read base64 limit last_id (write_event split_data (sent base64 e) @ rest) =
    (let current = (if ev_id e = [] then last_id else ev_id e); msg = e\<lparr>ev_timestamp := 0, ev_comment := [], ev_id := current\<rparr>
     in case client_read base64 limit current rest of (final, out) \<Rightarrow> (final, if has_content msg then msg # out else out))"
proof -
  let ?ls = "event_lines split_data (sent base64 e)"
  note ok = sent_wire_ok [OF assms(1)]
  have content: "has_content (sent base64 e)" using assms(2) by simp
  have ne: "?ls \<noteq> []" using content by (auto simp: event_lines_def data_lines_def has_content_def)
  have lines: "\<forall>l \<in> set ?ls. plain l \<and> l \<noteq> []" using event_lines_plain [OF ok] by blast
  note written = write_event_lines [OF ok content]
  have "fst (read_tokens limit (write_event split_data (sent base64 e) @ rest)) = str_join ?ls [lf] # fst (read_tokens limit rest)"
    using read_token [OF ne lines _ assms(4), of limit] assms(3) by (simp add: written)
  then show ?thesis
    using process_sent [OF assms(1,2)] by (cases "ev_id e = []") (simp_all add: client_read_def Let_def split: prod.splits)
qed

lemma written_no_cr: "wire_ok False split_data e \<Longrightarrow> has_content e \<Longrightarrow> cr \<notin> set (write_event split_data e)"
proof -
  assume ok: "wire_ok False split_data e" and content: "has_content e"
  have "cr \<notin> set (str_join ls [lf])" if "\<forall>l \<in> set ls. plain l" for ls
    using that by (induction ls "[lf]" rule: str_join.induct) (auto simp: plain_def)
  with event_lines_plain [OF ok] show ?thesis unfolding write_event_lines [OF ok content] by auto
qed

text \<open>C19: What a server writes a client reads: over any sequence of events the client hands on the same identifiers, names, retry
  fields and data, in order, when the server splits its data or it is one line, or when both sides use base64.\<close>

theorem sse_round_trip:
  assumes "\<forall>e \<in> set es. wire_ok base64 split_data e \<and> has_content e \<and> length (write_event split_data (sent base64 e)) \<le> limit"
  shows "client_read base64 limit last_id (serve_events split_data 0 (map (\<lambda>e. (now, sent base64 e)) es)) = delivered last_id es"
  using assms
proof (induction es arbitrary: last_id)
  case Nil
  show ?case by (simp add: client_read_def read_tokens.simps)
next
  case (Cons e es)
  have "cr \<notin> set (serve_events split_data 0 (map (\<lambda>e. (now, sent base64 e)) es))"
    using Cons.prems by (induction es) (auto dest: written_no_cr [OF sent_wire_ok])
  with Cons client_read_cons [of base64 split_data e limit "serve_events split_data 0 (map (\<lambda>e. (now, sent base64 e)) es)" last_id]
  show ?case by simp
qed


lemma sse_round_trip_witness:
  "client_read False 100 ''0'' (serve_events True 0 [(5, empty_event\<lparr>ev_id := ''1'', ev_data := [CHR ''a'', lf, CHR ''b'']\<rparr>)]) =
     (''1'', [empty_event\<lparr>ev_id := ''1'', ev_data := [CHR ''a'', lf, CHR ''b'']\<rparr>])"
  using sse_round_trip [of "[empty_event\<lparr>ev_id := ''1'', ev_data := [CHR ''a'', lf, CHR ''b'']\<rparr>]" False True 100 "''0''" 5]
  by (simp add: empty_event_def has_content_def wire_ok_def lf_def cr_def write_event_def write_data_def sent_def Let_def)

text \<open>Without the two options a line break in the data ends the field: the rest is not delivered, or is read as other fields.\<close>

lemma unsplit_data_lost:
  "client_read False 100 [] (write_event False (empty_event\<lparr>ev_data := ''a'' @ [lf] @ ''id:7''\<rparr>)) =
     (''7'', [empty_event\<lparr>ev_id := ''7'', ev_data := ''a''\<rparr>])"
  by code_simp

end
