(* ===== verification/Sse_Stream.thy ===== *)
theory Sse_Stream
  imports Sse_Wire
begin

text \<open>
  The server side of transport/sse: the replay log (event_log.go), the dispatch loop of a stream with its subscribers (stream.go,
  subscriber.go), the manager of the streams (stream_manager.go), publishing (server.go), and the admission of a request (auth.go, http.go,
  request.go).

  The loop is a step relation: each step is one case of its \<open>select\<close>, and publishing and closing are steps of other goroutines. A
  subscriber's connection is the list of all events ever sent to it; a step that would send on a full channel is a step that happens
  when the subscriber has caught up. Sending on or closing a closed channel is a panic, recorded in the state.
\<close>

subsection \<open>The replay log\<close>

type_synonym event_log = "sse_event list"

text \<open>\<open>currentIndex\<close>: above the length and above every numeric identifier; the increment wraps like Go's \<open>int\<close>.\<close>

fun next_index :: "int \<Rightarrow> event_log \<Rightarrow> int" where
  "next_index n [] = n"
| "next_index n (e # es) =
     (case parse_int64 (ev_id e) of
        None \<Rightarrow> next_index n es
      | Some k \<Rightarrow> next_index (if n \<le> k then wrap64 (k + 1) else n) es)"

definition current_index :: "event_log \<Rightarrow> string" where
  "current_index lg = show_int (next_index (int (length lg) + 1) lg)"

text \<open>\<open>Add\<close> changes the event, which the caller goes on to send, and the log.\<close>

definition log_add :: "gotime \<Rightarrow> sse_event \<Rightarrow> event_log \<Rightarrow> sse_event \<times> event_log" where
  "log_add now e lg =
     (if \<not> has_content e then (e, lg)
      else let e = (if length (ev_id e) = 0 then e\<lparr>ev_id := current_index lg\<rparr> else e); e = e\<lparr>ev_timestamp := now\<rparr>
        in (e, lg @ [e]))"

definition log_clear :: "event_log \<Rightarrow> event_log" where
  "log_clear lg = []"

fun index_of_id :: "string \<Rightarrow> event_log \<Rightarrow> nat option" where
  "index_of_id v [] = None"
| "index_of_id v (e # es) = (if ev_id e = v then Some 0 else map_option Suc (index_of_id v es))"

text \<open>\<open>Replay\<close>: where it starts and what it sends.\<close>

definition replay_start :: "string \<Rightarrow> event_log \<Rightarrow> nat" where
  "replay_start v lg = (if v \<noteq> [] then (case index_of_id v lg of None \<Rightarrow> length lg | Some i \<Rightarrow> i + 1) else 0)"

definition log_replay :: "string \<Rightarrow> event_log \<Rightarrow> sse_event list" where
  "log_replay v lg = drop (replay_start v lg) lg"

subsection \<open>A stream\<close>

record subscriber =
  sb_event_id :: string
  sb_connection :: "sse_event list"
  sb_closed :: bool
  sb_registered :: bool
  sb_removed :: bool

record sse_stream =
  st_subscribers :: "nat list"
  st_count :: int
  st_log :: event_log
  st_event :: "sse_event list"
  st_quit :: bool
  st_done :: bool
  st_heap :: "nat \<Rightarrow> subscriber option"
  st_panic :: bool

record stream_config =
  sc_buffer_size :: nat
  sc_auto_replay :: bool
  sc_auto_stream :: bool

definition new_stream :: sse_stream where
  "new_stream = \<lparr>st_subscribers = [], st_count = 0, st_log = [], st_event = [], st_quit = False, st_done = False, st_heap = \<lambda>_. None,
     st_panic = False\<rparr>"

definition new_subscriber :: "string \<Rightarrow> subscriber" where
  "new_subscriber v = \<lparr>sb_event_id = v, sb_connection = [], sb_closed = False, sb_registered = False, sb_removed = False\<rparr>"

text \<open>\<open>connection <- event\<close> and \<open>close(connection)\<close>.\<close>

definition send_to :: "sse_event list \<Rightarrow> nat \<Rightarrow> sse_stream \<Rightarrow> sse_stream" where
  "send_to es i s =
     (case st_heap s i of
        None \<Rightarrow> s
      | Some b \<Rightarrow>
          if sb_closed b then (if es = [] then s else s\<lparr>st_panic := True\<rparr>)
          else s\<lparr>st_heap := (st_heap s)(i \<mapsto> b\<lparr>sb_connection := sb_connection b @ es\<rparr>)\<rparr>)"

definition close_subscriber :: "bool \<Rightarrow> nat \<Rightarrow> sse_stream \<Rightarrow> sse_stream" where
  "close_subscriber auto_stream i s =
     (case st_heap s i of
        None \<Rightarrow> s
      | Some b \<Rightarrow>
          if sb_closed b then s\<lparr>st_panic := True\<rparr>
          else s\<lparr>st_heap := (st_heap s)(i \<mapsto> b\<lparr>sb_closed := True, sb_removed := auto_stream\<rparr>)\<rparr>)"

fun sub_index :: "nat \<Rightarrow> nat list \<Rightarrow> nat option" where
  "sub_index i [] = None"
| "sub_index i (x # xs) = (if x = i then Some 0 else map_option Suc (sub_index i xs))"

definition remove_subscriber :: "stream_config \<Rightarrow> nat \<Rightarrow> sse_stream \<Rightarrow> sse_stream" where
  "remove_subscriber cfg k s =
     (let s' = close_subscriber (sc_auto_stream cfg) (st_subscribers s ! k) (s\<lparr>st_count := st_count s - 1\<rparr>)
      in s'\<lparr>st_subscribers := take k (st_subscribers s) @ drop (k + 1) (st_subscribers s)\<rparr>)"

definition remove_all_subscribers :: "stream_config \<Rightarrow> sse_stream \<Rightarrow> sse_stream" where
  "remove_all_subscribers cfg s =
     (let s' = fold (close_subscriber (sc_auto_stream cfg)) (st_subscribers s) s in s'\<lparr>st_count := 0, st_subscribers := []\<rparr>)"

text \<open>The cases of the loop. A subscriber that arrives is new to the heap.\<close>

definition loop_register :: "stream_config \<Rightarrow> nat \<Rightarrow> string \<Rightarrow> sse_stream \<Rightarrow> sse_stream" where
  "loop_register cfg i v s =
     (let s = s\<lparr>st_heap := (st_heap s)(i \<mapsto> (new_subscriber v)\<lparr>sb_registered := True\<rparr>), st_subscribers := st_subscribers s @ [i],
          st_count := st_count s + 1\<rparr>
      in if sc_auto_replay cfg then send_to (log_replay v (st_log s)) i s else s)"

definition loop_deregister :: "stream_config \<Rightarrow> nat \<Rightarrow> sse_stream \<Rightarrow> sse_stream" where
  "loop_deregister cfg i s = (case sub_index i (st_subscribers s) of None \<Rightarrow> s | Some k \<Rightarrow> remove_subscriber cfg k s)"

definition loop_event :: "stream_config \<Rightarrow> gotime \<Rightarrow> sse_event \<Rightarrow> sse_stream \<Rightarrow> sse_stream" where
  "loop_event cfg now e s =
     (let (e, lg) = (if sc_auto_replay cfg then log_add now e (st_log s) else (e, st_log s));
        s = s\<lparr>st_log := lg\<rparr>
      in fold (send_to [e]) (st_subscribers s) s)"

definition loop_quit :: "stream_config \<Rightarrow> sse_stream \<Rightarrow> sse_stream" where
  "loop_quit cfg s = (remove_all_subscribers cfg s)\<lparr>st_done := True\<rparr>"

definition stream_close :: "sse_stream \<Rightarrow> sse_stream" where
  "stream_close s = s\<lparr>st_quit := True\<rparr>"

text \<open>
  \<open>Publish\<close> queues the event when there is room and else waits; \<open>TryPublish\<close> tells whether it did. When the stream is closed and there is
  room, \<open>pick\<close> tells which of the two ready cases the \<open>select\<close> takes. The conversion copies the event.
\<close>

definition process :: "bool \<Rightarrow> gotime \<Rightarrow> sse_event option \<Rightarrow> sse_event" where
  "process base64 now e =
     (let e = (case e of None \<Rightarrow> empty_event | Some e \<Rightarrow> e)\<lparr>ev_timestamp := now\<rparr> in if base64 then encode_base64 e else e)"

definition try_publish :: "stream_config \<Rightarrow> bool \<Rightarrow> sse_event \<Rightarrow> sse_stream \<Rightarrow> bool \<times> sse_stream" where
  "try_publish cfg pick e s =
     (let room = length (st_event s) < sc_buffer_size cfg in
      if room \<and> (st_quit s \<longrightarrow> pick) then (True, s\<lparr>st_event := st_event s @ [e]\<rparr>) else (False, s))"

inductive stream_step :: "stream_config \<Rightarrow> sse_stream \<Rightarrow> sse_stream \<Rightarrow> bool" for cfg where
  step_register: "\<not> st_done s \<Longrightarrow> st_heap s i = None \<Longrightarrow> stream_step cfg s (loop_register cfg i v s)"
| step_deregister: "\<not> st_done s \<Longrightarrow> st_heap s i \<noteq> None \<Longrightarrow> stream_step cfg s (loop_deregister cfg i s)"
| step_event: "\<not> st_done s \<Longrightarrow> st_event s = e # es \<Longrightarrow> stream_step cfg s (loop_event cfg now e (s\<lparr>st_event := es\<rparr>))"
| step_quit: "\<not> st_done s \<Longrightarrow> st_quit s \<Longrightarrow> stream_step cfg s (loop_quit cfg s)"
| step_publish: "try_publish cfg pick e s = (True, s') \<Longrightarrow> stream_step cfg s s'"
| step_close: "stream_step cfg s (stream_close s)"


subsection \<open>The streams of a server\<close>

text \<open>Streams are known by an address; the manager maps their names to addresses.\<close>

record stream_manager =
  sm_streams :: "(string \<times> nat) list"
  sm_heap :: "nat \<Rightarrow> sse_stream"
  sm_names :: "nat \<Rightarrow> string"
  sm_next :: nat

definition new_stream_manager :: stream_manager where
  "new_stream_manager = \<lparr>sm_streams = [], sm_heap = \<lambda>_. new_stream, sm_names = \<lambda>_. [], sm_next = 0\<rparr>"

definition close_stream :: "nat \<Rightarrow> stream_manager \<Rightarrow> stream_manager" where
  "close_stream a m = m\<lparr>sm_heap := (sm_heap m)(a := stream_close (sm_heap m a))\<rparr>"

definition manager_get :: "string \<Rightarrow> stream_manager \<Rightarrow> nat option" where
  "manager_get v m = map_of (sm_streams m) v"

definition manager_exist :: "string \<Rightarrow> stream_manager \<Rightarrow> bool" where
  "manager_exist v m = (manager_get v m \<noteq> None)"

definition manager_count :: "stream_manager \<Rightarrow> nat" where
  "manager_count m = length (sm_streams m)"

definition manager_clean :: "stream_manager \<Rightarrow> stream_manager" where
  "manager_clean m = (fold (\<lambda>(v, a). close_stream a) (sm_streams m) m)\<lparr>sm_streams := []\<rparr>"

definition manager_add :: "nat option \<Rightarrow> stream_manager \<Rightarrow> nat option \<times> stream_manager" where
  "manager_add stream m =
     (case stream of
        None \<Rightarrow> (None, m)
      | Some a \<Rightarrow>
          (case manager_get (sm_names m a) m of
             None \<Rightarrow> (Some a, m\<lparr>sm_streams := (sm_names m a, a) # sm_streams m\<rparr>)
           | Some b \<Rightarrow> (Some b, close_stream a m)))"

definition manager_remove_with_id :: "string \<Rightarrow> stream_manager \<Rightarrow> stream_manager" where
  "manager_remove_with_id v m =
     (case manager_get v m of
        None \<Rightarrow> m
      | Some a \<Rightarrow> (close_stream a m)\<lparr>sm_streams := filter (\<lambda>(w, b). w \<noteq> v) (sm_streams m)\<rparr>)"

definition manager_remove :: "nat \<Rightarrow> stream_manager \<Rightarrow> stream_manager" where
  "manager_remove a m =
     (case filter (\<lambda>(w, b). b = a) (sm_streams m) of
        [] \<Rightarrow> m
      | (v, b) # _ \<Rightarrow> (close_stream b m)\<lparr>sm_streams := filter (\<lambda>(w, b). w \<noteq> v) (sm_streams m)\<rparr>)"

text \<open>\<open>CreateStream\<close>, with the new stream at an unused address.\<close>

definition create_stream :: "string \<Rightarrow> stream_manager \<Rightarrow> nat option \<times> stream_manager" where
  "create_stream v m =
     (case manager_get v m of
        Some a \<Rightarrow> (Some a, m)
      | None \<Rightarrow> manager_add (Some (sm_next m))
          (m\<lparr>sm_heap := (sm_heap m)(sm_next m := new_stream), sm_names := (sm_names m)(sm_next m := v), sm_next := sm_next m + 1\<rparr>))"

definition server_try_publish :: "stream_config \<Rightarrow> bool \<Rightarrow> bool \<Rightarrow> gotime \<Rightarrow> string \<Rightarrow> sse_event option \<Rightarrow> stream_manager \<Rightarrow> bool \<times> stream_manager" where
  "server_try_publish cfg pick base64 now v e m =
     (case manager_get v m of
        None \<Rightarrow> (False, m)
      | Some a \<Rightarrow> (case try_publish cfg pick (process base64 now e) (sm_heap m a) of
          (ok, s) \<Rightarrow> (ok, m\<lparr>sm_heap := (sm_heap m)(a := s)\<rparr>)))"

text \<open>\<open>Publish\<close> and \<open>Notify\<close> wait for room; \<open>None\<close> is the wait. A closed or absent stream takes nothing.\<close>

definition server_publish :: "stream_config \<Rightarrow> bool \<Rightarrow> bool \<Rightarrow> gotime \<Rightarrow> string \<Rightarrow> sse_event option \<Rightarrow> stream_manager \<Rightarrow> stream_manager option" where
  "server_publish cfg pick base64 now v e m =
     (case manager_get v m of
        None \<Rightarrow> Some m
      | Some a \<Rightarrow>
          (case try_publish cfg pick (process base64 now e) (sm_heap m a) of
             (ok, s) \<Rightarrow>
               if ok then Some (m\<lparr>sm_heap := (sm_heap m)(a := s)\<rparr>)
               else if st_quit (sm_heap m a) then Some m
               else None))"

fun server_notify :: "stream_config \<Rightarrow> bool \<Rightarrow> bool \<Rightarrow> gotime \<Rightarrow> string list \<Rightarrow> sse_event option \<Rightarrow> stream_manager \<Rightarrow> stream_manager option" where
  "server_notify cfg pick base64 now [] e m = Some m"
| "server_notify cfg pick base64 now (v # vs) e m =
     (case server_publish cfg pick base64 now v e m of None \<Rightarrow> None | Some m \<Rightarrow> server_notify cfg pick base64 now vs e m)"

text \<open>\<open>RegisterStream\<close>: all definitions are checked before the first is kept; \<open>None\<close> is a nil definition.\<close>

fun check_definitions :: "string list \<Rightarrow> string list \<Rightarrow> string option list \<Rightarrow> go_err option" where
  "check_definitions known seen [] = None"
| "check_definitions known seen (None # ds) = Some (NewErr ''SSE stream is nil'')"
| "check_definitions known seen (Some v # ds) =
     (if v = [] then Some (NewErr ''SSE stream ID is empty'')
      else if v \<in> set known then Some (NewErr (''SSE stream ID already registered: '' @ v))
      else if v \<in> set seen then Some (NewErr (''SSE stream ID already registered: '' @ v))
      else check_definitions known (v # seen) ds)"

definition register_stream :: "string option list \<Rightarrow> string list \<Rightarrow> go_err option \<times> string list" where
  "register_stream ds known =
     (case check_definitions known [] ds of
        Some e \<Rightarrow> (Some e, known)
      | None \<Rightarrow> (None, map the ds @ known))"

subsection \<open>Admission\<close>

definition err_unauthorized :: go_err where "err_unauthorized = Sentinel ''unauthorized''"
definition err_forbidden :: string where "err_forbidden = ''forbidden''"

definition is_forbidden :: "go_err \<Rightarrow> bool" where
  "is_forbidden e = errors_is e err_forbidden"

text \<open>A request as the handlers read it: the method, the header, the query parameters and the path of its URL if it has one.\<close>

record sse_request =
  rq_method :: string
  rq_header :: "string \<Rightarrow> string"
  rq_query :: "(string \<Rightarrow> string) option"
  rq_path :: string

definition extract_bearer_token :: "string \<Rightarrow> string" where
  "extract_bearer_token authorization =
     (let a = trim_space authorization
      in if 7 \<le> length a \<and> equal_fold (take 7 a) ''Bearer '' then trim_space (drop 7 a) else a)"

definition default_token_extractor :: "sse_request option \<Rightarrow> string" where
  "default_token_extractor r =
     (case r of
        None \<Rightarrow> []
      | Some q \<Rightarrow>
          let t = extract_bearer_token (rq_header q ''Authorization'') in
          if t \<noteq> [] then t
          else let t = trim_space (rq_header q ''X-Token'') in
          if t \<noteq> [] then t
          else (case rq_query q of None \<Rightarrow> [] | Some f \<Rightarrow> trim_space (f ''token'')))"

definition resolve_from_query :: "string \<Rightarrow> sse_request option \<Rightarrow> string res" where
  "resolve_from_query key r =
     (case r of
        None \<Rightarrow> Inl (NewErr ''request url is nil'')
      | Some q \<Rightarrow> (case rq_query q of None \<Rightarrow> Inl (NewErr ''request url is nil'') | Some f \<Rightarrow> Inr (f key)))"

definition resolve_from_path_prefix :: "string \<Rightarrow> sse_request option \<Rightarrow> string res" where
  "resolve_from_path_prefix prefix r =
     (case r of
        None \<Rightarrow> Inl (NewErr ''request url is nil'')
      | Some q \<Rightarrow> (case rq_query q of
            None \<Rightarrow> Inl (NewErr ''request url is nil'')
          | Some _ \<Rightarrow> Inr (if prefix = [] then trim_in ''/'' (rq_path q) else trim_prefix (rq_path q) prefix)))"

text \<open>The start of \<open>serveStreamHTTP\<close>: the status and the error, or the stream that is joined.\<close>

definition admit ::
  "bool \<Rightarrow> bool \<Rightarrow> (sse_request \<Rightarrow> string \<Rightarrow> go_err option) option \<Rightarrow> (sse_request \<Rightarrow> string) option \<Rightarrow> sse_request \<Rightarrow> string \<Rightarrow> stream_manager \<Rightarrow>
   (nat \<times> go_err + nat) \<times> stream_manager" where
  "admit flushes auto_stream authorize extractor r v m =
     (if \<not> flushes then (Inl (500, NewErr ''streaming unsupported''), m)
      else if v = [] then (Inl (500, NewErr ''please specify a stream''), m)
      else
        let denied = (case authorize of
            None \<Rightarrow> None
          | Some f \<Rightarrow> f r (case extractor of None \<Rightarrow> [] | Some g \<Rightarrow> g r))
        in case denied of
          Some e \<Rightarrow> (Inl (if is_forbidden e then 403 else 401, e), m)
        | None \<Rightarrow>
            let joined = (case manager_get v m of
                Some a \<Rightarrow> (Some a, m)
              | None \<Rightarrow> if auto_stream then create_stream v m else (None, m))
            in case joined of
              (None, m) \<Rightarrow> (Inl (500, NewErr ''stream not found''), m)
            | (Some a, m) \<Rightarrow> if st_quit (sm_heap m a) then (Inl (410, NewErr ''stream closed''), m) else (Inr a, m))"

text \<open>\<open>ServeHTTP\<close>: a preflight request gets 204, an unresolved or empty name 500.\<close>

definition serve_http ::
  "bool \<Rightarrow> bool \<Rightarrow> (sse_request \<Rightarrow> string \<Rightarrow> go_err option) option \<Rightarrow> (sse_request \<Rightarrow> string) option \<Rightarrow> (sse_request option \<Rightarrow> string res) option \<Rightarrow>
   string \<Rightarrow> sse_request \<Rightarrow> stream_manager \<Rightarrow> (nat \<times> go_err + nat) option \<times> stream_manager" where
  "serve_http flushes auto_stream authorize extractor resolver key r m =
     (if rq_method r = ''OPTIONS'' then (None, m)
      else case (case resolver of Some f \<Rightarrow> f (Some r) | None \<Rightarrow> resolve_from_query key (Some r)) of
        Inl e \<Rightarrow> (Some (Inl (500, e)), m)
      | Inr v \<Rightarrow>
          if v = [] then (Some (Inl (500, NewErr ''please specify a stream'')), m)
          else (case admit flushes auto_stream authorize extractor r v m of (x, m) \<Rightarrow> (Some x, m)))"


text \<open>The goroutine that waits for the end of a request, after it has left the stream.\<close>

definition after_disconnect :: "stream_config \<Rightarrow> string \<Rightarrow> nat \<Rightarrow> stream_manager \<Rightarrow> stream_manager" where
  "after_disconnect cfg v a m =
     (if sc_auto_stream cfg \<and> \<not> sc_auto_replay cfg \<and> st_count (sm_heap m a) = 0 then manager_remove_with_id v m else m)"

subsection \<open>Generated identifiers\<close>

definition ids_in_range :: "event_log \<Rightarrow> bool" where
  "ids_in_range lg = (\<forall>e \<in> set lg. \<forall>k. parse_int64 (ev_id e) = Some k \<longrightarrow> k < max_int64)"

lemma next_index_above:
  "in_int64 n \<Longrightarrow> ids_in_range lg \<Longrightarrow>
     in_int64 (next_index n lg) \<and> n \<le> next_index n lg \<and> (\<forall>e \<in> set lg. \<forall>k. parse_int64 (ev_id e) = Some k \<longrightarrow> k < next_index n lg)"
proof (induction n lg rule: next_index.induct)
  case (2 n e es)
  show ?case
  proof (cases "parse_int64 (ev_id e)")
    case None
    with 2(1) [OF None 2(3)] 2(4) show ?thesis by (auto simp: ids_in_range_def)
  next
    case (Some k)
    let ?m = "if n \<le> k then wrap64 (k + 1) else n"
    have "k < max_int64" using 2(4) Some by (simp add: ids_in_range_def)
    with parse_int64_range [OF Some] have "in_int64 (k + 1)" by (simp add: in_int64_def max_int64_def)
    then have m: "in_int64 ?m" "n \<le> ?m" "k < ?m" using 2(3) by auto
    have "ids_in_range es" using 2(4) by (simp add: ids_in_range_def)
    with 2(2) [OF Some m(1)] m(2,3) Some show ?thesis by fastforce
  qed
qed simp

lemma current_index_fresh:
  assumes "ids_in_range lg" "int (length lg) + 1 < max_int64"
  shows "current_index lg \<notin> ev_id ` set lg" "current_index lg \<noteq> []"
proof -
  let ?n = "next_index (int (length lg) + 1) lg"
  have "in_int64 (int (length lg) + 1)" using assms(2) by (simp add: in_int64_def max_int64_def)
  from next_index_above [OF this assms(1)] have n: "in_int64 ?n"
    "\<forall>e \<in> set lg. \<forall>k. parse_int64 (ev_id e) = Some k \<longrightarrow> k < ?n" by auto
  have parse: "parse_int64 (current_index lg) = Some ?n" using parse_show_int [OF n(1)] by (simp add: current_index_def)
  show "current_index lg \<notin> ev_id ` set lg" using n(2) parse by auto
  have "parse_int64 [] = None" by (simp add: parse_int64_def parse_digits_def)
  with parse show "current_index lg \<noteq> []" by auto
qed

lemma index_of_id_append: "v \<notin> ev_id ` set lg \<Longrightarrow> index_of_id v (lg @ e # es) = (if ev_id e = v then Some (length lg) else map_option (\<lambda>n. n + length lg + 1) (index_of_id v es))"
  by (induction lg) (auto simp: option.map_comp comp_def)

text \<open>The log names an event that comes without an identifier by a new one, so a client that comes back with the last identifier it was
  sent gets every event logged since, once and in order, as long as no identifier is the largest integer.\<close>

theorem replay_after_generated_id:
  assumes "has_content e" "ev_id e = []" "ids_in_range lg" "int (length lg) + 1 < max_int64"
  shows "ev_id (fst (log_add now e lg)) \<notin> ev_id ` set lg \<and>
    log_replay (ev_id (fst (log_add now e lg))) (snd (log_add now e lg) @ later) = later"
proof -
  note fresh = current_index_fresh [OF assms(3,4)]
  let ?e = "e\<lparr>ev_id := current_index lg, ev_timestamp := now\<rparr>"
  have add: "log_add now e lg = (?e, lg @ [?e])" using assms(1,2) by (simp add: log_add_def Let_def)
  have "index_of_id (current_index lg) (lg @ ?e # later) = Some (length lg)" using index_of_id_append [OF fresh(1), of ?e later] by simp
  then show ?thesis using fresh by (simp add: add log_replay_def replay_start_def)
qed

lemma replay_after_generated_id_witness:
  "log_replay ''1'' (snd (log_add 7 (empty_event\<lparr>ev_data := ''x''\<rparr>) []) @ [empty_event\<lparr>ev_data := ''y''\<rparr>]) = [empty_event\<lparr>ev_data := ''y''\<rparr>]"
proof -
  have "ev_id (fst (log_add 7 (empty_event\<lparr>ev_data := ''x''\<rparr>) [])) = ''1''" by code_simp
  with replay_after_generated_id [of "empty_event\<lparr>ev_data := ''x''\<rparr>" "[]" 7 "[empty_event\<lparr>ev_data := ''y''\<rparr>]"]
  show ?thesis by (simp add: has_content_def empty_event_def ids_in_range_def max_int64_def)
qed

text \<open>At the largest integer the generated identifier wraps, and the next one repeats a name.\<close>

lemma generated_id_wraps: "parse_int64 (ev_id e) = Some max_int64 \<Longrightarrow> next_index 2 [e] = - (2 ^ 63)"
  by (simp add: max_int64_def wrap64_def)

subsection \<open>The loop keeps its subscribers\<close>

text \<open>The subscribers of the list are open, each listed once, and counted; after the end there are none. No channel was misused.\<close>

definition stream_inv :: "sse_stream \<Rightarrow> bool" where
  "stream_inv s =
     (\<not> st_panic s \<and> distinct (st_subscribers s) \<and> st_count s = int (length (st_subscribers s)) \<and> (st_done s \<longrightarrow> st_subscribers s = []) \<and>
      (\<forall>i \<in> set (st_subscribers s). \<exists>b. st_heap s i = Some b \<and> \<not> sb_closed b))"

definition is_open :: "sse_stream \<Rightarrow> nat \<Rightarrow> bool" where
  "is_open s i = (\<exists>b. st_heap s i = Some b \<and> \<not> sb_closed b)"

lemma send_to_frame [simp]:
  "st_subscribers (send_to es i s) = st_subscribers s" "st_count (send_to es i s) = st_count s" "st_log (send_to es i s) = st_log s"
  "st_event (send_to es i s) = st_event s" "st_quit (send_to es i s) = st_quit s" "st_done (send_to es i s) = st_done s"
  by (simp_all add: send_to_def split: option.splits)

lemma send_to_open: "is_open s i \<Longrightarrow> st_panic (send_to es i s) = st_panic s \<and> is_open (send_to es i s) j = is_open s j"
  by (auto simp: send_to_def is_open_def split: if_splits)

lemma fold_send_frame [simp]:
  "st_subscribers (fold (send_to es) is s) = st_subscribers s" "st_count (fold (send_to es) is s) = st_count s"
  "st_log (fold (send_to es) is s) = st_log s" "st_event (fold (send_to es) is s) = st_event s"
  "st_quit (fold (send_to es) is s) = st_quit s" "st_done (fold (send_to es) is s) = st_done s"
  by (induction "is" arbitrary: s) simp_all

lemma fold_send_open:
  "\<forall>i \<in> set is. is_open s i \<Longrightarrow> st_panic (fold (send_to es) is s) = st_panic s \<and> is_open (fold (send_to es) is s) j = is_open s j"
proof (induction "is" arbitrary: s)
  case (Cons i "is")
  have "is_open s i" using Cons.prems by simp
  with send_to_open [OF this] Cons show ?case by simp
qed simp

lemma close_subscriber_frame [simp]:
  "st_subscribers (close_subscriber b i s) = st_subscribers s" "st_count (close_subscriber b i s) = st_count s" "st_log (close_subscriber b i s) = st_log s"
  "st_done (close_subscriber b i s) = st_done s"
  by (simp_all add: close_subscriber_def split: option.splits)

lemma close_subscriber_open:
  "is_open s i \<Longrightarrow> st_panic (close_subscriber b i s) = st_panic s \<and> is_open (close_subscriber b i s) j = (is_open s j \<and> j \<noteq> i)"
  by (auto simp: close_subscriber_def is_open_def split: if_splits)

lemma close_subscriber_other: "j \<noteq> i \<Longrightarrow> st_heap (close_subscriber b i s) j = st_heap s j"
  by (simp add: close_subscriber_def split: option.splits)

lemma fold_close_frame [simp]:
  "st_log (fold (close_subscriber b) is s) = st_log s"
  by (induction "is" arbitrary: s) simp_all

lemma fold_close_open: "distinct is \<Longrightarrow> \<forall>i \<in> set is. is_open s i \<Longrightarrow> st_panic (fold (close_subscriber b) is s) = st_panic s"
proof (induction "is" arbitrary: s)
  case (Cons i "is")
  have "is_open s i" using Cons.prems by simp
  with close_subscriber_open [OF this, of b] Cons show ?case by auto
qed simp

lemma sub_index_Some: "sub_index i xs = Some k \<Longrightarrow> k < length xs \<and> xs ! k = i"
  by (induction xs arbitrary: k) (auto split: if_splits)

lemma sub_index_None: "sub_index i xs = None \<longleftrightarrow> i \<notin> set xs"
  by (induction xs) auto

lemma stream_inv_iff:
  "stream_inv s \<longleftrightarrow> \<not> st_panic s \<and> distinct (st_subscribers s) \<and> st_count s = int (length (st_subscribers s)) \<and>
     (st_done s \<longrightarrow> st_subscribers s = []) \<and> (\<forall>i \<in> set (st_subscribers s). is_open s i)"
  by (simp add: stream_inv_def is_open_def)

lemma set_without: "distinct xs \<Longrightarrow> k < length xs \<Longrightarrow> set (take k xs @ drop (Suc k) xs) = set xs - {xs ! k}"
  by (induction xs arbitrary: k) (auto simp: less_Suc_eq_0_disj nth_Cons split: nat.splits dest: in_set_takeD in_set_dropD)

lemma stream_step_inv: "stream_step cfg s s' \<Longrightarrow> stream_inv s \<Longrightarrow> stream_inv s'"
proof (induction rule: stream_step.induct)
  case (step_register s i v)
  let ?s = "s\<lparr>st_heap := (st_heap s)(i \<mapsto> (new_subscriber v)\<lparr>sb_registered := True\<rparr>), st_subscribers := st_subscribers s @ [i], st_count := st_count s + 1\<rparr>"
  have fresh: "i \<notin> set (st_subscribers s)" using step_register by (auto simp: stream_inv_def)
  with step_register have "stream_inv ?s" by (auto simp: stream_inv_def new_subscriber_def)
  moreover have "is_open ?s i" by (simp add: is_open_def new_subscriber_def)
  moreover have "stream_inv (send_to (log_replay v (st_log s)) i ?s) = stream_inv ?s" if "is_open ?s i"
    using send_to_open [OF that] by (simp only: stream_inv_iff send_to_frame)
  ultimately show ?case by (simp add: loop_register_def Let_def)
next
  case (step_deregister s i)
  show ?case
  proof (cases "sub_index i (st_subscribers s)")
    case None
    with step_deregister show ?thesis by (simp add: loop_deregister_def)
  next
    case (Some k)
    note k = sub_index_Some [OF Some]
    let ?s = "s\<lparr>st_count := st_count s - 1\<rparr>"
    have inv: "distinct (st_subscribers s)" "\<forall>i \<in> set (st_subscribers s). is_open s i" using step_deregister by (simp_all add: stream_inv_iff)
    have op: "is_open ?s j = is_open s j" for j by (simp add: is_open_def)
    have "is_open ?s i" using inv(2) k op by auto
    note closed = close_subscriber_open [OF this, of "sc_auto_stream cfg"]
    have "set (take k (st_subscribers s) @ drop (Suc k) (st_subscribers s)) = set (st_subscribers s) - {i}"
      using set_without [OF inv(1)] k by auto
    moreover have "distinct (take k (st_subscribers s) @ drop (Suc k) (st_subscribers s))"
      using inv(1) set_take_disj_set_drop_if_distinct [of "st_subscribers s" k "Suc k"] by auto
    ultimately show ?thesis
      using step_deregister closed k inv op Some
      by (simp add: loop_deregister_def remove_subscriber_def Let_def stream_inv_iff is_open_def of_nat_diff)
  qed
next
  case (step_event s e es now)
  let ?r = "if sc_auto_replay cfg then log_add now e (st_log s) else (e, st_log s)"
  let ?s = "s\<lparr>st_event := es, st_log := snd ?r\<rparr>"
  have op: "is_open ?s j = is_open s j" for j by (simp add: is_open_def)
  have "\<forall>i \<in> set (st_subscribers s). is_open ?s i" using step_event op by (simp add: stream_inv_iff)
  note sent = fold_send_open [OF this, of "[fst ?r]"]
  have "loop_event cfg now e (s\<lparr>st_event := es\<rparr>) = fold (send_to [fst ?r]) (st_subscribers s) ?s"
    by (simp add: loop_event_def Let_def split: prod.splits)
  then show ?case using step_event sent op by (simp add: stream_inv_iff)
next
  case (step_quit s)
  then show ?case
    using fold_close_open [of "st_subscribers s" s "sc_auto_stream cfg"]
    by (simp add: loop_quit_def remove_all_subscribers_def Let_def stream_inv_iff)
next
  case (step_publish pick e s s')
  then show ?case by (auto simp: try_publish_def stream_inv_def Let_def split: if_splits)
next
  case (step_close s)
  then show ?case by (simp add: stream_close_def stream_inv_def)
qed

lemma stream_reachable_inv: "(stream_step cfg)\<^sup>*\<^sup>* s s' \<Longrightarrow> stream_inv s \<Longrightarrow> stream_inv s'"
  by (induction rule: rtranclp_induct) (auto intro: stream_step_inv)


text \<open>C18: However registrations, departures, events and the end of the stream interleave, the loop never sends on a closed connection and never
  closes one twice, and the published number of subscribers is the number of open connections it serves.\<close>

theorem stream_never_panics:
  assumes "(stream_step cfg)\<^sup>*\<^sup>* new_stream s"
  shows "\<not> st_panic s \<and> st_count s = int (length (st_subscribers s)) \<and> distinct (st_subscribers s) \<and>
    {i. i \<in> set (st_subscribers s) \<and> is_open s i} = set (st_subscribers s)"
  using stream_reachable_inv [OF assms] by (auto simp: stream_inv_iff new_stream_def)

subsection \<open>What a subscriber is sent\<close>

definition connection_of :: "sse_stream \<Rightarrow> nat \<Rightarrow> sse_event list" where
  "connection_of s i = (case st_heap s i of None \<Rightarrow> [] | Some b \<Rightarrow> sb_connection b)"

text \<open>The logged events all have content, and the log only grows.\<close>

lemma log_add_cases:
  "log_add now e lg = (e', lg') \<Longrightarrow> (if has_content e then has_content e' \<and> lg' = lg @ [e'] else e' = e \<and> lg' = lg)"
  by (auto simp: log_add_def Let_def has_content_def split: if_splits)

lemma send_to_connection:
  "is_open s i \<Longrightarrow> connection_of (send_to es i s) j = (if j = i then connection_of s j @ es else connection_of s j)"
  by (auto simp: send_to_def connection_of_def is_open_def)

lemma fold_send_connection:
  "\<forall>i \<in> set is. is_open s i \<Longrightarrow> distinct is \<Longrightarrow>
     connection_of (fold (send_to es) is s) j = (if j \<in> set is then connection_of s j @ es else connection_of s j)"
proof (induction "is" arbitrary: s)
  case (Cons i "is")
  have i: "is_open s i" using Cons.prems by simp
  have "\<forall>k \<in> set is. is_open (send_to es i s) k" using Cons.prems send_to_open [OF i] by simp
  from Cons.IH [OF this] Cons.prems(2) send_to_connection [OF i, of es j] show ?case by auto
qed simp

text \<open>A subscriber in the list has been sent the log from some point on, among whatever had no content.\<close>

definition up_to_date :: "nat \<Rightarrow> nat \<Rightarrow> sse_stream \<Rightarrow> bool" where
  "up_to_date i k s = (i \<in> set (st_subscribers s) \<longrightarrow> filter has_content (connection_of s i) = drop k (st_log s) \<and> k \<le> length (st_log s))"

lemma remove_subscriber_view:
  assumes "stream_inv s" "k < length (st_subscribers s)" "j \<noteq> st_subscribers s ! k"
  shows "connection_of (remove_subscriber cfg k s) j = connection_of s j"
  using close_subscriber_other [OF assms(3)] by (simp add: remove_subscriber_def Let_def connection_of_def)

lemma remove_subscriber_log [simp]: "st_log (remove_subscriber cfg k s) = st_log s"
  by (simp add: remove_subscriber_def Let_def)

lemma stream_step_up_to_date:
  assumes "stream_step cfg s s'" "sc_auto_replay cfg" "stream_inv s" "up_to_date i k s" "\<forall>e \<in> set (st_log s). has_content e"
    and known: "st_heap s i \<noteq> None"
  shows "up_to_date i k s' \<and> (\<forall>e \<in> set (st_log s'). has_content e) \<and> st_heap s' i \<noteq> None"
  using assms
proof (induction rule: stream_step.induct)
  case (step_register s j v)
  then have ne: "j \<noteq> i" by auto
  let ?s = "s\<lparr>st_heap := (st_heap s)(j \<mapsto> (new_subscriber v)\<lparr>sb_registered := True\<rparr>), st_subscribers := st_subscribers s @ [j], st_count := st_count s + 1\<rparr>"
  have "is_open ?s j" by (simp add: is_open_def new_subscriber_def)
  from send_to_connection [OF this, of "log_replay v (st_log s)" i] ne
  have "connection_of (loop_register cfg j v s) i = connection_of s i"
    by (simp add: loop_register_def Let_def connection_of_def)
  moreover have "st_heap (send_to es j t) i \<noteq> None" if "st_heap t i \<noteq> None" for es t
    using that by (auto simp: send_to_def split: option.splits)
  ultimately show ?case using step_register ne by (simp add: up_to_date_def loop_register_def Let_def)
next
  case (step_deregister s j)
  show ?case
  proof (cases "sub_index j (st_subscribers s)")
    case None
    with step_deregister show ?thesis by (simp add: loop_deregister_def)
  next
    case (Some n)
    note n = sub_index_Some [OF Some]
    have subs: "set (st_subscribers (remove_subscriber cfg n s)) = set (st_subscribers s) - {j}"
      using set_without [of "st_subscribers s" n] n step_deregister(4) by (simp add: remove_subscriber_def Let_def stream_inv_def)
    have "st_heap (remove_subscriber cfg n s) i \<noteq> None"
      using step_deregister by (auto simp: remove_subscriber_def Let_def close_subscriber_def split: option.splits)
    with subs remove_subscriber_view [of s n i cfg] n step_deregister Some show ?thesis
      by (cases "i = j") (auto simp: loop_deregister_def up_to_date_def)
  qed
next
  case (step_event s e es now)
  obtain e' lg' where r: "log_add now e (st_log s) = (e', lg')" by fastforce
  let ?s = "s\<lparr>st_event := es, st_log := lg'\<rparr>"
  have inv: "distinct (st_subscribers s)" "\<forall>i \<in> set (st_subscribers s). is_open s i" using step_event by (simp_all add: stream_inv_iff)
  have "\<forall>i \<in> set (st_subscribers ?s). is_open ?s i" using inv by (simp add: is_open_def)
  from fold_send_connection [OF this, of "[e']" i] inv
  have conn: "connection_of (fold (send_to [e']) (st_subscribers s) ?s) i =
      (if i \<in> set (st_subscribers s) then connection_of s i @ [e'] else connection_of s i)"
    by (simp add: connection_of_def)
  have loop: "loop_event cfg now e (s\<lparr>st_event := es\<rparr>) = fold (send_to [e']) (st_subscribers s) ?s"
    using step_event(3) r by (simp add: loop_event_def)
  have "st_heap (fold (send_to [e']) is t) i \<noteq> None" if "st_heap t i \<noteq> None" for "is" t
    using that by (induction "is" arbitrary: t) (auto simp: send_to_def split: option.splits)
  then have "st_heap (fold (send_to [e']) (st_subscribers s) ?s) i \<noteq> None" using step_event by simp
  with conn loop step_event log_add_cases [OF r] show ?case by (cases "has_content e") (auto simp: up_to_date_def)
next
  case (step_quit s)
  have "st_heap (fold (close_subscriber b) is t) i \<noteq> None" if "st_heap t i \<noteq> None" for b "is" t
    using that by (induction "is" arbitrary: t) (auto simp: close_subscriber_def split: option.splits)
  with step_quit show ?case by (simp add: loop_quit_def remove_all_subscribers_def Let_def up_to_date_def)
next
  case (step_publish pick e s s')
  then have "st_subscribers s' = st_subscribers s" "st_log s' = st_log s" "st_heap s' = st_heap s"
    by (auto simp: try_publish_def Let_def split: if_splits)
  with step_publish show ?case by (simp add: up_to_date_def connection_of_def)
next
  case (step_close s)
  then show ?case by (simp add: stream_close_def up_to_date_def connection_of_def)
qed



definition sample_config :: stream_config where
  "sample_config = \<lparr>sc_buffer_size = 10, sc_auto_replay = True, sc_auto_stream = False\<rparr>"

definition sample_event :: sse_event where
  "sample_event = empty_event\<lparr>ev_data := ''x''\<rparr>"

definition sample_joined :: sse_stream where
  "sample_joined = loop_register sample_config 0 [] new_stream"

definition sample_served :: sse_stream where
  "sample_served = loop_event sample_config 5 sample_event sample_joined"

lemma sample_steps: "stream_step sample_config new_stream sample_joined" "(stream_step sample_config)\<^sup>*\<^sup>* sample_joined sample_served"
proof -
  show "stream_step sample_config new_stream sample_joined"
    unfolding sample_joined_def by (intro stream_step.step_register) (simp_all add: new_stream_def)
  have frame: "st_quit sample_joined = False" "st_event sample_joined = []" "st_done sample_joined = False"
    by (simp_all add: sample_joined_def loop_register_def new_stream_def Let_def)
  let ?q = "sample_joined\<lparr>st_event := [sample_event]\<rparr>"
  have publish: "stream_step sample_config sample_joined ?q"
    by (intro stream_step.step_publish [of sample_config True sample_event]) (simp add: try_publish_def frame sample_config_def)
  have "stream_step sample_config ?q (loop_event sample_config 5 sample_event (?q\<lparr>st_event := []\<rparr>))"
    by (intro stream_step.step_event) (simp_all add: frame)
  moreover have "?q\<lparr>st_event := []\<rparr> = sample_joined" using frame(2) by simp
  ultimately show "(stream_step sample_config)\<^sup>*\<^sup>* sample_joined sample_served"
    using publish by (simp add: sample_served_def)
qed

lemma stream_never_panics_witness: "\<not> st_panic sample_served \<and> st_count sample_served = 1"
proof -
  have reach: "(stream_step sample_config)\<^sup>*\<^sup>* new_stream sample_served" using sample_steps by simp
  have "st_subscribers sample_served = [0]"
    by (simp add: sample_served_def sample_joined_def loop_event_def loop_register_def new_stream_def Let_def split: prod.splits)
  with stream_never_panics [OF reach] show ?thesis by simp
qed


end
