(* ===== verification/Go_Heap.thy ===== *)
theory Go_Heap
  imports Go_Base "HOL-Library.Multiset"
begin

text \<open>
  Go's \<open>container/heap\<close> over a slice whose elements are compared by an integer key: the functions \<open>up\<close>, \<open>down\<close>,
  \<open>Push\<close>, \<open>Pop\<close> and \<open>Remove\<close> of the library, and the proof that they implement a priority queue.
\<close>

subsection \<open>The functions\<close>

definition swap :: "'a list \<Rightarrow> nat \<Rightarrow> nat \<Rightarrow> 'a list" where
  "swap xs i j = xs[i := xs ! j, j := xs ! i]"

definition par :: "nat \<Rightarrow> nat" where
  "par j = (j - 1) div 2"

lemma par_less: "par j \<noteq> j \<Longrightarrow> par j < j"
  by (auto simp: par_def)

function heap_up :: "('a \<Rightarrow> int) \<Rightarrow> nat \<Rightarrow> 'a list \<Rightarrow> 'a list" where
  "heap_up key j xs =
     (if par j = j \<or> \<not> key (xs ! j) < key (xs ! par j) then xs else heap_up key (par j) (swap xs (par j) j))"
  by pat_completeness auto
termination
  by (relation "measure (\<lambda>(key, j, xs). j)") (auto intro: par_less)

declare heap_up.simps [simp del]

text \<open>The smaller child of \<open>i\<close> among the first \<open>n\<close> elements.\<close>

definition least_child :: "('a \<Rightarrow> int) \<Rightarrow> nat \<Rightarrow> nat \<Rightarrow> 'a list \<Rightarrow> nat" where
  "least_child key i n xs = (if 2 * i + 2 < n \<and> key (xs ! (2 * i + 2)) < key (xs ! (2 * i + 1)) then 2 * i + 2 else 2 * i + 1)"

text \<open>\<open>down\<close> gives the position reached as well; the caller compares it with where it started.\<close>

function heap_down :: "('a \<Rightarrow> int) \<Rightarrow> nat \<Rightarrow> nat \<Rightarrow> 'a list \<Rightarrow> nat \<times> 'a list" where
  "heap_down key i n xs =
     (if n \<le> 2 * i + 1 then (i, xs)
      else let j = least_child key i n xs in
        if \<not> key (xs ! j) < key (xs ! i) then (i, xs) else heap_down key j n (swap xs i j))"
  by pat_completeness auto
termination
  by (relation "measure (\<lambda>(key, i, n, xs). n - i)") (auto simp: least_child_def split: if_splits)

declare heap_down.simps [simp del]

definition heap_push :: "('a \<Rightarrow> int) \<Rightarrow> 'a \<Rightarrow> 'a list \<Rightarrow> 'a list" where
  "heap_push key x xs = heap_up key (length xs) (xs @ [x])"

definition heap_pop :: "('a \<Rightarrow> int) \<Rightarrow> 'a list \<Rightarrow> 'a \<times> 'a list" where
  "heap_pop key xs =
     (let n = length xs - 1; ys = snd (heap_down key 0 n (swap xs 0 n)) in (ys ! n, take n ys))"

definition heap_remove :: "('a \<Rightarrow> int) \<Rightarrow> nat \<Rightarrow> 'a list \<Rightarrow> 'a \<times> 'a list" where
  "heap_remove key i xs =
     (let n = length xs - 1;
        ys = (if n \<noteq> i then
            (case heap_down key i n (swap xs i n) of (j, ys) \<Rightarrow> if \<not> i < j then heap_up key i ys else ys)
          else xs)
      in (ys ! n, take n ys))"

subsection \<open>The heap order\<close>

definition link :: "('a \<Rightarrow> int) \<Rightarrow> 'a list \<Rightarrow> nat \<Rightarrow> bool" where
  "link key xs k = (key (xs ! par k) \<le> key (xs ! k))"

definition heap_ordered :: "('a \<Rightarrow> int) \<Rightarrow> nat \<Rightarrow> 'a list \<Rightarrow> bool" where
  "heap_ordered key n xs = (\<forall>k. 0 < k \<and> k < n \<longrightarrow> link key xs k)"

text \<open>Ordered but around position \<open>i\<close>, whose children do not precede its parent.\<close>

definition heap_hole :: "('a \<Rightarrow> int) \<Rightarrow> nat \<Rightarrow> nat \<Rightarrow> 'a list \<Rightarrow> bool" where
  "heap_hole key i n xs =
     ((\<forall>k. 0 < k \<and> k < n \<and> k \<noteq> i \<and> par k \<noteq> i \<longrightarrow> link key xs k) \<and>
      (0 < i \<longrightarrow> (\<forall>k. 0 < k \<and> k < n \<and> par k = i \<longrightarrow> key (xs ! par i) \<le> key (xs ! k))))"

lemma swap_length [simp]: "length (swap xs i j) = length xs"
  by (simp add: swap_def)

lemma swap_nth: "i < length xs \<Longrightarrow> j < length xs \<Longrightarrow> swap xs i j ! k = (if k = j then xs ! i else if k = i then xs ! j else xs ! k)"
  by (auto simp: swap_def nth_list_update)

lemma swap_mset [simp]: "i < length xs \<Longrightarrow> j < length xs \<Longrightarrow> mset (swap xs i j) = mset xs"
  unfolding swap_def by (cases "i = j") (simp_all add: mset_swap)

lemma par_child: "0 < k \<Longrightarrow> par k = i \<longleftrightarrow> k = 2 * i + 1 \<or> k = 2 * i + 2"
  by (auto simp: par_def)

lemma par_pos: "0 < k \<Longrightarrow> par k < k"
  by (auto simp: par_def)

lemma heap_up_ordered:
  "j < n \<Longrightarrow> n \<le> length xs \<Longrightarrow> heap_hole key j n xs \<Longrightarrow> \<forall>k. 0 < k \<and> k < n \<and> par k = j \<longrightarrow> link key xs k \<Longrightarrow>
     heap_ordered key n (heap_up key j xs)"
proof (induction key j xs rule: heap_up.induct)
  case (1 key j xs)
  show ?case
  proof (cases "par j = j \<or> \<not> key (xs ! j) < key (xs ! par j)")
    case True
    have "link key xs k" if "0 < k" "k < n" for k
    proof (cases "k = j")
      case k: True
      with True that par_pos [of j] show ?thesis by (auto simp: link_def)
    qed (use 1(4,5) that in \<open>auto simp: heap_hole_def\<close>)
    with True show ?thesis by (simp add: heap_up.simps [of key j xs] heap_ordered_def)
  next
    case False
    let ?i = "par j" and ?ys = "swap xs (par j) j"
    have j: "0 < j" using False by (auto simp: par_def)
    have i: "?i < j" using par_pos [OF j] .
    have nth: "?ys ! k = (if k = j then xs ! ?i else if k = ?i then xs ! j else xs ! k)" for k
      using swap_nth [of ?i xs j k] i 1(2,3) by simp
    have less: "key (xs ! j) < key (xs ! ?i)" using False by simp
    have "heap_hole key ?i n ?ys"
      unfolding heap_hole_def
    proof (intro conjI allI impI)
      fix k
      assume k: "0 < k \<and> k < n \<and> k \<noteq> ?i \<and> par k \<noteq> ?i"
      then have kj: "k \<noteq> j" by auto
      show "link key ?ys k"
      proof (cases "par k = j")
        case True
        with 1(4) j k have "key (xs ! ?i) \<le> key (xs ! k)" by (auto simp: heap_hole_def)
        with True k kj i show ?thesis by (simp add: link_def nth)
      next
        case False
        with 1(4) k kj have "link key xs k" by (auto simp: heap_hole_def)
        with False k kj show ?thesis by (simp add: link_def nth)
      qed
    next
      fix k
      assume pi: "0 < ?i" and k: "0 < k \<and> k < n \<and> par k = ?i"
      have pp: "par ?i < ?i" using par_pos [OF pi] .
      have "?i \<noteq> j" "par ?i \<noteq> j" using i pp by auto
      then have up: "link key xs ?i" using 1(4) pi i 1(2) by (auto simp: heap_hole_def)
      show "key (?ys ! par ?i) \<le> key (?ys ! k)"
      proof (cases "k = j")
        case True
        with up pp i show ?thesis by (simp add: nth link_def)
      next
        case False
        then have "link key xs k" using 1(4) k i by (auto simp: heap_hole_def)
        with False up pp i k par_pos [of k] show ?thesis by (auto simp: nth link_def)
      qed
    qed
    moreover have "\<forall>k. 0 < k \<and> k < n \<and> par k = ?i \<longrightarrow> link key ?ys k"
    proof (intro allI impI)
      fix k
      assume k: "0 < k \<and> k < n \<and> par k = ?i"
      show "link key ?ys k"
      proof (cases "k = j")
        case True
        with less i show ?thesis by (simp add: link_def nth)
      next
        case False
        then have "link key xs k" using 1(4) k i by (auto simp: heap_hole_def)
        with False less i k par_pos [of k] show ?thesis by (auto simp: nth link_def)
      qed
    qed
    ultimately have "heap_ordered key n (heap_up key ?i ?ys)"
      using 1(1) [OF False] 1(2,3) i by simp
    with False show ?thesis by (simp add: heap_up.simps [of key j xs])
  qed
qed

lemma heap_up_mset: "j < length xs \<Longrightarrow> mset (heap_up key j xs) = mset xs \<and> length (heap_up key j xs) = length xs"
proof (induction key j xs rule: heap_up.induct)
  case (1 key j xs)
  then show ?case
    using par_less [of j] by (cases "par j = j \<or> \<not> key (xs ! j) < key (xs ! par j)") (simp_all add: heap_up.simps [of key j xs])
qed

lemma heap_up_above: "j < k \<Longrightarrow> k < length xs \<Longrightarrow> heap_up key j xs ! k = xs ! k"
proof (induction key j xs rule: heap_up.induct)
  case (1 key j xs)
  then show ?case
    using par_less [of j] by (cases "par j = j \<or> \<not> key (xs ! j) < key (xs ! par j)") (simp_all add: heap_up.simps [of key j xs] swap_nth)
qed

subsection \<open>Sinking\<close>

lemma least_child_props:
  assumes "2 * i + 1 < n"
  shows "least_child key i n xs < n" "par (least_child key i n xs) = i" "i < least_child key i n xs"
    "\<forall>k. 0 < k \<and> k < n \<and> par k = i \<longrightarrow> key (xs ! least_child key i n xs) \<le> key (xs ! k)"
proof -
  show "least_child key i n xs < n" "par (least_child key i n xs) = i" "i < least_child key i n xs"
    using assms by (auto simp: least_child_def par_def)
  show "\<forall>k. 0 < k \<and> k < n \<and> par k = i \<longrightarrow> key (xs ! least_child key i n xs) \<le> key (xs ! k)"
  proof (intro allI impI)
    fix k
    assume k: "0 < k \<and> k < n \<and> par k = i"
    then have "k = 2 * i + 1 \<or> k = 2 * i + 2" using par_child [of k i] by blast
    with k show "key (xs ! least_child key i n xs) \<le> key (xs ! k)" by (auto simp: least_child_def)
  qed
qed

lemma heap_down_mset:
  "n \<le> length xs \<Longrightarrow> heap_down key i n xs = (j, ys) \<Longrightarrow> mset ys = mset xs \<and> length ys = length xs \<and> i \<le> j \<and>
     (\<forall>k. n \<le> k \<longrightarrow> k < length xs \<longrightarrow> ys ! k = xs ! k)"
proof (induction key i n xs arbitrary: j ys rule: heap_down.induct)
  case (1 key i n xs)
  let ?c = "least_child key i n xs"
  show ?case
  proof (cases "n \<le> 2 * i + 1 \<or> \<not> key (xs ! ?c) < key (xs ! i)")
    case True
    with 1(3) show ?thesis by (auto simp: heap_down.simps [of key i n xs] Let_def split: if_splits)
  next
    case False
    then have c: "?c < n" "i < ?c" using least_child_props [of i n key xs] by auto
    have r: "heap_down key ?c n (swap xs i ?c) = (j, ys)" using 1(3) False by (simp add: heap_down.simps [of key i n xs] Let_def)
    from 1(1) [OF _ refl _ _ r] False 1(2) c show ?thesis by (auto simp: swap_nth)
  qed
qed

text \<open>Sinking from a hole below which only the children may be out of order.\<close>

lemma heap_sink_step:
  assumes "n \<le> length xs" "heap_hole key i n xs" "2 * i + 1 < n" "key (xs ! least_child key i n xs) < key (xs ! i)"
  shows "heap_hole key (least_child key i n xs) n (swap xs i (least_child key i n xs))"
    "link key (swap xs i (least_child key i n xs)) (least_child key i n xs)"
proof -
  let ?c = "least_child key i n xs" and ?ys = "swap xs i (least_child key i n xs)"
  note c = least_child_props [OF assms(3), of key xs]
  have nth: "?ys ! k = (if k = ?c then xs ! i else if k = i then xs ! ?c else xs ! k)" for k
    using swap_nth [of i xs ?c k] c assms(1,3) by simp
  show "link key ?ys ?c" using c assms(4) by (simp add: link_def nth)
  show "heap_hole key ?c n ?ys"
    unfolding heap_hole_def
  proof (intro conjI allI impI)
    fix k
    assume k: "0 < k \<and> k < n \<and> k \<noteq> ?c \<and> par k \<noteq> ?c"
    consider (at) "k = i" | (below) "par k = i" "k \<noteq> i" | (else) "k \<noteq> i" "par k \<noteq> i" by blast
    then show "link key ?ys k"
    proof cases
      case at
      with k assms(2) c have "key (xs ! par i) \<le> key (xs ! ?c)" by (auto simp: heap_hole_def)
      with at k c par_pos [of k] show ?thesis by (simp add: link_def nth)
    next
      case below
      with k c show ?thesis by (simp add: link_def nth)
    next
      case else
      with k assms(2) have "link key xs k" by (auto simp: heap_hole_def)
      with else k show ?thesis by (simp add: link_def nth)
    qed
  next
    fix k
    assume k: "0 < k \<and> k < n \<and> par k = ?c"
    then have "?c < k" using par_pos [of k] by simp
    with k c assms(2) have "link key xs k" by (auto simp: heap_hole_def)
    with k c \<open>?c < k\<close> show "key (?ys ! par ?c) \<le> key (?ys ! k)" by (simp add: link_def nth)
  qed
qed

lemma heap_down_ordered:
  "n \<le> length xs \<Longrightarrow> heap_hole key i n xs \<Longrightarrow> 0 < i \<longrightarrow> link key xs i \<Longrightarrow> heap_ordered key n (snd (heap_down key i n xs))"
proof (induction key i n xs rule: heap_down.induct)
  case (1 key i n xs)
  let ?c = "least_child key i n xs"
  show ?case
  proof (cases "n \<le> 2 * i + 1 \<or> \<not> key (xs ! ?c) < key (xs ! i)")
    case True
    have "link key xs k" if "0 < k" "k < n" for k
    proof (cases "par k = i")
      case k: True
      with that have "2 * i + 1 < n" by (auto simp: par_child)
      with True least_child_props [of i n key xs] k that show ?thesis by (fastforce simp: link_def)
    qed (use 1(3,4) that in \<open>auto simp: heap_hole_def\<close>)
    with True show ?thesis by (auto simp: heap_down.simps [of key i n xs] Let_def heap_ordered_def)
  next
    case False
    then have n: "\<not> n \<le> 2 * i + 1" and less: "\<not> \<not> key (xs ! ?c) < key (xs ! i)" by auto
    from heap_sink_step [OF 1(2,3)] n less 1(1) [OF n refl less] 1(2)
    show ?thesis by (simp add: heap_down.simps [of key i n xs] Let_def)
  qed
qed


subsection \<open>The operations\<close>

definition is_heap :: "('a \<Rightarrow> int) \<Rightarrow> 'a list \<Rightarrow> bool" where
  "is_heap key xs = heap_ordered key (length xs) xs"

lemma is_heap_nil [simp]: "is_heap key []"
  by (simp add: is_heap_def heap_ordered_def)

lemma heap_root_least: "heap_ordered key n xs \<Longrightarrow> k < n \<Longrightarrow> key (xs ! 0) \<le> key (xs ! k)"
proof (induction k rule: less_induct)
  case (less k)
  show ?case
  proof (cases "k = 0")
    case False
    then have "par k < k" by (simp add: par_pos)
    with less have "key (xs ! 0) \<le> key (xs ! par k)" by simp
    also have "\<dots> \<le> key (xs ! k)" using less.prems False by (simp add: heap_ordered_def link_def)
    finally show ?thesis .
  qed simp
qed

lemma heap_ordered_take:
  assumes "heap_ordered key n xs" "n \<le> length xs"
  shows "is_heap key (take n xs)"
proof -
  have "link key (take n xs) k" if "0 < k" "k < n" for k
    using assms that par_pos [of k] by (simp add: heap_ordered_def link_def)
  then show ?thesis using assms(2) by (simp add: is_heap_def heap_ordered_def)
qed

lemma heap_push_ok: "is_heap key xs \<Longrightarrow> is_heap key (heap_push key x xs) \<and> mset (heap_push key x xs) = add_mset x (mset xs)"
proof -
  assume h: "is_heap key xs"
  have low: "link key (xs @ [x]) k" if "0 < k" "k < length xs" for k
    using h that par_pos [of k] by (simp add: is_heap_def heap_ordered_def link_def nth_append)
  have above: "k \<le> length xs" if "0 < k" "k < length (xs @ [x])" for k using that by simp
  have "heap_hole key (length xs) (length (xs @ [x])) (xs @ [x])"
    using low par_pos by (auto simp: heap_hole_def) (metis less_antisym less_trans nat_neq_iff)+
  moreover have "\<forall>k. 0 < k \<and> k < length (xs @ [x]) \<and> par k = length xs \<longrightarrow> link key (xs @ [x]) k"
    using par_pos by (metis above leD)
  ultimately have "heap_ordered key (length (xs @ [x])) (heap_up key (length xs) (xs @ [x]))"
    using heap_up_ordered [of "length xs" "length (xs @ [x])" "xs @ [x]" key] by simp
  with heap_up_mset [of "length xs" "xs @ [x]" key] show ?thesis by (simp add: heap_push_def is_heap_def)
qed

lemma mset_take_last: "length ys = Suc n \<Longrightarrow> mset ys = add_mset (ys ! n) (mset (take n ys))"
  by (metis lessI mset.simps(2) mset_append take_Suc_conv_app_nth take_all union_mset_add_mset_right add.right_neutral le_refl mset.simps(1))

lemma heap_pop_ok:
  assumes "is_heap key xs" "xs \<noteq> []" "heap_pop key xs = (x, ys)"
  shows "x = xs ! 0 \<and> is_heap key ys \<and> mset xs = add_mset x (mset ys) \<and> (\<forall>y \<in> set ys. key x \<le> key y)"
proof -
  obtain n where n: "length xs = Suc n" using assms(2) by (cases xs) auto
  let ?zs = "swap xs 0 n"
  have nth: "?zs ! k = (if k = n then xs ! 0 else if k = 0 then xs ! n else xs ! k)" for k
    using swap_nth [of 0 xs n k] n assms(2) by simp
  have old: "heap_ordered key (length xs) xs" using assms(1) by (simp add: is_heap_def)
  have "link key ?zs k" if "0 < k" "k < n" "par k \<noteq> 0" for k
    using old that par_pos [of k] n by (simp add: heap_ordered_def link_def nth)
  then have hole: "heap_hole key 0 n ?zs" by (simp add: heap_hole_def)
  obtain j ws where d: "heap_down key 0 n ?zs = (j, ws)" by fastforce
  from heap_down_mset [OF _ d] have ws: "mset ws = mset xs" "length ws = length xs" "ws ! n = xs ! 0"
    using n assms(2) nth by (auto simp del: One_nat_def)
  have "heap_ordered key n ws" using heap_down_ordered [OF _ hole] d n by simp
  then have heap: "is_heap key (take n ws)" using ws(2) n by (intro heap_ordered_take) simp_all
  have res: "x = xs ! 0" "ys = take n ws" using assms(3) d ws(3) by (simp_all add: heap_pop_def Let_def n)
  have split: "mset xs = add_mset x (mset ys)" using mset_take_last [of ws n] ws n res by simp
  have "key x \<le> key y" if "y \<in> set xs" for y
    using heap_root_least [OF old] that res(1) by (auto simp: in_set_conv_nth)
  moreover have "set ys \<subseteq> set xs" using split by (metis set_mset_add_mset_insert set_mset_mset subset_insertI)
  ultimately show ?thesis using res heap split by blast
qed

lemma heap_remove_ok:
  assumes "is_heap key xs" "i < length xs" "heap_remove key i xs = (x, ys)"
  shows "x = xs ! i \<and> is_heap key ys \<and> mset xs = add_mset x (mset ys)"
proof -
  obtain n where n: "length xs = Suc n" using assms(2) by (cases xs) auto
  have old: "heap_ordered key (length xs) xs" using assms(1) by (simp add: is_heap_def)
  show ?thesis
  proof (cases "n = i")
    case True
    then have res: "x = xs ! i" "ys = take i xs" using assms(3) by (simp_all add: heap_remove_def Let_def n)
    have "heap_ordered key i xs" using old assms(2) by (simp add: heap_ordered_def)
    with res heap_ordered_take [of key i xs] assms(2) mset_take_last [of xs i] True n show ?thesis by simp
  next
    case False
    then have i: "i < n" using assms(2) n by simp
    let ?zs = "swap xs i n"
    have nth: "?zs ! k = (if k = n then xs ! i else if k = i then xs ! n else xs ! k)" for k
      using swap_nth [of i xs n k] n assms(2) by simp
    have hole: "heap_hole key i n ?zs"
      unfolding heap_hole_def
    proof (intro conjI allI impI)
      fix k
      assume k: "0 < k \<and> k < n \<and> k \<noteq> i \<and> par k \<noteq> i"
      then show "link key ?zs k" using old par_pos [of k] n by (simp add: heap_ordered_def link_def nth)
    next
      fix k
      assume pos: "0 < i" and k: "0 < k \<and> k < n \<and> par k = i"
      have "link key xs k" "link key xs i" using old k pos i n by (simp_all add: heap_ordered_def)
      with k pos i par_pos [of i] par_pos [of k] show "key (?zs ! par i) \<le> key (?zs ! k)" by (auto simp: link_def nth)
    qed
    obtain j ws where d: "heap_down key i n ?zs = (j, ws)" by fastforce
    from heap_down_mset [OF _ d] have ws: "mset ws = mset xs" "length ws = length xs" "ws ! n = xs ! i" "i \<le> j"
      using n assms(2) nth by (auto simp del: One_nat_def)
    let ?vs = "if \<not> i < j then heap_up key i ws else ws"
    have "heap_ordered key n ?vs"
    proof (cases "i < j")
      case True
      let ?c = "least_child key i n ?zs"
      from True d have moved: "2 * i + 1 < n" "key (?zs ! ?c) < key (?zs ! i)"
        by (auto simp: heap_down.simps [of key i n ?zs] Let_def split: if_splits)
      then have "heap_down key ?c n (swap ?zs i ?c) = (j, ws)"
        using d by (simp add: heap_down.simps [of key i n ?zs] Let_def)
      with heap_down_ordered [of n "swap ?zs i ?c" key ?c] heap_sink_step [OF _ hole moved] True n show ?thesis by simp
    next
      case False
      with ws(4) have j: "j = i" by simp
      have stay: "ws = ?zs \<and> \<not> (2 * i + 1 < n \<and> key (?zs ! least_child key i n ?zs) < key (?zs ! i))"
      proof (cases "2 * i + 1 < n \<and> key (?zs ! least_child key i n ?zs) < key (?zs ! i)")
        case True
        then have "heap_down key (least_child key i n ?zs) n (swap ?zs i (least_child key i n ?zs)) = (j, ws)"
          using d by (simp add: heap_down.simps [of key i n ?zs] Let_def)
        with heap_down_mset [OF _ this] have "least_child key i n ?zs \<le> j" using n by simp
        with least_child_props(3) [of i n key ?zs] True j show ?thesis by simp
      qed (use d in \<open>auto simp: heap_down.simps [of key i n ?zs] Let_def split: if_splits\<close>)
      have "link key ?zs k" if k: "0 < k \<and> k < n \<and> par k = i" for k
      proof -
        have "k = 2 * i + 1 \<or> k = 2 * i + 2" using k par_child [of k i] by blast
        with k have "2 * i + 1 < n" by linarith
        with least_child_props(4) [OF this, of key ?zs] stay k show ?thesis by (fastforce simp: link_def)
      qed
      with heap_up_ordered [of i n ?zs key] hole i n stay False show ?thesis by simp
    qed
    moreover have "mset ?vs = mset xs" "length ?vs = length xs" "?vs ! n = xs ! i"
      using ws heap_up_mset [of i ws key] heap_up_above [of i n ws key] assms(2) i n by auto
    moreover have "x = ?vs ! n" "ys = take n ?vs" using assms(3) False d by (auto simp: heap_remove_def Let_def n)
    ultimately show ?thesis using heap_ordered_take [of key n ?vs] mset_take_last [of ?vs n] n by simp
  qed
qed


subsection \<open>Priority queues\<close>

text \<open>The contract: what is popped is a least element of what was pushed.\<close>

locale priority_queue =
  fixes ok :: "'q \<Rightarrow> bool" and items :: "'q \<Rightarrow> 'a multiset" and prio :: "'a \<Rightarrow> int"
    and push :: "'a \<Rightarrow> 'q \<Rightarrow> 'q" and pop :: "'q \<Rightarrow> 'a \<times> 'q" and empty :: 'q
  assumes empty_ok: "ok empty" "items empty = {#}"
    and push_ok: "ok q \<Longrightarrow> ok (push x q) \<and> items (push x q) = add_mset x (items q)"
    and pop_ok: "ok q \<Longrightarrow> items q \<noteq> {#} \<Longrightarrow> pop q = (x, q') \<Longrightarrow> ok q' \<and> items q = add_mset x (items q') \<and> (\<forall>y \<in># items q'. prio x \<le> prio y)"

fun pops :: "('q \<Rightarrow> 'a \<times> 'q) \<Rightarrow> nat \<Rightarrow> 'q \<Rightarrow> 'a list" where
  "pops pop 0 q = []"
| "pops pop (Suc n) q = (case pop q of (x, q') \<Rightarrow> x # pops pop n q')"

context priority_queue begin

lemma pops_sorted: "ok q \<Longrightarrow> size (items q) = n \<Longrightarrow> sorted (map prio (pops pop n q)) \<and> mset (pops pop n q) = items q"
proof (induction n arbitrary: q)
  case (Suc n)
  obtain x q' where p: "pop q = (x, q')" by fastforce
  from Suc.prems have ne: "items q \<noteq> {#}" by auto
  from pop_ok [OF Suc.prems(1) ne p] have q': "ok q'" "items q = add_mset x (items q')" "\<forall>y \<in># items q'. prio x \<le> prio y" by auto
  with Suc.prems(2) have "size (items q') = n" by simp
  from Suc.IH [OF q'(1) this] have ih: "sorted (map prio (pops pop n q'))" "mset (pops pop n q') = items q'" by auto
  then have "set (pops pop n q') = set_mset (items q')" by (metis set_mset_mset)
  with ih q' show ?case by (simp add: p)
qed simp

lemma pushes_ok: "ok (fold push xs q) \<and> items (fold push xs q) = items q + mset xs" if "ok q"
  using that by (induction xs arbitrary: q) (simp_all add: push_ok)

text \<open>Pushing any elements and popping them all sorts them.\<close>

lemma queue_sorts: "sorted (map prio (pops pop (length xs) (fold push xs empty))) \<and> mset (pops pop (length xs) (fold push xs empty)) = mset xs"
  using pops_sorted [of "fold push xs empty" "length xs"] pushes_ok [OF empty_ok(1), of xs] empty_ok(2) by simp

end

interpretation go_heap: priority_queue "is_heap key" mset key "heap_push key" "heap_pop key" "[]" for key
proof unfold_locales
  fix x and q q' :: "'a list"
  assume "is_heap key q" "mset q \<noteq> {#}" "heap_pop key q = (x, q')"
  with heap_pop_ok [of key q x q'] show "is_heap key q' \<and> mset q = add_mset x (mset q') \<and> (\<forall>y \<in># mset q'. key x \<le> key y)" by auto
qed (simp_all add: heap_push_ok)

end
