(* ===== verification/Timer_Engine.thy ===== *)
theory Timer_Engine
  imports Go_Heap
begin

text \<open>
  The high-precision timer (transport/hptimer): tasks (timer_task.go) in a heap ordered by their time (timer_heap.go), the engine with its
  loop (high_precision_timer.go) and the server around it (server.go).

  Each function is what the engine does while it holds its lock; \<open>loop_step\<close> is one iteration of the loop and tells what the loop does
  next outside the lock. A context is a number, the cancelled ones are listed. Parsing a cron expression is the
  argument \<open>cron\<close>; it gives the function from a time to the next one.
\<close>

subsection \<open>Tasks\<close>

datatype priority = PriorityHigh | PriorityMedium | PriorityLow

record timer_task =
  tt_id :: string
  tt_at :: gotime
  tt_interval :: duration
  tt_cron :: string
  tt_data :: string
  tt_priority :: priority
  tt_callback :: "nat option"
  tt_ctx :: "nat option"
  tt_has_cancel :: bool

definition with_interval :: "duration \<Rightarrow> timer_task \<Rightarrow> timer_task" where "with_interval d t = t\<lparr>tt_interval := d\<rparr>"
definition with_cron :: "string \<Rightarrow> timer_task \<Rightarrow> timer_task" where "with_cron x t = t\<lparr>tt_cron := x\<rparr>"
definition with_data :: "string \<Rightarrow> timer_task \<Rightarrow> timer_task" where "with_data x t = t\<lparr>tt_data := x\<rparr>"
definition with_callback :: "nat option \<Rightarrow> timer_task \<Rightarrow> timer_task" where "with_callback f t = t\<lparr>tt_callback := f\<rparr>"
definition with_priority :: "priority \<Rightarrow> timer_task \<Rightarrow> timer_task" where "with_priority p t = t\<lparr>tt_priority := p\<rparr>"

text \<open>A child of the parent context, made with its cancel function.\<close>

definition with_context :: "nat option \<Rightarrow> timer_task \<Rightarrow> timer_task" where
  "with_context child t = (case child of None \<Rightarrow> t | Some c \<Rightarrow> t\<lparr>tt_ctx := Some c, tt_has_cancel := True\<rparr>)"

definition new_timer_task :: "nat \<Rightarrow> string \<Rightarrow> gotime \<Rightarrow> (timer_task \<Rightarrow> timer_task) list \<Rightarrow> timer_task" where
  "new_timer_task ctx name due opts =
     (let t = fold (\<lambda>f t. f t) opts \<lparr>tt_id = name, tt_at = due, tt_interval = 0, tt_cron = [], tt_data = [], tt_priority = PriorityLow,
          tt_callback = None, tt_ctx = Some ctx, tt_has_cancel = True\<rparr>
      in if tt_ctx t \<noteq> None \<and> \<not> tt_has_cancel t then t\<lparr>tt_has_cancel := True\<rparr> else t)"

subsection \<open>The engine\<close>

record timer_engine =
  he_heap :: "timer_task list"
  he_tasks :: "(string \<times> timer_task) list"
  he_running :: bool
  he_stopped :: bool
  he_wakeup :: bool
  he_cancelled :: "nat list"
  he_next_ctx :: nat

definition new_engine :: "nat \<Rightarrow> timer_engine" where
  "new_engine c = \<lparr>he_heap = [], he_tasks = [], he_running = False, he_stopped = False, he_wakeup = False, he_cancelled = [], he_next_ctx = c\<rparr>"

definition engine_start :: "timer_engine \<Rightarrow> timer_engine" where
  "engine_start e = (if he_running e then e else e\<lparr>he_running := True\<rparr>)"

definition cancel_task :: "timer_task \<Rightarrow> nat list \<Rightarrow> nat list" where
  "cancel_task t cs = (if tt_has_cancel t then (case tt_ctx t of None \<Rightarrow> cs | Some c \<Rightarrow> c # cs) else cs)"

definition engine_stop :: "timer_engine \<Rightarrow> timer_engine" where
  "engine_stop e =
     (let e = e\<lparr>he_stopped := True\<rparr> in
      if \<not> he_running e then e
      else e\<lparr>he_running := False, he_cancelled := fold (\<lambda>(k, t). cancel_task t) (he_tasks e) (he_cancelled e), he_heap := [], he_tasks := []\<rparr>)"

definition has_task :: "timer_engine \<Rightarrow> string \<Rightarrow> bool" where
  "has_task e name = (map_of (he_tasks e) name \<noteq> None)"

definition push_task :: "timer_task \<Rightarrow> timer_engine \<Rightarrow> timer_engine" where
  "push_task t e =
     (let h = heap_push tt_at t (he_heap e)
      in e\<lparr>he_heap := h, he_tasks := (tt_id t, t) # he_tasks e, he_wakeup := (he_wakeup e \<or> 0 < length h \<and> tt_id (h ! 0) = tt_id t)\<rparr>)"

text \<open>\<open>AddTask\<close>: the identifier of the task, or the empty one when it is refused.\<close>

definition add_task :: "(string \<Rightarrow> (gotime \<Rightarrow> gotime) option) \<Rightarrow> gotime \<Rightarrow> timer_task option \<Rightarrow> timer_engine \<Rightarrow> string \<times> timer_engine" where
  "add_task cron now task e =
     (case task of
        None \<Rightarrow> ([], e)
      | Some t \<Rightarrow>
          if \<not> he_running e \<or> tt_id t = [] then ([], e)
          else
            let (t, e) = (case tt_ctx t of
                Some _ \<Rightarrow> (t, e)
              | None \<Rightarrow> (t\<lparr>tt_ctx := Some (he_next_ctx e), tt_has_cancel := True\<rparr>, e\<lparr>he_next_ctx := he_next_ctx e + 1\<rparr>));
              due = (if tt_at t = 0 \<and> tt_cron t \<noteq> [] then map_option (\<lambda>f. f now) (cron (tt_cron t)) else Some (tt_at t))
            in (case due of
                  None \<Rightarrow> ([], e)
                | Some a \<Rightarrow>
                    if a = 0 then ([], e)
                    else if has_task e (tt_id t) then ([], e)
                    else (tt_id t, push_task (t\<lparr>tt_at := a\<rparr>) e)))"

fun find_task :: "string \<Rightarrow> timer_task list \<Rightarrow> nat option" where
  "find_task name [] = None"
| "find_task name (t # ts) = (if tt_id t = name then Some 0 else map_option Suc (find_task name ts))"

text \<open>Cancelling a task and taking it out of the heap and of the index.\<close>

definition drop_task :: "string \<Rightarrow> timer_task \<Rightarrow> timer_engine \<Rightarrow> timer_engine" where
  "drop_task name t e = e\<lparr>he_cancelled := cancel_task t (he_cancelled e),
     he_heap := (case find_task name (he_heap e) of None \<Rightarrow> he_heap e | Some i \<Rightarrow> snd (heap_remove tt_at i (he_heap e))),
     he_tasks := filter (\<lambda>(k, u). k \<noteq> name) (he_tasks e)\<rparr>"

definition remove_task :: "string \<Rightarrow> timer_engine \<Rightarrow> bool \<times> timer_engine" where
  "remove_task name e =
     (case map_of (he_tasks e) name of
        None \<Rightarrow> (False, e)
      | Some t \<Rightarrow> if \<not> he_running e then (False, e) else (True, drop_task name t e))"

text \<open>\<open>UpsertTask\<close> drops the old task and then adds the new one; the lock is free in between.\<close>

definition upsert_drop :: "string \<Rightarrow> timer_engine \<Rightarrow> timer_engine" where
  "upsert_drop name e = (case map_of (he_tasks e) name of None \<Rightarrow> e | Some t \<Rightarrow> drop_task name t e)"

definition upsert_task :: "(string \<Rightarrow> (gotime \<Rightarrow> gotime) option) \<Rightarrow> gotime \<Rightarrow> timer_task option \<Rightarrow> timer_engine \<Rightarrow> string \<times> timer_engine" where
  "upsert_task cron now task e =
     (case task of
        None \<Rightarrow> ([], e)
      | Some t \<Rightarrow> if tt_id t = [] then ([], e) else add_task cron now task (upsert_drop (tt_id t) e))"

datatype loop_action = LoopExit | LoopIdle | LoopWait duration | LoopSkip timer_task | LoopFire timer_task

definition ctx_cancelled :: "timer_engine \<Rightarrow> timer_task \<Rightarrow> bool" where
  "ctx_cancelled e t = (case tt_ctx t of None \<Rightarrow> False | Some c \<Rightarrow> c \<in> set (he_cancelled e))"

definition loop_step :: "gotime \<Rightarrow> timer_engine \<Rightarrow> loop_action \<times> timer_engine" where
  "loop_step now e =
     (if \<not> he_running e \<or> he_stopped e then (LoopExit, e)
      else if length (he_heap e) = 0 then (LoopIdle, e)
      else let t = he_heap e ! 0; delay = time_sub (tt_at t) now in
        if delay \<le> 0 then
          let e = e\<lparr>he_heap := snd (heap_pop tt_at (he_heap e)), he_tasks := filter (\<lambda>(k, u). k \<noteq> tt_id t) (he_tasks e)\<rparr>
          in (if ctx_cancelled e t then LoopSkip t else LoopFire t, e)
        else (LoopWait delay, e))"

text \<open>\<open>handleRepeatTask\<close>, after the observer has returned; \<open>now\<close> is the time of the iteration, \<open>later\<close> the time of the call.\<close>

definition repeat_task :: "(string \<Rightarrow> (gotime \<Rightarrow> gotime) option) \<Rightarrow> timer_task \<Rightarrow> gotime \<Rightarrow> gotime \<Rightarrow> timer_engine \<Rightarrow> timer_engine" where
  "repeat_task cron t now later e =
     (if ctx_cancelled e t then e
      else
        let due = (if 0 < tt_interval t then Some (now + tt_interval t)
            else if tt_cron t \<noteq> [] then map_option (\<lambda>f. f now) (cron (tt_cron t)) else None)
        in case due of
          None \<Rightarrow> e
        | Some a \<Rightarrow> if a = 0 then e else snd (add_task cron later (Some (t\<lparr>tt_at := a\<rparr>)) e))"

subsection \<open>The server\<close>

record timer_server =
  ts_started :: bool
  ts_stopping :: bool
  ts_err :: "go_err option"
  ts_engine :: "timer_engine option"

text \<open>\<open>Start\<close>, with the outcome of the keepalive server when there is one; the engine is new at each start.\<close>

definition server_start :: "go_err option option \<Rightarrow> nat \<Rightarrow> timer_server \<Rightarrow> go_err option \<times> timer_server" where
  "server_start keepalive ctx s =
     (if ts_started s then (Some (NewErr ''[HpTimer] server already started''), s)
      else case ts_err s of
        Some e \<Rightarrow> (Some e, s)
      | None \<Rightarrow>
          let s = s\<lparr>ts_engine := Some (engine_start (new_engine ctx))\<rparr> in
          (case keepalive of
             Some (Some e) \<Rightarrow> (Some e, s\<lparr>ts_err := Some e\<rparr>)
           | _ \<Rightarrow> (None, s\<lparr>ts_started := True\<rparr>)))"

definition server_stop :: "timer_server \<Rightarrow> go_err option \<times> timer_server" where
  "server_stop s =
     (if \<not> ts_started s then (Some (NewErr ''[HpTimer] server not started''), s)
      else if ts_stopping s then (None, s)
      else (None, s\<lparr>ts_engine := map_option engine_stop (ts_engine s), ts_stopping := False, ts_started := False\<rparr>))"

definition server_add_task :: "(string \<Rightarrow> (gotime \<Rightarrow> gotime) option) \<Rightarrow> gotime \<Rightarrow> timer_task option \<Rightarrow> timer_server \<Rightarrow> string \<times> timer_server" where
  "server_add_task cron now task s =
     (if \<not> ts_started s then ([], s)
      else case ts_engine s of
        None \<Rightarrow> ([], s)
      | Some e \<Rightarrow> (case add_task cron now task e of (r, e) \<Rightarrow> (r, s\<lparr>ts_engine := Some e\<rparr>)))"

definition server_upsert_task :: "(string \<Rightarrow> (gotime \<Rightarrow> gotime) option) \<Rightarrow> gotime \<Rightarrow> timer_task option \<Rightarrow> timer_server \<Rightarrow> string \<times> timer_server" where
  "server_upsert_task cron now task s =
     (case ts_engine s of
        None \<Rightarrow> ([], s)
      | Some e \<Rightarrow>
          if \<not> ts_started s then ([], s)
          else (case upsert_task cron now task e of (r, e) \<Rightarrow> (r, s\<lparr>ts_engine := Some e\<rparr>)))"

definition server_remove_task :: "string \<Rightarrow> timer_server \<Rightarrow> bool \<times> timer_server" where
  "server_remove_task name s =
     (if \<not> ts_started s then (False, s)
      else case ts_engine s of
        None \<Rightarrow> (False, s)
      | Some e \<Rightarrow> (case remove_task name e of (r, e) \<Rightarrow> (r, s\<lparr>ts_engine := Some e\<rparr>)))"

subsection \<open>Heap and index agree\<close>

text \<open>The heap is ordered, the tasks of the index are those of the heap, one for each name; none is without a name or a context.\<close>

definition engine_inv :: "timer_engine \<Rightarrow> bool" where
  "engine_inv e =
     (is_heap tt_at (he_heap e) \<and> mset (map snd (he_tasks e)) = mset (he_heap e) \<and> distinct (map fst (he_tasks e)) \<and>
      (\<forall>(k, t) \<in> set (he_tasks e). k = tt_id t \<and> k \<noteq> [] \<and> tt_ctx t \<noteq> None))"

lemma find_task_Some: "find_task name ts = Some i \<Longrightarrow> i < length ts \<and> tt_id (ts ! i) = name"
  by (induction ts arbitrary: i) (auto split: if_splits)

lemma find_task_None: "find_task name ts = None \<longleftrightarrow> (\<forall>t \<in> set ts. tt_id t \<noteq> name)"
  by (induction ts) auto

text \<open>Dropping the only task of a name from the index drops that task.\<close>

lemma drop_index:
  assumes "distinct (map fst ts)" "(k, t) \<in> set ts"
  shows "mset (map snd ts) = add_mset t (mset (map snd (filter (\<lambda>(j, u). j \<noteq> k) ts)))"
  using assms
proof (induction ts)
  case (Cons p ts)
  show ?case
  proof (cases "fst p = k")
    case True
    then have "k \<notin> fst ` set ts" using Cons.prems by auto
    then have "filter (\<lambda>(j, u). j \<noteq> k) ts = ts" by (intro filter_True) force
    moreover have "(k, t) \<notin> set ts" using \<open>k \<notin> fst ` set ts\<close> by (metis fst_conv image_eqI)
    with Cons.prems(2) have "p = (k, t)" by simp
    ultimately show ?thesis by simp
  next
    case False
    then have "(k, t) \<in> set ts" using Cons.prems by auto
    with Cons False show ?thesis by (cases p) auto
  qed
qed simp

lemma engine_inv_find:
  assumes "engine_inv e"
  shows "map_of (he_tasks e) name = Some t \<longleftrightarrow> t \<in> set (he_heap e) \<and> tt_id t = name"
proof -
  have eq: "set (he_heap e) = snd ` set (he_tasks e)" using assms by (metis engine_inv_def list.set_map set_mset_mset)
  have d: "distinct (map fst (he_tasks e))" and w: "\<forall>(k, t) \<in> set (he_tasks e). k = tt_id t" using assms by (auto simp: engine_inv_def)
  have "map_of (he_tasks e) name = Some t \<longleftrightarrow> (name, t) \<in> set (he_tasks e)" using d by (rule map_of_eq_Some_iff)
  also have "\<dots> \<longleftrightarrow> t \<in> snd ` set (he_tasks e) \<and> tt_id t = name"
  proof
    assume "(name, t) \<in> set (he_tasks e)"
    then show "t \<in> snd ` set (he_tasks e) \<and> tt_id t = name" using w by (auto intro: rev_image_eqI)
  next
    assume "t \<in> snd ` set (he_tasks e) \<and> tt_id t = name"
    then obtain k where "(k, t) \<in> set (he_tasks e)" "tt_id t = name" by auto
    with w show "(name, t) \<in> set (he_tasks e)" by auto
  qed
  finally show ?thesis by (simp add: eq)
qed

lemma heap_ids_distinct: "engine_inv e \<Longrightarrow> distinct (map tt_id (he_heap e))"
proof -
  assume i: "engine_inv e"
  have "\<forall>(k, t) \<in> set (he_tasks e). k = tt_id t" using i by (auto simp: engine_inv_def)
  then have "map fst (he_tasks e) = map tt_id (map snd (he_tasks e))" by (induction "he_tasks e") auto
  then have "mset (map tt_id (he_heap e)) = mset (map fst (he_tasks e))" using i by (metis engine_inv_def mset_map)
  moreover have "distinct (map fst (he_tasks e))" using i by (simp add: engine_inv_def)
  ultimately show ?thesis by (metis mset_eq_imp_distinct_iff)
qed

lemma drop_task_inv:
  assumes "engine_inv e" "map_of (he_tasks e) name = Some t"
  shows "engine_inv (drop_task name t e)" "mset (he_heap e) = add_mset t (mset (he_heap (drop_task name t e)))"
proof -
  have t: "t \<in> set (he_heap e)" "tt_id t = name" using engine_inv_find [OF assms(1)] assms(2) by auto
  then obtain i where i: "find_task name (he_heap e) = Some i" by (metis find_task_None option.exhaust)
  have at: "i < length (he_heap e)" "tt_id (he_heap e ! i) = name" using find_task_Some [OF i] by auto
  have ti: "he_heap e ! i = t"
    using engine_inv_find [OF assms(1), of name] assms(2) at by (metis nth_mem option.inject)
  obtain x h where r: "heap_remove tt_at i (he_heap e) = (x, h)" by fastforce
  have heap: "is_heap tt_at (he_heap e)" using assms(1) by (simp add: engine_inv_def)
  from heap_remove_ok [OF heap at(1) r] ti have h: "is_heap tt_at h" "mset (he_heap e) = add_mset t (mset h)" by auto
  have d: "distinct (map fst (he_tasks e))" using assms(1) by (simp add: engine_inv_def)
  have "mset (map snd (he_tasks e)) = add_mset t (mset (map snd (filter (\<lambda>(k, u). k \<noteq> name) (he_tasks e))))"
    using drop_index [OF d map_of_SomeD [OF assms(2)]] .
  then have "mset (map snd (filter (\<lambda>(k, u). k \<noteq> name) (he_tasks e))) = mset h" using assms(1) h(2) by (simp add: engine_inv_def)
  moreover have "distinct (map fst (filter (\<lambda>(k, u). k \<noteq> name) (he_tasks e)))" using d by (rule distinct_map_filter)
  ultimately show "engine_inv (drop_task name t e)"
    using assms(1) h(1) i r by (auto simp: engine_inv_def drop_task_def)
  show "mset (he_heap e) = add_mset t (mset (he_heap (drop_task name t e)))" using h(2) i r by (simp add: drop_task_def)
qed


lemma push_task_inv:
  assumes "engine_inv e" "\<not> has_task e (tt_id t)" "tt_id t \<noteq> []" "tt_ctx t \<noteq> None"
  shows "engine_inv (push_task t e)" "mset (he_heap (push_task t e)) = add_mset t (mset (he_heap e))"
proof -
  have push: "is_heap tt_at (heap_push tt_at t (he_heap e)) \<and> mset (heap_push tt_at t (he_heap e)) = add_mset t (mset (he_heap e))"
    using go_heap.push_ok [of tt_at "he_heap e" t] assms(1) by (simp add: engine_inv_def)
  have "tt_id t \<notin> fst ` set (he_tasks e)" using assms(2) by (simp add: has_task_def map_of_eq_None_iff)
  with assms push show "engine_inv (push_task t e)" by (auto simp: engine_inv_def push_task_def Let_def)
  show "mset (he_heap (push_task t e)) = add_mset t (mset (he_heap e))" using push by (simp add: push_task_def Let_def)
qed

lemma engine_inv_frame:
  "he_heap e' = he_heap e \<Longrightarrow> he_tasks e' = he_tasks e \<Longrightarrow> engine_inv e' = engine_inv e"
  by (simp add: engine_inv_def)

lemma add_task_cases:
  assumes "add_task cron now task e = (r, e')"
  shows "r = [] \<and> he_heap e' = he_heap e \<and> he_tasks e' = he_tasks e \<or>
    (\<exists>t e1. r = tt_id t \<and> e' = push_task t e1 \<and> he_heap e1 = he_heap e \<and> he_tasks e1 = he_tasks e \<and> \<not> has_task e (tt_id t) \<and>
      tt_id t \<noteq> [] \<and> tt_ctx t \<noteq> None \<and> tt_at t \<noteq> 0 \<and> he_running e)"
proof (cases task)
  case None
  with assms show ?thesis by (simp add: add_task_def)
next
  case (Some t)
  show ?thesis
  proof (cases "\<not> he_running e \<or> tt_id t = []")
    case True
    with assms Some show ?thesis by (simp add: add_task_def)
  next
    case False
    define p where "p = (case tt_ctx t of
                Some _ \<Rightarrow> (t, e)
              | None \<Rightarrow> (t\<lparr>tt_ctx := Some (he_next_ctx e), tt_has_cancel := True\<rparr>, e\<lparr>he_next_ctx := he_next_ctx e + 1\<rparr>))"
    obtain t1 e1 where p: "p = (t1, e1)" by fastforce
    then have t1: "tt_id t1 = tt_id t" "tt_ctx t1 \<noteq> None" "he_heap e1 = he_heap e" "he_tasks e1 = he_tasks e"
      unfolding p_def by (auto split: option.splits)
    define due where "due = (if tt_at t1 = 0 \<and> tt_cron t1 \<noteq> [] then map_option (\<lambda>f. f now) (cron (tt_cron t1)) else Some (tt_at t1))"
    have r: "(r, e') = (case due of None \<Rightarrow> ([], e1) | Some a \<Rightarrow> if a = 0 then ([], e1) else if has_task e1 (tt_id t1) then ([], e1)
        else (tt_id t1, push_task (t1\<lparr>tt_at := a\<rparr>) e1))"
      using assms Some False p unfolding add_task_def p_def due_def Let_def by simp
    show ?thesis
    proof (cases "\<exists>a. due = Some a \<and> a \<noteq> 0 \<and> \<not> has_task e1 (tt_id t1)")
      case True
      then obtain a where a: "due = Some a" "a \<noteq> 0" "\<not> has_task e1 (tt_id t1)" by blast
      have "r = tt_id (t1\<lparr>tt_at := a\<rparr>) \<and> e' = push_task (t1\<lparr>tt_at := a\<rparr>) e1 \<and> \<not> has_task e (tt_id (t1\<lparr>tt_at := a\<rparr>))"
        using r a t1 by (simp add: has_task_def)
      with a t1 False show ?thesis by (intro disjI2 exI [of _ "t1\<lparr>tt_at := a\<rparr>"] exI [of _ e1]) simp
    next
      case no: False
      with r t1 show ?thesis by (auto split: option.splits if_splits)
    qed
  qed
qed

lemma add_task_inv: "engine_inv e \<Longrightarrow> engine_inv (snd (add_task cron now task e))"
proof -
  assume i: "engine_inv e"
  obtain r e' where r: "add_task cron now task e = (r, e')" by fastforce
  from add_task_cases [OF r] show ?thesis
  proof (elim disjE exE conjE)
    fix t e1
    assume e1: "e' = push_task t e1" "he_heap e1 = he_heap e" "he_tasks e1 = he_tasks e"
      and t: "\<not> has_task e (tt_id t)" "tt_id t \<noteq> []" "tt_ctx t \<noteq> None"
    have "engine_inv e1" "\<not> has_task e1 (tt_id t)" using e1 t(1) i by (simp_all add: engine_inv_def has_task_def)
    with push_task_inv(1) t(2,3) r e1(1) show ?thesis by simp
  qed (use i r in \<open>simp add: engine_inv_def\<close>)
qed

lemma loop_step_heap:
  assumes "engine_inv e" "loop_step now e = (a, e')" "a = LoopFire t \<or> a = LoopSkip t"
  shows "engine_inv e'" "mset (he_heap e) = add_mset t (mset (he_heap e'))" "tt_at t \<le> now" "\<forall>u \<in> set (he_heap e'). tt_at t \<le> tt_at u"
    "he_running e'" "\<not> he_stopped e'" "he_cancelled e' = he_cancelled e" "a = (if ctx_cancelled e t then LoopSkip t else LoopFire t)"
proof -
  have ne: "he_heap e \<noteq> []" and state: "he_running e" "\<not> he_stopped e" using assms(2,3) by (auto simp: loop_step_def split: if_splits)
  obtain x h where pop: "heap_pop tt_at (he_heap e) = (x, h)" by fastforce
  have heap: "is_heap tt_at (he_heap e)" using assms(1) by (simp add: engine_inv_def)
  from heap_pop_ok [OF heap ne pop] have x: "x = he_heap e ! 0" by simp
  from go_heap.pop_ok [OF heap _ pop] ne have h: "is_heap tt_at h" "mset (he_heap e) = add_mset x (mset h)" "\<forall>u \<in> set h. tt_at x \<le> tt_at u" by auto
  let ?e = "e\<lparr>he_heap := h, he_tasks := filter (\<lambda>(k, u). k \<noteq> tt_id x) (he_tasks e)\<rparr>"
  have due: "time_sub (tt_at x) now \<le> 0"
    using assms(2,3) ne state x by (auto simp: loop_step_def Let_def split: if_splits)
  have step: "loop_step now e = (if ctx_cancelled ?e x then LoopSkip x else LoopFire x, ?e)"
    using ne state due pop x by (simp add: loop_step_def Let_def)
  have r: "(a, e') = (if ctx_cancelled ?e x then LoopSkip x else LoopFire x, ?e)" by (rule trans [OF assms(2) [symmetric] step])
  with assms(3) have t: "t = x" "e' = ?e" by (auto split: if_splits)
  show "tt_at t \<le> now" using due t(1) by (simp add: time_sub_def max_int64_def)
  show "mset (he_heap e) = add_mset t (mset (he_heap e'))" "\<forall>u \<in> set (he_heap e'). tt_at t \<le> tt_at u" using h t by simp_all
  show "he_running e'" "\<not> he_stopped e'" "he_cancelled e' = he_cancelled e" using state t by simp_all
  have same: "ctx_cancelled ?e x = ctx_cancelled e x" by (simp add: ctx_cancelled_def split: option.split)
  show "a = (if ctx_cancelled e t then LoopSkip t else LoopFire t)" using r t unfolding same by simp
  have d: "distinct (map fst (he_tasks e))" using assms(1) by (simp add: engine_inv_def)
  have "x \<in> set (he_heap e)" using x ne by simp
  then have "map_of (he_tasks e) (tt_id x) = Some x" using engine_inv_find [OF assms(1)] by simp
  from drop_index [OF d map_of_SomeD [OF this]] h(2) assms(1)
  have "mset (map snd (filter (\<lambda>(k, u). k \<noteq> tt_id x) (he_tasks e))) = mset h" by (simp add: engine_inv_def)
  moreover have "distinct (map fst (filter (\<lambda>(k, u). k \<noteq> tt_id x) (he_tasks e)))" using d by (rule distinct_map_filter)
  ultimately show "engine_inv e'" using assms(1) h(1) t by (auto simp: engine_inv_def)
qed

lemma loop_step_rest:
  "loop_step now e = (a, e') \<Longrightarrow> (\<forall>t. a \<noteq> LoopFire t \<and> a \<noteq> LoopSkip t) \<Longrightarrow> e' = e \<and>
     (he_running e \<and> \<not> he_stopped e \<longrightarrow> (he_heap e = [] \<or> now < tt_at (he_heap e ! 0)))"
  by (auto simp: loop_step_def Let_def time_sub_def max_int64_def split: if_splits)

text \<open>What the engine, its loop and its clients can do, in any order.\<close>

inductive engine_step :: "(string \<Rightarrow> (gotime \<Rightarrow> gotime) option) \<Rightarrow> timer_engine \<Rightarrow> timer_engine \<Rightarrow> bool" for cron where
  do_start: "engine_step cron e (engine_start e)"
| do_stop: "engine_step cron e (engine_stop e)"
| do_add: "engine_step cron e (snd (add_task cron now task e))"
| do_remove: "engine_step cron e (snd (remove_task name e))"
| do_upsert_drop: "engine_step cron e (upsert_drop name e)"
| do_loop: "engine_step cron e (snd (loop_step now e))"
| do_repeat: "engine_step cron e (repeat_task cron t now later e)"
| do_cancel: "engine_step cron e (e\<lparr>he_cancelled := c # he_cancelled e\<rparr>)"

lemma engine_step_inv: "engine_step cron e e' \<Longrightarrow> engine_inv e \<Longrightarrow> engine_inv e'"
proof (induction rule: engine_step.induct)
  case (do_remove e name)
  then show ?case using drop_task_inv(1) [of e name] by (auto simp: remove_task_def split: option.splits)
next
  case (do_upsert_drop e name)
  then show ?case using drop_task_inv(1) [of e name] by (auto simp: upsert_drop_def split: option.splits)
next
  case (do_loop e now)
  obtain a e' where r: "loop_step now e = (a, e')" by fastforce
  show ?case
  proof (cases "\<exists>t. a = LoopFire t \<or> a = LoopSkip t")
    case True
    with loop_step_heap(1) [OF do_loop r] r show ?thesis by auto
  next
    case False
    with loop_step_rest [OF r] r do_loop show ?thesis by auto
  qed
next
  case (do_repeat e t now later)
  then show ?case using add_task_inv [of e cron later] by (auto simp: repeat_task_def Let_def split: option.splits)
next
  case (do_add e now task)
  then show ?case by (rule add_task_inv)
qed (simp_all add: engine_start_def engine_stop_def engine_inv_def Let_def)

lemma engine_reachable_inv: "(engine_step cron)\<^sup>*\<^sup>* (new_engine c) e \<Longrightarrow> engine_inv e"
proof (induction rule: rtranclp_induct)
  case base
  show ?case by (simp add: new_engine_def engine_inv_def)
qed (rule engine_step_inv)

subsection \<open>Properties\<close>

text \<open>The loop without interruption at one time: the tasks it takes, fired or skipped, in order.\<close>

fun run_due :: "nat \<Rightarrow> gotime \<Rightarrow> timer_engine \<Rightarrow> timer_task list \<times> timer_engine" where
  "run_due 0 now e = ([], e)"
| "run_due (Suc n) now e =
     (case loop_step now e of
        (LoopFire t, e) \<Rightarrow> (case run_due n now e of (ts, e) \<Rightarrow> (t # ts, e))
      | (LoopSkip t, e) \<Rightarrow> (case run_due n now e of (ts, e) \<Rightarrow> (t # ts, e))
      | (_, e) \<Rightarrow> ([], e))"

lemma run_due_spec:
  "engine_inv e \<Longrightarrow> he_running e \<Longrightarrow> \<not> he_stopped e \<Longrightarrow> length (he_heap e) \<le> n \<Longrightarrow> run_due n now e = (ts, e') \<Longrightarrow>
     sorted (map tt_at ts) \<and> mset ts = filter_mset (\<lambda>t. tt_at t \<le> now) (mset (he_heap e)) \<and>
     mset (he_heap e') = filter_mset (\<lambda>t. now < tt_at t) (mset (he_heap e)) \<and> engine_inv e'"
proof (induction n arbitrary: e ts)
  case (Suc n)
  obtain a e1 where r: "loop_step now e = (a, e1)" by fastforce
  show ?case
  proof (cases "\<exists>t. a = LoopFire t \<or> a = LoopSkip t")
    case True
    then obtain t where t: "a = LoopFire t \<or> a = LoopSkip t" by blast
    note h = loop_step_heap [OF Suc.prems(1) r t]
    obtain us where us: "run_due n now e1 = (us, e')" "ts = t # us"
      using Suc.prems(5) t r by (auto split: prod.splits)
    have "size (mset (he_heap e)) = Suc (size (mset (he_heap e1)))" using h(2) by simp
    then have "length (he_heap e1) \<le> n" using Suc.prems(4) by simp
    from Suc.IH [OF h(1,5,6) this us(1)] have ih: "sorted (map tt_at us)" "mset us = filter_mset (\<lambda>t. tt_at t \<le> now) (mset (he_heap e1))"
      "mset (he_heap e') = filter_mset (\<lambda>t. now < tt_at t) (mset (he_heap e1))" "engine_inv e'" by auto
    have "set us \<subseteq> set (he_heap e1)" using ih(2) by (metis multiset_filter_subset set_mset_mono set_mset_mset)
    with h(4) have "\<forall>u \<in> set us. tt_at t \<le> tt_at u" by auto
    with ih us h(2,3) show ?thesis by auto
  next
    case False
    with loop_step_rest [OF r] Suc.prems(2,3) have e1: "e1 = e" "he_heap e = [] \<or> now < tt_at (he_heap e ! 0)" by auto
    have late: "\<forall>t \<in> set (he_heap e). now < tt_at t"
    proof
      fix t
      assume "t \<in> set (he_heap e)"
      then obtain k where "k < length (he_heap e)" "t = he_heap e ! k" by (metis in_set_conv_nth)
      moreover have "heap_ordered tt_at (length (he_heap e)) (he_heap e)" using Suc.prems(1) by (simp add: engine_inv_def is_heap_def)
      ultimately show "now < tt_at t" using heap_root_least [of tt_at "length (he_heap e)" "he_heap e" k] e1(2) by fastforce
    qed
    have res: "ts = []" "e' = e" using Suc.prems(5) r False e1(1) by (auto split: loop_action.splits)
    have "filter_mset (\<lambda>t. tt_at t \<le> now) (mset (he_heap e)) = {#}" using late by (auto simp flip: mset_filter simp: filter_empty_conv)
    moreover have "filter_mset (\<lambda>t. now < tt_at t) (mset (he_heap e)) = mset (he_heap e)"
      using late by (simp flip: mset_filter)
    ultimately show ?thesis using res Suc.prems(1) by simp
  qed
qed simp

text \<open>C20: However tasks were added, moved and removed, the loop then takes exactly the tasks that are due, each once and in the order of their
  times, and leaves the others.\<close>

theorem due_tasks_in_order:
  assumes "(engine_step cron)\<^sup>*\<^sup>* (new_engine c) e" "he_running e" "\<not> he_stopped e" "length (he_heap e) \<le> n" "run_due n now e = (ts, e')"
  shows "sorted (map tt_at ts) \<and> mset ts = filter_mset (\<lambda>t. tt_at t \<le> now) (mset (he_heap e)) \<and>
    mset (he_heap e') = filter_mset (\<lambda>t. now < tt_at t) (mset (he_heap e))"
  using run_due_spec [OF engine_reachable_inv [OF assms(1)] assms(2-5)] by simp

text \<open>A task that was removed never fires: removal takes the one task of that name out of the heap and of the index, cancels its
  context, and leaves the other tasks.\<close>

theorem remove_task_removes:
  assumes "(engine_step cron)\<^sup>*\<^sup>* (new_engine c) e" "remove_task name e = (True, e')"
  shows "\<exists>t. tt_id t = name \<and> mset (he_heap e) = add_mset t (mset (he_heap e')) \<and> name \<notin> tt_id ` set (he_heap e') \<and> \<not> has_task e' name \<and>
    (tt_has_cancel t \<longrightarrow> ctx_cancelled e' t)"
proof -
  note inv = engine_reachable_inv [OF assms(1)]
  from assms(2) obtain t where t: "map_of (he_tasks e) name = Some t" "e' = drop_task name t e"
    by (auto simp: remove_task_def split: option.splits if_splits)
  have id: "tt_id t = name" "t \<in> set (he_heap e)" using engine_inv_find [OF inv] t(1) by auto
  have heap: "mset (he_heap e) = add_mset t (mset (he_heap e'))" using drop_task_inv(2) [OF inv t(1)] t(2) by simp
  have "mset (map tt_id (he_heap e)) = add_mset name (mset (map tt_id (he_heap e')))" using heap id(1) by simp
  moreover have "distinct (map tt_id (he_heap e))" using heap_ids_distinct [OF inv] .
  ultimately have "distinct (name # map tt_id (he_heap e'))" by (metis mset.simps(2) mset_eq_imp_distinct_iff)
  then have "name \<notin> tt_id ` set (he_heap e')" by simp
  moreover have "\<not> has_task e' name" using t(2) by (simp add: has_task_def drop_task_def map_of_eq_None_iff) auto
  moreover have "tt_ctx t \<noteq> None" using inv map_of_SomeD [OF t(1)] by (auto simp: engine_inv_def)
  then have "tt_has_cancel t \<longrightarrow> ctx_cancelled e' t"
    using t(2) by (auto simp: drop_task_def ctx_cancelled_def cancel_task_def split: option.splits)
  ultimately show ?thesis using id(1) heap by blast
qed


text \<open>A task that repeats and is removed while it fires is not found, and comes back.\<close>

lemma removal_while_firing:
  assumes "engine_inv e" "loop_step now e = (LoopFire t, e')"
  shows "remove_task (tt_id t) e' = (False, e')"
proof -
  have "he_tasks e' = filter (\<lambda>(k, u). k \<noteq> tt_id t) (he_tasks e)"
    using assms(2) by (auto simp: loop_step_def Let_def split: if_splits)
  then have "map_of (he_tasks e') (tt_id t) = None" by (auto simp: map_of_eq_None_iff)
  then show ?thesis by (simp add: remove_task_def)
qed

text \<open>The context of the engine stays cancelled, so after a second start the loop ends at once while tasks are still accepted.\<close>

lemma restarted_engine_never_fires: "loop_step now (engine_start (engine_stop e)) = (LoopExit, engine_start (engine_stop e))"
  by (simp add: engine_start_def engine_stop_def loop_step_def Let_def)

definition sample_task :: "string \<Rightarrow> gotime \<Rightarrow> timer_task" where
  "sample_task name due = new_timer_task 0 name due []"

definition sample_engine :: timer_engine where
  "sample_engine = snd (add_task (\<lambda>_. None) 5 (Some (sample_task ''b'' 20)) (snd (add_task (\<lambda>_. None) 5 (Some (sample_task ''a'' 30)) (engine_start (new_engine 1)))))"

lemma sample_engine_reachable: "(engine_step (\<lambda>_. None))\<^sup>*\<^sup>* (new_engine 1) sample_engine"
proof -
  have "(engine_step (\<lambda>_. None))\<^sup>*\<^sup>* (new_engine 1) (engine_start (new_engine 1))" by (rule r_into_rtranclp, rule do_start)
  moreover have "(engine_step (\<lambda>_. None))\<^sup>*\<^sup>* e (snd (add_task (\<lambda>_. None) 5 t e))" for e t by (rule r_into_rtranclp, rule do_add)
  ultimately show ?thesis unfolding sample_engine_def by (meson rtranclp_trans)
qed

lemma due_tasks_in_order_witness: "mset (fst (run_due 2 25 sample_engine)) = {#sample_task ''b'' 20#} \<and> sorted (map tt_at (fst (run_due 2 25 sample_engine)))"
proof -
  obtain ts e' where r: "run_due 2 25 sample_engine = (ts, e')" by fastforce
  have "he_running sample_engine" "\<not> he_stopped sample_engine" "length (he_heap sample_engine) \<le> 2"
    "map tt_at (he_heap sample_engine) = [20, 30]" by code_simp+
  with due_tasks_in_order [OF sample_engine_reachable _ _ _ r] have "sorted (map tt_at ts)"
    "mset ts = filter_mset (\<lambda>t. tt_at t \<le> 25) (mset (he_heap sample_engine))" by auto
  moreover have "filter (\<lambda>t. tt_at t \<le> 25) (he_heap sample_engine) = [sample_task ''b'' 20]" by code_simp
  ultimately show ?thesis by (simp add: r flip: mset_filter)
qed

lemma remove_task_removes_witness: "\<not> has_task (snd (remove_task ''a'' sample_engine)) ''a''"
proof -
  obtain b e' where r: "remove_task ''a'' sample_engine = (b, e')" by fastforce
  have "fst (remove_task ''a'' sample_engine)" by code_simp
  with r have "remove_task ''a'' sample_engine = (True, e')" by simp
  from remove_task_removes [OF sample_engine_reachable this] r show ?thesis by auto
qed

end
