(* ===== verification/Go_Utf8.thy ===== *)
theory Go_Utf8
  imports Go_Json
begin

text \<open>
  UTF-8 as Go's conversions use it: \<open>[]rune(s)\<close> reads a byte string, taking U+FFFD for each byte that starts no valid encoding, and
  \<open>string(rs)\<close> writes code points. A rune is a natural number.
\<close>

definition byte_at :: "nat \<Rightarrow> string \<Rightarrow> nat option" where
  "byte_at i s = (if i < length s then Some (of_char (s ! i)) else None)"

definition byte_in :: "nat \<Rightarrow> nat \<Rightarrow> nat option \<Rightarrow> bool" where
  "byte_in lo hi b = (case b of None \<Rightarrow> False | Some x \<Rightarrow> lo \<le> x \<and> x \<le> hi)"

definition cont_bits :: "nat option \<Rightarrow> nat" where
  "cont_bits b = (case b of None \<Rightarrow> 0 | Some x \<Rightarrow> x mod 64)"

text \<open>The first rune of a non-empty string and the number of its bytes.\<close>

definition decode_rune :: "string \<Rightarrow> nat \<times> nat" where
  "decode_rune s =
     (let b0 = (case s of [] \<Rightarrow> 0 | c # _ \<Rightarrow> of_char c); b1 = byte_at 1 s; b2 = byte_at 2 s; b3 = byte_at 3 s in
      if b0 < 0x80 then (b0, 1)
      else if 0xC2 \<le> b0 \<and> b0 \<le> 0xDF \<and> byte_in 0x80 0xBF b1 then ((b0 mod 32) * 64 + cont_bits b1, 2)
      else if 0xE0 \<le> b0 \<and> b0 \<le> 0xEF \<and> byte_in (if b0 = 0xE0 then 0xA0 else 0x80) (if b0 = 0xED then 0x9F else 0xBF) b1 \<and>
        byte_in 0x80 0xBF b2 then ((b0 mod 16) * 4096 + cont_bits b1 * 64 + cont_bits b2, 3)
      else if 0xF0 \<le> b0 \<and> b0 \<le> 0xF4 \<and> byte_in (if b0 = 0xF0 then 0x90 else 0x80) (if b0 = 0xF4 then 0x8F else 0xBF) b1 \<and>
        byte_in 0x80 0xBF b2 \<and> byte_in 0x80 0xBF b3 then
        ((b0 mod 8) * 262144 + cont_bits b1 * 4096 + cont_bits b2 * 64 + cont_bits b3, 4)
      else (0xFFFD, 1))"

lemma decode_rune_size: "0 < snd (decode_rune s)"
  by (simp add: decode_rune_def Let_def)

function runes :: "string \<Rightarrow> nat list" where
  "runes s = (if s = [] then [] else fst (decode_rune s) # runes (drop (snd (decode_rune s)) s))"
  by pat_completeness auto
termination
  by (relation "measure length") (auto simp: decode_rune_size)

declare runes.simps [simp del]

definition of_runes :: "nat list \<Rightarrow> string" where
  "of_runes rs = concat (map utf8_encode rs)"

definition valid_rune :: "nat \<Rightarrow> bool" where
  "valid_rune r = (r < 0xD800 \<or> 0xE000 \<le> r \<and> r \<le> 0x10FFFF)"

lemma of_runes_simps [simp]: "of_runes [] = []" "of_runes (r # rs) = utf8_encode r @ of_runes rs" "of_runes (rs @ rs') = of_runes rs @ of_runes rs'"
  by (simp_all add: of_runes_def)


subsection \<open>Valid text\<close>

lemma byte_at_Cons: "byte_at i (c # s) = (if i = 0 then Some (of_char c) else byte_at (i - 1) s)"
  by (cases i) (simp_all add: byte_at_def)

lemma byte_in_Some [simp]: "byte_in lo hi (Some x) = (lo \<le> x \<and> x \<le> hi)"
  by (simp add: byte_in_def)

lemma cont_bits_Some [simp]: "cont_bits (Some x) = x mod 64"
  by (simp add: cont_bits_def)

lemma of_char_small: "n < 256 \<Longrightarrow> (of_char (char_of (n :: nat)) :: nat) = n"
  by simp

lemma high_bits:
  fixes q m k :: nat
  shows "q < m \<Longrightarrow> (k * m + q) mod m = q"
  by simp

lemma lead_bits:
  fixes q :: nat
  shows "q < 32 \<Longrightarrow> (0xC0 + q) mod 32 = q" "q < 16 \<Longrightarrow> (0xE0 + q) mod 16 = q" "q < 8 \<Longrightarrow> (0xF0 + q) mod 8 = q"
    "(0x80 + q mod 64) mod 64 = q mod 64"
  using high_bits [of q 32 6] high_bits [of q 16 14] high_bits [of q 8 30] high_bits [of "q mod 64" 64 2] by simp_all

lemma tail_facts:
  fixes q :: nat
  shows "0x80 \<le> 0x80 + q mod 64" "0x80 + q mod 64 \<le> 0xBF" "0x80 + q mod 64 < 256" "(0x80 + q mod 64) mod 64 = q mod 64"
proof -
  have "q mod 64 < 64" by simp
  then show "0x80 \<le> 0x80 + q mod 64" "0x80 + q mod 64 \<le> 0xBF" "0x80 + q mod 64 < 256" by linarith+
  show "(0x80 + q mod 64) mod 64 = q mod 64" by (rule lead_bits)
qed

lemma six_bits:
  fixes r :: nat
  shows "r = (r div 64) * 64 + r mod 64" "r div 64 = (r div 4096) * 64 + r div 64 mod 64" "r div 4096 = (r div 262144) * 64 + r div 4096 mod 64"
  using div_mult_mod_eq [of r 64] div_mult_mod_eq [of "r div 64" 64] div_mult_mod_eq [of "r div 4096" 64]
  by (simp_all add: div_mult2_eq [symmetric])

lemma decode_bytes:
  fixes a b c d :: nat
  shows "0xC2 \<le> a \<Longrightarrow> a \<le> 0xDF \<Longrightarrow> 0x80 \<le> b \<Longrightarrow> b \<le> 0xBF \<Longrightarrow>
      decode_rune (char_of a # char_of b # s) = ((a mod 32) * 64 + b mod 64, 2)"
    and "0xE0 \<le> a \<Longrightarrow> a \<le> 0xEF \<Longrightarrow> 0x80 \<le> b \<Longrightarrow> b \<le> 0xBF \<Longrightarrow> (a = 0xE0 \<longrightarrow> 0xA0 \<le> b) \<Longrightarrow> (a = 0xED \<longrightarrow> b \<le> 0x9F) \<Longrightarrow> 0x80 \<le> c \<Longrightarrow> c \<le> 0xBF \<Longrightarrow>
      decode_rune (char_of a # char_of b # char_of c # s) = ((a mod 16) * 4096 + (b mod 64) * 64 + c mod 64, 3)"
    and "0xF0 \<le> a \<Longrightarrow> a \<le> 0xF4 \<Longrightarrow> 0x80 \<le> b \<Longrightarrow> b \<le> 0xBF \<Longrightarrow> (a = 0xF0 \<longrightarrow> 0x90 \<le> b) \<Longrightarrow> (a = 0xF4 \<longrightarrow> b \<le> 0x8F) \<Longrightarrow> 0x80 \<le> c \<Longrightarrow> c \<le> 0xBF \<Longrightarrow>
      0x80 \<le> d \<Longrightarrow> d \<le> 0xBF \<Longrightarrow>
      decode_rune (char_of a # char_of b # char_of c # char_of d # s) = ((a mod 8) * 262144 + (b mod 64) * 4096 + (c mod 64) * 64 + d mod 64, 4)"
  by (simp_all add: decode_rune_def Let_def byte_at_Cons of_char_small del: of_char_of)

lemma decode_2:
  assumes "0x80 \<le> r" "r < 0x800"
  shows "decode_rune (utf8_encode r @ s) = (r, 2)"
proof -
  let ?a = "0xC0 + r div 64" and ?b = "0x80 + r mod 64"
  have a: "0xC2 \<le> ?a" "?a \<le> 0xDF" "?a < 256" "?a mod 32 = r div 64" using assms by (auto intro: lead_bits)
  have b: "0x80 \<le> ?b" "?b \<le> 0xBF" "?b < 256" "?b mod 64 = r mod 64" by (rule tail_facts)+
  have enc: "utf8_encode r @ s = char_of ?a # char_of ?b # s" using assms by (simp add: utf8_encode_def)
  have "decode_rune (char_of ?a # char_of ?b # s) = ((?a mod 32) * 64 + ?b mod 64, 2)"
    using a(1,2) b(1,2) by (rule decode_bytes)
  then show ?thesis unfolding enc a(4) b(4) by simp
qed

lemma decode_3:
  assumes "0x800 \<le> r" "r < 0x10000" "valid_rune r"
  shows "decode_rune (utf8_encode r @ s) = (r, 3)"
proof -
  let ?a = "0xE0 + r div 4096" and ?b = "0x80 + r div 64 mod 64" and ?c = "0x80 + r mod 64"
  have a: "0xE0 \<le> ?a" "?a \<le> 0xEF" "?a < 256" "?a mod 16 = r div 4096" using assms by (auto intro: lead_bits)
  have m: "r div 64 mod 64 < 64" "r mod 64 < 64" by simp_all
  have b: "0x80 \<le> ?b" "?b \<le> 0xBF" "?b < 256" "?b mod 64 = r div 64 mod 64" by (rule tail_facts)+
  have c: "0x80 \<le> ?c" "?c \<le> 0xBF" "?c < 256" "?c mod 64 = r mod 64" by (rule tail_facts)+
  have split: "r = (r div 4096) * 4096 + (r div 64 mod 64) * 64 + r mod 64"
    using six_bits(1) [of r] six_bits(2) [of r] by linarith
  have low: "?a = 0xE0 \<longrightarrow> 0xA0 \<le> ?b"
  proof
    assume "?a = 0xE0"
    then have "r < 4096" by (simp add: div_eq_0_iff)
    then have "r div 64 < 64" by auto
    moreover have "32 \<le> r div 64" using assms(1) by auto
    ultimately show "0xA0 \<le> ?b" by simp
  qed
  have high: "?a = 0xED \<longrightarrow> ?b \<le> 0x9F"
  proof
    assume "?a = 0xED"
    then have d: "r div 4096 = 13" by simp
    with split m have "r < 14 * 4096" by linarith
    then have "r < 0xD800" using assms(3) by (simp add: valid_rune_def)
    then have "(r div 64 mod 64) * 64 < 2048" using split d by linarith
    then show "?b \<le> 0x9F" by simp
  qed
  have enc: "utf8_encode r @ s = char_of ?a # char_of ?b # char_of ?c # s" using assms by (simp add: utf8_encode_def)
  have "decode_rune (char_of ?a # char_of ?b # char_of ?c # s) = ((?a mod 16) * 4096 + (?b mod 64) * 64 + ?c mod 64, 3)"
    using a(1,2) b(1,2) low high c(1,2) by (rule decode_bytes)
  then show ?thesis unfolding enc a(4) b(4) c(4) using split by simp
qed

lemma decode_4:
  assumes "0x10000 \<le> r" "r \<le> 0x10FFFF"
  shows "decode_rune (utf8_encode r @ s) = (r, 4)"
proof -
  let ?a = "0xF0 + r div 262144" and ?b = "0x80 + r div 4096 mod 64" and ?c = "0x80 + r div 64 mod 64" and ?d = "0x80 + r mod 64"
  have a: "0xF0 \<le> ?a" "?a \<le> 0xF4" "?a < 256" "?a mod 8 = r div 262144" using assms by (auto intro: lead_bits)
  have m: "r div 4096 mod 64 < 64" "r div 64 mod 64 < 64" "r mod 64 < 64" by simp_all
  have b: "0x80 \<le> ?b" "?b \<le> 0xBF" "?b < 256" "?b mod 64 = r div 4096 mod 64" by (rule tail_facts)+
  have c: "0x80 \<le> ?c" "?c \<le> 0xBF" "?c < 256" "?c mod 64 = r div 64 mod 64" by (rule tail_facts)+
  have d: "0x80 \<le> ?d" "?d \<le> 0xBF" "?d < 256" "?d mod 64 = r mod 64" by (rule tail_facts)+
  have split: "r = (r div 262144) * 262144 + (r div 4096 mod 64) * 4096 + (r div 64 mod 64) * 64 + r mod 64"
    using six_bits [of r] by linarith
  have low: "?a = 0xF0 \<longrightarrow> 0x90 \<le> ?b"
  proof
    assume "?a = 0xF0"
    then have "r < 262144" by (simp add: div_eq_0_iff)
    then have "r div 4096 < 64" by auto
    moreover have "16 \<le> r div 4096" using assms(1) by auto
    ultimately show "0x90 \<le> ?b" by simp
  qed
  have high: "?a = 0xF4 \<longrightarrow> ?b \<le> 0x8F"
  proof
    assume "?a = 0xF4"
    then have d: "r div 262144 = 4" by simp
    with split assms(2) have "(r div 4096 mod 64) * 4096 \<le> 65535" by linarith
    then show "?b \<le> 0x8F" by simp
  qed
  have enc: "utf8_encode r @ s = char_of ?a # char_of ?b # char_of ?c # char_of ?d # s" using assms by (simp add: utf8_encode_def)
  have "decode_rune (char_of ?a # char_of ?b # char_of ?c # char_of ?d # s) =
      ((?a mod 8) * 262144 + (?b mod 64) * 4096 + (?c mod 64) * 64 + ?d mod 64, 4)"
    using a(1,2) b(1,2) low high c(1,2) d(1,2) by (rule decode_bytes)
  then show ?thesis unfolding enc a(4) b(4) c(4) d(4) using split by simp
qed

lemma decode_encode: "valid_rune r \<Longrightarrow> decode_rune (utf8_encode r @ s) = (r, length (utf8_encode r))"
proof -
  assume v: "valid_rune r"
  consider "r < 0x80" | "0x80 \<le> r \<and> r < 0x800" | "0x800 \<le> r \<and> r < 0x10000" | "0x10000 \<le> r \<and> r \<le> 0x10FFFF"
    using v unfolding valid_rune_def by linarith
  then show ?thesis
  proof cases
    case 1
    then show ?thesis by (simp add: utf8_encode_def decode_rune_def Let_def)
  next
    case 2
    then show ?thesis using decode_2 by (simp add: utf8_encode_def)
  next
    case 3
    then show ?thesis using decode_3 v by (simp add: utf8_encode_def)
  next
    case 4
    then show ?thesis using decode_4 by (simp add: utf8_encode_def)
  qed
qed

lemma utf8_encode_nonempty [simp]: "utf8_encode r \<noteq> []"
  by (simp add: utf8_encode_def)

lemma runes_of_runes: "list_all valid_rune rs \<Longrightarrow> runes (of_runes rs) = rs"
proof (induction rs)
  case Nil
  show ?case by (simp add: runes.simps)
next
  case (Cons r rs)
  then show ?case
    by (subst runes.simps) (simp add: decode_encode)
qed

lemma runes_Nil [simp]: "runes s = [] \<longleftrightarrow> s = []"
  by (subst runes.simps) simp

text \<open>Decoding yields only runes that can be encoded again.\<close>

lemma rune_2_valid: "(b mod 32) * 64 + c mod 64 < (0xD800 :: nat)"
proof -
  have "b mod 32 \<le> 31" "c mod 64 \<le> 63" by auto
  then show ?thesis by linarith
qed

lemma mod_shift: "(a :: nat) \<le> b \<Longrightarrow> b < a + m \<Longrightarrow> a mod m = 0 \<Longrightarrow> b mod m = b - a"
proof -
  assume ab: "a \<le> b" "b < a + m" "a mod m = 0"
  then obtain k where k: "b = a + k" by (metis le_Suc_ex)
  with ab(2) have "k < m" by simp
  then show "b mod m = b - a" using ab(3) k by (simp add: mod_add_left_eq [of a m k, symmetric])
qed

lemma rune_3_valid:
  assumes "0xE0 \<le> b" "b \<le> (0xEF :: nat)" "b = 0xED \<longrightarrow> 0x80 \<le> c \<and> c \<le> 0x9F"
  shows "valid_rune ((b mod 16) * 4096 + (c mod 64) * 64 + d mod 64)"
proof -
  have b: "b mod 16 = b - 0xE0" by (rule mod_shift) (use assms(1,2) in simp_all)
  have le: "c mod 64 \<le> 63" "d mod 64 \<le> 63" by auto
  consider "b < 0xED" | "b = 0xED" | "0xEE \<le> b" by linarith
  then show ?thesis
  proof cases
    case 1
    with b have "b mod 16 \<le> 12" by simp
    with le have "(b mod 16) * 4096 + (c mod 64) * 64 + d mod 64 < 0xD800" by linarith
    then show ?thesis by (simp add: valid_rune_def)
  next
    case 2
    then have "c mod 64 = c - 0x80" using assms(3) by (intro mod_shift) simp_all
    with 2 assms(3) have "c mod 64 \<le> 31" by linarith
    with 2 le(2) have "(b mod 16) * 4096 + (c mod 64) * 64 + d mod 64 < 0xD800" by simp
    then show ?thesis by (simp add: valid_rune_def)
  next
    case 3
    with b assms(2) have "14 \<le> b mod 16" "b mod 16 \<le> 15" by simp_all
    with le have "0xE000 \<le> (b mod 16) * 4096 + (c mod 64) * 64 + d mod 64" "(b mod 16) * 4096 + (c mod 64) * 64 + d mod 64 \<le> 0x10FFFF" by linarith+
    then show ?thesis by (simp add: valid_rune_def)
  qed
qed

lemma rune_4_valid:
  assumes "0xF0 \<le> b" "b \<le> (0xF4 :: nat)" "b = 0xF0 \<longrightarrow> 0x90 \<le> c" "b = 0xF4 \<longrightarrow> c \<le> 0x8F" "0x80 \<le> c" "c \<le> 0xBF"
  shows "valid_rune ((b mod 8) * 262144 + (c mod 64) * 4096 + (d mod 64) * 64 + e mod 64)"
proof -
  have b: "b mod 8 = b - 0xF0" by (rule mod_shift) (use assms(1,2) in simp_all)
  have c: "c mod 64 = c - 0x80" by (rule mod_shift) (use assms(5,6) in simp_all)
  have le: "d mod 64 \<le> 63" "e mod 64 \<le> 63" by auto
  have "0xE000 \<le> (b mod 8) * 262144 + (c mod 64) * 4096 + (d mod 64) * 64 + e mod 64 \<and>
    (b mod 8) * 262144 + (c mod 64) * 4096 + (d mod 64) * 64 + e mod 64 \<le> 0x10FFFF"
  proof (cases "b = 0xF0 \<or> b = 0xF4")
    case True
    then show ?thesis using le assms(3-6) by (auto simp: c)
  next
    case False
    with b assms(1,2) have "1 \<le> b mod 8" "b mod 8 \<le> 3" by linarith+
    moreover from c assms(5,6) have "c mod 64 \<le> 63" by simp
    ultimately show ?thesis using le by linarith
  qed
  then show ?thesis by (simp add: valid_rune_def)
qed

lemma byte_in_iff: "byte_in lo hi b \<longleftrightarrow> (\<exists>x. b = Some x \<and> lo \<le> x \<and> x \<le> hi)"
  by (cases b) (simp_all add: byte_in_def)

lemma decode_rune_valid: "valid_rune (fst (decode_rune s))"
proof -
  define b0 :: nat where "b0 = (case s of [] \<Rightarrow> 0 | c # _ \<Rightarrow> of_char c)"
  define B where "B \<longleftrightarrow> 0xC2 \<le> b0 \<and> b0 \<le> 0xDF \<and> byte_in 0x80 0xBF (byte_at 1 s)"
  define C where "C \<longleftrightarrow> 0xE0 \<le> b0 \<and> b0 \<le> 0xEF \<and> byte_in (if b0 = 0xE0 then 0xA0 else 0x80) (if b0 = 0xED then 0x9F else 0xBF) (byte_at 1 s) \<and>
    byte_in 0x80 0xBF (byte_at 2 s)"
  define D where "D \<longleftrightarrow> 0xF0 \<le> b0 \<and> b0 \<le> 0xF4 \<and> byte_in (if b0 = 0xF0 then 0x90 else 0x80) (if b0 = 0xF4 then 0x8F else 0xBF) (byte_at 1 s) \<and>
    byte_in 0x80 0xBF (byte_at 2 s) \<and> byte_in 0x80 0xBF (byte_at 3 s)"
  have eq: "fst (decode_rune s) = (if b0 < 0x80 then b0 else if B then (b0 mod 32) * 64 + cont_bits (byte_at 1 s)
    else if C then (b0 mod 16) * 4096 + cont_bits (byte_at 1 s) * 64 + cont_bits (byte_at 2 s)
    else if D then (b0 mod 8) * 262144 + cont_bits (byte_at 1 s) * 4096 + cont_bits (byte_at 2 s) * 64 + cont_bits (byte_at 3 s) else 0xFFFD)"
    unfolding decode_rune_def Let_def b0_def [symmetric] B_def [symmetric] C_def [symmetric] D_def [symmetric]
    by (simp only: if_distrib [of fst] fst_conv)
  have two: "valid_rune ((b0 mod 32) * 64 + cont_bits (byte_at 1 s))" if B
    using that rune_2_valid unfolding B_def by (auto simp: byte_in_iff valid_rune_def)
  have three: "valid_rune ((b0 mod 16) * 4096 + cont_bits (byte_at 1 s) * 64 + cont_bits (byte_at 2 s))" if C
  proof -
    from that obtain c d where at_bytes: "byte_at 1 s = Some c" "byte_at 2 s = Some d" unfolding C_def byte_in_iff by blast
    from that at_bytes have "0xE0 \<le> b0" "b0 \<le> 0xEF" "b0 = 0xED \<longrightarrow> 0x80 \<le> c \<and> c \<le> 0x9F"
      unfolding C_def by (auto split: if_split_asm)
    from rune_3_valid [OF this] at_bytes show ?thesis by simp
  qed
  have four: "valid_rune ((b0 mod 8) * 262144 + cont_bits (byte_at 1 s) * 4096 + cont_bits (byte_at 2 s) * 64 + cont_bits (byte_at 3 s))" if D
  proof -
    from that obtain c d e where at_bytes: "byte_at 1 s = Some c" "byte_at 2 s = Some d" "byte_at 3 s = Some e" unfolding D_def byte_in_iff by blast
    from that at_bytes have "0xF0 \<le> b0" "b0 \<le> 0xF4" "b0 = 0xF0 \<longrightarrow> 0x90 \<le> c" "b0 = 0xF4 \<longrightarrow> c \<le> 0x8F" "0x80 \<le> c" "c \<le> 0xBF"
      unfolding D_def by (auto split: if_split_asm)
    from rune_4_valid [OF this] at_bytes show ?thesis by simp
  qed
  show ?thesis unfolding eq using two three four by (simp add: valid_rune_def)
qed

lemma runes_valid: "list_all valid_rune (runes s)"
  by (induction s rule: runes.induct) (subst runes.simps, simp add: decode_rune_valid)

lemma runes_of_char: "valid_rune r \<Longrightarrow> runes (utf8_encode r) = [r]"
  using runes_of_runes [of "[r]"] by simp

subsection \<open>White space\<close>

text \<open>\<open>unicode.IsSpace\<close>.\<close>

definition unicode_space :: "nat \<Rightarrow> bool" where
  "unicode_space r \<longleftrightarrow> (9 \<le> r \<and> r \<le> 13) \<or> (0x2000 \<le> r \<and> r \<le> 0x200A) \<or>
     r \<in> set [0x20, 0x85, 0xA0, 0x1680, 0x2028, 0x2029, 0x202F, 0x205F, 0x3000]"

definition trim_runes :: "nat list \<Rightarrow> nat list" where
  "trim_runes rs = rev (dropWhile unicode_space (rev (dropWhile unicode_space rs)))"

text \<open>The runes of a string with the bytes of each, and \<open>strings.TrimSpace\<close> on them.\<close>

function rune_chunks :: "string \<Rightarrow> (nat \<times> string) list" where
  "rune_chunks s =
     (if s = [] then []
      else (let (r, n) = decode_rune s in (r, take n s) # rune_chunks (drop (snd (decode_rune s)) s)))"
  by pat_completeness auto
termination
  by (relation "measure length") (auto simp: decode_rune_size)

declare rune_chunks.simps [simp del]

lemma rune_chunks_runes: "map fst (rune_chunks s) = runes s"
  by (induction s rule: runes.induct) (subst runes.simps, subst rune_chunks.simps, simp add: split_def Let_def)

lemma rune_chunks_bytes: "concat (map snd (rune_chunks s)) = s"
  by (induction s rule: runes.induct) (subst rune_chunks.simps, simp add: split_def Let_def)

definition trim_chunks :: "(nat \<times> string) list \<Rightarrow> (nat \<times> string) list" where
  "trim_chunks cs = rev (dropWhile (\<lambda>c. unicode_space (fst c)) (rev (dropWhile (\<lambda>c. unicode_space (fst c)) cs)))"

definition trim_space_utf8 :: "string \<Rightarrow> string" where
  "trim_space_utf8 s = concat (map snd (trim_chunks (rune_chunks s)))"

lemma dropWhile_map_fst: "map fst (dropWhile (\<lambda>c. P (fst c)) cs) = dropWhile P (map fst cs)"
  by (induction cs) auto

lemma trim_chunks_runes: "map fst (trim_chunks (rune_chunks s)) = trim_runes (runes s)"
  by (simp add: trim_chunks_def trim_runes_def rev_map [symmetric] dropWhile_map_fst rune_chunks_runes)


end
