(* ===== verification/Redact_Mask.thy ===== *)
theory Redact_Mask
  imports Go_Utf8
begin

text \<open>
  The redaction algorithms (redact/redactor.go, redact/text.go): functions from strings to strings, and the registry of custom ones.

  What the sources take from Go's library and this development does not define is the record \<open>redact_lib\<close>: digests, regular expressions,
  the parsers of addresses and URLs, the environment. A slice expression out of range is a \<open>Panic\<close>.
\<close>

unbundle bit_operations_syntax

subsection \<open>Library\<close>

text \<open>
  \<open>rl_compile\<close> is \<open>regexp.Compile\<close>, giving \<open>ReplaceAllString\<close> as a function of the value and the replacement. The three patterns of text.go
  are compiled at start; \<open>rl_sensitive\<close> is the replacement of the first, \<open>rl_emails\<close> and \<open>rl_phones\<close> are \<open>ReplaceAllStringFunc\<close> of the
  others. \<open>rl_parse_ip\<close> tells of a valid address whether it has a four byte form, and its \<open>String()\<close>. \<open>rl_parse_url\<close> gives the raw
  query of a valid URL and its \<open>String()\<close> as a function of the raw query.
\<close>

record redact_lib =
  rl_compile :: "string \<Rightarrow> (string \<Rightarrow> string \<Rightarrow> string) res"
  rl_md5 :: "string \<Rightarrow> nat list"
  rl_sha1 :: "string \<Rightarrow> nat list"
  rl_sha256 :: "string \<Rightarrow> nat list"
  rl_parse_ip :: "string \<Rightarrow> (bool \<times> string) option"
  rl_parse_url :: "string \<Rightarrow> (string \<times> (string \<Rightarrow> string)) res"
  rl_parse_query :: "string \<Rightarrow> (string \<rightharpoonup> string list)"
  rl_encode_query :: "(string \<rightharpoonup> string list) \<Rightarrow> string"
  rl_getenv :: "string \<Rightarrow> string"
  rl_sensitive :: "string \<Rightarrow> string"
  rl_emails :: "(string \<Rightarrow> string) \<Rightarrow> string \<Rightarrow> string"
  rl_phones :: "(string \<Rightarrow> string) \<Rightarrow> string \<Rightarrow> string"

definition str_repeat :: "string \<Rightarrow> nat \<Rightarrow> string" where
  "str_repeat s n = concat (replicate n s)"

text \<open>\<open>fmt.Sprintf("%x", bytes)\<close>.\<close>

definition hex_bytes :: "nat list \<Rightarrow> string" where
  "hex_bytes bs = concat (map (\<lambda>b. [hex_digit (b div 16), hex_digit (b mod 16)]) bs)"

subsection \<open>Masking\<close>

text \<open>How many characters \<open>MaskWithMin\<close> keeps in front and at the end of \<open>n\<close>: both counts are clamped, then taken back until enough is masked,
  at the end first.\<close>

definition mask_kept :: "nat \<Rightarrow> int \<Rightarrow> int \<Rightarrow> int \<Rightarrow> int \<times> int" where
  "mask_kept n keep_first keep_last min_mask =
     (let keep_first = max 0 keep_first; keep_last = max 0 keep_last; min_mask = max 0 min_mask;
          keep_first = (if keep_first > int n then int n else keep_first);
          keep_last = (if keep_last > int n - keep_first then int n - keep_first else keep_last);
          min_mask = (if min_mask > int n then int n else min_mask);
          masked = int n - keep_first - keep_last
      in if masked < min_mask then
           (let need = min_mask - masked in
            if need \<le> keep_last then (keep_first, keep_last - need)
            else let need = need - keep_last in (if need > keep_first then 0 else keep_first - need, 0))
         else (keep_first, keep_last))"

definition mask_with_min :: "string \<Rightarrow> int \<Rightarrow> int \<Rightarrow> int \<Rightarrow> string \<Rightarrow> string" where
  "mask_with_min val keep_first keep_last min_mask mask_char =
     (let chars = runes val in
      if chars = [] then val
      else let (kf, kl) = mask_kept (length chars) keep_first keep_last min_mask;
               masked = int (length chars) - kf - kl
           in if masked = 0 then val
              else of_runes (take (nat kf) chars) @ str_repeat mask_char (nat masked) @ of_runes (drop (length chars - nat kl) chars))"

definition mask :: "string \<Rightarrow> int \<Rightarrow> int \<Rightarrow> string \<Rightarrow> string" where
  "mask val keep_first keep_last mask_char = mask_with_min val keep_first keep_last 0 mask_char"

subsection \<open>The other algorithms\<close>

text \<open>\<open>Email\<close> cuts the local part by bytes; with a negative count the slice expression panics.\<close>

definition email :: "string \<Rightarrow> int \<Rightarrow> bool \<Rightarrow> string \<Rightarrow> string res" where
  "email val keep_local mask_domain mask_char =
     (case last_index_byte val (CHR ''@'') of
        None \<Rightarrow> Inr val
      | Some at_pos \<Rightarrow>
          let local = take at_pos val; domain = drop (Suc at_pos) val;
              domain' = (if mask_domain then str_repeat mask_char (length domain) else domain)
          in if int (length local) > keep_local then
               (if keep_local < 0 then Inl (Panic ''slice bounds out of range'')
                else Inr ((take (nat keep_local) local @ str_repeat mask_char (length local - nat keep_local)) @ ''@'' @ domain'))
             else Inr (local @ ''@'' @ domain'))"

definition truncate_text :: "string \<Rightarrow> int \<Rightarrow> string \<Rightarrow> string" where
  "truncate_text val len suffix =
     (let chars = runes val in
      if int (length chars) \<le> len then val
      else if len \<le> 0 then suffix
      else of_runes (take (nat len) chars) @ suffix)"

definition hash_md5 :: "redact_lib \<Rightarrow> string \<Rightarrow> string" where
  "hash_md5 lib val = hex_bytes (rl_md5 lib val)"

definition hash_sha1 :: "redact_lib \<Rightarrow> string \<Rightarrow> string" where
  "hash_sha1 lib val = hex_bytes (rl_sha1 lib val)"

definition hash_sha256 :: "redact_lib \<Rightarrow> string \<Rightarrow> string" where
  "hash_sha256 lib val = hex_bytes (rl_sha256 lib val)"

definition uuid_text :: "redact_lib \<Rightarrow> string \<Rightarrow> string" where
  "uuid_text lib val =
     (let d = rl_sha1 lib val; d = d[6 := (d ! 6 AND 0x0F) OR 0x50]; d = d[8 := (d ! 8 AND 0x3F) OR 0x80];
          part = (\<lambda>a b. hex_bytes (drop a (take b d)))
      in str_join [part 0 4, part 4 6, part 6 8, part 8 10, part 10 16] ''-'')"

definition ip_text :: "redact_lib \<Rightarrow> string \<Rightarrow> int \<Rightarrow> string \<Rightarrow> string res" where
  "ip_text lib val keep_octets mask_char =
     (case rl_parse_ip lib val of
        None \<Rightarrow> Inr val
      | Some (has_v4, canonical) \<Rightarrow>
          if keep_octets < 0 then Inl (Panic ''index out of range'')
          else if has_v4 then
            Inr (str_join (map (\<lambda>(i, p). if keep_octets \<le> int i \<and> i < 4 then mask_char else p) (enumerate 0 (split_byte val (CHR ''.'')))) ''.'')
          else Inr (str_join (map (\<lambda>(i, p). if keep_octets \<le> int i then mask_char else p) (enumerate 0 (split_byte canonical (CHR '':'')))) '':''))"

text \<open>The loop over the query values sets each key of the map to one value, so its order does not matter.\<close>

definition url_text :: "redact_lib \<Rightarrow> string \<Rightarrow> bool \<Rightarrow> string \<Rightarrow> string" where
  "url_text lib val mask_query mask_char =
     (case rl_parse_url lib val of
        Inl _ \<Rightarrow> val
      | Inr (query, render) \<Rightarrow>
          if mask_query \<and> query \<noteq> [] then
            let vals = rl_parse_query lib query;
                first = (\<lambda>vs. case vs of [] \<Rightarrow> [] | v # _ \<Rightarrow> v)
            in render (rl_encode_query lib (\<lambda>k. map_option (\<lambda>vs. [str_repeat mask_char (length (first vs))]) (vals k)))
          else render query)"

definition fixed_length :: "string \<Rightarrow> string \<Rightarrow> string" where
  "fixed_length val mask_char = (let mask_char = (if mask_char = [] then ''X'' else mask_char) in str_repeat mask_char (length val))"

text \<open>The cache of compiled patterns only saves work: a pattern that does not compile is not stored.\<close>

definition regex_text :: "redact_lib \<Rightarrow> string \<Rightarrow> string \<Rightarrow> string \<Rightarrow> string" where
  "regex_text lib val pattern replacement =
     (case rl_compile lib pattern of Inl _ \<Rightarrow> val | Inr replace_all \<Rightarrow> replace_all val replacement)"

definition condition :: "redact_lib \<Rightarrow> string \<Rightarrow> string \<Rightarrow> bool" where
  "condition lib env_var env_val = (let val = rl_getenv lib env_var in if env_val = [] then val \<noteq> [] else val = env_val)"

text \<open>An e-mail address with a non-negative count never panics, so \<open>SanitizeText\<close> does not.\<close>

definition sanitize_text :: "redact_lib \<Rightarrow> string \<Rightarrow> string" where
  "sanitize_text lib val =
     (if val = [] then val
      else let val = rl_sensitive lib val;
               val = rl_emails lib (\<lambda>m. case email m 2 False ''*'' of Inr s \<Rightarrow> s | Inl _ \<Rightarrow> m) val
           in rl_phones lib (\<lambda>m. mask m 3 4 ''*'') val)"

subsection \<open>Custom redactors\<close>

text \<open>A registered function may be nil.\<close>

type_synonym custom_redactors = "string \<rightharpoonup> (string \<Rightarrow> string) option"

definition register_custom_redactor :: "string \<Rightarrow> (string \<Rightarrow> string) option \<Rightarrow> custom_redactors \<Rightarrow> custom_redactors" where
  "register_custom_redactor name redactor reg = reg(name \<mapsto> redactor)"

definition has_custom_redactor :: "custom_redactors \<Rightarrow> string \<Rightarrow> bool" where
  "has_custom_redactor reg name = (case reg name of Some (Some _) \<Rightarrow> True | _ \<Rightarrow> False)"

definition apply_custom_redactor :: "custom_redactors \<Rightarrow> string \<Rightarrow> string \<Rightarrow> string" where
  "apply_custom_redactor reg name val = (case reg name of Some (Some redactor) \<Rightarrow> redactor val | _ \<Rightarrow> ''[REDACTED]'')"

subsection \<open>Bypass of internal methods\<close>

type_synonym 'ctx bypass = "'ctx \<Rightarrow> bool"

definition wrapper_check_internal :: "('ctx \<Rightarrow> bool) \<Rightarrow> 'ctx \<Rightarrow> bool" where
  "wrapper_check_internal w ctx = w ctx"

definition falsy :: "'ctx bypass" where
  "falsy ctx = False"

subsection \<open>What masking keeps\<close>

text \<open>The kept counts: never more than asked for, at least the minimum masked, no less kept than that forces, the end given up first.\<close>

lemma mask_kept_facts:
  assumes "mask_kept n kf kl mm = (a, b)"
  shows "0 \<le> a" "0 \<le> b" "a + b \<le> int n" "a \<le> max 0 kf" "b \<le> max 0 kl"
    "int n - a - b = max (int n - max 0 kf - max 0 kl) (min (max 0 mm) (int n))"
    "b = 0 \<or> a = min (max 0 kf) (int n)"
  using assms unfolding mask_kept_def Let_def by (auto split: if_split_asm simp: max_def min_def)

lemma mask_none: "mask_kept (length (runes v)) kf kl mm = (a, b) \<Longrightarrow> runes v = [] \<or> int (length (runes v)) - a - b = 0 \<Longrightarrow>
    mask_with_min v kf kl mm mask_char = v"
  by (auto simp: mask_with_min_def Let_def)

lemma mask_some: "mask_kept (length (runes v)) kf kl mm = (a, b) \<Longrightarrow> runes v \<noteq> [] \<Longrightarrow> int (length (runes v)) - a - b \<noteq> 0 \<Longrightarrow>
    mask_with_min v kf kl mm mask_char = of_runes (take (nat a) (runes v)) @ str_repeat mask_char (nat (int (length (runes v)) - a - b)) @
      of_runes (drop (length (runes v) - nat b) (runes v))"
  by (simp add: mask_with_min_def Let_def)

lemma str_repeat_char: "str_repeat (utf8_encode r) n = of_runes (replicate n r)"
  by (induction n) (simp_all add: str_repeat_def)

lemma mask_runes:
  assumes "valid_rune r" and kept: "mask_kept (length (runes v)) kf kl mm = (a, b)"
  shows "runes (mask_with_min v kf kl mm (utf8_encode r)) =
    take (nat a) (runes v) @ replicate (length (runes v) - nat a - nat b) r @ drop (length (runes v) - nat b) (runes v)"
proof -
  note facts = mask_kept_facts [OF kept]
  let ?n = "length (runes v)"
  have masked: "nat (int ?n - a - b) = ?n - nat a - nat b" using facts(1-3) by linarith
  show ?thesis
  proof (cases "runes v = [] \<or> int ?n - a - b = 0")
    case True
    then have w: "mask_with_min v kf kl mm (utf8_encode r) = v" by (rule mask_none [OF kept])
    from True have "int ?n = 0 \<or> int ?n - a - b = 0" by (simp only: of_nat_eq_0_iff length_0_conv)
    then have "int ?n - a - b = 0" using facts(1-3) by linarith
    then have "?n - nat a - nat b = 0" "?n - nat b = nat a" using facts(1-3) by linarith+
    then show ?thesis unfolding w by simp
  next
    case False
    let ?cs = "take (nat a) (runes v) @ replicate (?n - nat a - nat b) r @ drop (?n - nat b) (runes v)"
    from False kept have w: "mask_with_min v kf kl mm (utf8_encode r) = of_runes ?cs"
      by (simp add: mask_some str_repeat_char masked)
    have "list_all valid_rune ?cs"
      using runes_valid [of v] \<open>valid_rune r\<close> by (auto simp: list_all_iff dest: in_set_takeD in_set_dropD)
    then show ?thesis unfolding w by (rule runes_of_runes)
  qed
qed

lemma mask_length:
  assumes "valid_rune r"
  shows "length (runes (mask_with_min v kf kl mm (utf8_encode r))) = length (runes v)"
proof -
  obtain a b where kept: "mask_kept (length (runes v)) kf kl mm = (a, b)" by fastforce
  note facts = mask_kept_facts(1-3) [OF kept]
  have "nat a + (length (runes v) - nat a - nat b + nat b) = length (runes v)" "nat a \<le> length (runes v)" "nat b \<le> length (runes v)"
    using facts by linarith+
  then show ?thesis using mask_runes [OF assms kept] by simp
qed

text \<open>Masking what is masked changes nothing.\<close>

lemma mask_idempotent:
  assumes "valid_rune r"
  shows "mask_with_min (mask_with_min v kf kl mm (utf8_encode r)) kf kl mm (utf8_encode r) = mask_with_min v kf kl mm (utf8_encode r)" (is "?w' = ?w")
proof -
  obtain a b where kept: "mask_kept (length (runes v)) kf kl mm = (a, b)" by fastforce
  note facts = mask_kept_facts [OF kept]
  let ?n = "length (runes v)"
  show ?thesis
  proof (cases "runes v = [] \<or> int ?n - a - b = 0")
    case True
    then show ?thesis by (simp add: mask_none [OF kept])
  next
    case False
    note cs = mask_runes [OF assms kept] and len = mask_length [OF assms, of v kf kl mm]
    have "?n - nat b = nat a + (?n - nat a - nat b)" using facts(1-3) by linarith
    then have "drop (?n - nat b) (runes ?w) = drop (?n - nat b) (runes v)" "take (nat a) (runes ?w) = take (nat a) (runes v)"
      using facts(1-3) unfolding cs by simp_all
    moreover have "runes ?w \<noteq> []" using False len by (metis length_0_conv)
    moreover have kept': "mask_kept (length (runes ?w)) kf kl mm = (a, b)" unfolding len by (rule kept)
    ultimately show ?thesis
      using False mask_some [OF kept'] mask_some [OF kept] unfolding len by simp
  qed
qed

text \<open>\<open>MaskWithMin\<close> with a one-character mask replaces characters in place: the result has as many characters, at most the
  requested ones at the front and at the end are kept, everything between is the mask, at least the requested minimum (or the whole
  value) is masked and not more than the two requests leave open, and the end is given up before the front. The counts are code points, for any bytes.\<close>

theorem mask_bounds:
  assumes "valid_rune r"
  shows "\<exists>a b. let cs = runes v; n = length cs; masked = n - a - b in
    runes (mask_with_min v kf kl mm (utf8_encode r)) = take a cs @ replicate masked r @ drop (n - b) cs \<and>
    a + b \<le> n \<and> int a \<le> max 0 kf \<and> int b \<le> max 0 kl \<and>
    int masked = max (int n - max 0 kf - max 0 kl) (min (max 0 mm) (int n)) \<and>
    (b = 0 \<or> int a = min (max 0 kf) (int n))"
proof -
  obtain a b where kept: "mask_kept (length (runes v)) kf kl mm = (a, b)" by fastforce
  note facts = mask_kept_facts [OF kept]
  let ?n = "length (runes v)"
  have nat: "int (nat a) = a" "int (nat b) = b" using facts(1,2) by simp_all
  have masked: "int (?n - nat a - nat b) = int ?n - a - b" using facts(1-3) by linarith
  have "nat a + nat b \<le> ?n" "nat b = 0 \<or> int (nat a) = min (max 0 kf) (int ?n)" using facts(1,2,3,7) by linarith+
  moreover have "int (?n - nat a - nat b) = max (int ?n - max 0 kf - max 0 kl) (min (max 0 mm) (int ?n))" unfolding masked by (rule facts(6))
  moreover have "int (nat a) \<le> max 0 kf" "int (nat b) \<le> max 0 kl" unfolding nat by (rule facts)+
  ultimately show ?thesis
    unfolding Let_def using mask_runes [OF assms kept] by blast
qed

lemma mask_bounds_witness:
  "valid_rune 42 \<and> (\<exists>a b. let cs = runes ''13812345678''; n = length cs; masked = n - a - b in
    runes (mask_with_min ''13812345678'' 3 4 0 (utf8_encode 42)) = take a cs @ replicate masked 42 @ drop (n - b) cs \<and>
    a + b \<le> n \<and> int a \<le> max 0 3 \<and> int b \<le> max 0 4 \<and>
    int masked = max (int n - max 0 3 - max 0 4) (min (max 0 0) (int n)) \<and>
    (b = 0 \<or> int a = min (max 0 3) (int n)))"
proof -
  have "valid_rune 42" by (simp add: valid_rune_def)
  then show ?thesis by (intro conjI mask_bounds)
qed

end
