(* ===== verification/Redact_Policy.thy ===== *)
theory Redact_Policy
  imports Redact_Mask
begin

text \<open>
  Redaction policies (redact/redactor.go): what the request context says, the policies built from stored rules, and their application to
  the fields of protobuf messages.

  A message is a tree over descriptors. A value that Go changes in place is returned changed; an operation that panics is an error.
  A policy resolver is an identifier, so that a context can hold one; what it answers is a function of the environment.
\<close>

subsection \<open>The request context\<close>

text \<open>
  The values the package stores in a \<open>context.Context\<close>; \<open>None\<close> is a key that was never set. A nil context is \<open>None\<close> where a context is
  expected. Setting the resolver replaces the earlier one, nil (\<open>Some None\<close>) included.
\<close>

record 'r redact_ctx =
  cx_scene :: "string option"
  cx_operation :: "string option"
  cx_direction :: "nat option"
  cx_tenant :: "int option"
  cx_resolver :: "'r option option"

definition background :: "'r redact_ctx" where
  "background = \<lparr>cx_scene = None, cx_operation = None, cx_direction = None, cx_tenant = None, cx_resolver = None\<rparr>"

definition ctx_or_background :: "'r redact_ctx option \<Rightarrow> 'r redact_ctx" where
  "ctx_or_background ctx = (case ctx of None \<Rightarrow> background | Some c \<Rightarrow> c)"

definition direction_request :: nat where "direction_request = 1"
definition direction_response :: nat where "direction_response = 2"

definition with_scene :: "'r redact_ctx option \<Rightarrow> string \<Rightarrow> 'r redact_ctx" where
  "with_scene ctx scene = (ctx_or_background ctx)\<lparr>cx_scene := Some (if scene = [] then ''*'' else scene)\<rparr>"

definition scene_from_context :: "'r redact_ctx option \<Rightarrow> string" where
  "scene_from_context ctx =
     (case ctx of None \<Rightarrow> ''*''
      | Some c \<Rightarrow> (case cx_scene c of None \<Rightarrow> ''*'' | Some scene \<Rightarrow> if scene = [] then ''*'' else scene))"

definition with_operation :: "'r redact_ctx option \<Rightarrow> string \<Rightarrow> 'r redact_ctx" where
  "with_operation ctx op = (ctx_or_background ctx)\<lparr>cx_operation := Some op\<rparr>"

definition operation_from_context :: "'r redact_ctx option \<Rightarrow> string" where
  "operation_from_context ctx = (case ctx of None \<Rightarrow> [] | Some c \<Rightarrow> (case cx_operation c of None \<Rightarrow> [] | Some op \<Rightarrow> op))"

definition with_direction :: "'r redact_ctx option \<Rightarrow> nat \<Rightarrow> 'r redact_ctx" where
  "with_direction ctx d = (ctx_or_background ctx)\<lparr>cx_direction := Some d\<rparr>"

definition direction_from_context :: "'r redact_ctx option \<Rightarrow> nat" where
  "direction_from_context ctx =
     (case ctx of None \<Rightarrow> direction_response
      | Some c \<Rightarrow> (case cx_direction c of None \<Rightarrow> direction_response | Some d \<Rightarrow> if d = 0 then direction_response else d))"

definition with_tenant_id :: "'r redact_ctx option \<Rightarrow> int \<Rightarrow> 'r redact_ctx" where
  "with_tenant_id ctx tenant = (ctx_or_background ctx)\<lparr>cx_tenant := Some tenant\<rparr>"

definition redact_tenant_id_from_context :: "'r redact_ctx option \<Rightarrow> int" where
  "redact_tenant_id_from_context ctx = (case ctx of None \<Rightarrow> 0 | Some c \<Rightarrow> (case cx_tenant c of None \<Rightarrow> 0 | Some t \<Rightarrow> t))"

text \<open>\<open>WithPolicyResolver\<close> is the only setter without a fallback: \<open>context.WithValue\<close> panics on a nil parent.\<close>

definition with_policy_resolver :: "'r redact_ctx option \<Rightarrow> 'r option \<Rightarrow> 'r redact_ctx res" where
  "with_policy_resolver ctx resolver =
     (case ctx of None \<Rightarrow> Inl (Panic ''cannot create context from nil parent'') | Some c \<Rightarrow> Inr (c\<lparr>cx_resolver := Some resolver\<rparr>))"

definition policy_resolver_from_context :: "'r redact_ctx option \<Rightarrow> 'r option" where
  "policy_resolver_from_context ctx =
     (case ctx of None \<Rightarrow> None | Some c \<Rightarrow> (case cx_resolver c of None \<Rightarrow> None | Some resolver \<Rightarrow> resolver))"

subsection \<open>Values and policies\<close>

text \<open>
  A Go value of type \<open>any\<close>, with the types a protobuf scalar has. Any other type is \<open>VOther\<close> with the name of the type; the number tells the
  values of the type apart, 0 being its zero value.
\<close>

datatype gvalue =
    VNil
  | VBool bool
  | VInt32 "32 word"
  | VInt64 "64 word"
  | VUint32 "32 word"
  | VUint64 "64 word"
  | VFloat32 float64
  | VFloat64 float64
  | VString string
  | VBytes string
  | VEnum "32 word"
  | VOther string nat

text \<open>\<open>hiddenValue\<close>: the zero value of the same type.\<close>

fun hidden_value :: "gvalue \<Rightarrow> gvalue" where
  "hidden_value VNil = VNil"
| "hidden_value (VBool _) = VBool False"
| "hidden_value (VInt32 _) = VInt32 0"
| "hidden_value (VInt64 _) = VInt64 0"
| "hidden_value (VUint32 _) = VUint32 0"
| "hidden_value (VUint64 _) = VUint64 0"
| "hidden_value (VFloat32 _) = VFloat32 (Fin 0)"
| "hidden_value (VFloat64 _) = VFloat64 (Fin 0)"
| "hidden_value (VString _) = VString []"
| "hidden_value (VBytes _) = VBytes []"
| "hidden_value (VEnum _) = VEnum 0"
| "hidden_value (VOther t _) = VOther t 0"

definition policy_mode_apply_rule :: nat where "policy_mode_apply_rule = 1"
definition policy_mode_hide :: nat where "policy_mode_hide = 2"
definition policy_mode_full :: nat where "policy_mode_full = 3"

text \<open>A transformation may call a custom redactor, so it is given the registry as it is when the value is redacted.\<close>

record field_policy =
  fp_mode :: nat
  fp_transform :: "(custom_redactors \<Rightarrow> gvalue \<Rightarrow> gvalue res) option"
  fp_rule_type :: string
  fp_encrypt_algorithm :: string
  fp_rule_id :: int
  fp_rule_version :: int
  fp_fingerprint :: string

definition empty_policy :: field_policy where
  "empty_policy = \<lparr>fp_mode = 0, fp_transform = None, fp_rule_type = [], fp_encrypt_algorithm = [], fp_rule_id = 0, fp_rule_version = 0,
     fp_fingerprint = []\<rparr>"

definition policy_apply :: "custom_redactors \<Rightarrow> field_policy \<Rightarrow> gvalue \<Rightarrow> gvalue res" where
  "policy_apply reg p val =
     (if fp_mode p = policy_mode_full then Inr val
      else if fp_mode p = policy_mode_hide then Inr (hidden_value val)
      else if fp_mode p = policy_mode_apply_rule then (case fp_transform p of Some f \<Rightarrow> f reg val | None \<Rightarrow> Inr val)
      else Inr val)"

subsection \<open>Rules\<close>

text \<open>
  \<open>json.Unmarshal\<close> of a rule into a struct: \<open>null\<close> leaves every field at its zero value, an object sets the fields whose name it has, in
  whatever case, the last one winning, and \<open>null\<close> leaves a field alone. A value of the wrong type is an error, found or not in a later field.
\<close>

definition json_members :: "json \<Rightarrow> (string \<times> json) list option" where
  "json_members j = (case j of JNull \<Rightarrow> Some [] | JObj ms \<Rightarrow> Some ms | _ \<Rightarrow> None)"

fun set_members :: "(json \<Rightarrow> 'a option) \<Rightarrow> string \<Rightarrow> 'a \<Rightarrow> (string \<times> json) list \<Rightarrow> 'a option" where
  "set_members dec name x [] = Some x"
| "set_members dec name x ((k, j) # ms) =
     (if equal_fold k name \<and> j \<noteq> JNull then (case dec j of None \<Rightarrow> None | Some y \<Rightarrow> set_members dec name y ms) else set_members dec name x ms)"

definition dec_string :: "json \<Rightarrow> string option" where
  "dec_string j = (case j of JStr s \<Rightarrow> Some s | _ \<Rightarrow> None)"

definition dec_bool :: "json \<Rightarrow> bool option" where
  "dec_bool j = (case j of JBool b \<Rightarrow> Some b | _ \<Rightarrow> None)"

text \<open>A number into a \<open>uint32\<close>: \<open>strconv.ParseUint\<close> of the literal, so no sign, fraction or exponent.\<close>

definition dec_uint32 :: "json \<Rightarrow> nat option" where
  "dec_uint32 j = (case j of JNum l \<Rightarrow> (case parse_digits l of Some n \<Rightarrow> if int n < 2 ^ 32 then Some n else None | None \<Rightarrow> None) | _ \<Rightarrow> None)"

definition field_of :: "(json \<Rightarrow> 'a option) \<Rightarrow> 'a \<Rightarrow> json \<Rightarrow> string \<Rightarrow> 'a option" where
  "field_of dec zero j name = (case json_members j of None \<Rightarrow> None | Some ms \<Rightarrow> set_members dec name zero ms)"

definition str_field :: "json \<Rightarrow> string \<Rightarrow> string option" where "str_field = field_of dec_string []"
definition bool_field :: "json \<Rightarrow> string \<Rightarrow> bool option" where "bool_field = field_of dec_bool False"
definition uint_field :: "json \<Rightarrow> string \<Rightarrow> nat option" where "uint_field = field_of dec_uint32 0"

text \<open>The rules as a map from rule names to their JSON: the last of equal names wins, and \<open>null\<close> is an empty map.\<close>

definition rule_map :: "string \<Rightarrow> (string \<rightharpoonup> json) res" where
  "rule_map rule_json =
     (case json_parse rule_json of
        None \<Rightarrow> Inl (NewErr ''invalid JSON'')
      | Some j \<Rightarrow> (case json_members j of None \<Rightarrow> Inl (NewErr ''cannot unmarshal into map'') | Some ms \<Rightarrow> Inr (map_of (rev ms))))"

text \<open>The rule of a type: the name in lower case, else any name equal but for case; \<open>order\<close> is the order in which Go visits the keys of the map.\<close>

definition find_rule :: "string list \<Rightarrow> (string \<rightharpoonup> json) \<Rightarrow> string \<Rightarrow> json option" where
  "find_rule order rules rule_type =
     (case rules (to_lower rule_type) of
        Some j \<Rightarrow> Some j
      | None \<Rightarrow> (case find (\<lambda>k. k \<in> dom rules \<and> equal_fold k rule_type) order of None \<Rightarrow> None | Some k \<Rightarrow> rules k))"

definition default_char :: "string \<Rightarrow> string \<Rightarrow> string" where
  "default_char s d = (if s = [] then d else s)"

text \<open>The closures of the rules leave a value that is not a string alone.\<close>

definition on_string :: "(string \<Rightarrow> string res) \<Rightarrow> gvalue \<Rightarrow> gvalue res" where
  "on_string f val = (case val of VString s \<Rightarrow> res_bind (f s) (\<lambda>t. Inr (VString t)) | _ \<Rightarrow> Inr val)"

definition rule_error :: "string \<Rightarrow> 'a res" where
  "rule_error rule_type = Inl (WrapErr (rule_type @ '' rule is invalid'') (NewErr ''cannot unmarshal''))"

definition encrypt_rule :: "json \<Rightarrow> (custom_redactors \<Rightarrow> gvalue \<Rightarrow> gvalue res) res" where
  "encrypt_rule j =
     (case str_field j ''algorithm'' of
        None \<Rightarrow> rule_error ''ENCRYPT''
      | Some algorithm \<Rightarrow>
          if algorithm \<noteq> ''AES_GCM'' \<and> algorithm \<noteq> ''SM4_GCM'' then Inl (NewErr (''unsupported ENCRYPT algorithm: '' @ algorithm))
          else Inr (\<lambda>reg val. Inr val))"

definition mask_rule :: "json \<Rightarrow> (custom_redactors \<Rightarrow> gvalue \<Rightarrow> gvalue res) res" where
  "mask_rule j =
     (case (uint_field j ''keep_first'', uint_field j ''keep_last'', uint_field j ''min_mask'', str_field j ''mask_char'') of
        (Some kf, Some kl, Some mm, Some ch) \<Rightarrow>
          Inr (\<lambda>reg. on_string (\<lambda>s. Inr (mask_with_min s (int kf) (int kl) (int mm) (default_char ch ''*''))))
      | _ \<Rightarrow> rule_error ''MASK'')"

definition regex_rule :: "redact_lib \<Rightarrow> json \<Rightarrow> (custom_redactors \<Rightarrow> gvalue \<Rightarrow> gvalue res) res" where
  "regex_rule lib j =
     (case (str_field j ''pattern'', str_field j ''replacement'') of
        (Some pattern, Some replacement) \<Rightarrow>
          (case rl_compile lib pattern of
             Inl e \<Rightarrow> Inl (WrapErr ''REGEX rule is invalid'' e)
           | Inr _ \<Rightarrow> Inr (\<lambda>reg. on_string (\<lambda>s. Inr (regex_text lib s pattern replacement))))
      | _ \<Rightarrow> rule_error ''REGEX'')"

definition email_rule :: "json \<Rightarrow> (custom_redactors \<Rightarrow> gvalue \<Rightarrow> gvalue res) res" where
  "email_rule j =
     (case (uint_field j ''keep_local_first'', bool_field j ''mask_domain'', str_field j ''mask_char'') of
        (Some keep, Some md, Some ch) \<Rightarrow> Inr (\<lambda>reg. on_string (\<lambda>s. email s (int keep) md (default_char ch ''*'')))
      | _ \<Rightarrow> rule_error ''EMAIL'')"

definition truncate_rule :: "json \<Rightarrow> (custom_redactors \<Rightarrow> gvalue \<Rightarrow> gvalue res) res" where
  "truncate_rule j =
     (case (uint_field j ''length'', str_field j ''suffix'') of
        (Some len, Some suffix) \<Rightarrow> Inr (\<lambda>reg. on_string (\<lambda>s. Inr (truncate_text s (int len) (default_char suffix ''...''))))
      | _ \<Rightarrow> rule_error ''TRUNCATE'')"

definition hash_rule :: "redact_lib \<Rightarrow> json \<Rightarrow> (custom_redactors \<Rightarrow> gvalue \<Rightarrow> gvalue res) res" where
  "hash_rule lib j =
     (case str_field j ''algo'' of
        None \<Rightarrow> rule_error ''HASH''
      | Some algo \<Rightarrow>
          if to_upper algo = ''MD5'' then Inr (\<lambda>reg. on_string (\<lambda>s. Inr (hash_md5 lib s)))
          else if to_upper algo = ''SHA1'' then Inr (\<lambda>reg. on_string (\<lambda>s. Inr (hash_sha1 lib s)))
          else if to_upper algo = ''SHA256'' then Inr (\<lambda>reg. on_string (\<lambda>s. Inr (hash_sha256 lib s)))
          else Inl (NewErr (''unsupported HASH algorithm: '' @ algo)))"

definition ip_rule :: "redact_lib \<Rightarrow> json \<Rightarrow> (custom_redactors \<Rightarrow> gvalue \<Rightarrow> gvalue res) res" where
  "ip_rule lib j =
     (case (uint_field j ''keep_octets'', str_field j ''mask_char'') of
        (Some keep, Some ch) \<Rightarrow> Inr (\<lambda>reg. on_string (\<lambda>s. ip_text lib s (int keep) (default_char ch ''x'')))
      | _ \<Rightarrow> rule_error ''IP'')"

definition url_rule :: "redact_lib \<Rightarrow> json \<Rightarrow> (custom_redactors \<Rightarrow> gvalue \<Rightarrow> gvalue res) res" where
  "url_rule lib j =
     (case (bool_field j ''mask_query'', str_field j ''mask_char'') of
        (Some mq, Some ch) \<Rightarrow> Inr (\<lambda>reg. on_string (\<lambda>s. Inr (url_text lib s mq (default_char ch ''*''))))
      | _ \<Rightarrow> rule_error ''URL'')"

definition fixed_length_rule :: "json \<Rightarrow> (custom_redactors \<Rightarrow> gvalue \<Rightarrow> gvalue res) res" where
  "fixed_length_rule j =
     (case str_field j ''char'' of
        None \<Rightarrow> rule_error ''FIXED_LENGTH''
      | Some ch \<Rightarrow> Inr (\<lambda>reg. on_string (\<lambda>s. Inr (fixed_length s ch))))"

definition custom_rule :: "custom_redactors \<Rightarrow> json \<Rightarrow> (custom_redactors \<Rightarrow> gvalue \<Rightarrow> gvalue res) res" where
  "custom_rule reg j =
     (case str_field j ''name'' of
        None \<Rightarrow> rule_error ''CUSTOM''
      | Some name \<Rightarrow>
          if \<not> has_custom_redactor reg name then Inl (NewErr (''CUSTOM redactor is not registered: '' @ name))
          else Inr (\<lambda>reg. on_string (\<lambda>s. Inr (apply_custom_redactor reg name s))))"

definition new_rule_transform ::
  "redact_lib \<Rightarrow> custom_redactors \<Rightarrow> string list \<Rightarrow> string \<Rightarrow> string \<Rightarrow> (custom_redactors \<Rightarrow> gvalue \<Rightarrow> gvalue res) res" where
  "new_rule_transform lib reg order rule_type rule_json =
     (let rule_type = to_upper (trim_space rule_type) in
      case rule_map rule_json of
        Inl e \<Rightarrow> Inl (WrapErr ''redaction rule JSON is invalid'' e)
      | Inr rules \<Rightarrow>
          (case find_rule order rules rule_type of
             None \<Rightarrow> Inl (NewErr (''redaction rule JSON lacks '' @ rule_type))
           | Some j \<Rightarrow>
               if rule_type = ''ENCRYPT'' then encrypt_rule j
               else if rule_type = ''MASK'' then mask_rule j
               else if rule_type = ''REGEX'' then regex_rule lib j
               else if rule_type = ''EMAIL'' then email_rule j
               else if rule_type = ''TRUNCATE'' then truncate_rule j
               else if rule_type = ''HASH'' then hash_rule lib j
               else if rule_type = ''UUID'' then Inr (\<lambda>reg. on_string (\<lambda>s. Inr (uuid_text lib s)))
               else if rule_type = ''IP'' then ip_rule lib j
               else if rule_type = ''URL'' then url_rule lib j
               else if rule_type = ''FIXED_LENGTH'' then fixed_length_rule j
               else if rule_type = ''CUSTOM'' then custom_rule reg j
               else Inl (NewErr (''unsupported redaction rule type: '' @ rule_type))))"

text \<open>For \<open>ENCRYPT\<close> the algorithm is read once more, under the lower-case name only.\<close>

definition new_field_policy :: "redact_lib \<Rightarrow> custom_redactors \<Rightarrow> string list \<Rightarrow> nat \<Rightarrow> string \<Rightarrow> string \<Rightarrow> field_policy res" where
  "new_field_policy lib reg order mode rule_type rule_json =
     (if mode = policy_mode_hide \<or> mode = policy_mode_full then Inr (empty_policy\<lparr>fp_mode := mode\<rparr>)
      else if mode = policy_mode_apply_rule then
        res_bind (new_rule_transform lib reg order rule_type rule_json) (\<lambda>f.
          let policy = empty_policy\<lparr>fp_mode := mode, fp_transform := Some f, fp_rule_type := to_upper (trim_space rule_type)\<rparr>
          in if fp_rule_type policy = ''ENCRYPT'' then
               (case rule_map rule_json of
                  Inl e \<Rightarrow> Inl (WrapErr ''ENCRYPT rule is invalid'' e)
                | Inr rules \<Rightarrow>
                    (case rules ''encrypt'' of
                       None \<Rightarrow> Inl (WrapErr ''ENCRYPT rule is invalid'' (NewErr ''unexpected end of JSON input''))
                     | Some j \<Rightarrow>
                         (case str_field j ''algorithm'' of
                            None \<Rightarrow> rule_error ''ENCRYPT''
                          | Some algorithm \<Rightarrow> Inr (policy\<lparr>fp_encrypt_algorithm := algorithm\<rparr>))))
             else Inr policy)
      else Inl (NewErr (''unsupported redaction policy mode: '' @ show_nat mode)))"

subsection \<open>What rules do to a value\<close>

text \<open>A policy built from a stored rule never panics, maps strings to strings and leaves everything else alone, or hides it.\<close>

lemma email_total: "0 \<le> keep \<Longrightarrow> \<exists>t. email s keep md ch = Inr t"
  by (simp add: email_def Let_def split: option.split)

lemma ip_total: "0 \<le> keep \<Longrightarrow> \<exists>t. ip_text lib s keep ch = Inr t"
  by (auto simp: ip_text_def split: option.split)

definition string_rule :: "(custom_redactors \<Rightarrow> gvalue \<Rightarrow> gvalue res) \<Rightarrow> bool" where
  "string_rule f \<longleftrightarrow> (\<forall>reg val. \<exists>w. f reg val = Inr w \<and> hidden_value w = hidden_value val \<and> ((\<nexists>s. val = VString s) \<longrightarrow> w = val))"

lemma string_ruleI:
  assumes "\<And>reg s. \<exists>t. g reg s = Inr t"
  shows "string_rule (\<lambda>reg. on_string (g reg))"
  unfolding string_rule_def
proof (intro allI)
  fix reg val
  show "\<exists>w. on_string (g reg) val = Inr w \<and> hidden_value w = hidden_value val \<and> ((\<nexists>s. val = VString s) \<longrightarrow> w = val)"
    using assms [of reg] by (cases val) (auto simp: on_string_def, metis hidden_value.simps(9) res_bind.simps(2))
qed

lemma rule_strings:
  "encrypt_rule j = Inr f \<Longrightarrow> string_rule f"
  "mask_rule j = Inr f \<Longrightarrow> string_rule f"
  "regex_rule lib j = Inr f \<Longrightarrow> string_rule f"
  "email_rule j = Inr f \<Longrightarrow> string_rule f"
  "truncate_rule j = Inr f \<Longrightarrow> string_rule f"
  "hash_rule lib j = Inr f \<Longrightarrow> string_rule f"
  "ip_rule lib j = Inr f \<Longrightarrow> string_rule f"
  "url_rule lib j = Inr f \<Longrightarrow> string_rule f"
  "fixed_length_rule j = Inr f \<Longrightarrow> string_rule f"
  "custom_rule reg j = Inr f \<Longrightarrow> string_rule f"
  by (auto simp: encrypt_rule_def string_rule_def [of "\<lambda>reg val. Inr val"] rule_error_def split: option.split_asm if_split_asm)
    (auto simp: mask_rule_def regex_rule_def email_rule_def truncate_rule_def hash_rule_def ip_rule_def url_rule_def fixed_length_rule_def
      custom_rule_def rule_error_def split: option.split_asm sum.split_asm if_split_asm intro!: string_ruleI email_total ip_total)

lemma new_rule_transform_string:
  assumes "new_rule_transform lib reg order rule_type rule_json = Inr f"
  shows "string_rule f"
  using assms unfolding new_rule_transform_def Let_def
  by (simp split: sum.split_asm option.split_asm if_split_asm add: rule_strings) (auto intro!: string_ruleI)

text \<open>A policy that \<open>NewFieldPolicy\<close> returns never panics on a value and gives a value of the same type, which only a string can
  differ in unless the policy hides the field. So the conversion back to the field never fails, and no field is left unredacted for a
  rule of the wrong type.\<close>

theorem new_field_policy_typed:
  assumes "new_field_policy lib reg order mode rule_type rule_json = Inr p"
  shows "\<exists>w. policy_apply reg' p val = Inr w \<and> hidden_value w = hidden_value val \<and>
    (fp_mode p = policy_mode_hide \<and> w = hidden_value val \<or> w = val \<or> (\<exists>s t. val = VString s \<and> w = VString t))"
proof -
  have hidden: "hidden_value (hidden_value val) = hidden_value val" by (cases val) simp_all
  have modes: "fp_mode p = mode" "mode = policy_mode_hide \<or> mode = policy_mode_full \<or> mode = policy_mode_apply_rule"
    "mode = policy_mode_apply_rule \<Longrightarrow> \<exists>f. fp_transform p = Some f \<and> string_rule f"
    using assms unfolding new_field_policy_def rule_error_def
    by (auto simp: res_bind_Inr Let_def policy_mode_hide_def policy_mode_full_def policy_mode_apply_rule_def
      split: if_split_asm sum.split_asm option.split_asm dest: new_rule_transform_string)
  then show ?thesis
  proof (cases "mode = policy_mode_apply_rule")
    case True
    with modes obtain f where f: "fp_transform p = Some f" "string_rule f" by blast
    then obtain w where w: "f reg' val = Inr w" "hidden_value w = hidden_value val" "(\<nexists>s. val = VString s) \<longrightarrow> w = val"
      unfolding string_rule_def by metis
    have "w = val \<or> (\<exists>s t. val = VString s \<and> w = VString t)" using w(2,3) by (cases val; cases w) auto
    moreover have "policy_apply reg' p val = Inr w"
      using True modes(1) f(1) w(1) by (simp add: policy_apply_def policy_mode_hide_def policy_mode_full_def policy_mode_apply_rule_def)
    ultimately show ?thesis using w(2) by blast
  next
    case False
    then show ?thesis using modes(1,2) hidden by (auto simp: policy_apply_def policy_mode_hide_def policy_mode_full_def policy_mode_apply_rule_def)
  qed
qed

definition sample_mask_rule :: string where
  "sample_mask_rule = json_print (JObj [(''mask'', JObj [(''keep_first'', JNum ''3''), (''KEEP_LAST'', JNum ''4'')])])"

lemma sample_mask_policy:
  "\<exists>p. new_field_policy lib reg [] policy_mode_apply_rule '' mask'' sample_mask_rule = Inr p \<and> fp_mode p = policy_mode_apply_rule \<and>
     fp_transform p = Some (\<lambda>reg. on_string (\<lambda>s. Inr (mask_with_min s 3 4 0 ''*'')))"
proof -
  have parse: "json_parse sample_mask_rule = Some (JObj [(''mask'', JObj [(''keep_first'', JNum ''3''), (''KEEP_LAST'', JNum ''4'')])])"
    unfolding sample_mask_rule_def by code_simp
  have name: "to_upper (trim_space '' mask'') = ''MASK''" "to_lower ''MASK'' = ''mask''" by code_simp+
  have parts: "uint_field (JObj [(''keep_first'', JNum ''3''), (''KEEP_LAST'', JNum ''4'')]) ''keep_first'' = Some 3"
    "uint_field (JObj [(''keep_first'', JNum ''3''), (''KEEP_LAST'', JNum ''4'')]) ''keep_last'' = Some 4"
    "uint_field (JObj [(''keep_first'', JNum ''3''), (''KEEP_LAST'', JNum ''4'')]) ''min_mask'' = Some 0"
    "str_field (JObj [(''keep_first'', JNum ''3''), (''KEEP_LAST'', JNum ''4'')]) ''mask_char'' = Some []"
    by code_simp+
  show ?thesis
    unfolding new_field_policy_def new_rule_transform_def rule_map_def parse find_rule_def name Let_def
    by (simp add: json_members_def mask_rule_def parts default_char_def empty_policy_def policy_mode_apply_rule_def policy_mode_hide_def policy_mode_full_def)
qed

lemma new_field_policy_typed_witness:
  "\<forall>lib. \<exists>p w. new_field_policy lib (\<lambda>_. None) [] policy_mode_apply_rule '' mask'' sample_mask_rule = Inr p \<and>
     policy_apply (\<lambda>_. None) p (VString ''13812345678'') = Inr w \<and> hidden_value w = VString []"
proof
  fix lib
  obtain p where p: "new_field_policy lib (\<lambda>_. None) [] policy_mode_apply_rule '' mask'' sample_mask_rule = Inr p"
    using sample_mask_policy by blast
  from new_field_policy_typed [OF p, of "\<lambda>_. None" "VString ''13812345678''"]
  obtain w where "policy_apply (\<lambda>_. None) p (VString ''13812345678'') = Inr w" "hidden_value w = VString []" by auto
  with p show "\<exists>p w. new_field_policy lib (\<lambda>_. None) [] policy_mode_apply_rule '' mask'' sample_mask_rule = Inr p \<and>
     policy_apply (\<lambda>_. None) p (VString ''13812345678'') = Inr w \<and> hidden_value w = VString []" by blast
qed

end
