(* ===== verification/Redact_Message.thy ===== *)
theory Redact_Message
  imports Redact_Policy
begin

text \<open>
  Redaction of protobuf messages (redact/redactor.go, redact/stream.go): the walk of a message by its descriptors that applies a
  policy to every field, and the walk that cleans free text where no resolver is set.

  \<open>Msg name valid fields\<close> is a message with its full name, whether it is valid (a nil message is not), and its fields in the order of the
  descriptor. A singular field that is not populated is \<open>FOne None\<close>. A map is listed in the order in which Go visits it.
\<close>

subsection \<open>Messages\<close>

datatype kind =
    BoolKind | EnumKind | Int32Kind | Sint32Kind | Uint32Kind | Int64Kind | Sint64Kind | Uint64Kind | Sfixed32Kind | Fixed32Kind
  | FloatKind | Sfixed64Kind | Fixed64Kind | DoubleKind | StringKind | BytesKind | MessageKind | GroupKind

definition is_message_kind :: "kind \<Rightarrow> bool" where
  "is_message_kind k = (k = MessageKind \<or> k = GroupKind)"

text \<open>A field descriptor; \<open>fd_map\<close> is the kind of the values of a map field, \<open>fd_default\<close> what \<open>Get\<close> returns for an unpopulated scalar.\<close>

record field_desc =
  fd_name :: string
  fd_kind :: kind
  fd_list :: bool
  fd_map :: "kind option"
  fd_presence :: bool
  fd_default :: gvalue

datatype 'v pvalue = PScalar 'v | PMsg "'v pmessage"
and 'v pfield = FOne "'v pvalue option" | FList "'v pvalue list" | FMap "(gvalue \<times> 'v pvalue) list"
and 'v pmessage = Msg string bool "'v pfield list"

text \<open>The type assertions on the transformed value.\<close>

definition is_bool :: "gvalue \<Rightarrow> bool" where "is_bool v = (case v of VBool _ \<Rightarrow> True | _ \<Rightarrow> False)"
definition is_int32 :: "gvalue \<Rightarrow> bool" where "is_int32 v = (case v of VInt32 _ \<Rightarrow> True | _ \<Rightarrow> False)"
definition is_int64 :: "gvalue \<Rightarrow> bool" where "is_int64 v = (case v of VInt64 _ \<Rightarrow> True | _ \<Rightarrow> False)"
definition is_uint32 :: "gvalue \<Rightarrow> bool" where "is_uint32 v = (case v of VUint32 _ \<Rightarrow> True | _ \<Rightarrow> False)"
definition is_uint64 :: "gvalue \<Rightarrow> bool" where "is_uint64 v = (case v of VUint64 _ \<Rightarrow> True | _ \<Rightarrow> False)"
definition is_float32 :: "gvalue \<Rightarrow> bool" where "is_float32 v = (case v of VFloat32 _ \<Rightarrow> True | _ \<Rightarrow> False)"
definition is_float64 :: "gvalue \<Rightarrow> bool" where "is_float64 v = (case v of VFloat64 _ \<Rightarrow> True | _ \<Rightarrow> False)"
definition is_string :: "gvalue \<Rightarrow> bool" where "is_string v = (case v of VString _ \<Rightarrow> True | _ \<Rightarrow> False)"
definition is_bytes :: "gvalue \<Rightarrow> bool" where "is_bytes v = (case v of VBytes _ \<Rightarrow> True | _ \<Rightarrow> False)"
definition is_enum :: "gvalue \<Rightarrow> bool" where "is_enum v = (case v of VEnum _ \<Rightarrow> True | _ \<Rightarrow> False)"

lemmas assertion_defs = is_bool_def is_int32_def is_int64_def is_uint32_def is_uint64_def is_float32_def is_float64_def is_string_def is_bytes_def is_enum_def

definition assert_value :: "(gvalue \<Rightarrow> bool) \<Rightarrow> gvalue \<Rightarrow> gvalue option" where
  "assert_value is_type v = (if is_type v then Some v else None)"

text \<open>\<open>dynamicReflectValue\<close>: the conversion of a transformed value back to the kind of its field.\<close>

definition dynamic_reflect_value :: "kind \<Rightarrow> gvalue \<Rightarrow> gvalue option" where
  "dynamic_reflect_value k v =
     (case k of
        BoolKind \<Rightarrow> assert_value is_bool v
      | Int32Kind \<Rightarrow> assert_value is_int32 v
      | Sint32Kind \<Rightarrow> assert_value is_int32 v
      | Sfixed32Kind \<Rightarrow> assert_value is_int32 v
      | Int64Kind \<Rightarrow> assert_value is_int64 v
      | Sint64Kind \<Rightarrow> assert_value is_int64 v
      | Sfixed64Kind \<Rightarrow> assert_value is_int64 v
      | Uint32Kind \<Rightarrow> assert_value is_uint32 v
      | Fixed32Kind \<Rightarrow> assert_value is_uint32 v
      | Uint64Kind \<Rightarrow> assert_value is_uint64 v
      | Fixed64Kind \<Rightarrow> assert_value is_uint64 v
      | FloatKind \<Rightarrow> assert_value is_float32 v
      | DoubleKind \<Rightarrow> assert_value is_float64 v
      | StringKind \<Rightarrow> assert_value is_string v
      | BytesKind \<Rightarrow> assert_value is_bytes v
      | EnumKind \<Rightarrow> assert_value is_enum v
      | MessageKind \<Rightarrow> None
      | GroupKind \<Rightarrow> None)"

subsection \<open>The environment\<close>

text \<open>
  The descriptors by full name; what the resolvers answer; the registry of custom redactors; the methods \<open>Redact\<close> and \<open>RedactWith\<close> of the
  types that have them, for messages by full name and for other values.
\<close>

record 'r redact_env =
  re_lib :: redact_lib
  re_custom :: custom_redactors
  re_fields :: "string \<Rightarrow> field_desc list"
  re_resolve :: "'r \<Rightarrow> 'r redact_ctx option \<Rightarrow> string \<Rightarrow> field_policy option"
  re_redact_msg :: "string \<Rightarrow> (gvalue pmessage \<Rightarrow> gvalue pmessage res) option"
  re_redact_with_msg :: "string \<Rightarrow> ('r redact_ctx option \<Rightarrow> 'r \<Rightarrow> gvalue pmessage \<Rightarrow> gvalue pmessage res) option"
  re_redact_other :: "gvalue \<Rightarrow> gvalue res option"
  re_redact_with_other :: "gvalue \<Rightarrow> ('r redact_ctx option \<Rightarrow> 'r \<Rightarrow> gvalue res) option"

datatype redact_input = InMessage "gvalue pmessage" | InOther gvalue

fun msg_name :: "'v pmessage \<Rightarrow> string" where "msg_name (Msg n _ _) = n"
fun msg_valid :: "'v pmessage \<Rightarrow> bool" where "msg_valid (Msg _ v _) = v"
fun msg_fields :: "'v pmessage \<Rightarrow> 'v pfield list" where "msg_fields (Msg _ _ fs) = fs"

definition apply_redactor :: "'r redact_env \<Rightarrow> redact_input \<Rightarrow> redact_input res" where
  "apply_redactor env x =
     (case x of
        InMessage m \<Rightarrow> (case re_redact_msg env (msg_name m) of None \<Rightarrow> Inr x | Some f \<Rightarrow> res_bind (f m) (\<lambda>m'. Inr (InMessage m')))
      | InOther v \<Rightarrow> (case re_redact_other env v of None \<Rightarrow> Inr x | Some r \<Rightarrow> res_bind r (\<lambda>v'. Inr (InOther v'))))"

definition type_mismatch :: go_err where "type_mismatch = Panic ''type mismatch''"

definition apply_dynamic :: "'r redact_env \<Rightarrow> 'r redact_ctx option \<Rightarrow> 'r option \<Rightarrow> string \<Rightarrow> gvalue \<Rightarrow> (gvalue \<times> bool) res" where
  "apply_dynamic env ctx resolver field_ref val =
     (case resolver of
        None \<Rightarrow> Inr (val, False)
      | Some r \<Rightarrow>
          (case re_resolve env r ctx field_ref of
             None \<Rightarrow> Inr (val, False)
           | Some policy \<Rightarrow> res_bind (policy_apply (re_custom env) policy val) (\<lambda>w. Inr (w, True))))"

text \<open>What the walk stores for a scalar: the old value when no policy applies or its result does not have the kind of the field.\<close>

definition redact_scalar :: "'r redact_env \<Rightarrow> 'r redact_ctx option \<Rightarrow> 'r option \<Rightarrow> string \<Rightarrow> kind \<Rightarrow> gvalue \<Rightarrow> gvalue res" where
  "redact_scalar env ctx resolver field_ref k val =
     res_bind (apply_dynamic env ctx resolver field_ref val) (\<lambda>(w, applied).
       if applied then (case dynamic_reflect_value k w of None \<Rightarrow> Inr val | Some c \<Rightarrow> Inr c) else Inr val)"

text \<open>The context of a message: with the tenant of its \<open>tenant_id\<close>, when that is an \<open>int64\<close> above zero. Reading a list as an integer panics.\<close>

definition tenant_context :: "'r redact_ctx option \<Rightarrow> field_desc list \<Rightarrow> gvalue pfield list \<Rightarrow> 'r redact_ctx option res" where
  "tenant_context ctx fds fs =
     (case find (\<lambda>(fd, f). fd_name fd = ''tenant_id'') (zip fds fs) of
        None \<Rightarrow> Inr ctx
      | Some (fd, f) \<Rightarrow>
          if fd_kind fd \<noteq> Int64Kind then Inr ctx
          else (case (case f of FOne None \<Rightarrow> Some (fd_default fd) | FOne (Some (PScalar v)) \<Rightarrow> Some v | _ \<Rightarrow> None) of
                  Some (VInt64 t) \<Rightarrow> Inr (if sint t > 0 then Some (with_tenant_id ctx (sint t)) else ctx)
                | _ \<Rightarrow> Inl type_mismatch))"

definition field_ref_of :: "string \<Rightarrow> field_desc \<Rightarrow> string" where
  "field_ref_of name fd = name @ ''.'' @ fd_name fd"

subsection \<open>The walks\<close>

text \<open>\<open>ApplyWith\<close> below the top, where the resolver is set, and \<open>applyDynamicMessage\<close> with its loops over fields, list elements and map entries.\<close>

function apply_with_msg :: "'r redact_env \<Rightarrow> 'r redact_ctx option \<Rightarrow> 'r \<Rightarrow> gvalue pmessage \<Rightarrow> gvalue pmessage res"
  and apply_dynamic_fields :: "'r redact_env \<Rightarrow> 'r redact_ctx option \<Rightarrow> 'r \<Rightarrow> string \<Rightarrow> field_desc list \<Rightarrow> gvalue pfield list \<Rightarrow> gvalue pfield list res"
  and apply_dynamic_field :: "'r redact_env \<Rightarrow> 'r redact_ctx option \<Rightarrow> 'r \<Rightarrow> string \<Rightarrow> field_desc \<Rightarrow> gvalue pfield \<Rightarrow> gvalue pfield res"
  and apply_dynamic_value :: "'r redact_env \<Rightarrow> 'r redact_ctx option \<Rightarrow> 'r \<Rightarrow> string \<Rightarrow> kind \<Rightarrow> gvalue pvalue \<Rightarrow> gvalue pvalue res"
  and apply_dynamic_list :: "'r redact_env \<Rightarrow> 'r redact_ctx option \<Rightarrow> 'r \<Rightarrow> string \<Rightarrow> kind \<Rightarrow> gvalue pvalue list \<Rightarrow> gvalue pvalue list res"
  and apply_dynamic_map :: "'r redact_env \<Rightarrow> 'r redact_ctx option \<Rightarrow> 'r \<Rightarrow> string \<Rightarrow> kind \<Rightarrow> (gvalue \<times> gvalue pvalue) list \<Rightarrow> (gvalue \<times> gvalue pvalue) list res" where
  "apply_with_msg env ctx r (Msg name valid fs) =
     (case re_redact_with_msg env name of
        Some f \<Rightarrow> f ctx r (Msg name valid fs)
      | None \<Rightarrow>
          if \<not> valid then Inr (Msg name valid fs)
          else res_bind (tenant_context ctx (re_fields env name) fs) (\<lambda>ctx'.
            res_bind (apply_dynamic_fields env ctx' r name (re_fields env name) fs) (\<lambda>fs'. Inr (Msg name valid fs'))))"
| "apply_dynamic_fields env ctx r name [] fs = Inr fs"
| "apply_dynamic_fields env ctx r name (fd # fds) [] = Inl type_mismatch"
| "apply_dynamic_fields env ctx r name (fd # fds) (f # fs) =
     res_bind (apply_dynamic_field env ctx r name fd f) (\<lambda>f'.
       res_bind (apply_dynamic_fields env ctx r name fds fs) (\<lambda>fs'. Inr (f' # fs')))"
| "apply_dynamic_field env ctx r name fd f =
     (case fd_map fd of
        Some k \<Rightarrow> (case f of FMap kvs \<Rightarrow> res_bind (apply_dynamic_map env ctx r (field_ref_of name fd) k kvs) (\<lambda>kvs'. Inr (FMap kvs')) | _ \<Rightarrow> Inl type_mismatch)
      | None \<Rightarrow>
          if fd_list fd then
            (case f of FList vs \<Rightarrow> res_bind (apply_dynamic_list env ctx r (field_ref_of name fd) (fd_kind fd) vs) (\<lambda>vs'. Inr (FList vs')) | _ \<Rightarrow> Inl type_mismatch)
          else (case f of
              FOne None \<Rightarrow>
                if is_message_kind (fd_kind fd) \<or> fd_presence fd then Inr f
                else res_bind (redact_scalar env ctx (Some r) (field_ref_of name fd) (fd_kind fd) (fd_default fd)) (\<lambda>w. Inr (FOne (Some (PScalar w))))
            | FOne (Some v) \<Rightarrow> res_bind (apply_dynamic_value env ctx r (field_ref_of name fd) (fd_kind fd) v) (\<lambda>v'. Inr (FOne (Some v')))
            | _ \<Rightarrow> Inl type_mismatch))"
| "apply_dynamic_value env ctx r field_ref k (PMsg m) =
     (if is_message_kind k then res_bind (apply_with_msg env ctx r m) (\<lambda>m'. Inr (PMsg m')) else Inl type_mismatch)"
| "apply_dynamic_value env ctx r field_ref k (PScalar v) =
     (if is_message_kind k then Inl type_mismatch else res_bind (redact_scalar env ctx (Some r) field_ref k v) (\<lambda>w. Inr (PScalar w)))"
| "apply_dynamic_list env ctx r field_ref k [] = Inr []"
| "apply_dynamic_list env ctx r field_ref k (v # vs) =
     res_bind (apply_dynamic_value env ctx r field_ref k v) (\<lambda>v'.
       res_bind (apply_dynamic_list env ctx r field_ref k vs) (\<lambda>vs'. Inr (v' # vs')))"
| "apply_dynamic_map env ctx r field_ref k [] = Inr []"
| "apply_dynamic_map env ctx r field_ref k ((key, v) # kvs) =
     res_bind (apply_dynamic_value env ctx r field_ref k v) (\<lambda>v'.
       res_bind (apply_dynamic_map env ctx r field_ref k kvs) (\<lambda>kvs'. Inr ((key, v') # kvs')))"
  by pat_completeness auto
termination
  by (relation "measure (\<lambda>x. case x of
      Inl (Inl (_, _, _, m)) \<Rightarrow> size m
    | Inl (Inr (Inl (_, _, _, _, fds, fs))) \<Rightarrow> size_list size fs
    | Inl (Inr (Inr (_, _, _, _, _, f))) \<Rightarrow> size f
    | Inr (Inl (_, _, _, _, _, v)) \<Rightarrow> size v
    | Inr (Inr (Inl (_, _, _, _, _, vs))) \<Rightarrow> size_list size vs
    | Inr (Inr (Inr (_, _, _, _, _, kvs))) \<Rightarrow> size_list (size_prod (\<lambda>_. 0) size) kvs)") auto

text \<open>\<open>sanitizeFreeTextMessage\<close> and \<open>sanitizeFreeTextMap\<close>: strings are cleaned wherever they are, whatever the field is called.\<close>

definition sanitize_scalar :: "redact_lib \<Rightarrow> kind \<Rightarrow> gvalue \<Rightarrow> gvalue res" where
  "sanitize_scalar lib k v =
     (if k = StringKind then (case v of VString s \<Rightarrow> Inr (VString (sanitize_text lib s)) | _ \<Rightarrow> Inl type_mismatch) else Inr v)"

function sanitize_msg :: "redact_lib \<Rightarrow> (string \<Rightarrow> field_desc list) \<Rightarrow> gvalue pmessage \<Rightarrow> gvalue pmessage res"
  and sanitize_fields :: "redact_lib \<Rightarrow> (string \<Rightarrow> field_desc list) \<Rightarrow> field_desc list \<Rightarrow> gvalue pfield list \<Rightarrow> gvalue pfield list res"
  and sanitize_field :: "redact_lib \<Rightarrow> (string \<Rightarrow> field_desc list) \<Rightarrow> field_desc \<Rightarrow> gvalue pfield \<Rightarrow> gvalue pfield res"
  and sanitize_value :: "redact_lib \<Rightarrow> (string \<Rightarrow> field_desc list) \<Rightarrow> kind \<Rightarrow> gvalue pvalue \<Rightarrow> gvalue pvalue res"
  and sanitize_list :: "redact_lib \<Rightarrow> (string \<Rightarrow> field_desc list) \<Rightarrow> kind \<Rightarrow> gvalue pvalue list \<Rightarrow> gvalue pvalue list res"
  and sanitize_map :: "redact_lib \<Rightarrow> (string \<Rightarrow> field_desc list) \<Rightarrow> kind \<Rightarrow> (gvalue \<times> gvalue pvalue) list \<Rightarrow> (gvalue \<times> gvalue pvalue) list res" where
  "sanitize_msg lib D (Msg name valid fs) =
     (if \<not> valid then Inr (Msg name valid fs) else res_bind (sanitize_fields lib D (D name) fs) (\<lambda>fs'. Inr (Msg name valid fs')))"
| "sanitize_fields lib D [] fs = Inr fs"
| "sanitize_fields lib D (fd # fds) [] = Inl type_mismatch"
| "sanitize_fields lib D (fd # fds) (f # fs) =
     res_bind (sanitize_field lib D fd f) (\<lambda>f'. res_bind (sanitize_fields lib D fds fs) (\<lambda>fs'. Inr (f' # fs')))"
| "sanitize_field lib D fd f =
     (case fd_map fd of
        Some k \<Rightarrow> (case f of FMap kvs \<Rightarrow> res_bind (sanitize_map lib D k kvs) (\<lambda>kvs'. Inr (FMap kvs')) | _ \<Rightarrow> Inl type_mismatch)
      | None \<Rightarrow>
          if fd_list fd then
            (case f of FList vs \<Rightarrow> res_bind (sanitize_list lib D (fd_kind fd) vs) (\<lambda>vs'. Inr (FList vs')) | _ \<Rightarrow> Inl type_mismatch)
          else (case f of
              FOne None \<Rightarrow>
                if is_message_kind (fd_kind fd) \<or> fd_kind fd \<noteq> StringKind \<or> fd_presence fd then Inr f
                else res_bind (sanitize_scalar lib StringKind (fd_default fd)) (\<lambda>w. Inr (FOne (Some (PScalar w))))
            | FOne (Some v) \<Rightarrow> res_bind (sanitize_value lib D (fd_kind fd) v) (\<lambda>v'. Inr (FOne (Some v')))
            | _ \<Rightarrow> Inl type_mismatch))"
| "sanitize_value lib D k (PMsg m) = (if is_message_kind k then res_bind (sanitize_msg lib D m) (\<lambda>m'. Inr (PMsg m')) else Inl type_mismatch)"
| "sanitize_value lib D k (PScalar v) = (if is_message_kind k then Inl type_mismatch else res_bind (sanitize_scalar lib k v) (\<lambda>w. Inr (PScalar w)))"
| "sanitize_list lib D k [] = Inr []"
| "sanitize_list lib D k (v # vs) = res_bind (sanitize_value lib D k v) (\<lambda>v'. res_bind (sanitize_list lib D k vs) (\<lambda>vs'. Inr (v' # vs')))"
| "sanitize_map lib D k [] = Inr []"
| "sanitize_map lib D k ((key, v) # kvs) =
     res_bind (sanitize_value lib D k v) (\<lambda>v'. res_bind (sanitize_map lib D k kvs) (\<lambda>kvs'. Inr ((key, v') # kvs')))"
  by pat_completeness auto
termination
  by (relation "measure (\<lambda>x. case x of
      Inl (Inl (_, _, m)) \<Rightarrow> size m
    | Inl (Inr (Inl (_, _, fds, fs))) \<Rightarrow> size_list size fs
    | Inl (Inr (Inr (_, _, _, f))) \<Rightarrow> size f
    | Inr (Inl (_, _, _, v)) \<Rightarrow> size v
    | Inr (Inr (Inl (_, _, _, vs))) \<Rightarrow> size_list size vs
    | Inr (Inr (Inr (_, _, _, kvs))) \<Rightarrow> size_list (size_prod (\<lambda>_. 0) size) kvs)") auto

subsection \<open>Entry points\<close>

text \<open>
  \<open>ApplyWith\<close>: the explicit resolver, else the resolver of the context; with neither, the rules of the message itself and then the cleaning
  of free text.
\<close>

definition apply_with :: "'r redact_env \<Rightarrow> 'r redact_ctx option \<Rightarrow> 'r option \<Rightarrow> redact_input \<Rightarrow> redact_input res" where
  "apply_with env ctx resolver x =
     (case (case resolver of None \<Rightarrow> policy_resolver_from_context ctx | Some r \<Rightarrow> Some r) of
        None \<Rightarrow>
          res_bind (apply_redactor env x) (\<lambda>x'.
            case x' of
              InMessage m \<Rightarrow> res_bind (sanitize_msg (re_lib env) (re_fields env) m) (\<lambda>m'. Inr (InMessage m'))
            | InOther v \<Rightarrow> Inr x')
      | Some r \<Rightarrow>
          (case x of
             InMessage m \<Rightarrow> res_bind (apply_with_msg env ctx r m) (\<lambda>m'. Inr (InMessage m'))
           | InOther v \<Rightarrow>
               (case re_redact_with_other env v of
                  Some f \<Rightarrow> res_bind (f ctx r) (\<lambda>v'. Inr (InOther v'))
                | None \<Rightarrow> apply_redactor env x)))"

text \<open>The stream wrappers redact what they send, as a response of their operation. The second part is what reached the stream.\<close>

record 'r stream_redactor =
  sr_ctx :: "'r redact_ctx option"
  sr_resolver :: "'r option"
  sr_operation :: string
  sr_send :: "redact_input \<Rightarrow> go_err option"

definition redact_and_send :: "'r redact_env \<Rightarrow> 'r stream_redactor \<Rightarrow> redact_input \<Rightarrow> go_err option \<times> redact_input list" where
  "redact_and_send env s msg =
     (let ctx = with_direction (Some (with_operation (sr_ctx s) (sr_operation s))) direction_response in
      case apply_with env (Some ctx) (sr_resolver s) msg of
        Inl e \<Rightarrow> (Some e, [])
      | Inr msg' \<Rightarrow> (sr_send s msg', [msg']))"

definition server_stream_send :: "'r redact_env \<Rightarrow> 'r stream_redactor \<Rightarrow> redact_input \<Rightarrow> go_err option \<times> redact_input list" where
  "server_stream_send env s msg = redact_and_send env s msg"

definition bidi_stream_send :: "'r redact_env \<Rightarrow> 'r stream_redactor \<Rightarrow> redact_input \<Rightarrow> go_err option \<times> redact_input list" where
  "bidi_stream_send env s msg = redact_and_send env s msg"

definition client_stream_send_and_close :: "'r redact_env \<Rightarrow> 'r stream_redactor \<Rightarrow> redact_input \<Rightarrow> go_err option \<times> redact_input list" where
  "client_stream_send_and_close env s msg = redact_and_send env s msg"

end
