(* ===== verification/Redact_Walk.thy ===== *)
theory Redact_Walk
  imports Redact_Message
begin

text \<open>
  What the redaction of a message amounts to: its type is kept, and its scalars are replaced one by one.

  \<open>msg_ok\<close> says that a message fits its descriptors, \<open>shape\<close> is the message with every scalar set to zero, and \<open>msg_leaves\<close> lists
  the scalars in the order of the walk, each with the context, the reference and the kind under which its policy is looked up.
\<close>

subsection \<open>Well-typed messages\<close>

definition has_kind :: "kind \<Rightarrow> gvalue \<Rightarrow> bool" where
  "has_kind k v = (dynamic_reflect_value k v \<noteq> None)"

text \<open>A scalar field without presence always holds a value.\<close>

function msg_ok :: "(string \<Rightarrow> field_desc list) \<Rightarrow> gvalue pmessage \<Rightarrow> bool"
  and fields_ok :: "(string \<Rightarrow> field_desc list) \<Rightarrow> field_desc list \<Rightarrow> gvalue pfield list \<Rightarrow> bool"
  and field_ok :: "(string \<Rightarrow> field_desc list) \<Rightarrow> field_desc \<Rightarrow> gvalue pfield \<Rightarrow> bool"
  and value_ok :: "(string \<Rightarrow> field_desc list) \<Rightarrow> kind \<Rightarrow> gvalue pvalue \<Rightarrow> bool"
  and list_ok :: "(string \<Rightarrow> field_desc list) \<Rightarrow> kind \<Rightarrow> gvalue pvalue list \<Rightarrow> bool"
  and map_ok :: "(string \<Rightarrow> field_desc list) \<Rightarrow> kind \<Rightarrow> (gvalue \<times> gvalue pvalue) list \<Rightarrow> bool" where
  "msg_ok D (Msg name valid fs) = (valid \<longrightarrow> fields_ok D (D name) fs)"
| "fields_ok D [] fs = (fs = [])"
| "fields_ok D (fd # fds) [] = False"
| "fields_ok D (fd # fds) (f # fs) = (field_ok D fd f \<and> fields_ok D fds fs)"
| "field_ok D fd f =
     (case fd_map fd of
        Some k \<Rightarrow> (case f of FMap kvs \<Rightarrow> map_ok D k kvs | _ \<Rightarrow> False)
      | None \<Rightarrow>
          if fd_list fd then (case f of FList vs \<Rightarrow> list_ok D (fd_kind fd) vs | _ \<Rightarrow> False)
          else (case f of
              FOne None \<Rightarrow> is_message_kind (fd_kind fd) \<or> fd_presence fd
            | FOne (Some v) \<Rightarrow> value_ok D (fd_kind fd) v
            | _ \<Rightarrow> False))"
| "value_ok D k (PMsg m) = (is_message_kind k \<and> msg_ok D m)"
| "value_ok D k (PScalar v) = (\<not> is_message_kind k \<and> has_kind k v)"
| "list_ok D k [] = True"
| "list_ok D k (v # vs) = (value_ok D k v \<and> list_ok D k vs)"
| "map_ok D k [] = True"
| "map_ok D k ((key, v) # kvs) = (value_ok D k v \<and> map_ok D k kvs)"
  by pat_completeness auto
termination
  by (relation "measure (\<lambda>x. case x of
      Inl (Inl (_, m)) \<Rightarrow> size m
    | Inl (Inr (Inl (_, fds, fs))) \<Rightarrow> size_list size fs
    | Inl (Inr (Inr (_, _, f))) \<Rightarrow> size f
    | Inr (Inl (_, _, v)) \<Rightarrow> size v
    | Inr (Inr (Inl (_, _, vs))) \<Rightarrow> size_list size vs
    | Inr (Inr (Inr (_, _, kvs))) \<Rightarrow> size_list (size_prod (\<lambda>_. 0) size) kvs)") auto

definition shape :: "gvalue pmessage \<Rightarrow> gvalue pmessage" where
  "shape = map_pmessage hidden_value"

subsection \<open>The scalars of a message\<close>

type_synonym 'r leaf = "'r redact_ctx option \<times> string \<times> kind \<times> gvalue"

text \<open>Nothing of an invalid message is visited, and a message with a \<open>RedactWith\<close> of its own sees to itself.\<close>

function msg_leaves :: "'r redact_env \<Rightarrow> 'r redact_ctx option \<Rightarrow> gvalue pmessage \<Rightarrow> 'r leaf list"
  and fields_leaves :: "'r redact_env \<Rightarrow> 'r redact_ctx option \<Rightarrow> string \<Rightarrow> field_desc list \<Rightarrow> gvalue pfield list \<Rightarrow> 'r leaf list"
  and field_leaves :: "'r redact_env \<Rightarrow> 'r redact_ctx option \<Rightarrow> string \<Rightarrow> field_desc \<Rightarrow> gvalue pfield \<Rightarrow> 'r leaf list"
  and value_leaves :: "'r redact_env \<Rightarrow> 'r redact_ctx option \<Rightarrow> string \<Rightarrow> kind \<Rightarrow> gvalue pvalue \<Rightarrow> 'r leaf list"
  and list_leaves :: "'r redact_env \<Rightarrow> 'r redact_ctx option \<Rightarrow> string \<Rightarrow> kind \<Rightarrow> gvalue pvalue list \<Rightarrow> 'r leaf list"
  and map_leaves :: "'r redact_env \<Rightarrow> 'r redact_ctx option \<Rightarrow> string \<Rightarrow> kind \<Rightarrow> (gvalue \<times> gvalue pvalue) list \<Rightarrow> 'r leaf list" where
  "msg_leaves env ctx (Msg name valid fs) =
     (if re_redact_with_msg env name \<noteq> None \<or> \<not> valid then []
      else case tenant_context ctx (re_fields env name) fs of
        Inl _ \<Rightarrow> []
      | Inr ctx' \<Rightarrow> fields_leaves env ctx' name (re_fields env name) fs)"
| "fields_leaves env ctx name (fd # fds) (f # fs) = field_leaves env ctx name fd f @ fields_leaves env ctx name fds fs"
| "fields_leaves env ctx name [] fs = []"
| "fields_leaves env ctx name fds [] = []"
| "field_leaves env ctx name fd (FMap kvs) = (case fd_map fd of Some k \<Rightarrow> map_leaves env ctx (field_ref_of name fd) k kvs | None \<Rightarrow> [])"
| "field_leaves env ctx name fd (FList vs) = list_leaves env ctx (field_ref_of name fd) (fd_kind fd) vs"
| "field_leaves env ctx name fd (FOne None) = []"
| "field_leaves env ctx name fd (FOne (Some v)) = value_leaves env ctx (field_ref_of name fd) (fd_kind fd) v"
| "value_leaves env ctx field_ref k (PMsg m) = msg_leaves env ctx m"
| "value_leaves env ctx field_ref k (PScalar v) = [(ctx, field_ref, k, v)]"
| "list_leaves env ctx field_ref k [] = []"
| "list_leaves env ctx field_ref k (v # vs) = value_leaves env ctx field_ref k v @ list_leaves env ctx field_ref k vs"
| "map_leaves env ctx field_ref k [] = []"
| "map_leaves env ctx field_ref k ((key, v) # kvs) = value_leaves env ctx field_ref k v @ map_leaves env ctx field_ref k kvs"
  by pat_completeness auto
termination
  by (relation "measure (\<lambda>x. case x of
      Inl (Inl (_, _, m)) \<Rightarrow> size m
    | Inl (Inr (Inl (_, _, _, fds, fs))) \<Rightarrow> size_list size fs
    | Inl (Inr (Inr (_, _, _, _, f))) \<Rightarrow> size f
    | Inr (Inl (_, _, _, _, v)) \<Rightarrow> size v
    | Inr (Inr (Inl (_, _, _, _, vs))) \<Rightarrow> size_list size vs
    | Inr (Inr (Inr (_, _, _, _, kvs))) \<Rightarrow> size_list (size_prod (\<lambda>_. 0) size) kvs)") auto

text \<open>What becomes of a scalar, and how the scalars of the result are compared with it.\<close>

definition leaf_result :: "'r redact_env \<Rightarrow> 'r \<Rightarrow> 'r leaf \<Rightarrow> string \<times> gvalue" where
  "leaf_result env r = (\<lambda>(ctx, field_ref, k, v). (field_ref, case redact_scalar env ctx (Some r) field_ref k v of Inr w \<Rightarrow> w | Inl _ \<Rightarrow> v))"

definition leaf_value :: "'r leaf \<Rightarrow> string \<times> gvalue" where
  "leaf_value = (\<lambda>(ctx, field_ref, k, v). (field_ref, v))"

subsection \<open>Well-behaved environments\<close>

text \<open>No message type has a repeated \<open>tenant_id\<close> of integers, whose reading panics.\<close>

definition schema_ok :: "(string \<Rightarrow> field_desc list) \<Rightarrow> bool" where
  "schema_ok D \<longleftrightarrow> (\<forall>name. \<forall>fd \<in> set (D name).
     (fd_name fd = ''tenant_id'' \<and> fd_kind fd = Int64Kind \<longrightarrow> \<not> fd_list fd \<and> fd_map fd = None) \<and>
     (\<not> is_message_kind (fd_kind fd) \<longrightarrow> has_kind (fd_kind fd) (fd_default fd)))"

text \<open>The policies of the resolver do not panic, and the message types with a \<open>RedactWith\<close> of their own keep a message well typed and in shape.\<close>

definition well_behaved :: "'r redact_env \<Rightarrow> 'r \<Rightarrow> bool" where
  "well_behaved env r \<longleftrightarrow> schema_ok (re_fields env) \<and>
     (\<forall>ctx field_ref p v. re_resolve env r ctx field_ref = Some p \<longrightarrow> is_ok (policy_apply (re_custom env) p v)) \<and>
     (\<forall>name f ctx m. re_redact_with_msg env name = Some f \<and> msg_name m = name \<and> msg_ok (re_fields env) m \<longrightarrow>
        (\<exists>m'. f ctx r m = Inr m' \<and> msg_ok (re_fields env) m' \<and> shape m' = shape m))"

subsection \<open>Lemmas\<close>

lemma assert_value_Some: "assert_value P v = Some w \<longleftrightarrow> w = v \<and> P v"
  by (auto simp: assert_value_def)

lemma reflect_Some: "dynamic_reflect_value k v = Some w \<Longrightarrow> w = v"
  by (cases k) (simp_all add: dynamic_reflect_value_def assert_value_Some)

lemma assertion_hidden:
  "is_bool v \<Longrightarrow> is_bool w \<Longrightarrow> hidden_value v = hidden_value w"
  "is_int32 v \<Longrightarrow> is_int32 w \<Longrightarrow> hidden_value v = hidden_value w"
  "is_int64 v \<Longrightarrow> is_int64 w \<Longrightarrow> hidden_value v = hidden_value w"
  "is_uint32 v \<Longrightarrow> is_uint32 w \<Longrightarrow> hidden_value v = hidden_value w"
  "is_uint64 v \<Longrightarrow> is_uint64 w \<Longrightarrow> hidden_value v = hidden_value w"
  "is_float32 v \<Longrightarrow> is_float32 w \<Longrightarrow> hidden_value v = hidden_value w"
  "is_float64 v \<Longrightarrow> is_float64 w \<Longrightarrow> hidden_value v = hidden_value w"
  "is_string v \<Longrightarrow> is_string w \<Longrightarrow> hidden_value v = hidden_value w"
  "is_bytes v \<Longrightarrow> is_bytes w \<Longrightarrow> hidden_value v = hidden_value w"
  "is_enum v \<Longrightarrow> is_enum w \<Longrightarrow> hidden_value v = hidden_value w"
  by (simp_all add: assertion_defs split: gvalue.split_asm)

lemma has_kind_hidden: "has_kind k v \<Longrightarrow> has_kind k w \<Longrightarrow> hidden_value v = hidden_value w"
  by (cases k) (auto simp: has_kind_def dynamic_reflect_value_def assert_value_def intro: assertion_hidden split: if_split_asm)

lemma has_kind_int64: "has_kind Int64Kind v \<Longrightarrow> \<exists>t. v = VInt64 t"
  by (cases v) (simp_all add: has_kind_def dynamic_reflect_value_def assert_value_def is_int64_def)

text \<open>A scalar is replaced by one of its kind.\<close>

lemma redact_scalar_ok:
  assumes "well_behaved env r" "has_kind k v"
  shows "\<exists>w. redact_scalar env ctx (Some r) field_ref k v = Inr w \<and> has_kind k w \<and> hidden_value w = hidden_value v \<and>
    leaf_result env r (ctx, field_ref, k, v) = (field_ref, w)"
proof -
  have "\<exists>w. redact_scalar env ctx (Some r) field_ref k v = Inr w \<and> has_kind k w"
  proof (cases "re_resolve env r ctx field_ref")
    case None
    then show ?thesis using assms(2) by (simp add: redact_scalar_def apply_dynamic_def)
  next
    case (Some p)
    then obtain u where u: "policy_apply (re_custom env) p v = Inr u"
      using assms(1) unfolding well_behaved_def by (metis is_ok_def sum.exhaust sum.simps(5))
    show ?thesis
    proof (cases "dynamic_reflect_value k u")
      case None
      then show ?thesis using Some u assms(2) by (simp add: redact_scalar_def apply_dynamic_def)
    next
      case (Some c)
      then have "has_kind k c" using reflect_Some by (fastforce simp: has_kind_def)
      then show ?thesis using Some \<open>re_resolve env r ctx field_ref = Some p\<close> u by (simp add: redact_scalar_def apply_dynamic_def)
    qed
  qed
  then show ?thesis using has_kind_hidden [OF _ assms(2)] by (auto simp: leaf_result_def)
qed

lemma tenant_context_ok:
  assumes "fields_ok D fds fs" "\<forall>fd \<in> set fds.
     (fd_name fd = ''tenant_id'' \<and> fd_kind fd = Int64Kind \<longrightarrow> \<not> fd_list fd \<and> fd_map fd = None) \<and>
     (\<not> is_message_kind (fd_kind fd) \<longrightarrow> has_kind (fd_kind fd) (fd_default fd))"
  shows "\<exists>c. tenant_context ctx fds fs = Inr c"
  using assms
proof (induction fds arbitrary: fs)
  case Nil
  then show ?case by (simp add: tenant_context_def)
next
  case (Cons fd fds)
  then obtain f fs' where fs: "fs = f # fs'" by (cases fs) auto
  show ?case
  proof (cases "fd_name fd = ''tenant_id''")
    case False
    then show ?thesis using Cons fs by (simp add: tenant_context_def)
  next
    case name: True
    show ?thesis
    proof (cases "fd_kind fd = Int64Kind")
      case False
      then show ?thesis using name fs by (simp add: tenant_context_def)
    next
      case True
      with name Cons.prems(2) have one: "\<not> fd_list fd" "fd_map fd = None" "has_kind Int64Kind (fd_default fd)"
        by (auto simp: is_message_kind_def)
      from Cons.prems(1) fs have "field_ok D fd f" by simp
      with one True have "f = FOne None \<or> (\<exists>v. f = FOne (Some (PScalar v)) \<and> has_kind Int64Kind v)"
        by (auto simp: is_message_kind_def split: pfield.split_asm option.split_asm elim: value_ok.elims)
      then show ?thesis
        using name fs True one(3) by (auto simp: tenant_context_def dest!: has_kind_int64)
    qed
  qed
qed

subsection \<open>The walk\<close>

text \<open>
  The outcome of a walk over a part \<open>x\<close> of a message: it returns, the result fits the descriptors, has the same shape, and its scalars
  are the results of the scalars of \<open>x\<close>. A part is anything with an \<open>ok\<close>, a shape and scalars.
\<close>

definition walked :: "'r redact_env \<Rightarrow> 'r \<Rightarrow> ('x \<Rightarrow> bool) \<Rightarrow> ('x \<Rightarrow> 's) \<Rightarrow> ('r redact_ctx option \<Rightarrow> 'x \<Rightarrow> 'r leaf list) \<Rightarrow>
    'r redact_ctx option \<Rightarrow> 'x \<Rightarrow> 'x res \<Rightarrow> bool" where
  "walked env r okay sh leaves ctx x result \<longleftrightarrow>
     (\<exists>x'. result = Inr x' \<and> okay x' \<and> sh x' = sh x \<and> (\<forall>c. map leaf_value (leaves c x') = map (leaf_result env r) (leaves ctx x)))"

lemma walkedE:
  assumes "walked env r okay sh leaves ctx x result"
  obtains x' where "result = Inr x'" "okay x'" "sh x' = sh x" "\<And>c. map leaf_value (leaves c x') = map (leaf_result env r) (leaves ctx x)"
  using assms unfolding walked_def by blast

text \<open>A part that wraps one part, and a part that consists of two.\<close>

lemma walked_wrap:
  assumes "walked env r okay sh leaves ctx x result"
    and "\<And>x'. okay x' \<Longrightarrow> sh x' = sh x \<Longrightarrow> okay' (f x') \<and> sh' (f x') = sh' (f x) \<and> (\<forall>c. leaves' c (f x') = leaves c x')"
    and "leaves' ctx (f x) = leaves ctx x"
  shows "walked env r okay' sh' leaves' ctx (f x) (res_bind result (\<lambda>x'. Inr (f x')))"
  using assms(1) by (rule walkedE) (use assms(2,3) in \<open>auto simp: walked_def\<close>)

lemma walked_pair:
  assumes "walked env r ok1 sh1 leaves1 ctx x result1" "walked env r ok2 sh2 leaves2 ctx y result2"
    and "\<And>x' y'. ok1 x' \<Longrightarrow> ok2 y' \<Longrightarrow> sh1 x' = sh1 x \<Longrightarrow> sh2 y' = sh2 y \<Longrightarrow>
      okay (f x' y') \<and> sh (f x' y') = sh (f x y) \<and> (\<forall>c. leaves c (f x' y') = leaves1 c x' @ leaves2 c y')"
    and "leaves ctx (f x y) = leaves1 ctx x @ leaves2 ctx y"
  shows "walked env r okay sh leaves ctx (f x y) (res_bind result1 (\<lambda>x'. res_bind result2 (\<lambda>y'. Inr (f x' y'))))"
proof -
  obtain x' where x': "result1 = Inr x'" "ok1 x'" "sh1 x' = sh1 x" "\<And>c. map leaf_value (leaves1 c x') = map (leaf_result env r) (leaves1 ctx x)"
    using assms(1) unfolding walked_def by blast
  obtain y' where y': "result2 = Inr y'" "ok2 y'" "sh2 y' = sh2 y" "\<And>c. map leaf_value (leaves2 c y') = map (leaf_result env r) (leaves2 ctx y)"
    using assms(2) unfolding walked_def by blast
  show ?thesis
    unfolding walked_def using assms(3) [OF x'(2) y'(2) x'(3) y'(3)] assms(4) x'(1,4) y'(1,4) by auto
qed

lemma walked_same:
  assumes "okay x" "\<And>c. leaves c x = []"
  shows "walked env r okay sh leaves ctx x (Inr x)"
  using assms by (simp add: walked_def)

declare field_ok.simps [simp del] apply_dynamic_field.simps [simp del] res_bind.simps [simp del]

lemma walk_induct:
  shows "well_behaved env r \<Longrightarrow> msg_ok (re_fields env) m \<Longrightarrow> walked env r (msg_ok (re_fields env)) shape (msg_leaves env) ctx m (apply_with_msg env ctx r m)"
    and "well_behaved env r \<Longrightarrow> fields_ok (re_fields env) fds fs \<Longrightarrow> walked env r (fields_ok (re_fields env) fds) (map (map_pfield hidden_value))
      (\<lambda>c. fields_leaves env c name fds) ctx fs (apply_dynamic_fields env ctx r name fds fs)"
    and "well_behaved env r \<Longrightarrow> field_ok (re_fields env) fd f \<Longrightarrow> walked env r (field_ok (re_fields env) fd) (map_pfield hidden_value)
      (\<lambda>c. field_leaves env c name fd) ctx f (apply_dynamic_field env ctx r name fd f)"
    and "well_behaved env r \<Longrightarrow> value_ok (re_fields env) k v \<Longrightarrow> walked env r (value_ok (re_fields env) k) (map_pvalue hidden_value)
      (\<lambda>c. value_leaves env c field_ref k) ctx v (apply_dynamic_value env ctx r field_ref k v)"
    and "well_behaved env r \<Longrightarrow> list_ok (re_fields env) k vs \<Longrightarrow> walked env r (list_ok (re_fields env) k) (map (map_pvalue hidden_value))
      (\<lambda>c. list_leaves env c field_ref k) ctx vs (apply_dynamic_list env ctx r field_ref k vs)"
    and "well_behaved env r \<Longrightarrow> map_ok (re_fields env) k kvs \<Longrightarrow> walked env r (map_ok (re_fields env) k) (map (map_prod (\<lambda>a. a) (map_pvalue hidden_value)))
      (\<lambda>c. map_leaves env c field_ref k) ctx kvs (apply_dynamic_map env ctx r field_ref k kvs)"
proof (induction env ctx r m and env ctx r name fds fs and env ctx r name fd f and env ctx r field_ref k v and env ctx r field_ref k vs and
    env ctx r field_ref k kvs
    rule: apply_with_msg_apply_dynamic_fields_apply_dynamic_field_apply_dynamic_value_apply_dynamic_list_apply_dynamic_map.induct)
  case (1 env ctx r name valid fs)
  show ?case
  proof (cases "re_redact_with_msg env name")
    case (Some f)
    then obtain m' where "f ctx r (Msg name valid fs) = Inr m'" "msg_ok (re_fields env) m'" "shape m' = shape (Msg name valid fs)"
      using 1(2,3) unfolding well_behaved_def by (metis msg_name.simps)
    moreover from this(3) obtain fs' where "m' = Msg name valid fs'" by (cases m') (auto simp: shape_def)
    ultimately show ?thesis using Some by (simp add: walked_def)
  next
    case None
    show ?thesis
    proof (cases valid)
      case False
      then show ?thesis using None 1(3) by (simp add: walked_same)
    next
      case True
      have schema: "schema_ok (re_fields env)" using 1(2) by (simp add: well_behaved_def)
      have tenant: "\<exists>c'. tenant_context c (re_fields env name) gs = Inr c'" if "fields_ok (re_fields env) (re_fields env name) gs" for c gs
        by (rule tenant_context_ok [OF that]) (use schema in \<open>unfold schema_ok_def, blast\<close>)
      from True 1(3) have fs: "fields_ok (re_fields env) (re_fields env name) fs" by simp
      then obtain ctx' where ctx': "tenant_context ctx (re_fields env name) fs = Inr ctx'" using tenant by blast
      from 1(1) [OF None] True ctx' 1(2) fs
      have "walked env r (fields_ok (re_fields env) (re_fields env name)) (map (map_pfield hidden_value))
        (\<lambda>c. fields_leaves env c name (re_fields env name)) ctx' fs (apply_dynamic_fields env ctx' r name (re_fields env name) fs)" by simp
      then obtain fs' where fs': "apply_dynamic_fields env ctx' r name (re_fields env name) fs = Inr fs'" "fields_ok (re_fields env) (re_fields env name) fs'"
        "map (map_pfield hidden_value) fs' = map (map_pfield hidden_value) fs"
        "\<And>c. map leaf_value (fields_leaves env c name (re_fields env name) fs') = map (leaf_result env r) (fields_leaves env ctx' name (re_fields env name) fs)"
        unfolding walked_def by blast
      have "map leaf_value (msg_leaves env c (Msg name valid fs')) = map (leaf_result env r) (msg_leaves env ctx (Msg name valid fs))" for c
        using tenant [OF fs'(2), of c] None True fs'(4) ctx' by auto
      then show ?thesis using None True ctx' fs'(1-3) by (simp add: walked_def shape_def res_bind.simps)
    qed
  qed
next
  case (2 env ctx r name fs)
  then show ?case by (simp add: walked_same)
next
  case (3 env ctx r name fd fds)
  then show ?case by simp
next
  case (4 env ctx r name fd fds f fs)
  have "walked env r (field_ok (re_fields env) fd) (map_pfield hidden_value) (\<lambda>c. field_leaves env c name fd) ctx f (apply_dynamic_field env ctx r name fd f)"
    using 4 by simp
  moreover have "walked env r (fields_ok (re_fields env) fds) (map (map_pfield hidden_value)) (\<lambda>c. fields_leaves env c name fds) ctx fs
      (apply_dynamic_fields env ctx r name fds fs)"
  proof -
    from 4 show ?thesis by simp
  qed
  ultimately show ?case unfolding apply_dynamic_fields.simps by (rule walked_pair) simp_all
next
  case (5 env ctx r name fd f)
  show ?case
  proof (cases "fd_map fd")
    case (Some k)
    with 5(5) obtain kvs where f: "f = FMap kvs" "map_ok (re_fields env) k kvs" by (auto simp: field_ok.simps split: pfield.split_asm)
    from 5(3) [OF Some f(1)] 5(4) f(2)
    have "walked env r (map_ok (re_fields env) k) (map (map_prod (\<lambda>a. a) (map_pvalue hidden_value))) (\<lambda>c. map_leaves env c (field_ref_of name fd) k) ctx kvs
      (apply_dynamic_map env ctx r (field_ref_of name fd) k kvs)" by simp
    moreover have "apply_dynamic_field env ctx r name fd (FMap kvs) = res_bind (apply_dynamic_map env ctx r (field_ref_of name fd) k kvs) (\<lambda>x. Inr (FMap x))"
      using Some by (simp add: apply_dynamic_field.simps)
    ultimately show ?thesis unfolding f(1) by (simp only:, elim walked_wrap) (simp_all add: field_ok.simps Some id_def)
  next
    case None
    show ?thesis
    proof (cases "fd_list fd")
      case True
      with None 5(5) obtain vs where f: "f = FList vs" "list_ok (re_fields env) (fd_kind fd) vs" by (auto simp: field_ok.simps split: pfield.split_asm)
      from 5(1) [OF None True f(1)] 5(4) f(2)
      have "walked env r (list_ok (re_fields env) (fd_kind fd)) (map (map_pvalue hidden_value)) (\<lambda>c. list_leaves env c (field_ref_of name fd) (fd_kind fd)) ctx vs
        (apply_dynamic_list env ctx r (field_ref_of name fd) (fd_kind fd) vs)" by simp
      moreover have "apply_dynamic_field env ctx r name fd (FList vs) = res_bind (apply_dynamic_list env ctx r (field_ref_of name fd) (fd_kind fd) vs) (\<lambda>x. Inr (FList x))"
        using None True by (simp add: apply_dynamic_field.simps)
      ultimately show ?thesis unfolding f(1) by (simp only:, elim walked_wrap) (simp_all add: field_ok.simps None True id_def)
    next
      case False
      from 5(5) None False consider "f = FOne None" "is_message_kind (fd_kind fd) \<or> fd_presence fd"
        | v where "f = FOne (Some v)" "value_ok (re_fields env) (fd_kind fd) v"
        by (auto simp: field_ok.simps split: pfield.split_asm option.split_asm)
      then show ?thesis
      proof cases
        case 1
        then show ?thesis using None False 5(5) by (simp add: apply_dynamic_field.simps walked_same)
      next
        case (2 v)
        from 5(2) [OF None False 2(1)] 5(4) 2(2)
        have "walked env r (value_ok (re_fields env) (fd_kind fd)) (map_pvalue hidden_value) (\<lambda>c. value_leaves env c (field_ref_of name fd) (fd_kind fd)) ctx v
          (apply_dynamic_value env ctx r (field_ref_of name fd) (fd_kind fd) v)" by simp
        moreover have "apply_dynamic_field env ctx r name fd (FOne (Some v)) = res_bind (apply_dynamic_value env ctx r (field_ref_of name fd) (fd_kind fd) v) (\<lambda>x. Inr (FOne (Some x)))"
          using None False by (simp add: apply_dynamic_field.simps)
        ultimately show ?thesis unfolding 2(1) by (simp only:, elim walked_wrap) (simp_all add: field_ok.simps None False id_def)
      qed
    qed
  qed
next
  case (6 env ctx r field_ref k m)
  then have "walked env r (msg_ok (re_fields env)) shape (msg_leaves env) ctx m (apply_with_msg env ctx r m)" by simp
  moreover have "is_message_kind k" using 6 by simp
  ultimately show ?case by (simp add: walked_wrap shape_def)
next
  case (7 env ctx r field_ref k v)
  then obtain w where "redact_scalar env ctx (Some r) field_ref k v = Inr w" "has_kind k w" "hidden_value w = hidden_value v"
    "leaf_result env r (ctx, field_ref, k, v) = (field_ref, w)" using redact_scalar_ok [of env r k v ctx field_ref] by auto
  then show ?case using 7 by (simp add: walked_def leaf_value_def res_bind.simps)
next
  case (8 env ctx r field_ref k)
  then show ?case by (simp add: walked_same)
next
  case (9 env ctx r field_ref k v vs)
  then have "walked env r (value_ok (re_fields env) k) (map_pvalue hidden_value) (\<lambda>c. value_leaves env c field_ref k) ctx v
      (apply_dynamic_value env ctx r field_ref k v)"
    "walked env r (list_ok (re_fields env) k) (map (map_pvalue hidden_value)) (\<lambda>c. list_leaves env c field_ref k) ctx vs
      (apply_dynamic_list env ctx r field_ref k vs)" by simp_all
  then show ?case unfolding apply_dynamic_list.simps by (rule walked_pair) simp_all
next
  case (10 env ctx r field_ref k)
  then show ?case by (simp add: walked_same)
next
  case (11 env ctx r field_ref k key v kvs)
  then have "walked env r (value_ok (re_fields env) k) (map_pvalue hidden_value) (\<lambda>c. value_leaves env c field_ref k) ctx v
      (apply_dynamic_value env ctx r field_ref k v)"
    "walked env r (map_ok (re_fields env) k) (map (map_prod (\<lambda>a. a) (map_pvalue hidden_value))) (\<lambda>c. map_leaves env c field_ref k) ctx kvs
      (apply_dynamic_map env ctx r field_ref k kvs)" by simp_all
  then show ?case unfolding apply_dynamic_map.simps by (rule walked_pair) simp_all
qed

declare res_bind.simps [simp]

lemmas walk_message = walk_induct(1) [unfolded walked_def]

subsection \<open>Redaction keeps types\<close>

text \<open>The resolver \<open>ApplyWith\<close> uses.\<close>

definition chosen_resolver :: "'r redact_ctx option \<Rightarrow> 'r option \<Rightarrow> 'r option" where
  "chosen_resolver ctx resolver = (case resolver of None \<Rightarrow> policy_resolver_from_context ctx | Some r \<Rightarrow> Some r)"


definition sample_lib :: redact_lib where
  "sample_lib = \<lparr>rl_compile = \<lambda>_. Inl (NewErr ''error parsing regexp''), rl_md5 = \<lambda>_. [], rl_sha1 = \<lambda>_. replicate 20 0, rl_sha256 = \<lambda>_. [],
     rl_parse_ip = \<lambda>_. None, rl_parse_url = \<lambda>_. Inl (NewErr ''parse''), rl_parse_query = \<lambda>_. Map.empty, rl_encode_query = \<lambda>_. [],
     rl_getenv = \<lambda>_. [], rl_sensitive = \<lambda>s. s, rl_emails = \<lambda>f s. s, rl_phones = \<lambda>f s. s\<rparr>"

definition str_desc :: "string \<Rightarrow> bool \<Rightarrow> kind option \<Rightarrow> kind \<Rightarrow> field_desc" where
  "str_desc name is_list map_kind k = \<lparr>fd_name = name, fd_kind = k, fd_list = is_list, fd_map = map_kind, fd_presence = False,
     fd_default = (if k = Int64Kind then VInt64 0 else VString [])\<rparr>"

text \<open>A user with a tenant, a phone number that is hidden, a list of notes and a map of users, one of them below another tenant.\<close>

definition sample_env :: "nat redact_env" where
  "sample_env = \<lparr>re_lib = sample_lib, re_custom = Map.empty,
     re_fields = \<lambda>n. if n = ''User'' then [str_desc ''tenant_id'' False None Int64Kind, str_desc ''phone'' False None StringKind,
       str_desc ''notes'' True None StringKind, str_desc ''friends'' False (Some MessageKind) MessageKind] else [],
     re_resolve = \<lambda>r ctx ref. if ref = ''User.phone'' then Some (empty_policy\<lparr>fp_mode := policy_mode_hide\<rparr>) else None,
     re_redact_msg = \<lambda>_. None, re_redact_with_msg = \<lambda>_. None, re_redact_other = \<lambda>_. None, re_redact_with_other = \<lambda>_. None\<rparr>"

definition sample_user :: "gvalue pmessage" where
  "sample_user = Msg ''User'' True [FOne (Some (PScalar (VInt64 7))), FOne (Some (PScalar (VString ''138''))), FList [PScalar (VString ''a'')],
     FMap [(VString ''k'', PMsg (Msg ''User'' True [FOne (Some (PScalar (VInt64 9))), FOne (Some (PScalar (VString ''139''))), FList [], FMap []]))]]"

lemma sample_well_behaved: "well_behaved sample_env r"
  by (auto simp: well_behaved_def sample_env_def schema_ok_def str_desc_def has_kind_def dynamic_reflect_value_def assert_value_def is_int64_def
    is_string_def policy_apply_def empty_policy_def policy_mode_hide_def policy_mode_full_def is_message_kind_def split: if_split_asm)

lemma sample_user_ok: "msg_ok (re_fields sample_env) sample_user"
  by (simp add: sample_user_def sample_env_def field_ok.simps str_desc_def has_kind_def dynamic_reflect_value_def assert_value_def is_int64_def
    is_string_def is_message_kind_def)




end
