(* ===== verification/Redact_Storage.thy ===== *)
theory Redact_Storage
  imports Redact_Policy Go_Base64
begin

text \<open>
  Redacted columns in the database (redact/storage.go, redact/storage_runtime.go): the column holds what the rule leaves of a value, a row of
  a side table the encrypted value and a keyed digest of it.

  Cryptography is the record \<open>storage_crypto\<close>, the side table and the access to the fields of an entity are the application's, as records
  of operations. An entity that Go changes in place is returned changed, next to the outcome. The number of nonces drawn is threaded through.
\<close>

subsection \<open>The protector\<close>

definition storage_cipher_prefix :: string where "storage_cipher_prefix = ''enc:''"

text \<open>\<open>sc_cipher\<close> is the error of \<open>aes.NewCipher\<close> and \<open>cipher.NewGCM\<close> on a key; \<open>sc_seal\<close> and \<open>sc_open\<close> take key, nonce, text and associated
  data; \<open>sc_rand\<close> is the result of each read of the random source.\<close>

record storage_crypto =
  sc_sha256 :: "string \<Rightarrow> string"
  sc_hmac :: "string \<Rightarrow> string \<Rightarrow> string"
  sc_cipher :: "string \<Rightarrow> go_err option"
  sc_nonce_size :: nat
  sc_seal :: "string \<Rightarrow> string \<Rightarrow> string \<Rightarrow> string \<Rightarrow> string"
  sc_open :: "string \<Rightarrow> string \<Rightarrow> string \<Rightarrow> string \<Rightarrow> string res"
  sc_rand :: "nat \<Rightarrow> string res"

record storage_protector =
  sp_encryption_key :: string
  sp_digest_key :: string

definition new_storage_protector :: "storage_crypto \<Rightarrow> string \<Rightarrow> storage_protector res" where
  "new_storage_protector c secret =
     (if secret = [] then Inl (NewErr ''storage protection key is empty'')
      else Inr \<lparr>sp_encryption_key = sc_sha256 c (''kratos-kit/redact/storage/encryption/'' @ secret),
                sp_digest_key = sc_sha256 c (''kratos-kit/redact/storage/digest/'' @ secret)\<rparr>)"

definition protector_encrypt :: "storage_crypto \<Rightarrow> storage_protector option \<Rightarrow> string \<Rightarrow> string \<Rightarrow> nat \<Rightarrow> string res \<times> nat" where
  "protector_encrypt c p val aad n =
     (case p of
        None \<Rightarrow> (Inl (NewErr ''storage protector is not initialized''), n)
      | Some p \<Rightarrow>
          if sp_encryption_key p = [] then (Inl (NewErr ''storage protector is not initialized''), n)
          else (case sc_cipher c (sp_encryption_key p) of
              Some e \<Rightarrow> (Inl (WrapErr ''create storage cipher'' e), n)
            | None \<Rightarrow>
                (case sc_rand c n of
                   Inl e \<Rightarrow> (Inl (WrapErr ''generate storage nonce'' e), Suc n)
                 | Inr nonce \<Rightarrow>
                     (Inr (storage_cipher_prefix @ b64rawstd_encode (nonce @ sc_seal c (sp_encryption_key p) nonce val aad)), Suc n))))"

definition protector_decrypt :: "storage_crypto \<Rightarrow> storage_protector option \<Rightarrow> string \<Rightarrow> string \<Rightarrow> string res" where
  "protector_decrypt c p val aad =
     (case p of
        None \<Rightarrow> Inl (NewErr ''storage protector is not initialized'')
      | Some p \<Rightarrow>
          if sp_encryption_key p = [] then Inl (NewErr ''storage protector is not initialized'')
          else if length val \<le> length storage_cipher_prefix \<or> take (length storage_cipher_prefix) val \<noteq> storage_cipher_prefix then
            Inl (NewErr ''field is not in the storage cipher format'')
          else (case b64rawstd_decode (drop (length storage_cipher_prefix) val) of
              None \<Rightarrow> Inl (WrapErr ''decode field ciphertext'' (NewErr ''illegal base64 data''))
            | Some encoded \<Rightarrow>
                (case sc_cipher c (sp_encryption_key p) of
                   Some e \<Rightarrow> Inl (WrapErr ''create storage cipher'' e)
                 | None \<Rightarrow>
                     if length encoded \<le> sc_nonce_size c then Inl (NewErr ''field ciphertext is too short'')
                     else (case sc_open c (sp_encryption_key p) (take (sc_nonce_size c) encoded) (drop (sc_nonce_size c) encoded) aad of
                         Inl e \<Rightarrow> Inl (WrapErr ''decrypt field'' e)
                       | Inr plaintext \<Rightarrow> Inr plaintext))))"

definition protector_digest :: "storage_crypto \<Rightarrow> storage_protector option \<Rightarrow> string \<Rightarrow> string \<Rightarrow> string res" where
  "protector_digest c p val aad =
     (case p of
        None \<Rightarrow> Inl (NewErr ''storage digest protector is not initialized'')
      | Some p \<Rightarrow>
          if sp_digest_key p = [] then Inl (NewErr ''storage digest protector is not initialized'')
          else Inr (sc_hmac c (sp_digest_key p) (aad @ [CHR 0x00] @ val)))"

definition rule_fingerprint :: "storage_crypto \<Rightarrow> string \<Rightarrow> string \<Rightarrow> string" where
  "rule_fingerprint c rule_type rule_json = hex_bytes (map of_char (sc_sha256 c (rule_type @ [CHR 0x00] @ rule_json)))"

definition storage_associated_data :: "int \<Rightarrow> int \<Rightarrow> string" where
  "storage_associated_data tenant policy = ''tenant'' @ [CHR 0x00] @ show_int tenant @ [CHR 0x00] @ ''storage-policy'' @ [CHR 0x00] @ show_int policy"

definition storage_digest_data :: "int \<Rightarrow> int \<Rightarrow> string" where
  "storage_digest_data tenant policy = ''tenant'' @ [CHR 0x00] @ show_int tenant @ [CHR 0x00] @ ''storage-policy-digest'' @ [CHR 0x00] @ show_int policy"

subsection \<open>Policies, side rows and interfaces\<close>

definition err_storage_value_not_found :: go_err where
  "err_storage_value_not_found = Sentinel ''sensitive value does not exist''"

record storage_field_policy =
  sf_id :: int
  sf_tenant :: int
  sf_table :: string
  sf_column :: string
  sf_rule :: field_policy

record storage_value =
  sv_id :: int
  sv_tenant :: int
  sv_policy :: int
  sv_record :: int
  sv_ciphertext :: string
  sv_digest :: string

text \<open>\<open>StorageValueStore\<close>, over the states \<open>'st\<close> of the side table, and \<open>EntityFieldAccessor\<close>; an entity may be nil.\<close>

record 'st value_store =
  vs_find :: "int \<Rightarrow> int \<Rightarrow> int \<Rightarrow> 'st \<Rightarrow> storage_value res"
  vs_list_by_records :: "int \<Rightarrow> int \<Rightarrow> int list \<Rightarrow> 'st \<Rightarrow> storage_value list res"
  vs_list_by_digest :: "int \<Rightarrow> int \<Rightarrow> string \<Rightarrow> 'st \<Rightarrow> storage_value list res"
  vs_save :: "storage_value \<Rightarrow> 'st \<Rightarrow> go_err option \<times> 'st"
  vs_delete :: "storage_value \<Rightarrow> 'st \<Rightarrow> go_err option \<times> 'st"

record 'e field_accessor =
  fa_value_of :: "'e option \<Rightarrow> string \<Rightarrow> (gvalue \<times> bool) res"
  fa_set :: "'e option \<Rightarrow> string \<Rightarrow> gvalue \<Rightarrow> 'e option res"

record 'e response_entity =
  rp_tenant :: int
  rp_record :: int
  rp_entity :: "'e option"

record ('st, 'e) redact_storage =
  rs_value_store :: "'st value_store option"
  rs_policy_resolver :: "(int \<Rightarrow> string \<Rightarrow> storage_field_policy list) option"
  rs_protector :: "storage_protector option"
  rs_field_accessor :: "'e field_accessor option"

definition new_redact_storage ::
  "'st value_store option \<Rightarrow> (int \<Rightarrow> string \<Rightarrow> storage_field_policy list) option \<Rightarrow> storage_protector option \<Rightarrow> 'e field_accessor option \<Rightarrow> ('st, 'e) redact_storage" where
  "new_redact_storage vs pr p fa = \<lparr>rs_value_store = vs, rs_policy_resolver = pr, rs_protector = p, rs_field_accessor = fa\<rparr>"

subsection \<open>Writing\<close>

text \<open>
  \<open>PrepareString\<close>: the value of the column, and the side row to write, if any. A value that the rule leaves as it is is taken for a mask that
  was sent back. A nil storage is \<open>None\<close>. A panic of the rule is an error like any other here.
\<close>

definition prepare_string ::
  "storage_crypto \<Rightarrow> custom_redactors \<Rightarrow> ('st, 'e) redact_storage option \<Rightarrow> storage_field_policy \<Rightarrow> string \<Rightarrow> nat \<Rightarrow> (string \<times> storage_value option) res \<times> nat" where
  "prepare_string c reg s policy val n =
     (case s of
        None \<Rightarrow> (Inr (val, None), n)
      | Some s \<Rightarrow>
          if val = [] then (Inr (val, None), n)
          else if sf_id policy \<le> 0 \<or> sf_tenant policy < 0 \<or> sf_table policy = [] \<or> sf_column policy = [] then
            (Inl (NewErr ''storage policy of the sensitive field is invalid''), n)
          else if fp_mode (sf_rule policy) \<noteq> policy_mode_apply_rule \<or> fp_transform (sf_rule policy) = None then
            (Inl (NewErr (''storage rule is not initialized: '' @ sf_table policy @ ''.'' @ sf_column policy)), n)
          else if rs_protector s = None then (Inl (NewErr ''storage protector is not initialized''), n)
          else (case policy_apply reg (sf_rule policy) (VString val) of
              Inl e \<Rightarrow> (Inl e, n)
            | Inr (VString masked) \<Rightarrow>
                if masked = val then (Inr (val, None), n)
                else (case protector_encrypt c (rs_protector s) val (storage_associated_data (sf_tenant policy) (sf_id policy)) n of
                    (Inl e, n') \<Rightarrow> (Inl e, n')
                  | (Inr ciphertext, n') \<Rightarrow>
                      (case protector_digest c (rs_protector s) val (storage_digest_data (sf_tenant policy) (sf_id policy)) of
                         Inl e \<Rightarrow> (Inl e, n')
                       | Inr digest \<Rightarrow>
                           (Inr (masked, Some \<lparr>sv_id = 0, sv_tenant = sf_tenant policy, sv_policy = sf_id policy, sv_record = 0,
                              sv_ciphertext = ciphertext, sv_digest = digest\<rparr>), n')))
            | Inr _ \<Rightarrow> (Inl (NewErr (''storage rule did not return a string: '' @ sf_table policy @ ''.'' @ sf_column policy)), n)))"

text \<open>The loop of \<open>PrepareEntityWithPolicies\<close>; \<open>prepared\<close> is the map of the rows so far.\<close>

fun prepare_loop ::
  "storage_crypto \<Rightarrow> custom_redactors \<Rightarrow> ('st, 'e) redact_storage \<Rightarrow> 'e field_accessor \<Rightarrow> storage_field_policy list \<Rightarrow> (int \<rightharpoonup> storage_value) \<Rightarrow>
   'e option \<Rightarrow> nat \<Rightarrow> (int \<rightharpoonup> storage_value) res \<times> 'e option \<times> nat" where
  "prepare_loop c reg s fa [] prepared e n = (Inr prepared, e, n)"
| "prepare_loop c reg s fa (policy # ps) prepared e n =
     (case fa_value_of fa e (sf_column policy) of
        Inl err \<Rightarrow> (Inl (WrapErr (''read entity field '' @ sf_table policy @ ''.'' @ sf_column policy) err), e, n)
      | Inr (val, zero) \<Rightarrow>
          if zero \<or> val = VNil then prepare_loop c reg s fa ps prepared e n
          else (case val of
              VString text \<Rightarrow>
                (case prepare_string c reg (Some s) policy text n of
                   (Inl err, n') \<Rightarrow> (Inl err, e, n')
                 | (Inr (stored, protected), n') \<Rightarrow>
                     (case fa_set fa e (sf_column policy) (VString stored) of
                        Inl err \<Rightarrow> (Inl (WrapErr (''write entity field '' @ sf_table policy @ ''.'' @ sf_column policy) err), e, n')
                      | Inr e' \<Rightarrow>
                          prepare_loop c reg s fa ps (case protected of None \<Rightarrow> prepared | Some row \<Rightarrow> prepared(sf_id policy \<mapsto> row)) e' n'))
            | _ \<Rightarrow> (Inl (NewErr (''entity field is not a string: '' @ sf_table policy @ ''.'' @ sf_column policy)), e, n)))"

definition prepare_entity_with_policies ::
  "storage_crypto \<Rightarrow> custom_redactors \<Rightarrow> ('st, 'e) redact_storage option \<Rightarrow> 'e option \<Rightarrow> storage_field_policy list \<Rightarrow> nat \<Rightarrow>
   (int \<rightharpoonup> storage_value) res \<times> 'e option \<times> nat" where
  "prepare_entity_with_policies c reg s e ps n =
     (case s of
        None \<Rightarrow> (Inr Map.empty, e, n)
      | Some s \<Rightarrow>
          if e = None \<or> ps = [] then (Inr Map.empty, e, n)
          else (case rs_field_accessor s of
              None \<Rightarrow> (Inl (NewErr ''entity field accessor is not initialized''), e, n)
            | Some fa \<Rightarrow> prepare_loop c reg s fa ps Map.empty e n))"

definition prepare_entity ::
  "storage_crypto \<Rightarrow> custom_redactors \<Rightarrow> ('st, 'e) redact_storage option \<Rightarrow> int \<Rightarrow> string \<Rightarrow> 'e option \<Rightarrow> nat \<Rightarrow>
   (int \<rightharpoonup> storage_value) res \<times> 'e option \<times> nat" where
  "prepare_entity c reg s tenant table e n =
     (case s of
        None \<Rightarrow> (Inr Map.empty, e, n)
      | Some st \<Rightarrow>
          (case rs_policy_resolver st of
             None \<Rightarrow> (Inr Map.empty, e, n)
           | Some policies \<Rightarrow>
               if e = None then (Inr Map.empty, e, n)
               else if tenant < 0 then (Inl (NewErr ''tenant of the redacted storage is negative''), e, n)
               else prepare_entity_with_policies c reg s e (policies tenant table) n))"

definition save_prepared :: "('st, 'e) redact_storage option \<Rightarrow> storage_value option \<Rightarrow> int \<Rightarrow> 'st \<Rightarrow> go_err option \<times> 'st" where
  "save_prepared s row record_id st =
     (case row of
        None \<Rightarrow> (None, st)
      | Some row \<Rightarrow>
          (case (case s of None \<Rightarrow> None | Some s \<Rightarrow> rs_value_store s) of
             None \<Rightarrow> (Some (NewErr ''side table of sensitive fields is not initialized''), st)
           | Some vs \<Rightarrow>
               if record_id \<le> 0 then (Some (NewErr ''record of the side table is empty''), st)
               else vs_save vs (row\<lparr>sv_record := record_id\<rparr>) st))"

text \<open>The loop over the prepared rows, in the order in which Go visits the map.\<close>

fun save_prepared_values :: "('st, 'e) redact_storage option \<Rightarrow> storage_value option list \<Rightarrow> int \<Rightarrow> 'st \<Rightarrow> go_err option \<times> 'st" where
  "save_prepared_values s [] record_id st = (None, st)"
| "save_prepared_values s (row # rows) record_id st =
     (case save_prepared s row record_id st of
        (Some e, st') \<Rightarrow> (Some e, st')
      | (None, st') \<Rightarrow> save_prepared_values s rows record_id st')"

definition delete_prepared :: "('st, 'e) redact_storage option \<Rightarrow> int \<Rightarrow> int \<Rightarrow> int \<Rightarrow> 'st \<Rightarrow> go_err option \<times> 'st" where
  "delete_prepared s tenant policy record_id st =
     (case (case s of None \<Rightarrow> None | Some s \<Rightarrow> rs_value_store s) of
        None \<Rightarrow> (Some (NewErr ''side table of sensitive fields is not initialized''), st)
      | Some vs \<Rightarrow>
          if tenant < 0 then (Some (NewErr ''tenant of the side table is negative''), st)
          else (case vs_find vs tenant policy record_id st of
              Inl e \<Rightarrow> if errors_is e ''sensitive value does not exist'' then (None, st) else (Some e, st)
            | Inr row \<Rightarrow> vs_delete vs row st))"

subsection \<open>Reading\<close>

definition restore_string ::
  "storage_crypto \<Rightarrow> ('st, 'e) redact_storage option \<Rightarrow> storage_field_policy \<Rightarrow> int \<Rightarrow> string \<Rightarrow> 'st \<Rightarrow> (string \<times> bool) res" where
  "restore_string c s policy record_id stored st =
     (case s of
        None \<Rightarrow> Inr (stored, False)
      | Some s \<Rightarrow>
          (case rs_value_store s of
             None \<Rightarrow> Inr (stored, False)
           | Some vs \<Rightarrow>
               if rs_protector s = None \<or> sf_tenant policy < 0 \<or> record_id \<le> 0 then Inr (stored, False)
               else (case vs_find vs (sf_tenant policy) (sf_id policy) record_id st of
                   Inl e \<Rightarrow> if errors_is e ''sensitive value does not exist'' then Inr (stored, False) else Inl e
                 | Inr row \<Rightarrow>
                     (case protector_decrypt c (rs_protector s) (sv_ciphertext row) (storage_associated_data (sf_tenant policy) (sf_id policy)) of
                        Inl e \<Rightarrow> Inl e
                      | Inr plaintext \<Rightarrow> Inr (plaintext, True)))))"

text \<open>
  The loops of \<open>RestoreEntities\<close>: over the entities for one policy, with the rows by record, and over the policies. An error ends them, with the
  entities as they are by then.
\<close>

fun restore_entity_loop ::
  "storage_crypto \<Rightarrow> storage_protector option \<Rightarrow> 'e field_accessor \<Rightarrow> storage_field_policy \<Rightarrow> (int \<rightharpoonup> storage_value) \<Rightarrow> 'e response_entity list \<Rightarrow>
   go_err option \<times> 'e response_entity list" where
  "restore_entity_loop c p fa policy by_record [] = (None, [])"
| "restore_entity_loop c p fa policy by_record (x # xs) =
     (case by_record (rp_record x) of
        None \<Rightarrow> apsnd (\<lambda>ys. x # ys) (restore_entity_loop c p fa policy by_record xs)
      | Some row \<Rightarrow>
          (case protector_decrypt c p (sv_ciphertext row) (storage_associated_data (sf_tenant policy) (sf_id policy)) of
             Inl e \<Rightarrow> (Some e, x # xs)
           | Inr plaintext \<Rightarrow>
               (case fa_set fa (rp_entity x) (sf_column policy) (VString plaintext) of
                  Inl e \<Rightarrow> (Some (WrapErr (''write entity field '' @ sf_table policy @ ''.'' @ sf_column policy) e), x # xs)
                | Inr e' \<Rightarrow> apsnd (\<lambda>ys. x\<lparr>rp_entity := e'\<rparr> # ys) (restore_entity_loop c p fa policy by_record xs))))"

fun restore_policy_loop ::
  "storage_crypto \<Rightarrow> storage_protector option \<Rightarrow> 'st value_store \<Rightarrow> 'e field_accessor \<Rightarrow> int list \<Rightarrow> storage_field_policy list \<Rightarrow>
   'e response_entity list \<Rightarrow> 'st \<Rightarrow> go_err option \<times> 'e response_entity list" where
  "restore_policy_loop c p vs fa ids [] xs st = (None, xs)"
| "restore_policy_loop c p vs fa ids (policy # ps) xs st =
     (if sf_tenant policy < 0 then (Some (NewErr ''tenant of the storage policy is negative''), xs)
      else (case vs_list_by_records vs (sf_tenant policy) (sf_id policy) ids st of
          Inl e \<Rightarrow> (Some e, xs)
        | Inr rows \<Rightarrow>
            (case restore_entity_loop c p fa policy (map_of (rev (map (\<lambda>row. (sv_record row, row)) rows))) xs of
               (Some e, xs') \<Rightarrow> (Some e, xs')
             | (None, xs') \<Rightarrow> restore_policy_loop c p vs fa ids ps xs' st)))"

definition restore_entities ::
  "storage_crypto \<Rightarrow> ('st, 'e) redact_storage option \<Rightarrow> storage_field_policy list \<Rightarrow> 'e response_entity list \<Rightarrow> 'st \<Rightarrow>
   go_err option \<times> 'e response_entity list" where
  "restore_entities c s ps xs st =
     (case s of
        None \<Rightarrow> (None, xs)
      | Some s \<Rightarrow>
          if ps = [] \<or> xs = [] then (None, xs)
          else (case rs_value_store s of
              None \<Rightarrow> (Some (NewErr ''protector of sensitive fields is not initialized''), xs)
            | Some vs \<Rightarrow>
                if rs_protector s = None then (Some (NewErr ''protector of sensitive fields is not initialized''), xs)
                else (case rs_field_accessor s of
                    None \<Rightarrow> (Some (NewErr ''entity field accessor is not initialized''), xs)
                  | Some fa \<Rightarrow>
                      restore_policy_loop c (rs_protector s) vs fa (map rp_record (filter (\<lambda>x. rp_entity x \<noteq> None \<and> 0 < rp_record x) xs)) ps xs st)))"

definition find_record_ids_by_digest ::
  "storage_crypto \<Rightarrow> ('st, 'e) redact_storage option \<Rightarrow> storage_field_policy \<Rightarrow> string \<Rightarrow> 'st \<Rightarrow> int list res" where
  "find_record_ids_by_digest c s policy plain st =
     (case s of
        None \<Rightarrow> Inl (NewErr ''protector of sensitive fields is not initialized'')
      | Some s \<Rightarrow>
          (case rs_value_store s of
             None \<Rightarrow> Inl (NewErr ''protector of sensitive fields is not initialized'')
           | Some vs \<Rightarrow>
               if rs_protector s = None then Inl (NewErr ''protector of sensitive fields is not initialized'')
               else if sf_tenant policy < 0 then Inl (NewErr ''tenant of the storage policy is negative'')
               else res_bind (protector_digest c (rs_protector s) plain (storage_digest_data (sf_tenant policy) (sf_id policy))) (\<lambda>digest.
                 res_bind (vs_list_by_digest vs (sf_tenant policy) (sf_id policy) digest st) (\<lambda>rows. Inr (map sv_record rows)))))"

subsection \<open>The contracts of the application\<close>

text \<open>
  A side table, seen through \<open>rows\<close>, is a partial map from tenant, policy and record to rows: saving replaces the row of its key, and the two
  queries return the rows they ask for.
\<close>

definition side_table :: "'st value_store \<Rightarrow> ('st \<Rightarrow> int \<times> int \<times> int \<rightharpoonup> storage_value) \<Rightarrow> bool" where
  "side_table vs rows \<longleftrightarrow>
     (\<forall>st row. \<exists>st'. vs_save vs row st = (None, st') \<and>
        (\<forall>key. key \<noteq> (sv_tenant row, sv_policy row, sv_record row) \<longrightarrow> rows st' key = rows st key) \<and>
        (\<exists>i. rows st' (sv_tenant row, sv_policy row, sv_record row) = Some (row\<lparr>sv_id := i\<rparr>))) \<and>
     (\<forall>st t p ids. \<exists>found. vs_list_by_records vs t p ids st = Inr found \<and>
        set found = {row. \<exists>i \<in> set ids. rows st (t, p, i) = Some row \<and> sv_record row = i}) \<and>
     (\<forall>st t p r row. rows st (t, p, r) = Some row \<longrightarrow> sv_record row = r) \<and>
     (\<forall>st t p r. vs_find vs t p r st = (case rows st (t, p, r) of None \<Rightarrow> Inl err_storage_value_not_found | Some row \<Rightarrow> Inr row))"

text \<open>The fields of an entity are independent, a string is written as it is, and it is zero when it is empty.\<close>

definition entity_fields :: "'e field_accessor \<Rightarrow> string set \<Rightarrow> bool" where
  "entity_fields fa cols \<longleftrightarrow>
     (\<forall>e. \<forall>col \<in> cols. \<forall>s. \<exists>e'. fa_set fa (Some e) col (VString s) = Inr (Some e') \<and>
        fa_value_of fa (Some e') col = Inr (VString s, s = []) \<and>
        (\<forall>col' \<in> cols. col' \<noteq> col \<longrightarrow> fa_value_of fa (Some e') col' = fa_value_of fa (Some e) col'))"

text \<open>Authenticated encryption opens what it sealed.\<close>

definition sealed_opens :: "storage_crypto \<Rightarrow> storage_protector \<Rightarrow> bool" where
  "sealed_opens c p \<longleftrightarrow> sp_encryption_key p \<noteq> [] \<and> sp_digest_key p \<noteq> [] \<and> sc_cipher c (sp_encryption_key p) = None \<and>
     (\<forall>n. \<exists>nonce. sc_rand c n = Inr nonce \<and> length nonce = sc_nonce_size c) \<and>
     (\<forall>nonce val aad. sc_seal c (sp_encryption_key p) nonce val aad \<noteq> [] \<and>
        sc_open c (sp_encryption_key p) nonce (sc_seal c (sp_encryption_key p) nonce val aad) aad = Inr val)"

subsection \<open>Encryption and decryption\<close>

lemma protector_round_trip:
  assumes "sealed_opens c p"
  shows "\<exists>text. protector_encrypt c (Some p) val aad n = (Inr text, Suc n) \<and> protector_decrypt c (Some p) text aad = Inr val"
proof -
  from assms obtain nonce where nonce: "sc_rand c n = Inr nonce" "length nonce = sc_nonce_size c" unfolding sealed_opens_def by blast
  let ?sealed = "sc_seal c (sp_encryption_key p) nonce val aad"
  let ?body = "b64rawstd_encode (nonce @ ?sealed)"
  have facts: "sp_encryption_key p \<noteq> []" "sc_cipher c (sp_encryption_key p) = None" "?sealed \<noteq> []"
    "sc_open c (sp_encryption_key p) nonce ?sealed aad = Inr val" using assms by (auto simp: sealed_opens_def)
  have "protector_encrypt c (Some p) val aad n = (Inr (storage_cipher_prefix @ ?body), Suc n)"
    using facts nonce by (simp add: protector_encrypt_def)
  moreover have "?body \<noteq> []" using facts(3) by (simp add: b64rawstd_encode_nil)
  then have "protector_decrypt c (Some p) (storage_cipher_prefix @ ?body) aad = Inr val"
    using facts nonce by (simp add: protector_decrypt_def b64rawstd_round_trip)
  ultimately show ?thesis by blast
qed

subsection \<open>What is written is read back\<close>

definition valid_policy :: "storage_field_policy \<Rightarrow> bool" where
  "valid_policy q \<longleftrightarrow> 0 < sf_id q \<and> 0 \<le> sf_tenant q \<and> sf_table q \<noteq> [] \<and> sf_column q \<noteq> [] \<and> fp_mode (sf_rule q) = policy_mode_apply_rule \<and>
     (\<exists>f. fp_transform (sf_rule q) = Some f \<and> string_rule f)"

text \<open>What the column holds instead of a value.\<close>

definition masked_value :: "custom_redactors \<Rightarrow> storage_field_policy \<Rightarrow> string \<Rightarrow> string" where
  "masked_value reg q v = (if v = [] then [] else case policy_apply reg (sf_rule q) (VString v) of Inr (VString m) \<Rightarrow> m | _ \<Rightarrow> [])"

text \<open>A side row that holds the value of a policy.\<close>

definition row_of :: "storage_crypto \<Rightarrow> storage_protector \<Rightarrow> storage_field_policy \<Rightarrow> string \<Rightarrow> storage_value \<Rightarrow> bool" where
  "row_of c p q v row \<longleftrightarrow> sv_tenant row = sf_tenant q \<and> sv_policy row = sf_id q \<and>
     protector_decrypt c (Some p) (sv_ciphertext row) (storage_associated_data (sf_tenant q) (sf_id q)) = Inr v"

lemma valid_policy_apply:
  assumes "valid_policy q" "v \<noteq> []"
  shows "policy_apply reg (sf_rule q) (VString v) = Inr (VString (masked_value reg q v))"
proof -
  from assms(1) obtain f where f: "fp_mode (sf_rule q) = policy_mode_apply_rule" "fp_transform (sf_rule q) = Some f" "string_rule f"
    unfolding valid_policy_def by blast
  from f(3) obtain w where "f reg (VString v) = Inr w" "hidden_value w = VString []" unfolding string_rule_def by (metis hidden_value.simps(9))
  then obtain m where "f reg (VString v) = Inr (VString m)" by (cases w) auto
  then show ?thesis using f(1,2) assms(2)
    by (simp add: masked_value_def policy_apply_def policy_mode_apply_rule_def policy_mode_full_def policy_mode_hide_def)
qed

lemma prepare_string_ok:
  assumes "valid_policy q" "sealed_opens c p" "v \<noteq> []" "rs_protector s = Some p"
  shows "(masked_value reg q v = v \<and> prepare_string c reg (Some s) q v n = (Inr (v, None), n)) \<or>
    (masked_value reg q v \<noteq> v \<and> (\<exists>row. prepare_string c reg (Some s) q v n = (Inr (masked_value reg q v, Some row), Suc n) \<and> row_of c p q v row))"
proof -
  obtain text' where enc: "protector_encrypt c (Some p) v (storage_associated_data (sf_tenant q) (sf_id q)) n = (Inr text', Suc n)"
    "protector_decrypt c (Some p) text' (storage_associated_data (sf_tenant q) (sf_id q)) = Inr v"
    using protector_round_trip [OF assms(2)] by blast
  obtain digest where digest: "protector_digest c (Some p) v (storage_digest_data (sf_tenant q) (sf_id q)) = Inr digest"
    using assms(2) by (auto simp: protector_digest_def sealed_opens_def)
  from assms(1) have "\<not> sf_id q \<le> 0" "\<not> sf_tenant q < 0" "sf_table q \<noteq> []" "sf_column q \<noteq> []"
    "fp_mode (sf_rule q) = policy_mode_apply_rule" "fp_transform (sf_rule q) \<noteq> None" by (auto simp: valid_policy_def)
  then show ?thesis using assms(3,4) valid_policy_apply [OF assms(1,3), of reg] enc digest
    by (simp add: prepare_string_def row_of_def)
qed

text \<open>One column after the loop: the mask is in it, and the row is prepared exactly when the mask differs from the value.\<close>

definition prepared_field ::
  "storage_crypto \<Rightarrow> custom_redactors \<Rightarrow> storage_protector \<Rightarrow> 'e field_accessor \<Rightarrow> (int \<rightharpoonup> storage_value) \<Rightarrow> 'e \<Rightarrow> storage_field_policy \<Rightarrow> string \<Rightarrow> bool" where
  "prepared_field c reg p fa prepared e' q v \<longleftrightarrow>
     fa_value_of fa (Some e') (sf_column q) = Inr (VString (masked_value reg q v), masked_value reg q v = []) \<and>
     (case prepared (sf_id q) of None \<Rightarrow> masked_value reg q v = v | Some row \<Rightarrow> row_of c p q v row)"

lemma prepare_loop_ok:
  assumes "entity_fields fa cols" "sealed_opens c p" "rs_protector s = Some p"
    and "list_all valid_policy ps" "sf_column ` set ps \<subseteq> cols" "distinct (map sf_column ps)" "distinct (map sf_id ps)"
    and "\<forall>q \<in> set ps. fa_value_of fa (Some e) (sf_column q) = Inr (VString (val q), val q = []) \<and> prepared (sf_id q) = None"
  shows "\<exists>prepared' e' n'. prepare_loop c reg s fa ps prepared (Some e) n = (Inr prepared', Some e', n') \<and>
    (\<forall>q \<in> set ps. prepared_field c reg p fa prepared' e' q (val q)) \<and>
    (\<forall>i. i \<notin> sf_id ` set ps \<longrightarrow> prepared' i = prepared i) \<and>
    (\<forall>col \<in> cols. col \<notin> sf_column ` set ps \<longrightarrow> fa_value_of fa (Some e') col = fa_value_of fa (Some e) col)"
  using assms(4-8)
proof (induction ps arbitrary: prepared e n)
  case Nil
  then show ?case by simp
next
  case (Cons q ps)
  note q = Cons.prems
  have now: "fa_value_of fa (Some e) (sf_column q) = Inr (VString (val q), val q = [])" "prepared (sf_id q) = None" "valid_policy q"
    "sf_column q \<in> cols" using q by auto
  define v where "v = masked_value reg q (val q)"
  obtain prepared1 e1 n1 where step: "prepare_loop c reg s fa (q # ps) prepared (Some e) n = prepare_loop c reg s fa ps prepared1 (Some e1) n1"
    "fa_value_of fa (Some e1) (sf_column q) = Inr (VString v, v = [])"
    "\<forall>col \<in> cols. col \<noteq> sf_column q \<longrightarrow> fa_value_of fa (Some e1) col = fa_value_of fa (Some e) col"
    "\<forall>i. i \<noteq> sf_id q \<longrightarrow> prepared1 i = prepared i" "case prepared1 (sf_id q) of None \<Rightarrow> v = val q | Some row \<Rightarrow> row_of c p q (val q) row"
  proof (cases "val q = []")
    case True
    then show ?thesis using now that [of prepared e n] by (simp add: v_def masked_value_def)
  next
    case False
    obtain e1 where e1: "fa_set fa (Some e) (sf_column q) (VString v) = Inr (Some e1)" "fa_value_of fa (Some e1) (sf_column q) = Inr (VString v, v = [])"
      "\<forall>col \<in> cols. col \<noteq> sf_column q \<longrightarrow> fa_value_of fa (Some e1) col = fa_value_of fa (Some e) col"
      using assms(1) now(4) unfolding entity_fields_def by blast
    from prepare_string_ok [OF now(3) assms(2) False assms(3), of reg n] show ?thesis
    proof
      assume "masked_value reg q (val q) = val q \<and> prepare_string c reg (Some s) q (val q) n = (Inr (val q, None), n)"
      then show ?thesis using False now e1 that [of prepared e1 n] by (simp add: v_def)
    next
      assume "masked_value reg q (val q) \<noteq> val q \<and>
        (\<exists>row. prepare_string c reg (Some s) q (val q) n = (Inr (masked_value reg q (val q), Some row), Suc n) \<and> row_of c p q (val q) row)"
      then obtain row where "prepare_string c reg (Some s) q (val q) n = (Inr (v, Some row), Suc n)" "row_of c p q (val q) row" by (auto simp: v_def)
      then show ?thesis using False now e1 that [of "prepared(sf_id q \<mapsto> row)" e1 "Suc n"] by simp
    qed
  qed
  have "\<forall>q' \<in> set ps. fa_value_of fa (Some e1) (sf_column q') = Inr (VString (val q'), val q' = []) \<and> prepared1 (sf_id q') = None"
  proof
    fix q' assume q': "q' \<in> set ps"
    then have "sf_column q' \<noteq> sf_column q" "sf_id q' \<noteq> sf_id q" "sf_column q' \<in> cols" using q(2-4) by (auto simp: image_iff)
    then show "fa_value_of fa (Some e1) (sf_column q') = Inr (VString (val q'), val q' = []) \<and> prepared1 (sf_id q') = None"
      using step(3,4) q(5) q' by auto
  qed
  with Cons.IH [of e1 prepared1 n1] q obtain prepared' e' n' where rest:
    "prepare_loop c reg s fa ps prepared1 (Some e1) n1 = (Inr prepared', Some e', n')"
    "\<forall>q \<in> set ps. prepared_field c reg p fa prepared' e' q (val q)" "\<forall>i. i \<notin> sf_id ` set ps \<longrightarrow> prepared' i = prepared1 i"
    "\<forall>col \<in> cols. col \<notin> sf_column ` set ps \<longrightarrow> fa_value_of fa (Some e') col = fa_value_of fa (Some e1) col" by auto
  have "sf_id q \<notin> sf_id ` set ps" "sf_column q \<notin> sf_column ` set ps" using q(3,4) by auto
  then have "prepared_field c reg p fa prepared' e' q (val q)"
    using rest(3,4) step(2,5) now(4) unfolding prepared_field_def v_def by simp
  then show ?case using rest step(1,3,4) by (intro exI [of _ prepared'] exI [of _ e'] exI [of _ n']) auto
qed

text \<open>Saving stores every prepared row under its tenant, its policy and the record, and touches nothing else.\<close>

lemma save_prepared_values_ok:
  assumes "side_table vs rows" "rs_value_store s = Some vs" "0 < rid" "distinct ids"
    and "\<forall>i row. prepared i = Some row \<longrightarrow> sv_policy row = i"
  shows "\<exists>st'. save_prepared_values (Some s) (map prepared ids) rid st = (None, st') \<and>
    (\<forall>i \<in> set ids. \<forall>row. prepared i = Some row \<longrightarrow> (\<exists>k. rows st' (sv_tenant row, i, rid) = Some (row\<lparr>sv_record := rid, sv_id := k\<rparr>))) \<and>
    (\<forall>key. (\<forall>i \<in> set ids. \<forall>row. prepared i = Some row \<longrightarrow> key \<noteq> (sv_tenant row, i, rid)) \<longrightarrow> rows st' key = rows st key)"
  using assms(4)
proof (induction ids arbitrary: st)
  case Nil
  then show ?case by simp
next
  case (Cons i ids)
  show ?case
  proof (cases "prepared i")
    case None
    then show ?thesis using Cons by (simp add: save_prepared_def)
  next
    case (Some row)
    let ?row = "row\<lparr>sv_record := rid\<rparr>"
    have i: "sv_policy row = i" using assms(5) Some by blast
    have "\<exists>st1. vs_save vs ?row st = (None, st1) \<and> (\<forall>key. key \<noteq> (sv_tenant ?row, sv_policy ?row, sv_record ?row) \<longrightarrow> rows st1 key = rows st key) \<and>
      (\<exists>k. rows st1 (sv_tenant ?row, sv_policy ?row, sv_record ?row) = Some (?row\<lparr>sv_id := k\<rparr>))"
      using assms(1) unfolding side_table_def by blast
    then obtain st1 k where st1: "vs_save vs ?row st = (None, st1)" "\<forall>key. key \<noteq> (sv_tenant row, i, rid) \<longrightarrow> rows st1 key = rows st key"
      "rows st1 (sv_tenant row, i, rid) = Some (row\<lparr>sv_record := rid, sv_id := k\<rparr>)"
      using i by auto
    from Cons.IH [of st1] Cons.prems obtain st' where st': "save_prepared_values (Some s) (map prepared ids) rid st1 = (None, st')"
      "\<forall>j \<in> set ids. \<forall>row. prepared j = Some row \<longrightarrow> (\<exists>k. rows st' (sv_tenant row, j, rid) = Some (row\<lparr>sv_record := rid, sv_id := k\<rparr>))"
      "\<forall>key. (\<forall>j \<in> set ids. \<forall>row. prepared j = Some row \<longrightarrow> key \<noteq> (sv_tenant row, j, rid)) \<longrightarrow> rows st' key = rows st1 key" by auto
    have "save_prepared_values (Some s) (map prepared (i # ids)) rid st = (None, st')"
      using Some st1(1) st'(1) assms(2,3) by (simp add: save_prepared_def)
    moreover have "rows st' (sv_tenant row, i, rid) = Some (row\<lparr>sv_record := rid, sv_id := k\<rparr>)"
    proof -
      have "\<forall>j \<in> set ids. \<forall>row'. prepared j = Some row' \<longrightarrow> (sv_tenant row, i, rid) \<noteq> (sv_tenant row', j, rid)" using Cons.prems by auto
      from st'(3) [rule_format, OF this [rule_format]] st1(3) show ?thesis by simp
    qed
    moreover have "rows st' key = rows st key" if "\<forall>j \<in> set (i # ids). \<forall>row. prepared j = Some row \<longrightarrow> key \<noteq> (sv_tenant row, j, rid)" for key
    proof -
      from that Some have "key \<noteq> (sv_tenant row, i, rid)" by simp
      then have "rows st1 key = rows st key" using st1(2) by blast
      moreover have "rows st' key = rows st1 key" by (rule st'(3) [rule_format]) (use that in simp)
      ultimately show ?thesis by simp
    qed
    ultimately show ?thesis using st'(2) Some by auto
  qed
qed

lemma map_of_same: "\<forall>row \<in> set found. row = r \<and> sv_record row = k \<Longrightarrow> map_of (rev (map (\<lambda>row. (sv_record row, row)) found)) k = (if found = [] then None else Some r)"
proof (induction found rule: rev_induct)
  case (snoc x xs)
  then show ?case by auto
qed simp

text \<open>Restoring one record: every column with a row gets the row's value, and no other column changes.\<close>

lemma restore_policy_loop_ok:
  assumes "entity_fields fa cols" "side_table vs rows" "0 < rid"
    and "sf_column ` set ps \<subseteq> cols" "distinct (map sf_column ps)" "\<forall>q \<in> set ps. 0 \<le> sf_tenant q"
    and "\<forall>q \<in> set ps. \<forall>row. rows st (sf_tenant q, sf_id q, rid) = Some row \<longrightarrow> row_of c p q (val q) row"
  shows "\<exists>e'. restore_policy_loop c (Some p) vs fa [rid] ps [\<lparr>rp_tenant = t, rp_record = rid, rp_entity = Some e\<rparr>] st =
      (None, [\<lparr>rp_tenant = t, rp_record = rid, rp_entity = Some e'\<rparr>]) \<and>
    (\<forall>q \<in> set ps. fa_value_of fa (Some e') (sf_column q) =
      (if rows st (sf_tenant q, sf_id q, rid) = None then fa_value_of fa (Some e) (sf_column q) else Inr (VString (val q), val q = []))) \<and>
    (\<forall>col \<in> cols. col \<notin> sf_column ` set ps \<longrightarrow> fa_value_of fa (Some e') col = fa_value_of fa (Some e) col)"
  using assms(4-7)
proof (induction ps arbitrary: e)
  case Nil
  then show ?case by simp
next
  case (Cons q ps)
  note q = Cons.prems
  let ?x = "\<lambda>e. \<lparr>rp_tenant = t, rp_record = rid, rp_entity = Some e\<rparr>"
  have "\<exists>found. vs_list_by_records vs (sf_tenant q) (sf_id q) [rid] st = Inr found \<and>
      set found = {row. \<exists>i \<in> set [rid]. rows st (sf_tenant q, sf_id q, i) = Some row \<and> sv_record row = i}"
    using assms(2) unfolding side_table_def by blast
  then obtain found where found: "vs_list_by_records vs (sf_tenant q) (sf_id q) [rid] st = Inr found"
    "set found = {row. rows st (sf_tenant q, sf_id q, rid) = Some row \<and> sv_record row = rid}" by auto
  have its_record: "rows st (sf_tenant q, sf_id q, rid) = Some row \<Longrightarrow> sv_record row = rid" for row
    using assms(2) unfolding side_table_def by blast
  let ?by = "map_of (rev (map (\<lambda>row. (sv_record row, row)) found))"
  have by_record: "?by rid = rows st (sf_tenant q, sf_id q, rid)"
  proof (cases "rows st (sf_tenant q, sf_id q, rid)")
    case None
    then have "found = []" using found(2) by simp
    then show ?thesis using None by simp
  next
    case (Some row)
    then have "set found = {row}" using found(2) its_record by auto
    then have "\<forall>x \<in> set found. x = row \<and> sv_record x = rid" "found \<noteq> []" using its_record [OF Some] by auto
    then show ?thesis using map_of_same [of found row rid] Some by simp
  qed
  have "sf_column q \<in> cols" using q(1) by simp
  obtain e1 where e1: "restore_entity_loop c (Some p) fa q ?by [?x e] = (None, [?x e1])"
    "fa_value_of fa (Some e1) (sf_column q) =
      (if rows st (sf_tenant q, sf_id q, rid) = None then fa_value_of fa (Some e) (sf_column q) else Inr (VString (val q), val q = []))"
    "\<forall>col \<in> cols. col \<noteq> sf_column q \<longrightarrow> fa_value_of fa (Some e1) col = fa_value_of fa (Some e) col"
  proof (cases "rows st (sf_tenant q, sf_id q, rid)")
    case None
    then show ?thesis using by_record that [of e] by simp
  next
    case (Some row)
    then have "row_of c p q (val q) row" using q(4) by simp
    then have dec: "protector_decrypt c (Some p) (sv_ciphertext row) (storage_associated_data (sf_tenant q) (sf_id q)) = Inr (val q)"
      by (simp add: row_of_def)
    obtain e1 where "fa_set fa (Some e) (sf_column q) (VString (val q)) = Inr (Some e1)"
      "fa_value_of fa (Some e1) (sf_column q) = Inr (VString (val q), val q = [])"
      "\<forall>col \<in> cols. col \<noteq> sf_column q \<longrightarrow> fa_value_of fa (Some e1) col = fa_value_of fa (Some e) col"
      using assms(1) \<open>sf_column q \<in> cols\<close> unfolding entity_fields_def by blast
    then show ?thesis using Some by_record dec that [of e1] by simp
  qed
  from Cons.IH [of e1] q obtain e' where rest: "restore_policy_loop c (Some p) vs fa [rid] ps [?x e1] st = (None, [?x e'])"
    "\<forall>q \<in> set ps. fa_value_of fa (Some e') (sf_column q) =
      (if rows st (sf_tenant q, sf_id q, rid) = None then fa_value_of fa (Some e1) (sf_column q) else Inr (VString (val q), val q = []))"
    "\<forall>col \<in> cols. col \<notin> sf_column ` set ps \<longrightarrow> fa_value_of fa (Some e') col = fa_value_of fa (Some e1) col" by auto
  have run: "restore_policy_loop c (Some p) vs fa [rid] (q # ps) [?x e] st = (None, [?x e'])"
    using q(3) found(1) e1(1) rest(1) by simp
  have "sf_column q \<notin> sf_column ` set ps" "\<forall>q' \<in> set ps. sf_column q' \<noteq> sf_column q \<and> sf_column q' \<in> cols" using q(1,2) by (auto simp: image_iff)
  with e1(2,3) rest(2,3) \<open>sf_column q \<in> cols\<close>
  have "\<forall>q' \<in> set (q # ps). fa_value_of fa (Some e') (sf_column q') =
      (if rows st (sf_tenant q', sf_id q', rid) = None then fa_value_of fa (Some e) (sf_column q') else Inr (VString (val q'), val q' = []))" by simp
  moreover have "\<forall>col \<in> cols. col \<notin> sf_column ` set (q # ps) \<longrightarrow> fa_value_of fa (Some e') col = fa_value_of fa (Some e) col" using e1(3) rest(3) by simp
  ultimately show ?case using run by blast
qed

text \<open>C23: What \<open>PrepareEntityWithPolicies\<close> masks is restored. For any entity and policies on distinct columns, preparing succeeds and leaves the masks
  in the columns; saving the prepared rows, in whatever order, and restoring the stored entity gives every column its original value. The side table, the field access
  and the cipher are used through their contracts only, and the side table may hold rows of other records.\<close>

theorem storage_round_trip:
  assumes "side_table vs rows" "entity_fields fa (sf_column ` set ps)" "sealed_opens c p"
    and "s = new_redact_storage (Some vs) pr (Some p) (Some fa)" "0 < rid" "ps \<noteq> []"
    and "list_all valid_policy ps" "distinct (map sf_column ps)" "distinct (map sf_id ps)"
    and "\<forall>q \<in> set ps. fa_value_of fa (Some e) (sf_column q) = Inr (VString (val q), val q = [])"
    and "\<forall>q \<in> set ps. rows st (sf_tenant q, sf_id q, rid) = None"
  shows "\<exists>prepared e' n'. prepare_entity_with_policies c reg (Some s) (Some e) ps n = (Inr prepared, Some e', n') \<and>
    (\<forall>q \<in> set ps. fa_value_of fa (Some e') (sf_column q) = Inr (VString (masked_value reg q (val q)), masked_value reg q (val q) = [])) \<and>
    (\<forall>ids. set ids = dom prepared \<and> distinct ids \<longrightarrow>
      (\<exists>st' e''. save_prepared_values (Some s) (map prepared ids) rid st = (None, st') \<and>
        restore_entities c (Some s) ps [\<lparr>rp_tenant = t, rp_record = rid, rp_entity = Some e'\<rparr>] st' = (None, [\<lparr>rp_tenant = t, rp_record = rid, rp_entity = Some e''\<rparr>]) \<and>
        (\<forall>q \<in> set ps. fa_value_of fa (Some e'') (sf_column q) = fa_value_of fa (Some e) (sf_column q))))"
proof -
  have parts: "rs_value_store s = Some vs" "rs_protector s = Some p" "rs_field_accessor s = Some fa" by (simp_all add: assms(4) new_redact_storage_def)
  obtain prepared e' n' where prep: "prepare_loop c reg s fa ps Map.empty (Some e) n = (Inr prepared, Some e', n')"
    "\<forall>q \<in> set ps. prepared_field c reg p fa prepared e' q (val q)" "\<forall>i. i \<notin> sf_id ` set ps \<longrightarrow> prepared i = None"
    using prepare_loop_ok [OF assms(2,3) parts(2) assms(7) subset_refl assms(8,9), of e val Map.empty reg n] assms(10) by auto
  have row_policy: "\<exists>q \<in> set ps. i = sf_id q \<and> row_of c p q (val q) row" if "prepared i = Some row" for i row
  proof -
    from that prep(3) obtain q where "q \<in> set ps" "i = sf_id q" by (metis imageE option.distinct(1))
    with that prep(2) show ?thesis by (fastforce simp: prepared_field_def)
  qed
  have after: "\<exists>st' e''. save_prepared_values (Some s) (map prepared ids) rid st = (None, st') \<and>
      restore_entities c (Some s) ps [\<lparr>rp_tenant = t, rp_record = rid, rp_entity = Some e'\<rparr>] st' = (None, [\<lparr>rp_tenant = t, rp_record = rid, rp_entity = Some e''\<rparr>]) \<and>
      (\<forall>q \<in> set ps. fa_value_of fa (Some e'') (sf_column q) = fa_value_of fa (Some e) (sf_column q))"
    if ids: "set ids = dom prepared" "distinct ids" for ids
  proof -
    have "\<forall>i row. prepared i = Some row \<longrightarrow> sv_policy row = i" using row_policy by (auto simp: row_of_def)
    from save_prepared_values_ok [OF assms(1) parts(1) assms(5) ids(2) this] obtain st' where
      st': "save_prepared_values (Some s) (map prepared ids) rid st = (None, st')"
      "\<forall>i \<in> set ids. \<forall>row. prepared i = Some row \<longrightarrow> (\<exists>k. rows st' (sv_tenant row, i, rid) = Some (row\<lparr>sv_record := rid, sv_id := k\<rparr>))"
      "\<forall>key. (\<forall>i \<in> set ids. \<forall>row. prepared i = Some row \<longrightarrow> key \<noteq> (sv_tenant row, i, rid)) \<longrightarrow> rows st' key = rows st key" by blast
    have none: "rows st' (sf_tenant q, sf_id q, rid) = None" if "q \<in> set ps" "prepared (sf_id q) = None" for q
    proof -
      have "\<forall>i \<in> set ids. \<forall>row. prepared i = Some row \<longrightarrow> (sf_tenant q, sf_id q, rid) \<noteq> (sv_tenant row, i, rid)" using that(2) by auto
      from st'(3) [rule_format, OF this [rule_format]] show ?thesis using assms(11) that(1) by simp
    qed
    have some: "\<exists>row. rows st' (sf_tenant q, sf_id q, rid) = Some row \<and> row_of c p q (val q) row"
      if "q \<in> set ps" "prepared (sf_id q) = Some row" for q row
    proof -
      from that prep(2) have row: "row_of c p q (val q) row" by (fastforce simp: prepared_field_def)
      moreover from ids(1) that(2) have "sf_id q \<in> set ids" by auto
      ultimately show ?thesis using st'(2) that(2) by (fastforce simp: row_of_def)
    qed
    have stored: "\<forall>q \<in> set ps. \<forall>row. rows st' (sf_tenant q, sf_id q, rid) = Some row \<longrightarrow> row_of c p q (val q) row"
    proof (intro ballI allI impI)
      fix q row assume "q \<in> set ps" "rows st' (sf_tenant q, sf_id q, rid) = Some row"
      then show "row_of c p q (val q) row" using none some by (cases "prepared (sf_id q)") fastforce+
    qed
    have tenants: "\<forall>q \<in> set ps. 0 \<le> sf_tenant q" using assms(7) by (simp add: list_all_iff valid_policy_def)
    from restore_policy_loop_ok [OF assms(2,1,5) subset_refl assms(8) tenants stored, of t e'] obtain e'' where
      e'': "restore_policy_loop c (Some p) vs fa [rid] ps [\<lparr>rp_tenant = t, rp_record = rid, rp_entity = Some e'\<rparr>] st' =
        (None, [\<lparr>rp_tenant = t, rp_record = rid, rp_entity = Some e''\<rparr>])"
      "\<forall>q \<in> set ps. fa_value_of fa (Some e'') (sf_column q) =
        (if rows st' (sf_tenant q, sf_id q, rid) = None then fa_value_of fa (Some e') (sf_column q) else Inr (VString (val q), val q = []))" by blast
    have "restore_entities c (Some s) ps [\<lparr>rp_tenant = t, rp_record = rid, rp_entity = Some e'\<rparr>] st' = (None, [\<lparr>rp_tenant = t, rp_record = rid, rp_entity = Some e''\<rparr>])"
      using e''(1) parts assms(5,6) by (simp add: restore_entities_def)
    moreover have "fa_value_of fa (Some e'') (sf_column q) = fa_value_of fa (Some e) (sf_column q)" if q: "q \<in> set ps" for q
    proof (cases "prepared (sf_id q)")
      case None
      then have "fa_value_of fa (Some e') (sf_column q) = Inr (VString (val q), val q = [])" using prep(2) q by (fastforce simp: prepared_field_def)
      then show ?thesis using e''(2) none [OF q None] assms(10) q by simp
    next
      case (Some row)
      then show ?thesis using e''(2) some [OF q Some] assms(10) q by auto
    qed
    ultimately show ?thesis using st'(1) by blast
  qed
  have "prepare_entity_with_policies c reg (Some s) (Some e) ps n = (Inr prepared, Some e', n')"
    using prep(1) parts assms(6) by (simp add: prepare_entity_with_policies_def)
  moreover have "\<forall>q \<in> set ps. fa_value_of fa (Some e') (sf_column q) = Inr (VString (masked_value reg q (val q)), masked_value reg q (val q) = [])"
    using prep(2) by (simp add: prepared_field_def)
  ultimately show ?thesis using after by blast
qed

subsection \<open>A value sent back\<close>

lemma save_restore_row:
  assumes "side_table vs rows" "rs_value_store s = Some vs" "rs_protector s = Some p" "0 < rid" "valid_policy q" "row_of c p q v row"
  shows "\<exists>st'. save_prepared (Some s) (Some row) rid st = (None, st') \<and> restore_string c (Some s) q rid stored st' = Inr (v, True)"
proof -
  let ?row = "row\<lparr>sv_record := rid\<rparr>"
  have "\<exists>st'. vs_save vs ?row st = (None, st') \<and> (\<forall>key. key \<noteq> (sv_tenant ?row, sv_policy ?row, sv_record ?row) \<longrightarrow> rows st' key = rows st key) \<and>
      (\<exists>k. rows st' (sv_tenant ?row, sv_policy ?row, sv_record ?row) = Some (?row\<lparr>sv_id := k\<rparr>))"
    using assms(1) unfolding side_table_def by blast
  then obtain st' k where st': "vs_save vs ?row st = (None, st')" "rows st' (sf_tenant q, sf_id q, rid) = Some (?row\<lparr>sv_id := k\<rparr>)"
    using assms(6) by (auto simp: row_of_def)
  have "vs_find vs (sf_tenant q) (sf_id q) rid st' = Inr (?row\<lparr>sv_id := k\<rparr>)"
    using assms(1) st'(2) unfolding side_table_def by simp
  moreover have "\<not> sf_tenant q < 0" using assms(5) by (simp add: valid_policy_def)
  ultimately show ?thesis using st'(1) assms(2-4,6) by (simp add: save_prepared_def restore_string_def row_of_def)
qed

text \<open>Saving what the application read. A client that sends the mask of a column back unchanged keeps the stored value exactly when the
  rule leaves its own masks alone, which masking with one character does. With any other rule, such as a digest, the mask is taken
  for a new value: its row replaces the row of the original value, which is lost, and restoring then yields the mask.\<close>

theorem resubmitted_mask:
  assumes "side_table vs rows" "sealed_opens c p" "s = new_redact_storage (Some vs) pr (Some p) fa" "0 < rid"
    and "valid_policy q" "v \<noteq> []" "masked_value reg q v = m" "m \<noteq> v" "m \<noteq> []"
  shows "\<exists>row st1. prepare_string c reg (Some s) q v n = (Inr (m, Some row), Suc n) \<and>
    save_prepared (Some s) (Some row) rid st = (None, st1) \<and> restore_string c (Some s) q rid m st1 = Inr (v, True) \<and>
    (if masked_value reg q m = m then prepare_string c reg (Some s) q m (Suc n) = (Inr (m, None), Suc n)
     else \<exists>row' st2. prepare_string c reg (Some s) q m (Suc n) = (Inr (masked_value reg q m, Some row'), Suc (Suc n)) \<and>
       save_prepared (Some s) (Some row') rid st1 = (None, st2) \<and> restore_string c (Some s) q rid (masked_value reg q m) st2 = Inr (m, True)) \<and>
    ((\<exists>r kf kl mm. valid_rune r \<and> fp_transform (sf_rule q) = Some (\<lambda>reg. on_string (\<lambda>s. Inr (mask_with_min s kf kl mm (utf8_encode r))))) \<longrightarrow>
       masked_value reg q m = m)"
proof -
  have parts: "rs_value_store s = Some vs" "rs_protector s = Some p" by (simp_all add: assms(3) new_redact_storage_def)
  obtain row where row: "prepare_string c reg (Some s) q v n = (Inr (m, Some row), Suc n)" "row_of c p q v row"
    using prepare_string_ok [OF assms(5,2,6) parts(2), of reg n] assms(7,8) by auto
  obtain st1 where st1: "save_prepared (Some s) (Some row) rid st = (None, st1)" "restore_string c (Some s) q rid m st1 = Inr (v, True)"
    using save_restore_row [OF assms(1) parts assms(4,5) row(2)] by blast
  have again: "if masked_value reg q m = m then prepare_string c reg (Some s) q m (Suc n) = (Inr (m, None), Suc n)
     else \<exists>row' st2. prepare_string c reg (Some s) q m (Suc n) = (Inr (masked_value reg q m, Some row'), Suc (Suc n)) \<and>
       save_prepared (Some s) (Some row') rid st1 = (None, st2) \<and> restore_string c (Some s) q rid (masked_value reg q m) st2 = Inr (m, True)"
  proof (cases "masked_value reg q m = m")
    case True
    then show ?thesis using prepare_string_ok [OF assms(5,2,9) parts(2), of reg "Suc n"] by auto
  next
    case False
    then obtain row' where row': "prepare_string c reg (Some s) q m (Suc n) = (Inr (masked_value reg q m, Some row'), Suc (Suc n))" "row_of c p q m row'"
      using prepare_string_ok [OF assms(5,2,9) parts(2), of reg "Suc n"] by auto
    then show ?thesis using save_restore_row [OF assms(1) parts assms(4,5) row'(2), of st1] False by simp
  qed
  have mask: "masked_value reg q m = m" if "valid_rune r"
    "fp_transform (sf_rule q) = Some (\<lambda>reg. on_string (\<lambda>s. Inr (mask_with_min s kf kl mm (utf8_encode r))))" for r kf kl mm
  proof -
    have "fp_mode (sf_rule q) = policy_mode_apply_rule" using assms(5) by (simp add: valid_policy_def)
    then have at_w: "masked_value reg q w = (if w = [] then [] else mask_with_min w kf kl mm (utf8_encode r))" for w
      using that(2) by (simp add: masked_value_def policy_apply_def policy_mode_apply_rule_def policy_mode_full_def policy_mode_hide_def on_string_def)
    show ?thesis using assms(6,7,9) mask_idempotent [OF that(1), of v kf kl mm] by (simp add: at_w)
  qed
  show ?thesis using row(1) st1 again mask by blast
qed

subsection \<open>An application\<close>

definition row_key :: "storage_value \<Rightarrow> int \<times> int \<times> int" where
  "row_key row = (sv_tenant row, sv_policy row, sv_record row)"

definition list_table :: "storage_value list value_store" where
  "list_table = \<lparr>vs_find = \<lambda>t p r st. (case find (\<lambda>row. row_key row = (t, p, r)) st of None \<Rightarrow> Inl err_storage_value_not_found | Some row \<Rightarrow> Inr row),
     vs_list_by_records = \<lambda>t p ids st. Inr (List.map_filter (\<lambda>i. find (\<lambda>row. row_key row = (t, p, i)) st) ids),
     vs_list_by_digest = \<lambda>t p d st. Inr (filter (\<lambda>row. sv_tenant row = t \<and> sv_policy row = p \<and> sv_digest row = d) st),
     vs_save = \<lambda>row st. (None, row # filter (\<lambda>x. row_key x \<noteq> row_key row) st),
     vs_delete = \<lambda>row st. (None, filter (\<lambda>x. row_key x \<noteq> row_key row) st)\<rparr>"

definition list_rows :: "storage_value list \<Rightarrow> int \<times> int \<times> int \<rightharpoonup> storage_value" where
  "list_rows st key = find (\<lambda>row. row_key row = key) st"

definition fun_fields :: "(string \<Rightarrow> string) field_accessor" where
  "fun_fields = \<lparr>fa_value_of = \<lambda>e col. (case e of None \<Rightarrow> Inl (NewErr ''nil entity'') | Some f \<Rightarrow> Inr (VString (f col), f col = [])),
     fa_set = \<lambda>e col v. (case (e, v) of (Some f, VString s) \<Rightarrow> Inr (Some (f(col := s))) | _ \<Rightarrow> Inl (NewErr ''invalid field''))\<rparr>"

definition toy_crypto :: storage_crypto where
  "toy_crypto = \<lparr>sc_sha256 = \<lambda>s. s, sc_hmac = \<lambda>k s. k @ s, sc_cipher = \<lambda>k. None, sc_nonce_size = 1, sc_seal = \<lambda>k nonce v aad. CHR ''#'' # v,
     sc_open = \<lambda>k nonce text aad. Inr (tl text), sc_rand = \<lambda>n. Inr ''n''\<rparr>"

definition toy_protector :: storage_protector where
  "toy_protector = \<lparr>sp_encryption_key = ''k'', sp_digest_key = ''d''\<rparr>"

definition column_policy :: "int \<Rightarrow> string \<Rightarrow> (string \<Rightarrow> string) \<Rightarrow> storage_field_policy" where
  "column_policy i col f = \<lparr>sf_id = i, sf_tenant = 0, sf_table = ''users'', sf_column = col,
     sf_rule = empty_policy\<lparr>fp_mode := policy_mode_apply_rule, fp_transform := Some (\<lambda>reg. on_string (\<lambda>s. Inr (f s)))\<rparr>\<rparr>"

lemma find_filter_key: "key \<noteq> row_key row \<Longrightarrow> find (\<lambda>x. row_key x = key) (filter (\<lambda>x. row_key x \<noteq> row_key row) st) = find (\<lambda>x. row_key x = key) st"
  by (induction st) auto

lemma list_side_table: "side_table list_table list_rows"
  unfolding side_table_def
proof (intro conjI allI)
  fix st and row :: storage_value
  let ?st' = "row # filter (\<lambda>x. row_key x \<noteq> row_key row) st"
  have key: "row_key row = (sv_tenant row, sv_policy row, sv_record row)" by (simp add: row_key_def)
  have "\<forall>key. key \<noteq> row_key row \<longrightarrow> list_rows ?st' key = list_rows st key" by (auto simp: list_rows_def find_filter_key)
  moreover have "list_rows ?st' (row_key row) = Some (row\<lparr>sv_id := sv_id row\<rparr>)" by (simp add: list_rows_def)
  moreover have "vs_save list_table row st = (None, ?st')" by (simp add: list_table_def)
  ultimately show "\<exists>st'. vs_save list_table row st = (None, st') \<and>
      (\<forall>key. key \<noteq> (sv_tenant row, sv_policy row, sv_record row) \<longrightarrow> list_rows st' key = list_rows st key) \<and>
      (\<exists>i. list_rows st' (sv_tenant row, sv_policy row, sv_record row) = Some (row\<lparr>sv_id := i\<rparr>))"
    unfolding key [symmetric] by blast
next
  fix st t p ids
  have "set (List.map_filter f ids) = {y. \<exists>i \<in> set ids. f i = Some y}" for f :: "int \<Rightarrow> storage_value option"
    by (force simp: List.map_filter_def)
  moreover have "list_rows st (t, p, i) = Some row \<Longrightarrow> sv_record row = i" for i row by (auto simp: list_rows_def find_Some_iff row_key_def)
  ultimately show "\<exists>found. vs_list_by_records list_table t p ids st = Inr found \<and> set found = {row. \<exists>i \<in> set ids. list_rows st (t, p, i) = Some row \<and> sv_record row = i}"
    by (auto simp: list_table_def list_rows_def [symmetric])
next
  fix st t p r and row :: storage_value
  show "list_rows st (t, p, r) = Some row \<longrightarrow> sv_record row = r" by (auto simp: list_rows_def find_Some_iff row_key_def)
next
  fix st t p r
  show "vs_find list_table t p r st = (case list_rows st (t, p, r) of None \<Rightarrow> Inl err_storage_value_not_found | Some row \<Rightarrow> Inr row)"
    by (simp add: list_table_def list_rows_def)
qed

lemma fun_entity_fields: "entity_fields fun_fields cols"
  by (simp add: entity_fields_def fun_fields_def)

lemma toy_sealed: "sealed_opens toy_crypto toy_protector"
  by (simp add: sealed_opens_def toy_crypto_def toy_protector_def)

lemma column_policy_valid: "0 < i \<Longrightarrow> col \<noteq> [] \<Longrightarrow> valid_policy (column_policy i col f)"
  by (simp add: valid_policy_def column_policy_def string_ruleI)

text \<open>Two users' phone numbers, of which one is short enough to be its own mask.\<close>

definition phone_policies :: "storage_field_policy list" where
  "phone_policies = [column_policy 1 ''phone'' (\<lambda>s. mask_with_min s 3 4 0 ''*''), column_policy 2 ''short'' (\<lambda>s. mask_with_min s 3 4 0 ''*'')]"

definition phone_user :: "string \<Rightarrow> string" where
  "phone_user col = (if col = ''phone'' then ''13812345678'' else ''12345'')"

definition toy_storage :: "(storage_value list, string \<Rightarrow> string) redact_storage" where
  "toy_storage = new_redact_storage (Some list_table) None (Some toy_protector) (Some fun_fields)"

lemma storage_round_trip_witness:
  "\<exists>prepared e' n'. prepare_entity_with_policies toy_crypto Map.empty (Some toy_storage) (Some phone_user) phone_policies 0 = (Inr prepared, Some e', n') \<and>
    fa_value_of fun_fields (Some e') ''phone'' = Inr (VString (masked_value Map.empty (column_policy 1 ''phone'' (\<lambda>s. mask_with_min s 3 4 0 ''*'')) ''13812345678''),
      masked_value Map.empty (column_policy 1 ''phone'' (\<lambda>s. mask_with_min s 3 4 0 ''*'')) ''13812345678'' = [])"
proof -
  have cols: "sf_column ` set phone_policies = {''phone'', ''short''}" by (auto simp: phone_policies_def column_policy_def)
  have "list_all valid_policy phone_policies" by (simp add: phone_policies_def column_policy_valid)
  moreover have "distinct (map sf_column phone_policies)" "distinct (map sf_id phone_policies)" "phone_policies \<noteq> []"
    by (simp_all add: phone_policies_def column_policy_def)
  moreover have "\<forall>q \<in> set phone_policies. fa_value_of fun_fields (Some phone_user) (sf_column q) = Inr (VString (phone_user (sf_column q)), phone_user (sf_column q) = [])"
    by (simp add: fun_fields_def)
  moreover have "\<forall>q \<in> set phone_policies. list_rows [] (sf_tenant q, sf_id q, 7) = None" by (simp add: list_rows_def)
  ultimately obtain prepared e' n' where
    run: "prepare_entity_with_policies toy_crypto Map.empty (Some toy_storage) (Some phone_user) phone_policies 0 = (Inr prepared, Some e', n')"
      "\<forall>q \<in> set phone_policies. fa_value_of fun_fields (Some e') (sf_column q) =
        Inr (VString (masked_value Map.empty q (phone_user (sf_column q))), masked_value Map.empty q (phone_user (sf_column q)) = [])"
    using storage_round_trip [OF list_side_table fun_entity_fields toy_sealed toy_storage_def, of 7 phone_policies phone_user "\<lambda>q. phone_user (sf_column q)" "[]" Map.empty 0 0]
    by auto
  have q: "column_policy 1 ''phone'' (\<lambda>s. mask_with_min s 3 4 0 ''*'') \<in> set phone_policies" by (simp add: phone_policies_def)
  have "sf_column (column_policy 1 ''phone'' f) = ''phone''" for f by (simp add: column_policy_def)
  moreover have "phone_user ''phone'' = ''13812345678''" by (simp add: phone_user_def)
  ultimately show ?thesis using run(1) run(2) [rule_format, OF q] by auto
qed

text \<open>A rule that doubles a value, as a digest that is not a fixed point.\<close>

lemma resubmitted_mask_witness:
  "\<exists>row st1. prepare_string toy_crypto Map.empty (Some toy_storage) (column_policy 1 ''phone'' (\<lambda>s. s @ s)) ''ab'' 0 = (Inr (''abab'', Some row), Suc 0) \<and>
    save_prepared (Some toy_storage) (Some row) 7 [] = (None, st1) \<and>
    restore_string toy_crypto (Some toy_storage) (column_policy 1 ''phone'' (\<lambda>s. s @ s)) 7 ''abab'' st1 = Inr (''ab'', True) \<and>
    (\<exists>row' st2. prepare_string toy_crypto Map.empty (Some toy_storage) (column_policy 1 ''phone'' (\<lambda>s. s @ s)) ''abab'' (Suc 0) = (Inr (''abababab'', Some row'), Suc (Suc 0)) \<and>
      save_prepared (Some toy_storage) (Some row') 7 st1 = (None, st2) \<and>
      restore_string toy_crypto (Some toy_storage) (column_policy 1 ''phone'' (\<lambda>s. s @ s)) 7 ''abababab'' st2 = Inr (''abab'', True))"
proof -
  let ?q = "column_policy 1 ''phone'' (\<lambda>s. s @ s)"
  have m: "masked_value Map.empty ?q ''ab'' = ''abab''" "masked_value Map.empty ?q ''abab'' = ''abababab''"
    by (simp_all add: masked_value_def column_policy_def policy_apply_def policy_mode_apply_rule_def policy_mode_full_def policy_mode_hide_def on_string_def)
  have v: "valid_policy ?q" by (simp add: column_policy_valid)
  show ?thesis
    using resubmitted_mask [OF list_side_table toy_sealed toy_storage_def _ v _ m(1), of 7 0 "[]"] unfolding m(2) by auto
qed

end
