(* ===== verification/Sql_Scan.thy ===== *)
theory Sql_Scan
  imports Go_Strings Go_Base
begin

text \<open>
  The scanner of raw SQL joins (database/gorm/internal/callback/sql.go): top-level tokens, the joins with their tables and \<open>ON\<close>
  ranges, and the rewriting of the \<open>ON\<close> conditions.

  A byte is a \<open>char\<close> and positions are byte offsets. A slice expression out of range is a \<open>Panic\<close>. The dialect is the name of the
  database, or \<open>None\<close> where Go has no database or no dialector.
\<close>

subsection \<open>Tokens\<close>

record sql_token =
  tk_value :: string
  tk_start :: nat
  tk_end :: nat

definition substr :: "string \<Rightarrow> nat \<Rightarrow> nat \<Rightarrow> string" where
  "substr q a b = take (b - a) (drop a q)"

text \<open>What \<open>flush\<close> appends: the token from its start, if there is one, to the given end.\<close>

definition flush_token :: "string \<Rightarrow> nat option \<Rightarrow> nat \<Rightarrow> sql_token list" where
  "flush_token q start e = (case start of None \<Rightarrow> [] | Some s \<Rightarrow> [\<lparr>tk_value = substr q s e, tk_start = s, tk_end = e\<rparr>])"

definition newline :: char where "newline = CHR 0x0A"
definition quotes :: string where "quotes = [CHR 0x27, CHR 0x22, CHR 0x60]"

text \<open>The ends of a line comment and of a block comment: the offset at which the loop over the bytes resumes.\<close>

definition skip_line :: "string \<Rightarrow> nat \<Rightarrow> nat" where
  "skip_line q i = Suc (i + length (takeWhile (\<lambda>c. c \<noteq> newline) (drop i q)))"

function skip_block :: "string \<Rightarrow> nat \<Rightarrow> nat" where
  "skip_block q i =
     (if Suc i < length q \<and> (q ! i \<noteq> CHR ''*'' \<or> q ! Suc i \<noteq> CHR ''/'') then skip_block q (Suc i) else Suc (Suc i))"
  by pat_completeness auto
termination
  by (relation "measure (\<lambda>(q, i). length q - i)") auto

declare skip_block.simps [simp del]

lemma skip_progress: "i < skip_line q i" "i < skip_block q i"
  by (simp add: skip_line_def) (induction q i rule: skip_block.induct, subst skip_block.simps, auto)

lemma skip_block_later: "i < skip_block q (Suc (Suc i))"
  using skip_progress(2) [of "Suc (Suc i)" q] by simp

lemma scan_decreases: "\<not> length q \<le> i \<Longrightarrow> i < j \<Longrightarrow> length q - j < length (q :: string) - i"
  by simp

text \<open>
  The loop over the bytes: the offset, the start of the current token, the depth of parentheses and the closing quote of the literal it is in. A doubled
  quote stays in the literal, except for brackets; comments are recognised outside parentheses.
\<close>

function sql_scan :: "string \<Rightarrow> nat \<Rightarrow> nat option \<Rightarrow> nat \<Rightarrow> char option \<Rightarrow> sql_token list" where
  "sql_scan q i start depth quote =
     (if length q \<le> i then flush_token q start (length q)
      else let c = q ! i; begun = (case start of None \<Rightarrow> Some i | Some s \<Rightarrow> Some s) in
        case quote of
          Some close \<Rightarrow>
            if c = close then
              (if Suc i < length q \<and> q ! Suc i = close \<and> close \<noteq> CHR '']'' then sql_scan q (Suc (Suc i)) start depth quote
               else sql_scan q (Suc i) start depth None)
            else sql_scan q (Suc i) start depth quote
        | None \<Rightarrow>
            if depth = 0 \<and> c = CHR ''-'' \<and> Suc i < length q \<and> q ! Suc i = CHR ''-'' then
              flush_token q start i @ sql_scan q (skip_line q i) None depth None
            else if depth = 0 \<and> c = CHR ''/'' \<and> Suc i < length q \<and> q ! Suc i = CHR ''*'' then
              flush_token q start i @ sql_scan q (skip_block q (Suc (Suc i))) None depth None
            else if c \<in> set quotes then sql_scan q (Suc i) begun depth (Some c)
            else if c = CHR ''['' then sql_scan q (Suc i) begun depth (Some (CHR '']''))
            else if c = CHR ''('' then sql_scan q (Suc i) begun (Suc depth) None
            else if c = CHR '')'' then sql_scan q (Suc i) start (depth - 1) None
            else if c \<in> set [CHR '' '', CHR 0x09, CHR 0x0D, newline, CHR '',''] then
              (if depth = 0 then flush_token q start i @ sql_scan q (Suc i) None depth None else sql_scan q (Suc i) start depth None)
            else sql_scan q (Suc i) begun depth None)"
  by pat_completeness auto
termination
  by (relation "measure (\<lambda>(q, i, start, depth, quote). length q - i)")
    (simp_all add: scan_decreases skip_progress skip_block_later)

declare sql_scan.simps [simp del]

definition raw_sql_tokens :: "string \<Rightarrow> sql_token list" where
  "raw_sql_tokens q = sql_scan q 0 None 0 None"

subsection \<open>Keywords and identifiers\<close>

definition raw_sql_keyword :: "string \<Rightarrow> string" where
  "raw_sql_keyword v = to_upper (trim_in [CHR 0x60, CHR 0x22, CHR ''['', CHR '']''] v)"

definition is_join_condition_keyword :: "string \<Rightarrow> bool" where
  "is_join_condition_keyword v = (raw_sql_keyword v \<in> set [''ON'', ''USING'', ''JOIN'', ''LEFT'', ''RIGHT'', ''FULL'', ''INNER'', ''CROSS'', ''NATURAL'',
     ''USE'', ''FORCE'', ''IGNORE'', ''INDEX'', ''KEY'', ''PARTITION''])"

definition identifier_cutset :: string where
  "identifier_cutset = [CHR 0x60, CHR 0x22, CHR ''['', CHR '']'', CHR ''('', CHR '')'', CHR '','']"

definition normalize_sql_identifier :: "string \<Rightarrow> string" where
  "normalize_sql_identifier v = trim_in identifier_cutset (List.last (split_byte (trim_in identifier_cutset v) (CHR ''.'')))"

definition is_quoted_sql_identifier :: "string \<Rightarrow> bool" where
  "is_quoted_sql_identifier v =
     (let part = trim_space (List.last (split_byte (trim_in [CHR ''('', CHR '')'', CHR '',''] (trim_space v)) (CHR ''.'')))
      in if length part < 2 then False
         else hd part = CHR 0x60 \<and> List.last part = CHR 0x60 \<or> hd part = CHR 0x22 \<and> List.last part = CHR 0x22 \<or>
           hd part = CHR ''['' \<and> List.last part = CHR '']'')"

definition normalize_raw_sql_identifier :: "string option \<Rightarrow> string \<Rightarrow> string" where
  "normalize_raw_sql_identifier dialect v =
     (let name = normalize_sql_identifier v in
      if dialect \<noteq> Some ''postgres'' \<or> is_quoted_sql_identifier v then name else to_lower name)"

definition is_raw_sql_space :: "char \<Rightarrow> bool" where
  "is_raw_sql_space c = (c = CHR '' '' \<or> c = CHR 0x09 \<or> c = CHR 0x0D \<or> c = newline)"

function skip_raw_sql_space :: "string \<Rightarrow> nat \<Rightarrow> nat \<Rightarrow> nat" where
  "skip_raw_sql_space q start e = (if start < e \<and> is_raw_sql_space (q ! start) then skip_raw_sql_space q (Suc start) e else start)"
  by pat_completeness auto
termination
  by (relation "measure (\<lambda>(q, start, e). e - start)") auto

declare skip_raw_sql_space.simps [simp del]

subsection \<open>Joins\<close>

text \<open>A reference to a table; \<open>tr_columns\<close> are the columns of the model's schema, where the reference comes from a model.\<close>

record sql_table_reference =
  tr_name :: string
  tr_alias :: string
  tr_columns :: "string set option"

definition new_sql_table_reference :: "string \<Rightarrow> string \<Rightarrow> string set option \<Rightarrow> sql_table_reference" where
  "new_sql_table_reference name alias columns =
     (let name = normalize_sql_identifier name; alias = normalize_sql_identifier alias
      in \<lparr>tr_name = name, tr_alias = (if alias = [] then name else alias), tr_columns = columns\<rparr>)"

record raw_join_segment =
  js_reference :: sql_table_reference
  js_condition_start :: nat
  js_condition_end :: nat
  js_join_type :: string
  js_supports_on :: bool

definition join_types :: "string list" where "join_types = [''LEFT'', ''RIGHT'', ''FULL'', ''INNER'', ''CROSS'']"

text \<open>\<open>before_join\<close> is the token before the \<open>JOIN\<close>, past an \<open>OUTER\<close>; indices count tokens, and none is \<open>None\<close>.\<close>

definition before :: "nat \<Rightarrow> nat option" where
  "before i = (if i = 0 then None else Some (i - 1))"

definition keyword_at :: "sql_token list \<Rightarrow> nat option \<Rightarrow> string \<Rightarrow> bool" where
  "keyword_at tokens i k = (case i of None \<Rightarrow> False | Some i \<Rightarrow> raw_sql_keyword (tk_value (tokens ! i)) = k)"

definition raw_join_start :: "sql_token list \<Rightarrow> nat \<Rightarrow> nat" where
  "raw_join_start tokens join_index =
     (let start = tk_start (tokens ! join_index); i = before join_index;
          (start, i) = (if keyword_at tokens i ''OUTER'' then (tk_start (tokens ! the i), before (the i)) else (start, i));
          (start, i) = (if i \<noteq> None \<and> raw_sql_keyword (tk_value (tokens ! the i)) \<in> set join_types then (tk_start (tokens ! the i), before (the i))
                        else (start, i))
      in if keyword_at tokens i ''NATURAL'' then tk_start (tokens ! the i) else start)"

definition raw_join_type :: "sql_token list \<Rightarrow> nat \<Rightarrow> string" where
  "raw_join_type tokens join_index =
     (let i = before join_index; i = (if keyword_at tokens i ''OUTER'' then before (the i) else i)
      in case i of
           None \<Rightarrow> ''INNER''
         | Some i \<Rightarrow>
             let k = raw_sql_keyword (tk_value (tokens ! i)) in if k \<in> set join_types then k else ''INNER'')"

definition raw_join_allows_on :: "sql_token list \<Rightarrow> nat \<Rightarrow> bool" where
  "raw_join_allows_on tokens join_index = (raw_join_type tokens join_index \<notin> set [''RIGHT'', ''FULL'', ''CROSS''])"

definition raw_join_requires_unsupported_outer_fallback :: "raw_join_segment \<Rightarrow> bool" where
  "raw_join_requires_unsupported_outer_fallback s = (\<not> js_supports_on s \<and> (js_join_type s = ''LEFT'' \<or> js_join_type s = ''FULL''))"

text \<open>The loops over the tokens of a segment: the first token at or after an index that satisfies a condition, within the segment.\<close>

definition in_segment :: "sql_token list \<Rightarrow> nat \<Rightarrow> nat \<Rightarrow> bool" where
  "in_segment tokens seg_end i = (i < length tokens \<and> tk_start (tokens ! i) < seg_end)"

function skip_table_words :: "sql_token list \<Rightarrow> nat \<Rightarrow> nat \<Rightarrow> nat" where
  "skip_table_words tokens seg_end i =
     (if in_segment tokens seg_end i \<and> raw_sql_keyword (tk_value (tokens ! i)) \<in> set [''LATERAL'', ''ONLY'']
      then skip_table_words tokens seg_end (Suc i) else i)"
  by pat_completeness auto
termination
  by (relation "measure (\<lambda>(tokens, seg_end, i). length tokens - i)") (auto simp: in_segment_def)

function find_on :: "sql_token list \<Rightarrow> nat \<Rightarrow> nat \<Rightarrow> nat option" where
  "find_on tokens seg_end i =
     (if in_segment tokens seg_end i then
        (if raw_sql_keyword (tk_value (tokens ! i)) = ''ON'' then Some i else find_on tokens seg_end (Suc i))
      else None)"
  by pat_completeness auto
termination
  by (relation "measure (\<lambda>(tokens, seg_end, i). length tokens - i)") (auto simp: in_segment_def)

declare skip_table_words.simps [simp del] find_on.simps [simp del]

definition join_indexes :: "sql_token list \<Rightarrow> nat list" where
  "join_indexes tokens = filter (\<lambda>i. raw_sql_keyword (tk_value (tokens ! i)) = ''JOIN'') [0 ..< length tokens]"

text \<open>The segment of one join, which ends at \<open>seg_end\<close>, or none where the table is missing.\<close>

definition join_segment :: "string option \<Rightarrow> string \<Rightarrow> sql_token list \<Rightarrow> nat \<Rightarrow> nat \<Rightarrow> raw_join_segment option" where
  "join_segment dialect q tokens seg_end join_index =
     (let table = skip_table_words tokens seg_end (Suc join_index) in
      if \<not> in_segment tokens seg_end table then None
      else let word = tk_value (tokens ! table);
               name = (if has_prefix (trim_space word) ''('' then [] else normalize_raw_sql_identifier dialect word);
               i = Suc table;
               i = (if in_segment tokens seg_end i \<and> raw_sql_keyword (tk_value (tokens ! i)) = ''AS'' then Suc i else i);
               alias = (if in_segment tokens seg_end i \<and> \<not> is_join_condition_keyword (tk_value (tokens ! i))
                        then normalize_raw_sql_identifier dialect (tk_value (tokens ! i)) else name);
               segment = \<lparr>js_reference = new_sql_table_reference name alias None, js_condition_start = 0, js_condition_end = 0,
                          js_join_type = raw_join_type tokens join_index, js_supports_on = False\<rparr>
           in case find_on tokens seg_end (Suc table) of
                None \<Rightarrow> Some segment
              | Some on_index \<Rightarrow>
                  if raw_join_allows_on tokens join_index then
                    let start = skip_raw_sql_space q (tk_end (tokens ! on_index)) seg_end
                    in Some (segment\<lparr>js_condition_start := start, js_condition_end := seg_end, js_supports_on := (start < seg_end)\<rparr>)
                  else Some segment)"

text \<open>A join ends where the next one begins.\<close>

fun join_segments :: "string option \<Rightarrow> string \<Rightarrow> sql_token list \<Rightarrow> nat list \<Rightarrow> raw_join_segment list" where
  "join_segments dialect q tokens [] = []"
| "join_segments dialect q tokens (j # js) =
     (let seg_end = (case js of [] \<Rightarrow> length q | j' # _ \<Rightarrow> raw_join_start tokens j')
      in (case join_segment dialect q tokens seg_end j of None \<Rightarrow> [] | Some s \<Rightarrow> [s]) @ join_segments dialect q tokens js)"

definition raw_join_segments :: "string option \<Rightarrow> string \<Rightarrow> raw_join_segment list" where
  "raw_join_segments dialect q = (let tokens = raw_sql_tokens q in join_segments dialect q tokens (join_indexes tokens))"

subsection \<open>Rewriting\<close>

record raw_join_injection =
  ji_condition_start :: nat
  ji_condition_end :: nat
  ji_placeholder :: string

text \<open>\<open>query[a:b]\<close>.\<close>

definition slice :: "string \<Rightarrow> nat \<Rightarrow> nat \<Rightarrow> string res" where
  "slice q a b = (if a \<le> b \<and> b \<le> length q then Inr (substr q a b) else Inl (Panic ''slice bounds out of range''))"

function trim_condition :: "string \<Rightarrow> nat \<Rightarrow> nat \<Rightarrow> nat res" where
  "trim_condition q start e =
     (if start < e then
        (if length q < e then Inl (Panic ''index out of range'')
         else if is_raw_sql_space (q ! (e - 1)) then trim_condition q start (e - 1) else Inr e)
      else Inr e)"
  by pat_completeness auto
termination
  by (relation "measure (\<lambda>(q, start, e). e)") auto

declare trim_condition.simps [simp del]

definition inject_condition :: "string \<Rightarrow> raw_join_injection \<Rightarrow> string res" where
  "inject_condition q j =
     res_bind (trim_condition q (ji_condition_start j) (ji_condition_end j)) (\<lambda>e.
     res_bind (slice q (ji_condition_start j) e) (\<lambda>cond.
     res_bind (slice q e (ji_condition_end j)) (\<lambda>space.
     res_bind (slice q 0 (ji_condition_start j)) (\<lambda>front.
     res_bind (slice q (ji_condition_end j) (length q)) (\<lambda>rest.
       Inr (front @ (''('' @ cond @ '') AND @'' @ ji_placeholder j @ space) @ rest))))))"

text \<open>From the last injection to the first, so that the earlier offsets stay valid.\<close>

fun append_raw_join_on_conditions :: "string \<Rightarrow> raw_join_injection list \<Rightarrow> string res" where
  "append_raw_join_on_conditions q [] = Inr q"
| "append_raw_join_on_conditions q (j # js) = res_bind (append_raw_join_on_conditions q js) (\<lambda>q'. inject_condition q' j)"

subsection \<open>Tokens are where they say\<close>

fun token_chain :: "string \<Rightarrow> nat \<Rightarrow> sql_token list \<Rightarrow> bool" where
  "token_chain q lo [] = True"
| "token_chain q lo (t # ts) =
     (lo \<le> tk_start t \<and> tk_start t < tk_end t \<and> tk_end t \<le> length q \<and> tk_value t = substr q (tk_start t) (tk_end t) \<and> token_chain q (tk_end t) ts)"

lemma token_chain_le: "token_chain q hi ts \<Longrightarrow> lo \<le> hi \<Longrightarrow> token_chain q lo ts"
  by (cases ts) auto

definition started :: "string \<Rightarrow> nat \<Rightarrow> nat \<Rightarrow> nat option \<Rightarrow> bool" where
  "started q lo i start \<longleftrightarrow> lo \<le> i \<and> (\<forall>s. start = Some s \<longrightarrow> lo \<le> s \<and> s < i \<and> s < length q)"

lemma started_rules:
  "started q lo i start \<Longrightarrow> i \<le> j \<Longrightarrow> started q lo j start"
  "i \<le> j \<Longrightarrow> started q i j None"
  "started q lo i start \<Longrightarrow> i < length q \<Longrightarrow> started q lo (Suc i) (case start of None \<Rightarrow> Some i | Some s \<Rightarrow> Some s)"
  by (auto simp: started_def split: option.split)

lemma started_Suc:
  "started q lo i start \<Longrightarrow> started q lo (Suc i) start"
  "started q lo i start \<Longrightarrow> started q lo (Suc (Suc i)) start"
  by (simp_all add: started_rules(1))

lemma token_chain_flush:
  assumes "started q lo i start" "i < length q" "token_chain q i ts"
  shows "token_chain q lo (flush_token q start i @ ts)"
  using assms token_chain_le [OF assms(3), of lo] by (cases start) (auto simp: flush_token_def started_def)

lemma token_chain_last: "started q lo i start \<Longrightarrow> token_chain q lo (flush_token q start (length q))"
  by (cases start) (auto simp: flush_token_def started_def)

lemma token_chain_if: "(P \<Longrightarrow> token_chain q lo a) \<Longrightarrow> (\<not> P \<Longrightarrow> token_chain q lo b) \<Longrightarrow> token_chain q lo (if P then a else b)"
  by simp

lemma sql_scan_chain: "started q lo i start \<Longrightarrow> token_chain q lo (sql_scan q i start depth quote)"
proof (induction q i start depth quote arbitrary: lo rule: sql_scan.induct)
  case (1 q i start depth quote)
  show ?case
  proof (cases "length q \<le> i")
    case True
    with "1.prems" token_chain_last show ?thesis by (simp add: sql_scan.simps [of q i])
  next
    case False
    note now = "1.prems" and IH = "1.IH" [OF False refl refl]
    have within: "i < length q" using False by simp
    have later: "started q i (skip_line q i) None" "started q i (skip_block q (Suc (Suc i))) None" "started q i (Suc i) None"
      using skip_progress(1) [of i q] skip_block_later [of i q] by (simp_all add: started_rules(2))
    note unfolded = sql_scan.simps [of q i start depth quote] Let_def if_not_P [OF False]
    show ?thesis
    proof (cases quote)
      case None
      show ?thesis
        unfolding unfolded unfolding None option.case
        by (intro token_chain_if; (rule token_chain_flush [OF now within])?;
            (rule IH; (assumption | rule None later started_Suc [OF now] started_rules(3) [OF now within])+))
    next
      case (Some close)
      show ?thesis
        unfolding unfolded unfolding Some option.case
        by (intro token_chain_if; (rule IH [unfolded Some]; (assumption | rule refl started_Suc [OF now])+))
    qed
  qed
qed

lemma raw_tokens_chain: "token_chain q 0 (raw_sql_tokens q)"
  by (simp add: raw_sql_tokens_def sql_scan_chain started_def)

lemma token_chain_nth:
  assumes "token_chain q lo ts" "i < length ts"
  shows "lo \<le> tk_start (ts ! i) \<and> tk_start (ts ! i) < tk_end (ts ! i) \<and> tk_end (ts ! i) \<le> length q"
  using assms by (induction q lo ts arbitrary: i rule: token_chain.induct) (fastforce simp: nth_Cons split: nat.split)+

lemma token_chain_less:
  assumes "token_chain q lo ts" "i < j" "j < length ts"
  shows "tk_end (ts ! i) \<le> tk_start (ts ! j)"
  using assms
proof (induction q lo ts arbitrary: i j rule: token_chain.induct)
  case (2 q lo t ts)
  then obtain j' where j: "j = Suc j'" by (cases j) auto
  show ?case
  proof (cases i)
    case 0
    with 2 j token_chain_nth [of q "tk_end t" ts j'] show ?thesis by simp
  next
    case (Suc i')
    with 2 j show ?thesis by simp
  qed
qed simp

lemma token_start_mono: "token_chain q lo ts \<Longrightarrow> i \<le> j \<Longrightarrow> j < length ts \<Longrightarrow> tk_start (ts ! i) \<le> tk_start (ts ! j)"
  using token_chain_less [of q lo ts i j] token_chain_nth [of q lo ts i] by (cases "i = j") fastforce+

text \<open>A join starts at one of its own words, after every earlier \<open>JOIN\<close>.\<close>

lemma keyword_not_join: "''JOIN'' \<notin> set join_types" "''OUTER'' \<noteq> ''JOIN''" "''NATURAL'' \<noteq> ''JOIN''"
  by (auto simp: join_types_def)

lemma raw_join_start_word:
  assumes "j < length ts"
  shows "\<exists>k \<le> j. raw_join_start ts j = tk_start (ts ! k) \<and> (\<forall>m. k \<le> m \<and> m < j \<longrightarrow> raw_sql_keyword (tk_value (ts ! m)) \<noteq> ''JOIN'')"
proof -
  define I where "I = (\<lambda>(start, i). \<exists>k \<le> j. start = tk_start (ts ! k) \<and> i = before k \<and>
    (\<forall>m. k \<le> m \<and> m < j \<longrightarrow> raw_sql_keyword (tk_value (ts ! m)) \<noteq> ''JOIN''))"
  have step: "I (if P then (tk_start (ts ! the i), before (the i)) else (start, i))"
    if "I (start, i)" "P \<Longrightarrow> i \<noteq> None \<and> raw_sql_keyword (tk_value (ts ! the i)) \<noteq> ''JOIN''" for P start i
  proof (cases P)
    case True
    from that(1) obtain k where k: "k \<le> j" "i = before k" "\<forall>m. k \<le> m \<and> m < j \<longrightarrow> raw_sql_keyword (tk_value (ts ! m)) \<noteq> ''JOIN''" by (auto simp: I_def)
    with that(2) True have i: "k \<noteq> 0" "the i = k - 1" "raw_sql_keyword (tk_value (ts ! (k - 1))) \<noteq> ''JOIN''" by (auto simp: before_def split: if_splits)
    have "raw_sql_keyword (tk_value (ts ! m)) \<noteq> ''JOIN''" if "k - 1 \<le> m" "m < j" for m
      using that i(3) k(3) by (cases "m = k - 1") auto
    with True i k(1) show ?thesis by (auto simp: I_def intro!: exI [of _ "k - 1"])
  qed (use that(1) in simp)
  have "I (tk_start (ts ! j), before j)" by (auto simp: I_def)
  note 1 = step [OF this, of "keyword_at ts (before j) ''OUTER''"]
  obtain start1 i1 where one: "(if keyword_at ts (before j) ''OUTER'' then (tk_start (ts ! the (before j)), before (the (before j))) else (tk_start (ts ! j), before j)) = (start1, i1)"
    by fastforce
  have "I (start1, i1)" using 1 keyword_not_join unfolding one by (auto simp: keyword_at_def split: option.splits)
  note 2 = step [OF this, of "i1 \<noteq> None \<and> raw_sql_keyword (tk_value (ts ! the i1)) \<in> set join_types"]
  obtain start2 i2 where two: "(if i1 \<noteq> None \<and> raw_sql_keyword (tk_value (ts ! the i1)) \<in> set join_types then (tk_start (ts ! the i1), before (the i1)) else (start1, i1)) = (start2, i2)"
    by fastforce
  have not_join: "w \<in> set join_types \<Longrightarrow> w \<noteq> ''JOIN''" for w using keyword_not_join(1) by blast
  have "I (start2, i2)" using 2 [unfolded two] not_join by blast
  note 3 = step [OF this, of "keyword_at ts i2 ''NATURAL''"]
  have "I (if keyword_at ts i2 ''NATURAL'' then (tk_start (ts ! the i2), before (the i2)) else (start2, i2))"
    using 3 keyword_not_join by (auto simp: keyword_at_def split: option.splits)
  moreover have "raw_join_start ts j = fst (if keyword_at ts i2 ''NATURAL'' then (tk_start (ts ! the i2), before (the i2)) else (start2, i2))"
    unfolding raw_join_start_def Let_def one prod.case two by simp
  ultimately show ?thesis unfolding I_def by (auto split: if_splits)
qed

lemma join_start_mono:
  assumes "token_chain q lo ts" "j < j'" "j' < length ts" "raw_sql_keyword (tk_value (ts ! j)) = ''JOIN''"
  shows "raw_join_start ts j \<le> tk_start (ts ! j)" "tk_start (ts ! j) < raw_join_start ts j'" "raw_join_start ts j' \<le> length q"
proof -
  obtain k where k: "k \<le> j" "raw_join_start ts j = tk_start (ts ! k)" using raw_join_start_word [of j ts] assms(2,3) by auto
  obtain k' where k': "k' \<le> j'" "raw_join_start ts j' = tk_start (ts ! k')" "\<forall>m. k' \<le> m \<and> m < j' \<longrightarrow> raw_sql_keyword (tk_value (ts ! m)) \<noteq> ''JOIN''"
    using raw_join_start_word [of j' ts] assms(3) by auto
  from k'(3) assms(2,4) have "j < k'" by (meson not_le)
  with token_chain_less [OF assms(1), of j k'] token_chain_nth [OF assms(1), of j] token_chain_nth [OF assms(1), of k'] assms(2,3) k'
  show "tk_start (ts ! j) < raw_join_start ts j'" "raw_join_start ts j' \<le> length q" by auto
  show "raw_join_start ts j \<le> tk_start (ts ! j)" using token_start_mono [OF assms(1), of k j] k assms(2,3) by simp
qed

text \<open>The \<open>ON\<close> ranges are in the query, in order and apart.\<close>

fun ranges_ok :: "string \<Rightarrow> nat \<Rightarrow> (nat \<times> nat) list \<Rightarrow> bool" where
  "ranges_ok q lo [] = True"
| "ranges_ok q lo ((a, b) # rs) = (lo \<le> a \<and> a \<le> b \<and> b \<le> length q \<and> ranges_ok q b rs)"

definition on_ranges :: "raw_join_segment list \<Rightarrow> (nat \<times> nat) list" where
  "on_ranges ss = map (\<lambda>s. (js_condition_start s, js_condition_end s)) (filter js_supports_on ss)"

lemma ranges_ok_le: "ranges_ok q hi rs \<Longrightarrow> lo \<le> hi \<Longrightarrow> ranges_ok q lo rs"
  by (cases rs) auto

lemma find_on_later: "find_on ts e i = Some k \<Longrightarrow> i \<le> k \<and> in_segment ts e k"
proof (induction ts e i rule: find_on.induct)
  case (1 ts e i)
  then show ?case using find_on.simps [of ts e i] by (auto split: if_split_asm)
qed

lemma skip_table_words_later: "i \<le> skip_table_words ts e i"
proof (induction ts e i rule: skip_table_words.induct)
  case (1 ts e i)
  then show ?case by (subst skip_table_words.simps) auto
qed

lemma skip_space_later: "i \<le> skip_raw_sql_space q i e"
proof (induction q i e rule: skip_raw_sql_space.induct)
  case (1 q i e)
  then show ?case by (subst skip_raw_sql_space.simps) auto
qed

lemma join_segment_range:
  assumes "token_chain q lo ts" "join_segment d q ts e j = Some s" "js_supports_on s"
  shows "tk_start (ts ! j) < js_condition_start s \<and> js_condition_start s < js_condition_end s \<and> js_condition_end s = e"
proof -
  define table where "table = skip_table_words ts e (Suc j)"
  from assms(2,3) obtain k where k: "find_on ts e (Suc table) = Some k" "js_condition_start s = skip_raw_sql_space q (tk_end (ts ! k)) e"
    "js_condition_end s = e" "js_condition_start s < e"
    unfolding join_segment_def Let_def table_def [symmetric] by (auto split: if_split_asm option.split_asm)
  from find_on_later [OF k(1)] have "table < k" "k < length ts" by (auto simp: in_segment_def)
  moreover have "j < table" using skip_table_words_later [of "Suc j" ts e] by (simp add: table_def)
  ultimately have "tk_start (ts ! j) < tk_end (ts ! k)"
    using token_start_mono [OF assms(1), of j k] token_chain_nth [OF assms(1), of k] by simp
  also have "\<dots> \<le> js_condition_start s" unfolding k(2) by (rule skip_space_later)
  finally show ?thesis using k(3,4) by simp
qed

lemma join_segments_ranges:
  assumes "token_chain q 0 ts" "sorted_wrt (<) js" "\<forall>j \<in> set js. j < length ts \<and> raw_sql_keyword (tk_value (ts ! j)) = ''JOIN''"
  shows "ranges_ok q (case js of [] \<Rightarrow> 0 | j # _ \<Rightarrow> raw_join_start ts j) (on_ranges (join_segments d q ts js))"
  using assms(2,3)
proof (induction js)
  case Nil
  then show ?case by (simp add: on_ranges_def)
next
  case (Cons j js)
  define e where "e = (case js of [] \<Rightarrow> length q | j' # _ \<Rightarrow> raw_join_start ts j')"
  have "j < length ts" "raw_sql_keyword (tk_value (ts ! j)) = ''JOIN''" using Cons.prems by simp_all
  then obtain k where "k \<le> j" "raw_join_start ts j = tk_start (ts ! k)" using raw_join_start_word by blast
  then have low: "raw_join_start ts j \<le> tk_start (ts ! j)" using token_start_mono [OF assms(1)] \<open>j < length ts\<close> by simp
  have e': "tk_start (ts ! j) < e \<and> e \<le> length q"
  proof (cases js)
    case Nil
    then show ?thesis using token_chain_nth [OF assms(1) \<open>j < length ts\<close>] by (simp_all add: e_def)
  next
    case (Cons j' js')
    then show ?thesis using join_start_mono [OF assms(1), of j j'] Cons.prems by (auto simp: e_def)
  qed
  then have e: "tk_start (ts ! j) < e" "e \<le> length q" by simp_all
  have rest: "ranges_ok q e (on_ranges (join_segments d q ts js))"
  proof (cases js)
    case Nil
    then show ?thesis by (simp add: on_ranges_def)
  next
    case (Cons j' js')
    then show ?thesis using Cons.IH Cons.prems by (simp add: e_def)
  qed
  have "raw_join_start ts j \<le> e" using low e(1) by simp
  note rest' = ranges_ok_le [OF rest this]
  have split: "on_ranges (join_segments d q ts (j # js)) =
    on_ranges (case join_segment d q ts e j of None \<Rightarrow> [] | Some s \<Rightarrow> [s]) @ on_ranges (join_segments d q ts js)"
    by (simp add: on_ranges_def e_def)
  show ?case
  proof (cases "join_segment d q ts e j")
    case None
    then show ?thesis using rest' unfolding split by (simp add: on_ranges_def)
  next
    case (Some s)
    then show ?thesis using rest rest' join_segment_range [OF assms(1) Some] low e(2) unfolding split by (auto simp: on_ranges_def [of "[s]"])
  qed
qed

lemma raw_join_segments_ranges: "ranges_ok q 0 (on_ranges (raw_join_segments d q))"
proof -
  let ?ts = "raw_sql_tokens q"
  have "sorted_wrt (<) (join_indexes ?ts)" by (simp add: join_indexes_def sorted_wrt_filter)
  moreover have "\<forall>j \<in> set (join_indexes ?ts). j < length ?ts \<and> raw_sql_keyword (tk_value (?ts ! j)) = ''JOIN''" by (simp add: join_indexes_def)
  ultimately show ?thesis
    using join_segments_ranges [OF raw_tokens_chain, where js = "join_indexes ?ts" and d = d] ranges_ok_le by (fastforce simp: raw_join_segments_def Let_def)
qed

subsection \<open>Every condition is rewritten at once\<close>

text \<open>The rewriting from left to right: each \<open>ON\<close> condition is put in parentheses, before the blanks after it, and joined to a placeholder.\<close>

definition condition_text :: "string \<Rightarrow> string" where
  "condition_text cond = rev (dropWhile is_raw_sql_space (rev cond))"

definition condition_blanks :: "string \<Rightarrow> string" where
  "condition_blanks cond = rev (takeWhile is_raw_sql_space (rev cond))"

fun rewrite_conditions :: "string \<Rightarrow> nat \<Rightarrow> raw_join_injection list \<Rightarrow> string" where
  "rewrite_conditions q pos [] = drop pos q"
| "rewrite_conditions q pos (j # js) =
     (let cond = substr q (ji_condition_start j) (ji_condition_end j)
      in substr q pos (ji_condition_start j) @ ''('' @ condition_text cond @ '') AND @'' @ ji_placeholder j @ condition_blanks cond @
        rewrite_conditions q (ji_condition_end j) js)"

lemma trim_condition_value:
  assumes "a \<le> b" "b \<le> length q"
  shows "trim_condition q a b = Inr (a + length (condition_text (substr q a b)))"
  using assms
proof (induction "b - a" arbitrary: b)
  case 0
  then show ?case by (subst trim_condition.simps) (simp add: substr_def condition_text_def)
next
  case (Suc n)
  then obtain b' where b: "b = Suc b'" by (cases b) auto
  with Suc have le: "a \<le> b'" "b' < length q" by simp_all
  have snoc: "substr q a b = substr q a b' @ [q ! b']"
    using le by (simp add: substr_def b Suc_diff_le take_Suc_conv_app_nth)
  have len: "length (substr q a b') = b' - a" using le by (simp add: substr_def)
  show ?case
  proof (cases "is_raw_sql_space (q ! b')")
    case True
    with Suc(1) [of b'] Suc(2-4) b le have "trim_condition q a b' = Inr (a + length (condition_text (substr q a b')))" by simp
    moreover have "trim_condition q a b = trim_condition q a b'" using True le b by (subst trim_condition.simps) simp
    ultimately show ?thesis using True by (simp add: snoc condition_text_def)
  next
    case False
    then have "length (condition_text (substr q a b)) = Suc (b' - a)" by (simp add: snoc condition_text_def len)
    then show ?thesis using False le b by (subst trim_condition.simps) simp
  qed
qed

lemma condition_split: "condition_text cond @ condition_blanks cond = cond"
proof -
  have "rev (condition_text cond @ condition_blanks cond) = takeWhile is_raw_sql_space (rev cond) @ dropWhile is_raw_sql_space (rev cond)"
    by (simp add: condition_text_def condition_blanks_def)
  then show ?thesis by (simp only: takeWhile_dropWhile_id rev_is_rev_conv)
qed

lemma inject_condition_value:
  assumes "ji_condition_start j \<le> ji_condition_end j" "ji_condition_end j \<le> length q"
  shows "inject_condition (take (ji_condition_end j) q @ rest) j =
    Inr (take (ji_condition_start j) q @ ''('' @ condition_text (substr q (ji_condition_start j) (ji_condition_end j)) @ '') AND @'' @ ji_placeholder j @
      condition_blanks (substr q (ji_condition_start j) (ji_condition_end j)) @ rest)"
proof -
  define a b where ab: "a = ji_condition_start j" "b = ji_condition_end j"
  let ?q = "take b q @ rest" and ?cond = "substr q a b"
  have le: "a \<le> b" "b \<le> length q" using assms by (simp_all add: ab)
  have cond: "substr ?q a b = ?cond" using le by (simp add: substr_def drop_take)
  have len: "length (condition_text ?cond) + length (condition_blanks ?cond) = b - a"
    using le arg_cong [OF condition_split [of ?cond], of length] by (simp add: substr_def)
  let ?e = "a + length (condition_text ?cond)"
  have e: "a \<le> ?e" "?e \<le> b" "b \<le> length ?q" using len le by simp_all
  have whole: "?q = take a q @ condition_text ?cond @ condition_blanks ?cond @ rest"
  proof -
    have "take b q = take a q @ ?cond" using le by (simp add: substr_def) (metis append_take_drop_id le_add_diff_inverse take_add)
    then show ?thesis using condition_split [of ?cond] by (metis append.assoc)
  qed
  have "trim_condition ?q a b = Inr ?e" using trim_condition_value [OF le(1) e(3)] by (simp only: cond)
  moreover have "slice ?q a ?e = Inr (condition_text ?cond)" using e le by (simp add: slice_def substr_def whole)
  moreover have "slice ?q ?e b = Inr (condition_blanks ?cond)" using e le len by (simp add: slice_def substr_def whole)
  moreover have "slice ?q 0 a = Inr (take a q)" using e le by (simp add: slice_def substr_def)
  moreover have "slice ?q b (length ?q) = Inr rest" using le by (simp add: slice_def substr_def)
  ultimately show ?thesis by (simp add: inject_condition_def ab [symmetric])
qed

lemma append_conditions_value:
  assumes "ranges_ok q lo (map (\<lambda>j. (ji_condition_start j, ji_condition_end j)) js)" "lo \<le> length q"
  shows "append_raw_join_on_conditions q js = Inr (take lo q @ rewrite_conditions q lo js)"
  using assms
proof (induction js arbitrary: lo)
  case Nil
  then show ?case by simp
next
  case (Cons j js)
  then have ok: "lo \<le> ji_condition_start j" "ji_condition_start j \<le> ji_condition_end j" "ji_condition_end j \<le> length q" by simp_all
  have "take (ji_condition_start j) q = take lo q @ substr q lo (ji_condition_start j)"
    using ok by (simp add: substr_def) (metis le_add_diff_inverse take_add)
  with Cons ok inject_condition_value [OF ok(2,3)] show ?case by (simp add: Let_def)
qed

lemma filter_ranges: "ranges_ok q lo (map f ss) \<Longrightarrow> ranges_ok q lo (map f (filter P ss))"
proof (induction ss arbitrary: lo)
  case (Cons s ss)
  obtain a b where "f s = (a, b)" by fastforce
  with Cons show ?case using ranges_ok_le [of q b "map f (filter P ss)" lo] by auto
qed simp

lemma chosen_ranges:
  "ranges_ok q 0 (map (\<lambda>s. (js_condition_start s, js_condition_end s)) (filter (\<lambda>s. js_supports_on s \<and> chosen s) (raw_join_segments dialect q)))"
  using filter_ranges [of q 0 _ "filter js_supports_on (raw_join_segments dialect q)" chosen] raw_join_segments_ranges [of q dialect]
  by (simp add: on_ranges_def conj_commute)

text \<open>C27: The rewriting of a raw join never slices out of range and touches nothing but \<open>ON\<close> conditions: for any query and any choice of the
  segments whose \<open>ON\<close> can take a condition, rewriting from the last to the first gives what rewriting all of them at once gives, which
  is the query with every chosen condition \<open>c\<close> replaced by \<open>(c) AND @p\<close>.\<close>

theorem raw_joins_rewritten:
  "append_raw_join_on_conditions q
     (map (\<lambda>s. \<lparr>ji_condition_start = js_condition_start s, ji_condition_end = js_condition_end s, ji_placeholder = name s\<rparr>)
       (filter (\<lambda>s. js_supports_on s \<and> chosen s) (raw_join_segments dialect q))) =
   Inr (rewrite_conditions q 0
     (map (\<lambda>s. \<lparr>ji_condition_start = js_condition_start s, ji_condition_end = js_condition_end s, ji_placeholder = name s\<rparr>)
       (filter (\<lambda>s. js_supports_on s \<and> chosen s) (raw_join_segments dialect q))))"
  using append_conditions_value [of q 0 "map (\<lambda>s. \<lparr>ji_condition_start = js_condition_start s, ji_condition_end = js_condition_end s,
      ji_placeholder = name s\<rparr>) (filter (\<lambda>s. js_supports_on s \<and> chosen s) (raw_join_segments dialect q))"] chosen_ranges [of q chosen dialect]
  by (simp add: comp_def)

end
