(* ===== verification/Sql_Clause.thy ===== *)
theory Sql_Clause
  imports Sql_Scan Auth_Claims
begin

text \<open>
  The statement a database callback works on, with GORM's clause expressions, and the isolation rules shared by the callbacks
  (database/gorm/internal/callback/isolation.go).

  GORM itself is not modelled: \<open>statement\<close> has the parts of \<open>gorm.Statement\<close> the callbacks read and write, and \<open>where_holds\<close> states what
  GORM documents of a \<open>WHERE\<close> clause: the expressions are joined by AND, an \<open>OrConditions\<close> of one expression by OR, without parentheses. In a callback neither the
  database nor its statement is nil.
\<close>

subsection \<open>Expressions\<close>

text \<open>A column of the current table (\<open>None\<close>) or of an alias.\<close>

datatype sql_column = SqlCol "string option" string

datatype sql_arg = ArgCol sql_column | ArgInt int | ArgStr string

text \<open>\<open>Caller i\<close> is a condition of the caller. A named argument of a raw join is a condition under a placeholder.\<close>

datatype clause_expr =
    Eq sql_column int
  | Like sql_column string
  | In sql_column "int list"
  | AndConditions "clause_expr list"
  | OrConditions "clause_expr list"
  | Expr string "sql_arg list"
  | Caller nat

text \<open>\<open>clause.And\<close> and \<open>clause.Or\<close> on at least one expression.\<close>

definition clause_and :: "clause_expr list \<Rightarrow> clause_expr" where
  "clause_and es = (case es of [OrConditions os] \<Rightarrow> AndConditions es | [e] \<Rightarrow> e | _ \<Rightarrow> AndConditions es)"

definition clause_or :: "clause_expr list \<Rightarrow> clause_expr" where
  "clause_or es = OrConditions es"

subsection \<open>What a clause selects\<close>

text \<open>A row gives the integers of its columns (\<open>None\<close> is NULL, which no comparison accepts); strings matter for patterns only.\<close>

record sql_row =
  row_int :: "sql_column \<Rightarrow> int option"
  row_like :: "sql_column \<Rightarrow> string \<Rightarrow> bool"
  row_sql :: "string \<Rightarrow> sql_arg list \<Rightarrow> bool"
  row_caller :: "nat \<Rightarrow> bool"

fun expr_holds :: "sql_row \<Rightarrow> clause_expr \<Rightarrow> bool"
  and conj_holds :: "sql_row \<Rightarrow> clause_expr list \<Rightarrow> bool"
  and disj_holds :: "sql_row \<Rightarrow> clause_expr list \<Rightarrow> bool" where
  "expr_holds r (Eq c v) = (row_int r c = Some v)"
| "expr_holds r (Like c p) = row_like r c p"
| "expr_holds r (In c vs) = (row_int r c \<in> Some ` set vs)"
| "expr_holds r (AndConditions es) = conj_holds r es"
| "expr_holds r (OrConditions es) = disj_holds r es"
| "expr_holds r (Expr s args) = (s \<noteq> ''1 = 0'' \<and> row_sql r s args)"
| "expr_holds r (Caller i) = row_caller r i"
| "conj_holds r [] = True"
| "conj_holds r (e # es) = (expr_holds r e \<and> conj_holds r es)"
| "disj_holds r [] = False"
| "disj_holds r (e # es) = (expr_holds r e \<or> disj_holds r es)"

lemma conj_holds_iff [simp]: "conj_holds r es \<longleftrightarrow> (\<forall>e \<in> set es. expr_holds r e)"
  by (induction es) auto

lemma disj_holds_iff [simp]: "disj_holds r es \<longleftrightarrow> (\<exists>e \<in> set es. expr_holds r e)"
  by (induction es) auto

definition single_or :: "clause_expr \<Rightarrow> bool" where
  "single_or e = (case e of OrConditions [_] \<Rightarrow> True | _ \<Rightarrow> False)"

text \<open>AND binds tighter than OR: \<open>a AND b OR c AND d\<close>.\<close>

fun where_tail :: "sql_row \<Rightarrow> bool \<Rightarrow> clause_expr list \<Rightarrow> bool" where
  "where_tail r acc [] = acc"
| "where_tail r acc (e # es) = (if single_or e then acc \<or> where_tail r (expr_holds r e) es else where_tail r (acc \<and> expr_holds r e) es)"

text \<open>When the clause begins with expressions joined by OR, GORM swaps the first of them with the first other expression.\<close>

definition where_order :: "clause_expr list \<Rightarrow> clause_expr list" where
  "where_order es = (let i = length (takeWhile single_or es) in if i < length es then es[0 := es ! i, i := es ! 0] else es)"

definition where_holds :: "sql_row \<Rightarrow> clause_expr list \<Rightarrow> bool" where
  "where_holds r es = (case where_order es of [] \<Rightarrow> True | e # es \<Rightarrow> where_tail r (expr_holds r e) es)"

lemma where_tail_and: "\<not> list_ex single_or es \<Longrightarrow> where_tail r acc es \<longleftrightarrow> acc \<and> conj_holds r es"
  by (induction es arbitrary: acc) auto

lemma where_order_and: "\<not> list_ex single_or es \<Longrightarrow> where_order es = es"
  by (cases es) (simp_all add: where_order_def)

lemma where_holds_and: "\<not> list_ex single_or es \<Longrightarrow> where_holds r es \<longleftrightarrow> (\<forall>e \<in> set es. expr_holds r e)"
  by (cases es) (simp_all add: where_holds_def where_tail_and where_order_and)

subsection \<open>Statements\<close>

text \<open>A join of the \<open>FROM\<close> clause, and a join of \<open>Statement.Joins\<close>, whose name is an association path or raw SQL.\<close>

record from_join =
  fj_name :: string
  fj_alias :: string
  fj_type :: string
  fj_on :: "clause_expr list"
  fj_using :: "string list"
  fj_expression :: bool

record stmt_join =
  sj_name :: string
  sj_alias :: string
  sj_type :: string
  sj_on :: "clause_expr list option"
  sj_conds :: "(string \<times> clause_expr) list"

text \<open>
  Values of fields and map entries: nil, pointers, integers of any kind, strings, times and others, which are zero or not. A record to write, as reflection
  sees it: \<open>RStruct\<close> is a struct of the type of the model.
\<close>

datatype field_value = FNil | FPtr "field_value option" | FInt int | FUint nat | FStr string | FTime int | FOther bool

type_synonym map_item = "(string \<rightharpoonup> field_value) option"

datatype 'r rval = RInvalid | RNil | RRef "'r rval" | RStruct 'r | RMap "string \<rightharpoonup> field_value" | RList "'r rval list" | ROther

text \<open>\<open>Dest\<close> by its type: one of the four map types (a nil map is \<open>None\<close>, and so is a nil pointer to a map), or any other value.\<close>

datatype 'r sql_dest =
    DMap map_item
  | DMapRef "map_item option"
  | DMaps "map_item list"
  | DMapsRef "map_item list option"
  | DValue "'r rval"

text \<open>\<open>reflect.ValueOf(dest)\<close>; a nil map has no entries.\<close>

definition item_value :: "map_item \<Rightarrow> 'r rval" where
  "item_value i = RMap (case i of None \<Rightarrow> Map.empty | Some m \<Rightarrow> m)"

definition dest_value :: "'r sql_dest \<Rightarrow> 'r rval" where
  "dest_value d = (case d of
       DMap i \<Rightarrow> item_value i
     | DMapRef i \<Rightarrow> (case i of None \<Rightarrow> RNil | Some i \<Rightarrow> RRef (item_value i))
     | DMaps is \<Rightarrow> RList (map item_value is)
     | DMapsRef is \<Rightarrow> (case is of None \<Rightarrow> RNil | Some is \<Rightarrow> RRef (RList (map item_value is)))
     | DValue v \<Rightarrow> v)"

text \<open>A field of a schema, with \<open>ValueOf\<close> (the value and whether it is zero) and \<open>Set\<close>.\<close>

record 'r schema_field =
  sf_name :: string
  sf_db_name :: string
  sf_value_of :: "'r \<Rightarrow> field_value \<times> bool"
  sf_set :: "'r \<Rightarrow> field_value \<Rightarrow> 'r res"

text \<open>The schemas of the models: table, \<open>FieldsByDBName\<close>, \<open>LookUpField\<close>, and relations by field name, each with its name and the related model.\<close>

record ('m, 'r) schemas =
  sc_table :: "'m \<Rightarrow> string"
  sc_fields :: "'m \<Rightarrow> string \<rightharpoonup> 'r schema_field"
  sc_look_up :: "'m \<Rightarrow> string \<rightharpoonup> 'r schema_field"
  sc_relation :: "'m \<Rightarrow> string \<rightharpoonup> string \<times> 'm"

text \<open>
  \<open>st_auth\<close> is \<open>None\<close> for a nil context, and holds what \<open>auth.FromContext\<close> gives otherwise, an error being no identity. \<open>st_from\<close> is the \<open>FROM\<close> clause, if there
  is one. \<open>st_rows\<close> is the boolean setting of that name, \<open>st_selected\<close> what \<open>SelectAndOmitColumns\<close> gives. \<open>ReflectValue\<close> is \<open>Dest\<close> with pointers
  followed, which every function that reads it does again.
\<close>

record ('m, 'r) statement =
  st_auth :: "user_payload option option"
  st_dialect :: "string option"
  st_table :: string
  st_table_expr :: "string option"
  st_schema :: "'m option"
  st_from :: "from_join list option"
  st_joins :: "stmt_join list"
  st_where :: "clause_expr list"
  st_sql :: string
  st_vars :: "sql_arg list"
  st_in_transaction :: bool
  st_bypass :: bool
  st_rows :: "bool option"
  st_denied :: bool
  st_selected :: "(string \<rightharpoonup> bool) \<times> bool"
  st_dest :: "'r sql_dest"
  st_error :: "go_err option"

text \<open>\<open>db.Error = db.AddError(err)\<close>, where a later error wraps the text of the earlier one, and \<open>Statement.AddClause\<close> of a \<open>WHERE\<close>.\<close>

definition add_error :: "go_err \<Rightarrow> ('m, 'r) statement \<Rightarrow> ('m, 'r) statement" where
  "add_error e st = st\<lparr>st_error := Some (case st_error st of None \<Rightarrow> e | Some e0 \<Rightarrow> WrapErr (err_text e0) e)\<rparr>"

definition add_where :: "clause_expr list \<Rightarrow> ('m, 'r) statement \<Rightarrow> ('m, 'r) statement" where
  "add_where es st = st\<lparr>st_where := st_where st @ es\<rparr>"

subsection \<open>Isolation\<close>

definition denied_single_row_sql :: string where "denied_single_row_sql = ''SELECT 1 WHERE 1 = 0''"
definition denied_oracle_single_row_sql :: string where "denied_oracle_single_row_sql = ''SELECT 1 FROM dual WHERE 1 = 0''"

definition err_tenant_context_missing :: go_err where "err_tenant_context_missing = Sentinel ''tenant context missing''"
definition err_data_scope_context_missing :: go_err where "err_data_scope_context_missing = Sentinel ''data scope context missing''"
definition err_raw_data_isolation_unsupported :: go_err where
  "err_raw_data_isolation_unsupported = Sentinel ''raw SQL requires explicit data isolation bypass''"

definition skip_data_isolation :: "('m, 'r) statement \<Rightarrow> ('m, 'r) statement" where
  "skip_data_isolation st = st\<lparr>st_bypass := True\<rparr>"

definition has_data_isolation_bypass :: "('m, 'r) statement \<Rightarrow> bool" where
  "has_data_isolation_bypass st = st_bypass st"

definition should_skip_data_isolation :: "('m, 'r) statement \<Rightarrow> bool" where
  "should_skip_data_isolation st = (if has_data_isolation_bypass st then True else case st_auth st of None \<Rightarrow> True | Some info \<Rightarrow> info = None)"

definition is_single_row_query :: "('m, 'r) statement \<Rightarrow> bool" where
  "is_single_row_query st = (st_rows st = Some False)"

definition deny_raw_single_row_query :: "('m, 'r) statement \<Rightarrow> bool \<times> ('m, 'r) statement" where
  "deny_raw_single_row_query st =
     (if \<not> is_single_row_query st then (False, st)
      else if st_denied st then (True, st)
      else (True, st\<lparr>st_sql := (if st_dialect st = Some ''oracle'' then denied_oracle_single_row_sql else denied_single_row_sql),
                     st_vars := [], st_denied := True\<rparr>))"

definition deny_single_row_query :: "('m, 'r) statement \<Rightarrow> bool \<times> ('m, 'r) statement" where
  "deny_single_row_query st =
     (if \<not> is_single_row_query st then (False, st)
      else if st_denied st then (True, st)
      else (True, (add_where [Expr ''1 = 0'' []] st)\<lparr>st_denied := True\<rparr>))"

definition add_data_isolation_error :: "go_err \<Rightarrow> ('m, 'r) statement \<Rightarrow> ('m, 'r) statement" where
  "add_data_isolation_error e st = (case deny_single_row_query st of (True, st') \<Rightarrow> st' | (False, st') \<Rightarrow> add_error e st')"

definition reject_unsafe_raw_statement :: "('m, 'r) statement \<Rightarrow> bool \<times> ('m, 'r) statement" where
  "reject_unsafe_raw_statement st =
     (if st_sql st = [] then (False, st)
      else case deny_raw_single_row_query st of
          (True, st') \<Rightarrow> (True, st')
        | (False, st') \<Rightarrow> (True, add_error err_raw_data_isolation_unsupported st'))"

text \<open>The pattern \<open>^(SAVEPOINT|ROLLBACK TO SAVEPOINT) sp[0-9]+$\<close>.\<close>

definition gorm_savepoint :: "string \<Rightarrow> bool" where
  "gorm_savepoint s = (\<exists>p \<in> set [''SAVEPOINT sp'', ''ROLLBACK TO SAVEPOINT sp'']. has_prefix s p \<and> drop (length p) s \<noteq> [] \<and> list_all is_digit (drop (length p) s))"

definition is_gorm_savepoint_statement :: "('m, 'r) statement \<Rightarrow> bool" where
  "is_gorm_savepoint_statement st = (st_in_transaction st \<and> st_vars st = [] \<and> gorm_savepoint (st_sql st))"

definition reject_raw_data_isolation :: "('m, 'r) statement \<Rightarrow> ('m, 'r) statement" where
  "reject_raw_data_isolation st =
     (if should_skip_data_isolation st \<or> st_error st \<noteq> None then st
      else if is_gorm_savepoint_statement st then st
      else add_error err_raw_data_isolation_unsupported st)"

end
