(* ===== verification/Sql_Join.thy ===== *)
theory Sql_Join
  imports Sql_Clause
begin

text \<open>
  The joins of a statement (database/gorm/internal/callback/join.go): which of them reach a scoped table, and the conditions that are
  put into their \<open>ON\<close>, or into the \<open>WHERE\<close> clause where they have none.

  A predicate \<open>scoped\<close> selects the tables of a rule and \<open>build\<close> gives its condition for one of them. The set \<open>ja_seen\<close> holds the aliases whose
  condition is written, \<open>ja_joined\<close> the association paths.
\<close>

subsection \<open>Tables\<close>

text \<open>\<open>strings.Fields(s)[0]\<close>, if there is one.\<close>

definition first_field :: "string \<Rightarrow> string option" where
  "first_field s =
     (case dropWhile (\<lambda>c. c \<in> set ascii_space) s of [] \<Rightarrow> None | c # cs \<Rightarrow> Some (takeWhile (\<lambda>c. c \<notin> set ascii_space) (c # cs)))"

definition statement_uses_registered_table :: "string set \<Rightarrow> ('m, 'r) statement \<Rightarrow> bool" where
  "statement_uses_registered_table tables st =
     (if st_table st \<in> tables then True
      else case st_table_expr st of
          None \<Rightarrow> False
        | Some sql \<Rightarrow> (case first_field sql of None \<Rightarrow> False | Some f \<Rightarrow> normalize_raw_sql_identifier (st_dialect st) f \<in> tables))"

fun association_path :: "('m, 'r) schemas \<Rightarrow> 'm \<Rightarrow> string \<Rightarrow> string \<Rightarrow> string list \<Rightarrow> sql_table_reference list option" where
  "association_path sc m alias final [] = Some []"
| "association_path sc m alias final (part # rest) =
     (case sc_relation sc m part of
        None \<Rightarrow> None
      | Some (name, m') \<Rightarrow>
          let alias = (if alias = [] then name else alias @ ''__'' @ name);
              alias = (if rest = [] \<and> final \<noteq> [] then final else alias)
          in map_option ((#) (new_sql_table_reference (sc_table sc m') alias (Some (dom (sc_fields sc m')))))
            (association_path sc m' alias final rest))"

definition association_join_references :: "('m, 'r) schemas \<Rightarrow> 'm option \<Rightarrow> string \<Rightarrow> string \<Rightarrow> sql_table_reference list" where
  "association_join_references sc schema name final =
     (case schema of
        None \<Rightarrow> []
      | Some m \<Rightarrow> (case association_path sc m [] final (split_byte name (CHR ''.'')) of None \<Rightarrow> [] | Some rs \<Rightarrow> rs))"

definition is_scoped_table_reference :: "string set \<Rightarrow> string \<Rightarrow> sql_table_reference \<Rightarrow> bool" where
  "is_scoped_table_reference tables field r =
     (if (case tr_columns r of None \<Rightarrow> False | Some cs \<Rightarrow> field \<in> cs) then True else tr_name r \<in> tables)"

definition join_references :: "('m, 'r) schemas \<Rightarrow> ('m, 'r) statement \<Rightarrow> stmt_join \<Rightarrow> sql_table_reference list" where
  "join_references sc st j = association_join_references sc (st_schema st) (sj_name j) (sj_alias j)"

definition from_reference :: "from_join \<Rightarrow> sql_table_reference" where
  "from_reference j = new_sql_table_reference (fj_name j) (fj_alias j) None"

subsection \<open>Is a scoped table joined?\<close>

definition scoped_from_join :: "(sql_table_reference \<Rightarrow> bool) \<Rightarrow> from_join \<Rightarrow> bool \<times> ('m, 'r) statement \<Rightarrow> bool \<times> ('m, 'r) statement" where
  "scoped_from_join scoped j acc =
     (let (hit, st) = acc in
      if fj_expression j then (hit, add_data_isolation_error err_raw_data_isolation_unsupported st)
      else if scoped (from_reference j) then
        (True, if fj_type j = ''LEFT'' \<and> fj_using j \<noteq> [] then add_data_isolation_error err_raw_data_isolation_unsupported st else st)
      else (hit, st))"

definition scoped_segment :: "(sql_table_reference \<Rightarrow> bool) \<Rightarrow> raw_join_segment \<Rightarrow> bool \<times> ('m, 'r) statement \<Rightarrow> bool \<times> ('m, 'r) statement" where
  "scoped_segment scoped s acc =
     (let (hit, st) = acc in
      if tr_name (js_reference s) = [] then (hit, add_data_isolation_error err_raw_data_isolation_unsupported st)
      else if scoped (js_reference s) then
        (True, if raw_join_requires_unsupported_outer_fallback s then add_data_isolation_error err_raw_data_isolation_unsupported st else st)
      else (hit, st))"

definition scoped_join :: "('m, 'r) schemas \<Rightarrow> (sql_table_reference \<Rightarrow> bool) \<Rightarrow> stmt_join \<Rightarrow> bool \<times> ('m, 'r) statement \<Rightarrow> bool \<times> ('m, 'r) statement" where
  "scoped_join sc scoped j acc =
     (let (hit, st) = acc; refs = join_references sc st j in
      if refs \<noteq> [] then (hit \<or> list_ex scoped refs, st)
      else let segments = raw_join_segments (st_dialect st) (sj_name j) in
        if segments = [] then (hit, add_data_isolation_error err_raw_data_isolation_unsupported st)
        else fold (scoped_segment scoped) segments (hit, st))"

definition from_joins :: "('m, 'r) statement \<Rightarrow> from_join list" where
  "from_joins st = (case st_from st of None \<Rightarrow> [] | Some js \<Rightarrow> js)"

definition has_scoped_join :: "('m, 'r) schemas \<Rightarrow> (sql_table_reference \<Rightarrow> bool) \<Rightarrow> ('m, 'r) statement \<Rightarrow> bool \<times> ('m, 'r) statement" where
  "has_scoped_join sc scoped st =
     fold (scoped_join sc scoped) (st_joins st) (fold (scoped_from_join scoped) (from_joins st) (False, st))"

subsection \<open>Conditions\<close>

record join_acc =
  ja_seen :: "string set"
  ja_joined :: "string set"
  ja_fallback :: "clause_expr list"

definition append_unique_join_expression :: "string \<Rightarrow> clause_expr \<Rightarrow> join_acc \<Rightarrow> join_acc" where
  "append_unique_join_expression alias e a =
     (if alias \<in> ja_seen a then a else a\<lparr>ja_seen := insert alias (ja_seen a), ja_fallback := ja_fallback a @ [e]\<rparr>)"

definition mark_seen :: "string \<Rightarrow> join_acc \<Rightarrow> join_acc" where
  "mark_seen alias a = a\<lparr>ja_seen := insert alias (ja_seen a)\<rparr>"

definition from_join_condition ::
  "(sql_table_reference \<Rightarrow> bool) \<Rightarrow> (sql_table_reference \<Rightarrow> clause_expr) \<Rightarrow> from_join \<Rightarrow> join_acc \<Rightarrow> from_join \<times> join_acc" where
  "from_join_condition scoped build j a =
     (let r = from_reference j in
      if \<not> scoped r then (j, a)
      else if fj_type j = ''RIGHT'' \<or> fj_type j = ''CROSS'' \<or> fj_expression j \<or> fj_using j \<noteq> [] then
        (j, append_unique_join_expression (tr_alias r) (build r) a)
      else (j\<lparr>fj_on := fj_on j @ [build r]\<rparr>, mark_seen (tr_alias r) a))"

fun from_join_conditions ::
  "(sql_table_reference \<Rightarrow> bool) \<Rightarrow> (sql_table_reference \<Rightarrow> clause_expr) \<Rightarrow> from_join list \<Rightarrow> join_acc \<Rightarrow> from_join list \<times> join_acc" where
  "from_join_conditions scoped build [] a = ([], a)"
| "from_join_conditions scoped build (j # js) a =
     (let (j, a) = from_join_condition scoped build j a; (js, a) = from_join_conditions scoped build js a in (j # js, a))"

text \<open>One reference of an association join, with its position in the path.\<close>

definition path_upto :: "string \<Rightarrow> nat \<Rightarrow> string" where
  "path_upto name i = str_join (take (Suc i) (split_byte name (CHR ''.''))) ''.''"

definition association_condition ::
  "(sql_table_reference \<Rightarrow> bool) \<Rightarrow> (sql_table_reference \<Rightarrow> clause_expr) \<Rightarrow> nat \<Rightarrow> nat \<times> sql_table_reference \<Rightarrow> stmt_join \<times> join_acc \<Rightarrow> stmt_join \<times> join_acc" where
  "association_condition scoped build count ir ja =
     (let (i, r) = ir; (j, a) = ja; path = path_upto (sj_name j) i in
      if path \<in> ja_joined a then (j, a)
      else let a = a\<lparr>ja_joined := insert path (ja_joined a)\<rparr> in
        if \<not> scoped r then (j, a)
        else if i + 1 = count \<and> sj_type j \<noteq> ''RIGHT'' \<and> sj_type j \<noteq> ''CROSS'' then
          (j\<lparr>sj_on := Some ((case sj_on j of None \<Rightarrow> [] | Some es \<Rightarrow> es) @ [build r])\<rparr>, mark_seen (tr_alias r) a)
        else (j, append_unique_join_expression (tr_alias r) (build r) a))"

definition placeholder :: "string \<Rightarrow> nat \<Rightarrow> nat \<Rightarrow> string" where
  "placeholder prefix index i = ''__kratos_'' @ prefix @ ''_isolation_'' @ show_nat index @ ''_'' @ show_nat i"

definition segment_condition ::
  "(sql_table_reference \<Rightarrow> bool) \<Rightarrow> (sql_table_reference \<Rightarrow> clause_expr) \<Rightarrow> string \<Rightarrow> nat \<Rightarrow> nat \<times> raw_join_segment \<Rightarrow>
    raw_join_injection list \<times> stmt_join \<times> join_acc \<Rightarrow> raw_join_injection list \<times> stmt_join \<times> join_acc" where
  "segment_condition scoped build prefix index is ija =
     (let (i, s) = is; (injections, j, a) = ija; r = js_reference s in
      if \<not> scoped r then ija
      else if \<not> js_supports_on s then (injections, j, append_unique_join_expression (tr_alias r) (build r) a)
      else (injections @ [\<lparr>ji_condition_start = js_condition_start s, ji_condition_end = js_condition_end s, ji_placeholder = placeholder prefix index i\<rparr>],
            j\<lparr>sj_conds := sj_conds j @ [(placeholder prefix index i, build r)]\<rparr>, mark_seen (tr_alias r) a))"

definition join_condition ::
  "('m, 'r) schemas \<Rightarrow> ('m, 'r) statement \<Rightarrow> (sql_table_reference \<Rightarrow> bool) \<Rightarrow> (sql_table_reference \<Rightarrow> clause_expr) \<Rightarrow> string \<Rightarrow> nat \<Rightarrow>
    stmt_join \<Rightarrow> join_acc \<Rightarrow> (stmt_join \<times> join_acc) res" where
  "join_condition sc st scoped build prefix index j a =
     (let refs = join_references sc st j in
      if refs \<noteq> [] then Inr (fold (association_condition scoped build (length refs)) (enumerate 0 refs) (j, a))
      else let (injections, j, a) = fold (segment_condition scoped build prefix index) (enumerate 0 (raw_join_segments (st_dialect st) (sj_name j))) ([], j, a)
        in if injections \<noteq> [] then
             res_bind (append_raw_join_on_conditions (sj_name j) injections) (\<lambda>name. Inr (j\<lparr>sj_name := name\<rparr>, a))
           else Inr (j, a))"

fun join_conditions ::
  "('m, 'r) schemas \<Rightarrow> ('m, 'r) statement \<Rightarrow> (sql_table_reference \<Rightarrow> bool) \<Rightarrow> (sql_table_reference \<Rightarrow> clause_expr) \<Rightarrow> string \<Rightarrow> nat \<Rightarrow>
    stmt_join list \<Rightarrow> join_acc \<Rightarrow> (stmt_join list \<times> join_acc) res" where
  "join_conditions sc st scoped build prefix index [] a = Inr ([], a)"
| "join_conditions sc st scoped build prefix index (j # js) a =
     res_bind (join_condition sc st scoped build prefix index j a) (\<lambda>(j, a).
     res_bind (join_conditions sc st scoped build prefix (Suc index) js a) (\<lambda>(js, a). Inr (j # js, a)))"

text \<open>Nested associations become one join per level.\<close>

definition path_join :: "stmt_join \<Rightarrow> nat \<Rightarrow> nat \<Rightarrow> stmt_join" where
  "path_join j count i = j\<lparr>sj_name := path_upto (sj_name j) i, sj_alias := (if i + 1 < count then [] else sj_alias j)\<rparr>"

definition expand_level :: "stmt_join \<Rightarrow> nat \<Rightarrow> nat \<Rightarrow> stmt_join list \<times> string set \<Rightarrow> stmt_join list \<times> string set" where
  "expand_level j count i acc =
     (let (expanded, seen) = acc; item = path_join j count i in
      if sj_name item \<in> seen then (expanded, seen) else (expanded @ [item], insert (sj_name item) seen))"

definition expand_join :: "('m, 'r) schemas \<Rightarrow> ('m, 'r) statement \<Rightarrow> stmt_join \<Rightarrow> stmt_join list \<times> string set \<Rightarrow> stmt_join list \<times> string set" where
  "expand_join sc st j acc =
     (let refs = join_references sc st j in
      if length refs \<le> 1 then
        (let (expanded, seen) = acc in if sj_name j \<in> seen then acc else (expanded @ [j], insert (sj_name j) seen))
      else fold (expand_level j (length refs)) [0 ..< length refs] acc)"

definition expand_nested_association_joins :: "('m, 'r) schemas \<Rightarrow> ('m, 'r) statement \<Rightarrow> ('m, 'r) statement" where
  "expand_nested_association_joins sc st =
     (if st_schema st = None \<or> st_joins st = [] then st
      else st\<lparr>st_joins := fst (fold (expand_join sc st) (st_joins st) ([], {}))\<rparr>)"

definition empty_acc :: join_acc where
  "empty_acc = \<lparr>ja_seen = {}, ja_joined = {}, ja_fallback = []\<rparr>"

definition apply_join_conditions ::
  "('m, 'r) schemas \<Rightarrow> (sql_table_reference \<Rightarrow> bool) \<Rightarrow> (sql_table_reference \<Rightarrow> clause_expr) \<Rightarrow> string \<Rightarrow> ('m, 'r) statement \<Rightarrow>
    (clause_expr list \<times> ('m, 'r) statement) res" where
  "apply_join_conditions sc scoped build prefix st =
     (let st = expand_nested_association_joins sc st;
          (froms, a) = from_join_conditions scoped build (from_joins st) empty_acc;
          st = st\<lparr>st_from := map_option (\<lambda>_. froms) (st_from st)\<rparr>
      in res_bind (join_conditions sc st scoped build prefix 0 (st_joins st) a) (\<lambda>(js, a). Inr (ja_fallback a, st\<lparr>st_joins := js\<rparr>)))"

end
