(* ===== verification/Sql_Join_Cover.thy ===== *)
theory Sql_Join_Cover
  imports Sql_Join
begin

text \<open>
  What the conditions on joins guarantee. A row of the joined tables is over-approximated (\<open>joined_row\<close>): any row of a table may be joined if
  the conditions written into its \<open>ON\<close> hold, an outer join may leave a table out, and conditions of the caller are ignored. Then every
  scoped table of a selected row is left out or satisfies its condition (\<open>scoped_rows\<close>).
\<close>

subsection \<open>The joins a statement performs\<close>

record join_step =
  jp_reference :: sql_table_reference
  jp_type :: string
  jp_on :: "clause_expr list"

definition from_step :: "from_join \<Rightarrow> join_step" where
  "from_step j = \<lparr>jp_reference = from_reference j, jp_type = fj_type j, jp_on = fj_on j\<rparr>"

definition conds_named :: "string \<Rightarrow> stmt_join \<Rightarrow> clause_expr list" where
  "conds_named p j = map snd (filter (\<lambda>(q, _). q = p) (sj_conds j))"

definition segment_step :: "string \<Rightarrow> nat \<Rightarrow> stmt_join \<Rightarrow> nat \<times> raw_join_segment \<Rightarrow> join_step" where
  "segment_step prefix index j' is =
     \<lparr>jp_reference = js_reference (snd is), jp_type = js_join_type (snd is), jp_on = conds_named (placeholder prefix index (fst is)) j'\<rparr>"

text \<open>The joins of one join \<open>j\<close>, of which the callback made \<open>j'\<close>.\<close>

definition join_steps :: "('m, 'r) schemas \<Rightarrow> ('m, 'r) statement \<Rightarrow> string \<Rightarrow> nat \<Rightarrow> stmt_join \<Rightarrow> stmt_join \<Rightarrow> join_step list" where
  "join_steps sc st prefix index j j' =
     (let refs = join_references sc st j in
      if refs \<noteq> [] then
        [\<lparr>jp_reference = List.last refs, jp_type = sj_type j', jp_on = (case sj_on j' of None \<Rightarrow> [] | Some es \<Rightarrow> es)\<rparr>]
      else map (segment_step prefix index j') (enumerate 0 (raw_join_segments (st_dialect st) (sj_name j))))"

fun all_steps :: "('m, 'r) schemas \<Rightarrow> ('m, 'r) statement \<Rightarrow> string \<Rightarrow> nat \<Rightarrow> stmt_join list \<Rightarrow> stmt_join list \<Rightarrow> join_step list" where
  "all_steps sc st prefix index (j # js) (j' # js') = join_steps sc st prefix index j j' @ all_steps sc st prefix (Suc index) js js'"
| "all_steps sc st prefix index _ _ = []"

definition join_plan :: "('m, 'r) schemas \<Rightarrow> string \<Rightarrow> ('m, 'r) statement \<Rightarrow> ('m, 'r) statement \<Rightarrow> join_step list" where
  "join_plan sc prefix st st' =
     (let st = expand_nested_association_joins sc st
      in map from_step (from_joins st') @ all_steps sc st prefix 0 (st_joins st) (st_joins st'))"

subsection \<open>Aliases with a condition\<close>

text \<open>Joins whose \<open>ON\<close> rejects rows of the joined table.\<close>

definition on_filters :: "string \<Rightarrow> bool" where
  "on_filters t \<longleftrightarrow> t \<noteq> ''RIGHT'' \<and> t \<noteq> ''CROSS'' \<and> t \<noteq> ''FULL''"

definition covered ::
  "(sql_table_reference \<Rightarrow> bool) \<Rightarrow> (sql_table_reference \<Rightarrow> clause_expr) \<Rightarrow> clause_expr list \<Rightarrow> join_step list \<Rightarrow> string \<Rightarrow> bool" where
  "covered scoped build fallback steps alias \<longleftrightarrow>
     (\<exists>r. tr_alias r = alias \<and> scoped r \<and>
       (build r \<in> set fallback \<or> (\<exists>s \<in> set steps. jp_reference s = r \<and> on_filters (jp_type s) \<and> build r \<in> set (jp_on s))))"

text \<open>Every alias that is marked has a condition in the \<open>WHERE\<close> clause or in the \<open>ON\<close> of a join so far.\<close>

definition acc_covered ::
  "(sql_table_reference \<Rightarrow> bool) \<Rightarrow> (sql_table_reference \<Rightarrow> clause_expr) \<Rightarrow> join_step list \<Rightarrow> join_acc \<Rightarrow> bool" where
  "acc_covered scoped build steps a \<longleftrightarrow> (\<forall>alias \<in> ja_seen a. covered scoped build (ja_fallback a) steps alias)"

definition steps_marked :: "(sql_table_reference \<Rightarrow> bool) \<Rightarrow> join_step list \<Rightarrow> join_acc \<Rightarrow> bool" where
  "steps_marked scoped steps a \<longleftrightarrow> (\<forall>s \<in> set steps. scoped (jp_reference s) \<longrightarrow> tr_alias (jp_reference s) \<in> ja_seen a)"

lemma covered_mono:
  "covered scoped build fb steps alias \<Longrightarrow> set fb \<subseteq> set fb' \<Longrightarrow> set steps \<subseteq> set steps' \<Longrightarrow> covered scoped build fb' steps' alias"
  unfolding covered_def by blast

lemma acc_covered_more: "acc_covered scoped build steps a \<Longrightarrow> acc_covered scoped build (steps @ steps') a"
  unfolding acc_covered_def using covered_mono by (metis Un_upper1 order_refl set_append)

lemma acc_covered_fallback:
  "acc_covered scoped build steps a \<Longrightarrow> scoped r \<Longrightarrow> acc_covered scoped build steps (append_unique_join_expression (tr_alias r) (build r) a)"
  unfolding acc_covered_def append_unique_join_expression_def covered_def by auto

lemma acc_covered_mark:
  assumes "acc_covered scoped build steps a" "covered scoped build (ja_fallback a) steps alias"
  shows "acc_covered scoped build steps (mark_seen alias a)"
  using assms by (auto simp: acc_covered_def mark_seen_def)

lemma mark_simps [simp]:
  "ja_seen (mark_seen alias a) = insert alias (ja_seen a)" "ja_joined (mark_seen alias a) = ja_joined a" "ja_fallback (mark_seen alias a) = ja_fallback a"
  by (simp_all add: mark_seen_def)

lemma unique_simps [simp]:
  "ja_seen (append_unique_join_expression alias e a) = insert alias (ja_seen a)"
  "ja_joined (append_unique_join_expression alias e a) = ja_joined a"
  by (auto simp: append_unique_join_expression_def)

lemma acc_covered_joined [simp]: "acc_covered scoped build steps (a\<lparr>ja_joined := p\<rparr>) = acc_covered scoped build steps a"
  by (simp add: acc_covered_def)

lemma steps_marked_mono: "steps_marked scoped steps a \<Longrightarrow> ja_seen a \<subseteq> ja_seen a' \<Longrightarrow> steps_marked scoped steps a'"
  unfolding steps_marked_def by blast

lemma steps_marked_append [simp]: "steps_marked scoped (steps @ steps') a \<longleftrightarrow> steps_marked scoped steps a \<and> steps_marked scoped steps' a"
  unfolding steps_marked_def by auto

subsection \<open>Each kind of join\<close>

lemma from_condition_covers:
  assumes "from_join_condition scoped build j a = (j', a')" "acc_covered scoped build steps a" "fj_type j \<noteq> ''FULL''"
  shows "acc_covered scoped build (steps @ [from_step j']) a' \<and> steps_marked scoped [from_step j'] a' \<and> ja_seen a \<subseteq> ja_seen a' \<and> ja_joined a' = ja_joined a"
proof -
  let ?r = "from_reference j"
  have acc: "acc_covered scoped build (steps @ [s]) a" for s using acc_covered_more [OF assms(2)] .
  show ?thesis
  proof (cases "scoped ?r \<and> fj_type j \<noteq> ''RIGHT'' \<and> fj_type j \<noteq> ''CROSS'' \<and> \<not> fj_expression j \<and> fj_using j = []")
    case True
    then have j': "j' = j\<lparr>fj_on := fj_on j @ [build ?r]\<rparr>" and a': "a' = mark_seen (tr_alias ?r) a"
      using assms(1) by (simp_all add: from_join_condition_def Let_def)
    have ref: "from_reference j' = ?r" by (simp add: j' from_reference_def)
    have "jp_reference (from_step j') = ?r \<and> on_filters (jp_type (from_step j')) \<and> build ?r \<in> set (jp_on (from_step j'))"
      using True assms(3) by (simp add: from_step_def ref on_filters_def) (simp add: j')
    then have "covered scoped build (ja_fallback a) (steps @ [from_step j']) (tr_alias ?r)"
      using True unfolding covered_def by auto
    from acc_covered_mark [OF acc this] show ?thesis
      by (simp add: a' steps_marked_def from_step_def ref) blast
  next
    case False
    then have j': "j' = j" and a': "a' = (if scoped ?r then append_unique_join_expression (tr_alias ?r) (build ?r) a else a)"
      using assms(1) by (auto simp: from_join_condition_def Let_def split: if_split_asm)
    show ?thesis
    proof (cases "scoped ?r")
      case True
      with acc_covered_fallback [OF acc this] show ?thesis by (simp add: j' a' steps_marked_def from_step_def) blast
    next
      case False
      with acc show ?thesis by (simp add: j' a' steps_marked_def from_step_def)
    qed
  qed
qed

lemma from_conditions_cover:
  assumes "from_join_conditions scoped build js a = (js', a')" "acc_covered scoped build steps a" "\<forall>j \<in> set js. fj_type j \<noteq> ''FULL''"
  shows "acc_covered scoped build (steps @ map from_step js') a' \<and> steps_marked scoped (map from_step js') a' \<and> ja_seen a \<subseteq> ja_seen a' \<and> ja_joined a' = ja_joined a"
  using assms
proof (induction js arbitrary: a a' js' steps)
  case Nil
  then show ?case by (simp add: steps_marked_def)
next
  case (Cons j js)
  obtain j1 a1 where one: "from_join_condition scoped build j a = (j1, a1)" by fastforce
  obtain js1 a2 where rest: "from_join_conditions scoped build js a1 = (js1, a2)" by fastforce
  have res: "js' = j1 # js1" "a' = a2" using Cons.prems(1) by (simp_all add: one rest)
  have "fj_type j \<noteq> ''FULL''" using Cons.prems(3) by simp
  note step = from_condition_covers [OF one Cons.prems(2) this]
  from step have "acc_covered scoped build (steps @ [from_step j1]) a1" by blast
  moreover have "\<forall>j \<in> set js. fj_type j \<noteq> ''FULL''" using Cons.prems(3) by simp
  ultimately have more: "acc_covered scoped build ((steps @ [from_step j1]) @ map from_step js1) a2 \<and> steps_marked scoped (map from_step js1) a2 \<and>
    ja_seen a1 \<subseteq> ja_seen a2 \<and> ja_joined a2 = ja_joined a1" by (rule Cons.IH [OF rest])
  have "steps_marked scoped ([from_step j1] @ map from_step js1) a2"
    unfolding steps_marked_append using step more steps_marked_mono by blast
  with step more show ?case by (auto simp: res)
qed

lemma association_prefix:
  assumes "n + length rs < count" "acc_covered scoped build steps a"
    "fold (association_condition scoped build count) (enumerate n rs) (j, a) = (j', a')"
  shows "j' = j \<and> acc_covered scoped build steps a' \<and> ja_seen a \<subseteq> ja_seen a' \<and>
    ja_joined a' = ja_joined a \<union> path_upto (sj_name j) ` {n ..< n + length rs}"
  using assms
proof (induction rs arbitrary: n a)
  case Nil
  then show ?case by simp
next
  case (Cons r rs)
  obtain j1 a1 where one: "association_condition scoped build count (n, r) (j, a) = (j1, a1)" by fastforce
  have rest: "fold (association_condition scoped build count) (enumerate (Suc n) rs) (j1, a1) = (j', a')"
    using Cons.prems(3) one by simp
  let ?p = "path_upto (sj_name j) n"
  have "j1 = j \<and> acc_covered scoped build steps a1 \<and> ja_seen a \<subseteq> ja_seen a1 \<and> ja_joined a1 = insert ?p (ja_joined a)"
  proof (cases "?p \<in> ja_joined a")
    case True
    with one Cons.prems(2) show ?thesis by (auto simp: association_condition_def Let_def)
  next
    case False
    show ?thesis
    proof (cases "scoped r")
      case True
      with one False Cons.prems(1) have "j1 = j \<and> a1 = append_unique_join_expression (tr_alias r) (build r) (a\<lparr>ja_joined := insert ?p (ja_joined a)\<rparr>)"
        by (auto simp: association_condition_def Let_def)
      moreover have "acc_covered scoped build steps (a\<lparr>ja_joined := insert ?p (ja_joined a)\<rparr>)" using Cons.prems(2) by simp
      ultimately show ?thesis using True acc_covered_fallback [where scoped = scoped and r = r] by auto
    next
      case False': False
      with one False Cons.prems(2) show ?thesis by (auto simp: association_condition_def Let_def)
    qed
  qed
  then have one': "j1 = j" "acc_covered scoped build steps a1" "ja_seen a \<subseteq> ja_seen a1" "ja_joined a1 = insert ?p (ja_joined a)" by blast+
  have "{n ..< n + length (r # rs)} = insert n {Suc n ..< Suc n + length rs}" by auto
  with Cons.IH [OF _ one'(2) rest [unfolded one'(1)]] Cons.prems(1) one' show ?case by auto
qed

lemma references_length: "join_references sc st j \<noteq> [] \<Longrightarrow> length (join_references sc st j) = length (split_byte (sj_name j) (CHR ''.''))"
proof -
  have path: "association_path sc m nm fin ps = Some rs \<Longrightarrow> length rs = length ps" for m nm fin ps rs
    by (induction ps arbitrary: m nm rs) (auto simp: Let_def split: option.split_asm)
  show "join_references sc st j \<noteq> [] \<Longrightarrow> ?thesis"
    by (auto simp: join_references_def association_join_references_def path split: option.splits)
qed

lemma path_upto_full: "Suc i = length (split_byte name (CHR ''.'')) \<Longrightarrow> path_upto name i = name"
  by (simp add: path_upto_def join_split_byte)

lemma association_covers:
  assumes "join_references sc st j \<noteq> []" "acc_covered scoped build steps a" "sj_name j \<notin> ja_joined a"
    "\<forall>i. Suc i < length (join_references sc st j) \<longrightarrow> path_upto (sj_name j) i \<noteq> sj_name j"
    "sj_type j \<noteq> ''FULL''"
    "fold (association_condition scoped build (length (join_references sc st j))) (enumerate 0 (join_references sc st j)) (j, a) = (j', a')"
  shows "acc_covered scoped build (steps @ join_steps sc st prefix index j j') a' \<and> steps_marked scoped (join_steps sc st prefix index j j') a' \<and>
    ja_seen a \<subseteq> ja_seen a' \<and> ja_joined a' = ja_joined a \<union> path_upto (sj_name j) ` {0 ..< length (join_references sc st j)}"
proof -
  define refs where "refs = join_references sc st j"
  then obtain rs r where rs: "refs = rs @ [r]" using assms(1) by (metis append_butlast_last_id)
  let ?c = "Suc (length rs)"
  obtain j1 a1 where first: "fold (association_condition scoped build ?c) (enumerate 0 rs) (j, a) = (j1, a1)" by fastforce
  have len: "length refs = ?c" by (simp add: rs)
  have "j1 = j \<and> acc_covered scoped build steps a1 \<and> ja_seen a \<subseteq> ja_seen a1 \<and> ja_joined a1 = ja_joined a \<union> path_upto (sj_name j) ` {0 ..< 0 + length rs}"
    by (rule association_prefix [OF _ assms(2) first]) simp
  then have one: "j1 = j" "acc_covered scoped build steps a1" "ja_seen a \<subseteq> ja_seen a1"
    "ja_joined a1 = ja_joined a \<union> path_upto (sj_name j) ` {0 ..< length rs}" by simp_all
  have step: "association_condition scoped build ?c (length rs, r) (j, a1) = (j', a')"
    using assms(6) first by (simp add: refs_def [symmetric] len) (simp add: rs enumerate_append_eq one(1))
  have full: "path_upto (sj_name j) (length rs) = sj_name j"
    using references_length [OF assms(1)] by (intro path_upto_full) (simp add: refs_def [symmetric] len)
  have fresh: "sj_name j \<notin> ja_joined a1"
    using assms(3,4) by (force simp: one(4) refs_def [symmetric] len)
  let ?a = "a1\<lparr>ja_joined := insert (sj_name j) (ja_joined a1)\<rparr>"
  have joined: "ja_joined ?a = ja_joined a \<union> path_upto (sj_name j) ` {0 ..< length refs}"
    by (simp add: one(4) len full atLeast0_lessThan_Suc)
  have last: "join_steps sc st prefix index j j' = [\<lparr>jp_reference = r, jp_type = sj_type j', jp_on = (case sj_on j' of None \<Rightarrow> [] | Some es \<Rightarrow> es)\<rparr>]"
    using assms(1) by (simp add: join_steps_def refs_def [symmetric] rs)
  have old: "acc_covered scoped build (steps @ join_steps sc st prefix index j j') ?a" using acc_covered_more [OF one(2)] by simp
  have marked: "steps_marked scoped (join_steps sc st prefix index j j') a' \<longleftrightarrow> (scoped r \<longrightarrow> tr_alias r \<in> ja_seen a')"
    by (simp add: last steps_marked_def)
  consider "\<not> scoped r" | "scoped r" "sj_type j \<noteq> ''RIGHT''" "sj_type j \<noteq> ''CROSS''" | "scoped r" "sj_type j = ''RIGHT'' \<or> sj_type j = ''CROSS''"
    by blast
  then have "acc_covered scoped build (steps @ join_steps sc st prefix index j j') a' \<and> (scoped r \<longrightarrow> tr_alias r \<in> ja_seen a') \<and>
    ja_seen a1 \<subseteq> ja_seen a' \<and> ja_joined a' = ja_joined ?a"
  proof cases
    case 1
    then have "a' = ?a" using step fresh by (auto simp: association_condition_def full)
    then show ?thesis using 1 old by simp
  next
    case 2
    then have res: "j' = j\<lparr>sj_on := Some ((case sj_on j of None \<Rightarrow> [] | Some es \<Rightarrow> es) @ [build r])\<rparr> \<and> a' = mark_seen (tr_alias r) ?a"
      using step fresh by (auto simp: association_condition_def full)
    have "covered scoped build (ja_fallback ?a) (steps @ join_steps sc st prefix index j j') (tr_alias r)"
      using 2 assms(5) unfolding covered_def last by (auto simp: res on_filters_def)
    from acc_covered_mark [OF old this] show ?thesis by (simp add: res [THEN conjunct2]) blast
  next
    case 3
    then have "a' = append_unique_join_expression (tr_alias r) (build r) ?a"
      using step fresh by (auto simp: association_condition_def full)
    then show ?thesis using acc_covered_fallback [OF old 3(1)] by (simp add: subset_insertI)
  qed
  then show ?thesis using marked one(3) joined unfolding refs_def by auto
qed

lemma supports_on_type: "s \<in> set (raw_join_segments d q) \<Longrightarrow> js_supports_on s \<Longrightarrow> on_filters (js_join_type s)"
proof -
  have one: "join_segment d q ts e j = Some s \<Longrightarrow> js_supports_on s \<Longrightarrow> on_filters (js_join_type s)" for ts e j
    by (auto simp: join_segment_def Let_def raw_join_allows_on_def on_filters_def split: if_split_asm option.split_asm)
  have "s \<in> set (join_segments d q ts js) \<Longrightarrow> js_supports_on s \<Longrightarrow> on_filters (js_join_type s)" for ts js
    by (induction js) (auto simp: Let_def split: option.split_asm dest: one one [OF sym])
  then show "s \<in> set (raw_join_segments d q) \<Longrightarrow> js_supports_on s \<Longrightarrow> ?thesis" by (simp add: raw_join_segments_def Let_def)
qed

definition injected :: "(sql_table_reference \<Rightarrow> bool) \<Rightarrow> nat \<times> raw_join_segment \<Rightarrow> bool" where
  "injected scoped w \<longleftrightarrow> js_supports_on (snd w) \<and> scoped (js_reference (snd w))"

text \<open>The effect of the loop over the segments of a raw join.\<close>

lemma segments_fold:
  assumes "fold (segment_condition scoped build prefix index) L (injections, j, a) = (injections', j', a')"
  shows "injections' = injections @ map (\<lambda>w. \<lparr>ji_condition_start = js_condition_start (snd w), ji_condition_end = js_condition_end (snd w),
      ji_placeholder = placeholder prefix index (fst w)\<rparr>) (filter (injected scoped) L) \<and>
    sj_name j' = sj_name j \<and>
    sj_conds j' = sj_conds j @ map (\<lambda>w. (placeholder prefix index (fst w), build (js_reference (snd w)))) (filter (injected scoped) L) \<and>
    ja_joined a' = ja_joined a \<and> ja_seen a \<subseteq> ja_seen a' \<and>
    (\<forall>w \<in> set L. scoped (js_reference (snd w)) \<longrightarrow> tr_alias (js_reference (snd w)) \<in> ja_seen a') \<and>
    (\<forall>steps. acc_covered scoped build steps a \<longrightarrow> (\<forall>w \<in> set L. injected scoped w \<longrightarrow>
       covered scoped build [] steps (tr_alias (js_reference (snd w)))) \<longrightarrow> acc_covered scoped build steps a')"
  using assms
proof (induction L arbitrary: injections j a)
  case Nil
  then show ?case by simp
next
  case (Cons w L)
  obtain i s where w: "w = (i, s)" by fastforce
  let ?r = "js_reference s"
  obtain inj1 j1 a1 where one: "segment_condition scoped build prefix index (i, s) (injections, j, a) = (inj1, j1, a1)" using prod_cases3 by blast
  then have rest: "fold (segment_condition scoped build prefix index) L (inj1, j1, a1) = (injections', j', a')"
    using Cons.prems by (simp add: w)
  note IH = Cons.IH [OF rest]
  consider "\<not> scoped ?r" | "scoped ?r" "\<not> js_supports_on s" | "scoped ?r" "js_supports_on s" by blast
  then show ?case
  proof cases
    case 1
    then have eq: "inj1 = injections" "j1 = j" "a1 = a" using one by (simp_all add: segment_condition_def)
    have "\<not> injected scoped w" using 1 by (simp add: injected_def w)
    then show ?thesis using IH 1 by (simp add: eq w)
  next
    case 2
    then have eq: "inj1 = injections" "j1 = j" "a1 = append_unique_join_expression (tr_alias ?r) (build ?r) a"
      using one by (simp_all add: segment_condition_def Let_def)
    have no: "\<not> injected scoped w" using 2 by (simp add: injected_def w)
    have acc: "acc_covered scoped build steps a \<Longrightarrow> acc_covered scoped build steps a1" for steps
      using acc_covered_fallback [of scoped build steps a ?r] 2 by (simp add: eq)
    show ?thesis using IH acc no by (auto simp: eq w)
  next
    case 3
    then have eq: "inj1 = injections @ [\<lparr>ji_condition_start = js_condition_start s, ji_condition_end = js_condition_end s, ji_placeholder = placeholder prefix index i\<rparr>]"
      "j1 = j\<lparr>sj_conds := sj_conds j @ [(placeholder prefix index i, build ?r)]\<rparr>" "a1 = mark_seen (tr_alias ?r) a"
      using one by (simp_all add: segment_condition_def Let_def)
    have yes: "injected scoped w" using 3 by (simp add: injected_def w)
    have acc: "acc_covered scoped build steps a1" if "acc_covered scoped build steps a" "covered scoped build [] steps (tr_alias ?r)" for steps
      using acc_covered_mark [OF that(1) covered_mono [OF that(2)]] by (simp add: eq)
    show ?thesis using IH acc yes by (simp add: eq w)
  qed
qed

lemma injections_in_range:
  "ranges_ok q 0 (map (\<lambda>j. (ji_condition_start j, ji_condition_end j)) (map (\<lambda>w. \<lparr>ji_condition_start = js_condition_start (snd w),
     ji_condition_end = js_condition_end (snd w), ji_placeholder = p (fst w)\<rparr>) (filter (injected scoped) (enumerate 0 (raw_join_segments d q)))))"
proof -
  have "map snd (filter (\<lambda>w. P (snd w)) (enumerate n xs)) = filter P xs" for P n and xs :: "raw_join_segment list"
    by (induction xs arbitrary: n) auto
  from this [of "\<lambda>s. js_supports_on s \<and> scoped (js_reference s)" 0 "raw_join_segments d q"]
  have "map (\<lambda>w. (js_condition_start (snd w), js_condition_end (snd w))) (filter (injected scoped) (enumerate 0 (raw_join_segments d q))) =
      map (\<lambda>s. (js_condition_start s, js_condition_end s)) (filter (\<lambda>s. js_supports_on s \<and> scoped (js_reference s)) (raw_join_segments d q))"
    unfolding injected_def by (metis (no_types, lifting) map_map comp_def map_cong)
  with chosen_ranges [of q "\<lambda>s. scoped (js_reference s)" d] show ?thesis by (simp add: comp_def)
qed

text \<open>A join of either kind: it never slices out of range, and its scoped tables are covered.\<close>

lemma join_condition_covers:
  assumes "acc_covered scoped build steps a"
    "join_references sc st j \<noteq> [] \<Longrightarrow> sj_name j \<notin> ja_joined a \<and> (\<forall>i. Suc i < length (join_references sc st j) \<longrightarrow> path_upto (sj_name j) i \<noteq> sj_name j)"
    "sj_type j \<noteq> ''FULL''"
  shows "\<exists>j' a'. join_condition sc st scoped build prefix index j a = Inr (j', a') \<and>
    acc_covered scoped build (steps @ join_steps sc st prefix index j j') a' \<and> steps_marked scoped (join_steps sc st prefix index j j') a' \<and>
    ja_seen a \<subseteq> ja_seen a' \<and> ja_joined a' = ja_joined a \<union> path_upto (sj_name j) ` {0 ..< length (join_references sc st j)}"
proof (cases "join_references sc st j = []")
  case False
  obtain j' a' where "fold (association_condition scoped build (length (join_references sc st j))) (enumerate 0 (join_references sc st j)) (j, a) = (j', a')"
    by fastforce
  with association_covers [OF False assms(1) _ _ assms(3) this] assms(2) False show ?thesis by (simp add: join_condition_def Let_def)
next
  case True
  define L where "L = enumerate 0 (raw_join_segments (st_dialect st) (sj_name j))"
  obtain inj j' a' where loop: "fold (segment_condition scoped build prefix index) L ([], j, a) = (inj, j', a')" using prod_cases3 by blast
  note effect = segments_fold [OF loop, unfolded append_Nil]
  obtain name where name: "append_raw_join_on_conditions (sj_name j) inj = Inr name"
    using effect append_conditions_value [OF injections_in_range, of "sj_name j"] unfolding L_def by auto
  define jr where "jr = (if inj \<noteq> [] then j'\<lparr>sj_name := name\<rparr> else j')"
  have res: "join_condition sc st scoped build prefix index j a = Inr (jr, a')"
    using True effect loop name by (simp add: join_condition_def Let_def L_def jr_def)
  have conds: "sj_conds jr = sj_conds j'" by (simp add: jr_def)
  have steps: "join_steps sc st prefix index j jr = map (segment_step prefix index jr) L"
    using True by (simp add: join_steps_def L_def)
  have on: "covered scoped build [] (steps @ join_steps sc st prefix index j jr) (tr_alias (js_reference (snd w)))"
    if "w \<in> set L" "injected scoped w" for w
  proof -
    let ?s = "segment_step prefix index jr w"
    have "snd w \<in> set (raw_join_segments (st_dialect st) (sj_name j))"
      using that(1) by (metis L_def in_set_zip enumerate_eq_zip nth_mem prod.collapse snd_conv set_zip_rightD)
    with that(2) supports_on_type have "on_filters (jp_type ?s)" by (auto simp: injected_def segment_step_def)
    moreover have "(placeholder prefix index (fst w), build (js_reference (snd w))) \<in> set (sj_conds jr)"
      using effect that unfolding conds by auto
    then have "build (js_reference (snd w)) \<in> set (jp_on ?s)" by (force simp: segment_step_def conds_named_def)
    moreover have "jp_reference ?s = js_reference (snd w)" "?s \<in> set (join_steps sc st prefix index j jr)"
      using that(1) by (simp_all add: segment_step_def steps)
    ultimately show ?thesis using that(2) unfolding covered_def injected_def by auto
  qed
  have "acc_covered scoped build (steps @ join_steps sc st prefix index j jr) a'"
    using effect acc_covered_more [OF assms(1)] on by blast
  moreover have "steps_marked scoped (join_steps sc st prefix index j jr) a'"
    using effect by (auto simp: steps_marked_def steps segment_step_def)
  ultimately show ?thesis using res effect True by auto
qed

subsection \<open>All joins\<close>

text \<open>After the expansion the levels of a path come before it, once each.\<close>

definition levels_first :: "('m, 'r) schemas \<Rightarrow> ('m, 'r) statement \<Rightarrow> stmt_join list \<Rightarrow> bool" where
  "levels_first sc st js \<longleftrightarrow> (\<forall>js1 j js2. js = js1 @ j # js2 \<and> join_references sc st j \<noteq> [] \<longrightarrow> sj_name j \<notin> sj_name ` set js1 \<and>
     (\<forall>i. Suc i < length (join_references sc st j) \<longrightarrow> path_upto (sj_name j) i \<in> sj_name ` set js1))"

lemma levels_first_snoc:
  assumes "levels_first sc st js" "sj_name j \<notin> sj_name ` set js"
    "\<And>i. join_references sc st j \<noteq> [] \<Longrightarrow> Suc i < length (join_references sc st j) \<Longrightarrow> path_upto (sj_name j) i \<in> sj_name ` set js"
  shows "levels_first sc st (js @ [j])"
  unfolding levels_first_def
proof (intro allI impI, elim conjE)
  fix js1 k js2
  assume "js @ [j] = js1 @ k # js2" and k: "join_references sc st k \<noteq> []"
  then consider "js2 = []" "js1 = js" "k = j" | js3 where "js = js1 @ k # js3" by (metis append_Cons append_butlast_last_id butlast.simps(2) butlast_append butlast_snoc last.simps last_append last_snoc list.distinct(1))
  then show "sj_name k \<notin> sj_name ` set js1 \<and> (\<forall>i. Suc i < length (join_references sc st k) \<longrightarrow> path_upto (sj_name k) i \<in> sj_name ` set js1)"
    using assms k unfolding levels_first_def by cases blast+
qed

lemma split_path_upto: "split_byte (path_upto name i) (CHR ''.'') = take (Suc i) (split_byte name (CHR ''.''))"
  unfolding path_upto_def by (rule split_byte_join) (auto dest: in_set_takeD split_byte_pieces)

lemma path_upto_path: "k \<le> i \<Longrightarrow> path_upto (path_upto name i) k = path_upto name k"
  unfolding path_upto_def [of "path_upto name i"] split_path_upto by (simp add: path_upto_def min_def)

lemma expand_levels:
  assumes "n \<le> length (split_byte (sj_name j) (CHR ''.''))" "levels_first sc st js" "seen = sj_name ` set js"
    "fold (expand_level j count) [0 ..< n] (js, seen) = (js', seen')"
  shows "levels_first sc st js' \<and> seen' = sj_name ` set js' \<and> (\<forall>i < n. path_upto (sj_name j) i \<in> seen')"
  using assms(1,4)
proof (induction n arbitrary: js' seen')
  case 0
  then show ?case using assms(2,3) by auto
next
  case (Suc n)
  obtain js1 seen1 where one: "fold (expand_level j count) [0 ..< n] (js, seen) = (js1, seen1)" by fastforce
  have "levels_first sc st js1 \<and> seen1 = sj_name ` set js1 \<and> (\<forall>i < n. path_upto (sj_name j) i \<in> seen1)"
    by (rule Suc.IH [OF _ one]) (use Suc.prems(1) in simp)
  then have IH: "levels_first sc st js1" "seen1 = sj_name ` set js1" "\<forall>i < n. path_upto (sj_name j) i \<in> seen1" by blast+
  let ?item = "path_join j count n"
  have name: "sj_name ?item = path_upto (sj_name j) n" by (simp add: path_join_def)
  have step: "(js', seen') = (if sj_name ?item \<in> seen1 then (js1, seen1) else (js1 @ [?item], insert (sj_name ?item) seen1))"
    using Suc.prems(2) one by (simp add: expand_level_def [of j count n] Let_def)
  show ?case
  proof (cases "sj_name ?item \<in> seen1")
    case True
    then show ?thesis using step IH by (auto simp: name less_Suc_eq)
  next
    case False
    have "levels_first sc st (js1 @ [?item])"
    proof (rule levels_first_snoc [OF IH(1)])
      fix i
      assume "join_references sc st ?item \<noteq> []" "Suc i < length (join_references sc st ?item)"
      with references_length [of sc st ?item] split_path_upto [of "sj_name j" n] Suc.prems(1) have "i < n" by (simp add: name)
      with path_upto_path [of i n "sj_name j"] IH(2,3) show "path_upto (sj_name ?item) i \<in> sj_name ` set js1" by (auto simp: name)
    qed (use False IH(2) in simp)
    with False step IH show ?thesis by (auto simp: name less_Suc_eq)
  qed
qed

lemma expansion_levels_first: "levels_first sc st (st_joins (expand_nested_association_joins sc st))"
proof (cases "st_schema st = None \<or> st_joins st = []")
  case True
  then have "join_references sc st j = [] \<or> st_joins st = []" for j by (auto simp: join_references_def association_join_references_def)
  with True show ?thesis by (auto simp: expand_nested_association_joins_def levels_first_def)
next
  case False
  have "levels_first sc st js' \<and> seen' = sj_name ` set js'"
    if "fold (expand_join sc st) joins (js, seen) = (js', seen')" "levels_first sc st js" "seen = sj_name ` set js" for joins js seen js' seen'
    using that
  proof (induction joins arbitrary: js seen)
    case Nil
    then show ?case by auto
  next
    case (Cons j joins)
    obtain js1 seen1 where one: "expand_join sc st j (js, seen) = (js1, seen1)" by fastforce
    have rest: "fold (expand_join sc st) joins (js1, seen1) = (js', seen')" using Cons.prems(1) one by simp
    have "levels_first sc st js1 \<and> seen1 = sj_name ` set js1"
    proof (cases "length (join_references sc st j) \<le> 1")
      case True
      then show ?thesis
        using one Cons.prems(2,3) levels_first_snoc [OF Cons.prems(2), of j] by (auto simp: expand_join_def split: if_split_asm)
    next
      case False
      then have "length (join_references sc st j) \<le> length (split_byte (sj_name j) (CHR ''.''))"
        using references_length [of sc st j] by (cases "join_references sc st j") auto
      with expand_levels [OF this Cons.prems(2,3)] one False show ?thesis by (simp add: expand_join_def Let_def)
    qed
    with Cons.IH [OF rest] show ?case by blast
  qed
  note step = this
  obtain js' seen' where fold: "fold (expand_join sc st) (st_joins st) ([], {}) = (js', seen')" by fastforce
  have "levels_first sc st js'" using step [OF fold] by (simp add: levels_first_def)
  with False fold show ?thesis by (auto simp: expand_nested_association_joins_def)
qed

lemma levels_paths:
  assumes "levels_first sc st (js1 @ j # js2)" "join_references sc st j \<noteq> []"
  shows "path_upto (sj_name j) ` {0 ..< length (join_references sc st j)} \<subseteq> sj_name ` set (js1 @ [j])"
    "\<forall>i. Suc i < length (join_references sc st j) \<longrightarrow> path_upto (sj_name j) i \<noteq> sj_name j" "sj_name j \<notin> sj_name ` set js1"
proof -
  have first: "sj_name j \<notin> sj_name ` set js1" "\<forall>i. Suc i < length (join_references sc st j) \<longrightarrow> path_upto (sj_name j) i \<in> sj_name ` set js1"
    using assms unfolding levels_first_def by blast+
  then show "\<forall>i. Suc i < length (join_references sc st j) \<longrightarrow> path_upto (sj_name j) i \<noteq> sj_name j" "sj_name j \<notin> sj_name ` set js1" by metis+
  show "path_upto (sj_name j) ` {0 ..< length (join_references sc st j)} \<subseteq> sj_name ` set (js1 @ [j])"
  proof
    fix p
    assume "p \<in> path_upto (sj_name j) ` {0 ..< length (join_references sc st j)}"
    then obtain i where i: "p = path_upto (sj_name j) i" "i < length (join_references sc st j)" by auto
    show "p \<in> sj_name ` set (js1 @ [j])"
    proof (cases "Suc i < length (join_references sc st j)")
      case True
      with first(2) i(1) show ?thesis by auto
    next
      case False
      with i references_length [OF assms(2)] path_upto_full [of i "sj_name j"] show ?thesis by simp
    qed
  qed
qed

lemma join_conditions_cover:
  assumes "levels_first sc st (js0 @ js)" "ja_joined a \<subseteq> sj_name ` set js0" "acc_covered scoped build steps a" "\<forall>j \<in> set js. sj_type j \<noteq> ''FULL''"
  shows "\<exists>js' a'. join_conditions sc st scoped build prefix index js a = Inr (js', a') \<and>
    acc_covered scoped build (steps @ all_steps sc st prefix index js js') a' \<and> steps_marked scoped (all_steps sc st prefix index js js') a' \<and>
    ja_seen a \<subseteq> ja_seen a'"
  using assms
proof (induction js arbitrary: js0 a steps index)
  case Nil
  then show ?case by (simp add: steps_marked_def)
next
  case (Cons j js)
  have fresh: "sj_name j \<notin> ja_joined a \<and> (\<forall>i. Suc i < length (join_references sc st j) \<longrightarrow> path_upto (sj_name j) i \<noteq> sj_name j)"
    if "join_references sc st j \<noteq> []"
    using levels_paths [OF Cons.prems(1) that] Cons.prems(2) by blast
  have "sj_type j \<noteq> ''FULL''" using Cons.prems(4) by simp
  from join_condition_covers [OF Cons.prems(3) fresh this] obtain j1 a1 where one:
    "join_condition sc st scoped build prefix index j a = Inr (j1, a1)"
    "acc_covered scoped build (steps @ join_steps sc st prefix index j j1) a1" "steps_marked scoped (join_steps sc st prefix index j j1) a1"
    "ja_seen a \<subseteq> ja_seen a1" "ja_joined a1 = ja_joined a \<union> path_upto (sj_name j) ` {0 ..< length (join_references sc st j)}" by blast
  have "ja_joined a1 \<subseteq> sj_name ` set (js0 @ [j])"
    using levels_paths(1) [OF Cons.prems(1)] Cons.prems(2) one(5) by (cases "join_references sc st j = []") auto
  with Cons.IH [of "js0 @ [j]" a1 "steps @ join_steps sc st prefix index j j1" "Suc index"] Cons.prems one obtain js2 a2 where rest:
    "join_conditions sc st scoped build prefix (Suc index) js a1 = Inr (js2, a2)"
    "acc_covered scoped build ((steps @ join_steps sc st prefix index j j1) @ all_steps sc st prefix (Suc index) js js2) a2"
    "steps_marked scoped (all_steps sc st prefix (Suc index) js js2) a2" "ja_seen a1 \<subseteq> ja_seen a2" by auto
  with one steps_marked_mono [OF one(3) rest(4)] show ?case by auto
qed

definition plain_types :: "('m, 'r) statement \<Rightarrow> bool" where
  "plain_types st \<longleftrightarrow> (\<forall>j \<in> set (from_joins st). fj_type j \<noteq> ''FULL'') \<and> (\<forall>j \<in> set (st_joins st). sj_type j \<noteq> ''FULL'')"

lemma expand_types:
  assumes "\<forall>j \<in> set (st_joins st). sj_type j \<noteq> ''FULL''" "j \<in> set (st_joins (expand_nested_association_joins sc st))"
  shows "sj_type j \<noteq> ''FULL''"
proof -
  let ?ok = "\<lambda>acc. \<forall>j \<in> set (fst acc). sj_type j \<noteq> ''FULL''"
  have one: "?ok (expand_level k c i acc)" if "sj_type k \<noteq> ''FULL''" "?ok acc" for k c i acc
    using that by (auto simp: expand_level_def path_join_def Let_def split: prod.split)
  have level: "?ok (fold (expand_level k c) xs acc)" if "sj_type k \<noteq> ''FULL''" "?ok acc" for k c xs acc
    using that(2)
  proof (induction xs arbitrary: acc)
    case (Cons x xs)
    from Cons.IH [OF one [OF that(1) Cons.prems]] show ?case by simp
  qed simp
  have "?ok (fold (expand_join sc st) joins acc)" if "\<forall>j \<in> set joins. sj_type j \<noteq> ''FULL''" "?ok acc" for joins acc
    using that
  proof (induction joins arbitrary: acc)
    case (Cons k joins)
    have "?ok (expand_join sc st k acc)"
      using Cons.prems level [of k acc] by (auto simp: expand_join_def Let_def split: prod.split)
    with Cons show ?case by simp
  qed simp
  from this [OF assms(1), of "([], {})"] assms show ?thesis by (auto simp: expand_nested_association_joins_def split: if_split_asm)
qed

text \<open>\<open>applyJoinConditions\<close> never slices out of range, changes joins only, and leaves no scoped table without a condition.\<close>

lemma apply_join_conditions_cover:
  assumes "plain_types st"
  obtains fallback froms js where
    "apply_join_conditions sc scoped build prefix st = Inr (fallback, st\<lparr>st_from := froms, st_joins := js\<rparr>)"
    "\<forall>s \<in> set (join_plan sc prefix st (st\<lparr>st_from := froms, st_joins := js\<rparr>)). scoped (jp_reference s) \<longrightarrow>
       covered scoped build fallback (join_plan sc prefix st (st\<lparr>st_from := froms, st_joins := js\<rparr>)) (tr_alias (jp_reference s))"
proof -
  define st1 where "st1 = expand_nested_association_joins sc st"
  have same: "st1 = st\<lparr>st_joins := st_joins st1\<rparr>" by (simp add: st1_def expand_nested_association_joins_def)
  have from1: "st_from st1 = st_from st" "from_joins st1 = from_joins st" by (subst same, simp add: from_joins_def)+
  obtain fs a1 where froms: "from_join_conditions scoped build (from_joins st1) empty_acc = (fs, a1)" by fastforce
  have "acc_covered scoped build [] empty_acc" by (simp add: acc_covered_def empty_acc_def)
  from from_conditions_cover [OF froms this] assms have one: "acc_covered scoped build (map from_step fs) a1" "steps_marked scoped (map from_step fs) a1" "ja_joined a1 = {}"
    by (simp_all add: plain_types_def from1 empty_acc_def)
  define st2 where "st2 = st1\<lparr>st_from := map_option (\<lambda>_. fs) (st_from st1)\<rparr>"
  have refs1: "join_references sc st1 = join_references sc st" by (subst same) (simp add: join_references_def fun_eq_iff)
  have agree: "join_references sc st2 = join_references sc st1" "st_dialect st2 = st_dialect st1" "st_joins st2 = st_joins st1"
    by (simp_all add: st2_def join_references_def fun_eq_iff)
  have steps_eq: "all_steps sc st2 prefix i js js' = all_steps sc st1 prefix i js js'" for i js js'
    by (induction js js' arbitrary: i rule: list_induct2') (simp_all add: join_steps_def agree Let_def)
  have levels: "levels_first sc st2 ([] @ st_joins st2)"
    using expansion_levels_first [of sc st] by (simp add: st1_def [symmetric] levels_first_def agree refs1)
  have types: "\<forall>j \<in> set (st_joins st2). sj_type j \<noteq> ''FULL''"
    using expand_types [of st] assms by (simp add: agree st1_def plain_types_def)
  obtain js a2 where joins: "join_conditions sc st2 scoped build prefix 0 (st_joins st2) a1 = Inr (js, a2)"
    "acc_covered scoped build (map from_step fs @ all_steps sc st2 prefix 0 (st_joins st2) js) a2"
    "steps_marked scoped (all_steps sc st2 prefix 0 (st_joins st2) js) a2" "ja_seen a1 \<subseteq> ja_seen a2"
    using join_conditions_cover [OF levels _ one(1) types, of prefix 0] one(3) by auto
  define st' where "st' = st\<lparr>st_from := map_option (\<lambda>_. fs) (st_from st), st_joins := js\<rparr>"
  have result: "apply_join_conditions sc scoped build prefix st = Inr (ja_fallback a2, st')"
  proof -
    have "st2\<lparr>st_joins := js\<rparr> = st'" unfolding st2_def by (subst same) (simp add: st'_def from1)
    then show ?thesis using froms joins(1) by (simp add: apply_join_conditions_def Let_def st1_def [symmetric] st2_def [symmetric] agree(3) [symmetric])
  qed
  have no_from: "st_from st = None \<Longrightarrow> fs = []" using froms by (simp add: from1 from_joins_def)
  then have plan: "join_plan sc prefix st st' = map from_step fs @ all_steps sc st2 prefix 0 (st_joins st2) js"
    by (cases "st_from st") (simp_all add: join_plan_def Let_def st1_def [symmetric] st'_def from_joins_def steps_eq agree)
  have "steps_marked scoped (join_plan sc prefix st st') a2"
    unfolding plan using joins(3) steps_marked_mono [OF one(2) joins(4)] by simp
  with joins(2) have "\<forall>s \<in> set (join_plan sc prefix st st'). scoped (jp_reference s) \<longrightarrow>
      covered scoped build (ja_fallback a2) (join_plan sc prefix st st') (tr_alias (jp_reference s))"
    by (auto simp: plan [symmetric] steps_marked_def acc_covered_def)
  with result show ?thesis unfolding st'_def by (rule that)
qed

subsection \<open>Joined rows\<close>

text \<open>A joined row gives the row of the main table (\<open>None\<close>) and of each alias, or nothing where an outer join left the table out.\<close>

type_synonym 'w env = "string option \<Rightarrow> 'w option"

record 'w database =
  db_table :: "string option \<Rightarrow> 'w \<Rightarrow> bool"
  db_int :: "'w \<Rightarrow> string \<Rightarrow> int option"
  db_like :: "'w env \<Rightarrow> sql_column \<Rightarrow> string \<Rightarrow> bool"
  db_sql :: "'w env \<Rightarrow> string \<Rightarrow> sql_arg list \<Rightarrow> bool"
  db_caller :: "'w env \<Rightarrow> nat \<Rightarrow> bool"

definition env_row :: "'w database \<Rightarrow> 'w env \<Rightarrow> sql_row" where
  "env_row db env = \<lparr>row_int = (\<lambda>c. case c of SqlCol a n \<Rightarrow> (case env a of None \<Rightarrow> None | Some w \<Rightarrow> db_int db w n)),
     row_like = db_like db env, row_sql = db_sql db env, row_caller = db_caller db env\<rparr>"

definition step_alias :: "join_step \<Rightarrow> string option" where
  "step_alias s = Some (tr_alias (jp_reference s))"

inductive joined_row :: "'w database \<Rightarrow> join_step list \<Rightarrow> 'w env \<Rightarrow> bool" for db :: "'w database" where
  main: "db_table db None w \<Longrightarrow> joined_row db [] [None \<mapsto> w]"
| match: "joined_row db ss env \<Longrightarrow> db_table db (step_alias s) w \<Longrightarrow> jp_type s \<noteq> ''CROSS'' \<Longrightarrow>
    where_holds (env_row db (env(step_alias s \<mapsto> w))) (jp_on s) \<Longrightarrow> joined_row db (ss @ [s]) (env(step_alias s \<mapsto> w))"
| cross: "joined_row db ss env \<Longrightarrow> db_table db (step_alias s) w \<Longrightarrow> jp_type s = ''CROSS'' \<Longrightarrow> joined_row db (ss @ [s]) (env(step_alias s \<mapsto> w))"
| left: "joined_row db ss env \<Longrightarrow> jp_type s = ''LEFT'' \<or> jp_type s = ''FULL'' \<Longrightarrow> joined_row db (ss @ [s]) (env(step_alias s := None))"
| right: "joined_row db ss env \<Longrightarrow> db_table db (step_alias s) w \<Longrightarrow> jp_type s = ''RIGHT'' \<or> jp_type s = ''FULL'' \<Longrightarrow>
    joined_row db (ss @ [s]) [step_alias s \<mapsto> w]"

text \<open>A condition that only looks at the row of its own alias: it holds if there is one, and \<open>ok\<close> accepts it.\<close>

definition own_row :: "'w database \<Rightarrow> (sql_table_reference \<Rightarrow> bool) \<Rightarrow> (sql_table_reference \<Rightarrow> clause_expr) \<Rightarrow> (sql_table_reference \<Rightarrow> 'w \<Rightarrow> bool) \<Rightarrow> bool" where
  "own_row db scoped build ok \<longleftrightarrow> (\<forall>r env. scoped r \<longrightarrow> expr_holds (env_row db env) (build r) \<longleftrightarrow> (case env (Some (tr_alias r)) of None \<Rightarrow> False | Some w \<Rightarrow> ok r w))"

definition row_absent_or :: "'w env \<Rightarrow> (sql_table_reference \<Rightarrow> 'w \<Rightarrow> bool) \<Rightarrow> sql_table_reference \<Rightarrow> bool" where
  "row_absent_or env ok r \<longleftrightarrow> (case env (Some (tr_alias r)) of None \<Rightarrow> True | Some w \<Rightarrow> ok r w)"

lemma on_conditions_hold:
  assumes "own_row db scoped build ok" "scoped (jp_reference s)"
  shows "joined_row db ss env \<Longrightarrow> distinct (map step_alias ss) \<Longrightarrow> \<forall>s \<in> set ss. \<not> list_ex single_or (jp_on s) \<Longrightarrow>
    s \<in> set ss \<Longrightarrow> on_filters (jp_type s) \<Longrightarrow> build (jp_reference s) \<in> set (jp_on s) \<Longrightarrow> row_absent_or env ok (jp_reference s)"
proof (induction rule: joined_row.induct)
  case (main w)
  then show ?case by simp
next
  case (match ss env t w)
  show ?case
  proof (cases "s \<in> set ss")
    case True
    with match.prems(1) have "step_alias s \<noteq> step_alias t" by (auto simp: image_iff)
    with match True show ?thesis by (simp add: row_absent_or_def step_alias_def)
  next
    case False
    then have st: "t = s" using match.prems(3) by simp
    with match.hyps match.prems(2) have "\<forall>e \<in> set (jp_on s). expr_holds (env_row db (env(step_alias s \<mapsto> w))) e"
      by (subst where_holds_and [symmetric]) auto
    with match.prems(5) assms show ?thesis unfolding own_row_def row_absent_or_def st by (auto simp: step_alias_def)
  qed
next
  case (cross ss env t w)
  then have "s \<in> set ss" "step_alias s \<noteq> step_alias t" by (auto simp: on_filters_def image_iff)
  with cross show ?case by (simp add: row_absent_or_def step_alias_def)
next
  case (left ss env t)
  then show ?case by (cases "s = t") (auto simp: row_absent_or_def step_alias_def image_iff)
next
  case (right ss env t w)
  then have "s \<in> set ss" "step_alias s \<noteq> step_alias t" by (auto simp: on_filters_def image_iff)
  then show ?case by (simp add: row_absent_or_def step_alias_def)
qed

text \<open>Every scoped table of a selected row is left out or satisfies a condition written for its alias.\<close>

lemma scoped_rows:
  assumes "own_row db scoped build ok" "joined_row db steps env" "distinct (map step_alias steps)" "\<forall>s \<in> set steps. \<not> list_ex single_or (jp_on s)"
    "\<forall>e \<in> set fallback. expr_holds (env_row db env) e" "covered scoped build fallback steps (tr_alias r)"
  obtains r' where "scoped r'" "tr_alias r' = tr_alias r" "row_absent_or env ok r'"
proof -
  obtain r' where r': "tr_alias r' = tr_alias r" "scoped r'"
    "build r' \<in> set fallback \<or> (\<exists>s \<in> set steps. jp_reference s = r' \<and> on_filters (jp_type s) \<and> build r' \<in> set (jp_on s))"
    using assms(6) unfolding covered_def by blast
  have "row_absent_or env ok r'"
  proof (cases "build r' \<in> set fallback")
    case True
    with assms(5) have "expr_holds (env_row db env) (build r')" by blast
    with assms(1) r'(2) show ?thesis unfolding own_row_def row_absent_or_def by (auto split: option.splits)
  next
    case False
    with r'(2,3) on_conditions_hold [OF assms(1) _ assms(2,3,4)] show ?thesis by blast
  qed
  with r' show ?thesis using that by blast
qed

subsection \<open>Scoped joins are found\<close>

definition denied_where :: "('m, 'r) statement \<Rightarrow> bool" where
  "denied_where st \<longleftrightarrow> Expr ''1 = 0'' [] \<in> set (st_where st)"

definition denial_marked :: "('m, 'r) statement \<Rightarrow> bool" where
  "denial_marked st \<longleftrightarrow> (st_denied st \<longrightarrow> denied_where st)"

text \<open>What the isolation errors change: an error, or a \<open>WHERE\<close> that holds of no row.\<close>

definition same_joins :: "('m, 'r) statement \<Rightarrow> ('m, 'r) statement \<Rightarrow> bool" where
  "same_joins st st' \<longleftrightarrow> (\<exists>e w d. st' = st\<lparr>st_error := e, st_where := w, st_denied := d\<rparr> \<and> set (st_where st) \<subseteq> set w)"

lemma same_joinsI: "set (st_where st) \<subseteq> set w \<Longrightarrow> same_joins st (st\<lparr>st_error := e, st_where := w, st_denied := d\<rparr>)"
  unfolding same_joins_def by blast

lemma same_joins_refl [simp]: "same_joins st st"
  using same_joinsI [where st = st and w = "st_where st" and e = "st_error st" and d = "st_denied st"] by simp

lemma same_joins_trans:
  assumes "same_joins st st1" "same_joins st1 st2"
  shows "same_joins st st2"
proof -
  obtain e w d e' w' d' where "st1 = st\<lparr>st_error := e, st_where := w, st_denied := d\<rparr>" "st2 = st1\<lparr>st_error := e', st_where := w', st_denied := d'\<rparr>"
    "set (st_where st) \<subseteq> set w" "set w \<subseteq> set w'" using assms by (auto simp: same_joins_def)
  then show ?thesis using same_joinsI [of st w' d' e'] by simp
qed

lemma isolation_error_effect:
  "same_joins st (add_data_isolation_error e st)"
  "denial_marked st \<Longrightarrow> denial_marked (add_data_isolation_error e st) \<and> (st_error (add_data_isolation_error e st) \<noteq> None \<or> denied_where (add_data_isolation_error e st))"
proof -
  have "same_joins st (add_error e st)" for e using same_joinsI [where st = st and w = "st_where st" and d = "st_denied st"] by (simp add: add_error_def)
  moreover have "same_joins st ((add_where es st)\<lparr>st_denied := True\<rparr>)" for es using same_joinsI [where st = st and w = "st_where st @ es" and e = "st_error st" and d = True] by (simp add: add_where_def)
  ultimately show "same_joins st (add_data_isolation_error e st)"
    by (simp add: add_data_isolation_error_def deny_single_row_query_def)
  show "denial_marked st \<Longrightarrow> denial_marked (add_data_isolation_error e st) \<and> (st_error (add_data_isolation_error e st) \<noteq> None \<or> denied_where (add_data_isolation_error e st))"
    by (simp add: add_data_isolation_error_def deny_single_row_query_def add_error_def add_where_def denial_marked_def denied_where_def)
qed

definition join_tables :: "('m, 'r) schemas \<Rightarrow> ('m, 'r) statement \<Rightarrow> stmt_join \<Rightarrow> sql_table_reference list" where
  "join_tables sc st j =
     (let refs = join_references sc st j in if refs \<noteq> [] then refs else map js_reference (raw_join_segments (st_dialect st) (sj_name j)))"

text \<open>One step of the search, over the references \<open>R\<close>.\<close>

definition search_step ::
  "(sql_table_reference \<Rightarrow> bool) \<Rightarrow> sql_table_reference set \<Rightarrow> bool \<times> ('m, 'r) statement \<Rightarrow> bool \<times> ('m, 'r) statement \<Rightarrow> bool" where
  "search_step scoped R acc acc' \<longleftrightarrow> same_joins (snd acc) (snd acc') \<and>
     (denial_marked (snd acc) \<longrightarrow> denial_marked (snd acc') \<and>
       (st_error (snd acc) \<noteq> None \<or> denied_where (snd acc) \<longrightarrow> st_error (snd acc') \<noteq> None \<or> denied_where (snd acc')) \<and>
       (fst acc \<longrightarrow> fst acc') \<and>
       (st_error (snd acc') \<noteq> None \<or> denied_where (snd acc') \<or> fst acc' \<or> (\<forall>r \<in> R. \<not> scoped r)))"

lemma search_trans: "search_step scoped R acc acc1 \<Longrightarrow> search_step scoped R' acc1 acc2 \<Longrightarrow> search_step scoped (R \<union> R') acc acc2"
  unfolding search_step_def using same_joins_trans [of "snd acc" "snd acc1" "snd acc2"] by blast

lemma search_fold:
  assumes "\<And>x acc. x \<in> set xs \<Longrightarrow> same_joins st (snd acc) \<Longrightarrow> search_step scoped (R x) acc (f x acc)" "same_joins st (snd acc)"
  shows "search_step scoped (\<Union>x \<in> set xs. R x) acc (fold f xs acc)"
  using assms
proof (induction xs arbitrary: acc)
  case Nil
  then show ?case by (auto simp: search_step_def)
next
  case (Cons x xs)
  have one: "search_step scoped (R x) acc (f x acc)" using Cons.prems by simp
  then have "same_joins st (snd (f x acc))" using Cons.prems(2) same_joins_trans unfolding search_step_def by blast
  with Cons have "search_step scoped (\<Union>x \<in> set xs. R x) (f x acc) (fold f xs (f x acc))" by simp
  from search_trans [OF one this] show ?case by simp
qed

lemma error_step:
  "search_step scoped R (hit, st) (hit, add_data_isolation_error e st)"
  "search_step scoped R (hit, st) (True, add_data_isolation_error e st)"
  "search_step scoped R (hit, st) (True, st)"
  using isolation_error_effect [where st = st and e = e] by (auto simp: search_step_def)

lemma keep_step: "\<forall>r \<in> R. \<not> scoped r \<Longrightarrow> search_step scoped R (hit, st) (hit, st)"
  by (auto simp: search_step_def)

lemma from_search: "search_step scoped {from_reference j} acc (scoped_from_join scoped j acc)"
  by (cases acc) (simp add: scoped_from_join_def error_step keep_step)

lemma segment_search: "search_step scoped {js_reference s} acc (scoped_segment scoped s acc)"
  by (cases acc) (simp add: scoped_segment_def error_step keep_step)

lemma same_joins_references:
  assumes "same_joins st st'"
  shows "join_references sc st' j = join_references sc st j" "st_dialect st' = st_dialect st" "st_joins st' = st_joins st" "st_from st' = st_from st"
    "st_schema st' = st_schema st" "st_auth st' = st_auth st"
  using assms by (auto simp: same_joins_def join_references_def)

lemma join_search: "same_joins st (snd acc) \<Longrightarrow> search_step scoped (set (join_tables sc st j)) acc (scoped_join sc scoped j acc)"
proof (cases acc)
  case (Pair hit st1)
  assume "same_joins st (snd acc)"
  then have same: "join_references sc st1 j = join_references sc st j" "st_dialect st1 = st_dialect st" using same_joins_references Pair by auto
  define segments where "segments = raw_join_segments (st_dialect st) (sj_name j)"
  show ?thesis
  proof (cases "join_references sc st j = []")
    case False
    then show ?thesis by (auto simp: Pair scoped_join_def join_tables_def same search_step_def list_ex_iff)
  next
    case True
    show ?thesis
    proof (cases "segments = []")
      case empty: True
      with True show ?thesis by (simp add: Pair scoped_join_def same segments_def Let_def error_step)
    next
      case False
      have "search_step scoped (\<Union>s \<in> set segments. {js_reference s}) (hit, st1) (fold (scoped_segment scoped) segments (hit, st1))"
        by (rule search_fold [where st = st1]) (simp_all add: segment_search)
      moreover have "(\<Union>s \<in> set segments. {js_reference s}) = set (join_tables sc st j)" using True by (auto simp: join_tables_def segments_def)
      ultimately show ?thesis using True False by (simp add: Pair scoped_join_def same segments_def Let_def)
    qed
  qed
qed

definition statement_references :: "('m, 'r) schemas \<Rightarrow> ('m, 'r) statement \<Rightarrow> sql_table_reference set" where
  "statement_references sc st = from_reference ` set (from_joins st) \<union> (\<Union>j \<in> set (st_joins st). set (join_tables sc st j))"

lemma scoped_joins_found: "search_step scoped (statement_references sc st) (False, st) (has_scoped_join sc scoped st)"
proof -
  have "search_step scoped (\<Union>j \<in> set (from_joins st). {from_reference j}) (False, st) (fold (scoped_from_join scoped) (from_joins st) (False, st))"
    by (rule search_fold [where st = st]) (simp_all add: from_search)
  note one = this
  then have "same_joins st (snd (fold (scoped_from_join scoped) (from_joins st) (False, st)))" by (simp add: search_step_def)
  then have "search_step scoped (\<Union>j \<in> set (st_joins st). set (join_tables sc st j)) (fold (scoped_from_join scoped) (from_joins st) (False, st))
      (has_scoped_join sc scoped st)"
    unfolding has_scoped_join_def by (intro search_fold [where st = st]) (simp_all add: join_search)
  from search_trans [OF one this] show ?thesis by (simp add: statement_references_def UNION_singleton_eq_range)
qed

lemma join_plan_cong:
  assumes "st_schema st1 = st_schema st" "st_dialect st1 = st_dialect st" "st_joins st1 = st_joins st" "st_from st2 = st_from st'" "st_joins st2 = st_joins st'"
  shows "join_plan sc prefix st1 st2 = join_plan sc prefix st st'"
proof -
  have refs: "join_references sc st1 = join_references sc st" using assms by (simp add: join_references_def fun_eq_iff)
  have "expand_join sc st1 = expand_join sc st" by (simp add: expand_join_def refs fun_eq_iff)
  then have joins: "st_joins (expand_nested_association_joins sc st1) = st_joins (expand_nested_association_joins sc st)"
    using assms by (simp add: expand_nested_association_joins_def)
  have rest: "join_references sc (expand_nested_association_joins sc st1) = join_references sc st \<and> st_dialect (expand_nested_association_joins sc st1) = st_dialect st"
    "join_references sc (expand_nested_association_joins sc st) = join_references sc st \<and> st_dialect (expand_nested_association_joins sc st) = st_dialect st"
    using refs assms by (simp_all add: expand_nested_association_joins_def join_references_def fun_eq_iff)
  have "all_steps sc (expand_nested_association_joins sc st1) prefix i js js' = all_steps sc (expand_nested_association_joins sc st) prefix i js js'" for i js js'
    by (induction js js' arbitrary: i rule: list_induct2') (simp_all add: join_steps_def rest Let_def)
  with joins assms show ?thesis by (simp add: join_plan_def Let_def from_joins_def)
qed

lemma same_joins_plain: "same_joins st st' \<Longrightarrow> plain_types st' = plain_types st"
  by (simp add: plain_types_def from_joins_def same_joins_references)

text \<open>The end of every callback: the conditions on joins are applied, and what they leave over goes to \<open>WHERE\<close> with the conditions \<open>exprs\<close>.\<close>

lemma scope_applied:
  assumes "same_joins st st1" "plain_types st"
    "res_bind (apply_join_conditions sc scoped build prefix st1) (\<lambda>(more, st). Inr (if exprs @ more \<noteq> [] then add_where (exprs @ more) st else st)) = Inr st'"
  obtains fallback where "set exprs \<subseteq> set (st_where st')" "set fallback \<subseteq> set (st_where st')"
    "\<forall>s \<in> set (join_plan sc prefix st st'). scoped (jp_reference s) \<longrightarrow> covered scoped build fallback (join_plan sc prefix st st') (tr_alias (jp_reference s))"
proof -
  obtain fallback froms js where applied:
    "apply_join_conditions sc scoped build prefix st1 = Inr (fallback, st1\<lparr>st_from := froms, st_joins := js\<rparr>)"
    "\<forall>s \<in> set (join_plan sc prefix st1 (st1\<lparr>st_from := froms, st_joins := js\<rparr>)). scoped (jp_reference s) \<longrightarrow>
       covered scoped build fallback (join_plan sc prefix st1 (st1\<lparr>st_from := froms, st_joins := js\<rparr>)) (tr_alias (jp_reference s))"
    using apply_join_conditions_cover same_joins_plain [OF assms(1)] assms(2) by metis
  have "st' = (if exprs @ fallback \<noteq> [] then add_where (exprs @ fallback) (st1\<lparr>st_from := froms, st_joins := js\<rparr>) else st1\<lparr>st_from := froms, st_joins := js\<rparr>)"
    using assms(3) by (simp add: applied(1))
  then have st': "st_where st' = st_where st1 @ exprs @ fallback" "st_from st' = froms" "st_joins st' = js" by (auto simp: add_where_def)
  have "join_plan sc prefix st1 (st1\<lparr>st_from := froms, st_joins := js\<rparr>) = join_plan sc prefix st st'"
    by (rule join_plan_cong) (simp_all add: same_joins_references [OF assms(1)] st')
  with applied(2) show ?thesis by (intro that [of fallback]) (auto simp: st')
qed

text \<open>Whether a scoped table of the plan is left out or accepted in a selected row.\<close>

lemma guarded_rows:
  assumes "own_row db scoped build ok" "joined_row db (join_plan sc prefix st st') env" "distinct (map step_alias (join_plan sc prefix st st'))"
    "\<forall>s \<in> set (join_plan sc prefix st st'). \<not> list_ex single_or (jp_on s)" "\<not> list_ex single_or (st_where st')" "where_holds (env_row db env) (st_where st')"
    "set fallback \<subseteq> set (st_where st')"
    "\<forall>s \<in> set (join_plan sc prefix st st'). scoped (jp_reference s) \<longrightarrow> covered scoped build fallback (join_plan sc prefix st st') (tr_alias (jp_reference s))"
    "s \<in> set (join_plan sc prefix st st')" "scoped (jp_reference s)"
  obtains r' where "scoped r'" "tr_alias r' = tr_alias (jp_reference s)" "row_absent_or env ok r'"
proof -
  have "\<forall>e \<in> set fallback. expr_holds (env_row db env) e" using assms(5-7) by (auto simp: where_holds_and)
  from scoped_rows [OF assms(1,2,3,4) this] assms(8-10) that show ?thesis by blast
qed

end
