(* ===== verification/Sql_Tenant.thy ===== *)
theory Sql_Tenant
  imports Sql_Join_Cover
begin

text \<open>
  Tenant isolation (database/gorm/internal/callback/tenant.go): the condition added to queries, updates and deletes, and the tenant
  written into new records. \<open>tables\<close> is what \<open>tenantTables\<close> gives, see \<open>Sql_Models\<close>. In error texts the offending value is left out.
\<close>

subsection \<open>The tenant of the identity\<close>

definition tenant_column :: string where "tenant_column = ''tenant_id''"
definition tenant_struct_field :: string where "tenant_struct_field = ''TenantID''"
definition default_tenant_code :: string where "default_tenant_code = ''0000''"
definition err_tenant_mismatch :: go_err where "err_tenant_mismatch = Sentinel ''tenant id mismatch''"

definition tenant_id_from_context :: "user_payload option option \<Rightarrow> (int \<times> bool) res" where
  "tenant_id_from_context ctx =
     (case ctx of
        None \<Rightarrow> Inr (0, False)
      | Some None \<Rightarrow> Inr (0, False)
      | Some (Some info) \<Rightarrow>
          if up_tenant_code info = default_tenant_code then Inr (0, False)
          else if up_tenant_id info \<le> 0 then Inl err_tenant_context_missing
          else Inr (up_tenant_id info, True))"

definition tenant_id_for_statement :: "('m, 'r) statement \<Rightarrow> (int \<times> bool) res" where
  "tenant_id_for_statement st = tenant_id_from_context (st_auth st)"

text \<open>\<open>tenantIDFromValue\<close>: the value, whether it is zero, and whether it is supported.\<close>

fun tenant_id_from_value :: "field_value \<Rightarrow> int \<times> bool \<times> bool" where
  "tenant_id_from_value FNil = (0, True, True)"
| "tenant_id_from_value (FPtr None) = (0, True, True)"
| "tenant_id_from_value (FPtr (Some v)) = tenant_id_from_value v"
| "tenant_id_from_value (FInt i) = (i, i = 0, True)"
| "tenant_id_from_value (FUint n) = (if max_int64 < int n then (0, False, False) else (int n, n = 0, True))"
| "tenant_id_from_value (FStr s) =
     (if s = [] then (0, True, True) else case parse_int64 s of None \<Rightarrow> (0, False, False) | Some i \<Rightarrow> (i, i = 0, True))"
| "tenant_id_from_value (FTime t) = (0, False, False)"
| "tenant_id_from_value (FOther z) = (0, False, False)"

subsection \<open>Queries, updates and deletes\<close>

definition has_tenant_field :: "('m, 'r) schemas \<Rightarrow> string set \<Rightarrow> ('m, 'r) statement \<Rightarrow> bool" where
  "has_tenant_field sc tables st =
     (if (case st_schema st of None \<Rightarrow> False | Some m \<Rightarrow> sc_fields sc m tenant_column \<noteq> None) then True
      else statement_uses_registered_table tables st)"

definition tenant_scoped :: "string set \<Rightarrow> sql_table_reference \<Rightarrow> bool" where
  "tenant_scoped tables r = is_scoped_table_reference tables tenant_column r"

definition tenant_condition :: "int \<Rightarrow> sql_table_reference \<Rightarrow> clause_expr" where
  "tenant_condition tid r = Eq (SqlCol (Some (tr_alias r)) tenant_column) tid"

definition has_tenant_join :: "('m, 'r) schemas \<Rightarrow> string set \<Rightarrow> ('m, 'r) statement \<Rightarrow> bool \<times> ('m, 'r) statement" where
  "has_tenant_join sc tables st = has_scoped_join sc (tenant_scoped tables) st"

definition apply_tenant_join_conditions ::
  "('m, 'r) schemas \<Rightarrow> int \<Rightarrow> string set \<Rightarrow> ('m, 'r) statement \<Rightarrow> (clause_expr list \<times> ('m, 'r) statement) res" where
  "apply_tenant_join_conditions sc tid tables st = apply_join_conditions sc (tenant_scoped tables) (tenant_condition tid) ''tenant'' st"

definition add_tenant_where :: "('m, 'r) schemas \<Rightarrow> string set res \<Rightarrow> ('m, 'r) statement \<Rightarrow> ('m, 'r) statement res" where
  "add_tenant_where sc tables st =
     (if should_skip_data_isolation st \<or> st_error st \<noteq> None then Inr st
      else case reject_unsafe_raw_statement st of
          (True, st) \<Rightarrow> Inr st
        | (False, st) \<Rightarrow>
            (case tables of
               Inl e \<Rightarrow> Inr (add_error e st)
             | Inr ts \<Rightarrow>
                 let main = has_tenant_field sc ts st; (join, st) = has_tenant_join sc ts st in
                 if st_error st \<noteq> None then Inr st
                 else if \<not> main \<and> \<not> join then Inr st
                 else case tenant_id_for_statement st of
                     Inl e \<Rightarrow> Inr (add_data_isolation_error e st)
                   | Inr (tid, scoped) \<Rightarrow>
                       if \<not> scoped then Inr st
                       else let exprs = (if main then [Eq (SqlCol None tenant_column) tid] else []) in
                         res_bind (apply_tenant_join_conditions sc tid ts st) (\<lambda>(more, st).
                           Inr (if exprs @ more \<noteq> [] then add_where (exprs @ more) st else st))))"

subsection \<open>New records\<close>

definition unsupported_tenant :: "string \<Rightarrow> go_err" where
  "unsupported_tenant name = NewErr (''tenant field '' @ name @ '' has unsupported value'')"

definition tenant_mismatch :: "int \<Rightarrow> int \<Rightarrow> go_err" where
  "tenant_mismatch tid cur = WrapErr (''current tenant '' @ show_int tid @ '', record tenant '' @ show_int cur) err_tenant_mismatch"

definition tenant_map_value :: "'r schema_field option \<Rightarrow> (string \<rightharpoonup> field_value) \<Rightarrow> (string \<times> field_value) option" where
  "tenant_map_value field m =
     (let (k1, k2) = (case field of None \<Rightarrow> (tenant_column, tenant_struct_field) | Some f \<Rightarrow> (sf_db_name f, sf_name f))
      in case m k1 of Some v \<Rightarrow> Some (k1, v) | None \<Rightarrow> (case m k2 of Some v \<Rightarrow> Some (k2, v) | None \<Rightarrow> None))"

definition set_tenant_map_item ::
  "'r schema_field option \<Rightarrow> int \<Rightarrow> map_item \<Rightarrow> ('m, 'r) statement \<Rightarrow> map_item \<times> ('m, 'r) statement" where
  "set_tenant_map_item field tid item st =
     (case item of
        None \<Rightarrow> (item, st)
      | Some m \<Rightarrow>
          if st_error st \<noteq> None then (item, st)
          else case tenant_map_value field m of
              None \<Rightarrow> (Some (m(tenant_column \<mapsto> FInt tid)), st)
            | Some (key, v) \<Rightarrow>
                let (cur, zero, valid) = tenant_id_from_value v in
                if \<not> valid then (item, add_error (unsupported_tenant (case field of None \<Rightarrow> tenant_struct_field | Some f \<Rightarrow> sf_name f)) st)
                else if zero then (Some (m(key \<mapsto> FInt tid)), st)
                else if cur \<noteq> tid then (item, add_error (tenant_mismatch tid cur) st)
                else (item, st))"

fun set_tenant_map_items ::
  "'r schema_field option \<Rightarrow> int \<Rightarrow> map_item list \<Rightarrow> ('m, 'r) statement \<Rightarrow> map_item list \<times> ('m, 'r) statement" where
  "set_tenant_map_items field tid [] st = ([], st)"
| "set_tenant_map_items field tid (i # is) st =
     (let (i, st) = set_tenant_map_item field tid i st; (is, st) = set_tenant_map_items field tid is st in (i # is, st))"

definition set_tenant_map :: "'r schema_field option \<Rightarrow> int \<Rightarrow> ('m, 'r) statement \<Rightarrow> bool \<times> ('m, 'r) statement" where
  "set_tenant_map field tid st =
     (case st_dest st of
        DMap i \<Rightarrow> (let (i, st) = set_tenant_map_item field tid i st in (True, st\<lparr>st_dest := DMap i\<rparr>))
      | DMapRef None \<Rightarrow> (True, st)
      | DMapRef (Some i) \<Rightarrow> (let (i, st) = set_tenant_map_item field tid i st in (True, st\<lparr>st_dest := DMapRef (Some i)\<rparr>))
      | DMaps is \<Rightarrow> (let (is, st) = set_tenant_map_items field tid is st in (True, st\<lparr>st_dest := DMaps is\<rparr>))
      | DMapsRef None \<Rightarrow> (True, st)
      | DMapsRef (Some is) \<Rightarrow> (let (is, st) = set_tenant_map_items field tid is st in (True, st\<lparr>st_dest := DMapsRef (Some is)\<rparr>))
      | DValue v \<Rightarrow> (False, st))"

text \<open>Pointers and interfaces are followed before the kind is looked at.\<close>

fun set_tenant_field :: "'r schema_field \<Rightarrow> int \<Rightarrow> 'r rval \<Rightarrow> ('m, 'r) statement \<Rightarrow> 'r rval \<times> ('m, 'r) statement"
  and set_tenant_fields :: "'r schema_field \<Rightarrow> int \<Rightarrow> 'r rval list \<Rightarrow> ('m, 'r) statement \<Rightarrow> 'r rval list \<times> ('m, 'r) statement" where
  "set_tenant_field f tid RInvalid st = (RInvalid, st)"
| "set_tenant_field f tid RNil st = (RNil, st)"
| "set_tenant_field f tid (RRef v) st = (let (v, st) = set_tenant_field f tid v st in (RRef v, st))"
| "set_tenant_field f tid (RStruct r) st =
     (if st_error st \<noteq> None then (RStruct r, st)
      else let (v, zero) = sf_value_of f r in
        if zero then
          (case sf_set f r (FInt tid) of Inl e \<Rightarrow> (RStruct r, add_error e st) | Inr r' \<Rightarrow> (RStruct r', st))
        else let (cur, _, valid) = tenant_id_from_value v in
          if \<not> valid then (RStruct r, add_error (unsupported_tenant (sf_name f)) st)
          else if cur \<noteq> tid then (RStruct r, add_error (tenant_mismatch tid cur) st)
          else (RStruct r, st))"
| "set_tenant_field f tid (RMap m) st = (RMap m, st)"
| "set_tenant_field f tid (RList vs) st =
     (if st_error st \<noteq> None then (RList vs, st) else let (vs, st) = set_tenant_fields f tid vs st in (RList vs, st))"
| "set_tenant_field f tid ROther st = (ROther, st)"
| "set_tenant_fields f tid [] st = ([], st)"
| "set_tenant_fields f tid (v # vs) st =
     (let (v, st) = set_tenant_field f tid v st; (vs, st) = set_tenant_fields f tid vs st in (v # vs, st))"

definition fill_tenant_id :: "('m, 'r) schemas \<Rightarrow> string set res \<Rightarrow> ('m, 'r) statement \<Rightarrow> ('m, 'r) statement" where
  "fill_tenant_id sc tables st =
     (if should_skip_data_isolation st then st
      else case tables of
          Inl e \<Rightarrow> add_error e st
        | Inr ts \<Rightarrow>
            if \<not> has_tenant_field sc ts st then st
            else case tenant_id_for_statement st of
                Inl e \<Rightarrow> add_error e st
              | Inr (tid, scoped) \<Rightarrow>
                  if \<not> scoped then st
                  else let field = (case st_schema st of None \<Rightarrow> None | Some m \<Rightarrow> sc_fields sc m tenant_column) in
                    case set_tenant_map field tid st of
                      (True, st) \<Rightarrow> st
                    | (False, st) \<Rightarrow>
                        (case field of
                           None \<Rightarrow> add_error (NewErr (''tenant field metadata missing for table '' @ st_table st)) st
                         | Some f \<Rightarrow> (let (v, st) = set_tenant_field f tid (dest_value (st_dest st)) st in st\<lparr>st_dest := DValue v\<rparr>)))"

subsection \<open>Rows of other tenants are not selected\<close>

definition tenant_row :: "'w database \<Rightarrow> int \<Rightarrow> 'w \<Rightarrow> bool" where
  "tenant_row db tid w \<longleftrightarrow> db_int db w tenant_column = Some tid"

lemma tenant_own_row: "own_row db scoped (tenant_condition tid) (\<lambda>r. tenant_row db tid)"
  by (simp add: own_row_def tenant_condition_def env_row_def tenant_row_def split: option.split)

lemma main_condition: "expr_holds (env_row db env) (Eq (SqlCol None tenant_column) tid) \<longleftrightarrow> (\<exists>w. env None = Some w \<and> tenant_row db tid w)"
  by (simp add: env_row_def tenant_row_def split: option.split)

lemma denied_selects_nothing: "denied_where st \<Longrightarrow> \<not> list_ex single_or (st_where st) \<Longrightarrow> \<not> where_holds r (st_where st)"
  by (force simp: denied_where_def where_holds_and)

text \<open>What the callback makes of a statement it has to scope.\<close>

lemma add_tenant_where_result:
  assumes "\<not> should_skip_data_isolation st" "st_error st = None" "st_sql st = []" "plain_types st" "denial_marked st"
    "tenant_id_from_context (st_auth st) = Inr (tid, True)" "add_tenant_where sc (Inr ts) st = Inr st'" "st_error st' = None"
  obtains (none) "\<not> has_tenant_field sc ts st" "\<forall>r \<in> statement_references sc st. \<not> tenant_scoped ts r"
  | (denied) "denied_where st'"
  | (scoped) fallback where "has_tenant_field sc ts st \<Longrightarrow> Eq (SqlCol None tenant_column) tid \<in> set (st_where st')" "set fallback \<subseteq> set (st_where st')"
      "\<forall>s \<in> set (join_plan sc ''tenant'' st st'). tenant_scoped ts (jp_reference s) \<longrightarrow>
         covered (tenant_scoped ts) (tenant_condition tid) fallback (join_plan sc ''tenant'' st st') (tr_alias (jp_reference s))"
proof -
  obtain hit st1 where join: "has_tenant_join sc ts st = (hit, st1)" by fastforce
  from scoped_joins_found [of "tenant_scoped ts" sc st] have found: "same_joins st st1" "denial_marked st1"
    "st_error st1 \<noteq> None \<or> denied_where st1 \<or> hit \<or> (\<forall>r \<in> statement_references sc st. \<not> tenant_scoped ts r)"
    using assms(5) join by (simp_all add: search_step_def has_tenant_join_def)
  note same = same_joins_references [OF found(1)]
  define main where "main = has_tenant_field sc ts st"
  have raw: "reject_unsafe_raw_statement st = (False, st)" using assms(3) by (simp add: reject_unsafe_raw_statement_def)
  have tid: "tenant_id_for_statement st1 = Inr (tid, True)" using assms(6) same by (simp add: tenant_id_for_statement_def)
  have run: "Inr st' = (if st_error st1 \<noteq> None then Inr st1 else if \<not> main \<and> \<not> hit then Inr st1
      else let exprs = (if main then [Eq (SqlCol None tenant_column) tid] else []) in
        res_bind (apply_tenant_join_conditions sc tid ts st1) (\<lambda>(more, st).
          Inr (if exprs @ more \<noteq> [] then add_where (exprs @ more) st else st)))"
    unfolding assms(7) [symmetric] by (simp add: add_tenant_where_def assms(1,2) raw join tid main_def Let_def split del: if_split cong: if_cong)
  have "st_error st1 = None" using run assms(8) by (auto split: if_split_asm)
  show ?thesis
  proof (cases "main \<or> hit")
    case False
    then have "st' = st1" using run \<open>st_error st1 = None\<close> by simp
    with False found(3) \<open>st_error st1 = None\<close> show ?thesis using none denied by (auto simp: main_def)
  next
    case True
    then have tail: "res_bind (apply_join_conditions sc (tenant_scoped ts) (tenant_condition tid) ''tenant'' st1) (\<lambda>(more, st).
        Inr (if (if main then [Eq (SqlCol None tenant_column) tid] else []) @ more \<noteq> []
          then add_where ((if main then [Eq (SqlCol None tenant_column) tid] else []) @ more) st else st)) = Inr st'"
      using run \<open>st_error st1 = None\<close> by (auto simp: apply_tenant_join_conditions_def Let_def)
    show ?thesis
      by (rule scope_applied [OF found(1) assms(4) tail]) (rule scoped, auto simp: main_def)
  qed
qed


definition sample_payload_of :: "int \<Rightarrow> user_payload" where
  "sample_payload_of tid = empty_payload\<lparr>up_tenant_id := tid, up_user_id := 3\<rparr>"

definition sample_schemas :: "(unit, unit) schemas" where
  "sample_schemas = \<lparr>sc_table = (\<lambda>m. ''invoice''), sc_fields = (\<lambda>m. Map.empty), sc_look_up = (\<lambda>m. Map.empty), sc_relation = (\<lambda>m. Map.empty)\<rparr>"

definition sample_query :: "from_join list \<Rightarrow> clause_expr list \<Rightarrow> (unit, unit) statement" where
  "sample_query js es = \<lparr>st_auth = Some (Some (sample_payload_of 7)), st_dialect = Some ''mysql'', st_table = ''invoice'', st_table_expr = None, st_schema = None,
     st_from = Some js, st_joins = [], st_where = es, st_sql = [], st_vars = [], st_in_transaction = False, st_bypass = False, st_rows = None, st_denied = False,
     st_selected = (Map.empty, False), st_dest = DValue RNil, st_error = None\<rparr>"

definition sample_join :: "clause_expr list \<Rightarrow> from_join" where
  "sample_join es = \<lparr>fj_name = ''customer'', fj_alias = ''c'', fj_type = ''LEFT'', fj_on = es, fj_using = [], fj_expression = False\<rparr>"

definition sample_db :: "int database" where
  "sample_db = \<lparr>db_table = (\<lambda>a w. True), db_int = (\<lambda>w c. Some w), db_like = (\<lambda>env c p. True), db_sql = (\<lambda>env s args. True), db_caller = (\<lambda>env i. True)\<rparr>"

lemma sample_tables [simp]:
  "normalize_sql_identifier ''customer'' = ''customer''" "normalize_sql_identifier ''c'' = ''c''"
  by code_simp+

lemma sample_result:
  "add_tenant_where sample_schemas (Inr {''invoice'', ''customer''}) (sample_query [sample_join [Caller 0]] [Caller 1]) =
     Inr (sample_query [sample_join [Caller 0, Eq (SqlCol (Some ''c'') tenant_column) 7]] [Caller 1, Eq (SqlCol None tenant_column) 7])"
  by (simp add: add_tenant_where_def should_skip_data_isolation_def has_data_isolation_bypass_def sample_query_def reject_unsafe_raw_statement_def has_tenant_field_def
      statement_uses_registered_table_def has_tenant_join_def has_scoped_join_def from_joins_def scoped_from_join_def sample_join_def from_reference_def
      new_sql_table_reference_def tenant_scoped_def is_scoped_table_reference_def tenant_id_for_statement_def tenant_id_from_context_def sample_payload_of_def
      empty_payload_def default_tenant_code_def apply_tenant_join_conditions_def apply_join_conditions_def expand_nested_association_joins_def Let_def
      from_join_condition_def tenant_condition_def empty_acc_def add_where_def mark_seen_def)


text \<open>The condition is lost to OR. GORM joins the tenant condition by AND after the caller's expressions, so for \<open>Where(a).Or(b)\<close> it binds to
  \<open>b\<close> only: the statement selects every row that satisfies \<open>a\<close>, of any tenant.\<close>

theorem tenant_or_escapes:
  assumes "\<not> should_skip_data_isolation st" "st_error st = None" "st_sql st = []" "from_joins st = []" "st_joins st = []" "has_tenant_field sc ts st"
    "tenant_id_from_context (st_auth st) = Inr (tid, True)" "st_where st = [a, OrConditions [b]]" "\<not> single_or a"
  shows "\<exists>st'. add_tenant_where sc (Inr ts) st = Inr st' \<and>
    (\<forall>r. where_holds r (st_where st') \<longleftrightarrow> expr_holds r a \<or> expr_holds r b \<and> row_int r (SqlCol None tenant_column) = Some tid)"
proof -
  have "add_tenant_where sc (Inr ts) st = Inr (add_where [Eq (SqlCol None tenant_column) tid] (st\<lparr>st_from := map_option (\<lambda>_. []) (st_from st), st_joins := []\<rparr>))"
    using assms by (simp add: add_tenant_where_def reject_unsafe_raw_statement_def has_tenant_join_def has_scoped_join_def tenant_id_for_statement_def
      apply_tenant_join_conditions_def apply_join_conditions_def expand_nested_association_joins_def empty_acc_def)
  moreover have "where_holds r [a, OrConditions [b], Eq (SqlCol None tenant_column) tid] \<longleftrightarrow>
      expr_holds r a \<or> expr_holds r b \<and> row_int r (SqlCol None tenant_column) = Some tid" for r
    using assms(9) by (simp add: where_holds_def where_order_def) (simp add: single_or_def)
  ultimately show ?thesis using assms(8) by (simp add: add_where_def)
qed

theorem tenant_or_escapes_witness:
  "\<exists>st'. add_tenant_where sample_schemas (Inr {''invoice''}) (sample_query [] [Caller 0, OrConditions [Caller 1]]) = Inr st' \<and>
    (\<forall>r. where_holds r (st_where st') \<longleftrightarrow> expr_holds r (Caller 0) \<or> expr_holds r (Caller 1) \<and> row_int r (SqlCol None tenant_column) = Some 7)"
  by (rule tenant_or_escapes)
    (simp_all add: should_skip_data_isolation_def has_data_isolation_bypass_def sample_query_def from_joins_def has_tenant_field_def
      statement_uses_registered_table_def tenant_id_from_context_def sample_payload_of_def empty_payload_def default_tenant_code_def single_or_def)

subsection \<open>New records belong to the tenant\<close>

text \<open>Which records are accepted, and what is written.\<close>

definition item_accepted :: "'r schema_field option \<Rightarrow> int \<Rightarrow> map_item \<Rightarrow> bool" where
  "item_accepted field tid i = (case i of None \<Rightarrow> True | Some m \<Rightarrow> (case tenant_map_value field m of None \<Rightarrow> True | Some (k, v) \<Rightarrow>
     let (cur, zero, valid) = tenant_id_from_value v in valid \<and> (zero \<or> cur = tid)))"

definition item_filled :: "'r schema_field option \<Rightarrow> int \<Rightarrow> map_item \<Rightarrow> map_item" where
  "item_filled field tid i = (case i of None \<Rightarrow> None | Some m \<Rightarrow> (case tenant_map_value field m of
       None \<Rightarrow> Some (m(tenant_column \<mapsto> FInt tid))
     | Some (k, v) \<Rightarrow> let (cur, zero, valid) = tenant_id_from_value v in if zero then Some (m(k \<mapsto> FInt tid)) else Some m))"

definition struct_accepted :: "'r schema_field \<Rightarrow> int \<Rightarrow> 'r \<Rightarrow> bool" where
  "struct_accepted f tid r = (let (v, zero) = sf_value_of f r in
     if zero then is_ok (sf_set f r (FInt tid)) else let (cur, _, valid) = tenant_id_from_value v in valid \<and> cur = tid)"

definition struct_filled :: "'r schema_field \<Rightarrow> int \<Rightarrow> 'r \<Rightarrow> 'r" where
  "struct_filled f tid r = (let (v, zero) = sf_value_of f r in if zero then projr (sf_set f r (FInt tid)) else r)"

fun rval_all :: "('r \<Rightarrow> bool) \<Rightarrow> 'r rval \<Rightarrow> bool" and rvals_all :: "('r \<Rightarrow> bool) \<Rightarrow> 'r rval list \<Rightarrow> bool" where
  "rval_all P (RRef v) = rval_all P v"
| "rval_all P (RStruct r) = P r"
| "rval_all P (RList vs) = rvals_all P vs"
| "rval_all P v = True"
| "rvals_all P [] = True"
| "rvals_all P (v # vs) = (rval_all P v \<and> rvals_all P vs)"

fun rval_map :: "('r \<Rightarrow> 'r) \<Rightarrow> 'r rval \<Rightarrow> 'r rval" and rvals_map :: "('r \<Rightarrow> 'r) \<Rightarrow> 'r rval list \<Rightarrow> 'r rval list" where
  "rval_map g (RRef v) = RRef (rval_map g v)"
| "rval_map g (RStruct r) = RStruct (g r)"
| "rval_map g (RList vs) = RList (rvals_map g vs)"
| "rval_map g v = v"
| "rvals_map g [] = []"
| "rvals_map g (v # vs) = rval_map g v # rvals_map g vs"

definition dest_all :: "(map_item \<Rightarrow> bool) \<Rightarrow> ('r \<Rightarrow> bool) \<Rightarrow> 'r sql_dest \<Rightarrow> bool" where
  "dest_all Q P d = (case d of DMap i \<Rightarrow> Q i | DMapRef i \<Rightarrow> (case i of None \<Rightarrow> True | Some i \<Rightarrow> Q i) | DMaps is \<Rightarrow> list_all Q is
     | DMapsRef is \<Rightarrow> (case is of None \<Rightarrow> True | Some is \<Rightarrow> list_all Q is) | DValue v \<Rightarrow> rval_all P v)"

definition dest_map :: "(map_item \<Rightarrow> map_item) \<Rightarrow> ('r \<Rightarrow> 'r) \<Rightarrow> 'r sql_dest \<Rightarrow> 'r sql_dest" where
  "dest_map h g d = (case d of DMap i \<Rightarrow> DMap (h i) | DMapRef i \<Rightarrow> DMapRef (map_option h i) | DMaps is \<Rightarrow> DMaps (map h is)
     | DMapsRef is \<Rightarrow> DMapsRef (map_option (map h) is) | DValue v \<Rightarrow> DValue (rval_map g v))"

lemma add_error_some [simp]: "\<exists>e'. st_error (add_error e st) = Some e'"
  by (simp add: add_error_def)

lemma map_item_fill:
  assumes "st_error st = None"
  shows "if item_accepted field tid i then set_tenant_map_item field tid i st = (item_filled field tid i, st)
    else \<exists>e. st_error (snd (set_tenant_map_item field tid i st)) = Some e"
  using assms by (auto simp: item_accepted_def item_filled_def set_tenant_map_item_def split: option.split prod.split)

lemma map_items_error: "st_error st \<noteq> None \<Longrightarrow> set_tenant_map_items field tid is st = (is, st)"
  by (induction "is") (auto simp: set_tenant_map_item_def split: option.split)

lemma map_items_fill:
  assumes "st_error st = None"
  shows "if list_all (item_accepted field tid) is then set_tenant_map_items field tid is st = (map (item_filled field tid) is, st)
    else \<exists>e. st_error (snd (set_tenant_map_items field tid is st)) = Some e"
proof (induction "is")
  case (Cons i "is")
  show ?case
  proof (cases "item_accepted field tid i")
    case True
    with map_item_fill [OF assms, of field tid i] have "set_tenant_map_item field tid i st = (item_filled field tid i, st)" by simp
    with Cons True show ?thesis by (auto split: prod.splits if_split_asm)
  next
    case False
    obtain i' st' where one: "set_tenant_map_item field tid i st = (i', st')" by fastforce
    with map_item_fill [OF assms, of field tid i] False obtain e where "st_error st' = Some e" by auto
    with map_items_error [of st'] one False show ?thesis by simp
  qed
qed simp

lemma field_error:
  fixes f :: "'r schema_field" and st :: "('m, 'r) statement"
  shows "st_error st \<noteq> None \<Longrightarrow> set_tenant_field f tid v st = (v, st)"
    and "st_error st \<noteq> None \<Longrightarrow> set_tenant_fields f tid vs st = (vs, st)"
  by (induction f tid v st and f tid vs st rule: set_tenant_field_set_tenant_fields.induct) simp_all

lemma field_fill:
  fixes f :: "'r schema_field" and st :: "('m, 'r) statement"
  shows "st_error st = None \<Longrightarrow> if rval_all (struct_accepted f tid) v then set_tenant_field f tid v st = (rval_map (struct_filled f tid) v, st)
    else \<exists>e. st_error (snd (set_tenant_field f tid v st)) = Some e"
    and "st_error st = None \<Longrightarrow> if rvals_all (struct_accepted f tid) vs then set_tenant_fields f tid vs st = (rvals_map (struct_filled f tid) vs, st)
    else \<exists>e. st_error (snd (set_tenant_fields f tid vs st)) = Some e"
proof (induction f tid v st and f tid vs st rule: set_tenant_field_set_tenant_fields.induct)
  case (4 f tid r st)
  then show ?case by (auto simp: struct_accepted_def struct_filled_def is_ok_def split: prod.split sum.split)
next
  case (9 f tid v vs st)
  show ?case
  proof (cases "rval_all (struct_accepted f tid) v")
    case True
    with 9 show ?thesis by (auto split: prod.splits if_split_asm)
  next
    case False
    obtain v' st' where one: "set_tenant_field f tid v st = (v', st')" by fastforce
    with "9.IH"(1) "9.prems" False obtain e where "st_error st' = Some e" by auto
    with field_error(2) [of st'] one False show ?thesis by simp
  qed
qed (auto split: prod.splits if_split_asm)

lemma accepted_item_has:
  assumes "item_accepted field tid i" "0 < tid" "field = None \<or> sf_db_name (the field) = tenant_column"
  shows "case item_filled field tid i of None \<Rightarrow> i = None | Some m \<Rightarrow> (\<exists>k v. tenant_map_value field m = Some (k, v) \<and> tenant_id_from_value v = (tid, False, True))"
proof (cases i)
  case (Some m)
  obtain k1 k2 where keys: "(case field of None \<Rightarrow> (tenant_column, tenant_struct_field) | Some f \<Rightarrow> (sf_db_name f, sf_name f)) = (k1, k2)" by fastforce
  then have k1: "k1 = tenant_column" using assms(3) by (auto split: option.split_asm)
  have zero: "tenant_id_from_value v = (c, z, True) \<Longrightarrow> z \<longleftrightarrow> c = 0" for v c z
    by (induction v rule: tenant_id_from_value.induct) (auto split: if_split_asm option.split_asm)
  show ?thesis
    using assms(1,2) Some
    by (auto simp: item_accepted_def item_filled_def tenant_map_value_def keys k1 zero split: option.split option.split_asm prod.split_asm if_split_asm)
qed (simp add: item_filled_def)

definition item_has_tenant :: "'r schema_field option \<Rightarrow> int \<Rightarrow> map_item \<Rightarrow> bool" where
  "item_has_tenant field tid i = (case i of None \<Rightarrow> True | Some m \<Rightarrow> (case tenant_map_value field m of None \<Rightarrow> False
     | Some (k, v) \<Rightarrow> tenant_id_from_value v = (tid, False, True)))"

definition struct_has_tenant :: "'r schema_field option \<Rightarrow> int \<Rightarrow> 'r \<Rightarrow> bool" where
  "struct_has_tenant field tid r = (case field of None \<Rightarrow> True | Some f \<Rightarrow> fst (tenant_id_from_value (fst (sf_value_of f r))) = tid)"

text \<open>The field GORM found for the column has its name, and reads back the tenant it was set to.\<close>

definition tenant_field_ok :: "'r schema_field option \<Rightarrow> int \<Rightarrow> bool" where
  "tenant_field_ok field tid = (case field of None \<Rightarrow> True | Some f \<Rightarrow> sf_db_name f = tenant_column \<and>
     (\<forall>r r'. sf_set f r (FInt tid) = Inr r' \<longrightarrow> fst (tenant_id_from_value (fst (sf_value_of f r'))) = tid))"

definition tenant_field_of :: "('m, 'r) schemas \<Rightarrow> ('m, 'r) statement \<Rightarrow> 'r schema_field option" where
  "tenant_field_of sc st = (case st_schema st of None \<Rightarrow> None | Some m \<Rightarrow> sc_fields sc m tenant_column)"

lemma rval_all_map:
  "(\<And>r. P r \<Longrightarrow> P' (g r)) \<Longrightarrow> rval_all P v \<Longrightarrow> rval_all P' (rval_map g v)" "(\<And>r. P r \<Longrightarrow> P' (g r)) \<Longrightarrow> rvals_all P vs \<Longrightarrow> rvals_all P' (rvals_map g vs)"
  by (induction g v and g vs rule: rval_map_rvals_map.induct) simp_all

lemma dest_all_map:
  assumes "\<And>i. Q i \<Longrightarrow> Q' (h i)" "\<And>r. P r \<Longrightarrow> P' (g r)" "dest_all Q P d"
  shows "dest_all Q' P' (dest_map h g d)"
proof (cases d)
  case (DValue v)
  with rval_all_map(1) [of P P' g v, OF assms(2)] assms(3) show ?thesis by (simp add: dest_all_def dest_map_def)
qed (use assms in \<open>auto simp: dest_all_def dest_map_def list_all_iff split: option.splits\<close>)

text \<open>The outcome over the whole destination.\<close>

lemma fill_tenant_result:
  assumes "\<not> should_skip_data_isolation st" "st_error st = None" "has_tenant_field sc ts st" "tenant_id_from_context (st_auth st) = Inr (tid, True)"
    "tenant_field_of sc st \<noteq> None \<or> (\<forall>v. st_dest st \<noteq> DValue v)"
  shows "if dest_all (item_accepted (tenant_field_of sc st) tid) (struct_accepted (the (tenant_field_of sc st)) tid) (st_dest st)
    then fill_tenant_id sc (Inr ts) st = st\<lparr>st_dest := dest_map (item_filled (tenant_field_of sc st) tid) (struct_filled (the (tenant_field_of sc st)) tid) (st_dest st)\<rparr>
    else \<exists>e. st_error (fill_tenant_id sc (Inr ts) st) = Some e"
proof -
  define field where "field = tenant_field_of sc st"
  have run: "fill_tenant_id sc (Inr ts) st = (case set_tenant_map field tid st of
      (True, st) \<Rightarrow> st
    | (False, st) \<Rightarrow> (case field of
           None \<Rightarrow> add_error (NewErr (''tenant field metadata missing for table '' @ st_table st)) st
         | Some f \<Rightarrow> (let (v, st) = set_tenant_field f tid (dest_value (st_dest st)) st in st\<lparr>st_dest := DValue v\<rparr>)))"
    unfolding field_def tenant_field_of_def fill_tenant_id_def tenant_id_for_statement_def Let_def using assms(1-4) by simp
  have item: "item_accepted field tid i \<Longrightarrow> set_tenant_map_item field tid i st = (item_filled field tid i, st)"
    "\<not> item_accepted field tid i \<Longrightarrow> \<exists>e. st_error (snd (set_tenant_map_item field tid i st)) = Some e" for i
    using map_item_fill [OF assms(2), of field tid i] by simp_all
  have items: "list_all (item_accepted field tid) is \<Longrightarrow> set_tenant_map_items field tid is st = (map (item_filled field tid) is, st)"
    "\<not> list_all (item_accepted field tid) is \<Longrightarrow> \<exists>e. st_error (snd (set_tenant_map_items field tid is st)) = Some e" for "is"
    using map_items_fill [OF assms(2), of field tid "is"] by simp_all
  show ?thesis
    unfolding field_def [symmetric]
  proof (cases "st_dest st")
    case (DValue v)
    then obtain f where "field = Some f" using assms(5) field_def by auto
    with field_fill(1) [OF assms(2), of f tid v] DValue
    show "if dest_all (item_accepted field tid) (struct_accepted (the field) tid) (st_dest st)
      then fill_tenant_id sc (Inr ts) st = st\<lparr>st_dest := dest_map (item_filled field tid) (struct_filled (the field) tid) (st_dest st)\<rparr>
      else \<exists>e. st_error (fill_tenant_id sc (Inr ts) st) = Some e"
      unfolding run by (auto simp: set_tenant_map_def dest_all_def dest_map_def dest_value_def split: prod.split if_split_asm)
  qed (auto simp: run set_tenant_map_def dest_all_def dest_map_def item items case_prod_unfold Let_def split: option.split)
qed

text \<open>New records belong to the tenant. Under an identity of a tenant the callback accepts a create exactly if every record has no tenant yet (and
  the field can be set) or the tenant of the identity, whether the records are maps or structs, behind pointers or in lists. It then leaves
  every record with that tenant, under the first of its two keys in a map; any other create ends in an error.\<close>

theorem new_records_have_tenant:
  assumes "\<not> should_skip_data_isolation st" "st_error st = None" "has_tenant_field sc ts st" "tenant_id_from_context (st_auth st) = Inr (tid, True)"
    "tenant_field_ok (tenant_field_of sc st) tid" "tenant_field_of sc st \<noteq> None \<or> (\<forall>v. st_dest st \<noteq> DValue v)"
  shows "(st_error (fill_tenant_id sc (Inr ts) st) = None \<longleftrightarrow>
      dest_all (item_accepted (tenant_field_of sc st) tid) (struct_accepted (the (tenant_field_of sc st)) tid) (st_dest st)) \<and>
    (st_error (fill_tenant_id sc (Inr ts) st) = None \<longrightarrow>
      dest_all (item_has_tenant (tenant_field_of sc st) tid) (struct_has_tenant (tenant_field_of sc st) tid) (st_dest (fill_tenant_id sc (Inr ts) st)))"
proof -
  define field where "field = tenant_field_of sc st"
  let ?ok = "dest_all (item_accepted field tid) (struct_accepted (the field) tid) (st_dest st)"
  note result = fill_tenant_result [OF assms(1-4,6), folded field_def]
  have iff: "st_error (fill_tenant_id sc (Inr ts) st) = None \<longleftrightarrow> ?ok" using result assms(2) by (cases ?ok) auto
  have pos: "0 < tid" using assms(4) by (auto simp: tenant_id_from_context_def split: option.split_asm if_split_asm)
  have item: "item_has_tenant field tid (item_filled field tid i)" if "item_accepted field tid i" for i
    using accepted_item_has [OF that pos] assms(5) by (auto simp: field_def tenant_field_ok_def item_has_tenant_def split: option.split option.split_asm)
  have struct: "struct_has_tenant field tid (struct_filled (the field) tid r)" if "struct_accepted (the field) tid r" for r
    using that assms(5) unfolding field_def [symmetric]
    by (auto simp: struct_has_tenant_def struct_accepted_def struct_filled_def tenant_field_ok_def is_ok_def split: option.split prod.split_asm if_split_asm sum.split_asm)
  have "dest_all (item_has_tenant field tid) (struct_has_tenant field tid) (st_dest (fill_tenant_id sc (Inr ts) st))" if ?ok
    using result that dest_all_map [where Q = "item_accepted field tid" and Q' = "item_has_tenant field tid" and h = "item_filled field tid" and
      P = "struct_accepted (the field) tid" and P' = "struct_has_tenant field tid" and g = "struct_filled (the field) tid", OF _ _ that] item struct by simp
  with iff show ?thesis by (simp add: field_def [symmetric])
qed

definition sample_field :: "field_value schema_field" where
  "sample_field = \<lparr>sf_name = ''TenantID'', sf_db_name = ''tenant_id'', sf_value_of = (\<lambda>r. (r, r = FInt 0)), sf_set = (\<lambda>r v. Inr v)\<rparr>"

definition invoice_schemas :: "(unit, field_value) schemas" where
  "invoice_schemas = \<lparr>sc_table = (\<lambda>m. ''invoice''), sc_fields = (\<lambda>m. [''tenant_id'' \<mapsto> sample_field]), sc_look_up = (\<lambda>m. Map.empty), sc_relation = (\<lambda>m. Map.empty)\<rparr>"

definition sample_create :: "field_value sql_dest \<Rightarrow> (unit, field_value) statement" where
  "sample_create d = \<lparr>st_auth = Some (Some (sample_payload_of 7)), st_dialect = Some ''mysql'', st_table = ''invoice'', st_table_expr = None, st_schema = Some (),
     st_from = None, st_joins = [], st_where = [], st_sql = [], st_vars = [], st_in_transaction = False, st_bypass = False, st_rows = None, st_denied = False,
     st_selected = (Map.empty, False), st_dest = d, st_error = None\<rparr>"

theorem new_records_have_tenant_witness:
  "st_error (fill_tenant_id invoice_schemas (Inr {}) (sample_create (DValue (RRef (RList [RStruct (FInt 0), RStruct (FInt 7)]))))) = None \<and>
   st_error (fill_tenant_id invoice_schemas (Inr {}) (sample_create (DValue (RRef (RList [RStruct (FInt 0), RStruct (FInt 8)]))))) \<noteq> None"
proof -
  have field: "tenant_field_of invoice_schemas (sample_create d) = Some sample_field" for d
    by (simp add: tenant_field_of_def sample_create_def invoice_schemas_def tenant_column_def)
  have pre: "\<not> should_skip_data_isolation (sample_create d)" "st_error (sample_create d) = None" "has_tenant_field invoice_schemas {} (sample_create d)"
    "tenant_id_from_context (st_auth (sample_create d)) = Inr (7, True)" for d
    by (simp_all add: should_skip_data_isolation_def has_data_isolation_bypass_def sample_create_def has_tenant_field_def invoice_schemas_def tenant_column_def
      tenant_id_from_context_def sample_payload_of_def empty_payload_def default_tenant_code_def)
  have ok: "tenant_field_ok (tenant_field_of invoice_schemas (sample_create d)) 7"
    "tenant_field_of invoice_schemas (sample_create d) \<noteq> None \<or> (\<forall>v. st_dest (sample_create d) \<noteq> DValue v)" for d
    unfolding field by (simp_all add: tenant_field_ok_def sample_field_def tenant_column_def)
  show ?thesis
    by (simp add: new_records_have_tenant [OF pre ok, THEN conjunct1] field)
      (simp add: sample_create_def dest_all_def struct_accepted_def sample_field_def is_ok_def)
qed

end
