(* ===== verification/Sql_Project.thy ===== *)
theory Sql_Project
  imports Sql_Tenant "HOL-Library.AList"
begin

text \<open>
  Project isolation (database/gorm/internal/callback/project.go): the range of tenants and projects of an identity, the condition it adds
  to statements, and the checks of updates and creates.

  The loader and what it returns are parameters. The map of tenants is the list of its entries in the order of the iteration,
  with distinct keys. \<open>clause.CurrentTable\<close> is the table \<open>None\<close>.
\<close>

subsection \<open>The range of an identity\<close>

record project_scope =
  ps_system :: bool
  ps_tenants :: "(int \<times> int list) list"

definition err_project_scope_denied :: go_err where "err_project_scope_denied = Sentinel ''project scope denied''"

record project_isolation =
  pi_columns :: "string \<rightharpoonup> string"
  pi_load :: "project_scope res option"

definition pi_tables :: "project_isolation \<Rightarrow> string set" where
  "pi_tables p = dom (pi_columns p)"

definition column_of :: "project_isolation \<Rightarrow> string \<Rightarrow> string" where
  "column_of p table = (case pi_columns p table of None \<Rightarrow> [] | Some c \<Rightarrow> c)"

text \<open>One entry of the payload is merged into the map; a nil list of projects has none.\<close>

definition merge_projects :: "tenant_project_scope \<Rightarrow> (int \<times> int list) list \<Rightarrow> (int \<times> int list) list" where
  "merge_projects item m =
     (let ids = (case tps_projects item of None \<Rightarrow> [] | Some ids \<Rightarrow> ids) in
      case map_of m (tps_tenant item) of
        Some existing \<Rightarrow> AList.update (tps_tenant item) (if existing = [0] \<or> ids = [0] then [0] else existing @ ids) m
      | None \<Rightarrow> m @ [(tps_tenant item, ids)])"

definition project_scope_from_auth :: "user_payload option option \<Rightarrow> project_scope res" where
  "project_scope_from_auth ctx =
     (case ctx of
        Some (Some info) \<Rightarrow>
          if up_tenant_code info = default_tenant_code then Inr \<lparr>ps_system = True, ps_tenants = []\<rparr>
          else Inr \<lparr>ps_system = False, ps_tenants = fold merge_projects (case up_tenant_projects info of None \<Rightarrow> [] | Some items \<Rightarrow> items) []\<rparr>
      | _ \<Rightarrow> Inl err_project_scope_denied)"

definition valid_entry :: "int \<times> int list \<Rightarrow> bool" where
  "valid_entry e = (0 < fst e \<and> list_all (\<lambda>i. \<not> (i < 0 \<or> i = 0 \<and> length (snd e) \<noteq> 1)) (snd e))"

definition project_scope_of :: "project_isolation \<Rightarrow> ('m, 'r) statement \<Rightarrow> project_scope res" where
  "project_scope_of p st =
     (if st_auth st = None then Inl err_project_scope_denied
      else case pi_load p of
          None \<Rightarrow> project_scope_from_auth (st_auth st)
        | Some (Inl e) \<Rightarrow> Inl e
        | Some (Inr scope) \<Rightarrow> if list_all valid_entry (ps_tenants scope) then Inr scope else Inl err_project_scope_denied)"

definition main_table :: "project_isolation \<Rightarrow> ('m, 'r) statement \<Rightarrow> string" where
  "main_table p st =
     (if st_table st \<in> pi_tables p then st_table st
      else case st_table_expr st of
          None \<Rightarrow> []
        | Some sql \<Rightarrow> (case first_field sql of None \<Rightarrow> [] | Some f \<Rightarrow> normalize_raw_sql_identifier (st_dialect st) f))"

subsection \<open>The condition\<close>

definition project_entry :: "string option \<Rightarrow> string \<Rightarrow> int \<times> int list \<Rightarrow> clause_expr list" where
  "project_entry table column e =
     (let tenant = Eq (SqlCol table tenant_column) (fst e) in
      if snd e = [0] then [tenant]
      else if snd e = [] then []
      else [clause_and [tenant, In (SqlCol table column) (snd e)]])"

definition project_expression :: "string option \<Rightarrow> string \<Rightarrow> project_scope \<Rightarrow> clause_expr" where
  "project_expression table column scope =
     (let es = concat (map (project_entry table column) (ps_tenants scope))
      in if es = [] then Eq (SqlCol table column) 0 else clause_and [clause_or es])"

definition project_scoped :: "project_isolation \<Rightarrow> sql_table_reference \<Rightarrow> bool" where
  "project_scoped p r = (tr_name r \<in> pi_tables p)"

definition project_condition :: "project_isolation \<Rightarrow> project_scope \<Rightarrow> sql_table_reference \<Rightarrow> clause_expr" where
  "project_condition p scope r = project_expression (Some (tr_alias r)) (column_of p (tr_name r)) scope"

definition project_raw :: "project_isolation \<Rightarrow> ('m, 'r) statement \<Rightarrow> ('m, 'r) statement" where
  "project_raw p st =
     (if st_error st \<noteq> None \<or> has_data_isolation_bypass st \<or> is_gorm_savepoint_statement st then st
      else case project_scope_of p st of
          Inl e \<Rightarrow> add_data_isolation_error e st
        | Inr scope \<Rightarrow> if \<not> ps_system scope then add_data_isolation_error err_raw_data_isolation_unsupported st else st)"

definition project_filter :: "('m, 'r) schemas \<Rightarrow> project_isolation \<Rightarrow> ('m, 'r) statement \<Rightarrow> ('m, 'r) statement res" where
  "project_filter sc p st =
     (if st_error st \<noteq> None \<or> has_data_isolation_bypass st then Inr st
      else if st_sql st \<noteq> [] then Inr (project_raw p st)
      else let main = statement_uses_registered_table (pi_tables p) st; (joined, st) = has_scoped_join sc (project_scoped p) st in
        if st_error st \<noteq> None \<or> (\<not> main \<and> \<not> joined) then Inr st
        else case reject_unsafe_raw_statement st of
            (True, st) \<Rightarrow> Inr st
          | (False, st) \<Rightarrow>
              (case project_scope_of p st of
                 Inl e \<Rightarrow> Inr (add_data_isolation_error e st)
               | Inr scope \<Rightarrow>
                   if ps_system scope then Inr st
                   else let exprs = (if main then [project_expression None (column_of p (main_table p st)) scope] else []) in
                     res_bind (apply_join_conditions sc (project_scoped p) (project_condition p scope) ''project'' st) (\<lambda>(more, st).
                       Inr (if exprs @ more \<noteq> [] then add_where (exprs @ more) st else st))))"

subsection \<open>Updates\<close>

text \<open>\<open>reflect.Indirect(reflect.ValueOf(dest))\<close>, as a struct of the model.\<close>

definition model_struct :: "'r sql_dest \<Rightarrow> 'r option" where
  "model_struct d = (case dest_value d of RStruct r \<Rightarrow> Some r | RRef (RStruct r) \<Rightarrow> Some r | _ \<Rightarrow> None)"

definition deny_update :: "('m, 'r) statement \<Rightarrow> ('m, 'r) statement" where
  "deny_update st = add_error err_project_scope_denied st"

definition protected_written :: "('m, 'r) schemas \<Rightarrow> 'm \<Rightarrow> ('m, 'r) statement \<Rightarrow> 'r \<Rightarrow> string \<Rightarrow> bool" where
  "protected_written sc m st r key =
     (case sc_fields sc m key of
        None \<Rightarrow> False
      | Some f \<Rightarrow>
          let (selected, restricted) = st_selected st in
          if (case selected key of Some include \<Rightarrow> \<not> include | None \<Rightarrow> restricted) then False
          else \<not> snd (sf_value_of f r) \<or> selected key = Some True)"

definition update_denied :: "('m, 'r) schemas \<Rightarrow> project_isolation \<Rightarrow> ('m, 'r) statement \<Rightarrow> bool" where
  "update_denied sc p st =
     (let keys = [tenant_column, column_of p (main_table p st)] in
      case st_dest st of
        DMap i \<Rightarrow> (case i of None \<Rightarrow> False | Some m \<Rightarrow> list_ex (\<lambda>k. m k \<noteq> None) keys)
      | _ \<Rightarrow>
          (case st_schema st of
             None \<Rightarrow> False
           | Some m \<Rightarrow> (case model_struct (st_dest st) of None \<Rightarrow> True | Some r \<Rightarrow> list_ex (protected_written sc m st r) keys)))"

definition project_update :: "('m, 'r) schemas \<Rightarrow> project_isolation \<Rightarrow> ('m, 'r) statement \<Rightarrow> ('m, 'r) statement res" where
  "project_update sc p st =
     (if st_error st \<noteq> None \<or> has_data_isolation_bypass st then Inr st
      else if statement_uses_registered_table (pi_tables p) st \<and> update_denied sc p st then Inr (deny_update st)
      else project_filter sc p st)"

subsection \<open>Creates\<close>

text \<open>The tenant and the project of one record, if it has them.\<close>

definition ids_allowed :: "project_scope \<Rightarrow> field_value \<Rightarrow> field_value \<Rightarrow> bool" where
  "ids_allowed scope tv pv =
     (let (tid, _, tok) = tenant_id_from_value tv; (pid, _, pok) = tenant_id_from_value pv;
          ids = (case map_of (ps_tenants scope) tid of None \<Rightarrow> [] | Some ids \<Rightarrow> ids)
      in tok \<and> pok \<and> 0 < tid \<and> 0 < pid \<and> (ids = [0] \<or> pid \<in> set ids))"

definition record_values :: "('m, 'r) schemas \<Rightarrow> 'm option \<Rightarrow> string \<Rightarrow> 'r rval \<Rightarrow> (field_value \<times> field_value) option" where
  "record_values sc schema column v =
     (case v of
        RMap m \<Rightarrow> (case (m tenant_column, m column) of (Some t, Some p) \<Rightarrow> Some (t, p) | _ \<Rightarrow> None)
      | RStruct r \<Rightarrow>
          (case schema of
             None \<Rightarrow> None
           | Some m \<Rightarrow> (case (sc_fields sc m tenant_column, sc_fields sc m column) of
                 (Some ft, Some fp) \<Rightarrow> Some (fst (sf_value_of ft r), fst (sf_value_of fp r))
               | _ \<Rightarrow> None))
      | _ \<Rightarrow> None)"

fun check_records :: "('m, 'r) schemas \<Rightarrow> 'm option \<Rightarrow> string \<Rightarrow> project_scope \<Rightarrow> 'r rval \<Rightarrow> bool"
  and check_all :: "('m, 'r) schemas \<Rightarrow> 'm option \<Rightarrow> string \<Rightarrow> project_scope \<Rightarrow> 'r rval list \<Rightarrow> bool" where
  "check_records sc schema column scope (RRef v) = check_records sc schema column scope v"
| "check_records sc schema column scope (RList vs) = check_all sc schema column scope vs"
| "check_records sc schema column scope v =
     (case record_values sc schema column v of None \<Rightarrow> False | Some (t, p) \<Rightarrow> ids_allowed scope t p)"
| "check_all sc schema column scope [] = True"
| "check_all sc schema column scope (v # vs) = (check_records sc schema column scope v \<and> check_all sc schema column scope vs)"

definition project_create :: "('m, 'r) schemas \<Rightarrow> project_isolation \<Rightarrow> ('m, 'r) statement \<Rightarrow> ('m, 'r) statement" where
  "project_create sc p st =
     (if st_error st \<noteq> None \<or> has_data_isolation_bypass st \<or> \<not> statement_uses_registered_table (pi_tables p) st then st
      else case project_scope_of p st of
          Inl e \<Rightarrow> add_error e st
        | Inr scope \<Rightarrow>
            if ps_system scope then st
            else if check_records sc (st_schema st) (column_of p (main_table p st)) scope (dest_value (st_dest st)) then st
            else add_error err_project_scope_denied st)"

subsection \<open>A record may be created exactly if it is visible\<close>

definition visible :: "project_scope \<Rightarrow> int option \<Rightarrow> int option \<Rightarrow> bool" where
  "visible scope t p \<longleftrightarrow> (\<exists>(tid, ids) \<in> set (ps_tenants scope). t = Some tid \<and> (ids = [0] \<or> p \<in> Some ` set ids))"

lemma clause_and_holds [simp]: "expr_holds r (clause_and es) \<longleftrightarrow> (\<forall>e \<in> set es. expr_holds r e)"
  by (simp add: clause_and_def split: list.split clause_expr.split)

lemma project_entry_holds:
  "(\<exists>e \<in> set (project_entry table column (tid, ids)). expr_holds r e) \<longleftrightarrow>
     row_int r (SqlCol table tenant_column) = Some tid \<and> (ids = [0] \<or> row_int r (SqlCol table column) \<in> Some ` set ids)"
  by (auto simp: project_entry_def Let_def)

lemma project_expression_holds:
  assumes "row_int r (SqlCol table column) \<noteq> Some 0"
  shows "expr_holds r (project_expression table column scope) \<longleftrightarrow> visible scope (row_int r (SqlCol table tenant_column)) (row_int r (SqlCol table column))"
proof -
  define es where "es = concat (map (project_entry table column) (ps_tenants scope))"
  have "(\<exists>e \<in> set es. expr_holds r e) \<longleftrightarrow> (\<exists>(tid, ids) \<in> set (ps_tenants scope). \<exists>e \<in> set (project_entry table column (tid, ids)). expr_holds r e)"
    unfolding es_def by auto
  then have "(\<exists>e \<in> set es. expr_holds r e) \<longleftrightarrow> visible scope (row_int r (SqlCol table tenant_column)) (row_int r (SqlCol table column))"
    unfolding project_entry_holds visible_def by simp
  then show ?thesis
    using assms by (cases "es = []") (simp_all add: project_expression_def Let_def es_def [symmetric] clause_or_def)
qed

lemma project_expression_plain: "\<not> single_or (project_expression table column scope)"
  by (simp add: project_expression_def clause_and_def clause_or_def single_or_def Let_def)

text \<open>A row with the tenant and the project of a record.\<close>

definition record_row :: "string \<Rightarrow> field_value \<Rightarrow> field_value \<Rightarrow> sql_row" where
  "record_row column tv pv = \<lparr>row_int = (\<lambda>c. case c of SqlCol a n \<Rightarrow>
       if n = tenant_column then Some (fst (tenant_id_from_value tv)) else if n = column then Some (fst (tenant_id_from_value pv)) else None),
     row_like = (\<lambda>c p. False), row_sql = (\<lambda>s args. False), row_caller = (\<lambda>i. False)\<rparr>"

definition positive_ids :: "field_value \<Rightarrow> field_value \<Rightarrow> bool" where
  "positive_ids tv pv \<longleftrightarrow> snd (snd (tenant_id_from_value tv)) \<and> snd (snd (tenant_id_from_value pv)) \<and>
     0 < fst (tenant_id_from_value tv) \<and> 0 < fst (tenant_id_from_value pv)"

text \<open>Lists and pointers are followed; every record must have both values and satisfy \<open>P\<close>.\<close>

fun every_record :: "('m, 'r) schemas \<Rightarrow> 'm option \<Rightarrow> string \<Rightarrow> (field_value \<Rightarrow> field_value \<Rightarrow> bool) \<Rightarrow> 'r rval \<Rightarrow> bool"
  and every_one :: "('m, 'r) schemas \<Rightarrow> 'm option \<Rightarrow> string \<Rightarrow> (field_value \<Rightarrow> field_value \<Rightarrow> bool) \<Rightarrow> 'r rval list \<Rightarrow> bool" where
  "every_record sc schema column P (RRef v) = every_record sc schema column P v"
| "every_record sc schema column P (RList vs) = every_one sc schema column P vs"
| "every_record sc schema column P v = (case record_values sc schema column v of None \<Rightarrow> False | Some (t, p) \<Rightarrow> P t p)"
| "every_one sc schema column P [] = True"
| "every_one sc schema column P (v # vs) = (every_record sc schema column P v \<and> every_one sc schema column P vs)"

lemma ids_allowed_visible:
  assumes "distinct (map fst (ps_tenants scope))"
  shows "ids_allowed scope tv pv \<longleftrightarrow> positive_ids tv pv \<and> visible scope (Some (fst (tenant_id_from_value tv))) (Some (fst (tenant_id_from_value pv)))"
proof -
  obtain t tz tok where t: "tenant_id_from_value tv = (t, tz, tok)" using prod_cases3 by blast
  obtain p pz pok where p: "tenant_id_from_value pv = (p, pz, pok)" using prod_cases3 by blast
  have mem: "(t, ids) \<in> set (ps_tenants scope) \<longleftrightarrow> map_of (ps_tenants scope) t = Some ids" for ids
    by (simp add: map_of_eq_Some_iff [OF assms])
  have vis: "visible scope (Some t) (Some p) \<longleftrightarrow> (\<exists>ids. (t, ids) \<in> set (ps_tenants scope) \<and> (ids = [0] \<or> p \<in> set ids))"
    unfolding visible_def by (auto simp: image_iff)
  have "(let ids = (case map_of (ps_tenants scope) t of None \<Rightarrow> [] | Some ids \<Rightarrow> ids) in ids = [0] \<or> p \<in> set ids) \<longleftrightarrow> visible scope (Some t) (Some p)"
    unfolding vis mem by (cases "map_of (ps_tenants scope) t") simp_all
  then show ?thesis by (auto simp: ids_allowed_def positive_ids_def t p Let_def)
qed

lemma positive_row:
  "column \<noteq> tenant_column \<Longrightarrow> positive_ids tv pv \<Longrightarrow>
    expr_holds (record_row column tv pv) (project_expression table column scope) \<longleftrightarrow>
    visible scope (Some (fst (tenant_id_from_value tv))) (Some (fst (tenant_id_from_value pv)))"
  by (subst project_expression_holds) (simp_all add: record_row_def positive_ids_def)

lemma check_every:
  fixes v :: "'r rval" and sc :: "('m, 'r) schemas"
  shows "check_records sc schema column scope v = every_record sc schema column (ids_allowed scope) v"
    and "check_all sc schema column scope vs = every_one sc schema column (ids_allowed scope) vs"
  by (induction sc schema column scope v and sc schema column scope vs rule: check_records_check_all.induct) simp_all

lemma check_records_every:
  assumes "distinct (map fst (ps_tenants scope))" "column \<noteq> tenant_column"
  shows "check_records sc schema column scope v \<longleftrightarrow> every_record sc schema column (\<lambda>t p. positive_ids t p \<and>
      expr_holds (record_row column t p) (project_expression None column scope)) v"
proof -
  have "ids_allowed scope = (\<lambda>t p. positive_ids t p \<and> expr_holds (record_row column t p) (project_expression None column scope))"
    using ids_allowed_visible [OF assms(1)] positive_row [OF assms(2)] by blast
  then show ?thesis by (simp only: check_every)
qed

text \<open>A record may be created exactly if it is visible. For a scoped table and a range of projects, the callback accepts a create exactly if every record, in
  maps or structs, behind pointers and in lists, has positive tenant and project numbers that the condition added to queries of that table accepts.\<close>

theorem project_create_iff_visible:
  assumes "st_error st = None" "\<not> has_data_isolation_bypass st" "statement_uses_registered_table (pi_tables p) st"
    "project_scope_of p st = Inr scope" "\<not> ps_system scope" "distinct (map fst (ps_tenants scope))" "column_of p (main_table p st) \<noteq> tenant_column"
  shows "st_error (project_create sc p st) = None \<longleftrightarrow>
    every_record sc (st_schema st) (column_of p (main_table p st)) (\<lambda>t q. positive_ids t q \<and>
      expr_holds (record_row (column_of p (main_table p st)) t q) (project_expression None (column_of p (main_table p st)) scope)) (dest_value (st_dest st))"
  unfolding check_records_every [OF assms(6,7), symmetric] using assms(1-5) by (simp add: project_create_def)

definition sample_projects :: project_isolation where
  "sample_projects = \<lparr>pi_columns = [''invoice'' \<mapsto> ''project_id''], pi_load = None\<rparr>"

definition sample_insert :: "(unit, field_value) statement" where
  "sample_insert = (sample_create (DMaps [Some [''tenant_id'' \<mapsto> FInt 7, ''project_id'' \<mapsto> FStr ''3''], Some [''tenant_id'' \<mapsto> FInt 7, ''project_id'' \<mapsto> FInt 4]]))
     \<lparr>st_auth := Some (Some ((sample_payload_of 7)\<lparr>up_tenant_projects := Some [\<lparr>tps_tenant = 7, tps_projects = Some [2, 3]\<rparr>]\<rparr>))\<rparr>"

lemma sample_insert_scope: "project_scope_of sample_projects sample_insert = Inr \<lparr>ps_system = False, ps_tenants = [(7, [2, 3])]\<rparr>"
  by (simp add: project_scope_of_def sample_insert_def sample_create_def sample_projects_def project_scope_from_auth_def sample_payload_of_def empty_payload_def
      default_tenant_code_def merge_projects_def)

theorem project_create_iff_visible_witness:
  "st_error (project_create invoice_schemas sample_projects sample_insert) = None \<longleftrightarrow>
    every_record invoice_schemas (st_schema sample_insert) ''project_id'' (\<lambda>t q. positive_ids t q \<and>
      expr_holds (record_row ''project_id'' t q) (project_expression None ''project_id'' \<lparr>ps_system = False, ps_tenants = [(7, [2, 3])]\<rparr>)) (dest_value (st_dest sample_insert))"
proof -
  have column: "column_of sample_projects (main_table sample_projects sample_insert) = ''project_id''"
    by (simp add: main_table_def column_of_def sample_projects_def pi_tables_def sample_insert_def sample_create_def)
  have pre: "st_error sample_insert = None" "\<not> has_data_isolation_bypass sample_insert" "statement_uses_registered_table (pi_tables sample_projects) sample_insert"
    by (simp_all add: sample_insert_def sample_create_def has_data_isolation_bypass_def statement_uses_registered_table_def pi_tables_def sample_projects_def)
  from project_create_iff_visible [OF pre sample_insert_scope, of invoice_schemas] show ?thesis by (simp add: column tenant_column_def)
qed

subsection \<open>Rows outside the range are not selected\<close>

definition project_row :: "'w database \<Rightarrow> project_scope \<Rightarrow> string \<Rightarrow> 'w \<Rightarrow> bool" where
  "project_row db scope column w \<longleftrightarrow> visible scope (db_int db w tenant_column) (db_int db w column)"

lemma project_expression_row:
  assumes "\<forall>w. db_int db w column \<noteq> Some 0"
  shows "expr_holds (env_row db env) (project_expression a column scope) \<longleftrightarrow> (case env a of None \<Rightarrow> False | Some w \<Rightarrow> project_row db scope column w)"
proof -
  have "row_int (env_row db env) (SqlCol a column) \<noteq> Some 0" using assms by (simp add: env_row_def split: option.split)
  from project_expression_holds [OF this] show ?thesis
    by (auto simp: env_row_def project_row_def visible_def split: option.split)
qed

lemma main_table_registered: "statement_uses_registered_table (pi_tables p) st \<Longrightarrow> main_table p st \<in> pi_tables p"
  by (auto simp: statement_uses_registered_table_def main_table_def split: if_split_asm option.splits)

lemma column_of_ran: "t \<in> pi_tables p \<Longrightarrow> column_of p t \<in> ran (pi_columns p)"
  by (auto simp: pi_tables_def column_of_def ran_def)

lemma project_own_row:
  assumes "\<forall>w. \<forall>c \<in> ran (pi_columns p). db_int db w c \<noteq> Some 0"
  shows "own_row db (project_scoped p) (project_condition p scope) (\<lambda>r. project_row db scope (column_of p (tr_name r)))"
  unfolding own_row_def project_condition_def
  using assms by (auto simp: project_expression_row project_scoped_def column_of_ran)

lemma same_joins_main: "same_joins st st1 \<Longrightarrow> main_table p st1 = main_table p st"
  "same_joins st st1 \<Longrightarrow> project_scope_of p st1 = project_scope_of p st"
  "same_joins st st1 \<Longrightarrow> st_sql st = [] \<Longrightarrow> reject_unsafe_raw_statement st1 = (False, st1)"
  by (auto simp: same_joins_def main_table_def project_scope_of_def reject_unsafe_raw_statement_def cong: option.case_cong)


definition project_query :: "clause_expr list \<Rightarrow> (unit, unit) statement" where
  "project_query es = (sample_query [] es)\<lparr>st_auth := Some (Some ((sample_payload_of 7)\<lparr>up_tenant_projects := Some [\<lparr>tps_tenant = 7, tps_projects = Some [2, 3]\<rparr>]\<rparr>))\<rparr>"

definition project_db :: "int database" where
  "project_db = \<lparr>db_table = (\<lambda>a w. True), db_int = (\<lambda>w c. if c = tenant_column then Some 7 else Some 3), db_like = (\<lambda>env c p. True),
     db_sql = (\<lambda>env s args. True), db_caller = (\<lambda>env i. True)\<rparr>"


text \<open>A map of an update is checked for the names of the columns only: the names of the fields, which GORM accepts too, pass.\<close>

lemma update_by_field_name:
  "update_denied sc sample_projects (st\<lparr>st_table := ''invoice'', st_dest := DMap (Some [''ProjectID'' \<mapsto> v, ''TenantID'' \<mapsto> w])\<rparr>) = False"
  "update_denied sc sample_projects (st\<lparr>st_table := ''invoice'', st_dest := DMap (Some [''project_id'' \<mapsto> v])\<rparr>) = True"
  by (simp_all add: update_denied_def column_of_def main_table_def pi_tables_def sample_projects_def tenant_column_def)

end
