(* ===== verification/Sql_Data_Scope.thy ===== *)
theory Sql_Data_Scope
  imports Sql_Tenant
begin

text \<open>
  The data scope of a role (database/gorm/internal/callback/data_scope.go): by user, by department, or by department with its children. \<open>tables\<close> is what
  \<open>dataScopeTables\<close> gives; \<open>clause.CurrentTable\<close> is the table \<open>None\<close>. The subqueries are SQL text with arguments.
\<close>

subsection \<open>The scope of the identity\<close>

definition data_scope_unknown :: int where "data_scope_unknown = 0"
definition data_scope_all :: int where "data_scope_all = 1"
definition data_scope_dept_and_children :: int where "data_scope_dept_and_children = 2"
definition data_scope_self_dept :: int where "data_scope_self_dept = 3"
definition data_scope_self_user :: int where "data_scope_self_user = 4"

definition created_by_column :: string where "created_by_column = ''created_by''"
definition dept_id_column :: string where "dept_id_column = ''id''"
definition dept_path_column :: string where "dept_path_column = ''path''"
definition user_table :: string where "user_table = ''base_user''"
definition dept_table :: string where "dept_table = ''base_dept''"
definition user_id_column :: string where "user_id_column = ''id''"
definition user_dept_id_column :: string where "user_dept_id_column = ''dept_id''"

record data_scope_identity =
  di_user_id :: int
  di_dept_id :: int
  di_tenant_id :: int
  di_tenant_code :: string
  di_data_scope :: int

definition empty_identity :: data_scope_identity where
  "empty_identity = \<lparr>di_user_id = 0, di_dept_id = 0, di_tenant_id = 0, di_tenant_code = [], di_data_scope = 0\<rparr>"

definition data_scope_from_context :: "user_payload option option \<Rightarrow> data_scope_identity \<times> bool" where
  "data_scope_from_context ctx =
     (case ctx of
        Some (Some info) \<Rightarrow>
          if up_data_scope info = data_scope_unknown \<or> up_data_scope info = data_scope_all then (empty_identity, False)
          else (\<lparr>di_user_id = up_user_id info, di_dept_id = up_dept_id info, di_tenant_id = up_tenant_id info,
                 di_tenant_code = up_tenant_code info, di_data_scope = up_data_scope info\<rparr>, True)
      | _ \<Rightarrow> (empty_identity, False))"

definition data_scope_for_statement :: "('m, 'r) statement \<Rightarrow> data_scope_identity \<times> bool" where
  "data_scope_for_statement st = data_scope_from_context (st_auth st)"

definition has_tenant_scope :: "data_scope_identity \<Rightarrow> bool" where
  "has_tenant_scope i = (0 < di_tenant_id i \<and> di_tenant_code i \<noteq> default_tenant_code)"

subsection \<open>Conditions\<close>

definition data_scope_column :: "string option \<Rightarrow> string \<Rightarrow> sql_column" where
  "data_scope_column table name = SqlCol table name"

definition dept_path_like_value :: "int \<Rightarrow> string" where
  "dept_path_like_value d = ''%/'' @ show_int d @ ''/%''"

definition deny_data_scope_expr :: "string option \<Rightarrow> string \<Rightarrow> clause_expr" where
  "deny_data_scope_expr table column = Eq (data_scope_column table column) (- 1)"

definition data_scope_dept_expr :: "data_scope_identity \<Rightarrow> string option \<Rightarrow> clause_expr" where
  "data_scope_dept_expr i table =
     (if di_dept_id i \<le> 0 then deny_data_scope_expr table dept_id_column
      else if di_data_scope i = data_scope_self_user \<or> di_data_scope i = data_scope_self_dept then
        Eq (data_scope_column table dept_id_column) (di_dept_id i)
      else if di_data_scope i = data_scope_dept_and_children then
        clause_or [Eq (data_scope_column table dept_id_column) (di_dept_id i),
                   Like (data_scope_column table dept_path_column) (dept_path_like_value (di_dept_id i))]
      else deny_data_scope_expr table dept_id_column)"

definition created_by_in_dept_derived_expr :: "data_scope_identity \<Rightarrow> string option \<Rightarrow> clause_expr" where
  "created_by_in_dept_derived_expr i table =
     (let sql = ''EXISTS (SELECT 1 FROM (SELECT '' @ user_id_column @ '' FROM '' @ user_table @ '' WHERE '' @ user_dept_id_column @ '' = ?'';
          vars = [ArgInt (di_dept_id i)];
          (sql, vars) = (if has_tenant_scope i then (sql @ '' AND '' @ tenant_column @ '' = ?'', vars @ [ArgInt (di_tenant_id i)]) else (sql, vars))
      in Expr (sql @ '') scoped_creator WHERE scoped_creator.'' @ user_id_column @ '' = ?)'') (vars @ [ArgCol (data_scope_column table created_by_column)]))"

definition created_by_in_dept_expr :: "data_scope_identity \<Rightarrow> string option \<Rightarrow> bool \<Rightarrow> clause_expr" where
  "created_by_in_dept_expr i table derived =
     (if derived then created_by_in_dept_derived_expr i table
      else let sql = ''EXISTS (SELECT 1 FROM '' @ user_table @ '' u WHERE u.'' @ user_id_column @ '' = ? AND u.'' @ user_dept_id_column @ '' = ?'';
               vars = [ArgCol (data_scope_column table created_by_column), ArgInt (di_dept_id i)];
               (sql, vars) = (if has_tenant_scope i then (sql @ '' AND u.'' @ tenant_column @ '' = ?'', vars @ [ArgInt (di_tenant_id i)]) else (sql, vars))
           in Expr (sql @ '')'') vars)"

definition created_by_in_dept_and_children_derived_expr :: "data_scope_identity \<Rightarrow> string option \<Rightarrow> clause_expr" where
  "created_by_in_dept_and_children_derived_expr i table =
     (let sql = ''EXISTS (SELECT 1 FROM (SELECT u.'' @ user_id_column @ '' FROM '' @ user_table @ '' u JOIN '' @ dept_table @ '' d ON u.'' @ user_dept_id_column @
            '' = d.'' @ dept_id_column @ '' WHERE (d.'' @ dept_id_column @ '' = ? OR d.'' @ dept_path_column @ '' LIKE ?)'';
          vars = [ArgInt (di_dept_id i), ArgStr (dept_path_like_value (di_dept_id i))];
          (sql, vars) = (if has_tenant_scope i
            then (sql @ '' AND u.'' @ tenant_column @ '' = ? AND d.'' @ tenant_column @ '' = ?'', vars @ [ArgInt (di_tenant_id i), ArgInt (di_tenant_id i)])
            else (sql, vars))
      in Expr (sql @ '') scoped_creator WHERE scoped_creator.'' @ user_id_column @ '' = ?)'') (vars @ [ArgCol (data_scope_column table created_by_column)]))"

definition created_by_in_dept_and_children_expr :: "data_scope_identity \<Rightarrow> string option \<Rightarrow> bool \<Rightarrow> clause_expr" where
  "created_by_in_dept_and_children_expr i table derived =
     (if derived then created_by_in_dept_and_children_derived_expr i table
      else let sql = ''EXISTS (SELECT 1 FROM '' @ user_table @ '' u JOIN '' @ dept_table @ '' d ON u.'' @ user_dept_id_column @ '' = d.'' @ dept_id_column @
                 '' WHERE u.'' @ user_id_column @ '' = ? AND (d.'' @ dept_id_column @ '' = ? OR d.'' @ dept_path_column @ '' LIKE ?)'';
               vars = [ArgCol (data_scope_column table created_by_column), ArgInt (di_dept_id i), ArgStr (dept_path_like_value (di_dept_id i))];
               (sql, vars) = (if has_tenant_scope i
                 then (sql @ '' AND u.'' @ tenant_column @ '' = ? AND d.'' @ tenant_column @ '' = ?'', vars @ [ArgInt (di_tenant_id i), ArgInt (di_tenant_id i)])
                 else (sql, vars))
           in Expr (sql @ '')'') vars)"

definition data_scope_created_by_expr :: "data_scope_identity \<Rightarrow> string option \<Rightarrow> bool \<Rightarrow> clause_expr" where
  "data_scope_created_by_expr i table derived =
     (if di_data_scope i = data_scope_self_user then
        (if di_user_id i \<le> 0 then deny_data_scope_expr table created_by_column
         else Eq (data_scope_column table created_by_column) (di_user_id i))
      else if di_data_scope i = data_scope_self_dept then
        (if di_dept_id i \<le> 0 then deny_data_scope_expr table created_by_column else created_by_in_dept_expr i table derived)
      else if di_data_scope i = data_scope_dept_and_children then
        (if di_dept_id i \<le> 0 then deny_data_scope_expr table created_by_column else created_by_in_dept_and_children_expr i table derived)
      else deny_data_scope_expr table created_by_column)"

subsection \<open>Statements\<close>

definition is_data_scope_dept_table :: "('m, 'r) schemas \<Rightarrow> ('m, 'r) statement \<Rightarrow> bool" where
  "is_data_scope_dept_table sc st =
     (if (case st_schema st of None \<Rightarrow> False | Some m \<Rightarrow> sc_table sc m = dept_table) then True else statement_uses_registered_table {dept_table} st)"

definition is_data_scope_user_table :: "('m, 'r) schemas \<Rightarrow> ('m, 'r) statement \<Rightarrow> bool" where
  "is_data_scope_user_table sc st =
     (if (case st_schema st of None \<Rightarrow> False | Some m \<Rightarrow> sc_table sc m = user_table) then True else statement_uses_registered_table {user_table} st)"

definition has_data_scope_created_by_field :: "('m, 'r) schemas \<Rightarrow> string set \<Rightarrow> ('m, 'r) statement \<Rightarrow> bool" where
  "has_data_scope_created_by_field sc tables st =
     (if (case st_schema st of None \<Rightarrow> False | Some m \<Rightarrow> sc_fields sc m created_by_column \<noteq> None) then True
      else statement_uses_registered_table tables st)"

definition data_scope_expr :: "('m, 'r) schemas \<Rightarrow> ('m, 'r) statement \<Rightarrow> data_scope_identity \<Rightarrow> clause_expr" where
  "data_scope_expr sc st i =
     (if is_data_scope_dept_table sc st then data_scope_dept_expr i None
      else data_scope_created_by_expr i None (is_data_scope_user_table sc st))"

definition is_data_scope_table_reference :: "string set \<Rightarrow> sql_table_reference \<Rightarrow> bool" where
  "is_data_scope_table_reference tables r =
     (if tr_name r = dept_table then True else if tr_name r = user_table then True else is_scoped_table_reference tables created_by_column r)"

definition data_scope_condition :: "data_scope_identity \<Rightarrow> sql_table_reference \<Rightarrow> clause_expr" where
  "data_scope_condition i r =
     (if tr_name r = dept_table then data_scope_dept_expr i (Some (tr_alias r)) else data_scope_created_by_expr i (Some (tr_alias r)) False)"

definition has_data_scope_join :: "('m, 'r) schemas \<Rightarrow> string set \<Rightarrow> ('m, 'r) statement \<Rightarrow> bool \<times> ('m, 'r) statement" where
  "has_data_scope_join sc tables st = has_scoped_join sc (is_data_scope_table_reference tables) st"

definition apply_data_scope_join_conditions ::
  "('m, 'r) schemas \<Rightarrow> data_scope_identity \<Rightarrow> string set \<Rightarrow> ('m, 'r) statement \<Rightarrow> (clause_expr list \<times> ('m, 'r) statement) res" where
  "apply_data_scope_join_conditions sc i tables st =
     apply_join_conditions sc (is_data_scope_table_reference tables) (data_scope_condition i) ''data_scope'' st"

definition has_main_scope :: "('m, 'r) schemas \<Rightarrow> string set \<Rightarrow> ('m, 'r) statement \<Rightarrow> bool" where
  "has_main_scope sc tables st = (is_data_scope_dept_table sc st \<or> is_data_scope_user_table sc st \<or> has_data_scope_created_by_field sc tables st)"

definition add_data_scope_where :: "('m, 'r) schemas \<Rightarrow> string set res \<Rightarrow> ('m, 'r) statement \<Rightarrow> ('m, 'r) statement res" where
  "add_data_scope_where sc tables st =
     (if should_skip_data_isolation st \<or> st_error st \<noteq> None then Inr st
      else case reject_unsafe_raw_statement st of
          (True, st) \<Rightarrow> Inr st
        | (False, st) \<Rightarrow>
            (case tables of
               Inl e \<Rightarrow> Inr (add_error e st)
             | Inr ts \<Rightarrow>
                 let main = has_main_scope sc ts st; (join, st) = has_data_scope_join sc ts st in
                 if st_error st \<noteq> None then Inr st
                 else if \<not> main \<and> \<not> join then Inr st
                 else let (i, scoped) = data_scope_for_statement st in
                   if \<not> scoped then Inr st
                   else let exprs = (if main then [data_scope_expr sc st i] else []) in
                     res_bind (apply_data_scope_join_conditions sc i ts st) (\<lambda>(more, st).
                       Inr (if exprs @ more \<noteq> [] then add_where (exprs @ more) st else st))))"

subsection \<open>What the scope lets through\<close>

text \<open>
  Departments see themselves, and their children with that scope; other tables go by the creator: oneself, or a subquery over the users of the department. Nothing
  is seen without a number of the user or department, or under an unknown scope.
\<close>

definition sees_dept :: "sql_row \<Rightarrow> string option \<Rightarrow> data_scope_identity \<Rightarrow> bool" where
  "sees_dept r table i \<longleftrightarrow> 0 < di_dept_id i \<and>
     (di_data_scope i \<in> {data_scope_self_user, data_scope_self_dept, data_scope_dept_and_children} \<and> row_int r (SqlCol table ''id'') = Some (di_dept_id i) \<or>
      di_data_scope i = data_scope_dept_and_children \<and> row_like r (SqlCol table ''path'') (''%/'' @ show_int (di_dept_id i) @ ''/%''))"

definition sees_created :: "sql_row \<Rightarrow> string option \<Rightarrow> bool \<Rightarrow> data_scope_identity \<Rightarrow> bool" where
  "sees_created r table derived i \<longleftrightarrow>
     di_data_scope i = data_scope_self_user \<and> 0 < di_user_id i \<and> row_int r (SqlCol table ''created_by'') = Some (di_user_id i) \<or>
     di_data_scope i = data_scope_self_dept \<and> 0 < di_dept_id i \<and> expr_holds r (created_by_in_dept_expr i table derived) \<or>
     di_data_scope i = data_scope_dept_and_children \<and> 0 < di_dept_id i \<and> expr_holds r (created_by_in_dept_and_children_expr i table derived)"

lemmas data_scopes = data_scope_unknown_def data_scope_all_def data_scope_dept_and_children_def data_scope_self_dept_def data_scope_self_user_def

lemma dept_expr_holds:
  "row_int r (SqlCol table ''id'') \<noteq> Some (- 1) \<Longrightarrow> expr_holds r (data_scope_dept_expr i table) \<longleftrightarrow> sees_dept r table i"
  by (auto simp: data_scope_dept_expr_def sees_dept_def deny_data_scope_expr_def data_scope_column_def dept_id_column_def dept_path_column_def
      dept_path_like_value_def clause_or_def data_scopes)

lemma created_expr_holds:
  "row_int r (SqlCol table ''created_by'') \<noteq> Some (- 1) \<Longrightarrow> expr_holds r (data_scope_created_by_expr i table derived) \<longleftrightarrow> sees_created r table derived i"
  by (auto simp: data_scope_created_by_expr_def sees_created_def deny_data_scope_expr_def data_scope_column_def created_by_column_def data_scopes)

lemma data_scope_expr_holds:
  assumes "row_int r (SqlCol None ''id'') \<noteq> Some (- 1)" "row_int r (SqlCol None ''created_by'') \<noteq> Some (- 1)"
  shows "expr_holds r (data_scope_expr sc st i) \<longleftrightarrow>
    (if is_data_scope_dept_table sc st then sees_dept r None i else sees_created r None (is_data_scope_user_table sc st) i)"
  using dept_expr_holds [OF assms(1)] created_expr_holds [OF assms(2)] by (simp add: data_scope_expr_def)


definition scope_query :: "clause_expr list \<Rightarrow> (unit, unit) statement" where
  "scope_query es = (sample_query [] es)\<lparr>st_auth := Some (Some ((sample_payload_of 7)\<lparr>up_data_scope := 4\<rparr>))\<rparr>"


end
