(* ===== verification/Sql_Models.thy ===== *)
theory Sql_Models
  imports Sql_Clause
begin

text \<open>
  The registry of models and the cache of what they say about isolation (database/gorm/internal/callback/models.go).

  \<open>schema.Parse\<close> is the parameter \<open>parse\<close>, from a naming strategy and a model to a schema. A session may be bound to a registry of its own,
  which is a pointer: its address identifies it in the cache. The version is a counter of 64 bits that is not exhausted. Reading the
  models and storing an entry are separate steps (\<open>cache_step\<close>), because the lock is not held in between.
\<close>

subsection \<open>Registries\<close>

record 'x model_registry =
  mg_models :: "'x list"
  mg_version :: nat

definition register_migrate_model :: "'x option \<Rightarrow> 'x model_registry \<Rightarrow> 'x model_registry" where
  "register_migrate_model x r =
     (case x of None \<Rightarrow> r | Some x \<Rightarrow> r\<lparr>mg_models := mg_models r @ [x], mg_version := mg_version r + 1\<rparr>)"

definition register_migrate_models :: "'x list \<Rightarrow> 'x model_registry \<Rightarrow> 'x model_registry" where
  "register_migrate_models xs r = (if xs = [] then r else r\<lparr>mg_models := mg_models r @ xs, mg_version := mg_version r + 1\<rparr>)"

record 'x migrate_registry =
  mr_models :: "'x list"
  mr_explicit :: bool
  mr_version :: nat

type_synonym 'x binding = "(nat \<times> 'x migrate_registry) option"

definition bind_models :: "nat \<Rightarrow> 'x list \<Rightarrow> bool \<Rightarrow> 'x binding" where
  "bind_models address xs explicit = Some (address, \<lparr>mr_models = xs, mr_explicit = explicit, mr_version = 1\<rparr>)"

definition get_migrate_models_snapshot :: "'x model_registry \<Rightarrow> 'x binding \<Rightarrow> 'x list \<times> nat" where
  "get_migrate_models_snapshot r b =
     (case b of
        None \<Rightarrow> (mg_models r, mg_version r)
      | Some (address, m) \<Rightarrow> if mr_explicit m then (mr_models m, mr_version m) else (mg_models r, mg_version r))"

definition migrate_models :: "'x model_registry \<Rightarrow> 'x binding \<Rightarrow> 'x list" where
  "migrate_models r b = fst (get_migrate_models_snapshot r b)"

text \<open>\<open>None\<close> is the marker of the global registry.\<close>

definition get_migrate_registry_identity :: "'x binding \<Rightarrow> nat option" where
  "get_migrate_registry_identity b = (case b of None \<Rightarrow> None | Some (address, m) \<Rightarrow> if mr_explicit m then Some address else None)"

subsection \<open>Isolation tables\<close>

definition audit_field_names :: "string list" where
  "audit_field_names = [''CreatedBy'', ''UpdatedBy'', ''CreatedAt'', ''UpdatedAt'']"

record audit_field_metadata =
  am_name :: string
  am_db_name :: string

record isolation_entry =
  ie_version :: nat
  ie_tenant_tables :: "string set"
  ie_data_scope_tables :: "string set"
  ie_audit_fields :: "string \<rightharpoonup> (string \<rightharpoonup> audit_field_metadata)"
  ie_err :: "go_err option"

definition empty_entry :: "nat \<Rightarrow> isolation_entry" where
  "empty_entry version = \<lparr>ie_version = version, ie_tenant_tables = {}, ie_data_scope_tables = {}, ie_audit_fields = Map.empty, ie_err = None\<rparr>"

definition add_audit_field :: "('m, 'r) schemas \<Rightarrow> 'm \<Rightarrow> string \<Rightarrow> isolation_entry \<Rightarrow> isolation_entry" where
  "add_audit_field sc m name e =
     (case sc_look_up sc m name of
        None \<Rightarrow> e
      | Some f \<Rightarrow>
          let fields = (case ie_audit_fields e (sc_table sc m) of None \<Rightarrow> Map.empty | Some fs \<Rightarrow> fs) in
          e\<lparr>ie_audit_fields := (ie_audit_fields e)(sc_table sc m \<mapsto> fields(name \<mapsto> \<lparr>am_name = sf_name f, am_db_name = sf_db_name f\<rparr>))\<rparr>)"

definition add_model :: "('m, 'r) schemas \<Rightarrow> 'm \<Rightarrow> isolation_entry \<Rightarrow> isolation_entry" where
  "add_model sc m e =
     (let e = (if sc_fields sc m ''tenant_id'' \<noteq> None then e\<lparr>ie_tenant_tables := insert (sc_table sc m) (ie_tenant_tables e)\<rparr> else e);
          e = (if sc_fields sc m ''created_by'' \<noteq> None then e\<lparr>ie_data_scope_tables := insert (sc_table sc m) (ie_data_scope_tables e)\<rparr> else e)
      in fold (add_audit_field sc m) audit_field_names e)"

fun build_entry :: "('m, 'r) schemas \<Rightarrow> ('x \<Rightarrow> 'm res) \<Rightarrow> isolation_entry \<Rightarrow> 'x list \<Rightarrow> isolation_entry" where
  "build_entry sc parse e [] = e"
| "build_entry sc parse e (x # xs) =
     (case parse x of Inl err \<Rightarrow> e\<lparr>ie_err := Some err\<rparr> | Inr m \<Rightarrow> build_entry sc parse (add_model sc m e) xs)"

type_synonym 'n isolation_cache = "nat option \<times> 'n \<rightharpoonup> isolation_entry"

text \<open>The lookup after the models were read: a cached entry of that version, or a new one, which is stored.\<close>

definition finish_lookup ::
  "('m, 'r) schemas \<Rightarrow> ('n \<Rightarrow> 'x \<Rightarrow> 'm res) \<Rightarrow> nat option \<times> 'n \<Rightarrow> 'x list \<times> nat \<Rightarrow> 'n isolation_cache \<Rightarrow> isolation_entry \<times> 'n isolation_cache" where
  "finish_lookup sc parse key snapshot cache =
     (let (xs, version) = snapshot; fresh = build_entry sc (parse (snd key)) (empty_entry version) xs in
      case cache key of
        Some e \<Rightarrow> if ie_version e = version then (e, cache) else (fresh, cache(key \<mapsto> fresh))
      | None \<Rightarrow> (fresh, cache(key \<mapsto> fresh)))"

definition get_isolation_table_cache_entry ::
  "('m, 'r) schemas \<Rightarrow> ('n \<Rightarrow> 'x \<Rightarrow> 'm res) \<Rightarrow> 'n \<Rightarrow> 'x model_registry \<Rightarrow> 'x binding \<Rightarrow> 'n isolation_cache \<Rightarrow> isolation_entry \<times> 'n isolation_cache" where
  "get_isolation_table_cache_entry sc parse naming r b cache =
     finish_lookup sc parse (get_migrate_registry_identity b, naming) (get_migrate_models_snapshot r b) cache"

text \<open>\<open>tenantTables\<close> and \<open>dataScopeTables\<close>.\<close>

definition tenant_tables :: "isolation_entry \<Rightarrow> string set res" where
  "tenant_tables e = (case ie_err e of Some err \<Rightarrow> Inl err | None \<Rightarrow> Inr (ie_tenant_tables e))"

definition data_scope_tables :: "isolation_entry \<Rightarrow> string set res" where
  "data_scope_tables e = (case ie_err e of Some err \<Rightarrow> Inl err | None \<Rightarrow> Inr (ie_data_scope_tables e))"

subsection \<open>Concurrent lookups\<close>

text \<open>A lookup in progress has its key and the models it read. \<open>cs_done\<close> records each finished lookup with what it read and got.\<close>

record ('x, 'n) cache_state =
  cs_registry :: "'x model_registry"
  cs_cache :: "'n isolation_cache"
  cs_pending :: "nat \<rightharpoonup> (nat option \<times> 'n) \<times> 'x list \<times> nat"
  cs_done :: "((nat option \<times> 'n) \<times> 'x list \<times> isolation_entry) list"

inductive cache_step :: "('m, 'r) schemas \<Rightarrow> ('n \<Rightarrow> 'x \<Rightarrow> 'm res) \<Rightarrow> (nat \<Rightarrow> 'x list) \<Rightarrow> ('x, 'n) cache_state \<Rightarrow> ('x, 'n) cache_state \<Rightarrow> bool"
  for sc :: "('m, 'r) schemas" and parse :: "'n \<Rightarrow> 'x \<Rightarrow> 'm res" and bound :: "nat \<Rightarrow> 'x list" where
  register_one: "cache_step sc parse bound s (s\<lparr>cs_registry := register_migrate_model x (cs_registry s)\<rparr>)"
| register_all: "cache_step sc parse bound s (s\<lparr>cs_registry := register_migrate_models xs (cs_registry s)\<rparr>)"
| begin_global: "cache_step sc parse bound s
    (s\<lparr>cs_pending := (cs_pending s)(t \<mapsto> ((get_migrate_registry_identity (None :: 'x binding), naming), get_migrate_models_snapshot (cs_registry s) None))\<rparr>)"
| begin_bound: "b = bind_models address (bound address) explicit \<Longrightarrow> cache_step sc parse bound s
    (s\<lparr>cs_pending := (cs_pending s)(t \<mapsto> ((get_migrate_registry_identity b, naming), get_migrate_models_snapshot (cs_registry s) b))\<rparr>)"
| finish: "cs_pending s t = Some (key, snapshot) \<Longrightarrow> finish_lookup sc parse key snapshot (cs_cache s) = (e, cache) \<Longrightarrow>
    cache_step sc parse bound s
      (s\<lparr>cs_pending := (cs_pending s)(t := None), cs_cache := cache, cs_done := cs_done s @ [(key, fst snapshot, e)]\<rparr>)"

definition cache_init :: "('x, 'n) cache_state" where
  "cache_init = \<lparr>cs_registry = \<lparr>mg_models = [], mg_version = 0\<rparr>, cs_cache = Map.empty, cs_pending = Map.empty, cs_done = []\<rparr>"

text \<open>\<open>hist\<close> gives the models of each version of the global registry; a bound registry has version 1 only.\<close>

definition models_of :: "(nat \<Rightarrow> 'x list) \<Rightarrow> (nat \<Rightarrow> 'x list) \<Rightarrow> nat option \<Rightarrow> nat \<Rightarrow> 'x list" where
  "models_of hist bound rid v = (case rid of None \<Rightarrow> hist v | Some a \<Rightarrow> bound a)"

definition fresh_entry :: "('m, 'r) schemas \<Rightarrow> ('n \<Rightarrow> 'x \<Rightarrow> 'm res) \<Rightarrow> 'n \<Rightarrow> nat \<Rightarrow> 'x list \<Rightarrow> isolation_entry" where
  "fresh_entry sc parse naming version xs = build_entry sc (parse naming) (empty_entry version) xs"

definition cache_inv :: "('m, 'r) schemas \<Rightarrow> ('n \<Rightarrow> 'x \<Rightarrow> 'm res) \<Rightarrow> (nat \<Rightarrow> 'x list) \<Rightarrow> (nat \<Rightarrow> 'x list) \<Rightarrow> ('x, 'n) cache_state \<Rightarrow> bool" where
  "cache_inv sc parse bound hist s \<longleftrightarrow>
     hist (mg_version (cs_registry s)) = mg_models (cs_registry s) \<and>
     (\<forall>rid n e. cs_cache s (rid, n) = Some e \<longrightarrow> (rid = None \<longrightarrow> ie_version e \<le> mg_version (cs_registry s)) \<and>
        e = fresh_entry sc parse n (ie_version e) (models_of hist bound rid (ie_version e))) \<and>
     (\<forall>t rid n xs v. cs_pending s t = Some ((rid, n), xs, v) \<longrightarrow> (rid = None \<longrightarrow> v \<le> mg_version (cs_registry s)) \<and> xs = models_of hist bound rid v) \<and>
     (\<forall>((rid, n), xs, e) \<in> set (cs_done s). \<exists>v. e = fresh_entry sc parse n v xs)"

lemma add_model_version [simp]: "ie_version (add_model sc m e) = ie_version e"
proof -
  have "ie_version (fold (add_audit_field sc m) ns e) = ie_version e" for ns e
    by (induction ns arbitrary: e) (auto simp: add_audit_field_def Let_def split: option.split)
  then show ?thesis by (simp add: add_model_def Let_def)
qed

lemma build_entry_version [simp]: "ie_version (build_entry sc parse e xs) = ie_version e"
  by (induction xs arbitrary: e) (auto split: sum.split)

lemma fresh_entry_version [simp]: "ie_version (fresh_entry sc parse n v xs) = v"
  by (simp add: fresh_entry_def empty_entry_def)

lemma finish_lookup_fresh:
  assumes "\<And>e. cache (rid, n) = Some e \<Longrightarrow> ie_version e = v \<Longrightarrow> e = fresh_entry sc parse n v xs"
    "finish_lookup sc parse (rid, n) (xs, v) cache = (e, cache')"
  shows "e = fresh_entry sc parse n v xs" "cache' = cache((rid, n) \<mapsto> e) \<or> cache' = cache \<and> cache (rid, n) = Some e"
  using assms by (auto simp: finish_lookup_def fresh_entry_def Let_def split: option.split_asm if_split_asm)

text \<open>Registering keeps the invariant: the new version is new in the history.\<close>

lemma cache_inv_register:
  assumes "cache_inv sc parse bound hist s" "mg_version r = mg_version (cs_registry s) + 1"
  shows "cache_inv sc parse bound (hist(mg_version r := mg_models r)) (s\<lparr>cs_registry := r\<rparr>)"
proof -
  have "models_of (hist(mg_version r := mg_models r)) bound rid v = models_of hist bound rid v"
    if "rid = None \<longrightarrow> v \<le> mg_version (cs_registry s)" for rid v
    using that assms(2) by (auto simp: models_of_def split: option.split)
  with assms show ?thesis unfolding cache_inv_def by fastforce
qed

lemma cache_inv_pending:
  assumes "cache_inv sc parse bound hist s" "rid = None \<longrightarrow> v \<le> mg_version (cs_registry s)" "xs = models_of hist bound rid v"
  shows "cache_inv sc parse bound hist (s\<lparr>cs_pending := (cs_pending s)(t \<mapsto> ((rid, n), xs, v))\<rparr>)"
  using assms unfolding cache_inv_def by auto

lemma cache_step_inv:
  assumes "cache_step sc parse bound s s'" "cache_inv sc parse bound hist s"
  shows "\<exists>hist. cache_inv sc parse bound hist s'"
proof -
  have now: "hist (mg_version (cs_registry s)) = mg_models (cs_registry s)" using assms(2) unfolding cache_inv_def by blast
  note global = cache_inv_pending [OF assms(2), of None "mg_version (cs_registry s)" "mg_models (cs_registry s)"]
  from assms(1) show ?thesis
  proof cases
    case (register_one x)
    then show ?thesis
      using assms(2) cache_inv_register [OF assms(2), of "register_migrate_model x (cs_registry s)"]
      by (cases x) (auto simp: register_migrate_model_def)
  next
    case (register_all xs)
    then show ?thesis
      using assms(2) cache_inv_register [OF assms(2), of "register_migrate_models xs (cs_registry s)"]
      by (cases xs) (auto simp: register_migrate_models_def)
  next
    case (begin_global t n)
    then show ?thesis using global now by (auto simp: get_migrate_registry_identity_def get_migrate_models_snapshot_def models_of_def)
  next
    case (begin_bound b address explicit t n)
    then show ?thesis using global now cache_inv_pending [OF assms(2), of "Some address" 1 "bound address"]
      by (cases explicit) (auto simp: get_migrate_registry_identity_def get_migrate_models_snapshot_def models_of_def bind_models_def intro!: exI [of _ hist])
  next
    case (finish t key snapshot e cache)
    obtain rid n where key: "key = (rid, n)" by fastforce
    obtain xs v where snapshot: "snapshot = (xs, v)" by fastforce
    have pending: "rid = None \<longrightarrow> v \<le> mg_version (cs_registry s)" "xs = models_of hist bound rid v"
      using finish(2) assms(2) unfolding cache_inv_def key snapshot by blast+
    have cached: "cs_cache s (rid, n) = Some e0 \<Longrightarrow> ie_version e0 = v \<Longrightarrow> e0 = fresh_entry sc parse n v xs" for e0
      using assms(2) pending(2) unfolding cache_inv_def by blast
    from finish_lookup_fresh [OF cached finish(3) [unfolded key snapshot]]
    have res: "e = fresh_entry sc parse n v xs" "cache = (cs_cache s)((rid, n) \<mapsto> e) \<or> cache = cs_cache s \<and> cs_cache s (rid, n) = Some e" by blast+
    have new: "(rid' = None \<longrightarrow> ie_version e' \<le> mg_version (cs_registry s)) \<and> e' = fresh_entry sc parse n' (ie_version e') (models_of hist bound rid' (ie_version e'))"
      if "cache (rid', n') = Some e'" for rid' n' e'
    proof (cases "rid' = rid \<and> n' = n \<and> e' = e")
      case True
      with pending res(1) show ?thesis by simp
    next
      case False
      with that res(2) have "cs_cache s (rid', n') = Some e'" by (auto split: if_split_asm)
      with assms(2) show ?thesis unfolding cache_inv_def by blast
    qed
    have "cache_inv sc parse bound hist s'"
      unfolding cache_inv_def finish(1)
    proof (intro conjI)
      show "\<forall>((rid, n), xs, e) \<in> set (cs_done (s\<lparr>cs_pending := (cs_pending s)(t := None), cs_cache := cache, cs_done := cs_done s @ [(key, fst snapshot, e)]\<rparr>)).
          \<exists>v. e = fresh_entry sc parse n v xs"
        using assms(2) res(1) unfolding cache_inv_def by (auto simp: key snapshot)
    qed (use assms(2) new in \<open>simp_all add: cache_inv_def\<close>)
    then show ?thesis by blast
  qed
qed


definition sample_lookup :: "(unit, unit) cache_state" where
  "sample_lookup = cache_init\<lparr>cs_registry := \<lparr>mg_models = [()], mg_version = 1\<rparr>, cs_pending := [0 \<mapsto> ((None, ()), [()], 1)]\<rparr>"

definition user_schemas :: "(unit, unit) schemas" where
  "user_schemas = \<lparr>sc_table = (\<lambda>m. ''user''), sc_fields = (\<lambda>m. [''tenant_id'' \<mapsto> \<lparr>sf_name = ''TenantID'', sf_db_name = ''tenant_id'', sf_value_of = (\<lambda>r. (FNil, True)),
     sf_set = (\<lambda>r v. Inr r)\<rparr>]), sc_look_up = (\<lambda>m. Map.empty), sc_relation = (\<lambda>m. Map.empty)\<rparr>"


text \<open>A registry that gets the address of an earlier one gets its tables too.\<close>

lemma reused_address:
  assumes "get_isolation_table_cache_entry sc parse n r (bind_models a xs True) cache = (e, cache')" "cache (Some a, n) = None"
  shows "fst (get_isolation_table_cache_entry sc parse n r (bind_models a ys True) cache') = e"
  using assms by (auto simp: get_isolation_table_cache_entry_def finish_lookup_def get_migrate_registry_identity_def get_migrate_models_snapshot_def
      bind_models_def empty_entry_def Let_def)

end
