(* ===== verification/Sql_Audit.thy ===== *)
theory Sql_Audit
  imports Sql_Models Sql_Tenant
begin

text \<open>
  The audit fields of new and changed records (database/gorm/internal/callback/audit.go). \<open>entry\<close> is what the cache of \<open>Sql_Models\<close> gives for the statement,
  \<open>now\<close> the current time.
\<close>

definition audit_exclude_tables :: "string list" where "audit_exclude_tables = [''base_log'']"

definition get_user_id_from_context :: "user_payload option option \<Rightarrow> int \<times> bool" where
  "get_user_id_from_context ctx = (case ctx of Some (Some info) \<Rightarrow> (up_user_id info, True) | _ \<Rightarrow> (0, False))"

text \<open>\<open>reflect.ValueOf(v).IsZero()\<close>, with nil counted as zero.\<close>

definition zero_value :: "field_value \<Rightarrow> bool" where
  "zero_value v = (case v of FNil \<Rightarrow> True | FPtr p \<Rightarrow> p = None | FInt i \<Rightarrow> i = 0 | FUint n \<Rightarrow> n = 0 | FStr s \<Rightarrow> s = [] | FTime t \<Rightarrow> t = 0 | FOther z \<Rightarrow> z)"

definition get_registered_audit_field :: "isolation_entry \<Rightarrow> ('m, 'r) statement \<Rightarrow> string \<Rightarrow> audit_field_metadata option res" where
  "get_registered_audit_field entry st name =
     (case ie_err entry of
        Some e \<Rightarrow> Inl e
      | None \<Rightarrow>
          (case ie_audit_fields entry (st_table st) of
             Some fs \<Rightarrow> Inr (fs name)
           | None \<Rightarrow>
               (case st_table_expr st of
                  None \<Rightarrow> Inr None
                | Some sql \<Rightarrow>
                    (case first_field sql of
                       None \<Rightarrow> Inr None
                     | Some f \<Rightarrow> (case ie_audit_fields entry (normalize_raw_sql_identifier (st_dialect st) f) of
                           None \<Rightarrow> Inr None
                         | Some fs \<Rightarrow> Inr (fs name))))))"

definition set_map_item :: "string \<Rightarrow> string \<Rightarrow> field_value \<Rightarrow> bool \<Rightarrow> map_item \<Rightarrow> map_item" where
  "set_map_item field column v only_zero item =
     (case item of
        None \<Rightarrow> None
      | Some m \<Rightarrow>
          (case m column of
             Some current \<Rightarrow> Some (if \<not> only_zero \<or> zero_value current then m(column \<mapsto> v) else m)
           | None \<Rightarrow>
               (case m field of
                  Some current \<Rightarrow> Some (if \<not> only_zero \<or> zero_value current then m(field \<mapsto> v) else m)
                | None \<Rightarrow> Some (m(column \<mapsto> v)))))"

definition set_map_column :: "string \<Rightarrow> string \<Rightarrow> field_value \<Rightarrow> bool \<Rightarrow> 'r sql_dest \<Rightarrow> bool \<times> 'r sql_dest" where
  "set_map_column field column v only_zero d =
     (let put = set_map_item field column v only_zero in
      case d of
        DMap i \<Rightarrow> (True, DMap (put i))
      | DMapRef i \<Rightarrow> (True, DMapRef (map_option put i))
      | DMaps is \<Rightarrow> (True, DMaps (map put is))
      | DMapsRef is \<Rightarrow> (True, DMapsRef (map_option (map put) is))
      | DValue r \<Rightarrow> (False, d))"

fun set_struct_column :: "'r schema_field \<Rightarrow> field_value \<Rightarrow> bool \<Rightarrow> 'r rval \<Rightarrow> ('m, 'r) statement \<Rightarrow> 'r rval \<times> ('m, 'r) statement"
  and set_struct_columns :: "'r schema_field \<Rightarrow> field_value \<Rightarrow> bool \<Rightarrow> 'r rval list \<Rightarrow> ('m, 'r) statement \<Rightarrow> 'r rval list \<times> ('m, 'r) statement" where
  "set_struct_column f x only_zero (RRef v) st = (let (v, st) = set_struct_column f x only_zero v st in (RRef v, st))"
| "set_struct_column f x only_zero (RStruct r) st =
     (if st_error st \<noteq> None then (RStruct r, st)
      else if \<not> only_zero \<or> snd (sf_value_of f r) then
        (case sf_set f r x of Inl e \<Rightarrow> (RStruct r, add_error e st) | Inr r' \<Rightarrow> (RStruct r', st))
      else (RStruct r, st))"
| "set_struct_column f x only_zero (RList vs) st =
     (if st_error st \<noteq> None then (RList vs, st) else let (vs, st) = set_struct_columns f x only_zero vs st in (RList vs, st))"
| "set_struct_column f x only_zero v st = (v, st)"
| "set_struct_columns f x only_zero [] st = ([], st)"
| "set_struct_columns f x only_zero (v # vs) st =
     (let (v, st) = set_struct_column f x only_zero v st; (vs, st) = set_struct_columns f x only_zero vs st in (v # vs, st))"

definition set_audit_column ::
  "('m, 'r) schemas \<Rightarrow> isolation_entry \<Rightarrow> string \<Rightarrow> field_value \<Rightarrow> bool \<Rightarrow> ('m, 'r) statement \<Rightarrow> ('m, 'r) statement" where
  "set_audit_column sc entry name v only_zero st =
     (if st_error st \<noteq> None then st
      else case st_schema st of
          None \<Rightarrow>
            (case get_registered_audit_field entry st name of
               Inl e \<Rightarrow> add_error e st
             | Inr None \<Rightarrow> st
             | Inr (Some meta) \<Rightarrow> st\<lparr>st_dest := snd (set_map_column (am_name meta) (am_db_name meta) v only_zero (st_dest st))\<rparr>)
        | Some m \<Rightarrow>
            (case sc_look_up sc m name of
               None \<Rightarrow> st
             | Some f \<Rightarrow>
                 (case set_map_column (sf_name f) (sf_db_name f) v only_zero (st_dest st) of
                    (True, d) \<Rightarrow> st\<lparr>st_dest := d\<rparr>
                  | (False, d) \<Rightarrow>
                      (let (r, st) = set_struct_column f v only_zero (dest_value (st_dest st)) st in st\<lparr>st_dest := DValue r\<rparr>))))"

definition fill_created_fields :: "('m, 'r) schemas \<Rightarrow> isolation_entry \<Rightarrow> int \<Rightarrow> ('m, 'r) statement \<Rightarrow> ('m, 'r) statement" where
  "fill_created_fields sc entry now st =
     (if st_table st \<in> set audit_exclude_tables then st
      else let (user, has_token) = get_user_id_from_context (st_auth st);
               st = (if has_token then
                       let st = set_audit_column sc entry ''CreatedBy'' (FInt user) True st in set_audit_column sc entry ''UpdatedBy'' (FInt user) True st
                     else st);
               st = set_audit_column sc entry ''CreatedAt'' (FTime now) True st
           in set_audit_column sc entry ''UpdatedAt'' (FTime now) True st)"

definition fill_updated_fields :: "('m, 'r) schemas \<Rightarrow> isolation_entry \<Rightarrow> int \<Rightarrow> ('m, 'r) statement \<Rightarrow> ('m, 'r) statement" where
  "fill_updated_fields sc entry now st =
     (if st_table st \<in> set audit_exclude_tables then st
      else let (user, has_token) = get_user_id_from_context (st_auth st);
               st = (if has_token then set_audit_column sc entry ''UpdatedBy'' (FInt user) False st else st)
           in set_audit_column sc entry ''UpdatedAt'' (FTime now) False st)"

subsection \<open>Fields keep what was set\<close>

text \<open>Creating keeps a value of the record that is not zero; updating replaces any. A map has the value under one of its two keys.\<close>

lemma map_item_written:
  "set_map_item field column v only_zero (Some m) = Some m' \<Longrightarrow> column \<noteq> field \<Longrightarrow>
     (case (m column, m field) of
        (Some c, _) \<Rightarrow> m' column = Some (if only_zero \<and> \<not> zero_value c then c else v) \<and> m' field = m field
      | (None, Some c) \<Rightarrow> m' field = Some (if only_zero \<and> \<not> zero_value c then c else v) \<and> m' column = None
      | (None, None) \<Rightarrow> m' column = Some v \<and> m' field = None) \<and>
     (\<forall>k. k \<noteq> column \<longrightarrow> k \<noteq> field \<longrightarrow> m' k = m k)"
  by (auto simp: set_map_item_def split: option.split_asm if_split_asm)

end
