(* ===== verification/Sql_Callbacks.thy ===== *)
theory Sql_Callbacks
  imports Sql_Project Sql_Data_Scope Sql_Audit
begin

text \<open>
  The callbacks of a database (database/gorm/internal/callback/registry.go and install.go): the custom ones registered before, and those that are installed,
  with their place in the chain. A handler is a name here; \<open>run_handler\<close> gives the built-in ones. GORM orders a chain by the places, which is
  a parameter: \<open>register\<close> adds a callback to it or fails.
\<close>

subsection \<open>Registered callbacks\<close>

datatype handler = AddDataScopeWhere | AddTenantWhere | RejectRawDataIsolation | FillCreatedFields | FillTenantID | FillUpdatedFields | Custom nat

record callback_definition =
  cd_operation :: string
  cd_name :: string
  cd_before :: string
  cd_after :: string
  cd_handler :: handler

text \<open>A handler that is nil is left out; the name counts the callbacks registered so far.\<close>

fun register_custom_callbacks :: "string \<Rightarrow> string \<Rightarrow> string \<Rightarrow> handler option list \<Rightarrow> callback_definition list \<Rightarrow> callback_definition list" where
  "register_custom_callbacks op bef aft [] cs = cs"
| "register_custom_callbacks op bef aft (h # hs) cs =
     (case h of
        None \<Rightarrow> register_custom_callbacks op bef aft hs cs
      | Some h \<Rightarrow> register_custom_callbacks op bef aft hs
          (cs @ [\<lparr>cd_operation = op, cd_name = ''kratos:custom:'' @ op @ '':'' @ show_nat (length cs), cd_before = bef, cd_after = aft, cd_handler = h\<rparr>]))"

definition register_callback_query :: "handler option \<Rightarrow> callback_definition list \<Rightarrow> callback_definition list" where
  "register_callback_query h = register_custom_callbacks ''query'' ''gorm:query'' [] [h]"
definition register_callback_queries :: "handler option list \<Rightarrow> callback_definition list \<Rightarrow> callback_definition list" where
  "register_callback_queries hs = register_custom_callbacks ''query'' ''gorm:query'' [] hs"
definition register_callback_query_after :: "handler option \<Rightarrow> callback_definition list \<Rightarrow> callback_definition list" where
  "register_callback_query_after h = register_custom_callbacks ''query'' [] ''gorm:after_query'' [h]"
definition register_callback_row :: "handler option \<Rightarrow> callback_definition list \<Rightarrow> callback_definition list" where
  "register_callback_row h = register_custom_callbacks ''row'' ''gorm:row'' [] [h]"
definition register_callback_raw :: "handler option \<Rightarrow> callback_definition list \<Rightarrow> callback_definition list" where
  "register_callback_raw h = register_custom_callbacks ''raw'' ''gorm:raw'' [] [h]"
definition register_callback_create :: "handler option \<Rightarrow> callback_definition list \<Rightarrow> callback_definition list" where
  "register_callback_create h = register_custom_callbacks ''create'' ''gorm:before_create'' [] [h]"
definition register_callback_creates :: "handler option list \<Rightarrow> callback_definition list \<Rightarrow> callback_definition list" where
  "register_callback_creates hs = register_custom_callbacks ''create'' ''gorm:before_create'' [] hs"
definition register_callback_create_after :: "handler option \<Rightarrow> callback_definition list \<Rightarrow> callback_definition list" where
  "register_callback_create_after h = register_custom_callbacks ''create'' ''gorm:commit_or_rollback_transaction'' ''gorm:after_create'' [h]"
definition register_callback_update :: "handler option \<Rightarrow> callback_definition list \<Rightarrow> callback_definition list" where
  "register_callback_update h = register_custom_callbacks ''update'' ''gorm:before_update'' [] [h]"
definition register_callback_updates :: "handler option list \<Rightarrow> callback_definition list \<Rightarrow> callback_definition list" where
  "register_callback_updates hs = register_custom_callbacks ''update'' ''gorm:before_update'' [] hs"
definition register_callback_update_after :: "handler option \<Rightarrow> callback_definition list \<Rightarrow> callback_definition list" where
  "register_callback_update_after h = register_custom_callbacks ''update'' ''gorm:commit_or_rollback_transaction'' ''gorm:after_update'' [h]"
definition register_callback_delete :: "handler option \<Rightarrow> callback_definition list \<Rightarrow> callback_definition list" where
  "register_callback_delete h = register_custom_callbacks ''delete'' ''gorm:delete'' [] [h]"
definition register_callback_deletes :: "handler option list \<Rightarrow> callback_definition list \<Rightarrow> callback_definition list" where
  "register_callback_deletes hs = register_custom_callbacks ''delete'' ''gorm:delete'' [] hs"
definition register_callback_delete_after :: "handler option \<Rightarrow> callback_definition list \<Rightarrow> callback_definition list" where
  "register_callback_delete_after h = register_custom_callbacks ''delete'' ''gorm:commit_or_rollback_transaction'' ''gorm:after_delete'' [h]"
definition register_callback_update_before :: "string \<Rightarrow> handler option \<Rightarrow> callback_definition list \<Rightarrow> callback_definition list" where
  "register_callback_update_before anchor h = register_custom_callbacks ''update'' (if anchor = [] then ''gorm:before_update'' else anchor) [] [h]"

subsection \<open>Installation\<close>

abbreviation callback :: "string \<Rightarrow> string \<Rightarrow> string \<Rightarrow> string \<Rightarrow> handler \<Rightarrow> callback_definition" where
  "callback op name bef aft h \<equiv> \<lparr>cd_operation = op, cd_name = name, cd_before = bef, cd_after = aft, cd_handler = h\<rparr>"

definition builtin_callbacks :: "callback_definition list" where
  "builtin_callbacks =
     [callback ''query'' ''kratos:data_scope:query'' ''gorm:query'' [] AddDataScopeWhere,
      callback ''query'' ''kratos:tenant:query'' ''gorm:query'' ''kratos:data_scope:query'' AddTenantWhere,
      callback ''row'' ''kratos:data_scope:row'' ''gorm:row'' [] AddDataScopeWhere,
      callback ''row'' ''kratos:tenant:row'' ''gorm:row'' ''kratos:data_scope:row'' AddTenantWhere,
      callback ''raw'' ''kratos:isolation:raw'' ''gorm:raw'' [] RejectRawDataIsolation,
      callback ''create'' ''kratos:audit:create'' ''gorm:before_create'' [] FillCreatedFields,
      callback ''create'' ''kratos:tenant:create'' ''gorm:before_create'' ''kratos:audit:create'' FillTenantID,
      callback ''update'' ''kratos:audit:update'' ''gorm:before_update'' [] FillUpdatedFields,
      callback ''update'' ''kratos:data_scope:update'' ''gorm:update'' ''gorm:before_update'' AddDataScopeWhere,
      callback ''update'' ''kratos:tenant:update'' ''gorm:update'' ''kratos:data_scope:update'' AddTenantWhere,
      callback ''delete'' ''kratos:data_scope:delete'' ''gorm:delete'' [] AddDataScopeWhere,
      callback ''delete'' ''kratos:tenant:delete'' ''gorm:delete'' ''kratos:data_scope:delete'' AddTenantWhere]"

definition callback_operations :: "string list" where
  "callback_operations = [''query'', ''row'', ''raw'', ''create'', ''update'', ''delete'']"

fun install_callbacks :: "(callback_definition \<Rightarrow> 'g \<Rightarrow> 'g res) \<Rightarrow> callback_definition list \<Rightarrow> 'g \<Rightarrow> go_err option \<times> 'g" where
  "install_callbacks register [] g = (None, g)"
| "install_callbacks register (d # ds) g =
     (if cd_operation d \<notin> set callback_operations then (Some (NewErr (''unsupported callback operation: '' @ cd_operation d)), g)
      else case register d g of
          Inl e \<Rightarrow> (Some (WrapErr (''register callback '' @ cd_name d) e), g)
        | Inr g \<Rightarrow> install_callbacks register ds g)"

definition install :: "(callback_definition \<Rightarrow> 'g \<Rightarrow> 'g res) \<Rightarrow> callback_definition list \<Rightarrow> 'g \<Rightarrow> go_err option \<times> 'g" where
  "install register customs g = install_callbacks register (builtin_callbacks @ customs) g"

text \<open>The project callbacks come after those of the tenant, except for creating.\<close>

definition project_callbacks :: "(string \<times> string \<times> string \<times> string) list" where
  "project_callbacks =
     [(''query'', ''kratos:project:query'', ''gorm:query'', ''kratos:tenant:query''),
      (''row'', ''kratos:project:row'', ''gorm:row'', ''kratos:tenant:row''),
      (''update'', ''kratos:project:update'', ''gorm:update'', ''kratos:tenant:update''),
      (''delete'', ''kratos:project:delete'', ''gorm:delete'', ''kratos:tenant:delete''),
      (''raw'', ''kratos:project:raw'', ''gorm:raw'', ''kratos:isolation:raw''),
      (''create'', ''kratos:project:create'', ''gorm:create'', ''gorm:before_create'')]"

text \<open>The built-in handlers. Custom ones are parameters.\<close>

definition run_handler ::
  "('m, 'r) schemas \<Rightarrow> isolation_entry \<Rightarrow> int \<Rightarrow> (nat \<Rightarrow> ('m, 'r) statement \<Rightarrow> ('m, 'r) statement res) \<Rightarrow> handler \<Rightarrow> ('m, 'r) statement \<Rightarrow> ('m, 'r) statement res" where
  "run_handler sc entry now custom h st = (case h of
       AddDataScopeWhere \<Rightarrow> add_data_scope_where sc (data_scope_tables entry) st
     | AddTenantWhere \<Rightarrow> add_tenant_where sc (tenant_tables entry) st
     | RejectRawDataIsolation \<Rightarrow> Inr (reject_raw_data_isolation st)
     | FillCreatedFields \<Rightarrow> Inr (fill_created_fields sc entry now st)
     | FillTenantID \<Rightarrow> Inr (fill_tenant_id sc (tenant_tables entry) st)
     | FillUpdatedFields \<Rightarrow> Inr (fill_updated_fields sc entry now st)
     | Custom i \<Rightarrow> custom i st)"

lemma register_appends: "\<exists>new. register_custom_callbacks op bef aft hs cs = cs @ new \<and> length new = length (filter (\<lambda>h. h \<noteq> None) hs)"
proof (induction hs arbitrary: cs)
  case (Cons h hs)
  show ?case
  proof (cases h)
    case None
    with Cons show ?thesis by simp
  next
    case (Some g)
    let ?d = "callback op (''kratos:custom:'' @ op @ '':'' @ show_nat (length cs)) bef aft g"
    obtain new where "register_custom_callbacks op bef aft hs (cs @ [?d]) = cs @ ?d # new" "length new = length (filter (\<lambda>h. h \<noteq> None) hs)"
      using Cons [of "cs @ [?d]"] by auto
    then show ?thesis using Some by (intro exI [of _ "?d # new"]) simp
  qed
qed simp

lemma installed_all:
  assumes "\<And>d g. register d g = Inr (g @ [d])" "\<forall>d \<in> set cs. cd_operation d \<in> set callback_operations"
  shows "install register cs [] = (None, builtin_callbacks @ cs)"
proof -
  have "install_callbacks register ds g = (None, g @ ds)" if "\<forall>d \<in> set ds. cd_operation d \<in> set callback_operations" for ds g
    using that assms(1) by (induction ds arbitrary: g) auto
  note all = this
  have "\<forall>d \<in> set builtin_callbacks. cd_operation d \<in> set callback_operations" by (simp add: builtin_callbacks_def callback_operations_def)
  with assms(2) have "\<forall>d \<in> set (builtin_callbacks @ cs). cd_operation d \<in> set callback_operations" by auto
  from all [OF this, of "[]"] show ?thesis by (simp add: install_def)
qed

end
