(* ===== verification/Memory_Queue.thy ===== *)
theory Memory_Queue
  imports Go_Base "HOL-Library.Multiset"
begin

text \<open>
  The in-memory queue (queue/memory/memory.go) without its delayed messages, which \<open>Memory_Queue_Delayed\<close> adds.

  Calls, senders and consumers are goroutines; each function is what one of them does in one atomic step, and \<open>worker_step\<close> and \<open>client_step\<close>
  interleave them. \<open>Append\<close> has two steps, because its read lock is shared. A writer's critical section is one step that needs the
  absence of readers. Channels are addressed by numbers. A step that would block is a step that is not possible yet; where a \<open>select\<close> has
  several ready cases each is a step.

  An accepted message gets a serial number, and the histories \<open>mq_accepted\<close>, \<open>mq_calls\<close> and \<open>mq_settled\<close> record what became of it: nothing
  of the program reads them. A consumer function is any outcome of each call, and it returns. The pause before a retry is a step that may come at any time.
\<close>

subsection \<open>State\<close>

record 'v message =
  ms_id :: string
  ms_values :: 'v
  ms_error_count :: int

type_synonym 'v item = "nat \<times> 'v message"

datatype caller = Client | TimerLoop

record 'v append_call =
  ac_caller :: caller
  ac_stream :: string
  ac_message :: "'v message"
  ac_found :: "nat option"

datatype 'v phase = Receiving | Handling "'v item" | Backoff "'v item" | Requeueing "'v item" | Stopped

record 'v consumer =
  cn_name :: string
  cn_chan :: nat
  cn_phase :: "'v phase"

datatype outcome = Processed | GivenUp | Dropped

record 'v accepted =
  am_stream :: string
  am_chan :: nat
  am_message :: "'v message"

record 'v mem_queue =
  mq_cap :: nat
  mq_queue :: "string \<rightharpoonup> nat"
  mq_chans :: "'v item list list"
  mq_closed :: bool
  mq_running :: bool
  mq_wait :: int
  mq_stopping :: nat
  mq_releasing :: nat
  mq_appends :: "'v append_call list"
  mq_senders :: "(nat \<times> 'v item) list"
  mq_consumers :: "'v consumer list"
  mq_accepted :: "'v accepted list"
  mq_calls :: "(nat \<times> int) list"
  mq_settled :: "(outcome \<times> 'v item) list"

definition new_memory :: "int \<Rightarrow> 'v mem_queue" where
  "new_memory pool = \<lparr>mq_cap = nat pool, mq_queue = Map.empty, mq_chans = [], mq_closed = False, mq_running = False, mq_wait = 0,
     mq_stopping = 0, mq_releasing = 0, mq_appends = [], mq_senders = [], mq_consumers = [], mq_accepted = [], mq_calls = [], mq_settled = []\<rparr>"

definition remove_nth :: "nat \<Rightarrow> 'a list \<Rightarrow> 'a list" where
  "remove_nth k xs = take k xs @ drop (Suc k) xs"

definition set_phase :: "nat \<Rightarrow> 'v phase \<Rightarrow> 'v mem_queue \<Rightarrow> 'v mem_queue" where
  "set_phase i p s = s\<lparr>mq_consumers := (mq_consumers s)[i := (mq_consumers s ! i)\<lparr>cn_phase := p\<rparr>]\<rparr>"

definition settle :: "outcome \<Rightarrow> 'v item \<Rightarrow> 'v mem_queue \<Rightarrow> 'v mem_queue" where
  "settle r it s = s\<lparr>mq_settled := (r, it) # mq_settled s\<rparr>"

definition push_chan :: "nat \<Rightarrow> 'v item \<Rightarrow> 'v mem_queue \<Rightarrow> 'v mem_queue" where
  "push_chan c it s = s\<lparr>mq_chans := (mq_chans s)[c := (mq_chans s ! c) @ [it]]\<rparr>"

subsection \<open>Calls of clients\<close>

definition make_queue :: "'v mem_queue \<Rightarrow> nat \<times> 'v mem_queue" where
  "make_queue s = (length (mq_chans s), s\<lparr>mq_chans := mq_chans s @ [[]]\<rparr>)"

text \<open>\<open>Load\<close> and, when there is none, the channel that is stored for a stream.\<close>

definition find_queue :: "nat option \<Rightarrow> string \<Rightarrow> 'v mem_queue \<Rightarrow> nat \<times> 'v mem_queue" where
  "find_queue found stream s =
     (case found of
        Some c \<Rightarrow> (c, s)
      | None \<Rightarrow> (case make_queue s of (c, s) \<Rightarrow> (c, s\<lparr>mq_queue := (mq_queue s)(stream \<mapsto> c)\<rparr>)))"

definition err_queue_closed :: go_err where "err_queue_closed = NewErr ''queue is shut down''"

definition append_load :: "caller \<Rightarrow> string \<Rightarrow> 'v message \<Rightarrow> 'v mem_queue \<Rightarrow> go_err option \<times> 'v mem_queue" where
  "append_load w stream m s =
     (if mq_closed s then (Some err_queue_closed, s)
      else (None, s\<lparr>mq_appends := mq_appends s @ [\<lparr>ac_caller = w, ac_stream = stream, ac_message = m, ac_found = mq_queue s stream\<rparr>]\<rparr>))"

text \<open>The rest of \<open>Append\<close>, with a fresh identifier \<open>u\<close> for a message that has none.\<close>

definition append_store :: "nat \<Rightarrow> string \<Rightarrow> 'v mem_queue \<Rightarrow> 'v mem_queue" where
  "append_store k u s =
     (let a = mq_appends s ! k; m = ac_message a; m = (if length (ms_id m) = 0 then m\<lparr>ms_id := u\<rparr> else m) in
      case find_queue (ac_found a) (ac_stream a) s of
        (c, s) \<Rightarrow> s\<lparr>mq_appends := remove_nth k (mq_appends s), mq_senders := mq_senders s @ [(c, (length (mq_accepted s), m))],
                     mq_accepted := mq_accepted s @ [\<lparr>am_stream = ac_stream a, am_chan = c, am_message = m\<rparr>]\<rparr>)"

definition register_consumer :: "string \<Rightarrow> 'v mem_queue \<Rightarrow> 'v mem_queue" where
  "register_consumer name s =
     (if mq_closed s then s
      else case find_queue (mq_queue s name) name s of
        (c, s) \<Rightarrow> s\<lparr>mq_consumers := mq_consumers s @ [\<lparr>cn_name = name, cn_chan = c, cn_phase = Receiving\<rparr>]\<rparr>)"

definition run_begin :: "'v mem_queue \<Rightarrow> 'v mem_queue" where
  "run_begin s = (if mq_closed s \<or> mq_running s then s else s\<lparr>mq_running := True, mq_wait := mq_wait s + 1\<rparr>)"

text \<open>\<open>Shutdown\<close>: closing under the lock, then the exchange of the flag, then \<open>Done\<close>.\<close>

definition shutdown_close :: "'v mem_queue \<Rightarrow> 'v mem_queue" where
  "shutdown_close s = s\<lparr>mq_closed := True, mq_stopping := mq_stopping s + 1\<rparr>"

definition shutdown_swap :: "'v mem_queue \<Rightarrow> 'v mem_queue" where
  "shutdown_swap s =
     (let s = s\<lparr>mq_stopping := mq_stopping s - 1\<rparr>
      in if mq_running s then s\<lparr>mq_running := False, mq_releasing := mq_releasing s + 1\<rparr> else s)"

definition shutdown_done :: "'v mem_queue \<Rightarrow> 'v mem_queue" where
  "shutdown_done s = s\<lparr>mq_releasing := mq_releasing s - 1, mq_wait := mq_wait s - 1\<rparr>"

text \<open>\<open>Wait\<close> returns when the consumers have ended, \<open>Run\<close> when also its own count is zero.\<close>

definition wait_returns :: "'v mem_queue \<Rightarrow> bool" where
  "wait_returns s = list_all (\<lambda>c. cn_phase c = Stopped) (mq_consumers s)"

definition run_returns :: "'v mem_queue \<Rightarrow> bool" where
  "run_returns s = (mq_wait s = 0 \<and> wait_returns s)"

subsection \<open>Senders and consumers\<close>

definition sender_send :: "nat \<Rightarrow> 'v mem_queue \<Rightarrow> 'v mem_queue" where
  "sender_send k s = (case mq_senders s ! k of (c, it) \<Rightarrow> push_chan c it (s\<lparr>mq_senders := remove_nth k (mq_senders s)\<rparr>))"

definition start_handling :: "nat \<Rightarrow> 'v item \<Rightarrow> 'v mem_queue \<Rightarrow> 'v mem_queue" where
  "start_handling i it s = set_phase i (Handling it) (s\<lparr>mq_calls := mq_calls s @ [(fst it, ms_error_count (snd it))]\<rparr>)"

definition sender_hand :: "nat \<Rightarrow> nat \<Rightarrow> 'v mem_queue \<Rightarrow> 'v mem_queue" where
  "sender_hand k i s = start_handling i (snd (mq_senders s ! k)) (s\<lparr>mq_senders := remove_nth k (mq_senders s)\<rparr>)"

definition sender_quit :: "nat \<Rightarrow> 'v mem_queue \<Rightarrow> 'v mem_queue" where
  "sender_quit k s = settle Dropped (snd (mq_senders s ! k)) (s\<lparr>mq_senders := remove_nth k (mq_senders s)\<rparr>)"

definition consume_receive :: "nat \<Rightarrow> 'v mem_queue \<Rightarrow> 'v mem_queue" where
  "consume_receive i s =
     (let c = cn_chan (mq_consumers s ! i); q = mq_chans s ! c
      in start_handling i (hd q) (s\<lparr>mq_chans := (mq_chans s)[c := tl q]\<rparr>))"

text \<open>The function has returned, with an error if \<open>failed\<close>.\<close>

definition consume_returned :: "bool \<Rightarrow> nat \<Rightarrow> 'v item \<Rightarrow> 'v mem_queue \<Rightarrow> 'v mem_queue" where
  "consume_returned failed i it s =
     (if \<not> failed then settle Processed it (set_phase i Receiving s)
      else if 3 \<le> ms_error_count (snd it) then settle GivenUp it (set_phase i Receiving s)
      else set_phase i (Backoff (fst it, (snd it)\<lparr>ms_error_count := ms_error_count (snd it) + 1\<rparr>)) s)"

definition requeue_send :: "nat \<Rightarrow> 'v item \<Rightarrow> 'v mem_queue \<Rightarrow> 'v mem_queue" where
  "requeue_send i it s = push_chan (cn_chan (mq_consumers s ! i)) it (set_phase i Receiving s)"

definition requeue_hand :: "nat \<Rightarrow> nat \<Rightarrow> 'v item \<Rightarrow> 'v mem_queue \<Rightarrow> 'v mem_queue" where
  "requeue_hand i j it s = start_handling j it (set_phase i Receiving s)"

definition consume_quit :: "nat \<Rightarrow> 'v mem_queue \<Rightarrow> 'v mem_queue" where
  "consume_quit i s = set_phase i Stopped s"

definition consume_drop :: "nat \<Rightarrow> 'v item \<Rightarrow> 'v mem_queue \<Rightarrow> 'v mem_queue" where
  "consume_drop i it s = settle Dropped it (set_phase i Stopped s)"

subsection \<open>Steps\<close>

definition at_phase :: "'v mem_queue \<Rightarrow> nat \<Rightarrow> 'v phase \<Rightarrow> bool" where
  "at_phase s i p = (i < length (mq_consumers s) \<and> cn_phase (mq_consumers s ! i) = p)"

definition chan_of :: "'v mem_queue \<Rightarrow> nat \<Rightarrow> nat" where
  "chan_of s i = cn_chan (mq_consumers s ! i)"

definition has_room :: "'v mem_queue \<Rightarrow> nat \<Rightarrow> bool" where
  "has_room s c = (length (mq_chans s ! c) < mq_cap s)"

text \<open>A send on a channel without a buffer meets a receiver.\<close>

definition meets :: "'v mem_queue \<Rightarrow> nat \<Rightarrow> nat \<Rightarrow> bool" where
  "meets s c i = (mq_cap s = 0 \<and> at_phase s i Receiving \<and> chan_of s i = c)"

inductive worker_step :: "'v mem_queue \<Rightarrow> 'v mem_queue \<Rightarrow> bool" where
  do_store: "k < length (mq_appends s) \<Longrightarrow> u \<noteq> [] \<Longrightarrow> worker_step s (append_store k u s)"
| do_send: "k < length (mq_senders s) \<Longrightarrow> has_room s (fst (mq_senders s ! k)) \<Longrightarrow> worker_step s (sender_send k s)"
| do_hand: "k < length (mq_senders s) \<Longrightarrow> meets s (fst (mq_senders s ! k)) i \<Longrightarrow> worker_step s (sender_hand k i s)"
| do_drop: "k < length (mq_senders s) \<Longrightarrow> mq_closed s \<Longrightarrow> worker_step s (sender_quit k s)"
| do_receive: "at_phase s i Receiving \<Longrightarrow> mq_chans s ! chan_of s i \<noteq> [] \<Longrightarrow> worker_step s (consume_receive i s)"
| do_quit: "at_phase s i Receiving \<Longrightarrow> mq_closed s \<Longrightarrow> worker_step s (consume_quit i s)"
| do_return: "at_phase s i (Handling it) \<Longrightarrow> worker_step s (consume_returned failed i it s)"
| do_backoff_quit: "at_phase s i (Backoff it) \<Longrightarrow> mq_closed s \<Longrightarrow> worker_step s (consume_drop i it s)"
| do_elapsed: "at_phase s i (Backoff it) \<Longrightarrow> worker_step s (set_phase i (Requeueing it) s)"
| do_requeue: "at_phase s i (Requeueing it) \<Longrightarrow> has_room s (chan_of s i) \<Longrightarrow> worker_step s (requeue_send i it s)"
| do_requeue_hand: "at_phase s i (Requeueing it) \<Longrightarrow> meets s (chan_of s i) j \<Longrightarrow> worker_step s (requeue_hand i j it s)"
| do_requeue_quit: "at_phase s i (Requeueing it) \<Longrightarrow> mq_closed s \<Longrightarrow> worker_step s (consume_drop i it s)"
| do_swap: "0 < mq_stopping s \<Longrightarrow> worker_step s (shutdown_swap s)"
| do_done: "0 < mq_releasing s \<Longrightarrow> worker_step s (shutdown_done s)"

inductive client_step :: "'v mem_queue \<Rightarrow> 'v mem_queue \<Rightarrow> bool" where
  do_append: "client_step s (snd (append_load w stream m s))"
| do_register: "mq_appends s = [] \<Longrightarrow> client_step s (register_consumer name s)"
| do_run: "mq_appends s = [] \<Longrightarrow> client_step s (run_begin s)"
| do_shutdown: "mq_appends s = [] \<Longrightarrow> client_step s (shutdown_close s)"

inductive queue_step :: "'v mem_queue \<Rightarrow> 'v mem_queue \<Rightarrow> bool" where
  worker: "worker_step s s' \<Longrightarrow> queue_step s s'"
| client: "client_step s s' \<Longrightarrow> queue_step s s'"

definition queue_reachable :: "int \<Rightarrow> 'v mem_queue \<Rightarrow> bool" where
  "queue_reachable pool s \<longleftrightarrow> queue_step\<^sup>*\<^sup>* (new_memory pool) s"

inductive_cases worker_stepE: "worker_step s s'"
inductive_cases client_stepE: "client_step s s'"
inductive_cases queue_stepE: "queue_step s s'"

lemma queue_reachable_induct [consumes 1, case_names start step]:
  assumes "queue_reachable pool s" "P (new_memory pool)" "\<And>s s'. queue_reachable pool s \<Longrightarrow> queue_step s s' \<Longrightarrow> P s \<Longrightarrow> P s'"
  shows "P s"
proof -
  from assms(1) have "queue_step\<^sup>*\<^sup>* (new_memory pool) s" by (simp add: queue_reachable_def)
  then have "queue_reachable pool s \<and> P s"
  proof (induction rule: rtranclp_induct)
    case base
    show ?case using assms(2) by (simp add: queue_reachable_def)
  next
    case (step y z)
    then show ?case using assms(3) by (auto simp: queue_reachable_def)
  qed
  then show ?thesis ..
qed

subsection \<open>Where a message is\<close>

text \<open>The places of the accepted messages, with whether the message is or was handed to a consumer for its current count of errors.\<close>

definition phase_place :: "'v phase \<Rightarrow> (bool \<times> 'v item) multiset" where
  "phase_place p = (case p of Handling it \<Rightarrow> {#(True, it)#} | Backoff it \<Rightarrow> {#(False, it)#} | Requeueing it \<Rightarrow> {#(False, it)#} | _ \<Rightarrow> {#})"

definition chan_places :: "'v item list list \<Rightarrow> (bool \<times> 'v item) multiset" where
  "chan_places qs = image_mset (Pair False) (mset (concat qs))"

definition sender_places :: "(nat \<times> 'v item) list \<Rightarrow> (bool \<times> 'v item) multiset" where
  "sender_places xs = image_mset (\<lambda>(c, it). (False, it)) (mset xs)"

definition consumer_places :: "'v consumer list \<Rightarrow> (bool \<times> 'v item) multiset" where
  "consumer_places cs = sum_list (map (\<lambda>c. phase_place (cn_phase c)) cs)"

definition settled_places :: "(outcome \<times> 'v item) list \<Rightarrow> (bool \<times> 'v item) multiset" where
  "settled_places xs = image_mset (\<lambda>(r, it). (r \<noteq> Dropped, it)) (mset xs)"

definition places :: "'v mem_queue \<Rightarrow> (bool \<times> 'v item) multiset" where
  "places s = chan_places (mq_chans s) + sender_places (mq_senders s) + consumer_places (mq_consumers s) + settled_places (mq_settled s)"

lemma remove_nth_mset: "k < length xs \<Longrightarrow> mset xs = add_mset (xs ! k) (mset (remove_nth k xs))"
  by (subst id_take_nth_drop [of k xs]) (simp_all add: remove_nth_def)

lemma sender_places_remove:
  "k < length xs \<Longrightarrow> sender_places xs = add_mset (False, snd (xs ! k)) (sender_places (remove_nth k xs))"
  unfolding sender_places_def by (subst remove_nth_mset [of k xs]) (simp_all add: case_prod_unfold)

lemma sender_places_snoc [simp]: "sender_places (xs @ [(c, it)]) = add_mset (False, it) (sender_places xs)"
  by (simp add: sender_places_def)

lemma chan_places_snoc [simp]: "chan_places (qs @ [[]]) = chan_places qs"
  by (simp add: chan_places_def)

lemma settled_places_Cons [simp]: "settled_places ((r, it) # xs) = add_mset (r \<noteq> Dropped, it) (settled_places xs)"
  by (simp add: settled_places_def)

lemma mset_concat_update: "c < length qs \<Longrightarrow> mset (concat (qs[c := q])) + mset (qs ! c) = mset (concat qs) + mset q"
  by (induction qs arbitrary: c) (auto split: nat.split)

lemma chan_places_push: "c < length qs \<Longrightarrow> chan_places (qs[c := qs ! c @ [it]]) = add_mset (False, it) (chan_places qs)"
proof -
  assume "c < length qs"
  from mset_concat_update [OF this, of "qs ! c @ [it]"] have "mset (concat (qs[c := qs ! c @ [it]])) = add_mset it (mset (concat qs))"
    by simp
  then show ?thesis by (simp add: chan_places_def)
qed

lemma chan_places_pop: "c < length qs \<Longrightarrow> qs ! c \<noteq> [] \<Longrightarrow> chan_places qs = add_mset (False, hd (qs ! c)) (chan_places (qs[c := tl (qs ! c)]))"
proof -
  assume c: "c < length qs" and ne: "qs ! c \<noteq> []"
  have "mset (qs ! c) = add_mset (hd (qs ! c)) (mset (tl (qs ! c)))" using ne by (metis list.collapse mset.simps(2))
  with mset_concat_update [OF c, of "tl (qs ! c)"] have "mset (concat qs) = add_mset (hd (qs ! c)) (mset (concat (qs[c := tl (qs ! c)])))"
    by simp
  then show ?thesis by (simp add: chan_places_def)
qed

lemma sum_list_update_add:
  "i < length xs \<Longrightarrow> sum_list (map f (xs[i := y])) + f (xs ! i) = (sum_list (map f xs) + f y :: 'b :: comm_monoid_add)"
  by (induction xs arbitrary: i) (auto simp: ac_simps split: nat.split)

lemma consumer_places_set:
  "i < length cs \<Longrightarrow> consumer_places (cs[i := (cs ! i)\<lparr>cn_phase := p\<rparr>]) + phase_place (cn_phase (cs ! i)) = consumer_places cs + phase_place p"
  unfolding consumer_places_def by (subst sum_list_update_add) simp_all

lemma consumer_places_snoc [simp]: "consumer_places (cs @ [c]) = consumer_places cs + phase_place (cn_phase c)"
  by (simp add: consumer_places_def)

subsection \<open>Addresses\<close>

definition used_chans :: "'v mem_queue \<Rightarrow> nat set" where
  "used_chans s = ran (mq_queue s) \<union> fst ` set (mq_senders s) \<union> cn_chan ` set (mq_consumers s) \<union> am_chan ` set (mq_accepted s) \<union>
     {c. Some c \<in> ac_found ` set (mq_appends s)}"

definition queue_wf :: "'v mem_queue \<Rightarrow> bool" where
  "queue_wf s \<longleftrightarrow> used_chans s \<subseteq> {..<length (mq_chans s)}"

lemma set_remove_nth: "set (remove_nth k xs) \<subseteq> set xs"
  by (auto simp: remove_nth_def dest: in_set_takeD in_set_dropD)

lemma senders_fewer: "fst ` set (remove_nth k (mq_senders s)) \<subseteq> fst ` set (mq_senders s)"
  by (intro image_mono set_remove_nth)

lemma find_queue_result:
  assumes "find_queue found stream s = (c, s')"
  shows "s' = s \<and> found = Some c \<or>
    found = None \<and> c = length (mq_chans s) \<and> s' = s\<lparr>mq_chans := mq_chans s @ [[]], mq_queue := (mq_queue s)(stream \<mapsto> c)\<rparr>"
  using assms by (auto simp: find_queue_def make_queue_def split: option.splits)

lemma consumers_set_phase [simp]:
  "mq_cap (set_phase i p s) = mq_cap s" "mq_queue (set_phase i p s) = mq_queue s" "mq_chans (set_phase i p s) = mq_chans s"
  "mq_closed (set_phase i p s) = mq_closed s" "mq_appends (set_phase i p s) = mq_appends s" "mq_senders (set_phase i p s) = mq_senders s"
  "mq_accepted (set_phase i p s) = mq_accepted s" "mq_calls (set_phase i p s) = mq_calls s" "mq_settled (set_phase i p s) = mq_settled s"
  "mq_stopping (set_phase i p s) = mq_stopping s" "mq_releasing (set_phase i p s) = mq_releasing s" "mq_running (set_phase i p s) = mq_running s"
  "mq_wait (set_phase i p s) = mq_wait s" "length (mq_consumers (set_phase i p s)) = length (mq_consumers s)"
  by (simp_all add: set_phase_def)

lemma set_phase_names [simp]:
  "map cn_chan (mq_consumers (set_phase i p s)) = map cn_chan (mq_consumers s)" "map cn_name (mq_consumers (set_phase i p s)) = map cn_name (mq_consumers s)"
proof -
  have upd: "map f (xs[i := (xs ! i)\<lparr>cn_phase := p\<rparr>]) = map f xs" if "\<And>c. f (c\<lparr>cn_phase := p\<rparr>) = f c" for f :: "'a consumer \<Rightarrow> 'b" and xs
    using that by (cases "i < length xs") (simp_all add: map_update list_update_same_conv list_update_beyond)
  show "map cn_chan (mq_consumers (set_phase i p s)) = map cn_chan (mq_consumers s)" by (simp add: set_phase_def upd)
  show "map cn_name (mq_consumers (set_phase i p s)) = map cn_name (mq_consumers s)"
    using upd [of cn_name] by (simp add: set_phase_def)
qed

lemma set_phase_chans [simp]: "cn_chan ` set (mq_consumers (set_phase i p s)) = cn_chan ` set (mq_consumers s)"
  by (metis list.set_map set_phase_names(1))

lemmas worker_defs = append_store_def sender_send_def sender_hand_def sender_quit_def consume_receive_def consume_quit_def consume_returned_def
  consume_drop_def requeue_send_def requeue_hand_def shutdown_swap_def shutdown_done_def start_handling_def settle_def push_chan_def

lemma queue_wf_frame:
  assumes "queue_wf s" "length (mq_chans s) \<le> length (mq_chans s')" "used_chans s' \<subseteq> used_chans s"
  shows "queue_wf s'"
  using assms unfolding queue_wf_def by fastforce

lemma used_chans_less: "queue_wf s \<Longrightarrow> c \<in> used_chans s \<Longrightarrow> c < length (mq_chans s)"
  by (auto simp: queue_wf_def)

lemma worker_step_wf:
  assumes "worker_step s s'" "queue_wf s"
  shows "queue_wf s'"
  using assms(1)
proof (cases rule: worker_step.cases)
  case (do_store k u)
  let ?a = "mq_appends s ! k"
  obtain c s1 where f: "find_queue (ac_found ?a) (ac_stream ?a) s = (c, s1)" by fastforce
  have a: "?a \<in> set (mq_appends s)" using do_store by simp
  have rem: "set (remove_nth k (mq_appends s)) \<subseteq> set (mq_appends s)" by (rule set_remove_nth)
  from find_queue_result [OF f] show ?thesis
  proof (elim disjE conjE)
    assume found: "s1 = s" "ac_found ?a = Some c"
    then have "Some c \<in> ac_found ` set (mq_appends s)" using a by force
    then have "c \<in> used_chans s" by (simp add: used_chans_def)
    moreover have "used_chans s' \<subseteq> insert c (used_chans s)"
      using rem f found by (auto simp: do_store(1) append_store_def Let_def used_chans_def)
    ultimately have "used_chans s' \<subseteq> used_chans s" by blast
    then show ?thesis using found f by (intro queue_wf_frame [OF assms(2)]) (simp_all add: do_store(1) append_store_def Let_def)
  next
    assume new: "ac_found ?a = None" "c = length (mq_chans s)" "s1 = s\<lparr>mq_chans := mq_chans s @ [[]], mq_queue := (mq_queue s)(ac_stream ?a \<mapsto> c)\<rparr>"
    have "ran ((mq_queue s)(ac_stream ?a \<mapsto> c)) \<subseteq> insert c (ran (mq_queue s))" by (auto simp: ran_def)
    then have "used_chans s' \<subseteq> insert c (used_chans s)"
      using rem f new(1,3) by (auto simp: do_store(1) append_store_def Let_def used_chans_def)
    moreover have "length (mq_chans s') = Suc (length (mq_chans s))" using f new by (simp add: do_store(1) append_store_def Let_def)
    ultimately show ?thesis using assms(2) new(2) unfolding queue_wf_def by fastforce
  qed
next
  case (do_send k)
  with senders_fewer [of k s] show ?thesis
    by (intro queue_wf_frame [OF assms(2)]) (simp_all add: used_chans_def worker_defs split: prod.split, blast)
next
  case (do_hand k i)
  with senders_fewer [of k s] show ?thesis
    by (intro queue_wf_frame [OF assms(2)]) (simp_all add: used_chans_def worker_defs, blast)
next
  case (do_drop k)
  with senders_fewer [of k s] show ?thesis
    by (intro queue_wf_frame [OF assms(2)]) (simp_all add: used_chans_def worker_defs, blast)
qed (auto intro!: queue_wf_frame [OF assms(2)] simp: used_chans_def worker_defs Let_def)

lemma client_step_wf:
  assumes "client_step s s'" "queue_wf s"
  shows "queue_wf s'"
  using assms(1)
proof (cases rule: client_step.cases)
  case (do_register name)
  obtain c s1 where f: "find_queue (mq_queue s name) name s = (c, s1)" by fastforce
  from find_queue_result [OF f] show ?thesis
  proof (elim disjE conjE)
    assume found: "s1 = s" "mq_queue s name = Some c"
    then have "c \<in> used_chans s" by (auto simp: used_chans_def ran_def)
    with found f show ?thesis
      by (intro queue_wf_frame [OF assms(2)]) (auto simp: do_register(1) register_consumer_def used_chans_def)
  next
    assume new: "mq_queue s name = None" "c = length (mq_chans s)" "s1 = s\<lparr>mq_chans := mq_chans s @ [[]], mq_queue := (mq_queue s)(name \<mapsto> c)\<rparr>"
    have "ran ((mq_queue s)(name \<mapsto> c)) \<subseteq> insert c (ran (mq_queue s))" by (auto simp: ran_def)
    then have "used_chans s' \<subseteq> insert c (used_chans s)"
      using f new(1,3) by (auto simp: do_register(1) register_consumer_def used_chans_def)
    moreover have "mq_closed s \<or> length (mq_chans s') = Suc (length (mq_chans s))" using f new by (simp add: do_register(1) register_consumer_def)
    moreover have "mq_closed s \<Longrightarrow> s' = s" by (simp add: do_register(1) register_consumer_def)
    ultimately show ?thesis using assms(2) new(2) unfolding queue_wf_def by fastforce
  qed
next
  case (do_append w stream m)
  then show ?thesis
    by (intro queue_wf_frame [OF assms(2)]) (auto simp: append_load_def used_chans_def ran_def)
qed (auto intro!: queue_wf_frame [OF assms(2)] simp: used_chans_def run_begin_def shutdown_close_def)

lemma queue_reachable_wf: "queue_reachable pool s \<Longrightarrow> queue_wf s"
proof (induction rule: queue_reachable_induct)
  case start
  show ?case by (simp add: queue_wf_def used_chans_def new_memory_def)
qed (auto elim: queue_step.cases intro: worker_step_wf client_step_wf)

subsection \<open>Exactly one place\<close>

definition calls_of :: "nat \<Rightarrow> (nat \<times> int) list \<Rightarrow> int list" where
  "calls_of g xs = map snd (filter (\<lambda>(h, e). h = g) xs)"

text \<open>A message keeps its content, its attempts are consecutive, and its count of errors stops at 3.\<close>

definition place_ok :: "'v mem_queue \<Rightarrow> bool \<times> 'v item \<Rightarrow> bool" where
  "place_ok s p \<longleftrightarrow> (case p of (handed, g, m) \<Rightarrow>
     g < length (mq_accepted s) \<and>
     (let m0 = am_message (mq_accepted s ! g); e0 = ms_error_count m0; e = ms_error_count m
      in ms_id m = ms_id m0 \<and> ms_values m = ms_values m0 \<and> e0 \<le> e \<and> e \<le> max e0 3 \<and> calls_of g (mq_calls s) = [e0 .. if handed then e else e - 1]))"

definition places_inv :: "'v mem_queue \<Rightarrow> bool" where
  "places_inv s \<longleftrightarrow>
     image_mset (\<lambda>p. fst (snd p)) (places s) = mset [0..<length (mq_accepted s)] \<and> (\<forall>p \<in># places s. place_ok s p) \<and>
     (\<forall>(g, e) \<in> set (mq_calls s). g < length (mq_accepted s)) \<and>
     (\<forall>(r, g, m) \<in> set (mq_settled s). (r = GivenUp \<longrightarrow> 3 \<le> ms_error_count m) \<and> (r = Dropped \<longrightarrow> mq_closed s))"

lemma calls_of_append [simp]: "calls_of g (xs @ ys) = calls_of g xs @ calls_of g ys"
  by (simp add: calls_of_def)

lemma calls_of_single [simp]: "calls_of g [(h, e)] = (if h = g then [e] else [])"
  by (simp add: calls_of_def)

lemma place_gid_unique:
  assumes "image_mset (\<lambda>p. fst (snd p)) (places s) = mset [0..<n]" "places s = add_mset p P" "q \<in># P"
  shows "fst (snd q) \<noteq> fst (snd p)"
proof
  assume eq: "fst (snd q) = fst (snd p)"
  obtain R where "P = add_mset q R" using assms(3) by (metis mset_add)
  with assms(1,2) eq have "mset [0..<n] = add_mset (fst (snd p)) (add_mset (fst (snd p)) (image_mset (\<lambda>p. fst (snd p)) R))" by simp
  then have "2 \<le> count (mset [0..<n]) (fst (snd p))" by simp
  moreover have "count (mset [0..<n]) (fst (snd p)) \<le> 1" using distinct_count_atmost_1 [of "[0..<n]"] by simp
  ultimately show False by simp
qed

text \<open>Every step moves one message, hands it over, or moves none.\<close>

lemma places_inv_move:
  assumes inv: "places_inv s" and at: "places s = add_mset p P" "places s' = add_mset p' P" "fst (snd p') = fst (snd p)"
    and same: "mq_accepted s' = mq_accepted s" "mq_closed s' = mq_closed s"
    and calls: "mq_calls s' = mq_calls s \<or> mq_calls s' = mq_calls s @ [(fst (snd p), e)]"
    and ok: "place_ok s p \<Longrightarrow> place_ok s' p'"
    and settled: "\<forall>(r, g, m) \<in> set (mq_settled s'). (r, g, m) \<in> set (mq_settled s) \<or> (r = GivenUp \<longrightarrow> 3 \<le> ms_error_count m) \<and> (r = Dropped \<longrightarrow> mq_closed s)"
  shows "places_inv s'"
proof -
  have old: "place_ok s q" if "q \<in># add_mset p P" for q using that inv at(1) by (auto simp: places_inv_def)
  have "place_ok s' q" if q: "q \<in># P" for q
  proof -
    have "fst (snd q) \<noteq> fst (snd p)" using place_gid_unique [OF _ at(1) q] inv by (auto simp: places_inv_def)
    then have "calls_of (fst (snd q)) (mq_calls s') = calls_of (fst (snd q)) (mq_calls s)" using calls by auto
    with old [of q] q same(1) show ?thesis by (simp add: place_ok_def case_prod_unfold)
  qed
  moreover have "fst (snd p) < length (mq_accepted s)" using old [of p] by (auto simp: place_ok_def)
  ultimately show ?thesis using inv at ok old [of p] same calls settled unfolding places_inv_def by (auto simp: ball_Un)
qed

lemma places_inv_frame:
  assumes "places_inv s" "places s' = places s" "mq_accepted s' = mq_accepted s" "mq_calls s' = mq_calls s" "mq_settled s' = mq_settled s"
    "mq_closed s \<longrightarrow> mq_closed s'"
  shows "places_inv s'"
  using assms unfolding places_inv_def place_ok_def by auto

lemma phase_place_simps [simp]:
  "phase_place Receiving = {#}" "phase_place Stopped = {#}" "phase_place (Handling it) = {#(True, it)#}"
  "phase_place (Backoff it) = {#(False, it)#}" "phase_place (Requeueing it) = {#(False, it)#}"
  by (simp_all add: phase_place_def)

lemma places_set_phase:
  assumes "at_phase s i q"
  shows "places (set_phase i p s) + phase_place q = places s + phase_place p"
  using consumer_places_set [of i "mq_consumers s" p] assms
  by (simp add: places_def set_phase_def at_phase_def)

lemma at_phase_set_phase: "at_phase (set_phase i p s) j q = (if i = j then j < length (mq_consumers s) \<and> q = p else at_phase s j q)"
  by (auto simp: at_phase_def set_phase_def nth_list_update)

lemma chan_of_set_phase [simp]: "i < length (mq_consumers s) \<Longrightarrow> chan_of (set_phase j p s) i = chan_of s i"
  by (cases "i = j") (simp_all add: chan_of_def set_phase_def)

lemma upto_snoc: "e0 \<le> e \<Longrightarrow> [e0..e - 1] @ [e] = [e0..(e::int)]"
  using upto_rec2 [of e0 e] by simp

text \<open>Handing a message over is recorded.\<close>

lemma place_ok_handed:
  assumes "place_ok s (False, it)" "mq_accepted s' = mq_accepted s" "mq_calls s' = mq_calls s @ [(fst it, ms_error_count (snd it))]"
  shows "place_ok s' (True, it)"
  using assms upto_snoc by (auto simp: place_ok_def case_prod_unfold Let_def)

lemma place_ok_same:
  assumes "place_ok s p" "mq_accepted s' = mq_accepted s" "mq_calls s' = mq_calls s"
  shows "place_ok s' p"
  using assms by (simp add: place_ok_def)

lemma place_ok_again:
  assumes "place_ok s (True, g, m)" "ms_error_count m < 3" "mq_accepted s' = mq_accepted s" "mq_calls s' = mq_calls s"
  shows "place_ok s' (False, g, m\<lparr>ms_error_count := ms_error_count m + 1\<rparr>)"
  using assms by (auto simp: place_ok_def Let_def)

lemma places_chans [simp]: "places (s\<lparr>mq_chans := qs\<rparr>) + chan_places (mq_chans s) = places s + chan_places qs"
  by (simp add: places_def)

lemma places_senders: "k < length (mq_senders s) \<Longrightarrow> places s = add_mset (False, snd (mq_senders s ! k)) (places (s\<lparr>mq_senders := remove_nth k (mq_senders s)\<rparr>))"
  using sender_places_remove [of k "mq_senders s"] by (simp add: places_def)

lemma places_push: "c < length (mq_chans s) \<Longrightarrow> places (push_chan c it s) = add_mset (False, it) (places s)"
  using chan_places_push [of c "mq_chans s" it] by (simp add: places_def push_chan_def)

lemma places_settle [simp]: "places (settle r it s) = add_mset (r \<noteq> Dropped, it) (places s)"
  by (simp add: places_def settle_def)

lemma places_pop:
  "c < length (mq_chans s) \<Longrightarrow> mq_chans s ! c \<noteq> [] \<Longrightarrow>
     places s = add_mset (False, hd (mq_chans s ! c)) (places (s\<lparr>mq_chans := (mq_chans s)[c := tl (mq_chans s ! c)]\<rparr>))"
  using chan_places_pop [of c "mq_chans s"] by (simp add: places_def)

lemma places_calls [simp]: "places (s\<lparr>mq_calls := xs\<rparr>) = places s"
  by (simp add: places_def)

lemma places_start_handling:
  assumes "at_phase s i Receiving"
  shows "places (start_handling i it s) = add_mset (True, it) (places s)"
  using places_set_phase [of "s\<lparr>mq_calls := mq_calls s @ [(fst it, ms_error_count (snd it))]\<rparr>" i Receiving "Handling it"] assms
  by (simp add: start_handling_def at_phase_def)

lemma places_leave:
  assumes "at_phase s i q" "phase_place q = {#p#}" "phase_place q' = {#}"
  shows "places s = add_mset p (places (set_phase i q' s))"
  using places_set_phase [OF assms(1), of q'] assms(2,3) by simp

lemma history_simps [simp]:
  "mq_accepted (push_chan c it s) = mq_accepted s" "mq_calls (push_chan c it s) = mq_calls s" "mq_closed (push_chan c it s) = mq_closed s"
  "mq_settled (push_chan c it s) = mq_settled s" "mq_accepted (settle r it s) = mq_accepted s" "mq_calls (settle r it s) = mq_calls s"
  "mq_closed (settle r it s) = mq_closed s" "mq_settled (settle r it s) = (r, it) # mq_settled s"
  "mq_accepted (start_handling i it s) = mq_accepted s" "mq_calls (start_handling i it s) = mq_calls s @ [(fst it, ms_error_count (snd it))]"
  "mq_closed (start_handling i it s) = mq_closed s" "mq_settled (start_handling i it s) = mq_settled s"
  by (simp_all add: push_chan_def settle_def start_handling_def)

lemma at_phase_record [simp]:
  "at_phase (s\<lparr>mq_senders := xs\<rparr>) i p = at_phase s i p" "at_phase (s\<lparr>mq_chans := qs\<rparr>) i p = at_phase s i p"
  by (simp_all add: at_phase_def)

lemma worker_step_places:
  assumes "worker_step s s'" "places_inv s" "queue_wf s"
  shows "places_inv s'"
  using assms(1)
proof (cases rule: worker_step.cases)
  case (do_store k u)
  let ?a = "mq_appends s ! k" and ?n = "length (mq_accepted s)"
  obtain c s1 where f: "find_queue (ac_found ?a) (ac_stream ?a) s = (c, s1)" by fastforce
  define m where "m = (if length (ms_id (ac_message ?a)) = 0 then (ac_message ?a)\<lparr>ms_id := u\<rparr> else ac_message ?a)"
  have s1: "places s1 = places s" "mq_accepted s1 = mq_accepted s" "mq_calls s1 = mq_calls s" "mq_settled s1 = mq_settled s" "mq_closed s1 = mq_closed s"
    using find_queue_result [OF f] by (auto simp: places_def)
  have at: "places s' = add_mset (False, ?n, m) (places s)"
    "mq_accepted s' = mq_accepted s @ [\<lparr>am_stream = ac_stream ?a, am_chan = c, am_message = m\<rparr>]" "mq_calls s' = mq_calls s"
    "mq_settled s' = mq_settled s" "mq_closed s' = mq_closed s"
    using f s1 by (auto simp: do_store(1) append_store_def Let_def m_def places_def)
  have "calls_of ?n (mq_calls s) = []" using assms(2) by (fastforce simp: places_inv_def calls_of_def filter_empty_conv)
  then have "place_ok s' (False, ?n, m)" using at by (simp add: place_ok_def)
  moreover have "place_ok s' p" if "p \<in># places s" for p
    using that assms(2) at by (auto simp: places_inv_def place_ok_def nth_append case_prod_unfold Let_def)
  ultimately show ?thesis using assms(2) at by (auto simp: places_inv_def)
next
  case (do_send k)
  let ?it = "snd (mq_senders s ! k)" and ?c = "fst (mq_senders s ! k)"
  have "?c < length (mq_chans s)" using do_send by (intro used_chans_less [OF assms(3)]) (force simp: used_chans_def)
  then have "places s' = add_mset (False, ?it) (places (s\<lparr>mq_senders := remove_nth k (mq_senders s)\<rparr>))"
    by (simp add: do_send(1) sender_send_def case_prod_unfold places_push)
  with places_senders [OF do_send(2)] have "places s' = places s" by simp
  then show ?thesis by (auto intro!: places_inv_frame [OF assms(2)] simp: do_send(1) sender_send_def case_prod_unfold)
next
  case (do_hand k i)
  have "places s' = add_mset (True, snd (mq_senders s ! k)) (places (s\<lparr>mq_senders := remove_nth k (mq_senders s)\<rparr>))"
    using do_hand(3) by (simp add: do_hand(1) sender_hand_def meets_def places_start_handling)
  note at = this
  show ?thesis
    by (intro places_inv_move [OF assms(2) places_senders [OF do_hand(2)] at]) (auto simp: do_hand(1) sender_hand_def intro: place_ok_handed)
next
  case (do_drop k)
  have "places s' = add_mset (False, snd (mq_senders s ! k)) (places (s\<lparr>mq_senders := remove_nth k (mq_senders s)\<rparr>))"
    by (simp add: do_drop(1) sender_quit_def)
  note at = this
  show ?thesis using do_drop(3)
    by (intro places_inv_move [OF assms(2) places_senders [OF do_drop(2)] at]) (auto simp: do_drop(1) sender_quit_def intro: place_ok_same)
next
  case (do_receive i)
  let ?c = "chan_of s i"
  have c: "?c < length (mq_chans s)"
    using do_receive(2) by (intro used_chans_less [OF assms(3)]) (force simp: used_chans_def chan_of_def at_phase_def)
  have "places s' = add_mset (True, hd (mq_chans s ! ?c)) (places (s\<lparr>mq_chans := (mq_chans s)[?c := tl (mq_chans s ! ?c)]\<rparr>))"
    using do_receive(2) by (simp add: do_receive(1) consume_receive_def Let_def places_start_handling chan_of_def)
  note at = this
  show ?thesis
    by (intro places_inv_move [OF assms(2) places_pop [OF c do_receive(3)] at]) (auto simp: do_receive(1) consume_receive_def Let_def chan_of_def intro: place_ok_handed)
next
  case (do_quit i)
  have "places s' = places s" using places_set_phase [OF do_quit(2), of Stopped] by (simp add: do_quit(1) consume_quit_def)
  then show ?thesis by (auto intro!: places_inv_frame [OF assms(2)] simp: do_quit(1) consume_quit_def)
next
  case (do_return i it failed)
  consider "\<not> failed" | "failed" "3 \<le> ms_error_count (snd it)" | "failed" "ms_error_count (snd it) < 3" by linarith
  then show ?thesis
  proof cases
    case 1
    have "places s' = add_mset (True, it) (places (set_phase i Receiving s))" using 1 by (simp add: do_return(1) consume_returned_def)
    note at = this
    show ?thesis using 1
      by (intro places_inv_move [OF assms(2) places_leave [OF do_return(2), of "(True, it)" Receiving] at]) (auto simp: do_return(1) consume_returned_def intro: place_ok_same)
  next
    case 2
    have "places s' = add_mset (True, it) (places (set_phase i Receiving s))" using 2 by (simp add: do_return(1) consume_returned_def)
    note at = this
    show ?thesis using 2
      by (intro places_inv_move [OF assms(2) places_leave [OF do_return(2), of "(True, it)" Receiving] at]) (auto simp: do_return(1) consume_returned_def intro: place_ok_same)
  next
    case 3
    let ?it = "(fst it, (snd it)\<lparr>ms_error_count := ms_error_count (snd it) + 1\<rparr>)"
    have s': "s' = set_phase i (Backoff ?it) s" using 3 by (simp add: do_return(1) consume_returned_def)
    have leave: "places s = add_mset (True, it) (places (set_phase i Receiving s))" using places_leave [OF do_return(2)] by simp
    with places_set_phase [OF do_return(2), of "Backoff ?it"] have "places s' = add_mset (False, ?it) (places (set_phase i Receiving s))" by (simp add: s')
    note at = this
    show ?thesis using 3
      by (intro places_inv_move [OF assms(2) leave at]) (use 3 in \<open>auto simp: s' place_ok_def Let_def\<close>)
  qed
next
  case (do_backoff_quit i it)
  have "places s' = add_mset (False, it) (places (set_phase i Stopped s))" by (simp add: do_backoff_quit(1) consume_drop_def)
  note at = this
  show ?thesis using do_backoff_quit(3)
    by (intro places_inv_move [OF assms(2) places_leave [OF do_backoff_quit(2), of "(False, it)" Stopped] at]) (auto simp: do_backoff_quit(1) consume_drop_def intro: place_ok_same)
next
  case (do_requeue_quit i it)
  have "places s' = add_mset (False, it) (places (set_phase i Stopped s))" by (simp add: do_requeue_quit(1) consume_drop_def)
  note at = this
  show ?thesis using do_requeue_quit(3)
    by (intro places_inv_move [OF assms(2) places_leave [OF do_requeue_quit(2), of "(False, it)" Stopped] at]) (auto simp: do_requeue_quit(1) consume_drop_def intro: place_ok_same)
next
  case (do_elapsed i it)
  have "places s' = places s" using places_set_phase [OF do_elapsed(2), of "Requeueing it"] by (simp add: do_elapsed(1))
  then show ?thesis by (auto intro!: places_inv_frame [OF assms(2)] simp: do_elapsed(1))
next
  case (do_requeue i it)
  have "chan_of s i < length (mq_chans s)"
    using do_requeue(2) by (intro used_chans_less [OF assms(3)]) (force simp: used_chans_def chan_of_def at_phase_def)
  then have "places s' = add_mset (False, it) (places (set_phase i Receiving s))" by (simp add: do_requeue(1) requeue_send_def places_push chan_of_def)
  with places_leave [OF do_requeue(2), of "(False, it)" Receiving] have "places s' = places s" by simp
  then show ?thesis by (auto intro!: places_inv_frame [OF assms(2)] simp: do_requeue(1) requeue_send_def)
next
  case (do_requeue_hand i it j)
  have "at_phase (set_phase i Receiving s) j Receiving" using do_requeue_hand(3) by (auto simp: meets_def at_phase_set_phase) (simp add: at_phase_def)
  then have "places s' = add_mset (True, it) (places (set_phase i Receiving s))" by (simp add: do_requeue_hand(1) requeue_hand_def places_start_handling)
  note at = this
  show ?thesis
    by (intro places_inv_move [OF assms(2) places_leave [OF do_requeue_hand(2), of "(False, it)" Receiving] at]) (auto simp: do_requeue_hand(1) requeue_hand_def intro: place_ok_handed)
qed (auto intro!: places_inv_frame [OF assms(2)] simp: places_def shutdown_swap_def shutdown_done_def Let_def)

lemma client_step_places:
  assumes "client_step s s'" "places_inv s"
  shows "places_inv s'"
  using assms(1)
proof (cases rule: client_step.cases)
  case (do_register name)
  obtain c s1 where f: "find_queue (mq_queue s name) name s = (c, s1)" by fastforce
  with find_queue_result [OF f] assms(2) show ?thesis
    by (auto intro!: places_inv_frame [OF assms(2)] simp: do_register(1) register_consumer_def places_def)
qed (auto intro!: places_inv_frame [OF assms(2)] simp: places_def append_load_def run_begin_def shutdown_close_def)

lemma queue_reachable_places: "queue_reachable pool s \<Longrightarrow> places_inv s"
proof (induction rule: queue_reachable_induct)
  case start
  show ?case by (simp add: places_inv_def places_def new_memory_def chan_places_def sender_places_def consumer_places_def settled_places_def)
qed (auto elim!: queue_step.cases intro: worker_step_places client_step_places queue_reachable_wf)

subsection \<open>Delivery\<close>

text \<open>The attempts a message is entitled to.\<close>

definition attempts_left :: "'v message \<Rightarrow> nat" where
  "attempts_left m = (if 3 \<le> ms_error_count m then 1 else nat (4 - ms_error_count m))"

text \<open>C29: Exactly once, with at most three repetitions. However senders, consumers, callers and the shutdown interleave, every message that was
  accepted is in exactly one place: with its sender, in a channel, with one consumer, or settled. Its attempts have the counts of
  errors it came with, then one more each, so there are at most four for a new message. It is given up only after
  the attempt with count 3 failed, and dropped only when the queue is closed.\<close>

theorem memory_queue_exactly_once:
  assumes "queue_reachable pool s"
  shows "image_mset (\<lambda>(handed, g, m). g) (places s) = mset [0..<length (mq_accepted s)] \<and>
    (\<forall>(handed, g, m) \<in># places s. let m0 = am_message (mq_accepted s ! g) in
       ms_id m = ms_id m0 \<and> ms_values m = ms_values m0 \<and>
       calls_of g (mq_calls s) = [ms_error_count m0 .. if handed then ms_error_count m else ms_error_count m - 1] \<and>
       length (calls_of g (mq_calls s)) \<le> attempts_left m0) \<and>
    (\<forall>(r, g, m) \<in> set (mq_settled s). (r = GivenUp \<longrightarrow> 3 \<le> ms_error_count m) \<and> (r = Dropped \<longrightarrow> mq_closed s))"
proof -
  note inv = queue_reachable_places [OF assms]
  have fst_eq: "(\<lambda>p. fst (snd p)) = (\<lambda>(handed, g, m). g)" by (auto simp: fun_eq_iff)
  have len: "length (calls_of g (mq_calls s)) \<le> attempts_left (am_message (mq_accepted s ! g))" if "place_ok s (handed, g, m)" for handed g m
    using that by (auto simp: place_ok_def attempts_left_def Let_def max_def split: if_splits)
  have each: "let m0 = am_message (mq_accepted s ! g) in
       ms_id m = ms_id m0 \<and> ms_values m = ms_values m0 \<and>
       calls_of g (mq_calls s) = [ms_error_count m0 .. if handed then ms_error_count m else ms_error_count m - 1] \<and>
       length (calls_of g (mq_calls s)) \<le> attempts_left m0" if "(handed, g, m) \<in># places s" for handed g m
  proof -
    have ok: "place_ok s (handed, g, m)" using that inv by (simp add: places_inv_def)
    with len [OF ok] show ?thesis by (simp add: place_ok_def Let_def)
  qed
  show ?thesis
  proof (intro conjI)
    show "image_mset (\<lambda>(handed, g, m). g) (places s) = mset [0..<length (mq_accepted s)]" using inv by (simp add: places_inv_def fst_eq)
  qed (use each inv in \<open>blast, simp add: places_inv_def\<close>)
qed

subsection \<open>Streams with a consumer\<close>

text \<open>The channel at which a message is, while it is not settled.\<close>

definition chan_locations :: "'v item list list \<Rightarrow> (nat \<times> nat) set" where
  "chan_locations qs = (\<Union>c \<in> {..<length qs}. (\<lambda>it. (c, fst it)) ` set (qs ! c))"

definition consumer_locations :: "'v consumer list \<Rightarrow> (nat \<times> nat) set" where
  "consumer_locations cs = (\<Union>k \<in> set cs. (\<lambda>p. (cn_chan k, fst (snd p))) ` set_mset (phase_place (cn_phase k)))"

definition locations :: "'v mem_queue \<Rightarrow> (nat \<times> nat) set" where
  "locations s = (\<lambda>x. (fst x, fst (snd x))) ` set (mq_senders s) \<union> chan_locations (mq_chans s) \<union> consumer_locations (mq_consumers s)"

lemma consumer_locations_set:
  "consumer_locations (mq_consumers (set_phase i p s)) \<subseteq>
     consumer_locations (mq_consumers s) \<union> (\<lambda>q. (chan_of s i, fst (snd q))) ` set_mset (phase_place p)"
proof -
  have "set ((mq_consumers s)[i := (mq_consumers s ! i)\<lparr>cn_phase := p\<rparr>]) \<subseteq> insert ((mq_consumers s ! i)\<lparr>cn_phase := p\<rparr>) (set (mq_consumers s))"
    by (rule set_update_subset_insert)
  then show ?thesis unfolding consumer_locations_def set_phase_def chan_of_def by fastforce
qed

lemma at_phase_location: "at_phase s i q \<Longrightarrow> p \<in># phase_place q \<Longrightarrow> (chan_of s i, fst (snd p)) \<in> consumer_locations (mq_consumers s)"
  unfolding consumer_locations_def at_phase_def chan_of_def by force

lemma chan_locations_iff: "(c, g) \<in> chan_locations qs \<longleftrightarrow> c < length qs \<and> g \<in> fst ` set (qs ! c)"
  by (auto simp: chan_locations_def)

lemma chan_locations_push: "chan_locations (qs[c := qs ! c @ [it]]) \<subseteq> insert (c, fst it) (chan_locations qs)"
proof (rule subrelI)
  fix d g
  assume "(d, g) \<in> chan_locations (qs[c := qs ! c @ [it]])"
  then have "d < length qs" "g \<in> fst ` set (qs[c := qs ! c @ [it]] ! d)" by (simp_all add: chan_locations_iff)
  then show "(d, g) \<in> insert (c, fst it) (chan_locations qs)"
    by (cases "d = c") (simp_all add: chan_locations_iff)
qed

lemma chan_locations_tl: "chan_locations (qs[c := tl (qs ! c)]) \<subseteq> chan_locations qs"
proof (rule subrelI)
  fix d g
  assume "(d, g) \<in> chan_locations (qs[c := tl (qs ! c)])"
  then have "d < length qs" "g \<in> fst ` set (qs[c := tl (qs ! c)] ! d)" by (simp_all add: chan_locations_iff)
  moreover have "set (tl xs) \<subseteq> set xs" for xs :: "'a item list" by (cases xs) auto
  then have "fst ` set (tl xs) \<subseteq> fst ` set xs" for xs :: "'a item list" by (rule image_mono)
  ultimately show "(d, g) \<in> chan_locations qs"
    by (cases "d = c") (simp_all add: chan_locations_iff, blast)
qed

lemma chan_locations_hd: "c < length qs \<Longrightarrow> qs ! c \<noteq> [] \<Longrightarrow> (c, fst (hd (qs ! c))) \<in> chan_locations qs"
  by (simp add: chan_locations_iff)

lemma chan_locations_snoc [simp]: "chan_locations (qs @ [[]]) = chan_locations qs"
proof (rule set_eqI)
  fix p
  show "(p \<in> chan_locations (qs @ [[]])) = (p \<in> chan_locations qs)"
    by (cases p) (auto simp: chan_locations_iff nth_append less_Suc_eq)
qed

lemma sender_location: "k < length xs \<Longrightarrow> (fst (xs ! k), fst (snd (xs ! k))) \<in> (\<lambda>x. (fst x, fst (snd x))) ` set xs"
  by force

lemma sender_locations_fewer: "(\<lambda>x. (fst x, fst (snd x))) ` set (remove_nth k xs) \<subseteq> (\<lambda>x. (fst x, fst (snd x))) ` set xs"
  by (intro image_mono set_remove_nth)

text \<open>A stream with a consumer has one channel, and a message stays at the channel it was accepted for.\<close>

definition consumer_ids :: "'v mem_queue \<Rightarrow> (string \<times> nat) set" where
  "consumer_ids s = (\<lambda>c. (cn_name c, cn_chan c)) ` set (mq_consumers s)"

definition streams_inv :: "'v mem_queue \<Rightarrow> bool" where
  "streams_inv s \<longleftrightarrow>
     (\<forall>(name, c) \<in> consumer_ids s. mq_queue s name = Some c \<and> (\<forall>a \<in> set (mq_appends s). ac_stream a = name \<longrightarrow> ac_found a = Some c)) \<and>
     (\<forall>(c, g) \<in> locations s. g < length (mq_accepted s) \<and> am_chan (mq_accepted s ! g) = c)"

lemma consumer_ids_set_phase [simp]: "consumer_ids (set_phase i p s) = consumer_ids s"
proof -
  let ?f = "\<lambda>c. (cn_name c, cn_chan c)"
  have "map ?f ((mq_consumers s)[i := (mq_consumers s ! i)\<lparr>cn_phase := p\<rparr>]) = map ?f (mq_consumers s)"
    by (cases "i < length (mq_consumers s)") (simp_all add: map_update list_update_same_conv list_update_beyond)
  then have "?f ` set ((mq_consumers s)[i := (mq_consumers s ! i)\<lparr>cn_phase := p\<rparr>]) = ?f ` set (mq_consumers s)" by (simp only: list.set_map [symmetric])
  then show ?thesis by (simp add: consumer_ids_def set_phase_def)
qed

lemma consumer_ids_frame [simp]:
  "consumer_ids (push_chan c it s) = consumer_ids s" "consumer_ids (settle r it s) = consumer_ids s"
  "consumer_ids (start_handling i it s) = consumer_ids s" "consumer_ids (s\<lparr>mq_senders := xs\<rparr>) = consumer_ids s"
  "consumer_ids (s\<lparr>mq_chans := qs\<rparr>) = consumer_ids s" "consumer_ids (s\<lparr>mq_calls := cs\<rparr>) = consumer_ids s"
proof -
  show frame: "consumer_ids (s\<lparr>mq_calls := cs\<rparr>) = consumer_ids s" for cs by (simp add: consumer_ids_def)
  show "consumer_ids (start_handling i it s) = consumer_ids s" by (simp add: start_handling_def frame)
qed (simp_all add: consumer_ids_def push_chan_def settle_def)

lemma streams_inv_frame:
  assumes "streams_inv s" "consumer_ids s' \<subseteq> consumer_ids s" "mq_queue s' = mq_queue s" "set (mq_appends s') \<subseteq> set (mq_appends s)"
    "mq_accepted s' = mq_accepted s" "locations s' \<subseteq> locations s"
  shows "streams_inv s'"
  unfolding streams_inv_def
proof (intro conjI)
  show "\<forall>(c, g) \<in> locations s'. g < length (mq_accepted s') \<and> am_chan (mq_accepted s' ! g) = c"
    using assms(1,5,6) unfolding streams_inv_def by fastforce
  show "\<forall>(name, c) \<in> consumer_ids s'. mq_queue s' name = Some c \<and> (\<forall>a \<in> set (mq_appends s'). ac_stream a = name \<longrightarrow> ac_found a = Some c)"
    using assms(1-4) unfolding streams_inv_def by fastforce
qed

lemma locations_phase:
  assumes "at_phase s i q" "set_mset (phase_place p) \<subseteq> M" "\<And>x. x \<in> M \<Longrightarrow> (chan_of s i, fst (snd x)) \<in> locations s"
  shows "locations (set_phase i p s) \<subseteq> locations s"
proof -
  have "(\<lambda>x. (chan_of s i, fst (snd x))) ` set_mset (phase_place p) \<subseteq> locations s" using assms(2,3) by auto
  moreover have "locations (set_phase i p s) \<subseteq> locations s \<union> (\<lambda>x. (chan_of s i, fst (snd x))) ` set_mset (phase_place p)"
    using consumer_locations_set [of i p s] unfolding locations_def by auto
  ultimately show ?thesis by blast
qed

lemma locations_empty_phase: "phase_place p = {#} \<Longrightarrow> locations (set_phase i p s) \<subseteq> locations s"
  using consumer_locations_set [of i p s] by (auto simp: locations_def)

lemma locations_start: "locations (start_handling i it s) \<subseteq> insert (chan_of s i, fst it) (locations s)"
  using consumer_locations_set [of i "Handling it" "s\<lparr>mq_calls := mq_calls s @ [(fst it, ms_error_count (snd it))]\<rparr>"]
  by (auto simp: start_handling_def locations_def chan_of_def)

lemma locations_push: "locations (push_chan c it s) \<subseteq> insert (c, fst it) (locations s)"
  using chan_locations_push [of "mq_chans s" c it] by (auto simp: locations_def push_chan_def)

lemma locations_settle [simp]: "locations (settle r it s) = locations s"
  by (simp add: locations_def settle_def)

lemma locations_fewer: "locations (s\<lparr>mq_senders := remove_nth k (mq_senders s)\<rparr>) \<subseteq> locations s"
  unfolding locations_def using sender_locations_fewer [of k "mq_senders s"] by (intro Un_mono) simp_all

lemma locations_tl: "locations (s\<lparr>mq_chans := (mq_chans s)[c := tl (mq_chans s ! c)]\<rparr>) \<subseteq> locations s"
  using chan_locations_tl [of "mq_chans s" c] by (auto simp: locations_def)

lemma at_phase_locations: "at_phase s i q \<Longrightarrow> p \<in># phase_place q \<Longrightarrow> (chan_of s i, fst (snd p)) \<in> locations s"
  using at_phase_location [of s i q p] by (simp add: locations_def)

definition accepts_for :: "'v mem_queue \<Rightarrow> 'v mem_queue \<Rightarrow> bool" where
  "accepts_for s s' \<longleftrightarrow> mq_accepted s' = mq_accepted s \<or>
     (\<exists>a. mq_accepted s' = mq_accepted s @ [a] \<and> (\<forall>(name, c) \<in> consumer_ids s. am_stream a = name \<longrightarrow> am_chan a = c))"

lemma append_store_streams:
  assumes "streams_inv s" "queue_wf s" "k < length (mq_appends s)"
  shows "streams_inv (append_store k u s) \<and> consumer_ids (append_store k u s) = consumer_ids s \<and> accepts_for s (append_store k u s)"
proof -
  let ?a = "mq_appends s ! k" and ?s' = "append_store k u s"
  obtain c s1 where f: "find_queue (ac_found ?a) (ac_stream ?a) s = (c, s1)" by fastforce
  define m where "m = (if length (ms_id (ac_message ?a)) = 0 then (ac_message ?a)\<lparr>ms_id := u\<rparr> else ac_message ?a)"
  let ?acc = "\<lparr>am_stream = ac_stream ?a, am_chan = c, am_message = m\<rparr>"
  have s': "?s' = s1\<lparr>mq_appends := remove_nth k (mq_appends s1), mq_senders := mq_senders s1 @ [(c, length (mq_accepted s1), m)],
      mq_accepted := mq_accepted s1 @ [?acc]\<rparr>"
    using f by (simp add: append_store_def Let_def m_def)
  have s1: "mq_consumers s1 = mq_consumers s" "mq_appends s1 = mq_appends s" "mq_accepted s1 = mq_accepted s" "locations s1 = locations s"
    using find_queue_result [OF f] by (auto simp: locations_def)
  have ids: "consumer_ids ?s' = consumer_ids s" by (simp add: s' s1 consumer_ids_def)
  have a: "?a \<in> set (mq_appends s)" using assms(3) by simp
  have first: "mq_queue s name = Some d" "ac_stream ?a = name \<Longrightarrow> ac_found ?a = Some d"
    "b \<in> set (mq_appends s) \<Longrightarrow> ac_stream b = name \<Longrightarrow> ac_found b = Some d" if "(name, d) \<in> consumer_ids s" for name d b
    using assms(1) that a unfolding streams_inv_def by fastforce+
  have queue: "mq_queue s1 name = Some d" if "(name, d) \<in> consumer_ids s" for name d
    using find_queue_result [OF f] first(1,2) [OF that] by auto
  have target: "c = d" if "(name, d) \<in> consumer_ids s" "ac_stream ?a = name" for name d
    using find_queue_result [OF f] first(2) [OF that] by auto
  have loc: "locations ?s' = insert (c, length (mq_accepted s)) (locations s)" using s1 by (auto simp: s' locations_def)
  have "\<forall>(d, g) \<in> locations s. g < length (mq_accepted s) \<and> am_chan (mq_accepted s ! g) = d" using assms(1) by (simp add: streams_inv_def)
  then have "\<forall>(d, g) \<in> locations ?s'. g < length (mq_accepted ?s') \<and> am_chan (mq_accepted ?s' ! g) = d"
    unfolding loc by (auto simp: s' s1 nth_append)
  moreover have "\<forall>(name, d) \<in> consumer_ids ?s'. mq_queue ?s' name = Some d \<and> (\<forall>b \<in> set (mq_appends ?s'). ac_stream b = name \<longrightarrow> ac_found b = Some d)"
    unfolding ids using queue first(3) subsetD [OF set_remove_nth [of k "mq_appends s"]] by (auto simp: s' s1)
  moreover have "accepts_for s ?s'" using target by (auto simp: accepts_for_def s' s1)
  ultimately show ?thesis using ids by (simp add: streams_inv_def)
qed

lemma worker_step_locations:
  assumes "worker_step s s'" "queue_wf s" "\<nexists>k u. k < length (mq_appends s) \<and> s' = append_store k u s"
  shows "locations s' \<subseteq> locations s"
  using assms(1)
proof (cases rule: worker_step.cases)
  case (do_send k)
  let ?s = "s\<lparr>mq_senders := remove_nth k (mq_senders s)\<rparr>"
  have "(fst (mq_senders s ! k), fst (snd (mq_senders s ! k))) \<in> locations s" using sender_location [OF do_send(2)] by (simp add: locations_def)
  with locations_push [of "fst (mq_senders s ! k)" "snd (mq_senders s ! k)" ?s] locations_fewer [of k s] show ?thesis
    by (auto simp: do_send(1) sender_send_def case_prod_unfold)
next
  case (do_hand k i)
  let ?s = "s\<lparr>mq_senders := remove_nth k (mq_senders s)\<rparr>"
  have i: "at_phase s i Receiving" "chan_of s i = fst (mq_senders s ! k)" using do_hand(3) by (auto simp: meets_def)
  have "(fst (mq_senders s ! k), fst (snd (mq_senders s ! k))) \<in> locations s" using sender_location [OF do_hand(2)] by (simp add: locations_def)
  with i(2) show ?thesis using locations_start [of i "snd (mq_senders s ! k)" ?s] locations_fewer [of k s] by (auto simp: do_hand(1) sender_hand_def chan_of_def)
next
  case (do_receive i)
  let ?c = "chan_of s i" and ?it = "hd (mq_chans s ! chan_of s i)"
  let ?s = "s\<lparr>mq_chans := (mq_chans s)[?c := tl (mq_chans s ! ?c)]\<rparr>"
  have "?c < length (mq_chans s)"
    using do_receive(2) by (intro used_chans_less [OF assms(2)]) (force simp: used_chans_def chan_of_def at_phase_def)
  then have "(?c, fst ?it) \<in> locations s" using chan_locations_hd [OF _ do_receive(3)] by (simp add: locations_def)
  then show ?thesis using locations_start [of i ?it ?s] locations_tl [of s ?c] by (auto simp: do_receive(1) consume_receive_def Let_def chan_of_def)
next
  case (do_return i it failed)
  then have it: "(chan_of s i, fst it) \<in> locations s" using at_phase_locations [OF do_return(2), of "(True, it)"] by simp
  have "locations (set_phase i (Backoff (fst it, m)) s) \<subseteq> locations s" for m
    by (rule locations_phase [OF do_return(2), where M = "{(False, fst it, m)}"]) (use it in auto)
  with locations_empty_phase [of Receiving i s] show ?thesis by (simp add: do_return(1) consume_returned_def)
next
  case (do_elapsed i it)
  have "(chan_of s i, fst it) \<in> locations s" using at_phase_locations [OF do_elapsed(2), of "(False, it)"] by simp
  then show ?thesis unfolding do_elapsed(1) by (intro locations_phase [OF do_elapsed(2), where M = "{(False, it)}"]) auto
next
  case (do_requeue i it)
  have "(chan_of s i, fst it) \<in> locations s" using at_phase_locations [OF do_requeue(2), of "(False, it)"] by simp
  with locations_push [of "chan_of s i" it "set_phase i Receiving s"] locations_empty_phase [of Receiving i s] show ?thesis
    by (auto simp: do_requeue(1) requeue_send_def chan_of_def)
next
  case (do_requeue_hand i it j)
  have "(chan_of s i, fst it) \<in> locations s" using at_phase_locations [OF do_requeue_hand(2), of "(False, it)"] by simp
  moreover have j: "chan_of s j = chan_of s i" "j < length (mq_consumers s)" using do_requeue_hand(3) by (auto simp: meets_def at_phase_def)
  ultimately show ?thesis using j locations_start [of j it "set_phase i Receiving s"] locations_empty_phase [of Receiving i s] by (auto simp: do_requeue_hand(1) requeue_hand_def)
next
  case (do_drop k)
  then show ?thesis using locations_fewer [of k s] by (simp add: sender_quit_def)
next
  case (do_quit i)
  then show ?thesis using locations_empty_phase [of Stopped i s] by (simp add: consume_quit_def)
next
  case (do_backoff_quit i it)
  then show ?thesis using locations_empty_phase [of Stopped i s] by (simp add: consume_drop_def)
next
  case (do_requeue_quit i it)
  then show ?thesis using locations_empty_phase [of Stopped i s] by (simp add: consume_drop_def)
qed (use assms(3) in \<open>auto simp: shutdown_swap_def shutdown_done_def Let_def locations_def\<close>)

lemma op_frame [simp]:
  "mq_queue (push_chan c it s) = mq_queue s" "mq_appends (push_chan c it s) = mq_appends s" "mq_cap (push_chan c it s) = mq_cap s"
  "mq_queue (settle r it s) = mq_queue s" "mq_appends (settle r it s) = mq_appends s" "mq_cap (settle r it s) = mq_cap s"
  "mq_queue (start_handling i it s) = mq_queue s" "mq_appends (start_handling i it s) = mq_appends s" "mq_cap (start_handling i it s) = mq_cap s"
  by (simp_all add: push_chan_def settle_def start_handling_def)

lemma consumer_ids_shutdown [simp]: "consumer_ids (shutdown_swap s) = consumer_ids s" "consumer_ids (shutdown_done s) = consumer_ids s"
  by (simp_all add: consumer_ids_def shutdown_swap_def shutdown_done_def Let_def)

lemma worker_step_frame:
  assumes "worker_step s s'" "\<nexists>k u. k < length (mq_appends s) \<and> s' = append_store k u s"
  shows "consumer_ids s' = consumer_ids s \<and> mq_queue s' = mq_queue s \<and> mq_appends s' = mq_appends s \<and> mq_accepted s' = mq_accepted s"
  using assms(1)
proof (cases rule: worker_step.cases)
  case (do_store k u)
  with assms(2) show ?thesis by blast
qed (simp_all add: sender_send_def sender_hand_def sender_quit_def consume_receive_def consume_quit_def consume_returned_def consume_drop_def
    requeue_send_def requeue_hand_def case_prod_unfold Let_def, simp_all add: shutdown_swap_def shutdown_done_def Let_def)

lemma worker_step_streams:
  assumes "worker_step s s'" "queue_wf s" "streams_inv s"
  shows "streams_inv s' \<and> consumer_ids s' = consumer_ids s \<and> accepts_for s s'"
proof (cases "\<exists>k u. k < length (mq_appends s) \<and> s' = append_store k u s")
  case True
  then show ?thesis using append_store_streams [OF assms(3,2)] by blast
next
  case False
  note frame = worker_step_frame [OF assms(1) False]
  with streams_inv_frame [OF assms(3), of s'] worker_step_locations [OF assms(1,2) False] show ?thesis by (simp add: accepts_for_def)
qed

lemma client_step_streams:
  assumes "client_step s s'" "streams_inv s"
  shows "streams_inv s' \<and> consumer_ids s \<subseteq> consumer_ids s' \<and> mq_accepted s' = mq_accepted s"
  using assms(1)
proof (cases rule: client_step.cases)
  case (do_append w stream m)
  have "mq_queue s name = Some c" if "(name, c) \<in> consumer_ids s" for name c using assms(2) that by (auto simp: streams_inv_def)
  then show ?thesis using assms(2) unfolding do_append append_load_def streams_inv_def
    by (auto simp: consumer_ids_def locations_def)
next
  case (do_register name)
  show ?thesis
  proof (cases "mq_closed s")
    case True
    then show ?thesis using assms(2) by (simp add: do_register(1) register_consumer_def)
  next
    case False
    obtain c s1 where f: "find_queue (mq_queue s name) name s = (c, s1)" by fastforce
    let ?new = "\<lparr>cn_name = name, cn_chan = c, cn_phase = Receiving\<rparr>"
    have s': "s' = s1\<lparr>mq_consumers := mq_consumers s1 @ [?new]\<rparr>" using False f by (simp add: do_register(1) register_consumer_def)
    have s1: "mq_consumers s1 = mq_consumers s" "mq_appends s1 = []" "mq_accepted s1 = mq_accepted s" "locations s1 = locations s" "mq_queue s1 name = Some c"
      "\<forall>n. n \<noteq> name \<longrightarrow> mq_queue s1 n = mq_queue s n" "\<forall>d. mq_queue s name = Some d \<longrightarrow> d = c"
      using find_queue_result [OF f] do_register(2) by (auto simp: locations_def)
    have ids: "consumer_ids s' = insert (name, c) (consumer_ids s)" by (simp add: s' s1 consumer_ids_def)
    have "locations s' = locations s1" by (simp add: s' locations_def consumer_locations_def)
    moreover have "mq_queue s' n = Some d" if "(n, d) \<in> consumer_ids s'" for n d
    proof (cases "n = name")
      case True
      with that s1 assms(2) show ?thesis unfolding ids streams_inv_def by (auto simp: s')
    next
      case False
      with that s1 assms(2) show ?thesis unfolding ids streams_inv_def by (auto simp: s')
    qed
    ultimately show ?thesis using assms(2) s1 ids by (auto simp: streams_inv_def s')
  qed
next
  case do_run
  then show ?thesis using assms(2) streams_inv_frame [OF assms(2), of "s\<lparr>mq_running := True, mq_wait := mq_wait s + 1\<rparr>"]
    by (cases "mq_closed s \<or> mq_running s") (simp_all add: run_begin_def consumer_ids_def locations_def)
next
  case do_shutdown
  then show ?thesis using streams_inv_frame [OF assms(2), of s'] by (simp add: shutdown_close_def consumer_ids_def locations_def)
qed

lemma queue_step_streams:
  assumes "queue_step s s'" "queue_wf s" "streams_inv s"
  shows "streams_inv s' \<and> consumer_ids s \<subseteq> consumer_ids s' \<and> accepts_for s s'"
  using assms(1)
proof (cases rule: queue_step.cases)
  case worker
  with worker_step_streams [OF _ assms(2,3)] show ?thesis by blast
next
  case client
  with client_step_streams [OF _ assms(3)] show ?thesis by (simp add: accepts_for_def)
qed

lemma queue_reachable_streams: "queue_reachable pool s \<Longrightarrow> streams_inv s"
proof (induction rule: queue_reachable_induct)
  case start
  show ?case by (simp add: streams_inv_def new_memory_def consumer_ids_def locations_def chan_locations_def consumer_locations_def)
next
  case (step s s')
  with queue_step_streams queue_reachable_wf show ?case by blast
qed

lemma queue_reachable_step: "queue_reachable pool s \<Longrightarrow> queue_step\<^sup>*\<^sup>* s s' \<Longrightarrow> queue_reachable pool s'"
  by (auto simp: queue_reachable_def)

lemma places_locations:
  assumes "(h, g, m) \<in># places s"
  shows "(\<exists>c. (c, g) \<in> locations s) \<or> (\<exists>r. (r, g, m) \<in> set (mq_settled s))"
proof -
  consider "(g, m) \<in> set (concat (mq_chans s))" | "\<exists>c. (c, g, m) \<in> set (mq_senders s)" |
    "(h, g, m) \<in># consumer_places (mq_consumers s)" | "\<exists>r. (r, g, m) \<in> set (mq_settled s)"
    using assms by (auto simp: places_def chan_places_def sender_places_def settled_places_def)
  then show ?thesis
  proof cases
    case 1
    then obtain q where "q \<in> set (mq_chans s)" "(g, m) \<in> set q" by auto
    then obtain c where "c < length (mq_chans s)" "(g, m) \<in> set (mq_chans s ! c)" by (metis in_set_conv_nth)
    then have "(c, g) \<in> chan_locations (mq_chans s)" by (force simp: chan_locations_iff)
    then show ?thesis by (auto simp: locations_def)
  next
    case 2
    then show ?thesis by (force simp: locations_def)
  next
    case 3
    have "(h, g, m) \<in># consumer_places cs \<Longrightarrow> \<exists>k \<in> set cs. (h, g, m) \<in># phase_place (cn_phase k)" for cs
      by (induction cs) (auto simp: consumer_places_def)
    with 3 obtain k where "k \<in> set (mq_consumers s)" "(h, g, m) \<in># phase_place (cn_phase k)" by blast
    then have "(cn_chan k, g) \<in> consumer_locations (mq_consumers s)" unfolding consumer_locations_def by force
    then show ?thesis by (auto simp: locations_def)
  qed blast
qed

text \<open>C30: A stream with a consumer loses nothing. Once a consumer is registered for a stream, the stream keeps the consumer's channel for good, and
  every message accepted for it afterwards is settled or at that channel: in it, with a sender to it, or with one of its consumers.\<close>

theorem registered_stream_delivers:
  assumes "queue_reachable pool s" "c \<in> set (mq_consumers s)" "queue_step\<^sup>*\<^sup>* s s'"
    "length (mq_accepted s) \<le> g" "g < length (mq_accepted s')" "am_stream (mq_accepted s' ! g) = cn_name c"
  shows "mq_queue s' (cn_name c) = Some (cn_chan c) \<and>
    ((cn_chan c, g) \<in> locations s' \<or> (\<exists>r m. (r, g, m) \<in> set (mq_settled s')))"
proof -
  let ?id = "(cn_name c, cn_chan c)"
  have "queue_reachable pool s' \<and> ?id \<in> consumer_ids s' \<and>
    (\<forall>h. length (mq_accepted s) \<le> h \<longrightarrow> h < length (mq_accepted s') \<longrightarrow> am_stream (mq_accepted s' ! h) = cn_name c \<longrightarrow> am_chan (mq_accepted s' ! h) = cn_chan c)"
    using assms(3)
  proof (induction rule: rtranclp_induct)
    case base
    show ?case using assms(1,2) by (auto simp: consumer_ids_def)
  next
    case (step y z)
    then have y: "queue_reachable pool y" "?id \<in> consumer_ids y" by blast+
    note step_inv = queue_step_streams [OF step(2) queue_reachable_wf [OF y(1)] queue_reachable_streams [OF y(1)]]
    have "queue_reachable pool z" using queue_reachable_step [OF y(1)] step(2) by blast
    moreover have "am_chan (mq_accepted z ! h) = cn_chan c"
      if h: "length (mq_accepted s) \<le> h" "h < length (mq_accepted z)" "am_stream (mq_accepted z ! h) = cn_name c" for h
      using step_inv step(3) y(2) h by (auto simp: accepts_for_def nth_append less_Suc_eq split: if_splits)
    ultimately show ?case using step_inv y(2) by blast
  qed
  then have s': "queue_reachable pool s'" "?id \<in> consumer_ids s'" and chan: "am_chan (mq_accepted s' ! g) = cn_chan c" using assms(4-6) by blast+
  note inv = queue_reachable_streams [OF s'(1)]
  have "g \<in># image_mset (\<lambda>p. fst (snd p)) (places s')" using queue_reachable_places [OF s'(1)] assms(5) by (simp add: places_inv_def)
  then obtain h m where "(h, g, m) \<in># places s'" by auto
  from places_locations [OF this] chan have "(cn_chan c, g) \<in> locations s' \<or> (\<exists>r m. (r, g, m) \<in> set (mq_settled s'))"
    using inv unfolding streams_inv_def by fastforce
  with inv s'(2) show ?thesis by (auto simp: streams_inv_def)
qed

subsection \<open>Shutdown\<close>

text \<open>The steps that senders, consumers and shutdowns can still make.\<close>

definition phase_work :: "'v phase \<Rightarrow> nat" where
  "phase_work p = (case p of Receiving \<Rightarrow> 1 | Handling it \<Rightarrow> 5 * attempts_left (snd it) | Backoff it \<Rightarrow> 5 * attempts_left (snd it) + 4
     | Requeueing it \<Rightarrow> 5 * attempts_left (snd it) + 3 | Stopped \<Rightarrow> 0)"

definition work :: "'v mem_queue \<Rightarrow> nat" where
  "work s = sum_list (map (\<lambda>a. 5 * attempts_left (ac_message a) + 2) (mq_appends s)) + sum_list (map (\<lambda>x. 5 * attempts_left (snd (snd x)) + 1) (mq_senders s)) +
     sum_list (map (\<lambda>q. sum_list (map (\<lambda>it. 5 * attempts_left (snd it)) q)) (mq_chans s)) +
     sum_list (map (\<lambda>c. phase_work (cn_phase c)) (mq_consumers s)) + 2 * mq_stopping s + mq_releasing s"

lemma attempts_left_pos: "0 < attempts_left m"
  by (simp add: attempts_left_def)

lemma attempts_left_again:
  "ms_error_count m < 3 \<Longrightarrow> attempts_left (m\<lparr>ms_error_count := ms_error_count m + 1\<rparr>) + 1 = attempts_left m"
  by (auto simp: attempts_left_def)

lemma sum_list_remove_nth: "k < length xs \<Longrightarrow> sum_list (map f xs) = f (xs ! k) + (sum_list (map f (remove_nth k xs)) :: nat)"
  by (subst id_take_nth_drop [of k xs]) (simp_all add: remove_nth_def)

lemma work_set_phase:
  assumes "at_phase s i q"
  shows "work (set_phase i p s) + phase_work q = work s + phase_work p"
  using sum_list_update_add [of i "mq_consumers s" "\<lambda>c. phase_work (cn_phase c)" "(mq_consumers s ! i)\<lparr>cn_phase := p\<rparr>"] assms
  by (simp add: work_def set_phase_def at_phase_def)

lemma work_senders: "k < length (mq_senders s) \<Longrightarrow>
  work s = 5 * attempts_left (snd (snd (mq_senders s ! k))) + 1 + work (s\<lparr>mq_senders := remove_nth k (mq_senders s)\<rparr>)"
  by (simp add: work_def sum_list_remove_nth [of k "mq_senders s"])

lemma work_push: "c < length (mq_chans s) \<Longrightarrow> work (push_chan c it s) = work s + 5 * attempts_left (snd it)"
  using sum_list_update_add [of c "mq_chans s" "\<lambda>q. sum_list (map (\<lambda>it. 5 * attempts_left (snd it)) q)" "mq_chans s ! c @ [it]"]
  by (simp add: work_def push_chan_def)

lemma work_pop:
  assumes "c < length (mq_chans s)" "mq_chans s ! c \<noteq> []"
  shows "work (s\<lparr>mq_chans := (mq_chans s)[c := tl (mq_chans s ! c)]\<rparr>) + 5 * attempts_left (snd (hd (mq_chans s ! c))) = work s"
proof -
  let ?f = "\<lambda>q. sum_list (map (\<lambda>it. 5 * attempts_left (snd it)) q)"
  have "?f (mq_chans s ! c) = 5 * attempts_left (snd (hd (mq_chans s ! c))) + ?f (tl (mq_chans s ! c))" using assms(2) by (cases "mq_chans s ! c") auto
  with sum_list_update_add [of c "mq_chans s" ?f "tl (mq_chans s ! c)"] assms(1) show ?thesis by (simp add: work_def)
qed

lemma work_settle [simp]: "work (settle r it s) = work s"
  by (simp add: work_def settle_def)

lemma work_start: "at_phase s i Receiving \<Longrightarrow> work (start_handling i it s) + 1 = work s + 5 * attempts_left (snd it)"
proof -
  let ?s = "s\<lparr>mq_calls := mq_calls s @ [(fst it, ms_error_count (snd it))]\<rparr>"
  assume "at_phase s i Receiving"
  then have "at_phase ?s i Receiving" by (simp add: at_phase_def)
  from work_set_phase [OF this, of "Handling it"] show ?thesis by (simp add: start_handling_def phase_work_def) (simp add: work_def)
qed

lemma find_queue_work: "find_queue found stream s = (c, s1) \<Longrightarrow> work s1 = work s"
  using find_queue_result [of found stream s c s1] by (auto simp: work_def)

lemma worker_step_work:
  assumes "worker_step s s'" "queue_wf s"
  shows "work s' < work s"
  using assms(1)
proof (cases rule: worker_step.cases)
  case (do_store k u)
  let ?a = "mq_appends s ! k"
  obtain c s1 where f: "find_queue (ac_found ?a) (ac_stream ?a) s = (c, s1)" by fastforce
  have "mq_appends s1 = mq_appends s" using find_queue_result [OF f] by auto
  moreover have "sum_list (map (\<lambda>a. 5 * attempts_left (ac_message a) + 2) (mq_appends s)) = 5 * attempts_left (ac_message ?a) + 2 +
      sum_list (map (\<lambda>a. 5 * attempts_left (ac_message a) + 2) (remove_nth k (mq_appends s)))"
    by (rule sum_list_remove_nth [OF do_store(2)])
  ultimately have "work s' + 1 = work s1" using f by (simp add: do_store(1) append_store_def Let_def work_def attempts_left_def)
  then show ?thesis using find_queue_work [OF f] by simp
next
  case (do_send k)
  have "fst (mq_senders s ! k) < length (mq_chans s)" using do_send by (intro used_chans_less [OF assms(2)]) (force simp: used_chans_def)
  with work_senders [OF do_send(2)] show ?thesis by (simp add: do_send(1) sender_send_def case_prod_unfold work_push)
next
  case (do_hand k i)
  have "at_phase (s\<lparr>mq_senders := remove_nth k (mq_senders s)\<rparr>) i Receiving" using do_hand(3) by (simp add: meets_def)
  from work_start [OF this, of "snd (mq_senders s ! k)"] work_senders [OF do_hand(2)] show ?thesis by (simp add: do_hand(1) sender_hand_def)
next
  case (do_drop k)
  from work_senders [OF do_drop(2)] show ?thesis by (simp add: do_drop(1) sender_quit_def)
next
  case (do_receive i)
  have c: "chan_of s i < length (mq_chans s)"
    using do_receive(2) by (intro used_chans_less [OF assms(2)]) (force simp: used_chans_def chan_of_def at_phase_def)
  have "at_phase (s\<lparr>mq_chans := (mq_chans s)[chan_of s i := tl (mq_chans s ! chan_of s i)]\<rparr>) i Receiving" using do_receive(2) by simp
  from work_start [OF this, of "hd (mq_chans s ! chan_of s i)"] work_pop [OF c do_receive(3)] show ?thesis
    by (simp add: do_receive(1) consume_receive_def Let_def chan_of_def)
next
  case (do_quit i)
  from work_set_phase [OF do_quit(2), of Stopped] show ?thesis by (simp add: do_quit(1) consume_quit_def phase_work_def)
next
  case (do_return i it failed)
  note w = work_set_phase [OF do_return(2)]
  have "work (set_phase i Receiving s) < work s" using w [of Receiving] attempts_left_pos [of "snd it"] by (simp add: phase_work_def)
  moreover have "work (set_phase i (Backoff (fst it, (snd it)\<lparr>ms_error_count := ms_error_count (snd it) + 1\<rparr>)) s) < work s" if "ms_error_count (snd it) < 3"
    using w [of "Backoff (fst it, (snd it)\<lparr>ms_error_count := ms_error_count (snd it) + 1\<rparr>)"] attempts_left_again [OF that] by (simp add: phase_work_def)
  ultimately show ?thesis by (simp add: do_return(1) consume_returned_def)
next
  case (do_backoff_quit i it)
  from work_set_phase [OF do_backoff_quit(2), of Stopped] show ?thesis by (simp add: do_backoff_quit(1) consume_drop_def phase_work_def)
next
  case (do_requeue_quit i it)
  from work_set_phase [OF do_requeue_quit(2), of Stopped] show ?thesis by (simp add: do_requeue_quit(1) consume_drop_def phase_work_def)
next
  case (do_elapsed i it)
  from work_set_phase [OF do_elapsed(2), of "Requeueing it"] show ?thesis by (simp add: do_elapsed(1) phase_work_def)
next
  case (do_requeue i it)
  have "chan_of s i < length (mq_chans s)"
    using do_requeue(2) by (intro used_chans_less [OF assms(2)]) (force simp: used_chans_def chan_of_def at_phase_def)
  with work_set_phase [OF do_requeue(2), of Receiving] show ?thesis by (simp add: do_requeue(1) requeue_send_def work_push chan_of_def phase_work_def)
next
  case (do_requeue_hand i it j)
  have "at_phase (set_phase i Receiving s) j Receiving" using do_requeue_hand(3) by (auto simp: meets_def at_phase_set_phase) (simp add: at_phase_def)
  from work_start [OF this, of it] work_set_phase [OF do_requeue_hand(2), of Receiving] show ?thesis
    by (simp add: do_requeue_hand(1) requeue_hand_def phase_work_def)
qed (auto simp: work_def shutdown_swap_def shutdown_done_def Let_def)

text \<open>The counters: no call is inside \<open>Append\<close> once the queue is closed, and the count of \<open>Run\<close> is never negative.\<close>

definition counts_inv :: "'v mem_queue \<Rightarrow> bool" where
  "counts_inv s \<longleftrightarrow> (mq_closed s \<longrightarrow> mq_appends s = []) \<and> (mq_closed s \<and> mq_running s \<longrightarrow> 0 < mq_stopping s) \<and>
     mq_wait s = (if mq_running s then 1 else 0) + int (mq_releasing s)"

lemma worker_step_counts:
  assumes "worker_step s s'" "counts_inv s"
  shows "counts_inv s' \<and> mq_closed s' = mq_closed s"
  using assms(1)
proof (cases rule: worker_step.cases)
  case (do_store k u)
  obtain c s1 where f: "find_queue (ac_found (mq_appends s ! k)) (ac_stream (mq_appends s ! k)) s = (c, s1)" by fastforce
  have "mq_closed s1 = mq_closed s" "mq_running s1 = mq_running s" "mq_stopping s1 = mq_stopping s" "mq_wait s1 = mq_wait s" "mq_releasing s1 = mq_releasing s"
    using find_queue_result [OF f] by auto
  with f do_store(2) assms(2) show ?thesis by (auto simp: do_store(1) append_store_def Let_def counts_inv_def)
qed (use assms(2) in \<open>auto simp: counts_inv_def worker_defs Let_def case_prod_unfold\<close>)

lemma client_step_counts:
  assumes "client_step s s'" "counts_inv s"
  shows "counts_inv s'"
  using assms(1)
proof (cases rule: client_step.cases)
  case (do_register name)
  obtain c s1 where f: "find_queue (mq_queue s name) name s = (c, s1)" by fastforce
  with find_queue_result [OF f] assms(2) show ?thesis by (auto simp: do_register(1) register_consumer_def counts_inv_def)
qed (use assms(2) in \<open>auto simp: counts_inv_def append_load_def run_begin_def shutdown_close_def\<close>)

lemma queue_reachable_counts: "queue_reachable pool s \<Longrightarrow> counts_inv s"
proof (induction rule: queue_reachable_induct)
  case start
  show ?case by (simp add: counts_inv_def new_memory_def)
qed (auto elim!: queue_step.cases dest: worker_step_counts client_step_counts)

lemma worker_steps_reachable: "queue_reachable pool s \<Longrightarrow> worker_step\<^sup>*\<^sup>* s s' \<Longrightarrow> queue_reachable pool s'"
  using mono_rtranclp [of worker_step queue_step] queue_reachable_step worker by metis

lemma worker_steps_work:
  assumes "queue_reachable pool s" "(worker_step ^^ n) s s'"
  shows "n + work s' \<le> work s"
  using assms(2)
proof (induction n arbitrary: s')
  case (Suc n)
  then obtain y where y: "(worker_step ^^ n) s y" "worker_step y s'" by auto
  then have "worker_step\<^sup>*\<^sup>* s y" by (meson relpowp_imp_rtranclp)
  then have "queue_reachable pool y" using worker_steps_reachable [OF assms(1)] by simp
  from worker_step_work [OF y(2) queue_reachable_wf [OF this]] Suc.IH [OF y(1)] show ?case by simp
qed simp

text \<open>When the queue is closed and nothing can step any more, everything has ended.\<close>

lemma closed_stuck_ended:
  assumes "counts_inv s" "mq_closed s" "\<nexists>t. worker_step s t"
  shows "run_returns s \<and> mq_senders s = [] \<and> mq_appends s = []"
proof -
  have stopped: "cn_phase (mq_consumers s ! i) = Stopped" if "i < length (mq_consumers s)" for i
  proof (cases "cn_phase (mq_consumers s ! i)")
    case Receiving
    then show ?thesis using do_quit [of s i] assms(2,3) that by (auto simp: at_phase_def)
  next
    case (Handling it)
    then show ?thesis using do_return [of s i it] assms(3) that by (auto simp: at_phase_def)
  next
    case (Backoff it)
    then show ?thesis using do_elapsed [of s i it] assms(3) that by (auto simp: at_phase_def)
  next
    case (Requeueing it)
    then show ?thesis using do_requeue_quit [of s i it] assms(2,3) that by (auto simp: at_phase_def)
  qed simp
  have "mq_senders s = []" using do_drop [of 0 s] assms(2,3) by (cases "mq_senders s") auto
  moreover have "mq_stopping s = 0" using do_swap [of s] assms(3) by auto
  moreover have "mq_releasing s = 0" using do_done [of s] assms(3) by auto
  ultimately show ?thesis using assms(1,2) stopped
    by (auto simp: counts_inv_def run_returns_def wait_returns_def list_all_length)
qed

text \<open>C31: Shutdown ends. From any reachable state the goroutines of the queue make at most \<open>work s\<close> steps before a client calls again; a consumer whose retries
  go on for ever does not exist. Once \<open>Shutdown\<close> has closed the queue every such run ends with all senders and consumers gone, so that \<open>Run\<close> and
  \<open>Wait\<close> return, whichever ready case each \<open>select\<close> takes. The count \<open>Run\<close> waits for is never negative.\<close>

theorem memory_queue_shuts_down:
  assumes "queue_reachable pool s"
  shows "0 \<le> mq_wait s \<and> (\<forall>n s'. (worker_step ^^ n) s s' \<longrightarrow> n \<le> work s) \<and>
    (mq_closed s \<longrightarrow> (\<forall>s'. worker_step\<^sup>*\<^sup>* s s' \<and> (\<nexists>t. worker_step s' t) \<longrightarrow> run_returns s' \<and> mq_senders s' = [] \<and> mq_appends s' = []))"
proof (intro conjI allI impI)
  show "0 \<le> mq_wait s" using queue_reachable_counts [OF assms] by (simp add: counts_inv_def)
  show "n \<le> work s" if "(worker_step ^^ n) s s'" for n s'
    using worker_steps_work [OF assms that] by simp
next
  fix s'
  assume closed: "mq_closed s" and run: "worker_step\<^sup>*\<^sup>* s s' \<and> (\<nexists>t. worker_step s' t)"
  then have "counts_inv s'" using queue_reachable_counts worker_steps_reachable [OF assms] by blast
  moreover have "mq_closed s'" using conjunct1 [OF run] closed queue_reachable_counts [OF assms]
  proof (induction rule: rtranclp_induct)
    case (step y z)
    have "counts_inv y" using step(1) queue_reachable_counts worker_steps_reachable [OF assms] by blast
    with step worker_step_counts show ?case by blast
  qed
  ultimately show "run_returns s'" "mq_senders s' = []" "mq_appends s' = []" using closed_stuck_ended run by blast+
qed

subsection \<open>Sample runs\<close>

definition sample_message :: "string \<Rightarrow> unit message" where
  "sample_message v = \<lparr>ms_id = v, ms_values = (), ms_error_count = 0\<rparr>"

definition sample_append :: "string \<Rightarrow> unit mem_queue \<Rightarrow> unit mem_queue" where
  "sample_append v s = append_store 0 ''u'' (snd (append_load Client ''jobs'' (sample_message v) s))"

definition sample_registered :: "int \<Rightarrow> unit mem_queue" where
  "sample_registered pool = register_consumer ''jobs'' (new_memory pool)"

definition sample_handling :: "int \<Rightarrow> unit mem_queue" where
  "sample_handling pool = sender_hand 0 0 (sample_append ''a'' (sample_registered pool))"

definition sample_blocked :: "int \<Rightarrow> unit mem_queue" where
  "sample_blocked pool = (let s = consume_returned True 0 (0, sample_message ''a'') (sample_handling pool)
     in set_phase 0 (Requeueing (0, (sample_message ''a'')\<lparr>ms_error_count := 1\<rparr>)) s)"

lemmas sample_defs = sample_message_def sample_append_def sample_registered_def sample_handling_def sample_blocked_def new_memory_def register_consumer_def
  append_load_def find_queue_def make_queue_def append_store_def remove_nth_def sender_hand_def start_handling_def set_phase_def consume_returned_def Let_def

lemma step_reachable: "queue_reachable pool s \<Longrightarrow> queue_step s s' \<Longrightarrow> queue_reachable pool s'"
  using queue_reachable_step by blast

lemma sample_registered_reachable: "queue_reachable pool (sample_registered pool)"
  unfolding sample_registered_def
  by (rule step_reachable [of _ "new_memory pool"], simp add: queue_reachable_def) (rule client, rule do_register, simp add: new_memory_def)

lemma sample_append_reachable:
  assumes "queue_reachable pool s" "\<not> mq_closed s"
  shows "queue_reachable pool (sample_append v s)"
  unfolding sample_append_def
proof (rule step_reachable)
  show "queue_reachable pool (snd (append_load Client ''jobs'' (sample_message v) s))"
    by (rule step_reachable [OF assms(1)]) (rule client, rule do_append)
qed (rule worker, rule do_store, use assms(2) in \<open>simp_all add: append_load_def\<close>)

lemma sample_handling_reachable: "pool \<le> 0 \<Longrightarrow> queue_reachable pool (sample_handling pool)"
  unfolding sample_handling_def
  by (rule step_reachable, rule sample_append_reachable [OF sample_registered_reachable], simp add: sample_registered_def register_consumer_def new_memory_def find_queue_def make_queue_def)
    (rule worker, rule do_hand, simp_all add: sample_defs meets_def at_phase_def chan_of_def)

lemma sample_handling_state:
  "mq_consumers (sample_handling pool) = [\<lparr>cn_name = ''jobs'', cn_chan = 0, cn_phase = Handling (0, sample_message ''a'')\<rparr>]"
  "mq_chans (sample_handling pool) = [[]]" "mq_closed (sample_handling pool) = False" "mq_cap (sample_handling pool) = nat pool"
  by (simp_all add: sample_defs)

lemma sample_blocked_reachable: "pool \<le> 0 \<Longrightarrow> queue_reachable pool (sample_blocked pool)"
  unfolding sample_blocked_def Let_def
proof (rule step_reachable)
  let ?s = "consume_returned True 0 (0, sample_message ''a'') (sample_handling pool)"
  assume "pool \<le> 0"
  show "queue_reachable pool ?s"
    by (rule step_reachable [OF sample_handling_reachable [OF \<open>pool \<le> 0\<close>]]) (rule worker, rule do_return, simp add: at_phase_def sample_handling_state)
  show "queue_step ?s (set_phase 0 (Requeueing (0, (sample_message ''a'')\<lparr>ms_error_count := 1\<rparr>)) ?s)"
    by (rule worker, rule do_elapsed) (simp add: at_phase_def consume_returned_def set_phase_def sample_handling_state, simp add: sample_message_def)
qed

lemma memory_queue_exactly_once_witness:
  "image_mset (\<lambda>(handed, g, m). g) (places (sample_blocked 0)) = {#0#} \<and> calls_of 0 (mq_calls (sample_blocked 0)) = [0]"
proof -
  have state: "mq_consumers (sample_blocked 0) = [\<lparr>cn_name = ''jobs'', cn_chan = 0, cn_phase = Requeueing (0, (sample_message ''a'')\<lparr>ms_error_count := 1\<rparr>)\<rparr>]"
    "length (mq_accepted (sample_blocked 0)) = 1" "am_message (mq_accepted (sample_blocked 0) ! 0) = sample_message ''a''"
    by (simp_all add: sample_defs)
  then have "(False, 0, (sample_message ''a'')\<lparr>ms_error_count := 1\<rparr>) \<in># places (sample_blocked 0)"
    by (simp add: places_def consumer_places_def)
  with memory_queue_exactly_once [OF sample_blocked_reachable [of 0]] state show ?thesis
    by (fastforce simp: sample_message_def)
qed

lemma registered_stream_delivers_witness:
  "mq_queue (sample_append ''a'' (sample_registered 0)) ''jobs'' = Some 0 \<and> (0, 0) \<in> locations (sample_append ''a'' (sample_registered 0))"
proof -
  let ?s = "sample_registered 0" and ?c = "\<lparr>cn_name = ''jobs'', cn_chan = 0, cn_phase = Receiving\<rparr>"
  have "queue_step ?s (snd (append_load Client ''jobs'' (sample_message ''a'') ?s))" by (rule client, rule do_append)
  moreover have "queue_step (snd (append_load Client ''jobs'' (sample_message ''a'') ?s)) (sample_append ''a'' ?s)"
    unfolding sample_append_def by (rule worker, rule do_store) (simp_all add: sample_defs)
  ultimately have run: "queue_step\<^sup>*\<^sup>* ?s (sample_append ''a'' ?s)" by (rule converse_rtranclp_into_rtranclp [OF _ r_into_rtranclp])
  have "?c \<in> set (mq_consumers ?s)" "length (mq_accepted ?s) \<le> 0" "0 < length (mq_accepted (sample_append ''a'' ?s))"
    "am_stream (mq_accepted (sample_append ''a'' ?s) ! 0) = cn_name ?c" "mq_settled (sample_append ''a'' ?s) = []"
    by (simp_all add: sample_defs)
  with registered_stream_delivers [OF sample_registered_reachable this(1) run this(2-4)] show ?thesis by simp
qed

lemma memory_queue_shuts_down_witness:
  "run_returns (shutdown_swap (consume_quit 0 (shutdown_close (sample_registered 1))))"
proof -
  let ?s = "shutdown_close (sample_registered 1)"
  let ?q = "consume_quit 0 ?s"
  have reach: "queue_reachable 1 ?s"
    by (rule step_reachable [OF sample_registered_reachable]) (rule client, rule do_shutdown, simp add: sample_defs)
  have "worker_step ?s ?q" by (rule do_quit) (simp_all add: at_phase_def shutdown_close_def sample_defs)
  moreover have "worker_step ?q (shutdown_swap ?q)" by (rule do_swap) (simp add: consume_quit_def shutdown_close_def)
  ultimately have run: "worker_step\<^sup>*\<^sup>* ?s (shutdown_swap ?q)" by (rule converse_rtranclp_into_rtranclp [OF _ r_into_rtranclp])
  have "mq_consumers (shutdown_swap ?q) = [\<lparr>cn_name = ''jobs'', cn_chan = 0, cn_phase = Stopped\<rparr>]" "mq_appends (shutdown_swap ?q) = []"
    "mq_senders (shutdown_swap ?q) = []" "mq_stopping (shutdown_swap ?q) = 0" "mq_releasing (shutdown_swap ?q) = 0"
    by (simp_all add: shutdown_swap_def consume_quit_def shutdown_close_def sample_defs)
  then have "\<nexists>t. worker_step (shutdown_swap ?q) t" by (auto elim!: worker_stepE simp: at_phase_def meets_def)
  with memory_queue_shuts_down [OF reach] run show ?thesis by (simp add: shutdown_close_def)
qed

end
