(* ===== verification/Memory_Queue_Faults.thy ===== *)
theory Memory_Queue_Faults
  imports Memory_Queue
begin

text \<open>
  Two ways in which the in-memory queue loses or blocks messages.

  Two first \<open>Append\<close> calls for one stream may both find no channel; each stores its own, and the message of the one whose channel is
  replaced is never received (\<open>racing_appends_lose_message\<close>). A consumer that repeats a message sends it to the channel it alone
  reads, so that a full channel, or one without a buffer, blocks it for good (\<open>consumer_blocks_itself\<close>).
\<close>

subsection \<open>Racing first appends\<close>

definition orphan :: "nat \<Rightarrow> 'v mem_queue \<Rightarrow> bool" where
  "orphan c s \<longleftrightarrow> c < length (mq_chans s) \<and> c \<notin> ran (mq_queue s) \<and> c \<notin> cn_chan ` set (mq_consumers s) \<and> Some c \<notin> ac_found ` set (mq_appends s)"

text \<open>A message starts to be handled at the channel of the consumer.\<close>

lemma worker_step_calls:
  assumes "worker_step s s'" "queue_wf s"
  shows "mq_calls s' = mq_calls s \<or> (\<exists>i h e. mq_calls s' = mq_calls s @ [(h, e)] \<and> at_phase s i Receiving \<and> (chan_of s i, h) \<in> locations s)"
  using assms(1)
proof (cases rule: worker_step.cases)
  case (do_store k u)
  obtain c s1 where f: "find_queue (ac_found (mq_appends s ! k)) (ac_stream (mq_appends s ! k)) s = (c, s1)" by fastforce
  with find_queue_result [OF f] show ?thesis by (auto simp: do_store(1) append_store_def Let_def)
next
  case (do_hand k i)
  have "(fst (mq_senders s ! k), fst (snd (mq_senders s ! k))) \<in> locations s" using sender_location [OF do_hand(2)] by (simp add: locations_def)
  moreover have "at_phase s i Receiving" "chan_of s i = fst (mq_senders s ! k)" using do_hand(3) by (auto simp: meets_def)
  ultimately have "at_phase s i Receiving \<and> (chan_of s i, fst (snd (mq_senders s ! k))) \<in> locations s" by simp
  then show ?thesis by (auto simp: do_hand(1) sender_hand_def)
next
  case (do_receive i)
  have i: "i < length (mq_consumers s)" using do_receive(2) by (simp add: at_phase_def)
  then have "chan_of s i < length (mq_chans s)" by (intro used_chans_less [OF assms(2)]) (force simp: used_chans_def chan_of_def)
  then have "(chan_of s i, fst (hd (mq_chans s ! chan_of s i))) \<in> locations s" using chan_locations_hd [OF _ do_receive(3)] by (simp add: locations_def)
  with do_receive(2) show ?thesis by (auto simp: do_receive(1) consume_receive_def Let_def chan_of_def)
next
  case (do_requeue_hand i it j)
  have "(chan_of s i, fst it) \<in> locations s" using at_phase_locations [OF do_requeue_hand(2), of "(False, it)"] by simp
  with do_requeue_hand(3) have "at_phase s j Receiving \<and> (chan_of s j, fst it) \<in> locations s" by (auto simp: meets_def)
  then show ?thesis by (auto simp: do_requeue_hand(1) requeue_hand_def)
qed (auto simp: sender_send_def sender_quit_def consume_quit_def consume_returned_def consume_drop_def requeue_send_def shutdown_swap_def shutdown_done_def
    case_prod_unfold Let_def)

lemma queue_step_orphan:
  assumes "queue_step s s'" "orphan c s" "queue_wf s"
  shows "orphan c s'"
  using assms(1)
proof (cases rule: queue_step.cases)
  case worker
  show ?thesis
  proof (cases "\<exists>k u. k < length (mq_appends s) \<and> s' = append_store k u s")
    case True
    then obtain k u where k: "k < length (mq_appends s)" "s' = append_store k u s" by blast
    let ?a = "mq_appends s ! k"
    obtain d s1 where f: "find_queue (ac_found ?a) (ac_stream ?a) s = (d, s1)" by fastforce
    have "set (remove_nth k (mq_appends s)) \<subseteq> set (mq_appends s)" by (rule set_remove_nth)
    with find_queue_result [OF f] f assms(2) show ?thesis
      by (auto simp: k(2) append_store_def Let_def orphan_def ran_def split: if_splits)
  next
    case False
    note frame = worker_step_frame [OF worker False]
    have "cn_chan ` set (mq_consumers s') = snd ` consumer_ids s'" "cn_chan ` set (mq_consumers s) = snd ` consumer_ids s"
      by (force simp: consumer_ids_def)+
    moreover have "length (mq_chans s') = length (mq_chans s)" using worker False
      by (cases rule: worker_step.cases) (auto simp: sender_send_def sender_hand_def sender_quit_def consume_receive_def consume_quit_def consume_returned_def
        consume_drop_def requeue_send_def requeue_hand_def shutdown_swap_def shutdown_done_def start_handling_def settle_def push_chan_def Let_def case_prod_unfold)
    ultimately show ?thesis using frame assms(2) by (simp add: orphan_def)
  qed
next
  case client
  then show ?thesis
  proof (cases rule: client_step.cases)
    case (do_register name)
    obtain d s1 where f: "find_queue (mq_queue s name) name s = (d, s1)" by fastforce
    with find_queue_result [OF f] assms(2) show ?thesis
      by (auto simp: do_register(1) register_consumer_def orphan_def ran_def split: if_splits)
  qed (use assms(2) in \<open>auto simp: append_load_def run_begin_def shutdown_close_def orphan_def ran_def\<close>)
qed

text \<open>Nothing at an abandoned channel is ever handled.\<close>

lemma orphan_not_handled:
  assumes "queue_reachable pool s" "orphan c s" "g < length (mq_accepted s)" "am_chan (mq_accepted s ! g) = c" "queue_step\<^sup>*\<^sup>* s s'"
  shows "calls_of g (mq_calls s') = calls_of g (mq_calls s)"
proof -
  have "queue_reachable pool s' \<and> orphan c s' \<and> g < length (mq_accepted s') \<and> am_chan (mq_accepted s' ! g) = c \<and> calls_of g (mq_calls s') = calls_of g (mq_calls s)"
    using assms(5)
  proof (induction rule: rtranclp_induct)
    case base
    show ?case using assms by simp
  next
    case (step y z)
    then have y: "queue_reachable pool y" "orphan c y" "g < length (mq_accepted y)" "am_chan (mq_accepted y ! g) = c" by blast+
    note wf = queue_reachable_wf [OF y(1)] and inv = queue_reachable_streams [OF y(1)]
    have "calls_of g (mq_calls z) = calls_of g (mq_calls y)" using step(2)
    proof (cases rule: queue_step.cases)
      case worker
      have "h \<noteq> g" if "at_phase y i Receiving" "(chan_of y i, h) \<in> locations y" for i h
      proof
        assume "h = g"
        with that(2) inv y(4) have "chan_of y i = c" by (auto simp: streams_inv_def)
        moreover have "chan_of y i \<in> cn_chan ` set (mq_consumers y)" using that(1) by (auto simp: chan_of_def at_phase_def)
        ultimately show False using y(2) by (simp add: orphan_def)
      qed
      with worker_step_calls [OF worker wf] show ?thesis by auto
    next
      case client
      then show ?thesis
      proof (cases rule: client_step.cases)
        case (do_register name)
        obtain d s1 where f: "find_queue (mq_queue y name) name y = (d, s1)" by fastforce
        with find_queue_result [OF f] show ?thesis by (auto simp: do_register(1) register_consumer_def)
      qed (auto simp: append_load_def run_begin_def shutdown_close_def)
    qed
    moreover have "queue_reachable pool z" using step_reachable y(1) step(2) by blast
    moreover have "orphan c z" by (rule queue_step_orphan [OF step(2) y(2) wf])
    moreover have "accepts_for y z" using queue_step_streams [OF step(2) wf inv] by blast
    ultimately show ?case using y step(3) by (auto simp: accepts_for_def nth_append)
  qed
  then show ?thesis by blast
qed

definition racing_appends :: "int \<Rightarrow> string \<Rightarrow> 'v message \<Rightarrow> 'v message \<Rightarrow> 'v mem_queue" where
  "racing_appends pool stream m1 m2 =
     append_store 0 ''u2'' (append_store 0 ''u1'' (snd (append_load Client stream m2 (snd (append_load Client stream m1 (new_memory pool))))))"

text \<open>C32: Two first appends lose a message. When two calls of \<open>Append\<close> for a new stream overlap, both succeed, and the first message is at a channel
  that nobody can find any more: whatever happens afterwards, consumers registered or not, it is never handled.\<close>

theorem racing_appends_lose_message:
  "queue_reachable pool (racing_appends pool stream m1 m2) \<and> map am_stream (mq_accepted (racing_appends pool stream m1 m2)) = [stream, stream] \<and>
   (\<forall>s'. queue_step\<^sup>*\<^sup>* (racing_appends pool stream m1 m2) s' \<longrightarrow> calls_of 0 (mq_calls s') = [])"
proof -
  let ?s1 = "snd (append_load Client stream m1 (new_memory pool))"
  let ?s2 = "snd (append_load Client stream m2 ?s1)"
  let ?s3 = "append_store 0 ''u1'' ?s2"
  let ?s = "racing_appends pool stream m1 m2"
  have "queue_reachable pool (new_memory pool :: 'a mem_queue)" by (simp add: queue_reachable_def)
  then have "queue_reachable pool ?s1" by (rule step_reachable) (rule client, rule do_append)
  then have "queue_reachable pool ?s2" by (rule step_reachable) (rule client, rule do_append)
  then have "queue_reachable pool ?s3" by (rule step_reachable) (rule worker, rule do_store, simp_all add: append_load_def new_memory_def)
  then have reach: "queue_reachable pool ?s" unfolding racing_appends_def
    by (rule step_reachable) (rule worker, rule do_store, simp_all add: sample_defs)
  have state: "mq_queue ?s = [stream \<mapsto> 1]" "length (mq_chans ?s) = 2" "mq_consumers ?s = []" "mq_appends ?s = []" "mq_calls ?s = []"
    "map am_stream (mq_accepted ?s) = [stream, stream]" "map am_chan (mq_accepted ?s) = [0, 1]"
    by (simp_all add: racing_appends_def sample_defs)
  have "orphan 0 ?s" by (simp add: orphan_def state)
  moreover have "0 < length (mq_accepted ?s)" using state(6) by (metis length_map length_Cons zero_less_Suc)
  moreover have "am_chan (mq_accepted ?s ! 0) = 0" using state(7) by (metis calculation(2) nth_Cons_0 nth_map)
  ultimately show ?thesis using reach orphan_not_handled [OF reach] state(5,6) by (auto simp: calls_of_def)
qed

lemma racing_appends_lose_message_witness:
  "calls_of 0 (mq_calls (register_consumer ''jobs'' (racing_appends 1 ''jobs'' (sample_message ''a'') (sample_message ''b'')))) = []"
proof -
  let ?s = "racing_appends 1 ''jobs'' (sample_message ''a'') (sample_message ''b'')"
  have "queue_step ?s (register_consumer ''jobs'' ?s)"
    by (rule client, rule do_register) (simp add: racing_appends_def sample_defs)
  then have "queue_step\<^sup>*\<^sup>* ?s (register_consumer ''jobs'' ?s)" by (rule r_into_rtranclp)
  with racing_appends_lose_message [of 1 "''jobs''" "sample_message ''a''" "sample_message ''b''"] show ?thesis by blast
qed

subsection \<open>A consumer that blocks itself\<close>

definition chan_consumers :: "nat \<Rightarrow> 'v mem_queue \<Rightarrow> nat set" where
  "chan_consumers c s = {i. i < length (mq_consumers s) \<and> chan_of s i = c}"

definition self_blocked :: "nat \<Rightarrow> nat \<Rightarrow> 'v item \<Rightarrow> 'v item list \<Rightarrow> 'v mem_queue \<Rightarrow> bool" where
  "self_blocked c i it q s \<longleftrightarrow> \<not> mq_closed s \<and> at_phase s i (Requeueing it) \<and> chan_consumers c s = {i} \<and>
     c < length (mq_chans s) \<and> mq_chans s ! c = q \<and> mq_cap s \<le> length q"

lemma chan_consumers_set_phase [simp]: "chan_consumers c (set_phase i p s) = chan_consumers c s"
  by (auto simp: chan_consumers_def)

lemma chan_consumers_frame [simp]:
  "chan_consumers c (push_chan d it s) = chan_consumers c s" "chan_consumers c (settle r it s) = chan_consumers c s"
  "chan_consumers c (start_handling i it s) = chan_consumers c s" "chan_consumers c (s\<lparr>mq_senders := xs\<rparr>) = chan_consumers c s"
  "chan_consumers c (s\<lparr>mq_chans := qs\<rparr>) = chan_consumers c s" "chan_consumers c (s\<lparr>mq_calls := cs\<rparr>) = chan_consumers c s"
proof -
  show frame: "chan_consumers c (s\<lparr>mq_calls := cs\<rparr>) = chan_consumers c s" for cs by (simp add: chan_consumers_def chan_of_def)
  show "chan_consumers c (start_handling i it s) = chan_consumers c s" by (simp add: start_handling_def frame)
qed (simp_all add: chan_consumers_def push_chan_def settle_def chan_of_def)

lemma at_phase_frame [simp]:
  "at_phase (push_chan d it s) i p = at_phase s i p" "at_phase (settle r it s) i p = at_phase s i p" "at_phase (s\<lparr>mq_calls := cs\<rparr>) i p = at_phase s i p"
  by (simp_all add: at_phase_def push_chan_def settle_def)

lemma at_phase_start: "at_phase (start_handling j it s) i p = (if j = i then i < length (mq_consumers s) \<and> p = Handling it else at_phase s i p)"
  by (simp add: start_handling_def at_phase_set_phase)

lemma at_phase_eq: "at_phase s i p \<Longrightarrow> at_phase s i q \<Longrightarrow> p = q"
  by (simp add: at_phase_def)

lemma mq_chans_push: "mq_chans (push_chan d it s) = (mq_chans s)[d := mq_chans s ! d @ [it]]"
  by (simp add: push_chan_def)

lemma mq_simps_start [simp]: "mq_chans (start_handling i it s) = mq_chans s" "mq_chans (settle r it s) = mq_chans s"
  by (simp_all add: start_handling_def settle_def)

lemma worker_step_self_blocked:
  assumes "worker_step s s'" "self_blocked c i it q s"
  shows "self_blocked c i it q s'"
proof -
  have b: "\<not> mq_closed s" "at_phase s i (Requeueing it)" "chan_consumers c s = {i}" "c < length (mq_chans s)" "mq_chans s ! c = q" "mq_cap s \<le> length q"
    using assms(2) by (auto simp: self_blocked_def)
  have full: "\<not> has_room s c" using b(5,6) by (simp add: has_room_def)
  have ci: "chan_of s i = c" and only: "j = i" if "j < length (mq_consumers s)" "chan_of s j = c" for j
    using b(3) that by (auto simp: chan_consumers_def)
  have other: "chan_of s j \<noteq> c \<and> j \<noteq> i" if "at_phase s j p" "p \<noteq> Requeueing it" for j p
    using only [of j] that b(2) by (auto simp: at_phase_def)
  have chan_i: "chan_of s i = c" using b(3) by (auto simp: chan_consumers_def)
  show ?thesis using assms(1)
  proof (cases rule: worker_step.cases)
    case (do_store k u)
    obtain d s1 where f: "find_queue (ac_found (mq_appends s ! k)) (ac_stream (mq_appends s ! k)) s = (d, s1)" by fastforce
    have s1: "mq_consumers s1 = mq_consumers s" "mq_closed s1 = mq_closed s" "mq_cap s1 = mq_cap s" "c < length (mq_chans s1)" "mq_chans s1 ! c = q"
      using find_queue_result [OF f] b(4,5) by (auto simp: nth_append)
    then have s': "mq_consumers s' = mq_consumers s" "mq_closed s' = mq_closed s" "mq_cap s' = mq_cap s" "c < length (mq_chans s')" "mq_chans s' ! c = q"
      using f by (simp_all add: do_store(1) append_store_def Let_def)
    have "at_phase s' i (Requeueing it)" "chan_consumers c s' = {i}" using b(2,3) s'(1) by (simp_all add: at_phase_def chan_consumers_def chan_of_def)
    with s' b show ?thesis by (simp add: self_blocked_def)
  next
    case (do_send k)
    with full b(5) have "fst (mq_senders s ! k) \<noteq> c" by auto
    with b show ?thesis by (simp add: do_send(1) sender_send_def case_prod_unfold self_blocked_def mq_chans_push)
  next
    case (do_hand k j)
    with other [of j Receiving] have "j \<noteq> i" by (simp add: meets_def)
    with b show ?thesis by (simp add: do_hand(1) sender_hand_def self_blocked_def at_phase_start)
  next
    case (do_receive j)
    with other [of j Receiving] have "j \<noteq> i" "chan_of s j \<noteq> c" by simp_all
    with b show ?thesis by (simp add: do_receive(1) consume_receive_def Let_def self_blocked_def at_phase_start chan_of_def)
  next
    case (do_return j x failed)
    with other [of j "Handling x"] have "j \<noteq> i" by simp
    with b show ?thesis by (simp add: do_return(1) consume_returned_def self_blocked_def at_phase_set_phase)
  next
    case (do_elapsed j x)
    with other [of j "Backoff x"] have "j \<noteq> i" by simp
    with b show ?thesis by (simp add: do_elapsed(1) self_blocked_def at_phase_set_phase)
  next
    case (do_requeue j x)
    then have "chan_of s j \<noteq> c" using full by auto
    moreover have "j \<noteq> i" using calculation chan_i by blast
    ultimately show ?thesis using b
      by (simp add: do_requeue(1) requeue_send_def self_blocked_def at_phase_set_phase mq_chans_push chan_of_def)
  next
    case (do_requeue_hand j x l)
    then have "l \<noteq> i" "chan_of s l = chan_of s j" "chan_of s l \<noteq> c" using other [of l Receiving] by (simp_all add: meets_def)
    moreover have "j \<noteq> i" using calculation chan_i by auto
    ultimately show ?thesis using b by (simp add: do_requeue_hand(1) requeue_hand_def self_blocked_def at_phase_start at_phase_set_phase)
  qed (use b in \<open>auto simp: sender_quit_def self_blocked_def shutdown_swap_def shutdown_done_def Let_def at_phase_def chan_consumers_def chan_of_def\<close>)
qed

lemma client_step_self_blocked:
  assumes "client_step s s'" "self_blocked c i it q s"
  shows "mq_closed s' \<or> chan_consumers c s' \<noteq> {i} \<or> self_blocked c i it q s'"
  using assms(1)
proof (cases rule: client_step.cases)
  case (do_register name)
  obtain d s1 where f: "find_queue (mq_queue s name) name s = (d, s1)" by fastforce
  from find_queue_result [OF f] assms(2) f show ?thesis
    by (auto simp: do_register(1) register_consumer_def self_blocked_def at_phase_def nth_append)
qed (use assms(2) in \<open>auto simp: append_load_def run_begin_def shutdown_close_def self_blocked_def at_phase_def chan_consumers_def chan_of_def\<close>)

lemma chan_consumers_grow:
  assumes "queue_step s s'"
  shows "chan_consumers c s \<subseteq> chan_consumers c s'"
proof -
  have "\<exists>zs. map cn_chan (mq_consumers s') = map cn_chan (mq_consumers s) @ zs" using assms
  proof (cases rule: queue_step.cases)
    case worker
    then show ?thesis
    proof (cases rule: worker_step.cases)
      case (do_store k u)
      obtain d s1 where f: "find_queue (ac_found (mq_appends s ! k)) (ac_stream (mq_appends s ! k)) s = (d, s1)" by fastforce
      with find_queue_result [OF f] show ?thesis by (auto simp: do_store(1) append_store_def Let_def)
    qed (simp_all add: sender_send_def sender_hand_def sender_quit_def consume_receive_def consume_quit_def consume_returned_def consume_drop_def
      requeue_send_def requeue_hand_def shutdown_swap_def shutdown_done_def start_handling_def settle_def push_chan_def Let_def case_prod_unfold
      flip: set_phase_names(1) [of _ _ s])
  next
    case client
    then show ?thesis
    proof (cases rule: client_step.cases)
      case (do_register name)
      obtain d s1 where f: "find_queue (mq_queue s name) name s = (d, s1)" by fastforce
      with find_queue_result [OF f] show ?thesis by (auto simp: do_register(1) register_consumer_def)
    qed (simp_all add: append_load_def run_begin_def shutdown_close_def)
  qed
  then obtain zs where zs: "map cn_chan (mq_consumers s') = map cn_chan (mq_consumers s) @ zs" ..
  have "i < length (mq_consumers s') \<and> chan_of s' i = chan_of s i" if "i < length (mq_consumers s)" for i
  proof -
    have "i < length (mq_consumers s')" using arg_cong [OF zs, of length] that by simp
    moreover have "map cn_chan (mq_consumers s') ! i = map cn_chan (mq_consumers s) ! i" using zs that by (simp add: nth_append)
    ultimately show ?thesis using that by (simp add: chan_of_def)
  qed
  then show ?thesis by (auto simp: chan_consumers_def)
qed

lemma queue_step_closed:
  assumes "queue_step s s'" "mq_closed s" "counts_inv s"
  shows "mq_closed s'"
  using assms(1)
proof (cases rule: queue_step.cases)
  case client
  then show ?thesis using assms(2) by (cases rule: client_step.cases) (simp_all add: append_load_def register_consumer_def run_begin_def shutdown_close_def)
qed (use worker_step_counts assms in blast)

lemma self_blocked_calls:
  assumes "queue_step s s'" "self_blocked c i it q s" "queue_wf s" "streams_inv s" "g < length (mq_accepted s')" "am_chan (mq_accepted s' ! g) = c"
  shows "calls_of g (mq_calls s') = calls_of g (mq_calls s)"
  using assms(1)
proof (cases rule: queue_step.cases)
  case worker
  have "h \<noteq> g" if j: "at_phase s j Receiving" "(chan_of s j, h) \<in> locations s" for j h
  proof
    assume "h = g"
    have acc: "accepts_for s s'" using queue_step_streams [OF assms(1,3,4)] by blast
    have "h < length (mq_accepted s)" "am_chan (mq_accepted s ! h) = chan_of s j" using j(2) assms(4) by (auto simp: streams_inv_def)
    then have "chan_of s j = c" using acc \<open>h = g\<close> assms(6) by (auto simp: accepts_for_def nth_append)
    moreover have "j < length (mq_consumers s)" using j(1) by (simp add: at_phase_def)
    ultimately have "j = i" using assms(2) by (auto simp: self_blocked_def chan_consumers_def)
    with j(1) assms(2) show False by (auto simp: self_blocked_def at_phase_def)
  qed
  with worker_step_calls [OF worker assms(3)] show ?thesis by auto
next
  case client
  then show ?thesis
  proof (cases rule: client_step.cases)
    case (do_register name)
    obtain d s1 where f: "find_queue (mq_queue s name) name s = (d, s1)" by fastforce
    with find_queue_result [OF f] show ?thesis by (auto simp: do_register(1) register_consumer_def)
  qed (auto simp: append_load_def run_begin_def shutdown_close_def)
qed

text \<open>A consumer can block itself for good. While a message waits to be repeated and the channel has no room (which is always so without a
  buffer), the only consumer of the channel stays blocked on sending to itself: until the queue is closed or another consumer is registered, it
  handles no message of the stream, and the channel stays full.\<close>

theorem consumer_blocks_itself:
  assumes "queue_reachable pool s" "at_phase s i (Requeueing it)" "\<not> has_room s (chan_of s i)"
    "queue_step\<^sup>*\<^sup>* s s'" "\<not> mq_closed s'" "chan_consumers (chan_of s i) s' = {i}"
  shows "at_phase s' i (Requeueing it) \<and> mq_chans s' ! chan_of s i = mq_chans s ! chan_of s i \<and>
    (\<forall>g < length (mq_accepted s'). am_chan (mq_accepted s' ! g) = chan_of s i \<longrightarrow> calls_of g (mq_calls s') = calls_of g (mq_calls s))"
proof -
  let ?c = "chan_of s i"
  let ?stuck = "\<lambda>y. self_blocked ?c i it (mq_chans s ! ?c) y \<and>
    (\<forall>g < length (mq_accepted y). am_chan (mq_accepted y ! g) = ?c \<longrightarrow> calls_of g (mq_calls y) = calls_of g (mq_calls s))"
  have i: "i < length (mq_consumers s)" using assms(2) by (simp add: at_phase_def)
  have "queue_reachable pool s' \<and> i \<in> chan_consumers ?c s' \<and> (mq_closed s' \<or> chan_consumers ?c s' \<noteq> {i} \<or> ?stuck s')"
    using assms(4)
  proof (induction rule: rtranclp_induct)
    case base
    have "?c < length (mq_chans s)" using i by (intro used_chans_less [OF queue_reachable_wf [OF assms(1)]]) (force simp: used_chans_def chan_of_def)
    then show ?case using assms(1-3) i by (auto simp: self_blocked_def has_room_def chan_consumers_def)
  next
    case (step y z)
    then have y: "queue_reachable pool y" "i \<in> chan_consumers ?c y" by blast+
    note wf = queue_reachable_wf [OF y(1)] and inv = queue_reachable_streams [OF y(1)]
    have z: "queue_reachable pool z" using step_reachable y(1) step(2) by blast
    have grow: "chan_consumers ?c y \<subseteq> chan_consumers ?c z" by (rule chan_consumers_grow [OF step(2)])
    consider "mq_closed y" | "chan_consumers ?c y \<noteq> {i}" | "?stuck y" using step(3) by blast
    then show ?case
    proof cases
      case 1
      with queue_step_closed [OF step(2)] queue_reachable_counts [OF y(1)] z grow y(2) show ?thesis by blast
    next
      case 2
      with z grow y(2) show ?thesis by blast
    next
      case 3
      have next_state: "mq_closed z \<or> chan_consumers ?c z \<noteq> {i} \<or> self_blocked ?c i it (mq_chans s ! ?c) z"
        using step(2) 3 worker_step_self_blocked client_step_self_blocked by (cases rule: queue_step.cases) blast+
      have "accepts_for y z" using queue_step_streams [OF step(2) wf inv] by blast
      then have keep: "g < length (mq_accepted y) \<and> am_chan (mq_accepted y ! g) = am_chan (mq_accepted z ! g) \<or>
          g = length (mq_accepted y)" if "g < length (mq_accepted z)" for g
        using that by (auto simp: accepts_for_def nth_append less_Suc_eq)
      have fresh: "calls_of g (mq_calls w) = []" if "queue_reachable pool w" "length (mq_accepted w) \<le> g" for w g
        using queue_reachable_places [OF that(1)] that(2) by (fastforce simp: places_inv_def calls_of_def filter_empty_conv)
      have "length (mq_accepted s) \<le> length (mq_accepted y)" using step(1)
      proof (induction rule: rtranclp_induct)
        case (step u v)
        have "queue_reachable pool u" using queue_reachable_step [OF assms(1) step(1)] .
        then have "accepts_for u v" using queue_step_streams [OF step(2)] queue_reachable_wf queue_reachable_streams by blast
        with step(3) show ?case by (auto simp: accepts_for_def)
      qed simp
      then have "calls_of g (mq_calls z) = calls_of g (mq_calls s)" if g: "g < length (mq_accepted z)" "am_chan (mq_accepted z ! g) = ?c" for g
        using self_blocked_calls [OF step(2) conjunct1 [OF 3] wf inv g] keep [OF g(1)] 3 g(2) fresh [OF y(1), of g] fresh [OF assms(1), of g] by auto
      with next_state z grow y(2) show ?thesis by blast
    qed
  qed
  with assms(5,6) show ?thesis by (simp add: self_blocked_def)
qed

lemma consumer_blocks_itself_witness:
  "at_phase (sample_append ''b'' (sample_blocked 0)) 0 (Requeueing (0, (sample_message ''a'')\<lparr>ms_error_count := 1\<rparr>))"
proof -
  let ?s = "sample_blocked 0"
  let ?it = "(0, (sample_message ''a'')\<lparr>ms_error_count := 1\<rparr>)"
  have "queue_step ?s (snd (append_load Client ''jobs'' (sample_message ''b'') ?s))" by (rule client, rule do_append)
  moreover have "queue_step (snd (append_load Client ''jobs'' (sample_message ''b'') ?s)) (sample_append ''b'' ?s)"
    unfolding sample_append_def by (rule worker, rule do_store) (simp_all add: sample_defs)
  ultimately have run: "queue_step\<^sup>*\<^sup>* ?s (sample_append ''b'' ?s)" by (rule converse_rtranclp_into_rtranclp [OF _ r_into_rtranclp])
  have "at_phase ?s 0 (Requeueing ?it)" "\<not> has_room ?s (chan_of ?s 0)" "\<not> mq_closed (sample_append ''b'' ?s)"
    "chan_consumers (chan_of ?s 0) (sample_append ''b'' ?s) = {0}"
    by (auto simp: sample_defs at_phase_def has_room_def chan_of_def chan_consumers_def)
  from consumer_blocks_itself [OF sample_blocked_reachable this(1,2) run this(3,4)] show ?thesis by simp
qed

end
