(* ===== verification/Memory_Queue_Delayed.thy ===== *)
theory Memory_Queue_Delayed
  imports Memory_Queue Timer_Engine
begin

text \<open>
  Delayed messages of the in-memory queue (queue/memory/memory.go: \<open>Schedule\<close>, \<open>Cancel\<close> and the callback), over the queue of
  \<open>Memory_Queue\<close> and the timer of \<open>Timer_Engine\<close>.

  A call of \<open>Schedule\<close> or \<open>Cancel\<close> is in \<open>dq_calls\<close> with what it does next; every access to the shared map, the timer and the queue is a
  step. A callback is numbered; \<open>dq_callbacks\<close> has what it closes over. The loop of the timer runs one callback at a time. The history
  \<open>dq_fired\<close> records which callbacks ran, and when.
\<close>

subsection \<open>State\<close>

record 'v delayed_message =
  dm_stream :: string
  dm_message :: "'v message"
  dm_due :: gotime

datatype 'v plan_call = ScheduleLoad "'v delayed_message" | ScheduleRemove "'v delayed_message" | ScheduleAdd "'v delayed_message" | ScheduleStore string
  | CancelRemove string

datatype 'v loop_place = LoopWaiting | LoopDelete "'v delayed_message" | LoopAppend "'v delayed_message" | LoopInAppend

record 'v delayed_queue =
  dq_mem :: "'v mem_queue"
  dq_engine :: timer_engine
  dq_plans :: "string set"
  dq_callbacks :: "'v delayed_message list"
  dq_calls :: "'v plan_call list"
  dq_loop :: "'v loop_place"
  dq_fired :: "(nat \<times> gotime) list"

definition new_delayed :: "int \<Rightarrow> 'v delayed_queue" where
  "new_delayed pool = \<lparr>dq_mem = new_memory pool, dq_engine = engine_start (new_engine 0), dq_plans = {}, dq_callbacks = [], dq_calls = [],
     dq_loop = LoopWaiting, dq_fired = []\<rparr>"

definition delayed_task_id :: "string \<Rightarrow> string \<Rightarrow> string" where
  "delayed_task_id stream v = stream @ [CHR 0x00] @ v"

definition task_id_of :: "'v delayed_message \<Rightarrow> string" where
  "task_id_of d = delayed_task_id (dm_stream d) (ms_id (dm_message d))"

subsection \<open>Schedule and Cancel\<close>

definition schedule_begin :: "'v delayed_message \<Rightarrow> 'v delayed_queue \<Rightarrow> go_err option \<times> 'v delayed_queue" where
  "schedule_begin d s =
     (if dm_stream d = [] then (Some (NewErr ''queue stream is empty''), s)
      else if ms_id (dm_message d) = [] then (Some (NewErr ''delayed message id is empty''), s)
      else if mq_closed (dq_mem s) then (Some err_queue_closed, s)
      else (None, s\<lparr>dq_calls := dq_calls s @ [ScheduleLoad d]\<rparr>))"

definition schedule_load :: "nat \<Rightarrow> 'v delayed_message \<Rightarrow> 'v delayed_queue \<Rightarrow> 'v delayed_queue" where
  "schedule_load k d s = s\<lparr>dq_calls := (dq_calls s)[k := (if task_id_of d \<in> dq_plans s then ScheduleRemove d else ScheduleAdd d)]\<rparr>"

definition schedule_remove :: "nat \<Rightarrow> 'v delayed_message \<Rightarrow> 'v delayed_queue \<Rightarrow> 'v delayed_queue" where
  "schedule_remove k d s = s\<lparr>dq_engine := snd (remove_task (task_id_of d) (dq_engine s)), dq_calls := (dq_calls s)[k := ScheduleAdd d]\<rparr>"

definition delayed_task :: "'v delayed_message \<Rightarrow> 'v delayed_queue \<Rightarrow> timer_task" where
  "delayed_task d s = new_timer_task (he_next_ctx (dq_engine s)) (task_id_of d) (dm_due d) [with_callback (Some (length (dq_callbacks s)))]"

text \<open>\<open>AddTask\<close>, at the time \<open>now\<close>; when the timer refuses the task the call ends with an error.\<close>

definition schedule_add :: "gotime \<Rightarrow> nat \<Rightarrow> 'v delayed_message \<Rightarrow> 'v delayed_queue \<Rightarrow> go_err option \<times> 'v delayed_queue" where
  "schedule_add now k d s =
     (let e = dq_engine s; (r, e') = add_task (\<lambda>_. None) now (Some (delayed_task d s)) (e\<lparr>he_next_ctx := he_next_ctx e + 1\<rparr>);
          s = s\<lparr>dq_engine := e', dq_callbacks := dq_callbacks s @ [d]\<rparr>
      in if r = [] then (Some (NewErr (''schedule delayed message failed: '' @ task_id_of d)), s\<lparr>dq_calls := remove_nth k (dq_calls s)\<rparr>)
         else (None, s\<lparr>dq_calls := (dq_calls s)[k := ScheduleStore (task_id_of d)]\<rparr>))"

definition schedule_store :: "nat \<Rightarrow> string \<Rightarrow> 'v delayed_queue \<Rightarrow> 'v delayed_queue" where
  "schedule_store k v s = s\<lparr>dq_plans := insert v (dq_plans s), dq_calls := remove_nth k (dq_calls s)\<rparr>"

definition cancel_begin :: "string \<Rightarrow> string \<Rightarrow> 'v delayed_queue \<Rightarrow> 'v delayed_queue" where
  "cancel_begin stream v s =
     (if stream = [] \<or> v = [] then s
      else let name = delayed_task_id stream v in
        if name \<in> dq_plans s then s\<lparr>dq_plans := dq_plans s - {name}, dq_calls := dq_calls s @ [CancelRemove name]\<rparr> else s)"

definition cancel_remove :: "nat \<Rightarrow> string \<Rightarrow> 'v delayed_queue \<Rightarrow> 'v delayed_queue" where
  "cancel_remove k v s = s\<lparr>dq_engine := snd (remove_task v (dq_engine s)), dq_calls := remove_nth k (dq_calls s)\<rparr>"

subsection \<open>The timer's loop\<close>

definition fire_task :: "gotime \<Rightarrow> 'v delayed_queue \<Rightarrow> 'v delayed_queue" where
  "fire_task now s =
     (case loop_step now (dq_engine s) of
        (LoopFire t, e) \<Rightarrow>
          (case tt_callback t of
             None \<Rightarrow> s\<lparr>dq_engine := e\<rparr>
           | Some k \<Rightarrow> s\<lparr>dq_engine := e, dq_loop := LoopDelete (dq_callbacks s ! k), dq_fired := dq_fired s @ [(k, now)]\<rparr>)
      | (_, e) \<Rightarrow> s\<lparr>dq_engine := e\<rparr>)"

definition loop_delete :: "'v delayed_message \<Rightarrow> 'v delayed_queue \<Rightarrow> 'v delayed_queue" where
  "loop_delete d s = s\<lparr>dq_plans := dq_plans s - {task_id_of d}, dq_loop := LoopAppend d\<rparr>"

text \<open>The callback's \<open>Append\<close>; an error is logged by the timer.\<close>

definition loop_append :: "'v delayed_message \<Rightarrow> 'v delayed_queue \<Rightarrow> 'v delayed_queue" where
  "loop_append d s =
     (case append_load TimerLoop (dm_stream d) (dm_message d) (dq_mem s) of
        (None, m) \<Rightarrow> s\<lparr>dq_mem := m, dq_loop := LoopInAppend\<rparr>
      | (Some e, m) \<Rightarrow> s\<lparr>dq_mem := m, dq_loop := LoopWaiting\<rparr>)"

definition loop_store :: "nat \<Rightarrow> string \<Rightarrow> 'v delayed_queue \<Rightarrow> 'v delayed_queue" where
  "loop_store j u s = s\<lparr>dq_mem := append_store j u (dq_mem s), dq_loop := LoopWaiting\<rparr>"

definition stop_timer :: "'v delayed_queue \<Rightarrow> 'v delayed_queue" where
  "stop_timer s = s\<lparr>dq_engine := engine_stop (dq_engine s)\<rparr>"

definition timer_appends :: "'v mem_queue \<Rightarrow> 'v append_call list" where
  "timer_appends m = filter (\<lambda>a. ac_caller a = TimerLoop) (mq_appends m)"

text \<open>The other steps of the queue; \<open>Shutdown\<close> stops the timer before it goes on.\<close>

inductive delayed_step :: "'v delayed_queue \<Rightarrow> 'v delayed_queue \<Rightarrow> bool" where
  mem: "queue_step (dq_mem s) m \<Longrightarrow> timer_appends m = timer_appends (dq_mem s) \<Longrightarrow> mq_stopping m < mq_stopping (dq_mem s) \<longrightarrow> he_stopped (dq_engine s) \<Longrightarrow>
    delayed_step s (s\<lparr>dq_mem := m\<rparr>)"
| begin_schedule: "delayed_step s (snd (schedule_begin d s))"
| load: "k < length (dq_calls s) \<Longrightarrow> dq_calls s ! k = ScheduleLoad d \<Longrightarrow> delayed_step s (schedule_load k d s)"
| remove: "k < length (dq_calls s) \<Longrightarrow> dq_calls s ! k = ScheduleRemove d \<Longrightarrow> delayed_step s (schedule_remove k d s)"
| add: "k < length (dq_calls s) \<Longrightarrow> dq_calls s ! k = ScheduleAdd d \<Longrightarrow> delayed_step s (snd (schedule_add now k d s))"
| store: "k < length (dq_calls s) \<Longrightarrow> dq_calls s ! k = ScheduleStore v \<Longrightarrow> delayed_step s (schedule_store k v s)"
| begin_cancel: "delayed_step s (cancel_begin stream v s)"
| cancel: "k < length (dq_calls s) \<Longrightarrow> dq_calls s ! k = CancelRemove v \<Longrightarrow> delayed_step s (cancel_remove k v s)"
| fire: "dq_loop s = LoopWaiting \<Longrightarrow> delayed_step s (fire_task now s)"
| callback_delete: "dq_loop s = LoopDelete d \<Longrightarrow> delayed_step s (loop_delete d s)"
| callback_append: "dq_loop s = LoopAppend d \<Longrightarrow> delayed_step s (loop_append d s)"
| callback_store: "dq_loop s = LoopInAppend \<Longrightarrow> j < length (mq_appends (dq_mem s)) \<Longrightarrow> ac_caller (mq_appends (dq_mem s) ! j) = TimerLoop \<Longrightarrow> u \<noteq> [] \<Longrightarrow>
    delayed_step s (loop_store j u s)"
| stop: "0 < mq_stopping (dq_mem s) \<Longrightarrow> delayed_step s (stop_timer s)"

definition delayed_reachable :: "int \<Rightarrow> 'v delayed_queue \<Rightarrow> bool" where
  "delayed_reachable pool s \<longleftrightarrow> delayed_step\<^sup>*\<^sup>* (new_delayed pool) s"

text \<open>The queue inside makes steps of its own only, so everything proved of it holds here.\<close>

lemma delayed_step_mem: "delayed_step s s' \<Longrightarrow> queue_step\<^sup>*\<^sup>* (dq_mem s) (dq_mem s')"
proof (induction rule: delayed_step.induct)
  case (callback_append s d)
  have "queue_step (dq_mem s) (snd (append_load TimerLoop (dm_stream d) (dm_message d) (dq_mem s)))" by (rule client, rule do_append)
  then show ?case by (auto simp: loop_append_def append_load_def split: if_splits)
next
  case (callback_store s j u)
  then have "queue_step (dq_mem s) (append_store j u (dq_mem s))" by (intro worker do_store)
  then show ?case by (auto simp: loop_store_def)
next
  case (fire s now)
  then show ?case by (auto simp: fire_task_def split: prod.split loop_action.split option.split)
qed (auto simp: schedule_begin_def schedule_load_def schedule_remove_def schedule_add_def schedule_store_def cancel_begin_def cancel_remove_def loop_delete_def
  stop_timer_def Let_def split: prod.split)

lemma delayed_reachable_mem: "delayed_reachable pool s \<Longrightarrow> queue_reachable pool (dq_mem s)"
  unfolding delayed_reachable_def
proof (induction rule: rtranclp_induct)
  case base
  show ?case by (simp add: new_delayed_def queue_reachable_def)
next
  case (step y z)
  then show ?case using delayed_step_mem queue_reachable_step by blast
qed

subsection \<open>At most once and not early\<close>

definition callbacks_of :: "timer_engine \<Rightarrow> nat list" where
  "callbacks_of e = map (\<lambda>t. the (tt_callback t)) (he_heap e)"

definition delayed_inv :: "'v delayed_queue \<Rightarrow> bool" where
  "delayed_inv s \<longleftrightarrow> engine_inv (dq_engine s) \<and> distinct (callbacks_of (dq_engine s) @ map fst (dq_fired s)) \<and>
     (\<forall>t \<in> set (he_heap (dq_engine s)). \<exists>k < length (dq_callbacks s). tt_callback t = Some k \<and> tt_at t = dm_due (dq_callbacks s ! k) \<and>
        tt_id t = task_id_of (dq_callbacks s ! k)) \<and>
     (\<forall>(k, now) \<in> set (dq_fired s). k < length (dq_callbacks s) \<and> dm_due (dq_callbacks s ! k) \<le> now)"

lemma delayed_task_simps [simp]:
  "tt_id (delayed_task d s) = task_id_of d" "tt_at (delayed_task d s) = dm_due d" "tt_callback (delayed_task d s) = Some (length (dq_callbacks s))"
  "tt_cron (delayed_task d s) = []" "tt_interval (delayed_task d s) = 0" "tt_ctx (delayed_task d s) = Some (he_next_ctx (dq_engine s))"
  by (simp_all add: delayed_task_def new_timer_task_def with_callback_def)

lemma task_id_nonempty [simp]: "task_id_of d \<noteq> []"
  by (simp add: task_id_of_def delayed_task_id_def)

lemma add_delayed_task:
  "add_task (\<lambda>_. None) now (Some (delayed_task d s)) e =
     (if \<not> he_running e \<or> dm_due d = 0 \<or> has_task e (task_id_of d) then ([], e) else (task_id_of d, push_task (delayed_task d s) e))"
proof -
  have same: "(delayed_task d s)\<lparr>tt_at := dm_due d\<rparr> = delayed_task d s" by (simp add: delayed_task_def new_timer_task_def with_callback_def)
  show ?thesis by (simp add: add_task_def same)
qed

lemma remove_task_cases:
  "snd (remove_task name e) = e \<or> (\<exists>t. map_of (he_tasks e) name = Some t \<and> he_running e \<and> snd (remove_task name e) = drop_task name t e)"
  by (auto simp: remove_task_def split: option.splits)

lemma distinct_mset: "mset xs = mset ys \<Longrightarrow> distinct (xs @ zs) = distinct (ys @ zs)"
  by (rule mset_eq_imp_distinct_iff) simp

lemma distinct_smaller: "mset xs = add_mset x (mset ys) \<Longrightarrow> distinct (xs @ zs) \<Longrightarrow> distinct (ys @ zs) \<and> x \<notin> set (ys @ zs)"
proof -
  assume "mset xs = add_mset x (mset ys)" "distinct (xs @ zs)"
  then have "distinct ((x # ys) @ zs)" using distinct_mset [of xs "x # ys" zs] by simp
  then show ?thesis by simp
qed

lemma callbacks_mset: "mset (he_heap e) = add_mset t (mset (he_heap e')) \<Longrightarrow> mset (callbacks_of e) = add_mset (the (tt_callback t)) (mset (callbacks_of e'))"
  by (simp add: callbacks_of_def)

lemma delayed_inv_drop:
  assumes "delayed_inv s" "engine_inv e'" "mset (he_heap (dq_engine s)) = add_mset t (mset (he_heap e'))"
  shows "delayed_inv (s\<lparr>dq_engine := e'\<rparr>)"
proof -
  have "set (he_heap e') \<subseteq> set (he_heap (dq_engine s))" by (metis assms(3) insert_subset set_mset_add_mset_insert set_mset_mset subset_insertI)
  moreover have "distinct (callbacks_of e' @ map fst (dq_fired s))"
    using distinct_smaller [OF callbacks_mset [OF assms(3)], of "map fst (dq_fired s)"] assms(1) by (simp add: delayed_inv_def)
  ultimately show ?thesis using assms(1,2) by (auto simp: delayed_inv_def)
qed

lemma delayed_inv_remove: "delayed_inv s \<Longrightarrow> delayed_inv (s\<lparr>dq_engine := snd (remove_task name (dq_engine s))\<rparr>)"
proof -
  assume inv: "delayed_inv s"
  then have e: "engine_inv (dq_engine s)" by (simp add: delayed_inv_def)
  from remove_task_cases [of name "dq_engine s"] show ?thesis
  proof (elim disjE exE conjE)
    fix t
    assume "map_of (he_tasks (dq_engine s)) name = Some t" "snd (remove_task name (dq_engine s)) = drop_task name t (dq_engine s)"
    with drop_task_inv [OF e this(1)] delayed_inv_drop [OF inv] show ?thesis by simp
  qed (use inv in simp)
qed

lemma delayed_inv_frame:
  assumes "delayed_inv s" "dq_engine s' = dq_engine s" "dq_callbacks s' = dq_callbacks s" "dq_fired s' = dq_fired s"
  shows "delayed_inv s'"
  using assms by (simp add: delayed_inv_def)

lemma delayed_inv_add:
  assumes inv: "delayed_inv s"
  shows "delayed_inv (snd (schedule_add now k d s))"
proof -
  let ?e = "(dq_engine s)\<lparr>he_next_ctx := he_next_ctx (dq_engine s) + 1\<rparr>" and ?t = "delayed_task d s"
  let ?s = "s\<lparr>dq_callbacks := dq_callbacks s @ [d]\<rparr>"
  have e: "engine_inv ?e" using inv by (simp add: delayed_inv_def engine_inv_def)
  have old: "delayed_inv (?s\<lparr>dq_engine := ?e\<rparr>)"
  proof -
    have "callbacks_of ?e = callbacks_of (dq_engine s)" by (simp add: callbacks_of_def)
    with inv e show ?thesis unfolding delayed_inv_def by (fastforce simp: nth_append)
  qed
  show ?thesis
  proof (cases "\<not> he_running ?e \<or> dm_due d = 0 \<or> has_task ?e (task_id_of d)")
    case True
    then have "dq_engine (snd (schedule_add now k d s)) = ?e \<and> dq_callbacks (snd (schedule_add now k d s)) = dq_callbacks s @ [d] \<and>
        dq_fired (snd (schedule_add now k d s)) = dq_fired s"
      by (auto simp: schedule_add_def add_delayed_task Let_def)
    with delayed_inv_frame [OF old] show ?thesis by simp
  next
    case False
    then have s': "dq_engine (snd (schedule_add now k d s)) = push_task ?t ?e \<and> dq_callbacks (snd (schedule_add now k d s)) = dq_callbacks s @ [d] \<and>
        dq_fired (snd (schedule_add now k d s)) = dq_fired s"
      by (auto simp: schedule_add_def add_delayed_task Let_def)
    have push: "engine_inv (push_task ?t ?e)" "mset (he_heap (push_task ?t ?e)) = add_mset ?t (mset (he_heap (dq_engine s)))"
      using push_task_inv [OF e, of ?t] False by simp_all
    have bounded: "k < length (dq_callbacks s)" if "k \<in> set (callbacks_of (dq_engine s) @ map fst (dq_fired s))" for k
      using that inv by (fastforce simp: delayed_inv_def callbacks_of_def)
    have "mset (callbacks_of (push_task ?t ?e)) = add_mset (length (dq_callbacks s)) (mset (callbacks_of (dq_engine s)))"
      using callbacks_mset [OF push(2)] by simp
    then have "distinct (callbacks_of (push_task ?t ?e) @ map fst (dq_fired s)) = distinct ((length (dq_callbacks s) # callbacks_of (dq_engine s)) @ map fst (dq_fired s))"
      by (intro distinct_mset) simp
    moreover have "distinct ((length (dq_callbacks s) # callbacks_of (dq_engine s)) @ map fst (dq_fired s))"
      using inv bounded [of "length (dq_callbacks s)"] by (auto simp: delayed_inv_def)
    moreover have "set (he_heap (push_task ?t ?e)) = insert ?t (set (he_heap (dq_engine s)))" by (metis push(2) set_mset_add_mset_insert set_mset_mset)
    ultimately show ?thesis using push(1) s' old by (auto simp: delayed_inv_def nth_append)
  qed
qed

lemma delayed_inv_fire:
  assumes inv: "delayed_inv s"
  shows "delayed_inv (fire_task now s)"
proof -
  obtain a e where r: "loop_step now (dq_engine s) = (a, e)" by fastforce
  have i: "engine_inv (dq_engine s)" using inv by (simp add: delayed_inv_def)
  show ?thesis
  proof (cases "\<exists>t. a = LoopFire t \<or> a = LoopSkip t")
    case False
    then have "e = dq_engine s" using loop_step_rest [OF r] by blast
    with False r inv show ?thesis by (auto simp: fire_task_def split: loop_action.split)
  next
    case True
    then obtain t where t: "a = LoopFire t \<or> a = LoopSkip t" by blast
    note step = loop_step_heap [OF i r t]
    have drop: "delayed_inv (s\<lparr>dq_engine := e\<rparr>)" by (rule delayed_inv_drop [OF inv step(1,2)])
    show ?thesis
    proof (cases "a = LoopFire t")
      case False
      with t r drop show ?thesis by (auto simp: fire_task_def)
    next
      case fire: True
      have "t \<in> set (he_heap (dq_engine s))" by (metis step(2) set_mset_mset union_single_eq_member)
      then obtain k where k: "k < length (dq_callbacks s)" "tt_callback t = Some k" "tt_at t = dm_due (dq_callbacks s ! k)"
        using inv by (auto simp: delayed_inv_def)
      have "distinct (callbacks_of e @ map fst (dq_fired s)) \<and> k \<notin> set (callbacks_of e @ map fst (dq_fired s))"
        using distinct_smaller [OF callbacks_mset [OF step(2)], of "map fst (dq_fired s)"] inv k(2) by (simp add: delayed_inv_def)
      with drop k step(3) fire r show ?thesis by (auto simp: fire_task_def delayed_inv_def)
    qed
  qed
qed

lemma delayed_step_inv: "delayed_step s s' \<Longrightarrow> delayed_inv s \<Longrightarrow> delayed_inv s'"
proof (induction rule: delayed_step.induct)
  case (stop s)
  then show ?case by (auto simp: stop_timer_def engine_stop_def delayed_inv_def Let_def engine_inv_def callbacks_of_def)
next
  case (remove k s d)
  then have "delayed_inv (s\<lparr>dq_engine := snd (remove_task (task_id_of d) (dq_engine s))\<rparr>)" by (intro delayed_inv_remove)
  then show ?case by (simp add: schedule_remove_def delayed_inv_def)
next
  case (cancel k s v)
  then have "delayed_inv (s\<lparr>dq_engine := snd (remove_task v (dq_engine s))\<rparr>)" by (intro delayed_inv_remove)
  then show ?case by (simp add: cancel_remove_def delayed_inv_def)
next
  case (add k s d now)
  then show ?case by (intro delayed_inv_add)
next
  case (fire s now)
  then show ?case by (intro delayed_inv_fire)
qed (simp_all add: delayed_inv_def schedule_begin_def schedule_load_def schedule_store_def cancel_begin_def loop_delete_def loop_append_def append_load_def
  loop_store_def Let_def)

lemma delayed_reachable_inv: "delayed_reachable pool s \<Longrightarrow> delayed_inv s"
  unfolding delayed_reachable_def
proof (induction rule: rtranclp_induct)
  case base
  show ?case by (simp add: new_delayed_def delayed_inv_def engine_start_def new_engine_def engine_inv_def callbacks_of_def)
qed (rule delayed_step_inv)

text \<open>The callbacks the timer has come from \<open>Schedule\<close>, and only those it has run.\<close>

definition fires_from :: "'v delayed_queue \<Rightarrow> 'v delayed_queue \<Rightarrow> bool" where
  "fires_from s s' \<longleftrightarrow> length (dq_callbacks s) \<le> length (dq_callbacks s') \<and>
     set (callbacks_of (dq_engine s')) \<subseteq> set (callbacks_of (dq_engine s)) \<union> {length (dq_callbacks s)..} \<and>
     fst ` set (dq_fired s) \<subseteq> fst ` set (dq_fired s') \<and> fst ` set (dq_fired s') \<subseteq> fst ` set (dq_fired s) \<union> set (callbacks_of (dq_engine s))"

lemma callbacks_smaller: "mset (he_heap e) = add_mset t (mset (he_heap e')) \<Longrightarrow> set (callbacks_of e') \<subseteq> set (callbacks_of e)"
proof -
  assume "mset (he_heap e) = add_mset t (mset (he_heap e'))"
  then have "set (he_heap e') \<subseteq> set (he_heap e)" by (metis insert_subset set_mset_add_mset_insert set_mset_mset subset_insertI)
  then show ?thesis by (auto simp: callbacks_of_def)
qed

lemma callbacks_remove: "engine_inv e \<Longrightarrow> set (callbacks_of (snd (remove_task name e))) \<subseteq> set (callbacks_of e)"
  using remove_task_cases [of name e] drop_task_inv(2) [of e name] callbacks_smaller by (metis order_refl)

lemma delayed_step_fires:
  assumes "delayed_step s s'" "delayed_inv s"
  shows "fires_from s s'"
  using assms
proof (induction rule: delayed_step.induct)
  case (remove k s d)
  then show ?case using callbacks_remove [of "dq_engine s" "task_id_of d"] by (auto simp: fires_from_def schedule_remove_def delayed_inv_def)
next
  case (cancel k s v)
  then show ?case using callbacks_remove [of "dq_engine s" v] by (auto simp: fires_from_def cancel_remove_def delayed_inv_def)
next
  case (stop s)
  then show ?case by (auto simp: fires_from_def stop_timer_def engine_stop_def Let_def callbacks_of_def)
next
  case (add k s d now)
  let ?e = "(dq_engine s)\<lparr>he_next_ctx := he_next_ctx (dq_engine s) + 1\<rparr>"
  have "engine_inv ?e" using add by (simp add: delayed_inv_def engine_inv_def)
  then have "mset (he_heap (push_task (delayed_task d s) ?e)) = add_mset (delayed_task d s) (mset (he_heap (dq_engine s)))" if "\<not> has_task ?e (task_id_of d)"
    using push_task_inv(2) [of ?e "delayed_task d s"] that by simp
  then have "set (he_heap (push_task (delayed_task d s) ?e)) = insert (delayed_task d s) (set (he_heap (dq_engine s)))" if "\<not> has_task ?e (task_id_of d)"
    using that by (metis set_mset_add_mset_insert set_mset_mset)
  then show ?case by (auto simp: fires_from_def schedule_add_def add_delayed_task Let_def callbacks_of_def split: if_splits)
next
  case (fire s now)
  obtain a e where r: "loop_step now (dq_engine s) = (a, e)" by fastforce
  show ?case
  proof (cases "\<exists>t. a = LoopFire t \<or> a = LoopSkip t")
    case False
    then have "e = dq_engine s" using loop_step_rest [OF r] by blast
    with False r show ?thesis by (auto simp: fires_from_def fire_task_def split: loop_action.split)
  next
    case True
    then obtain t where t: "a = LoopFire t \<or> a = LoopSkip t" by blast
    have "engine_inv (dq_engine s)" using fire by (simp add: delayed_inv_def)
    note step = loop_step_heap [OF this r t]
    have mem: "t \<in> set (he_heap (dq_engine s))" by (metis step(2) set_mset_mset union_single_eq_member)
    then have "the (tt_callback t) \<in> set (callbacks_of (dq_engine s))" by (auto simp: callbacks_of_def)
    with callbacks_smaller [OF step(2)] r t show ?thesis
      by (cases "tt_callback t") (auto simp: fires_from_def fire_task_def)
  qed
qed (auto simp: fires_from_def schedule_begin_def schedule_load_def schedule_store_def cancel_begin_def loop_delete_def loop_append_def append_load_def
  loop_store_def Let_def)

text \<open>C33: A delayed message is delivered at most once and not before its time. Each call of \<open>Schedule\<close> that the timer accepts appends its message to the
  queue at most once, at or after the time asked for; once its task is out of the timer without having fired, because it was cancelled or
  replaced, it never fires.\<close>

theorem delayed_fires_once:
  assumes "delayed_reachable pool s" "delayed_step\<^sup>*\<^sup>* s s'"
  shows "distinct (map fst (dq_fired s')) \<and> (\<forall>(k, now) \<in> set (dq_fired s'). k < length (dq_callbacks s') \<and> dm_due (dq_callbacks s' ! k) \<le> now) \<and>
    (\<forall>k < length (dq_callbacks s). k \<notin> set (callbacks_of (dq_engine s)) \<longrightarrow> k \<notin> fst ` set (dq_fired s) \<longrightarrow> k \<notin> fst ` set (dq_fired s'))"
proof -
  have reach: "delayed_reachable pool y" if "delayed_step\<^sup>*\<^sup>* s y" for y
    using assms(1) that by (auto simp: delayed_reachable_def)
  have "k \<notin> set (callbacks_of (dq_engine s')) \<and> k \<notin> fst ` set (dq_fired s') \<and> length (dq_callbacks s) \<le> length (dq_callbacks s')"
    if k: "k < length (dq_callbacks s)" "k \<notin> set (callbacks_of (dq_engine s))" "k \<notin> fst ` set (dq_fired s)" for k
    using assms(2)
  proof (induction rule: rtranclp_induct)
    case base
    show ?case using k by simp
  next
    case (step y z)
    have "fires_from y z" using delayed_step_fires [OF step(2) delayed_reachable_inv [OF reach [OF step(1)]]] .
    with step(3) k(1) show ?case by (auto simp: fires_from_def subset_iff)
  qed
  with delayed_reachable_inv [OF reach [OF assms(2)]] show ?thesis by (auto simp: delayed_inv_def)
qed

subsection \<open>A cancelled message that is delivered\<close>

definition sample_delayed :: "gotime \<Rightarrow> unit delayed_message" where
  "sample_delayed due = \<lparr>dm_stream = ''jobs'', dm_message = \<lparr>ms_id = ''a'', ms_values = (), ms_error_count = 0\<rparr>, dm_due = due\<rparr>"

definition sample_planned :: "unit delayed_queue" where
  "sample_planned = schedule_store 0 (task_id_of (sample_delayed 10))
     (snd (schedule_add 1 0 (sample_delayed 10) (schedule_load 0 (sample_delayed 10) (snd (schedule_begin (sample_delayed 10) (new_delayed 1))))))"

definition sample_replanned :: "unit delayed_queue" where
  "sample_replanned = schedule_store 0 (task_id_of (sample_delayed 30)) (snd (schedule_add 21 0 (sample_delayed 30)
     (schedule_remove 0 (sample_delayed 30) (schedule_load 0 (sample_delayed 30) (snd (schedule_begin (sample_delayed 30) (fire_task 20 sample_planned)))))))"

definition sample_forgotten :: "unit delayed_queue" where
  "sample_forgotten = loop_store 0 ''u'' (loop_append (sample_delayed 10) (loop_delete (sample_delayed 10) sample_replanned))"

lemma delayed_snoc: "delayed_reachable pool s \<Longrightarrow> delayed_step s s' \<Longrightarrow> delayed_reachable pool s'"
  by (auto simp: delayed_reachable_def)

lemma sample_planned_reachable: "delayed_reachable 1 sample_planned"
proof -
  let ?d = "sample_delayed 10"
  let ?s1 = "snd (schedule_begin ?d (new_delayed 1))"
  let ?s2 = "schedule_load 0 ?d ?s1"
  let ?s3 = "snd (schedule_add 1 0 ?d ?s2)"
  have "delayed_reachable 1 ?s1" by (rule delayed_snoc [OF _ begin_schedule]) (simp add: delayed_reachable_def)
  then have "delayed_reachable 1 ?s2" by (rule delayed_snoc [OF _ load]) code_simp+
  then have "delayed_reachable 1 ?s3" by (rule delayed_snoc [OF _ add]) code_simp+
  then show ?thesis unfolding sample_planned_def by (rule delayed_snoc [OF _ store]) code_simp+
qed

lemma sample_forgotten_reachable: "delayed_reachable 1 sample_forgotten"
proof -
  let ?d = "sample_delayed 30"
  let ?s1 = "fire_task 20 sample_planned"
  let ?s2 = "snd (schedule_begin ?d ?s1)"
  let ?s3 = "schedule_load 0 ?d ?s2"
  let ?s4 = "schedule_remove 0 ?d ?s3"
  let ?s5 = "snd (schedule_add 21 0 ?d ?s4)"
  let ?s6 = "loop_delete (sample_delayed 10) sample_replanned"
  let ?s7 = "loop_append (sample_delayed 10) ?s6"
  have "delayed_reachable 1 ?s1" by (rule delayed_snoc [OF sample_planned_reachable fire]) code_simp
  then have "delayed_reachable 1 ?s2" by (rule delayed_snoc [OF _ begin_schedule])
  then have "delayed_reachable 1 ?s3" by (rule delayed_snoc [OF _ load]) code_simp+
  then have "delayed_reachable 1 ?s4" by (rule delayed_snoc [OF _ remove]) code_simp+
  then have "delayed_reachable 1 ?s5" by (rule delayed_snoc [OF _ add]) code_simp+
  then have "delayed_reachable 1 sample_replanned" unfolding sample_replanned_def by (rule delayed_snoc [OF _ store]) code_simp+
  then have "delayed_reachable 1 ?s6" by (rule delayed_snoc [OF _ callback_delete]) code_simp
  then have "delayed_reachable 1 ?s7" by (rule delayed_snoc [OF _ callback_append]) code_simp
  then show ?thesis unfolding sample_forgotten_def by (rule delayed_snoc [OF _ callback_store]) code_simp+
qed

text \<open>A message that is scheduled again while its first task fires loses its plan to the callback of that task: \<open>Cancel\<close> does not find
  it, and it is delivered.\<close>

lemma cancel_lost:
  "delayed_reachable 1 sample_forgotten \<and> dq_calls sample_forgotten = [] \<and> cancel_begin ''jobs'' ''a'' sample_forgotten = sample_forgotten \<and>
   1 \<in> fst ` set (dq_fired (fire_task 40 sample_forgotten))"
proof -
  have "dq_calls sample_forgotten = []" "delayed_task_id ''jobs'' ''a'' \<notin> dq_plans sample_forgotten" "dq_fired (fire_task 40 sample_forgotten) = [(0, 20), (1, 40)]"
    by code_simp+
  then show ?thesis using sample_forgotten_reachable by (simp add: cancel_begin_def)
qed

lemma delayed_fires_once_witness: "distinct (map fst (dq_fired (fire_task 40 sample_forgotten))) \<and> fst ` set (dq_fired (fire_task 40 sample_forgotten)) = {0, 1}"
proof -
  have "dq_loop sample_forgotten = LoopWaiting" by code_simp
  then have "delayed_step\<^sup>*\<^sup>* sample_forgotten (fire_task 40 sample_forgotten)" by (intro r_into_rtranclp fire)
  note once = delayed_fires_once [OF sample_forgotten_reachable this]
  have "dq_fired (fire_task 40 sample_forgotten) = [(0, 20), (1, 40)]" by code_simp
  with once show ?thesis by (intro conjI) (blast, simp)
qed

end
