(* ===== verification/Secret_Keys.thy ===== *)
theory Secret_Keys
  imports Memory_Cache Auth_Claims Go_Base64 "HOL-Library.Signed_Division" "HOL-Library.Multiset"
begin

text \<open>
  One-time key pairs for sensitive fields (secretcrypto/secretcrypto.go) and the envelopes of stored
  fields (secretcrypto/fieldenvelope.go). RSA, AES-GCM and the random bytes belong to libraries: the
  former are the record \<open>crypto\<close>, the latter arguments. \<open>[]*Cipher\<close> is a list of addresses
  (\<open>None\<close> is nil) into a store of ciphers, so that one cipher may occur twice. The order in which Go
  visits the groups of ciphers is an argument. Error texts are translated; the text of an error is
  one of the constructors of \<open>secret_error\<close>.

  The laws: a record is consumed before it is used and never serves again; what a client seals for a
  key that was handed out is what \<open>Decrypt\<close> fills in.
\<close>

subsection \<open>Library code and errors\<close>

record 'k crypto =
  rsa_new :: "int \<Rightarrow> 'k res"
  rsa_private_pem :: "'k \<Rightarrow> string res"
  rsa_public_pem :: "'k \<Rightarrow> string res"
  rsa_parse_pem :: "string \<Rightarrow> 'k res"
  rsa_decrypt :: "'k \<Rightarrow> string \<Rightarrow> string res"
  aes_open :: "string \<Rightarrow> string \<Rightarrow> string \<Rightarrow> string res"

datatype secret_error =
    KeyExpired
  | RecordInvalid
  | CipherIncomplete
  | AlgorithmUnsupported
  | NonceMismatch
  | KeyUndecryptable
  | IvInvalid
  | TextInvalid
  | OpenFailed

definition secret_reason :: "secret_error \<Rightarrow> string" where
  "secret_reason e = (case e of KeyExpired \<Rightarrow> ''SECRET_CRYPTO_KEY_EXPIRED'' | _ \<Rightarrow> ''SECRET_CRYPTO_INVALID'')"

subsection \<open>The service\<close>

definition secret_algorithm :: string where "secret_algorithm = ''RSA-OAEP-256+A256GCM''"
definition secret_key_prefix :: string where "secret_key_prefix = ''shared:auth:secret:crypto:''"

record public_key_info =
  pk_key_id :: string
  pk_public_key :: string
  pk_algorithm :: string
  pk_nonce :: string
  pk_expires_in :: int

record cipher =
  ci_key_id :: string
  ci_nonce :: string
  ci_algorithm :: string
  ci_encrypted_key :: string
  ci_iv :: string
  ci_text :: string

record key_record =
  kr_private_key :: string
  kr_nonce :: string
  kr_algorithm :: string

record 's secret_service =
  ss_cache :: "'s cache_ops"
  ss_ttl :: duration
  ss_key_bits :: int
  ss_message_type :: string
  ss_text_field :: string

type_synonym 's secret_option = "'s secret_service \<Rightarrow> 's secret_service"

definition with_secret_ttl :: "duration \<Rightarrow> 's secret_option" where
  "with_secret_ttl d s = s\<lparr>ss_ttl := d\<rparr>"

definition with_key_bits :: "int \<Rightarrow> 's secret_option" where
  "with_key_bits bits s = s\<lparr>ss_key_bits := bits\<rparr>"

definition with_message_type :: "string \<Rightarrow> 's secret_option" where
  "with_message_type name s = s\<lparr>ss_message_type := name\<rparr>"

definition with_text_field :: "string \<Rightarrow> 's secret_option" where
  "with_text_field name s = s\<lparr>ss_text_field := name\<rparr>"

definition new_secret_service :: "'s cache_ops \<Rightarrow> 's secret_option list \<Rightarrow> 's secret_service" where
  "new_secret_service cache opts = fold (\<lambda>opt. opt) opts
     \<lparr>ss_cache = cache, ss_ttl = 5 * minute, ss_key_bits = 2048,
      ss_message_type = ''common.v1.SecretCrypto'', ss_text_field = ''text''\<rparr>"

subsection \<open>The record in the cache\<close>

definition key_record_json :: "key_record \<Rightarrow> json" where
  "key_record_json r = JObj [(''private_key'', JStr (kr_private_key r)), (''nonce'', JStr (kr_nonce r)),
     (''algorithm'', JStr (kr_algorithm r))]"

fun key_record_members :: "(string \<times> json) list \<Rightarrow> key_record \<Rightarrow> key_record res" where
  "key_record_members [] r = Inr r"
| "key_record_members ((k, j) # ms) r =
     res_bind
       (if equal_fold k ''private_key'' then
          res_bind (json_str_field (kr_private_key r) j) (\<lambda>x. Inr (r\<lparr>kr_private_key := x\<rparr>))
        else if equal_fold k ''nonce'' then
          res_bind (json_str_field (kr_nonce r) j) (\<lambda>x. Inr (r\<lparr>kr_nonce := x\<rparr>))
        else if equal_fold k ''algorithm'' then
          res_bind (json_str_field (kr_algorithm r) j) (\<lambda>x. Inr (r\<lparr>kr_algorithm := x\<rparr>))
        else Inr r)
       (key_record_members ms)"

definition empty_key_record :: key_record where
  "empty_key_record = \<lparr>kr_private_key = [], kr_nonce = [], kr_algorithm = []\<rparr>"

definition key_record_unmarshal :: "string \<Rightarrow> key_record res" where
  "key_record_unmarshal raw = (case json_parse raw of
     Some JNull \<Rightarrow> Inr empty_key_record
   | Some (JObj ms) \<Rightarrow> key_record_members ms empty_key_record
   | _ \<Rightarrow> Inl err_unmarshal)"

subsection \<open>Handing out a key\<close>

text \<open>\<open>nonce_draw\<close> and \<open>id_draw\<close> are the random bytes.\<close>

definition random_key_id :: "string res \<Rightarrow> string res" where
  "random_key_id id_draw = res_bind id_draw (\<lambda>bytes. Inr (hex_encode bytes))"

definition or_wrap :: "string \<Rightarrow> 'a res \<Rightarrow> ('a \<Rightarrow> 's \<Rightarrow> 'b res \<times> 's) \<Rightarrow> 's \<Rightarrow> 'b res \<times> 's" where
  "or_wrap message r f s = (case r of Inl e \<Rightarrow> (Inl (WrapErr message e), s) | Inr x \<Rightarrow> f x s)"

definition generate_public_key ::
    "'k crypto \<Rightarrow> 's secret_service \<Rightarrow> string res \<Rightarrow> string res \<Rightarrow> gotime \<Rightarrow> 's \<Rightarrow> public_key_info res \<times> 's" where
  "generate_public_key C svc nonce_draw id_draw now =
     or_wrap ''generate key'' (rsa_new C (ss_key_bits svc)) (\<lambda>key.
     or_wrap ''export private key'' (rsa_private_pem C key) (\<lambda>private_pem.
     or_wrap ''export public key'' (rsa_public_pem C key) (\<lambda>public_pem.
     or_wrap ''generate nonce'' nonce_draw (\<lambda>nonce_bytes.
     or_wrap ''generate key id'' (random_key_id id_draw) (\<lambda>key_id s.
       let nonce = b64std_encode nonce_bytes;
           stored = json_print (key_record_json
             \<lparr>kr_private_key = private_pem, kr_nonce = nonce, kr_algorithm = secret_algorithm\<rparr>)
       in case c_set (ss_cache svc) now (secret_key_prefix @ key_id) stored (ss_ttl svc) s of
            (Inl e, s') \<Rightarrow> (Inl (WrapErr ''save key record'' e), s')
          | (Inr _, s') \<Rightarrow>
              (Inr \<lparr>pk_key_id = key_id, pk_public_key = public_pem, pk_algorithm = secret_algorithm,
                    pk_nonce = nonce, pk_expires_in = ss_ttl svc sdiv second\<rparr>, s'))))))"

subsection \<open>Decryption\<close>

type_synonym cipher_store = "nat \<Rightarrow> cipher"

text \<open>The checks of one cipher; the result is the plaintext.\<close>

definition decrypt_cipher :: "'k crypto \<Rightarrow> 'k \<Rightarrow> key_record \<Rightarrow> cipher \<Rightarrow> secret_error + string" where
  "decrypt_cipher C key record item =
     (if ci_key_id item = [] \<or> ci_nonce item = [] \<or> ci_algorithm item = [] \<or>
         ci_encrypted_key item = [] \<or> ci_iv item = [] \<or> ci_text item = [] then Inl CipherIncomplete
      else if ci_algorithm item \<noteq> secret_algorithm \<or> kr_algorithm record \<noteq> secret_algorithm
        then Inl AlgorithmUnsupported
      else if kr_nonce record \<noteq> ci_nonce item then Inl NonceMismatch
      else case rsa_decrypt C key (ci_encrypted_key item) of
          Inl _ \<Rightarrow> Inl KeyUndecryptable
        | Inr aes_key \<Rightarrow>
      (case b64std_decode (ci_iv item) of
          None \<Rightarrow> Inl IvInvalid
        | Some iv \<Rightarrow>
      (case b64std_decode (ci_text item) of
          None \<Rightarrow> Inl TextInvalid
        | Some ciphertext \<Rightarrow>
      (case aes_open C ciphertext aes_key iv of
          Inl _ \<Rightarrow> Inl OpenFailed
        | Inr plaintext \<Rightarrow> Inr plaintext))))"

fun decrypt_items ::
    "'k crypto \<Rightarrow> 'k \<Rightarrow> key_record \<Rightarrow> nat list \<Rightarrow> cipher_store \<Rightarrow> secret_error option \<times> cipher_store" where
  "decrypt_items C key record [] h = (None, h)"
| "decrypt_items C key record (p # ps) h =
     (case decrypt_cipher C key record (h p) of
        Inl e \<Rightarrow> (Some e, h)
      | Inr text \<Rightarrow> decrypt_items C key record ps (h(p := (h p)\<lparr>ci_text := text\<rparr>)))"

text \<open>The groups by key, in the order of their first ciphers.\<close>

type_synonym cipher_group = "string \<times> nat list"

fun add_to_group :: "string \<Rightarrow> nat \<Rightarrow> cipher_group list \<Rightarrow> cipher_group list" where
  "add_to_group k p [] = [(k, [p])]"
| "add_to_group k p ((k', ps) # gs) =
     (if k' = k then (k', ps @ [p]) # gs else (k', ps) # add_to_group k p gs)"

fun group_ciphers :: "cipher_store \<Rightarrow> nat option list \<Rightarrow> cipher_group list \<Rightarrow> cipher_group list" where
  "group_ciphers h [] gs = gs"
| "group_ciphers h (None # ps) gs = group_ciphers h ps gs"
| "group_ciphers h (Some p # ps) gs = group_ciphers h ps (add_to_group (ci_key_id (h p)) p gs)"

text \<open>\<open>clk\<close> gives the instant of each key's \<open>GetDel\<close>.\<close>

fun decrypt_groups ::
    "'k crypto \<Rightarrow> 's secret_service \<Rightarrow> (string \<Rightarrow> gotime) \<Rightarrow> cipher_group list \<Rightarrow> 's \<Rightarrow> cipher_store
      \<Rightarrow> secret_error option \<times> 's \<times> cipher_store" where
  "decrypt_groups C svc clk [] s h = (None, s, h)"
| "decrypt_groups C svc clk ((k, items) # gs) s h =
     (case c_getdel (ss_cache svc) (clk k) (secret_key_prefix @ k) s of
        (Inl _, s') \<Rightarrow> (Some KeyExpired, s', h)
      | (Inr stored, s') \<Rightarrow>
          if stored = [] then (Some KeyExpired, s', h)
          else case key_record_unmarshal stored of
              Inl _ \<Rightarrow> (Some RecordInvalid, s', h)
            | Inr record \<Rightarrow>
          (case rsa_parse_pem C (kr_private_key record) of
              Inl _ \<Rightarrow> (Some RecordInvalid, s', h)
            | Inr key \<Rightarrow>
          (case decrypt_items C key record items h of
              (Some e, h') \<Rightarrow> (Some e, s', h')
            | (None, h') \<Rightarrow> decrypt_groups C svc clk gs s' h')))"

definition secret_decrypt ::
    "'k crypto \<Rightarrow> 's secret_service \<Rightarrow> (cipher_group list \<Rightarrow> cipher_group list) \<Rightarrow> (string \<Rightarrow> gotime)
      \<Rightarrow> nat option list \<Rightarrow> 's \<Rightarrow> cipher_store \<Rightarrow> secret_error option \<times> 's \<times> cipher_store" where
  "secret_decrypt C svc order clk ciphers s h = decrypt_groups C svc clk (order (group_ciphers h ciphers [])) s h"

subsection \<open>Field envelopes (secretcrypto/fieldenvelope.go)\<close>

text \<open>\<open>seal\<close> and \<open>unseal\<close> are AES-GCM with associated data: text, key, nonce, data.\<close>

definition field_envelope_prefix :: string where "field_envelope_prefix = ''sbox:v1:''"
definition field_nonce_size :: nat where "field_nonce_size = 12"

definition field_aad :: "string list \<Rightarrow> string" where
  "field_aad parts = str_join parts ''.''"

definition is_field_envelope :: "string \<Rightarrow> bool" where
  "is_field_envelope v = has_prefix v field_envelope_prefix"

definition encrypt_field_envelope ::
    "(string \<Rightarrow> string \<Rightarrow> string \<Rightarrow> string \<Rightarrow> string res) \<Rightarrow> string res \<Rightarrow> string \<Rightarrow> string \<Rightarrow> string \<Rightarrow> string res" where
  "encrypt_field_envelope seal nonce_draw key aad plaintext =
     (case nonce_draw of
        Inl e \<Rightarrow> Inl (WrapErr ''generate field nonce'' e)
      | Inr nonce \<Rightarrow>
          (case seal plaintext key nonce aad of
             Inl e \<Rightarrow> Inl (WrapErr ''encrypt field envelope'' e)
           | Inr ciphertext \<Rightarrow> Inr (field_envelope_prefix @ b64_encode (nonce @ ciphertext))))"

definition decrypt_field_envelope ::
    "(string \<Rightarrow> string \<Rightarrow> string \<Rightarrow> string \<Rightarrow> string res) \<Rightarrow> string \<Rightarrow> string \<Rightarrow> string \<Rightarrow> string res" where
  "decrypt_field_envelope unseal key aad envelope =
     (case b64_decode (trim_prefix envelope field_envelope_prefix) of
        None \<Rightarrow> Inl (NewErr ''parse field envelope'')
      | Some payload \<Rightarrow>
          if length payload \<le> field_nonce_size then Inl (NewErr ''parse field envelope'')
          else (case unseal (drop field_nonce_size payload) key (take field_nonce_size payload) aad of
                  Inl e \<Rightarrow> Inl (WrapErr ''decrypt field envelope'' e)
                | Inr plaintext \<Rightarrow> Inr plaintext))"

subsection \<open>A record is consumed before it is used\<close>

lemma add_to_group_keys: "fst ` set (add_to_group k p gs) = insert k (fst ` set gs)"
  by (induction gs rule: add_to_group.induct) auto

lemma group_ciphers_keys:
  "fst ` set (group_ciphers h ps gs) = fst ` set gs \<union> {ci_key_id (h p) | p. Some p \<in> set ps}"
proof (induction h ps gs rule: group_ciphers.induct)
  case (3 h p ps gs)
  then show ?case by (auto simp: add_to_group_keys)
qed auto

lemma grouped_key:
  assumes "Some p \<in> set ps" and "\<And>gs. mset (order gs) = mset gs"
  shows "\<exists>items. (ci_key_id (h p), items) \<in> set (order (group_ciphers h ps []))"
proof -
  have "set (order (group_ciphers h ps [])) = set (group_ciphers h ps [])"
    using assms(2) by (metis set_mset_mset)
  moreover have "ci_key_id (h p) \<in> fst ` set (group_ciphers h ps [])"
    using assms(1) by (auto simp: group_ciphers_keys)
  ultimately show ?thesis
    by (metis (no_types) fst_conv image_iff surj_pair)
qed

context revocable_cache
begin

lemma getdel_keeps:
  assumes "c_getdel ops now k s = (r, s')" and "inv s"
  shows "inv s'" and "gone s' k" and "gone s k' \<Longrightarrow> gone s' k'"
  using getdel_state [OF assms(2) refl, of now k] getdel_gone [OF assms(2), of now k]
    getdel_keeps_gone [OF assms(2), of k' now k] assms(1) by auto

lemma decrypt_groups_gone:
  assumes "decrypt_groups C svc clk gs s h = (r, s', h')" and "inv s" and "ss_cache svc = ops"
  shows "inv s' \<and> (\<forall>k. gone s k \<longrightarrow> gone s' k) \<and>
    (r = None \<longrightarrow> (\<forall>(k, items) \<in> set gs. gone s' (secret_key_prefix @ k)))"
  using assms
proof (induction gs arbitrary: s h)
  case (Cons g gs)
  obtain k items where g: "g = (k, items)" by (cases g)
  obtain reply s1 where take: "c_getdel ops (clk k) (secret_key_prefix @ k) s = (reply, s1)"
    by (cases "c_getdel ops (clk k) (secret_key_prefix @ k) s")
  note kept = getdel_keeps [OF take Cons.prems(2)]
  consider (stop) "s' = s1" "r \<noteq> None"
    | (proceed) h1 where "decrypt_groups C svc clk gs s1 h1 = (r, s', h')"
    using Cons.prems(1,3) take by (auto simp: g split: sum.splits if_splits option.splits prod.splits)
  then show ?case
  proof cases
    case stop
    then show ?thesis using kept by auto
  next
    case proceed
    then show ?thesis using Cons.IH [OF proceed kept(1) Cons.prems(3)] kept(2,3) by (auto simp: g)
  qed
qed auto

lemma decrypt_groups_refused:
  assumes "inv s" and "ss_cache svc = ops" and "gone s (secret_key_prefix @ k)" and "(k, items) \<in> set gs"
  shows "fst (decrypt_groups C svc clk gs s h) \<noteq> None"
  using assms
proof (induction gs arbitrary: s h)
  case (Cons g gs)
  obtain k1 items1 where g: "g = (k1, items1)" by (cases g)
  obtain reply s1 where take: "c_getdel ops (clk k1) (secret_key_prefix @ k1) s = (reply, s1)"
    by (cases "c_getdel ops (clk k1) (secret_key_prefix @ k1) s")
  note kept = getdel_keeps [OF take Cons.prems(1)]
  show ?case
  proof (cases "k1 = k")
    case True
    then obtain e where "reply = Inl e"
      using getdel_result [OF Cons.prems(1), of "clk k" "secret_key_prefix @ k"] take gone_live [OF Cons.prems(3)]
      by auto
    then show ?thesis using take Cons.prems(2) by (simp add: g)
  next
    case False
    with Cons.prems(4) have "(k, items) \<in> set gs" by (simp add: g)
    note IH = Cons.IH [OF kept(1) Cons.prems(2) kept(3) [OF Cons.prems(3)] this]
    then show ?thesis
      using take Cons.prems(2) by (auto simp: g split: sum.splits option.splits prod.splits)
  qed
qed auto

end


text \<open>A toy crypto and a client, for the examples.\<close>

definition seal_cipher ::
    "(string \<Rightarrow> string \<Rightarrow> string) \<Rightarrow> (string \<Rightarrow> string \<Rightarrow> string \<Rightarrow> string) \<Rightarrow> public_key_info
      \<Rightarrow> string \<Rightarrow> string \<Rightarrow> string \<Rightarrow> cipher" where
  "seal_cipher rsa_seal aes_seal info aes_key iv text =
     \<lparr>ci_key_id = pk_key_id info, ci_nonce = pk_nonce info, ci_algorithm = pk_algorithm info,
      ci_encrypted_key = rsa_seal (pk_public_key info) aes_key, ci_iv = b64std_encode iv,
      ci_text = b64std_encode (aes_seal text aes_key iv)\<rparr>"

definition sample_crypto :: "string crypto" where
  "sample_crypto = \<lparr>rsa_new = (\<lambda>bits. Inr ''key''), rsa_private_pem = (\<lambda>k. Inr (''private '' @ k)),
     rsa_public_pem = (\<lambda>k. Inr (''public '' @ k)), rsa_parse_pem = (\<lambda>pem. Inr (drop 8 pem)),
     rsa_decrypt = (\<lambda>k c. Inr (drop 1 c)), aes_open = (\<lambda>c k iv. Inr (drop 1 c))\<rparr>"

definition sample_rsa_seal :: "string \<Rightarrow> string \<Rightarrow> string" where
  "sample_rsa_seal pem m = ''r'' @ m"

definition sample_aes_seal :: "string \<Rightarrow> string \<Rightarrow> string \<Rightarrow> string" where
  "sample_aes_seal m k iv = ''a'' @ m"

definition sample_service :: "memory secret_service" where
  "sample_service = new_secret_service memory_ops []"

definition sample_generated :: "public_key_info res \<times> memory" where
  "sample_generated = generate_public_key sample_crypto sample_service (Inr ''n'') (Inr ''i'') 10 new_memory"

definition sample_info :: public_key_info where
  "sample_info = (case fst sample_generated of Inr info \<Rightarrow> info | Inl e \<Rightarrow>
     \<lparr>pk_key_id = [], pk_public_key = [], pk_algorithm = [], pk_nonce = [], pk_expires_in = 0\<rparr>)"

definition sample_ciphers :: cipher_store where
  "sample_ciphers p = seal_cipher sample_rsa_seal sample_aes_seal sample_info ''k'' ''v'' (if p = 0 then ''one'' else ''two'')"

definition sample_decrypted :: "secret_error option \<times> memory \<times> cipher_store" where
  "sample_decrypted = secret_decrypt sample_crypto sample_service id (\<lambda>_. 20) [Some 0, None, Some 1]
     (snd sample_generated) sample_ciphers"

lemma sample_decrypted_ok: "fst sample_decrypted = None"
  by code_simp

subsection \<open>What is sealed for a key is what Decrypt fills in\<close>

context kv_cache
begin

lemma generate_inv:
  assumes "inv s" and "0 \<le> now" and "ss_cache svc = ops"
  shows "inv (snd (generate_public_key C svc nonce_draw id_draw now s))"
proof -
  have "inv (snd (c_set ops now k v d s))" for k v d
    using set_state [OF assms(1,2) refl] by simp
  then show ?thesis
    using assms(1,3)
    by (auto simp: generate_public_key_def or_wrap_def Let_def split: sum.splits prod.splits)
       (metis snd_conv)+
qed

lemma generate_stores:
  assumes "generate_public_key C svc nonce_draw id_draw now s = (Inr info, s1)" and "ss_cache svc = ops"
  obtains key private_pem nonce where "rsa_new C (ss_key_bits svc) = Inr key"
    and "rsa_private_pem C key = Inr private_pem" and "rsa_public_pem C key = Inr (pk_public_key info)"
    and "nonce_draw = Inr nonce" and "pk_nonce info = b64std_encode nonce" and "pk_algorithm info = secret_algorithm"
    and "random_key_id id_draw = Inr (pk_key_id info)"
    and "s1 = snd (c_set ops now (secret_key_prefix @ pk_key_id info)
      (json_print (key_record_json
        \<lparr>kr_private_key = private_pem, kr_nonce = pk_nonce info, kr_algorithm = secret_algorithm\<rparr>)) (ss_ttl svc) s)"
  using assms
  by (auto simp: generate_public_key_def or_wrap_def Let_def split: sum.splits prod.splits)

end

lemma key_record_names [simp]:
  "\<not> equal_fold ''nonce'' ''private_key''" "\<not> equal_fold ''algorithm'' ''private_key''"
  "\<not> equal_fold ''algorithm'' ''nonce''" "equal_fold s s"
  by (simp_all add: equal_fold_def to_lower_def ascii_lower_def)

lemma key_record_round_trip:
  assumes "ascii (kr_private_key r)" and "ascii (kr_nonce r)" and "ascii (kr_algorithm r)"
  shows "key_record_unmarshal (json_print (key_record_json r)) = Inr r"
proof -
  have "json_ok (key_record_json r)"
    using assms by (auto simp: key_record_json_def ascii_def)
  then have "key_record_unmarshal (json_print (key_record_json r)) =
      (case key_record_json r of JObj ms \<Rightarrow> key_record_members ms empty_key_record | _ \<Rightarrow> Inl err_unmarshal)"
    unfolding key_record_unmarshal_def by (simp only: json_round_trip) (simp add: key_record_json_def)
  then show ?thesis
    by (simp add: key_record_json_def json_str_field_def empty_key_record_def)
qed

lemma ascii_b64std: "ascii (b64std_encode s)"
proof -
  have "\<forall>c \<in> set (map std_digit b64_alphabet). (of_char c :: nat) < 128"
    unfolding list_all_iff [symmetric] by code_simp
  moreover have "c \<in> set (map std_digit b64_alphabet) \<or> c = CHR ''=''" if "c \<in> set (b64std_encode s)" for c
    using that b64_encode_chars by (auto simp: b64std_encode_def Let_def dest: b64_padding_chars)
  ultimately have "(of_char c :: nat) < 128" if "c \<in> set (b64std_encode s)" for c
    using that by fastforce
  then show ?thesis by (simp add: ascii_def list_all_iff)
qed

lemma hex_encode_nil: "hex_encode s = [] \<longleftrightarrow> s = []"
  by (cases s) (simp_all add: hex_encode_def Let_def)

lemma key_record_text: "json_print (key_record_json r) \<noteq> []"
  by (simp add: key_record_json_def)

lemma decrypt_items_all:
  assumes "distinct ps" and "\<forall>p \<in> set ps. decrypt_cipher C key record (h p) = Inr (text p)"
  shows "decrypt_items C key record ps h =
    (None, \<lambda>p. if p \<in> set ps then (h p)\<lparr>ci_text := text p\<rparr> else h p)"
  using assms
proof (induction ps arbitrary: h)
  case (Cons p ps)
  then show ?case by (auto simp: fun_eq_iff)
qed simp

lemma one_group:
  assumes "\<forall>p \<in> set ps. ci_key_id (h p) = k"
  shows "group_ciphers h (map Some ps) [(k, qs)] = [(k, qs @ ps)]"
  using assms by (induction ps arbitrary: qs) auto

lemma one_batch:
  assumes "ps \<noteq> []" and "\<forall>p \<in> set ps. ci_key_id (h p) = k"
  shows "group_ciphers h (map Some ps) [] = [(k, ps)]"
  using assms one_group [of "tl ps" h k "[hd ps]"] by (cases ps) auto

text \<open>
  What the libraries promise for a key pair: the exported private key parses to the key, the key opens
  what was sealed with its public key, and AES-GCM opens what it sealed (a sealed text has a tag, so
  neither output is empty).
\<close>

definition key_pair_ok ::
    "'k crypto \<Rightarrow> (string \<Rightarrow> string \<Rightarrow> string) \<Rightarrow> (string \<Rightarrow> string \<Rightarrow> string \<Rightarrow> string) \<Rightarrow> 'k \<Rightarrow> bool" where
  "key_pair_ok C rsa_seal aes_seal key =
     ((\<forall>pem. rsa_private_pem C key = Inr pem \<longrightarrow> ascii pem \<and> rsa_parse_pem C pem = Inr key) \<and>
      (\<forall>pem m. rsa_public_pem C key = Inr pem \<longrightarrow>
         rsa_seal pem m \<noteq> [] \<and> rsa_decrypt C key (rsa_seal pem m) = Inr m) \<and>
      (\<forall>text k iv. aes_seal text k iv \<noteq> [] \<and> aes_open C (aes_seal text k iv) k iv = Inr text))"

text \<open>What a browser seals for a key handed out by \<open>GeneratePublicKey\<close> is what \<open>Decrypt\<close> fills in:
  within the time to live, a batch of ciphers sealed for one key with any symmetric keys and vectors
  is decrypted whole, every cipher gets the text that was sealed in it, and nothing else in the store
  of ciphers changes.\<close>

theorem sealed_for_a_key_is_decrypted:
  assumes "mem_inv s" and "0 \<le> now" and cache: "ss_cache svc = memory_ops"
    and order: "\<And>gs. mset (order gs) = mset gs"
    and made: "generate_public_key C svc nonce_draw id_draw now s = (Inr info, s1)"
    and draws: "nonce_draw \<noteq> Inr []" "id_draw \<noteq> Inr []"
    and laws: "\<And>key. rsa_new C (ss_key_bits svc) = Inr key \<Longrightarrow> key_pair_ok C rsa_seal aes_seal key"
    and ps: "distinct ps" "ps \<noteq> []"
    and sealed: "\<forall>p \<in> set ps. iv p \<noteq> [] \<and> h p = seal_cipher rsa_seal aes_seal info (aes_key p) (iv p) (text p)"
    and time: "now \<le> clk (pk_key_id info)" "within_ttl now (ss_ttl svc) (clk (pk_key_id info))"
  shows "fst (secret_decrypt C svc order clk (map Some ps) s1 h) = None \<and>
    snd (snd (secret_decrypt C svc order clk (map Some ps) s1 h)) =
      (\<lambda>p. if p \<in> set ps then (h p)\<lparr>ci_text := text p\<rparr> else h p)"
proof -
  obtain key private_pem nonce where new: "rsa_new C (ss_key_bits svc) = Inr key"
    and pem: "rsa_private_pem C key = Inr private_pem" "rsa_public_pem C key = Inr (pk_public_key info)"
    and nonce: "nonce_draw = Inr nonce" "pk_nonce info = b64std_encode nonce"
    and alg: "pk_algorithm info = secret_algorithm"
    and key_id: "random_key_id id_draw = Inr (pk_key_id info)"
    and s1: "s1 = snd (c_set memory_ops now (secret_key_prefix @ pk_key_id info)
      (json_print (key_record_json
        \<lparr>kr_private_key = private_pem, kr_nonce = pk_nonce info, kr_algorithm = secret_algorithm\<rparr>)) (ss_ttl svc) s)"
    by (rule mc.generate_stores [OF made cache])
  let ?entry = "\<lparr>kr_private_key = private_pem, kr_nonce = pk_nonce info, kr_algorithm = secret_algorithm\<rparr>"
  note law = laws [OF new, unfolded key_pair_ok_def]
  have ids: "pk_key_id info \<noteq> []" "pk_nonce info \<noteq> []"
    using key_id draws nonce by (auto simp: random_key_id_def res_bind_Inr hex_encode_nil b64std_encode_nil)
  have got: "fst (c_getdel memory_ops (clk (pk_key_id info)) (secret_key_prefix @ pk_key_id info) s1) =
      Inr (json_print (key_record_json ?entry))"
    unfolding s1 by (rule mc.getdel_after_set [OF assms(1,2) time])
  have parsed: "key_record_unmarshal (json_print (key_record_json ?entry)) = Inr ?entry"
    using law pem nonce by (intro key_record_round_trip) (auto simp: ascii_b64std, simp add: ascii_def secret_algorithm_def)
  have items: "decrypt_items C key ?entry ps h = (None, \<lambda>p. if p \<in> set ps then (h p)\<lparr>ci_text := text p\<rparr> else h p)"
    using sealed law pem ids alg
    by (intro decrypt_items_all [OF ps(1)] ballI)
       (auto simp: decrypt_cipher_def seal_cipher_def b64std_round_trip b64std_encode_nil secret_algorithm_def)
  have "\<forall>p \<in> set ps. ci_key_id (h p) = pk_key_id info"
    using sealed by (simp add: seal_cipher_def)
  note batch = one_batch [OF ps(2) this]
  have "order (group_ciphers h (map Some ps) []) = [(pk_key_id info, ps)]"
    using order [of "[(pk_key_id info, ps)]"] by (simp add: batch)
  then show ?thesis
    using got parsed items law pem cache
    by (auto simp: secret_decrypt_def split_def key_record_text)
qed


lemma sample_keys_ok: "key_pair_ok sample_crypto sample_rsa_seal sample_aes_seal ''key''"
  by (simp add: key_pair_ok_def sample_crypto_def sample_rsa_seal_def sample_aes_seal_def ascii_def)

theorem sealed_for_a_key_is_decrypted_witness:
  "fst (secret_decrypt sample_crypto sample_service id (\<lambda>_. 20) (map Some [0, 1]) (snd sample_generated) sample_ciphers)
     = None \<and>
   ci_text (snd (snd (secret_decrypt sample_crypto sample_service id (\<lambda>_. 20) (map Some [0, 1])
     (snd sample_generated) sample_ciphers)) 1) = ''two''"
proof -
  have "fst sample_generated = Inr sample_info" by code_simp
  then have made: "generate_public_key sample_crypto sample_service (Inr ''n'') (Inr ''i'') 10 new_memory =
      (Inr sample_info, snd sample_generated)"
    by (simp add: sample_generated_def prod_eq_iff)
  have "ss_cache sample_service = memory_ops" "ss_ttl sample_service = 300000000000"
    by (simp_all add: sample_service_def new_secret_service_def minute_def)
  then show ?thesis
    using sealed_for_a_key_is_decrypted [of new_memory 10 sample_service id sample_crypto "Inr ''n''" "Inr ''i''"
        sample_info "snd sample_generated" sample_rsa_seal sample_aes_seal "[0, 1]" "\<lambda>_. ''v''" sample_ciphers
        "\<lambda>_. ''k''" "\<lambda>p. if p = 0 then ''one'' else ''two''" "\<lambda>_. 20"]
      made sample_keys_ok
    by (simp add: sample_ciphers_def within_ttl_def sample_crypto_def)
qed

subsection \<open>Envelopes\<close>

text \<open>A stored field comes back: what \<open>EncryptFieldEnvelope\<close> returns is recognised as an envelope
  and \<open>DecryptFieldEnvelope\<close> with the same key and associated data returns the plaintext, for a cipher
  that opens what it sealed and whose output is longer than nothing (it has a tag).\<close>

theorem field_envelope_round_trip:
  assumes "encrypt_field_envelope seal (Inr nonce) key aad plaintext = Inr envelope"
    and "length nonce = field_nonce_size"
    and "\<And>c. seal plaintext key nonce aad = Inr c \<Longrightarrow> c \<noteq> [] \<and> unseal c key nonce aad = Inr plaintext"
  shows "is_field_envelope envelope \<and> decrypt_field_envelope unseal key aad envelope = Inr plaintext"
proof -
  obtain c where c: "seal plaintext key nonce aad = Inr c"
    and e: "envelope = field_envelope_prefix @ b64_encode (nonce @ c)"
    using assms(1) by (auto simp: encrypt_field_envelope_def split: sum.splits)
  then show ?thesis
    using assms(2) assms(3) [OF c]
    by (auto simp: is_field_envelope_def decrypt_field_envelope_def has_prefix_def trim_prefix_def b64_round_trip)
qed

theorem field_envelope_round_trip_witness:
  "decrypt_field_envelope (\<lambda>c k n a. if a = ''users.phone'' then Inr (drop 1 c) else Inl (NewErr ''tag''))
     ''key'' (field_aad [''users'', ''phone''])
     (field_envelope_prefix @ b64_encode (''123456789012'' @ ''t0800'')) = Inr ''0800''"
  using field_envelope_round_trip [of "\<lambda>p k n a. Inr (''t'' @ p)" "''123456789012''" "''key''"
      "field_aad [''users'', ''phone'']" "''0800''" _
      "\<lambda>c k n a. if a = ''users.phone'' then Inr (drop 1 c) else Inl (NewErr ''tag'')"]
  by (simp add: encrypt_field_envelope_def field_aad_def field_nonce_size_def)

end
