(* ===== verification/Secret_Messages.thy ===== *)
theory Secret_Messages
  imports Secret_Keys "HOL-Library.Monad_Syntax"
begin

text \<open>
  The middleware that decrypts the sensitive fields of a request and clears them again
  (secretcrypto/middleware.go). \<open>SMsg i name held\<close> is a message with an identity, its full name and,
  for each field of its descriptor, the messages the field holds (none for a scalar, at most one for a
  singular field). The texts of string fields are kept apart, by identity and name, since only they
  change. \<open>containsSecretTarget\<close> follows the message types, which may refer to each other in a circle, so
  it is a partial function: \<open>None\<close> is a recursion that never ends (in Go, a stack overflow that
  kills the process).
\<close>

subsection \<open>Descriptors and messages\<close>

datatype field_kind = TextField | MessageField string | OtherField

record field_type =
  ft_name :: string
  ft_kind :: field_kind
  ft_map :: bool
  ft_list :: bool

type_synonym message_types = "string \<Rightarrow> field_type list"

datatype secret_msg = SMsg nat string "secret_msg list list"

fun sm_id :: "secret_msg \<Rightarrow> nat" where "sm_id (SMsg i name held) = i"
fun sm_type :: "secret_msg \<Rightarrow> string" where "sm_type (SMsg i name held) = name"

type_synonym texts = "nat \<Rightarrow> string \<Rightarrow> string"

type_synonym target_memo = "string \<rightharpoonup> bool"

definition well_known_prefix :: string where "well_known_prefix = ''google.protobuf.''"

definition memo_key :: "string \<Rightarrow> string \<Rightarrow> string" where
  "memo_key target name = target @ [CHR 0x00] @ name"

subsection \<open>Which types carry a target\<close>

text \<open>The loop of \<open>containsSecretTarget\<close> over the fields of a type; the recursive call is written out.\<close>

partial_function (option) scan_fields ::
    "message_types \<Rightarrow> string \<Rightarrow> field_type list \<Rightarrow> target_memo \<Rightarrow> (bool \<times> target_memo) option" where
  "scan_fields T target all_fds memo =
     (case all_fds of
        [] \<Rightarrow> Some (False, memo)
      | fd # fds \<Rightarrow>
          (case ft_kind fd of
             MessageField name \<Rightarrow>
               if ft_map fd then scan_fields T target fds memo
               else if name = target then Some (True, memo)
               else if has_prefix name well_known_prefix then scan_fields T target fds memo
               else (case memo (memo_key target name) of
                       Some b \<Rightarrow> if b then Some (True, memo) else scan_fields T target fds memo
                     | None \<Rightarrow>
                         do { (b, memo') \<leftarrow> scan_fields T target (T name) memo;
                              if b then Some (True, memo'(memo_key target name \<mapsto> b))
                              else scan_fields T target fds (memo'(memo_key target name \<mapsto> b)) })
           | _ \<Rightarrow> scan_fields T target fds memo))"

declare scan_fields.simps [code]

definition contains_secret_target ::
    "message_types \<Rightarrow> string \<Rightarrow> string \<Rightarrow> target_memo \<Rightarrow> (bool \<times> target_memo) option" where
  "contains_secret_target T target name memo =
     (case memo (memo_key target name) of
        Some b \<Rightarrow> Some (b, memo)
      | None \<Rightarrow> do { (b, memo') \<leftarrow> scan_fields T target (T name) memo; Some (b, memo'(memo_key target name \<mapsto> b)) })"

subsection \<open>Collecting the targets\<close>

fun append_fields :: "message_types \<Rightarrow> string \<Rightarrow> field_type list \<Rightarrow> secret_msg list list \<Rightarrow> target_memo
      \<Rightarrow> (secret_msg list \<times> target_memo) option"
  and append_secret_messages :: "message_types \<Rightarrow> string \<Rightarrow> secret_msg \<Rightarrow> target_memo \<Rightarrow> (secret_msg list \<times> target_memo) option"
  and append_each :: "message_types \<Rightarrow> string \<Rightarrow> secret_msg list \<Rightarrow> target_memo \<Rightarrow> (secret_msg list \<times> target_memo) option" where
  "append_secret_messages T target (SMsg i name held) memo = append_fields T target (T name) held memo"
| "append_fields T target (fd # fds) (ms # held) memo =
     (case ft_kind fd of
        MessageField name \<Rightarrow>
          if ft_map fd then append_fields T target fds held memo
          else if name = target then
            do { (out, memo') \<leftarrow> append_fields T target fds held memo; Some (ms @ out, memo') }
          else if \<not> ft_list fd \<and> ms = [] then append_fields T target fds held memo
          else do { (b, memo1) \<leftarrow> contains_secret_target T target name memo;
                    if \<not> b then append_fields T target fds held memo1
                    else do { (out1, memo2) \<leftarrow> append_each T target ms memo1;
                              (out2, memo3) \<leftarrow> append_fields T target fds held memo2;
                              Some (out1 @ out2, memo3) } }
      | _ \<Rightarrow> append_fields T target fds held memo)"
| "append_fields T target _ _ memo = Some ([], memo)"
| "append_each T target [] memo = Some ([], memo)"
| "append_each T target (m # ms) memo =
     do { (out1, memo1) \<leftarrow> append_secret_messages T target m memo;
          (out2, memo2) \<leftarrow> append_each T target ms memo1;
          Some (out1 @ out2, memo2) }"

definition collect_secret_messages ::
    "message_types \<Rightarrow> string \<Rightarrow> secret_msg \<Rightarrow> target_memo \<Rightarrow> (secret_msg list \<times> target_memo) option" where
  "collect_secret_messages T target message memo =
     do { (b, memo1) \<leftarrow> contains_secret_target T target (sm_type message) memo;
          if \<not> b then Some ([], memo1) else append_secret_messages T target message memo1 }"

subsection \<open>Reading and writing the fields\<close>

definition field_by_name :: "message_types \<Rightarrow> string \<Rightarrow> string \<Rightarrow> field_type option" where
  "field_by_name T type_name name = List.find (\<lambda>fd. ft_name fd = name) (T type_name)"

definition message_string :: "message_types \<Rightarrow> texts \<Rightarrow> secret_msg \<Rightarrow> string \<Rightarrow> string" where
  "message_string T tx m name =
     (case field_by_name T (sm_type m) name of None \<Rightarrow> [] | Some fd \<Rightarrow> tx (sm_id m) name)"

text \<open>\<open>Set\<close> panics on a field that does not hold a string; \<open>None\<close> is the panic.\<close>

definition set_message_string :: "message_types \<Rightarrow> secret_msg \<Rightarrow> string \<Rightarrow> string \<Rightarrow> texts \<Rightarrow> texts option" where
  "set_message_string T m name v tx =
     (case field_by_name T (sm_type m) name of
        None \<Rightarrow> Some tx
      | Some fd \<Rightarrow>
          if ft_kind fd = TextField \<and> \<not> ft_list fd \<and> \<not> ft_map fd then Some (tx(sm_id m := (tx (sm_id m))(name := v)))
          else None)"

definition cipher_from_message :: "message_types \<Rightarrow> texts \<Rightarrow> string \<Rightarrow> secret_msg \<Rightarrow> cipher" where
  "cipher_from_message T tx text_field m =
     \<lparr>ci_key_id = message_string T tx m ''key_id'', ci_nonce = message_string T tx m ''nonce'',
      ci_algorithm = message_string T tx m ''algorithm'',
      ci_encrypted_key = message_string T tx m ''encrypted_key'', ci_iv = message_string T tx m ''iv'',
      ci_text = message_string T tx m text_field\<rparr>"

text \<open>The result says whether all were written; it is not when a \<open>Set\<close> has panicked.\<close>

fun set_texts :: "message_types \<Rightarrow> string \<Rightarrow> (secret_msg \<times> string) list \<Rightarrow> texts \<Rightarrow> bool \<times> texts" where
  "set_texts T text_field [] tx = (True, tx)"
| "set_texts T text_field ((m, v) # ms) tx =
     (case set_message_string T m text_field v tx of None \<Rightarrow> (False, tx) | Some tx' \<Rightarrow> set_texts T text_field ms tx')"

subsection \<open>The middleware\<close>

text \<open>The state around a request: the cache, the texts, and the memo that all requests share.\<close>

record 's secret_state =
  st_cache :: 's
  st_texts :: texts
  st_memo :: target_memo

datatype decrypt_step = Decrypted | Failed secret_error | Blew_Up

definition decrypt_message ::
    "message_types \<Rightarrow> 'k crypto \<Rightarrow> 's secret_service \<Rightarrow> (cipher_group list \<Rightarrow> cipher_group list) \<Rightarrow> (string \<Rightarrow> gotime)
      \<Rightarrow> secret_msg \<Rightarrow> 's secret_state \<Rightarrow> (decrypt_step \<times> 's secret_state) option" where
  "decrypt_message T C svc order clk req st =
     do { (targets, memo) \<leftarrow> collect_secret_messages T (ss_message_type svc) req (st_memo st);
          let st1 = st\<lparr>st_memo := memo\<rparr> in
          if targets = [] then Some (Decrypted, st1)
          else
            (let n = length targets;
                 h = (\<lambda>i. cipher_from_message T (st_texts st) (ss_text_field svc) (targets ! i))
             in case secret_decrypt C svc order clk (map Some [0..<n]) (st_cache st) h of
                  (Some e, s, _) \<Rightarrow> Some (Failed e, st1\<lparr>st_cache := s\<rparr>)
                | (None, s, h') \<Rightarrow>
                    (let (ok, tx) = set_texts T (ss_text_field svc) (zip targets (map (\<lambda>i. ci_text (h' i)) [0..<n])) (st_texts st)
                     in Some (if ok then Decrypted else Blew_Up, st1\<lparr>st_cache := s, st_texts := tx\<rparr>))) }"

definition clear_message ::
    "message_types \<Rightarrow> 's secret_service \<Rightarrow> secret_msg \<Rightarrow> 's secret_state \<Rightarrow> (bool \<times> 's secret_state) option" where
  "clear_message T svc req st =
     do { (targets, memo) \<leftarrow> collect_secret_messages T (ss_message_type svc) req (st_memo st);
          let (ok, tx) = set_texts T (ss_text_field svc) (map (\<lambda>m. (m, [])) targets) (st_texts st) in
          Some (ok, st\<lparr>st_memo := memo, st_texts := tx\<rparr>) }"

datatype 'x request_of = Proto secret_msg | NotProto 'x

text \<open>What a handler does, and what the caller of the middleware sees.\<close>

datatype 'r handler_end = Returned 'r | Handler_Panicked

datatype 'r reply_of = Handled 'r | Refused secret_error | Panicked

type_synonym ('x, 'r, 's) secret_handler =
  "'x request_of \<Rightarrow> 's secret_state \<Rightarrow> 'r handler_end \<times> 'x request_of \<times> 's secret_state"

definition after_handler ::
    "message_types \<Rightarrow> 's secret_service \<Rightarrow> 'r handler_end \<Rightarrow> 'x request_of \<Rightarrow> 's secret_state
      \<Rightarrow> ('r reply_of \<times> 'x request_of \<times> 's secret_state) option" where
  "after_handler T svc result req st =
     (case result of
        Handler_Panicked \<Rightarrow> Some (Panicked, req, st)
      | Returned resp \<Rightarrow>
          (case req of
             NotProto _ \<Rightarrow> Some (Handled resp, req, st)
           | Proto m \<Rightarrow>
               do { (ok, st') \<leftarrow> clear_message T svc m st;
                    Some (if ok then Handled resp else Panicked, req, st') }))"

definition secret_middleware ::
    "message_types \<Rightarrow> 'k crypto \<Rightarrow> 's secret_service \<Rightarrow> (cipher_group list \<Rightarrow> cipher_group list) \<Rightarrow> (string \<Rightarrow> gotime)
      \<Rightarrow> ('x, 'r, 's) secret_handler \<Rightarrow> 'x request_of \<Rightarrow> 's secret_state
      \<Rightarrow> ('r reply_of \<times> 'x request_of \<times> 's secret_state) option" where
  "secret_middleware T C svc order clk handler req st =
     do { (step, st1) \<leftarrow> (case req of Proto m \<Rightarrow> decrypt_message T C svc order clk m st | NotProto _ \<Rightarrow> Some (Decrypted, st));
          (case step of
             Failed e \<Rightarrow> Some (Refused e, req, st1)
           | Blew_Up \<Rightarrow> Some (Panicked, req, st1)
           | Decrypted \<Rightarrow> (let (result, req', st2) = handler req st1 in after_handler T svc result req' st2)) }"

subsection \<open>Which types carry a target: the meaning\<close>

inductive carries :: "message_types \<Rightarrow> string \<Rightarrow> string \<Rightarrow> bool" for T target where
  here: "fd \<in> set (T n) \<Longrightarrow> \<not> ft_map fd \<Longrightarrow> ft_kind fd = MessageField target \<Longrightarrow> carries T target n"
| below: "fd \<in> set (T n) \<Longrightarrow> \<not> ft_map fd \<Longrightarrow> ft_kind fd = MessageField k \<Longrightarrow> \<not> has_prefix k well_known_prefix \<Longrightarrow>
    carries T target k \<Longrightarrow> carries T target n"

text \<open>A field is followed into the type \<open>k\<close>.\<close>

definition follows :: "string \<Rightarrow> field_type \<Rightarrow> string \<Rightarrow> bool" where
  "follows target fd k \<longleftrightarrow> \<not> ft_map fd \<and> ft_kind fd = MessageField k \<and> k \<noteq> target \<and> \<not> has_prefix k well_known_prefix"

definition field_carries :: "message_types \<Rightarrow> string \<Rightarrow> field_type \<Rightarrow> bool" where
  "field_carries T target fd \<longleftrightarrow> (\<not> ft_map fd \<and> ft_kind fd = MessageField target) \<or> (\<exists>k. follows target fd k \<and> carries T target k)"

lemma carries_iff: "carries T target n \<longleftrightarrow> (\<exists>fd \<in> set (T n). field_carries T target fd)"
proof
  assume "carries T target n"
  then show "\<exists>fd \<in> set (T n). field_carries T target fd"
    by (cases rule: carries.cases) (auto simp: field_carries_def follows_def)
next
  assume "\<exists>fd \<in> set (T n). field_carries T target fd"
  then show "carries T target n"
    by (auto simp: field_carries_def follows_def intro: carries.intros)
qed

lemma field_carries_simps:
  assumes "ft_kind fd = MessageField k" and "\<not> ft_map fd"
  shows "k = target \<Longrightarrow> field_carries T target fd"
    and "k \<noteq> target \<Longrightarrow> has_prefix k well_known_prefix \<Longrightarrow> \<not> field_carries T target fd"
    and "k \<noteq> target \<Longrightarrow> \<not> has_prefix k well_known_prefix \<Longrightarrow> field_carries T target fd = carries T target k"
  using assms by (auto simp: field_carries_def follows_def)

definition memo_sound :: "message_types \<Rightarrow> string \<Rightarrow> target_memo \<Rightarrow> bool" where
  "memo_sound T target memo \<longleftrightarrow> (\<forall>n b. memo (memo_key target n) = Some b \<longrightarrow> b = carries T target n)"

lemma memo_key_eq [simp]: "memo_key target m = memo_key target n \<longleftrightarrow> m = n"
  by (simp add: memo_key_def)

lemma memo_sound_update:
  "memo_sound T target memo \<Longrightarrow> b = carries T target n \<Longrightarrow> memo_sound T target (memo(memo_key target n \<mapsto> b))"
  by (auto simp: memo_sound_def)

text \<open>One turn of the loop, with the recursion \<open>f\<close>.\<close>

definition scan_turn ::
    "message_types \<Rightarrow> string \<Rightarrow> (field_type list \<Rightarrow> target_memo \<Rightarrow> (bool \<times> target_memo) option)
      \<Rightarrow> field_type list \<Rightarrow> target_memo \<Rightarrow> (bool \<times> target_memo) option" where
  "scan_turn T target f all_fds memo =
     (case all_fds of
        [] \<Rightarrow> Some (False, memo)
      | fd # fds \<Rightarrow>
          (case ft_kind fd of
             MessageField name \<Rightarrow>
               if ft_map fd then f fds memo
               else if name = target then Some (True, memo)
               else if has_prefix name well_known_prefix then f fds memo
               else (case memo (memo_key target name) of
                       Some b \<Rightarrow> if b then Some (True, memo) else f fds memo
                     | None \<Rightarrow>
                         do { (b, memo') \<leftarrow> f (T name) memo;
                              if b then Some (True, memo'(memo_key target name \<mapsto> b))
                              else f fds (memo'(memo_key target name \<mapsto> b)) })
           | _ \<Rightarrow> f fds memo))"

lemma scan_fields_turn: "scan_fields T target fds memo = scan_turn T target (scan_fields T target) fds memo"
  by (subst scan_fields.simps) (simp only: scan_turn_def)

lemma scan_cases:
  assumes "scan_turn T target f fds memo = Some r"
  obtains (finish) "fds = []" "r = (False, memo)"
  | (skip) fd rest where "fds = fd # rest" "\<not> field_carries T target fd" "\<And>k. \<not> follows target fd k"
      "f rest memo = Some r"
  | (found) fd rest where "fds = fd # rest" "field_carries T target fd" "\<And>k. \<not> follows target fd k" "r = (True, memo)"
  | (known) fd rest k b where "fds = fd # rest" "follows target fd k" "memo (memo_key target k) = Some b"
      "(if b then Some (True, memo) else f rest memo) = Some r"
  | (enter) fd rest k b memo' where "fds = fd # rest" "follows target fd k" "memo (memo_key target k) = None"
      "f (T k) memo = Some (b, memo')"
      "(if b then Some (True, memo'(memo_key target k \<mapsto> b))
        else f rest (memo'(memo_key target k \<mapsto> b))) = Some r"
proof -
  note eq = assms [unfolded scan_turn_def]
  show thesis
  proof (cases fds)
    case Nil
    with eq show ?thesis by (simp add: finish)
  next
    case (Cons fd rest)
    show ?thesis
    proof (cases "\<exists>k. ft_kind fd = MessageField k \<and> \<not> ft_map fd")
      case False
      then have "f rest memo = Some r"
        using eq Cons by (auto split: field_kind.splits if_splits)
      then show ?thesis using False Cons by (intro skip) (auto simp: field_carries_def follows_def)
    next
      case True
      then obtain k where k: "ft_kind fd = MessageField k" "\<not> ft_map fd" by blast
      consider "k = target" | "k \<noteq> target" "has_prefix k well_known_prefix" | "follows target fd k"
        using k by (auto simp: follows_def)
      then show ?thesis
      proof cases
        case 1
        with eq Cons k show ?thesis by (intro found) (auto simp: field_carries_def follows_def)
      next
        case 2
        with eq Cons k show ?thesis by (intro skip) (auto simp: field_carries_def follows_def)
      next
        case 3
        with eq Cons k show ?thesis
          by (cases "memo (memo_key target k)") (auto simp: follows_def bind_eq_Some_conv intro: known enter)
      qed
    qed
  qed
qed

lemma scan_induct [consumes 1, case_names finish skip found known enter]:
  assumes "scan_fields T target fds memo = Some r"
    and "\<And>memo. P [] memo (False, memo)"
    and "\<And>fd rest memo r. \<not> field_carries T target fd \<Longrightarrow> (\<And>k. \<not> follows target fd k) \<Longrightarrow> P rest memo r \<Longrightarrow> P (fd # rest) memo r"
    and "\<And>fd rest memo. field_carries T target fd \<Longrightarrow> (\<And>k. \<not> follows target fd k) \<Longrightarrow> P (fd # rest) memo (True, memo)"
    and "\<And>fd rest memo k b r. follows target fd k \<Longrightarrow> memo (memo_key target k) = Some b \<Longrightarrow>
      (if b then r = (True, memo) else P rest memo r) \<Longrightarrow> P (fd # rest) memo r"
    and "\<And>fd rest memo k b memo' r. follows target fd k \<Longrightarrow> memo (memo_key target k) = None \<Longrightarrow> P (T k) memo (b, memo') \<Longrightarrow>
      (if b then r = (True, memo'(memo_key target k \<mapsto> b)) else P rest (memo'(memo_key target k \<mapsto> b)) r) \<Longrightarrow> P (fd # rest) memo r"
  shows "P fds memo r"
proof -
  have "T' = T \<longrightarrow> target' = target \<longrightarrow> P fds memo r" if "scan_fields T' target' fds memo = Some r" for T' target' fds memo r
  proof (rule scan_fields.raw_induct [OF _ that], intro impI, goal_cases)
    case (1 f T' target' fds memo r)
    have IH: "f T target fds memo = Some r \<Longrightarrow> P fds memo r" for fds memo r
      using 1(1) [of T target fds memo r] 1(3,4) by simp
    have "scan_turn T target (f T target) fds memo = Some r"
      using 1(2-4) by (simp only: scan_turn_def)
    then show ?case
    proof (cases rule: scan_cases)
      case finish
      then show ?thesis using assms(2) by simp
    next
      case (skip fd rest)
      then show ?thesis using assms(3) [of fd rest memo r] IH by blast
    next
      case (found fd rest)
      then show ?thesis using assms(4) by simp
    next
      case (known fd rest k b)
      then show ?thesis using assms(5) [of fd k memo b] IH by (simp split: if_splits)
    next
      case (enter fd rest k b memo')
      then show ?thesis using assms(6) [of fd k memo b memo'] IH by (simp split: if_splits)
    qed
  qed
  then show ?thesis using assms(1) by blast
qed

text \<open>A type leads to another when the fields before one of that type do not stop the scan.\<close>

fun leads :: "message_types \<Rightarrow> string \<Rightarrow> field_type list \<Rightarrow> string set \<Rightarrow> bool" where
  "leads T target [] S = False"
| "leads T target (fd # fds) S = ((\<exists>k \<in> S. follows target fd k) \<or> (\<not> field_carries T target fd \<and> leads T target fds S))"

lemma follows_unique: "follows target fd k \<Longrightarrow> follows target fd k' \<longleftrightarrow> k' = k"
  by (auto simp: follows_def)

text \<open>
  A scan that returns tells whether a field carries a target; and it has entered no type of a set
  whose types lead to each other.
\<close>

lemma scan_law:
  assumes "scan_fields T target fds memo = Some r" and "memo_sound T target memo"
    and "\<forall>n \<in> S. memo (memo_key target n) = None" and circle: "\<forall>n \<in> S. leads T target (T n) S"
  shows "fst r = (\<exists>fd \<in> set fds. field_carries T target fd) \<and> memo_sound T target (snd r) \<and>
    \<not> leads T target fds S \<and> (\<forall>n \<in> S. snd r (memo_key target n) = None)"
  using assms(1-3)
proof (induction rule: scan_induct)
  case (known fd rest memo k b r)
  then have "k \<notin> S" "b = field_carries T target fd"
    by (auto simp: memo_sound_def field_carries_def follows_def)
  with known show ?case by (auto simp: follows_unique split: if_splits)
next
  case (enter fd rest memo k b memo' r)
  let ?memo = "memo'(memo_key target k \<mapsto> b)"
  have b: "b = carries T target k" "memo_sound T target memo'" and kS: "k \<notin> S"
    and fresh: "\<forall>n \<in> S. memo' (memo_key target n) = None"
    using enter(3) [OF enter(5,6)] circle by (auto simp: carries_iff)
  have "b = field_carries T target fd"
    using enter(1) b by (auto simp: field_carries_def follows_def)
  moreover have "memo_sound T target ?memo" "\<forall>n \<in> S. ?memo (memo_key target n) = None"
    using b fresh kS by (auto intro: memo_sound_update simp del: fun_upd_apply, auto)
  ultimately show ?case
    using enter(1,4) kS by (cases b) (auto simp: follows_unique simp del: fun_upd_apply)
qed auto

lemma scan_exact:
  assumes "scan_fields T target fds memo = Some r" and "memo_sound T target memo"
  shows "fst r = (\<exists>fd \<in> set fds. field_carries T target fd) \<and> memo_sound T target (snd r)"
  using scan_law [OF assms, of "{}"] by simp

lemma contains_exact:
  assumes "contains_secret_target T target n memo = Some (b, memo')" and "memo_sound T target memo"
  shows "b = carries T target n \<and> memo_sound T target memo'"
proof (cases "memo (memo_key target n)")
  case (Some c)
  then show ?thesis using assms by (auto simp: contains_secret_target_def memo_sound_def)
next
  case None
  then obtain memo1 where "scan_fields T target (T n) memo = Some (b, memo1)" "memo' = memo1(memo_key target n \<mapsto> b)"
    using assms(1) by (auto simp: contains_secret_target_def bind_eq_Some_conv)
  then show ?thesis
    using scan_exact [OF _ assms(2), of "T n" "(b, memo1)"] memo_sound_update [of T target memo1 b n]
    by (simp add: carries_iff [of T target n])
qed

subsection \<open>When the recursion ends\<close>

text \<open>Types that do not nest in a circle: what a field is followed into has a smaller rank.\<close>

definition ranked :: "message_types \<Rightarrow> string \<Rightarrow> (string \<Rightarrow> nat) \<Rightarrow> bool" where
  "ranked T target rank \<longleftrightarrow> (\<forall>n. \<forall>fd \<in> set (T n). \<forall>k. follows target fd k \<longrightarrow> rank k < rank n)"

lemma scan_total:
  assumes "ranked T target rank"
    and "\<forall>fd \<in> set fds. \<forall>k. follows target fd k \<longrightarrow> rank k < N"
  shows "\<exists>r. scan_fields T target fds memo = Some r"
  using assms(2)
proof (induction N arbitrary: fds memo rule: less_induct)
  case (less N)
  from less.prems show ?case
  proof (induction fds arbitrary: memo)
    case Nil
    have "scan_fields T target [] memo = Some (False, memo)"
      by (simp add: scan_fields_turn scan_turn_def)
    then show ?case by blast
  next
    case (Cons fd rest)
    then have rest: "\<exists>r. scan_fields T target rest memo = Some r" for memo by simp
    show ?case
    proof (cases "\<exists>k. follows target fd k")
      case True
      then obtain k where k: "follows target fd k" by blast
      then obtain b memo' where "scan_fields T target (T k) memo = Some (b, memo')"
        using less.IH [of "rank k" "T k" memo] assms(1) Cons.prems by (auto simp: ranked_def)
      with k rest [of memo] rest [of "memo'(memo_key target k \<mapsto> b)"] show ?thesis
        by (subst scan_fields_turn) (cases b; auto simp: scan_turn_def follows_def split: option.split)
    next
      case False
      with rest show ?thesis
        by (subst scan_fields_turn) (auto simp: scan_turn_def follows_def split: field_kind.split)
    qed
  qed
qed

lemma contains_total:
  assumes "ranked T target rank"
  shows "\<exists>r. contains_secret_target T target n memo = Some r"
proof -
  have "\<exists>r. scan_fields T target (T n) memo = Some r"
    using assms by (intro scan_total [where rank = rank and N = "rank n"]) (auto simp: ranked_def)
  then show ?thesis
    by (auto simp: contains_secret_target_def split: option.split)
qed

text \<open>On message types that do not nest in a circle (a rank falls along every field the scan
  follows), \<open>containsSecretTarget\<close> returns, its answer is whether the type carries the target in some
  field, directly or below, and it leaves the shared memo correct.\<close>

theorem contains_secret_target_exact:
  assumes "ranked T target rank"
    and "memo_sound T target memo"
  shows "\<exists>memo'. contains_secret_target T target name memo = Some (carries T target name, memo') \<and> memo_sound T target memo'"
proof -
  obtain b memo' where "contains_secret_target T target name memo = Some (b, memo')"
    using contains_total [of T target rank name memo, OF assms(1)] by auto
  with contains_exact [OF this assms(2)] show ?thesis by simp
qed

definition sample_types :: message_types where
  "sample_types n =
     (if n = ''Login'' then [\<lparr>ft_name = ''user'', ft_kind = TextField, ft_map = False, ft_list = False\<rparr>,
         \<lparr>ft_name = ''at'', ft_kind = MessageField ''google.protobuf.Timestamp'', ft_map = False, ft_list = False\<rparr>,
         \<lparr>ft_name = ''devices'', ft_kind = MessageField ''Device'', ft_map = False, ft_list = True\<rparr>]
      else if n = ''Device'' then [\<lparr>ft_name = ''password'', ft_kind = MessageField ''Secret'', ft_map = False, ft_list = False\<rparr>]
      else if n = ''Secret'' then map (\<lambda>name. \<lparr>ft_name = name, ft_kind = TextField, ft_map = False, ft_list = False\<rparr>)
         [''key_id'', ''nonce'', ''algorithm'', ''encrypted_key'', ''iv'', ''text'']
      else if n = ''Menu'' then [\<lparr>ft_name = ''title'', ft_kind = TextField, ft_map = False, ft_list = False\<rparr>,
         \<lparr>ft_name = ''children'', ft_kind = MessageField ''Menu'', ft_map = False, ft_list = True\<rparr>]
      else [])"

lemma empty_memo_sound [simp]: "memo_sound T target Map.empty"
  by (simp add: memo_sound_def)

theorem contains_secret_target_exact_witness:
  "\<exists>memo. contains_secret_target (sample_types(''Menu'' := [])) ''Secret'' ''Login'' Map.empty =
     Some (carries (sample_types(''Menu'' := [])) ''Secret'' ''Login'', memo) \<and>
     memo_sound (sample_types(''Menu'' := [])) ''Secret'' memo"
  by (rule contains_secret_target_exact [where rank = "\<lambda>n. if n = ''Login'' then 1 else 0"])
    (auto simp: ranked_def sample_types_def follows_def well_known_prefix_def has_prefix_def split: if_splits)

text \<open>A request whose message type lies on a circle of types is never answered: where each type
  of a set leads to another of the set, through fields before which no field carries the target,
  the middleware does not return for a request of such a type, whatever it holds. Nothing is
  noted in the memo until a scan has ended, so the recursion is not cut off.\<close>

theorem circular_types_never_answered:
  assumes "\<forall>n \<in> S. leads T (ss_message_type svc) (T n) S" and "sm_type m \<in> S"
    and "\<forall>n \<in> S. st_memo st (memo_key (ss_message_type svc) n) = None"
    and "memo_sound T (ss_message_type svc) (st_memo st)"
  shows "secret_middleware T C svc order clk handler (Proto m) st = None"
proof -
  have "scan_fields T (ss_message_type svc) (T (sm_type m)) (st_memo st) = None"
    using scan_law [OF _ assms(4,3,1)] assms(1,2) by (metis option.exhaust)
  then have "contains_secret_target T (ss_message_type svc) (sm_type m) (st_memo st) = None"
    using assms(2,3) by (simp add: contains_secret_target_def)
  then show ?thesis
    by (simp add: secret_middleware_def decrypt_message_def collect_secret_messages_def)
qed

theorem circular_types_never_answered_witness:
  "secret_middleware sample_types sample_crypto (with_message_type ''Secret'' sample_service) id (\<lambda>_. 20)
     (\<lambda>req st. (Returned (), req, st)) (Proto (SMsg 0 ''Menu'' [[], []]) :: unit request_of)
     \<lparr>st_cache = new_memory, st_texts = (\<lambda>_ _. []), st_memo = Map.empty\<rparr> = None"
  by (rule circular_types_never_answered [where S = "{''Menu''}"])
    (simp_all add: with_message_type_def sample_types_def follows_def field_carries_def well_known_prefix_def has_prefix_def)

subsection \<open>What is collected\<close>

text \<open>A target inside a message: in a field of the target's type, or below a field that is followed.\<close>

inductive inside :: "message_types \<Rightarrow> string \<Rightarrow> secret_msg \<Rightarrow> secret_msg \<Rightarrow> bool" for T target where
  direct: "(fd, ms) \<in> set (zip (T n) held) \<Longrightarrow> \<not> ft_map fd \<Longrightarrow> ft_kind fd = MessageField target \<Longrightarrow> v \<in> set ms \<Longrightarrow>
    inside T target (SMsg i n held) v"
| deeper: "(fd, ms) \<in> set (zip (T n) held) \<Longrightarrow> follows target fd k \<Longrightarrow> u \<in> set ms \<Longrightarrow> inside T target u v \<Longrightarrow>
    inside T target (SMsg i n held) v"

text \<open>The messages in a field have the type its descriptor names.\<close>

inductive typed :: "message_types \<Rightarrow> secret_msg \<Rightarrow> bool" for T where
  "(\<And>fd ms k u. (fd, ms) \<in> set (zip (T n) held) \<Longrightarrow> ft_kind fd = MessageField k \<Longrightarrow> u \<in> set ms \<Longrightarrow>
      sm_type u = k \<and> typed T u) \<Longrightarrow> typed T (SMsg i n held)"

inductive_cases typedE: "typed T (SMsg i n held)"

definition fields_typed :: "message_types \<Rightarrow> field_type list \<Rightarrow> secret_msg list list \<Rightarrow> bool" where
  "fields_typed T fds held \<longleftrightarrow> (\<forall>(fd, ms) \<in> set (zip fds held). \<forall>k. ft_kind fd = MessageField k \<longrightarrow>
     (\<forall>u \<in> set ms. sm_type u = k \<and> typed T u))"

definition field_inside :: "message_types \<Rightarrow> string \<Rightarrow> field_type list \<Rightarrow> secret_msg list list \<Rightarrow> secret_msg \<Rightarrow> bool" where
  "field_inside T target fds held v \<longleftrightarrow> (\<exists>(fd, ms) \<in> set (zip fds held).
     (\<not> ft_map fd \<and> ft_kind fd = MessageField target \<and> v \<in> set ms) \<or>
     (\<exists>k u. follows target fd k \<and> u \<in> set ms \<and> inside T target u v))"

lemma fields_Cons [simp]:
  "fields_typed T (fd # fds) (ms # held) \<longleftrightarrow>
     (\<forall>k. ft_kind fd = MessageField k \<longrightarrow> (\<forall>u \<in> set ms. sm_type u = k \<and> typed T u)) \<and> fields_typed T fds held"
  "field_inside T target (fd # fds) (ms # held) v \<longleftrightarrow> (\<not> ft_map fd \<and> ft_kind fd = MessageField target \<and> v \<in> set ms) \<or>
     (\<exists>k u. follows target fd k \<and> u \<in> set ms \<and> inside T target u v) \<or> field_inside T target fds held v"
  by (auto simp: fields_typed_def field_inside_def)

lemma typed_iff: "typed T (SMsg i n held) = fields_typed T (T n) held"
  unfolding fields_typed_def by (auto elim!: typedE intro!: typed.intros)

lemma inside_iff: "inside T target (SMsg i n held) v = field_inside T target (T n) held v"
proof
  assume "inside T target (SMsg i n held) v"
  then show "field_inside T target (T n) held v"
    by (cases rule: inside.cases) (auto simp: field_inside_def)
next
  assume "field_inside T target (T n) held v"
  then show "inside T target (SMsg i n held) v"
    by (auto simp: field_inside_def intro: inside.intros)
qed

lemma inside_carries:
  assumes "inside T target m v" and "typed T m"
  shows "carries T target (sm_type m)"
  using assms
proof (induction rule: inside.induct)
  case (direct fd ms n held v i)
  then show ?case by (auto intro: carries.here dest: set_zip_leftD)
next
  case (deeper fd ms n held k u v i)
  then have "sm_type u = k" "typed T u"
    by (auto simp: typed_iff fields_typed_def follows_def)
  with deeper show ?case
    by (auto simp: follows_def intro: carries.below dest: set_zip_leftD)
qed

lemma append_law:
  shows "append_fields T target fds held memo = Some (out, memo') \<Longrightarrow> memo_sound T target memo \<Longrightarrow> fields_typed T fds held \<Longrightarrow>
      memo_sound T target memo' \<and> {v. field_inside T target fds held v} \<subseteq> set out"
    and "append_secret_messages T target m memo = Some (out, memo') \<Longrightarrow> memo_sound T target memo \<Longrightarrow> typed T m \<Longrightarrow>
      memo_sound T target memo' \<and> {v. inside T target m v} \<subseteq> set out"
    and "append_each T target ms memo = Some (out, memo') \<Longrightarrow> memo_sound T target memo \<Longrightarrow> \<forall>m \<in> set ms. typed T m \<Longrightarrow>
      memo_sound T target memo' \<and> (\<forall>m \<in> set ms. {v. inside T target m v} \<subseteq> set out)"
proof (induction T target fds held memo and T target m memo and T target ms memo
    arbitrary: out memo' and out memo' and out memo'
    rule: append_fields_append_secret_messages_append_each.induct)
  case (1 T target i name held memo)
  then show ?case by (simp add: typed_iff inside_iff)
next
  case (2 T target fd fds ms held memo)
  show ?case
  proof (cases "ft_kind fd")
    case TextField
    then show ?thesis using 2(1,9-11) by (simp add: follows_def)
  next
    case OtherField
    then show ?thesis using 2(8-11) by (simp add: follows_def)
  next
    case (MessageField k)
    then have sub: "\<forall>u \<in> set ms. sm_type u = k \<and> typed T u" and rest: "fields_typed T fds held"
      using 2(11) by auto
    consider (map) "ft_map fd" | (target) "\<not> ft_map fd" "k = target"
      | (empty) "\<not> ft_map fd" "k \<noteq> target" "\<not> ft_list fd \<and> ms = []"
      | (scan) "\<not> ft_map fd" "k \<noteq> target" "\<not> (\<not> ft_list fd \<and> ms = [])"
      by blast
    then show ?thesis
    proof cases
      case map
      then show ?thesis using 2(2) [OF MessageField] 2(9-11) by (simp add: MessageField follows_def)
    next
      case target
      then obtain out2 where "append_fields T target fds held memo = Some (out2, memo')" "out = ms @ out2"
        using 2(9) by (auto simp: MessageField bind_eq_Some_conv)
      then show ?thesis using 2(3) [OF MessageField target _ 2(10) rest] target
        by (auto simp: MessageField follows_def)
    next
      case empty
      then show ?thesis using 2(4) [OF MessageField] 2(9-11) by (simp add: MessageField follows_def)
    next
      case scan
      then obtain b memo1 where contains: "contains_secret_target T target k memo = Some (b, memo1)"
        using 2(9) by (auto simp: MessageField bind_eq_Some_conv)
      have b: "b = carries T target k" and sound: "memo_sound T target memo1"
        using contains_exact [OF contains 2(10)] by simp_all
      show ?thesis
      proof (cases b)
        case False
        then have "append_fields T target fds held memo1 = Some (out, memo')"
          using 2(9) scan contains by (simp add: MessageField)
        then have "memo_sound T target memo' \<and> {v. field_inside T target fds held v} \<subseteq> set out"
          using 2(5) [OF MessageField scan contains refl False _ sound rest] by simp
        moreover have "\<not> inside T target u v" if "u \<in> set ms" for u v
          using inside_carries [of T target u v] sub that b False by auto
        ultimately show ?thesis using scan by (auto simp: MessageField follows_def)
      next
        case True
        then obtain out1 memo2 out2 where each: "append_each T target ms memo1 = Some (out1, memo2)"
          and tl: "append_fields T target fds held memo2 = Some (out2, memo')" and out: "out = out1 @ out2"
          using 2(9) scan contains by (auto simp: MessageField bind_eq_Some_conv)
        have "memo_sound T target memo2" "\<forall>m \<in> set ms. {v. inside T target m v} \<subseteq> set out1"
          using 2(6) [OF MessageField scan contains refl _ each sound] True sub by simp_all
        moreover from this have "memo_sound T target memo' \<and> {v. field_inside T target fds held v} \<subseteq> set out2"
          using 2(7) [OF MessageField scan contains refl _ each refl tl _ rest] True by simp
        ultimately show ?thesis using scan out by (auto simp: MessageField follows_def)
      qed
    qed
  qed
next
  case (5 T target m ms memo)
  then obtain out1 memo1 out2 where head: "append_secret_messages T target m memo = Some (out1, memo1)"
    and tail: "append_each T target ms memo1 = Some (out2, memo')" and out: "out = out1 @ out2"
    by (auto simp: bind_eq_Some_conv)
  have "memo_sound T target memo1 \<and> {v. inside T target m v} \<subseteq> set out1"
    using 5(1) [OF head] 5(4,5) by simp
  moreover from this have "memo_sound T target memo' \<and> (\<forall>m \<in> set ms. {v. inside T target m v} \<subseteq> set out2)"
    using 5(2) [OF head refl tail] 5(5) by simp
  ultimately show ?case unfolding out by auto
qed (auto simp: field_inside_def)

subsection \<open>Clearing\<close>

lemma set_empty_law:
  assumes "set_message_string T m name [] tx = Some tx'"
  shows "message_string T tx' m name = []" and "tx i name = [] \<Longrightarrow> tx' i name = []"
  using assms by (auto simp: set_message_string_def message_string_def split: option.splits if_splits)

lemma set_texts_keep_empty:
  "set_texts T name (map (\<lambda>m. (m, [])) ms) tx = (ok, tx') \<Longrightarrow> tx i name = [] \<Longrightarrow> tx' i name = []"
proof (induction ms arbitrary: tx)
  case (Cons m ms)
  then show ?case
    by (cases "set_message_string T m name [] tx") (auto dest: set_empty_law(2))
qed simp

lemma set_texts_clear:
  "set_texts T name (map (\<lambda>m. (m, [])) ms) tx = (True, tx') \<Longrightarrow> v \<in> set ms \<Longrightarrow> message_string T tx' v name = []"
proof (induction ms arbitrary: tx)
  case (Cons m ms)
  then obtain tx1 where first: "set_message_string T m name [] tx = Some tx1"
    and rest: "set_texts T name (map (\<lambda>m. (m, [])) ms) tx1 = (True, tx')"
    by (auto split: option.splits)
  show ?case
  proof (cases "v = m")
    case True
    then show ?thesis
      using set_empty_law(1) [OF first] set_texts_keep_empty [OF rest, of "sm_id m"]
      by (auto simp: message_string_def split: option.splits)
  next
    case False
    then show ?thesis using Cons.IH [OF rest] Cons.prems(2) by simp
  qed
qed simp

lemma collect_law:
  assumes "collect_secret_messages T target m memo = Some (out, memo')" and "memo_sound T target memo"
  shows "typed T m \<Longrightarrow> memo_sound T target memo' \<and> {v. inside T target m v} \<subseteq> set out"
proof -
  assume typed: "typed T m"
  obtain b memo1 where contains: "contains_secret_target T target (sm_type m) memo = Some (b, memo1)"
    using assms(1) by (auto simp: collect_secret_messages_def bind_eq_Some_conv)
  note law = contains_exact [OF contains assms(2)]
  show ?thesis
  proof (cases b)
    case True
    then have "append_secret_messages T target m memo1 = Some (out, memo')"
      using assms(1) contains by (simp add: collect_secret_messages_def)
    then show ?thesis using append_law(2) [OF _ _ typed] law by blast
  next
    case False
    then have "out = []" "memo' = memo1"
      using assms(1) contains by (simp_all add: collect_secret_messages_def)
    then show ?thesis using law False inside_carries [OF _ typed] by auto
  qed
qed

lemma clear_message_returns:
  assumes "clear_message T svc m st = Some (True, st')"
  obtains targets memo' where "collect_secret_messages T (ss_message_type svc) m (st_memo st) = Some (targets, memo')"
    and "set_texts T (ss_text_field svc) (map (\<lambda>m. (m, [])) targets) (st_texts st) = (True, st_texts st')"
proof (cases "collect_secret_messages T (ss_message_type svc) m (st_memo st)")
  case None
  then show ?thesis using assms by (simp add: clear_message_def)
next
  case (Some p)
  obtain targets memo' where p: "p = (targets, memo')" by (cases p)
  show ?thesis
    using that assms Some p
    by (cases "set_texts T (ss_text_field svc) (map (\<lambda>m. (m, [])) targets) (st_texts st)") (auto simp: clear_message_def)
qed


text \<open>The plaintext survives a handler that panics: the clearing is no deferred call.\<close>

lemma panic_keeps_plaintext:
  assumes "decrypt_message T C svc order clk m st = Some (Decrypted, st1)"
    and "handler (Proto m) st1 = (Handler_Panicked, Proto m, st2)"
  shows "secret_middleware T C svc order clk handler (Proto m) st = Some (Panicked, Proto m, st2)"
  using assms by (simp add: secret_middleware_def after_handler_def)

definition sample_message :: secret_msg where
  "sample_message = SMsg 0 ''Login'' [[], [], [SMsg 3 ''Device'' [[SMsg 2 ''Secret'' [[], [], [], [], [], []]]]]]"

definition sample_texts :: texts where
  "sample_texts i name =
     (if i \<noteq> 2 then [] else if name = ''key_id'' then ci_key_id (sample_ciphers 1)
      else if name = ''nonce'' then ci_nonce (sample_ciphers 1) else if name = ''algorithm'' then ci_algorithm (sample_ciphers 1)
      else if name = ''encrypted_key'' then ci_encrypted_key (sample_ciphers 1) else if name = ''iv'' then ci_iv (sample_ciphers 1)
      else ci_text (sample_ciphers 1))"

definition sample_state :: "memory secret_state" where
  "sample_state = \<lparr>st_cache = snd sample_generated, st_texts = sample_texts, st_memo = Map.empty\<rparr>"

definition sample_answer :: "(string reply_of \<times> unit request_of \<times> memory secret_state) option" where
  "sample_answer = secret_middleware sample_types sample_crypto (with_message_type ''Secret'' sample_service) id (\<lambda>_. 20)
     (\<lambda>req st. (Returned (st_texts st 2 ''text''), req, st)) (Proto sample_message) sample_state"

lemma sample_handled:
  "map_option (\<lambda>a. (fst a, fst (snd a))) sample_answer = Some (Handled ''two'', Proto sample_message)"
  by code_simp

lemma sample_message_typed: "typed sample_types sample_message"
proof -
  have secret: "typed sample_types (SMsg 2 ''Secret'' [[], [], [], [], [], []])"
    by (rule typed.intros) (auto simp: sample_types_def)
  have device: "typed sample_types (SMsg 3 ''Device'' [[SMsg 2 ''Secret'' [[], [], [], [], [], []]]])"
    by (rule typed.intros) (auto simp: sample_types_def secret)
  show ?thesis
    unfolding sample_message_def by (rule typed.intros) (auto simp: sample_types_def device)
qed

lemma sample_inside: "inside sample_types ''Secret'' sample_message (SMsg 2 ''Secret'' [[], [], [], [], [], []])"
  unfolding sample_message_def
  by (rule inside.deeper [where k = "''Device''" and u = "SMsg 3 ''Device'' [[SMsg 2 ''Secret'' [[], [], [], [], [], []]]]"
        and fd = "\<lparr>ft_name = ''devices'', ft_kind = MessageField ''Device'', ft_map = False, ft_list = True\<rparr>"
        and ms = "[SMsg 3 ''Device'' [[SMsg 2 ''Secret'' [[], [], [], [], [], []]]]]"];
      (rule inside.direct [where ms = "[SMsg 2 ''Secret'' [[], [], [], [], [], []]]"
        and fd = "\<lparr>ft_name = ''password'', ft_kind = MessageField ''Secret'', ft_map = False, ft_list = False\<rparr>"])?;
      simp add: sample_types_def follows_def well_known_prefix_def has_prefix_def)


end
