(* ===== verification/Captcha_Config.thy ===== *)
theory Captcha_Config
  imports Go_Utf8
begin

text \<open>
  The configuration of captchas (captcha/driver/config.go). The configurations of the seven kinds are objects
  behind pointers: an option changes the object it finds, be it the default or one the caller has passed in.
  A \<open>captcha_state\<close> holds the objects by address, \<open>None\<close> is a nil pointer, and an option is a step on it.
  \<open>float64\<close> is a real; nothing is computed with it.
\<close>

subsection \<open>The objects\<close>

record digit_config =
  dc_height :: int
  dc_width :: int
  dc_captcha_count :: int
  dc_max_skew :: real
  dc_dot_count :: int
  dc_bg_color_r :: nat
  dc_bg_color_g :: nat
  dc_bg_color_b :: nat
  dc_font_color_r :: nat
  dc_font_color_g :: nat
  dc_font_color_b :: nat
  dc_captcha_len :: int

record string_config =
  sc_height :: int
  sc_width :: int
  sc_captcha_count :: int
  sc_max_skew :: real
  sc_dot_count :: int
  sc_bg_color_r :: nat
  sc_bg_color_g :: nat
  sc_bg_color_b :: nat
  sc_font_color_r :: nat
  sc_font_color_g :: nat
  sc_font_color_b :: nat
  sc_source :: string
  sc_captcha_len :: int

record math_config =
  mc_height :: int
  mc_width :: int
  mc_captcha_count :: int
  mc_max_skew :: real
  mc_dot_count :: int
  mc_bg_color_r :: nat
  mc_bg_color_g :: nat
  mc_bg_color_b :: nat
  mc_font_color_r :: nat
  mc_font_color_g :: nat
  mc_font_color_b :: nat
  mc_captcha_len :: int

record chinese_config =
  cc_height :: int
  cc_width :: int
  cc_captcha_count :: int
  cc_dot_count :: int
  cc_source :: string
  cc_captcha_len :: int

record slide_config =
  sl_master_width :: int
  sl_master_height :: int
  sl_tile_width :: int
  sl_tile_height :: int
  sl_tile_radius :: int
  sl_jigsaw_radius :: int
  sl_shadow_offset_x :: int
  sl_shadow_offset_y :: int
  sl_shadow_blur :: int

record click_config =
  ck_master_width :: int
  ck_master_height :: int
  ck_thumb_width :: int
  ck_thumb_height :: int
  ck_captcha_count :: int
  ck_verify_count :: int
  ck_display_shadow :: bool
  ck_shadow_color :: string
  ck_shadow_offset_x :: int
  ck_shadow_offset_y :: int
  ck_chars :: string
  ck_language :: string

record rotate_config =
  rc_master_width :: int
  rc_master_height :: int
  rc_thumb_width :: int
  rc_thumb_height :: int

text \<open>The common Chinese characters, in UTF-8.\<close>

definition default_common_chars :: string where
  "default_common_chars = map char_of [
    231, 154, 132, 228, 184, 128, 230, 152, 175, 228, 186, 134, 228, 184, 141, 228, 186, 186, 230, 136, 145, 229, 156, 168, 230, 156,
    137, 228, 187, 150, 232, 191, 153, 228, 184, 186, 229, 164, 167, 230, 157, 165, 228, 187, 165, 228, 184, 170, 228, 184, 173, 228,
    184, 138, 228, 187, 172, 229, 136, 176, 232, 175, 180, 230, 151, 182, 232, 166, 129, 229, 176, 177, 229, 135, 186, 228, 188, 154,
    229, 143, 175, 228, 185, 159, 228, 189, 160, 229, 175, 185, 231, 148, 159, 232, 131, 189, 232, 128, 140, 229, 173, 144, 233, 130,
    163, 229, 190, 151, 228, 186, 142, 231, 157, 128, 228, 184, 139, 232, 135, 170, 228, 185, 139, 229, 185, 180, 232, 191, 135, 229,
    143, 145, 229, 144, 142, 228, 189, 156, 233, 135, 140, 231, 148, 168, 233, 129, 147, 232, 161, 140, 230, 137, 128, 231, 132, 182,
    229, 174, 182, 231, 167, 141, 228, 186, 139, 230, 136, 144, 230, 150, 185, 229, 164, 154, 231, 187, 143, 230, 151, 165, 230, 156,
    136, 230, 176, 180, 231, 129, 171, 229, 177, 177, 229, 164, 169, 230, 150, 135, 229, 156, 176, 228, 186, 186, 229, 191, 131, 230,
    137, 139, 229, 143, 163, 231, 155, 174, 232, 128, 179, 229, 164, 180, 233, 157, 162, 232, 186, 171, 233, 149, 191, 229, 176, 143,
    233, 171, 152, 230, 152, 142, 231, 153, 189, 229, 165, 189, 231, 156, 139, 229, 144, 172, 232, 175, 187, 229, 134, 153, 229, 173,
    166, 233, 151, 174, 229, 183, 165, 229, 138, 155, 231, 148, 159, 230, 180, 187, 228, 184, 150, 231, 149, 140, 228, 184, 173, 229,
    155, 189, 228, 186, 186, 230, 176, 145, 230, 136, 145, 228, 187, 172, 229, 164, 167, 229, 174, 182, 230, 156, 139, 229, 143, 139,
    229, 183, 165, 228, 189, 156, 230, 151, 182, 233, 151, 180, 229, 164, 169, 230, 176, 148, 229, 188, 128, 229, 191, 131, 229, 191,
    171, 228, 185, 144, 229, 185, 179, 229, 174, 137, 233, 161, 186, 229, 136, 169, 230, 136, 144, 229, 138, 159, 229, 184, 140, 230,
    156, 155, 230, 172, 162, 232, 191, 142, 230, 132, 159, 232, 176, 162, 232, 175, 183, 229, 134, 141, 232, 167, 129, 229, 188, 128,
    229, 167, 139, 231, 187, 147, 230, 157, 159, 229, 143, 175, 228, 187, 165, 233, 156, 128, 232, 166, 129, 229, 186, 148, 232, 175,
    165, 229, 155, 160, 228, 184, 186, 230, 137, 128, 228, 187, 165, 229, 166, 130, 230, 158, 156, 231, 142, 176, 229, 156, 168, 229,
    183, 178, 231, 187, 143, 230, 178, 161, 230, 156, 137, 228, 187, 128, 228, 185, 136, 230, 128, 142, 228, 185, 136, 232, 191, 153,
    233, 135, 140, 233, 130, 163, 233, 135, 140, 228, 184, 156, 232, 165, 191, 229, 156, 176, 230, 150, 185, 233, 151, 174, 233, 162,
    152, 230, 150, 185, 230, 179, 149, 231, 187, 147, 230, 158, 156, 228, 191, 161, 230, 129, 175, 229, 134, 133, 229, 174, 185, 230,
    131, 133, 229, 134, 181, 229, 133, 179, 231, 179, 187, 229, 184, 174, 229, 138, 169, 230, 148, 175, 230, 140, 129, 230, 156, 141,
    229, 138, 161, 231, 179, 187, 231, 187, 159, 230, 149, 176, 230, 141, 174, 231, 148, 168, 230, 136, 183, 229, 138, 159, 232, 131,
    189, 232, 174, 190, 231, 189, 174, 231, 174, 161, 231, 144, 134, 231, 189, 145, 231, 187, 156, 229, 174, 137, 229, 133, 168, 229,
    143, 145, 229, 177, 149, 229, 187, 186, 232, 174, 190, 229, 173, 166, 228, 185, 160, 230, 150, 135, 229, 140, 150, 231, 164, 190,
    228, 188, 154, 229, 173, 166, 230, 160, 161, 232, 128, 129, 229, 184, 136, 229, 173, 166, 231, 148, 159, 229, 132, 191, 231, 171,
    165, 231, 136, 182, 230, 175, 141, 231, 148, 183, 229, 165, 179, 229, 183, 166, 229, 143, 179, 229, 137, 141, 229, 144, 142, 228,
    184, 138, 228, 184, 139, 229, 134, 133, 229, 164, 150, 229, 188, 128, 229, 133, 179, 231, 156, 159, 229, 129, 135, 230, 173, 163,
    229, 143, 141, 229, 164, 154, 229, 176, 145, 230, 150, 176, 230, 151, 167, 230, 151, 169, 230, 153, 154, 229, 191, 171, 230, 133,
    162, 229, 134, 183, 231, 131, 173, 232, 189, 187, 233, 135, 141, 232, 191, 156, 232, 191, 145, 232, 191, 155, 233, 128, 128, 228,
    185, 176, 229, 141, 150, 229, 144, 131, 229, 150, 157, 231, 169, 191, 228, 189, 143, 232, 181, 176, 229, 157, 144, 231, 171, 153,
    232, 183, 145, 232, 183, 179, 231, 172, 145, 229, 147, 173, 231, 136, 177, 229, 150, 156, 230, 172, 162, 230, 131, 179, 229, 129,
    154, 231, 187, 153, 232, 174, 169, 229, 184, 174, 230, 139, 191, 230, 137, 147, 230, 137, 190, 230, 148, 190 :: nat]"

definition default_digit :: digit_config where
  "default_digit = \<lparr>dc_height = 80, dc_width = 240, dc_captcha_count = 6, dc_max_skew = 4 / 10, dc_dot_count = 30, dc_bg_color_r =
     255, dc_bg_color_g = 255, dc_bg_color_b = 255, dc_font_color_r = 0, dc_font_color_g = 0, dc_font_color_b = 0,
     dc_captcha_len = 4\<rparr>"

definition default_string :: string_config where
  "default_string = \<lparr>sc_height = 80, sc_width = 240, sc_captcha_count = 4, sc_max_skew = 4 / 10, sc_dot_count = 8, sc_bg_color_r =
     255, sc_bg_color_g = 255, sc_bg_color_b = 255, sc_font_color_r = 0, sc_font_color_g = 0, sc_font_color_b = 0,
     sc_source = ''abcdefghijklmnopqrstuvwxyzABCDEFGHIJKLMNOPQRSTUVWXYZ0123456789'', sc_captcha_len = 4\<rparr>"

definition default_math :: math_config where
  "default_math = \<lparr>mc_height = 80, mc_width = 240, mc_captcha_count = 4, mc_max_skew = 4 / 10, mc_dot_count = 8, mc_bg_color_r =
     255, mc_bg_color_g = 255, mc_bg_color_b = 255, mc_font_color_r = 0, mc_font_color_g = 0, mc_font_color_b = 0,
     mc_captcha_len = 4\<rparr>"

definition default_chinese :: chinese_config where
  "default_chinese = \<lparr>cc_height = 80, cc_width = 240, cc_captcha_count = 4, cc_dot_count = 8, cc_source = [], cc_captcha_len = 4\<rparr>"

definition default_slide :: slide_config where
  "default_slide = \<lparr>sl_master_width = 300, sl_master_height = 220, sl_tile_width = 60, sl_tile_height = 60, sl_tile_radius = 5,
     sl_jigsaw_radius = 10, sl_shadow_offset_x = 5, sl_shadow_offset_y = 5, sl_shadow_blur = 10\<rparr>"

definition default_click :: click_config where
  "default_click = \<lparr>ck_master_width = 300, ck_master_height = 220, ck_thumb_width = 180, ck_thumb_height = 48, ck_captcha_count =
     6, ck_verify_count = 4, ck_display_shadow = True, ck_shadow_color = ''#000000'', ck_shadow_offset_x = 2,
     ck_shadow_offset_y = 2, ck_chars = default_common_chars, ck_language = ''zh''\<rparr>"

definition default_rotate :: rotate_config where
  "default_rotate = \<lparr>rc_master_width = 300, rc_master_height = 300, rc_thumb_width = 150, rc_thumb_height = 150\<rparr>"

subsection \<open>The store and the options\<close>

text \<open>The driver types are the strings of the source.\<close>

record captcha_config =
  cf_driver_type :: string
  cf_expire :: duration
  cf_key_prefix :: string
  cf_digit :: "nat option"
  cf_string :: "nat option"
  cf_math :: "nat option"
  cf_chinese :: "nat option"
  cf_slide :: "nat option"
  cf_click :: "nat option"
  cf_rotate :: "nat option"

record captcha_state =
  cs_next :: nat
  cs_digit :: "nat \<Rightarrow> digit_config"
  cs_string :: "nat \<Rightarrow> string_config"
  cs_math :: "nat \<Rightarrow> math_config"
  cs_chinese :: "nat \<Rightarrow> chinese_config"
  cs_slide :: "nat \<Rightarrow> slide_config"
  cs_click :: "nat \<Rightarrow> click_config"
  cs_rotate :: "nat \<Rightarrow> rotate_config"
  cs_config :: captcha_config

type_synonym captcha_option = "captcha_state \<Rightarrow> captcha_state"

definition default_config :: "captcha_state \<Rightarrow> captcha_state" where
  "default_config s = (let n = cs_next s in s\<lparr>cs_next := n + 7,
     cs_digit := (cs_digit s)(n := default_digit),
     cs_string := (cs_string s)(n + 1 := default_string),
     cs_math := (cs_math s)(n + 2 := default_math),
     cs_chinese := (cs_chinese s)(n + 3 := default_chinese),
     cs_slide := (cs_slide s)(n + 4 := default_slide),
     cs_click := (cs_click s)(n + 5 := default_click),
     cs_rotate := (cs_rotate s)(n + 6 := default_rotate),
     cs_config := \<lparr>cf_driver_type = ''digit'', cf_expire = 5 * minute, cf_key_prefix = ''captcha'',
       cf_digit = Some n, cf_string = Some (n + 1), cf_math = Some (n + 2), cf_chinese = Some (n + 3), cf_slide = Some (n + 4), cf_click = Some (n + 5), cf_rotate = Some (n + 6)\<rparr>\<rparr>)"

definition with_driver_type :: "string \<Rightarrow> captcha_option" where
  "with_driver_type driver_type s = s\<lparr>cs_config := (cs_config s)\<lparr>cf_driver_type := driver_type\<rparr>\<rparr>"

definition with_expire :: "duration \<Rightarrow> captcha_option" where
  "with_expire expire s = s\<lparr>cs_config := (cs_config s)\<lparr>cf_expire := expire\<rparr>\<rparr>"

definition with_key_prefix :: "string \<Rightarrow> captcha_option" where
  "with_key_prefix prefix s = s\<lparr>cs_config := (cs_config s)\<lparr>cf_key_prefix := prefix\<rparr>\<rparr>"

text \<open>The object behind a pointer, or a new default one, changed by \<open>f\<close>.\<close>

definition edit_object :: "'c \<Rightarrow> ('c \<Rightarrow> 'c) \<Rightarrow> nat option \<Rightarrow> (nat \<Rightarrow> 'c) \<Rightarrow> nat \<Rightarrow> nat \<times> (nat \<Rightarrow> 'c) \<times> nat" where
  "edit_object fresh f p objects free =
     (case p of
        None \<Rightarrow> (free, objects(free := f fresh), free + 1)
      | Some a \<Rightarrow> (a, objects(a := f (objects a)), free))"

definition edit_digit :: "(digit_config \<Rightarrow> digit_config) \<Rightarrow> captcha_option" where
  "edit_digit f s = (case edit_object default_digit f (cf_digit (cs_config s)) (cs_digit s) (cs_next s) of (a, objects, free) \<Rightarrow>
     s\<lparr>cs_config := (cs_config s)\<lparr>cf_digit := Some a\<rparr>, cs_digit := objects, cs_next := free\<rparr>)"

definition edit_string :: "(string_config \<Rightarrow> string_config) \<Rightarrow> captcha_option" where
  "edit_string f s = (case edit_object default_string f (cf_string (cs_config s)) (cs_string s) (cs_next s) of (a, objects, free) \<Rightarrow>
     s\<lparr>cs_config := (cs_config s)\<lparr>cf_string := Some a\<rparr>, cs_string := objects, cs_next := free\<rparr>)"

definition edit_math :: "(math_config \<Rightarrow> math_config) \<Rightarrow> captcha_option" where
  "edit_math f s = (case edit_object default_math f (cf_math (cs_config s)) (cs_math s) (cs_next s) of (a, objects, free) \<Rightarrow>
     s\<lparr>cs_config := (cs_config s)\<lparr>cf_math := Some a\<rparr>, cs_math := objects, cs_next := free\<rparr>)"

definition edit_chinese :: "(chinese_config \<Rightarrow> chinese_config) \<Rightarrow> captcha_option" where
  "edit_chinese f s = (case edit_object default_chinese f (cf_chinese (cs_config s)) (cs_chinese s) (cs_next s) of (a, objects, free) \<Rightarrow>
     s\<lparr>cs_config := (cs_config s)\<lparr>cf_chinese := Some a\<rparr>, cs_chinese := objects, cs_next := free\<rparr>)"

definition edit_slide :: "(slide_config \<Rightarrow> slide_config) \<Rightarrow> captcha_option" where
  "edit_slide f s = (case edit_object default_slide f (cf_slide (cs_config s)) (cs_slide s) (cs_next s) of (a, objects, free) \<Rightarrow>
     s\<lparr>cs_config := (cs_config s)\<lparr>cf_slide := Some a\<rparr>, cs_slide := objects, cs_next := free\<rparr>)"

definition edit_click :: "(click_config \<Rightarrow> click_config) \<Rightarrow> captcha_option" where
  "edit_click f s = (case edit_object default_click f (cf_click (cs_config s)) (cs_click s) (cs_next s) of (a, objects, free) \<Rightarrow>
     s\<lparr>cs_config := (cs_config s)\<lparr>cf_click := Some a\<rparr>, cs_click := objects, cs_next := free\<rparr>)"

definition edit_rotate :: "(rotate_config \<Rightarrow> rotate_config) \<Rightarrow> captcha_option" where
  "edit_rotate f s = (case edit_object default_rotate f (cf_rotate (cs_config s)) (cs_rotate s) (cs_next s) of (a, objects, free) \<Rightarrow>
     s\<lparr>cs_config := (cs_config s)\<lparr>cf_rotate := Some a\<rparr>, cs_rotate := objects, cs_next := free\<rparr>)"

definition with_digit_config :: "nat option \<Rightarrow> captcha_option" where
  "with_digit_config p s = s\<lparr>cs_config := (cs_config s)\<lparr>cf_digit := p\<rparr>\<rparr>"

definition with_string_config :: "nat option \<Rightarrow> captcha_option" where
  "with_string_config p s = s\<lparr>cs_config := (cs_config s)\<lparr>cf_string := p\<rparr>\<rparr>"

definition with_math_config :: "nat option \<Rightarrow> captcha_option" where
  "with_math_config p s = s\<lparr>cs_config := (cs_config s)\<lparr>cf_math := p\<rparr>\<rparr>"

definition with_chinese_config :: "nat option \<Rightarrow> captcha_option" where
  "with_chinese_config p s = s\<lparr>cs_config := (cs_config s)\<lparr>cf_chinese := p\<rparr>\<rparr>"

definition with_digit_height :: "int \<Rightarrow> captcha_option" where
  "with_digit_height h = edit_digit (\<lambda>c. c\<lparr>dc_height := h\<rparr>)"

definition with_digit_width :: "int \<Rightarrow> captcha_option" where
  "with_digit_width w = edit_digit (\<lambda>c. c\<lparr>dc_width := w\<rparr>)"

definition with_digit_count :: "int \<Rightarrow> captcha_option" where
  "with_digit_count n = edit_digit (\<lambda>c. c\<lparr>dc_captcha_count := n\<rparr>)"

definition with_digit_max_skew :: "real \<Rightarrow> captcha_option" where
  "with_digit_max_skew skew = edit_digit (\<lambda>c. c\<lparr>dc_max_skew := skew\<rparr>)"

definition with_digit_dot_count :: "int \<Rightarrow> captcha_option" where
  "with_digit_dot_count n = edit_digit (\<lambda>c. c\<lparr>dc_dot_count := n\<rparr>)"

definition with_string_height :: "int \<Rightarrow> captcha_option" where
  "with_string_height h = edit_string (\<lambda>c. c\<lparr>sc_height := h\<rparr>)"

definition with_string_width :: "int \<Rightarrow> captcha_option" where
  "with_string_width w = edit_string (\<lambda>c. c\<lparr>sc_width := w\<rparr>)"

definition with_string_count :: "int \<Rightarrow> captcha_option" where
  "with_string_count n = edit_string (\<lambda>c. c\<lparr>sc_captcha_count := n\<rparr>)"

definition with_string_source :: "string \<Rightarrow> captcha_option" where
  "with_string_source source = edit_string (\<lambda>c. c\<lparr>sc_source := source\<rparr>)"

definition with_string_dot_count :: "int \<Rightarrow> captcha_option" where
  "with_string_dot_count n = edit_string (\<lambda>c. c\<lparr>sc_dot_count := n\<rparr>)"

definition with_math_height :: "int \<Rightarrow> captcha_option" where
  "with_math_height h = edit_math (\<lambda>c. c\<lparr>mc_height := h\<rparr>)"

definition with_math_width :: "int \<Rightarrow> captcha_option" where
  "with_math_width w = edit_math (\<lambda>c. c\<lparr>mc_width := w\<rparr>)"

definition with_math_dot_count :: "int \<Rightarrow> captcha_option" where
  "with_math_dot_count n = edit_math (\<lambda>c. c\<lparr>mc_dot_count := n\<rparr>)"

definition with_chinese_height :: "int \<Rightarrow> captcha_option" where
  "with_chinese_height h = edit_chinese (\<lambda>c. c\<lparr>cc_height := h\<rparr>)"

definition with_chinese_width :: "int \<Rightarrow> captcha_option" where
  "with_chinese_width w = edit_chinese (\<lambda>c. c\<lparr>cc_width := w\<rparr>)"

definition with_chinese_count :: "int \<Rightarrow> captcha_option" where
  "with_chinese_count n = edit_chinese (\<lambda>c. c\<lparr>cc_captcha_count := n\<rparr>)"

definition with_chinese_source :: "string \<Rightarrow> captcha_option" where
  "with_chinese_source source = edit_chinese (\<lambda>c. c\<lparr>cc_source := source\<rparr>)"

definition with_chinese_chars :: "string list \<Rightarrow> captcha_option" where
  "with_chinese_chars chars = edit_chinese (\<lambda>c. c\<lparr>cc_source := str_join chars '',''\<rparr>)"

definition with_chinese_dot_count :: "int \<Rightarrow> captcha_option" where
  "with_chinese_dot_count n = edit_chinese (\<lambda>c. c\<lparr>cc_dot_count := n\<rparr>)"

definition with_slide_config :: "nat option \<Rightarrow> captcha_option" where
  "with_slide_config p s = s\<lparr>cs_config := (cs_config s)\<lparr>cf_slide := p\<rparr>\<rparr>"

definition with_slide_master_size :: "int \<Rightarrow> int \<Rightarrow> captcha_option" where
  "with_slide_master_size w h = edit_slide (\<lambda>c. c\<lparr>sl_master_width := w, sl_master_height := h\<rparr>)"

definition with_slide_tile_size :: "int \<Rightarrow> int \<Rightarrow> captcha_option" where
  "with_slide_tile_size w h = edit_slide (\<lambda>c. c\<lparr>sl_tile_width := w, sl_tile_height := h\<rparr>)"

definition with_slide_tile_radius :: "int \<Rightarrow> captcha_option" where
  "with_slide_tile_radius r = edit_slide (\<lambda>c. c\<lparr>sl_tile_radius := r\<rparr>)"

definition with_slide_jigsaw_radius :: "int \<Rightarrow> captcha_option" where
  "with_slide_jigsaw_radius r = edit_slide (\<lambda>c. c\<lparr>sl_jigsaw_radius := r\<rparr>)"

definition with_slide_shadow :: "int \<Rightarrow> int \<Rightarrow> int \<Rightarrow> captcha_option" where
  "with_slide_shadow offset_x offset_y blur = edit_slide (\<lambda>c. c\<lparr>sl_shadow_offset_x := offset_x, sl_shadow_offset_y := offset_y, sl_shadow_blur := blur\<rparr>)"

definition with_click_config :: "nat option \<Rightarrow> captcha_option" where
  "with_click_config p s = s\<lparr>cs_config := (cs_config s)\<lparr>cf_click := p\<rparr>\<rparr>"

definition with_click_master_size :: "int \<Rightarrow> int \<Rightarrow> captcha_option" where
  "with_click_master_size w h = edit_click (\<lambda>c. c\<lparr>ck_master_width := w, ck_master_height := h\<rparr>)"

definition with_click_thumb_size :: "int \<Rightarrow> int \<Rightarrow> captcha_option" where
  "with_click_thumb_size w h = edit_click (\<lambda>c. c\<lparr>ck_thumb_width := w, ck_thumb_height := h\<rparr>)"

definition with_click_captcha_count :: "int \<Rightarrow> captcha_option" where
  "with_click_captcha_count n = edit_click (\<lambda>c. c\<lparr>ck_captcha_count := n\<rparr>)"

definition with_click_verify_count :: "int \<Rightarrow> captcha_option" where
  "with_click_verify_count n = edit_click (\<lambda>c. c\<lparr>ck_verify_count := n\<rparr>)"

definition with_click_chars :: "string \<Rightarrow> captcha_option" where
  "with_click_chars chars = edit_click (\<lambda>c. c\<lparr>ck_chars := chars\<rparr>)"

definition with_click_language :: "string \<Rightarrow> captcha_option" where
  "with_click_language lang = edit_click (\<lambda>c. c\<lparr>ck_language := lang\<rparr>)"

definition with_click_shadow :: "bool \<Rightarrow> string \<Rightarrow> int \<Rightarrow> int \<Rightarrow> captcha_option" where
  "with_click_shadow shown colour offset_x offset_y = edit_click (\<lambda>c. c\<lparr>ck_display_shadow := shown, ck_shadow_color := colour, ck_shadow_offset_x := offset_x, ck_shadow_offset_y := offset_y\<rparr>)"

definition with_rotate_config :: "nat option \<Rightarrow> captcha_option" where
  "with_rotate_config p s = s\<lparr>cs_config := (cs_config s)\<lparr>cf_rotate := p\<rparr>\<rparr>"

definition with_rotate_master_size :: "int \<Rightarrow> int \<Rightarrow> captcha_option" where
  "with_rotate_master_size w h = edit_rotate (\<lambda>c. c\<lparr>rc_master_width := w, rc_master_height := h\<rparr>)"

definition with_rotate_thumb_size :: "int \<Rightarrow> int \<Rightarrow> captcha_option" where
  "with_rotate_thumb_size w h = edit_rotate (\<lambda>c. c\<lparr>rc_thumb_width := w, rc_thumb_height := h\<rparr>)"

end
