(* ===== verification/Captcha_Driver.thy ===== *)
theory Captcha_Driver
  imports Captcha_Config Auth_Claims
begin

text \<open>
  The captcha drivers (captcha/driver): which driver a configuration selects, what each asks of the drawing
  libraries, the answer it keeps and what it shows to the browser, and how it checks an answer. Drawing and
  the tolerance tests of go-captcha are parameters, and so is the table of Unicode case folding (\<open>fold_rune\<close>).
  A driver of a behaviour captcha builds its library object at its first use and keeps it.
\<close>

subsection \<open>Characters\<close>

definition split_chars :: "string \<Rightarrow> string list" where
  "split_chars source = map utf8_encode (runes source)"

definition default_chinese_source :: "string \<Rightarrow> string" where
  "default_chinese_source source =
     (if source \<noteq> [] then source else str_join (split_chars default_common_chars) '','')"

definition default_click_chars :: "string list \<Rightarrow> string \<Rightarrow> string \<Rightarrow> string list" where
  "default_click_chars alpha_chars lang source =
     (if source \<noteq> [] then split_chars source
      else if lang = ''en'' \<and> alpha_chars \<noteq> [] then alpha_chars
      else split_chars default_common_chars)"

subsection \<open>The libraries\<close>

datatype base64_driver =
    B64String int int int int int string
  | B64Math int int int int
  | B64Chinese int int int int int string
  | B64Digit int int int real int

record slide_builder =
  sb_width :: int
  sb_height :: int
  sb_tile :: int

record rotate_builder =
  rb_master :: int
  rb_thumb :: int

record click_builder =
  cb_width :: int
  cb_height :: int
  cb_count :: int
  cb_verify :: int
  cb_thumb_width :: int
  cb_thumb_height :: int
  cb_shadow :: bool
  cb_shadow_color :: string
  cb_shadow_x :: int
  cb_shadow_y :: int
  cb_chars :: "string list"

record slide_block =
  bk_x :: int
  bk_dx :: int
  bk_dy :: int
  bk_width :: int
  bk_height :: int

record click_dot =
  cd_x :: int
  cd_y :: int
  cd_width :: int
  cd_height :: int
  cd_size :: int

text \<open>
  What a library returns: its data (\<open>None\<close> is nil) and the two images. \<open>cl_image\<close> gives identifier,
  question and answer, and draws.
\<close>

record captcha_lib =
  cl_image :: "base64_driver \<Rightarrow> (string \<times> string \<times> string)"
  cl_draw :: "base64_driver \<Rightarrow> string \<Rightarrow> string res"
  cl_slide :: "slide_builder \<Rightarrow> (slide_block option \<times> string res \<times> string res) res"
  cl_rotate :: "rotate_builder \<Rightarrow> ((int \<times> int) option \<times> string res \<times> string res) res"
  cl_rotate_size :: "rotate_builder \<Rightarrow> int"
  cl_click :: "click_builder \<Rightarrow> (click_dot option list option \<times> string res \<times> string res) res"
  cl_alpha_chars :: "string list"
  cl_fold_rune :: "nat \<Rightarrow> nat"
  cl_rotate_ok :: "int \<Rightarrow> int \<Rightarrow> int \<Rightarrow> bool"
  cl_click_ok :: "int \<Rightarrow> int \<Rightarrow> int \<Rightarrow> int \<Rightarrow> int \<Rightarrow> int \<Rightarrow> int \<Rightarrow> bool"
  cl_float_int :: "string \<Rightarrow> int option"

record captcha_challenge =
  ch_id :: string
  ch_payload :: string
  ch_answer :: string

subsection \<open>Images\<close>

definition choose_base64_driver :: "captcha_state \<Rightarrow> base64_driver" where
  "choose_base64_driver s =
     (let cfg = cs_config s in
      if cf_driver_type cfg = ''string'' then
        (let c = (case cf_string cfg of None \<Rightarrow> default_string | Some a \<Rightarrow> cs_string s a)
         in B64String (sc_height c) (sc_width c) (sc_dot_count c) 0 (sc_captcha_count c) (sc_source c))
      else if cf_driver_type cfg = ''math'' then
        (let c = (case cf_math cfg of None \<Rightarrow> default_math | Some a \<Rightarrow> cs_math s a)
         in B64Math (mc_height c) (mc_width c) (mc_dot_count c) 0)
      else if cf_driver_type cfg = ''chinese'' then
        (let c = (case cf_chinese cfg of None \<Rightarrow> default_chinese | Some a \<Rightarrow> cs_chinese s a)
         in B64Chinese (cc_height c) (cc_width c) (cc_dot_count c) 0 (cc_captcha_count c) (default_chinese_source (cc_source c)))
      else
        (let c = (case cf_digit cfg of None \<Rightarrow> default_digit | Some a \<Rightarrow> cs_digit s a)
         in B64Digit (dc_height c) (dc_width c) (dc_captcha_count c) (dc_max_skew c) (dc_dot_count c)))"

definition image_generate :: "captcha_lib \<Rightarrow> captcha_state \<Rightarrow> captcha_challenge res" where
  "image_generate L s =
     (let d = choose_base64_driver s; (i, question, answer) = cl_image L d in
      case cl_draw L d question of
        Inl e \<Rightarrow> Inl (WrapErr ''failed to draw captcha'' e)
      | Inr item \<Rightarrow> Inr \<lparr>ch_id = i, ch_payload = item, ch_answer = answer\<rparr>)"

definition image_verify :: "captcha_lib \<Rightarrow> string \<Rightarrow> string \<Rightarrow> bool" where
  "image_verify L expected actual =
     (map (cl_fold_rune L) (trim_runes (runes expected)) = map (cl_fold_rune L) (trim_runes (runes actual)))"

subsection \<open>Slides\<close>

definition slide_config_of :: "captcha_state \<Rightarrow> nat option \<Rightarrow> slide_config" where
  "slide_config_of s p = (case p of None \<Rightarrow> default_slide | Some a \<Rightarrow> cs_slide s a)"

definition slide_init :: "captcha_state \<Rightarrow> nat option \<Rightarrow> slide_builder option \<Rightarrow> slide_builder" where
  "slide_init s p made =
     (case made of
        Some b \<Rightarrow> b
      | None \<Rightarrow> (let c = slide_config_of s p in
          \<lparr>sb_width = sl_master_width c, sb_height = sl_master_height c, sb_tile = sl_tile_width c\<rparr>))"

definition both_images :: "string \<Rightarrow> string \<Rightarrow> string res \<Rightarrow> string res \<Rightarrow> (string \<Rightarrow> string \<Rightarrow> 'a res) \<Rightarrow> 'a res" where
  "both_images m1 m2 master thumb f =
     (case master of Inl e \<Rightarrow> Inl (WrapErr m1 e) | Inr a \<Rightarrow> (case thumb of Inl e \<Rightarrow> Inl (WrapErr m2 e) | Inr b \<Rightarrow> f a b))"

definition slide_payload :: "slide_config \<Rightarrow> slide_block \<Rightarrow> string \<Rightarrow> string \<Rightarrow> json" where
  "slide_payload c block master tile = JObj
     [(''type'', JStr ''slide''), (''image'', JStr master), (''thumb'', JStr tile), (''width'', JInt (sl_master_width c)),
      (''height'', JInt (sl_master_height c)), (''thumbX'', JInt (bk_dx block)), (''thumbY'', JInt (bk_dy block)),
      (''thumbWidth'', JInt (bk_width block)), (''thumbHeight'', JInt (bk_height block))]"

text \<open>\<open>uuid\<close> is the random identifier without its hyphens.\<close>

definition slide_generate ::
    "captcha_lib \<Rightarrow> captcha_state \<Rightarrow> string \<Rightarrow> nat option \<Rightarrow> slide_builder option \<Rightarrow> captcha_challenge res" where
  "slide_generate L s uuid p made =
     (case cl_slide L (slide_init s p made) of
        Inl e \<Rightarrow> Inl (WrapErr ''failed to generate slide captcha'' e)
      | Inr (None, _) \<Rightarrow> Inl (NewErr ''slide captcha data is nil'')
      | Inr (Some block, master, tile) \<Rightarrow>
          both_images ''failed to convert master image to base64'' ''failed to convert tile image to base64'' master tile (\<lambda>a b.
            Inr \<lparr>ch_id = uuid, ch_payload = json_print (slide_payload (slide_config_of s p) block a b),
                 ch_answer = show_int (bk_x block)\<rparr>))"

definition slide_verify :: "string \<Rightarrow> string \<Rightarrow> bool" where
  "slide_verify expected actual =
     (case parse_int64 expected of
        None \<Rightarrow> False
      | Some expected_x \<Rightarrow>
          (case parse_int64 actual of
             None \<Rightarrow> False
           | Some actual_x \<Rightarrow>
               (let diff = wrap64 (expected_x - actual_x) in (if diff < 0 then wrap64 (- diff) else diff) \<le> 5)))"

subsection \<open>Rotations\<close>

definition rotate_config_of :: "captcha_state \<Rightarrow> nat option \<Rightarrow> rotate_config" where
  "rotate_config_of s p = (case p of None \<Rightarrow> default_rotate | Some a \<Rightarrow> cs_rotate s a)"

definition rotate_init :: "captcha_state \<Rightarrow> nat option \<Rightarrow> rotate_builder option \<Rightarrow> rotate_builder" where
  "rotate_init s p made =
     (case made of
        Some b \<Rightarrow> b
      | None \<Rightarrow>
          (let c = rotate_config_of s p;
               m1 = (if rc_master_width c \<le> 0 then rc_master_height c else rc_master_width c);
               m2 = (if m1 \<le> 0 then rc_master_width default_rotate else m1);
               t1 = (if rc_thumb_width c \<le> 0 then rc_thumb_height c else rc_thumb_width c);
               t2 = (if t1 \<le> 0 then rc_thumb_width default_rotate else t1)
           in \<lparr>rb_master = m2, rb_thumb = t2\<rparr>))"

definition rotate_payload :: "int \<Rightarrow> int \<Rightarrow> string \<Rightarrow> string \<Rightarrow> json" where
  "rotate_payload image_size thumb_size master thumb = JObj
     [(''type'', JStr ''rotate''), (''image'', JStr master), (''thumb'', JStr thumb), (''width'', JInt image_size),
      (''height'', JInt image_size), (''thumbSize'', JInt thumb_size)]"

text \<open>The library's data are the angle and the width of the inner picture.\<close>

definition rotate_generate ::
    "captcha_lib \<Rightarrow> captcha_state \<Rightarrow> string \<Rightarrow> nat option \<Rightarrow> rotate_builder option \<Rightarrow> captcha_challenge res" where
  "rotate_generate L s uuid p made =
     (let builder = rotate_init s p made in
      case cl_rotate L builder of
        Inl e \<Rightarrow> Inl (WrapErr ''failed to generate rotate captcha'' e)
      | Inr (None, _) \<Rightarrow> Inl (NewErr ''rotate captcha data is nil'')
      | Inr (Some (angle, width), master, thumb) \<Rightarrow>
          both_images ''failed to convert master image to base64'' ''failed to convert thumb image to base64'' master thumb (\<lambda>a b.
            Inr \<lparr>ch_id = uuid, ch_payload = json_print (rotate_payload (cl_rotate_size L builder) width a b),
                 ch_answer = show_int angle\<rparr>))"

definition rotate_verify_padding :: int where "rotate_verify_padding = 5"

definition rotate_verify :: "captcha_lib \<Rightarrow> string \<Rightarrow> string \<Rightarrow> bool" where
  "rotate_verify L expected actual =
     (case parse_int64 expected of
        None \<Rightarrow> False
      | Some expected_angle \<Rightarrow>
          (case parse_int64 actual of
             None \<Rightarrow> False
           | Some actual_angle \<Rightarrow> cl_rotate_ok L actual_angle expected_angle rotate_verify_padding))"

subsection \<open>Clicks\<close>

definition click_config_of :: "captcha_state \<Rightarrow> nat option \<Rightarrow> click_config" where
  "click_config_of s p = (case p of None \<Rightarrow> default_click | Some a \<Rightarrow> cs_click s a)"

text \<open>What the configuration decides; colours and distortions are fixed.\<close>

definition click_init :: "captcha_lib \<Rightarrow> captcha_state \<Rightarrow> nat option \<Rightarrow> click_builder option \<Rightarrow> click_builder" where
  "click_init L s p made =
     (case made of
        Some b \<Rightarrow> b
      | None \<Rightarrow> (let c = click_config_of s p in
          \<lparr>cb_width = ck_master_width c, cb_height = ck_master_height c, cb_count = ck_captcha_count c,
           cb_verify = ck_verify_count c, cb_thumb_width = ck_thumb_width c, cb_thumb_height = ck_thumb_height c,
           cb_shadow = ck_display_shadow c, cb_shadow_color = ck_shadow_color c, cb_shadow_x = ck_shadow_offset_x c,
           cb_shadow_y = ck_shadow_offset_y c,
           cb_chars = default_click_chars (cl_alpha_chars L) (ck_language c) (ck_chars c)\<rparr>))"

fun answer_dots :: "click_dot option list \<Rightarrow> click_dot list res" where
  "answer_dots [] = Inr []"
| "answer_dots (None # dots) = Inl (NewErr ''click captcha dot data is nil'')"
| "answer_dots (Some d # dots) = res_bind (answer_dots dots) (\<lambda>ds. Inr (d # ds))"

definition dot_json :: "click_dot \<Rightarrow> json" where
  "dot_json d = JObj [(''x'', JInt (cd_x d)), (''y'', JInt (cd_y d)), (''width'', JInt (cd_width d)),
     (''height'', JInt (cd_height d)), (''size'', JInt (cd_size d))]"

definition click_payload :: "click_config \<Rightarrow> string \<Rightarrow> string \<Rightarrow> json" where
  "click_payload c master thumb = JObj
     [(''type'', JStr ''click''), (''image'', JStr master), (''thumb'', JStr thumb), (''width'', JInt (ck_master_width c)),
      (''height'', JInt (ck_master_height c)), (''thumbWidth'', JInt (ck_thumb_width c)), (''thumbHeight'', JInt (ck_thumb_height c))]"

definition click_answer :: "click_dot list \<Rightarrow> string" where
  "click_answer dots = json_print (JArr (map dot_json dots))"

definition click_generate ::
    "captcha_lib \<Rightarrow> captcha_state \<Rightarrow> string \<Rightarrow> nat option \<Rightarrow> click_builder option \<Rightarrow> captcha_challenge res" where
  "click_generate L s uuid p made =
     (case cl_click L (click_init L s p made) of
        Inl e \<Rightarrow> Inl (WrapErr ''failed to generate click captcha'' e)
      | Inr (None, _) \<Rightarrow> Inl (NewErr ''click captcha data is nil'')
      | Inr (Some dot_data, master, thumb) \<Rightarrow>
          both_images ''failed to get master image'' ''failed to get thumb image'' master thumb (\<lambda>a b.
            res_bind (answer_dots dot_data) (\<lambda>dots.
            Inr \<lparr>ch_id = uuid, ch_payload = json_print (click_payload (click_config_of s p) a b), ch_answer = click_answer dots\<rparr>)))"

text \<open>Reading the dots back. A coordinate of the browser is a float, cut to an integer by \<open>cl_float_int\<close>.\<close>

fun answer_dot_members :: "(string \<times> json) list \<Rightarrow> click_dot \<Rightarrow> click_dot res" where
  "answer_dot_members [] d = Inr d"
| "answer_dot_members ((k, j) # ms) d =
     res_bind
       (if equal_fold k ''x'' then res_bind (json_int64 (cd_x d) j) (\<lambda>v. Inr (d\<lparr>cd_x := v\<rparr>))
        else if equal_fold k ''y'' then res_bind (json_int64 (cd_y d) j) (\<lambda>v. Inr (d\<lparr>cd_y := v\<rparr>))
        else if equal_fold k ''width'' then res_bind (json_int64 (cd_width d) j) (\<lambda>v. Inr (d\<lparr>cd_width := v\<rparr>))
        else if equal_fold k ''height'' then res_bind (json_int64 (cd_height d) j) (\<lambda>v. Inr (d\<lparr>cd_height := v\<rparr>))
        else if equal_fold k ''size'' then res_bind (json_int64 (cd_size d) j) (\<lambda>v. Inr (d\<lparr>cd_size := v\<rparr>))
        else Inr d)
       (answer_dot_members ms)"

definition json_float_int :: "(string \<Rightarrow> int option) \<Rightarrow> int \<Rightarrow> json \<Rightarrow> int res" where
  "json_float_int float_int old j = (case j of
     JNull \<Rightarrow> Inr old
   | JNum l \<Rightarrow> (case float_int l of None \<Rightarrow> Inl err_unmarshal | Some v \<Rightarrow> Inr v)
   | _ \<Rightarrow> Inl err_unmarshal)"

fun input_dot_members :: "(string \<Rightarrow> int option) \<Rightarrow> (string \<times> json) list \<Rightarrow> int \<times> int \<Rightarrow> (int \<times> int) res" where
  "input_dot_members float_int [] d = Inr d"
| "input_dot_members float_int ((k, j) # ms) d =
     res_bind
       (if equal_fold k ''x'' then res_bind (json_float_int float_int (fst d) j) (\<lambda>v. Inr (v, snd d))
        else if equal_fold k ''y'' then res_bind (json_float_int float_int (snd d) j) (\<lambda>v. Inr (fst d, v))
        else Inr d)
       (input_dot_members float_int ms)"

fun read_objects :: "((string \<times> json) list \<Rightarrow> 'd \<Rightarrow> 'd res) \<Rightarrow> 'd \<Rightarrow> json list \<Rightarrow> 'd list res" where
  "read_objects members zero [] = Inr []"
| "read_objects members zero (j # js) =
     res_bind (case j of JNull \<Rightarrow> Inr zero | JObj ms \<Rightarrow> members ms zero | _ \<Rightarrow> Inl err_unmarshal) (\<lambda>d.
     res_bind (read_objects members zero js) (\<lambda>ds. Inr (d # ds)))"

definition read_dots :: "((string \<times> json) list \<Rightarrow> 'd \<Rightarrow> 'd res) \<Rightarrow> 'd \<Rightarrow> string \<Rightarrow> 'd list res" where
  "read_dots members zero raw = (case json_parse raw of
     Some JNull \<Rightarrow> Inr []
   | Some (JArr js) \<Rightarrow> read_objects members zero js
   | _ \<Rightarrow> Inl err_unmarshal)"

definition zero_dot :: click_dot where
  "zero_dot = \<lparr>cd_x = 0, cd_y = 0, cd_width = 0, cd_height = 0, cd_size = 0\<rparr>"

definition click_verify_padding :: int where "click_verify_padding = 8"

definition dot_hit :: "captcha_lib \<Rightarrow> click_dot \<Rightarrow> int \<times> int \<Rightarrow> bool" where
  "dot_hit L e a =
     (let width = (if cd_width e \<le> 0 then cd_size e else cd_width e);
          height = (if cd_height e \<le> 0 then cd_size e else cd_height e)
      in cl_click_ok L (fst a) (snd a) (cd_x e) (cd_y e) width height click_verify_padding)"

definition click_verify :: "captcha_lib \<Rightarrow> string \<Rightarrow> string \<Rightarrow> bool" where
  "click_verify L expected actual =
     (case read_dots answer_dot_members zero_dot expected of
        Inl _ \<Rightarrow> False
      | Inr expected_dots \<Rightarrow>
          (case read_dots (input_dot_members (cl_float_int L)) (0, 0) actual of
             Inl _ \<Rightarrow> False
           | Inr actual_dots \<Rightarrow>
               length expected_dots = length actual_dots \<and> list_all2 (dot_hit L) expected_dots actual_dots))"

subsection \<open>Drivers\<close>

text \<open>A driver with the pointer of its configuration and the library object it has built.\<close>

datatype captcha_driver =
    SlideDriver "nat option" "slide_builder option"
  | ClickDriver "nat option" "click_builder option"
  | RotateDriver "nat option" "rotate_builder option"
  | ImageDriver

definition new_driver :: "captcha_config \<Rightarrow> captcha_driver" where
  "new_driver cfg =
     (if cf_driver_type cfg = ''slide'' then SlideDriver (cf_slide cfg) None
      else if cf_driver_type cfg = ''click'' then ClickDriver (cf_click cfg) None
      else if cf_driver_type cfg = ''rotate'' then RotateDriver (cf_rotate cfg) None
      else ImageDriver)"

fun driver_generate :: "captcha_lib \<Rightarrow> captcha_state \<Rightarrow> string \<Rightarrow> captcha_driver \<Rightarrow> captcha_challenge res \<times> captcha_driver" where
  "driver_generate L s uuid (SlideDriver p made) = (slide_generate L s uuid p made, SlideDriver p (Some (slide_init s p made)))"
| "driver_generate L s uuid (ClickDriver p made) = (click_generate L s uuid p made, ClickDriver p (Some (click_init L s p made)))"
| "driver_generate L s uuid (RotateDriver p made) = (rotate_generate L s uuid p made, RotateDriver p (Some (rotate_init s p made)))"
| "driver_generate L s uuid ImageDriver = (image_generate L s, ImageDriver)"

fun driver_verify :: "captcha_lib \<Rightarrow> captcha_driver \<Rightarrow> string \<Rightarrow> string \<Rightarrow> bool" where
  "driver_verify L (SlideDriver p made) expected actual = slide_verify expected actual"
| "driver_verify L (ClickDriver p made) expected actual = click_verify L expected actual"
| "driver_verify L (RotateDriver p made) expected actual = rotate_verify L expected actual"
| "driver_verify L ImageDriver expected actual = image_verify L expected actual"

subsection \<open>What the drivers accept\<close>

lemma wrap64_shift: "wrap64 (y + 2 ^ 64) = wrap64 y"
proof -
  have "(y + 2 ^ 64 + 2 ^ 63) mod 2 ^ 64 = (y + 2 ^ 63) mod 2 ^ 64"
    using mod_add_self2 [of "y + 2 ^ 63" "2 ^ 64 :: int"] by (simp add: algebra_simps)
  then show ?thesis by (simp only: wrap64_def)
qed

text \<open>A slide is accepted within five pixels; a distance of exactly \<open>- 2 ^ 63\<close> is its own negation and passes, too.\<close>

lemma slide_verify_iff:
  assumes "0 \<le> x" and "x < 2 ^ 62"
  shows "slide_verify (show_int x) actual \<longleftrightarrow> (\<exists>v. parse_int64 actual = Some v \<and> (\<bar>x - v\<bar> \<le> 5 \<or> v = x - 2 ^ 63))"
proof (cases "parse_int64 actual")
  case None
  then show ?thesis by (simp add: slide_verify_def split: option.split)
next
  case (Some v)
  have x: "parse_int64 (show_int x) = Some x"
    using assms by (simp add: parse_show_int in_int64_def)
  have v: "- (2 ^ 63) \<le> v" "v < 2 ^ 63"
    using parse_int64_range [OF Some] by (simp_all add: in_int64_def)
  consider "x - v < 2 ^ 63" | "x - v = 2 ^ 63" | "2 ^ 63 < x - v" by linarith
  then have "(let diff = wrap64 (x - v) in (if diff < 0 then wrap64 (- diff) else diff) \<le> 5) \<longleftrightarrow> \<bar>x - v\<bar> \<le> 5 \<or> v = x - 2 ^ 63"
  proof cases
    case 1
    then have "wrap64 (x - v) = x - v" "wrap64 (v - x) = v - x" using assms v by (auto simp: in_int64_def)
    then show ?thesis using 1 by (auto simp: Let_def)
  next
    case 2
    then have "wrap64 (x - v) = - (2 ^ 63)" by (simp add: wrap64_def)
    then show ?thesis using 2 by (simp add: wrap64_def)
  next
    case 3
    then have "in_int64 (x - v - 2 ^ 64)" "in_int64 (- (x - v - 2 ^ 64))"
      using assms v by (simp_all add: in_int64_def)
    moreover have "wrap64 (x - v) = wrap64 (x - v - 2 ^ 64)"
      using wrap64_shift [of "x - v - 2 ^ 64"] by simp
    ultimately have "wrap64 (x - v) = x - v - 2 ^ 64" "wrap64 (- (x - v - 2 ^ 64)) = - (x - v - 2 ^ 64)"
      by (simp_all only: wrap64_id)
    then show ?thesis using 3 assms v by (auto simp: Let_def)
  qed
  with Some x show ?thesis by (simp add: slide_verify_def)
qed

lemma dot_names [simp]:
  "\<not> equal_fold ''y'' ''x''" "\<not> equal_fold ''width'' ''x''" "\<not> equal_fold ''width'' ''y''"
  "\<not> equal_fold ''height'' ''x''" "\<not> equal_fold ''height'' ''y''" "\<not> equal_fold ''height'' ''width''"
  "\<not> equal_fold ''size'' ''x''" "\<not> equal_fold ''size'' ''y''" "\<not> equal_fold ''size'' ''width''"
  "\<not> equal_fold ''size'' ''height''" "equal_fold w w"
  by (simp_all add: equal_fold_def to_lower_def ascii_lower_def)

definition dot_ok :: "click_dot \<Rightarrow> bool" where
  "dot_ok d \<longleftrightarrow> in_int64 (cd_x d) \<and> in_int64 (cd_y d) \<and> in_int64 (cd_width d) \<and> in_int64 (cd_height d) \<and> in_int64 (cd_size d)"

text \<open>The dots in the cache are the dots the library drew.\<close>

lemma click_answer_round_trip:
  assumes "\<forall>d \<in> set dots. dot_ok d"
  shows "read_dots answer_dot_members zero_dot (click_answer dots) = Inr dots"
proof -
  have "json_ok (JArr (map dot_json dots))"
    by (auto simp: dot_json_def ascii_def JInt_def)
  moreover have "read_objects answer_dot_members zero_dot (map dot_json dots) = Inr dots"
    using assms by (induction dots) (simp_all add: dot_json_def dot_ok_def zero_dot_def)
  ultimately show ?thesis
    by (simp add: read_dots_def click_answer_def json_round_trip del: json_print.simps)
qed

text \<open>A browser's clicks pass exactly if there is one for each dot, in order, and each hits.\<close>

lemma click_verify_iff:
  assumes "\<forall>d \<in> set dots. dot_ok d"
  shows "click_verify L (click_answer dots) actual \<longleftrightarrow>
    (\<exists>clicks. read_dots (input_dot_members (cl_float_int L)) (0, 0) actual = Inr clicks \<and> list_all2 (dot_hit L) dots clicks)"
  by (auto simp: click_verify_def click_answer_round_trip [OF assms] dest: list_all2_lengthD split: sum.splits)

lemma image_verify_refl: "image_verify L answer answer"
  by (simp add: image_verify_def)

end
