(* ===== verification/Captcha_Service.thy ===== *)
theory Captcha_Service
  imports Captcha_Driver Memory_Cache
begin

text \<open>
  The captcha service (captcha/captcha.go, captcha/store.go): answers are kept in a cache, and a check reads the
  answer, compares, and deletes it when it matches. The check is two calls of the cache; \<open>verify_read\<close> and
  \<open>verify_settle\<close> are its halves, so that checks may overlap.
\<close>

subsection \<open>The store\<close>

definition err_cache_nil :: go_err where "err_cache_nil = Sentinel ''captcha cache is nil''"

definition store_set :: "'s cache_ops option \<Rightarrow> gotime \<Rightarrow> string \<Rightarrow> string \<Rightarrow> duration \<Rightarrow> 's \<Rightarrow> unit res \<times> 's" where
  "store_set cache now k v d s = (case cache of None \<Rightarrow> (Inl err_cache_nil, s) | Some ops \<Rightarrow> c_set ops now k v d s)"

definition store_get :: "'s cache_ops option \<Rightarrow> gotime \<Rightarrow> string \<Rightarrow> 's \<Rightarrow> string \<times> 's" where
  "store_get cache now k s =
     (case cache of
        None \<Rightarrow> ([], s)
      | Some ops \<Rightarrow> (case c_get ops now k s of (Inr v, s') \<Rightarrow> (v, s') | (Inl _, s') \<Rightarrow> ([], s')))"

definition store_delete :: "'s cache_ops option \<Rightarrow> gotime \<Rightarrow> string \<Rightarrow> 's \<Rightarrow> unit res \<times> 's" where
  "store_delete cache now k s = (case cache of None \<Rightarrow> (Inl err_cache_nil, s) | Some ops \<Rightarrow> c_del ops now k s)"

definition store_exists :: "'s cache_ops option \<Rightarrow> gotime \<Rightarrow> string \<Rightarrow> 's \<Rightarrow> bool \<times> 's" where
  "store_exists cache now k s = (case cache of None \<Rightarrow> (False, s) | Some ops \<Rightarrow> c_exists ops now k s)"

subsection \<open>The service\<close>

record 's captcha =
  cp_cache :: "'s cache_ops option"
  cp_config :: captcha_config
  cp_driver :: captcha_driver

definition new_captcha_with_config :: "'s cache_ops option \<Rightarrow> captcha_config option \<Rightarrow> captcha_state \<Rightarrow> 's captcha \<times> captcha_state" where
  "new_captcha_with_config cache cfg objs =
     (let objs' = (case cfg of None \<Rightarrow> default_config objs | Some c \<Rightarrow> objs\<lparr>cs_config := c\<rparr>); c = cs_config objs'
      in (\<lparr>cp_cache = cache, cp_config = c, cp_driver = new_driver c\<rparr>, objs'))"

definition new_captcha :: "'s cache_ops option \<Rightarrow> captcha_option list \<Rightarrow> captcha_state \<Rightarrow> 's captcha \<times> captcha_state" where
  "new_captcha cache opts objs =
     (let objs' = fold (\<lambda>opt. opt) opts (default_config objs) in new_captcha_with_config cache (Some (cs_config objs')) objs')"

definition captcha_key :: "captcha_config \<Rightarrow> string \<Rightarrow> string" where
  "captcha_key cfg captcha_id = cf_key_prefix cfg @ '':'' @ captcha_id"

text \<open>The result is the identifier and the payload; the answer stays in the cache.\<close>

definition captcha_generate ::
    "captcha_lib \<Rightarrow> captcha_state \<Rightarrow> string \<Rightarrow> gotime \<Rightarrow> 's captcha \<Rightarrow> 's \<Rightarrow> (string \<times> string) res \<times> 's captcha \<times> 's" where
  "captcha_generate L objs uuid now cp s =
     (case driver_generate L (objs\<lparr>cs_config := cp_config cp\<rparr>) uuid (cp_driver cp) of
        (Inl e, d) \<Rightarrow> (Inl e, cp\<lparr>cp_driver := d\<rparr>, s)
      | (Inr ch, d) \<Rightarrow>
          (case store_set (cp_cache cp) now (captcha_key (cp_config cp) (ch_id ch)) (ch_answer ch) (cf_expire (cp_config cp)) s of
             (Inl e, s') \<Rightarrow> (Inl e, cp\<lparr>cp_driver := d\<rparr>, s')
           | (Inr _, s') \<Rightarrow> (Inr (ch_id ch, ch_payload ch), cp\<lparr>cp_driver := d\<rparr>, s')))"

definition verify_read :: "captcha_lib \<Rightarrow> 's captcha \<Rightarrow> gotime \<Rightarrow> string \<Rightarrow> string \<Rightarrow> 's \<Rightarrow> bool \<times> 's" where
  "verify_read L cp now captcha_id user_input s =
     (let (ans, s') = store_get (cp_cache cp) now (captcha_key (cp_config cp) captcha_id) s in
      if ans = [] then (False, s') else (driver_verify L (cp_driver cp) ans user_input, s'))"

definition verify_settle :: "'s captcha \<Rightarrow> gotime \<Rightarrow> string \<Rightarrow> bool \<Rightarrow> 's \<Rightarrow> 's" where
  "verify_settle cp now captcha_id ok s =
     (if ok then snd (store_delete (cp_cache cp) now (captcha_key (cp_config cp) captcha_id) s) else s)"

definition captcha_verify :: "captcha_lib \<Rightarrow> 's captcha \<Rightarrow> gotime \<Rightarrow> gotime \<Rightarrow> string \<Rightarrow> string \<Rightarrow> 's \<Rightarrow> bool \<times> 's" where
  "captcha_verify L cp now1 now2 captcha_id user_input s =
     (let (ok, s') = verify_read L cp now1 captcha_id user_input s in (ok, verify_settle cp now2 captcha_id ok s'))"

text \<open>Checks of one captcha, each with its instants and its input.\<close>

fun attempts :: "captcha_lib \<Rightarrow> 's captcha \<Rightarrow> string \<Rightarrow> (gotime \<times> gotime \<times> string) list \<Rightarrow> 's \<Rightarrow> bool list \<times> 's" where
  "attempts L cp captcha_id [] s = ([], s)"
| "attempts L cp captcha_id ((now1, now2, input) # tries) s =
     (let (ok, s1) = captcha_verify L cp now1 now2 captcha_id input s; (oks, s2) = attempts L cp captcha_id tries s1 in (ok # oks, s2))"

subsection \<open>Over any cache\<close>

context kv_cache
begin

lemma verify_read_law:
  assumes "inv s" and "cp_cache cp = Some ops"
  shows "fst (verify_read L cp now i input s) =
      (case live s now (captcha_key (cp_config cp) i) of
         None \<Rightarrow> False | Some ans \<Rightarrow> ans \<noteq> [] \<and> driver_verify L (cp_driver cp) ans input)"
    and "inv (snd (verify_read L cp now i input s))"
    and "now \<le> t \<Longrightarrow> live (snd (verify_read L cp now i input s)) t = live s t"
proof -
  let ?k = "captcha_key (cp_config cp) i"
  obtain r s' where get: "c_get ops now ?k s = (r, s')" by (cases "c_get ops now ?k s")
  have state: "inv s' \<and> (\<forall>t \<ge> now. live s' t = live s t \<and> hfield s' t = hfield s t)"
    using get_state [OF assms(1), of s' now ?k] get by simp
  have snd: "snd (verify_read L cp now i input s) = s'"
    using get assms(2) by (auto simp: verify_read_def store_get_def Let_def split: sum.splits)
  show "inv (snd (verify_read L cp now i input s))" "now \<le> t \<Longrightarrow> live (snd (verify_read L cp now i input s)) t = live s t"
    using state by (simp_all add: snd)
  show "fst (verify_read L cp now i input s) =
      (case live s now ?k of None \<Rightarrow> False | Some ans \<Rightarrow> ans \<noteq> [] \<and> driver_verify L (cp_driver cp) ans input)"
    using get_result [OF assms(1), of now ?k] get assms(2)
    by (auto simp: verify_read_def store_get_def split: option.splits)
qed

text \<open>A refused check leaves the answer where it is.\<close>

lemma refused_keeps_answer:
  assumes "captcha_verify L cp now1 now2 i input s = (False, s')" and "inv s" and "cp_cache cp = Some ops"
  shows "inv s' \<and> (\<forall>t \<ge> now1. live s' t = live s t)"
  using verify_read_law(2,3) [OF assms(2,3)] assms(1)
  by (auto simp: captcha_verify_def verify_settle_def split_def Let_def)

end

context revocable_cache
begin

lemma accepted_is_gone:
  assumes "captcha_verify L cp now1 now2 i input s = (True, s')" and "inv s" and "cp_cache cp = Some ops"
  shows "inv s' \<and> gone s' (captcha_key (cp_config cp) i)"
proof -
  have "s' = snd (c_del ops now2 (captcha_key (cp_config cp) i) (snd (verify_read L cp now1 i input s)))"
    using assms(1,3) by (auto simp: captcha_verify_def verify_settle_def store_delete_def split_def Let_def)
  then show ?thesis
    using del_gone del_state [OF _ refl] verify_read_law(2) [OF assms(2,3)] by blast
qed

lemma gone_is_refused:
  assumes "inv s" and "cp_cache cp = Some ops" and "gone s (captcha_key (cp_config cp) i)"
  shows "\<not> fst (captcha_verify L cp now1 now2 i input s)"
  using verify_read_law(1) [OF assms(1,2), of L now1 i input] gone_live [OF assms(3)]
  by (simp add: captcha_verify_def split_def)

end

subsection \<open>Over the memory cache\<close>


text \<open>A captcha is not used up by two checks at the same time: when both read the answer before either deletes
  it, both accept, so that one solved captcha serves several requests.\<close>

theorem overlapping_checks_both_accept:
  assumes "mem_inv s" and "cp_cache cp = Some memory_ops"
    and "mem_live s now1 (captcha_key (cp_config cp) i) = Some ans" "mem_live s now2 (captcha_key (cp_config cp) i) = Some ans"
    and "ans \<noteq> []" and "now1 \<le> now2"
    and "driver_verify L (cp_driver cp) ans input1" "driver_verify L (cp_driver cp) ans input2"
    and first: "verify_read L cp now1 i input1 s = (ok1, s1)" and second: "verify_read L cp now2 i input2 s1 = (ok2, s2)"
  shows "ok1 \<and> ok2"
proof -
  have "mem_inv s1" "mem_live s1 now2 = mem_live s now2"
    using mc.verify_read_law(2) [OF assms(1,2), of L now1 i input1] mc.verify_read_law(3) [OF assms(1,2,6), of L i input1]
      first by simp_all
  then show ?thesis
    using mc.verify_read_law(1) [OF assms(1,2), of L now1 i input1] assms(3-5,7,8) first second
      mc.verify_read_law(1) [OF _ assms(2), of s1 L now2 i input2] by simp
qed

lemma slide_verify_nil [simp]: "\<not> slide_verify [] actual"
  by (simp add: slide_verify_def parse_int64_def parse_digits_def)

lemma slide_attempts:
  assumes "mem_inv s" and "cp_cache cp = Some memory_ops" and "cp_driver cp = SlideDriver p made"
    and "0 \<le> x" and "x < 2 ^ 62" and "sorted (map fst tries)"
    and "\<forall>(now1, now2, input) \<in> set tries. mem_live s now1 (captcha_key (cp_config cp) i) = Some (show_int x)"
    and "(t1, t2, guess) \<in> set tries" and "slide_verify (show_int x) guess"
  shows "True \<in> set (fst (attempts L cp i tries s))"
  using assms(1,6-8)
proof (induction tries arbitrary: s)
  case (Cons one tries)
  obtain now1 now2 input where one: "one = (now1, now2, input)" by (cases one) auto
  obtain ok s1 where verify: "captcha_verify L cp now1 now2 i input s = (ok, s1)"
    by (cases "captcha_verify L cp now1 now2 i input s")
  have ok: "ok = slide_verify (show_int x) input"
    using mc.verify_read_law(1) [OF Cons.prems(1) assms(2), of L now1 i input] Cons.prems(3) assms(3) verify
    by (auto simp: captcha_verify_def split_def one)
  show ?case
  proof (cases ok)
    case True
    then show ?thesis using verify by (simp add: one split_def Let_def)
  next
    case False
    then have keeps: "mem_inv s1 \<and> (\<forall>t \<ge> now1. mem_live s1 t = mem_live s t)"
      using mc.refused_keeps_answer [OF _ Cons.prems(1) assms(2)] verify by simp
    have later: "now1 \<le> fst other" if "other \<in> set tries" for other
      using Cons.prems(2) that by (auto simp: one)
    have "(t1, t2, guess) \<in> set tries"
      using Cons.prems(4) False ok assms(9) by (auto simp: one)
    moreover have "\<forall>(now1, now2, input) \<in> set tries. mem_live s1 now1 (captcha_key (cp_config cp) i) = Some (show_int x)"
      using Cons.prems(3) keeps later by fastforce
    moreover have "sorted (map fst tries)" using Cons.prems(2) by simp
    ultimately have "True \<in> set (fst (attempts L cp i tries s1))"
      using Cons.IH keeps by blast
    then show ?thesis using verify by (simp add: one split_def Let_def)
  qed
qed simp

text \<open>The guesses 5, 16, 27, and so on: one lies within five pixels of any position.\<close>

definition slide_guesses :: "nat \<Rightarrow> string list" where
  "slide_guesses n = map (\<lambda>i. show_int (11 * int i + 5)) [0..<n]"

lemma guess_hits:
  assumes "0 \<le> x" and "x < 11 * int n" and "11 * int n < 2 ^ 62"
  shows "\<exists>guess \<in> set (slide_guesses n). slide_verify (show_int x) guess"
proof -
  let ?i = "nat (x div 11)"
  have "?i < n" using assms(1,2) by (simp add: nat_less_iff)
  then have "show_int (11 * int ?i + 5) \<in> set (slide_guesses n)"
    unfolding slide_guesses_def set_map by (intro imageI) simp
  moreover have "parse_int64 (show_int (11 * int ?i + 5)) = Some (11 * int ?i + 5)"
    using assms by (intro parse_show_int) (auto simp: in_int64_def)
  moreover have "\<bar>x - (11 * int ?i + 5)\<bar> \<le> 5" using assms(1) by simp presburger
  ultimately show ?thesis
    using assms slide_verify_iff [of x "show_int (11 * int ?i + 5)"]
    by (intro bexI [of _ "show_int (11 * int ?i + 5)"]) simp_all
qed

text \<open>A slide captcha can be guessed: nothing limits the attempts and a refused one leaves the answer in the cache, so
  whoever tries the positions 5, 16, 27, \<dots> while the answer lives is accepted; for a picture 300 pixels wide that
  is at most 28 attempts, without looking at it.\<close>

theorem slide_answer_can_be_guessed:
  assumes "mem_inv s" and "cp_cache cp = Some memory_ops" and "cp_driver cp = SlideDriver p made"
    and "0 \<le> x" and "x < 11 * int n" and "11 * int n < 2 ^ 62"
    and "sorted (map fst tries)" and "map (snd \<circ> snd) tries = slide_guesses n"
    and "\<forall>(now1, now2, input) \<in> set tries. mem_live s now1 (captcha_key (cp_config cp) i) = Some (show_int x)"
  shows "True \<in> set (fst (attempts L cp i tries s))"
proof -
  obtain guess where guess: "guess \<in> set (map (snd \<circ> snd) tries)" "slide_verify (show_int x) guess"
    using guess_hits [OF assms(4-6)] by (auto simp only: assms(8))
  then obtain t1 t2 where "(t1, t2, guess) \<in> set tries" by auto
  with guess(2) assms show ?thesis by (intro slide_attempts) auto
qed

text \<open>Whoever reads the picture passes: the answer a driver has drawn and \<open>Generate\<close> has stored is accepted by a
  \<open>Verify\<close> within the time to live, for the drivers that compare texts and for slides.\<close>

theorem generated_answer_is_accepted:
  assumes "mem_inv s" and "0 \<le> now" and "cp_cache cp = Some memory_ops"
    and drawn: "driver_generate L (objs\<lparr>cs_config := cp_config cp\<rparr>) uuid (cp_driver cp) = (Inr ch, d)"
    and answer: "ch_answer ch \<noteq> []" and kind: "d = ImageDriver \<or> (\<exists>p made x. d = SlideDriver p made \<and> ch_answer ch = show_int x \<and> 0 \<le> x \<and> x < 2 ^ 62)"
    and made: "captcha_generate L objs uuid now cp s = (Inr (i, payload), cp1, s1)"
    and time: "now \<le> now1" "within_ttl now (cf_expire (cp_config cp)) now1"
  shows "fst (captcha_verify L cp1 now1 now2 i (ch_answer ch) s1)"
proof -
  let ?k = "captcha_key (cp_config cp) (ch_id ch)"
  have i: "i = ch_id ch" and cp1: "cp1 = cp\<lparr>cp_driver := d\<rparr>"
    and s1: "s1 = snd (c_set memory_ops now ?k (ch_answer ch) (cf_expire (cp_config cp)) s)"
    using made drawn assms(3) by (auto simp: captcha_generate_def store_set_def split: prod.splits sum.splits)
  have state: "mem_inv s1" "mem_live s1 now1 ?k = Some (ch_answer ch)"
    using mc.set_state [OF assms(1,2) refl, of ?k "ch_answer ch" "cf_expire (cp_config cp)"] time by (simp_all add: s1)
  have "driver_verify L d (ch_answer ch) (ch_answer ch)"
    using kind by (auto simp: image_verify_refl slide_verify_iff parse_show_int in_int64_def)
  then show ?thesis
    using mc.verify_read_law(1) [OF state(1), of cp1 L now1 i "ch_answer ch"] state(2) answer assms(3)
    by (simp add: captcha_verify_def split_def i cp1)
qed

subsection \<open>An example\<close>

definition sample_captcha_lib :: captcha_lib where
  "sample_captcha_lib = \<lparr>cl_image = (\<lambda>d. (''a'', ''q'', ''x7Kp'')), cl_draw = (\<lambda>d q. Inr q),
     cl_slide = (\<lambda>b. Inr (Some \<lparr>bk_x = 147, bk_dx = 0, bk_dy = 60, bk_width = sb_tile b, bk_height = sb_tile b\<rparr>, Inr ''m'', Inr ''t'')),
     cl_rotate = (\<lambda>b. Inr (Some (40, rb_thumb b), Inr ''m'', Inr ''t'')), cl_rotate_size = rb_master,
     cl_click = (\<lambda>b. Inr (Some [], Inr ''m'', Inr ''t'')), cl_alpha_chars = [''a''], cl_fold_rune = (\<lambda>r. r),
     cl_rotate_ok = (\<lambda>a e p. \<bar>a + e - 360\<bar> \<le> p), cl_click_ok = (\<lambda>sx sy dx dy w h p. True), cl_float_int = parse_int64\<rparr>"

definition sample_objects :: captcha_state where
  "sample_objects = \<lparr>cs_next = 0, cs_digit = (\<lambda>_. default_digit), cs_string = (\<lambda>_. default_string), cs_math = (\<lambda>_. default_math),
     cs_chinese = (\<lambda>_. default_chinese), cs_slide = (\<lambda>_. default_slide), cs_click = (\<lambda>_. default_click),
     cs_rotate = (\<lambda>_. default_rotate), cs_config = \<lparr>cf_driver_type = [], cf_expire = 0, cf_key_prefix = [], cf_digit = None,
       cf_string = None, cf_math = None, cf_chinese = None, cf_slide = None, cf_click = None, cf_rotate = None\<rparr>\<rparr>"

definition sample_captcha :: "memory captcha" where
  "sample_captcha = fst (new_captcha (Some memory_ops) [with_driver_type ''slide''] sample_objects)"

lemma sample_captcha_facts:
  "cp_cache sample_captcha = Some memory_ops" "cp_driver sample_captcha = SlideDriver (Some 4) None"
  "cf_expire (cp_config sample_captcha) = 300000000000" "captcha_key (cp_config sample_captcha) i = ''captcha:'' @ i"
  by (simp_all add: sample_captcha_def new_captcha_def new_captcha_with_config_def with_driver_type_def default_config_def
      new_driver_def sample_objects_def minute_def captcha_key_def Let_def)

definition sample_drawn :: "(string \<times> string) res \<times> memory captcha \<times> memory" where
  "sample_drawn = captcha_generate sample_captcha_lib sample_objects ''u'' 10 sample_captcha new_memory"

definition sample_store :: memory where
  "sample_store = snd (mem_call 10 (CSet ''captcha:u'' ''147'' 300000000000) new_memory)"

lemma sample_store_facts: "mem_inv sample_store" "\<forall>t \<in> set [11, 12]. mem_live sample_store t ''captcha:u'' = Some ''147''"
  unfolding sample_store_def using call_inv [OF new_memory_inv]
  by (simp only:) (simp add: new_memory_def mem_set_def mem_live_def expiration_def is_expired_def wrap64_def gm_put_def go_simps Let_def)

lemma sample_read: "fst (verify_read sample_captcha_lib sample_captcha 11 ''u'' input sample_store) = slide_verify ''147'' input"
  using mc.verify_read_law(1) [OF sample_store_facts(1) sample_captcha_facts(1), of sample_captcha_lib 11 "''u''" input]
    sample_store_facts(2) by (simp add: sample_captcha_facts)


theorem overlapping_checks_both_accept_witness:
  "fst (verify_read sample_captcha_lib sample_captcha 11 ''u'' ''147'' sample_store) \<and>
   fst (verify_read sample_captcha_lib sample_captcha 12 ''u'' ''149'' (snd (verify_read sample_captcha_lib sample_captcha 11 ''u'' ''147'' sample_store)))"
proof (rule overlapping_checks_both_accept [where ans = "''147''" and ?now1.0 = 11 and ?now2.0 = 12])
  have "slide_verify ''147'' ''147''" "slide_verify ''147'' ''149''" by code_simp+
  then show "driver_verify sample_captcha_lib (cp_driver sample_captcha) ''147'' ''147''"
    "driver_verify sample_captcha_lib (cp_driver sample_captcha) ''147'' ''149''"
    by (simp_all add: sample_captcha_facts)
qed (use sample_store_facts in \<open>simp_all add: sample_captcha_facts prod_eq_iff\<close>)

theorem slide_answer_can_be_guessed_witness:
  "True \<in> set (fst (attempts sample_captcha_lib sample_captcha ''u'' (map (\<lambda>g. (11, 11, g)) (slide_guesses 28)) sample_store))"
proof (rule slide_answer_can_be_guessed [where x = 147 and n = 28])
  have "show_int 147 = ''147''" by code_simp
  then show "\<forall>(now1, now2, input) \<in> set (map (\<lambda>g. (11, 11, g)) (slide_guesses 28)).
      mem_live sample_store now1 (captcha_key (cp_config sample_captcha) ''u'') = Some (show_int 147)"
    using sample_store_facts(2) by (auto simp: sample_captcha_facts)
qed (simp_all add: sample_store_facts sample_captcha_facts comp_def sorted_map slide_guesses_def sorted_wrt_map sorted_wrt_true)

theorem generated_answer_is_accepted_witness:
  "fst (captcha_verify sample_captcha_lib (fst (snd sample_drawn)) 20 20 ''u'' ''147'' (snd (snd sample_drawn)))"
proof -
  have "show_int 147 = ''147''" by code_simp
  then have "\<exists>payload. fst sample_drawn = Inr (''u'', payload)"
    by (simp add: sample_drawn_def captcha_generate_def sample_captcha_facts slide_generate_def sample_captcha_lib_def both_images_def
        store_set_def mem_set_def new_memory_def gm_put_def Let_def split_def)
  then obtain payload where drawn: "captcha_generate sample_captcha_lib sample_objects ''u'' 10 sample_captcha new_memory =
      (Inr (''u'', payload), fst (snd sample_drawn), snd (snd sample_drawn))"
    by (auto simp: sample_drawn_def prod_eq_iff)
  have "\<exists>ch made. driver_generate sample_captcha_lib (sample_objects\<lparr>cs_config := cp_config sample_captcha\<rparr>) ''u'' (cp_driver sample_captcha) =
      (Inr ch, SlideDriver (Some 4) made) \<and> ch_answer ch = ''147''"
    using \<open>show_int 147 = ''147''\<close>
    by (simp add: sample_captcha_facts slide_generate_def sample_captcha_lib_def both_images_def)
  then obtain ch made where "driver_generate sample_captcha_lib (sample_objects\<lparr>cs_config := cp_config sample_captcha\<rparr>) ''u''
      (cp_driver sample_captcha) = (Inr ch, SlideDriver (Some 4) made)" and answer: "ch_answer ch = ''147''"
    by blast
  from generated_answer_is_accepted [OF new_memory_inv _ sample_captcha_facts(1) this(1) _ _ drawn, of 20 20]
  moreover have "\<exists>x. ''147'' = show_int x \<and> 0 \<le> x \<and> x < 4611686018427387904"
    using \<open>show_int 147 = ''147''\<close> by (intro exI [of _ 147]) simp
  ultimately show ?thesis
    using answer by (simp add: sample_captcha_facts within_ttl_def)
qed

end
