(* ===== verification/Registry_Names.thy ===== *)
theory Registry_Names
  imports Go_Utf8 "HOL-Library.Code_Target_Nat"
begin

text \<open>
  Service registries (registry): the names that Consul and Kubernetes accept (normalize.go), and the tables of
  factories by registry type (discovery.go, registrar.go; the two files are the same but for the word).
  Go's tables of letters, decimal digits and lower case are the record \<open>unicode_tables\<close>; of a name only its
  runes matter. A factory table is guarded by one mutex, so each function is one step.
\<close>

subsection \<open>Names\<close>

record unicode_tables =
  ut_letter :: "nat \<Rightarrow> bool"
  ut_digit :: "nat \<Rightarrow> bool"
  ut_lower :: "nat \<Rightarrow> nat"

definition consul_max_runes :: nat where "consul_max_runes = 64"
definition k8s_max_runes :: nat where "k8s_max_runes = 63"
definition default_placeholder :: string where "default_placeholder = ''service''"

definition hyphen :: nat where "hyphen = 45"

text \<open>The loop of both functions: \<open>keep\<close> says which runes are written, \<open>put\<close> as what.\<close>

fun name_loop :: "(nat \<Rightarrow> bool) \<Rightarrow> (nat \<Rightarrow> nat) \<Rightarrow> nat \<Rightarrow> nat list \<Rightarrow> nat list \<Rightarrow> nat \<Rightarrow> bool \<Rightarrow> nat list" where
  "name_loop keep put limit [] out count last_hyphen = out"
| "name_loop keep put limit (r # rs) out count last_hyphen =
     (let (out', count', last_hyphen') =
        (if keep r then (out @ [put r], count + 1, False)
         else if 0 < count \<and> \<not> last_hyphen then (out @ [hyphen], count + 1, True)
         else (out, count, last_hyphen))
      in if limit \<le> count' then out' else name_loop keep put limit rs out' count' last_hyphen')"

definition trim_hyphens :: "nat list \<Rightarrow> nat list" where
  "trim_hyphens rs = rev (dropWhile (\<lambda>r. r = hyphen) (rev (dropWhile (\<lambda>r. r = hyphen) rs)))"

text \<open>What both do with the loop's result; \<open>None\<close> is the placeholder.\<close>

definition cut_name :: "nat \<Rightarrow> nat list \<Rightarrow> nat list option" where
  "cut_name limit out =
     (let res = trim_hyphens out in
      if res = [] then None
      else if limit < length res then
        (let res' = trim_hyphens (take limit res) in if res' = [] then None else Some res')
      else Some res)"

definition normalize_consul :: "unicode_tables \<Rightarrow> nat list \<Rightarrow> string" where
  "normalize_consul U s =
     (case cut_name consul_max_runes (name_loop (\<lambda>r. ut_letter U r \<or> ut_digit U r) (ut_lower U) consul_max_runes s [] 0 False) of
        None \<Rightarrow> default_placeholder
      | Some res \<Rightarrow> of_runes res)"

definition ascii_lower_rune :: "nat \<Rightarrow> bool" where "ascii_lower_rune r \<longleftrightarrow> 97 \<le> r \<and> r \<le> 122"

text \<open>The first and the last byte are tested as runes.\<close>

definition normalize_kubernetes :: "unicode_tables \<Rightarrow> nat list \<Rightarrow> string" where
  "normalize_kubernetes U s0 =
     (let s = map (ut_lower U) (trim_runes s0) in
      case cut_name k8s_max_runes (name_loop (\<lambda>r. ascii_lower_rune r \<or> ut_digit U r) (\<lambda>r. r) k8s_max_runes s [] 0 False) of
        None \<Rightarrow> default_placeholder
      | Some rs \<Rightarrow>
          (let res = of_runes rs; first = of_char (hd res); end = of_char (last res) in
           if (\<not> ascii_lower_rune first \<and> \<not> ut_digit U first) \<or> (\<not> ascii_lower_rune end \<and> \<not> ut_digit U end)
           then default_placeholder else res))"

definition normalize_for_registry :: "unicode_tables \<Rightarrow> string \<Rightarrow> string \<Rightarrow> string" where
  "normalize_for_registry U app_id registry =
     (let app = trim_space_utf8 app_id in
      if app = [] then default_placeholder
      else
        (let reg = of_runes (map (ut_lower U) (trim_runes (runes registry))) in
         if reg = ''consul'' then normalize_consul U (runes app)
         else if reg = ''kubernetes'' then normalize_kubernetes U (runes app)
         else app))"

subsection \<open>Factories\<close>

text \<open>\<open>'f\<close> is a factory; a nil one is \<open>None\<close>. \<open>noun\<close> is the word of the messages.\<close>

type_synonym 'f factories = "string \<rightharpoonup> 'f"

text \<open>\<open>%q\<close>, for a name without characters to escape.\<close>

definition quoted :: "string \<Rightarrow> string" where
  "quoted s = [quote_char] @ s @ [quote_char]"

definition get_factory :: "string \<Rightarrow> 'f factories \<Rightarrow> 'f option" where
  "get_factory name fs = fs name"

text \<open>A nil configuration or an empty type gives nil and no error.\<close>

definition new_from_factory :: "string \<Rightarrow> ('c \<Rightarrow> string) \<Rightarrow> 'c option \<Rightarrow> ('c \<Rightarrow> 'r res) factories \<Rightarrow> 'r option res" where
  "new_from_factory noun type_of cfg fs =
     (case cfg of
        None \<Rightarrow> Inr None
      | Some c \<Rightarrow>
          if type_of c = [] then Inr None
          else (case get_factory (type_of c) fs of
                  None \<Rightarrow> Inl (NewErr (''registry: '' @ noun @ '' factory '' @ quoted (type_of c) @ '' not found''))
                | Some f \<Rightarrow> (case f c of Inl e \<Rightarrow> Inl e | Inr r \<Rightarrow> Inr (Some r))))"

definition register_factory :: "string \<Rightarrow> string \<Rightarrow> 'f option \<Rightarrow> 'f factories \<Rightarrow> unit res \<times> 'f factories" where
  "register_factory noun name f fs =
     (if name = [] then (Inl (NewErr (''registry: '' @ noun @ '' name is empty'')), fs)
      else case f of
          None \<Rightarrow> (Inl (NewErr (''registry: '' @ noun @ '' factory is nil'')), fs)
        | Some g \<Rightarrow>
            if fs name \<noteq> None then (Inl (NewErr (''registry: '' @ noun @ '' '' @ quoted name @ '' already registered'')), fs)
            else (Inr (), fs(name \<mapsto> g)))"

definition must_register_factory :: "string \<Rightarrow> string \<Rightarrow> 'f option \<Rightarrow> 'f factories \<Rightarrow> unit res \<times> 'f factories" where
  "must_register_factory noun name f fs =
     (case register_factory noun name f fs of
        (Inl e, fs') \<Rightarrow> (Inl (Panic (err_text e)), fs')
      | (Inr _, fs') \<Rightarrow> (Inr (), fs'))"

text \<open>The names, sorted by their bytes; \<open>keys\<close> are the keys of the map in the order in which Go visits it.\<close>

definition bytes_le :: "string \<Rightarrow> string \<Rightarrow> bool" where
  "bytes_le s t \<longleftrightarrow> s = t \<or> (map of_char s, map of_char t) \<in> lexord {(a :: nat, b). a < b}"

fun insert_name :: "string \<Rightarrow> string list \<Rightarrow> string list" where
  "insert_name s [] = [s]"
| "insert_name s (t # ts) = (if bytes_le s t then s # t # ts else t # insert_name s ts)"

definition list_factories :: "string list \<Rightarrow> string list" where
  "list_factories keys = foldr insert_name keys []"

subsection \<open>The two tables\<close>

definition new_discovery :: "('c \<Rightarrow> string) \<Rightarrow> 'c option \<Rightarrow> ('c \<Rightarrow> 'r res) factories \<Rightarrow> 'r option res" where
  "new_discovery = new_from_factory ''discovery''"
definition register_discovery_factory :: "string \<Rightarrow> 'f option \<Rightarrow> 'f factories \<Rightarrow> unit res \<times> 'f factories" where
  "register_discovery_factory = register_factory ''discovery''"
definition must_register_discovery_factory :: "string \<Rightarrow> 'f option \<Rightarrow> 'f factories \<Rightarrow> unit res \<times> 'f factories" where
  "must_register_discovery_factory = must_register_factory ''discovery''"
definition get_discovery_factory :: "string \<Rightarrow> 'f factories \<Rightarrow> 'f option" where
  "get_discovery_factory = get_factory"
definition list_discovery_factories :: "string list \<Rightarrow> string list" where
  "list_discovery_factories = list_factories"

definition new_registrar :: "('c \<Rightarrow> string) \<Rightarrow> 'c option \<Rightarrow> ('c \<Rightarrow> 'r res) factories \<Rightarrow> 'r option res" where
  "new_registrar = new_from_factory ''registrar''"
definition register_registrar_factory :: "string \<Rightarrow> 'f option \<Rightarrow> 'f factories \<Rightarrow> unit res \<times> 'f factories" where
  "register_registrar_factory = register_factory ''registrar''"
definition must_register_registrar_factory :: "string \<Rightarrow> 'f option \<Rightarrow> 'f factories \<Rightarrow> unit res \<times> 'f factories" where
  "must_register_registrar_factory = must_register_factory ''registrar''"
definition get_registrar_factory :: "string \<Rightarrow> 'f factories \<Rightarrow> 'f option" where
  "get_registrar_factory = get_factory"
definition list_registrar_factories :: "string list \<Rightarrow> string list" where
  "list_registrar_factories = list_factories"

subsection \<open>What the names promise\<close>

definition name_rune :: "nat \<Rightarrow> bool" where
  "name_rune r \<longleftrightarrow> ascii_lower_rune r \<or> (48 \<le> r \<and> r \<le> 57)"

text \<open>A label of DNS-1123, as a list of runes.\<close>

definition dns_label :: "nat list \<Rightarrow> bool" where
  "dns_label rs \<longleftrightarrow> rs \<noteq> [] \<and> length rs \<le> k8s_max_runes \<and> (\<forall>r \<in> set rs. name_rune r \<or> r = hyphen) \<and>
     name_rune (hd rs) \<and> name_rune (last rs)"

lemma name_loop_set:
  "r \<in> set (name_loop keep put limit rs out count lh) \<Longrightarrow> r \<in> set out \<or> r = hyphen \<or> (\<exists>q \<in> set rs. keep q \<and> r = put q)"
proof (induction keep put limit rs out count lh rule: name_loop.induct)
  case (2 keep put limit q rs out count lh)
  then show ?case by (auto simp: Let_def split: if_splits)
qed simp

lemma name_loop_length:
  "length out = count \<Longrightarrow> count < limit \<Longrightarrow> length (name_loop keep put limit rs out count lh) \<le> limit"
proof (induction keep put limit rs out count lh rule: name_loop.induct)
  case (2 keep put limit q rs out count lh)
  then show ?case by (auto simp: Let_def split: if_splits)
qed simp

lemma trim_hyphens_facts:
  "set (trim_hyphens rs) \<subseteq> set rs" "length (trim_hyphens rs) \<le> length rs"
  "trim_hyphens rs \<noteq> [] \<Longrightarrow> hd (trim_hyphens rs) \<noteq> hyphen \<and> last (trim_hyphens rs) \<noteq> hyphen"
proof -
  let ?left = "dropWhile (\<lambda>r. r = hyphen) rs"
  show "set (trim_hyphens rs) \<subseteq> set rs"
    unfolding trim_hyphens_def by (metis set_dropWhileD set_rev subsetI)
  have "length (trim_hyphens rs) \<le> length ?left"
    using length_dropWhile_le [of "\<lambda>r. r = hyphen" "rev ?left"] by (simp add: trim_hyphens_def)
  also have "\<dots> \<le> length rs" by (rule length_dropWhile_le)
  finally show "length (trim_hyphens rs) \<le> length rs" .
  assume ne: "trim_hyphens rs \<noteq> []"
  then have "last (trim_hyphens rs) \<noteq> hyphen"
    using hd_dropWhile [of "\<lambda>r. r = hyphen" "rev ?left"] by (auto simp: trim_hyphens_def last_rev)
  moreover obtain a where "?left = trim_hyphens rs @ a"
    using takeWhile_dropWhile_id [of "\<lambda>r. r = hyphen" "rev ?left"]
    by (metis rev_append rev_rev_ident trim_hyphens_def)
  then have "hd (trim_hyphens rs) = hd ?left" "?left \<noteq> []" using ne by auto
  then have "hd (trim_hyphens rs) \<noteq> hyphen" using hd_dropWhile [of "\<lambda>r. r = hyphen" rs] by auto
  ultimately show "hd (trim_hyphens rs) \<noteq> hyphen \<and> last (trim_hyphens rs) \<noteq> hyphen" by simp
qed

lemma cut_name_facts:
  assumes "cut_name limit out = Some res"
  shows "res \<noteq> []" "length res \<le> limit" "set res \<subseteq> set out" "hd res \<noteq> hyphen" "last res \<noteq> hyphen"
  using assms trim_hyphens_facts [of out] trim_hyphens_facts [of "take limit (trim_hyphens out)"]
    set_take_subset [of limit "trim_hyphens out"]
  by (auto simp: cut_name_def Let_def split: if_splits)

lemma of_runes_ascii: "\<forall>r \<in> set rs. r < 128 \<Longrightarrow> of_runes rs = map char_of rs"
  by (induction rs) (auto simp: utf8_encode_def)

lemma dns_label_ascii: "dns_label rs \<Longrightarrow> \<forall>r \<in> set rs. r < 128"
  by (auto simp: dns_label_def name_rune_def ascii_lower_rune_def hyphen_def)

lemma placeholder_label: "\<exists>rs. dns_label rs \<and> default_placeholder = map char_of rs"
  by (intro exI [of _ "map of_char default_placeholder"])
    (simp del: list.map add: list.map_comp comp_def, simp add: dns_label_def default_placeholder_def k8s_max_runes_def name_rune_def ascii_lower_rune_def)

lemma kubernetes_label:
  assumes digits: "\<forall>r \<in> set s. ut_digit U (ut_lower U r) \<longrightarrow> 48 \<le> ut_lower U r \<and> ut_lower U r \<le> 57"
  shows "\<exists>rs. dns_label rs \<and> normalize_kubernetes U s = map char_of rs"
proof -
  let ?s = "map (ut_lower U) (trim_runes s)"
  let ?keep = "\<lambda>r. ascii_lower_rune r \<or> ut_digit U r"
  let ?out = "name_loop ?keep (\<lambda>r. r) k8s_max_runes ?s [] 0 False"
  have trim: "set (trim_runes s) \<subseteq> set s"
    unfolding trim_runes_def by (metis set_dropWhileD set_rev subsetI)
  have out: "r = hyphen \<or> (?keep r \<and> name_rune r)" if "r \<in> set ?out" for r
    using name_loop_set [OF that] digits trim by (auto simp: name_rune_def)
  show ?thesis
  proof (cases "cut_name k8s_max_runes ?out")
    case None
    then show ?thesis using placeholder_label by (simp add: normalize_kubernetes_def Let_def)
  next
    case (Some rs)
    note facts = cut_name_facts [OF Some]
    have kept: "?keep r" "name_rune r" if "r \<in> set rs" "r \<noteq> hyphen" for r
      using out that facts(3) by auto
    have label: "dns_label rs"
      using facts out kept by (auto simp: dns_label_def)
    then have res: "of_runes rs = map char_of rs"
      using of_runes_ascii dns_label_ascii by blast
    have "hd rs < 128" "last rs < 128"
      using facts(1) dns_label_ascii [OF label] by simp_all
    then have "of_char (hd (map char_of rs)) = hd rs" "of_char (last (map char_of rs)) = last rs"
      using facts(1) by (simp_all add: hd_map last_map)
    then have "normalize_kubernetes U s = map char_of rs"
      using Some res kept [of "hd rs"] kept [of "last rs"] facts(1,4,5) by (auto simp: normalize_kubernetes_def Let_def)
    then show ?thesis using label by blast
  qed
qed

text \<open>A name for Kubernetes is a label of DNS-1123, whatever the service is called: not empty, at most 63 characters
  among the lower-case letters, the digits and the hyphen, with a letter or digit at both ends. This holds when the
  name has no decimal digits of other scripts, which \<open>unicode.IsDigit\<close> accepts as well.\<close>

theorem kubernetes_names_are_labels:
  assumes "of_runes (map (ut_lower U) (trim_runes (runes registry))) = ''kubernetes''"
    and "\<forall>r \<in> set (runes (trim_space_utf8 app_id)). ut_digit U (ut_lower U r) \<longrightarrow> 48 \<le> ut_lower U r \<and> ut_lower U r \<le> 57"
  shows "\<exists>rs. dns_label rs \<and> normalize_for_registry U app_id registry = map char_of rs"
  using kubernetes_label [OF assms(2)] placeholder_label assms(1) by (simp add: normalize_for_registry_def Let_def)

definition sample_tables :: unicode_tables where
  "sample_tables = \<lparr>ut_letter = (\<lambda>r. (97 \<le> r \<and> r \<le> 122) \<or> (65 \<le> r \<and> r \<le> 90)),
     ut_digit = (\<lambda>r. (48 \<le> r \<and> r \<le> 57) \<or> (0x660 \<le> r \<and> r \<le> 0x669)),
     ut_lower = (\<lambda>r. if 65 \<le> r \<and> r \<le> 90 then r + 32 else r)\<rparr>"

theorem kubernetes_names_are_labels_witness:
  "(\<exists>rs. dns_label rs \<and> normalize_for_registry sample_tables ''/Admin_Api.v1 '' ''Kubernetes '' = map char_of rs) \<and>
   normalize_for_registry sample_tables ''/Admin_Api.v1 '' ''Kubernetes '' = ''admin-api-v1''"
proof
  show "\<exists>rs. dns_label rs \<and> normalize_for_registry sample_tables ''/Admin_Api.v1 '' ''Kubernetes '' = map char_of rs"
  proof (rule kubernetes_names_are_labels)
    show "of_runes (map (ut_lower sample_tables) (trim_runes (runes ''Kubernetes ''))) = ''kubernetes''" by code_simp
    have "list_all (\<lambda>r. ut_digit sample_tables (ut_lower sample_tables r) \<longrightarrow>
        48 \<le> ut_lower sample_tables r \<and> ut_lower sample_tables r \<le> 57) (runes (trim_space_utf8 ''/Admin_Api.v1 ''))" by code_simp
    then show "\<forall>r \<in> set (runes (trim_space_utf8 ''/Admin_Api.v1 '')). ut_digit sample_tables (ut_lower sample_tables r) \<longrightarrow>
        48 \<le> ut_lower sample_tables r \<and> ut_lower sample_tables r \<le> 57"
      by (simp add: list_all_iff)
  qed
  show "normalize_for_registry sample_tables ''/Admin_Api.v1 '' ''Kubernetes '' = ''admin-api-v1''" by code_simp
qed

text \<open>An Arabic digit inside a name goes through to Kubernetes, which refuses it.\<close>

lemma other_digits_stay:
  "normalize_kubernetes sample_tables [97, 0x663, 98] = of_runes [97, 0x663, 98]"
  by code_simp

text \<open>A name for Consul has at most 64 runes, none of them a separator but the hyphen, which is at neither end.\<close>

lemma consul_name:
  "normalize_consul U s = default_placeholder \<or>
   (\<exists>rs. normalize_consul U s = of_runes rs \<and> rs \<noteq> [] \<and> length rs \<le> consul_max_runes \<and> hd rs \<noteq> hyphen \<and> last rs \<noteq> hyphen \<and>
      (\<forall>r \<in> set rs. r = hyphen \<or> (\<exists>q \<in> set s. (ut_letter U q \<or> ut_digit U q) \<and> r = ut_lower U q)))"
proof (cases "cut_name consul_max_runes (name_loop (\<lambda>r. ut_letter U r \<or> ut_digit U r) (ut_lower U) consul_max_runes s [] 0 False)")
  case None
  then show ?thesis by (simp add: normalize_consul_def)
next
  case (Some rs)
  have "\<forall>r \<in> set rs. r = hyphen \<or> (\<exists>q \<in> set s. (ut_letter U q \<or> ut_digit U q) \<and> r = ut_lower U q)"
    using name_loop_set cut_name_facts(3) [OF Some] by fastforce
  with Some cut_name_facts [OF Some] show ?thesis by (auto simp: normalize_consul_def)
qed

subsection \<open>What the factories promise\<close>

text \<open>The first factory of a type stays: a registration succeeds exactly for a new name, and changes nothing else.\<close>

lemma register_factory_iff:
  "register_factory noun name f fs = (r, fs') \<Longrightarrow>
     (is_ok r \<longleftrightarrow> name \<noteq> [] \<and> f \<noteq> None \<and> fs name = None) \<and> fs' = (if is_ok r then fs(name := f) else fs)"
  by (auto simp: register_factory_def split: option.splits if_splits)

lemma list_factories_set: "set (list_factories keys) = set keys"
proof -
  have "set (insert_name s ts) = insert s (set ts)" for s ts
    by (induction ts) auto
  then show ?thesis
    unfolding list_factories_def by (induction keys) auto
qed

end
