(* ===== verification/Local_Cache.thy ===== *)
theory Local_Cache
  imports Cache_Interface "HOL-Library.Signed_Division" "HOL-Library.Word"
begin

text \<open>
  The local cache (cache/local/local.go) over FreeCache, which is the record \<open>freecache\<close> of its operations;
  \<open>ctx\<close> is what the context's \<open>Err\<close> returns. One of 256 locks, chosen by a hash of the key, makes the
  operations that write a key exclude each other. Expiry and eviction happen inside FreeCache's calls. \<open>local_step\<close> interleaves them at the level of the locks
  and of FreeCache's own operations.
\<close>

unbundle bit_operations_syntax

subsection \<open>FreeCache and the configuration\<close>

record 's freecache =
  fc_get :: "gotime \<Rightarrow> string \<Rightarrow> 's \<Rightarrow> string res \<times> 's"
  fc_set :: "gotime \<Rightarrow> string \<Rightarrow> string \<Rightarrow> int \<Rightarrow> 's \<Rightarrow> unit res \<times> 's"
  fc_del :: "string \<Rightarrow> 's \<Rightarrow> 's"
  fc_clear :: "'s \<Rightarrow> 's"
  fc_new :: "int \<Rightarrow> 's"
  fc_counts :: "'s \<Rightarrow> int \<times> int \<times> int \<times> int \<times> int"

definition fc_not_found :: go_err where "fc_not_found = Sentinel ''Entry not found''"

record local_config =
  lc_size :: int
  lc_default_ttl :: duration

type_synonym local_option = "local_config \<Rightarrow> local_config"

definition with_size :: "int \<Rightarrow> local_option" where
  "with_size n c = (if 0 < n then c\<lparr>lc_size := n\<rparr> else c)"

definition with_default_ttl :: "duration \<Rightarrow> local_option" where
  "with_default_ttl d c = c\<lparr>lc_default_ttl := d\<rparr>"

definition new_local :: "'s freecache \<Rightarrow> local_option list \<Rightarrow> local_config \<times> 's" where
  "new_local F opts =
     (let cfg = fold (\<lambda>opt. opt) opts \<lparr>lc_size = 256 * 1024 * 1024, lc_default_ttl = 0\<rparr> in (cfg, fc_new F (lc_size cfg)))"

subsection \<open>The helpers\<close>

definition expire_seconds :: "local_config \<Rightarrow> duration \<Rightarrow> int" where
  "expire_seconds cfg d0 =
     (let d = (if d0 \<le> 0 then lc_default_ttl cfg else d0) in
      if d \<le> 0 then 0 else wrap64 (d + second - 1) sdiv second)"

definition lock_index :: "string \<Rightarrow> 32 word" where
  "lock_index key = fold (\<lambda>c hash. (hash XOR word_of_nat (of_char c)) * 16777619) key 2166136261 mod 256"

subsection \<open>The operations\<close>

text \<open>What the operations do between two of FreeCache's calls.\<close>

definition local_found :: "string res \<Rightarrow> string res" where
  "local_found r = (case r of Inr v \<Rightarrow> Inr v | Inl e \<Rightarrow> if e = fc_not_found then Inl err_not_found else Inl e)"

definition with_context :: "go_err option \<Rightarrow> ('s \<Rightarrow> 'a res \<times> 's) \<Rightarrow> 's \<Rightarrow> 'a res \<times> 's" where
  "with_context ctx f s = (case ctx of Some e \<Rightarrow> (Inl e, s) | None \<Rightarrow> f s)"

definition local_get :: "'s freecache \<Rightarrow> go_err option \<Rightarrow> gotime \<Rightarrow> string \<Rightarrow> 's \<Rightarrow> string res \<times> 's" where
  "local_get F ctx now key = with_context ctx (\<lambda>s. apfst local_found (fc_get F now key s))"

definition local_getdel :: "'s freecache \<Rightarrow> go_err option \<Rightarrow> gotime \<Rightarrow> string \<Rightarrow> 's \<Rightarrow> string res \<times> 's" where
  "local_getdel F ctx now key = with_context ctx (\<lambda>s.
     case fc_get F now key s of
       (Inl e, s') \<Rightarrow> (local_found (Inl e), s')
     | (Inr v, s') \<Rightarrow> (Inr v, fc_del F key s'))"

definition local_set ::
    "'s freecache \<Rightarrow> local_config \<Rightarrow> go_err option \<Rightarrow> gotime \<Rightarrow> string \<Rightarrow> string \<Rightarrow> duration \<Rightarrow> 's \<Rightarrow> unit res \<times> 's" where
  "local_set F cfg ctx now key v d = with_context ctx (fc_set F now key v (expire_seconds cfg d))"

definition local_set_nx ::
    "'s freecache \<Rightarrow> local_config \<Rightarrow> go_err option \<Rightarrow> gotime \<Rightarrow> gotime \<Rightarrow> string \<Rightarrow> string \<Rightarrow> duration \<Rightarrow> 's \<Rightarrow> bool res \<times> 's" where
  "local_set_nx F cfg ctx now1 now2 key v d = with_context ctx (\<lambda>s.
     case fc_get F now1 key s of
       (Inr _, s') \<Rightarrow> (Inr False, s')
     | (Inl e, s') \<Rightarrow>
         if e \<noteq> fc_not_found then (Inl e, s')
         else (case fc_set F now2 key v (expire_seconds cfg d) s' of
                 (Inl e, s'') \<Rightarrow> (Inl e, s'')
               | (Inr _, s'') \<Rightarrow> (Inr True, s'')))"

definition local_delete :: "'s freecache \<Rightarrow> go_err option \<Rightarrow> string \<Rightarrow> 's \<Rightarrow> unit res \<times> 's" where
  "local_delete F ctx key = with_context ctx (\<lambda>s. (Inr (), fc_del F key s))"

definition local_has :: "'s freecache \<Rightarrow> go_err option \<Rightarrow> gotime \<Rightarrow> string \<Rightarrow> 's \<Rightarrow> bool res \<times> 's" where
  "local_has F ctx now key = with_context ctx (\<lambda>s.
     case fc_get F now key s of
       (Inr _, s') \<Rightarrow> (Inr True, s')
     | (Inl e, s') \<Rightarrow> (if e = fc_not_found then Inr False else Inl e, s'))"

text \<open>
  The result of \<open>GetMulti\<close> has both values and an error when a key is missing; a missing value is \<open>None\<close>. Each
  key has its own instant and its own look at the context.
\<close>

fun get_each ::
    "'s freecache \<Rightarrow> (go_err option \<times> gotime \<times> string) list \<Rightarrow> 's \<Rightarrow> (string option list \<times> bool) res \<times> 's" where
  "get_each F [] s = (Inr ([], False), s)"
| "get_each F ((ctx, now, key) # keys) s =
     (case ctx of
        Some e \<Rightarrow> (Inl e, s)
      | None \<Rightarrow>
          (case fc_get F now key s of
             (Inl e, s') \<Rightarrow>
               if e = fc_not_found then apfst (\<lambda>r. res_bind r (\<lambda>(vs, missing). Inr (None # vs, True))) (get_each F keys s')
               else (Inl e, s')
           | (Inr v, s') \<Rightarrow> apfst (\<lambda>r. res_bind r (\<lambda>(vs, missing). Inr (Some v # vs, missing))) (get_each F keys s')))"

definition local_get_multi ::
    "'s freecache \<Rightarrow> (go_err option \<times> gotime \<times> string) list \<Rightarrow> 's \<Rightarrow> (string option list option \<times> go_err option) \<times> 's" where
  "local_get_multi F keys s =
     (case get_each F keys s of
        (Inl e, s') \<Rightarrow> ((None, Some e), s')
      | (Inr (vs, missing), s') \<Rightarrow> ((Some vs, if missing then Some err_not_found else None), s'))"

record local_item =
  li_key :: string
  li_value :: string
  li_ttl :: duration

fun local_set_multi ::
    "'s freecache \<Rightarrow> local_config \<Rightarrow> (go_err option \<times> gotime \<times> local_item) list \<Rightarrow> 's \<Rightarrow> unit res \<times> 's" where
  "local_set_multi F cfg [] s = (Inr (), s)"
| "local_set_multi F cfg ((ctx, now, item) # items) s =
     (case ctx of
        Some e \<Rightarrow> (Inl e, s)
      | None \<Rightarrow>
          (case fc_set F now (li_key item) (li_value item) (expire_seconds cfg (li_ttl item)) s of
             (Inl e, s') \<Rightarrow> (Inl e, s')
           | (Inr _, s') \<Rightarrow> local_set_multi F cfg items s'))"

definition local_close :: "'s freecache \<Rightarrow> 's \<Rightarrow> unit res \<times> 's" where
  "local_close F s = (Inr (), fc_clear F s)"

definition entry_count :: "'s freecache \<Rightarrow> 's \<Rightarrow> int" where "entry_count F s = fst (fc_counts F s)"
definition hit_count :: "'s freecache \<Rightarrow> 's \<Rightarrow> int" where "hit_count F s = fst (snd (fc_counts F s))"
definition miss_count :: "'s freecache \<Rightarrow> 's \<Rightarrow> int" where "miss_count F s = fst (snd (snd (fc_counts F s)))"
definition evacuate_count :: "'s freecache \<Rightarrow> 's \<Rightarrow> int" where "evacuate_count F s = fst (snd (snd (snd (fc_counts F s))))"
definition expired_count :: "'s freecache \<Rightarrow> 's \<Rightarrow> int" where "expired_count F s = snd (snd (snd (snd (fc_counts F s))))"

subsection \<open>Overlapping operations\<close>

text \<open>
  \<open>Has\<close> and each key of \<open>GetMulti\<close> read as \<open>Get\<close> does; each item of \<open>SetMulti\<close> is written as by \<open>Set\<close>. A call whose
  context is over makes no step.
\<close>

datatype local_op = OpGet string | OpGetDel string | OpSetNX string string duration | OpSet string string duration | OpDelete string

fun op_key :: "local_op \<Rightarrow> string" where
  "op_key (OpGet k) = k"
| "op_key (OpGetDel k) = k"
| "op_key (OpSetNX k v d) = k"
| "op_key (OpSet k v d) = k"
| "op_key (OpDelete k) = k"

text \<open>Where a caller is: \<open>Taking\<close> is between \<open>Get\<close> and \<open>Del\<close> of \<open>GetDel\<close>, \<open>Adding\<close> between \<open>Get\<close> and \<open>Set\<close> of \<open>SetNX\<close>.\<close>

datatype caller_phase =
    Idle
  | Waiting local_op
  | Holding local_op
  | Taking string string
  | Adding string string duration
  | Leaving string

text \<open>\<open>ls_stored\<close> and \<open>ls_taken\<close> count, per key, the values written and the values handed out by \<open>GetDel\<close>.\<close>

record 's local_system =
  ls_store :: 's
  ls_locks :: "32 word \<Rightarrow> nat option"
  ls_phase :: "nat \<Rightarrow> caller_phase"
  ls_stored :: "string \<Rightarrow> nat"
  ls_taken :: "string \<Rightarrow> nat"

definition go_to :: "nat \<Rightarrow> caller_phase \<Rightarrow> 's local_system \<Rightarrow> 's local_system" where
  "go_to t ph S = S\<lparr>ls_phase := (ls_phase S)(t := ph)\<rparr>"

definition count_stored :: "string \<Rightarrow> unit res \<Rightarrow> 's local_system \<Rightarrow> 's local_system" where
  "count_stored k r S = (if is_ok r then S\<lparr>ls_stored := (ls_stored S)(k := Suc (ls_stored S k))\<rparr> else S)"

definition put_value :: "'s freecache \<Rightarrow> local_config \<Rightarrow> gotime \<Rightarrow> string \<Rightarrow> string \<Rightarrow> duration \<Rightarrow> 's local_system \<Rightarrow> 's local_system" where
  "put_value F cfg now k v d S =
     (let (r, s') = fc_set F now k v (expire_seconds cfg d) (ls_store S) in count_stored k r (S\<lparr>ls_store := s'\<rparr>))"

definition read_value :: "'s freecache \<Rightarrow> gotime \<Rightarrow> string \<Rightarrow> 's local_system \<Rightarrow> string res \<times> 's local_system" where
  "read_value F now k S = (let (r, s') = fc_get F now k (ls_store S) in (r, S\<lparr>ls_store := s'\<rparr>))"

inductive local_step :: "'s freecache \<Rightarrow> local_config \<Rightarrow> 's local_system \<Rightarrow> 's local_system \<Rightarrow> bool" for F cfg where
  call: "ls_phase S t = Idle \<Longrightarrow> local_step F cfg S (go_to t (Waiting oper) S)"
| get: "ls_phase S t = Waiting (OpGet k) \<Longrightarrow> local_step F cfg S (go_to t Idle (snd (read_value F now k S)))"
| lock: "ls_phase S t = Waiting oper \<Longrightarrow> oper \<noteq> OpGet (op_key oper) \<Longrightarrow> ls_locks S (lock_index (op_key oper)) = None \<Longrightarrow>
    local_step F cfg S (go_to t (Holding oper) (S\<lparr>ls_locks := (ls_locks S)(lock_index (op_key oper) := Some t)\<rparr>))"
| take_read: "ls_phase S t = Holding (OpGetDel k) \<Longrightarrow> read_value F now k S = (r, S') \<Longrightarrow>
    local_step F cfg S (go_to t (case r of Inl e \<Rightarrow> Leaving k | Inr v \<Rightarrow> Taking k v) S')"
| take_delete: "ls_phase S t = Taking k v \<Longrightarrow>
    local_step F cfg S (go_to t (Leaving k) (S\<lparr>ls_store := fc_del F k (ls_store S), ls_taken := (ls_taken S)(k := Suc (ls_taken S k))\<rparr>))"
| nx_read: "ls_phase S t = Holding (OpSetNX k v d) \<Longrightarrow> read_value F now k S = (r, S') \<Longrightarrow>
    local_step F cfg S (go_to t (if r = Inl fc_not_found then Adding k v d else Leaving k) S')"
| nx_set: "ls_phase S t = Adding k v d \<Longrightarrow> local_step F cfg S (go_to t (Leaving k) (put_value F cfg now k v d S))"
| set: "ls_phase S t = Holding (OpSet k v d) \<Longrightarrow> local_step F cfg S (go_to t (Leaving k) (put_value F cfg now k v d S))"
| delete: "ls_phase S t = Holding (OpDelete k) \<Longrightarrow>
    local_step F cfg S (go_to t (Leaving k) (S\<lparr>ls_store := fc_del F k (ls_store S)\<rparr>))"
| unlock: "ls_phase S t = Leaving k \<Longrightarrow>
    local_step F cfg S (go_to t Idle (S\<lparr>ls_locks := (ls_locks S)(lock_index k := None)\<rparr>))"
| close: "local_step F cfg S (S\<lparr>ls_store := fc_clear F (ls_store S)\<rparr>)"

definition local_start :: "'s freecache \<Rightarrow> local_option list \<Rightarrow> 's local_system" where
  "local_start F opts = \<lparr>ls_store = snd (new_local F opts), ls_locks = (\<lambda>_. None), ls_phase = (\<lambda>_. Idle),
     ls_stored = (\<lambda>_. 0), ls_taken = (\<lambda>_. 0)\<rparr>"

inductive local_reachable :: "'s freecache \<Rightarrow> local_option list \<Rightarrow> 's local_system \<Rightarrow> bool" for F opts where
  init: "local_reachable F opts (local_start F opts)"
| step: "local_reachable F opts S \<Longrightarrow> local_step F (fst (new_local F opts)) S S' \<Longrightarrow> local_reachable F opts S'"

subsection \<open>A value is handed out once\<close>

text \<open>
  What is asked of FreeCache: \<open>may s k\<close> says that a \<open>Get\<close> may still answer for \<open>k\<close>. Entries come only from \<open>Set\<close>, go with
  \<open>Del\<close>, and may go at any other time (expiry, eviction).
\<close>

definition freecache_ok :: "'s freecache \<Rightarrow> ('s \<Rightarrow> string \<Rightarrow> bool) \<Rightarrow> bool" where
  "freecache_ok F may \<longleftrightarrow>
     (\<forall>now k s v s'. fc_get F now k s = (Inr v, s') \<longrightarrow> may s k) \<and>
     (\<forall>now k s r s' k'. fc_get F now k s = (r, s') \<longrightarrow> may s' k' \<longrightarrow> may s k') \<and>
     (\<forall>k s k'. may (fc_del F k s) k' \<longrightarrow> k' \<noteq> k \<and> may s k') \<and>
     (\<forall>now k v n s r s' k'. fc_set F now k v n s = (r, s') \<longrightarrow> may s' k' \<longrightarrow> (k' = k \<and> is_ok r) \<or> may s k') \<and>
     (\<forall>s k. may (fc_clear F s) k \<longrightarrow> may s k) \<and>
     (\<forall>n k. \<not> may (fc_new F n) k)"

fun held_key :: "caller_phase \<Rightarrow> string option" where
  "held_key Idle = None"
| "held_key (Waiting oper) = None"
| "held_key (Holding oper) = Some (op_key oper)"
| "held_key (Taking k v) = Some k"
| "held_key (Adding k v d) = Some k"
| "held_key (Leaving k) = Some k"

definition locks_held :: "'s local_system \<Rightarrow> bool" where
  "locks_held S \<longleftrightarrow> (\<forall>t k. held_key (ls_phase S t) = Some k \<longrightarrow> ls_locks S (lock_index k) = Some t)"

definition outstanding :: "('s \<Rightarrow> string \<Rightarrow> bool) \<Rightarrow> 's local_system \<Rightarrow> string \<Rightarrow> bool" where
  "outstanding may S k \<longleftrightarrow> may (ls_store S) k \<or> (\<exists>t v. ls_phase S t = Taking k v)"

definition values_counted :: "('s \<Rightarrow> string \<Rightarrow> bool) \<Rightarrow> 's local_system \<Rightarrow> bool" where
  "values_counted may S \<longleftrightarrow> (\<forall>k. ls_taken S k + (if outstanding may S k then 1 else 0) \<le> ls_stored S k)"

lemma go_to_simps [simp]:
  "ls_store (go_to t ph S) = ls_store S" "ls_locks (go_to t ph S) = ls_locks S" "ls_stored (go_to t ph S) = ls_stored S"
  "ls_taken (go_to t ph S) = ls_taken S" "ls_phase (go_to t ph S) = (ls_phase S)(t := ph)"
  by (simp_all add: go_to_def)

lemma put_value_simps [simp]:
  "ls_locks (put_value F cfg now k v d S) = ls_locks S" "ls_phase (put_value F cfg now k v d S) = ls_phase S"
  "ls_taken (put_value F cfg now k v d S) = ls_taken S"
  by (simp_all add: put_value_def count_stored_def split: prod.split)

lemma read_value_simps:
  assumes "read_value F now k S = (r, S')"
  shows "ls_locks S' = ls_locks S" "ls_phase S' = ls_phase S" "ls_taken S' = ls_taken S" "ls_stored S' = ls_stored S"
    "fc_get F now k (ls_store S) = (r, ls_store S')"
  using assms by (auto simp: read_value_def split: prod.splits)

lemma locks_held_step:
  assumes "local_step F cfg S S'" and "locks_held S"
  shows "locks_held S'"
  using assms(1)
proof (cases rule: local_step.cases)
  case (get t k now)
  then show ?thesis using assms(2) read_value_simps [of F now k S] by (cases "read_value F now k S") (auto simp: locks_held_def)
next
  case (lock t oper)
  have "held_key (ls_phase S ta) = Some k \<Longrightarrow> lock_index k \<noteq> lock_index (op_key oper)" for ta k
    using lock assms(2) unfolding locks_held_def by (metis option.distinct(1))
  then show ?thesis using lock(1) assms(2) by (auto simp: locks_held_def)
next
  case (take_read t k now r S'')
  then show ?thesis using assms(2) read_value_simps [OF take_read(3)] by (auto simp: locks_held_def split: sum.splits)
next
  case (nx_read t k v d now r S'')
  then show ?thesis using assms(2) read_value_simps [OF nx_read(3)] by (auto simp: locks_held_def split: if_splits)
next
  case (unlock t k)
  then show ?thesis using assms(2) by (auto simp: locks_held_def) (metis held_key.simps(6) option.inject)
qed (insert assms(2), auto simp: locks_held_def)

lemma alone_on_key:
  assumes "locks_held S" and "held_key (ls_phase S t) = Some k" and "held_key (ls_phase S t') = Some k"
  shows "t' = t"
  using assms unfolding locks_held_def by (metis option.inject)

lemma freecache_okD:
  assumes "freecache_ok F may"
  shows "fc_get F now k s = (Inr v, s') \<Longrightarrow> may s k"
    and "fc_get F now k s = (r, s') \<Longrightarrow> may s' k' \<Longrightarrow> may s k'"
    and "may (fc_del F k s) k' \<Longrightarrow> k' \<noteq> k \<and> may s k'"
    and "fc_set F now k v n s = (u, s') \<Longrightarrow> may s' k' \<Longrightarrow> (k' = k \<and> is_ok u) \<or> may s k'"
    and "may (fc_clear F s) k' \<Longrightarrow> may s k'"
    and "\<not> may (fc_new F m) k'"
proof -
  note laws = assms [unfolded freecache_ok_def, THEN conjunct1] assms [unfolded freecache_ok_def, THEN conjunct2, THEN conjunct1]
    assms [unfolded freecache_ok_def, THEN conjunct2, THEN conjunct2]
  show "fc_get F now k s = (Inr v, s') \<Longrightarrow> may s k" using laws by metis
  show "fc_get F now k s = (r, s') \<Longrightarrow> may s' k' \<Longrightarrow> may s k'" using laws by metis
  show "may (fc_del F k s) k' \<Longrightarrow> k' \<noteq> k \<and> may s k'" using laws by metis
  show "fc_set F now k v n s = (u, s') \<Longrightarrow> may s' k' \<Longrightarrow> (k' = k \<and> is_ok u) \<or> may s k'" using laws by metis
  show "may (fc_clear F s) k' \<Longrightarrow> may s k'" using laws by metis
  show "\<not> may (fc_new F m) k'" using laws by metis
qed

lemma counted_mono:
  assumes "values_counted may S" and "ls_taken S' = ls_taken S" and "ls_stored S' = ls_stored S"
    and "\<And>k. outstanding may S' k \<Longrightarrow> outstanding may S k"
  shows "values_counted may S'"
  unfolding values_counted_def
proof
  fix k
  have "ls_taken S k + (if outstanding may S k then 1 else 0) \<le> ls_stored S k"
    using assms(1) by (simp add: values_counted_def)
  then show "ls_taken S' k + (if outstanding may S' k then 1 else 0) \<le> ls_stored S' k"
    using assms(2,3) assms(4) [of k] by (auto split: if_splits)
qed

lemma counted_put:
  assumes "values_counted may S" and "freecache_ok F may"
  shows "values_counted may (go_to t (Leaving k) (put_value F cfg now k v d S))"
proof (unfold values_counted_def, intro allI)
  fix k'
  obtain r s' where set: "fc_set F now k v (expire_seconds cfg d) (ls_store S) = (r, s')" by fastforce
  let ?S = "go_to t (Leaving k) (put_value F cfg now k v d S)"
  have store: "ls_store ?S = s'" and stored: "ls_stored ?S = (if is_ok r then (ls_stored S)(k := Suc (ls_stored S k)) else ls_stored S)"
    using set by (auto simp: put_value_def count_stored_def)
  have "outstanding may ?S k' \<Longrightarrow> (k' = k \<and> is_ok r) \<or> outstanding may S k'"
    using freecache_okD(4) [OF assms(2) set] store by (auto simp: outstanding_def split: if_splits)
  moreover have "ls_taken S k' + (if outstanding may S k' then 1 else 0) \<le> ls_stored S k'"
    using assms(1) by (simp add: values_counted_def)
  ultimately show "ls_taken ?S k' + (if outstanding may ?S k' then 1 else 0) \<le> ls_stored ?S k'"
    unfolding stored by (auto split: if_splits)
qed

lemma counted_take:
  assumes "values_counted may S" and "freecache_ok F may" and "locks_held S" and "ls_phase S t = Taking k v"
  shows "values_counted may
    (go_to t (Leaving k) (S\<lparr>ls_store := fc_del F k (ls_store S), ls_taken := (ls_taken S)(k := Suc (ls_taken S k))\<rparr>))"
proof (unfold values_counted_def, intro allI)
  fix k'
  let ?S = "go_to t (Leaving k) (S\<lparr>ls_store := fc_del F k (ls_store S), ls_taken := (ls_taken S)(k := Suc (ls_taken S k))\<rparr>)"
  have before: "ls_taken S k' + (if outstanding may S k' then 1 else 0) \<le> ls_stored S k'"
    using assms(1) by (simp add: values_counted_def)
  have "outstanding may S k" using assms(4) by (auto simp: outstanding_def)
  moreover have "\<not> outstanding may ?S k"
    using freecache_okD(3) [OF assms(2)] alone_on_key [OF assms(3), of t k] assms(4)
    by (fastforce simp: outstanding_def split: if_splits)
  moreover have "outstanding may ?S k' \<Longrightarrow> outstanding may S k'"
    using freecache_okD(3) [OF assms(2)] by (auto simp: outstanding_def split: if_splits)
  ultimately show "ls_taken ?S k' + (if outstanding may ?S k' then 1 else 0) \<le> ls_stored ?S k'"
    using before by (cases "k' = k") (auto split: if_splits)
qed

lemma values_counted_step:
  assumes "local_step F cfg S S'" and "freecache_ok F may" and "locks_held S" and "values_counted may S"
  shows "values_counted may S'"
  using assms(1)
proof (cases rule: local_step.cases)
  case (get t k now)
  obtain r S'' where r: "read_value F now k S = (r, S'')" by fastforce
  have "may (ls_store S'') k' \<Longrightarrow> may (ls_store S) k'" for k'
    using freecache_okD(2) [OF assms(2) read_value_simps(5) [OF r]] .
  then show ?thesis using get r read_value_simps [OF r]
    by (intro counted_mono [OF assms(4)]) (auto simp: outstanding_def split: if_splits)
next
  case (take_read t k now r S'')
  have "may (ls_store S'') k' \<Longrightarrow> may (ls_store S) k'" "r = Inr v \<Longrightarrow> may (ls_store S) k" for k' v
    using freecache_okD(1,2) [OF assms(2)] read_value_simps(5) [OF take_read(3)] by blast+
  then show ?thesis using take_read read_value_simps [OF take_read(3)]
    by (intro counted_mono [OF assms(4)]) (auto simp: outstanding_def split: if_splits sum.splits)
next
  case (take_delete t k v)
  then show ?thesis using counted_take [OF assms(4,2,3)] by simp
next
  case (nx_read t k v d now r S'')
  have "may (ls_store S'') k' \<Longrightarrow> may (ls_store S) k'" for k'
    using freecache_okD(2) [OF assms(2) read_value_simps(5) [OF nx_read(3)]] .
  then show ?thesis using nx_read read_value_simps [OF nx_read(3)]
    by (intro counted_mono [OF assms(4)]) (auto simp: outstanding_def split: if_splits)
next
  case (nx_set t k v d now)
  then show ?thesis using counted_put [OF assms(4,2)] by simp
next
  case (set t k v d now)
  then show ?thesis using counted_put [OF assms(4,2)] by simp
next
  case (delete t k)
  then show ?thesis using freecache_okD(3) [OF assms(2)]
    by (intro counted_mono [OF assms(4)]) (auto simp: outstanding_def split: if_splits)
next
  case close
  then show ?thesis using freecache_okD(5) [OF assms(2)]
    by (intro counted_mono [OF assms(4)]) (auto simp: outstanding_def split: if_splits)
qed (intro counted_mono [OF assms(4)]; auto simp: outstanding_def split: if_splits)+

lemma local_invariant:
  assumes "local_reachable F opts S" and "freecache_ok F may"
  shows "locks_held S \<and> values_counted may S"
  using assms(1)
proof induction
  case init
  then show ?case using freecache_okD(6) [OF assms(2)]
    by (auto simp: local_start_def new_local_def locks_held_def values_counted_def outstanding_def Let_def)
next
  case (step S S')
  then show ?case using locks_held_step values_counted_step assms(2) by blast
qed

text \<open>C37: However the callers of a local cache interleave, \<open>GetDel\<close> hands out for a key at most as many values as were stored
  under it, over every FreeCache whose entries come from \<open>Set\<close> only and go with \<open>Del\<close>. Expiry and eviction may drop an entry at any time.\<close>

theorem local_value_handed_out_once:
  assumes "local_reachable F opts S" and "freecache_ok F may"
  shows "ls_taken S k \<le> ls_stored S k"
  using local_invariant [OF assms] by (auto simp: values_counted_def dest: spec [of _ k])

text \<open>A FreeCache that keeps every entry: the association of keys and values.\<close>

definition sample_freecache :: "(string \<Rightarrow> string option) freecache" where
  "sample_freecache =
     \<lparr>fc_get = (\<lambda>now k s. ((case s k of None \<Rightarrow> Inl fc_not_found | Some v \<Rightarrow> Inr v), s)),
      fc_set = (\<lambda>now k v n s. (Inr (), s(k := Some v))), fc_del = (\<lambda>k s. s(k := None)),
      fc_clear = (\<lambda>s. (\<lambda>_. None)), fc_new = (\<lambda>n. (\<lambda>_. None)), fc_counts = (\<lambda>s. (0, 0, 0, 0, 0))\<rparr>"

lemma sample_freecache_ok: "freecache_ok sample_freecache (\<lambda>s k. s k \<noteq> None)"
  by (auto simp: freecache_ok_def sample_freecache_def split: if_splits option.splits)

text \<open>Caller 1 stores a value; caller 2 takes it.\<close>

definition sample_hold :: "nat \<Rightarrow> local_op \<Rightarrow> 's local_system \<Rightarrow> 's local_system" where
  "sample_hold t oper S =
     (let S1 = go_to t (Waiting oper) S in
      go_to t (Holding oper) (S1\<lparr>ls_locks := (ls_locks S1)(lock_index (op_key oper) := Some t)\<rparr>))"

lemma sample_hold_reachable:
  assumes "local_reachable F opts S" and "ls_phase S t = Idle" and "oper \<noteq> OpGet (op_key oper)"
    and "ls_locks S (lock_index (op_key oper)) = None"
  shows "local_reachable F opts (sample_hold t oper S)"
proof -
  have "local_reachable F opts (go_to t (Waiting oper) S)"
    using assms(1,2) by (blast intro: local_reachable.step local_step.call)
  then show ?thesis using assms(3,4) unfolding sample_hold_def Let_def
    by (elim local_reachable.step) (intro local_step.lock, simp_all)
qed

definition sample_stored :: "(string \<Rightarrow> string option) local_system" where
  "sample_stored = sample_hold 1 (OpSet ''k'' ''v'' 0) (local_start sample_freecache [])"

definition sample_written :: "(string \<Rightarrow> string option) local_system" where
  "sample_written =
     go_to 1 (Leaving ''k'') (put_value sample_freecache (fst (new_local sample_freecache [])) 0 ''k'' ''v'' 0 sample_stored)"

definition sample_free :: "(string \<Rightarrow> string option) local_system" where
  "sample_free = go_to 1 Idle (sample_written\<lparr>ls_locks := (ls_locks sample_written)(lock_index ''k'' := None)\<rparr>)"

definition sample_taking :: "(string \<Rightarrow> string option) local_system" where
  "sample_taking = go_to 2 (Taking ''k'' ''v'') (sample_hold 2 (OpGetDel ''k'') sample_free)"

definition sample_taken :: "(string \<Rightarrow> string option) local_system" where
  "sample_taken = go_to 2 (Leaving ''k'') (sample_taking\<lparr>ls_store := fc_del sample_freecache ''k'' (ls_store sample_taking),
     ls_taken := (ls_taken sample_taking)(''k'' := Suc (ls_taken sample_taking ''k''))\<rparr>)"

lemmas sample_defs = sample_freecache_def sample_hold_def sample_stored_def sample_written_def sample_free_def sample_taking_def
  sample_taken_def local_start_def new_local_def put_value_def count_stored_def read_value_def Let_def

lemma sample_free_reachable: "local_reachable sample_freecache [] sample_free"
proof -
  have "local_reachable sample_freecache [] sample_stored"
    unfolding sample_stored_def by (intro sample_hold_reachable local_reachable.init) (simp_all add: local_start_def)
  then have "local_reachable sample_freecache [] sample_written"
    unfolding sample_written_def by (elim local_reachable.step) (intro local_step.set, simp add: sample_defs)
  then show ?thesis unfolding sample_free_def
    by (elim local_reachable.step) (intro local_step.unlock, simp add: sample_written_def)
qed

lemma sample_taken_reachable: "local_reachable sample_freecache [] sample_taken"
proof -
  have "local_reachable sample_freecache [] (sample_hold 2 (OpGetDel ''k'') sample_free)"
    by (intro sample_hold_reachable sample_free_reachable) (simp_all add: sample_defs)
  then have "local_reachable sample_freecache [] sample_taking"
    unfolding sample_taking_def
    using local_step.take_read [of "sample_hold 2 (OpGetDel ''k'') sample_free" 2 "''k''" sample_freecache 0 "Inr ''v''"
        "sample_hold 2 (OpGetDel ''k'') sample_free"]
    by (elim local_reachable.step) (simp add: sample_defs)
  then show ?thesis unfolding sample_taken_def
    by (elim local_reachable.step) (intro local_step.take_delete, simp add: sample_taking_def)
qed

lemma sample_taken_counts: "ls_taken sample_taken ''k'' = 1" "ls_stored sample_taken ''k'' = 1"
  by (simp_all add: sample_defs)

lemma local_value_handed_out_once_witness:
  "ls_taken sample_taken ''k'' \<le> ls_stored sample_taken ''k'' \<and> ls_taken sample_taken ''k'' = 1 \<and> ls_stored sample_taken ''k'' = 1"
  using local_value_handed_out_once [OF sample_taken_reachable sample_freecache_ok, of "''k''"] sample_taken_counts by simp

subsection \<open>Lifetimes\<close>

text \<open>A lifetime is rounded up to whole seconds, except near the largest duration, where the sum wraps: FreeCache then sees a
  negative lifetime, which for it is none.\<close>

lemma expire_rounds_up:
  assumes "0 < d" and "d + second - 1 < 2 ^ 63"
  shows "second * (expire_seconds cfg d - 1) < d \<and> d \<le> second * expire_seconds cfg d"
proof -
  have "wrap64 (d + second - 1) = d + second - 1"
    using assms by (simp add: wrap64_def second_def)
  moreover have "0 \<le> d + second - 1" using assms(1) by (simp add: second_def)
  ultimately have sec: "expire_seconds cfg d = (d + second - 1) div second"
    using assms(1) by (simp add: expire_seconds_def signed_divide_int_def second_def)
  define q m where "q = (d + second - 1) div second" and "m = (d + second - 1) mod second"
  have "second * q + m = d + second - 1" by (simp add: q_def m_def)
  moreover have "0 \<le> m" "m < second" by (simp_all add: m_def second_def)
  ultimately show ?thesis unfolding sec q_def [symmetric] right_diff_distrib by auto
qed

lemma longest_lifetime_is_negative: "expire_seconds cfg (2 ^ 63 - 1) < 0"
  by (simp add: expire_seconds_def wrap64_def second_def signed_divide_int_def)

lemma lock_index_bound: "lock_index key < 256"
  by (simp add: lock_index_def word_mod_less_divisor)

end
