(* ===== verification/Broker_Message.thy ===== *)
theory Broker_Message
  imports Go_Base
begin

text \<open>
  The messages of the brokers (broker/message.go), the chains of middlewares (publish.go, event.go), and the typed handlers
  (typed_handler.go, broker.go). A context is the function from its keys to its values, and \<open>fmt.Sprintf\<close> of a value that is not a
  string is the argument \<open>show\<close>. The receivers and contexts are not nil. What a handler changes is passed on as the world.
\<close>

subsection \<open>Values, keys and messages\<close>

text \<open>A value of type \<open>any\<close>. \<open>Other\<close> is one of the types the code does not look at.\<close>

datatype 'v any =
    AnyNil
  | Text string
  | Bytes string
  | Meta "(string \<rightharpoonup> 'v any) option"
  | Other 'v

type_synonym 'v metadata = "(string, 'v any) gomap"
type_synonym headers = "(string, string) gomap"

text \<open>
  A key of a context, with what \<open>formatKey\<close> may ask: its \<open>String\<close> method, the name of its type if that is a struct or a pointer, or
  its print. Keys are compared by their identity \<open>'k\<close>.
\<close>

datatype 'k ctx_key =
    NilKey
  | StringKey string
  | StringerKey 'k string
  | TypeKey 'k string
  | PrintedKey 'k string
  | MetadataKey

type_synonym ('k, 'v) context_values = "'k ctx_key \<Rightarrow> 'v any"

record ('v, 'm) message =
  bm_id :: string
  bm_headers :: headers
  bm_body :: "'v any"
  bm_key :: string
  bm_metadata :: "'v metadata"
  bm_partition :: int
  bm_offset :: int
  bm_msg :: "'m option"

text \<open>Storing into a field that is made first if it is nil.\<close>

definition put_made :: "('k, 'a) gomap \<Rightarrow> 'k \<Rightarrow> 'a \<Rightarrow> ('k, 'a) gomap" where
  "put_made m k v = Some ((case m of None \<Rightarrow> Map.empty | Some f \<Rightarrow> f)(k \<mapsto> v))"

subsection \<open>Headers and metadata\<close>

definition set_header :: "string \<Rightarrow> string \<Rightarrow> ('v, 'm) message \<Rightarrow> ('v, 'm) message" where
  "set_header k v m = m\<lparr>bm_headers := put_made (bm_headers m) k v\<rparr>"

definition message_with_header :: "string \<Rightarrow> string \<Rightarrow> ('v, 'm) message \<Rightarrow> ('v, 'm) message" where
  "message_with_header k v m = set_header k v m"

definition get_header :: "string \<Rightarrow> ('v, 'm) message \<Rightarrow> string" where
  "get_header k m = (case gm_get (bm_headers m) k of None \<Rightarrow> [] | Some v \<Rightarrow> v)"

definition copy_map :: "('k, 'a) gomap \<Rightarrow> ('k, 'a) gomap" where
  "copy_map m = (case m of None \<Rightarrow> None | Some f \<Rightarrow> Some f)"

definition headers_copy :: "('v, 'm) message \<Rightarrow> headers" where
  "headers_copy m = copy_map (bm_headers m)"

text \<open>The entries of a map come in the order in which Go visits it, as a list.\<close>

definition merge_headers :: "(string \<times> string) list option \<Rightarrow> ('v, 'm) message \<Rightarrow> ('v, 'm) message" where
  "merge_headers hdrs m = (case hdrs of None \<Rightarrow> m | Some kvs \<Rightarrow> fold (\<lambda>(k, v). set_header k v) kvs m)"

definition set_metadata :: "string \<Rightarrow> 'v any \<Rightarrow> ('v, 'm) message \<Rightarrow> ('v, 'm) message" where
  "set_metadata k v m = m\<lparr>bm_metadata := put_made (bm_metadata m) k v\<rparr>"

definition message_with_metadata :: "string \<Rightarrow> 'v any \<Rightarrow> ('v, 'm) message \<Rightarrow> ('v, 'm) message" where
  "message_with_metadata k v m = set_metadata k v m"

definition metadata_copy :: "('v, 'm) message \<Rightarrow> 'v metadata" where
  "metadata_copy m = copy_map (bm_metadata m)"

definition get_metadata :: "string \<Rightarrow> ('v, 'm) message \<Rightarrow> 'v any" where
  "get_metadata k m = (case gm_get (bm_metadata m) k of None \<Rightarrow> AnyNil | Some v \<Rightarrow> v)"

definition set_delay :: "string \<Rightarrow> ('v, 'm) message \<Rightarrow> ('v, 'm) message" where
  "set_delay level m = set_metadata ''x-delay-level'' (Text level) m"

definition message_clone :: "('v, 'm) message \<Rightarrow> ('v, 'm) message" where
  "message_clone m =
     \<lparr>bm_id = bm_id m, bm_headers = headers_copy m, bm_body = bm_body m, bm_key = bm_key m, bm_metadata = metadata_copy m,
      bm_partition = bm_partition m, bm_offset = bm_offset m, bm_msg = bm_msg m\<rparr>"

text \<open>\<open>ack_of\<close> is the \<open>Ack\<close> method of the raw message, if its type has one.\<close>

definition ack_success :: "('m \<Rightarrow> 'w \<Rightarrow> (unit res \<times> 'w) option) \<Rightarrow> ('v, 'm) message \<Rightarrow> 'w \<Rightarrow> unit res \<times> 'w" where
  "ack_success ack_of m w =
     (case bm_msg m of
        None \<Rightarrow> (Inr (), w)
      | Some raw \<Rightarrow> (case ack_of raw w of None \<Rightarrow> (Inr (), w) | Some rw \<Rightarrow> rw))"

definition body_bytes :: "('v, 'm) message \<Rightarrow> string option" where
  "body_bytes m = (case bm_body m of Bytes b \<Rightarrow> Some b | _ \<Rightarrow> None)"

definition with_body :: "'v any \<Rightarrow> ('v, 'm) message \<Rightarrow> ('v, 'm) message" where "with_body b m = m\<lparr>bm_body := b\<rparr>"
definition message_with_key :: "string \<Rightarrow> ('v, 'm) message \<Rightarrow> ('v, 'm) message" where "message_with_key k m = m\<lparr>bm_key := k\<rparr>"

subsection \<open>Contexts\<close>

definition with_value :: "('k, 'v) context_values \<Rightarrow> 'k ctx_key \<Rightarrow> 'v any \<Rightarrow> ('k, 'v) context_values res" where
  "with_value ctx k v = (if k = NilKey then Inl (Panic ''nil key'') else Inr (ctx(k := v)))"

definition extract_context :: "('v, 'm) message \<Rightarrow> ('k, 'v) context_values \<Rightarrow> ('k, 'v) context_values" where
  "extract_context m ctx = (if bm_metadata m = None then ctx else ctx(MetadataKey := Meta (bm_metadata m)))"

definition get_metadata_from_context :: "('k, 'v) context_values \<Rightarrow> 'v metadata" where
  "get_metadata_from_context ctx = (case ctx MetadataKey of Meta md \<Rightarrow> md | _ \<Rightarrow> None)"

fun format_key :: "'k ctx_key \<Rightarrow> string" where
  "format_key NilKey = []"
| "format_key (StringKey s) = s"
| "format_key (StringerKey k s) = s"
| "format_key (TypeKey k s) = s"
| "format_key (PrintedKey k s) = s"
| "format_key MetadataKey = ''broker.metadataKey''"

definition show_value :: "('v any \<Rightarrow> string) \<Rightarrow> 'v any \<Rightarrow> string" where
  "show_value show v = (case v of Text s \<Rightarrow> s | _ \<Rightarrow> show v)"

definition inject_context ::
    "('v any \<Rightarrow> string) \<Rightarrow> ('k, 'v) context_values \<Rightarrow> 'k ctx_key list \<Rightarrow> ('v, 'm) message \<Rightarrow> ('v, 'm) message" where
  "inject_context show ctx keys m =
     fold (\<lambda>k m. if ctx k \<noteq> AnyNil then set_header (format_key k) (show_value show (ctx k)) m else m) keys m"

text \<open>The pairs of the mapping come in the order in which Go visits it.\<close>

fun extract_to_context ::
    "('v, 'm) message \<Rightarrow> (string \<times> 'k ctx_key) list \<Rightarrow> ('k, 'v) context_values \<Rightarrow> ('k, 'v) context_values res" where
  "extract_to_context m [] ctx = Inr ctx"
| "extract_to_context m ((h, c) # pairs) ctx =
     (if get_header h m \<noteq> [] then res_bind (with_value ctx c (Text (get_header h m))) (extract_to_context m pairs)
      else extract_to_context m pairs ctx)"

subsection \<open>New messages\<close>

type_synonym ('v, 'm) message_option = "('v, 'm) message \<Rightarrow> ('v, 'm) message"

definition new_message :: "'v any \<Rightarrow> ('v, 'm) message_option option list \<Rightarrow> ('v, 'm) message" where
  "new_message body opts =
     fold (\<lambda>opt m. case opt of None \<Rightarrow> m | Some f \<Rightarrow> f m) opts
       \<lparr>bm_id = [], bm_headers = Some Map.empty, bm_body = body, bm_key = [], bm_metadata = Some Map.empty,
        bm_partition = - 1, bm_offset = - 1, bm_msg = None\<rparr>"

definition new_message_with_context ::
    "('v any \<Rightarrow> string) \<Rightarrow> ('k, 'v) context_values \<Rightarrow> 'v any \<Rightarrow> 'k ctx_key list \<Rightarrow> ('v, 'm) message" where
  "new_message_with_context show ctx body keys = inject_context show ctx keys (new_message body [])"

definition with_id :: "string \<Rightarrow> ('v, 'm) message_option" where "with_id i m = m\<lparr>bm_id := i\<rparr>"
definition with_key :: "string \<Rightarrow> ('v, 'm) message_option" where "with_key k m = m\<lparr>bm_key := k\<rparr>"
definition with_msg :: "'m option \<Rightarrow> ('v, 'm) message_option" where "with_msg raw m = m\<lparr>bm_msg := raw\<rparr>"

definition with_partition_offset :: "int \<Rightarrow> int \<Rightarrow> ('v, 'm) message_option" where
  "with_partition_offset p off m = m\<lparr>bm_partition := p, bm_offset := off\<rparr>"

text \<open>Go visits the given map in some order, here a list.\<close>

definition put_all :: "('k, 'a) gomap \<Rightarrow> ('k \<times> 'a) list \<Rightarrow> ('k, 'a) gomap" where
  "put_all m kvs = fold (\<lambda>(k, v) m. put_made m k v) kvs (Some (case m of None \<Rightarrow> Map.empty | Some f \<Rightarrow> f))"

definition with_headers :: "(string \<times> string) list option \<Rightarrow> ('v, 'm) message_option" where
  "with_headers h m = (case h of None \<Rightarrow> m | Some kvs \<Rightarrow> m\<lparr>bm_headers := put_all (bm_headers m) kvs\<rparr>)"

definition with_header :: "string \<Rightarrow> string \<Rightarrow> ('v, 'm) message_option" where
  "with_header k v m = set_header k v m"

definition with_metadata :: "(string \<times> 'v any) list option \<Rightarrow> ('v, 'm) message_option" where
  "with_metadata md m = (case md of None \<Rightarrow> m | Some kvs \<Rightarrow> m\<lparr>bm_metadata := put_all (bm_metadata m) kvs\<rparr>)"

definition with_metadata_kv :: "string \<Rightarrow> 'v any \<Rightarrow> ('v, 'm) message_option" where
  "with_metadata_kv k v m = set_metadata k v m"

subsection \<open>Chains of middlewares\<close>

text \<open>The loop counts \<open>i\<close> down from the length; an entry may be nil.\<close>

fun chain_loop :: "('h \<Rightarrow> 'h) option list \<Rightarrow> nat \<Rightarrow> 'h \<Rightarrow> 'h" where
  "chain_loop mws 0 h = h"
| "chain_loop mws (Suc i) h = chain_loop mws i (case mws ! i of None \<Rightarrow> h | Some mw \<Rightarrow> mw h)"

definition chain_publish_middleware :: "'h \<Rightarrow> ('h \<Rightarrow> 'h) option list \<Rightarrow> 'h" where
  "chain_publish_middleware h mws = (if length mws = 0 then h else chain_loop mws (length mws) h)"

definition chain_subscriber_middleware :: "'h \<Rightarrow> ('h \<Rightarrow> 'h) option list \<Rightarrow> 'h" where
  "chain_subscriber_middleware h mws = (if length mws = 0 then h else chain_loop mws (length mws) h)"

text \<open>A legacy handler gets the raw message, or the body if there is none; \<open>raw\<close> makes an \<open>any\<close> of a raw message.\<close>

definition wrap_legacy_publish_handler ::
    "('m \<Rightarrow> 'v any) \<Rightarrow> (string \<Rightarrow> 'v any \<Rightarrow> 'o \<Rightarrow> 'w \<Rightarrow> unit res \<times> 'w)
     \<Rightarrow> string \<Rightarrow> ('v, 'm) message option \<Rightarrow> 'o \<Rightarrow> 'w \<Rightarrow> unit res \<times> 'w" where
  "wrap_legacy_publish_handler raw h topic msg opts =
     h topic (case msg of None \<Rightarrow> AnyNil | Some m \<Rightarrow> (case bm_msg m of Some r \<Rightarrow> raw r | None \<Rightarrow> bm_body m)) opts"

subsection \<open>Typed handlers\<close>

text \<open>What a body is for a handler of \<open>*T\<close>: a pointer to \<open>T\<close>, which may be nil, a \<open>T\<close>, or something of another type.\<close>

datatype 't typed = PointerTo "'t option" | ValueOf 't | OfType string

record ('v, 'm) event =
  ev_topic :: string
  ev_message :: "('v, 'm) message option"

definition typed_to_event_handler ::
    "string \<Rightarrow> ('v any \<Rightarrow> 't typed) \<Rightarrow> (string \<Rightarrow> headers \<Rightarrow> 't option \<Rightarrow> 'w \<Rightarrow> unit res \<times> 'w)
     \<Rightarrow> ('v, 'm) event option \<Rightarrow> 'w \<Rightarrow> unit res \<times> 'w" where
  "typed_to_event_handler expected body_as h evt w =
     (case evt of
        None \<Rightarrow> (Inl (NewErr ''evt is nil''), w)
      | Some ev \<Rightarrow>
          (case ev_message ev of
             None \<Rightarrow> (Inl (NewErr ''event message or body is nil''), w)
           | Some m \<Rightarrow>
               if bm_body m = AnyNil then (Inl (NewErr ''event message or body is nil''), w)
               else (case body_as (bm_body m) of
                       PointerTo p \<Rightarrow> h (ev_topic ev) (bm_headers m) p w
                     | ValueOf x \<Rightarrow> h (ev_topic ev) (bm_headers m) (Some x) w
                     | OfType t \<Rightarrow> (Inl (NewErr (''unsupported body type: expected '' @ expected @ '', got '' @ t)), w))))"

text \<open>The handler that \<open>Subscribe\<close> registers for a typed handler.\<close>

definition typed_subscribe_handler ::
    "string \<Rightarrow> ('v any \<Rightarrow> 't typed) \<Rightarrow> (string \<Rightarrow> headers \<Rightarrow> 't option \<Rightarrow> 'w \<Rightarrow> unit res \<times> 'w)
     \<Rightarrow> ('v, 'm) event option \<Rightarrow> 'w \<Rightarrow> unit res \<times> 'w" where
  "typed_subscribe_handler expected body_as h evt w =
     (case evt of
        None \<Rightarrow> (Inl (NewErr ''event or message body is nil''), w)
      | Some ev \<Rightarrow>
          (case ev_message ev of
             None \<Rightarrow> (Inl (NewErr ''event or message body is nil''), w)
           | Some m \<Rightarrow>
               if bm_body m = AnyNil then (Inl (NewErr ''event or message body is nil''), w)
               else (case body_as (bm_body m) of
                       PointerTo p \<Rightarrow> h (ev_topic ev) (bm_headers m) p w
                     | ValueOf x \<Rightarrow> h (ev_topic ev) (bm_headers m) (Some x) w
                     | OfType t \<Rightarrow> (Inl (NewErr (''unsupported type: expected '' @ expected @ '', got '' @ t)), w))))"

definition request_unsupported :: "string \<Rightarrow> 'a res" where
  "request_unsupported topic = Inl (WrapErr topic (Sentinel ''broker: request is unsupported''))"

subsection \<open>What they promise\<close>

lemma chain_loop_foldr:
  "i \<le> length mws \<Longrightarrow> chain_loop mws i h = foldr (\<lambda>mw h. case mw of None \<Rightarrow> h | Some f \<Rightarrow> f h) (take i mws) h"
  by (induction i arbitrary: h) (simp_all add: take_Suc_conv_app_nth)

lemma chain_is_composition:
  "chain_publish_middleware h mws = foldr (\<lambda>f. f) (map the (filter (\<lambda>mw. mw \<noteq> None) mws)) h"
  "chain_subscriber_middleware h mws = foldr (\<lambda>f. f) (map the (filter (\<lambda>mw. mw \<noteq> None) mws)) h"
proof -
  have "foldr (\<lambda>mw h. case mw of None \<Rightarrow> h | Some f \<Rightarrow> f h) mws h = foldr (\<lambda>f. f) (map the (filter (\<lambda>mw. mw \<noteq> None) mws)) h"
    by (induction mws) (auto split: option.splits)
  then show "chain_publish_middleware h mws = foldr (\<lambda>f. f) (map the (filter (\<lambda>mw. mw \<noteq> None) mws)) h"
    "chain_subscriber_middleware h mws = foldr (\<lambda>f. f) (map the (filter (\<lambda>mw. mw \<noteq> None) mws)) h"
    by (simp_all add: chain_publish_middleware_def chain_subscriber_middleware_def chain_loop_foldr)
qed

lemma message_clone_same: "message_clone m = m"
  by (cases m) (simp add: message_clone_def headers_copy_def metadata_copy_def copy_map_def split: option.splits)

lemma get_set_header [simp]: "get_header k (set_header k' v m) = (if k = k' then v else get_header k m)"
  by (simp add: get_header_def set_header_def put_made_def gm_get_def split: option.splits)

lemma get_metadata_from_extract: "bm_metadata m \<noteq> None \<Longrightarrow> get_metadata_from_context (extract_context m ctx) = bm_metadata m"
  by (auto simp: get_metadata_from_context_def extract_context_def)

text \<open>What a key's header is after an injection, if no other key has the same name.\<close>

lemma get_injected_other:
  "\<forall>k \<in> set keys. format_key k \<noteq> h \<Longrightarrow> get_header h (inject_context show ctx keys m) = get_header h m"
  by (induction keys arbitrary: m) (auto simp: inject_context_def)

lemma get_injected:
  assumes "k \<in> set keys" and "inj_on format_key (set keys)" and "ctx k \<noteq> AnyNil"
  shows "get_header (format_key k) (inject_context show ctx keys m) = show_value show (ctx k)"
  using assms(1,2)
proof (induction keys arbitrary: m)
  case (Cons k' keys)
  have step: "inject_context show ctx (k' # keys) m =
      inject_context show ctx keys (if ctx k' \<noteq> AnyNil then set_header (format_key k') (show_value show (ctx k')) m else m)"
    by (simp add: inject_context_def)
  show ?case
  proof (cases "k \<in> set keys")
    case True
    then show ?thesis using Cons step by simp
  next
    case False
    then have "k' = k" and "\<forall>j \<in> set keys. format_key j \<noteq> format_key k"
      using Cons.prems by (auto simp: inj_on_def)
    then show ?thesis using assms(3) step by (simp add: get_injected_other)
  qed
qed simp

lemma extract_each:
  assumes "distinct (map snd pairs)" and "NilKey \<notin> set (map snd pairs)"
  shows "\<exists>ctx'. extract_to_context m pairs ctx = Inr ctx' \<and>
    (\<forall>(h, c) \<in> set pairs. ctx' c = (if get_header h m = [] then ctx c else Text (get_header h m))) \<and>
    (\<forall>c. c \<notin> set (map snd pairs) \<longrightarrow> ctx' c = ctx c)"
  using assms
proof (induction pairs arbitrary: ctx)
  case (Cons p pairs)
  obtain h c where p [simp]: "p = (h, c)" by fastforce
  let ?ctx = "if get_header h m = [] then ctx else ctx(c := Text (get_header h m))"
  have fresh: "c \<notin> set (map snd pairs)" "c \<noteq> NilKey" using Cons.prems by auto
  obtain ctx' where ctx': "extract_to_context m pairs ?ctx = Inr ctx'"
      "\<forall>(h, c) \<in> set pairs. ctx' c = (if get_header h m = [] then ?ctx c else Text (get_header h m))"
      "\<forall>c. c \<notin> set (map snd pairs) \<longrightarrow> ctx' c = ?ctx c"
    using Cons.IH [of ?ctx] Cons.prems by auto
  have "extract_to_context m (p # pairs) ctx = Inr ctx'"
    using ctx'(1) fresh by (simp add: with_value_def split: if_splits)
  moreover have "ctx' c = (if get_header h m = [] then ctx c else Text (get_header h m))"
    using ctx'(3) fresh by simp
  moreover have "\<forall>(h, c') \<in> set pairs. ctx' c' = (if get_header h m = [] then ctx c' else Text (get_header h m))"
    using ctx'(2) fresh by (force split: if_splits)
  moreover have "\<forall>c'. c' \<notin> set (map snd (p # pairs)) \<longrightarrow> ctx' c' = ctx c'"
    using ctx'(3) by simp
  ultimately show ?case by auto
qed simp

text \<open>Context values that a message carries arrive. If the keys have different names, and the receiver maps the name of each key to
  that key again, extracting after injecting gives every key the print of the value the sender's context had, unless that is empty.\<close>

theorem context_travels_in_headers:
  assumes "distinct keys" and "inj_on format_key (set keys)" and "NilKey \<notin> set keys"
    and "\<forall>k \<in> set keys. ctx k \<noteq> AnyNil \<and> show_value show (ctx k) \<noteq> []"
  shows "\<exists>ctx'. extract_to_context (new_message_with_context show ctx body keys :: ('v, 'm) message) (map (\<lambda>k. (format_key k, k)) keys) base = Inr ctx' \<and>
    (\<forall>k \<in> set keys. ctx' k = Text (show_value show (ctx k))) \<and> (\<forall>k. k \<notin> set keys \<longrightarrow> ctx' k = base k)"
proof -
  let ?m = "new_message_with_context show ctx body keys :: ('v, 'm) message" and ?pairs = "map (\<lambda>k. (format_key k, k)) keys"
  have names: "get_header (format_key k) ?m = show_value show (ctx k)" if "k \<in> set keys" for k
    using assms(4) that by (simp add: new_message_with_context_def get_injected [OF that assms(2)])
  obtain ctx' where ctx': "extract_to_context ?m ?pairs base = Inr ctx'"
      "\<forall>(h, c) \<in> set ?pairs. ctx' c = (if get_header h ?m = [] then base c else Text (get_header h ?m))"
      "\<forall>c. c \<notin> set (map snd ?pairs) \<longrightarrow> ctx' c = base c"
    using extract_each [of ?pairs ?m base] assms(1,3) by (auto simp: comp_def)
  then show ?thesis using names assms(4) by (intro exI [of _ ctx']) auto
qed

definition sample_keys :: "nat ctx_key list" where "sample_keys = [TypeKey 7 ''tenant'', StringKey ''trace'']"

definition sample_context :: "(nat, nat) context_values" where
  "sample_context = (\<lambda>k. if k = TypeKey 7 ''tenant'' then Text ''acme'' else if k = StringKey ''trace'' then Other 1 else AnyNil)"

lemma context_travels_in_headers_witness:
  "\<exists>ctx'. extract_to_context (new_message_with_context (\<lambda>_. ''?'') sample_context AnyNil sample_keys :: (nat, unit) message)
      (map (\<lambda>k. (format_key k, k)) sample_keys) (\<lambda>_. AnyNil) = Inr ctx' \<and>
    ctx' (TypeKey 7 ''tenant'') = Text ''acme'' \<and> ctx' (StringKey ''trace'') = Text ''?'' \<and> ctx' (StringKey ''other'') = AnyNil"
proof -
  have hyps: "distinct sample_keys" "inj_on format_key (set sample_keys)" "NilKey \<notin> set sample_keys"
      "\<forall>k \<in> set sample_keys. sample_context k \<noteq> AnyNil \<and> show_value (\<lambda>_. ''?'') (sample_context k) \<noteq> []"
    by (simp_all add: sample_keys_def sample_context_def show_value_def)
  obtain ctx' where ctx': "extract_to_context (new_message_with_context (\<lambda>_. ''?'') sample_context AnyNil sample_keys :: (nat, unit) message)
      (map (\<lambda>k. (format_key k, k)) sample_keys) (\<lambda>_. AnyNil) = Inr ctx'"
      "\<forall>k \<in> set sample_keys. ctx' k = Text (show_value (\<lambda>_. ''?'') (sample_context k))" "\<forall>k. k \<notin> set sample_keys \<longrightarrow> ctx' k = AnyNil"
    using context_travels_in_headers [OF hyps, of AnyNil "\<lambda>_. AnyNil"] by auto
  have "ctx' (TypeKey 7 ''tenant'') = Text ''acme''" "ctx' (StringKey ''trace'') = Text ''?''" "ctx' (StringKey ''other'') = AnyNil"
    using ctx'(2,3) by (simp_all add: sample_keys_def sample_context_def show_value_def)
  with ctx'(1) show ?thesis by blast
qed

text \<open>Two keys that are different but print alike share a header: the one injected later wins.\<close>

lemma keys_of_one_type_collide:
  assumes "ctx (TypeKey a t) = Text x" and "ctx (TypeKey b t) = Text y"
  shows "get_header t (inject_context show ctx [TypeKey a t, TypeKey b t] m) = y"
  using assms by (simp add: inject_context_def show_value_def)

end
