(* ===== verification/Broker_Subscribers.thy ===== *)
theory Broker_Subscribers
  imports Go_Base "HOL-Library.Multiset"
begin

text \<open>
  The registry of subscribers (broker/subscriber.go). What an operation does under the mutex is one step; the calls of \<open>Unsubscribe\<close>
  come after it, and other operations may come in between. A subscriber is a value of \<open>'s\<close>, and the results its \<open>Unsubscribe\<close> gives
  are arguments. A result that lists topics is a set, as Go visits a map in no order.
\<close>

type_synonym 's subscriber_map = "string \<rightharpoonup> 's"

subsection \<open>The operations\<close>

definition new_subscriber_sync_map :: "'s subscriber_map" where "new_subscriber_sync_map = Map.empty"
definition sm_topics :: "'s subscriber_map \<Rightarrow> string set" where "sm_topics m = dom m"
definition sm_len :: "'s subscriber_map \<Rightarrow> nat" where "sm_len m = card (dom m)"
definition sm_get :: "string \<Rightarrow> 's subscriber_map \<Rightarrow> 's option" where "sm_get topic m = m topic"
definition sm_get_all :: "'s subscriber_map \<Rightarrow> 's subscriber_map" where "sm_get_all m = m"
definition sm_has :: "string \<Rightarrow> 's subscriber_map \<Rightarrow> bool" where "sm_has topic m = (m topic \<noteq> None)"
definition sm_add :: "string \<Rightarrow> 's \<Rightarrow> 's subscriber_map \<Rightarrow> 's subscriber_map" where "sm_add topic sub m = m(topic \<mapsto> sub)"

text \<open>An operation that takes subscribers out returns the calls it will make, with the argument of \<open>Unsubscribe\<close>.\<close>

definition take_out :: "string \<Rightarrow> 's subscriber_map \<Rightarrow> 's option \<times> 's subscriber_map" where
  "take_out topic m = (m topic, m(topic := None))"

definition topic_not_found :: "string \<Rightarrow> go_err" where
  "topic_not_found topic = NewErr (''topic['' @ topic @ ''] not found'')"

definition sm_remove :: "string \<Rightarrow> ('s \<Rightarrow> bool \<Rightarrow> unit res) \<Rightarrow> 's subscriber_map \<Rightarrow> unit res \<times> 's subscriber_map" where
  "sm_remove topic unsubscribe m =
     (case take_out topic m of
        (None, m') \<Rightarrow> (Inl (topic_not_found topic), m)
      | (Some sub, m') \<Rightarrow> (unsubscribe sub True, m'))"

definition sm_remove_only :: "string \<Rightarrow> 's subscriber_map \<Rightarrow> bool \<times> 's subscriber_map" where
  "sm_remove_only topic m = (if m topic \<noteq> None then (True, m(topic := None)) else (False, m))"

definition sm_clear :: "'s subscriber_map \<Rightarrow> ('s \<times> bool) multiset \<times> 's subscriber_map" where
  "sm_clear m = ({# (the (m t), False). t \<in># mset_set (dom m) #}, Map.empty)"

definition sm_force_clear :: "'s subscriber_map \<Rightarrow> 's subscriber_map" where "sm_force_clear m = Map.empty"

text \<open>\<open>unsubscribe\<close> gives \<open>None\<close> if the timer is first.\<close>

definition sm_remove_with_timeout ::
    "string \<Rightarrow> string \<Rightarrow> ('s \<Rightarrow> bool \<Rightarrow> unit res option) \<Rightarrow> 's subscriber_map \<Rightarrow> unit res \<times> 's subscriber_map" where
  "sm_remove_with_timeout topic timeout unsubscribe m =
     (case take_out topic m of
        (None, m') \<Rightarrow> (Inl (topic_not_found topic), m)
      | (Some sub, m') \<Rightarrow>
          ((case unsubscribe sub True of
              Some r \<Rightarrow> r
            | None \<Rightarrow> Inl (NewErr (''unsubscribe topic['' @ topic @ ''] timeout after '' @ timeout))), m'))"

definition sm_clear_with_timeout ::
    "(string \<Rightarrow> 's \<Rightarrow> unit res option) \<Rightarrow> 's subscriber_map \<Rightarrow> string set \<times> 's subscriber_map" where
  "sm_clear_with_timeout unsubscribe m = ({t. \<exists>s. m t = Some s \<and> unsubscribe t s = None}, Map.empty)"

definition sm_foreach :: "(string \<Rightarrow> 's \<Rightarrow> 'w \<Rightarrow> 'w) \<Rightarrow> (string \<times> 's) list \<Rightarrow> 'w \<Rightarrow> 'w" where
  "sm_foreach fnc entries w = fold (\<lambda>(t, s). fnc t s) entries w"

subsection \<open>Overlapping operations\<close>

text \<open>
  \<open>rg_calls\<close> are the calls of \<open>Unsubscribe\<close> that the operations under way still have to make. \<open>rg_added\<close> and \<open>rg_made\<close> count, per
  subscriber, how often it was added and its \<open>Unsubscribe\<close> called. A step \<open>remove\<close> is of \<open>Remove\<close> and \<open>RemoveWithTimeout\<close>, a step
  \<open>clear\<close> of \<open>Clear\<close> and \<open>ClearWithTimeout\<close>; the \<open>RemoveOnly\<close> inside a subscriber's own \<open>Unsubscribe\<close> is one of the steps \<open>remove_only\<close>.
\<close>

record 's registry_state =
  rg_map :: "'s subscriber_map"
  rg_calls :: "('s \<times> bool) multiset"
  rg_added :: "'s \<Rightarrow> nat"
  rg_made :: "'s \<Rightarrow> nat"

inductive registry_step :: "'s registry_state \<Rightarrow> 's registry_state \<Rightarrow> bool" for S where
  add: "registry_step S (S\<lparr>rg_map := sm_add topic sub (rg_map S), rg_added := (rg_added S)(sub := Suc (rg_added S sub))\<rparr>)"
| remove: "take_out topic (rg_map S) = (Some sub, m) \<Longrightarrow>
    registry_step S (S\<lparr>rg_map := m, rg_calls := add_mset (sub, True) (rg_calls S)\<rparr>)"
| remove_only: "registry_step S (S\<lparr>rg_map := snd (sm_remove_only topic (rg_map S))\<rparr>)"
| clear: "sm_clear (rg_map S) = (calls, m) \<Longrightarrow> registry_step S (S\<lparr>rg_map := m, rg_calls := rg_calls S + calls\<rparr>)"
| force_clear: "registry_step S (S\<lparr>rg_map := sm_force_clear (rg_map S)\<rparr>)"
| unsubscribe: "(sub, flag) \<in># rg_calls S \<Longrightarrow>
    registry_step S (S\<lparr>rg_calls := rg_calls S - {#(sub, flag)#}, rg_made := (rg_made S)(sub := Suc (rg_made S sub))\<rparr>)"

definition registry_start :: "'s registry_state" where
  "registry_start = \<lparr>rg_map = new_subscriber_sync_map, rg_calls = {#}, rg_added = (\<lambda>_. 0), rg_made = (\<lambda>_. 0)\<rparr>"

inductive registry_reachable :: "'s registry_state \<Rightarrow> bool" where
  init: "registry_reachable registry_start"
| step: "registry_reachable S \<Longrightarrow> registry_step S S' \<Longrightarrow> registry_reachable S'"

subsection \<open>No subscriber is unsubscribed more often than it was added\<close>

definition topics_of :: "'s \<Rightarrow> 's subscriber_map \<Rightarrow> string set" where
  "topics_of sub m = {t. m t = Some sub}"

definition calls_of :: "'s \<Rightarrow> ('s \<times> bool) multiset \<Rightarrow> nat" where
  "calls_of sub calls = count (image_mset fst calls) sub"

definition registry_inv :: "'s registry_state \<Rightarrow> bool" where
  "registry_inv S \<longleftrightarrow> finite (dom (rg_map S)) \<and>
     (\<forall>sub. card (topics_of sub (rg_map S)) + calls_of sub (rg_calls S) + rg_made S sub \<le> rg_added S sub)"

lemma topics_of_finite: "finite (dom m) \<Longrightarrow> finite (topics_of sub m)"
  by (rule finite_subset [of _ "dom m"]) (auto simp: topics_of_def)

lemma topics_of_upd: "topics_of s (m(t \<mapsto> s')) \<subseteq> (if s = s' then insert t (topics_of s m) else topics_of s m)"
  by (auto simp: topics_of_def split: if_splits)

lemma card_topics_add:
  assumes "finite (dom m)"
  shows "card (topics_of s (m(t \<mapsto> s'))) \<le> card (topics_of s m) + (if s = s' then 1 else 0)"
proof -
  let ?T = "if s = s' then insert t (topics_of s m) else topics_of s m"
  have "card (topics_of s (m(t \<mapsto> s'))) \<le> card ?T"
    using topics_of_finite [OF assms, of s] topics_of_finite [OF assms, of s'] by (intro card_mono topics_of_upd) simp
  also have "\<dots> \<le> card (topics_of s m) + (if s = s' then 1 else 0)"
    using topics_of_finite [OF assms] by (simp add: card_insert_if)
  finally show ?thesis .
qed

lemma card_topics_remove:
  assumes "finite (dom m)"
  shows "card (topics_of s (m(t := None))) + (if m t = Some s then 1 else 0) = card (topics_of s m)"
proof -
  have "topics_of s (m(t := None)) = topics_of s m - {t}" by (auto simp: topics_of_def)
  moreover have "t \<in> topics_of s m \<longleftrightarrow> m t = Some s" by (simp add: topics_of_def)
  moreover have "t \<in> topics_of s m \<Longrightarrow> 0 < card (topics_of s m)"
    using topics_of_finite [OF assms, of s] by (auto simp: card_gt_0_iff)
  ultimately show ?thesis by (auto simp: card_Diff_singleton_if)
qed

lemma count_image_of_set:
  "finite A \<Longrightarrow> count (image_mset f (mset_set A)) s = card {t \<in> A. f t = s}"
proof (induction A rule: finite_induct)
  case (insert t A)
  have "{x \<in> insert t A. f x = s} = (if f t = s then insert t {x \<in> A. f x = s} else {x \<in> A. f x = s})" by auto
  then show ?case using insert by (simp add: card_insert_if)
qed simp

lemma calls_of_clear:
  assumes "finite (dom m)"
  shows "calls_of s (fst (sm_clear m)) = card (topics_of s m)"
proof -
  have "{t \<in> dom m. the (m t) = s} = topics_of s m" by (auto simp: topics_of_def)
  then show ?thesis
    using count_image_of_set [OF assms, of "\<lambda>t. the (m t)" s] by (simp add: calls_of_def sm_clear_def multiset.map_comp comp_def)
qed

lemma calls_of_simps [simp]:
  "calls_of s (add_mset (s', b) calls) = (if s = s' then 1 else 0) + calls_of s calls"
  "calls_of s (calls + calls') = calls_of s calls + calls_of s calls'"
  "calls_of s {#} = 0"
  by (auto simp: calls_of_def)

lemma registry_invI:
  assumes "finite (dom (rg_map S))"
    and "\<And>s. card (topics_of s (rg_map S)) + calls_of s (rg_calls S) + rg_made S s \<le> rg_added S s"
  shows "registry_inv S"
  using assms by (simp add: registry_inv_def)

lemma registry_inv_step:
  assumes "registry_step S S'" and "registry_inv S"
  shows "registry_inv S'"
proof (rule registry_invI)
  show "finite (dom (rg_map S'))" using assms
    by (auto simp: registry_inv_def sm_add_def take_out_def sm_remove_only_def sm_clear_def sm_force_clear_def elim!: registry_step.cases)
next
  fix s
  have fin: "finite (dom (rg_map S))"
    and inv: "card (topics_of s (rg_map S)) + calls_of s (rg_calls S) + rg_made S s \<le> rg_added S s"
    using assms(2) by (simp_all add: registry_inv_def)
  have out: "card (topics_of s ((rg_map S)(t := None))) + (if rg_map S t = Some s then 1 else 0) = card (topics_of s (rg_map S))" for t
    by (rule card_topics_remove [OF fin])
  show "card (topics_of s (rg_map S')) + calls_of s (rg_calls S') + rg_made S' s \<le> rg_added S' s"
    using assms(1)
  proof (cases rule: registry_step.cases)
    case (add sub topic)
    then show ?thesis using inv card_topics_add [OF fin, of s topic sub] by (auto simp: sm_add_def split: if_splits)
  next
    case (remove topic sub m)
    then show ?thesis using inv out [of topic] by (auto simp: take_out_def split: if_splits)
  next
    case (remove_only topic)
    then show ?thesis using inv out [of topic] by (auto simp: sm_remove_only_def split: if_splits)
  next
    case (clear calls m)
    then show ?thesis using inv calls_of_clear [OF fin, of s] by (auto simp: sm_clear_def topics_of_def)
  next
    case force_clear
    then show ?thesis using inv by (auto simp: sm_force_clear_def topics_of_def)
  next
    case (unsubscribe sub flag)
    have "calls_of s (rg_calls S - {#(sub, flag)#}) + (if s = sub then 1 else 0) = calls_of s (rg_calls S)"
      using unsubscribe(2) calls_of_simps(1) [of s sub flag "rg_calls S - {#(sub, flag)#}"] by simp
    then show ?thesis using unsubscribe inv by (auto split: if_splits)
  qed
qed

lemma registry_reachable_inv: "registry_reachable S \<Longrightarrow> registry_inv S"
proof (induction rule: registry_reachable.induct)
  case init
  show ?case by (simp add: registry_inv_def registry_start_def new_subscriber_sync_map_def topics_of_def)
next
  case (step S S')
  then show ?case using registry_inv_step by blast
qed

text \<open>C38: However the operations of a registry overlap, \<open>Unsubscribe\<close> is never called more often on a subscriber than the subscriber was
  added: two removals of a topic, or a removal and a \<open>Clear\<close>, never both call it.\<close>

theorem unsubscribed_at_most_once:
  assumes "registry_reachable S"
  shows "rg_made S sub \<le> rg_added S sub"
  using registry_reachable_inv [OF assms] by (auto simp: registry_inv_def dest: spec [of _ sub])

text \<open>A subscriber is added, and a removal calls its \<open>Unsubscribe\<close>.\<close>

lemma sample_registry_reachable:
  "registry_reachable \<lparr>rg_map = Map.empty, rg_calls = {#}, rg_added = (\<lambda>_. 0)(7 := 1), rg_made = (\<lambda>_. 0)(7::nat := 1)\<rparr>"
proof -
  define S1 :: "nat registry_state" where
    "S1 = registry_start\<lparr>rg_map := sm_add ''t'' 7 (rg_map registry_start), rg_added := (rg_added registry_start)(7 := Suc (rg_added registry_start (7::nat)))\<rparr>"
  define S2 where "S2 = S1\<lparr>rg_map := Map.empty, rg_calls := add_mset (7, True) (rg_calls S1)\<rparr>"
  have "registry_reachable S1"
    unfolding S1_def by (rule registry_reachable.step [OF registry_reachable.init registry_step.add])
  moreover have "take_out ''t'' (rg_map S1) = (Some 7, Map.empty)"
    by (auto simp: S1_def take_out_def sm_add_def registry_start_def new_subscriber_sync_map_def)
  ultimately have "registry_reachable S2" unfolding S2_def by (intro registry_reachable.step [OF _ registry_step.remove])
  moreover have "(7, True) \<in># rg_calls S2" by (simp add: S2_def)
  ultimately have "registry_reachable (S2\<lparr>rg_calls := rg_calls S2 - {#(7, True)#}, rg_made := (rg_made S2)(7 := Suc (rg_made S2 7))\<rparr>)"
    by (intro registry_reachable.step [OF _ registry_step.unsubscribe])
  then show ?thesis by (simp add: S2_def S1_def registry_start_def)
qed

lemma unsubscribed_at_most_once_witness:
  "rg_made \<lparr>rg_map = Map.empty, rg_calls = {#}, rg_added = (\<lambda>_. 0)(7 := 1), rg_made = (\<lambda>_. 0)(7 := 1)\<rparr> (7::nat) \<le>
     rg_added \<lparr>rg_map = Map.empty, rg_calls = {#}, rg_added = (\<lambda>_. 0)(7 := 1), rg_made = (\<lambda>_. 0)(7 := 1)\<rparr> (7::nat)"
  by (rule unsubscribed_at_most_once [OF sample_registry_reachable])

text \<open>The converse fails: \<open>Add\<close> drops a subscriber the topic already had, and no operation of the registry will call its \<open>Unsubscribe\<close>.\<close>

lemma replaced_subscriber_is_forgotten:
  assumes "topics_of s m = {t}" and "s' \<noteq> s"
  shows "topics_of s (sm_add t s' m) = {}"
  using assms by (auto simp: topics_of_def sm_add_def fun_upd_def set_eq_iff split: if_splits)

end
