(* ===== verification/Broker_Server.thy ===== *)
theory Broker_Server
  imports Go_Base
begin

text \<open>
  The server that runs a broker with an application (broker/server.go). The broker is the record of the operations the server calls, on
  a state \<open>'s\<close>. Its mutex makes \<open>Start\<close> and \<open>Stop\<close> one step each.
\<close>

record ('h, 'b, 'o) subscription =
  sb_topic :: string
  sb_handler :: 'h
  sb_binder :: 'b
  sb_options :: "'o list"

definition new_subscription :: "string \<Rightarrow> 'h \<Rightarrow> 'b \<Rightarrow> 'o list \<Rightarrow> ('h, 'b, 'o) subscription" where
  "new_subscription topic h b opts = \<lparr>sb_topic = topic, sb_handler = h, sb_binder = b, sb_options = opts\<rparr>"

record ('s, 'h, 'b, 'o) broker_ops =
  br_init :: "'s \<Rightarrow> unit res \<times> 's"
  br_connect :: "'s \<Rightarrow> unit res \<times> 's"
  br_subscribe :: "string \<Rightarrow> 'h \<Rightarrow> 'b \<Rightarrow> 'o list \<Rightarrow> 's \<Rightarrow> unit res \<times> 's"
  br_disconnect :: "'s \<Rightarrow> unit res \<times> 's"

record ('s, 'h, 'b, 'o) transport_server =
  ts_broker :: "('s, 'h, 'b, 'o) broker_ops option"
  ts_subscriptions :: "('h, 'b, 'o) subscription list"
  ts_started :: bool

definition new_transport_server ::
    "('s, 'h, 'b, 'o) broker_ops option \<Rightarrow> ('h, 'b, 'o) subscription list \<Rightarrow> ('s, 'h, 'b, 'o) transport_server" where
  "new_transport_server b subs = \<lparr>ts_broker = b, ts_subscriptions = subs, ts_started = False\<rparr>"

text \<open>\<open>errors.Join\<close> drops nil errors.\<close>

definition join_close :: "go_err \<Rightarrow> unit res \<Rightarrow> go_err" where
  "join_close e r = (case r of Inl c \<Rightarrow> JoinErr [e, c] | Inr _ \<Rightarrow> JoinErr [e])"

fun subscribe_all ::
    "('s, 'h, 'b, 'o) broker_ops \<Rightarrow> ('h, 'b, 'o) subscription list \<Rightarrow> 's \<Rightarrow> unit res \<times> 's" where
  "subscribe_all B [] s = (Inr (), s)"
| "subscribe_all B (sub # subs) s =
     (case br_subscribe B (sb_topic sub) (sb_handler sub) (sb_binder sub) (sb_options sub) s of
        (Inl e, s') \<Rightarrow>
          (let (closed, s'') = br_disconnect B s' in
           (Inl (join_close (WrapErr (''subscribe to topic '' @ sb_topic sub) e) closed), s''))
      | (Inr _, s') \<Rightarrow> subscribe_all B subs s')"

definition server_start ::
    "('s, 'h, 'b, 'o) transport_server \<Rightarrow> 's \<Rightarrow> unit res \<times> ('s, 'h, 'b, 'o) transport_server \<times> 's" where
  "server_start T s =
     (if ts_started T then (Inr (), T, s)
      else (case ts_broker T of
              None \<Rightarrow> (Inl (NewErr ''broker transport server: broker is nil''), T, s)
            | Some B \<Rightarrow>
                (case br_init B s of
                   (Inl e, s1) \<Rightarrow> (Inl (WrapErr ''initialize broker'' e), T, s1)
                 | (Inr _, s1) \<Rightarrow>
                     (case br_connect B s1 of
                        (Inl e, s2) \<Rightarrow> (Inl (WrapErr ''connect broker'' e), T, s2)
                      | (Inr _, s2) \<Rightarrow>
                          (case subscribe_all B (ts_subscriptions T) s2 of
                             (Inl e, s3) \<Rightarrow> (Inl e, T, s3)
                           | (Inr _, s3) \<Rightarrow> (Inr (), T\<lparr>ts_started := True\<rparr>, s3))))))"

definition server_stop ::
    "('s, 'h, 'b, 'o) transport_server \<Rightarrow> 's \<Rightarrow> unit res \<times> ('s, 'h, 'b, 'o) transport_server \<times> 's" where
  "server_stop T s =
     (if \<not> ts_started T then (Inr (), T, s)
      else (case ts_broker T of
              None \<Rightarrow> (Inl (Panic ''nil pointer dereference''), T\<lparr>ts_started := False\<rparr>, s)
            | Some B \<Rightarrow>
                (case br_disconnect B s of
                   (Inl e, s') \<Rightarrow> (Inl (WrapErr ''disconnect broker'' e), T\<lparr>ts_started := False\<rparr>, s')
                 | (Inr _, s') \<Rightarrow> (Inr (), T\<lparr>ts_started := False\<rparr>, s'))))"

subsection \<open>Only a started server is served messages\<close>

text \<open>
  \<open>live s\<close> are the topics whose messages the broker passes on. What is asked of a broker: \<open>Init\<close> and \<open>Connect\<close> do not add a topic,
  \<open>Subscribe\<close> adds its own at most, and after \<open>Disconnect\<close>, failed or not, there is none.
\<close>

definition broker_ok :: "('s, 'h, 'b, 'o) broker_ops \<Rightarrow> ('s \<Rightarrow> string set) \<Rightarrow> bool" where
  "broker_ok B live \<longleftrightarrow>
     (\<forall>s. live (snd (br_init B s)) \<subseteq> live s) \<and> (\<forall>s. live (snd (br_connect B s)) \<subseteq> live s) \<and>
     (\<forall>t h b opts s. live (snd (br_subscribe B t h b opts s)) \<subseteq> insert t (live s)) \<and> (\<forall>s. live (snd (br_disconnect B s)) = {})"

inductive server_step ::
    "('s, 'h, 'b, 'o) transport_server \<times> 's \<Rightarrow> ('s, 'h, 'b, 'o) transport_server \<times> 's \<Rightarrow> bool" where
  start: "server_start T s = (r, T', s') \<Longrightarrow> server_step (T, s) (T', s')"
| stop: "server_stop T s = (r, T', s') \<Longrightarrow> server_step (T, s) (T', s')"

lemma subscribe_all_live:
  assumes "broker_ok B live"
  shows "subscribe_all B subs s = (r, s') \<Longrightarrow>
    (case r of Inl _ \<Rightarrow> live s' = {} | Inr _ \<Rightarrow> live s' \<subseteq> live s \<union> sb_topic ` set subs)"
proof (induction subs arbitrary: s)
  case (Cons sub subs)
  obtain u s1 where sub: "br_subscribe B (sb_topic sub) (sb_handler sub) (sb_binder sub) (sb_options sub) s = (u, s1)" by fastforce
  have "live (snd (br_subscribe B (sb_topic sub) (sb_handler sub) (sb_binder sub) (sb_options sub) s)) \<subseteq> insert (sb_topic sub) (live s)"
    and closed: "live (snd (br_disconnect B s1)) = {}"
    using assms by (simp_all add: broker_ok_def)
  then have "live s1 \<subseteq> insert (sb_topic sub) (live s)" using sub by simp
  then show ?case using Cons.prems Cons.IH [of s1] sub closed
    by (cases u) (auto split: sum.splits prod.splits)
qed auto

lemma start_live:
  assumes "broker_ok B live" and "ts_broker T = Some B" and "\<not> ts_started T \<longrightarrow> live s = {}" and "server_start T s = (r, T', s')"
  shows "\<not> ts_started T' \<longrightarrow> live s' = {}"
proof (cases "ts_started T")
  case False
  obtain u1 s1 where init: "br_init B s = (u1, s1)" by fastforce
  obtain u2 s2 where connect: "br_connect B s1 = (u2, s2)" by fastforce
  obtain u3 s3 where all: "subscribe_all B (ts_subscriptions T) s2 = (u3, s3)" by fastforce
  have "live (snd (br_init B s)) \<subseteq> live s" "live (snd (br_connect B s1)) \<subseteq> live s1"
    using assms(1) by (simp_all add: broker_ok_def)
  then have "live s1 = {}" "live s2 = {}" using assms(3) False init connect by auto
  then show ?thesis using assms(2,4) False init connect all subscribe_all_live [OF assms(1) all]
    by (auto simp: server_start_def split: sum.splits)
qed (use assms(4) in \<open>simp add: server_start_def\<close>)

lemma stop_live:
  assumes "broker_ok B live" and "ts_broker T = Some B" and "\<not> ts_started T \<longrightarrow> live s = {}" and "server_stop T s = (r, T', s')"
  shows "\<not> ts_started T' \<longrightarrow> live s' = {}"
proof -
  have "live (snd (br_disconnect B s)) = {}" using assms(1) by (simp add: broker_ok_def)
  then show ?thesis using assms(2-4) by (auto simp: server_stop_def split: if_splits sum.splits prod.splits)
qed

lemma server_broker_stays: "server_step X Y \<Longrightarrow> ts_broker (fst Y) = ts_broker (fst X)"
  by (induction rule: server_step.induct) (auto simp: server_start_def server_stop_def split: if_splits sum.splits prod.splits option.splits)

lemma stopped_server_serves_nothing:
  assumes "server_step\<^sup>*\<^sup>* (new_transport_server (Some B) subs, s0) (T, s)" and "broker_ok B live" and "live s0 = {}" and "\<not> ts_started T"
  shows "live s = {}"
proof -
  have "ts_broker T = Some B \<and> (\<not> ts_started T \<longrightarrow> live s = {})"
    using assms(1)
  proof (induction rule: rtranclp_induct2)
    case refl
    show ?case using assms(3) by (simp add: new_transport_server_def)
  next
    case (step T s T' s')
    have "ts_broker T' = Some B" using server_broker_stays [OF step(2)] step(3) by simp
    moreover have "\<not> ts_started T' \<longrightarrow> live s' = {}"
      using step(2)
    proof cases
      case (start r)
      then show ?thesis using start_live [OF assms(2)] step(3) by blast
    next
      case (stop r)
      then show ?thesis using stop_live [OF assms(2)] step(3) by blast
    qed
    ultimately show ?case by blast
  qed
  then show ?thesis using assms(4) by blast
qed

text \<open>A \<open>Start\<close> that returns nil has made every subscription; one that fails leaves the server stopped.\<close>

lemma start_ok_iff_started:
  "server_start T s = (r, T', s') \<Longrightarrow> is_ok r \<longleftrightarrow> ts_started T'"
  by (auto simp: server_start_def split: if_splits sum.splits prod.splits option.splits)

end
