(* ===== verification/Broker_Mqtt.thy ===== *)
theory Broker_Mqtt
  imports Broker_Message Broker_Subscribers Go_Utf8
begin

text \<open>
  The MQTT broker (broker/mqtt/mqtt.go, recording.go, options.go). The Paho library is not part of the repository: its router is the record
  \<open>paho_router\<close>, and what its connection managers and the network answer are arguments. A manager is a number, and so is the router that
  \<open>Connect\<close> makes with it. A subscriber is its topic, its number and what it was given.
\<close>

subsection \<open>Options\<close>

record codec =
  co_marshal :: "string \<Rightarrow> string res"
  co_unmarshal :: "string \<Rightarrow> unit res"

record mqtt_options =
  mo_addrs :: "string list"
  mo_codec :: "codec option"
  mo_error_handler :: bool
  mo_client_id :: "string option"
  mo_auth :: "(string \<times> string) option"
  mo_keep_alive :: "duration option"
  mo_connect_timeout :: "duration option"
  mo_retry_interval :: "duration option"
  mo_resume :: "bool option"

definition with_address :: "string list \<Rightarrow> mqtt_options \<Rightarrow> mqtt_options" where "with_address as o1 = o1\<lparr>mo_addrs := as\<rparr>"
definition with_auth :: "string \<Rightarrow> string \<Rightarrow> mqtt_options \<Rightarrow> mqtt_options" where "with_auth u p o1 = o1\<lparr>mo_auth := Some (u, p)\<rparr>"
definition with_client_id :: "string \<Rightarrow> mqtt_options \<Rightarrow> mqtt_options" where "with_client_id i o1 = o1\<lparr>mo_client_id := Some i\<rparr>"
definition with_keep_alive :: "duration \<Rightarrow> mqtt_options \<Rightarrow> mqtt_options" where "with_keep_alive d o1 = o1\<lparr>mo_keep_alive := Some d\<rparr>"
definition with_connect_timeout :: "duration \<Rightarrow> mqtt_options \<Rightarrow> mqtt_options" where "with_connect_timeout d o1 = o1\<lparr>mo_connect_timeout := Some d\<rparr>"
definition with_resume_subs :: "bool \<Rightarrow> mqtt_options \<Rightarrow> mqtt_options" where "with_resume_subs b o1 = o1\<lparr>mo_resume := Some b\<rparr>"

definition with_connect_retry_interval :: "duration \<Rightarrow> mqtt_options \<Rightarrow> mqtt_options" where
  "with_connect_retry_interval d o1 = o1\<lparr>mo_retry_interval := Some d\<rparr>"

definition options_client_id :: "gotime \<Rightarrow> (int \<Rightarrow> string) \<Rightarrow> mqtt_options \<Rightarrow> string" where
  "options_client_id now decimal o1 =
     (case mo_client_id o1 of
        Some v \<Rightarrow> if v \<noteq> [] then v else ''kratos-mqtt-'' @ decimal (unix_nano now)
      | None \<Rightarrow> ''kratos-mqtt-'' @ decimal (unix_nano now))"

definition keep_alive_seconds :: "mqtt_options \<Rightarrow> 16 word" where
  "keep_alive_seconds o1 =
     (case mo_keep_alive o1 of Some v \<Rightarrow> if 0 < v then word_of_int (v sdiv second) else 30 | None \<Rightarrow> 30)"

definition connect_retry_delay :: "mqtt_options \<Rightarrow> duration" where
  "connect_retry_delay o1 = (case mo_retry_interval o1 of Some v \<Rightarrow> if 0 < v then v else 5 * second | None \<Rightarrow> 5 * second)"

definition qos_from_options :: "8 word option \<Rightarrow> 8 word" where
  "qos_from_options q = (case q of Some v \<Rightarrow> if v \<le> 2 then v else 0 | None \<Rightarrow> 0)"

subsection \<open>State\<close>

record ('h, 'b) mqtt_subscriber =
  ms_topic :: string
  ms_id :: nat
  ms_handler :: 'h
  ms_binder :: "'b option"
  ms_qos :: "8 word option"
  ms_no_local :: bool

record ('r, 'h, 'b) paho_router =
  pr_new :: 'r
  pr_register :: "string \<Rightarrow> ('h, 'b) mqtt_subscriber \<Rightarrow> 'r \<Rightarrow> 'r"
  pr_unregister :: "string \<Rightarrow> 'r \<Rightarrow> 'r"

record mqtt_stats =
  st_last_error :: string
  st_connected_at :: gotime
  st_disconnected_at :: gotime
  st_published :: "64 word"
  st_publish_pending :: "64 word"
  st_max_publish_pending :: "64 word"
  st_publish_errors :: "64 word"
  st_received :: "64 word"
  st_handled :: "64 word"
  st_in_flight :: "64 word"
  st_max_in_flight :: "64 word"
  st_receive_errors :: "64 word"
  st_subscribe_errors :: "64 word"

record message_record =
  mr_direction :: string
  mr_topic :: string
  mr_payload :: string
  mr_payload_json :: string
  mr_payload_size :: int
  mr_payload_format :: string
  mr_qos :: "8 word"
  mr_retained :: bool
  mr_message_id :: string
  mr_status :: string
  mr_error :: string
  mr_latency_ms :: int
  mr_created_at :: int
  mr_handled_at :: int

text \<open>\<open>mq_live\<close> are the managers that were neither disconnected nor gave an error when they were made; such a one connects again by itself.\<close>

record ('r, 'h, 'b) mqtt_broker =
  mq_options :: mqtt_options
  mq_client :: "nat option"
  mq_router :: "nat option"
  mq_connected :: bool
  mq_subs :: "('h, 'b) mqtt_subscriber subscriber_map"
  mq_sub_id :: nat
  mq_routers :: "nat \<Rightarrow> 'r"
  mq_managers :: nat
  mq_live :: "nat set"
  mq_stats :: mqtt_stats
  mq_recorder :: bool
  mq_records :: "message_record list"
  mq_error_events :: "go_err list"

definition err_not_connected :: go_err where "err_not_connected = Sentinel ''mqtt broker: not connected''"
definition err_connected :: go_err where "err_connected = Sentinel ''mqtt broker: already connected''"

definition new_mqtt_broker :: "('r, 'h, 'b) paho_router \<Rightarrow> mqtt_options \<Rightarrow> ('r, 'h, 'b) mqtt_broker" where
  "new_mqtt_broker P opts =
     \<lparr>mq_options = opts, mq_client = None, mq_router = None, mq_connected = False, mq_subs = new_subscriber_sync_map, mq_sub_id = 0,
      mq_routers = (\<lambda>_. pr_new P), mq_managers = 0, mq_live = {},
      mq_stats = \<lparr>st_last_error = [], st_connected_at = zero_time, st_disconnected_at = zero_time, st_published = 0, st_publish_pending = 0,
        st_max_publish_pending = 0, st_publish_errors = 0, st_received = 0, st_handled = 0, st_in_flight = 0, st_max_in_flight = 0,
        st_receive_errors = 0, st_subscribe_errors = 0\<rparr>,
      mq_recorder = False, mq_records = [], mq_error_events = []\<rparr>"

definition broker_address :: "('r, 'h, 'b) mqtt_broker \<Rightarrow> string" where
  "broker_address S = (case mo_addrs (mq_options S) of [] \<Rightarrow> ''tcp://127.0.0.1:1883'' | a # _ \<Rightarrow> a)"

subsection \<open>Statistics and records\<close>

text \<open>A snapshot: connected, the address, the client's name, the counters. Its numbers of subscriptions are never set, so they are 0.\<close>

definition stats_snapshot :: "('r, 'h, 'b) mqtt_broker \<Rightarrow> bool \<times> string \<times> string \<times> (64 word \<times> 64 word) \<times> mqtt_stats" where
  "stats_snapshot S =
     (mq_connected S, broker_address S, (case mo_client_id (mq_options S) of None \<Rightarrow> [] | Some i \<Rightarrow> i), (0, 0), mq_stats S)"

definition upd_stats :: "(mqtt_stats \<Rightarrow> mqtt_stats) \<Rightarrow> ('r, 'h, 'b) mqtt_broker \<Rightarrow> ('r, 'h, 'b) mqtt_broker" where
  "upd_stats f S = S\<lparr>mq_stats := f (mq_stats S)\<rparr>"

definition set_recorder :: "bool \<Rightarrow> ('r, 'h, 'b) mqtt_broker \<Rightarrow> ('r, 'h, 'b) mqtt_broker" where
  "set_recorder r S = S\<lparr>mq_recorder := r\<rparr>"

definition record_message :: "message_record \<Rightarrow> ('r, 'h, 'b) mqtt_broker \<Rightarrow> ('r, 'h, 'b) mqtt_broker" where
  "record_message mr S = (if mq_recorder S then S\<lparr>mq_records := mq_records S @ [mr]\<rparr> else S)"

definition update_max :: "64 word \<Rightarrow> 64 word \<Rightarrow> 64 word" where
  "update_max target v = (if target < v then v else target)"

definition begin_publish :: "('r, 'h, 'b) mqtt_broker \<Rightarrow> ('r, 'h, 'b) mqtt_broker" where
  "begin_publish = upd_stats (\<lambda>st. st\<lparr>st_publish_pending := st_publish_pending st + 1,
     st_max_publish_pending := update_max (st_max_publish_pending st) (st_publish_pending st + 1)\<rparr>)"

definition finish_publish :: "('r, 'h, 'b) mqtt_broker \<Rightarrow> ('r, 'h, 'b) mqtt_broker" where
  "finish_publish = upd_stats (\<lambda>st. st\<lparr>st_publish_pending := st_publish_pending st - 1\<rparr>)"

definition record_error :: "go_err option \<Rightarrow> ('r, 'h, 'b) mqtt_broker \<Rightarrow> ('r, 'h, 'b) mqtt_broker" where
  "record_error err = (case err of None \<Rightarrow> id | Some e \<Rightarrow> upd_stats (\<lambda>st. st\<lparr>st_last_error := err_text e\<rparr>))"

definition record_publish_error :: "go_err option \<Rightarrow> ('r, 'h, 'b) mqtt_broker \<Rightarrow> ('r, 'h, 'b) mqtt_broker" where
  "record_publish_error err S =
     (if err = None then S else record_error err (upd_stats (\<lambda>st. st\<lparr>st_publish_errors := st_publish_errors st + 1\<rparr>) S))"

definition clone_payload :: "string \<Rightarrow> string" where "clone_payload p = [] @ p"

definition utf8_valid :: "string \<Rightarrow> bool" where
  "utf8_valid s = (\<forall>(r, c) \<in> set (rune_chunks s). \<not> (r = 65533 \<and> length c = 1))"

text \<open>\<open>json\<close> reads a text as JSON and prints it again; the printing may fail.\<close>

definition inspect_payload :: "(string \<Rightarrow> string option option) \<Rightarrow> string \<Rightarrow> string \<times> string" where
  "inspect_payload json payload =
     (if \<not> utf8_valid payload then (''BINARY'', [])
      else (case json payload of
              None \<Rightarrow> (''TEXT'', [])
            | Some None \<Rightarrow> (''JSON'', [])
            | Some (Some normalized) \<Rightarrow> (''JSON'', normalized)))"

definition unix_milli :: "gotime \<Rightarrow> int" where "unix_milli t = unix_nano t div 1000000"

text \<open>The clock is read at the start, and twice at the end.\<close>

type_synonym clock3 = "gotime \<times> gotime \<times> gotime"

definition publish_record ::
    "(string \<Rightarrow> string option option) \<Rightarrow> clock3 \<Rightarrow> string \<Rightarrow> string \<Rightarrow> 8 word \<Rightarrow> string \<Rightarrow> go_err option \<Rightarrow> message_record" where
  "publish_record json clock topic payload qos status err =
     (let (started, now1, now2) = clock; p = clone_payload payload; (format, pj) = inspect_payload json p in
      \<lparr>mr_direction = ''PUBLISH'', mr_topic = topic, mr_payload = p, mr_payload_json = pj, mr_payload_size = int (length p),
       mr_payload_format = format, mr_qos = qos, mr_retained = False, mr_message_id = [], mr_status = status,
       mr_error = (case err of None \<Rightarrow> [] | Some e \<Rightarrow> err_text e), mr_latency_ms = (now2 - started) sdiv millisecond,
       mr_created_at = unix_milli started, mr_handled_at = unix_milli now1\<rparr>)"

record paho_publish =
  pp_topic :: string
  pp_payload :: string
  pp_packet_id :: string
  pp_qos :: "8 word"
  pp_retain :: bool

definition subscribe_record ::
    "(string \<Rightarrow> string option option) \<Rightarrow> clock3 \<Rightarrow> paho_publish \<Rightarrow> string \<Rightarrow> go_err option \<Rightarrow> message_record" where
  "subscribe_record json clock raw status err =
     (let (started, now1, now2) = clock; p = clone_payload (pp_payload raw); (format, pj) = inspect_payload json p in
      \<lparr>mr_direction = ''SUBSCRIBE'', mr_topic = pp_topic raw, mr_payload = p, mr_payload_json = pj, mr_payload_size = int (length p),
       mr_payload_format = format, mr_qos = pp_qos raw, mr_retained = pp_retain raw, mr_message_id = pp_packet_id raw, mr_status = status,
       mr_error = (case err of None \<Rightarrow> [] | Some e \<Rightarrow> err_text e), mr_latency_ms = (now2 - started) sdiv millisecond,
       mr_created_at = unix_milli started, mr_handled_at = unix_milli now1\<rparr>)"

subsection \<open>Connecting\<close>

definition mqtt_init :: "(mqtt_options \<Rightarrow> mqtt_options) list \<Rightarrow> ('r, 'h, 'b) mqtt_broker \<Rightarrow> unit res \<times> ('r, 'h, 'b) mqtt_broker" where
  "mqtt_init opts S =
     (if mq_connected S then (Inl err_connected, S)
      else (Inr (), S\<lparr>mq_options := fold (\<lambda>f. f) opts (mq_options S)\<rparr>))"

fun parse_all :: "(string \<Rightarrow> 'u res) \<Rightarrow> string list \<Rightarrow> 'u list res" where
  "parse_all parse [] = Inr []"
| "parse_all parse (a # as) =
     (case parse a of Inl e \<Rightarrow> Inl e | Inr u \<Rightarrow> res_bind (parse_all parse as) (\<lambda>us. Inr (u # us)))"

record 'u client_config =
  cc_urls :: "'u list"
  cc_client_id :: string
  cc_keep_alive :: "16 word"
  cc_retry_delay :: duration
  cc_timeout :: duration
  cc_auth :: "(string \<times> string) option"

text \<open>
  \<open>Connect\<close> until it waits; the TLS configuration is passed on as it is. \<open>Inr None\<close>: the broker is connected already. The new manager has the number \<open>n\<close>; \<open>made\<close> is
  what \<open>NewConnection\<close> answers to the configuration.
\<close>

definition connect_begin ::
    "('r, 'h, 'b) paho_router \<Rightarrow> gotime \<Rightarrow> (int \<Rightarrow> string) \<Rightarrow> (string \<Rightarrow> 'u res) \<Rightarrow> ('u client_config \<Rightarrow> unit res) \<Rightarrow> ('r, 'h, 'b) mqtt_broker
     \<Rightarrow> nat option res \<times> ('r, 'h, 'b) mqtt_broker" where
  "connect_begin P now decimal parse made S =
     (if mq_connected S then (Inr None, S)
      else
        let o1 = mq_options S;
            timeout = (case mo_connect_timeout o1 of Some v \<Rightarrow> if 0 < v then v else 30 * second | None \<Rightarrow> 30 * second);
            addrs = (if mo_addrs o1 = [] then [''tcp://127.0.0.1:1883''] else mo_addrs o1);
            n = mq_managers S;
            S0 = S\<lparr>mq_managers := Suc n, mq_routers := (mq_routers S)(n := pr_new P)\<rparr> in
        (case parse_all parse addrs of
           Inl e \<Rightarrow> (Inl (WrapErr ''mqtt broker: parse endpoint'' e), record_error (Some e) S0)
         | Inr urls \<Rightarrow>
             (case made \<lparr>cc_urls = urls, cc_client_id = options_client_id now decimal o1, cc_keep_alive = keep_alive_seconds o1, cc_retry_delay = connect_retry_delay o1,
                         cc_timeout = timeout, cc_auth = mo_auth o1\<rparr> of
                Inl e \<Rightarrow> (Inl (WrapErr ''mqtt broker: connect'' e), record_error (Some e) S0)
              | Inr _ \<Rightarrow> (Inr (Some n), S0\<lparr>mq_live := insert n (mq_live S)\<rparr>))))"

text \<open>What a manager does when its connection is up. The answers to the subscriptions that are made again are not looked at.\<close>

definition connection_up :: "nat \<Rightarrow> ('r, 'h, 'b) mqtt_broker \<Rightarrow> ('r, 'h, 'b) mqtt_broker" where
  "connection_up n S = S\<lparr>mq_client := Some n, mq_connected := True\<rparr>"

definition resumed_topics :: "mqtt_options \<Rightarrow> ('r, 'h, 'b) mqtt_broker \<Rightarrow> string set" where
  "resumed_topics o1 S = (if (case mo_resume o1 of Some v \<Rightarrow> v | None \<Rightarrow> True) then ms_topic ` ran (sm_get_all (mq_subs S)) else {})"

text \<open>The rest of \<open>Connect\<close>, with what the waiting gave.\<close>

definition connect_end :: "nat \<Rightarrow> unit res \<Rightarrow> gotime \<Rightarrow> ('r, 'h, 'b) mqtt_broker \<Rightarrow> unit res \<times> ('r, 'h, 'b) mqtt_broker" where
  "connect_end n awaited now S =
     (case awaited of
        Inl e \<Rightarrow>
          (let last = st_last_error (mq_stats S); last' = (if last = [] then err_text e else last) in
           (Inl (WrapErr (''mqtt broker: connect (last attempt: '' @ last' @ '')'') e), S))
      | Inr _ \<Rightarrow>
          (Inr (), upd_stats (\<lambda>st. st\<lparr>st_connected_at := now\<rparr>) (S\<lparr>mq_client := Some n, mq_router := Some n, mq_connected := True\<rparr>)))"

definition mark_disconnected :: "gotime \<Rightarrow> ('r, 'h, 'b) mqtt_broker \<Rightarrow> ('r, 'h, 'b) mqtt_broker" where
  "mark_disconnected now S = upd_stats (\<lambda>st. st\<lparr>st_disconnected_at := now\<rparr>) (S\<lparr>mq_connected := False\<rparr>)"

text \<open>\<open>OnServerDisconnect\<close> and \<open>OnClientError\<close>, with the error each makes and the options \<open>Connect\<close> had read.\<close>

definition connection_lost :: "mqtt_options \<Rightarrow> gotime \<Rightarrow> go_err \<Rightarrow> ('r, 'h, 'b) mqtt_broker \<Rightarrow> ('r, 'h, 'b) mqtt_broker" where
  "connection_lost o1 now e S =
     (let S1 = record_error (Some e) (mark_disconnected now S) in
      if mo_error_handler o1 then S1\<lparr>mq_error_events := mq_error_events S1 @ [e]\<rparr> else S1)"

definition connect_error :: "go_err \<Rightarrow> ('r, 'h, 'b) mqtt_broker \<Rightarrow> ('r, 'h, 'b) mqtt_broker" where
  "connect_error e = record_error (Some e)"

definition mqtt_disconnect :: "gotime \<Rightarrow> unit res \<Rightarrow> ('r, 'h, 'b) mqtt_broker \<Rightarrow> unit res \<times> ('r, 'h, 'b) mqtt_broker" where
  "mqtt_disconnect now answer S =
     (let client = mq_client S;
          S1 = upd_stats (\<lambda>st. st\<lparr>st_disconnected_at := now\<rparr>) (S\<lparr>mq_client := None, mq_connected := False\<rparr>) in
      case client of
        Some n \<Rightarrow> (answer, S1\<lparr>mq_live := mq_live S1 - {n}\<rparr>)
      | None \<Rightarrow> (Inr (), S1))"

subsection \<open>Subscribing\<close>

text \<open>What the server answers to a subscription: an error, or the reason codes.\<close>

definition subscribe_answer :: "string \<Rightarrow> nat list res \<Rightarrow> unit res" where
  "subscribe_answer topic answer =
     (case answer of
        Inl e \<Rightarrow> Inl (WrapErr (''mqtt broker: subscribe '' @ topic) e)
      | Inr reasons \<Rightarrow>
          if reasons = [] \<or> 128 \<le> reasons ! 0 then Inl (NewErr (''mqtt broker: subscribe '' @ topic @ '' refused'')) else Inr ())"

definition subscribe_failed :: "go_err \<Rightarrow> ('r, 'h, 'b) mqtt_broker \<Rightarrow> ('r, 'h, 'b) mqtt_broker" where
  "subscribe_failed e S = record_error (Some e) (upd_stats (\<lambda>st. st\<lparr>st_subscribe_errors := st_subscribe_errors st + 1\<rparr>) S)"

text \<open>\<open>wrap\<close> puts the middlewares of the options around the handler.\<close>

definition mqtt_subscribe ::
    "('r, 'h, 'b) paho_router \<Rightarrow> string \<Rightarrow> 'h option \<Rightarrow> 'b option \<Rightarrow> ('h \<Rightarrow> 'h) option list \<Rightarrow> 8 word option \<Rightarrow> bool \<Rightarrow> nat list res
     \<Rightarrow> ('r, 'h, 'b) mqtt_broker \<Rightarrow> ('h, 'b) mqtt_subscriber res \<times> ('r, 'h, 'b) mqtt_broker" where
  "mqtt_subscribe P topic handler binder mws qos no_local answer S =
     (case handler of
        None \<Rightarrow> (let e = NewErr ''mqtt broker: topic and handler are required'' in (Inl e, subscribe_failed e S))
      | Some h \<Rightarrow>
          if topic = [] then (let e = NewErr ''mqtt broker: topic and handler are required'' in (Inl e, subscribe_failed e S))
          else (case (mq_client S, mq_router S, mq_connected S) of
                  (Some c, Some r, True) \<Rightarrow>
                    (let sub = \<lparr>ms_topic = topic, ms_id = Suc (mq_sub_id S), ms_handler = chain_subscriber_middleware h mws,
                                ms_binder = binder, ms_qos = qos, ms_no_local = no_local\<rparr>;
                         S1 = S\<lparr>mq_sub_id := Suc (mq_sub_id S), mq_routers := (mq_routers S)(r := pr_register P topic sub (mq_routers S r))\<rparr> in
                     (case subscribe_answer topic answer of
                        Inl e \<Rightarrow>
                          (Inl e, (subscribe_failed e S1)\<lparr>mq_routers := (mq_routers S1)(r := pr_unregister P topic (mq_routers S1 r))\<rparr>)
                      | Inr _ \<Rightarrow> (Inr sub, S1\<lparr>mq_subs := sm_add topic sub (mq_subs S1)\<rparr>)))
                | _ \<Rightarrow> (Inl err_not_connected, subscribe_failed err_not_connected S)))"

definition mqtt_request :: "string \<Rightarrow> 'a res" where
  "mqtt_request topic = request_unsupported topic"

definition mqtt_unsubscribe ::
    "('r, 'h, 'b) paho_router \<Rightarrow> ('h, 'b) mqtt_subscriber \<Rightarrow> bool \<Rightarrow> unit res \<Rightarrow> ('r, 'h, 'b) mqtt_broker
     \<Rightarrow> unit res \<times> ('r, 'h, 'b) mqtt_broker" where
  "mqtt_unsubscribe P sub remove_from_manager answer S =
     (if mq_client S \<noteq> None \<and> \<not> is_ok answer then (answer, S)
      else
        let S1 = (case mq_router S of
                    None \<Rightarrow> S
                  | Some r \<Rightarrow> S\<lparr>mq_routers := (mq_routers S)(r := pr_unregister P (ms_topic sub) (mq_routers S r))\<rparr>) in
        (Inr (), if remove_from_manager then S1\<lparr>mq_subs := snd (sm_remove_only (ms_topic sub) (mq_subs S1))\<rparr> else S1))"

subsection \<open>Publishing\<close>

text \<open>The body of a message: bytes, or a value the codec is asked for. The server answers with an error, or perhaps a reason code.\<close>

definition publish_failed ::
    "(string \<Rightarrow> string option option) \<Rightarrow> clock3 \<Rightarrow> string \<Rightarrow> string \<Rightarrow> 8 word \<Rightarrow> go_err \<Rightarrow> ('r, 'h, 'b) mqtt_broker \<Rightarrow> ('r, 'h, 'b) mqtt_broker" where
  "publish_failed json clock topic payload qos e S =
     record_message (publish_record json clock topic payload qos ''FAILED'' (Some e)) (record_publish_error (Some e) S)"

definition mqtt_publish ::
    "(string \<Rightarrow> string option option) \<Rightarrow> (codec \<Rightarrow> 'v any \<Rightarrow> string res) \<Rightarrow> clock3 \<Rightarrow> string \<Rightarrow> ('v, 'm) message option \<Rightarrow> 8 word option
     \<Rightarrow> nat option res \<Rightarrow> ('r, 'h, 'b) mqtt_broker \<Rightarrow> unit res \<times> ('r, 'h, 'b) mqtt_broker" where
  "mqtt_publish json marshal clock topic msg q answer S =
     (let qos = qos_from_options q in
      case msg of
        None \<Rightarrow> (let e = NewErr ''mqtt broker: message is nil'' in (Inl e, publish_failed json clock topic [] 0 e S))
      | Some m \<Rightarrow>
          if mq_client S = None \<or> \<not> mq_connected S then (Inl err_not_connected, publish_failed json clock topic [] 0 err_not_connected S)
          else
            (case (case bm_body m of
                     Bytes b \<Rightarrow> Inr b
                   | v \<Rightarrow> (case mo_codec (mq_options S) of Some c \<Rightarrow> marshal c v | None \<Rightarrow> Inl (NewErr ''mqtt broker: codec is nil''))) of
               Inl e \<Rightarrow> (Inl e, publish_failed json clock topic [] qos e S)
             | Inr payload \<Rightarrow>
                 (let S1 = begin_publish S in
                  (case answer of
                     Inl e \<Rightarrow> (Inl e, finish_publish (publish_failed json clock topic payload qos e S1))
                   | Inr reason \<Rightarrow>
                       if reason \<noteq> None \<and> 128 \<le> the reason
                       then (let e = NewErr ''mqtt broker: publish refused'' in (Inl e, finish_publish (publish_failed json clock topic payload qos e S1)))
                       else (Inr (), finish_publish (record_message (publish_record json clock topic payload qos ''SENT'' None)
                               (upd_stats (\<lambda>st. st\<lparr>st_published := st_published st + 1\<rparr>) S1)))))))"

subsection \<open>Handling\<close>

text \<open>\<open>bind\<close> makes the target of a binder, and \<open>decode\<close> lets a codec fill it.\<close>

definition new_message_event ::
    "('b \<Rightarrow> 'v any) \<Rightarrow> (codec \<Rightarrow> string \<Rightarrow> 'v any \<Rightarrow> 'v any res) \<Rightarrow> (8 word \<Rightarrow> 'v any) \<Rightarrow> (bool \<Rightarrow> 'v any)
     \<Rightarrow> paho_publish \<Rightarrow> 'b option \<Rightarrow> codec option \<Rightarrow> ('v, paho_publish) message \<times> go_err option" where
  "new_message_event bind decode qos_value bool_value raw binder codec =
     (let m0 = new_message AnyNil [];
          m = (m0\<lparr>bm_id := pp_packet_id raw,
               bm_metadata := put_made (put_made (bm_metadata m0) ''mqtt.qos'' (qos_value (pp_qos raw))) ''mqtt.retained'' (bool_value (pp_retain raw)),
               bm_msg := Some raw\<rparr>) in
      case binder of
        None \<Rightarrow> (m\<lparr>bm_body := Bytes (pp_payload raw)\<rparr>, None)
      | Some b \<Rightarrow>
          (case codec of
             None \<Rightarrow> (m, Some (NewErr ''mqtt broker: codec is nil''))
           | Some c \<Rightarrow>
               (case decode c (pp_payload raw) (bind b) of
                  Inl e \<Rightarrow> (m, Some e)
                | Inr v \<Rightarrow> (m\<lparr>bm_body := v\<rparr>, None))))"

definition handle_begin :: "('r, 'h, 'b) mqtt_broker \<Rightarrow> ('r, 'h, 'b) mqtt_broker" where
  "handle_begin = upd_stats (\<lambda>st. st\<lparr>st_received := st_received st + 1, st_in_flight := st_in_flight st + 1,
     st_max_in_flight := update_max (st_max_in_flight st) (st_in_flight st + 1)\<rparr>)"

definition handle_end ::
    "(string \<Rightarrow> string option option) \<Rightarrow> clock3 \<Rightarrow> paho_publish \<Rightarrow> go_err option \<Rightarrow> ('r, 'h, 'b) mqtt_broker \<Rightarrow> ('r, 'h, 'b) mqtt_broker" where
  "handle_end json clock raw err S =
     (let S1 = record_message (subscribe_record json clock raw (if err = None then ''HANDLED'' else ''FAILED'') err) S;
          S2 = (case err of
                  Some e \<Rightarrow>
                    (let S' = record_error (Some e) (upd_stats (\<lambda>st. st\<lparr>st_receive_errors := st_receive_errors st + 1\<rparr>) S1) in
                     if mo_error_handler (mq_options S') then S'\<lparr>mq_error_events := mq_error_events S' @ [e]\<rparr> else S')
                | None \<Rightarrow> upd_stats (\<lambda>st. st\<lparr>st_handled := st_handled st + 1\<rparr>) S1) in
      upd_stats (\<lambda>st. st\<lparr>st_in_flight := st_in_flight st - 1\<rparr>) S2)"

text \<open>The error a message ends with: the event's own, or the handler's.\<close>

definition handled_error :: "(('v, paho_publish) message \<Rightarrow> unit res) \<Rightarrow> ('v, paho_publish) message \<times> go_err option \<Rightarrow> go_err option" where
  "handled_error handler ev =
     (case snd ev of Some e \<Rightarrow> Some e | None \<Rightarrow> (case handler (fst ev) of Inl e \<Rightarrow> Some e | Inr _ \<Rightarrow> None))"

subsection \<open>Runs of calls that do not overlap\<close>

text \<open>
  What is asked of Paho's router: it keeps, per topic filter, the handlers that were registered, and unregistering a filter removes all of
  them. \<open>handlers\<close> reads them.
\<close>

definition router_ok :: "('r, 'h, 'b) paho_router \<Rightarrow> ('r \<Rightarrow> string \<Rightarrow> ('h, 'b) mqtt_subscriber list) \<Rightarrow> bool" where
  "router_ok P handlers \<longleftrightarrow>
     (\<forall>t. handlers (pr_new P) t = []) \<and>
     (\<forall>t sub r t'. handlers (pr_register P t sub r) t' = (if t' = t then handlers r t @ [sub] else handlers r t')) \<and>
     (\<forall>t r t'. handlers (pr_unregister P t r) t' = (if t' = t then [] else handlers r t'))"

text \<open>\<open>CallConnect\<close> is a \<open>Connect\<close> whose waiting ends with the connection up. \<open>Up\<close> and \<open>Lost\<close> are the callbacks of a manager.\<close>

datatype ('h, 'b) mqtt_call =
    CallConnect gotime
  | CallDisconnect gotime "unit res"
  | CallSubscribe string "'h option" "'b option" "('h \<Rightarrow> 'h) option list" "8 word option" bool "nat list res"
  | CallUnsubscribe "('h, 'b) mqtt_subscriber" bool "unit res"
  | Up nat
  | Lost mqtt_options gotime go_err

definition connect_ok ::
    "('r, 'h, 'b) paho_router \<Rightarrow> (int \<Rightarrow> string) \<Rightarrow> (string \<Rightarrow> 'u res) \<Rightarrow> ('u client_config \<Rightarrow> unit res) \<Rightarrow> gotime
     \<Rightarrow> ('r, 'h, 'b) mqtt_broker \<Rightarrow> ('r, 'h, 'b) mqtt_broker" where
  "connect_ok P decimal parse made now S =
     (case connect_begin P now decimal parse made S of
        (Inr (Some n), S1) \<Rightarrow> snd (connect_end n (Inr ()) now (connection_up n S1))
      | (_, S1) \<Rightarrow> S1)"

fun mqtt_do ::
    "('r, 'h, 'b) paho_router \<Rightarrow> (int \<Rightarrow> string) \<Rightarrow> (string \<Rightarrow> 'u res) \<Rightarrow> ('u client_config \<Rightarrow> unit res) \<Rightarrow> ('h, 'b) mqtt_call
     \<Rightarrow> ('r, 'h, 'b) mqtt_broker \<Rightarrow> ('r, 'h, 'b) mqtt_broker" where
  "mqtt_do P dec parse made (CallConnect now) S = connect_ok P dec parse made now S"
| "mqtt_do P dec parse made (CallDisconnect now answer) S = snd (mqtt_disconnect now answer S)"
| "mqtt_do P dec parse made (CallSubscribe t h b mws q nl answer) S = snd (mqtt_subscribe P t h b mws q nl answer S)"
| "mqtt_do P dec parse made (CallUnsubscribe sub flag answer) S = snd (mqtt_unsubscribe P sub flag answer S)"
| "mqtt_do P dec parse made (Up n) S = (if n \<in> mq_live S then connection_up n S else S)"
| "mqtt_do P dec parse made (Lost o1 now e) S = connection_lost o1 now e S"

text \<open>
  The calls after which messages still go where they should: a topic is not subscribed while it is in the registry, only registered
  subscribers are unsubscribed, and the broker connects again only after a \<open>Disconnect\<close> and when the registry is empty.
\<close>

fun careful :: "('h, 'b) mqtt_call \<Rightarrow> ('r, 'h, 'b) mqtt_broker \<Rightarrow> bool" where
  "careful (CallConnect now) S \<longleftrightarrow> mq_connected S \<or> (mq_live S = {} \<and> mq_client S = None \<and> mq_subs S = Map.empty)"
| "careful (CallSubscribe t h b mws q nl answer) S \<longleftrightarrow> mq_subs S t = None"
| "careful (CallUnsubscribe sub flag answer) S \<longleftrightarrow> flag \<and> mq_subs S (ms_topic sub) = Some sub"
| "careful _ S \<longleftrightarrow> True"

inductive careful_run ::
    "('r, 'h, 'b) paho_router \<Rightarrow> (int \<Rightarrow> string) \<Rightarrow> (string \<Rightarrow> 'u res) \<Rightarrow> ('u client_config \<Rightarrow> unit res) \<Rightarrow> mqtt_options
     \<Rightarrow> ('r, 'h, 'b) mqtt_broker \<Rightarrow> bool" for P dec parse made opts where
  init: "careful_run P dec parse made opts (new_mqtt_broker P opts)"
| step: "careful_run P dec parse made opts S \<Longrightarrow> careful c S \<Longrightarrow> careful_run P dec parse made opts (mqtt_do P dec parse made c S)"

definition registered :: "('h, 'b) mqtt_subscriber subscriber_map \<Rightarrow> string \<Rightarrow> ('h, 'b) mqtt_subscriber list" where
  "registered m t = (case m t of None \<Rightarrow> [] | Some sub \<Rightarrow> [sub])"

definition routed :: "('r \<Rightarrow> string \<Rightarrow> ('h, 'b) mqtt_subscriber list) \<Rightarrow> ('r, 'h, 'b) mqtt_broker \<Rightarrow> nat \<Rightarrow> bool" where
  "routed handlers S r \<longleftrightarrow> (\<forall>t. handlers (mq_routers S r) t = registered (mq_subs S) t)"

definition mqtt_inv :: "('r \<Rightarrow> string \<Rightarrow> ('h, 'b) mqtt_subscriber list) \<Rightarrow> ('r, 'h, 'b) mqtt_broker \<Rightarrow> bool" where
  "mqtt_inv handlers S \<longleftrightarrow>
     (mq_connected S \<longrightarrow> mq_client S \<noteq> None) \<and>
     (\<forall>n. mq_client S = Some n \<longrightarrow> mq_router S = Some n) \<and>
     (\<forall>n \<in> mq_live S. mq_client S = Some n) \<and>
     (case mq_router S of None \<Rightarrow> mq_subs S = Map.empty | Some r \<Rightarrow> r < mq_managers S \<and> routed handlers S r)"

subsection \<open>Messages reach the registered subscriber\<close>

lemma upd_stats_simps [simp]:
  "mq_client (upd_stats f S) = mq_client S" "mq_router (upd_stats f S) = mq_router S" "mq_connected (upd_stats f S) = mq_connected S"
  "mq_subs (upd_stats f S) = mq_subs S" "mq_routers (upd_stats f S) = mq_routers S" "mq_managers (upd_stats f S) = mq_managers S"
  "mq_live (upd_stats f S) = mq_live S" "mq_options (upd_stats f S) = mq_options S"
  "mq_sub_id (upd_stats f S) = mq_sub_id S"
  by (simp_all add: upd_stats_def)

lemma record_error_simps [simp]:
  "mq_client (record_error e S) = mq_client S" "mq_router (record_error e S) = mq_router S" "mq_connected (record_error e S) = mq_connected S"
  "mq_subs (record_error e S) = mq_subs S" "mq_routers (record_error e S) = mq_routers S" "mq_managers (record_error e S) = mq_managers S"
  "mq_live (record_error e S) = mq_live S" "mq_options (record_error e S) = mq_options S"
  by (simp_all add: record_error_def split: option.splits)

text \<open>The part of the state the routing depends on.\<close>

definition same_routing :: "('r, 'h, 'b) mqtt_broker \<Rightarrow> ('r, 'h, 'b) mqtt_broker \<Rightarrow> bool" where
  "same_routing S S' \<longleftrightarrow> mq_client S' = mq_client S \<and> mq_router S' = mq_router S \<and> mq_subs S' = mq_subs S \<and>
     mq_routers S' = mq_routers S \<and> mq_managers S' = mq_managers S \<and> mq_live S' = mq_live S \<and> (mq_connected S' \<longrightarrow> mq_connected S)"

lemma same_routing_inv: "same_routing S S' \<Longrightarrow> mqtt_inv handlers S \<Longrightarrow> mqtt_inv handlers S'"
  by (auto simp: same_routing_def mqtt_inv_def routed_def split: option.splits)

lemma subscribe_failed_same: "same_routing S (subscribe_failed e S)"
  by (simp add: same_routing_def subscribe_failed_def)

lemma connection_lost_same: "same_routing S (connection_lost o1 now e S)"
  by (simp add: same_routing_def connection_lost_def mark_disconnected_def Let_def)

lemma handlers_simps:
  assumes "router_ok P handlers"
  shows "handlers (pr_new P) t = []"
    and "handlers (pr_register P t sub r) t' = (if t' = t then handlers r t @ [sub] else handlers r t')"
    and "handlers (pr_unregister P t r) t' = (if t' = t then [] else handlers r t')"
  using assms by (simp_all add: router_ok_def)

lemma registered_simps [simp]:
  "registered (\<lambda>_. None) t = []"
  "registered (m(t \<mapsto> sub)) t' = (if t' = t then [sub] else registered m t')"
  "registered (m(t := None)) t' = (if t' = t then [] else registered m t')"
  "m t = None \<Longrightarrow> registered m t = []"
  by (simp_all add: registered_def)

lemma connect_ok_inv:
  assumes "router_ok P handlers" and "mqtt_inv handlers S" and "careful (CallConnect now) S"
  shows "mqtt_inv handlers (connect_ok P dec parse made now S)"
proof (cases "mq_connected S")
  case False
  have fresh: "mq_live S = {}" "mq_client S = None" "mq_subs S = Map.empty" using assms(3) False by auto
  let ?n = "mq_managers S"
  have failed: "mqtt_inv handlers (record_error e (S\<lparr>mq_managers := Suc ?n, mq_routers := (mq_routers S)(?n := pr_new P)\<rparr>))" for e
    using assms(2) fresh False by (auto simp: mqtt_inv_def routed_def split: option.splits)
  have up: "mqtt_inv handlers (snd (connect_end ?n (Inr ()) now (connection_up ?n
      (S\<lparr>mq_managers := Suc ?n, mq_routers := (mq_routers S)(?n := pr_new P), mq_live := insert ?n (mq_live S)\<rparr>))))"
    using fresh by (auto simp: connect_end_def connection_up_def mqtt_inv_def routed_def handlers_simps(1) [OF assms(1)])
  show ?thesis
    unfolding connect_ok_def connect_begin_def Let_def using False failed up by (simp split: sum.split)
qed (use assms(2) in \<open>simp add: connect_ok_def connect_begin_def\<close>)

lemma disconnect_inv: "mqtt_inv handlers S \<Longrightarrow> mqtt_inv handlers (snd (mqtt_disconnect now answer S))"
  by (auto simp: mqtt_disconnect_def mqtt_inv_def routed_def Let_def split: option.splits)

lemma subscribe_inv:
  assumes "router_ok P handlers" and "mqtt_inv handlers S" and "mq_subs S t = None"
  shows "mqtt_inv handlers (snd (mqtt_subscribe P t h b mws q nl answer S))"
proof (cases "h \<noteq> None \<and> t \<noteq> [] \<and> mq_client S \<noteq> None \<and> mq_router S \<noteq> None \<and> mq_connected S")
  case False
  then have "\<exists>e. snd (mqtt_subscribe P t h b mws q nl answer S) = subscribe_failed e S"
    by (auto simp: mqtt_subscribe_def Let_def split: option.splits bool.splits)
  then show ?thesis using same_routing_inv [OF subscribe_failed_same assms(2)] by auto
next
  case True
  then obtain h' c r where some: "h = Some h'" "mq_client S = Some c" "mq_router S = Some r" by auto
  have before: "r < mq_managers S" "routed handlers S r" "c = r"
    using assms(2) some by (auto simp: mqtt_inv_def)
  show ?thesis
    using True some before assms(2,3)
    by (auto simp: mqtt_subscribe_def Let_def subscribe_failed_def mqtt_inv_def routed_def sm_add_def handlers_simps [OF assms(1)]
        split: sum.splits option.splits)
qed

lemma unsubscribe_inv:
  assumes "router_ok P handlers" and "mqtt_inv handlers S" and "mq_subs S (ms_topic sub) = Some sub"
  shows "mqtt_inv handlers (snd (mqtt_unsubscribe P sub True answer S))"
  using assms(2,3)
  by (auto simp: mqtt_unsubscribe_def Let_def mqtt_inv_def routed_def sm_remove_only_def handlers_simps [OF assms(1)] split: option.splits)

lemma mqtt_do_inv:
  assumes "router_ok P handlers" and "mqtt_inv handlers S" and "careful c S"
  shows "mqtt_inv handlers (mqtt_do P dec parse made c S)"
proof (cases c)
  case (CallConnect now)
  then show ?thesis using connect_ok_inv [OF assms(1,2)] assms(3) by simp
next
  case (CallSubscribe t h b mws q nl answer)
  then show ?thesis using subscribe_inv [OF assms(1,2)] assms(3) by simp
next
  case (CallUnsubscribe sub flag answer)
  then show ?thesis using unsubscribe_inv [OF assms(1,2)] assms(3) by simp
next
  case (Up n)
  have "mqtt_inv handlers (connection_up n S)" if "n \<in> mq_live S"
  proof -
    have "mq_client S = Some n" using that assms(2) by (simp add: mqtt_inv_def)
    moreover have "mq_router S = Some n" using calculation assms(2) by (simp add: mqtt_inv_def)
    ultimately show ?thesis using assms(2) by (simp add: mqtt_inv_def connection_up_def routed_def)
  qed
  then show ?thesis using Up assms(2) by simp
next
  case (Lost o1 now e)
  then show ?thesis using same_routing_inv [OF connection_lost_same assms(2)] by simp
qed (use disconnect_inv [OF assms(2)] in simp)

lemma careful_run_inv:
  assumes "careful_run P dec parse made opts S" and "router_ok P handlers"
  shows "mqtt_inv handlers S"
  using assms(1)
proof induction
  case init
  show ?case by (simp add: mqtt_inv_def new_mqtt_broker_def new_subscriber_sync_map_def)
next
  case (step S c)
  then show ?case using mqtt_do_inv [OF assms(2)] by blast
qed

text \<open>C39: In an MQTT broker whose calls do not overlap, and which is used with care, the router of the current connection passes the messages
  of each topic filter to the one subscriber the registry has for it, and those of all others to nobody; through lost connections, connections that
  come back, failed subscriptions, and a \<open>Disconnect\<close> with a \<open>Connect\<close> after it. With care: no topic is subscribed while it is in the registry, only
  registered subscribers are unsubscribed, and \<open>Connect\<close> is called again only after a \<open>Disconnect\<close> and with an empty registry.\<close>

theorem mqtt_messages_reach_subscriber:
  assumes "careful_run P dec parse made opts S" and "router_ok P handlers" and "mq_client S = Some n"
  shows "handlers (mq_routers S n) t = (case mq_subs S t of None \<Rightarrow> [] | Some sub \<Rightarrow> [sub])"
  using careful_run_inv [OF assms(1,2)] assms(3) by (auto simp: mqtt_inv_def routed_def registered_def)

text \<open>A router that is the function from filters to their handlers.\<close>

definition sample_router :: "(string \<Rightarrow> (nat, unit) mqtt_subscriber list, nat, unit) paho_router" where
  "sample_router = \<lparr>pr_new = (\<lambda>_. []), pr_register = (\<lambda>t sub r. r(t := r t @ [sub])), pr_unregister = (\<lambda>t r. r(t := []))\<rparr>"

lemma sample_router_ok: "router_ok sample_router (\<lambda>r. r)"
  by (auto simp: router_ok_def sample_router_def)

definition sample_options :: mqtt_options where
  "sample_options = \<lparr>mo_addrs = [], mo_codec = None, mo_error_handler = False, mo_client_id = None, mo_auth = None, mo_keep_alive = None,
     mo_connect_timeout = None, mo_retry_interval = None, mo_resume = None\<rparr>"

definition sample_connected :: "(string \<Rightarrow> (nat, unit) mqtt_subscriber list, nat, unit) mqtt_broker" where
  "sample_connected = mqtt_do sample_router (\<lambda>_. []) (\<lambda>_. Inr ()) (\<lambda>_. Inr ()) (CallConnect 5) (new_mqtt_broker sample_router sample_options)"

definition sample_subscribed :: "(string \<Rightarrow> (nat, unit) mqtt_subscriber list, nat, unit) mqtt_broker" where
  "sample_subscribed = mqtt_do sample_router (\<lambda>_. []) (\<lambda>_. Inr ()) (\<lambda>_. Inr ())
     (CallSubscribe ''t'' (Some 7) None [] None False (Inr [0])) sample_connected"

lemmas sample_evaluation = sample_connected_def connect_ok_def connect_begin_def connect_end_def connection_up_def new_mqtt_broker_def
  sample_options_def new_subscriber_sync_map_def Let_def

lemma sample_connected_state:
  "mq_client sample_connected = Some 0" "mq_router sample_connected = Some 0" "mq_connected sample_connected" "mq_subs sample_connected = Map.empty"
  "mq_sub_id sample_connected = 0" "mq_routers sample_connected = (\<lambda>_. (\<lambda>_. []))"
  by (simp_all add: sample_evaluation sample_router_def fun_eq_iff)

definition sample_subscriber :: "(nat, unit) mqtt_subscriber" where
  "sample_subscriber = \<lparr>ms_topic = ''t'', ms_id = 1, ms_handler = 7, ms_binder = None, ms_qos = None, ms_no_local = False\<rparr>"

lemma sample_subscribed_state:
  "mq_client sample_subscribed = Some 0" "mq_subs sample_subscribed ''t'' = Some sample_subscriber"
  by (simp_all add: sample_subscribed_def mqtt_subscribe_def sample_connected_state subscribe_answer_def sample_subscriber_def Let_def
      chain_subscriber_middleware_def sm_add_def)

lemma sample_subscribed_run: "careful_run sample_router (\<lambda>_. []) (\<lambda>_. Inr ()) (\<lambda>_. Inr ()) sample_options sample_subscribed"
proof -
  have "careful_run sample_router (\<lambda>_. []) (\<lambda>_. Inr ()) (\<lambda>_. Inr ()) sample_options sample_connected"
    unfolding sample_connected_def
    by (rule careful_run.step [OF careful_run.init]) (simp add: new_mqtt_broker_def new_subscriber_sync_map_def)
  then show ?thesis unfolding sample_subscribed_def
    by (rule careful_run.step) (simp add: sample_connected_state)
qed

lemma mqtt_messages_reach_subscriber_witness: "mq_routers sample_subscribed 0 ''t'' = [sample_subscriber]"
  using mqtt_messages_reach_subscriber [OF sample_subscribed_run sample_router_ok sample_subscribed_state(1), of "''t''"]
  by (simp add: sample_subscribed_state)

subsection \<open>Why the care is needed\<close>

text \<open>A second subscriber of a topic goes down with the first: unsubscribing the first removes both handlers, and the registry's entry is then
  the second's.\<close>

lemma unsubscribing_one_silences_all:
  assumes "router_ok P handlers" and "is_ok answer" and "mq_router S = Some r"
    and "S' = snd (mqtt_unsubscribe P sub True answer S)"
  shows "handlers (mq_routers S' r) (ms_topic sub) = [] \<and> mq_subs S' (ms_topic sub) = None"
  using assms(2-4) by (auto simp: mqtt_unsubscribe_def Let_def handlers_simps [OF assms(1)] sm_remove_only_def)

text \<open>A subscription the server refuses silences the subscriber the topic already has.\<close>

lemma refused_subscription_silences:
  assumes "router_ok P handlers" and "mq_client S = Some r" and "mq_router S = Some r" and "mq_connected S" and "t \<noteq> []"
    and "\<not> is_ok (subscribe_answer t answer)" and "S' = snd (mqtt_subscribe P t (Some h) b mws q nl answer S)"
  shows "handlers (mq_routers S' r) t = [] \<and> mq_subs S' = mq_subs S"
  using assms(2-7) by (auto simp: mqtt_subscribe_def Let_def handlers_simps [OF assms(1)] subscribe_failed_def split: sum.splits)

text \<open>A broker that is disconnected and connected again keeps its registry, and subscribes its topics at the server, but its new router has no
  handler.\<close>

lemma reconnecting_loses_handlers:
  assumes "router_ok P handlers" and "S1 = snd (mqtt_disconnect now answer S)"
    and "connect_begin P now dec parse made S1 = (Inr (Some n), S2)" and "S3 = snd (connect_end n (Inr ()) now (connection_up n S2))"
  shows "mq_client S3 = Some n \<and> handlers (mq_routers S3 n) t = [] \<and> mq_subs S3 = mq_subs S"
proof -
  have "mq_subs S1 = mq_subs S" using assms(2) by (auto simp: mqtt_disconnect_def Let_def split: option.splits)
  moreover have "n = mq_managers S1" "mq_subs S2 = mq_subs S1" "mq_routers S2 n = pr_new P"
    using assms(3) by (auto simp: connect_begin_def Let_def split: if_splits sum.splits)
  ultimately show ?thesis using assms(4) handlers_simps(1) [OF assms(1)] by (simp add: connect_end_def connection_up_def)
qed

text \<open>A \<open>Connect\<close> that gave up leaves its manager behind. When that one connects later, the broker counts as connected, so \<open>Connect\<close> does nothing,
  but it has no router, so every subscription fails.\<close>

lemma late_connection_blocks_subscriptions:
  assumes "mq_router S = None" and "connect_begin P now dec parse made S = (Inr (Some n), S1)"
    and "S2 = connection_up n (snd (connect_end n (Inl e) now S1))" and "t \<noteq> []"
  shows "fst (mqtt_subscribe P t (Some h) b mws q nl answer S2) = Inl err_not_connected \<and>
    connect_begin P now' dec parse made S2 = (Inr None, S2)"
proof -
  have "mq_router S1 = None" using assms(1,2) by (auto simp: connect_begin_def Let_def split: if_splits sum.splits)
  then have "mq_router S2 = None" "mq_connected S2" using assms(3) by (auto simp: connect_end_def connection_up_def Let_def)
  then show ?thesis using assms(4) by (auto simp: mqtt_subscribe_def connect_begin_def Let_def split: option.splits)
qed

text \<open>A keep-alive below a second turns keep-alive off, and one of 65536 seconds wraps to 0 too.\<close>

lemma keep_alive_off:
  "keep_alive_seconds (sample_options\<lparr>mo_keep_alive := Some (500 * millisecond)\<rparr>) = 0"
  "keep_alive_seconds (sample_options\<lparr>mo_keep_alive := Some (65536 * second)\<rparr>) = 0"
  by (simp_all add: keep_alive_seconds_def sample_options_def second_def millisecond_def signed_divide_int_def)

text \<open>A \<open>Publish\<close> counts as published exactly if it returns nil, as an error otherwise, and as pending only while it runs.\<close>

lemma publish_counted:
  assumes "mqtt_publish json marshal clock topic msg q answer S = (r, S')"
  shows "st_published (mq_stats S') = st_published (mq_stats S) + (if is_ok r then 1 else 0)"
    and "st_publish_errors (mq_stats S') = st_publish_errors (mq_stats S) + (if is_ok r then 0 else 1)"
    and "st_publish_pending (mq_stats S') = st_publish_pending (mq_stats S)"
  using assms
  by (auto simp: mqtt_publish_def publish_failed_def record_publish_error_def record_error_def record_message_def upd_stats_def
      begin_publish_def finish_publish_def Let_def split: option.splits sum.splits if_splits)

text \<open>Each message that is handled leaves the number of messages in flight as it was.\<close>

lemma in_flight_restored: "st_in_flight (mq_stats (handle_end json clock raw err (handle_begin S))) = st_in_flight (mq_stats S)"
  by (simp add: handle_end_def handle_begin_def upd_stats_def record_message_def record_error_def Let_def split: option.splits)

end
