(* ===== verification/Redis_Queue.thy ===== *)
theory Redis_Queue
  imports Go_Strings "HOL-Library.Multiset"
begin

text \<open>
  The consumer and the producer of Redis streams (queue/redisqueue). What Redis and its client answer are arguments, so nothing is asked
  of them, and what a request says of counts and times does not matter. \<open>consumer_step\<close> interleaves the goroutines of a consumer; the commands that remove a message from Redis are logged.
\<close>

subsection \<open>Options and messages\<close>

record 'v rmessage =
  rm_id :: string
  rm_stream :: string
  rm_values :: 'v

record consumer_options =
  ro_name :: string
  ro_group_name :: string
  ro_visibility_timeout :: duration
  ro_blocking_timeout :: duration
  ro_reclaim_interval :: duration
  ro_buffer_size :: int
  ro_concurrency :: int

definition default_consumer_options :: consumer_options where
  "default_consumer_options = \<lparr>ro_name = [], ro_group_name = [], ro_visibility_timeout = 60 * second, ro_blocking_timeout = 5 * second,
     ro_reclaim_interval = second, ro_buffer_size = 100, ro_concurrency = 10\<rparr>"

definition normalize_consumer_options :: "string \<Rightarrow> consumer_options option \<Rightarrow> consumer_options" where
  "normalize_consumer_options hostname options =
     (let o0 = (case options of None \<Rightarrow> \<lparr>ro_name = [], ro_group_name = [], ro_visibility_timeout = 0, ro_blocking_timeout = 0,
                  ro_reclaim_interval = 0, ro_buffer_size = 0, ro_concurrency = 0\<rparr> | Some o1 \<Rightarrow> o1);
          d = default_consumer_options in
      \<lparr>ro_name = (if ro_name o0 = [] then hostname else ro_name o0),
       ro_group_name = (if ro_group_name o0 = [] then ''redisqueue'' else ro_group_name o0),
       ro_visibility_timeout = (if ro_visibility_timeout o0 = 0 then ro_visibility_timeout d else ro_visibility_timeout o0),
       ro_blocking_timeout = (if ro_blocking_timeout o0 = 0 then ro_blocking_timeout d else ro_blocking_timeout o0),
       ro_reclaim_interval = (if ro_reclaim_interval o0 = 0 then ro_reclaim_interval d else ro_reclaim_interval o0),
       ro_buffer_size = (if ro_buffer_size o0 \<le> 0 then ro_buffer_size d else ro_buffer_size o0),
       ro_concurrency = (if ro_concurrency o0 \<le> 0 then ro_concurrency d else ro_concurrency o0)\<rparr>)"

record producer_options =
  po_max_length :: int
  po_approximate :: bool

definition default_producer_options :: producer_options where
  "default_producer_options = \<lparr>po_max_length = 1000, po_approximate = True\<rparr>"

definition normalize_producer_options :: "producer_options option \<Rightarrow> producer_options" where
  "normalize_producer_options options =
     (case options of
        None \<Rightarrow> default_producer_options
      | Some o1 \<Rightarrow> if po_max_length o1 \<le> 0 then o1\<lparr>po_max_length := po_max_length default_producer_options\<rparr> else o1)"

record 'v xadd_args =
  xa_id :: string
  xa_stream :: string
  xa_values :: 'v
  xa_max_len :: int
  xa_approx :: bool

definition build_xadd_args :: "producer_options \<Rightarrow> 'v rmessage \<Rightarrow> 'v xadd_args" where
  "build_xadd_args opts m = \<lparr>xa_id = rm_id m, xa_stream = rm_stream m, xa_values = rm_values m, xa_max_len = po_max_length opts,
     xa_approx = po_approximate opts\<rparr>"

definition enqueue_context ::
    "('v xadd_args \<Rightarrow> 's \<Rightarrow> string res \<times> 's) \<Rightarrow> producer_options \<Rightarrow> 'v rmessage \<Rightarrow> 's \<Rightarrow> (unit res \<times> 'v rmessage) \<times> 's" where
  "enqueue_context xadd opts m s =
     (case xadd (build_xadd_args opts m) s of
        (Inl e, s') \<Rightarrow> ((Inl e, m), s')
      | (Inr i, s') \<Rightarrow> ((Inr (), m\<lparr>rm_id := i\<rparr>), s'))"

text \<open>The version in what Redis says of itself: \<open>versions\<close> are the matches of the pattern in it.\<close>

definition redis_preflight_checks :: "(string \<Rightarrow> string list) \<Rightarrow> (string \<Rightarrow> int res) \<Rightarrow> string res \<Rightarrow> unit res" where
  "redis_preflight_checks versions atoi info =
     (case info of
        Inl e \<Rightarrow> Inl e
      | Inr text \<Rightarrow>
          (case versions text of
             [] \<Rightarrow> Inl (NewErr ''could not extract redis version'')
           | v # _ \<Rightarrow>
               (case atoi (hd (split_byte (trim_space v) CHR ''.'')) of
                  Inl e \<Rightarrow> Inl e
                | Inr major \<Rightarrow>
                    if major < 5 then Inl (NewErr (''redis streams are not supported in version '' @ trim_space v)) else Inr ())))"

text \<open>The sum is that of \<open>int64\<close>.\<close>

definition increment_message_id :: "string \<Rightarrow> string res" where
  "increment_message_id i =
     (let parts = split_byte i CHR ''-'' in
      if length parts < 2 then Inl (Panic ''index out of range'')
      else (case parse_int64 (parts ! 1) of
              None \<Rightarrow> Inl (NewErr (''error parsing message ID '' @ i))
            | Some n \<Rightarrow> Inr (parts ! 0 @ ''-'' @ show_int (wrap64 (n + 1)))))"

subsection \<open>A consumer\<close>

text \<open>A message Redis calls pending: its identifier and how long it was idle.\<close>

type_synonym pending = "string \<times> duration"

text \<open>
  Where a goroutine is. \<open>PollPut\<close> and \<open>ReclaimPut\<close> have messages to put into the queue. \<open>Listing streams start\<close> is about to list what is pending
  in the first of the streams; \<open>Claiming streams items last\<close> goes through a list that ended with \<open>last\<close>, and \<open>AckGone\<close> acknowledges a message
  that is no longer there. \<open>Acking\<close> and \<open>Deleting\<close> are the two commands of \<open>acknowledgeMessage\<close>.
\<close>

datatype 'v phase =
    Polling
  | PollPut "'v rmessage list"
  | Reclaiming
  | Listing "string list" string
  | Claiming "string list" "pending list" string
  | AckGone "string list" string "pending list" string
  | ReclaimPut "string list" "pending list" string "'v rmessage list"
  | Closing
  | Working
  | Handling "'v rmessage"
  | Acking "'v rmessage"
  | Deleting "'v rmessage"
  | Ended

text \<open>A command that was sent: an acknowledgement after the handler, one of a message that is gone, a deletion.\<close>

datatype command = CmdAck string string | CmdAckGone string string | CmdDel string string

record ('f, 'v) consumer =
  rc_options :: consumer_options
  rc_consumers :: "string \<rightharpoonup> 'f \<times> string"
  rc_errors :: "go_err list"
  rc_queue :: "'v rmessage list"
  rc_closed :: bool
  rc_running :: bool
  rc_stopped :: bool
  rc_cancelled :: bool
  rc_threads :: "'v phase list"
  rc_bg :: int
  rc_wg :: int
  rc_panic :: bool
  rc_commands :: "command list"
  rc_put :: "'v rmessage multiset"
  rc_handled :: "('v rmessage \<times> bool) multiset"

definition new_consumer :: "string \<Rightarrow> consumer_options option \<Rightarrow> unit res \<Rightarrow> ('f, 'v) consumer res" where
  "new_consumer hostname options checked =
     (case checked of
        Inl e \<Rightarrow> Inl e
      | Inr _ \<Rightarrow>
          Inr \<lparr>rc_options = normalize_consumer_options hostname options, rc_consumers = Map.empty, rc_errors = [], rc_queue = [],
               rc_closed = False, rc_running = False, rc_stopped = False, rc_cancelled = False, rc_threads = [], rc_bg = 0, rc_wg = 0,
               rc_panic = False, rc_commands = [], rc_put = {#}, rc_handled = {#}\<rparr>)"

definition report_error :: "go_err \<Rightarrow> ('f, 'v) consumer \<Rightarrow> ('f, 'v) consumer" where
  "report_error e C = (if int (length (rc_errors C)) < ro_buffer_size (rc_options C) then C\<lparr>rc_errors := rc_errors C @ [e]\<rparr> else C)"

text \<open>The answer of \<open>XGROUP CREATE\<close>.\<close>

definition create_consumer_group :: "unit res \<Rightarrow> unit res" where
  "create_consumer_group answer =
     (case answer of
        Inl e \<Rightarrow> if err_text e \<noteq> ''BUSYGROUP Consumer Group name already exists'' then Inl e else Inr ()
      | Inr _ \<Rightarrow> Inr ())"

definition register_with_last_id :: "string \<Rightarrow> string \<Rightarrow> 'f \<Rightarrow> unit res \<Rightarrow> ('f, 'v) consumer \<Rightarrow> ('f, 'v) consumer" where
  "register_with_last_id stream i fn answer C =
     (let i' = (if length i = 0 then ''0'' else i);
          C' = C\<lparr>rc_consumers := (rc_consumers C)(stream \<mapsto> (fn, i'))\<rparr> in
      if rc_running C then
        (case create_consumer_group answer of
           Inl e \<Rightarrow> report_error (WrapErr ''error creating consumer group'' e) C'
         | Inr _ \<Rightarrow> C')
      else C')"

fun prepare_consumer_groups :: "unit res list \<Rightarrow> unit res" where
  "prepare_consumer_groups [] = Inr ()"
| "prepare_consumer_groups (a # as) =
     (case create_consumer_group a of
        Inl e \<Rightarrow> Inl (WrapErr ''error creating consumer group'' e)
      | Inr _ \<Rightarrow> prepare_consumer_groups as)"

definition build_read_streams :: "string list \<Rightarrow> string list option" where
  "build_read_streams streams = (if streams = [] then None else Some (streams @ map (\<lambda>_. ''>'') streams))"

definition get_consumer :: "string \<Rightarrow> ('f, 'v) consumer \<Rightarrow> ('f \<times> string) option" where
  "get_consumer stream C = rc_consumers C stream"

text \<open>\<open>RunContext\<close> until it waits: the goroutines it starts. \<open>answers\<close> are those of Redis to the groups it makes.\<close>

definition run_context :: "unit res list \<Rightarrow> ('f, 'v) consumer \<Rightarrow> ('f, 'v) consumer" where
  "run_context answers C =
     (if rc_running C then C
      else if rc_consumers C = Map.empty
      then report_error (NewErr ''at least one consumer function needs to be registered'') C
      else (case prepare_consumer_groups answers of
              Inl e \<Rightarrow> report_error e C
            | Inr _ \<Rightarrow>
                (let reclaims = 0 < ro_visibility_timeout (rc_options C) in
                 C\<lparr>rc_running := True,
                   rc_threads := rc_threads C @ (if reclaims then [Reclaiming] else []) @ [Polling, Closing]
                     @ replicate (nat (ro_concurrency (rc_options C))) Working,
                   rc_bg := rc_bg C + (if reclaims then 2 else 1), rc_wg := rc_wg C + ro_concurrency (rc_options C)\<rparr>)))"

definition consumer_shutdown :: "('f, 'v) consumer \<Rightarrow> ('f, 'v) consumer" where
  "consumer_shutdown C = (if \<not> rc_running C then C else C\<lparr>rc_running := False, rc_stopped := True\<rparr>)"

subsection \<open>Its goroutines\<close>

definition goto :: "nat \<Rightarrow> 'v phase \<Rightarrow> ('f, 'v) consumer \<Rightarrow> ('f, 'v) consumer" where
  "goto i ph C = C\<lparr>rc_threads := (rc_threads C)[i := ph]\<rparr>"

definition log_command :: "command \<Rightarrow> ('f, 'v) consumer \<Rightarrow> ('f, 'v) consumer" where
  "log_command c C = C\<lparr>rc_commands := rc_commands C @ [c]\<rparr>"

text \<open>\<open>enqueue\<close> makes the messages it puts.\<close>

definition to_messages :: "string \<Rightarrow> (string \<times> 'v) list \<Rightarrow> 'v rmessage list" where
  "to_messages stream xs = map (\<lambda>(i, v). \<lparr>rm_id = i, rm_stream = stream, rm_values = v\<rparr>) xs"

definition put_message :: "'v rmessage \<Rightarrow> ('f, 'v) consumer \<Rightarrow> ('f, 'v) consumer" where
  "put_message m C =
     (if rc_closed C then C\<lparr>rc_panic := True\<rparr> else C\<lparr>rc_queue := rc_queue C @ [m], rc_put := add_mset m (rc_put C)\<rparr>)"

definition may_put :: "('f, 'v) consumer \<Rightarrow> bool" where
  "may_put C \<longleftrightarrow> rc_closed C \<or> int (length (rc_queue C)) < ro_buffer_size (rc_options C)"

text \<open>The answers of Redis to a read: it was too long, there was nothing, an error, or messages of streams.\<close>

datatype 'v read_answer = ReadTimeout | ReadNothing | ReadFailed go_err | ReadMessages "(string \<times> (string \<times> 'v) list) list"

definition after_read :: "nat \<Rightarrow> 'v read_answer \<Rightarrow> ('f, 'v) consumer \<Rightarrow> ('f, 'v) consumer" where
  "after_read i ans C =
     (case ans of
        ReadFailed e \<Rightarrow> report_error (WrapErr ''error reading redis stream'' e) C
      | ReadMessages rs \<Rightarrow> goto i (PollPut (concat (map (\<lambda>(s, xs). to_messages s xs) rs))) C
      | _ \<Rightarrow> C)"

text \<open>To a claim: an error, the message is gone, or what was claimed.\<close>

datatype 'v claim_answer = ClaimFailed go_err | ClaimGone | Claimed "(string \<times> 'v) list"

definition after_list :: "nat \<Rightarrow> string \<Rightarrow> string list \<Rightarrow> pending list res \<Rightarrow> ('f, 'v) consumer \<Rightarrow> ('f, 'v) consumer" where
  "after_list i stream streams ans C =
     (case ans of
        Inl e \<Rightarrow> goto i (Listing streams ''-'') (report_error (WrapErr ''error listing pending messages'' e) C)
      | Inr res \<Rightarrow>
          if length res = 0 then goto i (Listing streams ''-'') C
          else goto i (Claiming (stream # streams) res (fst (last res))) C)"

definition after_claim ::
    "nat \<Rightarrow> string list \<Rightarrow> string \<Rightarrow> pending list \<Rightarrow> string \<Rightarrow> 'v claim_answer \<Rightarrow> ('f, 'v) consumer \<Rightarrow> ('f, 'v) consumer" where
  "after_claim i streams r rs lastid ans C =
     (case ans of
        ClaimFailed e \<Rightarrow> goto i (Claiming streams [] lastid) (report_error (WrapErr ''error claiming message'' e) C)
      | ClaimGone \<Rightarrow> goto i (AckGone streams r rs lastid) C
      | Claimed xs \<Rightarrow> goto i (ReclaimPut streams rs lastid (to_messages (hd streams) xs)) C)"

definition after_items :: "nat \<Rightarrow> string list \<Rightarrow> string \<Rightarrow> ('f, 'v) consumer \<Rightarrow> ('f, 'v) consumer" where
  "after_items i streams lastid C =
     (case increment_message_id lastid of
        Inl (Panic p) \<Rightarrow> C\<lparr>rc_panic := True\<rparr>
      | Inl e \<Rightarrow> goto i (Listing (tl streams) ''-'') (report_error e C)
      | Inr newid \<Rightarrow> goto i (Listing streams newid) C)"

text \<open>\<open>process\<close>: \<open>run\<close> is what the handler does with the message, a panic included.\<close>

definition process_message :: "('f \<Rightarrow> 'v rmessage \<Rightarrow> unit res) \<Rightarrow> 'v rmessage \<Rightarrow> ('f, 'v) consumer \<Rightarrow> unit res" where
  "process_message run m C =
     (case get_consumer (rm_stream m) C of
        None \<Rightarrow> Inl (NewErr (''consumer for '' @ rm_stream m @ '' stream not found''))
      | Some (fn, _) \<Rightarrow>
          (case run fn m of
             Inl (Panic p) \<Rightarrow> Inl (WrapErr ''ConsumerFunc panic'' (NewErr p))
           | r \<Rightarrow> r))"

definition after_process :: "nat \<Rightarrow> 'v rmessage \<Rightarrow> unit res \<Rightarrow> ('f, 'v) consumer \<Rightarrow> ('f, 'v) consumer" where
  "after_process i m r C =
     (let C' = C\<lparr>rc_handled := add_mset (m, is_ok r) (rc_handled C)\<rparr> in
      case r of
        Inl e \<Rightarrow> goto i Working (report_error (WrapErr (''error calling ConsumerFunc for '' @ rm_stream m @ '' stream and '' @ rm_id m @ '' message'') e) C')
      | Inr _ \<Rightarrow> goto i (Acking m) C')"

definition ack_failed :: "'v rmessage \<Rightarrow> go_err \<Rightarrow> go_err" where
  "ack_failed m e = WrapErr (''error acknowledging completed message for '' @ rm_stream m @ '' stream and '' @ rm_id m @ '' message'') e"

inductive consumer_step ::
    "('f, 'v) consumer \<Rightarrow> ('f, 'v) consumer \<Rightarrow> bool" for C where
  register: "\<not> rc_panic C \<Longrightarrow> consumer_step C (register_with_last_id stream i fn answer C)"
| run: "\<not> rc_panic C \<Longrightarrow> consumer_step C (run_context answers C)"
| shutdown: "\<not> rc_panic C \<Longrightarrow> consumer_step C (consumer_shutdown C)"
| cancel: "\<not> rc_panic C \<Longrightarrow> consumer_step C (C\<lparr>rc_cancelled := True\<rparr>)"
| errors_read: "\<not> rc_panic C \<Longrightarrow> consumer_step C (C\<lparr>rc_errors := tl (rc_errors C)\<rparr>)"
| poll_read: "\<not> rc_panic C \<Longrightarrow> i < length (rc_threads C) \<Longrightarrow> rc_threads C ! i = Polling \<Longrightarrow> \<not> rc_cancelled C \<Longrightarrow> \<not> rc_stopped C \<Longrightarrow>
    consumer_step C (after_read i ans C)"
| poll_put: "\<not> rc_panic C \<Longrightarrow> i < length (rc_threads C) \<Longrightarrow> rc_threads C ! i = PollPut (m # ms) \<Longrightarrow> may_put C \<Longrightarrow>
    consumer_step C (goto i (PollPut ms) (put_message m C))"
| poll_again: "\<not> rc_panic C \<Longrightarrow> i < length (rc_threads C) \<Longrightarrow> rc_threads C ! i = PollPut [] \<Longrightarrow> consumer_step C (goto i Polling C)"
| background_ends: "\<not> rc_panic C \<Longrightarrow> i < length (rc_threads C) \<Longrightarrow> rc_threads C ! i \<in> {Polling, Reclaiming} \<Longrightarrow> rc_cancelled C \<or> rc_stopped C \<Longrightarrow>
    consumer_step C (goto i Ended (C\<lparr>rc_bg := rc_bg C - 1\<rparr>))"
| reclaim_tick: "\<not> rc_panic C \<Longrightarrow> i < length (rc_threads C) \<Longrightarrow> rc_threads C ! i = Reclaiming \<Longrightarrow> set streams = dom (rc_consumers C) \<Longrightarrow> distinct streams \<Longrightarrow>
    consumer_step C (goto i (Listing streams ''-'') C)"
| reclaim_list: "\<not> rc_panic C \<Longrightarrow> i < length (rc_threads C) \<Longrightarrow> rc_threads C ! i = Listing (stream # streams) start \<Longrightarrow>
    consumer_step C (after_list i stream streams lans C)"
| reclaim_done: "\<not> rc_panic C \<Longrightarrow> i < length (rc_threads C) \<Longrightarrow> rc_threads C ! i = Listing [] start \<Longrightarrow> consumer_step C (goto i Reclaiming C)"
| reclaim_skip: "\<not> rc_panic C \<Longrightarrow> i < length (rc_threads C) \<Longrightarrow> rc_threads C ! i = Claiming streams ((r, idle) # rs) lastid \<Longrightarrow>
    idle < ro_visibility_timeout (rc_options C) \<Longrightarrow> consumer_step C (goto i (Claiming streams rs lastid) C)"
| reclaim_claim: "\<not> rc_panic C \<Longrightarrow> i < length (rc_threads C) \<Longrightarrow> rc_threads C ! i = Claiming streams ((r, idle) # rs) lastid \<Longrightarrow>
    \<not> idle < ro_visibility_timeout (rc_options C) \<Longrightarrow> consumer_step C (after_claim i streams r rs lastid cans C)"
| reclaim_gone: "\<not> rc_panic C \<Longrightarrow> i < length (rc_threads C) \<Longrightarrow> rc_threads C ! i = AckGone streams r rs lastid \<Longrightarrow>
    consumer_step C (goto i (Claiming streams rs lastid) (log_command (CmdAckGone (hd streams) r)
      (case (answer :: unit res) of
         Inl e \<Rightarrow> report_error (WrapErr (''error acknowledging after failed claim for '' @ hd streams @ '' stream and '' @ r @ '' message'') e) C
       | Inr _ \<Rightarrow> C)))"
| reclaim_put: "\<not> rc_panic C \<Longrightarrow> i < length (rc_threads C) \<Longrightarrow> rc_threads C ! i = ReclaimPut streams rs lastid (m # ms) \<Longrightarrow> may_put C \<Longrightarrow>
    consumer_step C (goto i (ReclaimPut streams rs lastid ms) (put_message m C))"
| reclaim_put_done: "\<not> rc_panic C \<Longrightarrow> i < length (rc_threads C) \<Longrightarrow> rc_threads C ! i = ReclaimPut streams rs lastid [] \<Longrightarrow>
    consumer_step C (goto i (Claiming streams rs lastid) C)"
| reclaim_next: "\<not> rc_panic C \<Longrightarrow> i < length (rc_threads C) \<Longrightarrow> rc_threads C ! i = Claiming streams [] lastid \<Longrightarrow>
    consumer_step C (after_items i streams lastid C)"
| close: "\<not> rc_panic C \<Longrightarrow> i < length (rc_threads C) \<Longrightarrow> rc_threads C ! i = Closing \<Longrightarrow> rc_bg C = 0 \<Longrightarrow>
    consumer_step C (if rc_closed C then C\<lparr>rc_panic := True\<rparr> else goto i Ended (C\<lparr>rc_closed := True\<rparr>))"
| work_take: "\<not> rc_panic C \<Longrightarrow> i < length (rc_threads C) \<Longrightarrow> rc_threads C ! i = Working \<Longrightarrow> rc_queue C = m # q \<Longrightarrow>
    consumer_step C (goto i (Handling m) (C\<lparr>rc_queue := q\<rparr>))"
| work_end: "\<not> rc_panic C \<Longrightarrow> i < length (rc_threads C) \<Longrightarrow> rc_threads C ! i = Working \<Longrightarrow> rc_queue C = [] \<Longrightarrow> rc_closed C \<Longrightarrow>
    consumer_step C (goto i Ended (C\<lparr>rc_wg := rc_wg C - 1\<rparr>))"
| handle: "\<not> rc_panic C \<Longrightarrow> i < length (rc_threads C) \<Longrightarrow> rc_threads C ! i = Handling m \<Longrightarrow> consumer_step C (after_process i m (process_message run m C) C)"
| ack: "\<not> rc_panic C \<Longrightarrow> i < length (rc_threads C) \<Longrightarrow> rc_threads C ! i = Acking m \<Longrightarrow>
    consumer_step C (case (answer :: unit res) of
      Inl e \<Rightarrow> goto i Working (report_error (ack_failed m e) (log_command (CmdAck (rm_stream m) (rm_id m)) C))
    | Inr _ \<Rightarrow> goto i (Deleting m) (log_command (CmdAck (rm_stream m) (rm_id m)) C))"
| delete: "\<not> rc_panic C \<Longrightarrow> i < length (rc_threads C) \<Longrightarrow> rc_threads C ! i = Deleting m \<Longrightarrow>
    consumer_step C (goto i Working (case (answer :: unit res) of
      Inl e \<Rightarrow> report_error (ack_failed m e) (log_command (CmdDel (rm_stream m) (rm_id m)) C)
    | Inr _ \<Rightarrow> log_command (CmdDel (rm_stream m) (rm_id m)) C))"

inductive consumer_reachable :: "('f, 'v) consumer \<Rightarrow> bool" where
  init: "new_consumer hostname options (Inr ()) = Inr C \<Longrightarrow> consumer_reachable C"
| step: "consumer_reachable C \<Longrightarrow> consumer_step C C' \<Longrightarrow> consumer_reachable C'"

subsection \<open>A message leaves Redis only after its handler\<close>

text \<open>The messages whose handler returned nil, by stream and identifier.\<close>

definition succeeded :: "('f, 'v) consumer \<Rightarrow> string \<Rightarrow> string \<Rightarrow> bool" where
  "succeeded C stream i \<longleftrightarrow> (\<exists>m. (m, True) \<in># rc_handled C \<and> rm_stream m = stream \<and> rm_id m = i)"

fun command_ok :: "('f, 'v) consumer \<Rightarrow> command \<Rightarrow> bool" where
  "command_ok C (CmdAck s i) = succeeded C s i"
| "command_ok C (CmdDel s i) = (succeeded C s i \<and> CmdAck s i \<in> set (rc_commands C))"
| "command_ok C (CmdAckGone s i) = True"

fun phase_ok :: "('f, 'v) consumer \<Rightarrow> 'v phase \<Rightarrow> bool" where
  "phase_ok C (Acking m) = succeeded C (rm_stream m) (rm_id m)"
| "phase_ok C (Deleting m) = (succeeded C (rm_stream m) (rm_id m) \<and> CmdAck (rm_stream m) (rm_id m) \<in> set (rc_commands C))"
| "phase_ok C _ = True"

definition commands_inv :: "('f, 'v) consumer \<Rightarrow> bool" where
  "commands_inv C \<longleftrightarrow> (\<forall>c \<in> set (rc_commands C). command_ok C c) \<and> (\<forall>ph \<in> set (rc_threads C). phase_ok C ph)"

lemma report_error_simps [simp]:
  "rc_threads (report_error e C) = rc_threads C" "rc_commands (report_error e C) = rc_commands C" "rc_handled (report_error e C) = rc_handled C"
  "rc_queue (report_error e C) = rc_queue C" "rc_put (report_error e C) = rc_put C" "rc_closed (report_error e C) = rc_closed C"
  "rc_panic (report_error e C) = rc_panic C" "rc_stopped (report_error e C) = rc_stopped C" "rc_running (report_error e C) = rc_running C"
  "rc_consumers (report_error e C) = rc_consumers C" "rc_options (report_error e C) = rc_options C" "rc_bg (report_error e C) = rc_bg C"
  "rc_wg (report_error e C) = rc_wg C" "rc_cancelled (report_error e C) = rc_cancelled C"
  by (simp_all add: report_error_def)

lemma goto_simps [simp]:
  "rc_threads (goto i ph C) = (rc_threads C)[i := ph]" "rc_commands (goto i ph C) = rc_commands C" "rc_handled (goto i ph C) = rc_handled C"
  "rc_queue (goto i ph C) = rc_queue C" "rc_put (goto i ph C) = rc_put C" "rc_closed (goto i ph C) = rc_closed C" "rc_panic (goto i ph C) = rc_panic C"
  by (simp_all add: goto_def)

lemma log_command_simps [simp]:
  "rc_threads (log_command c C) = rc_threads C" "rc_commands (log_command c C) = rc_commands C @ [c]" "rc_handled (log_command c C) = rc_handled C"
  "rc_queue (log_command c C) = rc_queue C" "rc_put (log_command c C) = rc_put C" "rc_closed (log_command c C) = rc_closed C"
  by (simp_all add: log_command_def)

text \<open>A step adds to the log and to the results, and moves one goroutine or starts new ones.\<close>

lemma command_ok_mono:
  assumes "command_ok C c" and "\<And>m. (m, True) \<in># rc_handled C \<Longrightarrow> (m, True) \<in># rc_handled C'" and "set (rc_commands C) \<subseteq> set (rc_commands C')"
  shows "command_ok C' c"
  using assms by (cases c) (auto simp: succeeded_def)

lemma phase_ok_mono:
  assumes "phase_ok C ph" and "\<And>m. (m, True) \<in># rc_handled C \<Longrightarrow> (m, True) \<in># rc_handled C'" and "set (rc_commands C) \<subseteq> set (rc_commands C')"
  shows "phase_ok C' ph"
  using assms by (cases ph) (auto simp: succeeded_def)

lemma commands_inv_grow:
  assumes "commands_inv C" and "\<And>m. (m, True) \<in># rc_handled C \<Longrightarrow> (m, True) \<in># rc_handled C'"
    and "rc_commands C' = rc_commands C @ cs" and "\<forall>c \<in> set cs. command_ok C' c"
    and "\<And>ph. ph \<in> set (rc_threads C') \<Longrightarrow> ph \<in> set (rc_threads C) \<or> phase_ok C' ph"
  shows "commands_inv C'"
proof -
  have sub: "set (rc_commands C) \<subseteq> set (rc_commands C')" using assms(3) by auto
  have "command_ok C' c" if "c \<in> set (rc_commands C')" for c
    using that assms(1,3,4) command_ok_mono [OF _ assms(2) sub] by (auto simp: commands_inv_def)
  moreover have "phase_ok C' ph" if "ph \<in> set (rc_threads C')" for ph
    using assms(5) [OF that] assms(1) phase_ok_mono [OF _ assms(2) sub] by (auto simp: commands_inv_def)
  ultimately show ?thesis by (simp add: commands_inv_def)
qed

lemma in_update: "ph \<in> set (xs[i := x]) \<Longrightarrow> ph = x \<or> ph \<in> set xs"
  using set_update_subset_insert by fastforce

text \<open>A step that sends no command and moves a goroutine to a place before the acknowledgement.\<close>

lemma commands_inv_quiet:
  assumes "commands_inv C" and "rc_commands C' = rc_commands C" and "\<And>m. (m, True) \<in># rc_handled C \<Longrightarrow> (m, True) \<in># rc_handled C'"
    and "\<And>ph. ph \<in> set (rc_threads C') \<Longrightarrow> ph \<in> set (rc_threads C) \<or> phase_ok C' ph"
  shows "commands_inv C'"
  using commands_inv_grow [OF assms(1,3), of "[]"] assms(2,4) by simp

lemmas quiet_defs = register_with_last_id_def run_context_def consumer_shutdown_def after_read_def after_list_def after_claim_def after_items_def
  put_message_def Let_def

lemma quiet_phases:
  "rc_commands (register_with_last_id stream i fn answer C) = rc_commands C" "rc_threads (register_with_last_id stream i fn answer C) = rc_threads C"
  "rc_handled (register_with_last_id stream i fn answer C) = rc_handled C"
  by (simp_all add: register_with_last_id_def Let_def split: sum.splits)

lemma run_context_threads:
  "ph \<in> set (rc_threads (run_context answers C)) \<Longrightarrow> ph \<in> set (rc_threads C) \<or> phase_ok C' ph"
  "rc_commands (run_context answers C) = rc_commands C" "rc_handled (run_context answers C) = rc_handled C"
  by (auto simp: run_context_def Let_def split: if_splits sum.splits)

lemma handled_step:
  assumes "commands_inv C" and "rc_threads C ! i = Handling m"
  shows "commands_inv (after_process i m r C)"
proof (cases r)
  case (Inl e)
  show ?thesis
    by (rule commands_inv_quiet [OF assms(1)]) (auto simp: Inl after_process_def Let_def dest!: in_update)
next
  case (Inr u)
  show ?thesis
    by (rule commands_inv_quiet [OF assms(1)]) (auto simp: Inr after_process_def Let_def succeeded_def dest!: in_update)
qed

lemma commands_inv_step:
  assumes "consumer_step C C'" and "commands_inv C"
  shows "commands_inv C'"
  using assms(1)
proof (cases rule: consumer_step.cases)
  case (run answers)
  show ?thesis unfolding run(1)
    by (rule commands_inv_quiet [OF assms(2)]) (simp_all add: run_context_threads)
next
  case (handle i m run)
  then show ?thesis using handled_step [OF assms(2)] by simp
next
  case (ack i m answer)
  have "phase_ok C (Acking m)" using ack(3,4) assms(2) by (metis commands_inv_def nth_mem)
  then show ?thesis unfolding ack(1)
    by (intro commands_inv_grow [OF assms(2), of _ "[CmdAck (rm_stream m) (rm_id m)]"])
      (auto simp: succeeded_def split: sum.splits dest!: in_update)
next
  case (delete i m answer)
  have "phase_ok C (Deleting m)" using delete(3,4) assms(2) by (metis commands_inv_def nth_mem)
  then show ?thesis unfolding delete(1)
    by (intro commands_inv_grow [OF assms(2), of _ "[CmdDel (rm_stream m) (rm_id m)]"])
      (auto simp: succeeded_def split: sum.splits dest!: in_update)
next
  case (reclaim_gone i streams r rs lastid answer)
  then show ?thesis unfolding reclaim_gone(1)
    by (intro commands_inv_grow [OF assms(2), of _ "[CmdAckGone (hd streams) r]"]) (auto split: sum.splits dest!: in_update)
next
  case (reclaim_next i streams lastid)
  then show ?thesis
    by (intro commands_inv_quiet [OF assms(2)]) (auto simp: after_items_def split: sum.splits go_err.splits dest!: in_update)
qed (intro commands_inv_quiet [OF assms(2)];
  auto simp: quiet_defs quiet_phases split: sum.splits if_splits read_answer.splits claim_answer.splits dest!: in_update)+

lemma reachable_commands: "consumer_reachable C \<Longrightarrow> commands_inv C"
proof (induction rule: consumer_reachable.induct)
  case (init hostname options C)
  then show ?case by (auto simp: new_consumer_def commands_inv_def)
next
  case (step C C')
  then show ?case using commands_inv_step by blast
qed


text \<open>A consumer reads a message, hands it to its handler, and acknowledges it.\<close>

definition sample_consumer :: "(unit, nat) consumer" where
  "sample_consumer =
     \<lparr>rc_options = normalize_consumer_options ''h'' None, rc_consumers = Map.empty, rc_errors = [], rc_queue = [], rc_closed = False,
      rc_running = False, rc_stopped = False, rc_cancelled = False, rc_threads = [], rc_bg = 0, rc_wg = 0, rc_panic = False, rc_commands = [],
      rc_put = {#}, rc_handled = {#}\<rparr>"

definition sample_entry :: "nat rmessage" where "sample_entry = \<lparr>rm_id = ''1-0'', rm_stream = ''s'', rm_values = 7\<rparr>"

definition sample_run :: "(unit, nat) consumer" where
  "sample_run = run_context [Inr ()] (register_with_last_id ''s'' [] () (Inr ()) sample_consumer)"

definition sample_got :: "(unit, nat) consumer" where
  "sample_got = goto 3 (Handling sample_entry)
     ((goto 1 (PollPut []) (put_message sample_entry (goto 1 (PollPut [sample_entry]) sample_run)))\<lparr>rc_queue := []\<rparr>)"

definition sample_acked :: "(unit, nat) consumer" where
  "sample_acked = goto 3 (Deleting sample_entry) (log_command (CmdAck ''s'' ''1-0'') (after_process 3 sample_entry (Inr ()) sample_got))"

lemma sample_run_state:
  "rc_threads sample_run = [Reclaiming, Polling, Closing] @ replicate 10 Working" "rc_queue sample_run = []" "\<not> rc_closed sample_run"
  "\<not> rc_panic sample_run" "\<not> rc_cancelled sample_run" "\<not> rc_stopped sample_run" "rc_consumers sample_run = [''s'' \<mapsto> ((), ''0'')]"
  "rc_options sample_run = normalize_consumer_options ''h'' None" "rc_commands sample_run = []"
  by (simp_all add: sample_run_def run_context_def register_with_last_id_def sample_consumer_def create_consumer_group_def Let_def
      normalize_consumer_options_def default_consumer_options_def second_def)

lemma sample_acked_reachable: "consumer_reachable sample_acked"
proof -
  have start: "consumer_reachable sample_consumer"
    by (rule consumer_reachable.init [of "''h''" None]) (simp add: new_consumer_def sample_consumer_def)
  have "consumer_reachable (register_with_last_id ''s'' [] () (Inr ()) sample_consumer)"
    by (rule consumer_reachable.step [OF start]) (rule consumer_step.register, simp add: sample_consumer_def)
  then have run: "consumer_reachable sample_run"
    unfolding sample_run_def
    by (rule consumer_reachable.step) (rule consumer_step.run, simp add: register_with_last_id_def sample_consumer_def Let_def)
  define C1 where "C1 = goto 1 (PollPut [sample_entry]) sample_run"
  define C2 where "C2 = goto 1 (PollPut []) (put_message sample_entry C1)"
  have "C1 = after_read 1 (ReadMessages [(''s'', [(''1-0'', 7)])]) sample_run"
    by (simp add: C1_def after_read_def to_messages_def sample_entry_def)
  then have C1: "consumer_reachable C1"
    using consumer_reachable.step [OF run consumer_step.poll_read [of sample_run 1 "ReadMessages [(''s'', [(''1-0'', 7)])]"]] sample_run_state by simp
  have state: "rc_threads C1 = [Reclaiming, PollPut [sample_entry], Closing] @ replicate 10 Working" "\<not> rc_panic C1" "rc_queue C1 = []" "\<not> rc_closed C1"
    "rc_options C1 = normalize_consumer_options ''h'' None" "rc_consumers C1 = [''s'' \<mapsto> ((), ''0'')]"
    using sample_run_state by (simp_all add: C1_def goto_def)
  have "may_put C1" using state by (simp add: may_put_def normalize_consumer_options_def default_consumer_options_def)
  then have C2: "consumer_reachable C2"
    unfolding C2_def
    by (intro consumer_reachable.step [OF C1 consumer_step.poll_put [of C1 1 sample_entry "[]"]]) (use state in simp_all)
  have state2: "rc_threads C2 = [Reclaiming, PollPut [], Closing] @ replicate 10 Working" "\<not> rc_panic C2" "rc_queue C2 = [sample_entry]"
    "rc_consumers C2 = [''s'' \<mapsto> ((), ''0'')]"
    using state by (simp_all add: C2_def put_message_def goto_def)
  have three: "(3::nat) = Suc (Suc (Suc 0))" by simp
  have C3: "consumer_reachable sample_got"
    unfolding sample_got_def C1_def [symmetric] C2_def [symmetric]
    by (rule consumer_reachable.step [OF C2 consumer_step.work_take [of C2 3 sample_entry "[]"]]) (use state2 in \<open>simp_all add: three\<close>)
  have state3: "rc_threads sample_got ! 3 = Handling sample_entry" "3 < length (rc_threads sample_got)" "\<not> rc_panic sample_got"
    "rc_consumers sample_got = [''s'' \<mapsto> ((), ''0'')]"
    unfolding sample_got_def C1_def [symmetric] C2_def [symmetric] using state2 by (simp_all add: goto_def three)
  have ran: "process_message (\<lambda>_ _. Inr ()) sample_entry sample_got = Inr ()"
    using state3 by (simp add: process_message_def get_consumer_def sample_entry_def)
  define C4 where "C4 = after_process 3 sample_entry (Inr ()) sample_got"
  have C4: "consumer_reachable C4" unfolding C4_def
    using consumer_reachable.step [OF C3 consumer_step.handle [of sample_got 3 sample_entry "\<lambda>_ _. Inr ()"]] state3 ran by simp
  have "\<not> rc_panic C4" "3 < length (rc_threads C4)" "rc_threads C4 ! 3 = Acking sample_entry"
    using state3 by (simp_all add: C4_def after_process_def Let_def goto_def)
  then show ?thesis
    using consumer_reachable.step [OF C4 consumer_step.ack [of C4 3 sample_entry "Inr ()"]] by (simp add: sample_acked_def C4_def sample_entry_def)
qed


subsection \<open>No message is lost on its way to a handler\<close>

fun in_hand :: "'v phase \<Rightarrow> 'v rmessage multiset" where
  "in_hand (Handling m) = {#m#}"
| "in_hand _ = {#}"

definition all_in_hand :: "('f, 'v) consumer \<Rightarrow> 'v rmessage multiset" where
  "all_in_hand C = sum_list (map in_hand (rc_threads C))"

definition accounted :: "('f, 'v) consumer \<Rightarrow> bool" where
  "accounted C \<longleftrightarrow> rc_put C = mset (rc_queue C) + all_in_hand C + image_mset fst (rc_handled C)"

lemma sum_list_update_mset:
  "i < length xs \<Longrightarrow> sum_list (map f (xs[i := x])) + f (xs ! i) = sum_list (map f xs) + (f x :: 'a multiset)"
proof (induction xs arbitrary: i)
  case (Cons y ys)
  show ?case
  proof (cases i)
    case 0
    then show ?thesis by (simp add: ac_simps)
  next
    case (Suc j)
    then show ?thesis using Cons.IH [of j] Cons.prems by (simp add: ac_simps)
  qed
qed simp

lemma all_in_hand_goto:
  assumes "i < length (rc_threads C)"
  shows "all_in_hand (goto i ph C) + in_hand (rc_threads C ! i) = all_in_hand C + in_hand ph"
  using sum_list_update_mset [OF assms] by (simp add: all_in_hand_def goto_def)

lemma all_in_hand_same: "rc_threads C' = rc_threads C \<Longrightarrow> all_in_hand C' = all_in_hand C"
  by (simp add: all_in_hand_def)

lemma accounted_move:
  assumes "accounted C" and "i < length (rc_threads C)" and "rc_threads C' = (rc_threads C)[i := ph]" and "in_hand (rc_threads C ! i) = in_hand ph"
    and "rc_put C' + mset (rc_queue C) = rc_put C + mset (rc_queue C')" and "rc_handled C' = rc_handled C"
  shows "accounted C'"
proof -
  have "all_in_hand C' = all_in_hand C"
    using sum_list_update_mset [OF assms(2), of in_hand ph] assms(3,4) by (simp add: all_in_hand_def)
  then have "rc_put C' + mset (rc_queue C) = mset (rc_queue C') + all_in_hand C' + image_mset fst (rc_handled C') + mset (rc_queue C)"
    using assms(1,5,6) by (simp add: accounted_def ac_simps)
  then show ?thesis by (simp add: accounted_def)
qed

lemma accounted_same:
  assumes "accounted C" and "rc_threads C' = rc_threads C" and "rc_put C' = rc_put C" and "rc_queue C' = rc_queue C" and "rc_handled C' = rc_handled C"
  shows "accounted C'"
  using assms by (simp add: accounted_def all_in_hand_def)

lemma accounted_simps [simp]:
  "accounted (report_error e C) = accounted C" "accounted (log_command c C) = accounted C" "accounted (put_message m C) = accounted C"
  "rc_threads (put_message m C) = rc_threads C" "accounted (C\<lparr>rc_panic := b\<rparr>) = accounted C"
  "accounted (C\<lparr>rc_cancelled := b\<rparr>) = accounted C" "accounted (C\<lparr>rc_errors := es\<rparr>) = accounted C"
  by (simp_all add: accounted_def all_in_hand_def put_message_def)

lemma accounted_goto:
  "accounted C \<Longrightarrow> i < length (rc_threads C) \<Longrightarrow> in_hand (rc_threads C ! i) = in_hand ph \<Longrightarrow> accounted (goto i ph C)"
  by (rule accounted_move [where C = C and i = i and ph = ph]) simp_all

lemma accounted_run: "accounted C \<Longrightarrow> accounted (run_context answers C)"
proof -
  have "sum_list (replicate n {#}) = {#}" for n :: nat by (induction n) simp_all
  then show "accounted C \<Longrightarrow> accounted (run_context answers C)"
    by (auto simp: accounted_def all_in_hand_def run_context_def Let_def split: sum.splits)
qed

lemma accounted_take:
  assumes "accounted C" and "i < length (rc_threads C)" and "rc_threads C ! i = Working" and "rc_queue C = m # q"
  shows "accounted (goto i (Handling m) (C\<lparr>rc_queue := q\<rparr>))"
  using assms sum_list_update_mset [OF assms(2), of in_hand "Handling m"] by (simp add: accounted_def all_in_hand_def)

lemma accounted_process:
  assumes "accounted C" and "i < length (rc_threads C)" and "rc_threads C ! i = Handling m"
  shows "accounted (after_process i m r C)"
proof -
  have moved: "sum_list (map in_hand ((rc_threads C)[i := ph])) + {#m#} = all_in_hand C" if "in_hand ph = {#}" for ph
    using sum_list_update_mset [OF assms(2), of in_hand ph] assms(3) that by (simp add: all_in_hand_def)
  show ?thesis
    using assms(1) moved [of Working] moved [of "Acking m"]
    by (cases r) (simp_all add: after_process_def accounted_def all_in_hand_def Let_def)
qed

lemma accounted_step:
  assumes "consumer_step C C'" and "accounted C"
  shows "accounted C'"
  using assms(1)
proof (cases rule: consumer_step.cases)
  case (run answers)
  then show ?thesis using accounted_run [OF assms(2)] by simp
next
  case (work_take i m q)
  then show ?thesis using accounted_take [OF assms(2)] by simp
next
  case (handle i m run)
  then show ?thesis using accounted_process [OF assms(2)] by simp
next
  case (register stream i fn answer)
  then show ?thesis by (intro accounted_same [OF assms(2)]) (simp_all add: register_with_last_id_def Let_def split: sum.split)
next
  case shutdown
  then show ?thesis by (intro accounted_same [OF assms(2)]) (simp_all add: consumer_shutdown_def)
next
  case (poll_read i ans)
  then show ?thesis using assms(2) by (cases ans) (simp_all add: after_read_def accounted_goto)
next
  case (reclaim_list i stream streams start lans)
  then show ?thesis using assms(2) by (cases lans) (simp_all add: after_list_def accounted_goto)
next
  case (reclaim_claim i streams r idle rs lastid cans)
  then show ?thesis using assms(2) by (cases cans) (simp_all add: after_claim_def accounted_goto)
next
  case (reclaim_gone i streams r rs lastid answer)
  then show ?thesis using assms(2) by (cases answer) (simp_all add: accounted_goto)
next
  case (reclaim_next i streams lastid)
  then show ?thesis using assms(2) accounted_same [OF assms(2)]
    by (auto simp: after_items_def accounted_goto split: sum.split go_err.split)
next
  case (ack i m answer)
  then show ?thesis using assms(2) by (cases answer) (simp_all add: accounted_goto)
next
  case (delete i m answer)
  then show ?thesis using assms(2) by (cases answer) (simp_all add: accounted_goto)
next
  case (close i)
  have "accounted (goto i Ended (C\<lparr>rc_closed := True\<rparr>))"
    by (rule accounted_move [OF assms(2) close(3), of _ Ended]) (simp_all add: close(4))
  then show ?thesis using assms(2) close(1) by simp
next
  case (work_end i)
  have "accounted (goto i Ended (C\<lparr>rc_wg := rc_wg C - 1\<rparr>))"
    by (rule accounted_move [OF assms(2) work_end(3), of _ Ended]) (simp_all add: work_end(4))
  then show ?thesis using work_end(1) by simp
next
  case (background_ends i)
  then show ?thesis by (intro accounted_move [OF assms(2) background_ends(3), of _ Ended]) auto
qed (use assms(2) accounted_same [OF assms(2)] in \<open>simp_all add: accounted_goto\<close>)

lemma every_message_accounted: "consumer_reachable C \<Longrightarrow> accounted C"
proof (induction rule: consumer_reachable.induct)
  case (init hostname options C)
  then show ?case by (auto simp: new_consumer_def accounted_def all_in_hand_def)
next
  case (step C C')
  then show ?case using accounted_step by blast
qed

subsection \<open>Running again\<close>

text \<open>A consumer that was shut down and has ended closes its queue a second time when it is run again, which panics.\<close>

lemma running_again_panics:
  assumes "rc_closed C" and "rc_stopped C" and "\<not> rc_running C" and "rc_bg C = 0" and "\<not> rc_panic C" and "rc_consumers C \<noteq> Map.empty"
    and "prepare_consumer_groups answers = Inr ()" and "0 < ro_visibility_timeout (rc_options C)"
  shows "\<exists>C'. consumer_step\<^sup>*\<^sup>* C C' \<and> rc_panic C'"
proof -
  let ?n = "length (rc_threads C)"
  define C1 where "C1 = run_context answers C"
  define C2 where "C2 = goto ?n Ended (C1\<lparr>rc_bg := rc_bg C1 - 1\<rparr>)"
  define C3 where "C3 = goto (Suc ?n) Ended (C2\<lparr>rc_bg := rc_bg C2 - 1\<rparr>)"
  have C1: "rc_threads C1 = rc_threads C @ [Reclaiming, Polling, Closing] @ replicate (nat (ro_concurrency (rc_options C))) Working"
      "rc_bg C1 = 2" "rc_stopped C1" "rc_closed C1" "\<not> rc_panic C1"
    using assms by (simp_all add: C1_def run_context_def Let_def)
  have C2: "rc_threads C2 = rc_threads C @ [Ended, Polling, Closing] @ replicate (nat (ro_concurrency (rc_options C))) Working"
      "rc_bg C2 = 1" "rc_stopped C2" "rc_closed C2" "\<not> rc_panic C2"
    using C1 by (simp_all add: C2_def goto_def list_update_append)
  have C3: "rc_threads C3 = rc_threads C @ [Ended, Ended, Closing] @ replicate (nat (ro_concurrency (rc_options C))) Working"
      "rc_bg C3 = 0" "rc_closed C3" "\<not> rc_panic C3"
    using C2 by (simp_all add: C3_def goto_def list_update_append)
  have "consumer_step C C1" unfolding C1_def by (rule consumer_step.run) (use assms(5) in simp)
  moreover have "consumer_step C1 C2"
    unfolding C2_def by (rule consumer_step.background_ends) (use C1 in \<open>simp_all add: nth_append\<close>)
  moreover have "consumer_step C2 C3"
    unfolding C3_def by (rule consumer_step.background_ends) (use C2 in \<open>simp_all add: nth_append\<close>)
  moreover have "consumer_step C3 (if rc_closed C3 then C3\<lparr>rc_panic := True\<rparr> else goto (Suc (Suc ?n)) Ended (C3\<lparr>rc_closed := True\<rparr>))"
    by (rule consumer_step.close) (use C3 in \<open>simp_all add: nth_append\<close>)
  ultimately have "consumer_step\<^sup>*\<^sup>* C (C3\<lparr>rc_panic := True\<rparr>)" using C3(3) by (simp add: converse_rtranclp_into_rtranclp)
  then show ?thesis by (intro exI [of _ "C3\<lparr>rc_panic := True\<rparr>"]) simp
qed

end
