(* ===== verification/Redis_Delayed.thy ===== *)
theory Redis_Delayed
  imports Redis_Queue
begin

text \<open>
  The queue over Redis streams (queue/redis/redis.go): its configuration, its life cycle, and its delayed messages, which are plans in a
  sorted set with their payloads in a hash. Redis is the record \<open>plan_store\<close> of the commands, on a state \<open>'db\<close>; a transaction is one
  command. JSON is the pair \<open>encode\<close> and \<open>decode\<close>.
\<close>

subsection \<open>Configuration\<close>

record consumer_conf =
  cf_visibility_timeout :: "duration option"
  cf_blocking_timeout :: "duration option"
  cf_reclaim_interval :: "duration option"
  cf_buffer_size :: int
  cf_concurrency :: int

record producer_conf =
  cf_max_length :: int
  cf_approximate :: bool

definition duration_value :: "duration option \<Rightarrow> duration" where
  "duration_value v = (case v of None \<Rightarrow> 0 | Some d \<Rightarrow> d)"

text \<open>The parts of the configuration may be missing at any level.\<close>

definition build_consumer_options :: "consumer_conf option option option \<Rightarrow> consumer_options" where
  "build_consumer_options cfg =
     (let o0 = \<lparr>ro_name = [], ro_group_name = [], ro_visibility_timeout = 0, ro_blocking_timeout = 0, ro_reclaim_interval = 0,
                ro_buffer_size = 0, ro_concurrency = 0\<rparr> in
      case cfg of
        Some (Some (Some c)) \<Rightarrow>
          o0\<lparr>ro_visibility_timeout := duration_value (cf_visibility_timeout c), ro_blocking_timeout := duration_value (cf_blocking_timeout c),
             ro_reclaim_interval := duration_value (cf_reclaim_interval c), ro_buffer_size := cf_buffer_size c, ro_concurrency := cf_concurrency c\<rparr>
      | _ \<Rightarrow> o0)"

definition build_producer_options :: "producer_conf option option option \<Rightarrow> producer_options" where
  "build_producer_options cfg =
     (case cfg of
        Some (Some (Some c)) \<Rightarrow> \<lparr>po_max_length = cf_max_length c, po_approximate = cf_approximate c\<rparr>
      | _ \<Rightarrow> \<lparr>po_max_length = 0, po_approximate = True\<rparr>)"

lemma missing_configuration_gets_defaults:
  "normalize_consumer_options h (Some (build_consumer_options None)) = normalize_consumer_options h None"
  "normalize_producer_options (Some (build_producer_options None)) = default_producer_options"
  by (simp_all add: build_consumer_options_def normalize_consumer_options_def build_producer_options_def normalize_producer_options_def
      default_producer_options_def)

subsection \<open>Plans\<close>

record 'v queue_message =
  qm_id :: string
  qm_values :: 'v
  qm_error_count :: int

record 'v delayed_message =
  dm_stream :: string
  dm_message :: "'v queue_message"

record ('db, 'v) plan_store =
  ps_plan :: "string \<Rightarrow> string \<Rightarrow> int \<Rightarrow> 'db \<Rightarrow> unit res \<times> 'db"
  ps_unplan :: "string \<Rightarrow> 'db \<Rightarrow> unit res \<times> 'db"
  ps_due :: "int \<Rightarrow> nat \<Rightarrow> 'db \<Rightarrow> string list res \<times> 'db"
  ps_set_nx :: "string \<Rightarrow> duration \<Rightarrow> 'db \<Rightarrow> bool res \<times> 'db"
  ps_del :: "string \<Rightarrow> 'db \<Rightarrow> 'db"
  ps_payload :: "string \<Rightarrow> 'db \<Rightarrow> string option res \<times> 'db"
  ps_zrem :: "string \<Rightarrow> 'db \<Rightarrow> unit res \<times> 'db"
  ps_append :: "string \<Rightarrow> 'v queue_message \<Rightarrow> 'db \<Rightarrow> unit res \<times> 'db"

definition delayed_lock_prefix :: string where "delayed_lock_prefix = ''kratos:queue:delayed:lock:''"
definition delayed_batch_size :: nat where "delayed_batch_size = 100"
definition delayed_lock_ttl :: duration where "delayed_lock_ttl = 30 * second"

definition delayed_member :: "string \<Rightarrow> string \<Rightarrow> string" where
  "delayed_member stream message_id = stream @ [CHR 0x00] @ message_id"

definition append_message :: "('v rmessage \<Rightarrow> 'db \<Rightarrow> unit res \<times> 'db) \<Rightarrow> string \<Rightarrow> 'v queue_message \<Rightarrow> 'db \<Rightarrow> unit res \<times> 'db" where
  "append_message enqueue stream m = enqueue \<lparr>rm_id = qm_id m, rm_stream = stream, rm_values = qm_values m\<rparr>"

definition redis_schedule ::
    "('db, 'v) plan_store \<Rightarrow> ('v delayed_message \<Rightarrow> string res) \<Rightarrow> string \<Rightarrow> 'v queue_message \<Rightarrow> gotime \<Rightarrow> 'db \<Rightarrow> unit res \<times> 'db" where
  "redis_schedule R encode stream m execute_at db =
     (if stream = [] then (Inl (NewErr ''queue stream is empty''), db)
      else if qm_id m = [] then (Inl (NewErr ''delayed message id is empty''), db)
      else (case encode \<lparr>dm_stream = stream, dm_message = m\<rparr> of
              Inl e \<Rightarrow> (Inl (WrapErr ''marshal delayed message failed'' e), db)
            | Inr payload \<Rightarrow> ps_plan R (delayed_member stream (qm_id m)) payload (unix_nano execute_at div 1000000) db))"

definition redis_cancel :: "('db, 'v) plan_store \<Rightarrow> string \<Rightarrow> string \<Rightarrow> 'db \<Rightarrow> unit res \<times> 'db" where
  "redis_cancel R stream message_id db =
     (if stream = [] \<or> message_id = [] then (Inr (), db) else ps_unplan R (delayed_member stream message_id) db)"

definition dispatch_delayed_member ::
    "('db, 'v) plan_store \<Rightarrow> (string \<Rightarrow> 'v delayed_message res) \<Rightarrow> string \<Rightarrow> 'db \<Rightarrow> unit res \<times> 'db" where
  "dispatch_delayed_member R decode member db =
     (let lock_key = delayed_lock_prefix @ member in
      case ps_set_nx R lock_key delayed_lock_ttl db of
        (Inl e, db1) \<Rightarrow> (Inl e, db1)
      | (Inr False, db1) \<Rightarrow> (Inr (), db1)
      | (Inr True, db1) \<Rightarrow>
          apsnd (ps_del R lock_key)
            (case ps_payload R member db1 of
               (Inl e, db2) \<Rightarrow> (Inl e, db2)
             | (Inr None, db2) \<Rightarrow> ps_zrem R member db2
             | (Inr (Some raw), db2) \<Rightarrow>
                 (case decode raw of
                    Inl e \<Rightarrow> (Inl (WrapErr ''unmarshal delayed message failed'' e), db2)
                  | Inr d \<Rightarrow>
                      (case ps_append R (dm_stream d) ((dm_message d)\<lparr>qm_id := []\<rparr>) db2 of
                         (Inl e, db3) \<Rightarrow> (Inl e, db3)
                       | (Inr _, db3) \<Rightarrow> ps_unplan R member db3))))"

fun dispatch_each ::
    "('db, 'v) plan_store \<Rightarrow> (string \<Rightarrow> 'v delayed_message res) \<Rightarrow> string list \<Rightarrow> 'db \<Rightarrow> unit res \<times> 'db" where
  "dispatch_each R decode [] db = (Inr (), db)"
| "dispatch_each R decode (m # ms) db =
     (case dispatch_delayed_member R decode m db of
        (Inl e, db') \<Rightarrow> (Inl e, db')
      | (Inr _, db') \<Rightarrow> dispatch_each R decode ms db')"

definition dispatch_due ::
    "('db, 'v) plan_store \<Rightarrow> (string \<Rightarrow> 'v delayed_message res) \<Rightarrow> gotime \<Rightarrow> 'db \<Rightarrow> unit res \<times> 'db" where
  "dispatch_due R decode now db =
     (case ps_due R (unix_nano now div 1000000) delayed_batch_size db of
        (Inl e, db') \<Rightarrow> (Inl e, db')
      | (Inr members, db') \<Rightarrow> dispatch_each R decode members db')"

text \<open>The rounds of \<open>runDelayed\<close>; an error ends a round only.\<close>

fun run_delayed :: "('db, 'v) plan_store \<Rightarrow> (string \<Rightarrow> 'v delayed_message res) \<Rightarrow> gotime list \<Rightarrow> 'db \<Rightarrow> 'db" where
  "run_delayed R decode [] db = db"
| "run_delayed R decode (now # nows) db = run_delayed R decode nows (snd (dispatch_due R decode now db))"

subsection \<open>The life cycle\<close>

text \<open>\<open>rq_started\<close> counts the pairs of goroutines \<open>start\<close> made.\<close>

record redis_queue =
  rq_has_consumer :: bool
  rq_running :: bool
  rq_started :: nat
  rq_delayed_cancelled :: bool

definition queue_start :: "redis_queue \<Rightarrow> redis_queue" where
  "queue_start Q =
     (if \<not> rq_has_consumer Q \<or> rq_running Q then Q
      else Q\<lparr>rq_running := True, rq_started := Suc (rq_started Q), rq_delayed_cancelled := False\<rparr>)"

definition queue_consumer_returned :: "redis_queue \<Rightarrow> redis_queue" where
  "queue_consumer_returned Q = Q\<lparr>rq_running := False\<rparr>"

definition queue_register :: "string \<Rightarrow> 'f \<Rightarrow> ('f, 'v) consumer \<times> redis_queue \<Rightarrow> unit res \<Rightarrow> ('f, 'v) consumer \<times> redis_queue" where
  "queue_register stream fn CQ answer = (register_with_last_id stream ''0'' fn answer (fst CQ), queue_start (snd CQ))"

definition queue_shutdown :: "('f, 'v) consumer \<times> redis_queue \<Rightarrow> ('f, 'v) consumer \<times> redis_queue" where
  "queue_shutdown CQ =
     ((if rq_has_consumer (snd CQ) then consumer_shutdown (fst CQ) else fst CQ), (snd CQ)\<lparr>rq_delayed_cancelled := True\<rparr>)"

subsection \<open>Plans and the stream\<close>

text \<open>
  What is asked of Redis: \<open>plans\<close> reads the plans, with their payloads, and \<open>sent\<close> the messages in the streams. A transaction that gives an
  error did nothing; the locks are apart; what is due are planned members.
\<close>

definition store_ok ::
    "('db, 'v) plan_store \<Rightarrow> ('db \<Rightarrow> string \<Rightarrow> (int \<times> string) option) \<Rightarrow> ('db \<Rightarrow> (string \<times> 'v queue_message) list) \<Rightarrow> bool" where
  "store_ok R plans sent \<longleftrightarrow>
     (\<forall>m p t db r db'. ps_plan R m p t db = (r, db') \<longrightarrow> sent db' = sent db \<and> plans db' = (if is_ok r then (plans db)(m \<mapsto> (t, p)) else plans db)) \<and>
     (\<forall>m db r db'. ps_unplan R m db = (r, db') \<longrightarrow> sent db' = sent db \<and> plans db' = (if is_ok r then (plans db)(m := None) else plans db)) \<and>
     (\<forall>t n db r db'. ps_due R t n db = (r, db') \<longrightarrow> sent db' = sent db \<and> plans db' = plans db) \<and>
     (\<forall>k t db r db'. ps_set_nx R k t db = (r, db') \<longrightarrow> sent db' = sent db \<and> plans db' = plans db) \<and>
     (\<forall>k db. sent (ps_del R k db) = sent db \<and> plans (ps_del R k db) = plans db) \<and>
     (\<forall>m db r db'. ps_payload R m db = (r, db') \<longrightarrow>
        sent db' = sent db \<and> plans db' = plans db \<and> (is_ok r \<longrightarrow> r = Inr (map_option snd (plans db m)))) \<and>
     (\<forall>m db r db'. ps_zrem R m db = (r, db') \<longrightarrow> sent db' = sent db \<and> plans db' = (if is_ok r then (plans db)(m := None) else plans db)) \<and>
     (\<forall>s m db r db'. ps_append R s m db = (r, db') \<longrightarrow> plans db' = plans db \<and> sent db' = (if is_ok r then sent db @ [(s, m)] else sent db))"

lemma store_okD:
  assumes "store_ok R plans sent"
  shows "ps_unplan R m db = (r, db') \<Longrightarrow> sent db' = sent db \<and> plans db' = (if is_ok r then (plans db)(m := None) else plans db)"
    and "ps_due R t n db = (ms, db') \<Longrightarrow> sent db' = sent db \<and> plans db' = plans db"
    and "ps_set_nx R k ttl db = (b, db') \<Longrightarrow> sent db' = sent db \<and> plans db' = plans db"
    and "sent (ps_del R k db) = sent db \<and> plans (ps_del R k db) = plans db"
    and "ps_payload R m db = (pl, db') \<Longrightarrow> sent db' = sent db \<and> plans db' = plans db \<and> (is_ok pl \<longrightarrow> pl = Inr (map_option snd (plans db m)))"
    and "ps_zrem R m db = (r, db') \<Longrightarrow> sent db' = sent db \<and> plans db' = (if is_ok r then (plans db)(m := None) else plans db)"
    and "ps_append R stream msg db = (r, db') \<Longrightarrow> plans db' = plans db \<and> sent db' = (if is_ok r then sent db @ [(stream, msg)] else sent db)"
proof -
  note laws = assms [unfolded store_ok_def]
  show "ps_unplan R m db = (r, db') \<Longrightarrow> sent db' = sent db \<and> plans db' = (if is_ok r then (plans db)(m := None) else plans db)"
    using laws [THEN conjunct2, THEN conjunct1] by metis
  show "ps_due R t n db = (ms, db') \<Longrightarrow> sent db' = sent db \<and> plans db' = plans db"
    using laws [THEN conjunct2, THEN conjunct2, THEN conjunct1] by metis
  show "ps_set_nx R k ttl db = (b, db') \<Longrightarrow> sent db' = sent db \<and> plans db' = plans db"
    using laws [THEN conjunct2, THEN conjunct2, THEN conjunct2, THEN conjunct1] by metis
  show "sent (ps_del R k db) = sent db \<and> plans (ps_del R k db) = plans db"
    using laws [THEN conjunct2, THEN conjunct2, THEN conjunct2, THEN conjunct2, THEN conjunct1] by metis
  show "ps_payload R m db = (pl, db') \<Longrightarrow> sent db' = sent db \<and> plans db' = plans db \<and> (is_ok pl \<longrightarrow> pl = Inr (map_option snd (plans db m)))"
    using laws [THEN conjunct2, THEN conjunct2, THEN conjunct2, THEN conjunct2, THEN conjunct2, THEN conjunct1] by metis
  show "ps_zrem R m db = (r, db') \<Longrightarrow> sent db' = sent db \<and> plans db' = (if is_ok r then (plans db)(m := None) else plans db)"
    using laws [THEN conjunct2, THEN conjunct2, THEN conjunct2, THEN conjunct2, THEN conjunct2, THEN conjunct2, THEN conjunct1] by metis
  show "ps_append R stream msg db = (r, db') \<Longrightarrow> plans db' = plans db \<and> sent db' = (if is_ok r then sent db @ [(stream, msg)] else sent db)"
    using laws [THEN conjunct2, THEN conjunct2, THEN conjunct2, THEN conjunct2, THEN conjunct2, THEN conjunct2, THEN conjunct2] by metis
qed

text \<open>What one attempt at a member does to the plans and the streams.\<close>

lemma dispatch_member_effect:
  assumes "store_ok R plans sent" and "dispatch_delayed_member R decode member db = (r, db')"
  shows "(plans db' = plans db \<and> sent db' = sent db) \<or>
    (\<exists>t raw d. plans db member = Some (t, raw) \<and> decode raw = Inr d \<and>
       sent db' = sent db @ [(dm_stream d, (dm_message d)\<lparr>qm_id := []\<rparr>)] \<and>
       plans db' = (if is_ok r then (plans db)(member := None) else plans db)) \<or>
    (plans db member = None \<and> plans db' = plans db \<and> sent db' = sent db)"
proof -
  obtain c db1 where nx: "ps_set_nx R (delayed_lock_prefix @ member) delayed_lock_ttl db = (c, db1)" by fastforce
  obtain p db2 where pay: "ps_payload R member db1 = (p, db2)" by fastforce
  have at1: "sent db1 = sent db" "plans db1 = plans db" using store_okD(3) [OF assms(1) nx] by simp_all
  have at2: "sent db2 = sent db1" "plans db2 = plans db1" "is_ok p \<Longrightarrow> p = Inr (map_option snd (plans db1 member))"
    using store_okD(5) [OF assms(1) pay] by simp_all
  have del: "sent (ps_del R k x) = sent x" "plans (ps_del R k x) = plans x" for k x
    using store_okD(4) [OF assms(1)] by simp_all+
  show ?thesis
  proof (cases "c = Inr True \<and> is_ok p")
    case False
    then show ?thesis using assms(2) nx pay at1 at2 del
      by (auto simp: dispatch_delayed_member_def Let_def split: sum.splits bool.splits option.splits)
  next
    case True
    then have p: "p = Inr (map_option snd (plans db member))" using at2(3) at1 by simp
    show ?thesis
    proof (cases "plans db member")
      case None
      obtain z db3 where zrem: "ps_zrem R member db2 = (z, db3)" by fastforce
      have "sent db3 = sent db2" "plans db3 = (if is_ok z then (plans db2)(member := None) else plans db2)"
        using store_okD(6) [OF assms(1) zrem] by simp_all
      then show ?thesis using assms(2) nx pay at1 at2 del True p None zrem
        by (auto simp: dispatch_delayed_member_def Let_def)
    next
      case (Some tp)
      obtain t raw where tp: "tp = (t, raw)" by fastforce
      show ?thesis
      proof (cases "decode raw")
        case (Inl e)
        then show ?thesis using assms(2) nx pay at1 at2 del True p Some tp
          by (auto simp: dispatch_delayed_member_def Let_def)
      next
        case (Inr d)
        obtain a db3 where app: "ps_append R (dm_stream d) ((dm_message d)\<lparr>qm_id := []\<rparr>) db2 = (a, db3)" by fastforce
        obtain u db4 where un: "ps_unplan R member db3 = (u, db4)" by fastforce
        have at3: "plans db3 = plans db2" "sent db3 = (if is_ok a then sent db2 @ [(dm_stream d, (dm_message d)\<lparr>qm_id := []\<rparr>)] else sent db2)"
          using store_okD(7) [OF assms(1) app] by simp_all
        have at4: "sent db4 = sent db3" "plans db4 = (if is_ok u then (plans db3)(member := None) else plans db3)"
          using store_okD(1) [OF assms(1) un] by simp_all
        show ?thesis using assms(2) nx pay at1 at2(1,2) at3 at4 del True p Some tp Inr app un
          by (cases a) (auto simp: dispatch_delayed_member_def Let_def)
      qed
    qed
  qed
qed

text \<open>A plan goes only with its message sent: if no call overlaps the rounds, a member that is planned no more was sent.\<close>

definition sent_for :: "(string \<Rightarrow> 'v delayed_message res) \<Rightarrow> string \<Rightarrow> (string \<times> 'v queue_message) list \<Rightarrow> bool" where
  "sent_for decode raw msgs \<longleftrightarrow> (\<exists>d. decode raw = Inr d \<and> (dm_stream d, (dm_message d)\<lparr>qm_id := []\<rparr>) \<in> set msgs)"

definition kept_or_sent ::
    "('db \<Rightarrow> string \<Rightarrow> (int \<times> string) option) \<Rightarrow> ('db \<Rightarrow> (string \<times> 'v queue_message) list) \<Rightarrow> (string \<Rightarrow> 'v delayed_message res)
     \<Rightarrow> 'db \<Rightarrow> 'db \<Rightarrow> bool" where
  "kept_or_sent plans sent decode db db' \<longleftrightarrow> set (sent db) \<subseteq> set (sent db') \<and>
     (\<forall>m t raw. plans db m = Some (t, raw) \<longrightarrow> plans db' m = Some (t, raw) \<or> sent_for decode raw (sent db'))"

lemma kept_or_sent_refl: "kept_or_sent plans sent decode db db"
  by (simp add: kept_or_sent_def)

lemma kept_or_sent_trans:
  "kept_or_sent plans sent decode db1 db2 \<Longrightarrow> kept_or_sent plans sent decode db2 db3 \<Longrightarrow> kept_or_sent plans sent decode db1 db3"
  unfolding kept_or_sent_def sent_for_def by (meson subset_iff)

lemma dispatch_member_keeps:
  assumes "store_ok R plans sent"
  shows "kept_or_sent plans sent decode db (snd (dispatch_delayed_member R decode member db))"
proof -
  obtain r db' where d: "dispatch_delayed_member R decode member db = (r, db')" by fastforce
  show ?thesis using dispatch_member_effect [OF assms d] unfolding d kept_or_sent_def sent_for_def
    by (auto split: if_splits)
qed

lemma dispatch_each_keeps:
  assumes "store_ok R plans sent"
  shows "kept_or_sent plans sent decode db (snd (dispatch_each R decode ms db))"
proof (induction ms arbitrary: db)
  case Nil
  show ?case by (simp add: kept_or_sent_refl)
next
  case (Cons m ms)
  obtain r db' where d: "dispatch_delayed_member R decode m db = (r, db')" by fastforce
  have first: "kept_or_sent plans sent decode db db'" using dispatch_member_keeps [OF assms, of decode db m] d by simp
  show ?case using first kept_or_sent_trans [OF first Cons.IH] d by (cases r) simp_all
qed

lemma run_delayed_keeps:
  assumes "store_ok R plans sent"
  shows "kept_or_sent plans sent decode db (run_delayed R decode nows db)"
proof (induction nows arbitrary: db)
  case Nil
  show ?case by (simp add: kept_or_sent_refl)
next
  case (Cons now nows)
  have "kept_or_sent plans sent decode db (snd (dispatch_due R decode now db))"
  proof -
    obtain r db1 where due: "ps_due R (unix_nano now div 1000000) delayed_batch_size db = (r, db1)" by fastforce
    have "sent db1 = sent db" "plans db1 = plans db" using store_okD(2) [OF assms due] by simp_all
    then have "kept_or_sent plans sent decode db db1" by (simp add: kept_or_sent_def)
    then show ?thesis using due kept_or_sent_trans [OF _ dispatch_each_keeps [OF assms, of decode db1]]
      by (cases r) (simp_all add: dispatch_due_def)
  qed
  from kept_or_sent_trans [OF this Cons.IH] show ?case by simp
qed

subsection \<open>A plan that cannot be dispatched\<close>

text \<open>
  An error ends a round, and the plan that gave it is the first one again in the next: if the payload of the earliest plan cannot be
  decoded, no later plan is ever dispatched.
\<close>

lemma bad_payload_blocks_all:
  assumes "store_ok R plans sent"
    and first: "\<And>t n db ms db'. ps_due R t n db = (ms, db') \<Longrightarrow> plans db bad \<noteq> None \<Longrightarrow> (\<exists>rest. ms = Inr (bad # rest))"
    and locked: "\<And>k ttl db. fst (ps_set_nx R k ttl db) = Inr True"
    and "plans db bad = Some (t, raw)" and "\<And>r. decode raw \<noteq> Inr r"
  shows "plans (run_delayed R decode nows db) = plans db \<and> sent (run_delayed R decode nows db) = sent db"
  using assms(4)
proof (induction nows arbitrary: db)
  case (Cons now nows)
  obtain ms db1 where due: "ps_due R (unix_nano now div 1000000) delayed_batch_size db = (ms, db1)" by fastforce
  obtain rest where ms: "ms = Inr (bad # rest)" using first [OF due] Cons.prems by auto
  have at1: "sent db1 = sent db" "plans db1 = plans db" using store_okD(2) [OF assms(1) due] by simp_all
  obtain e where e: "decode raw = Inl e" using assms(5) by (cases "decode raw") auto
  obtain r db2 where d: "dispatch_delayed_member R decode bad db1 = (r, db2)" by fastforce
  have same: "plans db2 = plans db1 \<and> sent db2 = sent db1"
    using dispatch_member_effect [OF assms(1) d] Cons.prems at1 e by auto
  have "\<not> is_ok r"
  proof -
    obtain db' where nx: "ps_set_nx R (delayed_lock_prefix @ bad) delayed_lock_ttl db1 = (Inr True, db')"
      using locked [of "delayed_lock_prefix @ bad" delayed_lock_ttl db1] by (metis prod.collapse)
    obtain pl db'' where pay: "ps_payload R bad db' = (pl, db'')" by fastforce
    have "plans db' bad = Some (t, raw)" using store_okD(3) [OF assms(1) nx] at1 Cons.prems by simp
    then have "is_ok pl \<Longrightarrow> pl = Inr (Some raw)" using store_okD(5) [OF assms(1) pay] by simp
    then show ?thesis using d nx pay e by (cases pl) (auto simp: dispatch_delayed_member_def Let_def)
  qed
  then have "snd (dispatch_due R decode now db) = db2"
    using due ms d by (cases r) (simp_all add: dispatch_due_def)
  then show ?case using Cons.IH [of db2] Cons.prems same at1 by simp
qed simp

end
