(* ===== verification/Spec2Isabelle.thy ===== *)
theory Spec2Isabelle
  imports Go_Base Go_Strings Go_Json Go_Base64 Cache_Interface Memory_Cache Rate_Limit Auth_Claims User_Token
    Hmac_Auth Session_Store Auth_Pipeline Retry Health_Check Config_Secret Locker_Memory Go_Imports Migration_Registry
    Migration_Assets Migration_Runner Migration_Ledger Sse_Wire Sse_Stream Go_Heap Timer_Engine Go_Utf8
    Redact_Mask Redact_Policy Redact_Message Redact_Walk Redact_Storage
    Sql_Scan Sql_Clause Sql_Join Sql_Join_Cover Sql_Tenant Sql_Project Sql_Data_Scope Sql_Models Sql_Audit Sql_Callbacks
    Memory_Queue Memory_Queue_Faults Memory_Queue_Delayed Secret_Keys Secret_Messages
    Captcha_Config Captcha_Driver Captcha_Service Registry_Names Local_Cache
    Broker_Message Broker_Subscribers Broker_Server Broker_Mqtt Redis_Queue Redis_Delayed
begin

text \<open>
  kratos-kit is a kit of components for Go services: caches, rate limiters, authentication, authorization,
  configuration, database migrations, locks, queues, transports. This library models the components that carry
  logic of their own and proves what each promises. Each theory opens with what it models; this is the map.

  The prelude:
    \<^item> \<open>Go_Base\<close>: errors as values (\<open>go_err\<close>, \<open>'a res\<close>), instants and durations, nil-able maps, 64-bit wrap-around, floats.
    \<^item> \<open>Go_Strings\<close>: the string functions of the Go library the sources call, on byte lists.
    \<^item> \<open>Go_Json\<close>: the JSON the sources write and read, with the round trip of its printer and parser.
    \<^item> \<open>Go_Base64\<close>: raw URL base64 and padded standard base64, with their round trips.
    \<^item> \<open>Go_Utf8\<close>: the decoding of byte strings into code points that Go's \<open>[]rune\<close> conversion performs.
    \<^item> \<open>Go_Heap\<close>: Go's \<open>container/heap\<close> with the multiset contract \<open>priority_queue\<close>, which \<open>go_heap\<close> interprets.

  Caches and rate limits:
    \<^item> \<open>Cache_Interface\<close> (cache/cache.go, cache/revision.go): the operations the other components program against, as a record,
      and the contract a provider keeps, as the locales \<open>kv_cache\<close> and \<open>revocable_cache\<close>.
    \<^item> \<open>Memory_Cache\<close> (cache/memory/memory.go): the in-memory provider; each method is one step under its mutex. It refines the map
      in which a key disappears at its expiry, and it interprets both locales, which is how the components above get
      their theorems on it.
    \<^item> \<open>Local_Cache\<close> (cache/local/local.go): the cache over FreeCache, a record of operations, and its callers interleaved at the level of its
      256 locks; what \<open>GetDel\<close> hands out, and how lifetimes are rounded.
    \<^item> \<open>Rate_Limit\<close> (cache/store/rate_limit.go, cache/memory/rate_limit.go): the five algorithms and the atomic admission over several
      keys, with the bound each algorithm promises. Floats are reals with a rounding function where rounding matters.

  Identity:
    \<^item> \<open>Auth_Claims\<close> (auth/authn/engine/claims.go, auth/data/user_token_payload.go): dynamically typed claims, the user payload and
      its way through a token.
    \<^item> \<open>User_Token\<close> (auth/data/user_token.go): login sessions, access and refresh tokens over any cache; validity, rotation
      and the finality of revocation under interleaving.
    \<^item> \<open>Hmac_Auth\<close> (auth/authn/engine/hmac/hmac.go): signed requests and the replay store.
    \<^item> \<open>Session_Store\<close> (auth/authn/engine/session/session.go): sessions in memory.
    \<^item> \<open>Auth_Pipeline\<close> (auth/auth.go, auth/jwt.go and the authn and authz middlewares): what a request must pass before its handler
      runs, and what identity the handler sees.

  Operation:
    \<^item> \<open>Retry\<close> (retry/retry.go): the retry loop over an environment of outcomes, and the backoff delays.
    \<^item> \<open>Health_Check\<close> (health/health.go, health/handler.go): the aggregation of concurrent checks under a deadline.
    \<^item> \<open>Config_Secret\<close> (config/secret.go): encrypted values in configuration trees.
    \<^item> \<open>Locker_Memory\<close> (locker/memory/memory.go): try-locks as interleaved atomic steps, with mutual exclusion by invariant.
    \<^item> \<open>Go_Imports\<close> (cmd/normalize-go-imports/main.go): the choice of import names and the application of edits.
    \<^item> \<open>Timer_Engine\<close> (transport/hptimer): the timer engine: its heap of tasks, its loop, adding, replacing and removing.

  Database migrations (database/gorm/migration):
    \<^item> \<open>Migration_Registry\<close> (registry.go): registration of modules, their dependency search, and versions.
    \<^item> \<open>Migration_Assets\<close> (assets.go): which embedded files of a module belong to a database, in which order, and their checks.
    \<^item> \<open>Migration_Runner\<close> (runner.go): the locks, the loading of the module tree and its execution. The recursion over modules runs
      on fuel; \<open>migration_run_ends\<close> shows that as many units as there are modules, plus one, are enough for every registry
      that was created without error.
    \<^item> \<open>Migration_Ledger\<close>: the abstract ledger of executed and recorded resources that a run refines, and what follows:
      completeness and idempotence.

  Server-sent events (transport/sse):
    \<^item> \<open>Sse_Wire\<close>: the bytes the server writes for an event and the client's scanner and parser, with their round trip.
    \<^item> \<open>Sse_Stream\<close>: a stream's loop, its subscribers and its event log as a step relation, with exactly-once delivery.

  Redaction (redact):
    \<^item> \<open>Redact_Mask\<close> (redactor.go, text.go): the algorithms on strings; what masking keeps, and that it is idempotent.
    \<^item> \<open>Redact_Policy\<close> (redactor.go): the request context and the policies built from stored rules, which keep the type of a value.
    \<^item> \<open>Redact_Message\<close> (redactor.go, stream.go): the walks over protobuf messages and their entry points.
    \<^item> \<open>Redact_Walk\<close>: well-typed messages and their scalars; a walk keeps the type and decides every scalar on its own.
    \<^item> \<open>Redact_Storage\<close> (storage.go, storage_runtime.go): columns that hold masks, with the values encrypted in a side table; the round
      trip, and what a mask that is sent back does.

  Data isolation in SQL (database/gorm/internal/callback):
    \<^item> \<open>Sql_Scan\<close> (sql.go): the scanner of raw joins and the rewriting of their \<open>ON\<close> conditions, byte by byte.
    \<^item> \<open>Sql_Clause\<close> (isolation.go): statements and expressions, their meaning on a row, and the rules all callbacks share.
    \<^item> \<open>Sql_Join\<close> (join.go): which joins of a statement reach a scoped table, and where their condition is written.
    \<^item> \<open>Sql_Join_Cover\<close>: every scoped join of a statement is covered by a condition. The rows a statement joins are over-approximated
      (\<open>joined_row\<close>): a row of a table may be joined if the conditions in its \<open>ON\<close> hold, and an outer join may leave a table out.
    \<^item> \<open>Sql_Tenant\<close> (tenant.go), \<open>Sql_Project\<close> (project.go), \<open>Sql_Data_Scope\<close> (data_scope.go): the three isolations; what rows a statement
      selects and which records may be written. The theorems on selected rows ask that no condition is joined by OR (\<open>tenant_or_escapes\<close> shows why),
      that aliases are distinct and that no join of GORM is a full one.
    \<^item> \<open>Sql_Models\<close> (models.go), \<open>Sql_Audit\<close> (audit.go), \<open>Sql_Callbacks\<close> (registry.go, install.go): the registry of models and its cache under
      interleaving, the audit fields, and the chain of callbacks. GORM's ordering of a chain, \<open>schema.Parse\<close>, the setting of a field and the
      loader of projects are parameters.

  In-memory queue (queue/memory/memory.go):
    \<^item> \<open>Memory_Queue\<close>: streams, channels, senders, consumers with their repetitions, and the shutdown, as interleaved steps; where each message is,
      what a stream with a consumer guarantees, and that a shutdown ends. \<open>work s\<close> bounds the steps the goroutines can still make on their own.
    \<^item> \<open>Memory_Queue_Faults\<close>: a message lost to two racing first appends, and a consumer that blocks itself.
    \<^item> \<open>Memory_Queue_Delayed\<close>: \<open>Schedule\<close>, \<open>Cancel\<close> and the callbacks, over \<open>Timer_Engine\<close>.

  Queue over Redis streams (queue/redisqueue, queue/redis). What Redis answers is arbitrary or a record of commands:
    \<^item> \<open>Redis_Queue\<close> (consumer.go, producer.go, redis.go): the goroutines of a consumer, interleaved, with the log of the commands that remove
      messages; where each message a consumer read is.
    \<^item> \<open>Redis_Delayed\<close> (queue/redis/redis.go): plans and their dispatch, one call at a time.

  One-time encryption keys (secretcrypto):
    \<^item> \<open>Secret_Keys\<close> (secretcrypto.go, fieldenvelope.go): key pairs handed out once through \<open>GetDel\<close> of the cache, and the envelopes
      of stored fields. RSA and AES-GCM are the record \<open>crypto\<close>; \<open>key_pair_ok\<close> is what is asked of them.
    \<^item> \<open>Secret_Messages\<close> (middleware.go): the search for encrypted fields by message types, a partial function that does not end on a
      circle of types, and the clearing of a request after its handler.

  Captchas (captcha):
    \<^item> \<open>Captcha_Config\<close> (driver/config.go): the configurations and options, on a store of objects.
    \<^item> \<open>Captcha_Driver\<close> (driver/*.go): what each driver asks of its drawing library, the answer it keeps, and its check.
    \<^item> \<open>Captcha_Service\<close> (captcha.go, store.go): answers in a cache, used up by a success, but neither by a failure nor by checks
      that overlap.

  Service registries (registry):
    \<^item> \<open>Registry_Names\<close> (normalize.go, discovery.go, registrar.go): names that Consul and Kubernetes accept, over Go's tables of letters
      and digits, and the tables of factories.

  Message brokers (broker):
    \<^item> \<open>Broker_Message\<close> (message.go, publish.go, event.go, typed_handler.go): the envelope, the way of context values through its headers, the
      chains of middlewares and the typed handlers.
    \<^item> \<open>Broker_Subscribers\<close> (subscriber.go): the registry, with the calls of \<open>Unsubscribe\<close> interleaved.
    \<^item> \<open>Broker_Server\<close> (server.go): starting and stopping any broker that keeps \<open>broker_ok\<close>.
    \<^item> \<open>Broker_Mqtt\<close> (mqtt/mqtt.go, recording.go, options.go): connections, the handlers in the router, publishing and the statistics. The Paho
      library is the record \<open>paho_router\<close> with \<open>router_ok\<close>, and the answers of the network are arguments.

  Conventions. A mutable object is a record, passed and returned; what one method does under a mutex is one step. A
  clock reading, a random value, a fresh identifier and the order in which Go visits a map are arguments, and the theorems hold for all
  of them. Cryptography, policy engines, regular expressions and codecs outside the repository are arguments too; what a
  theorem uses of them is a named hypothesis. A panic is an error value. Loops are structural recursions, or functions
  with a termination proof where the loop has another measure; three definitions run on fuel. The migration runner is described above. The JSON parser
  has the length of its input, which the round trip shows to be enough for every printed value. \<open>User_Token\<close> cuts the recursion
  of a session lookup into the list of sessions; one unit is enough when no stored session has an empty identifier.

  Not modelled: adapters of other third-party
  clients, generated code and wiring have no logic to verify.
\<close>

end
